(* ===== verification/Prelude.thy ===== *)
theory Prelude
  imports Main "HOL-Library.Word"
begin

text \<open>
  What the component theories share: Go's fixed-width integer arithmetic written out over
  \<open>int\<close>, the type of fallible results, instants of time, lemmas on maps and lists that no
  component owns, and two interfaces as locales.

  \<^item> \<open>invariant_system\<close>: a step function that keeps an invariant; a run of any length keeps it.
  \<^item> \<open>token_ledger\<close>: a store of capabilities that can be issued and used. Its laws say that a
    use needs a live capability and ends its life, and that only an issue makes one live. The
    client lemma bounds the number of uses in any run by the number of issues.
  \<^item> \<open>one_shot\<close>: the special case in which a used key is remembered; every key is used at most
    once in a run. It is a \<open>token_ledger\<close> in which nothing is ever issued.

  Each component interprets the locale whose contract it provides.
\<close>

section \<open>Collections of facts\<close>

named_theorems guard_simps \<open>definitions of the code's guards and validators\<close>
named_theorems op_simps \<open>definitions of state-changing operations\<close>
named_theorems const_simps \<open>numeric constants of the source\<close>

section \<open>Results, integers and time\<close>

type_synonym ('e, 'a) result = "'e + 'a"

text \<open>The value of a 64-bit signed Go integer after an operation whose exact value is \<open>n\<close>.\<close>

definition wrap64 :: "int \<Rightarrow> int" where
  "wrap64 n = (n + 2 ^ 63) mod 2 ^ 64 - 2 ^ 63"

definition in_i64 :: "int \<Rightarrow> bool" where
  "in_i64 n \<longleftrightarrow> - (2 ^ 63) \<le> n \<and> n < 2 ^ 63"

abbreviation max_i64 :: int where
  "max_i64 \<equiv> 9223372036854775807"

lemma wrap64_id: "in_i64 n \<Longrightarrow> wrap64 n = n"
  by (simp add: in_i64_def wrap64_def)

lemma in_i64_wrap64: "in_i64 (wrap64 n)"
proof -
  have "0 \<le> (n + 2 ^ 63) mod 2 ^ 64" "(n + 2 ^ 63) mod 2 ^ 64 < (2 ^ 64 :: int)"
    by simp_all
  then show ?thesis unfolding wrap64_def in_i64_def by simp
qed

lemma wrap64_word: "wrap64 n = sint (word_of_int n :: 64 word)"
  by (simp add: wrap64_def signed_of_int signed_take_bit_eq_take_bit_shift take_bit_eq_mod)

text \<open>
  \<open>time.Time\<close> is an instant: nanoseconds since the zero time (1 January of year 1, UTC), which is
  what \<open>IsZero\<close> tests. Two instants are compared by \<open>Before\<close>, \<open>After\<close> and \<open>Equal\<close> as these
  numbers; \<open>UTC()\<close> does not change the instant. A \<open>time.Duration\<close> is a number of nanoseconds.
\<close>

type_synonym time = int
type_synonym duration = int

abbreviation second :: duration where "second \<equiv> 1000000000"
abbreviation minute :: duration where "minute \<equiv> 60 * second"
abbreviation hour :: duration where "hour \<equiv> 60 * minute"
abbreviation day :: duration where "day \<equiv> 24 * hour"

definition is_zero :: "time \<Rightarrow> bool" where
  [simp]: "is_zero t \<longleftrightarrow> t = 0"

text \<open>1 January 1970 as an instant, and Go's \<open>UnixNano\<close> (an \<open>int64\<close> that wraps) and \<open>Unix\<close>.\<close>

definition unix_epoch :: time where
  "unix_epoch = 62135596800 * second"

definition unix_nano :: "time \<Rightarrow> int" where
  "unix_nano t = wrap64 (t - unix_epoch)"

definition unix_sec :: "time \<Rightarrow> int" where
  "unix_sec t = (t - unix_epoch) div second"

section \<open>Lists and maps\<close>

lemma foldl_invariant:
  assumes "P s" and "\<And>s x. P s \<Longrightarrow> x \<in> set xs \<Longrightarrow> P (f s x)"
  shows "P (foldl f s xs)"
  using assms by (induction xs arbitrary: s) auto

lemma card_dom_upd_le: "finite (dom m) \<Longrightarrow> card (dom (m(k \<mapsto> v))) \<le> card (dom m) + 1"
  by (simp add: card_insert_if)

lemma dom_map_restrict: "dom (m |` A) = dom m \<inter> A"
  by auto

lemma finite_dom_restrict [intro]: "finite (dom m) \<Longrightarrow> finite (dom (m |` A))"
  by (simp add: dom_map_restrict)

definition filter_map :: "('v \<Rightarrow> bool) \<Rightarrow> ('k \<rightharpoonup> 'v) \<Rightarrow> ('k \<rightharpoonup> 'v)" where
  "filter_map P m k = (case m k of None \<Rightarrow> None | Some v \<Rightarrow> if P v then Some v else None)"

lemma filter_map_Some [simp]: "filter_map P m k = Some v \<longleftrightarrow> m k = Some v \<and> P v"
  by (auto simp: filter_map_def split: option.splits)

lemma filter_map_None: "filter_map P m k = None \<longleftrightarrow> (\<forall>v. m k = Some v \<longrightarrow> \<not> P v)"
  by (auto simp: filter_map_def split: option.splits)

lemma dom_filter_map: "dom (filter_map P m) \<subseteq> dom m"
  by (auto simp: filter_map_def split: option.splits if_splits)

lemma finite_filter_map [intro]: "finite (dom m) \<Longrightarrow> finite (dom (filter_map P m))"
  by (rule finite_subset [OF dom_filter_map])

lemma card_filter_map: "finite (dom m) \<Longrightarrow> card (dom (filter_map P m)) \<le> card (dom m)"
  by (rule card_mono [OF _ dom_filter_map])

lemma filter_map_empty [simp]: "filter_map P Map.empty = Map.empty"
  by (simp add: filter_map_def fun_eq_iff)

lemma filter_map_upd [simp]:
  "filter_map P (m(k \<mapsto> v)) = (if P v then (filter_map P m)(k \<mapsto> v) else (filter_map P m)(k := None))"
  by (auto simp: filter_map_def fun_eq_iff)

section \<open>Interfaces\<close>

text \<open>How often a predicate on (state, event) holds along a run.\<close>

primrec run_count :: "('s \<Rightarrow> 'e \<Rightarrow> 's) \<Rightarrow> ('s \<Rightarrow> 'e \<Rightarrow> bool) \<Rightarrow> 's \<Rightarrow> 'e list \<Rightarrow> nat" where
  "run_count step P s [] = 0"
| "run_count step P s (e # es) = (if P s e then 1 else 0) + run_count step P (step s e) es"

text \<open>The runs of a step relation, with the labels of their steps.\<close>

inductive run_of :: "('s \<Rightarrow> 'e \<Rightarrow> 's \<Rightarrow> bool) \<Rightarrow> 's \<Rightarrow> 'e list \<Rightarrow> 's \<Rightarrow> bool" for step where
  start: "run_of step s [] s"
| snoc: "run_of step s es s' \<Longrightarrow> step s' e s'' \<Longrightarrow> run_of step s (es @ [e]) s''"

lemma run_of_invariant:
  assumes "run_of step s es s'" "P s" and "\<And>s e s'. P s \<Longrightarrow> step s e s' \<Longrightarrow> P s'"
  shows "P s'"
  using assms by induction auto

lemma run_of_append: "run_of step s es s' \<Longrightarrow> run_of step s' fs s'' \<Longrightarrow> run_of step s (es @ fs) s''"
  by (rotate_tac, induction rule: run_of.induct) (auto simp: append_assoc [symmetric] simp del: append_assoc intro: run_of.snoc)

locale invariant_system =
  fixes step :: "'s \<Rightarrow> 'e \<Rightarrow> 's" and inv :: "'s \<Rightarrow> bool"
  assumes inv_step: "inv s \<Longrightarrow> inv (step s e)"
begin

lemma inv_run: "inv s \<Longrightarrow> inv (foldl step s es)"
  by (rule foldl_invariant) (auto intro: inv_step)

end

locale token_ledger = invariant_system step inv
  for step :: "'s \<Rightarrow> 'e \<Rightarrow> 's" and inv :: "'s \<Rightarrow> bool" +
  fixes issues :: "'k \<Rightarrow> 's \<Rightarrow> 'e \<Rightarrow> bool"
    and uses :: "'k \<Rightarrow> 's \<Rightarrow> 'e \<Rightarrow> bool"
    and live :: "'s \<Rightarrow> 'k \<Rightarrow> bool"
  assumes use_live: "inv s \<Longrightarrow> uses k s e \<Longrightarrow> live s k"
    and use_ends: "inv s \<Longrightarrow> uses k s e \<Longrightarrow> \<not> live (step s e) k"
    and live_from: "inv s \<Longrightarrow> live (step s e) k \<Longrightarrow> live s k \<or> issues k s e"
begin

lemma uses_bounded:
  "inv s \<Longrightarrow> run_count step (uses k) s es
     \<le> run_count step (issues k) s es + (if live s k then 1 else 0)"
proof (induction es arbitrary: s)
  case Nil
  then show ?case by simp
next
  case (Cons e es)
  note IH = Cons.IH [OF inv_step [OF Cons.prems], of e]
  show ?case
    using IH use_live [OF Cons.prems, of k e] use_ends [OF Cons.prems, of k e]
      live_from [OF Cons.prems, of e k]
    by (auto split: if_splits)
qed

lemma unused_unless_issued:
  "inv s \<Longrightarrow> \<not> live s k \<Longrightarrow> run_count step (issues k) s es = 0 \<Longrightarrow> run_count step (uses k) s es = 0"
  using uses_bounded [of s k es] by simp

end

locale one_shot = invariant_system step inv
  for step :: "'s \<Rightarrow> 'e \<Rightarrow> 's" and inv :: "'s \<Rightarrow> bool" +
  fixes accepts :: "'k \<Rightarrow> 's \<Rightarrow> 'e \<Rightarrow> bool"
    and spent :: "'s \<Rightarrow> 'k \<Rightarrow> bool"
  assumes accept_fresh: "inv s \<Longrightarrow> accepts k s e \<Longrightarrow> \<not> spent s k"
    and accept_spends: "inv s \<Longrightarrow> accepts k s e \<Longrightarrow> spent (step s e) k"
    and spent_stays: "inv s \<Longrightarrow> spent s k \<Longrightarrow> spent (step s e) k"

sublocale one_shot \<subseteq> token_ledger step inv "\<lambda>_ _ _. False" accepts "\<lambda>s k. \<not> spent s k"
  by unfold_locales (auto dest: accept_fresh accept_spends spent_stays)

lemma run_count_snoc:
  "run_count step P s (es @ [e]) = run_count step P s es + (if P (foldl step s es) e then 1 else 0)"
  by (induction es arbitrary: s) auto

lemma run_count_False [simp]: "run_count step (\<lambda>_ _. False) s es = 0"
  by (induction es arbitrary: s) auto

context one_shot begin

lemma accepted_once: "inv s \<Longrightarrow> run_count step (accepts k) s es \<le> 1"
  using uses_bounded [of s k es] by (auto split: if_splits)

lemma spent_rejected: "inv s \<Longrightarrow> spent s k \<Longrightarrow> run_count step (accepts k) s es = 0"
  using uses_bounded [of s k es] by simp

end

end
