(* ===== verification/Scheduler.thy ===== *)
theory Scheduler
  imports Prelude "HOL-Library.List_Lexorder" "HOL-Library.Char_ord" "HOL-Library.Multiset"
begin

text \<open>
  The initiative scheduler (\<open>internal/initiativescheduler\<close>): the pure decision \<open>Decide\<close>, the
  comparison of at most four options \<open>DecideOptions\<close>, and the single-use publication right
  \<open>PublicationAuthority\<close>.

  A value of a Go string enumeration is a constructor, or \<open>...Other\<close> for a string that is none
  of the constants. \<open>Action\<close> keeps its string, because options are compared by it. The
  16-byte session capability is a 128-bit word (the all-zero array is \<open>0\<close>), generations are
  64-bit words, and the \<open>int64\<close> times are integers whose subtraction and addition wrap.
  The methods of \<open>PublicationAuthority\<close> take the object; the code answers a nil receiver with
  the same error and no effect. Its mutex makes every method one atomic step.
\<close>

section \<open>Data\<close>

datatype action = Action (action_name: string)

instantiation action :: linorder
begin

definition less_eq_action :: "action \<Rightarrow> action \<Rightarrow> bool" where
  "a \<le> b \<longleftrightarrow> action_name a \<le> action_name b"

definition less_action :: "action \<Rightarrow> action \<Rightarrow> bool" where
  "a < b \<longleftrightarrow> action_name a < action_name b"

instance
  by standard (auto simp: less_eq_action_def less_action_def action.expand)

end

definition ActionAskOne :: action where
  [const_simps]: "ActionAskOne = Action ''ask_one''"

definition ActionReflectGoal :: action where
  [const_simps]: "ActionReflectGoal = Action ''reflect_user_goal''"

definition ActionOfferChoice :: action where
  [const_simps]: "ActionOfferChoice = Action ''offer_choice''"

definition ActionPractice :: action where
  [const_simps]: "ActionPractice = Action ''start_practice''"

definition ActionAcknowledge :: action where
  [const_simps]: "ActionAcknowledge = Action ''acknowledge_release''"

datatype floor_kind = FloorIdle | FloorSpeaking | FloorThinking | FloorSelfRepair
  | FloorQuietCandidate | FloorOther string

datatype control_kind = ControlNone | ControlStop | ControlNotNow | ControlCorrect
  | ControlOther string

datatype stage_kind = StageListen | StagePrepare | StageCommit | StageAbort

type_synonym capability = "128 word"
type_synonym generation = "64 word"

record lease =
  session_capability :: capability
  user_generation :: generation
  goal_generation :: generation
  turn_generation :: generation
  lease_action :: action
  expires_ms :: int

record input =
  now_ms :: int
  in_capability :: capability
  first_audio_deadline_ms :: int
  estimated_delivery_ms :: int
  in_user_generation :: generation
  in_goal_generation :: generation
  in_turn_generation :: generation
  in_action :: action
  user_floor :: floor_kind
  control :: control_kind
  goal_active :: bool
  provider_ready :: bool
  would_substitute :: bool
  cooldown_active :: bool
  final_acoustic_commit :: bool
  calibrated :: bool
  floor_risk_upper_bps :: int
  max_floor_risk_bps :: int
  utility_bps :: int
  prepared :: "lease option"

record decision =
  stage :: stage_kind
  reason :: string
  deadline_missed :: bool

section \<open>Decide\<close>

definition valid_action :: "action \<Rightarrow> bool" where
  "valid_action a \<longleftrightarrow> a = ActionAskOne \<or> a = ActionReflectGoal \<or> a = ActionOfferChoice
     \<or> a = ActionPractice \<or> a = ActionAcknowledge"

fun valid_floor :: "floor_kind \<Rightarrow> bool" where
  "valid_floor (FloorOther _) = False"
| "valid_floor _ = True"

fun valid_control :: "control_kind \<Rightarrow> bool" where
  "valid_control (ControlOther _) = False"
| "valid_control _ = True"

definition inactive :: "lease option \<Rightarrow> string \<Rightarrow> decision" where
  "inactive p r = (if p \<noteq> None
     then \<lparr>stage = StageAbort, reason = r, deadline_missed = False\<rparr>
     else \<lparr>stage = StageListen, reason = r, deadline_missed = False\<rparr>)"

definition input_invalid :: "input \<Rightarrow> bool" where
  "input_invalid i \<longleftrightarrow>
     now_ms i < 0 \<or> first_audio_deadline_ms i < 0 \<or> estimated_delivery_ms i < 0
     \<or> in_capability i = 0
     \<or> in_user_generation i = 0 \<or> in_goal_generation i = 0 \<or> in_turn_generation i = 0
     \<or> \<not> valid_action (in_action i) \<or> \<not> valid_floor (user_floor i) \<or> \<not> valid_control (control i)
     \<or> floor_risk_upper_bps i < 0 \<or> floor_risk_upper_bps i > 10000
     \<or> max_floor_risk_bps i < 0 \<or> max_floor_risk_bps i > 10000
     \<or> utility_bps i < - 10000 \<or> utility_bps i > 10000"

definition lease_invalid :: "lease \<Rightarrow> bool" where
  "lease_invalid l \<longleftrightarrow> session_capability l = 0 \<or> user_generation l = 0 \<or> goal_generation l = 0
     \<or> turn_generation l = 0 \<or> \<not> valid_action (lease_action l) \<or> expires_ms l < 0"

definition hard_veto :: "input \<Rightarrow> bool" where
  "hard_veto i \<longleftrightarrow> control i \<noteq> ControlNone \<or> \<not> goal_active i
     \<or> would_substitute i \<or> cooldown_active i \<or> \<not> calibrated i
     \<or> floor_risk_upper_bps i > max_floor_risk_bps i \<or> utility_bps i \<le> 0"

definition stale_lease :: "input \<Rightarrow> lease \<Rightarrow> bool" where
  "stale_lease i l \<longleftrightarrow> session_capability l \<noteq> in_capability i
     \<or> user_generation l \<noteq> in_user_generation i
     \<or> goal_generation l \<noteq> in_goal_generation i \<or> turn_generation l \<noteq> in_turn_generation i
     \<or> lease_action l \<noteq> in_action i \<or> expires_ms l < now_ms i"

definition deadline_unmet :: "input \<Rightarrow> bool" where
  "deadline_unmet i \<longleftrightarrow> now_ms i > first_audio_deadline_ms i
     \<or> estimated_delivery_ms i > wrap64 (first_audio_deadline_ms i - now_ms i)"

definition decide_idle :: "input \<Rightarrow> decision" where
  "decide_idle i =
     (if prepared i = None
      then \<lparr>stage = StagePrepare, reason = ''prepare_before_commit'', deadline_missed = False\<rparr>
      else if \<not> provider_ready i
      then \<lparr>stage = StageListen, reason = ''provider_not_ready'', deadline_missed = False\<rparr>
      else if \<not> final_acoustic_commit i \<or> \<not> calibrated i
        \<or> floor_risk_upper_bps i > max_floor_risk_bps i \<or> utility_bps i \<le> 0
      then \<lparr>stage = StageListen, reason = ''commit_evidence_insufficient'', deadline_missed = False\<rparr>
      else \<lparr>stage = StageCommit, reason = ''safe_commit'', deadline_missed = deadline_unmet i\<rparr>)"

definition decide :: "input \<Rightarrow> (string, decision) result" where
  "decide i =
     (if input_invalid i then Inl ''initiative_scheduler_input_invalid''
      else if (case prepared i of None \<Rightarrow> False | Some l \<Rightarrow> lease_invalid l)
      then Inl ''initiative_scheduler_lease_invalid''
      else if hard_veto i then Inr (inactive (prepared i) ''hard_veto'')
      else if (case prepared i of None \<Rightarrow> False | Some l \<Rightarrow> stale_lease i l)
      then Inr \<lparr>stage = StageAbort, reason = ''stale_lease'', deadline_missed = False\<rparr>
      else (case user_floor i of
          FloorSpeaking \<Rightarrow> Inr (inactive (prepared i) ''user_floor'')
        | FloorThinking \<Rightarrow> Inr (inactive (prepared i) ''user_floor'')
        | FloorSelfRepair \<Rightarrow> Inr (inactive (prepared i) ''user_floor'')
        | FloorQuietCandidate \<Rightarrow>
            (if prepared i \<noteq> None
             then Inr \<lparr>stage = StageListen, reason = ''quiet_candidate_uncommitted'', deadline_missed = False\<rparr>
             else Inr \<lparr>stage = StagePrepare, reason = ''quiet_candidate_prepare_only'', deadline_missed = False\<rparr>)
        | _ \<Rightarrow> Inr (decide_idle i)))"

text \<open>What the scheduler promises: the conditions under which speech may become audible.\<close>

definition commit_allowed :: "input \<Rightarrow> bool" where
  "commit_allowed i \<longleftrightarrow>
     user_floor i = FloorIdle \<and> control i = ControlNone \<and> goal_active i
     \<and> \<not> would_substitute i \<and> \<not> cooldown_active i
     \<and> calibrated i \<and> floor_risk_upper_bps i \<le> max_floor_risk_bps i \<and> 0 < utility_bps i
     \<and> provider_ready i \<and> final_acoustic_commit i
     \<and> (\<exists>l. prepared i = Some l \<and> \<not> stale_lease i l \<and> \<not> lease_invalid l)"

lemma decide_cases:
  assumes "decide i = Inr d"
  shows "\<not> input_invalid i" and "\<And>l. prepared i = Some l \<Longrightarrow> \<not> lease_invalid l"
  using assms by (auto simp: decide_def split: if_splits option.splits)

lemma stage_inactive [simp]: "stage (inactive p r) \<noteq> StageCommit" "stage (inactive p r) \<noteq> StagePrepare"
  by (auto simp: inactive_def)

lemma decide_commit_iff:
  assumes "decide i = Inr d"
  shows "stage d = StageCommit \<longleftrightarrow> commit_allowed i"
proof -
  have v: "valid_floor (user_floor i)" and l: "\<And>l. prepared i = Some l \<Longrightarrow> \<not> lease_invalid l"
    using decide_cases [OF assms] by (auto simp: input_invalid_def)
  show ?thesis
  proof (cases "hard_veto i \<or> (case prepared i of None \<Rightarrow> False | Some l \<Rightarrow> stale_lease i l)")
    case True
    then show ?thesis
      using assms l by (auto simp: decide_def commit_allowed_def hard_veto_def split: if_splits option.splits)
  next
    case False
    then show ?thesis
      using assms v l
      by (cases "user_floor i")
        (auto simp: decide_def decide_idle_def commit_allowed_def hard_veto_def split: if_splits option.splits)
  qed
qed

text \<open>
  A deadline is only reported. Two inputs that differ in the deadline and the delivery
  estimate get the same stage and the same reason.
\<close>

lemma decide_deadline_irrelevant:
  assumes "decide i = Inr d" and "0 \<le> D" and "0 \<le> E"
  shows "\<exists>d'. decide (i\<lparr>first_audio_deadline_ms := D, estimated_delivery_ms := E\<rparr>) = Inr d'
    \<and> stage d' = stage d \<and> reason d' = reason d"
proof -
  let ?i = "i\<lparr>first_audio_deadline_ms := D, estimated_delivery_ms := E\<rparr>"
  have same: "hard_veto ?i = hard_veto i" "\<And>l. stale_lease ?i l = stale_lease i l"
    by (auto simp: hard_veto_def stale_lease_def)
  have ok: "\<not> input_invalid ?i"
    using decide_cases(1) [OF assms(1)] assms(2,3) by (auto simp: input_invalid_def)
  show ?thesis
    using assms(1) ok
    by (auto simp: decide_def same decide_idle_def split: if_splits option.splits floor_kind.splits)
qed

section \<open>DecideOptions\<close>

record option_rec =
  opt_action :: action
  opt_utility_bps :: int
  opt_delivery_ms :: int
  opt_would_substitute :: bool

record selection =
  sel_action :: action
  sel_decision :: decision

abbreviation no_action :: action where
  "no_action \<equiv> Action ''''"

definition option_invalid :: "action set \<Rightarrow> option_rec \<Rightarrow> bool" where
  "option_invalid seen p \<longleftrightarrow> \<not> valid_action (opt_action p) \<or> opt_action p \<in> seen
     \<or> opt_delivery_ms p < 0 \<or> opt_utility_bps p < - 10000 \<or> opt_utility_bps p > 10000"

text \<open>The comparison of the loop body: \<open>found\<close> is \<open>best \<noteq> None\<close>, the flag is \<open>bestOnTime\<close>.\<close>

definition better_option :: "option_rec \<times> bool \<Rightarrow> option_rec \<times> bool \<Rightarrow> bool" where
  "better_option c b \<longleftrightarrow>
     (case (c, b) of ((p, on_time), (best, best_on_time)) \<Rightarrow>
        on_time \<and> \<not> best_on_time
        \<or> on_time = best_on_time \<and> (opt_utility_bps p > opt_utility_bps best
          \<or> opt_utility_bps p = opt_utility_bps best
            \<and> (opt_delivery_ms p < opt_delivery_ms best
              \<or> opt_delivery_ms p = opt_delivery_ms best \<and> opt_action p < opt_action best)))"

definition on_time :: "int \<Rightarrow> option_rec \<Rightarrow> bool" where
  "on_time remaining p \<longleftrightarrow> 0 \<le> remaining \<and> opt_delivery_ms p \<le> remaining"

definition pick_option :: "int \<Rightarrow> option_rec \<Rightarrow> (option_rec \<times> bool) option \<Rightarrow> (option_rec \<times> bool) option" where
  "pick_option remaining p best =
     (if opt_would_substitute p \<or> opt_utility_bps p \<le> 0 then best
      else (let c = (p, on_time remaining p) in
        case best of None \<Rightarrow> Some c | Some b \<Rightarrow> if better_option c b then Some c else Some b))"

fun options_loop :: "int \<Rightarrow> action set \<Rightarrow> (option_rec \<times> bool) option \<Rightarrow> option_rec list
    \<Rightarrow> (string, (option_rec \<times> bool) option) result" where
  "options_loop remaining seen best [] = Inr best"
| "options_loop remaining seen best (p # ps) =
     (if option_invalid seen p then Inl ''initiative_scheduler_option_invalid''
      else options_loop remaining (insert (opt_action p) seen) (pick_option remaining p best) ps)"

definition decide_options :: "input \<Rightarrow> option_rec list \<Rightarrow> (string, selection) result" where
  "decide_options base ps =
     (if in_action base \<noteq> no_action \<or> estimated_delivery_ms base \<noteq> 0
        \<or> utility_bps base \<noteq> 0 \<or> would_substitute base \<or> 4 < length ps
      then Inl ''initiative_scheduler_options_invalid''
      else case decide (base\<lparr>in_action := ActionAskOne, utility_bps := 1\<rparr>) of
        Inl e \<Rightarrow> Inl e
      | Inr _ \<Rightarrow>
        (case options_loop (wrap64 (first_audio_deadline_ms base - now_ms base)) {} None ps of
          Inl e \<Rightarrow> Inl e
        | Inr None \<Rightarrow> Inr \<lparr>sel_action = no_action, sel_decision = inactive (prepared base) ''wait_selected''\<rparr>
        | Inr (Some (best, _)) \<Rightarrow>
          (case decide (base\<lparr>in_action := opt_action best, estimated_delivery_ms := opt_delivery_ms best,
              utility_bps := opt_utility_bps best\<rparr>) of
            Inl e \<Rightarrow> Inl e
          | Inr d \<Rightarrow>
            (if stage d \<noteq> StagePrepare \<and> stage d \<noteq> StageCommit
             then Inr \<lparr>sel_action = no_action, sel_decision = d\<rparr>
             else Inr \<lparr>sel_action = opt_action best, sel_decision = d\<rparr>))))"

subsection \<open>The loop computes the best eligible option, in any order\<close>

definition options_ok :: "action set \<Rightarrow> option_rec list \<Rightarrow> bool" where
  "options_ok seen ps \<longleftrightarrow> (\<forall>p \<in> set ps. \<not> option_invalid seen p) \<and> distinct (List.map opt_action ps)"

lemma option_invalid_insert:
  "option_invalid (insert a seen) p \<longleftrightarrow> option_invalid seen p \<or> opt_action p = a"
  by (auto simp: option_invalid_def)

lemma options_loop_fold:
  "options_loop remaining seen best ps =
     (if options_ok seen ps then Inr (fold (pick_option remaining) ps best)
      else Inl ''initiative_scheduler_option_invalid'')"
  by (induction ps arbitrary: seen best)
    (auto simp: options_ok_def option_invalid_insert intro: rev_image_eqI)

lemma better_option_trans: "better_option a b \<Longrightarrow> better_option b c \<Longrightarrow> better_option a c"
  by (cases a; cases b; cases c) (auto simp: better_option_def)

lemma better_option_irrefl: "\<not> better_option a a"
  by (cases a) (auto simp: better_option_def)

lemma better_option_total:
  "better_option (p, x) (q, y) \<or> better_option (q, y) (p, x)
     \<or> (x = y \<and> opt_action p = opt_action q \<and> opt_utility_bps p = opt_utility_bps q
        \<and> opt_delivery_ms p = opt_delivery_ms q)"
  by (auto simp: better_option_def neq_iff)

lemma better_option_total':
  "opt_action p \<noteq> opt_action q \<Longrightarrow> better_option (p, x) (q, y) \<or> better_option (q, y) (p, x)"
  using better_option_total [of p x q y] by blast

lemma better_option_same:
  "opt_action (fst b) = opt_action (fst c) \<Longrightarrow> opt_utility_bps (fst b) = opt_utility_bps (fst c)
    \<Longrightarrow> opt_delivery_ms (fst b) = opt_delivery_ms (fst c) \<Longrightarrow> snd b = snd c
    \<Longrightarrow> better_option b x = better_option c x \<and> better_option x b = better_option x c"
  by (cases b; cases c; cases x) (auto simp: better_option_def)

lemma pick_option_commute:
  assumes "opt_action p \<noteq> opt_action q"
  shows "pick_option r p (pick_option r q b) = pick_option r q (pick_option r p b)"
proof (cases "opt_would_substitute p \<or> opt_utility_bps p \<le> 0 \<or> opt_would_substitute q \<or> opt_utility_bps q \<le> 0")
  case True
  then show ?thesis by (auto simp: pick_option_def)
next
  case False
  define P where "P = (p, on_time r p)"
  define Q where "Q = (q, on_time r q)"
  have t: "better_option P Q \<or> better_option Q P"
    using better_option_total' [OF assms] by (simp add: P_def Q_def)
  have n: "\<not> (better_option P Q \<and> better_option Q P)"
    using better_option_trans better_option_irrefl by blast
  show ?thesis
  proof (cases b)
    case None
    then show ?thesis using False t n by (auto simp: pick_option_def P_def Q_def)
  next
    case (Some c)
    have x: "better_option P c \<Longrightarrow> better_option Q P \<Longrightarrow> better_option Q c"
      and y: "better_option Q c \<Longrightarrow> better_option P Q \<Longrightarrow> better_option P c"
      using better_option_trans by blast+
    show ?thesis
      using False t n x y Some by (auto simp: pick_option_def P_def [symmetric] Q_def [symmetric] Let_def)
  qed
qed

lemma pick_fold_perm:
  assumes "mset ps = mset qs" and "distinct (List.map opt_action ps)"
  shows "fold (pick_option r) ps b = fold (pick_option r) qs b"
proof -
  have "fold (pick_option r) ps = fold (pick_option r) qs"
  proof (rule fold_multiset_equiv [OF _ assms(1)])
    fix x y assume "x \<in> set ps" "y \<in> set ps"
    then have "x = y \<or> opt_action x \<noteq> opt_action y"
      using assms(2) by (auto simp: distinct_map dest: inj_onD)
    then show "pick_option r x \<circ> pick_option r y = pick_option r y \<circ> pick_option r x"
      by (auto simp: fun_eq_iff intro: pick_option_commute)
  qed
  then show ?thesis by simp
qed

lemma options_ok_perm: "mset ps = mset qs \<Longrightarrow> options_ok seen ps = options_ok seen qs"
  unfolding options_ok_def
  by (metis distinct_count_atmost_1 mset_eq_setD mset_map)

text \<open>The result dominates every eligible option and is one of them.\<close>

definition eligible :: "option_rec \<Rightarrow> bool" where
  "eligible p \<longleftrightarrow> \<not> opt_would_substitute p \<and> 0 < opt_utility_bps p"

lemma pick_fold_Some:
  "\<exists>c. fold (pick_option r) ps (Some b) = Some c
     \<and> (c = b \<or> (\<exists>p \<in> set ps. eligible p \<and> c = (p, on_time r p) \<and> better_option c b))
     \<and> (\<forall>p \<in> set ps. eligible p \<longrightarrow> \<not> better_option (p, on_time r p) c)"
proof (induction ps arbitrary: b)
  case Nil
  then show ?case by simp
next
  case (Cons p ps)
  show ?case
  proof (cases "eligible p \<and> better_option (p, on_time r p) b")
    case True
    then have step: "pick_option r p (Some b) = Some (p, on_time r p)"
      by (auto simp: pick_option_def eligible_def)
    obtain c where c: "fold (pick_option r) ps (Some (p, on_time r p)) = Some c"
      "c = (p, on_time r p) \<or> (\<exists>q \<in> set ps. eligible q \<and> c = (q, on_time r q) \<and> better_option c (p, on_time r p))"
      "\<forall>q \<in> set ps. eligible q \<longrightarrow> \<not> better_option (q, on_time r q) c"
      using Cons.IH [of "(p, on_time r p)"] by blast
    have "\<not> better_option (p, on_time r p) c"
      using c(2) better_option_irrefl better_option_trans by blast
    moreover have "better_option c b"
      using c(2) True better_option_trans by blast
    ultimately show ?thesis using c True step by auto
  next
    case False
    then have step: "pick_option r p (Some b) = Some b"
      by (auto simp: pick_option_def eligible_def Let_def)
    obtain c where c: "fold (pick_option r) ps (Some b) = Some c"
      "c = b \<or> (\<exists>q \<in> set ps. eligible q \<and> c = (q, on_time r q) \<and> better_option c b)"
      "\<forall>q \<in> set ps. eligible q \<longrightarrow> \<not> better_option (q, on_time r q) c"
      using Cons.IH [of b] by blast
    have "eligible p \<Longrightarrow> \<not> better_option (p, on_time r p) c"
      using c(2) False better_option_trans by blast
    then show ?thesis using c step by auto
  qed
qed

lemma pick_option_None:
  "pick_option r p None = (if eligible p then Some (p, on_time r p) else None)"
  by (auto simp: pick_option_def eligible_def)

lemma pick_fold_None:
  "fold (pick_option r) ps None = None \<longleftrightarrow> (\<forall>p \<in> set ps. \<not> eligible p)"
proof (induction ps)
  case (Cons p ps)
  obtain c where "fold (pick_option r) ps (Some (p, on_time r p)) = Some c"
    using pick_fold_Some [of r ps "(p, on_time r p)"] by blast
  with Cons show ?case by (simp add: pick_option_None)
qed simp

lemma pick_fold_best:
  assumes "fold (pick_option r) ps None = Some c"
  shows "\<exists>p \<in> set ps. eligible p \<and> c = (p, on_time r p)
     \<and> (\<forall>q \<in> set ps. eligible q \<longrightarrow> \<not> better_option (q, on_time r q) c)"
  using assms
proof (induction ps)
  case Nil
  then show ?case by simp
next
  case (Cons p ps)
  show ?case
  proof (cases "eligible p")
    case True
    then have "fold (pick_option r) ps (Some (p, on_time r p)) = Some c"
      using Cons.prems by (simp add: pick_option_None)
    then have c: "c = (p, on_time r p)
          \<or> (\<exists>q \<in> set ps. eligible q \<and> c = (q, on_time r q) \<and> better_option c (p, on_time r p))"
        "\<forall>q \<in> set ps. eligible q \<longrightarrow> \<not> better_option (q, on_time r q) c"
      using pick_fold_Some [of r ps "(p, on_time r p)"] by auto
    have "\<not> better_option (p, on_time r p) c"
      using c(1) better_option_irrefl better_option_trans by blast
    then show ?thesis using c True by auto
  next
    case False
    then show ?thesis using Cons by (simp add: pick_option_None)
  qed
qed

lemma decide_options_perm:
  assumes "mset ps = mset qs"
  shows "decide_options base ps = decide_options base qs"
proof -
  have len: "length ps = length qs" using assms by (metis size_mset)
  have loop: "options_loop r {} None ps = options_loop r {} None qs" for r
    using options_ok_perm [OF assms, of "{}"] pick_fold_perm [OF assms, of r None]
    by (auto simp: options_loop_fold options_ok_def [of "{}" ps])
  show ?thesis by (simp only: decide_options_def len loop)
qed

abbreviation options_remaining :: "input \<Rightarrow> int" where
  "options_remaining base \<equiv> wrap64 (first_audio_deadline_ms base - now_ms base)"

abbreviation with_option :: "input \<Rightarrow> option_rec \<Rightarrow> input" where
  "with_option base p \<equiv> base\<lparr>in_action := opt_action p, estimated_delivery_ms := opt_delivery_ms p,
     utility_bps := opt_utility_bps p\<rparr>"

lemma decide_options_chosen:
  assumes "decide_options base ps = Inr s" and "sel_action s \<noteq> no_action"
  obtains p where "p \<in> set ps" and "eligible p" and "sel_action s = opt_action p"
    and "decide (with_option base p) = Inr (sel_decision s)"
    and "stage (sel_decision s) = StagePrepare \<or> stage (sel_decision s) = StageCommit"
    and "\<forall>q \<in> set ps. eligible q \<longrightarrow> q \<noteq> p \<longrightarrow>
      better_option (p, on_time (options_remaining base) p) (q, on_time (options_remaining base) q)"
proof -
  let ?r = "options_remaining base"
  obtain c where loop: "options_loop ?r {} None ps = Inr (Some c)"
    using assms by (auto simp: decide_options_def split: if_splits sum.splits option.splits)
  then have ok: "options_ok {} ps" and f: "fold (pick_option ?r) ps None = Some c"
    by (auto simp: options_loop_fold split: if_splits)
  obtain p where p: "p \<in> set ps" "eligible p" "c = (p, on_time ?r p)"
      "\<forall>q \<in> set ps. eligible q \<longrightarrow> \<not> better_option (q, on_time ?r q) c"
    using pick_fold_best [OF f] by blast
  have "q \<in> set ps \<Longrightarrow> eligible q \<Longrightarrow> q \<noteq> p \<Longrightarrow> better_option (p, on_time ?r p) (q, on_time ?r q)" for q
    using p ok better_option_total' [of p q "on_time ?r p" "on_time ?r q"]
    by (auto simp: options_ok_def distinct_map inj_on_def)
  then show thesis
    using that [OF p(1,2)] assms loop p(3)
    by (auto simp: decide_options_def split: if_splits sum.splits)
qed

section \<open>The publication authority\<close>

record authority =
  pa_capability :: capability
  pa_prepared :: "lease option"
  pa_committed :: bool
  pa_aborted :: bool

datatype pa_error = ErrPublicationAuthority

definition new_publication_authority :: "capability \<Rightarrow> (pa_error, authority) result" where
  "new_publication_authority c =
     (if c = 0 then Inl ErrPublicationAuthority
      else Inr \<lparr>pa_capability = c, pa_prepared = None, pa_committed = False, pa_aborted = False\<rparr>)"

definition max_lease_ms :: int where
  [const_simps]: "max_lease_ms = 30000"

definition pa_prepare :: "int \<Rightarrow> int \<Rightarrow> generation \<Rightarrow> generation \<Rightarrow> generation \<Rightarrow> action \<Rightarrow> authority
    \<Rightarrow> (pa_error, lease) result \<times> authority" where
  "pa_prepare now lifetime u g t a s =
     (if now < 0 \<or> lifetime \<le> 0 \<or> lifetime > max_lease_ms \<or> now > wrap64 (max_i64 - lifetime)
        \<or> u = 0 \<or> g = 0 \<or> t = 0 \<or> \<not> valid_action a
      then (Inl ErrPublicationAuthority, s)
      else if pa_aborted s \<or> pa_committed s \<or> pa_prepared s \<noteq> None
      then (Inl ErrPublicationAuthority, s)
      else (let l = \<lparr>session_capability = pa_capability s, user_generation = u, goal_generation = g,
                     turn_generation = t, lease_action = a, expires_ms = wrap64 (now + lifetime)\<rparr>
            in (Inr l, s\<lparr>pa_prepared := Some l\<rparr>)))"

definition pa_commit :: "int \<Rightarrow> lease \<Rightarrow> generation \<Rightarrow> generation \<Rightarrow> generation \<Rightarrow> action \<Rightarrow> authority
    \<Rightarrow> (pa_error, unit) result \<times> authority" where
  "pa_commit now l u g t a s =
     (if now < 0 \<or> u = 0 \<or> g = 0 \<or> t = 0 \<or> \<not> valid_action a
      then (Inl ErrPublicationAuthority, s)
      else if pa_aborted s \<or> pa_committed s \<or> pa_prepared s = None
        \<or> Some l \<noteq> pa_prepared s \<or> session_capability l \<noteq> pa_capability s
        \<or> user_generation l \<noteq> u \<or> goal_generation l \<noteq> g
        \<or> turn_generation l \<noteq> t \<or> lease_action l \<noteq> a \<or> expires_ms l < now
      then (Inl ErrPublicationAuthority, s)
      else (Inr (), s\<lparr>pa_committed := True, pa_prepared := None\<rparr>))"

definition pa_abort :: "authority \<Rightarrow> authority" where
  "pa_abort s = s\<lparr>pa_aborted := True, pa_prepared := None\<rparr>"

datatype pa_event =
    PaPrepare int int generation generation generation action
  | PaCommit int lease generation generation generation action
  | PaAbort

fun pa_step :: "authority \<Rightarrow> pa_event \<Rightarrow> authority" where
  "pa_step s (PaPrepare now lifetime u g t a) = snd (pa_prepare now lifetime u g t a s)"
| "pa_step s (PaCommit now l u g t a) = snd (pa_commit now l u g t a s)"
| "pa_step s PaAbort = pa_abort s"

fun pa_commits :: "authority \<Rightarrow> pa_event \<Rightarrow> bool" where
  "pa_commits s (PaCommit now l u g t a) = (fst (pa_commit now l u g t a s) = Inr ())"
| "pa_commits s _ = False"

definition pa_closed :: "authority \<Rightarrow> bool" where
  "pa_closed s \<longleftrightarrow> pa_committed s \<or> pa_aborted s"

lemmas pa_ops = pa_prepare_def pa_commit_def pa_abort_def Let_def

interpretation pa: one_shot pa_step "\<lambda>_. True" "\<lambda>_ :: unit. pa_commits" "\<lambda>s _. pa_closed s"
proof unfold_locales
  fix s :: authority and e :: pa_event and k :: unit
  show "pa_commits s e \<Longrightarrow> \<not> pa_closed s"
    by (cases e) (auto simp: pa_ops pa_closed_def split: if_splits)
  show "pa_commits s e \<Longrightarrow> pa_closed (pa_step s e)"
    by (cases e) (auto simp: pa_ops pa_closed_def split: if_splits)
  show "pa_closed s \<Longrightarrow> pa_closed (pa_step s e)"
    by (cases e) (auto simp: pa_ops pa_closed_def)
qed auto

lemma pa_step_aborted: "pa_aborted s \<Longrightarrow> pa_aborted (pa_step s e)"
  by (cases e) (auto simp: pa_ops)

text \<open>The life of a run's authority: what it holds goes back to one prepare, and no abort.\<close>

lemma pa_run_prepared:
  assumes "new_publication_authority c = Inr s0"
    and "pa_prepared (foldl pa_step s0 es) = Some l"
  shows "\<not> pa_aborted (foldl pa_step s0 es) \<and> PaAbort \<notin> set es
     \<and> (\<exists>now life. PaPrepare now life (user_generation l) (goal_generation l) (turn_generation l) (lease_action l) \<in> set es
        \<and> 0 \<le> now \<and> 0 < life \<and> life \<le> max_lease_ms \<and> expires_ms l = now + life)"
  using assms(2)
proof (induction es arbitrary: l rule: rev_induct)
  case Nil
  then show ?case using assms(1) by (auto simp: new_publication_authority_def split: if_splits)
next
  case (snoc e es)
  let ?s = "foldl pa_step s0 es"
  have abort: "PaAbort \<in> set es \<Longrightarrow> pa_aborted ?s"
    by (induction es rule: rev_induct) (auto simp: pa_ops pa_step_aborted)
  show ?case
  proof (cases "pa_prepared ?s")
    case (Some l')
    then have "pa_prepared (pa_step ?s e) = Some l' \<or> pa_prepared (pa_step ?s e) = None"
      "pa_prepared (pa_step ?s e) = Some l' \<Longrightarrow> \<not> pa_aborted (pa_step ?s e) \<and> e \<noteq> PaAbort"
      using snoc.IH [OF Some] by (cases e; auto simp: pa_ops split: if_splits)+
    then show ?thesis using snoc.IH [OF Some] snoc.prems by auto
  next
    case None
    then obtain now life u g t a where e: "e = PaPrepare now life u g t a"
      using snoc.prems by (cases e) (auto simp: pa_ops split: if_splits)
    have b: "in_i64 (max_i64 - life) \<and> (now \<le> max_i64 - life \<longrightarrow> in_i64 (now + life))"
      if "0 \<le> now" "0 < life" "life \<le> 30000"
      using that by (auto simp: in_i64_def)
    have "\<not> pa_aborted ?s \<and> 0 \<le> now \<and> 0 < life \<and> life \<le> max_lease_ms \<and> expires_ms l = now + life
        \<and> user_generation l = u \<and> goal_generation l = g \<and> turn_generation l = t \<and> lease_action l = a"
      using snoc.prems None e b by (auto simp: pa_ops const_simps wrap64_id split: if_splits)
    then show ?thesis using e abort by (auto simp: pa_ops)
  qed
qed

section \<open>Properties\<close>

text \<open>
  Speech becomes audible only when it is safe. Whenever \<open>Decide\<close> returns a decision, its
  stage is commit exactly when the floor is idle, no user control is active, the goal is active,
  nothing would substitute the user's answer, no cooldown holds, the calibrated resume risk is
  within its maximum, the utility bound is positive, the provider is ready, the acoustic commit
  is final, and a valid lease for this session, user, goal, turn and action has not expired.
  And no deadline relaxes this: changing the audio deadline and the delivery estimate to any
  other valid values leaves the stage and the reason as they were.
\<close>

theorem decide_commits_exactly_when_safe:
  assumes "decide i = Inr d"
  shows "(stage d = StageCommit \<longleftrightarrow> commit_allowed i)
    \<and> (\<forall>D E. 0 \<le> D \<and> 0 \<le> E \<longrightarrow>
        (\<exists>d'. decide (i\<lparr>first_audio_deadline_ms := D, estimated_delivery_ms := E\<rparr>) = Inr d'
          \<and> stage d' = stage d \<and> reason d' = reason d))"
  using decide_commit_iff [OF assms] decide_deadline_irrelevant [OF assms] by blast

definition sample_lease :: lease where
  "sample_lease = \<lparr>session_capability = 7, user_generation = 1, goal_generation = 2,
     turn_generation = 3, lease_action = ActionAskOne, expires_ms = 900\<rparr>"

definition sample_input :: input where
  "sample_input = \<lparr>now_ms = 500, in_capability = 7, first_audio_deadline_ms = 400,
     estimated_delivery_ms = 100, in_user_generation = 1, in_goal_generation = 2,
     in_turn_generation = 3, in_action = ActionAskOne, user_floor = FloorIdle,
     control = ControlNone, goal_active = True, provider_ready = True, would_substitute = False,
     cooldown_active = False, final_acoustic_commit = True, calibrated = True,
     floor_risk_upper_bps = 100, max_floor_risk_bps = 200, utility_bps = 50,
     prepared = Some sample_lease\<rparr>"

lemma decide_sample:
  "decide sample_input = Inr \<lparr>stage = StageCommit, reason = ''safe_commit'', deadline_missed = True\<rparr>"
  by (simp add: decide_def decide_idle_def input_invalid_def lease_invalid_def hard_veto_def
      stale_lease_def valid_action_def deadline_unmet_def sample_input_def sample_lease_def)

theorem decide_commits_exactly_when_safe_witness:
  "commit_allowed sample_input
    \<and> (\<exists>d'. decide (sample_input\<lparr>first_audio_deadline_ms := 90000, estimated_delivery_ms := 1\<rparr>) = Inr d'
        \<and> stage d' = StageCommit)"
proof -
  note sample = decide_commits_exactly_when_safe [OF decide_sample]
  show ?thesis
    using sample [THEN conjunct1] sample [THEN conjunct2, rule_format, of 90000 1] by auto
qed

text \<open>
  The comparison of options does not depend on the order in which the upstream policy
  lists them: any permutation of the options gives the same selection or the same error.
\<close>

theorem decide_options_order_independent:
  assumes "mset ps = mset qs"
  shows "decide_options base ps = decide_options base qs"
  using assms by (rule decide_options_perm)

definition sample_options :: "option_rec list" where
  "sample_options =
     [\<lparr>opt_action = ActionAskOne, opt_utility_bps = 40, opt_delivery_ms = 90, opt_would_substitute = False\<rparr>,
      \<lparr>opt_action = ActionPractice, opt_utility_bps = 40, opt_delivery_ms = 80, opt_would_substitute = False\<rparr>,
      \<lparr>opt_action = ActionReflectGoal, opt_utility_bps = 99, opt_delivery_ms = 80, opt_would_substitute = True\<rparr>]"

definition sample_base :: input where
  "sample_base = sample_input\<lparr>in_action := no_action, estimated_delivery_ms := 0, utility_bps := 0,
     prepared := None, first_audio_deadline_ms := 600\<rparr>"

theorem decide_options_order_independent_witness:
  "mset sample_options = mset (rev sample_options)
    \<and> decide_options sample_base sample_options = decide_options sample_base (rev sample_options)"
  using decide_options_order_independent [of sample_options "rev sample_options" sample_base] by simp

text \<open>
  A selected action is the best one. When \<open>DecideOptions\<close> selects an action, an option of
  the list proposed it; that option does not substitute the user's answer and has a positive
  conservative utility; it beats every other such option by being on time, then by utility, then
  by delivery time, then by name; and the decision it carries is the one \<open>Decide\<close> makes for it,
  at stage prepare or commit, so a commit is subject to every safety condition of \<open>Decide\<close>.
\<close>

theorem decide_options_selects_best:
  assumes "decide_options base ps = Inr s" and "sel_action s \<noteq> no_action"
  shows "\<exists>p \<in> set ps. sel_action s = opt_action p
    \<and> \<not> opt_would_substitute p \<and> 0 < opt_utility_bps p
    \<and> (\<forall>q \<in> set ps. q \<noteq> p \<and> \<not> opt_would_substitute q \<and> 0 < opt_utility_bps q \<longrightarrow>
        better_option (p, on_time (options_remaining base) p) (q, on_time (options_remaining base) q))
    \<and> decide (with_option base p) = Inr (sel_decision s)
    \<and> (stage (sel_decision s) = StagePrepare
       \<or> stage (sel_decision s) = StageCommit \<and> commit_allowed (with_option base p))"
  by (rule decide_options_chosen [OF assms]) (use decide_commit_iff in \<open>auto simp: eligible_def\<close>)

lemma decide_options_sample:
  "decide_options sample_base sample_options =
     Inr \<lparr>sel_action = ActionPractice, sel_decision =
       \<lparr>stage = StagePrepare, reason = ''prepare_before_commit'', deadline_missed = False\<rparr>\<rparr>"
  by (simp add: decide_options_def decide_def decide_idle_def input_invalid_def hard_veto_def
      valid_action_def sample_input_def sample_base_def sample_options_def const_simps
      option_invalid_def pick_option_def on_time_def better_option_def wrap64_def)

theorem decide_options_selects_best_witness:
  "\<exists>p \<in> set sample_options. ActionPractice = opt_action p \<and> 0 < opt_utility_bps p"
  using decide_options_selects_best [OF decide_options_sample] by (auto simp: const_simps)

text \<open>
  The right to publish is used at most once. In any sequence of prepares, commits and aborts
  on an authority, at most one commit succeeds; after an abort or a commit none does.
\<close>

theorem publication_commits_once:
  "run_count pa_step pa_commits s es \<le> 1
    \<and> (pa_committed s \<or> pa_aborted s \<longrightarrow> run_count pa_step pa_commits s es = 0)"
  using pa.accepted_once [of s es] pa.spent_rejected [of s es] by (auto simp: pa_closed_def)

theorem publication_commits_once_witness:
  "run_count pa_step pa_commits
     (pa_abort \<lparr>pa_capability = 7, pa_prepared = Some sample_lease, pa_committed = False, pa_aborted = False\<rparr>)
     [PaCommit 500 sample_lease 1 2 3 ActionAskOne] = 0"
  using publication_commits_once
    [of "pa_abort \<lparr>pa_capability = 7, pa_prepared = Some sample_lease, pa_committed = False, pa_aborted = False\<rparr>"
      "[PaCommit 500 sample_lease 1 2 3 ActionAskOne]"]
  by (simp add: pa_abort_def)

text \<open>
  A commit that succeeds was prepared. When a commit for a user, goal, turn and action
  succeeds in a run that starts from a new authority, the run before it has no abort and holds a
  prepare for the same user, goal, turn and action, and the commit comes no later than that
  prepare's lifetime, at most 30 seconds, allows.
\<close>

theorem publication_commit_was_prepared:
  assumes "new_publication_authority c = Inr s0"
    and "fst (pa_commit now l u g t a (foldl pa_step s0 es)) = Inr ()"
  shows "PaAbort \<notin> set es
    \<and> (\<exists>then_ms life. PaPrepare then_ms life u g t a \<in> set es
        \<and> 0 < life \<and> life \<le> 30000 \<and> now \<le> then_ms + life)"
proof -
  have "pa_prepared (foldl pa_step s0 es) = Some l" and "user_generation l = u"
      "goal_generation l = g" "turn_generation l = t" "lease_action l = a" "now \<le> expires_ms l"
    using assms(2) by (auto simp: pa_commit_def split: if_splits)
  then show ?thesis using pa_run_prepared [OF assms(1)] by (fastforce simp: const_simps)
qed

theorem publication_commit_was_prepared_witness:
  "\<exists>then_ms life. PaPrepare then_ms life 1 2 3 ActionAskOne \<in> set [PaPrepare 500 400 1 2 3 ActionAskOne]
     \<and> 0 < life \<and> life \<le> 30000 \<and> 500 \<le> then_ms + life"
  by (rule publication_commit_was_prepared
      [of 7 "\<lparr>pa_capability = 7, pa_prepared = None, pa_committed = False, pa_aborted = False\<rparr>"
        500 sample_lease, THEN conjunct2])
    (simp_all add: new_publication_authority_def pa_ops const_simps wrap64_def valid_action_def sample_lease_def)

end
