(* ===== verification/Go_Text.thy ===== *)
theory Go_Text
  imports Prelude "HOL-Library.Sublist"
begin

text \<open>
  The parts of Go's standard library that the source uses on strings. A Go string is a sequence
  of bytes, so it is a HOL \<open>string\<close> whose characters are bytes:

  \<^item> \<open>utf8_valid\<close> and \<open>rune_count\<close> for \<open>utf8.ValidString\<close> and \<open>utf8.RuneCountInString\<close>;
  \<^item> \<open>trim_space\<close> for \<open>strings.TrimSpace\<close>: the white space runes are listed by their UTF-8
    encodings, and a rune at either end is recognised by its encoding;
  \<^item> \<open>hex_encode\<close> and \<open>hex_decode\<close> for \<open>encoding/hex\<close>, with their round trip, and the canonical
    form test that the source builds from both;
  \<^item> \<open>be_bytes\<close> for \<open>binary.BigEndian\<close>, and decimal printing.
\<close>

section \<open>Bytes and UTF-8\<close>

abbreviation byte :: "char \<Rightarrow> nat" where
  "byte \<equiv> of_char"

definition is_cont :: "char \<Rightarrow> bool" where
  "is_cont c \<longleftrightarrow> 128 \<le> byte c \<and> byte c \<le> 191"

text \<open>The length of the well-formed encoding at the front of a string; 0 where there is none.\<close>

fun rune_len :: "string \<Rightarrow> nat" where
  "rune_len [] = 0"
| "rune_len (c # cs) =
     (let b = byte c in
      if b < 128 then 1
      else if 194 \<le> b \<and> b \<le> 223 then
        (case cs of c1 # _ \<Rightarrow> if is_cont c1 then 2 else 0 | _ \<Rightarrow> 0)
      else if 224 \<le> b \<and> b \<le> 239 then
        (case cs of c1 # c2 # _ \<Rightarrow>
           if is_cont c1 \<and> is_cont c2 \<and> (b = 224 \<longrightarrow> 160 \<le> byte c1) \<and> (b = 237 \<longrightarrow> byte c1 \<le> 159)
           then 3 else 0 | _ \<Rightarrow> 0)
      else if 240 \<le> b \<and> b \<le> 244 then
        (case cs of c1 # c2 # c3 # _ \<Rightarrow>
           if is_cont c1 \<and> is_cont c2 \<and> is_cont c3 \<and> (b = 240 \<longrightarrow> 144 \<le> byte c1) \<and> (b = 244 \<longrightarrow> byte c1 \<le> 143)
           then 4 else 0 | _ \<Rightarrow> 0)
      else 0)"

declare rune_len.simps [simp del]

function utf8_valid :: "string \<Rightarrow> bool" where
  "utf8_valid s =
     (if s = [] then True else if rune_len s = 0 then False else utf8_valid (drop (rune_len s) s))"
  by pat_completeness auto
termination
  by (relation "measure length") (auto simp: diff_less)

text \<open>A byte that starts no well-formed encoding counts as one rune.\<close>

function rune_count :: "string \<Rightarrow> nat" where
  "rune_count s = (if s = [] then 0 else Suc (rune_count (drop (max 1 (rune_len s)) s)))"
  by pat_completeness auto
termination
  by (relation "measure length") (auto simp: diff_less max_def)

declare utf8_valid.simps [simp del] rune_count.simps [simp del]

text \<open>The UTF-8 bytes of a list of code points: how a non-ASCII literal of the source is written.\<close>

definition utf8_char :: "nat \<Rightarrow> string" where
  "utf8_char n =
     List.map char_of
       (if n < 128 then [n]
        else if n < 2048 then [192 + n div 64, 128 + n mod 64]
        else if n < 65536 then [224 + n div 4096, 128 + n div 64 mod 64, 128 + n mod 64]
        else [240 + n div 262144, 128 + n div 4096 mod 64, 128 + n div 64 mod 64, 128 + n mod 64])"

definition utf8_encode :: "nat list \<Rightarrow> string" where
  "utf8_encode ns = concat (List.map utf8_char ns)"

section \<open>White space\<close>

definition space_runes :: "string list" where
  "space_runes =
     [[CHR 0x09], [CHR 0x0A], [CHR 0x0B], [CHR 0x0C], [CHR 0x0D], [CHR 0x20],
      [CHR 0xC2, CHR 0x85], [CHR 0xC2, CHR 0xA0], [CHR 0xE1, CHR 0x9A, CHR 0x80],
      [CHR 0xE2, CHR 0x80, CHR 0x80], [CHR 0xE2, CHR 0x80, CHR 0x81], [CHR 0xE2, CHR 0x80, CHR 0x82],
      [CHR 0xE2, CHR 0x80, CHR 0x83], [CHR 0xE2, CHR 0x80, CHR 0x84], [CHR 0xE2, CHR 0x80, CHR 0x85],
      [CHR 0xE2, CHR 0x80, CHR 0x86], [CHR 0xE2, CHR 0x80, CHR 0x87], [CHR 0xE2, CHR 0x80, CHR 0x88],
      [CHR 0xE2, CHR 0x80, CHR 0x89], [CHR 0xE2, CHR 0x80, CHR 0x8A], [CHR 0xE2, CHR 0x80, CHR 0xA8],
      [CHR 0xE2, CHR 0x80, CHR 0xA9], [CHR 0xE2, CHR 0x80, CHR 0xAF], [CHR 0xE2, CHR 0x81, CHR 0x9F],
      [CHR 0xE3, CHR 0x80, CHR 0x80]]"

function strip :: "string list \<Rightarrow> string \<Rightarrow> string" where
  "strip ws s = (case find (\<lambda>w. w \<noteq> [] \<and> prefix w s) ws of
     None \<Rightarrow> s | Some w \<Rightarrow> strip ws (drop (length w) s))"
  by pat_completeness auto
termination
  by (relation "measure (\<lambda>(ws, s). length s)")
    (auto simp: find_Some_iff neq_Nil_conv intro!: diff_less dest: prefix_length_le)

declare strip.simps [simp del]

definition trim_left :: "string \<Rightarrow> string" where
  "trim_left s = strip space_runes s"

definition trim_right :: "string \<Rightarrow> string" where
  "trim_right s = rev (strip (List.map rev space_runes) (rev s))"

definition trim_space :: "string \<Rightarrow> string" where
  "trim_space s = trim_right (trim_left s)"

lemma strip_suffix: "suffix (strip ws s) s"
proof (induction ws s rule: strip.induct)
  case (1 ws s)
  then show ?case
    by (subst strip.simps) (auto split: option.split intro: suffix_order.trans suffix_drop)
qed

lemma length_trim_space: "length (trim_space s) \<le> length s"
  using suffix_length_le [OF strip_suffix [of space_runes s]]
    suffix_length_le [OF strip_suffix [of "List.map rev space_runes" "rev (trim_left s)"]]
  by (simp add: trim_space_def trim_right_def trim_left_def)

lemma trim_space_Nil [simp]: "trim_space [] = []"
  using length_trim_space [of "[]"] by simp

section \<open>Hexadecimal text\<close>

definition hex_digits :: string where
  "hex_digits = ''0123456789abcdef''"

definition hex_char :: "nat \<Rightarrow> char" where
  "hex_char n = hex_digits ! n"

definition hex_val :: "char \<Rightarrow> nat option" where
  "hex_val c = (let b = byte c in
     if 48 \<le> b \<and> b \<le> 57 then Some (b - 48)
     else if 97 \<le> b \<and> b \<le> 102 then Some (b - 87)
     else if 65 \<le> b \<and> b \<le> 70 then Some (b - 55)
     else None)"

fun hex_encode :: "string \<Rightarrow> string" where
  "hex_encode [] = []"
| "hex_encode (c # cs) = hex_char (byte c div 16) # hex_char (byte c mod 16) # hex_encode cs"

fun hex_decode :: "string \<Rightarrow> string option" where
  "hex_decode [] = Some []"
| "hex_decode [_] = None"
| "hex_decode (c # d # cs) =
     (case (hex_val c, hex_val d, hex_decode cs) of
        (Some x, Some y, Some r) \<Rightarrow> Some (char_of (16 * x + y) # r)
      | _ \<Rightarrow> None)"

lemma byte_less: "byte c < 256"
  by (cases c) (auto simp: of_char_def horner_sum_simps)

lemma less_16_cases: "(n::nat) < 16 \<Longrightarrow> n \<in> {0,1,2,3,4,5,6,7,8,9,10,11,12,13,14,15}"
  by (simp, arith)

lemma hex_val_hex_char: "n < 16 \<Longrightarrow> hex_val (hex_char n) = Some n"
  by (drule less_16_cases) (auto simp: hex_val_def hex_char_def hex_digits_def)

lemma hex_decode_encode: "hex_decode (hex_encode s) = Some s"
proof (induction s)
  case Nil
  then show ?case by simp
next
  case (Cons c s)
  have "byte c div 16 < 16" using byte_less [of c] by (simp add: less_mult_imp_div_less)
  then show ?case using Cons by (simp add: hex_val_hex_char)
qed

lemma length_hex_encode: "length (hex_encode s) = 2 * length s"
  by (induction s) auto

lemma hex_val_less: "hex_val c = Some x \<Longrightarrow> x < 16"
  by (auto simp: hex_val_def Let_def split: if_splits)

lemma hex_val_char_of:
  assumes "hex_val c = Some x"
  shows "hex_char x = c \<longleftrightarrow> c \<in> set hex_digits"
proof -
  have mem: "hex_char x \<in> set hex_digits"
    unfolding hex_char_def by (rule nth_mem) (use hex_val_less [OF assms] in \<open>simp add: hex_digits_def\<close>)
  have unhex: "\<And>d. d \<in> set hex_digits \<Longrightarrow> hex_val d = Some x \<Longrightarrow> hex_char x = d"
    by (auto simp: hex_digits_def hex_val_def hex_char_def)
  show ?thesis using mem unhex [of c] assms by auto
qed

lemma hex_digit_val: "c \<in> set hex_digits \<Longrightarrow> \<exists>x. hex_val c = Some x"
  by (auto simp: hex_digits_def hex_val_def)

text \<open>Text that decodes and re-encodes to itself is lower-case hexadecimal of even length.\<close>

lemma hex_canonical_iff:
  "(\<exists>r. hex_decode k = Some r \<and> hex_encode r = k) \<longleftrightarrow> even (length k) \<and> set k \<subseteq> set hex_digits"
proof (induction k rule: hex_decode.induct)
  case (3 c d cs)
  show ?case
  proof (cases "hex_val c = None \<or> hex_val d = None")
    case True
    then show ?thesis using hex_digit_val [of c] hex_digit_val [of d] by (auto split: option.splits)
  next
    case False
    then obtain x y where v: "hex_val c = Some x" "hex_val d = Some y" by auto
    have b: "16 * x + y < 256" "(16 * x + y) div 16 = x" "(16 * x + y) mod 16 = y"
      using hex_val_less [OF v(1)] hex_val_less [OF v(2)] by auto
    show ?thesis
      using "3" v b hex_val_char_of [OF v(1)] hex_val_char_of [OF v(2)]
      by (auto split: option.splits)
  qed
qed auto

section \<open>Bytes of a word\<close>

text \<open>The \<open>n\<close> low bytes of a word, most significant first: an array, or \<open>PutUint64\<close> for 8.\<close>

definition be_bytes :: "nat \<Rightarrow> 'a::len word \<Rightarrow> string" where
  "be_bytes n w = List.map (\<lambda>i. char_of (unat (take_bit 8 (drop_bit (8 * i) w)))) (rev [0..<n])"

lemma length_be_bytes [simp]: "length (be_bytes n w) = n"
  by (simp add: be_bytes_def)

lemma be_bytes_eq:
  fixes w w' :: "'a::len word"
  assumes "LENGTH('a) \<le> 8 * n"
  shows "be_bytes n w = be_bytes n w' \<longleftrightarrow> w = w'"
proof
  assume eq: "be_bytes n w = be_bytes n w'"
  have small: "unat (take_bit 8 (x :: 'a word)) < 256" for x
    unfolding unsigned_take_bit_eq using take_bit_nat_less_exp [of 8 "unat x"] by simp
  have digit: "take_bit 8 (drop_bit (8 * i) w) = take_bit 8 (drop_bit (8 * i) w')" if "i < n" for i
  proof -
    have "char_of (unat (take_bit 8 (drop_bit (8 * i) w))) = (char_of (unat (take_bit 8 (drop_bit (8 * i) w'))) :: char)"
      using eq that by (auto simp: be_bytes_def)
    then have "unat (take_bit 8 (drop_bit (8 * i) w)) = unat (take_bit 8 (drop_bit (8 * i) w'))"
      using small [of "drop_bit (8 * i) w"] small [of "drop_bit (8 * i) w'"]
      by (metis mod_less of_char_of)
    then show ?thesis by (simp only: word_unat_eq_iff)
  qed
  show "w = w'"
  proof (rule bit_word_eqI)
    fix k
    assume "k < LENGTH('a)"
    then have "k div 8 < n" using assms by auto
    from digit [OF this] have "bit (take_bit 8 (drop_bit (8 * (k div 8)) w)) (k mod 8)
        = bit (take_bit 8 (drop_bit (8 * (k div 8)) w')) (k mod 8)" by simp
    then show "bit w k = bit w' k" by (simp add: bit_take_bit_iff bit_drop_bit_eq)
  qed
qed simp

section \<open>Decimal text\<close>

text \<open>How \<open>%d\<close> and \<open>strconv\<close> print an integer.\<close>

fun dec_nat :: "nat \<Rightarrow> string" where
  "dec_nat n = (if n < 10 then [char_of (48 + n)] else dec_nat (n div 10) @ [char_of (48 + n mod 10)])"

declare dec_nat.simps [simp del]

definition dec_int :: "int \<Rightarrow> string" where
  "dec_int n = (if n < 0 then CHR 0x2D # dec_nat (nat (- n)) else dec_nat (nat n))"

text \<open>\<open>strings.Join\<close>.\<close>

fun join :: "string \<Rightarrow> string list \<Rightarrow> string" where
  "join sep [] = []"
| "join sep [x] = x"
| "join sep (x # y # xs) = x @ sep @ join sep (y # xs)"

text \<open>Pieces that hold no separator can be read back from their concatenation.\<close>

lemma append_sep_eq:
  assumes "sep \<notin> set x" "sep \<notin> set y"
  shows "x @ sep # xs = y @ sep # ys \<longleftrightarrow> x = y \<and> xs = ys"
proof
  assume eq: "x @ sep # xs = y @ sep # ys"
  have "takeWhile (\<lambda>c. c \<noteq> sep) (x @ sep # xs) = x" "takeWhile (\<lambda>c. c \<noteq> sep) (y @ sep # ys) = y"
    using assms by (simp_all add: takeWhile_append)
  then show "x = y \<and> xs = ys" using eq by auto
qed simp

section \<open>Base64\<close>

text \<open>
  \<open>base64.RawURLEncoding\<close>: no padding, \<open>-\<close> and \<open>_\<close> for 62 and 63. The decoder skips carriage returns
  and line feeds; in strict mode the bits that are left over must be zero.
\<close>

definition b64_digits :: string where
  "b64_digits = ''ABCDEFGHIJKLMNOPQRSTUVWXYZabcdefghijklmnopqrstuvwxyz0123456789-_''"

definition b64_char :: "nat \<Rightarrow> char" where
  "b64_char n = b64_digits ! n"

definition b64_val :: "char \<Rightarrow> nat option" where
  "b64_val c = (let b = byte c in
     if 65 \<le> b \<and> b \<le> 90 then Some (b - 65)
     else if 97 \<le> b \<and> b \<le> 122 then Some (b - 71)
     else if 48 \<le> b \<and> b \<le> 57 then Some (b + 4)
     else if b = 45 then Some 62
     else if b = 95 then Some 63
     else None)"

fun b64_sextets :: "string \<Rightarrow> nat list" where
  "b64_sextets [] = []"
| "b64_sextets [a] = [byte a div 4, byte a mod 4 * 16]"
| "b64_sextets [a, b] = [byte a div 4, byte a mod 4 * 16 + byte b div 16, byte b mod 16 * 4]"
| "b64_sextets (a # b # c # r) =
     [byte a div 4, byte a mod 4 * 16 + byte b div 16, byte b mod 16 * 4 + byte c div 64, byte c mod 64] @ b64_sextets r"

definition b64_encode :: "string \<Rightarrow> string" where
  "b64_encode s = List.map b64_char (b64_sextets s)"

fun b64_octets :: "nat list \<Rightarrow> string option" where
  "b64_octets [] = Some []"
| "b64_octets [x] = None"
| "b64_octets [x, y] = (if y mod 16 \<noteq> 0 then None else Some [char_of (x * 4 + y div 16)])"
| "b64_octets [x, y, z] =
     (if z mod 4 \<noteq> 0 then None else Some [char_of (x * 4 + y div 16), char_of (y mod 16 * 16 + z div 4)])"
| "b64_octets (x # y # z # w # r) =
     (case b64_octets r of None \<Rightarrow> None
      | Some t \<Rightarrow> Some (char_of (x * 4 + y div 16) # char_of (y mod 16 * 16 + z div 4) # char_of (z mod 4 * 64 + w) # t))"

definition b64_decode_strict :: "string \<Rightarrow> string option" where
  "b64_decode_strict s =
     (case those (List.map b64_val (filter (\<lambda>c. c \<noteq> CHR 0x0D \<and> c \<noteq> CHR 0x0A) s)) of
        None \<Rightarrow> None | Some ds \<Rightarrow> b64_octets ds)"

lemma b64_vals: "List.map b64_val b64_digits = List.map Some [0..<64]"
  by (simp add: b64_digits_def b64_val_def upt_rec)

lemma b64_val_char:
  assumes "n < 64"
  shows "b64_val (b64_char n) = Some n" "b64_char n \<noteq> CHR 0x0D" "b64_char n \<noteq> CHR 0x0A"
proof -
  have len: "length b64_digits = 64" by (simp add: b64_digits_def)
  then have "b64_val (b64_digits ! n) = List.map b64_val b64_digits ! n" using assms by simp
  then show "b64_val (b64_char n) = Some n" using assms unfolding b64_vals b64_char_def by simp
  have "b64_char n \<in> set b64_digits" using assms len by (simp add: b64_char_def)
  moreover have "CHR 0x0D \<notin> set b64_digits" "CHR 0x0A \<notin> set b64_digits" by (simp_all add: b64_digits_def)
  ultimately show "b64_char n \<noteq> CHR 0x0D" "b64_char n \<noteq> CHR 0x0A" by auto
qed

lemma b64_sextets_less: "x \<in> set (b64_sextets s) \<Longrightarrow> x < 64"
proof -
  have b: "byte c div 4 < 64" "byte c div 16 < 16" "byte c div 64 < 4" for c
    using byte_less [of c] by (simp_all add: less_mult_imp_div_less)
  have m: "x mod 4 * 16 + y < 64" if "y < 16" for x y :: nat using that mod_less_divisor [of 4 x] by linarith
  have n: "x mod 16 * 4 + y < 64" if "y < 4" for x y :: nat using that mod_less_divisor [of 16 x] by linarith
  show "x \<in> set (b64_sextets s) \<Longrightarrow> x < 64"
    using b m [of 0] n [of 0] by (induction s rule: b64_sextets.induct) (auto intro: m n)
qed

lemma those_values: "\<forall>x \<in> set xs. x < 64 \<Longrightarrow> those (List.map (b64_val o b64_char) xs) = Some xs"
  by (induction xs) (auto simp: b64_val_char)

lemma b64_octets_sextets: "b64_octets (b64_sextets s) = Some s"
proof (induction s rule: b64_sextets.induct)
  case (4 a b c r)
  have "byte b div 16 < 16" "byte c div 64 < 4"
    using byte_less [of b] byte_less [of c] by (simp_all add: less_mult_imp_div_less)
  then have "byte a div 4 * 4 + (byte a mod 4 * 16 + byte b div 16) div 16 = byte a"
    "(byte a mod 4 * 16 + byte b div 16) mod 16 * 16 + (byte b mod 16 * 4 + byte c div 64) div 4 = byte b"
    "(byte b mod 16 * 4 + byte c div 64) mod 4 * 64 + byte c mod 64 = byte c"
    by (simp_all add: div_mult_mod_eq mult.commute)
  then show ?case using 4 by simp
next
  case (3 a b)
  have "byte b div 16 < 16" using byte_less [of b] by (simp add: less_mult_imp_div_less)
  then have "byte a div 4 * 4 + (byte a mod 4 * 16 + byte b div 16) div 16 = byte a"
    "(byte a mod 4 * 16 + byte b div 16) mod 16 * 16 + byte b mod 16 * 4 div 4 = byte b"
    by (simp_all add: div_mult_mod_eq mult.commute)
  then show ?case by simp
qed (simp_all add: div_mult_mod_eq)

lemma b64_decode_encode: "b64_decode_strict (b64_encode s) = Some s"
proof -
  have "filter (\<lambda>c. c \<noteq> CHR 0x0D \<and> c \<noteq> CHR 0x0A) (b64_encode s) = b64_encode s"
    using b64_sextets_less [of _ s] b64_val_char by (auto simp: b64_encode_def filter_id_conv)
  then show ?thesis
    using those_values [of "b64_sextets s"] b64_sextets_less [of _ s]
    by (simp add: b64_decode_strict_def b64_encode_def b64_octets_sextets comp_def)
qed

lemma b64_encode_eq [simp]: "b64_encode s = b64_encode t \<longleftrightarrow> s = t"
  by (metis b64_decode_encode option.inject)

lemma length_b64_encode: "length (b64_encode s) = (4 * length s + 2) div 3"
proof -
  have "length (b64_sextets s) = (4 * length s + 2) div 3"
    by (induction s rule: b64_sextets.induct) auto
  then show ?thesis by (simp add: b64_encode_def)
qed

text \<open>Without \<open>Strict()\<close> the decoder drops the bits after the last byte.\<close>

fun b64_octets_lax :: "nat list \<Rightarrow> string option" where
  "b64_octets_lax [] = Some []"
| "b64_octets_lax [x] = None"
| "b64_octets_lax [x, y] = Some [char_of (x * 4 + y div 16)]"
| "b64_octets_lax [x, y, z] = Some [char_of (x * 4 + y div 16), char_of (y mod 16 * 16 + z div 4)]"
| "b64_octets_lax (x # y # z # w # r) =
     (case b64_octets_lax r of None \<Rightarrow> None
      | Some t \<Rightarrow> Some (char_of (x * 4 + y div 16) # char_of (y mod 16 * 16 + z div 4) # char_of (z mod 4 * 64 + w) # t))"

definition b64_decode :: "string \<Rightarrow> string option" where
  "b64_decode s =
     (case those (List.map b64_val (filter (\<lambda>c. c \<noteq> CHR 0x0D \<and> c \<noteq> CHR 0x0A) s)) of
        None \<Rightarrow> None | Some ds \<Rightarrow> b64_octets_lax ds)"

lemma b64_octets_imp_lax: "b64_octets xs = Some s \<Longrightarrow> b64_octets_lax xs = Some s"
  by (induction xs arbitrary: s rule: b64_octets.induct) (auto split: if_splits option.splits)

lemma b64_decode_lax_encode [simp]: "b64_decode (b64_encode s) = Some s"
  using b64_decode_encode [of s] b64_octets_imp_lax
  by (auto simp: b64_decode_def b64_decode_strict_def split: option.splits)

end
