(* ===== verification/GuestTrial.thy ===== *)
theory GuestTrial
  imports Go_Text
begin

text \<open>
  The guest trial (\<open>internal/guesttrial\<close>): the bounded control record and its transition
  (\<open>ledger.go\<close>), the in-memory store (\<open>memory.go\<close>), the Firestore document codec and
  transaction body (\<open>firestore.go\<close>), the service that binds a trial to its owner (\<open>service.go\<close>)
  and the evaluation that publishes a verdict by compare-and-swap (\<open>verification.go\<close>).

  \<^item> \<open>trial_store\<close> is the locale of the \<open>Store\<close> interface: what create, read and apply promise
    about an abstract map of records. The service's lemmas are proved in it once; the memory
    store and the Firestore store interpret it.
  \<^item> A context is the error that \<open>ctx.Err()\<close> returns at each check, HMAC-SHA256 under the
    service's key is the parameter \<open>mac\<close>, and what other requests do to the store while a
    verifier runs is the parameter \<open>env\<close> of \<open>evaluate\<close>.
  \<^item> Firestore itself is a map from document names to field maps; a transaction sees one
    state of it and writes atomically or fails, which is its documented behaviour.
\<close>

section \<open>Ledger\<close>

definition trial_ttl :: duration where
  [const_simps]: "trial_ttl = 15 * minute"

definition question_id :: string where
  [const_simps]: "question_id = ''rest_activity_v1''"

definition question_text :: string where
  "question_text = utf8_encode
     [0x5c11, 0x3057, 0x4f11, 0x3081, 0x308b, 0x3068, 0x3057, 0x305f, 0x3089, 0x3001,
      0x4f55, 0x3092, 0x3057, 0x305f, 0x3044, 0x3067, 0x3059, 0x304b, 0xff1f]"

datatype trial_error = ErrInvalid | ErrConflict | ErrExpired | ErrNotFound | ErrCapacity
  | ErrOther string

datatype trial_status = Pending | Stopped | AnswerFirst | Unverified | StatusOther string

datatype trial_event = Help | Stop | CompleteVerified | CompleteUnverified | EventOther "8 word"

record trial =
  version :: int
  question :: string
  generation :: int
  assisted :: bool
  status :: trial_status
  created_at :: time
  expires_at :: time

definition valid_key :: "string \<Rightarrow> bool" where
  "valid_key k =
     (if length k \<noteq> 64 then False
      else case hex_decode k of None \<Rightarrow> False | Some raw \<Rightarrow> hex_encode raw = k)"

definition expected_generation :: "trial \<Rightarrow> int" where
  "expected_generation r = 1 + (if assisted r then 1 else 0) + (if status r \<noteq> Pending then 1 else 0)"

definition validate :: "trial \<Rightarrow> (trial_error, unit) result" where
  "validate r =
     (if version r \<noteq> 1 \<or> question r \<noteq> question_id \<or> generation r < 1 \<or> generation r > 4
        \<or> is_zero (created_at r) \<or> expires_at r - created_at r \<noteq> trial_ttl
      then Inl ErrInvalid
      else if (case status r of StatusOther _ \<Rightarrow> True | _ \<Rightarrow> False) then Inl ErrInvalid
      else if generation r \<noteq> expected_generation r then Inl ErrInvalid
      else Inr ())"

definition current :: "trial \<Rightarrow> time \<Rightarrow> (trial_error, trial) result" where
  "current r now =
     (case validate r of Inl e \<Rightarrow> Inl e | Inr _ \<Rightarrow>
        (if is_zero now \<or> now < created_at r then Inl ErrInvalid
         else if \<not> now < expires_at r then Inl ErrExpired
         else Inr r))"

definition apply_event :: "trial \<Rightarrow> trial_event \<Rightarrow> (trial_error, trial) result" where
  "apply_event r e =
     (case e of
        Help \<Rightarrow> if assisted r then Inl ErrConflict else Inr (r\<lparr>assisted := True\<rparr>)
      | Stop \<Rightarrow> Inr (r\<lparr>status := Stopped\<rparr>)
      | CompleteVerified \<Rightarrow> Inr (r\<lparr>status := AnswerFirst\<rparr>)
      | CompleteUnverified \<Rightarrow> Inr (r\<lparr>status := Unverified\<rparr>)
      | EventOther _ \<Rightarrow> Inl ErrInvalid)"

definition transition :: "trial \<Rightarrow> int \<Rightarrow> trial_event \<Rightarrow> time \<Rightarrow> (trial_error, trial) result" where
  "transition r gen e now =
     (case current r now of Inl x \<Rightarrow> Inl x | Inr r \<Rightarrow>
        (if gen \<noteq> generation r \<or> status r \<noteq> Pending then Inl ErrConflict
         else case apply_event r e of Inl x \<Rightarrow> Inl x | Inr r' \<Rightarrow>
           (let r'' = r'\<lparr>generation := wrap64 (generation r' + 1)\<rparr> in
            case validate r'' of Inl x \<Rightarrow> Inl x | Inr _ \<Rightarrow> Inr r'')))"

abbreviation valid_trial :: "trial \<Rightarrow> bool" where
  "valid_trial r \<equiv> validate r = Inr ()"

fun is_terminal :: "trial_event \<Rightarrow> bool" where
  "is_terminal Stop = True"
| "is_terminal CompleteVerified = True"
| "is_terminal CompleteUnverified = True"
| "is_terminal _ = False"

fun result_status :: "trial_event \<Rightarrow> trial_status" where
  "result_status Help = Pending"
| "result_status Stop = Stopped"
| "result_status CompleteVerified = AnswerFirst"
| "result_status CompleteUnverified = Unverified"
| "result_status (EventOther w) = Pending"

lemma validate_iff:
  "valid_trial r \<longleftrightarrow> version r = 1 \<and> question r = question_id
     \<and> created_at r \<noteq> 0 \<and> expires_at r = created_at r + trial_ttl
     \<and> (\<forall>w. status r \<noteq> StatusOther w) \<and> generation r = expected_generation r"
  by (auto simp: validate_def expected_generation_def split: trial_status.splits if_splits)

lemma validate_Inl: "validate r = Inl e \<Longrightarrow> e = ErrInvalid"
  by (auto simp: validate_def split: if_splits)

lemma validate_error: "\<not> valid_trial r \<Longrightarrow> validate r = Inl ErrInvalid"
  using validate_Inl by (cases "validate r") auto

lemma case_validate:
  "(case validate r of Inl e \<Rightarrow> Inl e | Inr _ \<Rightarrow> x) = (if valid_trial r then x else Inl ErrInvalid)"
  using validate_error [of r] by (cases "validate r") auto

lemma current_Inr:
  "current r now = Inr r' \<longleftrightarrow> r' = r \<and> valid_trial r \<and> now \<noteq> 0 \<and> created_at r \<le> now \<and> now < expires_at r"
  by (auto simp: current_def case_validate)

lemma wrap_generation: "valid_trial r \<Longrightarrow> wrap64 (generation r + 1) = generation r + 1"
  by (intro wrap64_id) (auto simp: validate_iff expected_generation_def in_i64_def)

lemma apply_event_Inr:
  "apply_event r e = Inr r' \<longleftrightarrow> (e = Help \<and> \<not> assisted r \<or> is_terminal e)
     \<and> r' = (if e = Help then r\<lparr>assisted := True\<rparr> else r\<lparr>status := result_status e\<rparr>)"
  by (cases e) (auto simp: apply_event_def)

lemma advanced_valid:
  assumes "valid_trial r" "status r = Pending" "apply_event r e = Inr r'"
  shows "generation r' = generation r" and "valid_trial (r'\<lparr>generation := generation r + 1\<rparr>)"
  using assms by (cases e; auto simp: apply_event_Inr validate_iff expected_generation_def)+

lemma advanced_record:
  assumes "status r = Pending" "apply_event r e = Inr r'"
  shows "r'\<lparr>generation := g\<rparr> =
    r\<lparr>assisted := assisted r \<or> e = Help, status := result_status e, generation := g\<rparr>"
  using assms by (cases r; cases e) (auto simp: apply_event_Inr)

lemma transition_Inr:
  "transition r gen e now = Inr r' \<longleftrightarrow>
     valid_trial r \<and> now \<noteq> 0 \<and> created_at r \<le> now \<and> now < expires_at r
     \<and> gen = generation r \<and> status r = Pending
     \<and> (e = Help \<and> \<not> assisted r \<or> is_terminal e)
     \<and> r' = r\<lparr>assisted := assisted r \<or> e = Help, status := result_status e, generation := generation r + 1\<rparr>"
proof (cases "valid_trial r \<and> now \<noteq> 0 \<and> created_at r \<le> now \<and> now < expires_at r
    \<and> gen = generation r \<and> status r = Pending")
  case True
  then have c: "current r now = Inr r" by (simp add: current_Inr)
  show ?thesis
  proof (cases "apply_event r e")
    case (Inl x)
    then have "\<not> (e = Help \<and> \<not> assisted r \<or> is_terminal e)"
      using apply_event_Inr [of r e] by (metis Inl_Inr_False)
    then show ?thesis using True c Inl by (simp add: transition_def)
  next
    case (Inr r1)
    have "transition r gen e now = Inr (r1\<lparr>generation := generation r + 1\<rparr>)"
      using True c Inr advanced_valid [of r e r1] by (simp add: transition_def Let_def wrap_generation)
    then show ?thesis
      using True Inr advanced_record [of r e r1 "generation r + 1"] by (auto simp: apply_event_Inr)
  qed
next
  case False
  then show ?thesis by (auto simp: transition_def current_Inr split: sum.splits if_splits)
qed

lemma transition_valid: "transition r gen e now = Inr r' \<Longrightarrow> valid_trial r'"
  by (cases e) (auto simp: transition_Inr validate_iff expected_generation_def)

section \<open>The store interface\<close>

text \<open>The state-changing calls on a store, as events of a run.\<close>

datatype 'c trial_call = CallCreate 'c string trial | CallApply 'c string int trial_event time

fun trial_step ::
  "('c \<Rightarrow> string \<Rightarrow> trial \<Rightarrow> 's \<Rightarrow> (trial_error, unit) result \<times> 's)
   \<Rightarrow> ('c \<Rightarrow> string \<Rightarrow> int \<Rightarrow> trial_event \<Rightarrow> time \<Rightarrow> 's \<Rightarrow> (trial_error, trial) result \<times> 's)
   \<Rightarrow> 's \<Rightarrow> 'c trial_call \<Rightarrow> 's" where
  "trial_step create apply_op s (CallCreate c k r) = snd (create c k r s)"
| "trial_step create apply_op s (CallApply c k g e now) = snd (apply_op c k g e now s)"

text \<open>A call that ends the trial under key \<open>k\<close> and reports success.\<close>

fun trial_ends ::
  "('c \<Rightarrow> string \<Rightarrow> int \<Rightarrow> trial_event \<Rightarrow> time \<Rightarrow> 's \<Rightarrow> (trial_error, trial) result \<times> 's)
   \<Rightarrow> string \<Rightarrow> 's \<Rightarrow> 'c trial_call \<Rightarrow> bool" where
  "trial_ends apply_op k s (CallApply c k' g e now) =
     (k' = k \<and> is_terminal e \<and> (\<exists>r. fst (apply_op c k' g e now s) = Inr r))"
| "trial_ends apply_op k s (CallCreate c k' r) = False"

definition fresh_trial :: "trial \<Rightarrow> bool" where
  "fresh_trial r \<longleftrightarrow> valid_trial r \<and> generation r = 1 \<and> \<not> assisted r \<and> status r = Pending"

text \<open>
  Creating may drop expired records of other keys; a failed call may still have had its effect
  on the server, but no other one.
\<close>

definition created_from :: "(string \<rightharpoonup> trial) \<Rightarrow> string \<Rightarrow> trial \<Rightarrow> (string \<rightharpoonup> trial) \<Rightarrow> bool" where
  "created_from m k r m' \<longleftrightarrow>
     (\<forall>k'. m' k' = m k'
        \<or> m' k' = None \<and> (\<exists>r0. m k' = Some r0 \<and> expires_at r0 \<le> created_at r)
        \<or> k' = k \<and> m k = None \<and> valid_key k \<and> fresh_trial r \<and> m' k = Some r)"

definition applied_from :: "(string \<rightharpoonup> trial) \<Rightarrow> string \<Rightarrow> int \<Rightarrow> trial_event \<Rightarrow> time \<Rightarrow> (string \<rightharpoonup> trial) \<Rightarrow> bool" where
  "applied_from m k g e now m' \<longleftrightarrow>
     m' = m \<or> (\<exists>r r'. m k = Some r \<and> transition r g e now = Inr r' \<and> m' = m(k \<mapsto> r'))"

locale trial_store =
  fixes create :: "'c \<Rightarrow> string \<Rightarrow> trial \<Rightarrow> 's \<Rightarrow> (trial_error, unit) result \<times> 's"
    and read_op :: "'c \<Rightarrow> string \<Rightarrow> time \<Rightarrow> 's \<Rightarrow> (trial_error, trial) result"
    and apply_op :: "'c \<Rightarrow> string \<Rightarrow> int \<Rightarrow> trial_event \<Rightarrow> time \<Rightarrow> 's \<Rightarrow> (trial_error, trial) result \<times> 's"
    and records_of :: "'s \<Rightarrow> string \<rightharpoonup> trial"
  assumes create_effect: "created_from (records_of s) k r (records_of (snd (create c k r s)))"
    and create_ok: "fst (create c k r s) = Inr () \<Longrightarrow>
          records_of s k = None \<and> records_of (snd (create c k r s)) k = Some r"
    and read_ok: "read_op c k now s = Inr r \<Longrightarrow>
          valid_key k \<and> records_of s k = Some r \<and> current r now = Inr r"
    and apply_effect: "applied_from (records_of s) k g e now (records_of (snd (apply_op c k g e now s)))"
    and apply_ok: "fst (apply_op c k g e now s) = Inr r' \<Longrightarrow>
          \<exists>r. records_of s k = Some r \<and> transition r g e now = Inr r'
            \<and> records_of (snd (apply_op c k g e now s)) = (records_of s)(k \<mapsto> r')"
begin

definition pending :: "'s \<Rightarrow> string \<Rightarrow> bool" where
  "pending s k \<longleftrightarrow> (\<exists>r. records_of s k = Some r \<and> status r = Pending)"

definition creates :: "string \<Rightarrow> 's \<Rightarrow> 'c trial_call \<Rightarrow> bool" where
  "creates k s call \<longleftrightarrow> records_of s k = None \<and> records_of (trial_step create apply_op s call) k \<noteq> None"

definition all_valid :: "'s \<Rightarrow> bool" where
  "all_valid s \<longleftrightarrow> (\<forall>k r. records_of s k = Some r \<longrightarrow> valid_trial r)"

lemma pending_from:
  assumes "pending (trial_step create apply_op s call) k"
  shows "pending s k \<or> creates k s call"
proof (cases call)
  case (CallCreate c k' r)
  then show ?thesis
    using assms create_effect [of s k' r c]
    by (auto simp: pending_def creates_def created_from_def) (metis option.distinct(1))
next
  case (CallApply c k' g e now)
  then show ?thesis
    using assms apply_effect [of s k' g e now c]
    by (auto simp: pending_def applied_from_def transition_Inr split: if_splits)
qed

lemma step_all_valid:
  assumes "all_valid s"
  shows "all_valid (trial_step create apply_op s call)"
proof (cases call)
  case (CallCreate c k' r)
  then show ?thesis
    using assms create_effect [of s k' r c] unfolding all_valid_def created_from_def fresh_trial_def
    by (metis option.distinct(1) option.inject trial_step.simps(1))
next
  case (CallApply c k' g e now)
  then show ?thesis
    using assms apply_effect [of s k' g e now c]
    by (auto simp: all_valid_def applied_from_def dest: transition_valid split: if_splits)
qed

end

sublocale trial_store \<subseteq> token_ledger "trial_step create apply_op" "\<lambda>_. True" creates
  "trial_ends apply_op" pending
proof unfold_locales
  fix s :: 's and call :: "'c trial_call" and k :: string
  show "trial_ends apply_op k s call \<Longrightarrow> pending s k"
    by (cases call) (auto simp: pending_def transition_Inr dest!: apply_ok)
  show "trial_ends apply_op k s call \<Longrightarrow> \<not> pending (trial_step create apply_op s call) k"
  proof (cases call)
    case (CallApply c k' g e now)
    assume ends: "trial_ends apply_op k s call"
    obtain r' where ok: "fst (apply_op c k g e now s) = Inr r'" and t: "is_terminal e"
      using ends CallApply by auto
    have "status r' \<noteq> Pending"
      using apply_ok [OF ok] t by (cases e) (auto simp: transition_Inr)
    then show ?thesis
      using apply_ok [OF ok] ends CallApply by (auto simp: pending_def)
  qed auto
qed (use pending_from in auto)

section \<open>The memory store\<close>

record mem_store =
  capacity :: int
  records :: "string \<rightharpoonup> trial"

definition new_memory_store :: "int \<Rightarrow> (trial_error, mem_store) result" where
  "new_memory_store n =
     (if n < 1 \<or> n > 10000 then Inl ErrInvalid else Inr \<lparr>capacity = n, records = Map.empty\<rparr>)"

text \<open>A context is the error \<open>ctx.Err()\<close> returns, if any.\<close>

definition mem_create :: "trial_error option \<Rightarrow> string \<Rightarrow> trial \<Rightarrow> mem_store
    \<Rightarrow> (trial_error, unit) result \<times> mem_store" where
  "mem_create ctx k r s =
     (if \<not> valid_key k \<or> \<not> valid_trial r \<or> generation r \<noteq> 1 \<or> assisted r \<or> status r \<noteq> Pending
      then (Inl ErrInvalid, s)
      else case ctx of Some e \<Rightarrow> (Inl e, s) | None \<Rightarrow>
        (if records s k \<noteq> None then (Inl ErrConflict, s)
         else (let s' = s\<lparr>records := filter_map (\<lambda>r0. expires_at r0 > created_at r) (records s)\<rparr> in
           if int (card (dom (records s'))) \<ge> capacity s' then (Inl ErrCapacity, s')
           else (Inr (), s'\<lparr>records := (records s')(k \<mapsto> r)\<rparr>))))"

definition mem_read :: "trial_error option \<Rightarrow> string \<Rightarrow> time \<Rightarrow> mem_store \<Rightarrow> (trial_error, trial) result" where
  "mem_read ctx k now s =
     (if \<not> valid_key k then Inl ErrInvalid
      else case ctx of Some e \<Rightarrow> Inl e | None \<Rightarrow>
        (case records s k of None \<Rightarrow> Inl ErrNotFound | Some r \<Rightarrow> current r now))"

definition mem_apply :: "trial_error option \<Rightarrow> string \<Rightarrow> int \<Rightarrow> trial_event \<Rightarrow> time \<Rightarrow> mem_store
    \<Rightarrow> (trial_error, trial) result \<times> mem_store" where
  "mem_apply ctx k g e now s =
     (if \<not> valid_key k then (Inl ErrInvalid, s)
      else case ctx of Some x \<Rightarrow> (Inl x, s) | None \<Rightarrow>
        (case records s k of None \<Rightarrow> (Inl ErrNotFound, s) | Some r \<Rightarrow>
          (case transition r g e now of Inl x \<Rightarrow> (Inl x, s)
           | Inr r' \<Rightarrow> (Inr r', s\<lparr>records := (records s)(k \<mapsto> r')\<rparr>))))"

interpretation mem: trial_store mem_create mem_read mem_apply records
proof unfold_locales
  fix s :: mem_store and k r c now g e r'
  show "created_from (records s) k r (records (snd (mem_create c k r s)))"
    by (auto simp: created_from_def mem_create_def Let_def fresh_trial_def filter_map_def
        split: option.splits if_splits)
  show "fst (mem_create c k r s) = Inr () \<Longrightarrow>
          records s k = None \<and> records (snd (mem_create c k r s)) k = Some r"
    by (auto simp: mem_create_def Let_def split: option.splits if_splits)
  show "mem_read c k now s = Inr r \<Longrightarrow> valid_key k \<and> records s k = Some r \<and> current r now = Inr r"
    by (auto simp: mem_read_def current_Inr split: option.splits if_splits)
  show "applied_from (records s) k g e now (records (snd (mem_apply c k g e now s)))"
    by (auto simp: applied_from_def mem_apply_def split: option.splits sum.splits)
  show "fst (mem_apply c k g e now s) = Inr r' \<Longrightarrow>
          \<exists>r. records s k = Some r \<and> transition r g e now = Inr r'
            \<and> records (snd (mem_apply c k g e now s)) = (records s)(k \<mapsto> r')"
    by (auto simp: mem_apply_def split: option.splits sum.splits if_splits)
qed

definition mem_store_ok :: "mem_store \<Rightarrow> bool" where
  "mem_store_ok s \<longleftrightarrow> finite (dom (records s)) \<and> int (card (dom (records s))) \<le> capacity s
     \<and> mem.all_valid s"

lemma mem_store_ok_new: "new_memory_store n = Inr s \<Longrightarrow> mem_store_ok s"
  by (auto simp: new_memory_store_def mem_store_ok_def mem.all_valid_def split: if_splits)

lemma mem_create_ok:
  assumes "finite (dom (records s))" "int (card (dom (records s))) \<le> capacity s"
  shows "finite (dom (records (snd (mem_create c k r s))))
    \<and> int (card (dom (records (snd (mem_create c k r s))))) \<le> capacity (snd (mem_create c k r s))"
proof -
  let ?m = "filter_map (\<lambda>r0. expires_at r0 > created_at r) (records s)"
  have "finite (dom ?m)" "card (dom ?m) \<le> card (dom (records s))"
    using assms card_filter_map by auto
  then show ?thesis
    using assms card_dom_upd_le [of ?m k r]
    by (auto simp: mem_create_def Let_def split: option.splits)
qed

interpretation mem_capacity: invariant_system "trial_step mem_create mem_apply" mem_store_ok
proof
  fix s and call :: "trial_error option trial_call"
  assume ok: "mem_store_ok s"
  have "mem.all_valid (trial_step mem_create mem_apply s call)"
    using ok mem.step_all_valid by (simp add: mem_store_ok_def)
  moreover have "finite (dom (records (trial_step mem_create mem_apply s call)))
    \<and> int (card (dom (records (trial_step mem_create mem_apply s call))))
       \<le> capacity (trial_step mem_create mem_apply s call)"
  proof (cases call)
    case (CallCreate c k r)
    then show ?thesis using ok mem_create_ok by (simp add: mem_store_ok_def)
  next
    case (CallApply c k g e now)
    then show ?thesis
      using ok by (auto simp: mem_store_ok_def mem_apply_def insert_absorb domIff split: option.splits sum.splits)
  qed
  ultimately show "mem_store_ok (trial_step mem_create mem_apply s call)"
    by (simp add: mem_store_ok_def)
qed

section \<open>The Firestore store\<close>

datatype field = FInt int | FString string | FBool bool | FTime time | FOther

type_synonym document = "string \<rightharpoonup> field"

fun status_string :: "trial_status \<Rightarrow> string" where
  "status_string Pending = ''pending''"
| "status_string Stopped = ''stopped''"
| "status_string AnswerFirst = ''answer_first''"
| "status_string Unverified = ''unverified''"
| "status_string (StatusOther w) = w"

definition status_of :: "string \<Rightarrow> trial_status" where
  "status_of w =
     (if w = ''pending'' then Pending else if w = ''stopped'' then Stopped
      else if w = ''answer_first'' then AnswerFirst else if w = ''unverified'' then Unverified
      else StatusOther w)"

definition record_data :: "trial \<Rightarrow> document" where
  "record_data r =
     [''version'' \<mapsto> FInt (version r), ''question'' \<mapsto> FString (question r),
      ''generation'' \<mapsto> FInt (generation r), ''assisted'' \<mapsto> FBool (assisted r),
      ''status'' \<mapsto> FString (status_string (status r)),
      ''createdAt'' \<mapsto> FTime (created_at r), ''expiresAt'' \<mapsto> FTime (expires_at r)]"

definition decode_record :: "document \<Rightarrow> (trial_error, trial) result" where
  "decode_record d =
     (if card (dom d) \<noteq> 7 then Inl ErrInvalid
      else case (d ''version'', d ''question'', d ''generation'', d ''assisted'', d ''status'',
                 d ''createdAt'', d ''expiresAt'') of
        (Some (FInt v), Some (FString q), Some (FInt g), Some (FBool a), Some (FString w),
         Some (FTime c), Some (FTime e)) \<Rightarrow>
          (if v \<noteq> 1 then Inl ErrInvalid
           else (let r = \<lparr>version = 1, question = q, generation = g, assisted = a, status = status_of w,
                          created_at = c, expires_at = e\<rparr> in
             case validate r of Inl x \<Rightarrow> Inl x | Inr _ \<Rightarrow> Inr r))
      | _ \<Rightarrow> Inl ErrInvalid)"

abbreviation field_names :: "string set" where
  "field_names \<equiv> {''version'', ''question'', ''generation'', ''assisted'', ''status'', ''createdAt'', ''expiresAt''}"

lemma dom_record_data: "dom (record_data r) = field_names"
  by (auto simp: record_data_def split: if_splits)

lemma status_of_string: "(\<forall>w. x \<noteq> StatusOther w) \<Longrightarrow> status_of (status_string x) = x"
  by (cases x) (auto simp: status_of_def)

lemma status_string_of: "(\<forall>v. status_of w \<noteq> StatusOther v) \<Longrightarrow> status_string (status_of w) = w"
  by (auto simp: status_of_def split: if_splits)

lemma decode_record_data:
  assumes "valid_trial r"
  shows "decode_record (record_data r) = Inr r"
proof -
  have "card (dom (record_data r)) = 7" by (simp add: dom_record_data)
  moreover have "status_of (status_string (status r)) = status r" and "version r = 1"
    using assms by (auto simp: validate_iff intro: status_of_string)
  ultimately show ?thesis
    using assms by (cases r) (simp add: decode_record_def record_data_def Let_def)
qed

lemma decode_record_Inr:
  "decode_record d = Inr r \<longleftrightarrow> card (dom d) = 7 \<and> valid_trial r
     \<and> (\<exists>w. d ''status'' = Some (FString w) \<and> status r = status_of w)
     \<and> d ''version'' = Some (FInt 1) \<and> d ''question'' = Some (FString (question r))
     \<and> d ''generation'' = Some (FInt (generation r)) \<and> d ''assisted'' = Some (FBool (assisted r))
     \<and> d ''createdAt'' = Some (FTime (created_at r)) \<and> d ''expiresAt'' = Some (FTime (expires_at r))"
    (is "?l \<longleftrightarrow> ?r")
proof
  assume ?l
  then show ?r
    by (simp add: decode_record_def Let_def case_validate split: if_splits option.splits field.splits) auto
next
  assume r: ?r
  moreover from r have "version r = 1" by (simp add: validate_iff)
  ultimately show ?l
    by (cases r) (auto simp: decode_record_def Let_def)
qed

lemma record_data_decode:
  assumes "decode_record d = Inr r"
  shows "record_data r = d"
proof -
  note c = assms [unfolded decode_record_Inr]
  obtain w where w: "d ''status'' = Some (FString w)" "status r = status_of w" using c by blast
  have "\<forall>v. status_of w \<noteq> StatusOther v" "version r = 1"
    using c w(2) by (simp_all add: validate_iff)
  then have same: "\<forall>k \<in> field_names. d k = record_data r k"
    using c w status_string_of [of w] by (simp add: record_data_def)
  have "finite (dom d)" using c by (metis card.infinite zero_neq_numeral)
  moreover have "field_names \<subseteq> dom d" using c w by (simp add: domI)
  moreover have "card field_names = card (dom d)" using c by simp
  ultimately have dom: "dom d = field_names" using card_subset_eq by metis
  show ?thesis
  proof
    fix k
    show "record_data r k = d k"
    proof (cases "k \<in> field_names")
      case True
      then show ?thesis using same by metis
    next
      case False
      then have "k \<notin> dom d" "k \<notin> dom (record_data r)"
        unfolding dom dom_record_data by assumption+
      then show ?thesis unfolding domIff by metis
    qed
  qed
qed

text \<open>
  A context for Firestore carries the failure of the call, if any, and whether its write had
  reached the server all the same.
\<close>

type_synonym fs_context = "(trial_error \<times> bool) option"
type_synonym fs_store = "string \<rightharpoonup> document"

definition fs_records :: "fs_store \<Rightarrow> string \<rightharpoonup> trial" where
  "fs_records s k = (case s k of None \<Rightarrow> None | Some d \<Rightarrow>
     (case decode_record d of Inl _ \<Rightarrow> None | Inr r \<Rightarrow> Some r))"

definition fs_create :: "fs_context \<Rightarrow> string \<Rightarrow> trial \<Rightarrow> fs_store
    \<Rightarrow> (trial_error, unit) result \<times> fs_store" where
  "fs_create ctx k r s =
     (if \<not> valid_key k \<or> \<not> valid_trial r \<or> generation r \<noteq> 1 \<or> assisted r \<or> status r \<noteq> Pending
      then (Inl ErrInvalid, s)
      else (let written = (if s k = None then s(k \<mapsto> record_data r) else s) in
        case ctx of
          Some (e, applied) \<Rightarrow> (Inl e, if applied then written else s)
        | None \<Rightarrow> if s k \<noteq> None then (Inl ErrConflict, s) else (Inr (), written)))"

definition fs_read :: "fs_context \<Rightarrow> string \<Rightarrow> time \<Rightarrow> fs_store \<Rightarrow> (trial_error, trial) result" where
  "fs_read ctx k now s =
     (if \<not> valid_key k then Inl ErrInvalid
      else case ctx of Some (e, _) \<Rightarrow> Inl e | None \<Rightarrow>
        (case s k of None \<Rightarrow> Inl ErrNotFound | Some d \<Rightarrow>
          (case decode_record d of Inl e \<Rightarrow> Inl e | Inr r \<Rightarrow> current r now)))"

text \<open>The body of the transaction of \<open>Apply\<close>: the record it computes, to be written back.\<close>

definition fs_apply_body :: "document option \<Rightarrow> int \<Rightarrow> trial_event \<Rightarrow> time \<Rightarrow> (trial_error, trial) result" where
  "fs_apply_body snap g e now =
     (case snap of None \<Rightarrow> Inl ErrNotFound | Some d \<Rightarrow>
       (case decode_record d of Inl x \<Rightarrow> Inl x | Inr r \<Rightarrow> transition r g e now))"

definition fs_apply :: "fs_context \<Rightarrow> string \<Rightarrow> int \<Rightarrow> trial_event \<Rightarrow> time \<Rightarrow> fs_store
    \<Rightarrow> (trial_error, trial) result \<times> fs_store" where
  "fs_apply ctx k g e now s =
     (if \<not> valid_key k then (Inl ErrInvalid, s)
      else case fs_apply_body (s k) g e now of
        Inl x \<Rightarrow> (Inl (case ctx of None \<Rightarrow> x | Some (y, _) \<Rightarrow> y), s)
      | Inr r' \<Rightarrow>
         (case ctx of
            None \<Rightarrow> (Inr r', s(k \<mapsto> record_data r'))
          | Some (y, applied) \<Rightarrow> (Inl y, if applied then s(k \<mapsto> record_data r') else s)))"

lemma fs_records_upd: "valid_trial r \<Longrightarrow> fs_records (s(k \<mapsto> record_data r)) = (fs_records s)(k \<mapsto> r)"
  by (auto simp: fs_records_def fun_eq_iff decode_record_data)

lemma fs_apply_body_Inr:
  "fs_apply_body (s k) g e now = Inr r' \<longleftrightarrow> (\<exists>r. fs_records s k = Some r \<and> transition r g e now = Inr r')"
  by (auto simp: fs_apply_body_def fs_records_def split: option.splits sum.splits)

interpretation fs: trial_store fs_create fs_read fs_apply fs_records
proof unfold_locales
  fix s :: fs_store and k r c now g e r'
  show "created_from (fs_records s) k r (fs_records (snd (fs_create c k r s)))"
  proof (cases "snd (fs_create c k r s) = s")
    case False
    then have "s k = None \<and> valid_key k \<and> fresh_trial r \<and> snd (fs_create c k r s) = s(k \<mapsto> record_data r)"
      by (auto simp: fs_create_def Let_def fresh_trial_def split: option.splits if_splits)
    moreover from this have "fs_records s k = None" by (simp add: fs_records_def)
    ultimately show ?thesis
      by (simp add: created_from_def fs_records_upd fresh_trial_def)
  qed (simp add: created_from_def)
  show "fst (fs_create c k r s) = Inr () \<Longrightarrow>
          fs_records s k = None \<and> fs_records (snd (fs_create c k r s)) k = Some r"
    by (auto simp: fs_create_def Let_def fs_records_upd split: option.splits if_splits)
      (simp add: fs_records_def)
  show "fs_read c k now s = Inr r \<Longrightarrow> valid_key k \<and> fs_records s k = Some r \<and> current r now = Inr r"
    by (auto simp: fs_read_def fs_records_def current_Inr split: option.splits sum.splits if_splits)
  show "applied_from (fs_records s) k g e now (fs_records (snd (fs_apply c k g e now s)))"
  proof (cases "fs_apply_body (s k) g e now")
    case (Inr r'')
    then obtain r0 where r0: "fs_records s k = Some r0" "transition r0 g e now = Inr r''"
      using fs_apply_body_Inr [of s k] by blast
    then show ?thesis
      using Inr fs_records_upd [OF transition_valid [OF r0(2)], of s k]
      by (auto simp: fs_apply_def applied_from_def split: option.splits)
  qed (auto simp: fs_apply_def applied_from_def)
  show "fst (fs_apply c k g e now s) = Inr r' \<Longrightarrow>
          \<exists>r. fs_records s k = Some r \<and> transition r g e now = Inr r'
            \<and> fs_records (snd (fs_apply c k g e now s)) = (fs_records s)(k \<mapsto> r')"
  proof -
    assume ok: "fst (fs_apply c k g e now s) = Inr r'"
    then have body: "fs_apply_body (s k) g e now = Inr r'"
        and s': "snd (fs_apply c k g e now s) = s(k \<mapsto> record_data r')"
      by (auto simp: fs_apply_def split: option.splits sum.splits if_splits)
    then obtain r0 where r0: "fs_records s k = Some r0" "transition r0 g e now = Inr r'"
      using fs_apply_body_Inr [of s k] by blast
    then show ?thesis using s' fs_records_upd [OF transition_valid [OF r0(2)], of s k] by auto
  qed
qed

section \<open>The service\<close>

record owner =
  uid :: string
  app_id :: string

record snapshot =
  snap_version :: int
  snap_id :: string
  snap_question_id :: string
  snap_question :: string
  snap_generation :: int
  snap_assisted :: bool
  snap_status :: trial_status
  snap_expires_at :: time

definition valid_owner :: "owner \<Rightarrow> bool" where
  "valid_owner w =
     list_all (\<lambda>v. \<not> (v = [] \<or> length v > 256 \<or> \<not> utf8_valid v \<or> trim_space v \<noteq> v \<or> CHR 0x00 \<in> set v))
       [uid w, app_id w]"

text \<open>\<open>mac\<close> is HMAC-SHA256 under the service's key.\<close>

definition document_input :: "owner \<Rightarrow> string \<Rightarrow> string" where
  "document_input w i =
     ''kotae-guest-trial-v1'' @ CHR 0x00 # uid w @ CHR 0x00 # app_id w @ CHR 0x00 # i"

definition document_key :: "(string \<Rightarrow> string) \<Rightarrow> owner \<Rightarrow> string \<Rightarrow> (trial_error, string) result" where
  "document_key mac w i =
     (if \<not> valid_owner w \<or> \<not> valid_key i then Inl ErrInvalid
      else Inr (hex_encode (mac (document_input w i))))"

definition snapshot_of :: "string \<Rightarrow> trial \<Rightarrow> snapshot" where
  "snapshot_of i r =
     \<lparr>snap_version = 1, snap_id = i, snap_question_id = question r, snap_question = question_text,
      snap_generation = generation r, snap_assisted = assisted r, snap_status = status r,
      snap_expires_at = expires_at r\<rparr>"

text \<open>
  \<open>ctx_err\<close> is the error of the context at the method's own check, \<open>random\<close> the 32 bytes read from
  the random source or its error, \<open>now\<close> the clock's value. \<open>Truncate\<close> rounds down to a microsecond.
\<close>

definition service_begin ::
  "('c \<Rightarrow> string \<Rightarrow> trial \<Rightarrow> 's \<Rightarrow> (trial_error, unit) result \<times> 's) \<Rightarrow> (string \<Rightarrow> string)
   \<Rightarrow> trial_error option \<Rightarrow> (trial_error, string) result \<Rightarrow> time \<Rightarrow> 'c \<Rightarrow> owner \<Rightarrow> 's
   \<Rightarrow> (trial_error, snapshot) result \<times> 's" where
  "service_begin create mac ctx_err random now c w s =
     (if \<not> valid_owner w then (Inl ErrInvalid, s)
      else case ctx_err of Some e \<Rightarrow> (Inl e, s) | None \<Rightarrow>
       (case random of Inl e \<Rightarrow> (Inl e, s) | Inr raw \<Rightarrow>
         (let i = hex_encode raw in
          case document_key mac w i of Inl e \<Rightarrow> (Inl e, s) | Inr k \<Rightarrow>
           (let t = now - now mod 1000;
                r = \<lparr>version = 1, question = question_id, generation = 1, assisted = False,
                     status = Pending, created_at = t, expires_at = t + trial_ttl\<rparr> in
            case create c k r s of
              (Inl e, s') \<Rightarrow> (Inl e, s')
            | (Inr _, s') \<Rightarrow> (Inr (snapshot_of i r), s')))))"

definition service_read ::
  "('c \<Rightarrow> string \<Rightarrow> time \<Rightarrow> 's \<Rightarrow> (trial_error, trial) result) \<Rightarrow> (string \<Rightarrow> string)
   \<Rightarrow> time \<Rightarrow> 'c \<Rightarrow> owner \<Rightarrow> string \<Rightarrow> 's \<Rightarrow> (trial_error, snapshot) result" where
  "service_read read_op mac now c w i s =
     (case document_key mac w i of Inl e \<Rightarrow> Inl e | Inr k \<Rightarrow>
       (case read_op c k now s of Inl e \<Rightarrow> Inl e | Inr r \<Rightarrow> Inr (snapshot_of i r)))"

definition service_update ::
  "('c \<Rightarrow> string \<Rightarrow> int \<Rightarrow> trial_event \<Rightarrow> time \<Rightarrow> 's \<Rightarrow> (trial_error, trial) result \<times> 's) \<Rightarrow> (string \<Rightarrow> string)
   \<Rightarrow> time \<Rightarrow> 'c \<Rightarrow> owner \<Rightarrow> string \<Rightarrow> int \<Rightarrow> string \<Rightarrow> 's \<Rightarrow> (trial_error, snapshot) result \<times> 's" where
  "service_update apply_op mac now c w i gen act s =
     (case document_key mac w i of Inl e \<Rightarrow> (Inl e, s) | Inr k \<Rightarrow>
       (case (if act = ''help'' then Some Help else if act = ''stop'' then Some Stop else None) of
          None \<Rightarrow> (Inl ErrInvalid, s)
        | Some ev \<Rightarrow>
          (if gen < 1 \<or> gen > 2 then (Inl ErrInvalid, s)
           else case apply_op c k gen ev now s of
             (Inl e, s') \<Rightarrow> (Inl e, s')
           | (Inr r, s') \<Rightarrow> (Inr (snapshot_of i r), s'))))"

section \<open>Verification\<close>

datatype verdict = VerdictAnswerFirst | VerdictUnverified | VerdictOther "8 word"

fun verdict_event :: "verdict \<Rightarrow> trial_event option" where
  "verdict_event VerdictAnswerFirst = Some CompleteVerified"
| "verdict_event VerdictUnverified = Some CompleteUnverified"
| "verdict_event (VerdictOther w) = None"

text \<open>
  \<open>verify\<close> is the caller's verifier (absent when nil); while it runs, other requests take the
  store from \<open>s\<close> to \<open>env s\<close>. \<open>e1\<close>, \<open>e2\<close> and \<open>e3\<close> are the context's errors at the three checks.
\<close>

definition evaluate ::
  "('c \<Rightarrow> string \<Rightarrow> time \<Rightarrow> 's \<Rightarrow> (trial_error, trial) result)
   \<Rightarrow> ('c \<Rightarrow> string \<Rightarrow> int \<Rightarrow> trial_event \<Rightarrow> time \<Rightarrow> 's \<Rightarrow> (trial_error, trial) result \<times> 's)
   \<Rightarrow> (string \<Rightarrow> string) \<Rightarrow> (snapshot \<Rightarrow> (trial_error, verdict) result) option \<Rightarrow> ('s \<Rightarrow> 's)
   \<Rightarrow> trial_error option \<Rightarrow> trial_error option \<Rightarrow> trial_error option \<Rightarrow> time \<Rightarrow> time \<Rightarrow> 'c \<Rightarrow> 'c
   \<Rightarrow> owner \<Rightarrow> string \<Rightarrow> int \<Rightarrow> 's \<Rightarrow> (trial_error, snapshot) result \<times> 's" where
  "evaluate read_op apply_op mac verify env e1 e2 e3 now1 now2 c1 c2 w i gen s =
     (case verify of None \<Rightarrow> (Inl ErrInvalid, s) | Some verifier \<Rightarrow>
      if gen < 1 \<or> gen > 2 then (Inl ErrInvalid, s)
      else case e1 of Some e \<Rightarrow> (Inl e, s) | None \<Rightarrow>
      (case document_key mac w i of Inl e \<Rightarrow> (Inl e, s) | Inr k \<Rightarrow>
      (case read_op c1 k now1 s of Inl e \<Rightarrow> (Inl e, s) | Inr r \<Rightarrow>
       if status r \<noteq> Pending \<or> generation r \<noteq> gen then (Inl ErrConflict, s)
       else case e2 of Some e \<Rightarrow> (Inl e, s) | None \<Rightarrow>
       (case verifier (snapshot_of i r) of Inl e \<Rightarrow> (Inl e, env s) | Inr v \<Rightarrow>
        (case e3 of Some e \<Rightarrow> (Inl e, env s) | None \<Rightarrow>
         (case verdict_event v of None \<Rightarrow> (Inl ErrInvalid, env s) | Some ev \<Rightarrow>
          (case apply_op c2 k gen ev now2 (env s) of
             (Inl e, s') \<Rightarrow> (Inl e, s')
           | (Inr r', s') \<Rightarrow> (Inr (snapshot_of i r'), s'))))))))"

lemma evaluate_Inr:
  "evaluate read_op apply_op mac verify env e1 e2 e3 now1 now2 c1 c2 w i gen s = (Inr snap, s') \<longleftrightarrow>
     e1 = None \<and> e2 = None \<and> e3 = None \<and> 1 \<le> gen \<and> gen \<le> 2
     \<and> (\<exists>verifier k r v ev r'. verify = Some verifier \<and> document_key mac w i = Inr k
        \<and> read_op c1 k now1 s = Inr r \<and> status r = Pending \<and> generation r = gen
        \<and> verifier (snapshot_of i r) = Inr v \<and> verdict_event v = Some ev
        \<and> apply_op c2 k gen ev now2 (env s) = (Inr r', s') \<and> snap = snapshot_of i r')"
  by (auto simp: evaluate_def split: option.split sum.split prod.split)

lemma evaluate_effect:
  "snd (evaluate read_op apply_op mac verify env e1 e2 e3 now1 now2 c1 c2 w i gen s) \<in> {s, env s}
   \<or> (\<exists>k ev. document_key mac w i = Inr k \<and> ev \<in> {CompleteVerified, CompleteUnverified}
        \<and> snd (evaluate read_op apply_op mac verify env e1 e2 e3 now1 now2 c1 c2 w i gen s)
            = snd (apply_op c2 k gen ev now2 (env s)))"
proof -
  have ev: "\<And>v x. verdict_event v = Some x \<Longrightarrow> x \<in> {CompleteVerified, CompleteUnverified}"
    by (erule verdict_event.elims) auto
  show ?thesis
    by (auto simp: evaluate_def split: option.split sum.split prod.split dest: ev)
qed

lemma document_key_Inr:
  "document_key mac w i = Inr k \<longleftrightarrow> valid_owner w \<and> valid_key i
     \<and> k = hex_encode (mac (document_input w i))"
  by (auto simp: document_key_def)

text \<open>The text that is hashed determines the owner and the id.\<close>

lemma document_input_inj:
  assumes "valid_owner w" "valid_owner w'" "document_input w i = document_input w' i'"
  shows "w = w' \<and> i = i'"
proof -
  have "CHR 0x00 \<notin> set (uid w)" "CHR 0x00 \<notin> set (uid w')" "CHR 0x00 \<notin> set (app_id w)" "CHR 0x00 \<notin> set (app_id w')"
    using assms(1,2) by (auto simp: valid_owner_def)
  then show ?thesis
    using assms(3) by (cases w; cases w') (simp add: document_input_def append_sep_eq)
qed

lemma document_key_inj:
  assumes "inj_on mac A" "document_input w i \<in> A" "document_input w' i' \<in> A"
    and "document_key mac w i = Inr k" "document_key mac w' i' = Inr k"
  shows "w = w' \<and> i = i'"
proof -
  have "mac (document_input w i) = mac (document_input w' i')"
    using assms(4,5) hex_decode_encode by (metis document_key_Inr option.inject)
  then have "document_input w i = document_input w' i'"
    using assms(1-3) by (auto dest: inj_onD)
  then show ?thesis using assms(4,5) document_input_inj unfolding document_key_Inr by blast
qed

lemma valid_key_hex: "valid_key (hex_encode raw) \<longleftrightarrow> length raw = 32"
  by (simp add: valid_key_def length_hex_encode hex_decode_encode)

context trial_store begin

lemma evaluate_published:
  assumes "evaluate read_op apply_op mac verify env e1 e2 e3 now1 now2 c1 c2 w i gen s = (Inr snap, s')"
  shows "\<exists>verifier k r v ev r1 r'. verify = Some verifier \<and> document_key mac w i = Inr k
     \<and> records_of s k = Some r \<and> current r now1 = Inr r \<and> status r = Pending \<and> generation r = gen
     \<and> verifier (snapshot_of i r) = Inr v \<and> verdict_event v = Some ev
     \<and> records_of (env s) k = Some r1 \<and> transition r1 gen ev now2 = Inr r'
     \<and> records_of s' = (records_of (env s))(k \<mapsto> r') \<and> snap = snapshot_of i r'"
proof -
  obtain verifier k r v ev r' where *: "verify = Some verifier" "document_key mac w i = Inr k"
      "read_op c1 k now1 s = Inr r" "status r = Pending" "generation r = gen"
      "verifier (snapshot_of i r) = Inr v" "verdict_event v = Some ev"
      "apply_op c2 k gen ev now2 (env s) = (Inr r', s')" "snap = snapshot_of i r'"
    using assms unfolding evaluate_Inr by blast
  moreover have "fst (apply_op c2 k gen ev now2 (env s)) = Inr r'" using *(8) by simp
  ultimately show ?thesis
    using read_ok [OF *(3)] apply_ok [of c2 k gen ev now2 "env s" r'] by auto
qed

lemma evaluate_lost_race:
  assumes "document_key mac w i = Inr k"
    and "\<And>r1. records_of (env s) k = Some r1 \<Longrightarrow> generation r1 \<noteq> gen \<or> status r1 \<noteq> Pending \<or> expires_at r1 \<le> now2"
  shows "(\<exists>e. fst (evaluate read_op apply_op mac verify env e1 e2 e3 now1 now2 c1 c2 w i gen s) = Inl e)
    \<and> records_of (snd (evaluate read_op apply_op mac verify env e1 e2 e3 now1 now2 c1 c2 w i gen s))
        \<in> {records_of s, records_of (env s)}"
proof -
  have none: "\<And>r1 ev r'. records_of (env s) k = Some r1 \<Longrightarrow> transition r1 gen ev now2 \<noteq> Inr r'"
    using assms(2) by (auto simp: transition_Inr)
  have "\<nexists>snap. fst (evaluate read_op apply_op mac verify env e1 e2 e3 now1 now2 c1 c2 w i gen s) = Inr snap"
    using none assms(1) evaluate_published by (metis Inr_inject prod.collapse)
  moreover have "records_of (snd (apply_op c2 k gen ev now2 (env s))) = records_of (env s)" for ev
    using apply_effect [of "env s" k gen ev now2 c2] none by (auto simp: applied_from_def)
  ultimately show ?thesis
    using evaluate_effect [of read_op apply_op mac verify env e1 e2 e3 now1 now2 c1 c2 w i gen s] assms(1)
    by auto (metis sum.exhaust)+
qed

lemma update_effect:
  assumes "document_key mac w i = Inr k"
  shows "\<exists>ev. applied_from (records_of s) k gen ev now
    (records_of (snd (service_update apply_op mac now c w i gen act s)))"
  using assms apply_effect [of s k gen _ now c]
  by (auto simp: service_update_def applied_from_def split: prod.split sum.split) (metis snd_conv)+

end

section \<open>Timings\<close>

record timings =
  stage_values :: "int list"
  stage_seen :: "bool list"

definition with_timings :: timings where
  "with_timings = \<lparr>stage_values = [0, 0, 0], stage_seen = [False, False, False]\<rparr>"

text \<open>\<open>stage\<close> is the number of a \<open>TimingStage\<close>; without timings in the context nothing is kept.\<close>

definition record_timing :: "8 word \<Rightarrow> duration \<Rightarrow> timings option \<Rightarrow> timings option" where
  "record_timing stage elapsed ctx =
     (if stage > 2 \<or> elapsed < 0 \<or> elapsed > minute then ctx
      else case ctx of None \<Rightarrow> None | Some t \<Rightarrow>
        (if stage_seen t ! unat stage then Some t
         else Some (t\<lparr>stage_values := (stage_values t)[unat stage := elapsed div 1000000],
                      stage_seen := (stage_seen t)[unat stage := True]\<rparr>)))"

definition server_timing :: "timings \<Rightarrow> string" where
  "server_timing t =
     join '', '' (concat (List.map
       (\<lambda>(stage, name). if stage_seen t ! stage then [name @ '';dur='' @ dec_int (stage_values t ! stage)] else [])
       [(0, ''asr''), (1, ''verify''), (2, ''pipeline'')]))"

section \<open>Properties\<close>

text \<open>An attempt to advance a record: a rejected event leaves it as it was.\<close>

definition attempt :: "trial \<Rightarrow> int \<times> trial_event \<times> time \<Rightarrow> trial" where
  "attempt r x = (case x of (g, e, now) \<Rightarrow> case transition r g e now of Inl _ \<Rightarrow> r | Inr r' \<Rightarrow> r')"

definition accepted :: "trial \<Rightarrow> int \<times> trial_event \<times> time \<Rightarrow> bool" where
  "accepted r x \<longleftrightarrow> (case x of (g, e, now) \<Rightarrow> \<exists>r'. transition r g e now = Inr r')"

lemma attempt_step:
  "attempt r x = r \<and> \<not> accepted r x
   \<or> accepted r x \<and> valid_trial r \<and> status r = Pending
     \<and> valid_trial (attempt r x) \<and> generation (attempt r x) = generation r + 1
     \<and> created_at (attempt r x) = created_at r"
proof (cases x)
  case (fields g e now)
  show ?thesis
  proof (cases "transition r g e now")
    case (Inl y)
    then show ?thesis by (simp add: fields attempt_def accepted_def)
  next
    case (Inr r')
    then have "attempt r x = r'" "accepted r x" by (simp_all add: fields attempt_def accepted_def)
    then show ?thesis
      using transition_valid [OF Inr] Inr [unfolded transition_Inr] by simp
  qed
qed

lemma attempt_run:
  "valid_trial r \<Longrightarrow> valid_trial (foldl attempt r xs) \<and> created_at (foldl attempt r xs) = created_at r
     \<and> generation (foldl attempt r xs) = generation r + int (run_count attempt accepted r xs)"
proof (induction xs arbitrary: r)
  case (Cons x xs)
  then have "valid_trial (attempt r x)" using attempt_step [of r x] by metis
  then show ?case
    using Cons.IH [of "attempt r x"] attempt_step [of r x] by (auto simp: algebra_simps)
qed simp

lemma generation_le_3: "valid_trial r \<Longrightarrow> 1 \<le> generation r \<and> generation r \<le> 3"
  by (simp add: validate_iff expected_generation_def)

text \<open>
  A trial goes through at most two accepted events whatever is attempted on it, in any order
  and at any time: the record stays valid, its generation counts exactly the accepted events, its
  deadline never moves, and once its status is terminal nothing is accepted any more.
\<close>

theorem trial_runs:
  assumes "fresh_trial r"
  shows "valid_trial (foldl attempt r xs)
    \<and> expires_at (foldl attempt r xs) = expires_at r
    \<and> generation (foldl attempt r xs) = 1 + int (run_count attempt accepted r xs)
    \<and> run_count attempt accepted r xs \<le> 2
    \<and> (status (foldl attempt r xs) = Pending \<or> (\<forall>ys. run_count attempt accepted (foldl attempt r xs) ys = 0))"
proof -
  have fresh: "valid_trial r" "generation r = 1" using assms by (auto simp: fresh_trial_def)
  note run = attempt_run [OF fresh(1), of xs]
  have expiry: "expires_at (foldl attempt r xs) = expires_at r"
    using run fresh(1) by (simp add: validate_iff)
  have dead: "status r' \<noteq> Pending \<Longrightarrow> run_count attempt accepted r' ys = 0" for r' ys
  proof (induction ys)
    case (Cons y ys)
    have "\<not> accepted r' y \<and> attempt r' y = r'" using attempt_step [of r' y] Cons.prems by blast
    then show ?case using Cons by simp
  qed simp
  have "generation (foldl attempt r xs) \<le> 3" using run generation_le_3 by metis
  then have "run_count attempt accepted r xs \<le> 2" using run fresh(2) by linarith
  then show ?thesis
    using run fresh(2) expiry dead [of "foldl attempt r xs"] by metis
qed

definition sample_trial :: trial where
  "sample_trial = \<lparr>version = 1, question = question_id, generation = 1, assisted = False,
     status = Pending, created_at = unix_epoch, expires_at = unix_epoch + trial_ttl\<rparr>"

lemma fresh_sample: "fresh_trial sample_trial"
  by (simp add: fresh_trial_def validate_iff sample_trial_def expected_generation_def unix_epoch_def)

definition sample_attempts :: "(int \<times> trial_event \<times> time) list" where
  "sample_attempts = [(1, Help, unix_epoch + 5), (1, Stop, unix_epoch + 6), (2, Stop, unix_epoch + 7)]"

definition sample_ended :: trial where
  "sample_ended = \<lparr>version = 1, question = question_id, generation = 3, assisted = True,
     status = Stopped, created_at = unix_epoch, expires_at = unix_epoch + trial_ttl\<rparr>"

lemma sample_attempts_end:
  "foldl attempt sample_trial sample_attempts = sample_ended"
  "generation sample_ended = 3" "status sample_ended = Stopped"
  by code_simp+

lemma trial_runs_witness:
  "run_count attempt accepted sample_trial sample_attempts = 2
   \<and> (\<forall>ys. run_count attempt accepted sample_ended ys = 0)"
  using trial_runs [OF fresh_sample, of sample_attempts] unfolding sample_attempts_end by simp

text \<open>
  In the Firestore store, whatever mixture of creates and applies runs against it and whichever
  of them fail or fail after writing, the trial under a key is reported ended at most once for
  each time a record came into being there.
\<close>

theorem firestore_trial_ends_once:
  "run_count (trial_step fs_create fs_apply) (trial_ends fs_apply k) s calls
     \<le> run_count (trial_step fs_create fs_apply)
         (\<lambda>s call. fs_records s k = None \<and> fs_records (trial_step fs_create fs_apply s call) k \<noteq> None) s calls
       + (if \<exists>r. fs_records s k = Some r \<and> status r = Pending then 1 else 0)"
  using fs.uses_bounded [of k s calls] by (simp add: fs.pending_def fs.creates_def [abs_def])

text \<open>
  Along any run the memory store keeps to the capacity it was made with, and every record in
  it is valid.
\<close>

theorem memory_store_bounded:
  assumes "new_memory_store n = Inr s"
  shows "let s' = foldl (trial_step mem_create mem_apply) s calls in
    finite (dom (records s')) \<and> int (card (dom (records s'))) \<le> n
    \<and> (\<forall>k r. records s' k = Some r \<longrightarrow> valid_trial r)"
proof -
  let ?s = "foldl (trial_step mem_create mem_apply) s calls"
  have step: "capacity (trial_step mem_create mem_apply t call) = capacity t" for t call
    by (cases call) (auto simp: mem_create_def mem_apply_def Let_def split: option.split sum.split)
  have "capacity ?s = n"
    by (rule foldl_invariant [where P = "\<lambda>t. capacity t = n"])
      (use assms step in \<open>auto simp: new_memory_store_def split: if_splits\<close>)
  then show ?thesis
    using mem_capacity.inv_run [OF mem_store_ok_new [OF assms], of calls]
    by (auto simp: mem_store_ok_def mem.all_valid_def Let_def)
qed

lemma memory_store_bounded_witness:
  "let s' = foldl (trial_step mem_create mem_apply) \<lparr>capacity = 1, records = Map.empty\<rparr>
       [CallCreate None (replicate 64 CHR ''a'') sample_trial, CallCreate None (replicate 64 CHR ''b'') sample_trial] in
   finite (dom (records s')) \<and> int (card (dom (records s'))) \<le> 1
   \<and> (\<forall>k r. records s' k = Some r \<longrightarrow> valid_trial r)"
  using memory_store_bounded [of 1 "\<lparr>capacity = 1, records = Map.empty\<rparr>"
      "[CallCreate None (replicate 64 CHR ''a'') sample_trial, CallCreate None (replicate 64 CHR ''b'') sample_trial]"]
  by (simp add: new_memory_store_def)

text \<open>
  The Firestore codec is exact: a document decodes to a record when, and only when, the record
  is valid and the document is the one that record is written as; no other field, type, status
  text or inconsistent generation is read as a record.
\<close>

theorem firestore_codec_exact:
  "decode_record d = Inr r \<longleftrightarrow> validate r = Inr () \<and> d = record_data r"
  using record_data_decode decode_record_data decode_record_Inr [of d r] by metis

definition as_memory :: "int \<Rightarrow> fs_store \<Rightarrow> mem_store" where
  "as_memory n s = \<lparr>capacity = n, records = fs_records s\<rparr>"

definition readable :: "fs_store \<Rightarrow> bool" where
  "readable s \<longleftrightarrow> (\<forall>k d. s k = Some d \<longrightarrow> (\<exists>r. decode_record d = Inr r))"

lemma fs_apply_body_readable:
  assumes "readable s"
  shows "fs_apply_body (s k) g e now =
    (case fs_records s k of None \<Rightarrow> Inl ErrNotFound | Some r \<Rightarrow> transition r g e now)"
proof (cases "s k")
  case (Some d)
  then obtain r where "decode_record d = Inr r" using assms by (auto simp: readable_def)
  then show ?thesis using Some by (simp add: fs_apply_body_def fs_records_def)
qed (simp add: fs_apply_body_def fs_records_def)

lemma fs_read_readable:
  assumes "readable s"
  shows "fs_read None k now s = mem_read None k now (as_memory n s)"
proof (cases "s k")
  case (Some d)
  then obtain r where "decode_record d = Inr r" using assms by (auto simp: readable_def)
  then show ?thesis using Some by (simp add: fs_read_def mem_read_def as_memory_def fs_records_def)
qed (simp add: fs_read_def mem_read_def as_memory_def fs_records_def)

lemma fs_apply_readable:
  assumes "readable s"
  shows "fst (fs_apply None k g e now s) = fst (mem_apply None k g e now (as_memory n s))"
    and "as_memory n (snd (fs_apply None k g e now s)) = snd (mem_apply None k g e now (as_memory n s))"
proof -
  note body = fs_apply_body_readable [OF assms, of k g e now]
  show "fst (fs_apply None k g e now s) = fst (mem_apply None k g e now (as_memory n s))"
    using body by (simp add: fs_apply_def mem_apply_def as_memory_def split: option.split sum.split)
  show "as_memory n (snd (fs_apply None k g e now s)) = snd (mem_apply None k g e now (as_memory n s))"
    using body
    by (auto simp: fs_apply_def mem_apply_def as_memory_def fs_records_upd transition_valid
        split: option.split sum.split)
qed

lemma readable_None: "readable s \<Longrightarrow> fs_records s k = None \<longleftrightarrow> s k = None"
  by (auto simp: readable_def fs_records_def split: option.splits sum.splits) fastforce

lemma fs_create_readable:
  assumes "readable s" "int (card (dom (fs_records s))) < n"
    and "\<forall>k0 r0. fs_records s k0 = Some r0 \<longrightarrow> expires_at r0 > created_at r"
  shows "fst (fs_create None k r s) = fst (mem_create None k r (as_memory n s))"
    and "as_memory n (snd (fs_create None k r s)) = snd (mem_create None k r (as_memory n s))"
proof -
  have "filter_map (\<lambda>r0. expires_at r0 > created_at r) (fs_records s) = fs_records s"
    using assms(3) by (auto simp: filter_map_def fun_eq_iff split: option.split)
  then show "fst (fs_create None k r s) = fst (mem_create None k r (as_memory n s))"
      and "as_memory n (snd (fs_create None k r s)) = snd (mem_create None k r (as_memory n s))"
    using assms(2) readable_None [OF assms(1), of k]
    by (auto simp: fs_create_def mem_create_def as_memory_def Let_def fs_records_upd)
qed

text \<open>
  The Firestore store refines the memory store: over documents that all decode, a call that
  does not fail on the way answers as the memory store does on the decoded records and leaves
  documents that decode to the memory store's next state. Creating also needs room and nothing
  expired, since only the memory store counts its records and drops old ones.
\<close>

theorem firestore_refines_memory:
  assumes "readable s"
  shows "fs_read None k now s = mem_read None k now (as_memory n s)
    \<and> (fst (fs_apply None k g e now s), as_memory n (snd (fs_apply None k g e now s)))
        = mem_apply None k g e now (as_memory n s)
    \<and> (int (card (dom (fs_records s))) < n
        \<and> (\<forall>k0 r0. fs_records s k0 = Some r0 \<longrightarrow> expires_at r0 > created_at r)
        \<longrightarrow> (fst (fs_create None k r s), as_memory n (snd (fs_create None k r s)))
            = mem_create None k r (as_memory n s))"
  using fs_read_readable [OF assms] fs_apply_readable [OF assms] fs_create_readable [OF assms]
  by (simp add: prod_eq_iff)

lemma readable_sample: "readable [''k'' \<mapsto> record_data sample_trial]"
  using decode_record_data fresh_sample by (auto simp: readable_def fresh_trial_def)

lemma firestore_refines_memory_witness:
  "fs_read None (replicate 64 CHR ''k'') 5 [''k'' \<mapsto> record_data sample_trial]
     = mem_read None (replicate 64 CHR ''k'') 5 (as_memory 1 [''k'' \<mapsto> record_data sample_trial])"
  using firestore_refines_memory [OF readable_sample] by blast

text \<open>
  One owner's requests cannot reach another trial. Where the keyed hash does not collide on the
  texts of the requests concerned, an update, a begin or an evaluation (while nothing else runs) for another owner or another id
  leaves the record under a trial's key untouched, whatever the request's arguments.
\<close>

theorem trials_isolated:
  assumes "inj_on mac {document_input w i, document_input w' i', document_input w' (hex_encode raw)}"
    and "document_key mac w i = Inr k" and "w' \<noteq> w \<or> i' \<noteq> i"
  shows "fs_records (snd (service_update fs_apply mac now c w' i' gen act s)) k = fs_records s k
    \<and> fs_records (snd (evaluate fs_read fs_apply mac verify (\<lambda>t. t) e1 e2 e3 now1 now2 c1 c2 w' i' gen s)) k = fs_records s k
    \<and> (hex_encode raw \<noteq> i \<or> w' \<noteq> w \<longrightarrow>
         fs_records (snd (service_begin fs_create mac ctx_err (Inr raw) now c w' s)) k = fs_records s k)"
proof -
  have other: "k' \<noteq> k" if "document_key mac w' i' = Inr k'" for k'
    using that assms(3) document_key_inj [OF assms(1) _ _ assms(2), of w' i'] by auto
  have applied: "fs_records (snd (fs_apply c k' gen ev now s)) k = fs_records s k" if "k' \<noteq> k" for c k' gen ev now
    using fs.apply_effect [of s k' gen ev now c] that by (auto simp: applied_from_def)
  have update: "fs_records (snd (service_update fs_apply mac now c w' i' gen act s)) k = fs_records s k"
    using applied [of _ c gen _ now] other
    by (auto simp: service_update_def split: sum.split prod.split) (metis snd_conv)+
  have eval: "fs_records (snd (evaluate fs_read fs_apply mac verify (\<lambda>t. t) e1 e2 e3 now1 now2 c1 c2 w' i' gen s)) k
      = fs_records s k"
    using evaluate_effect [of fs_read fs_apply mac verify "\<lambda>t. t" e1 e2 e3 now1 now2 c1 c2 w' i' gen s]
      applied other by auto
  have created: "fs_records (snd (fs_create c k' r s)) k = fs_records s k" if "k' \<noteq> k" for c k' r
    using that by (simp add: fs_create_def fs_records_def Let_def split: option.split)
  have "fs_records (snd (service_begin fs_create mac ctx_err (Inr raw) now c w' s)) k = fs_records s k"
    if "\<not> (hex_encode raw = i \<and> w' = w)"
  proof (cases "document_key mac w' (hex_encode raw)")
    case (Inr k')
    then have "k' \<noteq> k" using that document_key_inj [OF assms(1) _ _ assms(2), of w' "hex_encode raw"] by auto
    then show ?thesis
      using created [of k' c] Inr
      by (auto simp: service_begin_def Let_def split: option.split prod.split sum.split) (metis snd_conv)+
  qed (simp add: service_begin_def Let_def split: option.split)
  then show ?thesis using update eval by auto
qed

definition sample_owner :: owner where
  "sample_owner = \<lparr>uid = ''ann'', app_id = ''app''\<rparr>"

definition sample_id :: string where
  "sample_id = replicate 64 CHR ''a''"

definition sample_mac :: "string \<Rightarrow> string" where
  "sample_mac x = replicate 32 (if x = document_input sample_owner sample_id then CHR ''m'' else CHR ''n'')"

definition sample_key :: string where
  "sample_key = hex_encode (replicate 32 CHR ''m'')"

definition sample_store :: fs_store where
  "sample_store = [sample_key \<mapsto> record_data sample_trial]"

lemma sample_owner_valid: "valid_owner sample_owner" "valid_key sample_id" "valid_key sample_key"
  by code_simp+

lemma sample_document_key: "document_key sample_mac sample_owner sample_id = Inr sample_key"
  using sample_owner_valid by (simp add: document_key_Inr sample_key_def sample_mac_def)

lemma trials_isolated_witness:
  "fs_records (snd (service_update fs_apply sample_mac 7 None (sample_owner\<lparr>uid := ''bob''\<rparr>) sample_id 1 ''stop''
       sample_store)) sample_key = fs_records sample_store sample_key"
proof -
  have raw: "hex_encode (replicate 32 CHR 0xAA) = sample_id" by code_simp
  have "sample_owner\<lparr>uid := ''bob''\<rparr> \<noteq> sample_owner" by (simp add: sample_owner_def)
  moreover have "inj_on sample_mac {document_input sample_owner sample_id,
      document_input (sample_owner\<lparr>uid := ''bob''\<rparr>) sample_id,
      document_input (sample_owner\<lparr>uid := ''bob''\<rparr>) (hex_encode (replicate 32 CHR 0xAA))}"
    unfolding raw by (simp add: sample_mac_def document_input_def sample_owner_def)
  ultimately show ?thesis using trials_isolated [OF _ sample_document_key] by blast
qed

text \<open>
  An evaluation publishes only by compare-and-swap. When it succeeds, the verifier judged the
  pending record of that generation, the record it commits to is, after everything other requests
  did meanwhile, still pending at the same generation and unexpired, and only that record moves,
  to the status of the verdict. When another request got there first or the deadline passed, it
  fails and leaves the records to the others.
\<close>

theorem evaluation_publishes_by_cas:
  assumes "document_key mac w i = Inr k"
    and "evaluate fs_read fs_apply mac verify env e1 e2 e3 now1 now2 c1 c2 w i gen s = (res, s')"
  shows "(case res of
      Inr snap \<Rightarrow> \<exists>verifier r v r1. verify = Some verifier \<and> fs_records s k = Some r \<and> status r = Pending
        \<and> generation r = gen \<and> verifier (snapshot_of i r) = Inr v
        \<and> fs_records (env s) k = Some r1 \<and> status r1 = Pending \<and> generation r1 = gen
        \<and> assisted r1 = assisted r \<and> created_at r1 \<le> now2 \<and> now2 < expires_at r1
        \<and> (let r' = r1\<lparr>status := (if v = VerdictAnswerFirst then AnswerFirst else Unverified), generation := gen + 1\<rparr> in
             v \<in> {VerdictAnswerFirst, VerdictUnverified}
             \<and> fs_records s' = (fs_records (env s))(k \<mapsto> r') \<and> snap = snapshot_of i r')
    | Inl e \<Rightarrow> True)
    \<and> ((\<forall>r1. fs_records (env s) k = Some r1 \<longrightarrow> generation r1 \<noteq> gen \<or> status r1 \<noteq> Pending \<or> expires_at r1 \<le> now2)
       \<longrightarrow> (\<exists>e. res = Inl e) \<and> fs_records s' \<in> {fs_records s, fs_records (env s)})"
proof (intro conjI impI)
  assume "\<forall>r1. fs_records (env s) k = Some r1 \<longrightarrow> generation r1 \<noteq> gen \<or> status r1 \<noteq> Pending \<or> expires_at r1 \<le> now2"
  then show "\<exists>e. res = Inl e" "fs_records s' \<in> {fs_records s, fs_records (env s)}"
    using fs.evaluate_lost_race [OF assms(1), of env s gen now2 verify e1 e2 e3 now1 c1 c2] assms(2) by auto
next
  show "case res of
      Inr snap \<Rightarrow> \<exists>verifier r v r1. verify = Some verifier \<and> fs_records s k = Some r \<and> status r = Pending
        \<and> generation r = gen \<and> verifier (snapshot_of i r) = Inr v
        \<and> fs_records (env s) k = Some r1 \<and> status r1 = Pending \<and> generation r1 = gen
        \<and> assisted r1 = assisted r \<and> created_at r1 \<le> now2 \<and> now2 < expires_at r1
        \<and> (let r' = r1\<lparr>status := (if v = VerdictAnswerFirst then AnswerFirst else Unverified), generation := gen + 1\<rparr> in
             v \<in> {VerdictAnswerFirst, VerdictUnverified}
             \<and> fs_records s' = (fs_records (env s))(k \<mapsto> r') \<and> snap = snapshot_of i r')
    | Inl e \<Rightarrow> True"
  proof (cases res)
    case (Inr snap)
    obtain verifier r v ev r1 r' where *: "verify = Some verifier" "fs_records s k = Some r"
        "current r now1 = Inr r" "status r = Pending" "generation r = gen"
        "verifier (snapshot_of i r) = Inr v" "verdict_event v = Some ev"
        "fs_records (env s) k = Some r1" "transition r1 gen ev now2 = Inr r'"
        "fs_records s' = (fs_records (env s))(k \<mapsto> r')" "snap = snapshot_of i r'"
      using fs.evaluate_published [OF assms(2) [unfolded Inr]] assms(1) by force
    have v: "v \<in> {VerdictAnswerFirst, VerdictUnverified}" "ev \<noteq> Help"
        "result_status ev = (if v = VerdictAnswerFirst then AnswerFirst else Unverified)"
      using *(7) by (cases v; auto)+
    have "r' = r1\<lparr>status := (if v = VerdictAnswerFirst then AnswerFirst else Unverified), generation := gen + 1\<rparr>"
      using *(9) v by (cases r1) (auto simp: transition_Inr)
    moreover have "assisted r1 = assisted r" "status r1 = Pending" "generation r1 = gen"
        "created_at r1 \<le> now2" "now2 < expires_at r1"
      using *(3,4,5,9) by (auto simp: transition_Inr current_Inr validate_iff expected_generation_def split: if_splits)
    ultimately show ?thesis using * v Inr by (auto simp: Let_def)
  qed simp
qed

lemma sample_evaluation:
  "evaluate fs_read fs_apply sample_mac (Some (\<lambda>_. Inr VerdictAnswerFirst)) (\<lambda>t. t) None None None
     (unix_epoch + 5) (unix_epoch + 9) None None sample_owner sample_id 1 sample_store
   = (Inr (snapshot_of sample_id (sample_trial\<lparr>status := AnswerFirst, generation := 2\<rparr>)),
      sample_store(sample_key \<mapsto> record_data (sample_trial\<lparr>status := AnswerFirst, generation := 2\<rparr>)))"
proof -
  have valid: "valid_trial sample_trial" using fresh_sample by (simp add: fresh_trial_def)
  have "fs_read None sample_key (unix_epoch + 5) sample_store = Inr sample_trial"
    using valid sample_owner_valid
    by (simp add: fs_read_def sample_store_def decode_record_data current_Inr)
      (simp add: sample_trial_def const_simps unix_epoch_def)
  moreover have "transition sample_trial 1 CompleteVerified (unix_epoch + 9) =
      Inr (sample_trial\<lparr>status := AnswerFirst, generation := 2\<rparr>)"
    using valid by (simp add: transition_Inr) (simp add: sample_trial_def const_simps unix_epoch_def)
  then have "fs_apply None sample_key 1 CompleteVerified (unix_epoch + 9) sample_store =
      (Inr (sample_trial\<lparr>status := AnswerFirst, generation := 2\<rparr>),
       sample_store(sample_key \<mapsto> record_data (sample_trial\<lparr>status := AnswerFirst, generation := 2\<rparr>)))"
    using valid sample_owner_valid
    by (simp add: fs_apply_def fs_apply_body_def sample_store_def decode_record_data)
  ultimately show ?thesis
    using sample_document_key by (simp add: evaluate_Inr) (simp add: sample_trial_def)
qed

lemma evaluation_publishes_by_cas_witness:
  "\<exists>verifier r v. Some (\<lambda>_. Inr VerdictAnswerFirst) = Some verifier \<and> fs_records sample_store sample_key = Some r
     \<and> verifier (snapshot_of sample_id r) = Inr v
     \<and> fs_records (sample_store(sample_key \<mapsto> record_data (sample_trial\<lparr>status := AnswerFirst, generation := 2\<rparr>))) sample_key
         = Some (r\<lparr>status := AnswerFirst, generation := 2\<rparr>)"
  using evaluation_publishes_by_cas [OF sample_document_key sample_evaluation]
  by (auto simp: Let_def)

end
