(* ===== verification/SecurityFlow.thy ===== *)
theory SecurityFlow
  imports Go_Text
begin

unbundle bit_operations_syntax

text \<open>
  The reference monitor for privileged agent actions (\<open>internal/securityflow/securityflow.go\<close>):
  a model's proposal carries digests only; the request grant and the execution lease are one-shot,
  signed and bounded in time; the executor consumes a lease immediately before the one external
  call it permits.

  \<^item> \<open>hmac\<close> (HMAC-SHA256 of a key and a text) and \<open>normalizer\<close> (\<open>research.NormalizeQuery\<close>, the screen
    of another package) are parameters of the definitions, and so are the clock's value and what
    the random source returns (\<open>None\<close> when it fails). The theorems hold for all of them.
  \<^item> \<open>[n]byte\<close> arrays are words of \<open>8 * n\<close> bits, written to digests most significant byte first.
  \<^item> The guard's mutex makes each critical section one step. What a method does before it takes
    the lock reads only fields that never change, so a method is one step of the run.
  \<^item> Every error of the guard is \<open>ErrDenied\<close>; its reason is in the event. A denied call returns
    \<open>None\<close>.
\<close>

section \<open>Data\<close>

type_synonym digest = "256 word"
type_synonym nonce = "128 word"
type_synonym source_set = "16 word"

type_synonym sf_action = "8 word"
type_synonym policy_id = "8 word"

definition ActionCrossrefDiscovery :: sf_action where
  [const_simps]: "ActionCrossrefDiscovery = 1"

definition PolicyPCCMPhase1 :: policy_id where
  [const_simps]: "PolicyPCCMPhase1 = 1"

definition SourceDeclaredIntentionalAudio :: source_set where
  [const_simps]: "SourceDeclaredIntentionalAudio = 1"

definition SourceAmbientSpeech :: source_set where
  [const_simps]: "SourceAmbientSpeech = 2"

definition SourcePDF :: source_set where
  [const_simps]: "SourcePDF = 4"

definition SourceConversationState :: source_set where
  [const_simps]: "SourceConversationState = 8"

definition SourceModelOutput :: source_set where
  [const_simps]: "SourceModelOutput = 16"

definition SourceToolOutput :: source_set where
  [const_simps]: "SourceToolOutput = 32"

definition all_sources :: source_set where
  "all_sources = SourceDeclaredIntentionalAudio OR SourceAmbientSpeech OR SourcePDF
     OR SourceConversationState OR SourceModelOutput OR SourceToolOutput"

definition has_source :: "source_set \<Rightarrow> source_set \<Rightarrow> bool" where
  "has_source sources source \<longleftrightarrow> source \<noteq> 0 \<and> sources AND source = source"

datatype sf_decision = DecisionDeny | DecisionAllow

datatype reason_code = ReasonInvalid | ReasonAuthorized | ReasonInvalidScope | ReasonInvalidProposal
  | ReasonInvalidAuthority | ReasonArgumentMismatch | ReasonExpired | ReasonReplay | ReasonTampered
  | ReasonCapacity

record defense_event =
  ev_policy :: policy_id
  ev_action :: sf_action
  ev_decision :: sf_decision
  ev_reason :: reason_code
  ev_sources :: source_set

record scope =
  sc_uid :: string
  sc_session :: string
  sc_request :: string

datatype query_kind = QueryDOI | QueryRecentTopic | QueryKindOther string

fun kind_text :: "query_kind \<Rightarrow> string" where
  "kind_text QueryDOI = ''doi''"
| "kind_text QueryRecentTopic = ''recent_topic''"
| "kind_text (QueryKindOther w) = w"

record query =
  q_kind :: query_kind
  q_doi :: string
  q_topic :: string
  q_from :: time
  q_until :: time
  q_limit :: int

record proposal =
  pr_action :: sf_action
  pr_args :: digest
  pr_sources :: source_set

record grant =
  gr_issuer :: nonce
  gr_nonce :: nonce
  gr_scope :: digest
  gr_args :: digest
  gr_policy :: digest
  gr_action :: sf_action
  gr_issued_at :: int
  gr_expires_at :: int
  gr_authority :: source_set
  gr_signature :: digest

record sf_lease =
  le_issuer :: nonce
  le_nonce :: nonce
  le_scope :: digest
  le_args :: digest
  le_policy :: digest
  le_action :: sf_action
  le_sources :: source_set
  le_issued_at :: int
  le_expires_at :: int
  le_uses :: "8 word"
  le_signature :: digest

record guard =
  gu_key :: string
  gu_issuer :: nonce
  gu_policy :: policy_id
  gu_policy_digest :: digest
  gu_max_ttl :: duration
  gu_issuance_ttl :: duration
  gu_issued :: "digest \<rightharpoonup> int"
  gu_grants :: "nonce \<rightharpoonup> int"
  gu_leases :: "nonce \<rightharpoonup> int"

definition max_outstanding :: int where
  [const_simps]: "max_outstanding = 4096"

section \<open>Canonical texts and digests\<close>

definition write_int64 :: "int \<Rightarrow> string" where
  "write_int64 v = be_bytes 8 (word_of_int v :: 64 word)"

definition write_bounded_string :: "string \<Rightarrow> string" where
  "write_bounded_string v = write_int64 (int (length v)) @ v"

definition keyed_digest :: "(string \<Rightarrow> string \<Rightarrow> digest) \<Rightarrow> guard \<Rightarrow> string list \<Rightarrow> digest" where
  "keyed_digest hmac g parts = hmac (gu_key g) (concat parts)"

definition query_canonical :: "query \<Rightarrow> string option" where
  "query_canonical q = (case q_kind q of
     QueryDOI \<Rightarrow> Some (kind_text QueryDOI @ [CHR 0x00] @ q_doi q)
   | QueryRecentTopic \<Rightarrow>
       Some (kind_text QueryRecentTopic @ [CHR 0x00] @ q_topic q @ [CHR 0x00]
         @ write_int64 (unix_sec (q_from q)) @ write_int64 (unix_sec (q_until q)) @ write_int64 (q_limit q))
   | QueryKindOther _ \<Rightarrow> None)"

definition query_digest :: "(string \<Rightarrow> string \<Rightarrow> digest) \<Rightarrow> (query \<Rightarrow> query option) \<Rightarrow> guard \<Rightarrow> query
    \<Rightarrow> digest option" where
  "query_digest hmac normalizer g q = (case normalizer q of None \<Rightarrow> None | Some n \<Rightarrow>
     (case query_canonical n of None \<Rightarrow> None
      | Some c \<Rightarrow> Some (keyed_digest hmac g [''args'' @ [CHR 0x00], c])))"

definition scope_canonical :: "scope \<Rightarrow> string" where
  "scope_canonical sc = write_bounded_string (sc_uid sc) @ write_bounded_string (sc_session sc)
     @ write_bounded_string (sc_request sc)"

definition scope_digest :: "(string \<Rightarrow> string \<Rightarrow> digest) \<Rightarrow> guard \<Rightarrow> scope \<Rightarrow> digest" where
  "scope_digest hmac g sc = keyed_digest hmac g [''scope'' @ [CHR 0x00], scope_canonical sc]"

definition issuance_digest :: "(string \<Rightarrow> string \<Rightarrow> digest) \<Rightarrow> guard \<Rightarrow> digest \<Rightarrow> sf_action \<Rightarrow> digest" where
  "issuance_digest hmac g sc a =
     keyed_digest hmac g [''issuance'' @ [CHR 0x00], be_bytes 32 sc, be_bytes 1 a]"

definition grant_envelope :: "grant \<Rightarrow> string" where
  "grant_envelope r = ''kotae-authority-grant-v1'' @ [CHR 0x00] @ be_bytes 16 (gr_issuer r)
     @ be_bytes 16 (gr_nonce r) @ be_bytes 32 (gr_scope r) @ be_bytes 32 (gr_args r)
     @ be_bytes 32 (gr_policy r) @ be_bytes 1 (gr_action r)
     @ write_int64 (gr_issued_at r) @ write_int64 (gr_expires_at r) @ write_int64 (uint (gr_authority r))"

definition sign_grant :: "(string \<Rightarrow> string \<Rightarrow> digest) \<Rightarrow> guard \<Rightarrow> grant \<Rightarrow> digest" where
  "sign_grant hmac g r = keyed_digest hmac g [grant_envelope r]"

definition lease_envelope :: "sf_lease \<Rightarrow> string" where
  "lease_envelope l = ''kotae-capability-lease-v1'' @ [CHR 0x00] @ be_bytes 16 (le_issuer l)
     @ be_bytes 16 (le_nonce l) @ be_bytes 32 (le_scope l) @ be_bytes 32 (le_args l)
     @ be_bytes 32 (le_policy l) @ be_bytes 1 (le_action l)
     @ write_int64 (uint (le_sources l)) @ write_int64 (le_issued_at l) @ write_int64 (le_expires_at l)
     @ be_bytes 1 (le_uses l)"

definition sign_lease :: "(string \<Rightarrow> string \<Rightarrow> digest) \<Rightarrow> guard \<Rightarrow> sf_lease \<Rightarrow> digest" where
  "sign_lease hmac g l = keyed_digest hmac g [lease_envelope l]"

section \<open>Guards\<close>

definition valid_scope_field :: "string \<Rightarrow> bool" where
  "valid_scope_field v \<longleftrightarrow> v \<noteq> [] \<and> length v \<le> 512 \<and> utf8_valid v \<and> v = trim_space v"

definition valid_scope :: "scope \<Rightarrow> bool" where
  "valid_scope sc \<longleftrightarrow> valid_scope_field (sc_uid sc) \<and> valid_scope_field (sc_session sc)
     \<and> valid_scope_field (sc_request sc)"

definition valid_ttl :: "guard \<Rightarrow> duration \<Rightarrow> bool" where
  "valid_ttl g ttl \<longleftrightarrow> 0 < ttl \<and> ttl \<le> gu_max_ttl g"

definition new_event :: "guard \<Rightarrow> sf_action \<Rightarrow> sf_decision \<Rightarrow> reason_code \<Rightarrow> source_set \<Rightarrow> defense_event" where
  "new_event g a d r srcs =
     \<lparr>ev_policy = gu_policy g, ev_action = a, ev_decision = d, ev_reason = r, ev_sources = srcs\<rparr>"

definition cleanup :: "int \<Rightarrow> guard \<Rightarrow> guard" where
  "cleanup now g = g\<lparr>gu_issued := filter_map (\<lambda>e. \<not> now \<ge> e) (gu_issued g),
     gu_grants := filter_map (\<lambda>e. \<not> now \<ge> e) (gu_grants g),
     gu_leases := filter_map (\<lambda>e. \<not> now \<ge> e) (gu_leases g)\<rparr>"

definition outstanding :: "guard \<Rightarrow> int" where
  "outstanding g = int (card (dom (gu_issued g)) + card (dom (gu_grants g)) + card (dom (gu_leases g)))"

section \<open>Operations\<close>

datatype sf_error = ErrInvalidConfig | ErrDenied | ErrExecutorUnavailable

definition new_guard :: "(string \<Rightarrow> string \<Rightarrow> digest) \<Rightarrow> string \<Rightarrow> policy_id \<Rightarrow> duration \<Rightarrow> duration
    \<Rightarrow> nonce option \<Rightarrow> (sf_error, guard) result" where
  "new_guard hmac key policy max_ttl issuance_ttl random =
     (if length key \<noteq> 32 \<or> policy \<noteq> PolicyPCCMPhase1 \<or> max_ttl \<le> 0 \<or> max_ttl > minute
        \<or> issuance_ttl \<le> 0 \<or> issuance_ttl > minute then Inl ErrInvalidConfig
      else case random of None \<Rightarrow> Inl ErrInvalidConfig | Some issuer \<Rightarrow>
        Inr \<lparr>gu_key = key, gu_issuer = issuer, gu_policy = policy,
             gu_policy_digest = hmac key (''policy'' @ [CHR 0x00] @ be_bytes 1 policy),
             gu_max_ttl = max_ttl, gu_issuance_ttl = issuance_ttl,
             gu_issued = Map.empty, gu_grants = Map.empty, gu_leases = Map.empty\<rparr>)"

definition propose_crossref :: "(string \<Rightarrow> string \<Rightarrow> digest) \<Rightarrow> (query \<Rightarrow> query option) \<Rightarrow> guard \<Rightarrow> query
    \<Rightarrow> source_set \<Rightarrow> proposal option \<times> defense_event" where
  "propose_crossref hmac normalizer g q srcs =
     (let ev = new_event g ActionCrossrefDiscovery DecisionDeny ReasonInvalidProposal srcs in
      if srcs = 0 \<or> srcs AND NOT all_sources \<noteq> 0 \<or> \<not> has_source srcs SourceModelOutput
        \<or> \<not> has_source srcs SourceDeclaredIntentionalAudio \<or> has_source srcs SourceAmbientSpeech
      then (None, ev)
      else case query_digest hmac normalizer g q of None \<Rightarrow> (None, ev) | Some args \<Rightarrow>
        (Some \<lparr>pr_action = ActionCrossrefDiscovery, pr_args = args, pr_sources = srcs\<rparr>,
         ev\<lparr>ev_decision := DecisionAllow, ev_reason := ReasonAuthorized\<rparr>))"

definition new_grant :: "(string \<Rightarrow> string \<Rightarrow> digest) \<Rightarrow> guard \<Rightarrow> scope \<Rightarrow> digest \<Rightarrow> duration \<Rightarrow> time \<Rightarrow> nonce
    \<Rightarrow> grant" where
  "new_grant hmac g sc args ttl now n =
     (let r = \<lparr>gr_issuer = gu_issuer g, gr_nonce = n, gr_scope = scope_digest hmac g sc, gr_args = args,
               gr_policy = gu_policy_digest g, gr_action = ActionCrossrefDiscovery,
               gr_issued_at = unix_nano now, gr_expires_at = unix_nano (now + ttl),
               gr_authority = SourceDeclaredIntentionalAudio, gr_signature = 0\<rparr>
      in r\<lparr>gr_signature := sign_grant hmac g r\<rparr>)"

definition bind_crossref :: "(string \<Rightarrow> string \<Rightarrow> digest) \<Rightarrow> (query \<Rightarrow> query option) \<Rightarrow> scope \<Rightarrow> query \<Rightarrow> duration
    \<Rightarrow> time \<Rightarrow> nonce option \<Rightarrow> guard \<Rightarrow> (grant option \<times> defense_event) \<times> guard" where
  "bind_crossref hmac normalizer sc q ttl now random g =
     (let ev = new_event g ActionCrossrefDiscovery DecisionDeny ReasonInvalidAuthority SourceDeclaredIntentionalAudio in
      if \<not> valid_scope sc \<or> \<not> valid_ttl g ttl then ((None, ev\<lparr>ev_reason := ReasonInvalidScope\<rparr>), g)
      else case query_digest hmac normalizer g q of None \<Rightarrow> ((None, ev), g) | Some args \<Rightarrow>
      (case random of None \<Rightarrow> ((None, ev), g) | Some n \<Rightarrow>
       (let r = new_grant hmac g sc args ttl now n;
            g1 = cleanup (unix_nano now) g;
            issuance = issuance_digest hmac g (gr_scope r) ActionCrossrefDiscovery in
        if gu_issued g1 issuance \<noteq> None then ((None, ev\<lparr>ev_reason := ReasonReplay\<rparr>), g1)
        else if outstanding g1 + 2 > max_outstanding then ((None, ev\<lparr>ev_reason := ReasonCapacity\<rparr>), g1)
        else if gu_grants g1 n \<noteq> None then ((None, ev\<lparr>ev_reason := ReasonTampered\<rparr>), g1)
        else if gu_leases g1 n \<noteq> None then ((None, ev\<lparr>ev_reason := ReasonTampered\<rparr>), g1)
        else ((Some r, ev\<lparr>ev_decision := DecisionAllow, ev_reason := ReasonAuthorized\<rparr>),
              g1\<lparr>gu_issued := (gu_issued g1)(issuance \<mapsto> unix_nano (now + gu_issuance_ttl g)),
                 gu_grants := (gu_grants g1)(n \<mapsto> gr_expires_at r)\<rparr>))))"

definition proposal_refused :: "scope \<Rightarrow> proposal \<Rightarrow> bool" where
  "proposal_refused sc p \<longleftrightarrow> \<not> valid_scope sc \<or> pr_action p \<noteq> ActionCrossrefDiscovery
     \<or> \<not> has_source (pr_sources p) SourceModelOutput
     \<or> \<not> has_source (pr_sources p) SourceDeclaredIntentionalAudio
     \<or> has_source (pr_sources p) SourceAmbientSpeech"

text \<open>The checks of a presented grant and of a presented lease: the reason of a denial, if any.\<close>

definition grant_fault :: "(string \<Rightarrow> string \<Rightarrow> digest) \<Rightarrow> guard \<Rightarrow> grant \<Rightarrow> scope \<Rightarrow> proposal \<Rightarrow> int
    \<Rightarrow> reason_code option" where
  "grant_fault hmac g r sc p now =
     (if gr_issuer r \<noteq> gu_issuer g \<or> gr_action r \<noteq> ActionCrossrefDiscovery
        \<or> gr_authority r \<noteq> SourceDeclaredIntentionalAudio \<or> gr_policy r \<noteq> gu_policy_digest g
        \<or> gr_signature r \<noteq> sign_grant hmac g r then Some ReasonTampered
      else if gr_scope r \<noteq> scope_digest hmac g sc then Some ReasonInvalidScope
      else if gr_args r \<noteq> pr_args p then Some ReasonArgumentMismatch
      else if now < gr_issued_at r \<or> now \<ge> gr_expires_at r then Some ReasonExpired
      else None)"

definition lease_fault :: "(string \<Rightarrow> string \<Rightarrow> digest) \<Rightarrow> guard \<Rightarrow> sf_lease \<Rightarrow> scope \<Rightarrow> proposal \<Rightarrow> int
    \<Rightarrow> reason_code option" where
  "lease_fault hmac g l sc p now =
     (if le_issuer l \<noteq> gu_issuer g \<or> le_action l \<noteq> ActionCrossrefDiscovery
        \<or> le_policy l \<noteq> gu_policy_digest g \<or> le_uses l \<noteq> 1
        \<or> le_signature l \<noteq> sign_lease hmac g l then Some ReasonTampered
      else if le_scope l \<noteq> scope_digest hmac g sc then Some ReasonInvalidScope
      else if le_args l \<noteq> pr_args p \<or> le_sources l \<noteq> pr_sources p then Some ReasonArgumentMismatch
      else if now < le_issued_at l \<or> now \<ge> le_expires_at l then Some ReasonExpired
      else None)"

definition new_lease :: "(string \<Rightarrow> string \<Rightarrow> digest) \<Rightarrow> guard \<Rightarrow> scope \<Rightarrow> proposal \<Rightarrow> int \<Rightarrow> int \<Rightarrow> nonce
    \<Rightarrow> sf_lease" where
  "new_lease hmac g sc p now expiry n =
     (let l = \<lparr>le_issuer = gu_issuer g, le_nonce = n, le_scope = scope_digest hmac g sc,
               le_args = pr_args p, le_policy = gu_policy_digest g, le_action = ActionCrossrefDiscovery,
               le_sources = pr_sources p, le_issued_at = now, le_expires_at = expiry,
               le_uses = 1, le_signature = 0\<rparr>
      in l\<lparr>le_signature := sign_lease hmac g l\<rparr>)"

text \<open>The rest of the critical section of \<open>MintCrossref\<close>, once the grant is removed.\<close>

definition issue_lease :: "(string \<Rightarrow> string \<Rightarrow> digest) \<Rightarrow> scope \<Rightarrow> proposal \<Rightarrow> int \<Rightarrow> int \<Rightarrow> nonce option
    \<Rightarrow> defense_event \<Rightarrow> guard \<Rightarrow> (sf_lease option \<times> defense_event) \<times> guard" where
  "issue_lease hmac sc p now expiry random ev g =
     (if outstanding g + 1 > max_outstanding then ((None, ev\<lparr>ev_reason := ReasonCapacity\<rparr>), g)
      else case random of None \<Rightarrow> ((None, ev), g) | Some n \<Rightarrow>
        (if gu_grants g n \<noteq> None then ((None, ev\<lparr>ev_reason := ReasonTampered\<rparr>), g)
         else if gu_leases g n \<noteq> None then ((None, ev\<lparr>ev_reason := ReasonTampered\<rparr>), g)
         else (let l = new_lease hmac g sc p now expiry n in
           ((Some l, ev\<lparr>ev_decision := DecisionAllow, ev_reason := ReasonAuthorized\<rparr>),
            g\<lparr>gu_leases := (gu_leases g)(n \<mapsto> le_expires_at l)\<rparr>))))"

definition mint_crossref :: "(string \<Rightarrow> string \<Rightarrow> digest) \<Rightarrow> grant \<Rightarrow> scope \<Rightarrow> proposal \<Rightarrow> duration
    \<Rightarrow> time \<Rightarrow> nonce option \<Rightarrow> guard \<Rightarrow> (sf_lease option \<times> defense_event) \<times> guard" where
  "mint_crossref hmac r sc p ttl now_time random g =
     (let ev = new_event g ActionCrossrefDiscovery DecisionDeny ReasonInvalidAuthority (pr_sources p);
          now = unix_nano now_time in
      if proposal_refused sc p \<or> \<not> valid_ttl g ttl then ((None, ev), g)
      else case grant_fault hmac g r sc p now of Some f \<Rightarrow> ((None, ev\<lparr>ev_reason := f\<rparr>), g) | None \<Rightarrow>
      (let expiry = unix_nano (now_time + ttl) in
       if expiry > gr_expires_at r then ((None, ev\<lparr>ev_reason := ReasonExpired\<rparr>), g)
       else (let g1 = cleanup now g in
        if gu_grants g1 (gr_nonce r) = None then ((None, ev\<lparr>ev_reason := ReasonReplay\<rparr>), g1)
        else issue_lease hmac sc p now expiry random ev (g1\<lparr>gu_grants := (gu_grants g1)(gr_nonce r := None)\<rparr>))))"

text \<open>The flag of the result is that no error was returned.\<close>

definition consume_crossref :: "(string \<Rightarrow> string \<Rightarrow> digest) \<Rightarrow> sf_lease \<Rightarrow> scope \<Rightarrow> proposal \<Rightarrow> time \<Rightarrow> guard
    \<Rightarrow> (bool \<times> defense_event) \<times> guard" where
  "consume_crossref hmac l sc p now_time g =
     (let ev = new_event g ActionCrossrefDiscovery DecisionDeny ReasonInvalidAuthority (pr_sources p);
          now = unix_nano now_time in
      if proposal_refused sc p then ((False, ev), g)
      else case lease_fault hmac g l sc p now of Some f \<Rightarrow> ((False, ev\<lparr>ev_reason := f\<rparr>), g) | None \<Rightarrow>
      (let g1 = cleanup now g in
       if gu_leases g1 (le_nonce l) = None then ((False, ev\<lparr>ev_reason := ReasonReplay\<rparr>), g1)
       else ((True, ev\<lparr>ev_decision := DecisionAllow, ev_reason := ReasonAuthorized\<rparr>),
             g1\<lparr>gu_leases := (gu_leases g1)(le_nonce l := None)\<rparr>)))"

section \<open>The executor\<close>

text \<open>What the wrapped verifier does: it returns, returns an error, or panics.\<close>

datatype 'v verifier_outcome = Returned 'v | Failed | Panicked

definition call_verifier :: "(query \<Rightarrow> 'v verifier_outcome) \<Rightarrow> query \<Rightarrow> (sf_error, 'v) result" where
  "call_verifier verifier q = (case verifier q of
     Returned v \<Rightarrow> Inr v | Failed \<Rightarrow> Inl ErrExecutorUnavailable | Panicked \<Rightarrow> Inl ErrExecutorUnavailable)"

text \<open>The result carries the queries handed to the wrapped verifier, in order.\<close>

definition executor_verify :: "(string \<Rightarrow> string \<Rightarrow> digest) \<Rightarrow> (query \<Rightarrow> query option)
    \<Rightarrow> (query \<Rightarrow> 'v verifier_outcome) \<Rightarrow> sf_lease \<Rightarrow> scope \<Rightarrow> proposal \<Rightarrow> query \<Rightarrow> time \<Rightarrow> guard
    \<Rightarrow> ((sf_error, 'v) result \<times> defense_event \<times> query list) \<times> guard" where
  "executor_verify hmac normalizer verifier l sc p q now g =
     (let ev = new_event g ActionCrossrefDiscovery DecisionDeny ReasonInvalidAuthority (pr_sources p);
          mismatch = ev\<lparr>ev_reason := ReasonArgumentMismatch\<rparr> in
      case normalizer q of None \<Rightarrow> ((Inl ErrDenied, mismatch, []), g) | Some n \<Rightarrow>
      if query_digest hmac normalizer g n = None \<or> pr_action p \<noteq> ActionCrossrefDiscovery
        \<or> query_digest hmac normalizer g n \<noteq> Some (pr_args p)
      then ((Inl ErrDenied, mismatch, []), g)
      else case consume_crossref hmac l sc p now g of
        ((False, ev'), g') \<Rightarrow> ((Inl ErrDenied, ev', []), g')
      | ((True, ev'), g') \<Rightarrow> ((call_verifier verifier n, ev', [n]), g'))"

section \<open>Runs\<close>

datatype sf_call =
    Bind scope query duration time "nonce option"
  | Mint grant scope proposal duration time "nonce option"
  | Consume sf_lease scope proposal time
  | Verify sf_lease scope proposal query time

fun granted :: "(string \<Rightarrow> string \<Rightarrow> digest) \<Rightarrow> (query \<Rightarrow> query option) \<Rightarrow> guard \<Rightarrow> sf_call \<Rightarrow> grant option" where
  "granted hmac normalizer g (Bind sc q ttl now random) = fst (fst (bind_crossref hmac normalizer sc q ttl now random g))"
| "granted hmac normalizer g _ = None"

fun minted :: "(string \<Rightarrow> string \<Rightarrow> digest) \<Rightarrow> guard \<Rightarrow> sf_call \<Rightarrow> sf_lease option" where
  "minted hmac g (Mint r sc p ttl now random) = fst (fst (mint_crossref hmac r sc p ttl now random g))"
| "minted hmac g _ = None"

text \<open>The wrapped verifier does not touch the guard, so the step ignores what it does.\<close>

fun sf_step :: "(string \<Rightarrow> string \<Rightarrow> digest) \<Rightarrow> (query \<Rightarrow> query option) \<Rightarrow> guard \<Rightarrow> sf_call \<Rightarrow> guard" where
  "sf_step hmac normalizer g (Bind sc q ttl now random) = snd (bind_crossref hmac normalizer sc q ttl now random g)"
| "sf_step hmac normalizer g (Mint r sc p ttl now random) = snd (mint_crossref hmac r sc p ttl now random g)"
| "sf_step hmac normalizer g (Consume l sc p now) = snd (consume_crossref hmac l sc p now g)"
| "sf_step hmac normalizer g (Verify l sc p q now) =
     snd (executor_verify hmac normalizer (\<lambda>_. Failed :: unit verifier_outcome) l sc p q now g)"

text \<open>The lease a call spends, if it spends one: it is consumed, or handed on to the verifier.\<close>

fun spends :: "(string \<Rightarrow> string \<Rightarrow> digest) \<Rightarrow> (query \<Rightarrow> query option) \<Rightarrow> guard \<Rightarrow> sf_call \<Rightarrow> sf_lease option" where
  "spends hmac normalizer g (Consume l sc p now) =
     (if fst (fst (consume_crossref hmac l sc p now g)) then Some l else None)"
| "spends hmac normalizer g (Verify l sc p q now) =
     (if snd (snd (fst (executor_verify hmac normalizer (\<lambda>_. Failed :: unit verifier_outcome) l sc p q now g))) \<noteq> []
      then Some l else None)"
| "spends hmac normalizer g _ = None"

section \<open>What each operation does\<close>

lemma bind_cases:
  obtains (denied) "fst (fst (bind_crossref hmac normalizer sc q ttl now random g)) = None"
      "snd (bind_crossref hmac normalizer sc q ttl now random g) \<in> {g, cleanup (unix_nano now) g}"
  | (allowed) n args where
      "valid_scope sc" "valid_ttl g ttl" "query_digest hmac normalizer g q = Some args" "random = Some n"
      "fst (fst (bind_crossref hmac normalizer sc q ttl now random g)) = Some (new_grant hmac g sc args ttl now n)"
      "gu_issued (cleanup (unix_nano now) g) (issuance_digest hmac g (scope_digest hmac g sc) ActionCrossrefDiscovery) = None"
      "outstanding (cleanup (unix_nano now) g) + 2 \<le> max_outstanding"
      "snd (bind_crossref hmac normalizer sc q ttl now random g) = (cleanup (unix_nano now) g)
         \<lparr>gu_issued := (gu_issued (cleanup (unix_nano now) g))
             (issuance_digest hmac g (scope_digest hmac g sc) ActionCrossrefDiscovery \<mapsto> unix_nano (now + gu_issuance_ttl g)),
          gu_grants := (gu_grants (cleanup (unix_nano now) g))(n \<mapsto> unix_nano (now + ttl))\<rparr>"
proof -
  have scope: "gr_scope (new_grant hmac g sc args ttl now n) = scope_digest hmac g sc"
      and expiry: "gr_expires_at (new_grant hmac g sc args ttl now n) = unix_nano (now + ttl)" for args n
    by (simp_all add: new_grant_def Let_def)
  show ?thesis
  proof (cases "valid_scope sc \<and> valid_ttl g ttl")
    case False
    then show ?thesis by (intro denied) (auto simp: bind_crossref_def Let_def)
  next
    case valid: True
    show ?thesis
    proof (cases "query_digest hmac normalizer g q")
      case None
      then show ?thesis using valid by (intro denied) (auto simp: bind_crossref_def Let_def)
    next
      case (Some args)
      note q = this
      show ?thesis
      proof (cases random)
        case None
        then show ?thesis using valid q by (intro denied) (auto simp: bind_crossref_def Let_def)
      next
        case (Some n)
        let ?c = "cleanup (unix_nano now) g"
        let ?i = "issuance_digest hmac g (scope_digest hmac g sc) ActionCrossrefDiscovery"
        show ?thesis
        proof (cases "gu_issued ?c ?i \<noteq> None \<or> outstanding ?c + 2 > max_outstanding
            \<or> gu_grants ?c n \<noteq> None \<or> gu_leases ?c n \<noteq> None")
          case True
          then show ?thesis using valid q Some by (intro denied) (auto simp: bind_crossref_def Let_def scope)
        next
          case False
          then show ?thesis
            using valid q Some by (intro allowed [of args n]) (simp_all add: bind_crossref_def Let_def scope expiry)
        qed
      qed
    qed
  qed
qed

lemma new_lease_simps [simp]:
  "le_issuer (new_lease hmac g sc p t e n) = gu_issuer g" "le_nonce (new_lease hmac g sc p t e n) = n"
  "le_scope (new_lease hmac g sc p t e n) = scope_digest hmac g sc"
  "le_args (new_lease hmac g sc p t e n) = pr_args p"
  "le_sources (new_lease hmac g sc p t e n) = pr_sources p"
  "le_issued_at (new_lease hmac g sc p t e n) = t" "le_expires_at (new_lease hmac g sc p t e n) = e"
  by (simp_all add: new_lease_def Let_def)

lemma issue_lease_cases:
  obtains (denied) "fst (fst (issue_lease hmac sc p now expiry random ev g)) = None"
      "snd (issue_lease hmac sc p now expiry random ev g) = g"
  | (issued) n where "random = Some n" "gu_grants g n = None" "gu_leases g n = None"
      "outstanding g + 1 \<le> max_outstanding"
      "fst (fst (issue_lease hmac sc p now expiry random ev g)) = Some (new_lease hmac g sc p now expiry n)"
      "snd (issue_lease hmac sc p now expiry random ev g) = g\<lparr>gu_leases := (gu_leases g)(n \<mapsto> expiry)\<rparr>"
proof (cases random)
  case None
  then show ?thesis by (intro denied) (auto simp: issue_lease_def)
next
  case (Some n)
  show ?thesis
  proof (cases "outstanding g + 1 > max_outstanding \<or> gu_grants g n \<noteq> None \<or> gu_leases g n \<noteq> None")
    case True
    then show ?thesis using Some by (intro denied) (auto simp: issue_lease_def)
  next
    case False
    then show ?thesis using Some by (intro issued [of n]) (auto simp: issue_lease_def)
  qed
qed

lemma digests_static [simp]:
  "scope_digest hmac (g\<lparr>gu_grants := m\<rparr>) = scope_digest hmac g"
  "scope_digest hmac (cleanup t g) = scope_digest hmac g"
  "sign_lease hmac (g\<lparr>gu_grants := m\<rparr>) = sign_lease hmac g"
  "sign_lease hmac (cleanup t g) = sign_lease hmac g"
  by (simp_all add: fun_eq_iff scope_digest_def sign_lease_def keyed_digest_def cleanup_def)

lemma new_lease_static [simp]:
  "new_lease hmac (g\<lparr>gu_grants := m\<rparr>) = new_lease hmac g"
  "new_lease hmac (cleanup t g) = new_lease hmac g"
  by (simp_all add: fun_eq_iff new_lease_def) (simp_all add: cleanup_def)

lemma mint_cases:
  obtains (denied) "fst (fst (mint_crossref hmac r sc p ttl now random g)) = None"
      "snd (mint_crossref hmac r sc p ttl now random g) \<in> {g, cleanup (unix_nano now) g}"
  | (spent) "fst (fst (mint_crossref hmac r sc p ttl now random g)) = None"
      "\<not> proposal_refused sc p" "grant_fault hmac g r sc p (unix_nano now) = None"
      "gu_grants (cleanup (unix_nano now) g) (gr_nonce r) \<noteq> None"
      "snd (mint_crossref hmac r sc p ttl now random g) = (cleanup (unix_nano now) g)
         \<lparr>gu_grants := (gu_grants (cleanup (unix_nano now) g))(gr_nonce r := None)\<rparr>"
  | (allowed) n where
      "\<not> proposal_refused sc p" "valid_ttl g ttl" "grant_fault hmac g r sc p (unix_nano now) = None"
      "unix_nano (now + ttl) \<le> gr_expires_at r" "random = Some n"
      "gu_grants (cleanup (unix_nano now) g) (gr_nonce r) \<noteq> None"
      "fst (fst (mint_crossref hmac r sc p ttl now random g))
         = Some (new_lease hmac g sc p (unix_nano now) (unix_nano (now + ttl)) n)"
      "outstanding ((cleanup (unix_nano now) g)
         \<lparr>gu_grants := (gu_grants (cleanup (unix_nano now) g))(gr_nonce r := None)\<rparr>) + 1 \<le> max_outstanding"
      "snd (mint_crossref hmac r sc p ttl now random g) = (cleanup (unix_nano now) g)
         \<lparr>gu_grants := (gu_grants (cleanup (unix_nano now) g))(gr_nonce r := None),
          gu_leases := (gu_leases (cleanup (unix_nano now) g))(n \<mapsto> unix_nano (now + ttl))\<rparr>"
proof (cases "proposal_refused sc p \<or> \<not> valid_ttl g ttl \<or> grant_fault hmac g r sc p (unix_nano now) \<noteq> None
      \<or> unix_nano (now + ttl) > gr_expires_at r \<or> gu_grants (cleanup (unix_nano now) g) (gr_nonce r) = None")
  case True
  then show ?thesis
    by (intro denied) (auto simp: mint_crossref_def Let_def split: option.split)
next
  case False
  let ?c = "cleanup (unix_nano now) g"
  let ?d = "?c\<lparr>gu_grants := (gu_grants ?c)(gr_nonce r := None)\<rparr>"
  let ?ev = "new_event g ActionCrossrefDiscovery DecisionDeny ReasonInvalidAuthority (pr_sources p)"
  from False have ok: "\<not> proposal_refused sc p" "valid_ttl g ttl" "grant_fault hmac g r sc p (unix_nano now) = None"
      "unix_nano (now + ttl) \<le> gr_expires_at r" "gu_grants ?c (gr_nonce r) \<noteq> None"
    by auto
  have mint: "mint_crossref hmac r sc p ttl now random g =
      issue_lease hmac sc p (unix_nano now) (unix_nano (now + ttl)) random ?ev ?d"
    using ok by (auto simp: mint_crossref_def Let_def)
  show ?thesis
  proof (cases rule: issue_lease_cases [of hmac sc p "unix_nano now" "unix_nano (now + ttl)" random ?ev ?d])
    case denied
    then show ?thesis using ok mint by (intro spent) simp_all
  next
    case (issued n)
    then show ?thesis using ok mint by (intro allowed [of n]) simp_all
  qed
qed

lemma consume_cases:
  obtains (denied) "\<not> fst (fst (consume_crossref hmac l sc p now g))"
      "snd (consume_crossref hmac l sc p now g) \<in> {g, cleanup (unix_nano now) g}"
  | (allowed) "fst (fst (consume_crossref hmac l sc p now g))"
      "\<not> proposal_refused sc p" "lease_fault hmac g l sc p (unix_nano now) = None"
      "gu_leases (cleanup (unix_nano now) g) (le_nonce l) \<noteq> None"
      "snd (consume_crossref hmac l sc p now g) = (cleanup (unix_nano now) g)
         \<lparr>gu_leases := (gu_leases (cleanup (unix_nano now) g))(le_nonce l := None)\<rparr>"
proof (cases "fst (fst (consume_crossref hmac l sc p now g))")
  case True
  then show ?thesis
    using allowed by (auto simp: consume_crossref_def Let_def split: option.splits if_splits)
next
  case False
  then show ?thesis
    by (intro denied) (auto simp: consume_crossref_def Let_def split: option.splits if_splits)
qed

section \<open>Capacity, and what never changes\<close>

definition guard_ok :: "guard \<Rightarrow> bool" where
  "guard_ok g \<longleftrightarrow> finite (dom (gu_issued g)) \<and> finite (dom (gu_grants g)) \<and> finite (dom (gu_leases g))
     \<and> outstanding g \<le> max_outstanding"

definition same_config :: "guard \<Rightarrow> guard \<Rightarrow> bool" where
  "same_config g g' \<longleftrightarrow> gu_key g' = gu_key g \<and> gu_issuer g' = gu_issuer g \<and> gu_policy g' = gu_policy g
     \<and> gu_policy_digest g' = gu_policy_digest g \<and> gu_max_ttl g' = gu_max_ttl g
     \<and> gu_issuance_ttl g' = gu_issuance_ttl g"

lemma cleanup_simps [simp]:
  "gu_key (cleanup t g) = gu_key g" "gu_issuer (cleanup t g) = gu_issuer g"
  "gu_policy (cleanup t g) = gu_policy g" "gu_policy_digest (cleanup t g) = gu_policy_digest g"
  "gu_max_ttl (cleanup t g) = gu_max_ttl g" "gu_issuance_ttl (cleanup t g) = gu_issuance_ttl g"
  "gu_issued (cleanup t g) = filter_map (\<lambda>e. \<not> t \<ge> e) (gu_issued g)"
  "gu_grants (cleanup t g) = filter_map (\<lambda>e. \<not> t \<ge> e) (gu_grants g)"
  "gu_leases (cleanup t g) = filter_map (\<lambda>e. \<not> t \<ge> e) (gu_leases g)"
  by (simp_all add: cleanup_def)

lemma filter_map_live: "filter_map P m k \<noteq> None \<Longrightarrow> m k \<noteq> None"
  by auto

lemma guard_ok_cleanup:
  assumes "guard_ok g"
  shows "guard_ok (cleanup t g)"
proof -
  have fin: "finite (dom (gu_issued g))" "finite (dom (gu_grants g))" "finite (dom (gu_leases g))"
    and out: "outstanding g \<le> max_outstanding"
    using assms by (auto simp: guard_ok_def)
  have "outstanding (cleanup t g) \<le> outstanding g"
    unfolding outstanding_def cleanup_simps
    using card_filter_map [OF fin(1)] card_filter_map [OF fin(2)] card_filter_map [OF fin(3)]
    by (intro zle_int [THEN iffD2] add_mono) auto
  then show ?thesis using fin out unfolding guard_ok_def cleanup_simps by (auto intro: finite_filter_map)
qed

lemma guard_ok_bound:
  assumes "guard_ok g" "outstanding g + 2 \<le> max_outstanding"
  shows "guard_ok (g\<lparr>gu_issued := (gu_issued g)(i \<mapsto> x), gu_grants := (gu_grants g)(n \<mapsto> y)\<rparr>)"
  using assms card_dom_upd_le [of "gu_issued g" i x] card_dom_upd_le [of "gu_grants g" n y]
  by (simp add: guard_ok_def outstanding_def)

lemma guard_ok_removed:
  assumes "guard_ok g"
  shows "guard_ok (g\<lparr>gu_grants := (gu_grants g)(n := None)\<rparr>)" "guard_ok (g\<lparr>gu_leases := (gu_leases g)(n := None)\<rparr>)"
  using assms card_mono [of "dom (gu_grants g)" "dom (gu_grants g) - {n}"]
    card_mono [of "dom (gu_leases g)" "dom (gu_leases g) - {n}"]
  by (auto simp: guard_ok_def outstanding_def)

lemma guard_ok_leased:
  assumes "guard_ok g" "outstanding g + 1 \<le> max_outstanding"
  shows "guard_ok (g\<lparr>gu_leases := (gu_leases g)(n \<mapsto> x)\<rparr>)"
  using assms card_dom_upd_le [of "gu_leases g" n x]
  by (simp add: guard_ok_def outstanding_def)

text \<open>A verified call either leaves the guard alone or consumes the lease.\<close>

lemma verify_cases:
  obtains (denied) "snd (executor_verify hmac normalizer verifier l sc p q now g) = g"
      "snd (snd (fst (executor_verify hmac normalizer verifier l sc p q now g))) = []"
  | (called) n where "normalizer q = Some n" "query_digest hmac normalizer g n = Some (pr_args p)"
      "snd (executor_verify hmac normalizer verifier l sc p q now g) = snd (consume_crossref hmac l sc p now g)"
      "fst (fst (consume_crossref hmac l sc p now g))
         \<Longrightarrow> fst (fst (executor_verify hmac normalizer verifier l sc p q now g)) = call_verifier verifier n"
      "snd (snd (fst (executor_verify hmac normalizer verifier l sc p q now g)))
         = (if fst (fst (consume_crossref hmac l sc p now g)) then [n] else [])"
proof (cases "normalizer q")
  case None
  then show ?thesis by (intro denied) (auto simp: executor_verify_def Let_def)
next
  case (Some n)
  show ?thesis
  proof (cases "query_digest hmac normalizer g n = Some (pr_args p) \<and> pr_action p = ActionCrossrefDiscovery")
    case True
    obtain b ev g' where c: "consume_crossref hmac l sc p now g = ((b, ev), g')" by (metis surj_pair)
    have "executor_verify hmac normalizer verifier l sc p q now g =
        ((if b then call_verifier verifier n else Inl ErrDenied, ev, if b then [n] else []), g')"
      using Some True c by (cases b) (simp_all add: executor_verify_def Let_def)
    then show ?thesis using Some True c by (intro called [of n]) simp_all
  next
    case False
    then show ?thesis using Some by (intro denied) (auto simp: executor_verify_def Let_def)
  qed
qed

text \<open>From here on \<open>cleanup\<close> is unfolded only where asked for.\<close>

lemmas cleanup_tables = cleanup_simps(7-9)
declare cleanup_tables [simp del]

lemma same_config_simps [simp]:
  "same_config g g" "same_config g (cleanup t g)"
  "same_config g (g'\<lparr>gu_issued := m1\<rparr>) = same_config g g'"
  "same_config g (g'\<lparr>gu_grants := m2\<rparr>) = same_config g g'"
  "same_config g (g'\<lparr>gu_leases := m3\<rparr>) = same_config g g'"
  by (simp_all add: same_config_def)

lemma consume_ok:
  "guard_ok g \<Longrightarrow> guard_ok (snd (consume_crossref hmac l sc p now g))"
  "same_config g (snd (consume_crossref hmac l sc p now g))"
proof -
  show "guard_ok (snd (consume_crossref hmac l sc p now g))" if "guard_ok g"
  proof (cases rule: consume_cases [of hmac l sc p now g])
    case denied
    then show ?thesis using that guard_ok_cleanup by auto
  next
    case allowed
    then show ?thesis using guard_ok_removed(2) [OF guard_ok_cleanup [OF that]] by simp
  qed
  show "same_config g (snd (consume_crossref hmac l sc p now g))"
    by (cases rule: consume_cases [of hmac l sc p now g]) auto
qed

lemma bind_ok:
  "guard_ok g \<Longrightarrow> guard_ok (snd (bind_crossref hmac normalizer sc q ttl now random g))"
  "same_config g (snd (bind_crossref hmac normalizer sc q ttl now random g))"
proof -
  show "guard_ok (snd (bind_crossref hmac normalizer sc q ttl now random g))" if "guard_ok g"
  proof (cases rule: bind_cases [of hmac normalizer sc q ttl now random g])
    case denied
    then show ?thesis using that guard_ok_cleanup by auto
  next
    case (allowed n args)
    then show ?thesis using guard_ok_bound [OF guard_ok_cleanup [OF that]] by simp
  qed
  show "same_config g (snd (bind_crossref hmac normalizer sc q ttl now random g))"
    by (cases rule: bind_cases [of hmac normalizer sc q ttl now random g]) auto
qed

lemma mint_ok:
  "guard_ok g \<Longrightarrow> guard_ok (snd (mint_crossref hmac r sc p ttl now random g))"
  "same_config g (snd (mint_crossref hmac r sc p ttl now random g))"
proof -
  assume ok: "guard_ok g"
  show "guard_ok (snd (mint_crossref hmac r sc p ttl now random g))"
  proof (cases rule: mint_cases [of hmac r sc p ttl now random g])
    case denied
    then show ?thesis using ok guard_ok_cleanup by auto
  next
    case spent
    then show ?thesis using guard_ok_removed(1) [OF guard_ok_cleanup [OF ok]] by simp
  next
    case (allowed n)
    then show ?thesis
      using guard_ok_leased [OF guard_ok_removed(1) [OF guard_ok_cleanup [OF ok]]] by simp
  qed
next
  show "same_config g (snd (mint_crossref hmac r sc p ttl now random g))"
    by (cases rule: mint_cases [of hmac r sc p ttl now random g]) auto
qed

lemma sf_step_ok:
  "guard_ok g \<Longrightarrow> guard_ok (sf_step hmac normalizer g e)"
  "same_config g (sf_step hmac normalizer g e)"
proof -
  show "guard_ok g \<Longrightarrow> guard_ok (sf_step hmac normalizer g e)"
  proof (cases e)
    case (Verify l sc p q now)
    then show "guard_ok g \<Longrightarrow> guard_ok (sf_step hmac normalizer g e)"
      by (cases rule: verify_cases [of hmac normalizer "\<lambda>_. Failed :: unit verifier_outcome" l sc p q now g])
        (auto intro: consume_ok)
  qed (auto intro: consume_ok bind_ok mint_ok)
  show "same_config g (sf_step hmac normalizer g e)"
  proof (cases e)
    case (Verify l sc p q now)
    then show ?thesis
      by (cases rule: verify_cases [of hmac normalizer "\<lambda>_. Failed :: unit verifier_outcome" l sc p q now g])
        (auto intro: consume_ok)
  qed (auto intro: consume_ok bind_ok mint_ok)
qed

section \<open>Grants and leases are one-shot\<close>

text \<open>A lease as a call presents it, with the scope, proposal and time it is presented with.\<close>

fun presented :: "sf_call \<Rightarrow> (sf_lease \<times> scope \<times> proposal \<times> time) option" where
  "presented (Consume l sc p now) = Some (l, sc, p, now)"
| "presented (Verify l sc p q now) = Some (l, sc, p, now)"
| "presented _ = None"

lemma spends_Some:
  assumes "spends hmac normalizer g e = Some l"
  obtains sc p now where "presented e = Some (l, sc, p, now)"
    "fst (fst (consume_crossref hmac l sc p now g))"
    "sf_step hmac normalizer g e = snd (consume_crossref hmac l sc p now g)"
proof (cases e)
  case (Consume l' sc p now)
  then show ?thesis using assms that [of sc p now] by (auto split: if_splits)
next
  case (Verify l' sc p q now)
  then show ?thesis using assms that [of sc p now]
    by (cases rule: verify_cases [of hmac normalizer "\<lambda>_. Failed :: unit verifier_outcome" l' sc p q now g])
      (auto split: if_splits)
qed (use assms in auto)

lemma cleanup_live:
  "gu_leases (cleanup t g) n \<noteq> None \<Longrightarrow> gu_leases g n \<noteq> None"
  "gu_grants (cleanup t g) n \<noteq> None \<Longrightarrow> gu_grants g n \<noteq> None"
  unfolding cleanup_tables by (auto dest: filter_map_live)

lemma spends_live:
  assumes "spends hmac normalizer g e = Some l"
  shows "gu_leases g (le_nonce l) \<noteq> None" "gu_leases (sf_step hmac normalizer g e) (le_nonce l) = None"
proof -
  obtain sc p now where c: "fst (fst (consume_crossref hmac l sc p now g))"
      "sf_step hmac normalizer g e = snd (consume_crossref hmac l sc p now g)"
    using assms by (rule spends_Some)
  show "gu_leases g (le_nonce l) \<noteq> None" "gu_leases (sf_step hmac normalizer g e) (le_nonce l) = None"
    using c cleanup_live(1) by (cases rule: consume_cases [of hmac l sc p now g]; auto)+
qed

lemma consume_tables:
  "gu_leases (snd (consume_crossref hmac l sc p now g)) n \<noteq> None \<Longrightarrow> gu_leases g n \<noteq> None"
  "gu_grants (snd (consume_crossref hmac l sc p now g)) n \<noteq> None \<Longrightarrow> gu_grants g n \<noteq> None"
  using cleanup_live [of "unix_nano now" g n]
  by (cases rule: consume_cases [of hmac l sc p now g]; auto split: if_splits)+

lemma bind_tables:
  "gu_leases (snd (bind_crossref hmac normalizer sc q ttl now random g)) n \<noteq> None \<Longrightarrow> gu_leases g n \<noteq> None"
  "gu_grants (snd (bind_crossref hmac normalizer sc q ttl now random g)) n \<noteq> None \<Longrightarrow> gu_grants g n \<noteq> None
     \<or> (\<exists>r. fst (fst (bind_crossref hmac normalizer sc q ttl now random g)) = Some r \<and> gr_nonce r = n)"
proof -
  have nonce: "gr_nonce (new_grant hmac g sc args ttl now m) = m" for args m by (simp add: new_grant_def Let_def)
  show "gu_leases (snd (bind_crossref hmac normalizer sc q ttl now random g)) n \<noteq> None \<Longrightarrow> gu_leases g n \<noteq> None"
      "gu_grants (snd (bind_crossref hmac normalizer sc q ttl now random g)) n \<noteq> None \<Longrightarrow> gu_grants g n \<noteq> None
     \<or> (\<exists>r. fst (fst (bind_crossref hmac normalizer sc q ttl now random g)) = Some r \<and> gr_nonce r = n)"
    using cleanup_live [of "unix_nano now" g n]
    by (cases rule: bind_cases [of hmac normalizer sc q ttl now random g]; auto simp: nonce split: if_splits)+
qed

lemma mint_tables:
  "gu_leases (snd (mint_crossref hmac r sc p ttl now random g)) n \<noteq> None \<Longrightarrow> gu_leases g n \<noteq> None
     \<or> (\<exists>l. fst (fst (mint_crossref hmac r sc p ttl now random g)) = Some l \<and> le_nonce l = n)"
  "gu_grants (snd (mint_crossref hmac r sc p ttl now random g)) n \<noteq> None \<Longrightarrow> gu_grants g n \<noteq> None"
  using cleanup_live [of "unix_nano now" g n]
  by (cases rule: mint_cases [of hmac r sc p ttl now random g]; auto split: if_splits)+

lemma step_leases:
  assumes "gu_leases (sf_step hmac normalizer g e) n \<noteq> None"
  shows "gu_leases g n \<noteq> None \<or> (\<exists>l. minted hmac g e = Some l \<and> le_nonce l = n)"
proof (cases e)
  case (Verify l sc p q now)
  then show ?thesis using assms consume_tables(1) [of hmac l sc p now g n]
    by (cases rule: verify_cases [of hmac normalizer "\<lambda>_. Failed :: unit verifier_outcome" l sc p q now g]) auto
next
  case (Mint r sc p ttl now random)
  then show ?thesis using assms mint_tables(1) [of hmac r sc p ttl now random g n] by simp
next
  case (Bind sc q ttl now random)
  then show ?thesis using assms bind_tables(1) [of hmac normalizer sc q ttl now random g n] by simp
next
  case (Consume l sc p now)
  then show ?thesis using assms consume_tables(1) [of hmac l sc p now g n] by simp
qed

lemma step_grants:
  assumes "gu_grants (sf_step hmac normalizer g e) n \<noteq> None"
  shows "gu_grants g n \<noteq> None \<or> (\<exists>r. granted hmac normalizer g e = Some r \<and> gr_nonce r = n)"
proof (cases e)
  case (Verify l sc p q now)
  then show ?thesis using assms consume_tables(2) [of hmac l sc p now g n]
    by (cases rule: verify_cases [of hmac normalizer "\<lambda>_. Failed :: unit verifier_outcome" l sc p q now g]) auto
next
  case (Mint r sc p ttl now random)
  then show ?thesis using assms mint_tables(2) [of hmac r sc p ttl now random g n] by simp
next
  case (Bind sc q ttl now random)
  then show ?thesis using assms bind_tables(2) [of hmac normalizer sc q ttl now random g n] by simp
next
  case (Consume l sc p now)
  then show ?thesis using assms consume_tables(2) [of hmac l sc p now g n] by simp
qed

text \<open>A call that turns the grant with nonce \<open>n\<close> into a lease.\<close>

fun redeems :: "(string \<Rightarrow> string \<Rightarrow> digest) \<Rightarrow> nonce \<Rightarrow> guard \<Rightarrow> sf_call \<Rightarrow> bool" where
  "redeems hmac n g (Mint r sc p ttl now random) =
     (gr_nonce r = n \<and> minted hmac g (Mint r sc p ttl now random) \<noteq> None)"
| "redeems hmac n g _ = False"

interpretation leases: token_ledger "sf_step hmac normalizer" guard_ok
  "\<lambda>n g e. \<exists>l. minted hmac g e = Some l \<and> le_nonce l = n"
  "\<lambda>n g e. \<exists>l. spends hmac normalizer g e = Some l \<and> le_nonce l = n"
  "\<lambda>g n. gu_leases g n \<noteq> None" for hmac normalizer
proof unfold_locales
  fix g :: guard and n e
  show "guard_ok g \<Longrightarrow> guard_ok (sf_step hmac normalizer g e)" by (rule sf_step_ok)
  show "gu_leases (sf_step hmac normalizer g e) n \<noteq> None \<Longrightarrow>
      gu_leases g n \<noteq> None \<or> (\<exists>l. minted hmac g e = Some l \<and> le_nonce l = n)"
    by (rule step_leases)
  assume "\<exists>l. spends hmac normalizer g e = Some l \<and> le_nonce l = n"
  then obtain l where l: "spends hmac normalizer g e = Some l" "le_nonce l = n" by blast
  show "gu_leases g n \<noteq> None" "\<not> gu_leases (sf_step hmac normalizer g e) n \<noteq> None"
    using spends_live [OF l(1)] l(2) by simp_all
qed

interpretation grants: token_ledger "sf_step hmac normalizer" guard_ok
  "\<lambda>n g e. \<exists>r. granted hmac normalizer g e = Some r \<and> gr_nonce r = n"
  "redeems hmac" "\<lambda>g n. gu_grants g n \<noteq> None" for hmac normalizer
proof unfold_locales
  fix g :: guard and n e
  show "gu_grants (sf_step hmac normalizer g e) n \<noteq> None \<Longrightarrow>
      gu_grants g n \<noteq> None \<or> (\<exists>r. granted hmac normalizer g e = Some r \<and> gr_nonce r = n)"
    by (rule step_grants)
  assume "redeems hmac n g e"
  then obtain r sc p ttl now random where e: "e = Mint r sc p ttl now random" "gr_nonce r = n"
      "fst (fst (mint_crossref hmac r sc p ttl now random g)) \<noteq> None"
    by (cases e) auto
  then show "gu_grants g n \<noteq> None" "\<not> gu_grants (sf_step hmac normalizer g e) n \<noteq> None"
    using cleanup_live(2) [of "unix_nano now" g n]
    by (cases rule: mint_cases [of hmac r sc p ttl now random g]; simp)+
qed

section \<open>Canonical texts determine what they encode\<close>

lemma length_write_int64 [simp]: "length (write_int64 v) = 8"
  by (simp add: write_int64_def)

lemma write_int64_eq: "in_i64 v \<Longrightarrow> in_i64 v' \<Longrightarrow> write_int64 v = write_int64 v' \<longleftrightarrow> v = v'"
  using wrap64_word [of v] wrap64_word [of v'] wrap64_id [of v] wrap64_id [of v']
  by (auto simp: write_int64_def be_bytes_eq)

lemma write_bounded_string_eq:
  assumes "length v < 2 ^ 63" "length v' < 2 ^ 63"
  shows "write_bounded_string v @ x = write_bounded_string v' @ x' \<longleftrightarrow> v = v' \<and> x = x'"
  using assms write_int64_eq [of "int (length v)" "int (length v')"]
  by (auto simp: write_bounded_string_def in_i64_def)

lemma scope_canonical_eq:
  assumes "valid_scope a" "valid_scope b"
  shows "scope_canonical a = scope_canonical b \<longleftrightarrow> a = b"
proof -
  have short: "length x < 2 ^ 63" if "valid_scope_field x" for x
    using that by (simp add: valid_scope_field_def)
  have last: "write_bounded_string (sc_request a) = write_bounded_string (sc_request b)
      \<longleftrightarrow> sc_request a = sc_request b"
    using write_bounded_string_eq [of "sc_request a" "sc_request b" "[]" "[]"] assms short
    by (simp add: valid_scope_def)
  show ?thesis
    using assms short last
    by (cases a; cases b) (auto simp: scope_canonical_def valid_scope_def write_bounded_string_eq)
qed

lemma uint_16_in_i64: "in_i64 (uint (w :: 16 word))"
proof -
  have "uint w < 2 ^ 63" using uint_lt2p [of w] by simp
  moreover have "- (2 ^ 63) \<le> uint w" by (rule order_trans [OF _ uint_ge_0]) simp
  ultimately show ?thesis by (simp only: in_i64_def simp_thms)
qed

lemma lease_envelope_eq:
  assumes "in_i64 (le_issued_at l)" "in_i64 (le_expires_at l)" "in_i64 (le_issued_at l')" "in_i64 (le_expires_at l')"
  shows "lease_envelope l = lease_envelope l' \<longleftrightarrow> l\<lparr>le_signature := 0\<rparr> = l'\<lparr>le_signature := 0\<rparr>"
  using assms
  by (cases l; cases l')
    (auto simp: lease_envelope_def be_bytes_eq write_int64_eq uint_16_in_i64 word_uint_eq_iff)

lemma grant_envelope_eq:
  assumes "in_i64 (gr_issued_at r)" "in_i64 (gr_expires_at r)" "in_i64 (gr_issued_at r')" "in_i64 (gr_expires_at r')"
  shows "grant_envelope r = grant_envelope r' \<longleftrightarrow> r\<lparr>gr_signature := 0\<rparr> = r'\<lparr>gr_signature := 0\<rparr>"
  using assms
  by (cases r; cases r')
    (auto simp: grant_envelope_def be_bytes_eq write_int64_eq uint_16_in_i64 word_uint_eq_iff)

text \<open>The texts of a query: the kind ends at the first NUL, the numbers are the last 24 bytes.\<close>

lemma query_canonical_eq:
  assumes "query_canonical q = Some x" "query_canonical q' = Some x"
    and "in_i64 (unix_sec (q_from q))" "in_i64 (unix_sec (q_until q))" "in_i64 (q_limit q)"
    and "in_i64 (unix_sec (q_from q'))" "in_i64 (unix_sec (q_until q'))" "in_i64 (q_limit q')"
  shows "q_kind q = q_kind q' \<and> (q_kind q = QueryDOI \<longrightarrow> q_doi q = q_doi q')
    \<and> (q_kind q = QueryRecentTopic \<longrightarrow> q_topic q = q_topic q' \<and> unix_sec (q_from q) = unix_sec (q_from q')
         \<and> unix_sec (q_until q) = unix_sec (q_until q') \<and> q_limit q = q_limit q')"
proof (cases "q_kind q"; cases "q_kind q'")
  assume k: "q_kind q = QueryRecentTopic" "q_kind q' = QueryRecentTopic"
  let ?tail = "\<lambda>q. write_int64 (unix_sec (q_from q)) @ write_int64 (unix_sec (q_until q)) @ write_int64 (q_limit q)"
  have "q_topic q @ CHR 0x00 # ?tail q = q_topic q' @ CHR 0x00 # ?tail q'"
    using assms(1,2) k by (auto simp: query_canonical_def)
  then have "q_topic q = q_topic q'" "?tail q = ?tail q'"
    using append_eq_append_conv [of "q_topic q" "q_topic q'" "CHR 0x00 # ?tail q" "CHR 0x00 # ?tail q'"] by simp_all
  then show ?thesis using k assms(3-8) by (simp add: write_int64_eq)
qed (use assms(1,2) in \<open>auto simp: query_canonical_def\<close>)

section \<open>The chain of authority\<close>

text \<open>What the guard has handed out along a run.\<close>

definition grants_of :: "(string \<Rightarrow> string \<Rightarrow> digest) \<Rightarrow> (query \<Rightarrow> query option) \<Rightarrow> guard \<Rightarrow> sf_call list \<Rightarrow> grant set" where
  "grants_of hmac normalizer g es =
     {r. \<exists>es1 e es2. es = es1 @ e # es2 \<and> granted hmac normalizer (foldl (sf_step hmac normalizer) g es1) e = Some r}"

definition leases_of :: "(string \<Rightarrow> string \<Rightarrow> digest) \<Rightarrow> (query \<Rightarrow> query option) \<Rightarrow> guard \<Rightarrow> sf_call list \<Rightarrow> sf_lease set" where
  "leases_of hmac normalizer g es =
     {l. \<exists>es1 e es2. es = es1 @ e # es2 \<and> minted hmac (foldl (sf_step hmac normalizer) g es1) e = Some l}"

text \<open>
  A call that presents nothing with a valid signature that the guard has not signed: HMAC keeps
  whoever lacks the key from making one.
\<close>

fun unforged :: "(string \<Rightarrow> string \<Rightarrow> digest) \<Rightarrow> guard \<Rightarrow> grant set \<Rightarrow> sf_lease set \<Rightarrow> sf_call \<Rightarrow> bool" where
  "unforged hmac g G L (Mint r sc p ttl now random) \<longleftrightarrow> (gr_signature r = sign_grant hmac g r \<longrightarrow> r \<in> G)"
| "unforged hmac g G L (Consume l sc p now) \<longleftrightarrow> (le_signature l = sign_lease hmac g l \<longrightarrow> l \<in> L)"
| "unforged hmac g G L (Verify l sc p q now) \<longleftrightarrow> (le_signature l = sign_lease hmac g l \<longrightarrow> l \<in> L)"
| "unforged hmac g G L (Bind sc q ttl now random) \<longleftrightarrow> True"

definition honest :: "(string \<Rightarrow> string \<Rightarrow> digest) \<Rightarrow> (query \<Rightarrow> query option) \<Rightarrow> guard \<Rightarrow> sf_call list \<Rightarrow> bool" where
  "honest hmac normalizer g es \<longleftrightarrow> (\<forall>es1 e es2. es = es1 @ e # es2 \<longrightarrow>
     unforged hmac (foldl (sf_step hmac normalizer) g es1)
       (grants_of hmac normalizer g es1) (leases_of hmac normalizer g es1) e)"

lemma grants_ofI:
  "granted hmac normalizer (foldl (sf_step hmac normalizer) g es1) e = Some r \<Longrightarrow>
     r \<in> grants_of hmac normalizer g (es1 @ e # es2)"
  unfolding grants_of_def by blast

lemma leases_ofI:
  "minted hmac (foldl (sf_step hmac normalizer) g es1) e = Some l \<Longrightarrow>
     l \<in> leases_of hmac normalizer g (es1 @ e # es2)"
  unfolding leases_of_def by blast

lemma run_config: "same_config g (foldl (sf_step hmac normalizer) g es)"
  by (rule foldl_invariant) (use sf_step_ok(2) in \<open>auto simp: same_config_def\<close>)

lemma same_config_digests:
  assumes "same_config g g'"
  shows "scope_digest hmac g' = scope_digest hmac g" "query_digest hmac normalizer g' = query_digest hmac normalizer g"
    "sign_lease hmac g' = sign_lease hmac g" "sign_grant hmac g' = sign_grant hmac g"
proof -
  have "keyed_digest hmac g' = keyed_digest hmac g"
    using assms by (simp add: fun_eq_iff same_config_def keyed_digest_def)
  then show "scope_digest hmac g' = scope_digest hmac g" "query_digest hmac normalizer g' = query_digest hmac normalizer g"
    "sign_lease hmac g' = sign_lease hmac g" "sign_grant hmac g' = sign_grant hmac g"
    by (simp_all add: fun_eq_iff scope_digest_def query_digest_def sign_lease_def sign_grant_def
        split: option.split)
qed

lemma new_grant_simps:
  "gr_nonce (new_grant hmac g sc args ttl now n) = n" "gr_args (new_grant hmac g sc args ttl now n) = args"
  "gr_scope (new_grant hmac g sc args ttl now n) = scope_digest hmac g sc"
  "gr_issued_at (new_grant hmac g sc args ttl now n) = unix_nano now"
  "gr_expires_at (new_grant hmac g sc args ttl now n) = unix_nano (now + ttl)"
  by (simp_all add: new_grant_def Let_def)

lemma granted_Some:
  assumes "granted hmac normalizer g e = Some r"
  obtains sc q ttl now n where "e = Bind sc q ttl now (Some n)" "valid_scope sc" "valid_ttl g ttl"
    "query_digest hmac normalizer g q = Some (gr_args r)" "gr_scope r = scope_digest hmac g sc" "gr_nonce r = n"
    "gr_issued_at r = unix_nano now" "gr_expires_at r = unix_nano (now + ttl)"
proof (cases e)
  case (Bind sc q ttl now random)
  then show ?thesis
    using assms that
    by (cases rule: bind_cases [of hmac normalizer sc q ttl now random g]) (auto simp: new_grant_simps)
qed (use assms in auto)

lemma minted_Some:
  assumes "minted hmac g e = Some l"
  obtains r sc p ttl now n where "e = Mint r sc p ttl now (Some n)" "\<not> proposal_refused sc p" "valid_ttl g ttl"
    "grant_fault hmac g r sc p (unix_nano now) = None" "unix_nano (now + ttl) \<le> gr_expires_at r"
    "l = new_lease hmac g sc p (unix_nano now) (unix_nano (now + ttl)) n"
proof (cases e)
  case (Mint r sc p ttl now random)
  then show ?thesis
    using assms that by (cases rule: mint_cases [of hmac r sc p ttl now random g]) auto
qed (use assms in auto)

lemma grant_fault_None:
  "grant_fault hmac g r sc p now = None \<longleftrightarrow> gr_issuer r = gu_issuer g \<and> gr_action r = ActionCrossrefDiscovery
     \<and> gr_authority r = SourceDeclaredIntentionalAudio \<and> gr_policy r = gu_policy_digest g
     \<and> gr_signature r = sign_grant hmac g r \<and> gr_scope r = scope_digest hmac g sc \<and> gr_args r = pr_args p
     \<and> gr_issued_at r \<le> now \<and> now < gr_expires_at r"
  by (auto simp: grant_fault_def)

lemma lease_fault_None:
  "lease_fault hmac g l sc p now = None \<longleftrightarrow> le_issuer l = gu_issuer g \<and> le_action l = ActionCrossrefDiscovery
     \<and> le_policy l = gu_policy_digest g \<and> le_uses l = 1 \<and> le_signature l = sign_lease hmac g l
     \<and> le_scope l = scope_digest hmac g sc \<and> le_args l = pr_args p \<and> le_sources l = pr_sources p
     \<and> le_issued_at l \<le> now \<and> now < le_expires_at l"
  by (auto simp: lease_fault_def)

lemma consumed:
  assumes "fst (fst (consume_crossref hmac l sc p now g))"
  shows "\<not> proposal_refused sc p" "lease_fault hmac g l sc p (unix_nano now) = None"
  using assms by (cases rule: consume_cases [of hmac l sc p now g]; simp)+

text \<open>The request behind a lease: the call that bound it and the call that minted it, in order.\<close>

lemma minted_chain:
  assumes honest: "honest hmac normalizer g0 es" and l: "l \<in> leases_of hmac normalizer g0 es"
  obtains es0 sc0 q ttl0 now0 n0 es1 r sc1 p1 ttl1 now1 n1 es2 where
    "es = es0 @ Bind sc0 q ttl0 now0 n0 # es1 @ Mint r sc1 p1 ttl1 now1 n1 # es2"
    "valid_scope sc0" "valid_ttl g0 ttl0" "query_digest hmac normalizer g0 q = Some (le_args l)"
    "scope_digest hmac g0 sc0 = le_scope l" "\<not> proposal_refused sc1 p1" "pr_sources p1 = le_sources l"
    "unix_nano now0 \<le> unix_nano now1" "le_issued_at l = unix_nano now1"
    "le_expires_at l = unix_nano (now1 + ttl1)" "unix_nano (now1 + ttl1) \<le> unix_nano (now0 + ttl0)"
proof -
  obtain es' e es2 where es: "es = es' @ e # es2"
    and m: "minted hmac (foldl (sf_step hmac normalizer) g0 es') e = Some l"
    using l by (auto simp: leases_of_def)
  let ?g = "foldl (sf_step hmac normalizer) g0 es'"
  obtain r sc1 p1 ttl1 now1 n1 where e: "e = Mint r sc1 p1 ttl1 now1 (Some n1)" "\<not> proposal_refused sc1 p1"
      "grant_fault hmac ?g r sc1 p1 (unix_nano now1) = None" "unix_nano (now1 + ttl1) \<le> gr_expires_at r"
      "l = new_lease hmac ?g sc1 p1 (unix_nano now1) (unix_nano (now1 + ttl1)) n1"
    using m by (rule minted_Some)
  have "unforged hmac ?g (grants_of hmac normalizer g0 es') (leases_of hmac normalizer g0 es') e"
    using honest es unfolding honest_def by blast
  then have "r \<in> grants_of hmac normalizer g0 es'" using e(1,3) by (simp add: grant_fault_None)
  then obtain es0 b es1 where es': "es' = es0 @ b # es1"
    and gr: "granted hmac normalizer (foldl (sf_step hmac normalizer) g0 es0) b = Some r"
    by (auto simp: grants_of_def)
  obtain sc0 q ttl0 now0 n0 where b: "b = Bind sc0 q ttl0 now0 (Some n0)" "valid_scope sc0"
      "valid_ttl (foldl (sf_step hmac normalizer) g0 es0) ttl0"
      "query_digest hmac normalizer (foldl (sf_step hmac normalizer) g0 es0) q = Some (gr_args r)"
      "gr_scope r = scope_digest hmac (foldl (sf_step hmac normalizer) g0 es0) sc0"
      "gr_issued_at r = unix_nano now0" "gr_expires_at r = unix_nano (now0 + ttl0)"
    using gr by (rule granted_Some)
  note cfg = run_config [of g0 hmac normalizer es0]
  show ?thesis
    by (rule that [of es0 sc0 q ttl0 now0 "Some n0" es1 r sc1 p1 ttl1 now1 "Some n1" es2])
      (use es es' e b cfg same_config_digests [OF cfg] same_config_digests [OF run_config [of g0 hmac normalizer es']]
        in \<open>auto simp: grant_fault_None valid_ttl_def same_config_def\<close>)
qed

section \<open>One grant per request\<close>

fun call_time :: "sf_call \<Rightarrow> time" where
  "call_time (Bind sc q ttl now random) = now"
| "call_time (Mint r sc p ttl now random) = now"
| "call_time (Consume l sc p now) = now"
| "call_time (Verify l sc p q now) = now"

text \<open>A bind that succeeds for requests with this scope digest.\<close>

fun binds :: "(string \<Rightarrow> string \<Rightarrow> digest) \<Rightarrow> (query \<Rightarrow> query option) \<Rightarrow> digest \<Rightarrow> guard \<Rightarrow> sf_call \<Rightarrow> bool" where
  "binds hmac normalizer d g (Bind sc q ttl now random) =
     (scope_digest hmac g sc = d \<and> granted hmac normalizer g (Bind sc q ttl now random) \<noteq> None)"
| "binds hmac normalizer d g _ = False"

lemma issued_cleanup:
  "gu_issued g i = Some x \<Longrightarrow> t < x \<Longrightarrow> gu_issued (cleanup t g) i = Some x"
  by (simp add: cleanup_tables)

lemma step_issued:
  assumes "gu_issued g i = Some x" "unix_nano (call_time e) < x"
    "\<And>d. i = issuance_digest hmac g d ActionCrossrefDiscovery \<Longrightarrow> \<not> binds hmac normalizer d g e"
  shows "gu_issued (sf_step hmac normalizer g e) i = Some x"
proof (cases e)
  case (Bind sc q ttl now random)
  have live: "gu_issued (cleanup (unix_nano now) g) i = Some x"
    using issued_cleanup [OF assms(1)] assms(2) Bind by simp
  show ?thesis
  proof (cases rule: bind_cases [of hmac normalizer sc q ttl now random g])
    case denied
    then show ?thesis using live assms(1) Bind by auto
  next
    case (allowed n args)
    then have "i \<noteq> issuance_digest hmac g (scope_digest hmac g sc) ActionCrossrefDiscovery"
      using live by auto
    then show ?thesis using live Bind allowed by simp
  qed
next
  case (Mint r sc p ttl now random)
  then show ?thesis using issued_cleanup [OF assms(1)] assms(1,2)
    by (cases rule: mint_cases [of hmac r sc p ttl now random g]) auto
next
  case (Consume l sc p now)
  then show ?thesis using issued_cleanup [OF assms(1)] assms(1,2)
    by (cases rule: consume_cases [of hmac l sc p now g]) auto
next
  case (Verify l sc p q now)
  have "gu_issued (snd (consume_crossref hmac l sc p now g)) i = Some x"
    using issued_cleanup [OF assms(1)] assms(1,2) Verify
    by (cases rule: consume_cases [of hmac l sc p now g]) auto
  then show ?thesis using assms(1) Verify
    by (cases rule: verify_cases [of hmac normalizer "\<lambda>_. Failed :: unit verifier_outcome" l sc p q now g]) auto
qed

lemma issued_blocks:
  assumes "gu_issued g (issuance_digest hmac g d ActionCrossrefDiscovery) = Some x" "unix_nano (call_time e) < x"
  shows "\<not> binds hmac normalizer d g e"
proof (cases e)
  case (Bind sc q ttl now random)
  have "gu_issued (cleanup (unix_nano now) g) (issuance_digest hmac g d ActionCrossrefDiscovery) = Some x"
    using issued_cleanup [OF assms(1)] assms(2) Bind by simp
  then show ?thesis
    using Bind by (cases rule: bind_cases [of hmac normalizer sc q ttl now random g]) auto
qed auto

lemma issuance_static: "same_config g g' \<Longrightarrow> issuance_digest hmac g' = issuance_digest hmac g"
  by (simp add: fun_eq_iff issuance_digest_def keyed_digest_def same_config_def)

lemma issued_blocks_run:
  assumes "gu_issued g (issuance_digest hmac g d ActionCrossrefDiscovery) = Some x"
    and "\<forall>e \<in> set es. unix_nano (call_time e) < x"
  shows "run_count (sf_step hmac normalizer) (binds hmac normalizer d) g es = 0"
  using assms
proof (induction es arbitrary: g)
  case (Cons e es)
  let ?g = "sf_step hmac normalizer g e"
  let ?i = "issuance_digest hmac g d ActionCrossrefDiscovery"
  have "gu_issued ?g ?i = Some x"
  proof (rule step_issued)
    fix d'
    assume "?i = issuance_digest hmac g d' ActionCrossrefDiscovery"
    then show "\<not> binds hmac normalizer d' g e"
      using issued_blocks [of g hmac d' x e normalizer] Cons.prems by simp
  qed (use Cons.prems in auto)
  then have "gu_issued ?g (issuance_digest hmac ?g d ActionCrossrefDiscovery) = Some x"
    by (simp only: issuance_static [OF sf_step_ok(2)])
  then show ?case
    using Cons.IH [of ?g] Cons.prems issued_blocks [OF Cons.prems(1), of e normalizer] by simp
qed simp

section \<open>Properties\<close>

lemma new_guard_Inr:
  "new_guard hmac key policy max_ttl issuance_ttl random = Inr g \<longleftrightarrow>
     length key = 32 \<and> policy = PolicyPCCMPhase1 \<and> 0 < max_ttl \<and> max_ttl \<le> minute
     \<and> 0 < issuance_ttl \<and> issuance_ttl \<le> minute \<and> (\<exists>issuer. random = Some issuer
     \<and> g = \<lparr>gu_key = key, gu_issuer = issuer, gu_policy = policy,
             gu_policy_digest = hmac key (''policy'' @ [CHR 0x00] @ be_bytes 1 policy),
             gu_max_ttl = max_ttl, gu_issuance_ttl = issuance_ttl,
             gu_issued = Map.empty, gu_grants = Map.empty, gu_leases = Map.empty\<rparr>)"
  by (auto simp: new_guard_def split: option.split)

lemma new_guard_ok: "new_guard hmac key policy max_ttl issuance_ttl random = Inr g \<Longrightarrow> guard_ok g"
  by (auto simp: new_guard_Inr guard_ok_def outstanding_def max_outstanding_def)

text \<open>
  C2. Capabilities are one-shot. In any run of a guard, however its calls are ordered and whatever
  they present, a lease's nonce is spent (consumed, or handed to the wrapped verifier) at most as
  often as a lease with that nonce was minted, and a grant's nonce is turned into a lease at most
  as often as a grant with it was bound; nothing is spent that was never handed out.
\<close>

theorem capabilities_one_shot:
  assumes "new_guard hmac key policy max_ttl issuance_ttl random = Inr g"
  shows "run_count (sf_step hmac normalizer) (\<lambda>g e. \<exists>l. spends hmac normalizer g e = Some l \<and> le_nonce l = n) g es
      \<le> run_count (sf_step hmac normalizer) (\<lambda>g e. \<exists>l. minted hmac g e = Some l \<and> le_nonce l = n) g es
    \<and> run_count (sf_step hmac normalizer) (redeems hmac n) g es
      \<le> run_count (sf_step hmac normalizer) (\<lambda>g e. \<exists>r. granted hmac normalizer g e = Some r \<and> gr_nonce r = n) g es"
proof -
  have "gu_leases g n = None" "gu_grants g n = None" using assms by (auto simp: new_guard_Inr)
  then show ?thesis
    using leases.uses_bounded [OF new_guard_ok [OF assms], of hmac normalizer n es]
      grants.uses_bounded [OF new_guard_ok [OF assms], of hmac normalizer n es] by simp
qed

text \<open>A run used by the witnesses: a bind, a mint, and the lease consumed.\<close>

definition zero_hmac :: "string \<Rightarrow> string \<Rightarrow> digest" where
  "zero_hmac k x = 0"

definition sample_guard :: guard where
  "sample_guard = \<lparr>gu_key = replicate 32 CHR ''k'', gu_issuer = 7, gu_policy = PolicyPCCMPhase1,
     gu_policy_digest = 0, gu_max_ttl = minute, gu_issuance_ttl = minute,
     gu_issued = Map.empty, gu_grants = Map.empty, gu_leases = Map.empty\<rparr>"

definition sample_scope :: scope where
  "sample_scope = \<lparr>sc_uid = ''u'', sc_session = ''s'', sc_request = ''r''\<rparr>"

definition sample_query :: query where
  "sample_query = \<lparr>q_kind = QueryDOI, q_doi = ''10.1/x'', q_topic = [], q_from = 0, q_until = 0, q_limit = 1\<rparr>"

definition sample_proposal :: proposal where
  "sample_proposal = \<lparr>pr_action = 1, pr_args = 0, pr_sources = 17\<rparr>"

definition sample_grant :: grant where
  "sample_grant = new_grant zero_hmac sample_guard sample_scope 0 (5 * second) unix_epoch 1"

definition sf_sample_lease :: sf_lease where
  "sf_sample_lease = new_lease zero_hmac sample_guard sample_scope sample_proposal 1 (second + 1) 2"

definition sample_bind :: sf_call where
  "sample_bind = Bind sample_scope sample_query (5 * second) unix_epoch (Some 1)"

definition sample_mint :: sf_call where
  "sample_mint = Mint sample_grant sample_scope sample_proposal second (unix_epoch + 1) (Some 2)"

definition sample_consume :: sf_call where
  "sample_consume = Consume sf_sample_lease sample_scope sample_proposal (unix_epoch + 2)"

definition bound_guard :: guard where
  "bound_guard = sample_guard\<lparr>gu_issued := [0 \<mapsto> minute], gu_grants := [1 \<mapsto> 5 * second]\<rparr>"

definition minted_guard :: guard where
  "minted_guard = sample_guard\<lparr>gu_issued := [0 \<mapsto> minute], gu_leases := [2 \<mapsto> second + 1]\<rparr>"

lemma sample_guard_new:
  "new_guard zero_hmac (replicate 32 CHR ''k'') PolicyPCCMPhase1 minute minute (Some 7) = Inr sample_guard"
  by (simp add: new_guard_Inr sample_guard_def zero_hmac_def)

lemma zero_digests [simp]:
  "scope_digest zero_hmac g sc = 0" "issuance_digest zero_hmac g d a = 0"
  "sign_grant zero_hmac g r = 0" "sign_lease zero_hmac g l = 0"
  by (simp_all add: scope_digest_def issuance_digest_def sign_grant_def sign_lease_def keyed_digest_def zero_hmac_def)

lemma sample_valid:
  "valid_scope sample_scope" "\<not> proposal_refused sample_scope sample_proposal"
  "query_digest zero_hmac Some g sample_query = Some 0"
proof -
  show v: "valid_scope sample_scope" by code_simp
  show "query_digest zero_hmac Some g sample_query = Some 0"
    by (simp add: query_digest_def query_canonical_def sample_query_def keyed_digest_def zero_hmac_def)
  show "\<not> proposal_refused sample_scope sample_proposal"
    using v by (simp add: proposal_refused_def sample_proposal_def has_source_def const_simps)
qed

lemma sample_nanos [simp]: "unix_nano unix_epoch = 0"
  "unix_nano (unix_epoch + numeral k) = wrap64 (numeral k)" "unix_nano (unix_epoch + 1) = 1"
  by (simp_all add: unix_nano_def wrap64_def)

lemma sample_bind_step:
  "granted zero_hmac Some sample_guard sample_bind = Some sample_grant"
  "sf_step zero_hmac Some sample_guard sample_bind = bound_guard"
  using sample_valid
  by (simp_all add: sample_bind_def bind_crossref_def Let_def valid_ttl_def outstanding_def cleanup_tables
      sample_grant_def new_grant_simps max_outstanding_def bound_guard_def)
    (simp_all add: sample_guard_def cleanup_def wrap64_def)

lemma sample_mint_step:
  "minted zero_hmac bound_guard sample_mint = Some sf_sample_lease"
  "sf_step zero_hmac Some bound_guard sample_mint = minted_guard"
proof -
  have "grant_fault zero_hmac bound_guard sample_grant sample_scope sample_proposal 1 = None"
    by (simp add: grant_fault_None sample_grant_def new_grant_def bound_guard_def sample_proposal_def
        sample_guard_def wrap64_def)
  moreover have "cleanup 1 bound_guard = bound_guard"
    by (simp add: cleanup_def bound_guard_def sample_guard_def)
  moreover have "valid_ttl bound_guard second"
    by (simp add: valid_ttl_def bound_guard_def sample_guard_def)
  moreover have "unix_nano (unix_epoch + 1 + second) = second + 1"
    by (simp add: unix_nano_def wrap64_def)
  ultimately have "mint_crossref zero_hmac sample_grant sample_scope sample_proposal second (unix_epoch + 1) (Some 2) bound_guard
      = issue_lease zero_hmac sample_scope sample_proposal 1 (second + 1) (Some 2)
          (new_event bound_guard ActionCrossrefDiscovery DecisionDeny ReasonInvalidAuthority (pr_sources sample_proposal))
          (bound_guard\<lparr>gu_grants := (gu_grants bound_guard)(1 := None)\<rparr>)"
    using sample_valid
    by (simp add: mint_crossref_def Let_def sample_grant_def new_grant_simps)
      (simp add: bound_guard_def wrap64_def)
  then show "minted zero_hmac bound_guard sample_mint = Some sf_sample_lease"
      "sf_step zero_hmac Some bound_guard sample_mint = minted_guard"
    by (simp_all add: sample_mint_def issue_lease_def bound_guard_def minted_guard_def outstanding_def
        max_outstanding_def sf_sample_lease_def new_lease_def sample_guard_def Let_def)
qed

lemma sample_consume_step:
  "spends zero_hmac Some minted_guard sample_consume = Some sf_sample_lease"
proof -
  have "lease_fault zero_hmac minted_guard sf_sample_lease sample_scope sample_proposal 2 = None"
    by (simp add: lease_fault_None sf_sample_lease_def new_lease_def minted_guard_def sample_guard_def)
  moreover have "cleanup 2 minted_guard = minted_guard"
    by (simp add: cleanup_def minted_guard_def sample_guard_def)
  ultimately show ?thesis
    using sample_valid
    by (simp add: sample_consume_def consume_crossref_def Let_def wrap64_def)
      (simp add: minted_guard_def sf_sample_lease_def)
qed

lemma capabilities_one_shot_witness:
  "run_count (sf_step zero_hmac Some) (\<lambda>g e. \<exists>l. spends zero_hmac Some g e = Some l \<and> le_nonce l = 2) sample_guard
      [sample_bind, sample_mint, sample_consume, sample_consume] = 1"
proof -
  have kinds: "spends zero_hmac Some g sample_bind = None" "spends zero_hmac Some g sample_mint = None"
      "minted zero_hmac g sample_bind = None" "minted zero_hmac g sample_consume = None" for g
    by (simp_all add: sample_bind_def sample_mint_def sample_consume_def)
  have "le_nonce sf_sample_lease = 2" by (simp add: sf_sample_lease_def)
  then show ?thesis
    using capabilities_one_shot [OF sample_guard_new, of Some 2 "[sample_bind, sample_mint, sample_consume, sample_consume]"]
    by (simp add: sample_bind_step sample_mint_step sample_consume_step kinds)
qed

text \<open>
  C1. A lease that is spent carries the authority of a request. Where nothing presented with a
  valid signature is forged, the run holds a bind, later a mint and then the spending: the bind
  was for this query digest and this scope (or the keyed hash collides on the two scopes' texts),
  the proposal at the mint names model output and declared intentional audio and no ambient speech,
  and the times nest: bound, minted, spent before the lease ends, the lease before the grant.
\<close>

theorem spent_lease_authorised:
  assumes "new_guard hmac key policy max_ttl issuance_ttl random = Inr g0"
    and "honest hmac normalizer g0 (es @ [e])"
    and "spends hmac normalizer (foldl (sf_step hmac normalizer) g0 es) e = Some l"
    and "presented e = Some (l, sc, p, now)"
  shows "\<exists>es0 sc0 q ttl0 now0 n0 es1 r sc1 p1 ttl1 now1 n1 es2.
    es = es0 @ Bind sc0 q ttl0 now0 n0 # es1 @ Mint r sc1 p1 ttl1 now1 n1 # es2
    \<and> query_digest hmac normalizer g0 q = Some (pr_args p)
    \<and> (sc0 = sc \<or> scope_canonical sc0 \<noteq> scope_canonical sc \<and> scope_digest hmac g0 sc0 = scope_digest hmac g0 sc)
    \<and> pr_sources p1 = pr_sources p \<and> has_source (pr_sources p) SourceModelOutput
    \<and> has_source (pr_sources p) SourceDeclaredIntentionalAudio \<and> \<not> has_source (pr_sources p) SourceAmbientSpeech
    \<and> 0 < ttl0 \<and> ttl0 \<le> max_ttl \<and> unix_nano now0 \<le> unix_nano now1 \<and> unix_nano now1 \<le> unix_nano now
    \<and> unix_nano now < unix_nano (now1 + ttl1) \<and> unix_nano (now1 + ttl1) \<le> unix_nano (now0 + ttl0)"
proof -
  let ?g = "foldl (sf_step hmac normalizer) g0 es"
  obtain sc' p' now' where c: "presented e = Some (l, sc', p', now')" "fst (fst (consume_crossref hmac l sc' p' now' ?g))"
    using assms(3) by (rule spends_Some)
  then have eq: "sc' = sc" "p' = p" "now' = now" using assms(4) by auto
  note ok = consumed [OF c(2) [unfolded eq]]
  have sig: "le_signature l = sign_lease hmac ?g l" using ok(2) by (simp add: lease_fault_None)
  have "unforged hmac ?g (grants_of hmac normalizer g0 es) (leases_of hmac normalizer g0 es) e"
    using assms(2) unfolding honest_def by auto
  then have mem: "l \<in> leases_of hmac normalizer g0 es"
    using sig assms(4) by (cases e) auto
  have hon: "honest hmac normalizer g0 es"
    using assms(2) unfolding honest_def by auto
  obtain es0 sc0 q ttl0 now0 n0 es1 r sc1 p1 ttl1 now1 n1 es2 where *:
    "es = es0 @ Bind sc0 q ttl0 now0 n0 # es1 @ Mint r sc1 p1 ttl1 now1 n1 # es2"
    "valid_scope sc0" "valid_ttl g0 ttl0" "query_digest hmac normalizer g0 q = Some (le_args l)"
    "scope_digest hmac g0 sc0 = le_scope l" "\<not> proposal_refused sc1 p1" "pr_sources p1 = le_sources l"
    "unix_nano now0 \<le> unix_nano now1" "le_issued_at l = unix_nano now1"
    "le_expires_at l = unix_nano (now1 + ttl1)" "unix_nano (now1 + ttl1) \<le> unix_nano (now0 + ttl0)"
    using hon mem by (rule minted_chain)
  have scope: "scope_digest hmac g0 sc0 = scope_digest hmac g0 sc"
    using *(5) ok(2) same_config_digests(1) [OF run_config [of g0 hmac normalizer es], of hmac] by (simp add: lease_fault_None)
  have "sc0 = sc \<or> scope_canonical sc0 \<noteq> scope_canonical sc"
    using scope_canonical_eq [of sc0 sc] *(2) ok(1) by (auto simp: proposal_refused_def)
  moreover have "0 < ttl0" "ttl0 \<le> max_ttl"
    using *(3) assms(1) by (auto simp: valid_ttl_def new_guard_Inr)
  ultimately show ?thesis
    using *(1,4,7-11) scope ok
    by (intro exI [of _ es0] exI [of _ sc0] exI [of _ q] exI [of _ ttl0] exI [of _ now0] exI [of _ n0]
        exI [of _ es1] exI [of _ r] exI [of _ sc1] exI [of _ p1] exI [of _ ttl1] exI [of _ now1]
        exI [of _ n1] exI [of _ es2]) (simp add: lease_fault_None proposal_refused_def)
qed

lemma sample_honest: "honest zero_hmac Some sample_guard [sample_bind, sample_mint, sample_consume]"
proof -
  have "sample_grant \<in> grants_of zero_hmac Some sample_guard [sample_bind]"
    using grants_ofI [of zero_hmac Some sample_guard "[]" sample_bind sample_grant "[]"] sample_bind_step by simp
  moreover have "sf_sample_lease \<in> leases_of zero_hmac Some sample_guard [sample_bind, sample_mint]"
    using leases_ofI [of zero_hmac Some sample_guard "[sample_bind]" sample_mint sf_sample_lease "[]"]
      sample_mint_step sample_bind_step by simp
  ultimately show ?thesis
    by (auto simp: honest_def Cons_eq_append_conv sample_mint_def sample_consume_def sample_bind_def)
qed

lemma spent_lease_authorised_witness:
  "\<exists>es0 sc0 q ttl0 now0 n0 es1 r sc1 p1 ttl1 now1 n1 es2.
     [sample_bind, sample_mint] = es0 @ Bind sc0 q ttl0 now0 n0 # es1 @ Mint r sc1 p1 ttl1 now1 n1 # es2
     \<and> query_digest zero_hmac Some sample_guard q = Some (pr_args sample_proposal)
     \<and> pr_sources p1 = pr_sources sample_proposal"
proof -
  have run: "foldl (sf_step zero_hmac Some) sample_guard [sample_bind, sample_mint] = minted_guard"
    by (simp add: sample_bind_step sample_mint_step)
  have "honest zero_hmac Some sample_guard ([sample_bind, sample_mint] @ [sample_consume])"
    using sample_honest by simp
  moreover have "spends zero_hmac Some (foldl (sf_step zero_hmac Some) sample_guard [sample_bind, sample_mint])
      sample_consume = Some sf_sample_lease"
    unfolding run by (rule sample_consume_step)
  moreover have "presented sample_consume = Some (sf_sample_lease, sample_scope, sample_proposal, unix_epoch + 2)"
    by (simp add: sample_consume_def)
  ultimately show ?thesis
    by (rule spent_lease_authorised [OF sample_guard_new, elim_format]) (elim exE conjE, intro exI conjI; assumption)
qed

text \<open>
  A request gets one grant. After a bind has succeeded for a scope at some time, no bind for
  the same scope succeeds in any run of calls whose clock has not reached the end of the issuance
  window, whatever happens to the grant and its lease in between.
\<close>

theorem one_grant_per_request:
  assumes "granted hmac normalizer g (Bind sc q ttl now random) \<noteq> None"
    and "\<forall>e \<in> set es. unix_nano (call_time e) < unix_nano (now + gu_issuance_ttl g)"
  shows "run_count (sf_step hmac normalizer) (binds hmac normalizer (scope_digest hmac g sc))
    (sf_step hmac normalizer g (Bind sc q ttl now random)) es = 0"
proof -
  let ?g = "sf_step hmac normalizer g (Bind sc q ttl now random)"
  have "gu_issued ?g (issuance_digest hmac g (scope_digest hmac g sc) ActionCrossrefDiscovery)
      = Some (unix_nano (now + gu_issuance_ttl g))"
    using assms(1) by (cases rule: bind_cases [of hmac normalizer sc q ttl now random g]) auto
  then show ?thesis
    using issued_blocks_run [OF _ assms(2), of ?g hmac "scope_digest hmac g sc" normalizer]
      issuance_static [OF sf_step_ok(2), of hmac hmac normalizer g "Bind sc q ttl now random"] by simp
qed

lemma one_grant_per_request_witness:
  "run_count (sf_step zero_hmac Some) (binds zero_hmac Some 0) bound_guard [sample_mint, sample_bind, sample_consume] = 0"
proof -
  have "granted zero_hmac Some sample_guard (Bind sample_scope sample_query (5 * second) unix_epoch (Some 1)) \<noteq> None"
    using sample_bind_step(1) unfolding sample_bind_def by simp
  moreover have "\<forall>e \<in> set [sample_mint, sample_bind, sample_consume].
      unix_nano (call_time e) < unix_nano (unix_epoch + gu_issuance_ttl sample_guard)"
    by (simp add: sample_mint_def sample_bind_def sample_consume_def sample_guard_def wrap64_def)
  ultimately have "run_count (sf_step zero_hmac Some) (binds zero_hmac Some (scope_digest zero_hmac sample_guard sample_scope))
      (sf_step zero_hmac Some sample_guard sample_bind) [sample_mint, sample_bind, sample_consume] = 0"
    unfolding sample_bind_def by (rule one_grant_per_request)
  then show ?thesis by (simp only: sample_bind_step(2) zero_digests)
qed

text \<open>
  The guard's tables are bounded: along any run it never holds more than 4096 records of
  requests, grants and leases together, and its key, issuer and policy never change.
\<close>

theorem records_bounded:
  assumes "new_guard hmac key policy max_ttl issuance_ttl random = Inr g"
  shows "outstanding (foldl (sf_step hmac normalizer) g es) \<le> 4096
    \<and> same_config g (foldl (sf_step hmac normalizer) g es)"
  using leases.inv_run [OF new_guard_ok [OF assms], of hmac normalizer es] run_config
  by (simp add: guard_ok_def max_outstanding_def)

lemma records_bounded_witness:
  "outstanding (foldl (sf_step zero_hmac Some) sample_guard [sample_bind, sample_mint, sample_consume]) \<le> 4096"
  using records_bounded [OF sample_guard_new] by blast

text \<open>
  C4. The executor makes an external call only with authority, at most one, and only for the query
  it normalised: when it calls, the query's own digest is the proposal's and the lease's, the lease
  passed every check and was live, and it is spent. When the query or the proposal does not match,
  it denies and leaves the guard, the lease included, as it was.
\<close>

theorem executor_calls_with_authority:
  "case executor_verify hmac normalizer verifier l sc p q now g of ((res, ev, calls), g') \<Rightarrow>
     (calls = [] \<and> res = Inl ErrDenied
      \<or> (\<exists>n. calls = [n] \<and> res = call_verifier verifier n \<and> normalizer q = Some n
           \<and> query_digest hmac normalizer g n = Some (le_args l) \<and> le_args l = pr_args p
           \<and> lease_fault hmac g l sc p (unix_nano now) = None
           \<and> gu_leases g (le_nonce l) \<noteq> None \<and> gu_leases g' (le_nonce l) = None))
     \<and> (g' = g \<or> (\<exists>n. normalizer q = Some n \<and> query_digest hmac normalizer g n = Some (pr_args p)))"
proof -
  obtain res ev calls g' where e: "executor_verify hmac normalizer verifier l sc p q now g = ((res, ev, calls), g')"
    by (metis surj_pair)
  show ?thesis
  proof (cases rule: verify_cases [of hmac normalizer verifier l sc p q now g])
    case denied
    then have "res = Inl ErrDenied"
      using e by (auto simp: executor_verify_def Let_def split: option.splits if_splits prod.splits bool.splits)
    then show ?thesis using denied e by simp
  next
    case (called n)
    show ?thesis
    proof (cases rule: consume_cases [of hmac l sc p now g])
      case denied
      then have "res = Inl ErrDenied"
        using e called by (auto simp: executor_verify_def Let_def split: option.splits if_splits prod.splits bool.splits)
      then show ?thesis using called denied e by auto
    next
      case allowed
      then show ?thesis
        using called e cleanup_live(1) [of "unix_nano now" g "le_nonce l"] by (simp add: lease_fault_None)
    qed
  qed
qed

text \<open>
  What is signed and digested determines what was meant: two valid scopes have the same
  canonical text only if they are the same scope, two leases the same signed envelope only if they
  agree in everything but the signature, and likewise two grants.
\<close>

theorem canonical_texts_injective:
  assumes "valid_scope a" "valid_scope b"
    and "list_all in_i64 [le_issued_at l, le_expires_at l, le_issued_at l', le_expires_at l']"
    and "list_all in_i64 [gr_issued_at r, gr_expires_at r, gr_issued_at r', gr_expires_at r']"
  shows "(scope_canonical a = scope_canonical b \<longleftrightarrow> a = b)
    \<and> (lease_envelope l = lease_envelope l' \<longleftrightarrow> l\<lparr>le_signature := 0\<rparr> = l'\<lparr>le_signature := 0\<rparr>)
    \<and> (grant_envelope r = grant_envelope r' \<longleftrightarrow> r\<lparr>gr_signature := 0\<rparr> = r'\<lparr>gr_signature := 0\<rparr>)"
  using assms scope_canonical_eq lease_envelope_eq grant_envelope_eq by simp

lemma canonical_texts_injective_witness:
  "scope_canonical sample_scope \<noteq> scope_canonical (sample_scope\<lparr>sc_uid := ''us''\<rparr>)
   \<and> lease_envelope sf_sample_lease \<noteq> lease_envelope (sf_sample_lease\<lparr>le_uses := 2\<rparr>)"
proof -
  have "valid_scope (sample_scope\<lparr>sc_uid := ''us''\<rparr>)" by code_simp
  moreover have "list_all in_i64 [le_issued_at sf_sample_lease, le_expires_at sf_sample_lease,
      le_issued_at (sf_sample_lease\<lparr>le_uses := 2\<rparr>), le_expires_at (sf_sample_lease\<lparr>le_uses := 2\<rparr>)]"
    by (simp add: sf_sample_lease_def in_i64_def)
  moreover have "list_all in_i64 [gr_issued_at sample_grant, gr_expires_at sample_grant,
      gr_issued_at sample_grant, gr_expires_at sample_grant]"
    by (simp add: sample_grant_def new_grant_simps unix_nano_def in_i64_wrap64)
  ultimately have "(scope_canonical sample_scope = scope_canonical (sample_scope\<lparr>sc_uid := ''us''\<rparr>)
        \<longleftrightarrow> sample_scope = sample_scope\<lparr>sc_uid := ''us''\<rparr>)
      \<and> (lease_envelope sf_sample_lease = lease_envelope (sf_sample_lease\<lparr>le_uses := 2\<rparr>) \<longleftrightarrow>
          sf_sample_lease\<lparr>le_signature := 0\<rparr> = (sf_sample_lease\<lparr>le_uses := 2\<rparr>)\<lparr>le_signature := 0\<rparr>)"
    using canonical_texts_injective [OF sample_valid(1)] by blast
  then show ?thesis by (simp add: sample_scope_def) (simp add: sf_sample_lease_def new_lease_def Let_def)
qed

end
