(* ===== verification/ShadowTrace.thy ===== *)
theory ShadowTrace
  imports Go_Text
begin

unbundle bit_operations_syntax

text \<open>
  The traces of the offline policy synthesizer (\<open>internal/securityflow/shadowcut\<close>: \<open>types.go\<close> and
  \<open>validate.go\<close>): finite security labels, the validation of one trace into a prepared trace, and
  the reachability questions asked of it under a cut.

  \<^item> The byte-sized enumerations are datatypes; a value outside the named range is the last
    constructor. Masks and identifiers are words of the width of the source.
  \<^item> The prepared arrays \<open>incoming\<close>, \<open>outgoing\<close> and \<open>sink\<close> are lists indexed by node position. A
    Go map read of a missing key gives 0, which is what \<open>idx\<close> does.
  \<^item> The breadth-first search, the depth-first search and the chain walk of the source are three
    functions here. On prepared traces they agree, and they decide the relation \<open>effective\<close>, which
    speaks of edges only.
\<close>

section \<open>Labels\<close>

type_synonym node_id = "16 word"
type_synonym authority_set = "16 word"
type_synonym binding_ref = "16 word"
type_synonym control_mask = "16 word"

datatype node_kind = NodeAuthenticatedIntent | NodeAmbient | NodePDF | NodeWeb | NodeModel | NodeTool
  | NodeMemory | NodeGrant | NodeSink | NodeKindOther "8 word"

datatype edge_kind = EdgeQuote | EdgeRecall | EdgePropose | EdgeIssueGrant | EdgeConsume | EdgeToolCall
  | EdgeToolResult | EdgeExecute | EdgeRespond | EdgeKindOther "8 word"

datatype integrity = IntegrityUntrusted | IntegrityAuthenticated | IntegritySystem | IntegrityOther "8 word"

datatype binding_kind = BindingNone | BindingScopeOnly | BindingExactScopeActionArgs | BindingOther "8 word"

datatype trace_class = TraceAttack | TraceBenign | TraceClassOther "8 word"

datatype sc_control = ControlEvidenceIngress | ControlPlannerBoundary | ControlMemoryBoundary
  | ControlGrantBoundary | ControlToolBoundary | ControlExecutionBoundary | ControlSpeechBoundary
  | ControlExternalEgress | ControlOther "8 word"

text \<open>The numbers of the constants.\<close>

fun integrity_rank :: "integrity \<Rightarrow> 8 word" where
  "integrity_rank IntegrityUntrusted = 1"
| "integrity_rank IntegrityAuthenticated = 2"
| "integrity_rank IntegritySystem = 3"
| "integrity_rank (IntegrityOther b) = b"

fun control_number :: "sc_control \<Rightarrow> nat option" where
  "control_number ControlEvidenceIngress = Some 1"
| "control_number ControlPlannerBoundary = Some 2"
| "control_number ControlMemoryBoundary = Some 3"
| "control_number ControlGrantBoundary = Some 4"
| "control_number ControlToolBoundary = Some 5"
| "control_number ControlExecutionBoundary = Some 6"
| "control_number ControlSpeechBoundary = Some 7"
| "control_number ControlExternalEgress = Some 8"
| "control_number (ControlOther b) = None"

definition all_authorities :: authority_set where
  "all_authorities = 31"

definition known_control_mask :: control_mask where
  [const_simps]: "known_control_mask = 255"

record node =
  n_id :: node_id
  n_kind :: node_kind
  n_integrity :: integrity
  n_authority :: authority_set
  n_requires :: authority_set
  n_binding :: binding_kind
  n_bref :: binding_ref

record edge =
  e_from :: node_id
  e_to :: node_id
  e_kind :: edge_kind
  e_controls :: control_mask

record trace =
  t_class :: trace_class
  t_weight :: "32 word"
  t_nodes :: "node list"
  t_edges :: "edge list"
  t_sources :: "node_id list"
  t_sinks :: "node_id list"

datatype sc_error = ErrInvalidCorpus | ErrInvalidTrace | ErrInvalidCandidate | ErrInfeasible | ErrVerification

section \<open>Controls\<close>

fun control_mask_of :: "control_mask \<Rightarrow> sc_control list \<Rightarrow> (sc_error, control_mask) result" where
  "control_mask_of acc [] = Inr acc"
| "control_mask_of acc (c # cs) = (case control_number c of
     None \<Rightarrow> Inl ErrInvalidCandidate
   | Some n \<Rightarrow> control_mask_of (acc OR push_bit (n - 1) 1) cs)"

definition valid_control_mask :: "control_mask \<Rightarrow> bool" where
  "valid_control_mask m \<longleftrightarrow> m AND NOT known_control_mask = 0"

definition control_cost :: "control_mask \<Rightarrow> nat" where
  "control_cost cs = foldl (\<lambda>total (i, cost). if cs AND push_bit i 1 \<noteq> 0 then total + cost else total) 0
     (enumerate 0 [1, 3, 2, 4, 2, 5, 4, 5])"

section \<open>Validation of nodes and edges\<close>

definition valid_node :: "node \<Rightarrow> bool" where
  "valid_node n =
     (if (case n_integrity n of IntegrityOther _ \<Rightarrow> True | _ \<Rightarrow> False)
        \<or> (case n_binding n of BindingOther _ \<Rightarrow> True | _ \<Rightarrow> False)
        \<or> n_authority n AND NOT all_authorities \<noteq> 0 \<or> n_requires n AND NOT all_authorities \<noteq> 0
      then False
      else case n_kind n of
        NodeAuthenticatedIntent \<Rightarrow> n_integrity n = IntegrityAuthenticated \<and> n_authority n \<noteq> 0
          \<and> n_requires n = 0 \<and> n_binding n = BindingExactScopeActionArgs \<and> n_bref n \<noteq> 0
      | NodeGrant \<Rightarrow> n_integrity n = IntegritySystem \<and> n_authority n \<noteq> 0
          \<and> n_requires n = 0 \<and> n_binding n = BindingExactScopeActionArgs \<and> n_bref n \<noteq> 0
      | NodeSink \<Rightarrow>
          (if n_requires n = 0 then n_authority n = 0 \<and> n_binding n = BindingNone \<and> n_bref n = 0
           else n_authority n = n_requires n \<and> n_binding n = BindingExactScopeActionArgs \<and> n_bref n \<noteq> 0)
      | NodeKindOther _ \<Rightarrow> False
      | _ \<Rightarrow> n_integrity n = IntegrityUntrusted \<and> n_authority n = 0 \<and> n_requires n = 0
          \<and> n_binding n = BindingNone \<and> n_bref n = 0)"

fun valid_edge_kinds :: "node_kind \<Rightarrow> node_kind \<Rightarrow> edge_kind \<Rightarrow> bool" where
  "valid_edge_kinds f t EdgeQuote =
     ((f = NodeAmbient \<or> f = NodePDF \<or> f = NodeWeb) \<and> (t = NodeMemory \<or> t = NodeModel))"
| "valid_edge_kinds f t EdgeToolResult = (f = NodeTool \<and> t = NodeModel)"
| "valid_edge_kinds f t EdgeRecall = (f = NodeMemory \<and> t = NodeModel)"
| "valid_edge_kinds f t EdgePropose = (f = NodeModel \<and> t = NodeModel)"
| "valid_edge_kinds f t EdgeIssueGrant = (f = NodeAuthenticatedIntent \<and> t = NodeGrant)"
| "valid_edge_kinds f t EdgeConsume = (f = NodeGrant \<and> t = NodeSink)"
| "valid_edge_kinds f t EdgeToolCall = (f = NodeModel \<and> t = NodeTool)"
| "valid_edge_kinds f t EdgeExecute = (f = NodeTool \<and> t = NodeSink)"
| "valid_edge_kinds f t EdgeRespond = (f = NodeModel \<and> t = NodeSink)"
| "valid_edge_kinds f t (EdgeKindOther _) = False"

fun expected_control :: "edge_kind \<Rightarrow> sc_control option" where
  "expected_control EdgeQuote = Some ControlEvidenceIngress"
| "expected_control EdgeRecall = Some ControlMemoryBoundary"
| "expected_control EdgePropose = Some ControlPlannerBoundary"
| "expected_control EdgeIssueGrant = Some ControlGrantBoundary"
| "expected_control EdgeConsume = Some ControlExecutionBoundary"
| "expected_control EdgeToolCall = Some ControlToolBoundary"
| "expected_control EdgeExecute = Some ControlExternalEgress"
| "expected_control EdgeRespond = Some ControlSpeechBoundary"
| "expected_control EdgeToolResult = Some ControlToolBoundary"
| "expected_control (EdgeKindOther _) = None"

definition valid_edge_controls :: "edge \<Rightarrow> bool" where
  "valid_edge_controls e =
     (if \<not> valid_control_mask (e_controls e) then False
      else case Option.bind (expected_control (e_kind e)) control_number of
        None \<Rightarrow> False
      | Some n \<Rightarrow> e_controls e = 0 \<or> e_controls e = push_bit (n - 1) 1)"

section \<open>Preparing a trace\<close>

record prepared =
  p_trace :: trace
  p_index :: "node_id \<rightharpoonup> nat"
  p_incoming :: "nat list list"
  p_outgoing :: "nat list list"
  p_sink :: "bool list"

definition idx :: "prepared \<Rightarrow> node_id \<Rightarrow> nat" where
  "idx p v = (case p_index p v of None \<Rightarrow> 0 | Some i \<Rightarrow> i)"

abbreviation p_node :: "prepared \<Rightarrow> nat \<Rightarrow> node" where
  "p_node p i \<equiv> t_nodes (p_trace p) ! i"

abbreviation p_edge :: "prepared \<Rightarrow> nat \<Rightarrow> edge" where
  "p_edge p e \<equiv> t_edges (p_trace p) ! e"

fun index_nodes :: "node list \<Rightarrow> nat \<Rightarrow> (node_id \<rightharpoonup> nat) \<Rightarrow> (node_id \<rightharpoonup> nat) option" where
  "index_nodes [] i m = Some m"
| "index_nodes (n # ns) i m =
     (if m (n_id n) \<noteq> None \<or> \<not> valid_node n then None else index_nodes ns (Suc i) (m(n_id n \<mapsto> i)))"

fun link_edges :: "node list \<Rightarrow> (node_id \<rightharpoonup> nat) \<Rightarrow> edge list \<Rightarrow> nat \<Rightarrow> (node_id \<times> node_id \<times> edge_kind) set
    \<Rightarrow> nat list list \<Rightarrow> nat list list \<Rightarrow> (nat list list \<times> nat list list) option" where
  "link_edges ns m [] i seen inc out = Some (inc, out)"
| "link_edges ns m (e # es) i seen inc out =
     (case (m (e_from e), m (e_to e)) of
        (Some f, Some t) \<Rightarrow>
          (if e_from e = e_to e \<or> e_from e > e_to e
             \<or> (case e_kind e of EdgeKindOther _ \<Rightarrow> True | _ \<Rightarrow> False) \<or> \<not> valid_edge_controls e
             \<or> (e_from e, e_to e, e_kind e) \<in> seen
             \<or> \<not> valid_edge_kinds (n_kind (ns ! f)) (n_kind (ns ! t)) (e_kind e)
           then None
           else link_edges ns m es (Suc i) (insert (e_from e, e_to e, e_kind e) seen)
             (inc[t := inc ! t @ [i]]) (out[f := out ! f @ [i]]))
      | _ \<Rightarrow> None)"

fun check_sources :: "prepared \<Rightarrow> node_id set \<Rightarrow> node_id list \<Rightarrow> node_id set option" where
  "check_sources p seen [] = Some seen"
| "check_sources p seen (s # ss) = (case p_index p s of None \<Rightarrow> None | Some i \<Rightarrow>
     (if p_incoming p ! i \<noteq> [] \<or> s \<in> seen \<or> t_class (p_trace p) = TraceAttack \<and> n_authority (p_node p i) \<noteq> 0
      then None else check_sources p (insert s seen) ss))"

fun check_sinks :: "prepared \<Rightarrow> node_id set \<Rightarrow> node_id set \<Rightarrow> node_id list \<Rightarrow> bool list
    \<Rightarrow> (node_id set \<times> bool list) option" where
  "check_sinks p sources seen [] sk = Some (seen, sk)"
| "check_sinks p sources seen (s # ss) sk = (case p_index p s of None \<Rightarrow> None | Some i \<Rightarrow>
     (if n_kind (p_node p i) \<noteq> NodeSink \<or> p_outgoing p ! i \<noteq> [] \<or> s \<in> sources \<or> s \<in> seen
      then None else check_sinks p sources (insert s seen) ss (sk[i := True])))"

definition check_roots :: "prepared \<Rightarrow> node_id set \<Rightarrow> node_id set \<Rightarrow> bool" where
  "check_roots p sources sinks = list_all (\<lambda>i.
     let n = p_node p i in
     (n_kind n = NodeSink) = (n_id n \<in> sinks)
     \<and> (p_incoming p ! i \<noteq> [] \<or> n_id n \<in> sources
        \<or> t_class (p_trace p) = TraceAttack \<and> n_kind n = NodeAuthenticatedIntent))
     [0..<length (p_incoming p)]"

text \<open>\<open>validEndpoints\<close>: besides its verdict it marks the sinks.\<close>

definition valid_endpoints :: "prepared \<Rightarrow> prepared option" where
  "valid_endpoints p = (case check_sources p {} (t_sources (p_trace p)) of None \<Rightarrow> None | Some sources \<Rightarrow>
     (case check_sinks p sources {} (t_sinks (p_trace p)) (p_sink p) of None \<Rightarrow> None | Some (sinks, sk) \<Rightarrow>
       (if check_roots p sources sinks then Some (p\<lparr>p_sink := sk\<rparr>) else None)))"

definition valid_causal_shape :: "prepared \<Rightarrow> bool" where
  "valid_causal_shape p = list_all (\<lambda>i.
     if p_sink p ! i then p_incoming p ! i \<noteq> [] \<and> p_outgoing p ! i = []
     else length (p_incoming p ! i) \<le> 1 \<and> length (p_outgoing p ! i) = 1)
     [0..<length (t_nodes (p_trace p))]"

section \<open>Graph walks\<close>

text \<open>
  The inner loop of the searches: push the neighbours not yet seen, in order. A position beyond
  the array would be a run-time panic in Go; on prepared traces there is none.
\<close>

fun push_new :: "nat list \<Rightarrow> bool list \<Rightarrow> nat list \<Rightarrow> bool list \<times> nat list" where
  "push_new [] seen q = (seen, q)"
| "push_new (t # ts) seen q =
     (if t < length seen \<and> \<not> seen ! t then push_new ts (seen[t := True]) (q @ [t]) else push_new ts seen q)"

definition unseen :: "bool list \<Rightarrow> nat" where
  "unseen seen = sum_list (List.map (\<lambda>b. if b then 0 else 1) seen)"

lemma unseen_update: "t < length seen \<Longrightarrow> \<not> seen ! t \<Longrightarrow> Suc (unseen (seen[t := True])) = unseen seen"
proof -
  assume t: "t < length seen" "\<not> seen ! t"
  let ?f = "\<lambda>b. if b then 0 else 1 :: nat"
  have "1 \<le> sum_list (List.map ?f seen)"
    using t elem_le_sum_list [of t "List.map ?f seen"] by simp
  then show ?thesis using t by (simp add: unseen_def map_update sum_list_update)
qed

lemma push_new_unseen: "length (snd (push_new ts seen q)) + unseen (fst (push_new ts seen q)) = length q + unseen seen"
proof (induction ts seen q rule: push_new.induct)
  case (2 t ts seen q)
  then show ?case using unseen_update [of t seen] by (cases "t < length seen \<and> \<not> seen ! t") auto
qed simp

text \<open>\<open>allNodesReachSink\<close>'s loop: everything reachable from the queue is marked.\<close>

function flood :: "(nat \<Rightarrow> nat list) \<Rightarrow> bool list \<Rightarrow> nat list \<Rightarrow> bool list" where
  "flood next seen [] = seen"
| "flood next seen (i # q) = flood next (fst (push_new (next i) seen q)) (snd (push_new (next i) seen q))"
  by pat_completeness auto
termination
  by (relation "measure (\<lambda>(next, seen, q). length q + unseen seen)") (auto simp: push_new_unseen case_prod_beta)

text \<open>Kahn's algorithm: the degrees may go negative in Go's \<open>int\<close>, so they are \<open>int\<close> here.\<close>

fun lower_degrees :: "nat list \<Rightarrow> int list \<Rightarrow> nat list \<Rightarrow> int list \<times> nat list" where
  "lower_degrees [] d q = (d, q)"
| "lower_degrees (t # ts) d q =
     lower_degrees ts (d[t := d ! t - 1]) (if t < length d \<and> d ! t - 1 = 0 then q @ [t] else q)"

definition positive_part :: "int list \<Rightarrow> nat" where
  "positive_part d = sum_list (List.map nat d)"

lemma positive_part_update:
  assumes "t < length d"
  shows "positive_part (d[t := d ! t - 1]) + (if d ! t - 1 = 0 then 1 else 0) \<le> positive_part d"
proof -
  have "nat (d ! t) \<le> sum_list (List.map nat d)"
    using assms elem_le_sum_list [of t "List.map nat d"] by simp
  then show ?thesis using assms by (auto simp: positive_part_def map_update sum_list_update)
qed

lemma lower_degrees_measure:
  "length (snd (lower_degrees ts d q)) + positive_part (fst (lower_degrees ts d q)) \<le> length q + positive_part d"
proof (induction ts d q rule: lower_degrees.induct)
  case (2 t ts d q)
  then show ?case
    using positive_part_update [of t d] by (cases "t < length d") (auto simp: not_less list_update_beyond split: if_splits)
qed simp

function kahn :: "(nat \<Rightarrow> nat list) \<Rightarrow> int list \<Rightarrow> nat list \<Rightarrow> nat \<Rightarrow> nat" where
  "kahn next d [] visited = visited"
| "kahn next d (i # q) visited =
     kahn next (fst (lower_degrees (next i) d q)) (snd (lower_degrees (next i) d q)) (visited + 1)"
  by pat_completeness auto
termination
proof (relation "measure (\<lambda>(next, d, q, visited). length q + positive_part d)")
  fix "next" :: "nat \<Rightarrow> nat list" and d i q and visited :: nat
  show "((next, fst (lower_degrees (next i) d q), snd (lower_degrees (next i) d q), visited + 1), next, d, i # q, visited)
      \<in> measure (\<lambda>(next, d, q, visited). length q + positive_part d)"
    using lower_degrees_measure [of "next i" d q] by simp
qed simp

definition successors :: "prepared \<Rightarrow> control_mask \<Rightarrow> nat \<Rightarrow> nat list" where
  "successors p cm i = List.map (\<lambda>e. idx p (e_to (p_edge p e)))
     (filter (\<lambda>e. e_controls (p_edge p e) AND cm = 0) (p_outgoing p ! i))"

definition predecessors :: "prepared \<Rightarrow> nat \<Rightarrow> nat list" where
  "predecessors p i = List.map (\<lambda>e. idx p (e_from (p_edge p e))) (p_incoming p ! i)"

definition acyclic_trace :: "prepared \<Rightarrow> bool" where
  "acyclic_trace p =
     (let d = List.map (\<lambda>es. int (length es)) (p_incoming p);
          q = filter (\<lambda>i. d ! i = 0) [0..<length d] in
      kahn (\<lambda>i. List.map (\<lambda>e. idx p (e_to (p_edge p e))) (p_outgoing p ! i)) d q 0 = length (t_nodes (p_trace p)))"

definition all_nodes_reach_sink :: "prepared \<Rightarrow> bool" where
  "all_nodes_reach_sink p =
     list_all (\<lambda>b. b) (flood (predecessors p) (p_sink p) (filter (\<lambda>i. p_sink p ! i) [0..<length (p_sink p)]))"

text \<open>
  \<open>sinkExecutable\<close>. The inner loop over a grant's incoming edges returns at the first issue edge
  and otherwise falls through to the next consume edge.
\<close>

fun issue_uncut :: "prepared \<Rightarrow> control_mask \<Rightarrow> nat list \<Rightarrow> bool option" where
  "issue_uncut p cm [] = None"
| "issue_uncut p cm (e # es) =
     (if e_kind (p_edge p e) = EdgeIssueGrant then Some (e_controls (p_edge p e) AND cm = 0)
      else issue_uncut p cm es)"

fun consume_uncut :: "prepared \<Rightarrow> control_mask \<Rightarrow> nat list \<Rightarrow> bool" where
  "consume_uncut p cm [] = False"
| "consume_uncut p cm (e # es) =
     (if e_kind (p_edge p e) \<noteq> EdgeConsume then consume_uncut p cm es
      else if e_controls (p_edge p e) AND cm \<noteq> 0 then False
      else case issue_uncut p cm (p_incoming p ! idx p (e_from (p_edge p e))) of
        Some b \<Rightarrow> b | None \<Rightarrow> consume_uncut p cm es)"

definition sink_executable :: "prepared \<Rightarrow> nat \<Rightarrow> control_mask \<Rightarrow> bool" where
  "sink_executable p k cm = (n_requires (p_node p k) = 0 \<or> consume_uncut p cm (p_incoming p ! k))"

function bfs :: "prepared \<Rightarrow> control_mask \<Rightarrow> bool list \<Rightarrow> nat list \<Rightarrow> bool" where
  "bfs p cm seen [] = False"
| "bfs p cm seen (i # q) =
     (if p_sink p ! i then sink_executable p i cm
      else bfs p cm (fst (push_new (successors p cm i) seen q)) (snd (push_new (successors p cm i) seen q)))"
  by pat_completeness auto
termination
  by (relation "measure (\<lambda>(p, cm, seen, q). length q + unseen seen)") (auto simp: push_new_unseen case_prod_beta)

definition source_reaches_sink :: "prepared \<Rightarrow> nat \<Rightarrow> control_mask \<Rightarrow> bool" where
  "source_reaches_sink p i cm = bfs p cm ((replicate (length (t_nodes (p_trace p))) False)[i := True]) [i]"

definition all_sources_reach_sink :: "prepared \<Rightarrow> control_mask \<Rightarrow> bool" where
  "all_sources_reach_sink p cm = list_all (\<lambda>s. source_reaches_sink p (idx p s) cm) (t_sources (p_trace p))"

section \<open>Authority\<close>

definition grant_flow_ok :: "prepared \<Rightarrow> nat \<Rightarrow> bool" where
  "grant_flow_ok p i =
     (let n = p_node p i; inc = p_incoming p ! i; out = p_outgoing p ! i in
      if length inc \<noteq> 1 \<or> length out \<noteq> 1 then False
      else (let e = p_edge p (inc ! 0); f = p_node p (idx p (e_from e)); c = p_edge p (out ! 0) in
        e_kind e = EdgeIssueGrant \<and> n_kind f = NodeAuthenticatedIntent
        \<and> n_binding f = BindingExactScopeActionArgs \<and> n_authority n = n_authority f
        \<and> n_bref n = n_bref f \<and> e_kind c = EdgeConsume))"

definition inherited_authority :: "prepared \<Rightarrow> nat list \<Rightarrow> authority_set" where
  "inherited_authority p inc = foldl (\<lambda>a e. a OR n_authority (p_node p (idx p (e_from (p_edge p e))))) 0 inc"

definition minimum_integrity :: "prepared \<Rightarrow> nat list \<Rightarrow> 8 word" where
  "minimum_integrity p inc = foldl (\<lambda>m e. min m (integrity_rank (n_integrity (p_node p (idx p (e_from (p_edge p e)))))))
     (integrity_rank IntegritySystem) inc"

definition sink_flow_ok :: "prepared \<Rightarrow> nat \<Rightarrow> bool" where
  "sink_flow_ok p i =
     (let n = p_node p i; consumes = filter (\<lambda>e. e_kind (p_edge p e) = EdgeConsume) (p_incoming p ! i) in
      if n_requires n \<noteq> 0 then
        list_all (\<lambda>e. let g = p_node p (idx p (e_from (p_edge p e))) in
          n_kind g = NodeGrant \<and> n_binding g = BindingExactScopeActionArgs
          \<and> n_authority g = n_requires n \<and> n_bref g = n_bref n) consumes
        \<and> length consumes = 1
      else consumes = [])"

definition node_flow_ok :: "prepared \<Rightarrow> nat \<Rightarrow> bool" where
  "node_flow_ok p i =
     (let n = p_node p i; inc = p_incoming p ! i in
      if n_kind n = NodeAuthenticatedIntent \<and> inc \<noteq> [] then False
      else if n_kind n = NodeGrant then grant_flow_ok p i
      else if inc = [] then n_kind n = NodeAuthenticatedIntent \<or> n_authority n = 0
      else if n_authority n AND NOT (inherited_authority p inc) \<noteq> 0
        \<or> integrity_rank (n_integrity n) > minimum_integrity p inc then False
      else n_kind n = NodeSink \<longrightarrow> sink_flow_ok p i)"

definition valid_authority_flow :: "prepared \<Rightarrow> bool" where
  "valid_authority_flow p = list_all (node_flow_ok p) [0..<length (t_nodes (p_trace p))]"

section \<open>Validation of a trace\<close>

definition trace_bounds_ok :: "trace \<Rightarrow> bool" where
  "trace_bounds_ok t \<longleftrightarrow>
     \<not> ((case t_class t of TraceClassOther _ \<Rightarrow> True | _ \<Rightarrow> False) \<or> t_weight t = 0 \<or> t_weight t > 1000000
       \<or> length (t_nodes t) = 0 \<or> length (t_nodes t) > 64 \<or> length (t_edges t) = 0 \<or> length (t_edges t) > 128
       \<or> length (t_sources t) = 0 \<or> length (t_sources t) > 16 \<or> length (t_sinks t) \<noteq> 1)"

definition prepare_trace :: "trace \<Rightarrow> (sc_error, prepared) result" where
  "prepare_trace t =
     (if \<not> trace_bounds_ok t then Inl ErrInvalidTrace
      else case index_nodes (t_nodes t) 0 Map.empty of None \<Rightarrow> Inl ErrInvalidTrace | Some m \<Rightarrow>
      (if \<not> list_all (\<lambda>k. m (word_of_nat k) \<noteq> None) [1..<length (t_nodes t) + 1] then Inl ErrInvalidTrace
       else case link_edges (t_nodes t) m (t_edges t) 0 {} (replicate (length (t_nodes t)) [])
           (replicate (length (t_nodes t)) []) of None \<Rightarrow> Inl ErrInvalidTrace | Some (inc, out) \<Rightarrow>
       (case valid_endpoints \<lparr>p_trace = t, p_index = m, p_incoming = inc, p_outgoing = out,
             p_sink = replicate (length (t_nodes t)) False\<rparr> of None \<Rightarrow> Inl ErrInvalidTrace | Some p \<Rightarrow>
         (if valid_causal_shape p \<and> acyclic_trace p \<and> all_nodes_reach_sink p
            \<and> all_sources_reach_sink p 0 \<and> valid_authority_flow p
          then Inr p else Inl ErrInvalidTrace))))"

section \<open>What a prepared trace is\<close>

lemma index_nodes_Some:
  assumes "index_nodes ns i m = Some m'"
  shows "(\<forall>n \<in> set ns. valid_node n)
    \<and> (\<forall>v j. m' v = Some j \<longleftrightarrow> m v = Some j \<or> (\<exists>k < length ns. n_id (ns ! k) = v \<and> j = i + k))
    \<and> (\<forall>k < length ns. m (n_id (ns ! k)) = None)"
  using assms
proof (induction ns i m rule: index_nodes.induct)
  case (2 n ns i m)
  then have n: "m (n_id n) = None" "valid_node n" and rec: "index_nodes ns (Suc i) (m(n_id n \<mapsto> i)) = Some m'"
    by (auto split: if_splits)
  note IH = 2(1) [OF _ rec]
  have ih: "\<forall>n \<in> set ns. valid_node n"
      "\<And>v j. m' v = Some j \<longleftrightarrow> (m(n_id n \<mapsto> i)) v = Some j \<or> (\<exists>k < length ns. n_id (ns ! k) = v \<and> j = Suc i + k)"
      "\<And>k. k < length ns \<Longrightarrow> n_id (ns ! k) \<noteq> n_id n \<and> m (n_id (ns ! k)) = None"
    using IH n by (auto split: if_splits)
  have "m' v = Some j \<longleftrightarrow> m v = Some j \<or> (\<exists>k < length (n # ns). n_id ((n # ns) ! k) = v \<and> j = i + k)" for v j
    unfolding ih(2) using n(1) by (auto simp: Ex_less_Suc2)
  moreover have "\<forall>k < length (n # ns). m (n_id ((n # ns) ! k)) = None"
    using n(1) ih(3) by (auto simp: nth_Cons split: nat.split)
  ultimately show ?case using n(2) ih(1) by auto
qed simp

text \<open>An edge that passed the checks, and the positions of its ends.\<close>

definition good_edge :: "node list \<Rightarrow> (node_id \<rightharpoonup> nat) \<Rightarrow> edge \<Rightarrow> bool" where
  "good_edge ns m e \<longleftrightarrow> e_from e < e_to e \<and> valid_edge_controls e
     \<and> (\<exists>f t. m (e_from e) = Some f \<and> m (e_to e) = Some t
         \<and> valid_edge_kinds (n_kind (ns ! f)) (n_kind (ns ! t)) (e_kind e))"

definition ends_at :: "(node_id \<rightharpoonup> nat) \<Rightarrow> (edge \<Rightarrow> node_id) \<Rightarrow> edge list \<Rightarrow> nat \<Rightarrow> nat \<Rightarrow> nat list" where
  "ends_at m sel es i j = filter (\<lambda>e. m (sel (es ! (e - i))) = Some j) [i..<i + length es]"

lemma ends_at_Nil [simp]: "ends_at m sel [] i j = []"
  by (simp add: ends_at_def)

lemma ends_at_Cons: "ends_at m sel (e # es) i j = (if m (sel e) = Some j then [i] else []) @ ends_at m sel es (Suc i) j"
proof -
  have "filter (\<lambda>x. m (sel ((e # es) ! (x - i))) = Some j) [Suc i..<Suc i + length es]
      = filter (\<lambda>x. m (sel (es ! (x - Suc i))) = Some j) [Suc i..<Suc i + length es]"
    by (rule filter_cong) (auto simp: nth_Cons' Suc_diff_le diff_Suc split: nat.split)
  moreover have "[i..<i + length (e # es)] = i # [Suc i..<Suc i + length es]"
    by (subst upt_rec) simp
  ultimately show ?thesis by (simp add: ends_at_def)
qed

lemma link_edges_Some:
  assumes "link_edges ns m es i seen inc out = Some (inc', out')"
    and "length inc = n" "length out = n" "\<And>v j. m v = Some j \<Longrightarrow> j < n"
  shows "length inc' = n \<and> length out' = n \<and> (\<forall>e \<in> set es. good_edge ns m e)
    \<and> (\<forall>j < n. inc' ! j = inc ! j @ ends_at m e_to es i j \<and> out' ! j = out ! j @ ends_at m e_from es i j)"
  using assms
proof (induction es arbitrary: i seen inc out)
  case (Cons e es)
  obtain f t where ft: "m (e_from e) = Some f" "m (e_to e) = Some t"
    using Cons.prems(1) by (auto split: option.splits)
  note lt = Cons.prems(4) [OF ft(1)] Cons.prems(4) [OF ft(2)]
  have ok: "good_edge ns m e"
    and rec: "link_edges ns m es (Suc i) (insert (e_from e, e_to e, e_kind e) seen)
      (inc[t := inc ! t @ [i]]) (out[f := out ! f @ [i]]) = Some (inc', out')"
    using Cons.prems(1) ft by (auto simp: good_edge_def split: if_splits)
  note ih = Cons.IH [OF rec _ _ Cons.prems(4)]
  show ?case
    using ih ok ft lt Cons.prems(2,3) by (auto simp: ends_at_Cons nth_list_update)
qed simp

abbreviation p_count :: "prepared \<Rightarrow> nat" where
  "p_count p \<equiv> length (t_nodes (p_trace p))"

definition linked :: "prepared \<Rightarrow> bool" where
  "linked p \<longleftrightarrow> p_count p \<le> 64 \<and> length (p_incoming p) = p_count p \<and> length (p_outgoing p) = p_count p
     \<and> length (p_sink p) = p_count p
     \<and> (\<forall>v i. p_index p v = Some i \<longleftrightarrow> i < p_count p \<and> n_id (p_node p i) = v)
     \<and> (\<forall>i < p_count p. valid_node (p_node p i) \<and> 1 \<le> unat (n_id (p_node p i)) \<and> unat (n_id (p_node p i)) \<le> p_count p)
     \<and> (\<forall>e \<in> set (t_edges (p_trace p)). good_edge (t_nodes (p_trace p)) (p_index p) e)
     \<and> (\<forall>i < p_count p. p_incoming p ! i = ends_at (p_index p) e_to (t_edges (p_trace p)) 0 i
         \<and> p_outgoing p ! i = ends_at (p_index p) e_from (t_edges (p_trace p)) 0 i)"

definition prepared_ok :: "prepared \<Rightarrow> bool" where
  "prepared_ok p \<longleftrightarrow> linked p \<and> valid_causal_shape p \<and> valid_authority_flow p
     \<and> (\<forall>i < p_count p. p_sink p ! i \<longleftrightarrow> n_kind (p_node p i) = NodeSink)
     \<and> (\<exists>!i. i < p_count p \<and> p_sink p ! i)
     \<and> distinct (t_sources (p_trace p))
     \<and> (\<forall>s \<in> set (t_sources (p_trace p)). \<exists>i < p_count p. n_id (p_node p i) = s \<and> p_incoming p ! i = [] \<and> \<not> p_sink p ! i
          \<and> (t_class (p_trace p) = TraceAttack \<longrightarrow> n_authority (p_node p i) = 0))"

text \<open>The identifiers are dense: \<open>n\<close> distinct ones that include 1 to \<open>n\<close> are exactly those.\<close>

lemma dense_ids:
  fixes v :: node_id
  assumes "length ns \<le> 64" "list_all (\<lambda>k. m (word_of_nat k) \<noteq> None) [1..<length ns + 1]"
    and "\<And>v j. m v = Some j \<longleftrightarrow> j < length ns \<and> n_id (ns ! j) = v" and "j < length ns"
  shows "1 \<le> unat (n_id (ns ! j)) \<and> unat (n_id (ns ! j)) \<le> length ns"
proof -
  let ?ids = "n_id ` set ns" and ?dense = "(word_of_nat :: nat \<Rightarrow> node_id) ` {1..<length ns + 1}"
  have small: "unat (word_of_nat k :: node_id) = k" if "k \<le> 64" for k
    using that by (simp add: unsigned_of_nat take_bit_nat_eq_self_iff)
  have inj: "inj_on (word_of_nat :: nat \<Rightarrow> node_id) {1..<length ns + 1}"
  proof (rule inj_onI)
    fix x y
    assume xy: "x \<in> {1..<length ns + 1}" "y \<in> {1..<length ns + 1}"
      and eq: "(word_of_nat x :: node_id) = word_of_nat y"
    have "x \<le> 64" "y \<le> 64" using xy assms(1) by auto
    then show "x = y" using small eq by metis
  qed
  have "?dense \<subseteq> ?ids"
  proof
    fix w
    assume "w \<in> ?dense"
    then obtain k where k: "w = word_of_nat k" "k \<in> {1..<length ns + 1}" by blast
    then have "m w \<noteq> None" using assms(2) unfolding list_all_iff set_upt by blast
    then obtain i where "m w = Some i" by blast
    then show "w \<in> ?ids" using assms(3) by auto
  qed
  moreover have "card ?ids \<le> card ?dense"
    using card_image [OF inj] card_image_le [of "set ns" n_id] card_length [of ns] by simp
  ultimately have "?ids = ?dense" using card_subset_eq [of ?ids ?dense] card_mono [of ?ids ?dense] by simp
  moreover have "n_id (ns ! j) \<in> ?ids" using assms(4) by simp
  ultimately obtain k where "n_id (ns ! j) = word_of_nat k" "k \<in> {1..<length ns + 1}" by blast
  then show ?thesis using small [of k] assms(1) by simp
qed

lemma check_sources_Some:
  "check_sources p seen ss = Some seen' \<Longrightarrow> seen' = seen \<union> set ss \<and> distinct ss \<and> seen \<inter> set ss = {}
     \<and> (\<forall>s \<in> set ss. \<exists>i. p_index p s = Some i \<and> p_incoming p ! i = []
          \<and> (t_class (p_trace p) = TraceAttack \<longrightarrow> n_authority (p_node p i) = 0))"
  by (induction p seen ss rule: check_sources.induct) (auto split: option.splits if_splits)

lemma check_sinks_single:
  assumes "check_sinks p sources {} [s] sk = Some (sinks, sk')"
  obtains k where "p_index p s = Some k" "n_kind (p_node p k) = NodeSink" "p_outgoing p ! k = []"
    "s \<notin> sources" "sinks = {s}" "sk' = sk[k := True]"
  using assms by (auto split: option.splits if_splits)

lemma prepare_trace_Inr:
  assumes "prepare_trace t = Inr p"
  obtains m inc out p0 where "trace_bounds_ok t" "index_nodes (t_nodes t) 0 Map.empty = Some m"
    "list_all (\<lambda>k. m (word_of_nat k) \<noteq> None) [1..<length (t_nodes t) + 1]"
    "link_edges (t_nodes t) m (t_edges t) 0 {} (replicate (length (t_nodes t)) [])
       (replicate (length (t_nodes t)) []) = Some (inc, out)"
    "p0 = \<lparr>p_trace = t, p_index = m, p_incoming = inc, p_outgoing = out,
       p_sink = replicate (length (t_nodes t)) False\<rparr>"
    "valid_endpoints p0 = Some p" "valid_causal_shape p" "acyclic_trace p" "all_nodes_reach_sink p"
    "all_sources_reach_sink p 0" "valid_authority_flow p"
  using assms by (auto simp: prepare_trace_def split: option.splits if_splits prod.splits)

lemma prepare_trace_ok:
  assumes "prepare_trace t = Inr p"
  shows "p_trace p = t" "prepared_ok p"
proof -
  obtain m inc out p0 where b: "trace_bounds_ok t" and ix: "index_nodes (t_nodes t) 0 Map.empty = Some m"
    and dense: "list_all (\<lambda>k. m (word_of_nat k) \<noteq> None) [1..<length (t_nodes t) + 1]"
    and link: "link_edges (t_nodes t) m (t_edges t) 0 {} (replicate (length (t_nodes t)) [])
       (replicate (length (t_nodes t)) []) = Some (inc, out)"
    and p0: "p0 = \<lparr>p_trace = t, p_index = m, p_incoming = inc, p_outgoing = out,
       p_sink = replicate (length (t_nodes t)) False\<rparr>"
    and ends: "valid_endpoints p0 = Some p"
    and rest: "valid_causal_shape p" "valid_authority_flow p"
    using assms by (rule prepare_trace_Inr)
  let ?n = "length (t_nodes t)"
  obtain sources sinks sk where src: "check_sources p0 {} (t_sources t) = Some sources"
    and snk: "check_sinks p0 sources {} (t_sinks t) (replicate ?n False) = Some (sinks, sk)"
    and roots: "check_roots p0 sources sinks" and p: "p = p0\<lparr>p_sink := sk\<rparr>"
    using ends by (auto simp: valid_endpoints_def p0 split: option.splits if_splits prod.splits)
  obtain s where s: "t_sinks t = [s]" using b by (auto simp: trace_bounds_ok_def length_Suc_conv)
  obtain k where k: "m s = Some k" "n_kind (t_nodes t ! k) = NodeSink" "s \<notin> sources" "sinks = {s}"
      "sk = (replicate ?n False)[k := True]"
    using snk unfolding s by (rule check_sinks_single) (simp add: p0)
  note idx = index_nodes_Some [OF ix]
  have idx': "m v = Some j \<longleftrightarrow> j < ?n \<and> n_id (t_nodes t ! j) = v" for v j using idx by auto
  have lens: "length inc = ?n" "length out = ?n"
    and good: "\<forall>e \<in> set (t_edges t). good_edge (t_nodes t) m e"
    and arr: "\<forall>j < ?n. inc ! j = ends_at m e_to (t_edges t) 0 j \<and> out ! j = ends_at m e_from (t_edges t) 0 j"
    using link_edges_Some [OF link, of ?n] idx' by auto
  have n: "?n \<le> 64" using b by (simp add: trace_bounds_ok_def)
  have kn: "k < ?n" "n_id (t_nodes t ! k) = s" using k(1) idx' by auto
  show pt: "p_trace p = t" by (simp add: p p0)
  have linked: "linked p"
    using n lens good arr idx idx' dense_ids [OF n dense idx'] by (auto simp: linked_def p p0 k(5))
  have sink: "sk ! i \<longleftrightarrow> i = k" if "i < ?n" for i
    using that k(5) by (cases "i = k") simp_all
  have kinds: "n_kind (t_nodes t ! i) = NodeSink \<longleftrightarrow> i = k" if "i < ?n" for i
  proof -
    have "(n_kind (t_nodes t ! i) = NodeSink) = (n_id (t_nodes t ! i) \<in> sinks)"
      using roots that lens(1) by (auto simp: check_roots_def list_all_iff p0 Let_def)
    then show ?thesis using that kn idx' [of s i] idx' [of s k] k(1,4) by auto
  qed
  note srcs = check_sources_Some [OF src]
  have "\<exists>i < ?n. n_id (t_nodes t ! i) = v \<and> inc ! i = [] \<and> \<not> sk ! i
      \<and> (t_class t = TraceAttack \<longrightarrow> n_authority (t_nodes t ! i) = 0)" if "v \<in> set (t_sources t)" for v
  proof -
    have "\<exists>i. p_index p0 v = Some i \<and> p_incoming p0 ! i = []
        \<and> (t_class (p_trace p0) = TraceAttack \<longrightarrow> n_authority (p_node p0 i) = 0)" using srcs that by blast
    then obtain i where "m v = Some i" "inc ! i = []" "t_class t = TraceAttack \<longrightarrow> n_authority (t_nodes t ! i) = 0"
      by (auto simp: p0)
    moreover from this have "i < ?n" "n_id (t_nodes t ! i) = v" using idx' by auto
    moreover have "v \<noteq> s" using k(3) srcs that by auto
    ultimately show ?thesis using sink kn by blast
  qed
  then show "prepared_ok p"
    using linked rest srcs sink kinds kn(1) by (auto simp: prepared_ok_def p p0)
qed

section \<open>The chain walk and the depth-first search\<close>

text \<open>
  \<open>behaviorSourceReachesSink\<close> follows the one outgoing edge of each node. Its loop has no bound of
  its own, so the walk takes fuel; the number of nodes is enough on a prepared trace.
\<close>

fun behavior_consume :: "prepared \<Rightarrow> control_mask \<Rightarrow> nat list \<Rightarrow> bool" where
  "behavior_consume p cm [] = False"
| "behavior_consume p cm (e # es) =
     (if e_kind (p_edge p e) \<noteq> EdgeConsume then behavior_consume p cm es
      else if e_controls (p_edge p e) AND cm \<noteq> 0 then False
      else (let issue = p_edge p (p_incoming p ! idx p (e_from (p_edge p e)) ! 0) in
        e_kind issue = EdgeIssueGrant \<and> e_controls issue AND cm = 0))"

fun behavior_walk :: "prepared \<Rightarrow> control_mask \<Rightarrow> nat \<Rightarrow> nat \<Rightarrow> bool option" where
  "behavior_walk p cm 0 i = None"
| "behavior_walk p cm (Suc fuel) i =
     (if p_sink p ! i then Some (n_requires (p_node p i) = 0 \<or> behavior_consume p cm (p_incoming p ! i))
      else (let e = p_edge p (p_outgoing p ! i ! 0) in
        if e_controls e AND cm \<noteq> 0 then Some False
        else behavior_walk p cm fuel (idx p (e_to e))))"

definition behavior_source_reaches_sink :: "prepared \<Rightarrow> nat \<Rightarrow> control_mask \<Rightarrow> bool" where
  "behavior_source_reaches_sink p i cm = (behavior_walk p cm (p_count p) i = Some True)"

text \<open>The verifier's own search and its own reading of an executable sink (\<open>verify.go\<close>).\<close>

fun verify_issue :: "prepared \<Rightarrow> control_mask \<Rightarrow> bool \<Rightarrow> nat list \<Rightarrow> bool option" where
  "verify_issue p cm issue_seen [] = Some issue_seen"
| "verify_issue p cm issue_seen (e # es) =
     (if e_kind (p_edge p e) \<noteq> EdgeIssueGrant then verify_issue p cm issue_seen es
      else if issue_seen \<or> e_controls (p_edge p e) AND cm \<noteq> 0 then None
      else verify_issue p cm True es)"

fun verify_consume :: "prepared \<Rightarrow> control_mask \<Rightarrow> bool \<Rightarrow> nat list \<Rightarrow> bool" where
  "verify_consume p cm consume_seen [] = consume_seen"
| "verify_consume p cm consume_seen (e # es) =
     (if e_kind (p_edge p e) \<noteq> EdgeConsume then verify_consume p cm consume_seen es
      else if consume_seen \<or> e_controls (p_edge p e) AND cm \<noteq> 0 then False
      else case verify_issue p cm False (p_incoming p ! idx p (e_from (p_edge p e))) of
        Some True \<Rightarrow> verify_consume p cm True es | _ \<Rightarrow> False)"

definition verify_sink_executable :: "prepared \<Rightarrow> nat \<Rightarrow> control_mask \<Rightarrow> bool" where
  "verify_sink_executable p k cm = (n_requires (p_node p k) = 0 \<or> verify_consume p cm False (p_incoming p ! k))"

function dfs :: "prepared \<Rightarrow> control_mask \<Rightarrow> bool list \<Rightarrow> nat list \<Rightarrow> bool" where
  "dfs p cm seen st =
     (if st = [] then False
      else if p_sink p ! last st then verify_sink_executable p (last st) cm
      else dfs p cm (fst (push_new (successors p cm (last st)) seen (butlast st)))
             (snd (push_new (successors p cm (last st)) seen (butlast st))))"
  by pat_completeness auto
termination
proof (relation "measure (\<lambda>(p, cm, seen, st). length st + unseen seen)")
  fix p cm seen and st :: "nat list"
  assume "st \<noteq> []"
  then show "((p, cm, fst (push_new (successors p cm (last st)) seen (butlast st)),
        snd (push_new (successors p cm (last st)) seen (butlast st))), p, cm, seen, st)
      \<in> measure (\<lambda>(p, cm, seen, st). length st + unseen seen)"
    using push_new_unseen [of "successors p cm (last st)" seen "butlast st"]
    by (cases st rule: rev_cases) (simp_all add: case_prod_beta)
qed simp

declare dfs.simps [simp del]

definition verify_source_reaches_sink :: "prepared \<Rightarrow> nat \<Rightarrow> control_mask \<Rightarrow> bool" where
  "verify_source_reaches_sink p i cm = dfs p cm ((replicate (p_count p) False)[i := True]) [i]"

section \<open>The three searches agree\<close>

text \<open>What they decide, in terms of the edges alone.\<close>

definition uncut_rel :: "trace \<Rightarrow> control_mask \<Rightarrow> (node_id \<times> node_id) set" where
  "uncut_rel t cm = {(e_from e, e_to e) | e. e \<in> set (t_edges t) \<and> e_controls e AND cm = 0}"

definition executable :: "trace \<Rightarrow> control_mask \<Rightarrow> node \<Rightarrow> bool" where
  "executable t cm k \<longleftrightarrow> n_requires k = 0
     \<or> (\<exists>c \<in> set (t_edges t). \<exists>g \<in> set (t_edges t). e_kind c = EdgeConsume \<and> e_to c = n_id k
          \<and> e_controls c AND cm = 0 \<and> e_kind g = EdgeIssueGrant \<and> e_to g = e_from c \<and> e_controls g AND cm = 0)"

definition effective :: "trace \<Rightarrow> control_mask \<Rightarrow> node_id \<Rightarrow> bool" where
  "effective t cm s \<longleftrightarrow> (\<exists>k \<in> set (t_nodes t). n_kind k = NodeSink \<and> (s, n_id k) \<in> (uncut_rel t cm)\<^sup>* \<and> executable t cm k)"

lemma ends_at_mem: "e \<in> set (ends_at m sel es 0 j) \<longleftrightarrow> e < length es \<and> m (sel (es ! e)) = Some j"
  by (auto simp: ends_at_def)

text \<open>A node of a prepared trace that is no sink has one outgoing edge, to a larger identifier.\<close>

lemma next_edge:
  assumes "prepared_ok p" "i < p_count p" "\<not> p_sink p ! i"
  obtains e j where "p_outgoing p ! i = [e]" "e < length (t_edges (p_trace p))"
    "e_from (p_edge p e) = n_id (p_node p i)" "j < p_count p" "n_id (p_node p j) = e_to (p_edge p e)"
    "idx p (e_to (p_edge p e)) = j" "unat (n_id (p_node p i)) < unat (n_id (p_node p j))"
    "\<And>e'. e' < length (t_edges (p_trace p)) \<Longrightarrow> e_from (p_edge p e') = n_id (p_node p i) \<Longrightarrow> e' = e"
proof -
  have l: "linked p" and one: "length (p_outgoing p ! i) = 1"
    using assms by (auto simp: prepared_ok_def valid_causal_shape_def list_all_iff)
  then obtain e where e: "p_outgoing p ! i = [e]" by (auto simp: length_Suc_conv)
  have mem: "e' \<in> set (p_outgoing p ! i) \<longleftrightarrow> e' < length (t_edges (p_trace p)) \<and> e_from (p_edge p e') = n_id (p_node p i)" for e'
    using l assms(2) ends_at_mem [of e' "p_index p" e_from "t_edges (p_trace p)" i] by (auto simp: linked_def)
  have in_e: "e < length (t_edges (p_trace p))" "e_from (p_edge p e) = n_id (p_node p i)" using mem [of e] e by auto
  have "good_edge (t_nodes (p_trace p)) (p_index p) (p_edge p e)" using l in_e(1) by (auto simp: linked_def)
  then obtain j where j: "p_index p (e_to (p_edge p e)) = Some j" "e_from (p_edge p e) < e_to (p_edge p e)"
    by (auto simp: good_edge_def)
  then have jn: "j < p_count p" "n_id (p_node p j) = e_to (p_edge p e)" using l by (auto simp: linked_def)
  have only: "e' = e" if "e' < length (t_edges (p_trace p))" "e_from (p_edge p e') = n_id (p_node p i)" for e'
  proof -
    have "e' \<in> set (p_outgoing p ! i)" using mem that by blast
    then show ?thesis by (simp add: e)
  qed
  have "idx p (e_to (p_edge p e)) = j" using j(1) by (simp add: idx_def)
  moreover have "unat (n_id (p_node p i)) < unat (n_id (p_node p j))"
    using j(2) by (simp only: in_e(2) jn(2) word_less_nat_alt)
  ultimately show ?thesis using that e in_e jn only by blast
qed

lemma in_incoming:
  assumes "linked p" "i < p_count p"
  shows "e \<in> set (p_incoming p ! i) \<longleftrightarrow> e < length (t_edges (p_trace p)) \<and> e_to (p_edge p e) = n_id (p_node p i)"
  using assms ends_at_mem [of e "p_index p" e_to "t_edges (p_trace p)" i] by (auto simp: linked_def)

text \<open>A privileged sink has one consume edge, from a grant with one edge, the issue edge.\<close>

lemma privileged_sink:
  assumes "prepared_ok p" "k < p_count p" "p_sink p ! k" "n_requires (p_node p k) \<noteq> 0"
  obtains c g where "filter (\<lambda>e. e_kind (p_edge p e) = EdgeConsume) (p_incoming p ! k) = [c]"
    "c < length (t_edges (p_trace p))" "idx p (e_from (p_edge p c)) < p_count p"
    "n_id (p_node p (idx p (e_from (p_edge p c)))) = e_from (p_edge p c)"
    "p_incoming p ! idx p (e_from (p_edge p c)) = [g]" "e_kind (p_edge p g) = EdgeIssueGrant"
proof -
  have l: "linked p" and flow: "\<And>i. i < p_count p \<Longrightarrow> node_flow_ok p i"
    and kind: "n_kind (p_node p k) = NodeSink" and inc: "p_incoming p ! k \<noteq> []"
    using assms by (auto simp: prepared_ok_def valid_causal_shape_def valid_authority_flow_def list_all_iff)
  let ?f = "filter (\<lambda>e. e_kind (p_edge p e) = EdgeConsume) (p_incoming p ! k)"
  have "sink_flow_ok p k"
    using flow [OF assms(2)] kind inc by (auto simp: node_flow_ok_def Let_def split: if_splits)
  then obtain c where c: "?f = [c]" and grant: "n_kind (p_node p (idx p (e_from (p_edge p c)))) = NodeGrant"
    using assms(4) by (auto simp: sink_flow_ok_def Let_def length_Suc_conv)
  have "c \<in> set ?f" using c by simp
  then have cin: "c \<in> set (p_incoming p ! k)" by simp
  then have cl: "c < length (t_edges (p_trace p))" using in_incoming [OF l assms(2)] by blast
  then have "good_edge (t_nodes (p_trace p)) (p_index p) (p_edge p c)" using l by (auto simp: linked_def)
  then obtain f where f: "p_index p (e_from (p_edge p c)) = Some f" by (auto simp: good_edge_def)
  have f0: "idx p (e_from (p_edge p c)) = f" using f by (simp add: idx_def)
  have f1: "f < p_count p" "n_id (p_node p f) = e_from (p_edge p c)" using f l by (auto simp: linked_def)
  note fi = f0 f1
  have "grant_flow_ok p f"
    using flow [OF fi(2)] grant fi(1) by (auto simp: node_flow_ok_def Let_def split: if_splits)
  then obtain g where "p_incoming p ! f = [g]" "e_kind (p_edge p g) = EdgeIssueGrant"
    by (auto simp: grant_flow_ok_def Let_def length_Suc_conv split: if_splits)
  then show ?thesis using that c cl fi by auto
qed

lemma consume_uncut_single:
  assumes "filter (\<lambda>e. e_kind (p_edge p e) = EdgeConsume) es = [c]"
    and "p_incoming p ! idx p (e_from (p_edge p c)) = [g]" "e_kind (p_edge p g) = EdgeIssueGrant"
  shows "consume_uncut p cm es = (e_controls (p_edge p c) AND cm = 0 \<and> e_controls (p_edge p g) AND cm = 0)"
    and "behavior_consume p cm es = (e_controls (p_edge p c) AND cm = 0 \<and> e_controls (p_edge p g) AND cm = 0)"
  using assms by (induction es) (auto simp: Let_def split: if_splits)

lemma verify_consume_rest:
  "filter (\<lambda>e. e_kind (p_edge p e) = EdgeConsume) es = [] \<Longrightarrow> verify_consume p cm b es = b"
  by (induction es) (auto split: if_splits)

lemma verify_consume_single:
  assumes "filter (\<lambda>e. e_kind (p_edge p e) = EdgeConsume) es = [c]"
    and "p_incoming p ! idx p (e_from (p_edge p c)) = [g]" "e_kind (p_edge p g) = EdgeIssueGrant"
  shows "verify_consume p cm False es = (e_controls (p_edge p c) AND cm = 0 \<and> e_controls (p_edge p g) AND cm = 0)"
  using assms by (induction es) (auto simp: verify_consume_rest split: if_splits)

lemma executable_agree:
  assumes "prepared_ok p" "k < p_count p" "p_sink p ! k"
  shows "sink_executable p k cm = executable (p_trace p) cm (p_node p k)"
    and "verify_sink_executable p k cm = executable (p_trace p) cm (p_node p k)"
    and "(n_requires (p_node p k) = 0 \<or> behavior_consume p cm (p_incoming p ! k)) = executable (p_trace p) cm (p_node p k)"
proof -
  have l: "linked p" using assms(1) by (simp add: prepared_ok_def)
  have "sink_executable p k cm = executable (p_trace p) cm (p_node p k)
    \<and> verify_sink_executable p k cm = executable (p_trace p) cm (p_node p k)
    \<and> (n_requires (p_node p k) = 0 \<or> behavior_consume p cm (p_incoming p ! k)) = executable (p_trace p) cm (p_node p k)"
  proof (cases "n_requires (p_node p k) = 0")
    case True
    then show ?thesis by (simp add: sink_executable_def verify_sink_executable_def executable_def)
  next
    case False
    obtain c g where c: "filter (\<lambda>e. e_kind (p_edge p e) = EdgeConsume) (p_incoming p ! k) = [c]"
      "c < length (t_edges (p_trace p))" "idx p (e_from (p_edge p c)) < p_count p"
      "n_id (p_node p (idx p (e_from (p_edge p c)))) = e_from (p_edge p c)"
      "p_incoming p ! idx p (e_from (p_edge p c)) = [g]" "e_kind (p_edge p g) = EdgeIssueGrant"
      using assms False by (rule privileged_sink)
    have cs: "x = c" if "x < length (t_edges (p_trace p))" "e_to (p_edge p x) = n_id (p_node p k)"
        "e_kind (p_edge p x) = EdgeConsume" for x
    proof -
      have "x \<in> set (filter (\<lambda>e. e_kind (p_edge p e) = EdgeConsume) (p_incoming p ! k))"
        using that in_incoming [OF l assms(2)] by simp
      then show ?thesis by (simp add: c(1))
    qed
    have "c \<in> set (filter (\<lambda>e. e_kind (p_edge p e) = EdgeConsume) (p_incoming p ! k))" using c(1) by simp
    then have cin: "e_kind (p_edge p c) = EdgeConsume" "e_to (p_edge p c) = n_id (p_node p k)"
      using in_incoming [OF l assms(2)] by auto
    have gs: "x = g \<longleftrightarrow> x < length (t_edges (p_trace p)) \<and> e_to (p_edge p x) = e_from (p_edge p c)" for x
      using in_incoming [OF l c(3), of x] c(4,5) by simp
    have "executable (p_trace p) cm (p_node p k)
        = (e_controls (p_edge p c) AND cm = 0 \<and> e_controls (p_edge p g) AND cm = 0)"
    proof
      assume "executable (p_trace p) cm (p_node p k)"
      then obtain c' g' where "c' < length (t_edges (p_trace p))" "g' < length (t_edges (p_trace p))"
          "e_kind (p_edge p c') = EdgeConsume" "e_to (p_edge p c') = n_id (p_node p k)"
          "e_controls (p_edge p c') AND cm = 0" "e_to (p_edge p g') = e_from (p_edge p c')"
          "e_controls (p_edge p g') AND cm = 0"
        using False by (auto simp: executable_def in_set_conv_nth)
      then show "e_controls (p_edge p c) AND cm = 0 \<and> e_controls (p_edge p g) AND cm = 0"
        using cs [of c'] gs [of g'] by auto
    next
      assume "e_controls (p_edge p c) AND cm = 0 \<and> e_controls (p_edge p g) AND cm = 0"
      then show "executable (p_trace p) cm (p_node p k)"
        using c(2,6) cin gs [of g] unfolding executable_def by (metis nth_mem)
    qed
    then show ?thesis
      using consume_uncut_single [OF c(1,5,6)] verify_consume_single [OF c(1,5,6)] False
      by (simp add: sink_executable_def verify_sink_executable_def)
  qed
  then show "sink_executable p k cm = executable (p_trace p) cm (p_node p k)"
    and "verify_sink_executable p k cm = executable (p_trace p) cm (p_node p k)"
    and "(n_requires (p_node p k) = 0 \<or> behavior_consume p cm (p_incoming p ! k)) = executable (p_trace p) cm (p_node p k)"
    by blast+
qed

lemma same_id:
  "linked p \<Longrightarrow> i < p_count p \<Longrightarrow> j < p_count p \<Longrightarrow> n_id (p_node p i) = n_id (p_node p j) \<Longrightarrow> i = j"
  unfolding linked_def by (metis option.inject)

lemma idx_node:
  assumes "linked p" "i < p_count p"
  shows "idx p (n_id (p_node p i)) = i"
proof -
  have "p_index p (n_id (p_node p i)) = Some i" using assms unfolding linked_def by metis
  then show ?thesis by (simp add: idx_def)
qed

lemma effective_sink:
  assumes "prepared_ok p" "i < p_count p" "p_sink p ! i"
  shows "effective (p_trace p) cm (n_id (p_node p i)) = executable (p_trace p) cm (p_node p i)"
proof -
  have l: "linked p" and kind: "n_kind (p_node p i) = NodeSink" and out: "p_outgoing p ! i = []"
    using assms by (auto simp: prepared_ok_def valid_causal_shape_def list_all_iff)
  have stuck: "(n_id (p_node p i), y) \<notin> uncut_rel (p_trace p) cm" for y
  proof
    assume "(n_id (p_node p i), y) \<in> uncut_rel (p_trace p) cm"
    then obtain e where "e < length (t_edges (p_trace p))" "e_from (p_edge p e) = n_id (p_node p i)"
      by (auto simp: uncut_rel_def in_set_conv_nth)
    then have "e \<in> set (ends_at (p_index p) e_from (t_edges (p_trace p)) 0 i)"
      using l assms(2) by (auto simp: ends_at_mem linked_def)
    then show False using l assms(2) out by (auto simp: linked_def)
  qed
  have "(n_id (p_node p i), y) \<in> (uncut_rel (p_trace p) cm)\<^sup>* \<longleftrightarrow> y = n_id (p_node p i)" for y
    using stuck by (auto elim: converse_rtranclE)
  then show ?thesis
    using assms(2) kind same_id [OF l _ assms(2)] unfolding effective_def
    by (metis in_set_conv_nth nth_mem)
qed

lemma effective_step:
  assumes "prepared_ok p" "i < p_count p" "\<not> p_sink p ! i" "p_outgoing p ! i = [e]"
    and "n_id (p_node p j) = e_to (p_edge p e)"
  shows "effective (p_trace p) cm (n_id (p_node p i))
    = (e_controls (p_edge p e) AND cm = 0 \<and> effective (p_trace p) cm (n_id (p_node p j)))"
proof -
  have l: "linked p" and kind: "n_kind (p_node p i) \<noteq> NodeSink"
    using assms by (auto simp: prepared_ok_def)
  obtain e' where e': "p_outgoing p ! i = [e']" "e' < length (t_edges (p_trace p))"
    "e_from (p_edge p e') = n_id (p_node p i)"
    "\<And>x. x < length (t_edges (p_trace p)) \<Longrightarrow> e_from (p_edge p x) = n_id (p_node p i) \<Longrightarrow> x = e'"
    using assms(1-3) by (rule next_edge) blast
  have ee: "e' = e" using e'(1) assms(4) by simp
  have hop: "(n_id (p_node p i), y) \<in> uncut_rel (p_trace p) cm
      \<longleftrightarrow> y = n_id (p_node p j) \<and> e_controls (p_edge p e) AND cm = 0" for y
  proof
    assume "(n_id (p_node p i), y) \<in> uncut_rel (p_trace p) cm"
    then obtain x where x: "x < length (t_edges (p_trace p))" "e_from (p_edge p x) = n_id (p_node p i)"
        "y = e_to (p_edge p x)" "e_controls (p_edge p x) AND cm = 0"
      by (auto simp: uncut_rel_def in_set_conv_nth)
    then have "x = e" using e'(4) ee by blast
    then show "y = n_id (p_node p j) \<and> e_controls (p_edge p e) AND cm = 0" using x assms(5) by simp
  next
    assume y: "y = n_id (p_node p j) \<and> e_controls (p_edge p e) AND cm = 0"
    have "p_edge p e \<in> set (t_edges (p_trace p))" using e'(2) ee by simp
    then show "(n_id (p_node p i), y) \<in> uncut_rel (p_trace p) cm"
      using y e'(3) ee assms(5) unfolding uncut_rel_def mem_Collect_eq by metis
  qed
  have not_self: "n_id k \<noteq> n_id (p_node p i)" if "k \<in> set (t_nodes (p_trace p))" "n_kind k = NodeSink" for k
  proof
    assume eq: "n_id k = n_id (p_node p i)"
    note k = that
    obtain a where "a < p_count p" "p_node p a = k" using k(1) by (metis in_set_conv_nth)
    then show False using same_id [OF l _ assms(2), of a] eq k(2) kind by auto
  qed
  have "(n_id (p_node p i), n_id k) \<in> (uncut_rel (p_trace p) cm)\<^sup>*
      \<longleftrightarrow> e_controls (p_edge p e) AND cm = 0 \<and> (n_id (p_node p j), n_id k) \<in> (uncut_rel (p_trace p) cm)\<^sup>*"
    if k: "k \<in> set (t_nodes (p_trace p))" "n_kind k = NodeSink" for k
  proof
    assume "(n_id (p_node p i), n_id k) \<in> (uncut_rel (p_trace p) cm)\<^sup>*"
    then show "e_controls (p_edge p e) AND cm = 0 \<and> (n_id (p_node p j), n_id k) \<in> (uncut_rel (p_trace p) cm)\<^sup>*"
    proof (cases rule: converse_rtranclE)
      case base
      then show ?thesis using not_self [OF k] by simp
    next
      case (step y)
      then show ?thesis unfolding hop by simp
    qed
  next
    assume "e_controls (p_edge p e) AND cm = 0 \<and> (n_id (p_node p j), n_id k) \<in> (uncut_rel (p_trace p) cm)\<^sup>*"
    then show "(n_id (p_node p i), n_id k) \<in> (uncut_rel (p_trace p) cm)\<^sup>*"
      using converse_rtrancl_into_rtrancl [of "n_id (p_node p i)" "n_id (p_node p j)"] hop by simp
  qed
  then show ?thesis unfolding effective_def by blast
qed

lemma behavior_walk_effective:
  assumes "prepared_ok p" "i < p_count p" "p_count p < fuel + unat (n_id (p_node p i))"
  shows "behavior_walk p cm fuel i = Some (effective (p_trace p) cm (n_id (p_node p i)))"
  using assms(2,3)
proof (induction fuel arbitrary: i)
  case 0
  then show ?case using assms(1) by (auto simp: prepared_ok_def linked_def)
next
  case (Suc fuel)
  show ?case
  proof (cases "p_sink p ! i")
    case True
    then show ?thesis
      using effective_sink [OF assms(1) Suc.prems(1)] executable_agree(3) [OF assms(1) Suc.prems(1)] by simp
  next
    case False
    obtain e j where e: "p_outgoing p ! i = [e]" "j < p_count p" "n_id (p_node p j) = e_to (p_edge p e)"
      "idx p (e_to (p_edge p e)) = j" "unat (n_id (p_node p i)) < unat (n_id (p_node p j))"
      using assms(1) Suc.prems(1) False by (rule next_edge)
    have "behavior_walk p cm fuel j = Some (effective (p_trace p) cm (n_id (p_node p j)))"
      using Suc.IH [OF e(2)] e(5) Suc.prems(2) by simp
    then show ?thesis
      using effective_step [OF assms(1) Suc.prems(1) False e(1,3)] False e(1,4) by (simp add: Let_def)
  qed
qed

text \<open>On a chain a search has at most one node to visit, so the order of visits does not matter.\<close>

lemma searches_effective:
  assumes "prepared_ok p" "i < p_count p" "length seen = p_count p"
    and "\<And>j. j < p_count p \<Longrightarrow> seen ! j \<Longrightarrow> unat (n_id (p_node p j)) \<le> unat (n_id (p_node p i))"
    and "p_count p < n + unat (n_id (p_node p i))"
  shows "bfs p cm seen [i] = effective (p_trace p) cm (n_id (p_node p i))
    \<and> dfs p cm seen [i] = effective (p_trace p) cm (n_id (p_node p i))"
  using assms(2-)
proof (induction n arbitrary: i seen)
  case 0
  then show ?case using assms(1) by (auto simp: prepared_ok_def linked_def)
next
  case (Suc n)
  show ?case
  proof (cases "p_sink p ! i")
    case True
    then show ?thesis
      using effective_sink [OF assms(1) Suc.prems(1)] executable_agree [OF assms(1) Suc.prems(1)]
      by (simp add: dfs.simps [of p cm seen "[i]"])
  next
    case False
    obtain e j where e: "p_outgoing p ! i = [e]" "j < p_count p" "n_id (p_node p j) = e_to (p_edge p e)"
      "idx p (e_to (p_edge p e)) = j" "unat (n_id (p_node p i)) < unat (n_id (p_node p j))"
      using assms(1) Suc.prems(1) False by (rule next_edge)
    note step = effective_step [OF assms(1) Suc.prems(1) False e(1,3), of cm]
    show ?thesis
    proof (cases "e_controls (p_edge p e) AND cm = 0")
      case True
      have "\<not> seen ! j" using Suc.prems(3) [OF e(2)] e(5) by auto
      then have push: "push_new (successors p cm i) seen [] = (seen[j := True], [j])"
        using True e Suc.prems(2) by (simp add: successors_def)
      have "bfs p cm (seen[j := True]) [j] = effective (p_trace p) cm (n_id (p_node p j))
          \<and> dfs p cm (seen[j := True]) [j] = effective (p_trace p) cm (n_id (p_node p j))"
      proof (rule Suc.IH)
        fix k
        assume k: "k < p_count p" "seen[j := True] ! k"
        show "unat (n_id (p_node p k)) \<le> unat (n_id (p_node p j))"
          using k Suc.prems(3) [of k] e(5) by (cases "k = j") auto
      qed (use e Suc.prems in auto)
      then show ?thesis using push step True False by (simp add: dfs.simps [of p cm seen "[i]"])
    next
      case cut: False
      then have "successors p cm i = []" using e(1) by (simp add: successors_def)
      then show ?thesis using step cut False
        by (simp add: dfs.simps [of p cm seen "[i]"]) (simp add: dfs.simps)
    qed
  qed
qed

lemma search_start:
  assumes "prepared_ok p" "i < p_count p"
  shows "source_reaches_sink p i cm = effective (p_trace p) cm (n_id (p_node p i))"
    and "verify_source_reaches_sink p i cm = effective (p_trace p) cm (n_id (p_node p i))"
    and "behavior_source_reaches_sink p i cm = effective (p_trace p) cm (n_id (p_node p i))"
proof -
  let ?seen = "(replicate (p_count p) False)[i := True]"
  have "unat (n_id (p_node p j)) \<le> unat (n_id (p_node p i))" if "j < p_count p" "?seen ! j" for j
    using that assms(2) by (cases "j = i") auto
  then have *: "bfs p cm ?seen [i] = effective (p_trace p) cm (n_id (p_node p i))
      \<and> dfs p cm ?seen [i] = effective (p_trace p) cm (n_id (p_node p i))"
    using searches_effective [OF assms, of ?seen "Suc (p_count p)" cm] by auto
  show "source_reaches_sink p i cm = effective (p_trace p) cm (n_id (p_node p i))"
    and "verify_source_reaches_sink p i cm = effective (p_trace p) cm (n_id (p_node p i))"
    using * by (simp_all add: source_reaches_sink_def verify_source_reaches_sink_def)
  have "1 \<le> unat (n_id (p_node p i))" using assms by (simp add: prepared_ok_def linked_def)
  then show "behavior_source_reaches_sink p i cm = effective (p_trace p) cm (n_id (p_node p i))"
    using behavior_walk_effective [OF assms, of "p_count p" cm] by (simp add: behavior_source_reaches_sink_def)
qed

lemma source_searches:
  assumes "prepare_trace t = Inr p" "s \<in> set (t_sources t)"
  shows "source_reaches_sink p (idx p s) m = effective t m s"
    and "verify_source_reaches_sink p (idx p s) m = effective t m s"
    and "behavior_source_reaches_sink p (idx p s) m = effective t m s"
proof -
  note ok = prepare_trace_ok [OF assms(1)]
  obtain i where i: "i < p_count p" "n_id (p_node p i) = s"
    using ok assms(2) by (auto simp: prepared_ok_def)
  then have "idx p s = i" using ok(2) idx_node by (auto simp: prepared_ok_def)
  then show "source_reaches_sink p (idx p s) m = effective t m s"
      and "verify_source_reaches_sink p (idx p s) m = effective t m s"
      and "behavior_source_reaches_sink p (idx p s) m = effective t m s"
    using search_start [OF ok(2) i(1), of m] i(2) ok(1) by simp_all
qed

lemma edge_ends:
  assumes "linked p" "e < length (t_edges (p_trace p))"
  shows "idx p (e_from (p_edge p e)) < p_count p" "n_id (p_node p (idx p (e_from (p_edge p e)))) = e_from (p_edge p e)"
proof -
  have "good_edge (t_nodes (p_trace p)) (p_index p) (p_edge p e)" using assms by (auto simp: linked_def)
  then obtain f where f: "p_index p (e_from (p_edge p e)) = Some f" by (auto simp: good_edge_def)
  then have "idx p (e_from (p_edge p e)) = f" by (simp add: idx_def)
  moreover have "f < p_count p" "n_id (p_node p f) = e_from (p_edge p e)" using f assms(1) by (auto simp: linked_def)
  ultimately show "idx p (e_from (p_edge p e)) < p_count p"
      "n_id (p_node p (idx p (e_from (p_edge p e)))) = e_from (p_edge p e)" by simp_all
qed

lemma granted_sink:
  assumes "prepared_ok p" "k < p_count p" "p_sink p ! k" "n_requires (p_node p k) \<noteq> 0"
  obtains c g f a where "c < length (t_edges (p_trace p))" "e_kind (p_edge p c) = EdgeConsume"
    "e_to (p_edge p c) = n_id (p_node p k)" "f < p_count p" "n_id (p_node p f) = e_from (p_edge p c)"
    "n_kind (p_node p f) = NodeGrant" "n_authority (p_node p f) = n_requires (p_node p k)"
    "n_bref (p_node p f) = n_bref (p_node p k)"
    "g < length (t_edges (p_trace p))" "e_kind (p_edge p g) = EdgeIssueGrant"
    "e_to (p_edge p g) = n_id (p_node p f)" "a < p_count p" "n_id (p_node p a) = e_from (p_edge p g)"
    "n_kind (p_node p a) = NodeAuthenticatedIntent" "n_authority (p_node p a) = n_authority (p_node p f)"
    "n_bref (p_node p a) = n_bref (p_node p f)"
proof -
  have l: "linked p" and flow: "\<And>i. i < p_count p \<Longrightarrow> node_flow_ok p i"
    and kind: "n_kind (p_node p k) = NodeSink" and inc: "p_incoming p ! k \<noteq> []"
    using assms by (auto simp: prepared_ok_def valid_causal_shape_def valid_authority_flow_def list_all_iff)
  obtain c g where c: "filter (\<lambda>e. e_kind (p_edge p e) = EdgeConsume) (p_incoming p ! k) = [c]"
    "c < length (t_edges (p_trace p))" "idx p (e_from (p_edge p c)) < p_count p"
    "n_id (p_node p (idx p (e_from (p_edge p c)))) = e_from (p_edge p c)"
    "p_incoming p ! idx p (e_from (p_edge p c)) = [g]" "e_kind (p_edge p g) = EdgeIssueGrant"
    using assms by (rule privileged_sink)
  let ?f = "idx p (e_from (p_edge p c))"
  have "c \<in> set (filter (\<lambda>e. e_kind (p_edge p e) = EdgeConsume) (p_incoming p ! k))" using c(1) by simp
  then have cin: "e_kind (p_edge p c) = EdgeConsume" "e_to (p_edge p c) = n_id (p_node p k)"
    using in_incoming [OF l assms(2)] by auto
  have "sink_flow_ok p k"
    using flow [OF assms(2)] kind inc by (auto simp: node_flow_ok_def Let_def split: if_splits)
  then have gr: "n_kind (p_node p ?f) = NodeGrant" "n_authority (p_node p ?f) = n_requires (p_node p k)"
      "n_bref (p_node p ?f) = n_bref (p_node p k)"
    using assms(4) c(1) by (simp_all add: sink_flow_ok_def Let_def)
  have gin: "g < length (t_edges (p_trace p))" "e_to (p_edge p g) = n_id (p_node p ?f)"
    using in_incoming [OF l c(3), of g] c(5) by auto
  have "grant_flow_ok p ?f" using flow [OF c(3)] gr(1) by (auto simp: node_flow_ok_def Let_def split: if_splits)
  then have a: "n_kind (p_node p (idx p (e_from (p_edge p g)))) = NodeAuthenticatedIntent"
      "n_authority (p_node p (idx p (e_from (p_edge p g)))) = n_authority (p_node p ?f)"
      "n_bref (p_node p (idx p (e_from (p_edge p g)))) = n_bref (p_node p ?f)"
    using c(5) by (auto simp: grant_flow_ok_def Let_def split: if_splits)
  show ?thesis
    by (rule that [of c ?f g "idx p (e_from (p_edge p g))"]) (use c cin gr gin a edge_ends [OF l gin(1)] in auto)
qed

section \<open>Properties\<close>

text \<open>A trace used by the witnesses: an authenticated request to read research through a tool.\<close>

definition sample_exact :: "node_id \<Rightarrow> node_kind \<Rightarrow> integrity \<Rightarrow> authority_set \<Rightarrow> node" where
  "sample_exact i k g r = \<lparr>n_id = i, n_kind = k, n_integrity = g, n_authority = 1, n_requires = r,
     n_binding = BindingExactScopeActionArgs, n_bref = 7\<rparr>"

definition sample_plain :: "node_id \<Rightarrow> node_kind \<Rightarrow> node" where
  "sample_plain i k = \<lparr>n_id = i, n_kind = k, n_integrity = IntegrityUntrusted, n_authority = 0, n_requires = 0,
     n_binding = BindingNone, n_bref = 0\<rparr>"

definition sample_privileged :: trace where
  "sample_privileged = \<lparr>t_class = TraceAttack, t_weight = 1,
     t_nodes = [sample_plain 1 NodePDF, sample_plain 2 NodeModel, sample_plain 3 NodeTool,
       sample_exact 4 NodeAuthenticatedIntent IntegrityAuthenticated 0, sample_exact 5 NodeGrant IntegritySystem 0,
       sample_exact 6 NodeSink IntegrityUntrusted 1],
     t_edges = [\<lparr>e_from = 1, e_to = 2, e_kind = EdgeQuote, e_controls = 1\<rparr>,
       \<lparr>e_from = 2, e_to = 3, e_kind = EdgeToolCall, e_controls = 16\<rparr>,
       \<lparr>e_from = 3, e_to = 6, e_kind = EdgeExecute, e_controls = 0\<rparr>,
       \<lparr>e_from = 4, e_to = 5, e_kind = EdgeIssueGrant, e_controls = 8\<rparr>,
       \<lparr>e_from = 5, e_to = 6, e_kind = EdgeConsume, e_controls = 32\<rparr>],
     t_sources = [1], t_sinks = [6]\<rparr>"

lemma sample_privileged_prepares: "\<exists>p. prepare_trace sample_privileged = Inr p"
proof -
  have "\<not> isl (prepare_trace sample_privileged)" by code_simp
  then show ?thesis by (cases "prepare_trace sample_privileged") auto
qed

text \<open>
  C20. On every trace that passes validation the synthesizer's breadth-first search, the verifier's
  depth-first search and the fingerprint's chain walk give the same answer for every source and
  every cut, and it is the right one: some sink that the cut leaves executable can be reached
  from the source along edges that the cut leaves.
\<close>

theorem searches_agree:
  assumes "prepare_trace t = Inr p" and "s \<in> set (t_sources t)"
  shows "source_reaches_sink p (idx p s) cm = effective t cm s
    \<and> verify_source_reaches_sink p (idx p s) cm = effective t cm s
    \<and> behavior_source_reaches_sink p (idx p s) cm = effective t cm s"
  using source_searches [OF assms] by blast

lemma searches_agree_witness:
  "\<exists>p. prepare_trace sample_privileged = Inr p
     \<and> source_reaches_sink p (idx p 1) 8 = verify_source_reaches_sink p (idx p 1) 8"
proof -
  have "1 \<in> set (t_sources sample_privileged)" by (simp add: sample_privileged_def)
  then show ?thesis using sample_privileged_prepares searches_agree by blast
qed

text \<open>
  C37. The chain walk, a loop without a bound of its own, ends on every trace that passes
  validation: from any node it needs no more steps than there are nodes, and more fuel does not
  change its answer.
\<close>

theorem chain_walk_terminates:
  assumes "prepare_trace t = Inr p" and "i < length (t_nodes t)"
  shows "\<exists>b. \<forall>fuel \<ge> length (t_nodes t). behavior_walk p cm fuel i = Some b"
proof -
  note ok = prepare_trace_ok [OF assms(1)]
  have i: "i < p_count p" "1 \<le> unat (n_id (p_node p i))"
    using ok assms(2) by (auto simp: prepared_ok_def linked_def)
  have "behavior_walk p cm fuel i = Some (effective (p_trace p) cm (n_id (p_node p i)))"
    if "fuel \<ge> length (t_nodes t)" for fuel
    using behavior_walk_effective [OF ok(2) i(1), of fuel cm] i(2) that ok(1) by simp
  then show ?thesis by blast
qed

lemma chain_walk_terminates_witness:
  "\<exists>p b. prepare_trace sample_privileged = Inr p \<and> behavior_walk p 16 6 0 = Some b"
proof -
  have "0 < length (t_nodes sample_privileged)" "length (t_nodes sample_privileged) = 6"
    by (simp_all add: sample_privileged_def)
  then show ?thesis using sample_privileged_prepares chain_walk_terminates [of sample_privileged _ 0 16] by fastforce
qed

text \<open>
  C23. In a validated trace every privileged effect rests on authority that was granted for it: its
  sink has a consume edge from a grant, and the grant an issue edge from an authenticated intent,
  all three with exactly the authority the sink requires and the same binding; and in an attack
  trace that intent is not one of the attacker's sources.
\<close>

theorem privileged_effects_are_granted:
  assumes "prepare_trace t = Inr p" and "k \<in> set (t_nodes t)" "n_kind k = NodeSink" "n_requires k \<noteq> 0"
  shows "\<exists>g \<in> set (t_nodes t). \<exists>a \<in> set (t_nodes t). \<exists>c \<in> set (t_edges t). \<exists>i \<in> set (t_edges t).
    e_kind c = EdgeConsume \<and> e_from c = n_id g \<and> e_to c = n_id k
    \<and> e_kind i = EdgeIssueGrant \<and> e_from i = n_id a \<and> e_to i = n_id g
    \<and> n_kind g = NodeGrant \<and> n_kind a = NodeAuthenticatedIntent
    \<and> n_authority g = n_requires k \<and> n_authority a = n_requires k \<and> n_bref g = n_bref k \<and> n_bref a = n_bref k
    \<and> (t_class t = TraceAttack \<longrightarrow> n_id a \<notin> set (t_sources t))"
proof -
  note ok = prepare_trace_ok [OF assms(1)]
  have l: "linked p" using ok(2) by (simp add: prepared_ok_def)
  obtain j where j: "j < p_count p" "p_node p j = k" using assms(2) ok(1) by (metis in_set_conv_nth)
  then have sink: "p_sink p ! j" using ok(2) assms(3) by (simp add: prepared_ok_def)
  have req: "n_requires (p_node p j) \<noteq> 0" using assms(4) j(2) by simp
  obtain c g f a where *: "c < length (t_edges (p_trace p))" "e_kind (p_edge p c) = EdgeConsume"
    "e_to (p_edge p c) = n_id (p_node p j)" "f < p_count p" "n_id (p_node p f) = e_from (p_edge p c)"
    "n_kind (p_node p f) = NodeGrant" "n_authority (p_node p f) = n_requires (p_node p j)"
    "n_bref (p_node p f) = n_bref (p_node p j)"
    "g < length (t_edges (p_trace p))" "e_kind (p_edge p g) = EdgeIssueGrant"
    "e_to (p_edge p g) = n_id (p_node p f)" "a < p_count p" "n_id (p_node p a) = e_from (p_edge p g)"
    "n_kind (p_node p a) = NodeAuthenticatedIntent" "n_authority (p_node p a) = n_authority (p_node p f)"
    "n_bref (p_node p a) = n_bref (p_node p f)"
    using ok(2) j(1) sink req by (rule granted_sink)
  have srcs: "\<forall>s \<in> set (t_sources (p_trace p)). \<exists>i < p_count p. n_id (p_node p i) = s \<and> p_incoming p ! i = [] \<and> \<not> p_sink p ! i
      \<and> (t_class (p_trace p) = TraceAttack \<longrightarrow> n_authority (p_node p i) = 0)"
    using ok(2) unfolding prepared_ok_def by (elim conjE)
  have "n_id (p_node p a) \<notin> set (t_sources t)" if att: "t_class t = TraceAttack"
  proof
    assume "n_id (p_node p a) \<in> set (t_sources t)"
    then obtain i where i: "i < p_count p" "n_id (p_node p i) = n_id (p_node p a)" "n_authority (p_node p i) = 0"
      using bspec [OF srcs, of "n_id (p_node p a)"] att ok(1) by auto
    then show False using same_id [OF l i(1) *(12) i(2)] *(7,15) req by metis
  qed
  moreover have "p_node p f \<in> set (t_nodes t)" "p_node p a \<in> set (t_nodes t)"
      "p_edge p c \<in> set (t_edges t)" "p_edge p g \<in> set (t_edges t)"
    using *(1,4,9,12) ok(1) by auto
  moreover note *(2,5-8,10,13-16)
  moreover have "e_to (p_edge p c) = n_id k" "e_to (p_edge p g) = n_id (p_node p f)"
      "n_id (p_node p f) = e_from (p_edge p c)" "n_id (p_node p a) = e_from (p_edge p g)"
    using *(3,5,11,13) j(2) by simp_all
  ultimately show ?thesis unfolding j(2) by metis
qed

lemma privileged_effects_are_granted_witness:
  "\<exists>g \<in> set (t_nodes sample_privileged). \<exists>a \<in> set (t_nodes sample_privileged).
     n_kind g = NodeGrant \<and> n_kind a = NodeAuthenticatedIntent \<and> n_authority a = 1 \<and> n_id a \<noteq> 1"
proof -
  obtain p where p: "prepare_trace sample_privileged = Inr p" using sample_privileged_prepares by blast
  let ?k = "sample_exact 6 NodeSink IntegrityUntrusted 1"
  have k: "?k \<in> set (t_nodes sample_privileged)" "n_kind ?k = NodeSink" "n_requires ?k \<noteq> 0" "n_requires ?k = 1"
    and t: "t_class sample_privileged = TraceAttack" "set (t_sources sample_privileged) = {1}"
    by (simp_all add: sample_privileged_def sample_exact_def)
  show ?thesis using privileged_effects_are_granted [OF p k(1-3)] k(4) t by fastforce
qed

end
