(* ===== verification/ShadowSearch.thy ===== *)
theory ShadowSearch
  imports ShadowTrace "HOL-Library.List_Lexorder" "HOL-Library.Char_ord" "HOL-Library.Multiset"
    "HOL-Library.Product_Lexorder"
begin

text \<open>
  The search of the offline policy synthesizer (\<open>internal/securityflow/shadowcut\<close>: \<open>canonical.go\<close>,
  the corpus part of \<open>validate.go\<close>, \<open>synthesize.go\<close> and \<open>verify.go\<close>): the canonical bytes and the
  behaviour fingerprint of a trace, the preparation of a corpus, the exhaustive search for the best
  cut, and the verifier that searches again by its own code.

  \<^item> \<open>sha256\<close> is a parameter. \<open>sort.Slice\<close> by \<open>bytes.Compare\<close> is HOL's \<open>sort\<close> on strings; equal
    texts are equal bytes, so stability does not matter.
  \<^item> The counters (\<open>uint32\<close> attacks, \<open>uint64\<close> weights and work) are natural numbers: a corpus holds
    at most 1024 traces of weight at most 1000000, and the bounds lemma shows that none wraps.
  \<^item> The path of the canonical form takes the number of nodes plus one as fuel, which is enough on
    prepared traces.
\<close>

section \<open>Canonical bytes\<close>

fun node_kind_byte :: "node_kind \<Rightarrow> 8 word" where
  "node_kind_byte NodeAuthenticatedIntent = 1"
| "node_kind_byte NodeAmbient = 2"
| "node_kind_byte NodePDF = 3"
| "node_kind_byte NodeWeb = 4"
| "node_kind_byte NodeModel = 5"
| "node_kind_byte NodeTool = 6"
| "node_kind_byte NodeMemory = 7"
| "node_kind_byte NodeGrant = 8"
| "node_kind_byte NodeSink = 9"
| "node_kind_byte (NodeKindOther b) = b"

fun edge_kind_byte :: "edge_kind \<Rightarrow> 8 word" where
  "edge_kind_byte EdgeQuote = 1"
| "edge_kind_byte EdgeRecall = 2"
| "edge_kind_byte EdgePropose = 3"
| "edge_kind_byte EdgeIssueGrant = 4"
| "edge_kind_byte EdgeConsume = 5"
| "edge_kind_byte EdgeToolCall = 6"
| "edge_kind_byte EdgeToolResult = 7"
| "edge_kind_byte EdgeExecute = 8"
| "edge_kind_byte EdgeRespond = 9"
| "edge_kind_byte (EdgeKindOther b) = b"

fun binding_byte :: "binding_kind \<Rightarrow> 8 word" where
  "binding_byte BindingNone = 0"
| "binding_byte BindingScopeOnly = 1"
| "binding_byte BindingExactScopeActionArgs = 2"
| "binding_byte (BindingOther b) = b"

fun class_byte :: "trace_class \<Rightarrow> 8 word" where
  "class_byte TraceAttack = 1"
| "class_byte TraceBenign = 2"
| "class_byte (TraceClassOther b) = b"

definition canonical_node :: "node \<Rightarrow> string" where
  "canonical_node n = ''N'' @ be_bytes 1 (node_kind_byte (n_kind n)) @ be_bytes 1 (integrity_rank (n_integrity n))
     @ be_bytes 2 (n_authority n) @ be_bytes 2 (n_requires n) @ be_bytes 1 (binding_byte (n_binding n))
     @ (if n_bref n = 0 then [CHR 0x00] else [CHR 0x01])"

definition canonical_edge :: "edge \<Rightarrow> string" where
  "canonical_edge e = ''E'' @ be_bytes 1 (edge_kind_byte (e_kind e)) @ be_bytes 2 (e_controls e)"

text \<open>The maps of \<open>canonicalTraceBytes\<close>; a later entry overwrites an earlier one.\<close>

definition node_map :: "trace \<Rightarrow> node_id \<rightharpoonup> node" where
  "node_map t = map_of (rev (List.map (\<lambda>n. (n_id n, n)) (t_nodes t)))"

definition outgoing_map :: "trace \<Rightarrow> node_id \<rightharpoonup> edge" where
  "outgoing_map t = map_of (rev (List.map (\<lambda>e. (e_from e, e)) (t_edges t)))"

definition incoming_count :: "trace \<Rightarrow> node_id \<Rightarrow> 16 word" where
  "incoming_count t v = of_nat (length (filter (\<lambda>e. e_to e = v) (t_edges t)))"

definition zero_node :: node where
  "zero_node = \<lparr>n_id = 0, n_kind = NodeKindOther 0, n_integrity = IntegrityOther 0, n_authority = 0,
     n_requires = 0, n_binding = BindingNone, n_bref = 0\<rparr>"

fun canonical_path :: "trace \<Rightarrow> nat \<Rightarrow> node_id \<Rightarrow> string" where
  "canonical_path t 0 v = []"
| "canonical_path t (Suc fuel) v =
     canonical_node (case node_map t v of None \<Rightarrow> zero_node | Some n \<Rightarrow> n)
     @ (case outgoing_map t v of None \<Rightarrow> [] | Some e \<Rightarrow> canonical_edge e @ canonical_path t fuel (e_to e))"

definition canonical_trace_bytes :: "trace \<Rightarrow> string" where
  "canonical_trace_bytes t =
     (let roots = filter (\<lambda>n. incoming_count t (n_id n) = 0) (t_nodes t);
          paths = sort (List.map (\<lambda>n. ''PATH'' @ [if n_id n \<in> set (t_sources t) then CHR 0x01 else CHR 0x00]
            @ canonical_path t (length (t_nodes t) + 1) (n_id n)) roots) in
      ''TRCE'' @ be_bytes 1 (class_byte (t_class t)) @ be_bytes 4 (t_weight t)
      @ be_bytes 2 (of_nat (length (t_nodes t)) :: 16 word) @ be_bytes 2 (of_nat (length (t_edges t)) :: 16 word)
      @ be_bytes 2 (of_nat (length (t_sources t)) :: 16 word) @ be_bytes 2 (of_nat (length paths) :: 16 word)
      @ concat (List.map (\<lambda>x. be_bytes 4 (of_nat (length x) :: 32 word) @ x) paths))"

definition canonical_trace_set_hash :: "(string \<Rightarrow> 256 word) \<Rightarrow> prepared list \<Rightarrow> 256 word" where
  "canonical_trace_set_hash sha256 ps =
     (let encoded = sort (List.map (\<lambda>p. canonical_trace_bytes (p_trace p)) ps) in
      sha256 (''KSCT'' @ be_bytes 2 (3 :: 16 word) @ be_bytes 4 (of_nat (length encoded) :: 32 word)
        @ concat (List.map (\<lambda>x. be_bytes 4 (of_nat (length x) :: 32 word) @ x) encoded)))"

record candidate =
  ca_schema :: "16 word"
  ca_controls :: control_mask

definition canonical_candidate_hash :: "(string \<Rightarrow> 256 word) \<Rightarrow> candidate \<Rightarrow> 256 word" where
  "canonical_candidate_hash sha256 c = sha256 (''KSCP'' @ be_bytes 2 (ca_schema c) @ be_bytes 2 (ca_controls c))"

record certificate =
  ce_schema :: "16 word"
  ce_trace_set_hash :: "256 word"
  ce_candidate_hash :: "256 word"
  ce_attack_count :: nat
  ce_blocked_count :: nat
  ce_benign_total :: nat
  ce_benign_retained :: nat
  ce_control_count :: nat
  ce_control_cost :: nat

definition schema_version :: "16 word" where
  [const_simps]: "schema_version = 3"

section \<open>Corpora\<close>

record corpus =
  c_traces :: "prepared list"
  c_hash :: "256 word"
  c_attacks :: nat
  c_benign :: nat

text \<open>\<open>behaviorFingerprint\<close>: a class byte and one bit for each of the 256 cuts.\<close>

definition behaves :: "prepared \<Rightarrow> control_mask \<Rightarrow> bool" where
  "behaves p cm =
     (if t_class (p_trace p) = TraceAttack
      then list_ex (\<lambda>s. behavior_source_reaches_sink p (idx p s) cm) (t_sources (p_trace p))
      else list_all (\<lambda>s. behavior_source_reaches_sink p (idx p s) cm) (t_sources (p_trace p))
        \<and> t_class (p_trace p) = TraceBenign)"

definition fingerprint :: "prepared \<Rightarrow> 8 word list" where
  "fingerprint p = foldl (\<lambda>fp raw. if behaves p (of_nat raw)
       then fp[1 + raw div 8 := fp ! (1 + raw div 8) OR push_bit (raw mod 8) 1] else fp)
     (class_byte (t_class (p_trace p)) # replicate 32 0) [0..<256]"

definition search_work :: "trace \<Rightarrow> nat" where
  "search_work t = length (t_sources t) * (length (t_nodes t) + length (t_edges t))"

definition max_search_work :: nat where
  [const_simps]: "max_search_work = 50000000"

definition candidate_count :: nat where
  "candidate_count = unat known_control_mask + 1"

fun prepare_loop :: "trace list \<Rightarrow> nat \<Rightarrow> 8 word list set \<Rightarrow> prepared list \<Rightarrow> nat \<Rightarrow> nat
    \<Rightarrow> (sc_error, prepared list \<times> nat \<times> nat) result" where
  "prepare_loop [] work seen ps attacks benign = Inr (ps, attacks, benign)"
| "prepare_loop (t # ts) work seen ps attacks benign =
     (case prepare_trace t of Inl e \<Rightarrow> Inl e | Inr p \<Rightarrow>
       (let work' = work + search_work (p_trace p); fp = fingerprint p in
        if work' > max_search_work div candidate_count then Inl ErrInvalidCorpus
        else if fp \<in> seen then Inl ErrInvalidCorpus
        else case t_class t of
          TraceAttack \<Rightarrow> prepare_loop ts work' (insert fp seen) (ps @ [p]) (attacks + 1) benign
        | TraceBenign \<Rightarrow> prepare_loop ts work' (insert fp seen) (ps @ [p]) attacks (benign + unat (t_weight t))
        | TraceClassOther _ \<Rightarrow> Inl ErrInvalidCorpus))"

definition prepare_corpus :: "(string \<Rightarrow> 256 word) \<Rightarrow> trace list \<Rightarrow> (sc_error, corpus) result" where
  "prepare_corpus sha256 ts =
     (if length ts = 0 \<or> length ts > 1024 then Inl ErrInvalidCorpus
      else case prepare_loop ts 0 {} [] 0 0 of Inl e \<Rightarrow> Inl e | Inr (ps, attacks, benign) \<Rightarrow>
        (if attacks = 0 \<or> benign = 0 then Inl ErrInvalidCorpus
         else Inr \<lparr>c_traces = ps, c_hash = canonical_trace_set_hash sha256 ps,
                c_attacks = attacks, c_benign = benign\<rparr>))"

section \<open>Synthesis\<close>

record objective =
  ob_blocked :: nat
  ob_retained :: nat
  ob_count :: nat
  ob_cost :: nat
  ob_mask :: control_mask

definition ones_count16 :: "16 word \<Rightarrow> nat" where
  "ones_count16 w = length (filter (bit w) [0..<16])"

definition any_source_reaches_sink :: "prepared \<Rightarrow> control_mask \<Rightarrow> bool" where
  "any_source_reaches_sink p cm = list_ex (\<lambda>s. source_reaches_sink p (idx p s) cm) (t_sources (p_trace p))"

fun score_trace :: "(prepared \<Rightarrow> control_mask \<Rightarrow> bool) \<Rightarrow> (prepared \<Rightarrow> control_mask \<Rightarrow> bool) \<Rightarrow> objective \<Rightarrow> prepared \<Rightarrow> objective" where
  "score_trace any_op all_op ob p =
     (case t_class (p_trace p) of
        TraceAttack \<Rightarrow> if any_op p (ob_mask ob) then ob else ob\<lparr>ob_blocked := ob_blocked ob + 1\<rparr>
      | TraceBenign \<Rightarrow> if all_op p (ob_mask ob) then ob\<lparr>ob_retained := ob_retained ob + unat (t_weight (p_trace p))\<rparr> else ob
      | TraceClassOther _ \<Rightarrow> ob)"

declare score_trace.simps [simp del]

definition start_objective :: "control_mask \<Rightarrow> objective" where
  "start_objective m = \<lparr>ob_blocked = 0, ob_retained = 0, ob_count = ones_count16 m, ob_cost = control_cost m, ob_mask = m\<rparr>"

definition synthesize_objective :: "corpus \<Rightarrow> control_mask \<Rightarrow> objective" where
  "synthesize_objective c m =
     foldl (score_trace any_source_reaches_sink all_sources_reach_sink) (start_objective m) (c_traces c)"

definition better_objective :: "objective \<Rightarrow> objective \<Rightarrow> bool" where
  "better_objective a b =
     (if ob_retained a \<noteq> ob_retained b then ob_retained a > ob_retained b
      else if ob_count a \<noteq> ob_count b then ob_count a < ob_count b
      else if ob_cost a \<noteq> ob_cost b then ob_cost a < ob_cost b
      else ob_mask a < ob_mask b)"

text \<open>The search loop of both sides, over their own objective and order.\<close>

definition search_step :: "(control_mask \<Rightarrow> objective) \<Rightarrow> (objective \<Rightarrow> objective \<Rightarrow> bool) \<Rightarrow> nat
    \<Rightarrow> objective option \<Rightarrow> nat \<Rightarrow> objective option" where
  "search_step score better attacks best raw =
     (let s = score (of_nat raw) in
      if ob_blocked s \<noteq> attacks then best
      else case best of None \<Rightarrow> Some s | Some b \<Rightarrow> if better s b then Some s else Some b)"

definition search :: "(control_mask \<Rightarrow> objective) \<Rightarrow> (objective \<Rightarrow> objective \<Rightarrow> bool) \<Rightarrow> nat \<Rightarrow> objective option" where
  "search score better attacks = foldl (search_step score better attacks) None [0..<unat known_control_mask + 1]"

definition certificate_of :: "(string \<Rightarrow> 256 word) \<Rightarrow> corpus \<Rightarrow> candidate \<Rightarrow> objective \<Rightarrow> certificate" where
  "certificate_of sha256 c ca best =
     \<lparr>ce_schema = schema_version, ce_trace_set_hash = c_hash c, ce_candidate_hash = canonical_candidate_hash sha256 ca,
      ce_attack_count = c_attacks c, ce_blocked_count = ob_blocked best, ce_benign_total = c_benign c,
      ce_benign_retained = ob_retained best, ce_control_count = ob_count best, ce_control_cost = ob_cost best\<rparr>"

definition synthesize :: "(string \<Rightarrow> 256 word) \<Rightarrow> trace list \<Rightarrow> (sc_error, candidate \<times> certificate) result" where
  "synthesize sha256 ts =
     (case prepare_corpus sha256 ts of Inl e \<Rightarrow> Inl e | Inr c \<Rightarrow>
       (case search (synthesize_objective c) better_objective (c_attacks c) of
          None \<Rightarrow> Inl ErrInfeasible
        | Some best \<Rightarrow>
          (let ca = \<lparr>ca_schema = schema_version, ca_controls = ob_mask best\<rparr> in
           Inr (ca, certificate_of sha256 c ca best))))"

section \<open>Verification\<close>

definition verify_any :: "prepared \<Rightarrow> control_mask \<Rightarrow> bool" where
  "verify_any p cm = list_ex (\<lambda>s. verify_source_reaches_sink p (idx p s) cm) (t_sources (p_trace p))"

definition verify_all :: "prepared \<Rightarrow> control_mask \<Rightarrow> bool" where
  "verify_all p cm = list_all (\<lambda>s. verify_source_reaches_sink p (idx p s) cm) (t_sources (p_trace p))"

definition verify_objective :: "corpus \<Rightarrow> control_mask \<Rightarrow> objective" where
  "verify_objective c m = foldl (score_trace verify_any verify_all) (start_objective m) (c_traces c)"

definition verify_better :: "objective \<Rightarrow> objective \<Rightarrow> bool" where
  "verify_better a b =
     (if ob_retained a > ob_retained b then True else if ob_retained a < ob_retained b then False
      else if ob_count a < ob_count b then True else if ob_count a > ob_count b then False
      else if ob_cost a < ob_cost b then True else if ob_cost a > ob_cost b then False
      else ob_mask a < ob_mask b)"

definition verify :: "(string \<Rightarrow> 256 word) \<Rightarrow> trace list \<Rightarrow> candidate \<Rightarrow> certificate \<Rightarrow> (sc_error, unit) result" where
  "verify sha256 ts ca cert =
     (if ca_schema ca \<noteq> schema_version \<or> \<not> valid_control_mask (ca_controls ca) then Inl ErrInvalidCandidate
      else case prepare_corpus sha256 ts of Inl e \<Rightarrow> Inl e | Inr c \<Rightarrow>
        (case search (verify_objective c) verify_better (c_attacks c) of
           None \<Rightarrow> Inl ErrInfeasible
         | Some best \<Rightarrow>
           (if ca_controls ca \<noteq> ob_mask best then Inl ErrVerification
            else if cert \<noteq> certificate_of sha256 c ca best then Inl ErrVerification
            else Inr ())))"

section \<open>What a corpus and an objective are\<close>

definition prepared_of :: "trace \<Rightarrow> prepared" where
  "prepared_of t = projr (prepare_trace t)"

lemma prepare_trace_class: "prepare_trace t = Inr p \<Longrightarrow> t_class t = TraceAttack \<or> t_class t = TraceBenign"
  by (erule prepare_trace_Inr) (auto simp: trace_bounds_ok_def split: trace_class.splits)

lemma prepare_loop_Inr:
  "prepare_loop ts work seen ps attacks benign = Inr (ps', attacks', benign') \<longleftrightarrow>
     (\<forall>t \<in> set ts. prepare_trace t = Inr (prepared_of t)) \<and> ps' = ps @ List.map prepared_of ts
     \<and> (ts = [] \<or> work + sum_list (List.map search_work ts) \<le> max_search_work div candidate_count)
     \<and> distinct (List.map (fingerprint o prepared_of) ts) \<and> (\<forall>t \<in> set ts. fingerprint (prepared_of t) \<notin> seen)
     \<and> attacks' = attacks + length (filter (\<lambda>t. t_class t = TraceAttack) ts)
     \<and> benign' = benign + sum_list (List.map (\<lambda>t. if t_class t = TraceBenign then unat (t_weight t) else 0) ts)"
proof (induction ts arbitrary: work seen ps attacks benign)
  case (Cons t ts)
  show ?case
  proof (cases "prepare_trace t")
    case (Inl e)
    then show ?thesis by (auto simp: prepared_of_def)
  next
    case (Inr p)
    then have p: "p = prepared_of t" "p_trace p = t" using prepare_trace_ok(1) by (auto simp: prepared_of_def)
    show ?thesis
    proof (cases "work + search_work t > max_search_work div candidate_count \<or> fingerprint p \<in> seen")
      case True
      then show ?thesis using Inr p by (auto simp: Let_def)
    next
      case False
      then show ?thesis
        using Inr p prepare_trace_class [OF Inr] by (auto simp: Let_def Cons.IH image_iff)
    qed
  qed
qed auto

lemma prepare_corpus_Inr:
  "prepare_corpus sha256 ts = Inr c \<longleftrightarrow>
     ts \<noteq> [] \<and> length ts \<le> 1024 \<and> (\<forall>t \<in> set ts. prepare_trace t = Inr (prepared_of t))
     \<and> sum_list (List.map search_work ts) \<le> max_search_work div candidate_count
     \<and> distinct (List.map (fingerprint o prepared_of) ts)
     \<and> c_attacks c = length (filter (\<lambda>t. t_class t = TraceAttack) ts) \<and> c_attacks c \<noteq> 0
     \<and> c_benign c = sum_list (List.map (\<lambda>t. if t_class t = TraceBenign then unat (t_weight t) else 0) ts) \<and> c_benign c \<noteq> 0
     \<and> c_traces c = List.map prepared_of ts \<and> c_hash c = canonical_trace_set_hash sha256 (List.map prepared_of ts)"
proof -
  have "prepare_corpus sha256 ts = Inr c \<longleftrightarrow> ts \<noteq> [] \<and> length ts \<le> 1024 \<and> c_attacks c \<noteq> 0 \<and> c_benign c \<noteq> 0
      \<and> prepare_loop ts 0 {} [] 0 0 = Inr (c_traces c, c_attacks c, c_benign c)
      \<and> c_hash c = canonical_trace_set_hash sha256 (c_traces c)"
    by (cases c) (auto simp: prepare_corpus_def split: sum.split)
  then show ?thesis unfolding prepare_loop_Inr by auto
qed

text \<open>
  The fuel of the canonical form is enough on a prepared trace: every edge leads to a larger
  identifier, and none exceeds the number of nodes.
\<close>

lemma canonical_path_enough:
  assumes "linked p" and "unat v \<le> p_count p" "p_count p < fuel + unat v"
  shows "canonical_path (p_trace p) (fuel + d) v = canonical_path (p_trace p) fuel v"
  using assms(2,3)
proof (induction fuel arbitrary: v)
  case (Suc fuel)
  show ?case
  proof (cases "outgoing_map (p_trace p) v")
    case (Some e)
    then have e: "e \<in> set (t_edges (p_trace p))" "e_from e = v"
      unfolding outgoing_map_def by (auto dest!: map_of_SomeD)
    then have "good_edge (t_nodes (p_trace p)) (p_index p) e" using assms(1) by (auto simp: linked_def)
    then obtain j where "p_index p (e_to e) = Some j" and lt: "unat v < unat (e_to e)"
      using e(2) by (auto simp: good_edge_def word_less_nat_alt)
    then have "j < p_count p" "n_id (p_node p j) = e_to e" using assms(1) by (auto simp: linked_def)
    then have "unat (e_to e) \<le> p_count p" using assms(1) by (metis linked_def)
    then show ?thesis using Suc lt Some by simp
  qed simp
qed simp

text \<open>The counters of a prepared corpus stay far below their widths.\<close>

lemma corpus_bounds:
  assumes "prepare_corpus sha256 ts = Inr c"
  shows "c_attacks c \<le> 1024" "c_benign c \<le> 1024 * 1000000"
proof -
  have ok: "length ts \<le> 1024" "\<forall>t \<in> set ts. prepare_trace t = Inr (prepared_of t)"
      "c_attacks c = length (filter (\<lambda>t. t_class t = TraceAttack) ts)"
      "c_benign c = sum_list (List.map (\<lambda>t. if t_class t = TraceBenign then unat (t_weight t) else 0) ts)"
    using assms by (auto simp: prepare_corpus_Inr)
  show "c_attacks c \<le> 1024" unfolding ok(3) by (rule order_trans [OF length_filter_le ok(1)])
  have "unat (t_weight t) \<le> 1000000" if "t \<in> set ts" for t
  proof -
    have "trace_bounds_ok t" using ok(2) that by (auto elim: prepare_trace_Inr)
    then have "t_weight t \<le> 1000000" by (auto simp: trace_bounds_ok_def not_less)
    then show ?thesis by (simp add: word_le_nat_alt)
  qed
  then have "sum_list (List.map (\<lambda>t. if t_class t = TraceBenign then unat (t_weight t) else 0) ts) \<le> length ts * 1000000"
    by (induction ts) (auto simp: add_mono)
  then show "c_benign c \<le> 1024 * 1000000" using ok(1,4) by linarith
qed

text \<open>The specification of an objective, over traces.\<close>

definition blocks :: "trace \<Rightarrow> control_mask \<Rightarrow> bool" where
  "blocks t m \<longleftrightarrow> (\<forall>s \<in> set (t_sources t). \<not> effective t m s)"

definition retains :: "trace \<Rightarrow> control_mask \<Rightarrow> bool" where
  "retains t m \<longleftrightarrow> (\<forall>s \<in> set (t_sources t). effective t m s)"

definition blocked_count :: "trace list \<Rightarrow> control_mask \<Rightarrow> nat" where
  "blocked_count ts m = length (filter (\<lambda>t. t_class t = TraceAttack \<and> blocks t m) ts)"

definition retained_weight :: "trace list \<Rightarrow> control_mask \<Rightarrow> nat" where
  "retained_weight ts m = sum_list (List.map (\<lambda>t. if t_class t = TraceBenign \<and> retains t m then unat (t_weight t) else 0) ts)"

definition spec_objective :: "trace list \<Rightarrow> control_mask \<Rightarrow> objective" where
  "spec_objective ts m = \<lparr>ob_blocked = blocked_count ts m, ob_retained = retained_weight ts m,
     ob_count = ones_count16 m, ob_cost = control_cost m, ob_mask = m\<rparr>"

lemma trace_scores:
  assumes "prepare_trace t = Inr p"
  shows "any_source_reaches_sink p m \<longleftrightarrow> \<not> blocks t m" "all_sources_reach_sink p m \<longleftrightarrow> retains t m"
    "verify_any p m \<longleftrightarrow> \<not> blocks t m" "verify_all p m \<longleftrightarrow> retains t m"
  using source_searches [OF assms] prepare_trace_ok(1) [OF assms]
  by (auto simp: any_source_reaches_sink_def all_sources_reach_sink_def verify_any_def verify_all_def
      blocks_def retains_def list_ex_iff list_all_iff)

lemma score_fold:
  assumes "\<forall>t \<in> set ts. prepare_trace t = Inr (prepared_of t)"
    and "\<And>t. t \<in> set ts \<Longrightarrow> any_op (prepared_of t) (ob_mask ob) \<longleftrightarrow> \<not> blocks t (ob_mask ob)"
    and "\<And>t. t \<in> set ts \<Longrightarrow> all_op (prepared_of t) (ob_mask ob) \<longleftrightarrow> retains t (ob_mask ob)"
  shows "foldl (score_trace any_op all_op) ob (List.map prepared_of ts) =
    ob\<lparr>ob_blocked := ob_blocked ob + blocked_count ts (ob_mask ob),
       ob_retained := ob_retained ob + retained_weight ts (ob_mask ob)\<rparr>"
  using assms
proof (induction ts arbitrary: ob)
  case Nil
  then show ?case by (simp add: blocked_count_def retained_weight_def)
next
  case (Cons t ts)
  have t: "prepare_trace t = Inr (prepared_of t)" using Cons.prems(1) by simp
  note cls = prepare_trace_class [OF t] and tr = prepare_trace_ok(1) [OF t]
  let ?ob = "score_trace any_op all_op ob (prepared_of t)"
  note sc = score_trace.simps [of any_op all_op ob "prepared_of t"]
  have mask: "ob_mask ?ob = ob_mask ob" using cls tr by (auto simp: sc)
  have "foldl (score_trace any_op all_op) ?ob (List.map prepared_of ts) =
      ?ob\<lparr>ob_blocked := ob_blocked ?ob + blocked_count ts (ob_mask ob),
         ob_retained := ob_retained ?ob + retained_weight ts (ob_mask ob)\<rparr>"
    using Cons.IH [of ?ob, unfolded mask] Cons.prems by simp
  then show ?case
    using cls tr Cons.prems(2,3) [of t] by (auto simp: sc blocked_count_def retained_weight_def)
qed

lemma objectives_spec:
  assumes "prepare_corpus sha256 ts = Inr c"
  shows "synthesize_objective c m = spec_objective ts m" "verify_objective c m = spec_objective ts m"
proof -
  have ok: "\<forall>t \<in> set ts. prepare_trace t = Inr (prepared_of t)" "c_traces c = List.map prepared_of ts"
    using assms by (auto simp: prepare_corpus_Inr)
  show "synthesize_objective c m = spec_objective ts m" "verify_objective c m = spec_objective ts m"
    using score_fold [OF ok(1), of any_source_reaches_sink "start_objective m" all_sources_reach_sink]
      score_fold [OF ok(1), of verify_any "start_objective m" verify_all] ok trace_scores
    by (simp_all add: synthesize_objective_def verify_objective_def start_objective_def spec_objective_def)
qed

section \<open>The search finds the best cut\<close>

text \<open>The order of objectives as a lexicographic key.\<close>

definition objective_key :: "objective \<Rightarrow> int \<times> nat \<times> nat \<times> control_mask" where
  "objective_key ob = (- int (ob_retained ob), ob_count ob, ob_cost ob, ob_mask ob)"

lemma better_key:
  "better_objective = (\<lambda>a b. objective_key a < objective_key b)"
  "verify_better = (\<lambda>a b. objective_key a < objective_key b)"
  by (auto simp: fun_eq_iff better_objective_def verify_better_def objective_key_def less_prod_def)

lemma search_fold:
  fixes key :: "objective \<Rightarrow> 'k :: linorder"
  shows "case foldl (search_step score (\<lambda>a b. key a < key b) n) best raws of
      None \<Rightarrow> best = None \<and> (\<forall>r \<in> set raws. ob_blocked (score (of_nat r)) \<noteq> n)
    | Some b \<Rightarrow> (best = Some b \<or> (\<exists>r \<in> set raws. b = score (of_nat r) \<and> ob_blocked b = n))
        \<and> (\<forall>r \<in> set raws. ob_blocked (score (of_nat r)) = n \<longrightarrow> key b \<le> key (score (of_nat r)))
        \<and> (\<forall>b0. best = Some b0 \<longrightarrow> key b \<le> key b0)"
proof (induction raws arbitrary: best)
  case Nil
  then show ?case by (simp split: option.split)
next
  case (Cons r rs)
  let ?s = "score (of_nat r)"
  show ?case
    using Cons.IH [of "search_step score (\<lambda>a b. key a < key b) n best r"]
    by (cases best) (auto simp: search_step_def Let_def split: option.splits if_splits intro: order_trans)
qed

lemma search_result:
  fixes key :: "objective \<Rightarrow> 'k :: linorder"
  shows "search score (\<lambda>a b. key a < key b) n = None \<longleftrightarrow> (\<forall>r < 256. ob_blocked (score (of_nat r)) \<noteq> n)"
    and "search score (\<lambda>a b. key a < key b) n = Some b \<Longrightarrow>
      (\<exists>r < 256. b = score (of_nat r)) \<and> ob_blocked b = n
      \<and> (\<forall>r < 256. ob_blocked (score (of_nat r)) = n \<longrightarrow> key b \<le> key (score (of_nat r)))"
proof -
  note fold = search_fold [where score = score and key = key and n = n and best = None and raws = "[0..<256]"]
  have sr: "search score (\<lambda>a b. key a < key b) n = foldl (search_step score (\<lambda>a b. key a < key b) n) None [0..<256]"
    by (simp add: search_def known_control_mask_def)
  show "search score (\<lambda>a b. key a < key b) n = None \<longleftrightarrow> (\<forall>r < 256. ob_blocked (score (of_nat r)) \<noteq> n)"
    using fold unfolding sr by (auto split: option.splits)
  assume "search score (\<lambda>a b. key a < key b) n = Some b"
  then show "(\<exists>r < 256. b = score (of_nat r)) \<and> ob_blocked b = n
      \<and> (\<forall>r < 256. ob_blocked (score (of_nat r)) = n \<longrightarrow> key b \<le> key (score (of_nat r)))"
    using fold unfolding sr by auto
qed

text \<open>Cutting more leaves less: whatever passes a larger cut passes a smaller one.\<close>

lemma effective_antimono:
  assumes "effective t m' s" "m AND m' = m"
  shows "effective t m s"
proof -
  have uncut: "x AND m = 0" if "x AND m' = 0" for x :: control_mask
  proof -
    have "x AND m = (x AND m') AND m" using assms(2) by (metis and.assoc and.commute)
    then show ?thesis using that by simp
  qed
  have "uncut_rel t m' \<subseteq> uncut_rel t m" using uncut by (auto simp: uncut_rel_def)
  then have "(uncut_rel t m')\<^sup>* \<subseteq> (uncut_rel t m)\<^sup>*" by (rule rtrancl_mono)
  moreover have "executable t m' k \<Longrightarrow> executable t m k" for k
    using uncut by (auto simp: executable_def)
  ultimately show ?thesis using assms(1) by (auto simp: effective_def)
qed

lemma unat_small: "r < 256 \<Longrightarrow> unat (of_nat r :: control_mask) = r"
  by (simp add: unsigned_of_nat take_bit_nat_eq_self_iff)

lemma valid_mask_iff: "valid_control_mask m \<longleftrightarrow> unat m < 256"
proof -
  have "known_control_mask = Bit_Operations.mask 8" by (simp add: known_control_mask_def mask_eq_exp_minus_1)
  then have "valid_control_mask m \<longleftrightarrow> m AND NOT (Bit_Operations.mask 8) = 0" by (simp add: valid_control_mask_def)
  also have "\<dots> \<longleftrightarrow> take_bit 8 m = m"
    by (auto simp: bit_eq_iff bit_simps dest: bit_imp_le_length)
  also have "\<dots> \<longleftrightarrow> unat m < 256"
  proof -
    have "take_bit 8 m = m \<longleftrightarrow> take_bit 8 (unat m) = unat m"
      by (simp add: word_unat_eq_iff unsigned_take_bit_eq)
    then show ?thesis by (simp add: take_bit_nat_eq_self_iff)
  qed
  finally show ?thesis .
qed

lemma valid_masks: "(\<forall>r < 256. P (of_nat r :: control_mask)) \<longleftrightarrow> (\<forall>m. valid_control_mask m \<longrightarrow> P m)"
proof
  assume all: "\<forall>r < 256. P (of_nat r :: control_mask)"
  show "\<forall>m. valid_control_mask m \<longrightarrow> P m"
  proof (intro allI impI)
    fix m :: control_mask
    assume "valid_control_mask m"
    then have "P (of_nat (unat m))" using all by (simp only: valid_mask_iff)
    then show "P m" by simp
  qed
next
  assume all: "\<forall>m. valid_control_mask m \<longrightarrow> P m"
  show "\<forall>r < 256. P (of_nat r :: control_mask)"
  proof (intro allI impI)
    fix r :: nat
    assume "r < 256"
    then have "unat (of_nat r :: control_mask) < 256" using unat_small by metis
    then show "P (of_nat r)" using all by (simp only: valid_mask_iff)
  qed
qed

lemma feasible_iff:
  assumes "prepare_corpus sha256 ts = Inr c"
  shows "blocked_count ts m = c_attacks c \<longleftrightarrow> (\<forall>t \<in> set ts. t_class t = TraceAttack \<longrightarrow> blocks t m)"
proof -
  have "c_attacks c = length (filter (\<lambda>t. t_class t = TraceAttack) ts)" using assms by (simp add: prepare_corpus_Inr)
  moreover have "length (filter (\<lambda>t. t_class t = TraceAttack \<and> blocks t m) ts) = length (filter (\<lambda>t. t_class t = TraceAttack) ts)
      \<longleftrightarrow> (\<forall>t \<in> set ts. t_class t = TraceAttack \<longrightarrow> blocks t m)" for ts
  proof (induction ts)
    case (Cons t ts)
    have "length (filter (\<lambda>t. t_class t = TraceAttack \<and> blocks t m) ts) \<le> length (filter (\<lambda>t. t_class t = TraceAttack) ts)"
      by (induction ts) auto
    then show ?case using Cons.IH by auto
  qed simp
  ultimately show ?thesis by (simp add: blocked_count_def)
qed

lemma synthesize_Inr:
  "synthesize sha256 ts = Inr (ca, cert) \<longleftrightarrow> (\<exists>c best. prepare_corpus sha256 ts = Inr c
     \<and> search (spec_objective ts) better_objective (c_attacks c) = Some best
     \<and> ca = \<lparr>ca_schema = schema_version, ca_controls = ob_mask best\<rparr> \<and> cert = certificate_of sha256 c ca best)"
proof -
  have "synthesize_objective c = spec_objective ts" if "prepare_corpus sha256 ts = Inr c" for c
    using objectives_spec(1) [OF that] by blast
  then show ?thesis by (auto simp: synthesize_def Let_def split: sum.split option.split)
qed

lemma search_spec:
  assumes "search (spec_objective ts) better_objective n = Some best"
  shows "best = spec_objective ts (ob_mask best)" "valid_control_mask (ob_mask best)"
    "blocked_count ts (ob_mask best) = n"
    "\<And>m. valid_control_mask m \<Longrightarrow> blocked_count ts m = n \<Longrightarrow> objective_key best \<le> objective_key (spec_objective ts m)"
proof -
  have res: "(\<exists>r < 256. best = spec_objective ts (of_nat r)) \<and> ob_blocked best = n
      \<and> (\<forall>r < 256. ob_blocked (spec_objective ts (of_nat r)) = n \<longrightarrow> objective_key best \<le> objective_key (spec_objective ts (of_nat r)))"
    using assms unfolding better_key(1) by (rule search_result)
  then obtain r where r: "r < 256" "best = spec_objective ts (of_nat r)" by blast
  then show "best = spec_objective ts (ob_mask best)" by (simp add: spec_objective_def)
  have "unat (of_nat r :: control_mask) < 256" using r(1) unat_small by metis
  then show "valid_control_mask (ob_mask best)" using r(2) by (simp add: spec_objective_def valid_mask_iff)
  show "blocked_count ts (ob_mask best) = n" using res r(2) by (simp add: spec_objective_def)
  show "\<And>m. valid_control_mask m \<Longrightarrow> blocked_count ts m = n \<Longrightarrow> objective_key best \<le> objective_key (spec_objective ts m)"
    using res valid_masks [of "\<lambda>m. blocked_count ts m = n \<longrightarrow> objective_key best \<le> objective_key (spec_objective ts m)"]
    by (simp add: spec_objective_def)
qed

lemma prepare_errors:
  "prepare_trace t = Inl e \<Longrightarrow> e = ErrInvalidTrace"
  "prepare_corpus sha256 ts = Inl e \<Longrightarrow> e = ErrInvalidTrace \<or> e = ErrInvalidCorpus"
proof -
  have tr: "prepare_trace t = Inl e \<Longrightarrow> e = ErrInvalidTrace" for t e
    by (auto simp: prepare_trace_def split: option.splits if_splits prod.splits)
  then show "prepare_trace t = Inl e \<Longrightarrow> e = ErrInvalidTrace" .
  have "prepare_loop ts work seen ps attacks benign = Inl e \<Longrightarrow> e = ErrInvalidTrace \<or> e = ErrInvalidCorpus"
    for work seen ps attacks benign
    by (induction ts arbitrary: work seen ps attacks benign)
      (auto simp: Let_def split: sum.splits if_splits trace_class.splits dest: tr)
  then show "prepare_corpus sha256 ts = Inl e \<Longrightarrow> e = ErrInvalidTrace \<or> e = ErrInvalidCorpus"
    by (auto simp: prepare_corpus_def split: sum.splits if_splits prod.splits)
qed

lemma valid_mask_known: "valid_control_mask m \<longleftrightarrow> m AND known_control_mask = m"
  by (auto simp: valid_control_mask_def bit_eq_iff bit_simps dest: bit_imp_le_length)

lemma blocks_mono: "blocks t m \<Longrightarrow> m AND m' = m \<Longrightarrow> blocks t m'"
  using effective_antimono by (auto simp: blocks_def)

lemma synthesize_infeasible:
  assumes "prepare_corpus sha256 ts = Inr c"
  shows "synthesize sha256 ts = Inl ErrInfeasible
    \<longleftrightarrow> (\<exists>t \<in> set ts. t_class t = TraceAttack \<and> \<not> blocks t known_control_mask)"
proof -
  have spec: "synthesize_objective c = spec_objective ts" using objectives_spec(1) [OF assms] by blast
  have full: "valid_control_mask known_control_mask" by (simp add: valid_mask_known)
  have "synthesize sha256 ts = Inl ErrInfeasible \<longleftrightarrow> search (spec_objective ts) better_objective (c_attacks c) = None"
    using assms spec by (auto simp: synthesize_def Let_def split: option.split)
  also have "\<dots> \<longleftrightarrow> (\<forall>m. valid_control_mask m \<longrightarrow> blocked_count ts m \<noteq> c_attacks c)"
    unfolding better_key(1) search_result(1)
    using valid_masks [of "\<lambda>m. blocked_count ts m \<noteq> c_attacks c"] by (simp add: spec_objective_def)
  also have "\<dots> \<longleftrightarrow> (\<exists>t \<in> set ts. t_class t = TraceAttack \<and> \<not> blocks t known_control_mask)"
    unfolding feasible_iff [OF assms]
    using full blocks_mono valid_mask_known by blast
  finally show ?thesis .
qed

lemma hash_permuted:
  "mset ts = mset ts' \<Longrightarrow> canonical_trace_set_hash sha256 (List.map prepared_of ts)
     = canonical_trace_set_hash sha256 (List.map prepared_of ts')"
proof -
  assume eq: "mset ts = mset ts'"
  let ?f = "\<lambda>p. canonical_trace_bytes (p_trace p)"
  have "mset (List.map ?f (List.map prepared_of ts)) = mset (List.map ?f (List.map prepared_of ts'))"
    unfolding List.map.compositionality mset_map eq ..
  then have "sort (List.map ?f (List.map prepared_of ts)) = sort (List.map ?f (List.map prepared_of ts'))"
    by (metis sorted_list_of_multiset_mset)
  then show ?thesis by (simp only: canonical_trace_set_hash_def)
qed

lemma sum_permuted: "mset ts = mset ts' \<Longrightarrow> sum_list (List.map f ts) = (sum_list (List.map f ts') :: nat)"
  by (metis mset_map sum_mset_sum_list)

lemma filter_permuted: "mset ts = mset ts' \<Longrightarrow> length (filter P ts) = length (filter P ts')"
  by (metis mset_filter size_mset)

lemma corpus_permuted:
  assumes "mset ts = mset ts'" "prepare_corpus sha256 ts = Inr c"
  shows "prepare_corpus sha256 ts' = Inr (c\<lparr>c_traces := List.map prepared_of ts'\<rparr>)"
proof -
  note c = assms(2) [unfolded prepare_corpus_Inr sum_permuted [OF assms(1)] filter_permuted [OF assms(1)]
      hash_permuted [OF assms(1)]]
  have same: "set ts' = set ts" "length ts' = length ts" using mset_eq_setD mset_eq_length assms(1) by metis+
  have d: "distinct (List.map (fingerprint o prepared_of) ts')"
    using c assms(1) by (metis mset_eq_imp_distinct_iff mset_map)
  have n: "ts' \<noteq> []" using assms(1) c by auto
  have upd: "c_attacks (c\<lparr>c_traces := x\<rparr>) = c_attacks c" "c_benign (c\<lparr>c_traces := x\<rparr>) = c_benign c"
      "c_hash (c\<lparr>c_traces := x\<rparr>) = c_hash c" "c_traces (c\<lparr>c_traces := x\<rparr>) = x" for x by simp_all
  show ?thesis
    unfolding prepare_corpus_Inr same upd using c d n by blast
qed

lemma spec_permuted:
  assumes "mset ts = mset ts'"
  shows "spec_objective ts = spec_objective ts'"
  by (simp add: fun_eq_iff spec_objective_def blocked_count_def retained_weight_def
      sum_permuted [OF assms] filter_permuted [OF assms])

lemma fingerprint_class: "hd (fingerprint p) = class_byte (t_class (p_trace p))"
proof -
  have "hd (foldl (\<lambda>fp raw. if P raw then fp[1 + raw div 8 := f fp raw] else fp) (x # xs) raws) = x" for P f raws and x :: "8 word" and xs
    by (induction raws arbitrary: xs) (auto simp: list_update.simps(2) split: nat.split)
  then show ?thesis unfolding fingerprint_def .
qed

section \<open>Properties\<close>

text \<open>
  C6. The verifier accepts exactly what the synthesizer produces: over every corpus, valid or not,
  a candidate and a certificate pass the independent verification if and only if they are the
  result of the synthesis, though the two search with different traversals and comparisons.
\<close>

theorem verify_iff_synthesize:
  "verify sha256 ts ca cert = Inr () \<longleftrightarrow> synthesize sha256 ts = Inr (ca, cert)"
proof (cases "prepare_corpus sha256 ts")
  case (Inl e)
  then show ?thesis by (simp add: verify_def synthesize_def)
next
  case (Inr c)
  have ver: "verify_objective c = spec_objective ts" using objectives_spec(2) [OF Inr] by blast
  have better: "verify_better = better_objective" by (simp add: better_key)
  show ?thesis
  proof (cases "search (spec_objective ts) better_objective (c_attacks c)")
    case None
    then show ?thesis using Inr ver better by (auto simp: verify_def synthesize_Inr)
  next
    case (Some best)
    have "valid_control_mask (ob_mask best)" using search_spec(2) [OF Some] .
    then show ?thesis
      using Inr Some ver better by (cases ca) (auto simp: verify_def synthesize_Inr)
  qed
qed

text \<open>
  C14. The synthesized cut is the best one. It blocks every attack trace: from no attack source does
  an uncut path lead to an executable sink. And among all known cuts that do so it retains the
  most benign weight, then uses the fewest controls, then costs least, then is the smallest mask;
  the certificate states its numbers.
\<close>

theorem synthesize_optimal:
  assumes "synthesize sha256 ts = Inr (ca, cert)"
  shows "valid_control_mask (ca_controls ca)
    \<and> (\<forall>t \<in> set ts. t_class t = TraceAttack \<longrightarrow> blocks t (ca_controls ca))
    \<and> ce_benign_retained cert = retained_weight ts (ca_controls ca)
    \<and> ce_control_count cert = ones_count16 (ca_controls ca) \<and> ce_control_cost cert = control_cost (ca_controls ca)
    \<and> (\<forall>m. valid_control_mask m \<and> (\<forall>t \<in> set ts. t_class t = TraceAttack \<longrightarrow> blocks t m) \<longrightarrow>
        (- int (retained_weight ts (ca_controls ca)), ones_count16 (ca_controls ca), control_cost (ca_controls ca), ca_controls ca)
        \<le> (- int (retained_weight ts m), ones_count16 m, control_cost m, m))"
proof -
  obtain c best where c: "prepare_corpus sha256 ts = Inr c"
      "search (spec_objective ts) better_objective (c_attacks c) = Some best"
      "ca = \<lparr>ca_schema = schema_version, ca_controls = ob_mask best\<rparr>" "cert = certificate_of sha256 c ca best"
    using assms unfolding synthesize_Inr by blast
  note s = search_spec [OF c(2)]
  have key: "objective_key best = (- int (retained_weight ts (ca_controls ca)), ones_count16 (ca_controls ca),
      control_cost (ca_controls ca), ca_controls ca)"
    by (subst s(1)) (simp add: objective_key_def spec_objective_def c(3))
  have fields: "ob_retained best = retained_weight ts (ca_controls ca)" "ob_count best = ones_count16 (ca_controls ca)"
      "ob_cost best = control_cost (ca_controls ca)"
    by (subst s(1); simp add: spec_objective_def c(3))+
  have "(- int (retained_weight ts (ca_controls ca)), ones_count16 (ca_controls ca), control_cost (ca_controls ca), ca_controls ca)
      \<le> (- int (retained_weight ts m), ones_count16 m, control_cost m, m)"
    if "valid_control_mask m" "\<forall>t \<in> set ts. t_class t = TraceAttack \<longrightarrow> blocks t m" for m
    using s(4) [OF that(1)] that(2) feasible_iff [OF c(1), of m] key by (simp add: objective_key_def spec_objective_def)
  moreover have "\<forall>t \<in> set ts. t_class t = TraceAttack \<longrightarrow> blocks t (ca_controls ca)"
    using s(3) feasible_iff [OF c(1), of "ob_mask best"] by (simp add: c(3))
  ultimately show ?thesis using s(2) fields by (simp add: c(3,4) certificate_of_def)
qed

definition sample_node :: "node_id \<Rightarrow> node_kind \<Rightarrow> node" where
  "sample_node i k = \<lparr>n_id = i, n_kind = k, n_integrity = IntegrityUntrusted, n_authority = 0, n_requires = 0,
     n_binding = BindingNone, n_bref = 0\<rparr>"

definition sample_attack :: trace where
  "sample_attack = \<lparr>t_class = TraceAttack, t_weight = 1,
     t_nodes = [sample_node 1 NodePDF, sample_node 2 NodeModel, sample_node 3 NodeSink],
     t_edges = [\<lparr>e_from = 1, e_to = 2, e_kind = EdgeQuote, e_controls = 1\<rparr>,
       \<lparr>e_from = 2, e_to = 3, e_kind = EdgeRespond, e_controls = 64\<rparr>], t_sources = [1], t_sinks = [3]\<rparr>"

definition sample_benign :: trace where
  "sample_benign = sample_attack\<lparr>t_class := TraceBenign, t_weight := 5,
     t_edges := [\<lparr>e_from = 1, e_to = 2, e_kind = EdgeQuote, e_controls = 0\<rparr>,
       \<lparr>e_from = 2, e_to = 3, e_kind = EdgeRespond, e_controls = 64\<rparr>]\<rparr>"

lemma sample_prepares:
  "\<not> isl (prepare_trace sample_attack)" "\<not> isl (prepare_trace sample_benign)"
  "\<not> any_source_reaches_sink (prepared_of sample_attack) known_control_mask"
  by code_simp+

lemma sample_corpus: "\<exists>c. prepare_corpus sha256 [sample_attack, sample_benign] = Inr c"
proof -
  have ok: "prepare_trace sample_attack = Inr (prepared_of sample_attack)"
      "prepare_trace sample_benign = Inr (prepared_of sample_benign)"
    using sample_prepares(1,2) by (simp_all add: prepared_of_def)
  have cls: "t_class sample_attack = TraceAttack" "t_class sample_benign = TraceBenign" "unat (t_weight sample_benign) = 5"
    by (simp_all add: sample_benign_def sample_attack_def)
  have "hd (fingerprint (prepared_of sample_attack)) \<noteq> hd (fingerprint (prepared_of sample_benign))"
    using prepare_trace_ok(1) [OF ok(1)] prepare_trace_ok(1) [OF ok(2)] cls by (simp add: fingerprint_class)
  then have "fingerprint (prepared_of sample_attack) \<noteq> fingerprint (prepared_of sample_benign)" by auto
  moreover have "search_work sample_attack + search_work sample_benign \<le> max_search_work div candidate_count"
    by (simp add: search_work_def sample_benign_def sample_attack_def max_search_work_def candidate_count_def
        known_control_mask_def)
  ultimately have "prepare_corpus sha256 [sample_attack, sample_benign] = Inr
      \<lparr>c_traces = [prepared_of sample_attack, prepared_of sample_benign],
       c_hash = canonical_trace_set_hash sha256 [prepared_of sample_attack, prepared_of sample_benign],
       c_attacks = 1, c_benign = 5\<rparr>"
    using ok cls by (simp add: prepare_corpus_Inr)
  then show ?thesis ..
qed

lemma sample_feasible: "\<exists>ca cert. synthesize sha256 [sample_attack, sample_benign] = Inr (ca, cert)"
proof -
  obtain c where c: "prepare_corpus sha256 [sample_attack, sample_benign] = Inr c" using sample_corpus by blast
  have ok: "prepare_trace sample_attack = Inr (prepared_of sample_attack)"
    using sample_prepares(1) by (simp add: prepared_of_def)
  have "blocks sample_attack known_control_mask" using sample_prepares(3) trace_scores(1) [OF ok] by blast
  moreover have "t_class sample_benign = TraceBenign" by (simp add: sample_benign_def)
  ultimately have "synthesize sha256 [sample_attack, sample_benign] \<noteq> Inl ErrInfeasible"
    using synthesize_infeasible [OF c] by auto
  then show ?thesis using c by (auto simp: synthesize_def Let_def split: option.splits)
qed

lemma synthesize_optimal_witness:
  "\<exists>ca cert. synthesize (\<lambda>_. 0) [sample_attack, sample_benign] = Inr (ca, cert)
     \<and> valid_control_mask (ca_controls ca) \<and> blocks sample_attack (ca_controls ca)
     \<and> ce_control_count cert = ones_count16 (ca_controls ca)"
proof -
  obtain ca cert where s: "synthesize (\<lambda>_. 0) [sample_attack, sample_benign] = Inr (ca, cert)"
    using sample_feasible by blast
  moreover have "t_class sample_attack = TraceAttack" by (simp add: sample_attack_def)
  ultimately show ?thesis using synthesize_optimal [OF s] by auto
qed

text \<open>
  Synthesis fails as infeasible exactly on a valid corpus with an attack trace that even the
  cut of every known control leaves open; any other failure means that the corpus itself was
  refused.
\<close>

theorem infeasible_iff_full_cut_fails:
  "synthesize sha256 ts = Inl ErrInfeasible \<longleftrightarrow>
     (\<exists>c. prepare_corpus sha256 ts = Inr c)
     \<and> (\<exists>t \<in> set ts. t_class t = TraceAttack \<and> \<not> blocks t known_control_mask)"
proof (cases "prepare_corpus sha256 ts")
  case (Inl e)
  then have "e \<noteq> ErrInfeasible" using prepare_errors(2) by blast
  then show ?thesis using Inl by (simp add: synthesize_def)
next
  case (Inr c)
  then show ?thesis using synthesize_infeasible [OF Inr] by simp
qed

text \<open>
  The order of the traces in a corpus does not matter: a permuted corpus gives the same
  candidate and the same certificate, the hash of the trace set included.
\<close>

theorem synthesize_order_independent:
  assumes "mset ts = mset ts'" and "synthesize sha256 ts = Inr r"
  shows "synthesize sha256 ts' = Inr r"
proof -
  obtain ca cert where r: "r = (ca, cert)" by (cases r)
  obtain c best where c: "prepare_corpus sha256 ts = Inr c"
      "search (spec_objective ts) better_objective (c_attacks c) = Some best"
      "ca = \<lparr>ca_schema = schema_version, ca_controls = ob_mask best\<rparr>" "cert = certificate_of sha256 c ca best"
    using assms(2) unfolding r synthesize_Inr by blast
  then show ?thesis
    unfolding r synthesize_Inr
    using corpus_permuted [OF assms(1) c(1)] spec_permuted [OF assms(1)]
    by (auto simp: certificate_of_def)
qed

lemma synthesize_order_independent_witness:
  "\<exists>r. synthesize (\<lambda>_. 0) [sample_attack, sample_benign] = Inr r
     \<and> synthesize (\<lambda>_. 0) [sample_benign, sample_attack] = Inr r"
proof -
  obtain r where r: "synthesize (\<lambda>_. 0) [sample_attack, sample_benign] = Inr r" using sample_feasible by blast
  have "mset [sample_attack, sample_benign] = mset [sample_benign, sample_attack]" by simp
  then show ?thesis using r synthesize_order_independent by blast
qed

end
