(* ===== verification/PcmCache.thy ===== *)
theory PcmCache
  imports Go_Text "HOL-Library.Multiset"
begin

text \<open>
  The replay cache of synthesised speech (\<open>internal/speechio/streaming_pcm_cache.go\<close>) and the
  circuit of the unary PCM route (\<open>adaptive_tts_circuit.go\<close>).

  \<^item> \<open>pcm_cache\<close> is \<open>streamingPCMCache\<close>: the recency list \<open>order\<close> (oldest first), the entries, their
    total size and the protected keys. \<open>protect\<close>, \<open>snapshot\<close>, \<open>cache_get\<close>, \<open>retains_protected\<close> and
    \<open>cache_put\<close> are its methods; \<open>pcm_collector\<close> and its operations are \<open>streamingPCMCollector\<close>.
  \<^item> A chunk is a string of bytes. Values are immutable here, so the clones of the source are
    identities, and the clearing of discarded bytes leaves no trace. The mutex makes each method
    one step. A nil cache is not modelled.
  \<^item> The sizes are Go \<open>int\<close>s. All that is added is bounded by the cache's limits, so no sum wraps
    for limits below \<open>2 ^ 62\<close>; the model uses \<open>int\<close>.
  \<^item> SHA-256 is an argument. A run is a list of calls on a cache made by the constructor.

  The lemmas show that a put is the step of an abstract recency list that drops the oldest
  unprotected entries until the new one fits, or else does nothing; that the bounds hold in every
  run; and that what a collector gathered is what a later get returns.
\<close>

section \<open>Model\<close>

type_synonym pcm_key = "256 word"

record cached_pcm =
  cp_chunks :: "string list"
  cp_size :: int

record pcm_cache =
  pc_max_entries :: int
  pc_max_bytes :: int
  pc_total :: int
  pc_order :: "pcm_key list"
  pc_entries :: "pcm_key \<rightharpoonup> cached_pcm"
  pc_protected :: "pcm_key set"

definition default_entries :: int where
  [const_simps]: "default_entries = 24"

definition default_bytes :: int where
  [const_simps]: "default_bytes = 8 * 2 ^ 20"

definition max_entry_bytes :: int where
  [const_simps]: "max_entry_bytes = 2 ^ 20"

definition new_pcm_cache :: "int \<Rightarrow> int \<Rightarrow> pcm_cache" where
  "new_pcm_cache entries bytes = \<lparr>pc_max_entries = entries, pc_max_bytes = bytes, pc_total = 0, pc_order = [],
     pc_entries = Map.empty, pc_protected = {}\<rparr>"

definition new_pcm_key :: "(string \<Rightarrow> 256 word) \<Rightarrow> string \<Rightarrow> string \<Rightarrow> pcm_key" where
  "new_pcm_key sha256 voice txt = sha256 (trim_space voice @ [CHR 0x00] @ trim_space txt)"

text \<open>The loop of \<open>protect\<close>: the pending keys, or nothing when a limit is hit.\<close>

fun protect_loop :: "pcm_key set \<Rightarrow> int \<Rightarrow> pcm_key set \<Rightarrow> pcm_key list \<Rightarrow> pcm_key set option" where
  "protect_loop prot limit pending [] = Some pending"
| "protect_loop prot limit pending (k # ks) =
     (if k \<in> prot then protect_loop prot limit pending ks
      else if k \<in> pending then protect_loop prot limit pending ks
      else if int (card prot + card pending) \<ge> limit then None
      else protect_loop prot limit (insert k pending) ks)"

definition protect :: "pcm_cache \<Rightarrow> pcm_key list \<Rightarrow> pcm_cache \<times> bool" where
  "protect c ks =
     (let limit = min (pc_max_entries c) default_entries in
      if limit \<le> 0 \<or> pc_max_bytes c \<le> 0 then (c, False)
      else case protect_loop (pc_protected c) limit {} ks of
        None \<Rightarrow> (c, False)
      | Some pending \<Rightarrow> (c\<lparr>pc_protected := pc_protected c \<union> pending\<rparr>, True))"

definition retains_protected :: "pcm_cache \<Rightarrow> pcm_key \<Rightarrow> bool" where
  "retains_protected c k \<longleftrightarrow> k \<in> pc_protected c \<and> pc_entries c k \<noteq> None"

definition remove_from_order :: "pcm_cache \<Rightarrow> pcm_key \<Rightarrow> pcm_cache" where
  "remove_from_order c k = c\<lparr>pc_order := remove1 k (pc_order c)\<rparr>"

definition snapshot :: "pcm_cache \<Rightarrow> pcm_key \<Rightarrow> pcm_cache \<times> cached_pcm option" where
  "snapshot c k =
     (case pc_entries c k of
        None \<Rightarrow> (c, None)
      | Some e \<Rightarrow> (let c1 = remove_from_order c k in (c1\<lparr>pc_order := pc_order c1 @ [k]\<rparr>, Some e)))"

definition cache_get :: "pcm_cache \<Rightarrow> pcm_key \<Rightarrow> pcm_cache \<times> cached_pcm option" where
  "cache_get c k = (case snapshot c k of (c', None) \<Rightarrow> (c', None) | (c', Some e) \<Rightarrow> (c', Some e))"

text \<open>The check of the chunk sizes: the number of bytes, or nothing when a chunk is too long.\<close>

fun chunk_bytes :: "int \<Rightarrow> int \<Rightarrow> string list \<Rightarrow> int option" where
  "chunk_bytes sz actual [] = Some actual"
| "chunk_bytes sz actual (x # xs) =
     (if int (length x) > sz - actual then None else chunk_bytes sz (actual + int (length x)) xs)"

definition entry_valid :: "pcm_cache \<Rightarrow> cached_pcm \<Rightarrow> bool" where
  "entry_valid c e \<longleftrightarrow>
     \<not> (cp_size e \<le> 0 \<or> cp_size e > pc_max_bytes c \<or> cp_size e > max_entry_bytes \<or> length (cp_chunks e) = 0)
     \<and> chunk_bytes (cp_size e) 0 (cp_chunks e) = Some (cp_size e)"

definition size_at :: "pcm_cache \<Rightarrow> pcm_key \<Rightarrow> int" where
  "size_at c k = (case pc_entries c k of None \<Rightarrow> 0 | Some e \<Rightarrow> cp_size e)"

text \<open>The planned evictions with the planned number of entries and bytes.\<close>

fun plan :: "pcm_cache \<Rightarrow> pcm_key \<Rightarrow> pcm_key list \<Rightarrow> int \<Rightarrow> int \<Rightarrow> pcm_key list \<times> int \<times> int" where
  "plan c k [] n b = ([], n, b)"
| "plan c k (x # xs) n b =
     (if n \<le> pc_max_entries c \<and> b \<le> pc_max_bytes c then ([], n, b)
      else if x = k then plan c k xs n b
      else if x \<in> pc_protected c then plan c k xs n b
      else case plan c k xs (n - 1) (b - size_at c x) of (vs, n', b') \<Rightarrow> (x # vs, n', b'))"

definition evict :: "pcm_cache \<Rightarrow> pcm_key \<Rightarrow> pcm_cache" where
  "evict c v = remove_from_order
     (c\<lparr>pc_total := pc_total c - size_at c v, pc_entries := (pc_entries c)(v := None)\<rparr>) v"

definition cache_put :: "pcm_cache \<Rightarrow> pcm_key \<Rightarrow> cached_pcm \<Rightarrow> pcm_cache" where
  "cache_put c k e =
     (if \<not> entry_valid c e then c
      else
       (let previous = pc_entries c k; replacing = (previous \<noteq> None); previous_size = size_at c k;
            planned_bytes = pc_total c - previous_size + cp_size e;
            planned_entries = int (card (dom (pc_entries c))) + (if replacing then 0 else 1) in
        case plan c k (pc_order c) planned_entries planned_bytes of (victims, n, b) \<Rightarrow>
          (if n > pc_max_entries c \<or> b > pc_max_bytes c then c
           else
            (let c1 = foldl evict c victims;
                 c2 = (if replacing then remove_from_order (c1\<lparr>pc_total := pc_total c1 - previous_size\<rparr>) k else c1) in
             c2\<lparr>pc_entries := (pc_entries c2)(k \<mapsto> e), pc_order := pc_order c2 @ [k],
               pc_total := pc_total c2 + cp_size e\<rparr>))))"

record pcm_collector =
  co_max :: int
  co_size :: int
  co_complete :: bool
  co_chunks :: "string list"

definition new_collector :: "int \<Rightarrow> pcm_collector" where
  "new_collector n = \<lparr>co_max = n, co_size = 0, co_complete = True, co_chunks = []\<rparr>"

definition collector_discard :: "pcm_collector \<Rightarrow> pcm_collector" where
  "collector_discard co = co\<lparr>co_chunks := [], co_size := 0, co_complete := False\<rparr>"

definition collector_add :: "pcm_collector \<Rightarrow> string \<Rightarrow> pcm_collector" where
  "collector_add co x =
     (if length x = 0 then co
      else if \<not> co_complete co \<or> int (length x) > co_max co - co_size co then collector_discard co
      else co\<lparr>co_chunks := co_chunks co @ [x], co_size := co_size co + int (length x)\<rparr>)"

definition collector_complete :: "pcm_collector \<Rightarrow> cached_pcm option" where
  "collector_complete co =
     (if \<not> co_complete co \<or> co_size co = 0 \<or> length (co_chunks co) = 0 then None
      else Some \<lparr>cp_chunks = co_chunks co, cp_size = co_size co\<rparr>)"

text \<open>The circuit of the unary route.\<close>

record circuit =
  ci_probing :: bool
  ci_disabled :: bool

definition circuit_begin :: "circuit \<Rightarrow> circuit \<times> bool" where
  "circuit_begin c = (if ci_probing c \<or> ci_disabled c then (c, False) else (c\<lparr>ci_probing := True\<rparr>, True))"

definition circuit_succeeded :: "circuit \<Rightarrow> circuit" where
  "circuit_succeeded c = c\<lparr>ci_probing := False, ci_disabled := False\<rparr>"

definition circuit_failed :: "circuit \<Rightarrow> circuit" where
  "circuit_failed c = c\<lparr>ci_probing := False, ci_disabled := True\<rparr>"

definition circuit_canceled :: "circuit \<Rightarrow> circuit" where
  "circuit_canceled c = c\<lparr>ci_probing := False\<rparr>"

section \<open>Runs\<close>

datatype pcm_call = CallProtect "pcm_key list" | CallGet pcm_key | CallPut pcm_key cached_pcm

fun pcm_step :: "pcm_cache \<Rightarrow> pcm_call \<Rightarrow> pcm_cache" where
  "pcm_step c (CallProtect ks) = fst (protect c ks)"
| "pcm_step c (CallGet k) = fst (cache_get c k)"
| "pcm_step c (CallPut k e) = cache_put c k e"

datatype circuit_call = CircuitBegin | CircuitSucceeded | CircuitFailed | CircuitCanceled

fun circuit_step :: "circuit \<Rightarrow> circuit_call \<Rightarrow> circuit" where
  "circuit_step c CircuitBegin = fst (circuit_begin c)"
| "circuit_step c CircuitSucceeded = circuit_succeeded c"
| "circuit_step c CircuitFailed = circuit_failed c"
| "circuit_step c CircuitCanceled = circuit_canceled c"

section \<open>The abstract recency list\<close>

text \<open>
  What the cache promises: a list of keys with their values, oldest first. A use moves a key to the
  young end. A put drops the oldest unprotected keys, one after the other, until the new value
  fits, and fails as a whole when it never does.
\<close>

type_synonym recency = "(pcm_key \<times> cached_pcm) list"

definition total_size :: "recency \<Rightarrow> int" where
  "total_size l = sum_list (List.map (cp_size o snd) l)"

definition lru_without :: "pcm_key \<Rightarrow> recency \<Rightarrow> recency" where
  "lru_without k l = filter (\<lambda>x. fst x \<noteq> k) l"

definition lru_use :: "pcm_key \<Rightarrow> recency \<Rightarrow> recency \<times> cached_pcm option" where
  "lru_use k l = (case map_of l k of None \<Rightarrow> (l, None) | Some e \<Rightarrow> (lru_without k l @ [(k, e)], Some e))"

fun lru_fit :: "pcm_key set \<Rightarrow> (recency \<Rightarrow> bool) \<Rightarrow> recency \<Rightarrow> recency \<Rightarrow> recency option" where
  "lru_fit prot fits kept [] = (if fits kept then Some kept else None)"
| "lru_fit prot fits kept (x # xs) =
     (if fits (kept @ x # xs) then Some (kept @ x # xs)
      else if fst x \<in> prot then lru_fit prot fits (kept @ [x]) xs
      else lru_fit prot fits kept xs)"

definition lru_put :: "int \<Rightarrow> int \<Rightarrow> pcm_key set \<Rightarrow> pcm_key \<Rightarrow> cached_pcm \<Rightarrow> recency \<Rightarrow> recency" where
  "lru_put entries bytes prot k e l =
     (case lru_fit prot (\<lambda>r. int (length r) + 1 \<le> entries \<and> total_size r + cp_size e \<le> bytes) [] (lru_without k l) of
        None \<Rightarrow> l | Some r \<Rightarrow> r @ [(k, e)])"

definition recency_of :: "pcm_cache \<Rightarrow> recency" where
  "recency_of c = List.map (\<lambda>k. (k, the (pc_entries c k))) (pc_order c)"

section \<open>The invariant\<close>

definition entry_ok :: "cached_pcm \<Rightarrow> bool" where
  "entry_ok e \<longleftrightarrow> 0 < cp_size e \<and> cp_size e \<le> max_entry_bytes
     \<and> cp_size e = int (length (concat (cp_chunks e))) \<and> cp_chunks e \<noteq> []"

definition cache_ok :: "pcm_cache \<Rightarrow> bool" where
  "cache_ok c \<longleftrightarrow> distinct (pc_order c) \<and> set (pc_order c) = dom (pc_entries c)
     \<and> pc_total c = total_size (recency_of c) \<and> (\<forall>e \<in> ran (pc_entries c). entry_ok e)
     \<and> int (length (pc_order c)) \<le> pc_max_entries c \<and> pc_total c \<le> pc_max_bytes c
     \<and> finite (pc_protected c) \<and> int (card (pc_protected c)) \<le> min (pc_max_entries c) default_entries"

lemma chunk_bytes_Some:
  "chunk_bytes sz a xs = Some n \<Longrightarrow> n = a + int (length (concat xs))"
  by (induction sz a xs rule: chunk_bytes.induct) (auto split: if_splits)

lemma chunk_bytes_iff:
  "chunk_bytes sz a xs = Some sz \<longleftrightarrow> sz = a + int (length (concat xs))"
  by (induction sz a xs rule: chunk_bytes.induct) auto

lemma entry_valid_iff: "entry_valid c e \<longleftrightarrow> entry_ok e \<and> cp_size e \<le> pc_max_bytes c"
  by (auto simp: entry_valid_def entry_ok_def chunk_bytes_iff)

lemma recency_simps [simp]:
  "recency_of (c\<lparr>pc_total := t\<rparr>) = recency_of c"
  "recency_of (c\<lparr>pc_protected := p\<rparr>) = recency_of c"
  "List.map fst (recency_of c) = pc_order c" "length (recency_of c) = length (pc_order c)"
  by (simp_all add: recency_of_def comp_def)

lemma recency_upd_other: "k \<notin> set (pc_order c) \<Longrightarrow> recency_of (c\<lparr>pc_entries := (pc_entries c)(k := v)\<rparr>) = recency_of c"
  by (auto simp: recency_of_def)

lemma map_of_recency: "set (pc_order c) = dom (pc_entries c) \<Longrightarrow> map_of (recency_of c) = pc_entries c"
  unfolding recency_of_def map_of_map_keys
  by (rule ext) (auto simp: map_of_map_restrict restrict_map_def domIff)

definition linked_cache :: "pcm_cache \<Rightarrow> bool" where
  "linked_cache c \<longleftrightarrow> distinct (pc_order c) \<and> set (pc_order c) = dom (pc_entries c) \<and> pc_total c = total_size (recency_of c)"

lemma recency_remove:
  "distinct (pc_order c) \<Longrightarrow> recency_of (remove_from_order c k) = lru_without k (recency_of c)"
  by (simp add: recency_of_def remove_from_order_def lru_without_def distinct_remove1_removeAll
      removeAll_filter_not_eq filter_map comp_def eq_commute)

lemma total_without:
  assumes "distinct (List.map fst l)"
  shows "total_size (lru_without k l) = total_size l - (case map_of l k of None \<Rightarrow> 0 | Some e \<Rightarrow> cp_size e)"
  using assms
proof (induction l)
  case (Cons x l)
  have "lru_without k l = l" if "fst x = k"
    using Cons.prems that by (auto simp: lru_without_def filter_id_conv rev_image_eqI)
  then show ?case using Cons by (auto simp: total_size_def lru_without_def split: option.splits)
qed (simp add: total_size_def lru_without_def)

lemma total_recency_without:
  assumes "linked_cache c"
  shows "total_size (lru_without k (recency_of c)) = pc_total c - size_at c k"
  using assms total_without [of "recency_of c" k] by (simp add: linked_cache_def map_of_recency size_at_def)

lemma evict_step:
  assumes "linked_cache c"
  shows "linked_cache (evict c v)" "recency_of (evict c v) = lru_without v (recency_of c)"
    "pc_protected (evict c v) = pc_protected c" "pc_max_entries (evict c v) = pc_max_entries c"
    "pc_max_bytes (evict c v) = pc_max_bytes c" "pc_entries (evict c v) = (pc_entries c)(v := None)"
proof -
  have d: "distinct (pc_order c)" "set (pc_order c) = dom (pc_entries c)" using assms by (auto simp: linked_cache_def)
  show r: "recency_of (evict c v) = lru_without v (recency_of c)"
    using d by (auto simp: evict_def remove_from_order_def recency_of_def lru_without_def distinct_remove1_removeAll
        removeAll_filter_not_eq filter_map comp_def eq_commute intro!: map_cong)
  show "linked_cache (evict c v)"
    using d r total_recency_without [OF assms, of v]
    by (auto simp: linked_cache_def evict_def remove_from_order_def)
qed (simp_all add: evict_def remove_from_order_def)

lemma evict_all:
  assumes "linked_cache c"
  shows "linked_cache (foldl evict c vs) \<and> recency_of (foldl evict c vs) = filter (\<lambda>x. fst x \<notin> set vs) (recency_of c)
    \<and> pc_protected (foldl evict c vs) = pc_protected c \<and> pc_max_entries (foldl evict c vs) = pc_max_entries c
    \<and> pc_max_bytes (foldl evict c vs) = pc_max_bytes c
    \<and> pc_entries (foldl evict c vs) = (pc_entries c) |` (- set vs)"
  using assms
proof (induction vs arbitrary: c)
  case (Cons v vs)
  note e = evict_step [OF Cons.prems, of v]
  have "filter (\<lambda>x. fst x \<notin> set vs) (lru_without v (recency_of c)) = filter (\<lambda>x. fst x \<notin> set (v # vs)) (recency_of c)"
    by (auto simp: lru_without_def intro: filter_cong)
  moreover have "((pc_entries c)(v := None)) |` (- set vs) = (pc_entries c) |` (- set (v # vs))"
    by (auto simp: restrict_map_def)
  ultimately show ?case using Cons.IH [OF e(1)] unfolding e(2-6) by (simp del: fun_upd_apply)
qed (simp add: restrict_map_def)

text \<open>The planning loop is the fitting loop of the abstract list.\<close>

lemma lru_fit_now: "fits (kept @ l) \<Longrightarrow> lru_fit prot fits kept l = Some (kept @ l)"
  by (cases l) auto

lemma plan_fit:
  assumes "plan c k xs n b = (vs, n', b')" "distinct xs" "set xs \<subseteq> dom (pc_entries c)"
    and l: "l = lru_without k (List.map (\<lambda>x. (x, the (pc_entries c x))) xs)"
    and "n = int (length (kept @ l)) + 1" "b = total_size (kept @ l) + sz"
    and fits: "fits = (\<lambda>r. int (length r) + 1 \<le> pc_max_entries c \<and> total_size r + sz \<le> pc_max_bytes c)"
  shows "set vs \<subseteq> set xs - {k} - pc_protected c
    \<and> (\<exists>r. r = kept @ filter (\<lambda>x. fst x \<notin> set vs) l \<and> n' = int (length r) + 1 \<and> b' = total_size r + sz
      \<and> lru_fit (pc_protected c) fits kept l = (if fits r then Some r else None))"
  using assms(1-6)
proof (induction xs arbitrary: n b vs n' b' kept l)
  case Nil
  then show ?case by (simp add: lru_without_def)
next
  case (Cons x xs)
  let ?l = "lru_without k (List.map (\<lambda>x. (x, the (pc_entries c x))) xs)" and ?x = "(x, the (pc_entries c x))"
  have l: "l = (if x = k then ?l else ?x # ?l)" using Cons.prems(4) by (simp add: lru_without_def)
  have xs: "distinct xs" "set xs \<subseteq> dom (pc_entries c)" "x \<notin> set xs" using Cons.prems(2,3) by auto
  show ?case
  proof (cases "n \<le> pc_max_entries c \<and> b \<le> pc_max_bytes c")
    case True
    then have "vs = []" "n' = n" "b' = b" "fits (kept @ l)" using Cons.prems fits by auto
    then show ?thesis using lru_fit_now [of fits kept l] Cons.prems(5,6) by auto
  next
    case no: False
    then have nf: "\<not> fits (kept @ l)" using Cons.prems(5,6) fits by auto
    consider (same) "x = k" | (prot) "x \<noteq> k" "x \<in> pc_protected c" | (drop) "x \<noteq> k" "x \<notin> pc_protected c" by blast
    then show ?thesis
    proof cases
      case same
      then have "plan c k xs n b = (vs, n', b')" "l = ?l" using Cons.prems(1) no l by (auto split: if_splits)
      from Cons.IH [OF this(1) xs(1,2) this(2) Cons.prems(5,6)] show ?thesis by auto
    next
      case prot
      then have p: "plan c k xs n b = (vs, n', b')" and l': "l = ?x # ?l" using Cons.prems(1) no l by (auto split: if_splits)
      have nb: "n = int (length ((kept @ [?x]) @ ?l)) + 1" "b = total_size ((kept @ [?x]) @ ?l) + sz"
        using Cons.prems(5,6) l' by (simp_all add: total_size_def)
      note ih = Cons.IH [OF p xs(1,2) refl nb]
      have "x \<notin> set vs" using ih xs(3) by auto
      then show ?thesis using ih nf prot l' by auto
    next
      case drop
      then obtain ws where ws: "plan c k xs (n - 1) (b - size_at c x) = (ws, n', b')" "vs = x # ws" and l': "l = ?x # ?l"
        using Cons.prems(1) no l by (auto split: if_splits prod.splits)
      have sz: "size_at c x = cp_size (the (pc_entries c x))" using Cons.prems(3) by (auto simp: size_at_def)
      have nb: "n - 1 = int (length (kept @ ?l)) + 1" "b - size_at c x = total_size (kept @ ?l) + sz"
        using Cons.prems(5,6) l' sz by (simp_all add: total_size_def)
      note ih = Cons.IH [OF ws(1) xs(1,2) refl nb]
      have "filter (\<lambda>y. fst y \<notin> set vs) l = filter (\<lambda>y. fst y \<notin> set ws) ?l"
        unfolding l' ws(2) using xs(3) by (auto simp: lru_without_def intro!: filter_cong)
      then show ?thesis using ih nf drop l' ws(2) by auto
    qed
  qed
qed

text \<open>The old value of the key leaves the order and the total.\<close>

lemma replaced:
  assumes "linked_cache c"
    and c2: "c2 = (if pc_entries c k \<noteq> None then remove_from_order (c\<lparr>pc_total := pc_total c - size_at c k\<rparr>) k else c)"
  shows "distinct (pc_order c2)" "set (pc_order c2) = dom (pc_entries c) - {k}" "pc_entries c2 = pc_entries c"
    "recency_of c2 = lru_without k (recency_of c)" "pc_total c2 = total_size (recency_of c2)"
    "pc_protected c2 = pc_protected c" "pc_max_entries c2 = pc_max_entries c" "pc_max_bytes c2 = pc_max_bytes c"
proof -
  have d: "distinct (pc_order c)" "set (pc_order c) = dom (pc_entries c)" using assms(1) by (auto simp: linked_cache_def)
  show r: "recency_of c2 = lru_without k (recency_of c)"
  proof (cases "pc_entries c k")
    case None
    then have "k \<notin> set (pc_order c)" using d(2) by auto
    then show ?thesis using None by (auto simp: c2 lru_without_def recency_of_def intro: filter_True [symmetric])
  qed (use d recency_remove [of "c\<lparr>pc_total := pc_total c - size_at c k\<rparr>" k] in \<open>simp add: c2\<close>)
  show "pc_total c2 = total_size (recency_of c2)"
    unfolding r total_recency_without [OF assms(1)] by (simp add: c2 remove_from_order_def size_at_def)
qed (use assms(1) in \<open>auto simp: c2 remove_from_order_def linked_cache_def domIff\<close>)

text \<open>A put, as a case distinction that the abstract list makes as well.\<close>

lemma put_cases:
  assumes "linked_cache c" "entry_valid c e"
  obtains (stored) r where
    "lru_fit (pc_protected c) (\<lambda>r. int (length r) + 1 \<le> pc_max_entries c \<and> total_size r + cp_size e \<le> pc_max_bytes c) []
       (lru_without k (recency_of c)) = Some r"
    "linked_cache (cache_put c k e)" "recency_of (cache_put c k e) = r @ [(k, e)]"
    "int (length r) + 1 \<le> pc_max_entries c" "total_size r + cp_size e \<le> pc_max_bytes c"
    "set (recency_of c) - {x. fst x = k \<or> fst x \<notin> pc_protected c} \<subseteq> set r"
    "ran (pc_entries (cache_put c k e)) \<subseteq> insert e (ran (pc_entries c))"
    "pc_protected (cache_put c k e) = pc_protected c" "pc_max_entries (cache_put c k e) = pc_max_entries c"
    "pc_max_bytes (cache_put c k e) = pc_max_bytes c"
  | (refused) "lru_fit (pc_protected c) (\<lambda>r. int (length r) + 1 \<le> pc_max_entries c \<and> total_size r + cp_size e \<le> pc_max_bytes c) []
       (lru_without k (recency_of c)) = None" "cache_put c k e = c"
proof -
  let ?fits = "\<lambda>r. int (length r) + 1 \<le> pc_max_entries c \<and> total_size r + cp_size e \<le> pc_max_bytes c"
  let ?l = "lru_without k (recency_of c)"
  let ?n = "int (card (dom (pc_entries c))) + (if pc_entries c k \<noteq> None then 0 else 1)"
  let ?b = "pc_total c - size_at c k + cp_size e"
  have d: "distinct (pc_order c)" "set (pc_order c) = dom (pc_entries c)" using assms(1) by (auto simp: linked_cache_def)
  have "int (length ?l) + 1 = ?n"
  proof -
    have "length ?l = length (removeAll k (pc_order c))"
      by (simp add: lru_without_def recency_of_def filter_map comp_def removeAll_filter_not_eq eq_commute)
    also have "\<dots> = card (dom (pc_entries c) - {k})"
      using d by (metis distinct_card distinct_removeAll set_removeAll)
    finally have "length ?l = card (dom (pc_entries c) - {k})" .
    moreover have "finite (dom (pc_entries c))" using d(2) by (metis finite_set)
    ultimately show ?thesis by (cases "k \<in> dom (pc_entries c)") (auto simp: card.remove domIff simp del: card_Diff_insert)
  qed
  moreover have "?b = total_size ?l + cp_size e" using total_recency_without [OF assms(1)] by simp
  moreover obtain vs n' b' where p: "plan c k (pc_order c) ?n ?b = (vs, n', b')" by (cases "plan c k (pc_order c) ?n ?b")
  ultimately have fit: "set vs \<subseteq> set (pc_order c) - {k} - pc_protected c
    \<and> (\<exists>r. r = filter (\<lambda>x. fst x \<notin> set vs) ?l \<and> n' = int (length r) + 1 \<and> b' = total_size r + cp_size e
      \<and> lru_fit (pc_protected c) ?fits [] ?l = (if ?fits r then Some r else None))"
    using plan_fit [OF p d(1) _ _ _ _ refl, of ?l "[]" "cp_size e"] d(2) by (auto simp: recency_of_def)
  define r where "r = filter (\<lambda>x. fst x \<notin> set vs) ?l"
  have vs: "set vs \<subseteq> set (pc_order c) - {k} - pc_protected c" and nb: "n' = int (length r) + 1" "b' = total_size r + cp_size e"
    and f: "lru_fit (pc_protected c) ?fits [] ?l = (if ?fits r then Some r else None)"
    using fit by (auto simp: r_def)
  define c1 where "c1 = foldl evict c vs"
  have put: "cache_put c k e = (if ?fits r then
      (let c2 = (if pc_entries c k \<noteq> None then remove_from_order (c1\<lparr>pc_total := pc_total c1 - size_at c k\<rparr>) k else c1) in
        c2\<lparr>pc_entries := (pc_entries c2)(k \<mapsto> e), pc_order := pc_order c2 @ [k], pc_total := pc_total c2 + cp_size e\<rparr>) else c)"
    using assms(2) p nb by (auto simp: cache_put_def c1_def Let_def not_less not_le)
  note c1 = evict_all [OF assms(1), of vs, folded c1_def]
  show thesis
  proof (cases "?fits r")
    case False
    then show ?thesis using refused f put by auto
  next
    case True
    define c2 where "c2 = (if pc_entries c k \<noteq> None then remove_from_order (c1\<lparr>pc_total := pc_total c1 - size_at c k\<rparr>) k else c1)"
    have pe: "cache_put c k e = c2\<lparr>pc_entries := (pc_entries c2)(k \<mapsto> e), pc_order := pc_order c2 @ [k], pc_total := pc_total c2 + cp_size e\<rparr>"
      unfolding c2_def using put True by (simp add: Let_def)
    have same: "pc_entries c1 k = pc_entries c k" using c1 vs by (auto simp: restrict_map_def)
    then have c2': "c2 = (if pc_entries c1 k \<noteq> None then remove_from_order (c1\<lparr>pc_total := pc_total c1 - size_at c1 k\<rparr>) k else c1)"
      by (simp add: c2_def size_at_def)
    have c2: "distinct (pc_order c2)" "set (pc_order c2) = dom (pc_entries c1) - {k}" "pc_entries c2 = pc_entries c1"
        "recency_of c2 = lru_without k (recency_of c1)" "pc_total c2 = total_size (recency_of c2)"
        "pc_protected c2 = pc_protected c" "pc_max_entries c2 = pc_max_entries c" "pc_max_bytes c2 = pc_max_bytes c"
      using replaced [OF _ c2'] c1 by simp_all
    have rec: "recency_of c2 = r"
      unfolding c2(4) using c1 by (simp add: r_def lru_without_def conj_commute)
    have "recency_of (cache_put c k e) = r @ [(k, e)]"
      using c2(2) rec by (auto simp: pe recency_of_def)
    moreover have "linked_cache (cache_put c k e)"
      using c2 calculation rec by (auto simp: linked_cache_def pe total_size_def)
    moreover have "set (recency_of c) - {x. fst x = k \<or> fst x \<notin> pc_protected c} \<subseteq> set r"
      using vs by (auto simp: r_def lru_without_def)
    moreover have "ran (pc_entries (cache_put c k e)) \<subseteq> insert e (ran (pc_entries c))"
      using c1 c2(3) by (auto simp: pe ran_def restrict_map_def split: if_splits)
    ultimately show ?thesis using stored [of r] f True c2(6-8) by (simp add: pe)
  qed
qed

lemma put_invalid: "\<not> entry_valid c e \<Longrightarrow> cache_put c k e = c"
  by (simp add: cache_put_def)

lemma get_Some:
  "pc_entries c k = Some e \<Longrightarrow> cache_get c k = (let c1 = remove_from_order c k in (c1\<lparr>pc_order := pc_order c1 @ [k]\<rparr>, Some e))"
  by (simp add: cache_get_def snapshot_def Let_def)

lemma get_None: "pc_entries c k = None \<Longrightarrow> cache_get c k = (c, None)"
  by (simp add: cache_get_def snapshot_def)

lemma cache_ok_linked: "cache_ok c \<Longrightarrow> linked_cache c"
  by (simp add: cache_ok_def linked_cache_def)

lemma get_refines:
  assumes "linked_cache c"
  shows "linked_cache (fst (cache_get c k)) \<and> (recency_of (fst (cache_get c k)), snd (cache_get c k)) = lru_use k (recency_of c)
    \<and> mset (pc_order (fst (cache_get c k))) = mset (pc_order c)"
proof (cases "pc_entries c k")
  case None
  then show ?thesis using assms by (simp add: get_None lru_use_def map_of_recency linked_cache_def)
next
  case (Some e)
  have d: "distinct (pc_order c)" "set (pc_order c) = dom (pc_entries c)" "k \<in> set (pc_order c)"
    using assms Some by (auto simp: linked_cache_def)
  have r: "recency_of (fst (cache_get c k)) = lru_without k (recency_of c) @ [(k, e)]"
    using recency_remove [OF d(1), of k] Some by (simp add: get_Some Let_def recency_of_def remove_from_order_def)
  have "total_size (recency_of (fst (cache_get c k))) = pc_total c"
    using total_recency_without [OF assms, of k] Some unfolding r by (simp add: total_size_def size_at_def)
  then show ?thesis
    using r d assms Some by (auto simp: linked_cache_def lru_use_def map_of_recency get_Some Let_def remove_from_order_def)
qed

lemma protect_loop_Some:
  "protect_loop prot limit pending ks = Some p \<Longrightarrow> finite pending \<Longrightarrow>
   finite p \<and> (int (card prot + card pending) \<le> limit \<longrightarrow> int (card prot + card p) \<le> limit)"
  by (induction prot limit pending ks rule: protect_loop.induct) (auto split: if_splits)

lemma protect_ok:
  assumes "cache_ok c"
  shows "cache_ok (fst (protect c ks))"
proof (cases "min (pc_max_entries c) default_entries \<le> 0 \<or> pc_max_bytes c \<le> 0")
  case False
  then show ?thesis
  proof (cases "protect_loop (pc_protected c) (min (pc_max_entries c) default_entries) {} ks")
    case (Some pending)
    have "finite pending" "int (card (pc_protected c) + card pending) \<le> min (pc_max_entries c) default_entries"
      using protect_loop_Some [OF Some] assms by (auto simp: cache_ok_def)
    moreover have "card (pc_protected c \<union> pending) \<le> card (pc_protected c) + card pending" by (rule card_Un_le)
    ultimately show ?thesis
      using assms Some by (auto simp: protect_def Let_def cache_ok_def)
  qed (use assms in \<open>simp add: protect_def Let_def\<close>)
qed (use assms in \<open>simp add: protect_def\<close>)

lemma put_ok:
  assumes "cache_ok c"
  shows "cache_ok (cache_put c k e)"
proof (cases "entry_valid c e")
  case True
  note link = cache_ok_linked [OF assms]
  show ?thesis
  proof (cases rule: put_cases [OF link True, of k])
    case (1 r)
    have "length (pc_order (cache_put c k e)) = length r + 1"
      using arg_cong [OF 1(3), of length] by simp
    moreover have "pc_total (cache_put c k e) = total_size r + cp_size e"
      using 1(2,3) by (simp add: linked_cache_def total_size_def)
    ultimately show ?thesis
      using 1 True assms unfolding cache_ok_def linked_cache_def entry_valid_iff by (auto simp del: of_nat_add)
  qed (use assms in simp)
qed (simp add: put_invalid assms)

lemma get_ok:
  assumes "cache_ok c"
  shows "cache_ok (fst (cache_get c k))"
proof -
  note g = get_refines [OF cache_ok_linked [OF assms], of k]
  have "pc_entries (fst (cache_get c k)) = pc_entries c" "pc_protected (fst (cache_get c k)) = pc_protected c"
    "pc_max_entries (fst (cache_get c k)) = pc_max_entries c" "pc_max_bytes (fst (cache_get c k)) = pc_max_bytes c"
    "pc_total (fst (cache_get c k)) = pc_total c"
    by (cases "pc_entries c k"; simp add: get_None get_Some Let_def remove_from_order_def)+
  then show ?thesis
    using g assms mset_eq_length [of "pc_order (fst (cache_get c k))" "pc_order c"] by (auto simp: cache_ok_def linked_cache_def)
qed

interpretation pcm: invariant_system pcm_step cache_ok
proof
  fix c e
  assume "cache_ok c"
  then show "cache_ok (pcm_step c e)" by (cases e) (auto intro: protect_ok get_ok put_ok)
qed

lemma new_cache_ok: "0 \<le> n \<Longrightarrow> 0 \<le> b \<Longrightarrow> cache_ok (new_pcm_cache n b)"
  by (simp add: cache_ok_def new_pcm_cache_def recency_of_def total_size_def const_simps)

lemma pcm_limits:
  "pc_max_entries (foldl pcm_step c calls) = pc_max_entries c" "pc_max_bytes (foldl pcm_step c calls) = pc_max_bytes c"
proof -
  have put: "pc_max_entries (foldl evict c vs) = pc_max_entries c \<and> pc_max_bytes (foldl evict c vs) = pc_max_bytes c" for c vs
    by (induction vs arbitrary: c) (auto simp: evict_def remove_from_order_def)
  have "pc_max_entries (pcm_step c e) = pc_max_entries c \<and> pc_max_bytes (pcm_step c e) = pc_max_bytes c" for c e
    by (cases e) (auto simp: protect_def Let_def cache_get_def snapshot_def remove_from_order_def cache_put_def put
        split: option.splits prod.splits)
  then show "pc_max_entries (foldl pcm_step c calls) = pc_max_entries c" "pc_max_bytes (foldl pcm_step c calls) = pc_max_bytes c"
    by (induction calls arbitrary: c) auto
qed

text \<open>A step keeps a protected entry in the cache.\<close>

lemma retained_step:
  assumes "cache_ok c" "retains_protected c k"
  shows "retains_protected (pcm_step c call) k"
proof (cases call)
  case (CallProtect ks)
  then show ?thesis using assms(2) by (auto simp: protect_def Let_def retains_protected_def split: option.splits)
next
  case (CallGet k')
  then show ?thesis using assms(2)
    by (auto simp: retains_protected_def cache_get_def snapshot_def Let_def remove_from_order_def split: option.splits)
next
  case (CallPut k' e)
  show ?thesis
  proof (cases "entry_valid c e")
    case True
    note link = cache_ok_linked [OF assms(1)]
    show ?thesis
    proof (cases rule: put_cases [OF link True, of k'])
      case (1 r)
      note stored = 1
      have "k \<in> fst ` set (recency_of c)" "k \<in> pc_protected c"
        using assms link by (auto simp: retains_protected_def linked_cache_def recency_of_def image_image)
      then have "k \<in> fst ` set (recency_of (cache_put c k' e))"
        using stored(3,6) by (cases "k = k'") force+
      then have "k \<in> dom (pc_entries (cache_put c k' e))"
        using stored(2) by (auto simp: linked_cache_def recency_of_def image_image)
      then show ?thesis using CallPut \<open>k \<in> pc_protected c\<close> stored(8) by (auto simp: retains_protected_def)
    qed (use CallPut assms in simp)
  qed (use CallPut assms put_invalid in simp)
qed

text \<open>Without protected keys a value within the limits always fits.\<close>

lemma lru_fit_unprotected:
  "fits kept \<Longrightarrow> lru_fit {} fits kept l \<noteq> None"
  by (induction l arbitrary: kept) auto

lemma collected:
  assumes "co_complete (foldl collector_add co xs)" "co_size co = int (length (concat (co_chunks co)))"
  shows "co_complete co \<and> co_chunks (foldl collector_add co xs) = co_chunks co @ filter (\<lambda>x. x \<noteq> []) xs
    \<and> co_size (foldl collector_add co xs) = int (length (concat (co_chunks co @ xs)))"
proof -
  have stuck: "\<not> co_complete co' \<Longrightarrow> \<not> co_complete (foldl collector_add co' ys)" for co' ys
    by (induction ys arbitrary: co') (auto simp: collector_add_def collector_discard_def)
  show ?thesis using assms
  proof (induction xs arbitrary: co)
    case (Cons x xs)
    have "co_complete (collector_add co x)" using Cons.prems(1) stuck [of "collector_add co x" xs] by auto
    moreover have "co_size (collector_add co x) = int (length (concat (co_chunks (collector_add co x))))"
      using Cons.prems(2) by (auto simp: collector_add_def collector_discard_def)
    moreover note Cons.IH [of "collector_add co x"] Cons.prems
    ultimately show ?case by (auto simp: collector_add_def collector_discard_def split: if_splits)
  qed simp
qed

lemma collector_bounded:
  "co_size co \<le> max 0 (co_max co) \<Longrightarrow> co_size (foldl collector_add co xs) \<le> max 0 (co_max co)"
proof (induction xs arbitrary: co)
  case (Cons x xs)
  have "co_max (collector_add co x) = co_max co" "co_size (collector_add co x) \<le> max 0 (co_max co)"
    using Cons.prems by (auto simp: collector_add_def collector_discard_def)
  then show ?case using Cons.IH [of "collector_add co x"] by simp
qed simp

text \<open>The probes of the unary route: one is let through for each that ended, and one more.\<close>

definition probe_starts :: "unit \<Rightarrow> circuit \<Rightarrow> circuit_call \<Rightarrow> bool" where
  "probe_starts _ c call \<longleftrightarrow> call = CircuitBegin \<and> snd (circuit_begin c)"

definition probe_ends :: "unit \<Rightarrow> circuit \<Rightarrow> circuit_call \<Rightarrow> bool" where
  "probe_ends _ c call \<longleftrightarrow> call = CircuitSucceeded \<or> call = CircuitCanceled"

interpretation probes: token_ledger circuit_step "\<lambda>_. True" probe_ends probe_starts "\<lambda>c _. \<not> ci_probing c \<and> \<not> ci_disabled c"
proof
  fix k :: unit and s e
  show "probe_starts k s e \<Longrightarrow> \<not> ci_probing s \<and> \<not> ci_disabled s"
    by (auto simp: probe_starts_def circuit_begin_def split: if_splits)
  show "probe_starts k s e \<Longrightarrow> \<not> (\<not> ci_probing (circuit_step s e) \<and> \<not> ci_disabled (circuit_step s e))"
    by (auto simp: probe_starts_def circuit_begin_def split: if_splits)
  show "\<not> ci_probing (circuit_step s e) \<and> \<not> ci_disabled (circuit_step s e) \<Longrightarrow>
      (\<not> ci_probing s \<and> \<not> ci_disabled s) \<or> probe_ends k s e"
    by (cases e) (auto simp: probe_ends_def circuit_begin_def circuit_failed_def split: if_splits)
qed simp

section \<open>Properties\<close>

text \<open>
  C29. The cache is a recency list: on every cache that a run from the constructor reaches, a get
  moves the key to the young end and returns its value, and a put of a valid value drops the oldest
  unprotected entries until the new one fits, or leaves the cache as it is when it never does; a put
  of an invalid value does nothing.
\<close>

theorem cache_is_recency_list:
  assumes "0 \<le> n" "0 \<le> b" and c: "c = foldl pcm_step (new_pcm_cache n b) calls"
  shows "(recency_of (fst (cache_get c k)), snd (cache_get c k)) = lru_use k (recency_of c)
    \<and> recency_of (cache_put c k e)
      = (if entry_valid c e then lru_put n b (pc_protected c) k e (recency_of c) else recency_of c)"
proof -
  have ok: "linked_cache c" and lim: "pc_max_entries c = n" "pc_max_bytes c = b"
    using pcm.inv_run [OF new_cache_ok [OF assms(1,2)], of calls] c
    by (simp_all add: cache_ok_linked pcm_limits new_pcm_cache_def)
  have "recency_of (cache_put c k e) = lru_put n b (pc_protected c) k e (recency_of c)" if "entry_valid c e"
    using put_cases [OF ok that, of k] by cases (simp_all add: lru_put_def lim)
  then show ?thesis using get_refines [OF ok, of k] by (simp add: put_invalid)
qed

lemma cache_is_recency_list_witness:
  "recency_of (cache_put (new_pcm_cache 1 8) 7 \<lparr>cp_chunks = [''abc''], cp_size = 3\<rparr>) = [(7, \<lparr>cp_chunks = [''abc''], cp_size = 3\<rparr>)]"
proof -
  let ?e = "\<lparr>cp_chunks = [''abc''], cp_size = 3\<rparr>"
  have "entry_valid (new_pcm_cache 1 8) ?e" by (simp add: entry_valid_def new_pcm_cache_def const_simps)
  moreover have "lru_put 1 8 {} 7 ?e [] = [(7, ?e)]" by (simp add: lru_put_def lru_without_def total_size_def)
  ultimately show ?thesis
    using cache_is_recency_list [of 1 8 "new_pcm_cache 1 8" "[]" 7 ?e] by (simp add: new_pcm_cache_def recency_of_def)
qed

text \<open>
  In every run the cache stays within its limits: the number of entries and the sum of their
  bytes, which is the total it keeps, never exceed those given to the constructor, each entry is at
  most one MiB and as long as its chunks, and at most 24 keys are protected.
\<close>

theorem cache_within_limits:
  assumes "0 \<le> n" "0 \<le> b" and "c = foldl pcm_step (new_pcm_cache n b) calls"
  shows "int (card (dom (pc_entries c))) \<le> n \<and> pc_total c \<le> b
    \<and> pc_total c = (\<Sum>k \<in> dom (pc_entries c). int (length (concat (cp_chunks (the (pc_entries c k))))))
    \<and> (\<forall>e \<in> ran (pc_entries c). 0 < cp_size e \<and> cp_size e \<le> 2 ^ 20)
    \<and> card (pc_protected c) \<le> 24"
proof -
  have ok: "cache_ok c" and lim: "pc_max_entries c = n" "pc_max_bytes c = b"
    using pcm.inv_run [OF new_cache_ok [OF assms(1,2)], of calls] assms(3)
    by (simp_all add: pcm_limits new_pcm_cache_def)
  then have d: "distinct (pc_order c)" "set (pc_order c) = dom (pc_entries c)"
      "\<forall>e \<in> ran (pc_entries c). entry_ok e" "pc_total c = total_size (recency_of c)"
    by (auto simp: cache_ok_def)
  have "card (dom (pc_entries c)) = length (pc_order c)" using d by (metis distinct_card)
  moreover have "pc_total c = (\<Sum>k \<in> dom (pc_entries c). cp_size (the (pc_entries c k)))"
    using d(1) unfolding d(4) d(2) [symmetric] by (simp add: total_size_def recency_of_def comp_def sum_list_distinct_conv_sum_set)
  moreover have "(\<Sum>k \<in> dom (pc_entries c). cp_size (the (pc_entries c k)))
      = (\<Sum>k \<in> dom (pc_entries c). int (length (concat (cp_chunks (the (pc_entries c k))))))"
    using d(3) by (intro sum.cong) (auto simp: entry_ok_def ran_def)
  ultimately show ?thesis using ok lim d(3) by (auto simp: cache_ok_def entry_ok_def const_simps)
qed

lemma cache_within_limits_witness:
  "card (pc_protected (foldl pcm_step (new_pcm_cache 24 (8 * 2 ^ 20)) [CallProtect [1, 2]])) \<le> 24"
  using cache_within_limits [of 24 "8 * 2 ^ 20" _ "[CallProtect [1, 2]]"] by simp

text \<open>
  A protected entry is never lost: once a protected key has an entry, it has one after every
  further run, whatever else is put.
\<close>

theorem protected_entries_stay:
  assumes "0 \<le> n" "0 \<le> b" and "retains_protected (foldl pcm_step (new_pcm_cache n b) calls) k"
  shows "retains_protected (foldl pcm_step (new_pcm_cache n b) (calls @ later)) k"
proof (induction later rule: rev_induct)
  case (snoc call later)
  then show ?case
    using retained_step [OF pcm.inv_run [OF new_cache_ok [OF assms(1,2)], of "calls @ later"]] by simp
qed (use assms(3) in simp)

lemma protected_entries_stay_witness:
  "retains_protected (foldl pcm_step (new_pcm_cache 1 8)
     ([CallProtect [7], CallPut 7 \<lparr>cp_chunks = [''abc''], cp_size = 3\<rparr>] @ [CallPut 8 \<lparr>cp_chunks = [''de''], cp_size = 2\<rparr>])) 7"
  by (rule protected_entries_stay)
    (simp_all add: new_pcm_cache_def protect_def Let_def const_simps cache_put_def entry_valid_def size_at_def retains_protected_def)

text \<open>
  What was streamed is what is replayed: when a collector took a stream of chunks to its end and
  the value is put into a cache without protected keys whose limits admit it, a get returns the
  stream's non-empty chunks, byte for byte and in order.
\<close>

theorem collected_stream_replays:
  assumes "1 \<le> n" "0 \<le> b" and c: "c = foldl pcm_step (new_pcm_cache n b) calls" "pc_protected c = {}"
    and e: "collector_complete (foldl collector_add (new_collector m) xs) = Some e"
    and "m \<le> max_entry_bytes" "m \<le> b"
  shows "snd (cache_get (cache_put c k e) k) = Some e \<and> cp_chunks e = filter (\<lambda>x. x \<noteq> []) xs
    \<and> cp_size e = int (length (concat xs))"
proof -
  have "0 \<le> n" using assms(1) by simp
  then have ok: "linked_cache c" and lim: "pc_max_entries c = n" "pc_max_bytes c = b"
    using pcm.inv_run [OF new_cache_ok, of n b calls] assms(2) c(1)
    by (simp_all add: cache_ok_linked pcm_limits new_pcm_cache_def)
  have coll: "co_complete (foldl collector_add (new_collector m) xs)" "cp_size e \<noteq> 0" "cp_chunks e \<noteq> []"
      "e = \<lparr>cp_chunks = co_chunks (foldl collector_add (new_collector m) xs), cp_size = co_size (foldl collector_add (new_collector m) xs)\<rparr>"
    using e by (auto simp: collector_complete_def split: if_splits)
  have ec: "cp_chunks e = filter (\<lambda>x. x \<noteq> []) xs" "cp_size e = int (length (concat xs))"
    using collected [OF coll(1)] coll(4) by (simp_all add: new_collector_def)
  have "cp_size e \<le> max 0 m"
    using collector_bounded [of "new_collector m" xs] arg_cong [OF coll(4), of cp_size] by (simp add: new_collector_def)
  moreover have "0 < cp_size e" using coll(2) ec(2) by simp
  ultimately have small: "cp_size e \<le> m" by (simp add: max_def split: if_splits)
  have "length (concat (filter (\<lambda>x. x \<noteq> []) xs)) = length (concat xs)" by (induction xs) auto
  then have valid: "entry_valid c e"
    using ec coll(2,3) small assms(6,7) lim by (simp add: entry_valid_iff entry_ok_def)
  have "lru_fit {} (\<lambda>r. int (length r) + 1 \<le> n \<and> total_size r + cp_size e \<le> b) [] (lru_without k (recency_of c)) \<noteq> None"
    using assms(1,7) small by (intro lru_fit_unprotected) (simp add: total_size_def)
  then have "pc_entries (cache_put c k e) k = Some e"
  proof (cases rule: put_cases [OF ok valid, of k])
    case (1 r)
    note stored = 1
    have "map_of (recency_of (cache_put c k e)) k = pc_entries (cache_put c k e) k"
      using stored(2) by (simp add: linked_cache_def map_of_recency)
    moreover have "distinct (List.map fst (r @ [(k, e)]))"
      using stored(2) unfolding stored(3) [symmetric] by (simp add: linked_cache_def)
    then have "k \<notin> fst ` set r" by simp
    then have "map_of r k = None" by (simp add: map_of_eq_None_iff)
    ultimately show ?thesis using stored(3) by (simp add: map_add_def)
  qed (use c(2) lim in simp)
  then show ?thesis using ec by (simp add: get_Some Let_def)
qed

lemma collected_stream_replays_witness:
  "snd (cache_get (cache_put (new_pcm_cache 24 8) 7 \<lparr>cp_chunks = [''ab'', ''c''], cp_size = 3\<rparr>) 7)
     = Some \<lparr>cp_chunks = [''ab'', ''c''], cp_size = 3\<rparr>"
  using collected_stream_replays [of 24 8 "new_pcm_cache 24 8" "[]" 8 "[''ab'', [], ''c'']" "\<lparr>cp_chunks = [''ab'', ''c''], cp_size = 3\<rparr>" 7]
  by (simp add: new_pcm_cache_def collector_complete_def collector_add_def new_collector_def const_simps)

end
