(* ===== verification/SynthesisFlight.thy ===== *)
theory SynthesisFlight
  imports PcmCache
begin

text \<open>
  Shared speech synthesis (\<open>internal/speechio/streaming_synthesis_flight.go\<close>): one provider call
  per text publishes PCM chunks into a flight, and every subscriber replays them from the first.

  \<^item> A \<open>flight\<close> is \<open>streamingSynthesisFlight\<close>; \<open>fl_cancel\<close> says that its cancel function is not nil.
    The flights of a group live in a list, the position being the pointer, and \<open>gr_registry\<close> is the
    map of \<open>streamingSynthesisFlightGroup\<close>. A subscriber is the state of a call of \<open>consume\<close>: its
    flight, its index, what its callback received, and where the call stands.
  \<^item> Each critical section is one step: \<open>join\<close> (the front of \<open>stream\<close>, under both mutexes), \<open>take_chunk\<close>
    (one pass of the loop of \<open>consume\<close>), \<open>deliver\<close> (the
    callback, outside the lock), \<open>unsubscribe\<close>, \<open>publish_append\<close> (the second section of \<open>publish\<close>; the
    first is \<open>publish_check\<close>, which changes nothing), \<open>complete\<close> and \<open>retire\<close>. Steps of all
    subscribers and the producer interleave freely, and a producer may publish, complete and retire
    at any time.
  \<^item> The condition variable: a subscriber with nothing to read is \<open>Waiting\<close> and takes no step of its own until a
    \<open>broadcast\<close> on its flight, which \<open>publish\<close>, \<open>complete\<close> and the end of a subscriber's context
    (\<open>context.AfterFunc\<close> in \<open>consume\<close>) make, and nothing else.
  \<^item> The state of a context (its error) and the outcome of callbacks are arguments. Time is not
    modelled: the expiry of the provider context is a \<open>complete\<close> and a \<open>retire\<close> at any time.
    \<open>buffered\<close> is at most one MiB, so it is an \<open>int\<close> that does not wrap.

  The lemmas show the invariant: subscribers are counted exactly, chunks are dropped only when nobody
  reads them, and what a callback received is a prefix of what its flight published.
\<close>

section \<open>Model\<close>

datatype flight_err = FlightCanceled | FlightTooLarge | FlightError string

record flight =
  fl_chunks :: "string list"
  fl_buffered :: int
  fl_done :: bool
  fl_result :: "string \<times> flight_err option"
  fl_subs :: int
  fl_cancel :: bool

definition new_flight :: flight where
  "new_flight = \<lparr>fl_chunks = [], fl_buffered = 0, fl_done = False, fl_result = ([], None), fl_subs = 0, fl_cancel = True\<rparr>"

datatype stage = Reading | Waiting | Delivering string | Leaving "string \<times> flight_err option" | Left

record subscriber =
  su_flight :: nat
  su_index :: nat
  su_got :: "string list"
  su_stage :: stage

record flight_group =
  gr_flights :: "flight list"
  gr_registry :: "pcm_key \<rightharpoonup> nat"
  gr_readers :: "subscriber list"

definition abandoned :: "flight \<Rightarrow> bool" where
  "abandoned f \<longleftrightarrow> fl_done f \<or> (fl_subs f = 0 \<and> \<not> fl_cancel f)"

definition set_flight :: "flight_group \<Rightarrow> nat \<Rightarrow> flight \<Rightarrow> flight_group" where
  "set_flight g i f = g\<lparr>gr_flights := (gr_flights g)[i := f]\<rparr>"

definition set_reader :: "flight_group \<Rightarrow> nat \<Rightarrow> subscriber \<Rightarrow> flight_group" where
  "set_reader g i r = g\<lparr>gr_readers := (gr_readers g)[i := r]\<rparr>"

text \<open>\<open>changed.Broadcast\<close>.\<close>

definition woken :: "nat \<Rightarrow> subscriber \<Rightarrow> subscriber" where
  "woken i r = (if su_flight r = i \<and> su_stage r = Waiting then r\<lparr>su_stage := Reading\<rparr> else r)"

definition broadcast :: "nat \<Rightarrow> flight_group \<Rightarrow> flight_group" where
  "broadcast i g = g\<lparr>gr_readers := List.map (woken i) (gr_readers g)\<rparr>"

text \<open>The front of \<open>stream\<close>: join the flight of the key, or make one and own it.\<close>

definition join_flight :: "flight_group \<Rightarrow> pcm_key \<Rightarrow> flight_group \<times> nat \<times> bool" where
  "join_flight g k =
     (case gr_registry g k of
        Some i \<Rightarrow> if abandoned (gr_flights g ! i)
          then (g\<lparr>gr_flights := gr_flights g @ [new_flight], gr_registry := (gr_registry g)(k \<mapsto> length (gr_flights g))\<rparr>,
                length (gr_flights g), True)
          else (g, i, False)
      | None \<Rightarrow> (g\<lparr>gr_flights := gr_flights g @ [new_flight], gr_registry := (gr_registry g)(k \<mapsto> length (gr_flights g))\<rparr>,
                length (gr_flights g), True))"

definition join :: "flight_group \<Rightarrow> pcm_key \<Rightarrow> flight_err option \<Rightarrow> (flight_err, flight_group \<times> nat \<times> bool) result" where
  "join g k ctx =
     (case ctx of Some e \<Rightarrow> Inl e
      | None \<Rightarrow> (case join_flight g k of (g1, i, owner) \<Rightarrow>
          (let f = gr_flights g1 ! i; g2 = set_flight g1 i (f\<lparr>fl_subs := fl_subs f + 1\<rparr>) in
           Inr (g2\<lparr>gr_readers := gr_readers g2 @ [\<lparr>su_flight = i, su_index = 0, su_got = [], su_stage = Reading\<rparr>]\<rparr>, i, owner))))"

definition validate_publication :: "flight \<Rightarrow> int \<Rightarrow> flight_err option" where
  "validate_publication f n =
     (if abandoned f then Some FlightCanceled
      else if n > max_entry_bytes - fl_buffered f then Some FlightTooLarge
      else None)"

text \<open>The first section of \<open>publish\<close>: an error, nothing more to do, or a copy to append.\<close>

definition publish_check :: "flight \<Rightarrow> string \<Rightarrow> (flight_err, string option) result" where
  "publish_check f x =
     (case validate_publication f (int (length x)) of
        Some e \<Rightarrow> Inl e
      | None \<Rightarrow> if length x = 0 then Inr None else Inr (Some x))"

definition publish_append :: "flight \<Rightarrow> string \<Rightarrow> flight \<times> flight_err option" where
  "publish_append f x =
     (case validate_publication f (int (length x)) of
        Some e \<Rightarrow> (f, Some e)
      | None \<Rightarrow> (f\<lparr>fl_chunks := fl_chunks f @ [x], fl_buffered := fl_buffered f + int (length x)\<rparr>, None))"

definition complete :: "flight \<Rightarrow> string \<Rightarrow> flight_err option \<Rightarrow> flight" where
  "complete f mime err = (if fl_done f then f else f\<lparr>fl_done := True, fl_result := (mime, err), fl_cancel := False\<rparr>)"

text \<open>The producer's goroutine: an error of its context replaces the provider's answer.\<close>

definition produced :: "flight \<Rightarrow> flight_err option \<Rightarrow> string \<Rightarrow> flight_err option \<Rightarrow> flight" where
  "produced f ctx mime err = (case ctx of Some e \<Rightarrow> complete f [] (Some e) | None \<Rightarrow> complete f mime err)"

definition retire :: "flight_group \<Rightarrow> pcm_key \<Rightarrow> nat \<Rightarrow> flight_group" where
  "retire g k i = (if gr_registry g k = Some i then g\<lparr>gr_registry := (gr_registry g)(k := None)\<rparr> else g)"

definition unsubscribe :: "flight \<Rightarrow> flight" where
  "unsubscribe f =
     (let f1 = (if fl_subs f > 0 then f\<lparr>fl_subs := fl_subs f - 1\<rparr> else f) in
      if fl_subs f1 = 0
      then (let f2 = (if \<not> fl_done f1 \<and> fl_cancel f1 then f1\<lparr>fl_cancel := False\<rparr> else f1) in
        f2\<lparr>fl_chunks := [], fl_buffered := 0\<rparr>)
      else f1)"

text \<open>One pass of the loop of \<open>consume\<close>.\<close>

definition take_chunk :: "flight \<Rightarrow> subscriber \<Rightarrow> flight_err option \<Rightarrow> subscriber" where
  "take_chunk f r ctx =
     (case ctx of
        Some e \<Rightarrow> r\<lparr>su_stage := Leaving ([], Some e)\<rparr>
      | None \<Rightarrow>
        if su_index r < length (fl_chunks f)
        then r\<lparr>su_index := su_index r + 1, su_stage := Delivering (fl_chunks f ! su_index r)\<rparr>
        else if fl_done f then r\<lparr>su_stage := Leaving (fl_result f)\<rparr>
        else r\<lparr>su_stage := Waiting\<rparr>)"

definition deliver :: "subscriber \<Rightarrow> string \<Rightarrow> flight_err option \<Rightarrow> subscriber" where
  "deliver r x err =
     (let r1 = r\<lparr>su_got := su_got r @ [x]\<rparr> in
      case err of Some e \<Rightarrow> r1\<lparr>su_stage := Leaving ([], Some e)\<rparr> | None \<Rightarrow> r1\<lparr>su_stage := Reading\<rparr>)"

datatype flight_event =
    Join pcm_key "flight_err option"
  | Publish nat string
  | Produced nat "flight_err option" string "flight_err option"
  | Expired nat flight_err
  | Retire pcm_key nat
  | Take nat "flight_err option"
  | ContextDone nat
  | Deliver nat "flight_err option"
  | Unsubscribe nat

text \<open>\<open>complete\<close> broadcasts when it is the first.\<close>

definition settle :: "flight_group \<Rightarrow> nat \<Rightarrow> flight \<Rightarrow> flight_group" where
  "settle g i f =
     (if i < length (gr_flights g) \<and> \<not> fl_done (gr_flights g ! i) then broadcast i (set_flight g i f) else g)"

definition flight_step :: "flight_group \<Rightarrow> flight_event \<Rightarrow> flight_group" where
  "flight_step g e =
     (case e of
        Join k ctx \<Rightarrow> (case join g k ctx of Inl _ \<Rightarrow> g | Inr (g', _) \<Rightarrow> g')
      | Publish i x \<Rightarrow>
          (if i < length (gr_flights g) \<and> x \<noteq> []
           then (case publish_append (gr_flights g ! i) x of
               (f, None) \<Rightarrow> broadcast i (set_flight g i f) | (f, Some e) \<Rightarrow> set_flight g i f)
           else g)
      | Produced i ctx mime err \<Rightarrow> settle g i (produced (gr_flights g ! i) ctx mime err)
      | Expired i err \<Rightarrow> settle g i (complete (gr_flights g ! i) [] (Some err))
      | Retire k i \<Rightarrow> retire g k i
      | Take j ctx \<Rightarrow>
          (if j < length (gr_readers g) \<and> su_stage (gr_readers g ! j) = Reading
           then set_reader g j (take_chunk (gr_flights g ! su_flight (gr_readers g ! j)) (gr_readers g ! j) ctx) else g)
      | ContextDone j \<Rightarrow> (if j < length (gr_readers g) then broadcast (su_flight (gr_readers g ! j)) g else g)
      | Deliver j err \<Rightarrow>
          (if j < length (gr_readers g)
           then (case su_stage (gr_readers g ! j) of
               Delivering x \<Rightarrow> set_reader g j (deliver (gr_readers g ! j) x err) | _ \<Rightarrow> g)
           else g)
      | Unsubscribe j \<Rightarrow>
          (if j < length (gr_readers g)
           then (case su_stage (gr_readers g ! j) of
               Leaving _ \<Rightarrow> (let r = gr_readers g ! j in
                 set_reader (set_flight g (su_flight r) (unsubscribe (gr_flights g ! su_flight r))) j (r\<lparr>su_stage := Left\<rparr>))
             | _ \<Rightarrow> g)
           else g))"

definition no_flights :: flight_group where
  "no_flights = \<lparr>gr_flights = [], gr_registry = Map.empty, gr_readers = []\<rparr>"

section \<open>The invariant\<close>

definition reads :: "nat \<Rightarrow> subscriber \<Rightarrow> bool" where
  "reads i r \<longleftrightarrow> su_flight r = i \<and> su_stage r \<noteq> Left"

definition flight_ok :: "flight \<Rightarrow> bool" where
  "flight_ok f \<longleftrightarrow> fl_buffered f = int (length (concat (fl_chunks f))) \<and> fl_buffered f \<le> max_entry_bytes \<and> 0 \<le> fl_subs f
     \<and> (fl_subs f = 0 \<longrightarrow> fl_chunks f = [] \<and> abandoned f)"

definition reader_ok :: "flight list \<Rightarrow> subscriber \<Rightarrow> bool" where
  "reader_ok fs r \<longleftrightarrow> su_flight r < length fs \<and>
     (let cs = fl_chunks (fs ! su_flight r) in
      case su_stage r of
        Reading \<Rightarrow> su_index r \<le> length cs \<and> su_got r = take (su_index r) cs
      | Waiting \<Rightarrow> su_index r = length cs \<and> su_got r = cs \<and> \<not> fl_done (fs ! su_flight r)
      | Delivering x \<Rightarrow> su_index r \<le> length cs \<and> su_got r @ [x] = take (su_index r) cs
      | Leaving (_, err) \<Rightarrow> su_index r \<le> length cs \<and> su_got r = take (su_index r) cs
      | Left \<Rightarrow> True)"

definition group_ok :: "flight_group \<Rightarrow> bool" where
  "group_ok g \<longleftrightarrow> list_all flight_ok (gr_flights g) \<and> list_all (reader_ok (gr_flights g)) (gr_readers g)
     \<and> (\<forall>i < length (gr_flights g). fl_subs (gr_flights g ! i) = int (length (filter (reads i) (gr_readers g))))
     \<and> (\<forall>k i. gr_registry g k = Some i \<longrightarrow> i < length (gr_flights g))"

lemma count_update:
  "j < length xs \<Longrightarrow>
   length (filter P (xs[j := y])) + (if P (xs ! j) then 1 else 0) = length (filter P xs) + (if P y then 1 else 0)"
proof (induction xs arbitrary: j)
  case (Cons x xs)
  then show ?case by (cases j) auto
qed simp

text \<open>A flight changes under its readers: nothing they look at, or more chunks or the end, and they are woken.\<close>

lemma reader_ok_same:
  assumes "reader_ok fs r" "i < length fs" "fl_chunks f = fl_chunks (fs ! i)" "fl_done f = fl_done (fs ! i)"
  shows "reader_ok (fs[i := f]) r"
  using assms by (cases "su_flight r = i") (simp_all add: reader_ok_def cong: stage.case_cong)

lemma reader_ok_woken:
  assumes "reader_ok fs r" "i < length fs" "prefix (fl_chunks (fs ! i)) (fl_chunks f)"
  shows "reader_ok (fs[i := f]) (woken i r)"
proof (cases "su_flight r = i")
  case True
  obtain ys where "fl_chunks f = fl_chunks (fs ! i) @ ys" using assms(3) by (auto elim: prefixE)
  then show ?thesis
    using assms(1,2) True by (auto simp: reader_ok_def woken_def Let_def split: stage.splits prod.splits)
qed (use assms(1) in \<open>auto simp: reader_ok_def woken_def Let_def split: stage.splits prod.splits\<close>)

lemma woken_simps [simp]:
  "su_flight (woken i r) = su_flight r" "su_index (woken i r) = su_index r" "su_got (woken i r) = su_got r"
  "(su_stage (woken i r) = Left) = (su_stage r = Left)" "reads l (woken i r) = reads l r"
  by (auto simp: woken_def reads_def)

lemma reads_woken [simp]: "reads l \<circ> woken i = reads l"
  by (simp add: fun_eq_iff)

lemma list_all_update: "list_all P xs \<Longrightarrow> P y \<Longrightarrow> list_all P (xs[j := y])"
  using set_update_subset_insert [of xs j y] by (auto simp: list_all_iff)

lemma group_okD:
  assumes "group_ok g"
  shows "i < length (gr_flights g) \<Longrightarrow> flight_ok (gr_flights g ! i)"
    "j < length (gr_readers g) \<Longrightarrow> reader_ok (gr_flights g) (gr_readers g ! j)"
    "i < length (gr_flights g) \<Longrightarrow> fl_subs (gr_flights g ! i) = int (length (filter (reads i) (gr_readers g)))"
    "gr_registry g k = Some i \<Longrightarrow> i < length (gr_flights g)"
  using assms by (auto simp: group_ok_def list_all_length)

lemma set_flight_ok:
  assumes g: "group_ok g" and i: "i < length (gr_flights g)" and "flight_ok f"
    and "fl_subs f = fl_subs (gr_flights g ! i)" "prefix (fl_chunks (gr_flights g ! i)) (fl_chunks f)"
  shows "group_ok (broadcast i (set_flight g i f))"
proof -
  have "list_all (reader_ok ((gr_flights g)[i := f])) (List.map (woken i) (gr_readers g))"
    using g reader_ok_woken [OF _ i assms(5)] unfolding group_ok_def by (auto simp: list_all_iff)
  then show ?thesis
    using g i assms(3,4) by (auto simp: group_ok_def set_flight_def broadcast_def list_all_update nth_list_update filter_map)
qed

lemma broadcast_ok:
  assumes "group_ok g" "i < length (gr_flights g)"
  shows "group_ok (broadcast i g)"
  using set_flight_ok [OF assms group_okD(1) [OF assms] refl] by (simp add: set_flight_def)

lemma set_reader_ok:
  assumes g: "group_ok g" and j: "j < length (gr_readers g)" and "reader_ok (gr_flights g) r"
    and "su_flight r = su_flight (gr_readers g ! j)" "(su_stage r = Left) = (su_stage (gr_readers g ! j) = Left)"
  shows "group_ok (set_reader g j r)"
proof -
  have "length (filter (reads i) ((gr_readers g)[j := r])) = length (filter (reads i) (gr_readers g))" for i
    using count_update [OF j, of "reads i" r] assms(4,5) by (auto simp: reads_def split: if_splits)
  then show ?thesis using g assms(3) by (simp add: group_ok_def set_reader_def list_all_update)
qed

lemma append_ok:
  assumes "flight_ok f" "x \<noteq> []"
  shows "flight_ok (fst (publish_append f x))" "fl_subs (fst (publish_append f x)) = fl_subs f"
    "prefix (fl_chunks f) (fl_chunks (fst (publish_append f x)))"
  using assms
  by (auto simp: publish_append_def validate_publication_def flight_ok_def abandoned_def split: option.splits if_splits)

lemma complete_simps [simp]:
  "fl_subs (complete f m e) = fl_subs f" "fl_chunks (complete f m e) = fl_chunks f" "flight_ok f \<Longrightarrow> flight_ok (complete f m e)"
  by (auto simp: complete_def flight_ok_def abandoned_def)

lemma take_ok:
  assumes "reader_ok fs r" "su_stage r = Reading"
  shows "reader_ok fs (take_chunk (fs ! su_flight r) r ctx)" "su_flight (take_chunk f r ctx) = su_flight r"
    "su_stage (take_chunk f r ctx) \<noteq> Left"
  using assms
  by (auto simp: take_chunk_def reader_ok_def Let_def take_Suc_conv_app_nth split: option.splits prod.splits)

lemma deliver_ok:
  assumes "reader_ok fs r" "su_stage r = Delivering x"
  shows "reader_ok fs (deliver r x err)" "su_flight (deliver r x err) = su_flight r" "su_stage (deliver r x err) \<noteq> Left"
  using assms by (auto simp: deliver_def reader_ok_def Let_def split: option.splits)

text \<open>A first subscriber joins a new flight.\<close>

abbreviation fresh_reader :: "nat \<Rightarrow> subscriber" where
  "fresh_reader i \<equiv> \<lparr>su_flight = i, su_index = 0, su_got = [], su_stage = Reading\<rparr>"

lemma new_flight_ok:
  assumes g: "group_ok g"
  shows "group_ok (g\<lparr>gr_flights := gr_flights g @ [new_flight\<lparr>fl_subs := 1\<rparr>],
    gr_registry := (gr_registry g)(k \<mapsto> length (gr_flights g)), gr_readers := gr_readers g @ [fresh_reader (length (gr_flights g))]\<rparr>)"
proof -
  have old: "reader_ok (gr_flights g @ [f]) r" if "r \<in> set (gr_readers g)" for r f
    using that g by (fastforce simp: group_ok_def list_all_iff reader_ok_def Let_def nth_append cong: stage.case_cong)
  have "\<not> reads (length (gr_flights g)) r" if "r \<in> set (gr_readers g)" for r
    using g that by (auto simp: group_ok_def list_all_iff reads_def reader_ok_def)
  then have "filter (reads (length (gr_flights g))) (gr_readers g) = []" by (simp add: filter_empty_conv)
  then show ?thesis
    using g old by (auto simp: group_ok_def list_all_iff nth_append less_Suc_eq new_flight_def flight_ok_def const_simps
        reads_def reader_ok_def)
qed

lemma join_old_ok:
  assumes g: "group_ok g" and i: "i < length (gr_flights g)"
  shows "group_ok ((set_flight g i ((gr_flights g ! i)\<lparr>fl_subs := fl_subs (gr_flights g ! i) + 1\<rparr>))
    \<lparr>gr_readers := gr_readers g @ [fresh_reader i]\<rparr>)"
proof -
  let ?f = "(gr_flights g ! i)\<lparr>fl_subs := fl_subs (gr_flights g ! i) + 1\<rparr>"
  have "list_all (reader_ok ((gr_flights g)[i := ?f])) (gr_readers g)"
    using g reader_ok_same [OF _ i, of _ ?f] unfolding group_ok_def list_all_iff by simp
  moreover have "flight_ok ?f" using group_okD(1) [OF g i] by (auto simp: flight_ok_def)
  ultimately show ?thesis
    using g i by (auto simp: group_ok_def set_flight_def list_all_update nth_list_update reads_def reader_ok_def)
qed

lemma join_ok:
  assumes g: "group_ok g" and j: "join g k ctx = Inr (g', i, owner)"
  shows "group_ok g'"
proof -
  obtain g1 where j1: "join_flight g k = (g1, i, owner)"
    and g': "g' = (let f = gr_flights g1 ! i; g2 = set_flight g1 i (f\<lparr>fl_subs := fl_subs f + 1\<rparr>) in
      g2\<lparr>gr_readers := gr_readers g2 @ [fresh_reader i]\<rparr>)"
    using j by (auto simp: join_def Let_def split: option.splits prod.splits)
  show ?thesis
  proof (cases owner)
    case True
    then have "i = length (gr_flights g)" "g1 = g\<lparr>gr_flights := gr_flights g @ [new_flight], gr_registry := (gr_registry g)(k \<mapsto> length (gr_flights g))\<rparr>"
      using j1 by (auto simp: join_flight_def split: option.splits if_splits)
    then show ?thesis using new_flight_ok [OF g, of k] by (cases g) (simp add: g' Let_def set_flight_def new_flight_def)
  next
    case False
    then have "g1 = g" "gr_registry g k = Some i" using j1 by (auto simp: join_flight_def split: option.splits if_splits)
    then show ?thesis using join_old_ok [OF g group_okD(4) [OF g], of k i] by (simp add: g' Let_def set_flight_def)
  qed
qed

lemma unsubscribe_simps:
  "fl_subs (unsubscribe f) = (if fl_subs f > 0 then fl_subs f - 1 else fl_subs f)"
  "fl_chunks (unsubscribe f) = (if fl_subs (unsubscribe f) = 0 then [] else fl_chunks f)"
  "fl_buffered (unsubscribe f) = (if fl_subs (unsubscribe f) = 0 then 0 else fl_buffered f)"
  "fl_subs (unsubscribe f) = 0 \<Longrightarrow> abandoned (unsubscribe f)" "fl_done (unsubscribe f) = fl_done f"
  unfolding unsubscribe_def Let_def by (auto simp: abandoned_def split: if_splits)

lemma unsubscribe_ok:
  assumes g: "group_ok g" and j: "j < length (gr_readers g)" and r: "r = gr_readers g ! j" "su_stage r \<noteq> Left"
  shows "group_ok (set_reader (set_flight g (su_flight r) (unsubscribe (gr_flights g ! su_flight r))) j (r\<lparr>su_stage := Left\<rparr>))"
proof -
  let ?i = "su_flight r" let ?f = "unsubscribe (gr_flights g ! su_flight r)" let ?r = "r\<lparr>su_stage := Left\<rparr>"
  let ?rs = "(gr_readers g)[j := ?r]"
  have i: "?i < length (gr_flights g)" using group_okD(2) [OF g j] r(1) by (simp add: reader_ok_def)
  have cnt: "length (filter (reads i) ?rs) + (if i = ?i then 1 else 0) = length (filter (reads i) (gr_readers g))" for i
    using count_update [OF j, of "reads i" ?r] r by (auto simp: reads_def)
  have other: "length (filter (reads i) ?rs) = length (filter (reads i) (gr_readers g))" if "su_flight r \<noteq> i" for i
    using cnt [of i] that by simp
  have subs: "fl_subs (gr_flights g ! ?i) = int (length (filter (reads ?i) ?rs)) + 1"
    using group_okD(3) [OF g i] cnt [of ?i] by simp
  have f: "fl_subs ?f = int (length (filter (reads ?i) ?rs))" "flight_ok ?f"
    "fl_subs ?f \<noteq> 0 \<Longrightarrow> fl_chunks ?f = fl_chunks (gr_flights g ! ?i)" "fl_done ?f = fl_done (gr_flights g ! ?i)"
    using subs group_okD(1) [OF g i] by (auto simp: unsubscribe_simps flight_ok_def const_simps)
  have "reader_ok ((gr_flights g)[?i := ?f]) q" if q: "q \<in> set ?rs" for q
  proof (cases "su_stage q = Left \<or> su_flight q \<noteq> ?i")
    case True
    have "reader_ok (gr_flights g) q \<or> q = ?r"
      using q set_update_subset_insert [of "gr_readers g" j ?r] g by (auto simp: group_ok_def list_all_iff)
    then have "reader_ok (gr_flights g) q \<or> (su_flight q < length (gr_flights g) \<and> su_stage q = Left)" using i by auto
    then show ?thesis using True by (cases "su_stage q = Left") (auto simp: reader_ok_def cong: stage.case_cong)
  next
    case False
    then have "reads ?i q" by (simp add: reads_def)
    then have "filter (reads ?i) ?rs \<noteq> []" using q by (auto simp: filter_empty_conv)
    then have "fl_subs ?f \<noteq> 0" unfolding f(1) by simp
    moreover have "q \<noteq> ?r" using False by auto
    then have "reader_ok (gr_flights g) q"
      using q set_update_subset_insert [of "gr_readers g" j ?r] g by (auto simp: group_ok_def list_all_iff)
    ultimately show ?thesis using reader_ok_same [OF _ i, of q ?f] f(3,4) by simp
  qed
  then show ?thesis
    using g i f(1,2) other
    by (auto simp: group_ok_def set_flight_def set_reader_def list_all_update nth_list_update list_all_iff [of "reader_ok _"]) 
qed

lemma flight_step_ok:
  assumes g: "group_ok g"
  shows "group_ok (flight_step g e)"
proof (cases e)
  case (Join k ctx)
  then show ?thesis using g by (auto simp: flight_step_def intro: join_ok split: sum.splits prod.splits)
next
  case (Publish i x)
  then show ?thesis
    using g append_ok [OF group_okD(1) [OF g], of i x]
    by (auto simp: flight_step_def publish_append_def set_flight_def intro!: set_flight_ok [OF g, unfolded set_flight_def]
        split: option.splits)
next
  case (Produced i ctx mime err)
  then show ?thesis
    using g group_okD(1) [OF g] by (auto simp: flight_step_def settle_def produced_def intro!: set_flight_ok split: option.splits)
next
  case (Expired i err)
  then show ?thesis using g group_okD(1) [OF g] by (auto simp: flight_step_def settle_def intro!: set_flight_ok)
next
  case (Retire k i)
  then show ?thesis using g by (auto simp: flight_step_def retire_def group_ok_def)
next
  case (Take j ctx)
  then show ?thesis
    using g take_ok [OF group_okD(2) [OF g]] by (auto simp: flight_step_def intro!: set_reader_ok)
next
  case (ContextDone j)
  then show ?thesis using g broadcast_ok [OF g] group_okD(2) [OF g, of j] by (auto simp: flight_step_def reader_ok_def)
next
  case (Deliver j err)
  then show ?thesis
    using g deliver_ok [OF group_okD(2) [OF g]] by (auto simp: flight_step_def intro!: set_reader_ok split: stage.splits)
next
  case (Unsubscribe j)
  then show ?thesis
    using unsubscribe_ok [OF g _ refl] by (auto simp: flight_step_def Let_def g split: stage.splits)
qed

interpretation flights: invariant_system flight_step group_ok
  by unfold_locales (rule flight_step_ok)

lemma no_flights_ok: "group_ok no_flights"
  by (simp add: group_ok_def no_flights_def)

text \<open>While a subscriber reads, the chunks of its flight only grow.\<close>

lemma chunks_grow:
  assumes g: "group_ok g" and j: "j < length (gr_readers g)" and stay: "su_stage (gr_readers (flight_step g e) ! j) \<noteq> Left"
  shows "j < length (gr_readers (flight_step g e)) \<and> su_flight (gr_readers (flight_step g e) ! j) = su_flight (gr_readers g ! j)
    \<and> prefix (fl_chunks (gr_flights g ! su_flight (gr_readers g ! j)))
        (fl_chunks (gr_flights (flight_step g e) ! su_flight (gr_readers g ! j)))"
proof -
  let ?r = "gr_readers g ! j"
  have i: "su_flight ?r < length (gr_flights g)" using group_okD(2) [OF g j] by (simp add: reader_ok_def)
  show ?thesis
  proof (cases e)
    case (Join k ctx)
    then show ?thesis using i j group_okD(4) [OF g]
      by (auto simp: flight_step_def join_def join_flight_def Let_def set_flight_def nth_append nth_list_update
          split: sum.splits option.splits if_splits)
  next
    case (Publish l x)
    then show ?thesis using i j
      by (auto simp: flight_step_def set_flight_def broadcast_def nth_list_update publish_append_def split: option.splits)
  next
    case (Take l ctx)
    then show ?thesis using i j
      by (auto simp: flight_step_def set_reader_def nth_list_update take_chunk_def split: option.splits)
  next
    case (Deliver l err)
    then show ?thesis using i j
      by (auto simp: flight_step_def set_reader_def nth_list_update deliver_def Let_def split: option.splits stage.splits)
  next
    case (Unsubscribe l)
    show ?thesis
    proof (cases "l < length (gr_readers g) \<and> (\<exists>x. su_stage (gr_readers g ! l) = Leaving x)")
      case True
      let ?q = "gr_readers g ! l"
      have st: "flight_step g e = set_reader (set_flight g (su_flight ?q) (unsubscribe (gr_flights g ! su_flight ?q))) l (?q\<lparr>su_stage := Left\<rparr>)"
        using True Unsubscribe by (auto simp: flight_step_def Let_def)
      have "l \<noteq> j" using stay j unfolding st by (auto simp: set_reader_def set_flight_def)
      moreover from this have "su_stage ?r \<noteq> Left" using stay unfolding st by (simp add: set_reader_def set_flight_def)
      ultimately have lj: "l \<noteq> j" "su_stage ?r \<noteq> Left" by auto
      have "fl_chunks (unsubscribe (gr_flights g ! su_flight ?q)) = fl_chunks (gr_flights g ! su_flight ?q)" if "su_flight ?q = su_flight ?r"
      proof -
        have "reads (su_flight ?r) ?r" "reads (su_flight ?r) ?q" using lj(2) True that by (auto simp: reads_def)
        then have "{j, l} \<subseteq> {m. m < length (gr_readers g) \<and> reads (su_flight ?r) (gr_readers g ! m)}" using j True by auto
        then have "card {j, l} \<le> length (filter (reads (su_flight ?r)) (gr_readers g))"
          unfolding length_filter_conv_card by (intro card_mono) auto
        then have "fl_subs (gr_flights g ! su_flight ?r) \<ge> 2" using group_okD(3) [OF g i] lj(1) by simp
        then show ?thesis unfolding that by (simp add: unsubscribe_simps)
      qed
      then show ?thesis unfolding st using lj(1) j i
        by (cases "su_flight ?q = su_flight ?r") (simp_all add: set_reader_def set_flight_def)
    next
      case False
      then have "flight_step g e = g" using Unsubscribe by (auto simp: flight_step_def split: stage.splits)
      then show ?thesis using j by simp
    qed
  qed (use i j in \<open>auto simp: flight_step_def settle_def broadcast_def set_flight_def nth_list_update produced_def retire_def
      split: option.splits\<close>)
qed

text \<open>A subscriber that has left stays away.\<close>

lemma left_stays:
  assumes "j < length (gr_readers g)" "su_stage (gr_readers g ! j) = Left"
  shows "j < length (gr_readers (flight_step g e)) \<and> su_stage (gr_readers (flight_step g e) ! j) = Left"
  using assms
  by (cases e) (auto simp: flight_step_def settle_def broadcast_def join_def join_flight_def Let_def set_flight_def set_reader_def
      retire_def publish_append_def nth_append nth_list_update split: option.splits if_splits stage.splits)

lemma readers_kept: "length (gr_readers g) \<le> length (gr_readers (foldl flight_step g es))"
proof (induction es rule: rev_induct)
  case (snoc e es)
  have "length (gr_readers h) \<le> length (gr_readers (flight_step h e))" for h
    by (cases e) (auto simp: flight_step_def settle_def broadcast_def join_def join_flight_def Let_def set_flight_def set_reader_def
        retire_def publish_append_def split: option.splits stage.splits)
  from this [of "foldl flight_step g es"] snoc show ?case by simp
qed simp

lemma got_prefix:
  assumes "group_ok g" "j < length (gr_readers g)" "su_stage (gr_readers g ! j) \<noteq> Left"
  shows "prefix (su_got (gr_readers g ! j)) (fl_chunks (gr_flights g ! su_flight (gr_readers g ! j)))"
proof -
  let ?r = "gr_readers g ! j" let ?cs = "fl_chunks (gr_flights g ! su_flight ?r)"
  have "su_got ?r = take (su_index ?r) ?cs \<or> (\<exists>x. su_got ?r @ [x] = take (su_index ?r) ?cs)"
    using group_okD(2) [OF assms(1,2)] assms(3) by (auto simp: reader_ok_def Let_def split: stage.splits)
  then show ?thesis by (metis append_prefixD take_is_prefix)
qed

text \<open>
  The turns of one subscriber whose context and callback stay well: it takes a chunk and delivers it.
\<close>

definition turns :: "nat \<Rightarrow> nat \<Rightarrow> flight_event list" where
  "turns j n = concat (replicate n [Take j None, Deliver j None])"

lemma turn_reads:
  assumes "j < length (gr_readers g)" "su_stage (gr_readers g ! j) = Reading"
    "su_index (gr_readers g ! j) < length (fl_chunks (gr_flights g ! su_flight (gr_readers g ! j)))"
  shows "foldl flight_step g [Take j None, Deliver j None] = set_reader g j
    ((gr_readers g ! j)\<lparr>su_index := su_index (gr_readers g ! j) + 1,
       su_got := su_got (gr_readers g ! j) @ [fl_chunks (gr_flights g ! su_flight (gr_readers g ! j)) ! su_index (gr_readers g ! j)]\<rparr>)"
  using assms by (cases "gr_readers g ! j") (simp add: flight_step_def set_reader_def take_chunk_def deliver_def Let_def)

lemma done_drains:
  assumes "j < length (gr_readers g)" "su_stage (gr_readers g ! j) = Reading" "su_flight (gr_readers g ! j) = i"
    and "fl_done (gr_flights g ! i)" "su_got (gr_readers g ! j) = take (su_index (gr_readers g ! j)) (fl_chunks (gr_flights g ! i))"
    and "su_index (gr_readers g ! j) + n = length (fl_chunks (gr_flights g ! i))"
  shows "su_stage (gr_readers (foldl flight_step g (turns j (Suc n))) ! j) = Leaving (fl_result (gr_flights g ! i))
    \<and> su_got (gr_readers (foldl flight_step g (turns j (Suc n))) ! j) = fl_chunks (gr_flights g ! i)"
  using assms
proof (induction n arbitrary: g)
  case 0
  then show ?case by (simp add: turns_def flight_step_def take_chunk_def set_reader_def)
next
  case (Suc n)
  let ?r = "gr_readers g ! j"
  let ?g = "foldl flight_step g [Take j None, Deliver j None]"
  have turn: "?g = set_reader g j (?r\<lparr>su_index := su_index ?r + 1, su_got := su_got ?r @ [fl_chunks (gr_flights g ! i) ! su_index ?r]\<rparr>)"
    using turn_reads [of j g] Suc.prems by simp
  have rest: "foldl flight_step g (turns j (Suc (Suc n))) = foldl flight_step ?g (turns j (Suc n))" by (simp add: turns_def)
  show ?case unfolding rest
    using Suc.IH [of ?g] Suc.prems unfolding turn by (simp add: set_reader_def take_Suc_conv_app_nth)
qed

section \<open>Properties\<close>

text \<open>
  C34. Whatever the producer and the other subscribers do, the callback of a subscriber receives the
  chunks of its flight in order from the first, each once: at every point of every run that it has
  not left, what it received is a prefix of what the flight published, and a later point of the run
  only extends both. When its call returns without an error of its own context, the flight is done,
  the answer is the flight's result, and the callback has received every chunk.
\<close>

theorem subscribers_replay_in_order:
  assumes g: "g = foldl flight_step no_flights es" and g': "g' = foldl flight_step g later"
    and j: "j < length (gr_readers g)" and stay: "su_stage (gr_readers g' ! j) \<noteq> Left"
  shows "(let i = su_flight (gr_readers g ! j); cs = fl_chunks (gr_flights g ! i); cs' = fl_chunks (gr_flights g' ! i) in
      prefix (su_got (gr_readers g ! j)) cs \<and> prefix cs cs' \<and> prefix (su_got (gr_readers g' ! j)) cs'
      \<and> (\<forall>res. su_stage (gr_readers g' ! j) = Reading \<and> su_stage (gr_readers (flight_step g' (Take j None)) ! j) = Leaving res \<longrightarrow>
           fl_done (gr_flights g' ! i) \<and> res = fl_result (gr_flights g' ! i) \<and> su_got (gr_readers g' ! j) = cs'))"
proof -
  have ok: "group_ok g" unfolding g by (rule flights.inv_run [OF no_flights_ok])
  have run: "j < length (gr_readers (foldl flight_step g later))
      \<and> su_flight (gr_readers (foldl flight_step g later) ! j) = su_flight (gr_readers g ! j)
      \<and> prefix (fl_chunks (gr_flights g ! su_flight (gr_readers g ! j)))
          (fl_chunks (gr_flights (foldl flight_step g later) ! su_flight (gr_readers g ! j)))
      \<and> su_stage (gr_readers g ! j) \<noteq> Left"
    using stay unfolding g'
  proof (induction later rule: rev_induct)
    case (snoc e later)
    have ok1: "group_ok (foldl flight_step g later)" by (rule flights.inv_run [OF ok])
    have "j < length (gr_readers (foldl flight_step g later))"
      using j readers_kept [of g later] by simp
    moreover from this have "su_stage (gr_readers (foldl flight_step g later) ! j) \<noteq> Left"
      using left_stays [of j "foldl flight_step g later" e] snoc.prems by auto
    ultimately show ?case
      using snoc.IH chunks_grow [OF ok1, of j e] snoc.prems by (auto intro: prefix_order.trans)
  qed (use j in simp)
  have ok': "group_ok g'" and j': "j < length (gr_readers g')" and same: "su_flight (gr_readers g' ! j) = su_flight (gr_readers g ! j)"
    using flights.inv_run [OF ok, of later] run by (simp_all add: g')
  have "fl_done (gr_flights g' ! su_flight (gr_readers g ! j)) \<and> res = fl_result (gr_flights g' ! su_flight (gr_readers g ! j))
      \<and> su_got (gr_readers g' ! j) = fl_chunks (gr_flights g' ! su_flight (gr_readers g ! j))"
    if "su_stage (gr_readers g' ! j) = Reading" "su_stage (gr_readers (flight_step g' (Take j None)) ! j) = Leaving res" for res
    using that group_okD(2) [OF ok' j'] j'
    by (auto simp: flight_step_def set_reader_def take_chunk_def reader_ok_def Let_def same split: if_splits)
  then show ?thesis
    using run got_prefix [OF ok j] got_prefix [OF ok' j' stay] same by (auto simp: Let_def g')
qed

text \<open>
  A late subscriber: the first one reads a chunk that the producer published, a second one joins
  after that and replays it, and reads the next one after the first has left.
\<close>

definition late_run :: "flight_event list" where
  "late_run = [Join 7 None, Publish 0 ''ab'', Take 0 None, Deliver 0 None, Join 7 None]"

definition late_rest :: "flight_event list" where
  "late_rest = [Publish 0 ''c'', Produced 0 None ''audio'' None, Take 0 (Some FlightCanceled), Unsubscribe 0, Take 1 None, Deliver 1 None,
     Take 1 None, Deliver 1 None]"

lemma late_states:
  "foldl flight_step (foldl flight_step no_flights late_run) late_rest = \<lparr>
     gr_flights = [\<lparr>fl_chunks = [''ab'', ''c''], fl_buffered = 3, fl_done = True, fl_result = (''audio'', None), fl_subs = 1, fl_cancel = False\<rparr>],
     gr_registry = [7 \<mapsto> 0],
     gr_readers = [\<lparr>su_flight = 0, su_index = 1, su_got = [''ab''], su_stage = Left\<rparr>,
       \<lparr>su_flight = 0, su_index = 2, su_got = [''ab'', ''c''], su_stage = Reading\<rparr>]\<rparr>"
  "length (gr_readers (foldl flight_step no_flights late_run)) = 2"
  by (simp_all add: late_run_def late_rest_def no_flights_def flight_step_def join_def join_flight_def Let_def set_flight_def
      set_reader_def publish_append_def validate_publication_def abandoned_def new_flight_def take_chunk_def deliver_def
      produced_def complete_def unsubscribe_def settle_def broadcast_def woken_def const_simps)

lemma subscribers_replay_in_order_witness:
  "su_got (gr_readers (foldl flight_step (foldl flight_step no_flights late_run) late_rest) ! 1) = [''ab'', ''c'']"
proof -
  let ?g = "foldl flight_step no_flights late_run" let ?g' = "foldl flight_step ?g late_rest"
  have take: "su_stage (gr_readers (flight_step ?g' (Take 1 None)) ! 1) = Leaving (''audio'', None)"
    unfolding late_states(1) by (simp add: flight_step_def set_reader_def take_chunk_def)
  have "su_flight (gr_readers ?g ! 1) = 0"
    by (simp add: late_run_def no_flights_def flight_step_def join_def join_flight_def Let_def set_flight_def
      set_reader_def publish_append_def validate_publication_def abandoned_def new_flight_def take_chunk_def deliver_def settle_def broadcast_def woken_def const_simps)
  then show ?thesis
    using subscribers_replay_in_order [OF refl refl, of 1 late_run late_rest] take
    by (simp add: late_states Let_def)
qed

text \<open>
  C28. Nobody waits for ever. At every point of every run, a subscriber that waits has read every chunk of a flight
  that is not done: no wake-up is lost. From every point at which a subscriber reads from a flight that is
  done, its own turns alone end its call with the flight's result, after as many turns as it has chunks left
  and one more, and its callback has then received every chunk. And the end of its own context leaves
  no subscriber waiting.
\<close>

theorem finished_flight_drains:
  assumes g: "g = foldl flight_step no_flights es" and "j < length (gr_readers g)"
    and r: "r = gr_readers g ! j" and f: "f = gr_flights g ! su_flight r"
  shows "(su_stage r = Waiting \<longrightarrow> \<not> fl_done f \<and> su_got r = fl_chunks f)
    \<and> (su_stage r \<in> {Reading, Waiting} \<and> fl_done f \<longrightarrow>
        (let r' = gr_readers (foldl flight_step g (turns j (length (fl_chunks f) - su_index r + 1))) ! j in
         su_stage r' = Leaving (fl_result f) \<and> su_got r' = fl_chunks f))
    \<and> su_stage (gr_readers (flight_step g (ContextDone j)) ! j) \<noteq> Waiting"
proof -
  have "group_ok g" unfolding g by (rule flights.inv_run [OF no_flights_ok])
  then have ok: "reader_ok (gr_flights g) r" using group_okD(2) [of g j] assms(2) r by simp
  then have waits: "su_stage r = Waiting \<longrightarrow> \<not> fl_done f \<and> su_got r = fl_chunks f"
    by (auto simp: reader_ok_def Let_def f)
  have "let r' = gr_readers (foldl flight_step g (turns j (length (fl_chunks f) - su_index r + 1))) ! j in
      su_stage r' = Leaving (fl_result f) \<and> su_got r' = fl_chunks f" if "su_stage r = Reading" "fl_done f"
    using that ok done_drains [OF assms(2), of "su_flight r" "length (fl_chunks f) - su_index r"] r f
    by (simp add: reader_ok_def Let_def)
  moreover have "su_stage (gr_readers (flight_step g (ContextDone j)) ! j) \<noteq> Waiting"
    using assms(2) by (simp add: flight_step_def broadcast_def woken_def)
  ultimately show ?thesis using waits by auto
qed

lemma finished_flight_drains_witness:
  "su_stage (gr_readers (foldl flight_step (foldl flight_step no_flights (late_run @ late_rest)) (turns 1 1)) ! 1)
     = Leaving (''audio'', None)"
proof -
  have s: "foldl flight_step no_flights (late_run @ late_rest) = foldl flight_step (foldl flight_step no_flights late_run) late_rest"
    by simp
  show ?thesis using finished_flight_drains [OF refl _ refl refl, of 1 "late_run @ late_rest"] unfolding s late_states
    by (simp add: Let_def)
qed

end
