(* ===== verification/PasskeyStore.thy ===== *)
theory PasskeyStore
  imports Go_Text
begin

text \<open>
  The passkey store (\<open>internal/passkey\<close>: \<open>store.go\<close>, \<open>memory_store.go\<close> and the code format of
  \<open>recovery_code.go\<close>).

  \<^item> \<open>pk_store\<close> is \<open>MemoryStore\<close>: the ceremonies, the users, the index of credentials, the deletion
    markers, the recovery codes by account and the index from codes to accounts. The keys of the maps
    are document identifiers.
  \<^item> \<open>pk_env\<close> holds what the store takes from elsewhere: SHA-256, and the copy of a
    \<open>webauthn.Credential\<close> through JSON. \<open>env_ok\<close> states their documented behaviour: a digest has 32
    bytes, and the copy keeps the credential's identifier. Of a credential the model keeps the
    identifier and the two flags that the service reads, and a string for all the rest.
  \<^item> Errors are \<open>pk_error\<close>; the mutex makes each method one step; a user that is nil is not modelled.
    A credential's version is an \<open>int64\<close> that counts its updates; the model uses \<open>int\<close>, since
    \<open>2 ^ 63\<close> updates do not happen.
  \<^item> Go visits the keys of a map in any order. \<open>load_recovery_user_by_handle\<close> takes the order as an
    argument.

  The lemmas show that every operation keeps the relation between users, credentials and recovery
  codes, and that ceremonies and recovery codes are consumed once.
\<close>

section \<open>Data\<close>

datatype pk_error = ErrCeremonyInvalid | ErrCredentialNotFound | ErrCredentialConflict
  | ErrCredentialReferenceInvalid | ErrCredentialStateInvalid | ErrLastCredential | ErrConcurrentAssertion
  | ErrRecoveryCode | ErrAuthentication | ErrRegistration | ErrCredentialRegistration | ErrAccountDeletion

record credential =
  cr_id :: string
  cr_user_verified :: bool
  cr_clone_warning :: bool
  cr_rest :: string

record pk_user =
  us_uid :: string
  us_handle :: string
  us_credentials :: "credential list"

record ceremony =
  ce_purpose :: string
  ce_app_digest :: string
  ce_principal_digest :: string
  ce_recovery_digest :: string
  ce_target_uid :: string
  ce_user_handle :: string
  ce_session :: string
  ce_expires :: time
  ce_created :: time

record stored_credential =
  sc_user :: pk_user
  sc_credential :: credential
  sc_version :: int

record credential_summary =
  su_reference :: string
  su_created :: time
  su_last_used :: time

record memory_credential =
  mc_uid :: string
  mc_handle :: string
  mc_credential :: credential
  mc_version :: int
  mc_created :: time
  mc_updated :: time

record recovery_code =
  rc_digest :: string
  rc_expires :: time
  rc_issued :: time

record pk_store =
  ms_ceremonies :: "string \<rightharpoonup> ceremony"
  ms_users :: "string \<rightharpoonup> pk_user"
  ms_credentials :: "string \<rightharpoonup> memory_credential"
  ms_deleted :: "string \<rightharpoonup> time"
  ms_recovery :: "string \<rightharpoonup> recovery_code"
  ms_recovery_by_code :: "string \<rightharpoonup> string"

definition new_memory_store :: pk_store where
  "new_memory_store = \<lparr>ms_ceremonies = Map.empty, ms_users = Map.empty, ms_credentials = Map.empty,
     ms_deleted = Map.empty, ms_recovery = Map.empty, ms_recovery_by_code = Map.empty\<rparr>"

record pk_env =
  pe_sha256 :: "string \<Rightarrow> string"
  pe_clone :: "credential \<Rightarrow> credential"

definition env_ok :: "pk_env \<Rightarrow> bool" where
  "env_ok E \<longleftrightarrow> (\<forall>s. length (pe_sha256 E s) = 32) \<and> (\<forall>c. cr_id (pe_clone E c) = cr_id c)"

definition max_credentials :: nat where
  [const_simps]: "max_credentials = 8"

definition recovery_code_ttl :: duration where
  [const_simps]: "recovery_code_ttl = 30 * 24 * hour"

definition registration_use :: string where "registration_use = ''registration-v1''"
definition credential_addition_use :: string where "credential_addition_use = ''credential-addition-v1''"
definition recovery_registration_use :: string where "recovery_registration_use = ''recovery-registration-v1''"
definition authentication_use :: string where "authentication_use = ''authentication-v1''"

section \<open>References and codes\<close>

definition credential_reference :: "pk_env \<Rightarrow> string \<Rightarrow> string" where
  "credential_reference E raw = b64_encode (pe_sha256 E raw)"

definition document_id :: "pk_env \<Rightarrow> string \<Rightarrow> string" where
  "document_id E raw = credential_reference E raw"

definition credential_reference_for_raw_id :: "pk_env \<Rightarrow> string \<Rightarrow> (pk_error, string) result" where
  "credential_reference_for_raw_id E raw =
     (if length raw = 0 then Inl ErrCredentialReferenceInvalid else Inr (credential_reference E raw))"

definition parse_credential_reference :: "string \<Rightarrow> (pk_error, string) result" where
  "parse_credential_reference v =
     (if length v \<noteq> 43 then Inl ErrCredentialReferenceInvalid
      else case b64_decode_strict v of
        None \<Rightarrow> Inl ErrCredentialReferenceInvalid
      | Some d \<Rightarrow> if length d \<noteq> 32 \<or> b64_encode d \<noteq> v then Inl ErrCredentialReferenceInvalid else Inr v)"

fun references_loop :: "pk_env \<Rightarrow> string list \<Rightarrow> credential list \<Rightarrow> (pk_error, string list) result" where
  "references_loop E acc [] = Inr acc"
| "references_loop E acc (c # cs) =
     (case credential_reference_for_raw_id E (cr_id c) of
        Inl e \<Rightarrow> Inl ErrCredentialStateInvalid
      | Inr r \<Rightarrow> if r \<in> set acc then Inl ErrCredentialStateInvalid else references_loop E (acc @ [r]) cs)"

definition credential_references :: "pk_env \<Rightarrow> credential list \<Rightarrow> (pk_error, string list) result" where
  "credential_references E cs =
     (if length cs = 0 \<or> length cs > max_credentials then Inl ErrCredentialStateInvalid else references_loop E [] cs)"

definition new_credential_summary :: "string \<Rightarrow> time \<Rightarrow> time \<Rightarrow> (pk_error, credential_summary) result" where
  "new_credential_summary ref created last_used =
     (case parse_credential_reference ref of
        Inl e \<Rightarrow> Inl ErrCredentialStateInvalid
      | Inr parsed \<Rightarrow>
        if parsed \<noteq> ref \<or> is_zero created \<or> is_zero last_used \<or> last_used < created then Inl ErrCredentialStateInvalid
        else Inr \<lparr>su_reference = ref, su_created = created, su_last_used = last_used\<rparr>)"

definition validate_credential_creation :: "pk_user \<Rightarrow> credential \<Rightarrow> time \<Rightarrow> pk_error option" where
  "validate_credential_creation u c now =
     (if us_uid u = [] \<or> length (us_handle u) = 0 \<or> length (cr_id c) = 0 \<or> is_zero now
      then Some ErrCredentialStateInvalid else None)"

definition validate_credential_update :: "string \<Rightarrow> credential \<Rightarrow> time \<Rightarrow> pk_error option" where
  "validate_credential_update raw c now =
     (if length raw = 0 \<or> length (cr_id c) = 0 \<or> is_zero now \<or> raw \<noteq> cr_id c
      then Some ErrCredentialStateInvalid else None)"

definition ceremony_matches :: "ceremony \<Rightarrow> string \<Rightarrow> string \<Rightarrow> time \<Rightarrow> bool" where
  "ceremony_matches r purpose app now =
     (if ce_purpose r \<noteq> purpose \<or> \<not> ce_expires r > now \<or> ce_app_digest r \<noteq> app then False else True)"

definition recovery_code_prefix :: string where "recovery_code_prefix = ''krc1_''"

definition recovery_domain :: string where "recovery_domain = ''kotae-passkey-recovery-code-v1'' @ [CHR 0x00]"

definition recovery_code_digest :: "pk_env \<Rightarrow> string \<Rightarrow> (pk_error, string) result" where
  "recovery_code_digest E code =
     (if \<not> prefix recovery_code_prefix code \<or> length code \<noteq> length recovery_code_prefix + 43 then Inl ErrRecoveryCode
      else case b64_decode_strict (drop (length recovery_code_prefix) code) of
        None \<Rightarrow> Inl ErrRecoveryCode
      | Some material \<Rightarrow>
        if length material \<noteq> 32 \<or> recovery_code_prefix @ b64_encode material \<noteq> code then Inl ErrRecoveryCode
        else Inr (pe_sha256 E (recovery_domain @ material)))"

definition recovery_code_document_id :: "string \<Rightarrow> string" where
  "recovery_code_document_id digest = b64_encode digest"

section \<open>Operations\<close>

text \<open>\<open>validateCredentialStateLocked\<close>: each credential of a user against its index entry.\<close>

definition indexed_ok :: "pk_env \<Rightarrow> pk_store \<Rightarrow> pk_user \<Rightarrow> time \<Rightarrow> string \<Rightarrow> credential \<Rightarrow> bool" where
  "indexed_ok E s u next_update ref c =
     (case ms_credentials s ref of
        None \<Rightarrow> False
      | Some m \<Rightarrow>
        \<not> (mc_uid m \<noteq> us_uid u \<or> mc_handle m \<noteq> us_handle u \<or> cr_id (mc_credential m) \<noteq> cr_id c
           \<or> credential_reference E (cr_id (mc_credential m)) \<noteq> ref \<or> mc_version m < 1)
        \<and> (\<exists>su. new_credential_summary ref (mc_created m) (mc_updated m) = Inr su)
        \<and> \<not> (\<not> is_zero next_update \<and> next_update < mc_updated m))"

definition validate_credential_state :: "pk_env \<Rightarrow> pk_store \<Rightarrow> pk_user \<Rightarrow> time \<Rightarrow> (pk_error, string list) result" where
  "validate_credential_state E s u next_update =
     (if us_uid u = [] \<or> length (us_handle u) = 0 then Inl ErrCredentialStateInvalid
      else case credential_references E (us_credentials u) of
        Inl e \<Rightarrow> Inl e
      | Inr refs \<Rightarrow>
        if list_all (\<lambda>(r, c). indexed_ok E s u next_update r c) (zip refs (us_credentials u)) then Inr refs
        else Inl ErrCredentialStateInvalid)"

definition clone_user :: "pk_env \<Rightarrow> pk_user \<Rightarrow> pk_user" where
  "clone_user E u = u\<lparr>us_credentials := List.map (pe_clone E) (us_credentials u)\<rparr>"

definition replace_recovery_code :: "pk_env \<Rightarrow> pk_store \<Rightarrow> string \<Rightarrow> string \<Rightarrow> time \<Rightarrow> time \<Rightarrow> pk_store \<times> pk_error option" where
  "replace_recovery_code E s uid0 digest expires now =
     (let uid = trim_space uid0; key = document_id E uid; code = recovery_code_document_id digest in
      if uid = [] \<or> is_zero now \<or> \<not> expires > now \<or> expires > now + recovery_code_ttl then (s, Some ErrRecoveryCode)
      else case ms_users s key of
        None \<Rightarrow> (s, Some ErrCredentialNotFound)
      | Some u \<Rightarrow>
        if us_uid u \<noteq> uid then (s, Some ErrCredentialNotFound)
        else case validate_credential_state E s u now of
          Inl e \<Rightarrow> (s, Some e)
        | Inr _ \<Rightarrow>
          if (case ms_recovery_by_code s code of Some owner \<Rightarrow> owner \<noteq> key | None \<Rightarrow> False)
          then (s, Some ErrCredentialConflict)
          else
           (let by1 = (case ms_recovery s key of
                 Some previous \<Rightarrow> (ms_recovery_by_code s)(recovery_code_document_id (rc_digest previous) := None)
               | None \<Rightarrow> ms_recovery_by_code s) in
            (s\<lparr>ms_recovery := (ms_recovery s)(key \<mapsto> \<lparr>rc_digest = digest, rc_expires = expires, rc_issued = now\<rparr>),
               ms_recovery_by_code := by1(code \<mapsto> key)\<rparr>, None)))"

definition recovery_live :: "recovery_code \<Rightarrow> string \<Rightarrow> time \<Rightarrow> bool" where
  "recovery_live r digest now \<longleftrightarrow>
     \<not> (rc_digest r \<noteq> digest \<or> \<not> rc_expires r > now \<or> is_zero (rc_issued r) \<or> \<not> rc_expires r > rc_issued r)"

definition load_recovery_user :: "pk_env \<Rightarrow> pk_store \<Rightarrow> string \<Rightarrow> time \<Rightarrow> (pk_error, pk_user) result" where
  "load_recovery_user E s digest now =
     (if is_zero now then Inl ErrRecoveryCode
      else case ms_recovery_by_code s (recovery_code_document_id digest) of
        None \<Rightarrow> Inl ErrRecoveryCode
      | Some key \<Rightarrow>
        case ms_recovery s key of
          None \<Rightarrow> Inl ErrRecoveryCode
        | Some r \<Rightarrow>
          if \<not> recovery_live r digest now then Inl ErrRecoveryCode
          else case ms_users s key of
            None \<Rightarrow> Inl ErrRecoveryCode
          | Some u \<Rightarrow>
            case validate_credential_state E s u now of
              Inl _ \<Rightarrow> Inl ErrRecoveryCode | Inr _ \<Rightarrow> Inr (clone_user E u))"

fun recovery_handle_loop :: "pk_env \<Rightarrow> pk_store \<Rightarrow> string \<Rightarrow> string \<Rightarrow> time \<Rightarrow> string list \<Rightarrow> (pk_error, pk_user) result" where
  "recovery_handle_loop E s handle pdigest now [] = Inl ErrRecoveryCode"
| "recovery_handle_loop E s handle pdigest now (k # ks) =
     (case ms_users s k of
        None \<Rightarrow> recovery_handle_loop E s handle pdigest now ks
      | Some u \<Rightarrow>
        if us_handle u \<noteq> handle \<or> pe_sha256 E (us_uid u) \<noteq> pdigest
        then recovery_handle_loop E s handle pdigest now ks
        else case validate_credential_state E s u now of
          Inl _ \<Rightarrow> Inl ErrRecoveryCode | Inr _ \<Rightarrow> Inr (clone_user E u))"

definition load_recovery_user_by_handle ::
    "pk_env \<Rightarrow> pk_store \<Rightarrow> string list \<Rightarrow> string \<Rightarrow> string \<Rightarrow> time \<Rightarrow> (pk_error, pk_user) result" where
  "load_recovery_user_by_handle E s keys handle pdigest now =
     (if length handle = 0 \<or> length pdigest \<noteq> 32 \<or> is_zero now then Inl ErrRecoveryCode
      else recovery_handle_loop E s handle pdigest now keys)"

definition delete_account_data :: "pk_env \<Rightarrow> pk_store \<Rightarrow> string \<Rightarrow> time \<Rightarrow> pk_store \<times> pk_error option" where
  "delete_account_data E s uid now =
     (let key = document_id E uid in
      if uid = [] \<or> is_zero now then (s, Some ErrCredentialStateInvalid)
      else if ms_deleted s key \<noteq> None then (s, None)
      else case ms_users s key of
        None \<Rightarrow> (s, Some ErrCredentialNotFound)
      | Some u \<Rightarrow>
        if us_uid u \<noteq> uid then (s, Some ErrCredentialNotFound)
        else case validate_credential_state E s u now of
          Inl e \<Rightarrow> (s, Some e)
        | Inr refs \<Rightarrow>
          (let s1 = (case ms_recovery s key of
               Some r \<Rightarrow> s\<lparr>ms_recovery_by_code := (ms_recovery_by_code s)(recovery_code_document_id (rc_digest r) := None),
                   ms_recovery := (ms_recovery s)(key := None)\<rparr>
             | None \<Rightarrow> s) in
           (s1\<lparr>ms_credentials := ms_credentials s1 |` (- set refs), ms_users := (ms_users s1)(key := None),
              ms_deleted := (ms_deleted s1)(key \<mapsto> now)\<rparr>, None)))"

definition put_ceremony :: "pk_env \<Rightarrow> pk_store \<Rightarrow> string \<Rightarrow> ceremony \<Rightarrow> pk_store \<times> pk_error option" where
  "put_ceremony E s i r =
     (if ms_ceremonies s (document_id E i) \<noteq> None then (s, Some ErrCredentialConflict)
      else (s\<lparr>ms_ceremonies := (ms_ceremonies s)(document_id E i \<mapsto> r)\<rparr>, None))"

definition consume_ceremony :: "pk_env \<Rightarrow> pk_store \<Rightarrow> string \<Rightarrow> string \<Rightarrow> string \<Rightarrow> time
    \<Rightarrow> pk_store \<times> (pk_error, ceremony) result" where
  "consume_ceremony E s i purpose app now =
     (case ms_ceremonies s (document_id E i) of
        None \<Rightarrow> (s, Inl ErrCeremonyInvalid)
      | Some r \<Rightarrow>
        (let s1 = s\<lparr>ms_ceremonies := (ms_ceremonies s)(document_id E i := None)\<rparr> in
         if \<not> ceremony_matches r purpose app now then (s1, Inl ErrCeremonyInvalid) else (s1, Inr r)))"

definition consume_registration_ceremony :: "pk_env \<Rightarrow> pk_store \<Rightarrow> string \<Rightarrow> string \<Rightarrow> time
    \<Rightarrow> pk_store \<times> (pk_error, ceremony) result" where
  "consume_registration_ceremony E s i app now =
     (case ms_ceremonies s (document_id E i) of
        None \<Rightarrow> (s, Inl ErrCeremonyInvalid)
      | Some r \<Rightarrow>
        (let s1 = s\<lparr>ms_ceremonies := (ms_ceremonies s)(document_id E i := None)\<rparr> in
         if (ce_purpose r \<noteq> registration_use \<and> ce_purpose r \<noteq> recovery_registration_use)
           \<or> \<not> ceremony_matches r (ce_purpose r) app now
         then (s1, Inl ErrCeremonyInvalid) else (s1, Inr r)))"

definition load_user_by_uid :: "pk_env \<Rightarrow> pk_store \<Rightarrow> string \<Rightarrow> (pk_error, pk_user) result" where
  "load_user_by_uid E s uid =
     (case ms_users s (document_id E uid) of None \<Rightarrow> Inl ErrCredentialNotFound | Some u \<Rightarrow> Inr (clone_user E u))"

text \<open>The stored user that a credential is added to.\<close>

definition creation_user :: "pk_env \<Rightarrow> pk_store \<Rightarrow> pk_user \<Rightarrow> time \<Rightarrow> (pk_error, pk_user) result" where
  "creation_user E s u now =
     (case ms_users s (document_id E (us_uid u)) of
        None \<Rightarrow>
          if \<exists>candidate \<in> ran (ms_users s). us_handle candidate = us_handle u then Inl ErrCredentialConflict
          else Inr \<lparr>us_uid = us_uid u, us_handle = us_handle u, us_credentials = []\<rparr>
      | Some stored \<Rightarrow>
          if us_handle stored \<noteq> us_handle u then Inl ErrCredentialConflict
          else case validate_credential_state E s stored now of Inl e \<Rightarrow> Inl e | Inr _ \<Rightarrow> Inr stored)"

definition create_credential_locked :: "pk_env \<Rightarrow> pk_store \<Rightarrow> pk_user \<Rightarrow> credential \<Rightarrow> time \<Rightarrow> pk_store \<times> pk_error option" where
  "create_credential_locked E s u c now =
     (let ckey = document_id E (cr_id c); ukey = document_id E (us_uid u) in
      if ms_credentials s ckey \<noteq> None then (s, Some ErrCredentialConflict)
      else case creation_user E s u now of
        Inl e \<Rightarrow> (s, Some e)
      | Inr stored \<Rightarrow>
        if length (us_credentials stored) \<ge> max_credentials then (s, Some ErrCredentialConflict)
        else (s\<lparr>ms_users := (ms_users s)(ukey \<mapsto> stored\<lparr>us_credentials := us_credentials stored @ [pe_clone E c]\<rparr>),
          ms_credentials := (ms_credentials s)(ckey \<mapsto> \<lparr>mc_uid = us_uid u, mc_handle = us_handle u,
            mc_credential = pe_clone E c, mc_version = 1, mc_created = now, mc_updated = now\<rparr>)\<rparr>, None))"

definition create_credential :: "pk_env \<Rightarrow> pk_store \<Rightarrow> pk_user \<Rightarrow> credential \<Rightarrow> time \<Rightarrow> pk_store \<times> pk_error option" where
  "create_credential E s u c now =
     (case validate_credential_creation u c now of Some e \<Rightarrow> (s, Some e) | None \<Rightarrow> create_credential_locked E s u c now)"

definition create_recovery_credential ::
    "pk_env \<Rightarrow> pk_store \<Rightarrow> pk_user \<Rightarrow> credential \<Rightarrow> string \<Rightarrow> time \<Rightarrow> pk_store \<times> pk_error option" where
  "create_recovery_credential E s u c digest now =
     (case validate_credential_creation u c now of
        Some e \<Rightarrow> (s, Some ErrRecoveryCode)
      | None \<Rightarrow>
        (let ukey = document_id E (us_uid u); code = recovery_code_document_id digest in
         case (ms_recovery s ukey, ms_recovery_by_code s code) of
           (Some r, Some owner) \<Rightarrow>
             if owner \<noteq> ukey \<or> \<not> recovery_live r digest now then (s, Some ErrRecoveryCode)
             else (case create_credential_locked E s u c now of
                 (s1, Some e) \<Rightarrow> (s1, Some ErrRecoveryCode)
               | (s1, None) \<Rightarrow> (s1\<lparr>ms_recovery_by_code := (ms_recovery_by_code s1)(code := None),
                     ms_recovery := (ms_recovery s1)(ukey := None)\<rparr>, None))
         | _ \<Rightarrow> (s, Some ErrRecoveryCode)))"

definition find_credential :: "pk_env \<Rightarrow> pk_store \<Rightarrow> string \<Rightarrow> string \<Rightarrow> (pk_error, stored_credential) result" where
  "find_credential E s raw handle =
     (case ms_credentials s (document_id E raw) of
        None \<Rightarrow> Inl ErrCredentialNotFound
      | Some m \<Rightarrow>
        if cr_id (mc_credential m) \<noteq> raw \<or> mc_handle m \<noteq> handle then Inl ErrCredentialNotFound
        else case ms_users s (document_id E (mc_uid m)) of
          None \<Rightarrow> Inl ErrCredentialNotFound
        | Some u \<Rightarrow> Inr \<lparr>sc_user = clone_user E u, sc_credential = pe_clone E (mc_credential m), sc_version = mc_version m\<rparr>)"

text \<open>The last position of a reference, as the loops of update and revoke find it.\<close>

definition target_index :: "string \<Rightarrow> string list \<Rightarrow> nat option" where
  "target_index r refs = find (\<lambda>i. refs ! i = r) (rev [0..<length refs])"

definition update_credential :: "pk_env \<Rightarrow> pk_store \<Rightarrow> string \<Rightarrow> int \<Rightarrow> credential \<Rightarrow> time \<Rightarrow> pk_store \<times> pk_error option" where
  "update_credential E s raw expected c now =
     (case validate_credential_update raw c now of
        Some e \<Rightarrow> (s, Some e)
      | None \<Rightarrow>
        (let key = document_id E raw in
         case ms_credentials s key of
           None \<Rightarrow> (s, Some ErrCredentialNotFound)
         | Some m \<Rightarrow>
           if cr_id (mc_credential m) \<noteq> raw then (s, Some ErrCredentialNotFound)
           else if mc_version m \<noteq> expected then (s, Some ErrConcurrentAssertion)
           else case ms_users s (document_id E (mc_uid m)) of
             None \<Rightarrow> (s, Some ErrCredentialNotFound)
           | Some u \<Rightarrow>
             if us_uid u \<noteq> mc_uid m \<or> us_handle u \<noteq> mc_handle m then (s, Some ErrCredentialStateInvalid)
             else case validate_credential_state E s u now of
               Inl e \<Rightarrow> (s, Some e)
             | Inr refs \<Rightarrow>
               case target_index (credential_reference E raw) refs of
                 None \<Rightarrow> (s, Some ErrCredentialNotFound)
               | Some i \<Rightarrow>
                 (s\<lparr>ms_users := (ms_users s)(document_id E (mc_uid m) \<mapsto>
                     u\<lparr>us_credentials := (us_credentials u)[i := pe_clone E c]\<rparr>),
                   ms_credentials := (ms_credentials s)(key \<mapsto> m\<lparr>mc_credential := pe_clone E c,
                     mc_version := mc_version m + 1, mc_updated := now\<rparr>)\<rparr>, None)))"

fun summaries_loop :: "pk_store \<Rightarrow> string list \<Rightarrow> credential_summary list \<Rightarrow> (pk_error, credential_summary list) result" where
  "summaries_loop s [] acc = Inr acc"
| "summaries_loop s (r # rs) acc =
     (let (created, updated) = (case ms_credentials s r of Some m \<Rightarrow> (mc_created m, mc_updated m) | None \<Rightarrow> (0, 0)) in
      case new_credential_summary r created updated of
        Inl e \<Rightarrow> Inl e | Inr x \<Rightarrow> summaries_loop s rs (acc @ [x]))"

definition list_credentials :: "pk_env \<Rightarrow> pk_store \<Rightarrow> string \<Rightarrow> (pk_error, credential_summary list) result" where
  "list_credentials E s uid =
     (case ms_users s (document_id E uid) of
        None \<Rightarrow> Inl ErrCredentialNotFound
      | Some u \<Rightarrow>
        if us_uid u \<noteq> uid then Inl ErrCredentialNotFound
        else case validate_credential_state E s u 0 of
          Inl e \<Rightarrow> Inl e | Inr refs \<Rightarrow> summaries_loop s refs [])"

definition revoke_credential :: "pk_env \<Rightarrow> pk_store \<Rightarrow> string \<Rightarrow> string \<Rightarrow> time \<Rightarrow> pk_store \<times> pk_error option" where
  "revoke_credential E s uid ref now =
     (case parse_credential_reference ref of
        Inl e \<Rightarrow> (s, Some ErrCredentialReferenceInvalid)
      | Inr parsed \<Rightarrow>
        if parsed \<noteq> ref then (s, Some ErrCredentialReferenceInvalid)
        else if is_zero now then (s, Some ErrCredentialStateInvalid)
        else case ms_users s (document_id E uid) of
          None \<Rightarrow> (s, Some ErrCredentialNotFound)
        | Some u \<Rightarrow>
          if us_uid u \<noteq> uid then (s, Some ErrCredentialNotFound)
          else case validate_credential_state E s u now of
            Inl e \<Rightarrow> (s, Some e)
          | Inr refs \<Rightarrow>
            case target_index parsed refs of
              None \<Rightarrow> (s, Some ErrCredentialNotFound)
            | Some i \<Rightarrow>
              if length refs = 1 then (s, Some ErrLastCredential)
              else (s\<lparr>ms_users := (ms_users s)(document_id E uid \<mapsto>
                   u\<lparr>us_credentials := List.map (pe_clone E) (nths (us_credentials u) (- {i}))\<rparr>),
                 ms_credentials := (ms_credentials s)(parsed := None)\<rparr>, None))"

section \<open>Runs\<close>

datatype pk_call =
    PutCeremony string ceremony
  | ConsumeCeremony string string string time
  | ConsumeRegistration string string time
  | ReplaceRecoveryCode string string time time
  | CreateCredential pk_user credential time
  | CreateRecoveryCredential pk_user credential string time
  | UpdateCredential string int credential time
  | RevokeCredential string string time
  | DeleteAccountData string time

fun pk_step :: "pk_env \<Rightarrow> pk_store \<Rightarrow> pk_call \<Rightarrow> pk_store" where
  "pk_step E s (PutCeremony i r) = fst (put_ceremony E s i r)"
| "pk_step E s (ConsumeCeremony i p app now) = fst (consume_ceremony E s i p app now)"
| "pk_step E s (ConsumeRegistration i app now) = fst (consume_registration_ceremony E s i app now)"
| "pk_step E s (ReplaceRecoveryCode uid d expires now) = fst (replace_recovery_code E s uid d expires now)"
| "pk_step E s (CreateCredential u c now) = fst (create_credential E s u c now)"
| "pk_step E s (CreateRecoveryCredential u c d now) = fst (create_recovery_credential E s u c d now)"
| "pk_step E s (UpdateCredential raw v c now) = fst (update_credential E s raw v c now)"
| "pk_step E s (RevokeCredential uid ref now) = fst (revoke_credential E s uid ref now)"
| "pk_step E s (DeleteAccountData uid now) = fst (delete_account_data E s uid now)"

section \<open>What validation checks\<close>

abbreviation cref :: "pk_env \<Rightarrow> credential \<Rightarrow> string" where
  "cref E c \<equiv> credential_reference E (cr_id c)"

lemma parse_iff: "parse_credential_reference v = Inr w \<longleftrightarrow> w = v \<and> (\<exists>d. length d = 32 \<and> v = b64_encode d)"
proof
  assume "w = v \<and> (\<exists>d. length d = 32 \<and> v = b64_encode d)"
  then show "parse_credential_reference v = Inr w"
    by (auto simp: parse_credential_reference_def b64_decode_encode length_b64_encode)
qed (auto simp: parse_credential_reference_def split: if_splits option.splits)

lemma parse_reference: "env_ok E \<Longrightarrow> parse_credential_reference (credential_reference E raw) = Inr (credential_reference E raw)"
  by (auto simp: parse_iff credential_reference_def env_ok_def)

lemma summary_iff:
  assumes "env_ok E"
  shows "(\<exists>su. new_credential_summary (credential_reference E raw) a b = Inr su) \<longleftrightarrow> a \<noteq> 0 \<and> b \<noteq> 0 \<and> a \<le> b"
  by (auto simp: new_credential_summary_def parse_reference [OF assms] not_less)

definition entry_for :: "pk_env \<Rightarrow> (string \<rightharpoonup> memory_credential) \<Rightarrow> pk_user \<Rightarrow> credential \<Rightarrow> bool" where
  "entry_for E cs u c \<longleftrightarrow> (\<exists>m. cs (cref E c) = Some m \<and> mc_uid m = us_uid u \<and> mc_handle m = us_handle u
     \<and> cr_id (mc_credential m) = cr_id c \<and> 1 \<le> mc_version m \<and> mc_created m \<noteq> 0 \<and> mc_updated m \<noteq> 0 \<and> mc_created m \<le> mc_updated m)"

definition user_ok :: "pk_env \<Rightarrow> (string \<rightharpoonup> memory_credential) \<Rightarrow> pk_user \<Rightarrow> bool" where
  "user_ok E cs u \<longleftrightarrow> us_uid u \<noteq> [] \<and> us_handle u \<noteq> [] \<and> us_credentials u \<noteq> [] \<and> length (us_credentials u) \<le> max_credentials
     \<and> distinct (List.map (cref E) (us_credentials u)) \<and> (\<forall>c \<in> set (us_credentials u). cr_id c \<noteq> [] \<and> entry_for E cs u c)"

lemma references_loop_Inr:
  "references_loop E acc cs = Inr rs \<longleftrightarrow> (\<forall>c \<in> set cs. cr_id c \<noteq> []) \<and> distinct (List.map (cref E) cs)
     \<and> set acc \<inter> cref E ` set cs = {} \<and> rs = acc @ List.map (cref E) cs"
  by (induction cs arbitrary: acc) (auto simp: credential_reference_for_raw_id_def)

lemma zip_map_same: "zip (List.map f xs) xs = List.map (\<lambda>x. (f x, x)) xs"
  by (induction xs) auto

lemma indexed_iff:
  assumes "env_ok E"
  shows "indexed_ok E s u t (cref E c) c \<longleftrightarrow> entry_for E (ms_credentials s) u c
    \<and> (t = 0 \<or> (\<forall>m. ms_credentials s (cref E c) = Some m \<longrightarrow> mc_updated m \<le> t))"
  unfolding indexed_ok_def summary_iff [OF assms] entry_for_def by (auto simp: not_less split: option.splits)

lemma validated_iff:
  assumes "env_ok E"
  shows "validate_credential_state E s u t = Inr refs \<longleftrightarrow> user_ok E (ms_credentials s) u \<and> refs = List.map (cref E) (us_credentials u)
    \<and> (t = 0 \<or> (\<forall>c \<in> set (us_credentials u). \<forall>m. ms_credentials s (cref E c) = Some m \<longrightarrow> mc_updated m \<le> t))"
proof -
  have refs: "credential_references E (us_credentials u) = Inr rs \<longleftrightarrow>
      us_credentials u \<noteq> [] \<and> length (us_credentials u) \<le> max_credentials \<and> (\<forall>c \<in> set (us_credentials u). cr_id c \<noteq> [])
      \<and> distinct (List.map (cref E) (us_credentials u)) \<and> rs = List.map (cref E) (us_credentials u)" for rs
    by (auto simp: credential_references_def references_loop_Inr)
  show ?thesis
  proof (cases "credential_references E (us_credentials u)")
    case (Inl e)
    then have "\<not> user_ok E (ms_credentials s) u" using refs by (auto simp: user_ok_def)
    then show ?thesis using Inl by (simp add: validate_credential_state_def)
  next
    case (Inr rs)
    then have rs: "rs = List.map (cref E) (us_credentials u)" using refs by blast
    have "list_all (\<lambda>(r, c). indexed_ok E s u t r c) (zip rs (us_credentials u)) \<longleftrightarrow>
        (\<forall>c \<in> set (us_credentials u). indexed_ok E s u t (cref E c) c)"
      unfolding rs zip_map_same by (auto simp: list_all_iff)
    then show ?thesis
      using Inr refs [of rs] by (auto simp: validate_credential_state_def user_ok_def indexed_iff [OF assms])
  qed
qed

lemma user_ok_cong:
  "(\<And>c. c \<in> set (us_credentials u) \<Longrightarrow> cs (cref E c) = cs' (cref E c)) \<Longrightarrow> user_ok E cs u \<Longrightarrow> user_ok E cs' u"
  by (auto simp: user_ok_def entry_for_def)

section \<open>The invariant\<close>

definition codes_ok :: "string set \<Rightarrow> (string \<rightharpoonup> recovery_code) \<Rightarrow> (string \<rightharpoonup> string) \<Rightarrow> bool" where
  "codes_ok accounts codes index \<longleftrightarrow>
     (\<forall>k r. codes k = Some r \<longrightarrow> k \<in> accounts \<and> index (recovery_code_document_id (rc_digest r)) = Some k)
     \<and> (\<forall>c k. index c = Some k \<longrightarrow> (\<exists>r. codes k = Some r \<and> c = recovery_code_document_id (rc_digest r)))"

definition store_ok :: "pk_env \<Rightarrow> string set \<Rightarrow> pk_store \<Rightarrow> bool" where
  "store_ok E U s \<longleftrightarrow>
     (\<forall>k u. ms_users s k = Some u \<longrightarrow> k = document_id E (us_uid u) \<and> us_uid u \<in> U \<and> user_ok E (ms_credentials s) u)
     \<and> (\<forall>r m. ms_credentials s r = Some m \<longrightarrow> (\<exists>u. ms_users s (document_id E (mc_uid m)) = Some u \<and> us_uid u = mc_uid m
          \<and> r \<in> cref E ` set (us_credentials u)))
     \<and> (\<forall>k k' u u'. ms_users s k = Some u \<and> ms_users s k' = Some u' \<and> us_handle u = us_handle u' \<longrightarrow> k = k')
     \<and> codes_ok (dom (ms_users s)) (ms_recovery s) (ms_recovery_by_code s)"

lemma store_okD:
  assumes "store_ok E U s"
  shows "ms_users s k = Some u \<Longrightarrow> k = document_id E (us_uid u)" "ms_users s k = Some u \<Longrightarrow> us_uid u \<in> U"
    "ms_users s k = Some u \<Longrightarrow> user_ok E (ms_credentials s) u"
    "ms_credentials s r = Some m \<Longrightarrow> \<exists>u. ms_users s (document_id E (mc_uid m)) = Some u \<and> us_uid u = mc_uid m
      \<and> r \<in> cref E ` set (us_credentials u)"
    "ms_users s k = Some u \<Longrightarrow> ms_users s k' = Some u' \<Longrightarrow> us_handle u = us_handle u' \<Longrightarrow> k = k'"
    "ms_recovery s k = Some rc \<Longrightarrow> ms_recovery_by_code s (recovery_code_document_id (rc_digest rc)) = Some k"
    "codes_ok (dom (ms_users s)) (ms_recovery s) (ms_recovery_by_code s)"
  using assms unfolding store_ok_def codes_ok_def by blast+

text \<open>Two users share no credential.\<close>

lemma owner_of:
  assumes "store_ok E U s" "ms_users s k = Some u" "c \<in> set (us_credentials u)"
  shows "\<exists>m. ms_credentials s (cref E c) = Some m \<and> mc_uid m = us_uid u"
  using store_okD(3) [OF assms(1,2)] assms(3) by (auto simp: user_ok_def entry_for_def)

lemma other_users:
  assumes ok: "store_ok E U s" and u: "ms_users s k = Some u" and u': "ms_users s k' = Some u'" and "k' \<noteq> k"
    and same: "\<And>r. r \<notin> cref E ` set (us_credentials u) \<Longrightarrow> ms_credentials s r \<noteq> None \<Longrightarrow> cs r = ms_credentials s r"
  shows "user_ok E cs u'"
proof (rule user_ok_cong [OF _ store_okD(3) [OF ok u']])
  fix c
  assume c: "c \<in> set (us_credentials u')"
  then obtain m where m: "ms_credentials s (cref E c) = Some m" "mc_uid m = us_uid u'" using owner_of [OF ok u'] by blast
  have "cref E c \<notin> cref E ` set (us_credentials u)"
  proof
    assume "cref E c \<in> cref E ` set (us_credentials u)"
    then obtain d where "d \<in> set (us_credentials u)" "cref E c = cref E d" by auto
    then have "us_uid u = us_uid u'" using owner_of [OF ok u] m by fastforce
    then show False using store_okD(1) [OF ok u] store_okD(1) [OF ok u'] \<open>k' \<noteq> k\<close> by simp
  qed
  then show "ms_credentials s (cref E c) = cs (cref E c)" using same m by simp
qed

lemma ceremonies_ok:
  "store_ok E U s \<Longrightarrow> store_ok E U (s\<lparr>ms_ceremonies := x\<rparr>)"
  "store_ok E U (s\<lparr>ms_deleted := y\<rparr>) = store_ok E U s"
  by (simp_all add: store_ok_def)

section \<open>The operations keep it\<close>

lemma clone_ref [simp]: "env_ok E \<Longrightarrow> cref E (pe_clone E c) = cref E c"
  by (simp add: env_ok_def)

lemma clone_id [simp]: "env_ok E \<Longrightarrow> cr_id (pe_clone E c) = cr_id c"
  by (simp add: env_ok_def)

lemma creation_user_Inr:
  assumes "env_ok E" "store_ok E U s" "inj_on (document_id E) U" "us_uid u \<in> U" "creation_user E s u now = Inr stored"
  shows "us_uid stored = us_uid u" "us_handle stored = us_handle u"
    "ms_users s (document_id E (us_uid u)) = Some stored \<or>
      (ms_users s (document_id E (us_uid u)) = None \<and> us_credentials stored = []
        \<and> (\<forall>candidate \<in> ran (ms_users s). us_handle candidate \<noteq> us_handle u))"
proof -
  have "us_uid v = us_uid u" if "ms_users s (document_id E (us_uid u)) = Some v" for v
    using store_okD(1,2) [OF assms(2) that] assms(3,4) by (metis inj_onD)
  then show "us_uid stored = us_uid u" "us_handle stored = us_handle u"
    "ms_users s (document_id E (us_uid u)) = Some stored \<or>
      (ms_users s (document_id E (us_uid u)) = None \<and> us_credentials stored = []
        \<and> (\<forall>candidate \<in> ran (ms_users s). us_handle candidate \<noteq> us_handle u))"
    using assms(5) by (auto simp: creation_user_def split: option.splits if_splits sum.splits)
qed

lemma create_locked_None:
  assumes "create_credential_locked E s u c now = (s1, None)"
  obtains stored where "creation_user E s u now = Inr stored" "ms_credentials s (cref E c) = None"
    "length (us_credentials stored) < max_credentials"
    "s1 = s\<lparr>ms_users := (ms_users s)(document_id E (us_uid u) \<mapsto> stored\<lparr>us_credentials := us_credentials stored @ [pe_clone E c]\<rparr>),
      ms_credentials := (ms_credentials s)(cref E c \<mapsto> \<lparr>mc_uid = us_uid u, mc_handle = us_handle u,
        mc_credential = pe_clone E c, mc_version = 1, mc_created = now, mc_updated = now\<rparr>)\<rparr>"
  using assms by (auto simp: create_credential_locked_def Let_def document_id_def split: if_splits sum.splits)

lemma create_locked_fails: "create_credential_locked E s u c now = (s1, Some e) \<Longrightarrow> s1 = s"
  by (auto simp: create_credential_locked_def Let_def split: if_splits sum.splits)

lemma create_locked_ok:
  assumes env: "env_ok E" and ok: "store_ok E U s" and inj: "inj_on (document_id E) U" and uid: "us_uid u \<in> U"
    and v: "validate_credential_creation u c now = None" and cr: "create_credential_locked E s u c now = (s1, r)"
  shows "store_ok E U s1"
proof (cases r)
  case (Some e)
  then show ?thesis using create_locked_fails cr ok by blast
next
  case None
  then obtain stored where st: "creation_user E s u now = Inr stored" and fresh: "ms_credentials s (cref E c) = None"
    and len: "length (us_credentials stored) < max_credentials"
    and s1: "s1 = s\<lparr>ms_users := (ms_users s)(document_id E (us_uid u) \<mapsto> stored\<lparr>us_credentials := us_credentials stored @ [pe_clone E c]\<rparr>),
      ms_credentials := (ms_credentials s)(cref E c \<mapsto> \<lparr>mc_uid = us_uid u, mc_handle = us_handle u,
        mc_credential = pe_clone E c, mc_version = 1, mc_created = now, mc_updated = now\<rparr>)\<rparr>"
    using cr create_locked_None by blast
  let ?k = "document_id E (us_uid u)" let ?u1 = "stored\<lparr>us_credentials := us_credentials stored @ [pe_clone E c]\<rparr>"
  note same = creation_user_Inr [OF env ok inj uid st]
  have vc: "us_uid u \<noteq> []" "us_handle u \<noteq> []" "cr_id c \<noteq> []" "now \<noteq> 0"
    using v by (auto simp: validate_credential_creation_def split: if_splits)
  have old: "cr_id d \<noteq> [] \<and> entry_for E (ms_credentials s) stored d" if "d \<in> set (us_credentials stored)" for d
    using same(3) store_okD(3) [OF ok] that by (auto simp: user_ok_def)
  have notin: "cref E c \<notin> cref E ` set (us_credentials stored)"
    using old fresh by (fastforce simp: entry_for_def)
  have differ: "cref E d \<noteq> cref E c" if "d \<in> set (us_credentials stored)" for d using notin that by (metis imageI)
  have "distinct (List.map (cref E) (us_credentials stored))"
    using same(3) store_okD(3) [OF ok] by (auto simp: user_ok_def)
  then have new: "user_ok E (ms_credentials s1) ?u1"
    using old notin differ vc len env same(1,2) by (auto simp: user_ok_def s1 entry_for_def)
  have users: "ms_users s1 = (ms_users s)(?k \<mapsto> ?u1)" by (simp add: s1)
  have "k = document_id E (us_uid v) \<and> us_uid v \<in> U \<and> user_ok E (ms_credentials s1) v" if "ms_users s1 k = Some v" for k v
  proof (cases "k = ?k")
    case True
    then show ?thesis using that new same(1) uid by (auto simp: users)
  next
    case False
    then have v: "ms_users s k = Some v" using that by (simp add: users)
    have "user_ok E (ms_credentials s1) v"
    proof (rule user_ok_cong [OF _ store_okD(3) [OF ok v]])
      fix d
      assume "d \<in> set (us_credentials v)"
      then have "cref E d \<noteq> cref E c" using owner_of [OF ok v] fresh by force
      then show "ms_credentials s (cref E d) = ms_credentials s1 (cref E d)" by (simp add: s1)
    qed
    then show ?thesis using store_okD(1,2) [OF ok v] by simp
  qed
  moreover have "\<exists>v. ms_users s1 (document_id E (mc_uid m)) = Some v \<and> us_uid v = mc_uid m \<and> x \<in> cref E ` set (us_credentials v)"
    if "ms_credentials s1 x = Some m" for x m
  proof (cases "x = cref E c")
    case True
    then show ?thesis using that same(1) env by (auto simp: s1)
  next
    case False
    then have m: "ms_credentials s x = Some m" using that by (simp add: s1)
    then show ?thesis using store_okD(4) [OF ok m] same(1,3) by (auto simp: users)
  qed
  moreover have "k = k'" if "ms_users s1 k = Some v" "ms_users s1 k' = Some v'" "us_handle v = us_handle v'" for k k' v v'
  proof (cases "ms_users s ?k")
    case None
    then have "\<forall>w \<in> ran (ms_users s). us_handle w \<noteq> us_handle u" using same(3) by auto
    then show ?thesis using that store_okD(5) [OF ok, of k v k' v'] same(2) unfolding users by (auto simp: ran_def split: if_splits)
  next
    case (Some w)
    then have "w = stored" using same(3) by auto
    then show ?thesis using that store_okD(5) [OF ok] Some unfolding users by (auto split: if_splits)
  qed
  moreover have "codes_ok (dom (ms_users s1)) (ms_recovery s1) (ms_recovery_by_code s1)"
    using store_okD(7) [OF ok] by (auto simp: codes_ok_def s1)
  ultimately show ?thesis unfolding store_ok_def by blast
qed

lemma codes_okD:
  assumes "codes_ok A codes index"
  shows "codes k = Some r \<Longrightarrow> k \<in> A" "codes k = Some r \<Longrightarrow> index (recovery_code_document_id (rc_digest r)) = Some k"
    "index c = Some k \<Longrightarrow> \<exists>r. codes k = Some r \<and> c = recovery_code_document_id (rc_digest r)"
  using assms unfolding codes_ok_def by blast+

lemma codes_drop:
  assumes ok: "codes_ok A codes index" and k: "codes k = Some r" and "A - {k} \<subseteq> B"
  shows "codes_ok B (codes(k := None)) (index(recovery_code_document_id (rc_digest r) := None))"
proof -
  have "k' \<in> B \<and> (index(recovery_code_document_id (rc_digest r) := None)) (recovery_code_document_id (rc_digest r')) = Some k'"
    if c: "(codes(k := None)) k' = Some r'" for k' r'
  proof -
    have k': "k' \<noteq> k" "codes k' = Some r'" using c by (auto split: if_splits)
    then have "recovery_code_document_id (rc_digest r') \<noteq> recovery_code_document_id (rc_digest r)"
      using codes_okD(2) [OF ok k'(2)] codes_okD(2) [OF ok k] by auto
    then show ?thesis using codes_okD(1,2) [OF ok k'(2)] k'(1) assms(3) by auto
  qed
  moreover have "\<exists>r'. (codes(k := None)) k' = Some r' \<and> c = recovery_code_document_id (rc_digest r')"
    if c: "(index(recovery_code_document_id (rc_digest r) := None)) c = Some k'" for c k'
  proof -
    have i: "c \<noteq> recovery_code_document_id (rc_digest r)" "index c = Some k'" using c by (auto split: if_splits)
    then obtain r' where "codes k' = Some r'" "c = recovery_code_document_id (rc_digest r')"
      using codes_okD(3) [OF ok] by blast
    then show ?thesis using i(1) k by (cases "k' = k") auto
  qed
  ultimately show ?thesis unfolding codes_ok_def by blast
qed

lemma codes_add:
  assumes ok: "codes_ok A codes index" and "codes k = None" "k \<in> A" "index (recovery_code_document_id (rc_digest r)) = None"
  shows "codes_ok A (codes(k \<mapsto> r)) (index(recovery_code_document_id (rc_digest r) \<mapsto> k))"
proof -
  have "k' \<in> A \<and> (index(recovery_code_document_id (rc_digest r) \<mapsto> k)) (recovery_code_document_id (rc_digest r')) = Some k'"
    if "(codes(k \<mapsto> r)) k' = Some r'" for k' r'
    using that codes_okD(1,2) [OF ok, of k' r'] assms(3,4) by (cases "k' = k") auto
  moreover have "\<exists>r'. (codes(k \<mapsto> r)) k' = Some r' \<and> c = recovery_code_document_id (rc_digest r')"
    if "(index(recovery_code_document_id (rc_digest r) \<mapsto> k)) c = Some k'" for c k'
    using that codes_okD(3) [OF ok, of c k'] assms(2) by (cases "c = recovery_code_document_id (rc_digest r)") auto
  ultimately show ?thesis unfolding codes_ok_def by blast
qed

lemma store_codes:
  assumes "store_ok E U s" "ms_users t = ms_users s" "ms_credentials t = ms_credentials s"
    and "codes_ok (dom (ms_users s)) (ms_recovery t) (ms_recovery_by_code t)"
  shows "store_ok E U t"
  using assms by (simp add: store_ok_def)

lemma create_recovery_ok:
  assumes env: "env_ok E" and ok: "store_ok E U s" and inj: "inj_on (document_id E) U" and uid: "us_uid u \<in> U"
  shows "store_ok E U (fst (create_recovery_credential E s u c d now))"
proof (cases "snd (create_recovery_credential E s u c d now)")
  case (Some e)
  then have "fst (create_recovery_credential E s u c d now) = s"
    by (auto simp: create_recovery_credential_def Let_def create_locked_fails split: option.splits if_splits prod.splits)
  then show ?thesis using ok by simp
next
  case None
  then obtain r s1 where v: "validate_credential_creation u c now = None"
    and r: "ms_recovery s (document_id E (us_uid u)) = Some r" "recovery_live r d now"
    and s1: "create_credential_locked E s u c now = (s1, None)"
    and res: "fst (create_recovery_credential E s u c d now) =
      s1\<lparr>ms_recovery_by_code := (ms_recovery_by_code s1)(recovery_code_document_id d := None),
        ms_recovery := (ms_recovery s1)(document_id E (us_uid u) := None)\<rparr>"
    by (auto simp: create_recovery_credential_def Let_def split: option.splits if_splits prod.splits)
  have "ms_recovery s1 = ms_recovery s" using s1 by (elim create_locked_None) simp
  moreover have ok1: "store_ok E U s1" by (rule create_locked_ok [OF env ok inj uid v s1])
  ultimately show ?thesis
    unfolding res using codes_drop [OF store_okD(7) [OF ok1], of "document_id E (us_uid u)" r "dom (ms_users s1)"] r
    by (intro store_codes [OF ok1]) (auto simp: recovery_live_def)
qed

lemma replace_ok:
  assumes ok: "store_ok E U s"
  shows "store_ok E U (fst (replace_recovery_code E s uid d expires now))"
proof -
  let ?k = "document_id E (trim_space uid)" let ?c = "recovery_code_document_id d"
  let ?r = "\<lparr>rc_digest = d, rc_expires = expires, rc_issued = now\<rparr>"
  let ?by1 = "case ms_recovery s ?k of
      Some previous \<Rightarrow> (ms_recovery_by_code s)(recovery_code_document_id (rc_digest previous) := None)
    | None \<Rightarrow> ms_recovery_by_code s"
  let ?new = "s\<lparr>ms_recovery := (ms_recovery s)(?k \<mapsto> ?r), ms_recovery_by_code := ?by1(?c \<mapsto> ?k)\<rparr>"
  note codes = store_okD(7) [OF ok]
  have "fst (replace_recovery_code E s uid d expires now) = s \<or>
      (fst (replace_recovery_code E s uid d expires now) = ?new \<and> ms_users s ?k \<noteq> None
        \<and> (\<forall>owner. ms_recovery_by_code s ?c = Some owner \<longrightarrow> owner = ?k))"
    by (auto simp: replace_recovery_code_def Let_def split: option.split sum.split)
  moreover have "store_ok E U ?new"
    if k: "ms_users s ?k \<noteq> None" and own: "\<forall>owner. ms_recovery_by_code s ?c = Some owner \<longrightarrow> owner = ?k"
  proof (cases "ms_recovery s ?k")
    case None
    then have "ms_recovery_by_code s ?c = None"
      using own codes_okD(3) [OF codes, of ?c ?k] by (cases "ms_recovery_by_code s ?c") auto
    then show ?thesis
      using codes_add [OF codes None, of ?r] k None by (intro store_codes [OF ok]) auto
  next
    case (Some q)
    let ?codes = "(ms_recovery s)(?k := None)" let ?index = "(ms_recovery_by_code s)(recovery_code_document_id (rc_digest q) := None)"
    have drop: "codes_ok (dom (ms_users s)) ?codes ?index" by (rule codes_drop [OF codes Some]) auto
    have "?index ?c = None"
      using own codes_okD(3) [OF codes, of ?c ?k] Some by (cases "ms_recovery_by_code s ?c") auto
    then show ?thesis
      using codes_add [OF drop, of ?k ?r] k Some by (intro store_codes [OF ok]) auto
  qed
  ultimately show ?thesis using ok by fastforce
qed

text \<open>One user's credentials change, in the user and in the index.\<close>

lemma user_replaced:
  assumes ok: "store_ok E U s" and u: "ms_users s k = Some u" and u1: "us_uid u1 = us_uid u" "us_handle u1 = us_handle u" "user_ok E cs u1"
    and index: "\<And>r m'. cs r = Some m' \<Longrightarrow> \<exists>m. ms_credentials s r = Some m \<and> mc_uid m' = mc_uid m"
    and refs: "\<And>r. r \<in> cref E ` set (us_credentials u) \<Longrightarrow> cs r \<noteq> None \<Longrightarrow> r \<in> cref E ` set (us_credentials u1)"
    and others: "\<And>r. r \<notin> cref E ` set (us_credentials u) \<Longrightarrow> ms_credentials s r \<noteq> None \<Longrightarrow> cs r = ms_credentials s r"
  shows "store_ok E U (s\<lparr>ms_users := (ms_users s)(k \<mapsto> u1), ms_credentials := cs\<rparr>)"
proof -
  have "l = document_id E (us_uid w) \<and> us_uid w \<in> U \<and> user_ok E cs w" if "((ms_users s)(k \<mapsto> u1)) l = Some w" for l w
  proof (cases "l = k")
    case True
    then show ?thesis using that u1 store_okD(1,2) [OF ok u] by auto
  next
    case False
    then have w: "ms_users s l = Some w" using that by simp
    show ?thesis using other_users [OF ok u w False others] store_okD(1,2) [OF ok w] by simp
  qed
  moreover have "\<exists>w. ((ms_users s)(k \<mapsto> u1)) (document_id E (mc_uid m')) = Some w \<and> us_uid w = mc_uid m' \<and> r \<in> cref E ` set (us_credentials w)"
    if m': "cs r = Some m'" for r m'
  proof -
    obtain m where m: "ms_credentials s r = Some m" "mc_uid m' = mc_uid m" using index [OF m'] by blast
    obtain w where w: "ms_users s (document_id E (mc_uid m)) = Some w" "us_uid w = mc_uid m" "r \<in> cref E ` set (us_credentials w)"
      using store_okD(4) [OF ok m(1)] by blast
    show ?thesis
    proof (cases "document_id E (mc_uid m) = k")
      case True
      then show ?thesis using w u u1(1) m' m(2) refs [of r] by auto
    qed (use w m(2) in auto)
  qed
  moreover have "l = l'" if eqs: "((ms_users s)(k \<mapsto> u1)) l = Some w" "((ms_users s)(k \<mapsto> u1)) l' = Some w'" "us_handle w = us_handle w'" for l l' w w'
  proof -
    have old: "\<exists>v. ms_users s x = Some v \<and> us_handle v = us_handle y" if "((ms_users s)(k \<mapsto> u1)) x = Some y" for x y
    proof (cases "x = k")
      case True
      then show ?thesis using that u u1(2) by simp
    qed (use that in simp)
    obtain v v' where "ms_users s l = Some v" "us_handle v = us_handle w" "ms_users s l' = Some v'" "us_handle v' = us_handle w'"
      using old [OF eqs(1)] old [OF eqs(2)] by blast
    then show ?thesis using store_okD(5) [OF ok, of l v l' v'] eqs(3) by simp
  qed
  moreover have "codes_ok (dom ((ms_users s)(k \<mapsto> u1))) (ms_recovery s) (ms_recovery_by_code s)"
    using store_okD(7) [OF ok] by (auto simp: codes_ok_def)
  ultimately have "store_ok E U t"
    if "ms_users t = (ms_users s)(k \<mapsto> u1)" "ms_credentials t = cs" "ms_recovery t = ms_recovery s"
      "ms_recovery_by_code t = ms_recovery_by_code s" for t
    unfolding store_ok_def that by blast
  then show ?thesis by simp
qed

lemma target_index_Some:
  assumes "target_index r refs = Some i"
  shows "i < length refs" "refs ! i = r"
  using assms by (auto simp: target_index_def find_Some_iff rev_nth)

lemma update_ok:
  assumes env: "env_ok E" and ok: "store_ok E U s"
  shows "store_ok E U (fst (update_credential E s raw v c now))"
proof (cases "snd (update_credential E s raw v c now)")
  case (Some e)
  then have "fst (update_credential E s raw v c now) = s"
    by (auto simp: update_credential_def Let_def split: option.splits if_splits sum.splits)
  then show ?thesis using ok by simp
next
  case None
  then obtain m u refs i where v: "validate_credential_update raw c now = None"
    and m: "ms_credentials s (document_id E raw) = Some m" "cr_id (mc_credential m) = raw"
    and u: "ms_users s (document_id E (mc_uid m)) = Some u" "us_uid u = mc_uid m" "us_handle u = mc_handle m"
    and refs: "validate_credential_state E s u now = Inr refs"
    and i: "target_index (credential_reference E raw) refs = Some i"
    and s1: "fst (update_credential E s raw v c now) = s\<lparr>ms_users := (ms_users s)(document_id E (mc_uid m) \<mapsto>
          u\<lparr>us_credentials := (us_credentials u)[i := pe_clone E c]\<rparr>),
        ms_credentials := (ms_credentials s)(document_id E raw \<mapsto> m\<lparr>mc_credential := pe_clone E c,
          mc_version := mc_version m + 1, mc_updated := now\<rparr>)\<rparr>"
    by (auto simp: update_credential_def Let_def split: option.splits if_splits sum.splits)
  let ?u1 = "u\<lparr>us_credentials := (us_credentials u)[i := pe_clone E c]\<rparr>" let ?k = "document_id E (mc_uid m)"
  let ?cs = "(ms_credentials s)(document_id E raw \<mapsto> m\<lparr>mc_credential := pe_clone E c, mc_version := mc_version m + 1, mc_updated := now\<rparr>)"
  have id: "cr_id c = raw" "now \<noteq> 0" "raw \<noteq> []" using v by (auto simp: validate_credential_update_def split: if_splits)
  note val = refs [unfolded validated_iff [OF env]]
  have i': "i < length (us_credentials u)" "cref E (us_credentials u ! i) = credential_reference E raw"
    using target_index_Some [OF i] val by auto
  have samerefs: "List.map (cref E) (us_credentials ?u1) = List.map (cref E) (us_credentials u)"
    using i' id env by (simp add: map_update list_update_same_conv)
  have upd: "1 \<le> mc_version m" "mc_created m \<noteq> 0" "mc_created m \<le> now"
  proof -
    have "entry_for E (ms_credentials s) u (us_credentials u ! i)" using val i'(1) by (auto simp: user_ok_def)
    moreover have "mc_updated m \<le> now" using val id(2) i' m(1) nth_mem [OF i'(1)] by (metis document_id_def)
    ultimately show "1 \<le> mc_version m" "mc_created m \<noteq> 0" "mc_created m \<le> now"
      using m(1) i'(2) by (auto simp: entry_for_def document_id_def)
  qed
  have ne: "entry_for E ?cs ?u1 d \<and> cr_id d \<noteq> []" if "d \<in> set (us_credentials ?u1)" for d
  proof (cases "cref E d = credential_reference E raw")
    case True
    then obtain l where l: "l < length (us_credentials u)" "d = (us_credentials u)[i := pe_clone E c] ! l" using \<open>d \<in> _\<close> by (auto simp: in_set_conv_nth)
    have "distinct (List.map (cref E) (us_credentials u))" using val by (simp add: user_ok_def)
    have "List.map (cref E) (us_credentials ?u1) ! l = cref E d" using l by simp
    then have "List.map (cref E) (us_credentials u) ! l = List.map (cref E) (us_credentials u) ! i"
      unfolding samerefs using i' l(1) True by simp
    then have "l = i" using \<open>distinct _\<close> i'(1) l(1) nth_eq_iff_index_eq [of "List.map (cref E) (us_credentials u)" l i] by simp
    then have "d = pe_clone E c" using l(2) i'(1) by simp
    then show ?thesis using id upd u env by (simp add: entry_for_def document_id_def)
  next
    case False
    then have "d \<noteq> pe_clone E c" using id env by auto
    then have "d \<in> set (us_credentials u)" using that set_update_subset_insert [of "us_credentials u" i "pe_clone E c"] by auto
    then show ?thesis using val False by (auto simp: user_ok_def entry_for_def document_id_def)
  qed
  have "user_ok E ?cs ?u1" using ne val samerefs i'(1) unfolding user_ok_def by auto
  moreover have "r \<in> cref E ` set (us_credentials ?u1)" if "r \<in> cref E ` set (us_credentials u)" for r
    using that arg_cong [OF samerefs, of set] by simp
  moreover have "credential_reference E raw \<in> cref E ` set (us_credentials u)" using i' by (metis imageI nth_mem)
  ultimately show ?thesis
    unfolding s1 using m by (intro user_replaced [OF ok u(1)]) (auto simp: document_id_def split: if_splits)
qed

lemma revoke_ok:
  assumes env: "env_ok E" and ok: "store_ok E U s"
  shows "store_ok E U (fst (revoke_credential E s uid ref now))"
proof (cases "snd (revoke_credential E s uid ref now)")
  case (Some e)
  then have "fst (revoke_credential E s uid ref now) = s"
    by (auto simp: revoke_credential_def Let_def split: option.splits if_splits sum.splits)
  then show ?thesis using ok by simp
next
  case None
  then obtain u refs i where u: "ms_users s (document_id E uid) = Some u" "us_uid u = uid"
    and refs: "validate_credential_state E s u now = Inr refs"
    and i: "target_index ref refs = Some i" "length refs \<noteq> 1"
    and s1: "fst (revoke_credential E s uid ref now) = s\<lparr>ms_users := (ms_users s)(document_id E uid \<mapsto>
          u\<lparr>us_credentials := List.map (pe_clone E) (nths (us_credentials u) (- {i}))\<rparr>),
        ms_credentials := (ms_credentials s)(ref := None)\<rparr>"
    by (auto simp: revoke_credential_def parse_iff Let_def split: option.splits if_splits sum.splits)
  let ?cs = "us_credentials u" let ?kept = "nths ?cs (- {i})"
  let ?u1 = "u\<lparr>us_credentials := List.map (pe_clone E) ?kept\<rparr>"
  note val = refs [unfolded validated_iff [OF env]]
  have i': "i < length ?cs" "cref E (?cs ! i) = ref" using target_index_Some [OF i(1)] val by auto
  have refs1: "List.map (cref E) (us_credentials ?u1) = nths (List.map (cref E) ?cs) (- {i})"
    using env by (simp add: nths_map)
  have dist: "distinct (List.map (cref E) ?cs)" using val by (simp add: user_ok_def)
  have kept: "ref \<notin> cref E ` set ?kept" "set ?kept \<subseteq> set ?cs" "\<And>d. d \<in> set ?cs \<Longrightarrow> cref E d \<noteq> ref \<Longrightarrow> d \<in> set ?kept"
  proof -
    show "set ?kept \<subseteq> set ?cs" by (auto simp: set_nths)
    show "ref \<notin> cref E ` set ?kept"
    proof
      assume "ref \<in> cref E ` set ?kept"
      then obtain l where "l < length ?cs" "l \<noteq> i" "cref E (?cs ! l) = ref" by (auto simp: set_nths)
      then show False using dist i' by (auto simp: distinct_conv_nth)
    qed
    show "d \<in> set ?kept" if "d \<in> set ?cs" "cref E d \<noteq> ref" for d
      using that i' by (auto simp: set_nths in_set_conv_nth)
  qed
  have "length ?kept = length ?cs - 1"
  proof -
    have "{l. l < length ?cs \<and> l \<in> - {i}} = {..<length ?cs} - {i}" by auto
    then show ?thesis using i'(1) by (simp add: length_nths)
  qed
  moreover have "length ?cs \<noteq> 1" "length ?cs \<le> max_credentials" using i(2) val by (auto simp: user_ok_def)
  ultimately have "length ?kept \<noteq> 0" and len2: "length ?kept \<le> max_credentials" using i'(1) by linarith+
  then have len: "?kept \<noteq> []" "length ?kept \<le> max_credentials" by auto
  have "user_ok E ((ms_credentials s)(ref := None)) ?u1"
  proof -
    have "entry_for E ((ms_credentials s)(ref := None)) ?u1 (pe_clone E d) \<and> cr_id d \<noteq> []" if "d \<in> set ?kept" for d
    proof -
      have "cref E d \<noteq> ref" using kept(1) that by auto
      then show ?thesis using val kept(2) that env by (auto simp: user_ok_def entry_for_def)
    qed
    then show ?thesis using len val env distinct_nthsI [OF dist, of "- {i}"] refs1 by (auto simp: user_ok_def)
  qed
  moreover have "r \<in> cref E ` set (us_credentials ?u1)" if "r \<in> cref E ` set ?cs" "r \<noteq> ref" for r
    using that kept(3) env by (auto simp: image_image)
  moreover have "ref \<in> cref E ` set ?cs" using i' by (metis imageI nth_mem)
  ultimately show ?thesis
    unfolding s1 using u(2) by (intro user_replaced [OF ok u(1)]) (auto split: if_splits)
qed

lemma delete_ok:
  assumes env: "env_ok E" and ok: "store_ok E U s"
  shows "store_ok E U (fst (delete_account_data E s uid now))"
proof -
  let ?k = "document_id E uid"
  have "fst (delete_account_data E s uid now) = s \<or>
      (\<exists>u refs. ms_users s ?k = Some u \<and> us_uid u = uid \<and> validate_credential_state E s u now = Inr refs
        \<and> fst (delete_account_data E s uid now) = (case ms_recovery s ?k of
            Some r \<Rightarrow> s\<lparr>ms_recovery_by_code := (ms_recovery_by_code s)(recovery_code_document_id (rc_digest r) := None),
                 ms_recovery := (ms_recovery s)(?k := None), ms_credentials := ms_credentials s |` (- set refs),
                 ms_users := (ms_users s)(?k := None), ms_deleted := (ms_deleted s)(?k \<mapsto> now)\<rparr>
          | None \<Rightarrow> s\<lparr>ms_credentials := ms_credentials s |` (- set refs), ms_users := (ms_users s)(?k := None),
                 ms_deleted := (ms_deleted s)(?k \<mapsto> now)\<rparr>))"
    by (auto simp: delete_account_data_def Let_def split: option.split sum.split)
  moreover have "store_ok E U t"
    if u: "ms_users s ?k = Some u" "us_uid u = uid" and refs: "validate_credential_state E s u now = Inr refs"
      and t: "ms_users t = (ms_users s)(?k := None)" "ms_credentials t = ms_credentials s |` (- set refs)"
        "codes_ok (dom (ms_users t)) (ms_recovery t) (ms_recovery_by_code t)" for u refs t
  proof -
    have r: "set refs = cref E ` set (us_credentials u)" using refs by (simp add: validated_iff [OF env])
    have "k = document_id E (us_uid w) \<and> us_uid w \<in> U \<and> user_ok E (ms_credentials t) w" if "ms_users t k = Some w" for k w
    proof -
      have w: "ms_users s k = Some w" "k \<noteq> ?k" using that t(1) by (auto split: if_splits)
      have "user_ok E (ms_credentials t) w"
        by (rule other_users [OF ok u(1) w]) (simp add: t(2) r)
      then show ?thesis using store_okD(1,2) [OF ok w(1)] by simp
    qed
    moreover have "\<exists>w. ms_users t (document_id E (mc_uid m)) = Some w \<and> us_uid w = mc_uid m \<and> x \<in> cref E ` set (us_credentials w)"
      if "ms_credentials t x = Some m" for x m
    proof -
      have "ms_credentials s x = Some m" "x \<notin> set refs" using that t(2) by (auto simp: restrict_map_def split: if_splits)
      then obtain w where w: "ms_users s (document_id E (mc_uid m)) = Some w" "us_uid w = mc_uid m" "x \<in> cref E ` set (us_credentials w)"
        "x \<notin> set refs" using store_okD(4) [OF ok] by blast
      then have "document_id E (mc_uid m) \<noteq> ?k" using u(1) r by auto
      then show ?thesis using w t(1) by simp
    qed
    moreover have "k = k'" if "ms_users t k = Some w" "ms_users t k' = Some w'" "us_handle w = us_handle w'" for k k' w w'
      using that store_okD(5) [OF ok, of k w k' w'] t(1) by (auto split: if_splits)
    ultimately show ?thesis using t(3) unfolding store_ok_def by blast
  qed
  moreover have "codes_ok (dom ((ms_users s)(?k := None))) ((ms_recovery s)(?k := None)) ((ms_recovery_by_code s)(recovery_code_document_id (rc_digest r) := None))"
    if "ms_recovery s ?k = Some r" for r
    by (rule codes_drop [OF store_okD(7) [OF ok] that]) auto
  moreover have "codes_ok (dom ((ms_users s)(?k := None))) (ms_recovery s) (ms_recovery_by_code s)" if "ms_recovery s ?k = None"
    using store_okD(7) [OF ok] that by (auto simp: codes_ok_def)
  ultimately show ?thesis using ok by (cases "ms_recovery s ?k") (auto split: option.splits)
qed

lemma pk_step_ok:
  assumes env: "env_ok E" and inj: "inj_on (document_id E) U" and ok: "store_ok E U s"
    and uid: "\<And>u c now. call = CreateCredential u c now \<Longrightarrow> us_uid u \<in> U"
      "\<And>u c d now. call = CreateRecoveryCredential u c d now \<Longrightarrow> us_uid u \<in> U"
  shows "store_ok E U (pk_step E s call)"
proof (cases call)
  case (CreateCredential u c now)
  show ?thesis
  proof (cases "validate_credential_creation u c now")
    case None
    then show ?thesis
      using create_locked_ok [OF env ok inj uid(1) [OF CreateCredential] None surjective_pairing] CreateCredential
      by (simp add: create_credential_def)
  qed (use CreateCredential ok in \<open>simp add: create_credential_def\<close>)
next
  case (PutCeremony i r)
  then show ?thesis using ok by (simp add: put_ceremony_def ceremonies_ok)
next
  case (ConsumeCeremony i p app now)
  then show ?thesis using ok by (auto simp: consume_ceremony_def Let_def ceremonies_ok split: option.splits)
next
  case (ConsumeRegistration i app now)
  then show ?thesis using ok by (auto simp: consume_registration_ceremony_def Let_def ceremonies_ok split: option.splits)
qed (simp_all add: env ok inj uid replace_ok update_ok revoke_ok delete_ok create_recovery_ok)

fun created_uid :: "pk_call \<Rightarrow> string set" where
  "created_uid (CreateCredential u c now) = {us_uid u}"
| "created_uid (CreateRecoveryCredential u c d now) = {us_uid u}"
| "created_uid _ = {}"

lemma pk_run_ok:
  assumes "env_ok E" "inj_on (document_id E) (\<Union> (created_uid ` set calls))"
  shows "store_ok E (\<Union> (created_uid ` set calls)) (foldl (pk_step E) new_memory_store calls)"
proof (rule foldl_invariant)
  show "store_ok E (\<Union> (created_uid ` set calls)) new_memory_store"
    by (simp add: store_ok_def codes_ok_def new_memory_store_def)
  show "store_ok E (\<Union> (created_uid ` set calls)) (pk_step E s call)"
    if "store_ok E (\<Union> (created_uid ` set calls)) s" "call \<in> set calls" for s call
    using pk_step_ok [OF assms that(1), of call] that(2) by force
qed

section \<open>Capabilities\<close>

definition ceremony_put :: "pk_env \<Rightarrow> string \<Rightarrow> pk_store \<Rightarrow> pk_call \<Rightarrow> bool" where
  "ceremony_put E k s call \<longleftrightarrow>
     (case call of PutCeremony i r \<Rightarrow> document_id E i = k \<and> snd (put_ceremony E s i r) = None | _ \<Rightarrow> False)"

definition ceremony_consumed :: "pk_env \<Rightarrow> string \<Rightarrow> pk_store \<Rightarrow> pk_call \<Rightarrow> bool" where
  "ceremony_consumed E k s call \<longleftrightarrow>
     (case call of
        ConsumeCeremony i p app now \<Rightarrow> document_id E i = k \<and> \<not> isl (snd (consume_ceremony E s i p app now))
      | ConsumeRegistration i app now \<Rightarrow> document_id E i = k \<and> \<not> isl (snd (consume_registration_ceremony E s i app now))
      | _ \<Rightarrow> False)"

definition code_issued :: "pk_env \<Rightarrow> string \<Rightarrow> pk_store \<Rightarrow> pk_call \<Rightarrow> bool" where
  "code_issued E d s call \<longleftrightarrow>
     (case call of ReplaceRecoveryCode uid d' expires now \<Rightarrow> d' = d \<and> snd (replace_recovery_code E s uid d' expires now) = None
      | _ \<Rightarrow> False)"

definition code_redeemed :: "pk_env \<Rightarrow> string \<Rightarrow> pk_store \<Rightarrow> pk_call \<Rightarrow> bool" where
  "code_redeemed E d s call \<longleftrightarrow>
     (case call of CreateRecoveryCredential u c d' now \<Rightarrow> d' = d \<and> snd (create_recovery_credential E s u c d' now) = None
      | _ \<Rightarrow> False)"

lemma step_ceremonies:
  "ms_ceremonies (pk_step E s call) k =
     (case call of
        PutCeremony i r \<Rightarrow> if ceremony_put E k s call then Some r else ms_ceremonies s k
      | ConsumeCeremony i p app now \<Rightarrow> if document_id E i = k then None else ms_ceremonies s k
      | ConsumeRegistration i app now \<Rightarrow> if document_id E i = k then None else ms_ceremonies s k
      | _ \<Rightarrow> ms_ceremonies s k)"
proof (cases call)
  case (CreateRecoveryCredential u c d now)
  then show ?thesis
    by (auto simp: create_recovery_credential_def create_credential_locked_def Let_def
        split: option.splits sum.splits)
qed (auto simp: put_ceremony_def consume_ceremony_def consume_registration_ceremony_def ceremony_put_def
    replace_recovery_code_def create_credential_def create_credential_locked_def update_credential_def revoke_credential_def
    delete_account_data_def Let_def split: option.splits sum.splits)

interpretation ceremonies: token_ledger "pk_step E" "\<lambda>_. True" "ceremony_put E" "ceremony_consumed E" "\<lambda>s k. ms_ceremonies s k \<noteq> None"
  for E
proof
  fix k s call
  show "ceremony_consumed E k s call \<Longrightarrow> ms_ceremonies s k \<noteq> None"
    by (auto simp: ceremony_consumed_def consume_ceremony_def consume_registration_ceremony_def split: pk_call.splits option.splits)
  show "ceremony_consumed E k s call \<Longrightarrow> \<not> ms_ceremonies (pk_step E s call) k \<noteq> None"
    unfolding step_ceremonies by (auto simp: ceremony_consumed_def split: pk_call.splits)
  show "ms_ceremonies (pk_step E s call) k \<noteq> None \<Longrightarrow> ms_ceremonies s k \<noteq> None \<or> ceremony_put E k s call"
    unfolding step_ceremonies by (auto split: pk_call.splits if_splits)
qed simp

lemma create_locked_codes:
  "ms_recovery_by_code (fst (create_credential_locked E s u c now)) = ms_recovery_by_code s"
  by (auto simp: create_credential_locked_def Let_def split: sum.splits)

lemma codes_step:
  assumes "ms_recovery_by_code (pk_step E s call) (recovery_code_document_id d) \<noteq> None"
  shows "ms_recovery_by_code s (recovery_code_document_id d) \<noteq> None \<or> code_issued E d s call"
proof (cases call)
  case (ReplaceRecoveryCode uid d' expires now)
  then show ?thesis
    using assms by (auto simp: replace_recovery_code_def code_issued_def recovery_code_document_id_def Let_def
        split: option.splits sum.splits if_splits)
next
  case (CreateRecoveryCredential u c d' now)
  then show ?thesis
    using assms create_locked_codes [of E s u c now]
    by (auto simp: create_recovery_credential_def Let_def split: option.splits prod.splits if_splits)
next
  case (CreateCredential u c now)
  then show ?thesis using assms create_locked_codes [of E s u c now] by (auto simp: create_credential_def split: option.splits)
qed (use assms in \<open>auto simp: put_ceremony_def consume_ceremony_def consume_registration_ceremony_def
    update_credential_def revoke_credential_def delete_account_data_def Let_def split: option.splits sum.splits if_splits\<close>)

lemma code_redeemed_ends:
  assumes "code_redeemed E d s call"
  shows "ms_recovery_by_code s (recovery_code_document_id d) \<noteq> None"
    "ms_recovery_by_code (pk_step E s call) (recovery_code_document_id d) = None"
  using assms
  by (auto simp: code_redeemed_def create_recovery_credential_def Let_def split: pk_call.splits option.splits prod.splits if_splits)

interpretation codes: token_ledger "pk_step E" "\<lambda>_. True" "code_issued E" "code_redeemed E"
  "\<lambda>s d. ms_recovery_by_code s (recovery_code_document_id d) \<noteq> None" for E
proof
  fix d s call
  show "code_redeemed E d s call \<Longrightarrow> ms_recovery_by_code s (recovery_code_document_id d) \<noteq> None" by (rule code_redeemed_ends(1))
  show "code_redeemed E d s call \<Longrightarrow> \<not> ms_recovery_by_code (pk_step E s call) (recovery_code_document_id d) \<noteq> None"
    using code_redeemed_ends(2) by simp
  show "ms_recovery_by_code (pk_step E s call) (recovery_code_document_id d) \<noteq> None \<Longrightarrow>
      ms_recovery_by_code s (recovery_code_document_id d) \<noteq> None \<or> code_issued E d s call"
    by (rule codes_step)
qed

text \<open>Versions grow as long as nothing is revoked or deleted.\<close>

definition removes :: "pk_call \<Rightarrow> bool" where
  "removes call \<longleftrightarrow> (case call of RevokeCredential _ _ _ \<Rightarrow> True | DeleteAccountData _ _ \<Rightarrow> True | _ \<Rightarrow> False)"

lemma version_step:
  assumes "\<not> removes call" "ms_credentials s k = Some m"
  shows "\<exists>m'. ms_credentials (pk_step E s call) k = Some m' \<and> mc_version m \<le> mc_version m'"
proof (cases call)
  case (CreateRecoveryCredential u c d now)
  then show ?thesis using assms(2)
    by (auto simp: create_recovery_credential_def create_credential_locked_def Let_def split: option.splits sum.splits)
next
  case (RevokeCredential uid ref now)
  then show ?thesis using assms(1) by (simp add: removes_def)
next
  case (DeleteAccountData uid now)
  then show ?thesis using assms(1) by (simp add: removes_def)
qed (use assms(2) in \<open>auto simp: put_ceremony_def consume_ceremony_def consume_registration_ceremony_def
    replace_recovery_code_def create_credential_def create_credential_locked_def update_credential_def Let_def
    split: option.splits sum.splits\<close>)

lemma version_run:
  assumes "\<forall>call \<in> set calls. \<not> removes call" "ms_credentials s k = Some m"
  shows "\<exists>m'. ms_credentials (foldl (pk_step E) s calls) k = Some m' \<and> mc_version m \<le> mc_version m'"
  using assms
proof (induction calls arbitrary: s m)
  case (Cons call calls)
  obtain m1 where "ms_credentials (pk_step E s call) k = Some m1" "mc_version m \<le> mc_version m1"
    using version_step [of call s k m E] Cons.prems by auto
  then show ?case using Cons.IH [of "pk_step E s call" m1] Cons.prems(1) by fastforce
qed simp

lemma update_success:
  assumes "update_credential E s raw v c now = (s1, None)"
  shows "\<exists>m. ms_credentials s1 (document_id E raw) = Some m \<and> mc_version m = v + 1"
  using assms by (auto simp: update_credential_def Let_def split: option.splits if_splits sum.splits)

lemma update_needs_version:
  assumes "update_credential E s raw v c now = (s1, None)"
  shows "\<exists>m. ms_credentials s (document_id E raw) = Some m \<and> mc_version m = v"
  using assms by (auto simp: update_credential_def Let_def split: option.splits if_splits sum.splits)

section \<open>Properties\<close>

text \<open>
  C36. In every run from an empty store in which no two accounts share a document identifier, the users
  and the index of credentials agree: every account passes the store's own validation, with between
  one and eight credentials, so no sequence of revocations locks an account out; every entry of the
  index belongs to a credential of the account it names; user handles and credentials are not shared
  between accounts; and the recovery codes and their index name each other.
\<close>

theorem store_relation_kept:
  assumes env: "env_ok E" and "inj_on (document_id E) (\<Union> (created_uid ` set calls))"
    and s: "s = foldl (pk_step E) new_memory_store calls"
  shows "(\<forall>k u. ms_users s k = Some u \<longrightarrow> k = document_id E (us_uid u)
      \<and> (\<exists>refs. validate_credential_state E s u 0 = Inr refs \<and> length refs \<in> {1..8}))
    \<and> (\<forall>r m. ms_credentials s r = Some m \<longrightarrow> (\<exists>u refs. ms_users s (document_id E (mc_uid m)) = Some u \<and> us_uid u = mc_uid m
      \<and> validate_credential_state E s u 0 = Inr refs \<and> r \<in> set refs))
    \<and> (\<forall>k k' u u'. ms_users s k = Some u \<and> ms_users s k' = Some u' \<and> us_handle u = us_handle u' \<longrightarrow> k = k')
    \<and> (\<forall>k r. ms_recovery s k = Some r \<longrightarrow> ms_users s k \<noteq> None \<and> ms_recovery_by_code s (recovery_code_document_id (rc_digest r)) = Some k)
    \<and> (\<forall>c k. ms_recovery_by_code s c = Some k \<longrightarrow> (\<exists>r. ms_recovery s k = Some r \<and> c = recovery_code_document_id (rc_digest r)))"
proof -
  have ok: "store_ok E (\<Union> (created_uid ` set calls)) s" unfolding s by (rule pk_run_ok [OF assms(1,2)])
  have user: "k = document_id E (us_uid u) \<and> validate_credential_state E s u 0 = Inr (List.map (cref E) (us_credentials u))
      \<and> length (us_credentials u) \<in> {1..8}" if "ms_users s k = Some u" for k u
    using store_okD(1,3) [OF ok that] by (auto simp: validated_iff [OF env] user_ok_def const_simps Suc_le_eq)
  have entry: "\<exists>u refs. ms_users s (document_id E (mc_uid m)) = Some u \<and> us_uid u = mc_uid m
      \<and> validate_credential_state E s u 0 = Inr refs \<and> r \<in> set refs" if m: "ms_credentials s r = Some m" for r m
    using store_okD(4) [OF ok m] user by fastforce
  show ?thesis
    using user entry store_okD(5) [OF ok] codes_okD [OF store_okD(7) [OF ok]] by (intro conjI allI impI) (auto, blast+)
qed

text \<open>An account that adds a second passkey and revokes the first.\<close>

definition sample_env :: pk_env where
  "sample_env = \<lparr>pe_sha256 = (\<lambda>s. take 32 (s @ replicate 32 CHR 0x00)), pe_clone = (\<lambda>c. c)\<rparr>"

definition sample_credential :: "string \<Rightarrow> credential" where
  "sample_credential i = \<lparr>cr_id = i, cr_user_verified = True, cr_clone_warning = False, cr_rest = []\<rparr>"

definition sample_pk_user :: pk_user where
  "sample_pk_user = \<lparr>us_uid = ''u'', us_handle = ''h'', us_credentials = []\<rparr>"

definition sample_calls :: "pk_call list" where
  "sample_calls = [CreateCredential sample_pk_user (sample_credential ''a'') 5, CreateCredential sample_pk_user (sample_credential ''b'') 6,
     RevokeCredential ''u'' (credential_reference sample_env ''a'') 7]"

lemma sample_env_ok: "env_ok sample_env"
proof -
  have "min n 32 + (32 - n) = 32" for n :: nat by (simp add: min_def)
  then show ?thesis by (simp add: env_ok_def sample_env_def)
qed

lemma store_relation_kept_witness:
  "{(k, u). ms_users (foldl (pk_step sample_env) new_memory_store sample_calls) k = Some u \<and> k \<noteq> document_id sample_env (us_uid u)} = {}"
proof -
  have "\<Union> (created_uid ` set sample_calls) = {''u''}" by (simp add: sample_calls_def sample_pk_user_def)
  then show ?thesis using store_relation_kept [OF sample_env_ok _ refl, of sample_calls] by auto
qed

text \<open>
  C39. Capabilities of the store work once: in every run a ceremony is consumed successfully at most as
  often as it was put, and a recovery code adds a credential at most as often as it was issued.
\<close>

theorem ceremonies_and_codes_one_shot:
  "run_count (pk_step E) (ceremony_consumed E k) new_memory_store calls \<le> run_count (pk_step E) (ceremony_put E k) new_memory_store calls
   \<and> run_count (pk_step E) (code_redeemed E d) new_memory_store calls \<le> run_count (pk_step E) (code_issued E d) new_memory_store calls"
  using ceremonies.uses_bounded [of E k new_memory_store calls] codes.uses_bounded [of E d new_memory_store calls]
  by (simp add: new_memory_store_def)

text \<open>
  An assertion that another one has overtaken is refused: once an update for some version has
  succeeded, no run without a removal lets a second update for that version of that credential
  succeed, and the second call changes nothing.
\<close>

theorem stale_assertion_refused:
  assumes "update_credential E s raw v c now = (s1, None)" and "\<forall>call \<in> set calls. \<not> removes call"
    and "s2 = foldl (pk_step E) s1 calls"
  shows "\<exists>e. update_credential E s2 raw v c' now' = (s2, Some e)"
proof -
  obtain m where "ms_credentials s2 (document_id E raw) = Some m" "v + 1 \<le> mc_version m"
    using update_success [OF assms(1)] version_run [OF assms(2), of s1 "document_id E raw" _ E] assms(3) by fastforce
  then show ?thesis
    by (auto simp: update_credential_def Let_def split: option.splits)
qed

lemma sample_update:
  "\<exists>s1. update_credential sample_env (foldl (pk_step sample_env) new_memory_store [CreateCredential sample_pk_user (sample_credential ''a'') 5])
     ''a'' 1 (sample_credential ''a'') 6 = (s1, None)"
proof -
  let ?s = "foldl (pk_step sample_env) new_memory_store [CreateCredential sample_pk_user (sample_credential ''a'') 5]"
  let ?u = "sample_pk_user\<lparr>us_credentials := [sample_credential ''a'']\<rparr>"
  let ?r = "credential_reference sample_env ''a''"
  have s: "ms_users ?s = [document_id sample_env ''u'' \<mapsto> ?u]" "ms_credentials ?s = [?r \<mapsto>
      \<lparr>mc_uid = ''u'', mc_handle = ''h'', mc_credential = sample_credential ''a'', mc_version = 1, mc_created = 5, mc_updated = 5\<rparr>]"
    by (simp_all add: new_memory_store_def create_credential_def validate_credential_creation_def sample_pk_user_def sample_credential_def
        create_credential_locked_def creation_user_def const_simps document_id_def sample_env_def Let_def)
  have "validate_credential_state sample_env ?s ?u 6 = Inr [?r]"
    unfolding validated_iff [OF sample_env_ok] using s
    by (auto simp: user_ok_def entry_for_def sample_pk_user_def sample_credential_def const_simps)
  moreover have "target_index ?r [?r] = Some 0" by (simp add: target_index_def)
  ultimately show ?thesis using s
    by (simp add: update_credential_def validate_credential_update_def sample_credential_def sample_pk_user_def document_id_def Let_def)
qed

lemma stale_assertion_refused_witness:
  "\<exists>s1 e. update_credential sample_env s1 ''a'' 1 (sample_credential ''a'') 7 = (s1, Some e)"
proof -
  obtain s1 where "update_credential sample_env (foldl (pk_step sample_env) new_memory_store [CreateCredential sample_pk_user (sample_credential ''a'') 5])
     ''a'' 1 (sample_credential ''a'') 6 = (s1, None)" using sample_update by blast
  then show ?thesis using stale_assertion_refused [of _ _ _ _ _ _ s1 "[]" s1] by fastforce
qed

text \<open>
  The texts that clients send are canonical or refused: a credential reference is accepted exactly
  when it is the unpadded base64url form of 32 bytes, and then as it is; a recovery code exactly when
  it is the prefix and such a form, and its digest is that of the domain and the decoded bytes, so
  that two accepted codes with different texts have different bytes under the hash.
\<close>

theorem client_texts_canonical:
  "(parse_credential_reference v = Inr w \<longleftrightarrow> w = v \<and> (\<exists>b. length b = 32 \<and> v = b64_encode b))
   \<and> (recovery_code_digest E code = Inr d \<longleftrightarrow>
        (\<exists>b. length b = 32 \<and> code = ''krc1_'' @ b64_encode b \<and> d = pe_sha256 E (recovery_domain @ b)))"
proof (intro conjI parse_iff)
  show "recovery_code_digest E code = Inr d \<longleftrightarrow>
      (\<exists>b. length b = 32 \<and> code = ''krc1_'' @ b64_encode b \<and> d = pe_sha256 E (recovery_domain @ b))"
  proof
    assume "recovery_code_digest E code = Inr d"
    then obtain b where "length b = 32" "recovery_code_prefix @ b64_encode b = code" "d = pe_sha256 E (recovery_domain @ b)"
      by (auto simp: recovery_code_digest_def split: if_splits option.splits)
    then show "\<exists>b. length b = 32 \<and> code = ''krc1_'' @ b64_encode b \<and> d = pe_sha256 E (recovery_domain @ b)"
      unfolding recovery_code_prefix_def by blast
  next
    assume "\<exists>b. length b = 32 \<and> code = ''krc1_'' @ b64_encode b \<and> d = pe_sha256 E (recovery_domain @ b)"
    then obtain b where b: "length b = 32" "code = recovery_code_prefix @ b64_encode b" "d = pe_sha256 E (recovery_domain @ b)"
      unfolding recovery_code_prefix_def by blast
    then show "recovery_code_digest E code = Inr d"
      by (simp add: recovery_code_digest_def b64_decode_encode length_b64_encode)
  qed
qed

text \<open>
  The deletion marker is read by nothing but the deletion itself: after an account is deleted, a
  credential that is created for its user as loaded before the deletion brings the account back, and a
  further deletion reports success and leaves it there.
\<close>

theorem deleted_account_can_return:
  assumes ok: "store_ok E U s" and env: "env_ok E" and u: "ms_users s (document_id E uid) = Some u" "us_uid u = uid"
    and del: "delete_account_data E s uid t = (s1, None)" "ms_deleted s (document_id E uid) = None"
    and c: "cr_id c \<noteq> []" "ms_credentials s1 (document_id E (cr_id c)) = None" and "t1 \<noteq> 0" "t2 \<noteq> 0"
  shows "\<exists>s2. create_credential E s1 (clone_user E u) c t1 = (s2, None) \<and> ms_users s2 (document_id E uid) \<noteq> None
    \<and> delete_account_data E s2 uid t2 = (s2, None)"
proof -
  have uok: "us_uid u \<noteq> []" "us_handle u \<noteq> []" using store_okD(3) [OF ok u(1)] by (auto simp: user_ok_def)
  have s1: "ms_users s1 = (ms_users s)(document_id E uid := None)" "ms_deleted s1 (document_id E uid) = Some t"
    using del u by (auto simp: delete_account_data_def Let_def split: if_splits option.splits sum.splits)
  have "us_handle w \<noteq> us_handle u" if "w \<in> ran (ms_users s1)" for w
    using that s1(1) store_okD(5) [OF ok u(1)] by (auto simp: ran_def split: if_splits)
  then have "creation_user E s1 (clone_user E u) t1 = Inr \<lparr>us_uid = uid, us_handle = us_handle u, us_credentials = []\<rparr>"
    using s1(1) u(2) by (auto simp: creation_user_def clone_user_def)
  then show ?thesis
    using uok u(2) c s1 assms(9,10)
    by (auto simp: create_credential_def validate_credential_creation_def create_credential_locked_def clone_user_def Let_def
        delete_account_data_def const_simps)
qed

lemma deleted_account_can_return_witness:
  "\<exists>s1 s2. create_credential sample_env s1 (clone_user sample_env (sample_pk_user\<lparr>us_credentials := [sample_credential ''a'']\<rparr>))
       (sample_credential ''b'') 7 = (s2, None) \<and> delete_account_data sample_env s2 ''u'' 8 = (s2, None)"
proof -
  let ?calls = "[CreateCredential sample_pk_user (sample_credential ''a'') 5]"
  let ?s = "foldl (pk_step sample_env) new_memory_store ?calls"
  let ?u = "sample_pk_user\<lparr>us_credentials := [sample_credential ''a'']\<rparr>" let ?r = "credential_reference sample_env ''a''"
  have s: "ms_users ?s = [document_id sample_env ''u'' \<mapsto> ?u]" "ms_credentials ?s = [?r \<mapsto>
      \<lparr>mc_uid = ''u'', mc_handle = ''h'', mc_credential = sample_credential ''a'', mc_version = 1, mc_created = 5, mc_updated = 5\<rparr>]"
      "ms_deleted ?s = Map.empty" "ms_recovery ?s = Map.empty"
    by (simp_all add: new_memory_store_def create_credential_def validate_credential_creation_def sample_pk_user_def sample_credential_def
        create_credential_locked_def creation_user_def const_simps document_id_def sample_env_def Let_def)
  have val: "validate_credential_state sample_env ?s ?u 6 = Inr [?r]"
    unfolding validated_iff [OF sample_env_ok] using s
    by (auto simp: user_ok_def entry_for_def sample_pk_user_def sample_credential_def const_simps)
  obtain s1 where s1: "delete_account_data sample_env ?s ''u'' 6 = (s1, None)" "ms_credentials s1 = Map.empty"
    using val s by (simp add: delete_account_data_def sample_pk_user_def Let_def restrict_map_def fun_eq_iff)
  have ok: "store_ok sample_env (\<Union> (created_uid ` set ?calls)) ?s"
    by (rule pk_run_ok [OF sample_env_ok]) simp
  have u: "ms_users ?s (document_id sample_env ''u'') = Some ?u" "us_uid ?u = ''u''" "ms_deleted ?s (document_id sample_env ''u'') = None"
    using s by (simp_all add: sample_pk_user_def)
  have c: "cr_id (sample_credential ''b'') \<noteq> []" "ms_credentials s1 (document_id sample_env (cr_id (sample_credential ''b''))) = None"
    using s1(2) by (simp_all add: sample_credential_def)
  show ?thesis
    using deleted_account_can_return [OF ok sample_env_ok u(1,2) s1(1) u(3) c, of 7 8] by auto
qed

end
