(* ===== verification/PasskeyService.thy ===== *)
theory PasskeyService
  imports PasskeyStore
begin

text \<open>
  The passkey service (\<open>internal/passkey\<close>: \<open>passkey.go\<close> and the service half of
  \<open>recovery_code.go\<close>) over the in-memory store.

  \<^item> \<open>webauthn\<close> collects what the service takes from the WebAuthn library: the sessions it begins, their
    JSON form, and its verdicts. A login asks its handler for one credential and judges the response
    for the user that it returns, so it is a lookup (\<open>wa_lookup\<close>) and a verdict (\<open>wa_login\<close>).
  \<^item> The clock, the random source, the minter, the cleaner and the deleter are arguments: each call
    takes the instants that it reads and the bytes that it draws, in order; \<open>None\<close> is a failed read.
  \<^item> A result is an answer or a \<open>service_error\<close>: \<open>Refused\<close> one of the package's errors, \<open>Internal\<close> an
    error that wraps one from elsewhere. A nil response is \<open>None\<close>. The cap on the size of a request
    body is the library's to meet and is not modelled. Each call is one step; calls that interleave
    are runs of the store's own steps.

  The lemmas show who gets a token: at most one per ceremony, and only with a verified credential
  that the store knows.
\<close>

section \<open>Model\<close>

datatype service_error = Refused pk_error | Internal

record webauthn =
  wa_begin :: "pk_user \<Rightarrow> string option"
  wa_begin_login :: "string option"
  wa_encode :: "string \<Rightarrow> time \<Rightarrow> string option"
  wa_decode :: "string \<Rightarrow> string option"
  wa_user_id :: "string \<Rightarrow> string"
  wa_finish :: "pk_user \<Rightarrow> string \<Rightarrow> string \<Rightarrow> credential option"
  wa_lookup :: "string \<Rightarrow> string \<Rightarrow> (string \<times> string) option"
  wa_login :: "pk_user \<Rightarrow> string \<Rightarrow> string \<Rightarrow> credential option"

record service =
  sv_env :: pk_env
  sv_lib :: webauthn
  sv_mint :: "string \<Rightarrow> int \<Rightarrow> string option"

definition ceremony_ttl :: duration where
  [const_simps]: "ceremony_ttl = 5 * minute"

definition max_exact_json_integer :: int where
  [const_simps]: "max_exact_json_integer = 2 ^ 53 - 1"

abbreviation digest_string :: "service \<Rightarrow> string \<Rightarrow> string" where
  "digest_string S v \<equiv> pe_sha256 (sv_env S) v"

definition random_token :: "string option \<Rightarrow> string option" where
  "random_token bytes = map_option b64_encode bytes"

definition put_result :: "pk_store \<times> pk_error option \<Rightarrow> service_error \<Rightarrow> 'a \<Rightarrow> pk_store \<times> (service_error, 'a) result" where
  "put_result r err x = (case r of (s, Some _) \<Rightarrow> (s, Inl err) | (s, None) \<Rightarrow> (s, Inr x))"

definition begin_registration :: "service \<Rightarrow> pk_store \<Rightarrow> string \<Rightarrow> string option \<Rightarrow> string option \<Rightarrow> string option \<Rightarrow> time
    \<Rightarrow> pk_store \<times> (service_error, string) result" where
  "begin_registration S s app uid_bytes handle_bytes id_bytes now =
     (if trim_space app = [] then (s, Inl (Refused ErrRegistration))
      else case random_token uid_bytes of
        None \<Rightarrow> (s, Inl Internal)
      | Some uid \<Rightarrow>
        case handle_bytes of
          None \<Rightarrow> (s, Inl Internal)
        | Some handle \<Rightarrow>
          (let user = \<lparr>us_uid = ''pk_'' @ uid, us_handle = handle, us_credentials = []\<rparr> in
           case wa_begin (sv_lib S) user of
             None \<Rightarrow> (s, Inl Internal)
           | Some session \<Rightarrow>
             case random_token id_bytes of
               None \<Rightarrow> (s, Inl Internal)
             | Some i \<Rightarrow>
               case wa_encode (sv_lib S) session (now + ceremony_ttl) of
                 None \<Rightarrow> (s, Inl Internal)
               | Some json \<Rightarrow>
                 put_result (put_ceremony (sv_env S) s i
                   \<lparr>ce_purpose = registration_use, ce_app_digest = digest_string S app, ce_principal_digest = [],
                     ce_recovery_digest = [], ce_target_uid = us_uid user, ce_user_handle = handle, ce_session = json,
                     ce_expires = now + ceremony_ttl, ce_created = now\<rparr>) Internal i))"

definition mint :: "service \<Rightarrow> string \<Rightarrow> time \<Rightarrow> (service_error, string) result" where
  "mint S uid verified_at =
     (if is_zero verified_at \<or> unix_sec verified_at \<le> 0 \<or> unix_sec verified_at > max_exact_json_integer then Inl Internal
      else case sv_mint S uid (unix_sec verified_at) of None \<Rightarrow> Inl Internal | Some token \<Rightarrow> Inr token)"

text \<open>\<open>keys\<close> is the order in which the store's users are visited.\<close>

definition registration_user :: "service \<Rightarrow> pk_store \<Rightarrow> string list \<Rightarrow> ceremony \<Rightarrow> time \<Rightarrow> (pk_error, pk_user) result" where
  "registration_user S s keys r now =
     (if ce_purpose r = recovery_registration_use
      then (if length (ce_user_handle r) = 0 \<or> length (ce_principal_digest r) \<noteq> 32 then Inl ErrRegistration
        else case load_recovery_user_by_handle (sv_env S) s keys (ce_user_handle r) (ce_principal_digest r) now of
          Inl _ \<Rightarrow> Inl ErrRegistration | Inr u \<Rightarrow> Inr u)
      else case load_user_by_uid (sv_env S) s (ce_target_uid r) of
        Inr stored \<Rightarrow> if us_handle stored \<noteq> ce_user_handle r then Inl ErrRegistration else Inr stored
      | Inl e \<Rightarrow> if e \<noteq> ErrCredentialNotFound then Inl e
          else Inr \<lparr>us_uid = ce_target_uid r, us_handle = ce_user_handle r, us_credentials = []\<rparr>)"

definition finish_registration :: "service \<Rightarrow> pk_store \<Rightarrow> string list \<Rightarrow> string \<Rightarrow> string \<Rightarrow> string option \<Rightarrow> time \<Rightarrow> time \<Rightarrow> time
    \<Rightarrow> pk_store \<times> (service_error, string) result" where
  "finish_registration S s keys app ceremony response now1 now2 now3 =
     (let refuse = Inl (Refused ErrRegistration); E = sv_env S in
      case response of
        None \<Rightarrow> (s, refuse)
      | Some resp \<Rightarrow>
        if trim_space app = [] then (s, refuse)
        else case consume_registration_ceremony E s (trim_space ceremony) (digest_string S app) now1 of
          (s1, Inl _) \<Rightarrow> (s1, refuse)
        | (s1, Inr r) \<Rightarrow>
          case wa_decode (sv_lib S) (ce_session r) of
            None \<Rightarrow> (s1, refuse)
          | Some session \<Rightarrow>
            case registration_user S s1 keys r now2 of
              Inl _ \<Rightarrow> (s1, refuse)
            | Inr user \<Rightarrow>
              case wa_finish (sv_lib S) user session resp of
                None \<Rightarrow> (s1, refuse)
              | Some c \<Rightarrow>
                if \<not> cr_user_verified c then (s1, refuse)
                else if ce_purpose r = recovery_registration_use
                then (if length (ce_recovery_digest r) \<noteq> 32 then (s1, refuse)
                  else case create_recovery_credential E s1 user c (ce_recovery_digest r) now3 of
                    (s2, Some _) \<Rightarrow> (s2, refuse) | (s2, None) \<Rightarrow> (s2, mint S (us_uid user) now3))
                else if ce_purpose r = registration_use
                then (case create_credential E s1 user c now3 of
                    (s2, Some _) \<Rightarrow> (s2, refuse) | (s2, None) \<Rightarrow> (s2, mint S (us_uid user) now3))
                else (s1, refuse))"

definition begin_credential_registration :: "service \<Rightarrow> pk_store \<Rightarrow> string \<Rightarrow> string \<Rightarrow> string option \<Rightarrow> time
    \<Rightarrow> pk_store \<times> (service_error, string) result" where
  "begin_credential_registration S s app0 uid0 id_bytes now =
     (let app = trim_space app0; uid = trim_space uid0; refuse = Inl (Refused ErrCredentialRegistration) in
      if app = [] \<or> uid = [] then (s, refuse)
      else case load_user_by_uid (sv_env S) s uid of
        Inl _ \<Rightarrow> (s, refuse)
      | Inr u \<Rightarrow>
        if us_uid u \<noteq> uid \<or> length (us_handle u) = 0 \<or> length (us_credentials u) = 0 \<or> length (us_credentials u) \<ge> max_credentials
        then (s, refuse)
        else case wa_begin (sv_lib S) u of
          None \<Rightarrow> (s, refuse)
        | Some session \<Rightarrow>
          if is_zero now then (s, refuse)
          else case random_token id_bytes of
            None \<Rightarrow> (s, refuse)
          | Some i \<Rightarrow>
            case wa_encode (sv_lib S) session (now + ceremony_ttl) of
              None \<Rightarrow> (s, refuse)
            | Some json \<Rightarrow>
              put_result (put_ceremony (sv_env S) s i
                \<lparr>ce_purpose = credential_addition_use, ce_app_digest = digest_string S app, ce_principal_digest = digest_string S uid,
                  ce_recovery_digest = [], ce_target_uid = [], ce_user_handle = us_handle u, ce_session = json,
                  ce_expires = now + ceremony_ttl, ce_created = now\<rparr>) (Refused ErrCredentialRegistration) i)"

definition finish_credential_registration :: "service \<Rightarrow> pk_store \<Rightarrow> string \<Rightarrow> string \<Rightarrow> string \<Rightarrow> string option \<Rightarrow> time \<Rightarrow> time
    \<Rightarrow> pk_store \<times> service_error option" where
  "finish_credential_registration S s app0 uid0 ceremony response now1 now2 =
     (let app = trim_space app0; uid = trim_space uid0; refuse = Some (Refused ErrCredentialRegistration); E = sv_env S in
      case response of
        None \<Rightarrow> (s, refuse)
      | Some resp \<Rightarrow>
        if app = [] \<or> uid = [] then (s, refuse)
        else case consume_ceremony E s (trim_space ceremony) credential_addition_use (digest_string S app) now1 of
          (s1, Inl _) \<Rightarrow> (s1, refuse)
        | (s1, Inr r) \<Rightarrow>
          if ce_target_uid r \<noteq> [] \<or> ce_principal_digest r \<noteq> digest_string S uid then (s1, refuse)
          else case wa_decode (sv_lib S) (ce_session r) of
            None \<Rightarrow> (s1, refuse)
          | Some session \<Rightarrow>
            if wa_user_id (sv_lib S) session \<noteq> ce_user_handle r then (s1, refuse)
            else case load_user_by_uid E s1 uid of
              Inl _ \<Rightarrow> (s1, refuse)
            | Inr u \<Rightarrow>
              if us_uid u \<noteq> uid \<or> length (us_credentials u) = 0 \<or> length (us_credentials u) \<ge> max_credentials
                \<or> us_handle u \<noteq> ce_user_handle r
              then (s1, refuse)
              else case wa_finish (sv_lib S) u session resp of
                None \<Rightarrow> (s1, refuse)
              | Some c \<Rightarrow>
                if \<not> cr_user_verified c \<or> cr_clone_warning c then (s1, refuse)
                else case create_credential E s1 u c now2 of
                  (s2, Some _) \<Rightarrow> (s2, refuse) | (s2, None) \<Rightarrow> (s2, None))"

definition service_list_credentials :: "service \<Rightarrow> pk_store \<Rightarrow> string \<Rightarrow> (pk_error, credential_summary list) result" where
  "service_list_credentials S s uid0 =
     (let uid = trim_space uid0 in if uid = [] then Inl ErrCredentialStateInvalid else list_credentials (sv_env S) s uid)"

definition service_revoke_credential :: "service \<Rightarrow> pk_store \<Rightarrow> string \<Rightarrow> string \<Rightarrow> time \<Rightarrow> pk_store \<times> pk_error option" where
  "service_revoke_credential S s uid0 ref now =
     (let uid = trim_space uid0 in
      if uid = [] then (s, Some ErrCredentialNotFound) else revoke_credential (sv_env S) s uid ref now)"

text \<open>
  The deletion calls the cleaner, the store and the deleter in this order and stops at the first
  failure; the answers of the cleaner and the deleter are arguments (\<open>None\<close>: there is none), and the
  result says how far it came.
\<close>

datatype deletion_stage = NothingDone | MemoryDeleted | PasskeysDeleted | AccountDeleted

definition delete_account :: "service \<Rightarrow> pk_store \<Rightarrow> bool option \<Rightarrow> bool option \<Rightarrow> string \<Rightarrow> time
    \<Rightarrow> pk_store \<times> deletion_stage \<times> service_error option" where
  "delete_account S s cleaner deleter uid0 now =
     (let uid = trim_space uid0; refuse = Some (Refused ErrAccountDeletion) in
      if uid = [] \<or> cleaner = None \<or> deleter = None then (s, NothingDone, refuse)
      else if cleaner = Some False then (s, NothingDone, refuse)
      else case delete_account_data (sv_env S) s uid now of
        (s1, Some _) \<Rightarrow> (s1, MemoryDeleted, refuse)
      | (s1, None) \<Rightarrow>
        if deleter = Some False then (s1, PasskeysDeleted, refuse) else (s1, AccountDeleted, None))"

definition begin_authentication :: "service \<Rightarrow> pk_store \<Rightarrow> string \<Rightarrow> string option \<Rightarrow> time
    \<Rightarrow> pk_store \<times> (service_error, string) result" where
  "begin_authentication S s app id_bytes now =
     (if trim_space app = [] then (s, Inl (Refused ErrAuthentication))
      else case wa_begin_login (sv_lib S) of
        None \<Rightarrow> (s, Inl Internal)
      | Some session \<Rightarrow>
        case random_token id_bytes of
          None \<Rightarrow> (s, Inl Internal)
        | Some i \<Rightarrow>
          case wa_encode (sv_lib S) session (now + ceremony_ttl) of
            None \<Rightarrow> (s, Inl Internal)
          | Some json \<Rightarrow>
            put_result (put_ceremony (sv_env S) s i
              \<lparr>ce_purpose = authentication_use, ce_app_digest = digest_string S app, ce_principal_digest = [],
                ce_recovery_digest = [], ce_target_uid = [], ce_user_handle = [], ce_session = json,
                ce_expires = now + ceremony_ttl, ce_created = now\<rparr>) Internal i)"

definition finish_authentication :: "service \<Rightarrow> pk_store \<Rightarrow> string \<Rightarrow> string \<Rightarrow> string option \<Rightarrow> time \<Rightarrow> time
    \<Rightarrow> pk_store \<times> (service_error, string) result" where
  "finish_authentication S s app ceremony response now1 now2 =
     (let refuse = Inl (Refused ErrAuthentication); E = sv_env S in
      case response of
        None \<Rightarrow> (s, refuse)
      | Some resp \<Rightarrow>
        if trim_space app = [] then (s, refuse)
        else case consume_ceremony E s (trim_space ceremony) authentication_use (digest_string S app) now1 of
          (s1, Inl _) \<Rightarrow> (s1, refuse)
        | (s1, Inr r) \<Rightarrow>
          case wa_decode (sv_lib S) (ce_session r) of
            None \<Rightarrow> (s1, refuse)
          | Some session \<Rightarrow>
            case wa_lookup (sv_lib S) session resp of
              None \<Rightarrow> (s1, refuse)
            | Some (raw, handle) \<Rightarrow>
              case find_credential E s1 raw handle of
                Inl _ \<Rightarrow> (s1, refuse)
              | Inr loaded \<Rightarrow>
                case wa_login (sv_lib S) (sc_user loaded) session resp of
                  None \<Rightarrow> (s1, refuse)
                | Some c \<Rightarrow>
                  if \<not> cr_user_verified c \<or> cr_clone_warning c then (s1, refuse)
                  else case update_credential E s1 (cr_id c) (sc_version loaded) c now2 of
                    (s2, Some _) \<Rightarrow> (s2, refuse)
                  | (s2, None) \<Rightarrow> (s2, mint S (us_uid (sc_user loaded)) now2))"

definition issue_recovery_code :: "service \<Rightarrow> pk_store \<Rightarrow> string \<Rightarrow> string option \<Rightarrow> time
    \<Rightarrow> pk_store \<times> (service_error, string \<times> int) result" where
  "issue_recovery_code S s uid0 material now =
     (let uid = trim_space uid0; refuse = Inl (Refused ErrRecoveryCode) in
      if uid = [] then (s, refuse)
      else case material of
        None \<Rightarrow> (s, refuse)
      | Some bytes \<Rightarrow>
        (let code = recovery_code_prefix @ b64_encode bytes in
         case recovery_code_digest (sv_env S) code of
           Inl _ \<Rightarrow> (s, refuse)
         | Inr digest \<Rightarrow>
           put_result (replace_recovery_code (sv_env S) s uid digest (now + recovery_code_ttl) now)
             (Refused ErrRecoveryCode) (code, recovery_code_ttl div second)))"

definition begin_recovery_registration :: "service \<Rightarrow> pk_store \<Rightarrow> string \<Rightarrow> string \<Rightarrow> string option \<Rightarrow> time
    \<Rightarrow> pk_store \<times> (service_error, string) result" where
  "begin_recovery_registration S s app0 code id_bytes now =
     (let app = trim_space app0; refuse = Inl (Refused ErrRecoveryCode) in
      case recovery_code_digest (sv_env S) code of
        Inl _ \<Rightarrow> (s, refuse)
      | Inr digest \<Rightarrow>
        if app = [] then (s, refuse)
        else case load_recovery_user (sv_env S) s digest now of
          Inl _ \<Rightarrow> (s, refuse)
        | Inr u \<Rightarrow>
          if us_uid u = [] \<or> length (us_handle u) = 0 \<or> length (us_credentials u) = 0 \<or> length (us_credentials u) \<ge> max_credentials
          then (s, refuse)
          else case wa_begin (sv_lib S) u of
            None \<Rightarrow> (s, refuse)
          | Some session \<Rightarrow>
            if is_zero now then (s, refuse)
            else case random_token id_bytes of
              None \<Rightarrow> (s, refuse)
            | Some i \<Rightarrow>
              case wa_encode (sv_lib S) session (now + ceremony_ttl) of
                None \<Rightarrow> (s, refuse)
              | Some json \<Rightarrow>
                put_result (put_ceremony (sv_env S) s i
                  \<lparr>ce_purpose = recovery_registration_use, ce_app_digest = digest_string S app,
                    ce_principal_digest = digest_string S (us_uid u), ce_recovery_digest = digest, ce_target_uid = [],
                    ce_user_handle = us_handle u, ce_session = json, ce_expires = now + ceremony_ttl, ce_created = now\<rparr>)
                  (Refused ErrRecoveryCode) i)"

section \<open>Runs of the service\<close>

text \<open>The calls, each with the bytes it draws, the instants it reads and the answers of its collaborators.\<close>

datatype service_call =
    BeginRegistration string "string option" "string option" "string option" time
  | FinishRegistration "string list" string string "string option" time time time
  | BeginCredentialRegistration string string "string option" time
  | FinishCredentialRegistration string string string "string option" time time
  | BeginAuthentication string "string option" time
  | FinishAuthentication string string "string option" time time
  | IssueRecoveryCode string "string option" time
  | BeginRecoveryRegistration string string "string option" time
  | ServiceRevoke string string time
  | DeleteAccount "bool option" "bool option" string time

fun service_step :: "service \<Rightarrow> pk_store \<Rightarrow> service_call \<Rightarrow> pk_store" where
  "service_step S s (BeginRegistration app r1 r2 r3 now) = fst (begin_registration S s app r1 r2 r3 now)"
| "service_step S s (FinishRegistration keys app c resp t1 t2 t3) = fst (finish_registration S s keys app c resp t1 t2 t3)"
| "service_step S s (BeginCredentialRegistration app uid r now) = fst (begin_credential_registration S s app uid r now)"
| "service_step S s (FinishCredentialRegistration app uid c resp t1 t2) = fst (finish_credential_registration S s app uid c resp t1 t2)"
| "service_step S s (BeginAuthentication app r now) = fst (begin_authentication S s app r now)"
| "service_step S s (FinishAuthentication app c resp t1 t2) = fst (finish_authentication S s app c resp t1 t2)"
| "service_step S s (IssueRecoveryCode uid r now) = fst (issue_recovery_code S s uid r now)"
| "service_step S s (BeginRecoveryRegistration app code r now) = fst (begin_recovery_registration S s app code r now)"
| "service_step S s (ServiceRevoke uid ref now) = fst (service_revoke_credential S s uid ref now)"
| "service_step S s (DeleteAccount cl de uid now) = fst (delete_account S s cl de uid now)"

definition ceremony_begun :: "service \<Rightarrow> string \<Rightarrow> pk_store \<Rightarrow> service_call \<Rightarrow> bool" where
  "ceremony_begun S k s call \<longleftrightarrow> ms_ceremonies s k = None \<and> ms_ceremonies (service_step S s call) k \<noteq> None"

definition token_minted :: "service \<Rightarrow> string \<Rightarrow> pk_store \<Rightarrow> service_call \<Rightarrow> bool" where
  "token_minted S k s call \<longleftrightarrow>
     (case call of
        FinishRegistration keys app c resp t1 t2 t3 \<Rightarrow>
          document_id (sv_env S) (trim_space c) = k \<and> \<not> isl (snd (finish_registration S s keys app c resp t1 t2 t3))
      | FinishAuthentication app c resp t1 t2 \<Rightarrow>
          document_id (sv_env S) (trim_space c) = k \<and> \<not> isl (snd (finish_authentication S s app c resp t1 t2))
      | _ \<Rightarrow> False)"

text \<open>A successful login, taken apart.\<close>

lemma finish_authentication_Inr:
  assumes "finish_authentication S s app ceremony response now1 now2 = (s2, Inr token)"
  obtains resp r s1 session raw handle loaded c where "response = Some resp"
    "consume_ceremony (sv_env S) s (trim_space ceremony) authentication_use (digest_string S app) now1 = (s1, Inr r)"
    "wa_decode (sv_lib S) (ce_session r) = Some session" "wa_lookup (sv_lib S) session resp = Some (raw, handle)"
    "find_credential (sv_env S) s1 raw handle = Inr loaded" "wa_login (sv_lib S) (sc_user loaded) session resp = Some c"
    "cr_user_verified c" "\<not> cr_clone_warning c"
    "update_credential (sv_env S) s1 (cr_id c) (sc_version loaded) c now2 = (s2, None)"
    "mint S (us_uid (sc_user loaded)) now2 = Inr token"
  using assms
  by (auto simp: finish_authentication_def Let_def split: option.splits sum.splits prod.splits if_splits)

lemma finish_registration_Inr:
  assumes "finish_registration S s keys app ceremony response now1 now2 now3 = (s2, Inr token)"
  obtains resp r s1 session user c where "response = Some resp"
    "consume_registration_ceremony (sv_env S) s (trim_space ceremony) (digest_string S app) now1 = (s1, Inr r)"
    "wa_decode (sv_lib S) (ce_session r) = Some session" "registration_user S s1 keys r now2 = Inr user"
    "wa_finish (sv_lib S) user session resp = Some c" "cr_user_verified c"
    "(ce_purpose r = recovery_registration_use \<and> create_recovery_credential (sv_env S) s1 user c (ce_recovery_digest r) now3 = (s2, None))
     \<or> (ce_purpose r = registration_use \<and> create_credential (sv_env S) s1 user c now3 = (s2, None))"
    "mint S (us_uid user) now3 = Inr token"
  using assms
  by (auto simp: finish_registration_def Let_def split: option.splits sum.splits prod.splits if_splits)

lemma store_ceremonies:
  "ms_ceremonies (fst (create_credential E s u c now)) = ms_ceremonies s"
  "ms_ceremonies (fst (create_recovery_credential E s u c d now)) = ms_ceremonies s"
  "ms_ceremonies (fst (update_credential E s raw v c now)) = ms_ceremonies s"
  using step_ceremonies [of E s "CreateCredential u c now"] step_ceremonies [of E s "CreateRecoveryCredential u c d now"]
    step_ceremonies [of E s "UpdateCredential raw v c now"] by (auto simp: fun_eq_iff)

lemma consumed_gone:
  "consume_ceremony E s i p app now = (s1, Inr r) \<Longrightarrow> ms_ceremonies s (document_id E i) = Some r \<and> ms_ceremonies s1 (document_id E i) = None"
  "consume_registration_ceremony E s i app now = (s1, Inr r) \<Longrightarrow> ms_ceremonies s (document_id E i) = Some r \<and> ms_ceremonies s1 (document_id E i) = None"
  by (auto simp: consume_ceremony_def consume_registration_ceremony_def Let_def split: option.splits if_splits)

lemma minted_consumes:
  assumes "token_minted S k s call"
  shows "ms_ceremonies s k \<noteq> None" "ms_ceremonies (service_step S s call) k = None"
proof -
  consider (reg) keys app c resp t1 t2 t3 s2 token where "call = FinishRegistration keys app c resp t1 t2 t3"
      "document_id (sv_env S) (trim_space c) = k" "finish_registration S s keys app c resp t1 t2 t3 = (s2, Inr token)"
    | (auth) app c resp t1 t2 s2 token where "call = FinishAuthentication app c resp t1 t2"
      "document_id (sv_env S) (trim_space c) = k" "finish_authentication S s app c resp t1 t2 = (s2, Inr token)"
    using assms by (auto simp: token_minted_def isl_def prod_eq_iff split: service_call.splits) (metis prod.collapse sum.exhaust_sel)+
  then have "ms_ceremonies s k \<noteq> None \<and> ms_ceremonies (service_step S s call) k = None"
  proof cases
    case reg
    from reg(3) show ?thesis
    proof (rule finish_registration_Inr)
      fix resp r s1 session user c'
      assume c: "consume_registration_ceremony (sv_env S) s (trim_space c) (digest_string S app) t1 = (s1, Inr r)"
        and cr: "(ce_purpose r = recovery_registration_use \<and> create_recovery_credential (sv_env S) s1 user c' (ce_recovery_digest r) t3 = (s2, None))
          \<or> (ce_purpose r = registration_use \<and> create_credential (sv_env S) s1 user c' t3 = (s2, None))"
      have "ms_ceremonies s2 = ms_ceremonies s1" using cr store_ceremonies(1,2) by (metis fst_conv)
      then show ?thesis using consumed_gone(2) [OF c] reg by simp
    qed
  next
    case auth
    from auth(3) show ?thesis
    proof (rule finish_authentication_Inr)
      fix resp r s1 session raw handle loaded c'
      assume c: "consume_ceremony (sv_env S) s (trim_space c) authentication_use (digest_string S app) t1 = (s1, Inr r)"
        and up: "update_credential (sv_env S) s1 (cr_id c') (sc_version loaded) c' t2 = (s2, None)"
      have "ms_ceremonies s2 = ms_ceremonies s1" using up store_ceremonies(3) by (metis fst_conv)
      then show ?thesis using consumed_gone(1) [OF c] auth by simp
    qed
  qed
  then show "ms_ceremonies s k \<noteq> None" "ms_ceremonies (service_step S s call) k = None" by auto
qed

interpretation tokens: token_ledger "service_step S" "\<lambda>_. True" "ceremony_begun S" "token_minted S" "\<lambda>s k. ms_ceremonies s k \<noteq> None" for S
proof
  fix k s call
  show "token_minted S k s call \<Longrightarrow> ms_ceremonies s k \<noteq> None" by (rule minted_consumes(1))
  show "token_minted S k s call \<Longrightarrow> \<not> ms_ceremonies (service_step S s call) k \<noteq> None" using minted_consumes(2) by simp
  show "ms_ceremonies (service_step S s call) k \<noteq> None \<Longrightarrow> ms_ceremonies s k \<noteq> None \<or> ceremony_begun S k s call"
    by (auto simp: ceremony_begun_def)
qed

section \<open>Properties\<close>

text \<open>
  One ceremony, one token: in every run of the service from an empty store, the tokens that are
  minted on a ceremony are at most as many as the times it was begun.
\<close>

theorem one_token_per_ceremony:
  "run_count (service_step S) (token_minted S k) new_memory_store calls
     \<le> run_count (service_step S) (ceremony_begun S k) new_memory_store calls"
  using tokens.uses_bounded [of S k new_memory_store calls] by (simp add: new_memory_store_def)

text \<open>
  C11. A login that returns a token consumed a live authentication ceremony of the same app, the library
  verified the user on a credential that the store holds, under the identifier and handle of the
  response and without a clone warning; the token is for the account that the stored credential
  names, and the credential's version has moved on.
\<close>

theorem login_is_authorised:
  assumes "store_ok (sv_env S) U s" "finish_authentication S s app ceremony response now1 now2 = (s2, Inr token)"
  shows "\<exists>r session resp raw handle m u c.
    ms_ceremonies s (document_id (sv_env S) (trim_space ceremony)) = Some r \<and> ce_purpose r = authentication_use
    \<and> ce_app_digest r = digest_string S app \<and> now1 < ce_expires r
    \<and> response = Some resp \<and> wa_decode (sv_lib S) (ce_session r) = Some session \<and> wa_lookup (sv_lib S) session resp = Some (raw, handle)
    \<and> ms_credentials s (document_id (sv_env S) raw) = Some m \<and> cr_id (mc_credential m) = raw \<and> mc_handle m = handle
    \<and> ms_users s (document_id (sv_env S) (mc_uid m)) = Some u \<and> us_uid u = mc_uid m
    \<and> wa_login (sv_lib S) (clone_user (sv_env S) u) session resp = Some c \<and> cr_user_verified c \<and> \<not> cr_clone_warning c
    \<and> sv_mint S (mc_uid m) (unix_sec now2) = Some token
    \<and> (\<exists>m'. ms_credentials s2 (document_id (sv_env S) (cr_id c)) = Some m' \<and> mc_version m' = mc_version m + 1)"
proof -
  from assms(2) obtain resp r s1 session raw handle loaded c where a: "response = Some resp"
    "consume_ceremony (sv_env S) s (trim_space ceremony) authentication_use (digest_string S app) now1 = (s1, Inr r)"
    "wa_decode (sv_lib S) (ce_session r) = Some session" "wa_lookup (sv_lib S) session resp = Some (raw, handle)"
    "find_credential (sv_env S) s1 raw handle = Inr loaded" "wa_login (sv_lib S) (sc_user loaded) session resp = Some c"
    "cr_user_verified c" "\<not> cr_clone_warning c"
    "update_credential (sv_env S) s1 (cr_id c) (sc_version loaded) c now2 = (s2, None)"
    "mint S (us_uid (sc_user loaded)) now2 = Inr token"
    by (rule finish_authentication_Inr)
  have r: "ms_ceremonies s (document_id (sv_env S) (trim_space ceremony)) = Some r" "ce_purpose r = authentication_use"
      "ce_app_digest r = digest_string S app" "now1 < ce_expires r"
    and s1: "ms_credentials s1 = ms_credentials s" "ms_users s1 = ms_users s"
    using a(2) by (auto simp: consume_ceremony_def ceremony_matches_def Let_def split: option.splits if_splits)
  obtain m u where m: "ms_credentials s (document_id (sv_env S) raw) = Some m" "cr_id (mc_credential m) = raw" "mc_handle m = handle"
      "ms_users s (document_id (sv_env S) (mc_uid m)) = Some u" "sc_user loaded = clone_user (sv_env S) u" "sc_version loaded = mc_version m"
    using a(5) s1 by (auto simp: find_credential_def split: option.splits if_splits)
  have "us_uid u = mc_uid m" using store_okD(4) [OF assms(1) m(1)] m(4) by auto
  moreover have "sv_mint S (mc_uid m) (unix_sec now2) = Some token"
    using a(10) m(5) calculation by (auto simp: mint_def clone_user_def split: if_splits option.splits)
  moreover have "\<exists>m'. ms_credentials s2 (document_id (sv_env S) (cr_id c)) = Some m' \<and> mc_version m' = mc_version m + 1"
    using update_success [OF a(9)] m(6) by simp
  ultimately show ?thesis using r a(1,3,4,6-8) m by metis
qed

definition sample_lib :: webauthn where
  "sample_lib = \<lparr>wa_begin = (\<lambda>_. None), wa_begin_login = None, wa_encode = (\<lambda>_ _. None), wa_decode = Some,
     wa_user_id = (\<lambda>_. []), wa_finish = (\<lambda>_ _ _. None), wa_lookup = (\<lambda>_ _. Some (''a'', ''h'')),
     wa_login = (\<lambda>_ _ _. Some (sample_credential ''a''))\<rparr>"

definition sample_service :: service where
  "sample_service = \<lparr>sv_env = sample_env, sv_lib = sample_lib, sv_mint = (\<lambda>uid _. Some uid)\<rparr>"

definition sample_ceremony :: ceremony where
  "sample_ceremony = \<lparr>ce_purpose = authentication_use, ce_app_digest = pe_sha256 sample_env ''app'', ce_principal_digest = [],
     ce_recovery_digest = [], ce_target_uid = [], ce_user_handle = [], ce_session = [], ce_expires = unix_epoch + minute, ce_created = unix_epoch\<rparr>"

definition sample_login_calls :: "pk_call list" where
  "sample_login_calls = [CreateCredential sample_pk_user (sample_credential ''a'') 5, PutCeremony ''cid'' sample_ceremony]"

lemma sample_login:
  "\<exists>s2. finish_authentication sample_service (foldl (pk_step sample_env) new_memory_store sample_login_calls)
     ''app'' ''cid'' (Some []) unix_epoch (unix_epoch + second) = (s2, Inr ''u'')"
proof -
  let ?s = "foldl (pk_step sample_env) new_memory_store sample_login_calls"
  let ?u = "sample_pk_user\<lparr>us_credentials := [sample_credential ''a'']\<rparr>" let ?r = "credential_reference sample_env ''a''"
  let ?m = "\<lparr>mc_uid = ''u'', mc_handle = ''h'', mc_credential = sample_credential ''a'', mc_version = 1, mc_created = 5, mc_updated = 5\<rparr>"
  let ?s1 = "?s\<lparr>ms_ceremonies := (ms_ceremonies ?s)(document_id sample_env ''cid'' := None)\<rparr>"
  have trim: "trim_space ''app'' = ''app''" "trim_space ''cid'' = ''cid''" by code_simp+
  have s: "ms_users ?s = [document_id sample_env ''u'' \<mapsto> ?u]" "ms_credentials ?s = [?r \<mapsto> ?m]"
      "ms_ceremonies ?s = [document_id sample_env ''cid'' \<mapsto> sample_ceremony]"
    by (simp_all add: sample_login_calls_def new_memory_store_def create_credential_def validate_credential_creation_def sample_pk_user_def
        sample_credential_def create_credential_locked_def creation_user_def const_simps document_id_def sample_env_def Let_def put_ceremony_def)
  have consume: "consume_ceremony sample_env ?s ''cid'' authentication_use (pe_sha256 sample_env ''app'') unix_epoch = (?s1, Inr sample_ceremony)"
    using s(3) by (simp add: consume_ceremony_def ceremony_matches_def sample_ceremony_def)
  have find: "find_credential sample_env ?s1 ''a'' ''h'' = Inr \<lparr>sc_user = ?u, sc_credential = sample_credential ''a'', sc_version = 1\<rparr>"
    using s(1,2) by (simp add: find_credential_def document_id_def sample_credential_def clone_user_def sample_env_def sample_pk_user_def)
  have "validate_credential_state sample_env ?s1 ?u (unix_epoch + second) = Inr [?r]"
    unfolding validated_iff [OF sample_env_ok] using s
    by (auto simp: user_ok_def entry_for_def sample_pk_user_def sample_credential_def const_simps unix_epoch_def)
  moreover have "target_index ?r [?r] = Some 0" by (simp add: target_index_def)
  ultimately have "\<exists>s2. update_credential sample_env ?s1 ''a'' 1 (sample_credential ''a'') (unix_epoch + second) = (s2, None)"
    using s(1,2) by (simp add: update_credential_def validate_credential_update_def sample_credential_def sample_pk_user_def document_id_def
        Let_def unix_epoch_def)
  moreover have "mint sample_service ''u'' (unix_epoch + second) = Inr ''u''"
    by (simp add: mint_def sample_service_def unix_sec_def unix_epoch_def const_simps)
  ultimately show ?thesis using trim consume find
    by (auto simp: finish_authentication_def sample_service_def sample_lib_def sample_credential_def sample_pk_user_def Let_def)
qed

lemma login_is_authorised_witness:
  "\<exists>r. ms_ceremonies (foldl (pk_step sample_env) new_memory_store sample_login_calls) (document_id sample_env ''cid'') = Some r
     \<and> ce_purpose r = authentication_use"
proof -
  have trim: "trim_space ''cid'' = ''cid''" by code_simp
  have "inj_on (document_id sample_env) (\<Union> (created_uid ` set sample_login_calls))"
    by (simp add: sample_login_calls_def)
  note ok = pk_run_ok [OF sample_env_ok this]
  obtain s2 where "finish_authentication sample_service (foldl (pk_step sample_env) new_memory_store sample_login_calls)
     ''app'' ''cid'' (Some []) unix_epoch (unix_epoch + second) = (s2, Inr ''u'')" using sample_login by blast
  from login_is_authorised [OF _ this] ok show ?thesis by (auto simp: sample_service_def trim)
qed

end
