(* ===== verification/RateGuard.thy ===== *)
theory RateGuard
  imports Go_Text
begin

text \<open>
  The guards of the server's endpoints (\<open>internal/guard\<close>): request quotas (\<open>rate_limit.go\<close>) and the
  lease that keeps a user to one live voice connection (\<open>voice_live_lease.go\<close>).

  \<^item> \<open>advance\<close>, \<open>limiter_consume\<close> and \<open>firestore_consume\<close> are \<open>counterState.advance\<close> and the two
    \<open>Consume\<close> methods; the counters live in a map from document identifiers. \<open>acquire\<close> and \<open>release\<close>
    are those of the in-memory lease manager, \<open>fs_acquire\<close> and \<open>fs_release\<close> those on Firestore.
  \<^item> A Firestore transaction is one step on a map of documents. A quota document is a counter, or
    \<open>None\<close> where it does not decode; a lease document is a map from field names to values, as
    \<open>snapshot.Data\<close> gives it. Reads that fail for other reasons end the call with an error and no
    effect, and are an argument.
  \<^item> SHA-256 is an argument, and so are the random bytes of a lease's holder and the error of the
    context. The counters are bounded by the limits, so they are integers that do not wrap.

  The lemmas show that no window admits more requests than its limit, whatever the clock does, and
  that a lease excludes every other until it is released or over.
\<close>

section \<open>Quotas\<close>

record limits =
  li_per_minute :: int
  li_per_day :: int

datatype guard_error = ErrLimits | ErrSchema | ErrNegative | ErrWindow | ErrRateLimitExceeded | ErrUid
  | ErrContext | ErrRead | ErrDecode | ErrLeaseTTL | ErrLeaseRandom | ErrLeaseHolder | ErrLeaseExpiry | ErrVoiceLiveLeaseHeld

definition limits_validate :: "limits \<Rightarrow> guard_error option" where
  "limits_validate l =
     (if li_per_minute l < 1 \<or> li_per_minute l > 20 then Some ErrLimits
      else if li_per_day l < 1 \<or> li_per_day l > 200 then Some ErrLimits else None)"

definition limits_validate_passkey :: "limits \<Rightarrow> guard_error option" where
  "limits_validate_passkey l =
     (if li_per_minute l < 1 \<or> li_per_minute l > 300 then Some ErrLimits
      else if li_per_day l < 1 \<or> li_per_day l > 20000 then Some ErrLimits else None)"

record counter_state =
  cs_minute_start :: time
  cs_minute_count :: int
  cs_day_start :: time
  cs_day_count :: int
  cs_schema :: int

definition zero_counter :: counter_state where
  "zero_counter = \<lparr>cs_minute_start = 0, cs_minute_count = 0, cs_day_start = 0, cs_day_count = 0, cs_schema = 0\<rparr>"

text \<open>
  An instant counts from midnight of the first day, so the start of its minute or day is the last
  multiple of a minute or day.
\<close>

definition minute_start :: "time \<Rightarrow> time" where
  "minute_start now = now - now mod minute"

definition day_start :: "time \<Rightarrow> time" where
  "day_start now = now - now mod day"

definition utc_windows :: "time \<Rightarrow> time \<times> time" where
  "utc_windows now = (minute_start now, day_start now)"

definition advance :: "counter_state \<Rightarrow> time \<Rightarrow> limits \<Rightarrow> counter_state \<times> guard_error option" where
  "advance s now l =
     (case utc_windows now of (ms, ds) \<Rightarrow>
        if cs_schema s \<noteq> 0 \<and> cs_schema s \<noteq> 1 then (s, Some ErrSchema)
        else if cs_minute_count s < 0 \<or> cs_day_count s < 0 then (s, Some ErrNegative)
        else if cs_schema s = 1 \<and> (is_zero (cs_minute_start s) \<or> is_zero (cs_day_start s) \<or> cs_minute_start s > ms \<or> cs_day_start s > ds)
        then (s, Some ErrWindow)
        else
         (let s1 = (if cs_minute_start s \<noteq> ms then s\<lparr>cs_minute_start := ms, cs_minute_count := 0\<rparr> else s);
              s2 = (if cs_day_start s1 \<noteq> ds then s1\<lparr>cs_day_start := ds, cs_day_count := 0\<rparr> else s1);
              s3 = s2\<lparr>cs_schema := 1\<rparr> in
          if cs_minute_count s3 \<ge> li_per_minute l \<or> cs_day_count s3 \<ge> li_per_day l then (s3, Some ErrRateLimitExceeded)
          else (s3\<lparr>cs_minute_count := cs_minute_count s3 + 1, cs_day_count := cs_day_count s3 + 1\<rparr>, None)))"

definition user_document_id :: "(string \<Rightarrow> string) \<Rightarrow> string \<Rightarrow> (guard_error, string) result" where
  "user_document_id sha256 uid = (if trim_space uid = [] then Inl ErrUid else Inr (hex_encode (sha256 uid)))"

record limiter =
  lm_limits :: limits
  lm_counters :: "string \<rightharpoonup> counter_state"

definition new_memory_limiter :: "limits \<Rightarrow> (guard_error, limiter) result" where
  "new_memory_limiter l = (case limits_validate l of Some e \<Rightarrow> Inl e | None \<Rightarrow> Inr \<lparr>lm_limits = l, lm_counters = Map.empty\<rparr>)"

definition new_memory_passkey_app_limiter :: "limits \<Rightarrow> (guard_error, limiter) result" where
  "new_memory_passkey_app_limiter l =
     (case limits_validate_passkey l of Some e \<Rightarrow> Inl e | None \<Rightarrow> Inr \<lparr>lm_limits = l, lm_counters = Map.empty\<rparr>)"

definition limiter_consume :: "(string \<Rightarrow> string) \<Rightarrow> limiter \<Rightarrow> bool \<Rightarrow> string \<Rightarrow> time \<Rightarrow> limiter \<times> guard_error option" where
  "limiter_consume sha256 m ctx_ended uid now =
     (if ctx_ended then (m, Some ErrContext)
      else case user_document_id sha256 uid of
        Inl e \<Rightarrow> (m, Some e)
      | Inr i \<Rightarrow>
        case advance (case lm_counters m i of None \<Rightarrow> zero_counter | Some s \<Rightarrow> s) now (lm_limits m) of
          (s, Some e) \<Rightarrow> (m, Some e)
        | (s, None) \<Rightarrow> (m\<lparr>lm_counters := (lm_counters m)(i \<mapsto> s)\<rparr>, None))"

text \<open>The documents of a collection with their time to live.\<close>

type_synonym quota_documents = "string \<rightharpoonup> (counter_state option \<times> time)"

definition firestore_counter_document :: "counter_state \<Rightarrow> time \<Rightarrow> counter_state option \<times> time" where
  "firestore_counter_document s now = (Some (s\<lparr>cs_schema := 1\<rparr>), now + 48 * hour)"

definition firestore_consume :: "(string \<Rightarrow> string) \<Rightarrow> limits \<Rightarrow> quota_documents \<Rightarrow> bool \<Rightarrow> string \<Rightarrow> time
    \<Rightarrow> quota_documents \<times> guard_error option" where
  "firestore_consume sha256 l docs read_fails uid now =
     (case user_document_id sha256 uid of
        Inl e \<Rightarrow> (docs, Some e)
      | Inr i \<Rightarrow>
        if read_fails then (docs, Some ErrRead)
        else
         (let state = (case docs i of
              None \<Rightarrow> Inr zero_counter
            | Some (None, _) \<Rightarrow> Inl ErrDecode
            | Some (Some s, _) \<Rightarrow> if cs_schema s \<noteq> 1 then Inl ErrSchema else Inr s) in
          case state of
            Inl e \<Rightarrow> (docs, Some e)
          | Inr s \<Rightarrow>
            case advance s now l of
              (_, Some e) \<Rightarrow> (docs, Some e)
            | (s', None) \<Rightarrow> (docs(i \<mapsto> firestore_counter_document s' now), None)))"

section \<open>Leases\<close>

record lease_state =
  ls_holder :: string
  ls_expires :: time
  ls_schema :: int

definition lease_schema :: int where
  [const_simps]: "lease_schema = 1"

definition lease_validate :: "lease_state \<Rightarrow> guard_error option" where
  "lease_validate s =
     (if ls_schema s \<noteq> lease_schema then Some ErrSchema
      else if length (ls_holder s) \<noteq> 64 then Some ErrLeaseHolder
      else if hex_decode (ls_holder s) = None then Some ErrLeaseHolder
      else if is_zero (ls_expires s) then Some ErrLeaseExpiry
      else None)"

text \<open>The values of a Firestore document.\<close>

datatype fs_value = FsTime time | FsText string | FsInt int | FsOther

definition lease_expiry :: "fs_value \<Rightarrow> time \<Rightarrow> (guard_error, bool \<times> time) result" where
  "lease_expiry v now =
     (case v of
        FsTime t \<Rightarrow> if is_zero t then Inl ErrLeaseExpiry else Inr (\<not> t > now, t)
      | _ \<Rightarrow> Inl ErrLeaseExpiry)"

definition lease_for_acquire :: "(string \<rightharpoonup> fs_value) \<Rightarrow> time \<Rightarrow> guard_error option" where
  "lease_for_acquire data now =
     (case data ''expiresAt'' of
        None \<Rightarrow> Some ErrLeaseExpiry
      | Some v \<Rightarrow>
        case lease_expiry v now of
          Inl e \<Rightarrow> Some e
        | Inr (expired, t) \<Rightarrow>
          if expired then None
          else case data ''holder'' of
            Some (FsText holder) \<Rightarrow>
              (case data ''schemaVersion'' of
                 Some (FsInt schema) \<Rightarrow>
                   if schema \<noteq> lease_schema then Some ErrSchema
                   else (case lease_validate \<lparr>ls_holder = holder, ls_expires = t, ls_schema = schema\<rparr> of
                       Some e \<Rightarrow> Some e | None \<Rightarrow> Some ErrVoiceLiveLeaseHeld)
               | _ \<Rightarrow> Some ErrSchema)
          | _ \<Rightarrow> Some ErrLeaseHolder)"

definition new_lease_state :: "time \<Rightarrow> duration \<Rightarrow> string option \<Rightarrow> (guard_error, lease_state) result" where
  "new_lease_state now ttl random =
     (if ttl \<le> 0 then Inl ErrLeaseTTL
      else case random of
        None \<Rightarrow> Inl ErrLeaseRandom
      | Some bytes \<Rightarrow> Inr \<lparr>ls_holder = hex_encode bytes, ls_expires = now + ttl, ls_schema = lease_schema\<rparr>)"

text \<open>A granted lease is the document and its holder.\<close>

definition acquire :: "(string \<Rightarrow> string) \<Rightarrow> (string \<rightharpoonup> lease_state) \<Rightarrow> bool \<Rightarrow> string \<Rightarrow> time \<Rightarrow> duration \<Rightarrow> string option
    \<Rightarrow> (string \<rightharpoonup> lease_state) \<times> (guard_error, string \<times> string) result" where
  "acquire sha256 leases ctx_ended uid now ttl random =
     (if ctx_ended then (leases, Inl ErrContext)
      else case user_document_id sha256 uid of
        Inl e \<Rightarrow> (leases, Inl e)
      | Inr i \<Rightarrow>
        case new_lease_state now ttl random of
          Inl e \<Rightarrow> (leases, Inl e)
        | Inr requested \<Rightarrow>
          case leases i of
            Some persisted \<Rightarrow>
              (case lease_expiry (FsTime (ls_expires persisted)) now of
                 Inl e \<Rightarrow> (leases, Inl e)
               | Inr (expired, _) \<Rightarrow>
                 if expired then (leases(i \<mapsto> requested), Inr (i, ls_holder requested))
                 else case lease_validate persisted of
                   Some e \<Rightarrow> (leases, Inl e) | None \<Rightarrow> (leases, Inl ErrVoiceLiveLeaseHeld))
          | None \<Rightarrow> (leases(i \<mapsto> requested), Inr (i, ls_holder requested)))"

definition release :: "(string \<rightharpoonup> lease_state) \<Rightarrow> bool \<Rightarrow> string \<times> string \<Rightarrow> (string \<rightharpoonup> lease_state) \<times> guard_error option" where
  "release leases ctx_ended lease =
     (if ctx_ended then (leases, Some ErrContext)
      else case leases (fst lease) of
        Some persisted \<Rightarrow> if ls_holder persisted = snd lease then (leases(fst lease := None), None) else (leases, None)
      | None \<Rightarrow> (leases, None))"

definition lease_document :: "lease_state \<Rightarrow> string \<rightharpoonup> fs_value" where
  "lease_document s = [''holder'' \<mapsto> FsText (ls_holder s), ''expiresAt'' \<mapsto> FsTime (ls_expires s),
     ''schemaVersion'' \<mapsto> FsInt lease_schema, ''updatedAt'' \<mapsto> FsOther]"

definition fs_acquire :: "(string \<Rightarrow> string) \<Rightarrow> (string \<rightharpoonup> string \<rightharpoonup> fs_value) \<Rightarrow> bool \<Rightarrow> string \<Rightarrow> time \<Rightarrow> duration \<Rightarrow> string option
    \<Rightarrow> (string \<rightharpoonup> string \<rightharpoonup> fs_value) \<times> (guard_error, string \<times> string) result" where
  "fs_acquire sha256 docs read_fails uid now ttl random =
     (case user_document_id sha256 uid of
        Inl e \<Rightarrow> (docs, Inl e)
      | Inr i \<Rightarrow>
        case new_lease_state now ttl random of
          Inl e \<Rightarrow> (docs, Inl e)
        | Inr requested \<Rightarrow>
          if read_fails then (docs, Inl ErrRead)
          else case (case docs i of Some data \<Rightarrow> lease_for_acquire data now | None \<Rightarrow> None) of
            Some e \<Rightarrow> (docs, Inl e)
          | None \<Rightarrow> (docs(i \<mapsto> lease_document requested), Inr (i, ls_holder requested)))"

text \<open>\<open>DataTo\<close> reads the three fields; a field of another type does not decode, a missing one is zero.\<close>

definition lease_decode :: "(string \<rightharpoonup> fs_value) \<Rightarrow> lease_state option" where
  "lease_decode data =
     (case (case data ''holder'' of None \<Rightarrow> Some [] | Some (FsText h) \<Rightarrow> Some h | _ \<Rightarrow> None,
            case data ''expiresAt'' of None \<Rightarrow> Some 0 | Some (FsTime t) \<Rightarrow> Some t | _ \<Rightarrow> None,
            case data ''schemaVersion'' of None \<Rightarrow> Some 0 | Some (FsInt n) \<Rightarrow> Some n | _ \<Rightarrow> None) of
        (Some h, Some t, Some n) \<Rightarrow> Some \<lparr>ls_holder = h, ls_expires = t, ls_schema = n\<rparr>
      | _ \<Rightarrow> None)"

definition fs_release :: "(string \<rightharpoonup> string \<rightharpoonup> fs_value) \<Rightarrow> bool \<Rightarrow> string \<times> string
    \<Rightarrow> (string \<rightharpoonup> string \<rightharpoonup> fs_value) \<times> guard_error option" where
  "fs_release docs read_fails lease =
     (if read_fails then (docs, Some ErrRead)
      else case docs (fst lease) of
        None \<Rightarrow> (docs, None)
      | Some data \<Rightarrow>
        case lease_decode data of
          None \<Rightarrow> (docs, Some ErrDecode)
        | Some persisted \<Rightarrow>
          case lease_validate persisted of
            Some e \<Rightarrow> (docs, Some e)
          | None \<Rightarrow> if ls_holder persisted \<noteq> snd lease then (docs, None) else (docs(fst lease := None), None))"

section \<open>Runs\<close>

record consume_call =
  cc_ended :: bool
  cc_uid :: string
  cc_now :: time

definition consume_step :: "(string \<Rightarrow> string) \<Rightarrow> limiter \<Rightarrow> consume_call \<Rightarrow> limiter" where
  "consume_step sha256 m c = fst (limiter_consume sha256 m (cc_ended c) (cc_uid c) (cc_now c))"

definition admitted :: "(string \<Rightarrow> string) \<Rightarrow> string \<Rightarrow> (time \<Rightarrow> bool) \<Rightarrow> limiter \<Rightarrow> consume_call \<Rightarrow> bool" where
  "admitted sha256 i window m c \<longleftrightarrow> user_document_id sha256 (cc_uid c) = Inr i \<and> window (cc_now c)
     \<and> snd (limiter_consume sha256 m (cc_ended c) (cc_uid c) (cc_now c)) = None"

datatype lease_call = Acquire bool string time duration "string option" | Release bool "string \<times> string"

fun lease_step :: "(string \<Rightarrow> string) \<Rightarrow> (string \<rightharpoonup> lease_state) \<Rightarrow> lease_call \<Rightarrow> (string \<rightharpoonup> lease_state)" where
  "lease_step sha256 leases (Acquire ended uid now ttl random) = fst (acquire sha256 leases ended uid now ttl random)"
| "lease_step sha256 leases (Release ended lease) = fst (release leases ended lease)"

section \<open>Quotas hold\<close>

lemma window_mono: "now \<le> now' \<Longrightarrow> 0 < d \<Longrightarrow> now - now mod d \<le> now' - now' mod d" for d :: int
  by (simp add: minus_mod_eq_div_mult zdiv_mono1 mult_right_mono)

text \<open>An admission, and what a counter says after it.\<close>

lemma advance_None:
  assumes "advance s now l = (s', None)"
  shows "cs_schema s' = 1" "cs_minute_start s' = minute_start now" "cs_day_start s' = day_start now"
    "cs_minute_count s' \<le> li_per_minute l" "cs_day_count s' \<le> li_per_day l"
    "cs_minute_count s' = (if cs_minute_start s = minute_start now then cs_minute_count s else 0) + 1"
    "cs_day_count s' = (if cs_day_start s = day_start now then cs_day_count s else 0) + 1"
    "cs_schema s = 1 \<Longrightarrow> cs_minute_start s \<le> minute_start now \<and> cs_day_start s \<le> day_start now"
    "cs_schema s = 0 \<or> cs_schema s = 1" "0 \<le> cs_minute_count s" "0 \<le> cs_day_count s"
  using assms by (auto simp: advance_def utc_windows_def Let_def split: if_splits)

text \<open>
  The count of admissions in the windows of a counter is what the counter says, and none is in a
  later window.
\<close>

definition counts_ok :: "(string \<Rightarrow> string) \<Rightarrow> limits \<Rightarrow> string \<Rightarrow> consume_call list \<Rightarrow> bool" where
  "counts_ok sha256 l i calls \<longleftrightarrow>
     (let m0 = \<lparr>lm_limits = l, lm_counters = Map.empty\<rparr>; m = foldl (consume_step sha256) m0 calls;
          count = (\<lambda>P. int (run_count (consume_step sha256) (admitted sha256 i P) m0 calls)) in
      case lm_counters m i of
        None \<Rightarrow> \<forall>P. count P = 0
      | Some s \<Rightarrow> cs_schema s = 1
          \<and> (\<forall>w. (w = cs_minute_start s \<longrightarrow> count (\<lambda>t. minute_start t = w) = cs_minute_count s)
               \<and> (cs_minute_start s < w \<longrightarrow> count (\<lambda>t. minute_start t = w) = 0)
               \<and> count (\<lambda>t. minute_start t = w) \<le> li_per_minute l)
          \<and> (\<forall>w. (w = cs_day_start s \<longrightarrow> count (\<lambda>t. day_start t = w) = cs_day_count s)
               \<and> (cs_day_start s < w \<longrightarrow> count (\<lambda>t. day_start t = w) = 0)
               \<and> count (\<lambda>t. day_start t = w) \<le> li_per_day l))"

lemma limiter_cases:
  obtains (refused) "consume_step sha256 m c = m" "\<And>i P. \<not> admitted sha256 i P m c"
  | (accepted) i0 s' where
    "advance (case lm_counters m i0 of None \<Rightarrow> zero_counter | Some s \<Rightarrow> s) (cc_now c) (lm_limits m) = (s', None)"
    "consume_step sha256 m c = m\<lparr>lm_counters := (lm_counters m)(i0 \<mapsto> s')\<rparr>"
    "\<And>i P. admitted sha256 i P m c \<longleftrightarrow> i = i0 \<and> P (cc_now c)"
proof (cases "cc_ended c \<or> isl (user_document_id sha256 (cc_uid c))")
  case True
  then have "snd (limiter_consume sha256 m (cc_ended c) (cc_uid c) (cc_now c)) \<noteq> None" "consume_step sha256 m c = m"
    by (auto simp: limiter_consume_def consume_step_def isl_def)
  then show ?thesis using refused by (auto simp: admitted_def)
next
  case False
  then obtain i0 where i0: "user_document_id sha256 (cc_uid c) = Inr i0" "\<not> cc_ended c"
    by (cases "user_document_id sha256 (cc_uid c)") auto
  obtain s' r where adv: "advance (case lm_counters m i0 of None \<Rightarrow> zero_counter | Some s \<Rightarrow> s) (cc_now c) (lm_limits m) = (s', r)"
    by fastforce
  show ?thesis
  proof (cases r)
    case None
    show ?thesis by (rule accepted [of i0 s']) (use i0 adv None in \<open>auto simp: consume_step_def limiter_consume_def admitted_def\<close>)
  next
    case (Some e)
    show ?thesis by (rule refused) (use i0 adv Some in \<open>auto simp: consume_step_def limiter_consume_def admitted_def\<close>)
  qed
qed

lemma limits_kept: "lm_limits (foldl (consume_step sha256) m calls) = lm_limits m"
proof (induction calls arbitrary: m)
  case (Cons c calls)
  have "lm_limits (consume_step sha256 m c) = lm_limits m" by (cases rule: limiter_cases [of sha256 m c]) auto
  then show ?case using Cons by simp
qed simp

lemma counts_snoc:
  assumes ok: "counts_ok sha256 l i calls" and l: "1 \<le> li_per_minute l" "1 \<le> li_per_day l"
  shows "counts_ok sha256 l i (calls @ [c])"
proof -
  let ?init = "\<lparr>lm_limits = l, lm_counters = Map.empty\<rparr>" let ?m = "foldl (consume_step sha256) ?init calls"
  let ?count = "\<lambda>P cs. int (run_count (consume_step sha256) (admitted sha256 i P) ?init cs)"
  have lim: "lm_limits ?m = l" by (simp add: limits_kept)
  show ?thesis
  proof (cases rule: limiter_cases [of sha256 ?m c])
    case refused
    have snoc: "?count P (calls @ [c]) = ?count P calls" for P
      using refused(2) [of i P] run_count_snoc [of "consume_step sha256" "admitted sha256 i P" ?init calls c] by simp
    have "foldl (consume_step sha256) ?init (calls @ [c]) = ?m" using refused(1) by simp
    then show ?thesis using ok unfolding counts_ok_def Let_def snoc by simp
  next
    case (accepted i0 s')
    note 2 = accepted
    have snoc: "?count P (calls @ [c]) = ?count P calls + (if i = i0 \<and> P (cc_now c) then 1 else 0)" for P
      by (simp add: run_count_snoc 2(3))
    show ?thesis
    proof (cases "i = i0")
      case False
      then have keep: "lm_counters (foldl (consume_step sha256) ?init (calls @ [c])) i = lm_counters ?m i" by (simp add: 2(2))
      have same: "?count P (calls @ [c]) = ?count P calls" for P using snoc [of P] False by simp
      show ?thesis using ok unfolding counts_ok_def Let_def same keep .
    next
      case True
      let ?mw = "minute_start (cc_now c)" let ?dw = "day_start (cc_now c)"
      note adv = advance_None [OF 2(1)]
      have now: "lm_counters (foldl (consume_step sha256) ?init (calls @ [c])) i = Some s'" by (simp add: 2(2) True)
      have min: "?count (\<lambda>t. minute_start t = ?mw) calls = (if cs_minute_start (case lm_counters ?m i0 of None \<Rightarrow> zero_counter | Some s \<Rightarrow> s) = ?mw
            then cs_minute_count (case lm_counters ?m i0 of None \<Rightarrow> zero_counter | Some s \<Rightarrow> s) else 0)"
          "\<And>w. ?mw < w \<Longrightarrow> ?count (\<lambda>t. minute_start t = w) calls = 0"
          "\<And>w. ?count (\<lambda>t. minute_start t = w) calls \<le> li_per_minute l"
        and day: "?count (\<lambda>t. day_start t = ?dw) calls = (if cs_day_start (case lm_counters ?m i0 of None \<Rightarrow> zero_counter | Some s \<Rightarrow> s) = ?dw
            then cs_day_count (case lm_counters ?m i0 of None \<Rightarrow> zero_counter | Some s \<Rightarrow> s) else 0)"
          "\<And>w. ?dw < w \<Longrightarrow> ?count (\<lambda>t. day_start t = w) calls = 0"
          "\<And>w. ?count (\<lambda>t. day_start t = w) calls \<le> li_per_day l"
        using ok adv(8) l unfolding counts_ok_def Let_def True
        by (auto simp: zero_counter_def split: option.splits)
      have "(w = cs_minute_start s' \<longrightarrow> ?count (\<lambda>t. minute_start t = w) (calls @ [c]) = cs_minute_count s')
          \<and> (cs_minute_start s' < w \<longrightarrow> ?count (\<lambda>t. minute_start t = w) (calls @ [c]) = 0)
          \<and> ?count (\<lambda>t. minute_start t = w) (calls @ [c]) \<le> li_per_minute l" for w
        using snoc [of "\<lambda>t. minute_start t = w"] True adv(2,4,6) min(1) min(2,3) [of w] lim by (cases "w = ?mw") simp_all
      moreover have "(w = cs_day_start s' \<longrightarrow> ?count (\<lambda>t. day_start t = w) (calls @ [c]) = cs_day_count s')
          \<and> (cs_day_start s' < w \<longrightarrow> ?count (\<lambda>t. day_start t = w) (calls @ [c]) = 0)
          \<and> ?count (\<lambda>t. day_start t = w) (calls @ [c]) \<le> li_per_day l" for w
        using snoc [of "\<lambda>t. day_start t = w"] True adv(3,5,7) day(1) day(2,3) [of w] lim by (cases "w = ?dw") simp_all
      ultimately show ?thesis
        unfolding counts_ok_def Let_def now option.case using adv(1) by blast
    qed
  qed
qed

lemma counts_always:
  assumes "1 \<le> li_per_minute l" "1 \<le> li_per_day l"
  shows "counts_ok sha256 l i calls"
  by (induction calls rule: rev_induct) (simp_all add: counts_snoc assms, simp add: counts_ok_def)

section \<open>Leases exclude each other\<close>

definition holds :: "(string \<rightharpoonup> lease_state) \<Rightarrow> string \<Rightarrow> lease_state \<Rightarrow> bool" where
  "holds leases i s \<longleftrightarrow> leases i = Some s"

text \<open>A call that neither comes after the lease's end nor is the release of its holder.\<close>

definition undisturbed :: "(string \<Rightarrow> string) \<Rightarrow> string \<Rightarrow> lease_state \<Rightarrow> lease_call \<Rightarrow> bool" where
  "undisturbed sha256 i s call \<longleftrightarrow>
     (case call of
        Acquire ended uid now ttl random \<Rightarrow> (user_document_id sha256 uid = Inr i \<longrightarrow> now < ls_expires s)
      | Release ended lease \<Rightarrow> lease \<noteq> (i, ls_holder s))"

lemma acquire_Inr:
  assumes "acquire sha256 leases ended uid now ttl random = (leases', Inr (i, h))"
  shows "\<exists>s. leases' = leases(i \<mapsto> s) \<and> ls_holder s = h \<and> ls_expires s = now + ttl \<and> 0 < ttl \<and> user_document_id sha256 uid = Inr i"
  using assms by (auto simp: acquire_def new_lease_state_def split: if_splits sum.splits option.splits prod.splits)

lemma lease_stays:
  assumes "leases i = Some s" "undisturbed sha256 i s call"
  shows "lease_step sha256 leases call i = Some s"
proof (cases call)
  case (Acquire ended uid now ttl random)
  then show ?thesis
    using assms by (auto simp: acquire_def lease_expiry_def undisturbed_def split: sum.splits option.splits if_splits)
next
  case (Release ended lease)
  then show ?thesis using assms by (auto simp: release_def undisturbed_def prod_eq_iff split: option.splits)
qed

lemma leases_stay:
  assumes "leases i = Some s" "\<forall>call \<in> set calls. undisturbed sha256 i s call"
  shows "foldl (lease_step sha256) leases calls i = Some s"
  using assms by (induction calls arbitrary: leases) (auto simp: lease_stays)

lemma acquire_held:
  assumes "leases i = Some s" "user_document_id sha256 uid = Inr i" "now < ls_expires s"
  shows "isl (snd (acquire sha256 leases ended uid now ttl random))"
  using assms by (auto simp: acquire_def lease_expiry_def split: sum.splits option.splits)

section \<open>Firestore documents\<close>

definition docs_of :: "(string \<rightharpoonup> lease_state) \<Rightarrow> (string \<rightharpoonup> string \<rightharpoonup> fs_value)" where
  "docs_of leases = (\<lambda>i. map_option lease_document (leases i))"

lemma docs_of_upd: "docs_of (leases(i \<mapsto> s)) = (docs_of leases)(i \<mapsto> lease_document s)"
  by (auto simp: docs_of_def)

lemma docs_of_del: "docs_of (leases(i := None)) = (docs_of leases)(i := None)"
  by (auto simp: docs_of_def)

lemma lease_document_fields:
  "lease_document s ''expiresAt'' = Some (FsTime (ls_expires s))" "lease_document s ''holder'' = Some (FsText (ls_holder s))"
  "lease_document s ''schemaVersion'' = Some (FsInt lease_schema)"
  by (simp_all add: lease_document_def)

text \<open>Leases as the manager writes them: of the current schema, with a holder of 32 bytes.\<close>

definition written :: "(string \<rightharpoonup> lease_state) \<Rightarrow> bool" where
  "written leases \<longleftrightarrow> (\<forall>s \<in> ran leases. lease_validate s = None \<and> ls_schema s = lease_schema)"

lemma fs_acquire_agrees:
  assumes "written leases"
  shows "fs_acquire sha256 (docs_of leases) False uid now ttl random
    = (docs_of (fst (acquire sha256 leases False uid now ttl random)), snd (acquire sha256 leases False uid now ttl random))"
proof -
  have w: "lease_validate s = None \<and> ls_schema s = lease_schema" if "leases i = Some s" for i s
    using assms that by (auto simp: written_def ran_def)
  have same: "\<lparr>ls_holder = ls_holder s, ls_expires = ls_expires s, ls_schema = lease_schema\<rparr> = s" if "ls_schema s = lease_schema" for s :: lease_state
    using that by (cases s) simp
  show ?thesis
  proof (cases "isl (user_document_id sha256 uid) \<or> isl (new_lease_state now ttl random)")
    case True
    then show ?thesis by (auto simp: fs_acquire_def acquire_def isl_def split: sum.splits)
  next
    case False
    then obtain i r where i: "user_document_id sha256 uid = Inr i" "new_lease_state now ttl random = Inr r"
      by (cases "user_document_id sha256 uid"; cases "new_lease_state now ttl random") auto
    show ?thesis
    proof (cases "leases i")
      case None
      then show ?thesis using i by (simp add: fs_acquire_def acquire_def docs_of_upd) (simp add: docs_of_def)
    next
      case (Some s)
      have "docs_of leases i = Some (lease_document s)" using Some by (simp add: docs_of_def)
      moreover have "ls_expires s \<noteq> 0" using w [OF Some] by (auto simp: lease_validate_def split: if_splits)
      moreover have "lease_validate \<lparr>ls_holder = ls_holder s, ls_expires = ls_expires s, ls_schema = lease_schema\<rparr> = None"
        using w [OF Some] same by metis
      ultimately show ?thesis
        using i Some w [OF Some]
        by (simp add: fs_acquire_def acquire_def docs_of_upd lease_for_acquire_def lease_document_fields lease_expiry_def)
    qed
  qed
qed

lemma fs_release_agrees:
  assumes "written leases"
  shows "fs_release (docs_of leases) False lease = (docs_of (fst (release leases False lease)), snd (release leases False lease))"
proof (cases "leases (fst lease)")
  case None
  then show ?thesis by (simp add: fs_release_def release_def) (simp add: docs_of_def)
next
  case (Some s)
  have s: "lease_validate s = None" "ls_schema s = lease_schema" using assms Some by (auto simp: written_def ran_def)
  have "lease_decode (lease_document s) = Some s"
    using s(2) by (cases s) (simp add: lease_decode_def lease_document_def)
  moreover have "docs_of leases (fst lease) = Some (lease_document s)" using Some by (simp add: docs_of_def)
  ultimately show ?thesis
    using s(1) Some by (simp add: fs_release_def release_def docs_of_del)
qed

lemma written_acquire:
  assumes "written leases" "\<And>b. random = Some b \<Longrightarrow> length b = 32" "now + ttl \<noteq> 0"
  shows "written (fst (acquire sha256 leases ended uid now ttl random))"
proof -
  have "lease_validate r = None \<and> ls_schema r = lease_schema" if "new_lease_state now ttl random = Inr r" for r
    using that assms(2,3) by (auto simp: new_lease_state_def lease_validate_def length_hex_encode hex_decode_encode split: if_splits option.splits)
  then show ?thesis
    using assms(1) by (auto simp: acquire_def written_def ran_def split: sum.splits option.splits if_splits)
qed

lemma written_release: "written leases \<Longrightarrow> written (fst (release leases ended lease))"
  by (auto simp: release_def written_def ran_def split: option.splits if_splits)

section \<open>Properties\<close>

text \<open>
  Quotas hold whatever the clock does: in every run of a limiter made by a constructor, with any
  instants in any order, no user is admitted more often in one UTC minute than the limit per minute,
  nor more often in one UTC day than the limit per day.
\<close>

theorem quotas_hold:
  assumes "new_memory_limiter l = Inr m \<or> new_memory_passkey_app_limiter l = Inr m"
  shows "int (run_count (consume_step sha256) (admitted sha256 i (\<lambda>t. minute_start t = w)) m calls) \<le> li_per_minute l
    \<and> int (run_count (consume_step sha256) (admitted sha256 i (\<lambda>t. day_start t = w)) m calls) \<le> li_per_day l"
proof -
  have m: "m = \<lparr>lm_limits = l, lm_counters = Map.empty\<rparr>" and l: "1 \<le> li_per_minute l" "1 \<le> li_per_day l"
    using assms by (auto simp: new_memory_limiter_def new_memory_passkey_app_limiter_def limits_validate_def
        limits_validate_passkey_def split: if_splits)
  show ?thesis
    using counts_always [OF l, of sha256 i calls] l unfolding m counts_ok_def Let_def by (auto split: option.splits)
qed

lemma quotas_hold_witness:
  "int (run_count (consume_step (\<lambda>_. ''d'')) (admitted (\<lambda>_. ''d'') (hex_encode ''d'') (\<lambda>t. minute_start t = 0))
     \<lparr>lm_limits = \<lparr>li_per_minute = 1, li_per_day = 2\<rparr>, lm_counters = Map.empty\<rparr>
     [\<lparr>cc_ended = False, cc_uid = ''u'', cc_now = 7\<rparr>, \<lparr>cc_ended = False, cc_uid = ''u'', cc_now = 9\<rparr>]) \<le> 1"
  using quotas_hold [of "\<lparr>li_per_minute = 1, li_per_day = 2\<rparr>" "\<lparr>lm_limits = \<lparr>li_per_minute = 1, li_per_day = 2\<rparr>, lm_counters = Map.empty\<rparr>",
      of "\<lambda>_. ''d''" "hex_encode ''d''" 0]
  by (simp add: new_memory_limiter_def limits_validate_def del: run_count.simps)

text \<open>
  One live connection per user: once a lease is granted, then as long as it is not over and its
  holder has not released it, in every run of other acquires and releases (late releases of earlier
  leases among them) it stays in place and every acquire for that user is refused.
\<close>

theorem live_lease_exclusive:
  assumes "acquire sha256 leases ended uid now ttl random = (leases1, Inr (i, h))"
    and "\<forall>call \<in> set calls. undisturbed sha256 i \<lparr>ls_holder = h, ls_expires = now + ttl, ls_schema = lease_schema\<rparr> call"
    and "user_document_id sha256 uid' = Inr i" "now' < now + ttl"
  shows "isl (snd (acquire sha256 (foldl (lease_step sha256) leases1 calls) ended' uid' now' ttl' random'))"
proof -
  have granted: "leases1 i = Some \<lparr>ls_holder = h, ls_expires = now + ttl, ls_schema = lease_schema\<rparr>"
    using assms(1) by (auto simp: acquire_def new_lease_state_def split: if_splits sum.splits option.splits prod.splits)
  have "foldl (lease_step sha256) leases1 calls i = Some \<lparr>ls_holder = h, ls_expires = now + ttl, ls_schema = lease_schema\<rparr>"
    by (rule leases_stay) (use granted assms(2) in auto)
  then show ?thesis using assms(3,4) by (intro acquire_held) auto
qed

lemma live_lease_exclusive_witness:
  "isl (snd (acquire (\<lambda>_. ''d'') (foldl (lease_step (\<lambda>_. ''d'')) [hex_encode ''d'' \<mapsto> \<lparr>ls_holder = hex_encode ''x'', ls_expires = 15, ls_schema = 1\<rparr>]
     [Release False (hex_encode ''d'', hex_encode ''y''), Acquire False ''u'' 7 10 (Some ''z'')]) False ''u'' 9 10 (Some ''w'')))"
proof -
  have trim: "trim_space ''u'' = ''u''" by code_simp
  have "acquire (\<lambda>_. ''d'') Map.empty False ''u'' 5 10 (Some ''x'')
    = ([hex_encode ''d'' \<mapsto> \<lparr>ls_holder = hex_encode ''x'', ls_expires = 15, ls_schema = 1\<rparr>], Inr (hex_encode ''d'', hex_encode ''x''))"
    by (simp add: acquire_def user_document_id_def trim new_lease_state_def const_simps)
  moreover have "hex_encode ''y'' \<noteq> hex_encode ''x''" by code_simp
  ultimately show ?thesis
    using live_lease_exclusive [of "\<lambda>_. ''d''" Map.empty False "''u''" 5 10 "Some ''x''" _ "hex_encode ''d''" "hex_encode ''x''"
      "[Release False (hex_encode ''d'', hex_encode ''y''), Acquire False ''u'' 7 10 (Some ''z'')]" "''u''" 9]
    by (simp add: undisturbed_def user_document_id_def trim const_simps)
qed

text \<open>
  The Firestore lease manager does what the in-memory one does: on leases that a manager wrote, an
  acquire and a release give the same answers, and the documents of the same leases.
\<close>

theorem firestore_leases_refine_memory:
  assumes "written leases"
  shows "fs_acquire sha256 (docs_of leases) False uid now ttl random
      = (docs_of (fst (acquire sha256 leases False uid now ttl random)), snd (acquire sha256 leases False uid now ttl random))
    \<and> fs_release (docs_of leases) False lease = (docs_of (fst (release leases False lease)), snd (release leases False lease))
    \<and> ((\<forall>b. random = Some b \<longrightarrow> length b = 32) \<and> now + ttl \<noteq> 0 \<longrightarrow> written (fst (acquire sha256 leases False uid now ttl random)))
    \<and> written (fst (release leases False lease))"
  using fs_acquire_agrees [OF assms] fs_release_agrees [OF assms] written_acquire [OF assms] written_release [OF assms] by blast

lemma firestore_leases_refine_memory_witness:
  "fs_release (docs_of Map.empty) False (''i'', ''h'') = (docs_of (fst (release Map.empty False (''i'', ''h''))), snd (release Map.empty False (''i'', ''h'')))"
  using firestore_leases_refine_memory [of Map.empty] by (simp add: written_def)

end
