(* ===== verification/MemoryConsent.thy ===== *)
theory MemoryConsent
  imports Go_Text
begin

text \<open>
  The stores of the long-term memory (\<open>internal/longmemory\<close>: \<open>memory_store.go\<close> and
  \<open>firestore_store.go\<close>): for each user a consent with a generation, at most one encrypted record
  sealed under that generation, and the capabilities already used.

  \<^item> \<open>store_ops\<close> is the interface \<open>Store\<close>: a record with one function per method, over any state. The
    two implementations are \<open>memory_ops\<close> (\<open>MemoryStore\<close>) and \<open>firestore_ops\<close> (\<open>FirestoreStore\<close>, on maps
    of documents; \<open>None\<close> is a document that \<open>DataTo\<close> cannot decode).
  \<^item> \<open>faults\<close> says what goes wrong in a call: the context has ended, the read of the settings or of the
    second document fails, the transaction does not commit (then nothing is written). Firestore
    documents other than those named do not change.
  \<^item> \<open>consent_store\<close> is the contract of the interface as a locale: what each operation does to the
    consent, the record kept and the capabilities used. Both stores provide it.
  \<^item> A generation counts changes of a consent, so it is an integer that does not wrap.

  The lemmas in the locale show that withdrawing consent is final for everything of the generations
  before, that a record read is one that was put under the present consent, and that a capability is
  used once; the last section compares the two stores.
\<close>

section \<open>Data\<close>

datatype lm_error = ErrInvalid | ErrDisabled | ErrStale | ErrNotFound | ErrReplay | ErrContext | ErrStore

record consent =
  co_enabled :: bool
  co_generation :: int

record lm_record =
  re_schema :: int
  re_generation :: int
  re_ciphertext :: string
  re_nonce :: string
  re_expires :: time

definition schema_version :: int where
  [const_simps]: "schema_version = 1"

definition default_ttl :: duration where
  [const_simps]: "default_ttl = 30 * 24 * hour"

definition context_capability_ttl :: duration where
  [const_simps]: "context_capability_ttl = 15 * minute"

definition valid_use_digest :: "string \<Rightarrow> bool" where
  "valid_use_digest v \<longleftrightarrow> (case hex_decode v of None \<Rightarrow> False | Some d \<Rightarrow> length d = 32 \<and> length v = 32 * 2)"

definition validate_record :: "lm_record \<Rightarrow> int \<Rightarrow> time \<Rightarrow> lm_error option" where
  "validate_record r g now =
     (if re_schema r \<noteq> schema_version \<or> re_generation r \<noteq> g \<or> g < 1 \<or> length (re_ciphertext r) = 0
        \<or> length (re_ciphertext r) > 4096 \<or> length (re_nonce r) \<noteq> 12 \<or> is_zero (re_expires r)
        \<or> \<not> re_expires r > now \<or> re_expires r > now + (default_ttl + minute)
      then Some ErrInvalid else None)"

record faults =
  fa_context :: bool
  fa_setting :: bool
  fa_document :: bool
  fa_commit :: bool

definition no_faults :: faults where
  "no_faults = \<lparr>fa_context = False, fa_setting = False, fa_document = False, fa_commit = False\<rparr>"

text \<open>The methods of \<open>Store\<close>.\<close>

record 's store_ops =
  st_status :: "'s \<Rightarrow> faults \<Rightarrow> string \<Rightarrow> (lm_error, consent) result"
  st_enable :: "'s \<Rightarrow> faults \<Rightarrow> string \<Rightarrow> time \<Rightarrow> 's \<times> (lm_error, consent) result"
  st_disable :: "'s \<Rightarrow> faults \<Rightarrow> string \<Rightarrow> time \<Rightarrow> 's \<times> lm_error option"
  st_put :: "'s \<Rightarrow> faults \<Rightarrow> string \<Rightarrow> int \<Rightarrow> lm_record \<Rightarrow> time \<Rightarrow> 's \<times> lm_error option"
  st_get :: "'s \<Rightarrow> faults \<Rightarrow> string \<Rightarrow> int \<Rightarrow> time \<Rightarrow> (lm_error, lm_record) result"
  st_get_current :: "'s \<Rightarrow> faults \<Rightarrow> string \<Rightarrow> time \<Rightarrow> (lm_error, consent \<times> lm_record) result"
  st_consume :: "'s \<Rightarrow> faults \<Rightarrow> string \<Rightarrow> int \<Rightarrow> string \<Rightarrow> time \<Rightarrow> time \<Rightarrow> 's \<times> lm_error option"

definition consume_args_ok :: "string \<Rightarrow> int \<Rightarrow> string \<Rightarrow> time \<Rightarrow> time \<Rightarrow> bool" where
  "consume_args_ok key g use expires now \<longleftrightarrow>
     \<not> (key = [] \<or> g < 1 \<or> \<not> valid_use_digest use \<or> \<not> expires > now \<or> expires > now + context_capability_ttl)"

section \<open>The memory store\<close>

record memory_entry =
  en_consent :: consent
  en_record :: "lm_record option"

record memory_store =
  me_entries :: "string \<rightharpoonup> memory_entry"
  me_uses :: "string \<rightharpoonup> time"

definition new_store :: memory_store where
  "new_store = \<lparr>me_entries = Map.empty, me_uses = Map.empty\<rparr>"

definition zero_consent :: consent where
  "zero_consent = \<lparr>co_enabled = False, co_generation = 0\<rparr>"

definition entry_of :: "memory_store \<Rightarrow> string \<Rightarrow> memory_entry" where
  "entry_of s key = (case me_entries s key of None \<Rightarrow> \<lparr>en_consent = zero_consent, en_record = None\<rparr> | Some e \<Rightarrow> e)"

definition set_entry :: "memory_store \<Rightarrow> string \<Rightarrow> memory_entry \<Rightarrow> memory_store" where
  "set_entry s key e = s\<lparr>me_entries := (me_entries s)(key \<mapsto> e)\<rparr>"

definition mem_consume :: "memory_store \<Rightarrow> faults \<Rightarrow> string \<Rightarrow> int \<Rightarrow> string \<Rightarrow> time \<Rightarrow> time \<Rightarrow> memory_store \<times> lm_error option" where
  "mem_consume s f key g use expires now =
     (if fa_context f then (s, Some ErrContext)
      else if \<not> consume_args_ok key g use expires now then (s, Some ErrInvalid)
      else
       (let c = en_consent (entry_of s key) in
        if \<not> co_enabled c then (s, Some ErrDisabled)
        else if co_generation c \<noteq> g then (s, Some ErrStale)
        else if me_uses s use \<noteq> None then (s, Some ErrReplay)
        else (s\<lparr>me_uses := (me_uses s)(use \<mapsto> expires)\<rparr>, None)))"

definition mem_status :: "memory_store \<Rightarrow> faults \<Rightarrow> string \<Rightarrow> (lm_error, consent) result" where
  "mem_status s f key =
     (if fa_context f then Inl ErrContext
      else case me_entries s key of None \<Rightarrow> Inr zero_consent | Some e \<Rightarrow> Inr (en_consent e))"

definition mem_enable :: "memory_store \<Rightarrow> faults \<Rightarrow> string \<Rightarrow> time \<Rightarrow> memory_store \<times> (lm_error, consent) result" where
  "mem_enable s f key now =
     (if fa_context f \<or> key = [] \<or> is_zero now then (s, Inl ErrInvalid)
      else
       (let e = entry_of s key; c = en_consent e in
        if \<not> co_enabled c then
         (let c' = \<lparr>co_enabled = True, co_generation = co_generation c + 1\<rparr> in
          (set_entry s key \<lparr>en_consent = c', en_record = None\<rparr>, Inr c'))
        else (s, Inr c)))"

definition mem_disable :: "memory_store \<Rightarrow> faults \<Rightarrow> string \<Rightarrow> time \<Rightarrow> memory_store \<times> lm_error option" where
  "mem_disable s f key now =
     (if fa_context f \<or> key = [] \<or> is_zero now then (s, Some ErrInvalid)
      else (set_entry s key \<lparr>en_consent = \<lparr>co_enabled = False, co_generation = co_generation (en_consent (entry_of s key)) + 1\<rparr>,
              en_record = None\<rparr>, None))"

definition mem_put :: "memory_store \<Rightarrow> faults \<Rightarrow> string \<Rightarrow> int \<Rightarrow> lm_record \<Rightarrow> time \<Rightarrow> memory_store \<times> lm_error option" where
  "mem_put s f key g r now =
     (if fa_context f then (s, Some ErrContext)
      else
       (let e = entry_of s key in
        if \<not> co_enabled (en_consent e) then (s, Some ErrDisabled)
        else if co_generation (en_consent e) \<noteq> g then (s, Some ErrStale)
        else if validate_record r g now \<noteq> None then (s, Some ErrInvalid)
        else (set_entry s key (e\<lparr>en_record := Some r\<rparr>), None)))"

definition mem_get_current :: "memory_store \<Rightarrow> faults \<Rightarrow> string \<Rightarrow> time \<Rightarrow> (lm_error, consent \<times> lm_record) result" where
  "mem_get_current s f key now =
     (if fa_context f then Inl ErrContext
      else
       (let e = entry_of s key in
        if \<not> co_enabled (en_consent e) then Inl ErrDisabled
        else case en_record e of
          None \<Rightarrow> Inl ErrNotFound
        | Some r \<Rightarrow>
          if \<not> re_expires r > now then Inl ErrNotFound
          else if validate_record r (co_generation (en_consent e)) now \<noteq> None then Inl ErrInvalid
          else Inr (en_consent e, r)))"

definition mem_get :: "memory_store \<Rightarrow> faults \<Rightarrow> string \<Rightarrow> int \<Rightarrow> time \<Rightarrow> (lm_error, lm_record) result" where
  "mem_get s f key g now =
     (case mem_get_current s f key now of
        Inl e \<Rightarrow> Inl e
      | Inr (c, r) \<Rightarrow> if co_generation c \<noteq> g then Inl ErrStale else Inr r)"

definition memory_ops :: "memory_store store_ops" where
  "memory_ops = \<lparr>st_status = mem_status, st_enable = mem_enable, st_disable = mem_disable, st_put = mem_put,
     st_get = mem_get, st_get_current = mem_get_current, st_consume = mem_consume\<rparr>"

section \<open>The Firestore store\<close>

record setting_document =
  sd_schema :: int
  sd_enabled :: bool
  sd_generation :: int
  sd_updated :: time

record record_document =
  rd_record :: lm_record
  rd_updated :: time

record use_document =
  ud_schema :: int
  ud_generation :: int
  ud_expires :: time
  ud_consumed :: time

record documents =
  do_settings :: "string \<rightharpoonup> setting_document option"
  do_records :: "string \<rightharpoonup> record_document option"
  do_uses :: "string \<rightharpoonup> use_document"

definition no_documents :: documents where
  "no_documents = \<lparr>do_settings = Map.empty, do_records = Map.empty, do_uses = Map.empty\<rparr>"

definition validate_setting :: "setting_document \<Rightarrow> lm_error option" where
  "validate_setting d =
     (if sd_schema d \<noteq> schema_version \<or> sd_generation d < 1 \<or> is_zero (sd_updated d) then Some ErrInvalid else None)"

text \<open>The read of a settings document with its checks: absent, failed or invalid, or the document.\<close>

definition read_setting :: "documents \<Rightarrow> faults \<Rightarrow> string \<Rightarrow> (lm_error, setting_document option) result" where
  "read_setting d f key =
     (if fa_setting f then Inl ErrStore
      else case do_settings d key of
        None \<Rightarrow> Inr None
      | Some None \<Rightarrow> Inl ErrInvalid
      | Some (Some doc) \<Rightarrow> if validate_setting doc \<noteq> None then Inl ErrInvalid else Inr (Some doc))"

definition fs_consume :: "documents \<Rightarrow> faults \<Rightarrow> string \<Rightarrow> int \<Rightarrow> string \<Rightarrow> time \<Rightarrow> time \<Rightarrow> documents \<times> lm_error option" where
  "fs_consume d f key g use expires now =
     (if \<not> consume_args_ok key g use expires now then (d, Some ErrInvalid)
      else case read_setting d f key of
        Inl e \<Rightarrow> (d, Some e)
      | Inr None \<Rightarrow> (d, Some ErrDisabled)
      | Inr (Some setting) \<Rightarrow>
        if \<not> sd_enabled setting then (d, Some ErrDisabled)
        else if sd_generation setting \<noteq> g then (d, Some ErrStale)
        else if fa_document f then (d, Some ErrStore)
        else if do_uses d use \<noteq> None then (d, Some ErrReplay)
        else if fa_commit f then (d, Some ErrStore)
        else (d\<lparr>do_uses := (do_uses d)(use \<mapsto> \<lparr>ud_schema = schema_version, ud_generation = g,
                ud_expires = expires, ud_consumed = now\<rparr>)\<rparr>, None))"

definition fs_status :: "documents \<Rightarrow> faults \<Rightarrow> string \<Rightarrow> (lm_error, consent) result" where
  "fs_status d f key =
     (case read_setting d f key of
        Inl e \<Rightarrow> Inl e
      | Inr None \<Rightarrow> Inr zero_consent
      | Inr (Some doc) \<Rightarrow> Inr \<lparr>co_enabled = sd_enabled doc, co_generation = sd_generation doc\<rparr>)"

definition fresh_setting :: setting_document where
  "fresh_setting = \<lparr>sd_schema = schema_version, sd_enabled = False, sd_generation = 0, sd_updated = 0\<rparr>"

text \<open>Both writes of a change of consent: the settings, and the deletion of the record.\<close>

definition write_consent :: "documents \<Rightarrow> string \<Rightarrow> setting_document \<Rightarrow> documents" where
  "write_consent d key doc = d\<lparr>do_settings := (do_settings d)(key \<mapsto> Some doc), do_records := (do_records d)(key := None)\<rparr>"

definition fs_enable :: "documents \<Rightarrow> faults \<Rightarrow> string \<Rightarrow> time \<Rightarrow> documents \<times> (lm_error, consent) result" where
  "fs_enable d f key now =
     (case read_setting d f key of
        Inl e \<Rightarrow> (d, Inl e)
      | Inr found \<Rightarrow>
         (let doc = (case found of None \<Rightarrow> fresh_setting | Some doc \<Rightarrow> doc);
              doc' = (if sd_enabled doc then doc
                else doc\<lparr>sd_generation := sd_generation doc + 1, sd_enabled := True, sd_updated := now\<rparr>) in
          if fa_commit f then (d, Inl ErrStore)
          else (if sd_enabled doc then d else write_consent d key doc',
            Inr \<lparr>co_enabled = sd_enabled doc', co_generation = sd_generation doc'\<rparr>)))"

definition fs_disable :: "documents \<Rightarrow> faults \<Rightarrow> string \<Rightarrow> time \<Rightarrow> documents \<times> lm_error option" where
  "fs_disable d f key now =
     (case read_setting d f key of
        Inl e \<Rightarrow> (d, Some e)
      | Inr found \<Rightarrow>
         (let doc = (case found of None \<Rightarrow> fresh_setting | Some doc \<Rightarrow> doc) in
          if fa_commit f then (d, Some ErrStore)
          else (write_consent d key (doc\<lparr>sd_generation := sd_generation doc + 1, sd_enabled := False, sd_updated := now\<rparr>), None)))"

definition fs_put :: "documents \<Rightarrow> faults \<Rightarrow> string \<Rightarrow> int \<Rightarrow> lm_record \<Rightarrow> time \<Rightarrow> documents \<times> lm_error option" where
  "fs_put d f key g r now =
     (if validate_record r g now \<noteq> None then (d, Some ErrInvalid)
      else case read_setting d f key of
        Inl e \<Rightarrow> (d, Some e)
      | Inr None \<Rightarrow> (d, Some ErrDisabled)
      | Inr (Some doc) \<Rightarrow>
        if \<not> sd_enabled doc then (d, Some ErrDisabled)
        else if sd_generation doc \<noteq> g then (d, Some ErrStale)
        else if fa_commit f then (d, Some ErrStore)
        else (d\<lparr>do_records := (do_records d)(key \<mapsto> Some \<lparr>rd_record = r, rd_updated = now\<rparr>)\<rparr>, None))"

definition fs_get_current :: "documents \<Rightarrow> faults \<Rightarrow> string \<Rightarrow> time \<Rightarrow> (lm_error, consent \<times> lm_record) result" where
  "fs_get_current d f key now =
     (case read_setting d f key of
        Inl e \<Rightarrow> Inl e
      | Inr None \<Rightarrow> Inl ErrDisabled
      | Inr (Some setting) \<Rightarrow>
        if \<not> sd_enabled setting then Inl ErrDisabled
        else if fa_document f then Inl ErrStore
        else case do_records d key of
          None \<Rightarrow> Inl ErrNotFound
        | Some None \<Rightarrow> Inl ErrInvalid
        | Some (Some doc) \<Rightarrow>
          if validate_record (rd_record doc) (sd_generation setting) now \<noteq> None then Inl ErrInvalid
          else if fa_commit f then Inl ErrStore
          else Inr (\<lparr>co_enabled = True, co_generation = sd_generation setting\<rparr>, rd_record doc))"

definition fs_get :: "documents \<Rightarrow> faults \<Rightarrow> string \<Rightarrow> int \<Rightarrow> time \<Rightarrow> (lm_error, lm_record) result" where
  "fs_get d f key g now =
     (case fs_get_current d f key now of
        Inl e \<Rightarrow> Inl e
      | Inr (c, r) \<Rightarrow> if co_generation c \<noteq> g then Inl ErrStale else Inr r)"

definition firestore_ops :: "documents store_ops" where
  "firestore_ops = \<lparr>st_status = fs_status, st_enable = fs_enable, st_disable = fs_disable, st_put = fs_put,
     st_get = fs_get, st_get_current = fs_get_current, st_consume = fs_consume\<rparr>"

section \<open>Runs and the contract of a store\<close>

datatype store_call = Enable faults string time | Disable faults string time
  | Put faults string int lm_record time | Consume faults string int string time time

fun store_step :: "'s store_ops \<Rightarrow> 's \<Rightarrow> store_call \<Rightarrow> 's" where
  "store_step S s (Enable f key now) = fst (st_enable S s f key now)"
| "store_step S s (Disable f key now) = fst (st_disable S s f key now)"
| "store_step S s (Put f key g r now) = fst (st_put S s f key g r now)"
| "store_step S s (Consume f key g use expires now) = fst (st_consume S s f key g use expires now)"

text \<open>The call that consumes the capability \<open>use\<close>.\<close>

fun consumes :: "'s store_ops \<Rightarrow> string \<Rightarrow> 's \<Rightarrow> store_call \<Rightarrow> bool" where
  "consumes S use s (Consume f key g use' expires now) \<longleftrightarrow> use' = use \<and> snd (st_consume S s f key g use' expires now) = None"
| "consumes S use s _ \<longleftrightarrow> False"

locale consent_store =
  fixes S :: "'s store_ops"
    and consent_of :: "'s \<Rightarrow> string \<Rightarrow> consent"
    and kept :: "'s \<Rightarrow> string \<Rightarrow> lm_record option"
    and used :: "'s \<Rightarrow> string \<Rightarrow> bool"
  assumes status_ok: "st_status S s f key = Inr c \<Longrightarrow> c = consent_of s key"
    and current_ok: "st_get_current S s f key now = Inr (c, r) \<Longrightarrow>
      co_enabled c \<and> c = consent_of s key \<and> kept s key = Some r \<and> validate_record r (co_generation c) now = None"
    and get_ok: "st_get S s f key g now = Inr r \<Longrightarrow> \<exists>c. st_get_current S s f key now = Inr (c, r) \<and> co_generation c = g"
    and enable_ok: "st_enable S s f key now = (s', y) \<Longrightarrow>
      s' = s \<or> consent_of s' = (consent_of s)(key := \<lparr>co_enabled = True, co_generation = co_generation (consent_of s key) + 1\<rparr>)
        \<and> kept s' = (kept s)(key := None) \<and> used s' = used s"
    and disable_ok: "st_disable S s f key now = (s', x) \<Longrightarrow>
      x \<noteq> None \<and> s' = s
      \<or> x = None \<and> consent_of s' = (consent_of s)(key := \<lparr>co_enabled = False, co_generation = co_generation (consent_of s key) + 1\<rparr>)
        \<and> kept s' = (kept s)(key := None) \<and> used s' = used s"
    and put_ok: "st_put S s f key g r now = (s', x) \<Longrightarrow>
      x \<noteq> None \<and> s' = s
      \<or> x = None \<and> consent_of s key = \<lparr>co_enabled = True, co_generation = g\<rparr> \<and> validate_record r g now = None
        \<and> consent_of s' = consent_of s \<and> kept s' = (kept s)(key \<mapsto> r) \<and> used s' = used s"
    and consume_ok: "st_consume S s f key g use expires now = (s', x) \<Longrightarrow>
      x \<noteq> None \<and> s' = s
      \<or> x = None \<and> consent_of s key = \<lparr>co_enabled = True, co_generation = g\<rparr> \<and> consume_args_ok key g use expires now \<and> \<not> used s use
        \<and> consent_of s' = consent_of s \<and> kept s' = kept s \<and> used s' = (used s)(use := True)"
begin

text \<open>What one call does to the consent, the record and the uses.\<close>

lemma step_effect:
  obtains (idle) "store_step S s call = s" "\<And>use. \<not> consumes S use s call"
  | (changed) key b where "consent_of (store_step S s call) = (consent_of s)(key := \<lparr>co_enabled = b, co_generation = co_generation (consent_of s key) + 1\<rparr>)"
      "kept (store_step S s call) = (kept s)(key := None)" "used (store_step S s call) = used s" "\<And>use. \<not> consumes S use s call"
  | (put) f key g r now where "call = Put f key g r now" "snd (st_put S s f key g r now) = None"
      "consent_of s key = \<lparr>co_enabled = True, co_generation = g\<rparr>" "validate_record r g now = None"
      "consent_of (store_step S s call) = consent_of s" "kept (store_step S s call) = (kept s)(key \<mapsto> r)" "used (store_step S s call) = used s"
      "\<And>use. \<not> consumes S use s call"
  | (consumed) u where "consent_of (store_step S s call) = consent_of s" "kept (store_step S s call) = kept s"
      "used (store_step S s call) = (used s)(u := True)" "\<not> used s u" "\<And>use. consumes S use s call \<longleftrightarrow> use = u"
proof (cases call)
  case (Enable f key now)
  obtain s' x where e: "st_enable S s f key now = (s', x)" by fastforce
  show ?thesis
  proof (cases "s' = s")
    case True
    then show ?thesis using e Enable by - (rule idle, simp_all)
  next
    case False
    then show ?thesis using enable_ok [OF e] e Enable by - (rule changed [of key True], simp_all)
  qed
next
  case (Disable f key now)
  obtain s' x where e: "st_disable S s f key now = (s', x)" by fastforce
  show ?thesis
  proof (cases x)
    case None
    then show ?thesis using disable_ok [OF e] e Disable by - (rule changed [of key False], simp_all)
  next
    case Some
    then show ?thesis using disable_ok [OF e] e Disable by - (rule idle, simp_all)
  qed
next
  case (Put f key g r now)
  obtain s' x where e: "st_put S s f key g r now = (s', x)" by fastforce
  show ?thesis
  proof (cases x)
    case None
    then show ?thesis using put_ok [OF e] e Put by - (rule put [of f key g r now], simp_all)
  next
    case Some
    then show ?thesis using put_ok [OF e] e Put by - (rule idle, simp_all)
  qed
next
  case (Consume f key g u t now)
  obtain s' x where e: "st_consume S s f key g u t now = (s', x)" by fastforce
  show ?thesis
  proof (cases x)
    case None
    then show ?thesis using consume_ok [OF e] e Consume by - (rule consumed [of u], auto)
  next
    case Some
    then show ?thesis using consume_ok [OF e] e Consume by - (rule idle, simp_all)
  qed
qed

lemma step_generation:
  "consent_of (store_step S s call) key = consent_of s key
    \<or> co_generation (consent_of (store_step S s call) key) = co_generation (consent_of s key) + 1"
  by (cases rule: step_effect [of s call]) auto

lemma step_generation_le: "co_generation (consent_of s key) \<le> co_generation (consent_of (store_step S s call) key)"
  using step_generation [of s call key] by auto

lemma generation_mono: "co_generation (consent_of s key) \<le> co_generation (consent_of (foldl (store_step S) s calls) key)"
  by (induction calls arbitrary: s) (auto intro: order_trans [OF step_generation_le])

text \<open>Nothing is admitted for a generation below the present one.\<close>

lemma below_refused:
  assumes "g < co_generation (consent_of s key)"
  shows "snd (st_put S s f key g r now) \<noteq> None" "snd (st_consume S s f key g use expires now) \<noteq> None"
    "isl (st_get S s f key g now)"
proof -
  show "snd (st_put S s f key g r now) \<noteq> None"
    using put_ok [of s f key g r now "fst (st_put S s f key g r now)" "snd (st_put S s f key g r now)"] assms by auto
  show "snd (st_consume S s f key g use expires now) \<noteq> None"
    using consume_ok [of s f key g use expires now "fst (st_consume S s f key g use expires now)" "snd (st_consume S s f key g use expires now)"]
      assms by auto
  show "isl (st_get S s f key g now)"
    using get_ok [of s f key g now] current_ok assms by (cases "st_get S s f key g now") fastforce+
qed

lemma disable_raises:
  "st_disable S s f key now = (s', None) \<Longrightarrow> co_generation (consent_of s key) < co_generation (consent_of s' key)"
  using disable_ok by fastforce

lemma withdrawal_final:
  assumes "st_disable S s f key now = (s', None)" "g \<le> co_generation (consent_of s key)"
  shows "snd (st_put S (foldl (store_step S) s' calls) f' key g r now') \<noteq> None"
    "snd (st_consume S (foldl (store_step S) s' calls) f' key g use expires now') \<noteq> None"
    "isl (st_get S (foldl (store_step S) s' calls) f' key g now')"
  using below_refused [of g "foldl (store_step S) s' calls" key] disable_raises [OF assms(1)] generation_mono [of s' key calls] assms(2)
  by (meson le_less_trans less_le_trans)+

text \<open>A record that is kept was put under the present consent.\<close>

lemma kept_was_put:
  assumes "kept s key = None" "kept (foldl (store_step S) s calls) key = Some r"
  shows "\<exists>pre f now g post. calls = pre @ Put f key g r now # post
    \<and> snd (st_put S (foldl (store_step S) s pre) f key g r now) = None
    \<and> consent_of (foldl (store_step S) s pre) key = \<lparr>co_enabled = True, co_generation = g\<rparr>
    \<and> consent_of (foldl (store_step S) s calls) key = \<lparr>co_enabled = True, co_generation = g\<rparr>"
  using assms(2)
proof (induction calls rule: rev_induct)
  case Nil
  then show ?case using assms(1) by simp
next
  case (snoc call calls)
  let ?s = "foldl (store_step S) s calls"
  have earlier: ?case if "kept ?s key = Some r" "consent_of (store_step S ?s call) key = consent_of ?s key"
    using snoc.IH [OF that(1)] that(2) by fastforce
  show ?case
  proof (cases rule: step_effect [of ?s call])
    case idle
    then show ?thesis using snoc.prems earlier by simp
  next
    case (changed key' b)
    then show ?thesis using snoc.prems earlier by (cases "key' = key") simp_all
  next
    case (put f key' g r' now)
    show ?thesis
    proof (cases "key' = key")
      case True
      then show ?thesis using snoc.prems put by fastforce
    next
      case False
      then show ?thesis using snoc.prems put earlier by simp
    qed
  next
    case (consumed u)
    then show ?thesis using snoc.prems earlier by simp
  qed
qed

end

sublocale consent_store \<subseteq> capability: one_shot "store_step S" "\<lambda>_. True" "consumes S" used
proof unfold_locales
  show "consumes S use s call \<Longrightarrow> \<not> used s use" for use s call by (cases rule: step_effect [of s call]) auto
  show "consumes S use s call \<Longrightarrow> used (store_step S s call) use" for use s call by (cases rule: step_effect [of s call]) auto
  show "used s use \<Longrightarrow> used (store_step S s call) use" for use s call by (cases rule: step_effect [of s call]) auto
qed simp

section \<open>Both stores provide the contract\<close>

definition memory_consent :: "memory_store \<Rightarrow> string \<Rightarrow> consent" where
  "memory_consent s key = en_consent (entry_of s key)"

definition memory_kept :: "memory_store \<Rightarrow> string \<Rightarrow> lm_record option" where
  "memory_kept s key = en_record (entry_of s key)"

definition memory_used :: "memory_store \<Rightarrow> string \<Rightarrow> bool" where
  "memory_used s use \<longleftrightarrow> me_uses s use \<noteq> None"

lemmas memory_views = memory_consent_def memory_kept_def memory_used_def

lemma entry_of_set [simp]: "entry_of (set_entry s key e) key' = (if key' = key then e else entry_of s key')"
  "me_uses (set_entry s key e) = me_uses s"
  by (simp_all add: entry_of_def set_entry_def)

lemma entry_of_uses [simp]: "entry_of (s\<lparr>me_uses := u\<rparr>) key = entry_of s key"
  by (simp add: entry_of_def)

lemma consent_eqI: "co_enabled c \<Longrightarrow> c = \<lparr>co_enabled = True, co_generation = co_generation c\<rparr>"
  by (cases c) simp

lemmas memory_ops_simps = memory_ops_def mem_status_def mem_enable_def mem_disable_def mem_put_def mem_get_def
  mem_get_current_def mem_consume_def

interpretation memory: consent_store memory_ops memory_consent memory_kept memory_used
proof unfold_locales
  fix s f key now s' x c r g use expires
  show "st_status memory_ops s f key = Inr c \<Longrightarrow> c = memory_consent s key"
    by (auto simp: memory_ops_simps memory_views entry_of_def split: if_splits option.splits)
  show "st_get_current memory_ops s f key now = Inr (c, r) \<Longrightarrow>
      co_enabled c \<and> c = memory_consent s key \<and> memory_kept s key = Some r \<and> validate_record r (co_generation c) now = None"
    by (auto simp: memory_ops_simps memory_views Let_def split: if_splits option.splits)
  show "st_get memory_ops s f key g now = Inr r \<Longrightarrow> \<exists>c. st_get_current memory_ops s f key now = Inr (c, r) \<and> co_generation c = g"
    by (auto simp: memory_ops_def mem_get_def split: sum.splits if_splits)
  show "st_enable memory_ops s f key now = (s', xe) \<Longrightarrow>
      s' = s \<or> memory_consent s' = (memory_consent s)(key := \<lparr>co_enabled = True, co_generation = co_generation (memory_consent s key) + 1\<rparr>)
        \<and> memory_kept s' = (memory_kept s)(key := None) \<and> memory_used s' = memory_used s" for xe
    by (auto simp: memory_ops_simps memory_views Let_def fun_eq_iff split: if_splits)
  show "st_disable memory_ops s f key now = (s', x) \<Longrightarrow>
      x \<noteq> None \<and> s' = s
      \<or> x = None \<and> memory_consent s' = (memory_consent s)(key := \<lparr>co_enabled = False, co_generation = co_generation (memory_consent s key) + 1\<rparr>)
        \<and> memory_kept s' = (memory_kept s)(key := None) \<and> memory_used s' = memory_used s"
    by (auto simp: memory_ops_simps memory_views Let_def fun_eq_iff split: if_splits)
  show "st_put memory_ops s f key g r now = (s', x) \<Longrightarrow>
      x \<noteq> None \<and> s' = s
      \<or> x = None \<and> memory_consent s key = \<lparr>co_enabled = True, co_generation = g\<rparr> \<and> validate_record r g now = None
        \<and> memory_consent s' = memory_consent s \<and> memory_kept s' = (memory_kept s)(key \<mapsto> r) \<and> memory_used s' = memory_used s"
    by (auto simp: memory_ops_simps memory_views Let_def fun_eq_iff dest: consent_eqI split: if_splits)
  show "st_consume memory_ops s f key g use expires now = (s', x) \<Longrightarrow>
      x \<noteq> None \<and> s' = s
      \<or> x = None \<and> memory_consent s key = \<lparr>co_enabled = True, co_generation = g\<rparr> \<and> consume_args_ok key g use expires now
        \<and> \<not> memory_used s use \<and> memory_consent s' = memory_consent s \<and> memory_kept s' = memory_kept s
        \<and> memory_used s' = (memory_used s)(use := True)"
    by (auto simp: memory_ops_simps memory_views Let_def fun_eq_iff dest: consent_eqI split: if_splits)
qed

definition fs_consent :: "documents \<Rightarrow> string \<Rightarrow> consent" where
  "fs_consent d key = (case do_settings d key of
     Some (Some doc) \<Rightarrow> \<lparr>co_enabled = sd_enabled doc, co_generation = sd_generation doc\<rparr> | _ \<Rightarrow> zero_consent)"

definition fs_kept :: "documents \<Rightarrow> string \<Rightarrow> lm_record option" where
  "fs_kept d key = (case do_records d key of Some (Some doc) \<Rightarrow> Some (rd_record doc) | _ \<Rightarrow> None)"

definition fs_used :: "documents \<Rightarrow> string \<Rightarrow> bool" where
  "fs_used d use \<longleftrightarrow> do_uses d use \<noteq> None"

lemmas fs_views = fs_consent_def fs_kept_def fs_used_def

lemmas firestore_ops_simps = firestore_ops_def fs_status_def fs_enable_def fs_disable_def fs_put_def fs_get_def
  fs_get_current_def fs_consume_def

lemma read_setting_consent:
  "read_setting d f key = Inr None \<Longrightarrow> fs_consent d key = zero_consent"
  "read_setting d f key = Inr (Some doc) \<Longrightarrow> fs_consent d key = \<lparr>co_enabled = sd_enabled doc, co_generation = sd_generation doc\<rparr>"
  by (auto simp: read_setting_def fs_consent_def split: if_splits option.splits)

lemma fs_views_write [simp]:
  "fs_consent (write_consent d key doc) = (fs_consent d)(key := \<lparr>co_enabled = sd_enabled doc, co_generation = sd_generation doc\<rparr>)"
  "fs_kept (write_consent d key doc) = (fs_kept d)(key := None)"
  "fs_used (write_consent d key doc) = fs_used d"
  "fs_consent (d\<lparr>do_records := rs\<rparr>) = fs_consent d" "fs_used (d\<lparr>do_records := rs\<rparr>) = fs_used d"
  "fs_kept (d\<lparr>do_records := (do_records d)(key \<mapsto> Some doc')\<rparr>) = (fs_kept d)(key \<mapsto> rd_record doc')"
  "fs_consent (d\<lparr>do_uses := us\<rparr>) = fs_consent d" "fs_kept (d\<lparr>do_uses := us\<rparr>) = fs_kept d"
  "fs_used (d\<lparr>do_uses := (do_uses d)(use \<mapsto> u)\<rparr>) = (fs_used d)(use := True)"
  by (auto simp: fs_views write_consent_def fun_eq_iff)

interpretation firestore: consent_store firestore_ops fs_consent fs_kept fs_used
proof unfold_locales
  fix s f key now s' x c r g use expires
  show "st_status firestore_ops s f key = Inr c \<Longrightarrow> c = fs_consent s key"
    by (auto simp: firestore_ops_simps read_setting_consent split: sum.splits option.splits)
  show "st_get_current firestore_ops s f key now = Inr (c, r) \<Longrightarrow>
      co_enabled c \<and> c = fs_consent s key \<and> fs_kept s key = Some r \<and> validate_record r (co_generation c) now = None"
    by (auto simp: firestore_ops_simps read_setting_consent fs_kept_def split: if_splits sum.splits option.splits)
  show "st_get firestore_ops s f key g now = Inr r \<Longrightarrow> \<exists>c. st_get_current firestore_ops s f key now = Inr (c, r) \<and> co_generation c = g"
    by (auto simp: firestore_ops_def fs_get_def split: sum.splits if_splits)
  show "st_enable firestore_ops s f key now = (s', xe) \<Longrightarrow>
      s' = s \<or> fs_consent s' = (fs_consent s)(key := \<lparr>co_enabled = True, co_generation = co_generation (fs_consent s key) + 1\<rparr>)
        \<and> fs_kept s' = (fs_kept s)(key := None) \<and> fs_used s' = fs_used s" for xe
    by (auto simp: firestore_ops_simps read_setting_consent Let_def fresh_setting_def zero_consent_def split: if_splits sum.splits option.splits)
  show "st_disable firestore_ops s f key now = (s', x) \<Longrightarrow>
      x \<noteq> None \<and> s' = s
      \<or> x = None \<and> fs_consent s' = (fs_consent s)(key := \<lparr>co_enabled = False, co_generation = co_generation (fs_consent s key) + 1\<rparr>)
        \<and> fs_kept s' = (fs_kept s)(key := None) \<and> fs_used s' = fs_used s"
    by (auto simp: firestore_ops_simps read_setting_consent Let_def fresh_setting_def zero_consent_def split: if_splits sum.splits option.splits)
  show "st_put firestore_ops s f key g r now = (s', x) \<Longrightarrow>
      x \<noteq> None \<and> s' = s
      \<or> x = None \<and> fs_consent s key = \<lparr>co_enabled = True, co_generation = g\<rparr> \<and> validate_record r g now = None
        \<and> fs_consent s' = fs_consent s \<and> fs_kept s' = (fs_kept s)(key \<mapsto> r) \<and> fs_used s' = fs_used s"
    by (auto simp: firestore_ops_simps read_setting_consent Let_def split: if_splits sum.splits option.splits)
  show "st_consume firestore_ops s f key g use expires now = (s', x) \<Longrightarrow>
      x \<noteq> None \<and> s' = s
      \<or> x = None \<and> fs_consent s key = \<lparr>co_enabled = True, co_generation = g\<rparr> \<and> consume_args_ok key g use expires now
        \<and> \<not> fs_used s use \<and> fs_consent s' = fs_consent s \<and> fs_kept s' = fs_kept s
        \<and> fs_used s' = (fs_used s)(use := True)"
    by (auto simp: firestore_ops_simps read_setting_consent fs_used_def Let_def split: if_splits sum.splits option.splits)
qed

section \<open>The two stores in step\<close>

definition documents_ok :: "documents \<Rightarrow> bool" where
  "documents_ok d \<longleftrightarrow> (\<forall>key x. do_settings d key = Some x \<longrightarrow> (\<exists>doc. x = Some doc \<and> validate_setting doc = None))
     \<and> (\<forall>key x. do_records d key = Some x \<longrightarrow> x \<noteq> None)
     \<and> (\<forall>key. do_settings d key = None \<longrightarrow> do_records d key = None)"

text \<open>The memory store with the contents of the documents.\<close>

definition memory_of :: "documents \<Rightarrow> memory_store" where
  "memory_of d = \<lparr>
     me_entries = (\<lambda>key. if do_settings d key = None then None else Some \<lparr>en_consent = fs_consent d key, en_record = fs_kept d key\<rparr>),
     me_uses = (\<lambda>use. map_option ud_expires (do_uses d use))\<rparr>"

text \<open>A call in which nothing goes wrong, for a key and an instant that are not empty, as the manager makes them.\<close>

fun plain_call :: "store_call \<Rightarrow> bool" where
  "plain_call (Enable f key now) \<longleftrightarrow> f = no_faults \<and> key \<noteq> [] \<and> now \<noteq> 0"
| "plain_call (Disable f key now) \<longleftrightarrow> f = no_faults \<and> key \<noteq> [] \<and> now \<noteq> 0"
| "plain_call (Put f key g r now) \<longleftrightarrow> f = no_faults"
| "plain_call (Consume f key g use expires now) \<longleftrightarrow> f = no_faults"

fun answer :: "'s store_ops \<Rightarrow> 's \<Rightarrow> store_call \<Rightarrow> lm_error option" where
  "answer S s (Enable f key now) = (case snd (st_enable S s f key now) of Inl e \<Rightarrow> Some e | Inr _ \<Rightarrow> None)"
| "answer S s (Disable f key now) = snd (st_disable S s f key now)"
| "answer S s (Put f key g r now) = snd (st_put S s f key g r now)"
| "answer S s (Consume f key g use expires now) = snd (st_consume S s f key g use expires now)"

lemma no_faults_simps [simp]: "\<not> fa_context no_faults" "\<not> fa_setting no_faults" "\<not> fa_document no_faults" "\<not> fa_commit no_faults"
  by (simp_all add: no_faults_def)

lemma read_setting_ok:
  assumes "documents_ok d"
  obtains (absent) "do_settings d key = None" "do_records d key = None" "read_setting d no_faults key = Inr None"
    | (found) doc where "do_settings d key = Some (Some doc)" "validate_setting doc = None" "read_setting d no_faults key = Inr (Some doc)"
  using assms by (cases "do_settings d key") (auto simp: documents_ok_def read_setting_def)

lemma entry_of_memory_of:
  "documents_ok d \<Longrightarrow> entry_of (memory_of d) key = \<lparr>en_consent = fs_consent d key, en_record = fs_kept d key\<rparr>"
  by (auto simp: entry_of_def memory_of_def fs_views documents_ok_def)

lemma memory_of_write:
  "memory_of (write_consent d key doc)
    = set_entry (memory_of d) key \<lparr>en_consent = \<lparr>co_enabled = sd_enabled doc, co_generation = sd_generation doc\<rparr>, en_record = None\<rparr>"
  by (auto simp: memory_of_def set_entry_def write_consent_def fs_views fun_eq_iff)

lemma documents_ok_write: "documents_ok d \<Longrightarrow> validate_setting doc = None \<Longrightarrow> documents_ok (write_consent d key doc)"
  by (auto simp: documents_ok_def write_consent_def)

lemma validate_setting_raised:
  "now \<noteq> 0 \<Longrightarrow> validate_setting doc = None \<or> doc = fresh_setting
    \<Longrightarrow> validate_setting (doc\<lparr>sd_generation := sd_generation doc + 1, sd_enabled := b, sd_updated := now\<rparr>) = None"
  by (auto simp: validate_setting_def fresh_setting_def const_simps split: if_splits)

lemma enable_agrees:
  assumes d: "documents_ok d" and "key \<noteq> []" "now \<noteq> 0"
  shows "mem_enable (memory_of d) no_faults key now
      = (memory_of (fst (fs_enable d no_faults key now)), snd (fs_enable d no_faults key now))
    \<and> documents_ok (fst (fs_enable d no_faults key now))"
  using assms
  by (cases rule: read_setting_ok [OF d, of key])
     (auto simp: mem_enable_def fs_enable_def entry_of_memory_of memory_of_write read_setting_consent Let_def
        zero_consent_def fresh_setting_def const_simps validate_setting_def
        intro!: documents_ok_write split: if_splits)

lemma disable_agrees:
  assumes d: "documents_ok d" and "key \<noteq> []" "now \<noteq> 0"
  shows "mem_disable (memory_of d) no_faults key now
      = (memory_of (fst (fs_disable d no_faults key now)), snd (fs_disable d no_faults key now))
    \<and> documents_ok (fst (fs_disable d no_faults key now))"
  using assms
  by (cases rule: read_setting_ok [OF d, of key])
     (auto simp: mem_disable_def fs_disable_def entry_of_memory_of memory_of_write read_setting_consent Let_def
        zero_consent_def fresh_setting_def const_simps validate_setting_def
        intro!: documents_ok_write split: if_splits)

lemma put_agrees:
  assumes d: "documents_ok d"
  shows "fst (mem_put (memory_of d) no_faults key g r now) = memory_of (fst (fs_put d no_faults key g r now))
    \<and> (snd (mem_put (memory_of d) no_faults key g r now) = None \<longleftrightarrow> snd (fs_put d no_faults key g r now) = None)
    \<and> (validate_record r g now = None \<longrightarrow> snd (mem_put (memory_of d) no_faults key g r now) = snd (fs_put d no_faults key g r now))
    \<and> documents_ok (fst (fs_put d no_faults key g r now))"
proof (cases rule: read_setting_ok [OF d, of key])
  case 1
  then show ?thesis using d by (auto simp: mem_put_def fs_put_def entry_of_memory_of read_setting_consent zero_consent_def Let_def)
next
  case (2 doc)
  have "set_entry (memory_of d) key \<lparr>en_consent = c, en_record = Some r\<rparr>
      = memory_of (d\<lparr>do_records := (do_records d)(key \<mapsto> Some \<lparr>rd_record = r, rd_updated = now\<rparr>)\<rparr>)" if "c = fs_consent d key" for c
    using 2 that by (auto simp: memory_of_def set_entry_def fun_eq_iff)
  moreover have "documents_ok (d\<lparr>do_records := (do_records d)(key \<mapsto> Some \<lparr>rd_record = r, rd_updated = now\<rparr>)\<rparr>)"
    using d 2 by (auto simp: documents_ok_def)
  ultimately show ?thesis
    using 2 d by (auto simp: mem_put_def fs_put_def entry_of_memory_of read_setting_consent Let_def)
qed

lemma consume_agrees:
  assumes d: "documents_ok d"
  shows "mem_consume (memory_of d) no_faults key g use expires now
      = (memory_of (fst (fs_consume d no_faults key g use expires now)), snd (fs_consume d no_faults key g use expires now))
    \<and> documents_ok (fst (fs_consume d no_faults key g use expires now))"
proof -
  have "memory_of d\<lparr>me_uses := (me_uses (memory_of d))(use \<mapsto> expires)\<rparr>
      = memory_of (d\<lparr>do_uses := (do_uses d)(use \<mapsto> u)\<rparr>)" if "ud_expires u = expires" for u
    using that by (auto simp: memory_of_def fs_views fun_eq_iff)
  moreover have "documents_ok (d\<lparr>do_uses := us\<rparr>)" for us using d by (simp add: documents_ok_def)
  moreover have "me_uses (memory_of d) use = None \<longleftrightarrow> do_uses d use = None" by (simp add: memory_of_def)
  ultimately show ?thesis
    using d by (cases rule: read_setting_ok [OF d, of key])
      (auto simp: mem_consume_def fs_consume_def entry_of_memory_of read_setting_consent zero_consent_def Let_def)
qed

lemma step_agrees:
  assumes "documents_ok d" "plain_call call"
  shows "documents_ok (store_step firestore_ops d call)
    \<and> memory_of (store_step firestore_ops d call) = store_step memory_ops (memory_of d) call
    \<and> (answer firestore_ops d call = None \<longleftrightarrow> answer memory_ops (memory_of d) call = None)"
  using assms enable_agrees [OF assms(1)] disable_agrees [OF assms(1)] put_agrees [OF assms(1)] consume_agrees [OF assms(1)]
  by (cases call) (simp_all add: memory_ops_def firestore_ops_def)

lemma run_agrees:
  assumes "documents_ok d" "\<forall>call \<in> set calls. plain_call call"
  shows "documents_ok (foldl (store_step firestore_ops) d calls)
    \<and> memory_of (foldl (store_step firestore_ops) d calls) = foldl (store_step memory_ops) (memory_of d) calls"
  using assms by (induction calls arbitrary: d) (auto simp: step_agrees)

lemma status_agrees: "documents_ok d \<Longrightarrow> mem_status (memory_of d) no_faults key = fs_status d no_faults key"
  by (cases rule: read_setting_ok [of d key])
     (auto simp: mem_status_def fs_status_def memory_of_def read_setting_consent)

text \<open>A record that is over is reported differently.\<close>

lemma current_agrees:
  assumes d: "documents_ok d"
  shows "fs_get_current d no_faults key now
    = (case fs_kept d key of
         Some r \<Rightarrow> if co_enabled (fs_consent d key) \<and> \<not> re_expires r > now then Inl ErrInvalid
           else mem_get_current (memory_of d) no_faults key now
       | None \<Rightarrow> mem_get_current (memory_of d) no_faults key now)"
proof -
  have c: "c = \<lparr>co_enabled = True, co_generation = co_generation c\<rparr>" if "co_enabled c" for c :: consent using that by (cases c) simp
  show ?thesis
  proof (cases rule: read_setting_ok [OF d, of key])
    case 1
    then show ?thesis using d
      by (simp add: mem_get_current_def fs_get_current_def entry_of_memory_of read_setting_consent zero_consent_def Let_def fs_kept_def)
  next
    case (2 doc)
    then show ?thesis using d c [of "fs_consent d key"]
      by (auto simp: mem_get_current_def fs_get_current_def entry_of_memory_of read_setting_consent Let_def fs_kept_def validate_record_def documents_ok_def
          split: option.splits)
  qed
qed

lemma documents_ok_empty: "documents_ok no_documents" "memory_of no_documents = new_store"
  by (auto simp: documents_ok_def no_documents_def memory_of_def new_store_def)

section \<open>Properties\<close>

text \<open>
  C30. Withdrawing consent is final. Once a \<open>DisableAndDelete\<close> of the Firestore store succeeded, then after
  every run of further calls, consents given again included, no record is accepted, no capability
  consumed and no record returned for the generation that was withdrawn or one before it.
\<close>

theorem withdrawal_is_final:
  assumes "st_disable firestore_ops d f key now = (d1, None)" and "g \<le> co_generation (fs_consent d key)"
    and "d2 = foldl (store_step firestore_ops) d1 calls"
  shows "snd (st_put firestore_ops d2 f' key g r now') \<noteq> None
    \<and> snd (st_consume firestore_ops d2 f' key g use expires now') \<noteq> None
    \<and> isl (st_get firestore_ops d2 f' key g now')"
  using firestore.withdrawal_final [OF assms(1,2)] assms(3) by blast

lemma withdrawal_is_final_witness:
  "isl (st_get firestore_ops (foldl (store_step firestore_ops) no_documents
     [Enable no_faults ''k'' 5, Disable no_faults ''k'' 6, Enable no_faults ''k'' 7]) no_faults ''k'' 1 8)"
proof -
  let ?d = "store_step firestore_ops no_documents (Enable no_faults ''k'' 5)"
  have "st_disable firestore_ops ?d no_faults ''k'' 6 = (store_step firestore_ops ?d (Disable no_faults ''k'' 6), None)"
    "co_generation (fs_consent ?d ''k'') = 1"
    by (simp_all add: firestore_ops_simps read_setting_def no_documents_def no_faults_def fresh_setting_def write_consent_def
        validate_setting_def fs_consent_def const_simps Let_def)
  from withdrawal_is_final [OF this(1) _ refl, of 1 "[Enable no_faults ''k'' 7]"] this(2) show ?thesis by simp
qed

text \<open>
  A memory that is read was stored under the consent in force: in every run from empty documents,
  what \<open>GetCurrent\<close> returns is a record that an earlier \<open>Put\<close> of the run stored for that user, and the
  consent was then what it is now, given and of the same generation; the record is valid at the
  instant of the read.
\<close>

theorem read_record_was_put:
  assumes "d = foldl (store_step firestore_ops) no_documents calls" and "st_get_current firestore_ops d f key now = Inr (c, r)"
  shows "c = \<lparr>co_enabled = True, co_generation = re_generation r\<rparr> \<and> now < re_expires r
    \<and> (\<exists>pre f' now' post. calls = pre @ Put f' key (re_generation r) r now' # post
        \<and> snd (st_put firestore_ops (foldl (store_step firestore_ops) no_documents pre) f' key (re_generation r) r now') = None
        \<and> fs_consent (foldl (store_step firestore_ops) no_documents pre) key = c)"
proof -
  note read = firestore.current_ok [OF assms(2)]
  then have c: "c = \<lparr>co_enabled = True, co_generation = re_generation r\<rparr>" "now < re_expires r"
    by (cases c; auto simp: validate_record_def split: if_splits)+
  have "fs_kept no_documents key = None" by (simp add: fs_kept_def no_documents_def)
  from firestore.kept_was_put [OF this, of calls r] read assms(1) c show ?thesis by fastforce
qed

lemma read_record_was_put_witness:
  "\<exists>pre f' now' post. [Enable no_faults ''k'' 5, Put no_faults ''k'' 1 \<lparr>re_schema = 1, re_generation = 1, re_ciphertext = ''c'',
      re_nonce = ''123456789012'', re_expires = 9\<rparr> 6] = pre @ Put f' ''k'' 1 \<lparr>re_schema = 1, re_generation = 1, re_ciphertext = ''c'',
      re_nonce = ''123456789012'', re_expires = 9\<rparr> now' # post"
proof -
  let ?r = "\<lparr>re_schema = 1, re_generation = 1, re_ciphertext = ''c'', re_nonce = ''123456789012'', re_expires = 9\<rparr>"
  let ?calls = "[Enable no_faults ''k'' 5, Put no_faults ''k'' 1 ?r 6]"
  have "st_get_current firestore_ops (foldl (store_step firestore_ops) no_documents ?calls) no_faults ''k'' 7
      = Inr (\<lparr>co_enabled = True, co_generation = 1\<rparr>, ?r)"
    by (simp add: firestore_ops_simps read_setting_def no_documents_def no_faults_def fresh_setting_def write_consent_def
        validate_setting_def validate_record_def const_simps Let_def)
  from read_record_was_put [OF refl this] show ?thesis by fastforce
qed

text \<open>
  A capability is consumed once: in every run of either store, from any state, faults included, at most one
  consumption of a use digest succeeds.
\<close>

theorem capability_used_once:
  "run_count (store_step memory_ops) (consumes memory_ops use) s calls \<le> 1
    \<and> run_count (store_step firestore_ops) (consumes firestore_ops use) d calls \<le> 1"
  using memory.capability.accepted_once [OF TrueI] firestore.capability.accepted_once [OF TrueI] by blast

text \<open>
  The two stores stay in step: over every run of calls without faults from empty documents the memory
  store holds the contents of the documents, every call is accepted by both or by neither, \<open>Status\<close>
  answers the same, and so does \<open>GetCurrent\<close>, except that a record whose time is over is \<open>ErrNotFound\<close>
  in memory and \<open>ErrInvalid\<close> on Firestore.
\<close>

theorem firestore_store_refines_memory:
  assumes "\<forall>call \<in> set (calls @ [call]). plain_call call"
    and "d = foldl (store_step firestore_ops) no_documents calls" and "s = foldl (store_step memory_ops) new_store calls"
  shows "memory_of d = s
    \<and> (answer firestore_ops d call = None \<longleftrightarrow> answer memory_ops s call = None)
    \<and> st_status firestore_ops d no_faults key = st_status memory_ops s no_faults key
    \<and> (st_get_current firestore_ops d no_faults key now = st_get_current memory_ops s no_faults key now
      \<or> (\<exists>r. memory_kept s key = Some r \<and> re_expires r \<le> now) \<and> st_get_current memory_ops s no_faults key now = Inl ErrNotFound
        \<and> st_get_current firestore_ops d no_faults key now = Inl ErrInvalid)"
proof -
  have d: "documents_ok d" "memory_of d = s"
    using run_agrees [OF documents_ok_empty(1), of calls] assms by (simp_all add: documents_ok_empty)
  have "answer firestore_ops d call = None \<longleftrightarrow> answer memory_ops s call = None"
    using step_agrees [OF d(1), of call] assms(1) d(2) by simp
  moreover have "st_status firestore_ops d no_faults key = st_status memory_ops s no_faults key"
    using status_agrees [OF d(1)] d(2) by (simp add: firestore_ops_def memory_ops_def)
  moreover have "memory_kept s key = fs_kept d key" "entry_of s key = \<lparr>en_consent = fs_consent d key, en_record = fs_kept d key\<rparr>"
    using entry_of_memory_of [OF d(1)] d(2) by (simp_all add: memory_kept_def)
  ultimately show ?thesis
    using current_agrees [OF d(1), of key now] d(2)
    by (auto simp: firestore_ops_def memory_ops_def mem_get_current_def Let_def split: option.splits if_splits)
qed

lemma firestore_store_refines_memory_witness:
  "st_status firestore_ops (foldl (store_step firestore_ops) no_documents [Enable no_faults ''k'' 5]) no_faults ''k''
    = st_status memory_ops (foldl (store_step memory_ops) new_store [Enable no_faults ''k'' 5]) no_faults ''k''"
  using firestore_store_refines_memory [OF _ refl refl, of "[Enable no_faults ''k'' 5]" "Disable no_faults ''k'' 6"] by simp

end
