(* ===== verification/LongMemory.thy ===== *)
theory LongMemory
  imports MemoryConsent
begin

text \<open>
  The long-term memory (\<open>internal/longmemory\<close>: \<open>longmemory.go\<close>, \<open>context_capability.go\<close> and
  \<open>session_context.go\<close>): a manager that seals a user's memory into the store, issues a capability
  for it, and exchanges a capability once for a session context that is opened without the store.

  \<^item> \<open>manager\<close> is \<open>Manager\<close> with its root key and the three derived keys; the store is an argument
    \<open>S :: 's store_ops\<close> with its state. A method that reads the clock or the random source takes the
    instants and the bytes as arguments (\<open>None\<close> where the source fails).
  \<^item> \<open>lm_env\<close> holds HMAC-SHA256, AES-GCM, the JSON texts of the three structs and the screen of
    \<open>privacyguard\<close>. \<open>env_ok\<close> states their documented behaviour: opening is the inverse of sealing, a text
    decodes to the struct it was encoded from, a MAC has 32 bytes.
  \<^item> Clearing secrets from memory has no effect on values and is left out; GCM's nonces have 12 bytes
    and its overhead is 16.

  The lemmas show what each method does where it succeeds; the properties follow a memory from
  \<open>Save\<close> to the session that opens it.
\<close>

section \<open>Data\<close>

record payload =
  pa_topics :: "string list"
  pa_preferences :: "string list"
  pa_open_loops :: "string list"

record context_envelope =
  ev_version :: int
  ev_uid :: string
  ev_app :: string
  ev_generation :: int
  ev_issued :: int
  ev_expires :: int
  ev_capability :: string
  ev_memory :: payload

record session_envelope =
  sv_version :: int
  sv_uid :: string
  sv_app :: string
  sv_generation :: int
  sv_issued :: int
  sv_expires :: int
  sv_session :: string
  sv_memory :: payload

record lm_env =
  le_hmac :: "string \<Rightarrow> string \<Rightarrow> string"
  le_seal :: "string \<Rightarrow> string \<Rightarrow> string \<Rightarrow> string \<Rightarrow> string"
  le_open :: "string \<Rightarrow> string \<Rightarrow> string \<Rightarrow> string \<Rightarrow> string option"
  le_payload_text :: "payload \<Rightarrow> string"
  le_payload_of :: "string \<Rightarrow> payload option"
  le_context_text :: "context_envelope \<Rightarrow> string"
  le_context_of :: "string \<Rightarrow> context_envelope option"
  le_session_text :: "session_envelope \<Rightarrow> string"
  le_session_of :: "string \<Rightarrow> session_envelope option"
  le_finding :: "string \<Rightarrow> bool"

record manager =
  mg_aead :: string
  mg_context_aead :: string
  mg_session_aead :: string
  mg_key :: string

definition max_items :: nat where [const_simps]: "max_items = 4"
definition max_item_runes :: nat where [const_simps]: "max_item_runes = 96"
definition max_plaintext :: nat where [const_simps]: "max_plaintext = 2048"
definition context_capability_prefix :: string where "context_capability_prefix = ''kmc1.''"
definition context_capability_id_bytes :: nat where [const_simps]: "context_capability_id_bytes = 16"
definition max_context_capability_bytes :: nat where [const_simps]: "max_context_capability_bytes = 4096"
definition max_context_plaintext :: nat where [const_simps]: "max_context_plaintext = 3072"
definition session_context_ttl :: duration where [const_simps]: "session_context_ttl = 15 * minute"
definition session_context_prefix :: string where "session_context_prefix = ''kms1.''"
definition session_context_id_bytes :: nat where [const_simps]: "session_context_id_bytes = 16"
definition max_session_context_bytes :: nat where [const_simps]: "max_session_context_bytes = 4096"
definition max_session_plaintext :: nat where [const_simps]: "max_session_plaintext = 3072"
definition nonce_size :: nat where [const_simps]: "nonce_size = 12"
definition aead_overhead :: nat where [const_simps]: "aead_overhead = 16"

text \<open>\<open>base64.RawURLEncoding.EncodedLen\<close>, \<open>time.Unix\<close> and \<open>Truncate(time.Second)\<close>.\<close>

definition encoded_len :: "nat \<Rightarrow> nat" where
  "encoded_len n = n div 3 * 4 + (n mod 3 * 8 + 5) div 6"

definition unix_time :: "int \<Rightarrow> time" where
  "unix_time sec = unix_epoch + sec * second"

definition truncate_second :: "time \<Rightarrow> time" where
  "truncate_second t = t - t mod second"

section \<open>Keys, texts and payloads\<close>

definition derive_key :: "lm_env \<Rightarrow> string \<Rightarrow> string \<Rightarrow> string" where
  "derive_key E root purpose = le_hmac E root purpose"

definition new_manager :: "lm_env \<Rightarrow> string \<Rightarrow> (lm_error, manager) result" where
  "new_manager E key =
     (if length key \<noteq> 32 then Inl ErrInvalid
      else Inr \<lparr>mg_aead = derive_key E key ''kotae-long-memory-aead-v1'',
        mg_context_aead = derive_key E key ''kotae-long-memory-context-capability-aead-v1'',
        mg_session_aead = derive_key E key ''kotae-long-memory-session-context-aead-v1'',
        mg_key = key\<rparr>)"

definition principal_key :: "lm_env \<Rightarrow> manager \<Rightarrow> string \<Rightarrow> (lm_error, string) result" where
  "principal_key E m uid =
     (let uid = trim_space uid in
      if uid = [] \<or> length uid > 256 \<or> \<not> utf8_valid uid then Inl ErrInvalid
      else Inr (hex_encode (le_hmac E (mg_key m) (''kotae-long-memory-principal-v1'' @ [CHR 0x00] @ uid))))"

definition aad :: "string \<Rightarrow> int \<Rightarrow> string" where
  "aad key g = ''kotae-long-memory-envelope-v1'' @ [CHR 0x00] @ key @ be_bytes 8 (word_of_int g :: 64 word)"

definition group_ok :: "lm_env \<Rightarrow> string list \<Rightarrow> bool" where
  "group_ok E items \<longleftrightarrow> \<not> length items > max_items
     \<and> (\<forall>v \<in> set items. let v = trim_space v in
          \<not> (v = [] \<or> \<not> utf8_valid v \<or> rune_count v > max_item_runes \<or> le_finding E v))"

definition validate_payload :: "lm_env \<Rightarrow> payload \<Rightarrow> lm_error option" where
  "validate_payload E p =
     (if length (pa_topics p) + length (pa_preferences p) + length (pa_open_loops p) = 0 then Some ErrInvalid
      else if list_all (group_ok E) [pa_topics p, pa_preferences p, pa_open_loops p] then None else Some ErrInvalid)"

definition app_id_key :: "lm_env \<Rightarrow> manager \<Rightarrow> string \<Rightarrow> string" where
  "app_id_key E m app = hex_encode (le_hmac E (mg_key m) (''kotae-long-memory-app-id-v1'' @ [CHR 0x00] @ trim_space app))"

definition capability_use_key :: "lm_env \<Rightarrow> manager \<Rightarrow> string \<Rightarrow> string \<Rightarrow> string \<Rightarrow> string" where
  "capability_use_key E m capability uid_digest app_digest =
     hex_encode (le_hmac E (mg_key m) (''kotae-long-memory-capability-use-v1'' @ [CHR 0x00]
       @ capability @ [CHR 0x00] @ uid_digest @ [CHR 0x00] @ app_digest))"

definition context_aad :: "string \<Rightarrow> string \<Rightarrow> string" where
  "context_aad uid_digest app_digest = ''kotae-long-memory-context-capability-v1'' @ [CHR 0x00] @ uid_digest @ [CHR 0x00] @ app_digest"

definition session_context_aad :: "string \<Rightarrow> string \<Rightarrow> string" where
  "session_context_aad uid_digest app_digest = ''kotae-long-memory-session-context-v1'' @ [CHR 0x00] @ uid_digest @ [CHR 0x00] @ app_digest"

definition valid_app_id :: "string \<Rightarrow> bool" where
  "valid_app_id app \<longleftrightarrow> (let app = trim_space app in app \<noteq> [] \<and> length app \<le> 512 \<and> utf8_valid app)"

section \<open>Save and load\<close>

definition manager_status :: "lm_env \<Rightarrow> manager \<Rightarrow> 's store_ops \<Rightarrow> 's \<Rightarrow> faults \<Rightarrow> string \<Rightarrow> (lm_error, consent) result" where
  "manager_status E m S s f uid = (case principal_key E m uid of Inl e \<Rightarrow> Inl e | Inr key \<Rightarrow> st_status S s f key)"

definition manager_enable :: "lm_env \<Rightarrow> manager \<Rightarrow> 's store_ops \<Rightarrow> 's \<Rightarrow> faults \<Rightarrow> string \<Rightarrow> time \<Rightarrow> 's \<times> (lm_error, consent) result" where
  "manager_enable E m S s f uid now = (case principal_key E m uid of Inl e \<Rightarrow> (s, Inl e) | Inr key \<Rightarrow> st_enable S s f key now)"

definition manager_disable :: "lm_env \<Rightarrow> manager \<Rightarrow> 's store_ops \<Rightarrow> 's \<Rightarrow> faults \<Rightarrow> string \<Rightarrow> time \<Rightarrow> 's \<times> lm_error option" where
  "manager_disable E m S s f uid now = (case principal_key E m uid of Inl e \<Rightarrow> (s, Some e) | Inr key \<Rightarrow> st_disable S s f key now)"

definition save :: "lm_env \<Rightarrow> manager \<Rightarrow> 's store_ops \<Rightarrow> 's \<Rightarrow> faults \<Rightarrow> string \<Rightarrow> int \<Rightarrow> payload \<Rightarrow> string option \<Rightarrow> time \<Rightarrow> time
    \<Rightarrow> 's \<times> lm_error option" where
  "save E m S s f uid g p random now now' =
     (if g < 1 \<or> validate_payload E p \<noteq> None then (s, Some ErrInvalid)
      else case principal_key E m uid of
        Inl e \<Rightarrow> (s, Some e)
      | Inr key \<Rightarrow>
         (let plaintext = le_payload_text E p in
          if length plaintext > max_plaintext then (s, Some ErrInvalid)
          else case random of
            None \<Rightarrow> (s, Some ErrInvalid)
          | Some nonce \<Rightarrow>
              st_put S s f key g
                \<lparr>re_schema = schema_version, re_generation = g, re_ciphertext = le_seal E (mg_aead m) nonce plaintext (aad key g),
                  re_nonce = nonce, re_expires = now + default_ttl\<rparr> now'))"

definition load :: "lm_env \<Rightarrow> manager \<Rightarrow> 's store_ops \<Rightarrow> 's \<Rightarrow> faults \<Rightarrow> string \<Rightarrow> int \<Rightarrow> time \<Rightarrow> (lm_error, payload) result" where
  "load E m S s f uid g now =
     (if g < 1 then Inl ErrInvalid
      else case principal_key E m uid of
        Inl e \<Rightarrow> Inl e
      | Inr key \<Rightarrow>
        case st_get S s f key g now of
          Inl e \<Rightarrow> Inl e
        | Inr r \<Rightarrow>
          if re_schema r \<noteq> schema_version \<or> re_generation r \<noteq> g \<or> length (re_nonce r) \<noteq> nonce_size \<or> length (re_ciphertext r) = 0
          then Inl ErrInvalid
          else case le_open E (mg_aead m) (re_nonce r) (re_ciphertext r) (aad key g) of
            None \<Rightarrow> Inl ErrInvalid
          | Some plaintext \<Rightarrow>
            if length plaintext > max_plaintext then Inl ErrInvalid
            else case le_payload_of E plaintext of
              None \<Rightarrow> Inl ErrInvalid
            | Some p \<Rightarrow> if validate_payload E p \<noteq> None then Inl ErrInvalid else Inr p)"

definition open_record :: "lm_env \<Rightarrow> manager \<Rightarrow> string \<Rightarrow> int \<Rightarrow> lm_record \<Rightarrow> time \<Rightarrow> (lm_error, payload) result" where
  "open_record E m key g r now =
     (if validate_record r g now \<noteq> None \<or> length (re_nonce r) \<noteq> nonce_size then Inl ErrInvalid
      else case le_open E (mg_aead m) (re_nonce r) (re_ciphertext r) (aad key g) of
        None \<Rightarrow> Inl ErrInvalid
      | Some plaintext \<Rightarrow>
        if length plaintext > max_plaintext then Inl ErrInvalid
        else case le_payload_of E plaintext of
          None \<Rightarrow> Inl ErrInvalid
        | Some p \<Rightarrow> if validate_payload E p \<noteq> None then Inl ErrInvalid else Inr p)"

section \<open>Capabilities\<close>

text \<open>The envelope of a new capability.\<close>

definition context_for :: "string \<Rightarrow> string \<Rightarrow> int \<Rightarrow> payload \<Rightarrow> string \<Rightarrow> time \<Rightarrow> context_envelope" where
  "context_for uid_digest app_digest g memory bytes now =
     (let issued = truncate_second now in
      \<lparr>ev_version = schema_version, ev_uid = uid_digest, ev_app = app_digest, ev_generation = g,
        ev_issued = unix_sec issued, ev_expires = unix_sec (issued + context_capability_ttl),
        ev_capability = b64_encode (take context_capability_id_bytes bytes), ev_memory = memory\<rparr>)"

definition begin_context :: "lm_env \<Rightarrow> manager \<Rightarrow> 's store_ops \<Rightarrow> 's \<Rightarrow> faults \<Rightarrow> string \<Rightarrow> string \<Rightarrow> string option \<Rightarrow> time
    \<Rightarrow> (lm_error, string \<times> bool) result" where
  "begin_context E m S s f uid app random now =
     (if \<not> valid_app_id app then Inl ErrInvalid
      else case principal_key E m uid of
        Inl e \<Rightarrow> Inl e
      | Inr uid_digest \<Rightarrow>
        case st_get_current S s f uid_digest now of
          Inl e \<Rightarrow> if e = ErrDisabled \<or> e = ErrNotFound then Inr ([], False) else Inl ErrInvalid
        | Inr (c, r) \<Rightarrow>
          if \<not> co_enabled c \<or> co_generation c < 1 then Inl ErrInvalid
          else case open_record E m uid_digest (co_generation c) r now of
            Inl e \<Rightarrow> Inl e
          | Inr memory \<Rightarrow>
             (let app_digest = app_id_key E m app in
              case random of
                None \<Rightarrow> Inl ErrInvalid
              | Some bytes \<Rightarrow>
                 (let plaintext = le_context_text E (context_for uid_digest app_digest (co_generation c) memory bytes now);
                      nonce = drop context_capability_id_bytes bytes;
                      token = context_capability_prefix
                        @ b64_encode (nonce @ le_seal E (mg_context_aead m) nonce plaintext (context_aad uid_digest app_digest)) in
                  if length plaintext > max_context_plaintext then Inl ErrInvalid
                  else if length token > max_context_capability_bytes then Inl ErrInvalid
                  else Inr (token, True))))"

definition validate_context_envelope :: "lm_env \<Rightarrow> context_envelope \<Rightarrow> string \<Rightarrow> string \<Rightarrow> time \<Rightarrow> lm_error option" where
  "validate_context_envelope E v uid_digest app_digest now =
     (case b64_decode (ev_capability v) of
        None \<Rightarrow> Some ErrInvalid
      | Some i \<Rightarrow>
        if length i \<noteq> context_capability_id_bytes \<or> ev_version v \<noteq> schema_version \<or> ev_uid v \<noteq> uid_digest \<or> ev_app v \<noteq> app_digest
          \<or> ev_generation v < 1 \<or> ev_issued v < 1
          \<or> wrap64 (ev_expires v - ev_issued v) \<noteq> context_capability_ttl div second
          \<or> unix_sec now < ev_issued v - 30 \<or> unix_sec now \<ge> ev_expires v
          \<or> validate_payload E (ev_memory v) \<noteq> None
        then Some ErrInvalid else None)"

definition decrypt_context_envelope :: "lm_env \<Rightarrow> manager \<Rightarrow> string \<Rightarrow> string \<Rightarrow> string \<Rightarrow> time \<Rightarrow> (lm_error, context_envelope) result" where
  "decrypt_context_envelope E m uid app token now =
     (if \<not> valid_app_id app \<or> \<not> prefix context_capability_prefix token \<or> length token > max_context_capability_bytes then Inl ErrInvalid
      else case principal_key E m uid of
        Inl e \<Rightarrow> Inl e
      | Inr uid_digest \<Rightarrow>
         (let app_digest = app_id_key E m app in
          case b64_decode (drop (length context_capability_prefix) token) of
            None \<Rightarrow> Inl ErrInvalid
          | Some raw \<Rightarrow>
            if length raw < nonce_size + aead_overhead + 2 then Inl ErrInvalid
            else case le_open E (mg_context_aead m) (take nonce_size raw) (drop nonce_size raw) (context_aad uid_digest app_digest) of
              None \<Rightarrow> Inl ErrInvalid
            | Some plaintext \<Rightarrow>
              if length plaintext > max_context_plaintext then Inl ErrInvalid
              else case le_context_of E plaintext of
                None \<Rightarrow> Inl ErrInvalid
              | Some v \<Rightarrow> if validate_context_envelope E v uid_digest app_digest now \<noteq> None then Inl ErrInvalid else Inr v))"

definition open_context :: "lm_env \<Rightarrow> manager \<Rightarrow> 's store_ops \<Rightarrow> 's \<Rightarrow> faults \<Rightarrow> string \<Rightarrow> string \<Rightarrow> string \<Rightarrow> time
    \<Rightarrow> (lm_error, payload \<times> int) result" where
  "open_context E m S s f uid app token now =
     (case decrypt_context_envelope E m uid app token now of
        Inl e \<Rightarrow> Inl e
      | Inr v \<Rightarrow>
        case manager_status E m S s f uid of
          Inl e \<Rightarrow> Inl e
        | Inr c \<Rightarrow>
          if \<not> co_enabled c then Inl ErrDisabled
          else if co_generation c \<noteq> ev_generation v then Inl ErrStale
          else Inr (ev_memory v, ev_generation v))"

definition consume_context :: "lm_env \<Rightarrow> manager \<Rightarrow> 's store_ops \<Rightarrow> 's \<Rightarrow> faults \<Rightarrow> string \<Rightarrow> string \<Rightarrow> string \<Rightarrow> time
    \<Rightarrow> 's \<times> (lm_error, payload \<times> int) result" where
  "consume_context E m S s f uid app token now =
     (case decrypt_context_envelope E m uid app token now of
        Inl e \<Rightarrow> (s, Inl e)
      | Inr v \<Rightarrow>
        case principal_key E m uid of
          Inl e \<Rightarrow> (s, Inl e)
        | Inr uid_digest \<Rightarrow>
          case st_consume S s f uid_digest (ev_generation v) (capability_use_key E m (ev_capability v) uid_digest (ev_app v))
              (unix_time (ev_expires v)) now of
            (s', Some e) \<Rightarrow> (s', Inl e)
          | (s', None) \<Rightarrow> (s', Inr (ev_memory v, ev_generation v)))"

section \<open>Session contexts\<close>

text \<open>The envelope of a new session for a capability.\<close>

definition session_for :: "string \<Rightarrow> context_envelope \<Rightarrow> string \<Rightarrow> time \<Rightarrow> session_envelope" where
  "session_for uid_digest v bytes now =
     (let issued = truncate_second now in
      \<lparr>sv_version = schema_version, sv_uid = uid_digest, sv_app = ev_app v, sv_generation = ev_generation v,
        sv_issued = unix_sec issued, sv_expires = unix_sec (issued + session_context_ttl),
        sv_session = b64_encode (take session_context_id_bytes bytes), sv_memory = ev_memory v\<rparr>)"

definition consume_session_context :: "lm_env \<Rightarrow> manager \<Rightarrow> 's store_ops \<Rightarrow> 's \<Rightarrow> faults \<Rightarrow> string \<Rightarrow> string \<Rightarrow> string \<Rightarrow> string option \<Rightarrow> time
    \<Rightarrow> 's \<times> (lm_error, string \<times> int) result" where
  "consume_session_context E m S s f uid app capability random now =
     (case decrypt_context_envelope E m uid app capability now of
        Inl e \<Rightarrow> (s, Inl e)
      | Inr v \<Rightarrow>
        case principal_key E m uid of
          Inl e \<Rightarrow> (s, Inl e)
        | Inr uid_digest \<Rightarrow>
           (case random of
              None \<Rightarrow> (s, Inl ErrInvalid)
            | Some bytes \<Rightarrow>
               (let plaintext = le_session_text E (session_for uid_digest v bytes now) in
                if length plaintext > max_session_plaintext then (s, Inl ErrInvalid)
                else if length session_context_prefix + encoded_len (nonce_size + length plaintext + aead_overhead) > max_session_context_bytes
                then (s, Inl ErrInvalid)
                else case st_consume S s f uid_digest (ev_generation v) (capability_use_key E m (ev_capability v) uid_digest (ev_app v))
                    (unix_time (ev_expires v)) now of
                  (s', Some e) \<Rightarrow> (s', Inl e)
                | (s', None) \<Rightarrow>
                   (let nonce = drop session_context_id_bytes bytes in
                    (s', Inr (session_context_prefix
                      @ b64_encode (nonce @ le_seal E (mg_session_aead m) nonce plaintext (session_context_aad uid_digest (ev_app v))),
                      session_context_ttl div second))))))"

definition validate_session_envelope :: "lm_env \<Rightarrow> session_envelope \<Rightarrow> string \<Rightarrow> string \<Rightarrow> time \<Rightarrow> lm_error option" where
  "validate_session_envelope E v uid_digest app_digest now =
     (case b64_decode (sv_session v) of
        None \<Rightarrow> Some ErrInvalid
      | Some i \<Rightarrow>
        if length i \<noteq> session_context_id_bytes \<or> sv_version v \<noteq> schema_version \<or> sv_uid v \<noteq> uid_digest \<or> sv_app v \<noteq> app_digest
          \<or> sv_generation v < 1 \<or> sv_issued v < 1
          \<or> wrap64 (sv_expires v - sv_issued v) \<noteq> session_context_ttl div second
          \<or> unix_sec now < sv_issued v - 30 \<or> unix_sec now \<ge> sv_expires v
          \<or> validate_payload E (sv_memory v) \<noteq> None
        then Some ErrInvalid else None)"

definition open_session_context :: "lm_env \<Rightarrow> manager \<Rightarrow> string \<Rightarrow> string \<Rightarrow> string \<Rightarrow> time \<Rightarrow> (lm_error, payload \<times> int) result" where
  "open_session_context E m uid app token now =
     (if \<not> valid_app_id app \<or> \<not> prefix session_context_prefix token \<or> length token > max_session_context_bytes then Inl ErrInvalid
      else case principal_key E m uid of
        Inl e \<Rightarrow> Inl e
      | Inr uid_digest \<Rightarrow>
         (let app_digest = app_id_key E m app in
          case b64_decode (drop (length session_context_prefix) token) of
            None \<Rightarrow> Inl ErrInvalid
          | Some raw \<Rightarrow>
            if length raw < nonce_size + aead_overhead + 2 then Inl ErrInvalid
            else case le_open E (mg_session_aead m) (take nonce_size raw) (drop nonce_size raw) (session_context_aad uid_digest app_digest) of
              None \<Rightarrow> Inl ErrInvalid
            | Some plaintext \<Rightarrow>
              if length plaintext > max_session_plaintext then Inl ErrInvalid
              else case le_session_of E plaintext of
                None \<Rightarrow> Inl ErrInvalid
              | Some v \<Rightarrow>
                if validate_session_envelope E v uid_digest app_digest now \<noteq> None then Inl ErrInvalid
                else Inr (sv_memory v, sv_generation v)))"

section \<open>What the environment does\<close>

definition ascii :: "string \<Rightarrow> bool" where
  "ascii s \<longleftrightarrow> (\<forall>c \<in> set s. byte c < 128)"

text \<open>
  The documented behaviour of HMAC-SHA256, AES-GCM and \<open>encoding/json\<close>. Opening accepts exactly what
  sealing gives; a struct whose strings are valid text and whose numbers are 64-bit integers is decoded from
  its text; decoded numbers are 64-bit integers and an object has at least its braces.
\<close>

definition env_ok :: "lm_env \<Rightarrow> bool" where
  "env_ok E \<longleftrightarrow> (\<forall>k t. length (le_hmac E k t) = 32)
     \<and> (\<forall>k n p a. le_open E k n (le_seal E k n p a) a = Some p \<and> length (le_seal E k n p a) = length p + 16)
     \<and> (\<forall>k n c a p. le_open E k n c a = Some p \<longrightarrow> c = le_seal E k n p a)
     \<and> (\<forall>p. validate_payload E p = None \<longrightarrow> le_payload_of E (le_payload_text E p) = Some p)
     \<and> (\<forall>v. validate_payload E (ev_memory v) = None \<and> ascii (ev_uid v) \<and> ascii (ev_app v) \<and> ascii (ev_capability v)
          \<and> (\<forall>i \<in> {ev_version v, ev_generation v, ev_issued v, ev_expires v}. in_i64 i) \<longrightarrow> le_context_of E (le_context_text E v) = Some v)
     \<and> (\<forall>v. validate_payload E (sv_memory v) = None \<and> ascii (sv_uid v) \<and> ascii (sv_app v) \<and> ascii (sv_session v)
          \<and> (\<forall>i \<in> {sv_version v, sv_generation v, sv_issued v, sv_expires v}. in_i64 i) \<longrightarrow> le_session_of E (le_session_text E v) = Some v)
     \<and> (\<forall>v. 2 \<le> length (le_session_text E v))
     \<and> (\<forall>t v. le_context_of E t = Some v \<longrightarrow> in_i64 (ev_issued v) \<and> in_i64 (ev_expires v))
     \<and> (\<forall>t v. le_session_of E t = Some v \<longrightarrow> in_i64 (sv_issued v) \<and> in_i64 (sv_expires v))"

lemma ascii_hex: "ascii (hex_encode t)"
proof -
  have "byte (hex_char n) < 128" if "n < 16" for n
    using less_16_cases [OF that] by (auto simp: hex_char_def hex_digits_def)
  then show ?thesis
    by (induction t) (auto simp: ascii_def byte_less less_mult_imp_div_less)
qed

lemma ascii_b64: "ascii (b64_encode t)"
proof -
  have "list_all (\<lambda>c. byte c < 128) b64_digits" by (simp add: b64_digits_def)
  then have "byte (b64_char n) < 128" if "n < 64" for n
    using that by (simp add: b64_char_def list_all_length b64_digits_def)
  then show ?thesis by (auto simp: ascii_def b64_encode_def dest: b64_sextets_less)
qed

lemma encoded_len_b64: "length (b64_encode t) = encoded_len (length t)"
proof -
  have "(4 * n + 2) div 3 = n div 3 * 4 + (n mod 3 * 8 + 5) div 6" for n :: nat by presburger
  then show ?thesis by (simp add: length_b64_encode encoded_len_def)
qed

lemma unix_sec_truncate: "unix_sec (truncate_second t) = unix_sec t"
  "unix_sec (truncate_second t + k * second) = unix_sec t + k"
proof -
  have e: "unix_epoch = 62135596800 * second" by (simp add: unix_epoch_def)
  have *: "(truncate_second t + k * second - unix_epoch) div second = (t - unix_epoch) div second + k" for k
    unfolding e truncate_second_def minus_mod_eq_div_mult by (simp add: left_diff_distrib [symmetric] distrib_right [symmetric] algebra_simps)
  from * [of k] show "unix_sec (truncate_second t + k * second) = unix_sec t + k" unfolding unix_sec_def .
  from * [of 0] show "unix_sec (truncate_second t) = unix_sec t" by (simp add: unix_sec_def)
qed

lemma unix_time_bounds: "unix_time (unix_sec t) \<le> t" "t < unix_time (unix_sec t + 1)"
  by (simp_all add: unix_time_def unix_sec_def minus_mod_eq_div_mult [symmetric] algebra_simps)

text \<open>The two lifetimes, where the subtraction of the check does not wrap.\<close>

lemma lifetime:
  assumes "in_i64 i" "in_i64 e" "wrap64 (e - i) = 900" "1 \<le> i" "i - 30 \<le> now" "now < e"
  shows "e = i + 900"
proof -
  have "(e - i + 2 ^ 63) mod 2 ^ 64 = 900 + 2 ^ 63" using assms(3) by (simp add: wrap64_def)
  then have "2 ^ 64 dvd (e - i + 2 ^ 63) - (900 + 2 ^ 63)" by (metis dvd_minus_mod)
  then obtain k where k: "e - i - 900 = 2 ^ 64 * k" by (auto elim!: dvdE simp: algebra_simps)
  have "e - i - 900 < 2 ^ 64" "- (2 ^ 64) < e - i - 900" using assms by (simp_all add: in_i64_def)
  then have "k = 0" unfolding k by (simp add: mult_less_cancel_left1) 
  then show ?thesis using k by simp
qed

section \<open>What the methods do where they succeed\<close>

lemma principal_key_Inr:
  "principal_key E m uid = Inr key \<Longrightarrow> \<exists>t. key = hex_encode t"
  by (auto simp: principal_key_def Let_def split: if_splits)

lemma save_None:
  assumes "save E m S s f uid g p (Some nonce) now now' = (s1, None)" "principal_key E m uid = Inr key"
  shows "1 \<le> g" "validate_payload E p = None" "length (le_payload_text E p) \<le> max_plaintext"
    "st_put S s f key g \<lparr>re_schema = schema_version, re_generation = g,
       re_ciphertext = le_seal E (mg_aead m) nonce (le_payload_text E p) (aad key g), re_nonce = nonce, re_expires = now + default_ttl\<rparr> now'
     = (s1, None)"
  using assms by (auto simp: save_def Let_def split: if_splits)

lemma begin_context_Inr:
  assumes "begin_context E m S s f uid app random now = Inr (token, True)"
  obtains uid_digest c r memory bytes where "valid_app_id app" "principal_key E m uid = Inr uid_digest"
    "st_get_current S s f uid_digest now = Inr (c, r)" "1 \<le> co_generation c"
    "open_record E m uid_digest (co_generation c) r now = Inr memory" "random = Some bytes"
    "token = context_capability_prefix @ b64_encode (drop 16 bytes @ le_seal E (mg_context_aead m) (drop 16 bytes)
       (le_context_text E (context_for uid_digest (app_id_key E m app) (co_generation c) memory bytes now))
       (context_aad uid_digest (app_id_key E m app)))"
  using assms that
  by (auto simp: begin_context_def Let_def context_capability_id_bytes_def split: if_splits sum.splits option.splits)

lemma decrypt_Inr:
  assumes "decrypt_context_envelope E m uid app token now = Inr v"
  obtains uid_digest raw plain where "valid_app_id app" "principal_key E m uid = Inr uid_digest" "prefix context_capability_prefix token"
    "b64_decode (drop (length context_capability_prefix) token) = Some raw"
    "le_open E (mg_context_aead m) (take 12 raw) (drop 12 raw) (context_aad uid_digest (app_id_key E m app)) = Some plain"
    "le_context_of E plain = Some v" "validate_context_envelope E v uid_digest (app_id_key E m app) now = None"
  using assms that
  by (auto simp: decrypt_context_envelope_def Let_def nonce_size_def split: if_splits sum.splits option.splits)

lemma validate_context_None:
  assumes "validate_context_envelope E v uid_digest app_digest now = None"
  shows "ev_uid v = uid_digest" "ev_app v = app_digest" "1 \<le> ev_generation v" "1 \<le> ev_issued v"
    "wrap64 (ev_expires v - ev_issued v) = 900" "ev_issued v - 30 \<le> unix_sec now" "unix_sec now < ev_expires v"
    "validate_payload E (ev_memory v) = None"
  using assms by (auto simp: validate_context_envelope_def context_capability_ttl_def split: if_splits option.splits)

lemma validate_session_None:
  assumes "validate_session_envelope E v uid_digest app_digest now = None"
  shows "sv_uid v = uid_digest" "sv_app v = app_digest" "1 \<le> sv_generation v" "1 \<le> sv_issued v"
    "wrap64 (sv_expires v - sv_issued v) = 900" "sv_issued v - 30 \<le> unix_sec now" "unix_sec now < sv_expires v"
    "validate_payload E (sv_memory v) = None"
  using assms by (auto simp: validate_session_envelope_def session_context_ttl_def split: if_splits option.splits)

lemma decrypt_expires:
  assumes "env_ok E" "decrypt_context_envelope E m uid app token now = Inr v"
  shows "ev_expires v = ev_issued v + 900" "1 \<le> ev_issued v" "ev_issued v - 30 \<le> unix_sec now"
proof -
  from decrypt_Inr [OF assms(2)] obtain plain uid_digest where
    v: "le_context_of E plain = Some v" "validate_context_envelope E v uid_digest (app_id_key E m app) now = None" by metis
  note c = validate_context_None [OF v(2)]
  have "in_i64 (ev_issued v)" "in_i64 (ev_expires v)" using assms(1) v(1) by (auto simp: env_ok_def)
  then show "ev_expires v = ev_issued v + 900" using c by (intro lifetime [of _ _ "unix_sec now"]) auto
  show "1 \<le> ev_issued v" "ev_issued v - 30 \<le> unix_sec now" using c by simp_all
qed

lemma context_for_simps [simp]:
  "ev_version (context_for u a g p bytes now) = 1" "ev_uid (context_for u a g p bytes now) = u" "ev_app (context_for u a g p bytes now) = a"
  "ev_generation (context_for u a g p bytes now) = g" "ev_issued (context_for u a g p bytes now) = unix_sec now"
  "ev_expires (context_for u a g p bytes now) = unix_sec now + 900" "ev_capability (context_for u a g p bytes now) = b64_encode (take 16 bytes)"
  "ev_memory (context_for u a g p bytes now) = p"
  using unix_sec_truncate(2) [of now 900]
  by (simp_all add: context_for_def Let_def const_simps unix_sec_truncate(1))

lemma session_for_simps [simp]:
  "sv_version (session_for u v bytes now) = 1" "sv_uid (session_for u v bytes now) = u" "sv_app (session_for u v bytes now) = ev_app v"
  "sv_generation (session_for u v bytes now) = ev_generation v" "sv_issued (session_for u v bytes now) = unix_sec now"
  "sv_expires (session_for u v bytes now) = unix_sec now + 900" "sv_session (session_for u v bytes now) = b64_encode (take 16 bytes)"
  "sv_memory (session_for u v bytes now) = ev_memory v"
  using unix_sec_truncate(2) [of now 900]
  by (simp_all add: session_for_def Let_def const_simps unix_sec_truncate(1))

text \<open>A capability decrypts to the envelope it was made from.\<close>

lemma decrypt_issued:
  assumes "env_ok E" and token: "token = context_capability_prefix @ b64_encode (nonce @ le_seal E (mg_context_aead m) nonce (le_context_text E v)
      (context_aad uid_digest (app_id_key E m app)))" "length nonce = 12"
    and "principal_key E m uid = Inr uid_digest" "le_context_of E (le_context_text E v) = Some v"
    and "decrypt_context_envelope E m uid app token now = Inr v'"
  shows "v' = v"
proof -
  have "b64_decode (drop (length context_capability_prefix) token)
      = Some (nonce @ le_seal E (mg_context_aead m) nonce (le_context_text E v) (context_aad uid_digest (app_id_key E m app)))"
    by (simp add: token)
  then show ?thesis using assms
    by (cases rule: decrypt_Inr [OF assms(6)]) (auto simp: env_ok_def)
qed

lemma session_Inr:
  assumes "consume_session_context E m S s f uid app capability random now = (s', Inr (session, secs))"
  obtains v uid_digest bytes where "decrypt_context_envelope E m uid app capability now = Inr v" "principal_key E m uid = Inr uid_digest"
    "random = Some bytes" "secs = 900"
    "st_consume S s f uid_digest (ev_generation v) (capability_use_key E m (ev_capability v) uid_digest (ev_app v)) (unix_time (ev_expires v)) now = (s', None)"
    "length (le_session_text E (session_for uid_digest v bytes now))
      \<le> max_session_plaintext"
    "length session_context_prefix + encoded_len (nonce_size + length (le_session_text E (session_for uid_digest v bytes now)) + aead_overhead) \<le> max_session_context_bytes"
    "session = session_context_prefix @ b64_encode (drop 16 bytes @ le_seal E (mg_session_aead m) (drop 16 bytes)
        (le_session_text E (session_for uid_digest v bytes now))
        (session_context_aad uid_digest (ev_app v)))"
  using assms that
  by (auto simp: consume_session_context_def Let_def session_context_id_bytes_def session_context_ttl_def
      split: if_splits sum.splits option.splits prod.splits)

lemma open_session_Inr:
  assumes "open_session_context E m uid app token now = Inr (p, g)"
  obtains uid_digest raw plain v where "principal_key E m uid = Inr uid_digest" "30 \<le> length raw"
    "prefix session_context_prefix token" "b64_decode (drop (length session_context_prefix) token) = Some raw"
    "le_open E (mg_session_aead m) (take 12 raw) (drop 12 raw) (session_context_aad uid_digest (app_id_key E m app)) = Some plain"
    "le_session_of E plain = Some v" "validate_session_envelope E v uid_digest (app_id_key E m app) now = None"
    "p = sv_memory v" "g = sv_generation v"
  using assms that
  by (auto simp: open_session_context_def Let_def nonce_size_def aead_overhead_def not_less split: if_splits sum.splits option.splits)

text \<open>A session context opens to the envelope it was made from.\<close>

lemma open_issued:
  assumes E: "env_ok E" and token: "token = session_context_prefix @ b64_encode (nonce @ le_seal E (mg_session_aead m) nonce (le_session_text E v)
      (session_context_aad uid_digest (app_id_key E m app)))" "length nonce = 12"
    and k: "principal_key E m uid = Inr uid_digest" "le_session_of E (le_session_text E v) = Some v" "valid_app_id app"
    and size: "length (le_session_text E v) \<le> max_session_plaintext"
      "length session_context_prefix + encoded_len (nonce_size + length (le_session_text E v) + aead_overhead) \<le> max_session_context_bytes"
    and v: "validate_session_envelope E v uid_digest (app_id_key E m app) now = None"
  shows "open_session_context E m uid app token now = Inr (sv_memory v, sv_generation v)"
proof -
  let ?raw = "nonce @ le_seal E (mg_session_aead m) nonce (le_session_text E v) (session_context_aad uid_digest (app_id_key E m app))"
  have raw: "b64_decode (drop (length session_context_prefix) token) = Some ?raw" "prefix session_context_prefix token"
    by (simp_all add: token)
  have len: "length ?raw = nonce_size + length (le_session_text E v) + aead_overhead" "2 \<le> length (le_session_text E v)"
    using E token(2) by (simp_all add: env_ok_def nonce_size_def aead_overhead_def)
  have "length token \<le> max_session_context_bytes" using size(2) by (simp add: token(1) encoded_len_b64 len(1) [simplified])
  moreover have "le_open E (mg_session_aead m) (take nonce_size ?raw) (drop nonce_size ?raw) (session_context_aad uid_digest (app_id_key E m app))
      = Some (le_session_text E v)"
    using E token(2) by (simp add: env_ok_def nonce_size_def)
  ultimately show ?thesis
    using raw k size(1) v len unfolding open_session_context_def Let_def by simp
qed

section \<open>A memory's way over a store\<close>

fun concerns :: "string \<Rightarrow> store_call \<Rightarrow> bool" where
  "concerns key (Enable f k now) \<longleftrightarrow> k = key"
| "concerns key (Disable f k now) \<longleftrightarrow> k = key"
| "concerns key (Put f k g r now) \<longleftrightarrow> k = key"
| "concerns key (Consume f k g use expires now) \<longleftrightarrow> False"

lemma open_record_sealed:
  assumes "env_ok E" "validate_payload E p = None"
    and "open_record E m key g \<lparr>re_schema = schema_version, re_generation = g, re_ciphertext = le_seal E (mg_aead m) nonce (le_payload_text E p) (aad key g),
      re_nonce = nonce, re_expires = t\<rparr> now = Inr memory"
  shows "memory = p"
  using assms by (auto simp: open_record_def env_ok_def split: if_splits option.splits)

context consent_store begin

lemma others_keep:
  assumes "\<not> concerns key call"
  shows "consent_of (store_step S s call) key = consent_of s key \<and> kept (store_step S s call) key = kept s key"
proof (cases call)
  case (Enable f k now)
  obtain s' x where e: "st_enable S s f k now = (s', x)" by fastforce
  show ?thesis using enable_ok [OF e] e Enable assms by auto
next
  case (Disable f k now)
  obtain s' x where e: "st_disable S s f k now = (s', x)" by fastforce
  show ?thesis using disable_ok [OF e] e Disable assms by auto
next
  case (Put f k g r now)
  obtain s' x where e: "st_put S s f k g r now = (s', x)" by fastforce
  show ?thesis using put_ok [OF e] e Put assms by auto
next
  case (Consume f k g u t now)
  obtain s' x where e: "st_consume S s f k g u t now = (s', x)" by fastforce
  show ?thesis using consume_ok [OF e] e Consume by auto
qed

lemma others_keep_run:
  "\<forall>call \<in> set calls. \<not> concerns key call \<Longrightarrow>
    consent_of (foldl (store_step S) s calls) key = consent_of s key \<and> kept (foldl (store_step S) s calls) key = kept s key"
  by (induction calls arbitrary: s) (auto simp: others_keep)

text \<open>What a capability carries after a save and calls for other users.\<close>

lemma saved_then_begun:
  assumes E: "env_ok E" and save: "save E m S s f uid g p (Some nonce) now now' = (s1, None)"
    and uid: "principal_key E m uid = Inr key" and other: "\<forall>call \<in> set calls. \<not> concerns key call"
    and begun: "begin_context E m S (foldl (store_step S) s1 calls) f2 uid app (Some b1) tb = Inr (token, True)"
  shows "token = context_capability_prefix @ b64_encode (drop 16 b1 @ le_seal E (mg_context_aead m) (drop 16 b1)
       (le_context_text E (context_for key (app_id_key E m app) g p b1 tb)) (context_aad key (app_id_key E m app)))
    \<and> valid_app_id app \<and> 1 \<le> g \<and> validate_payload E p = None"
proof -
  note saved = save_None [OF save uid]
  have put: "consent_of s1 key = \<lparr>co_enabled = True, co_generation = g\<rparr>"
    "kept s1 key = Some \<lparr>re_schema = schema_version, re_generation = g, re_ciphertext = le_seal E (mg_aead m) nonce (le_payload_text E p) (aad key g),
       re_nonce = nonce, re_expires = now + default_ttl\<rparr>"
    using put_ok [OF saved(4)] by auto
  from begin_context_Inr [OF begun] obtain c r memory where
    b: "valid_app_id app" "st_get_current S (foldl (store_step S) s1 calls) f2 key tb = Inr (c, r)" "open_record E m key (co_generation c) r tb = Inr memory"
      "token = context_capability_prefix @ b64_encode (drop 16 b1 @ le_seal E (mg_context_aead m) (drop 16 b1)
         (le_context_text E (context_for key (app_id_key E m app) (co_generation c) memory b1 tb)) (context_aad key (app_id_key E m app)))"
    using uid by (metis sum.inject(2) option.inject)
  have cr: "co_generation c = g" "r = \<lparr>re_schema = schema_version, re_generation = g,
       re_ciphertext = le_seal E (mg_aead m) nonce (le_payload_text E p) (aad key g), re_nonce = nonce, re_expires = now + default_ttl\<rparr>"
    using current_ok [OF b(2)] others_keep_run [OF other, of s1] put by auto
  have "memory = p" using open_record_sealed [OF E saved(2)] b(3) unfolding cr by blast
  then show ?thesis using b(1,4) saved(1,2) cr(1) by simp
qed

text \<open>What a session opens after that.\<close>

lemma saved_reaches_session:
  assumes E: "env_ok E" and save: "save E m S s f uid g p (Some nonce) now now' = (s1, None)" and g: "in_i64 g"
    and uid: "principal_key E m uid = Inr key" and other: "\<forall>call \<in> set calls. \<not> concerns key call"
    and begun: "begin_context E m S (foldl (store_step S) s1 calls) f2 uid app (Some b1) tb = Inr (token, True)" "length b1 = 28"
    and session: "consume_session_context E m S s2 f3 uid app token (Some b2) tc = (s3, Inr (session, secs))" "length b2 = 28"
    and times: "0 \<le> unix_sec tb" "unix_sec tb < 2 ^ 62" "unix_sec tc < 2 ^ 62" "unix_sec tc - 30 \<le> unix_sec t" "unix_sec t < unix_sec tc + 900"
  shows "open_session_context E m uid app session t = Inr (p, g) \<and> secs = 900"
proof -
  let ?v = "context_for key (app_id_key E m app) g p b1 tb"
  note b = saved_then_begun [OF E save uid other begun(1)]
  have key: "ascii key" using principal_key_Inr [OF uid] ascii_hex by auto
  have i64: "in_i64 g" "in_i64 (unix_sec tb)" "in_i64 (unix_sec tb + 900)" "in_i64 1" using g times by (simp_all add: in_i64_def)
  have ctx: "le_context_of E (le_context_text E ?v) = Some ?v"
    using E b key i64 unfolding env_ok_def by (auto simp: app_id_key_def ascii_hex ascii_b64)
  from session_Inr [OF session(1)] obtain v where c: "decrypt_context_envelope E m uid app token tc = Inr v" "secs = 900"
      "st_consume S s2 f3 key (ev_generation v) (capability_use_key E m (ev_capability v) key (ev_app v)) (unix_time (ev_expires v)) tc = (s3, None)"
      "length (le_session_text E (session_for key v b2 tc)) \<le> max_session_plaintext"
      "length session_context_prefix + encoded_len (nonce_size + length (le_session_text E (session_for key v b2 tc)) + aead_overhead) \<le> max_session_context_bytes"
      "session = session_context_prefix @ b64_encode (drop 16 b2 @ le_seal E (mg_session_aead m) (drop 16 b2)
        (le_session_text E (session_for key v b2 tc)) (session_context_aad key (ev_app v)))"
    using uid by (metis sum.inject(2) option.inject)
  have v: "v = ?v" using decrypt_issued [OF E _ _ uid ctx c(1)] b begun(2) by simp
  have "unix_sec tb + 900 \<le> unix_sec tc + 900" if "unix_time (unix_sec tb + 900) \<le> tc + context_capability_ttl"
    using that unix_time_bounds(2) [of tc] by (simp add: unix_time_def context_capability_ttl_def algebra_simps)
  then have le: "unix_sec tb \<le> unix_sec tc"
    using consume_ok [OF c(3)] v by (simp add: consume_args_ok_def)
  have "1 \<le> unix_sec tb" using decrypt_expires(2) [OF E c(1)] v by simp
  then have valid: "validate_session_envelope E (session_for key v b2 tc) key (app_id_key E m app) t = None"
    using b session(2) times le i64 unfolding v
    by (simp add: validate_session_envelope_def const_simps wrap64_id in_i64_def)
  have ses: "le_session_of E (le_session_text E (session_for key v b2 tc)) = Some (session_for key v b2 tc)"
    using E b key i64 times le unfolding env_ok_def v by (auto simp: app_id_key_def ascii_hex ascii_b64 in_i64_def)
  have len: "length (drop 16 b2) = 12" using session(2) by simp
  have "open_session_context E m uid app session t = Inr (sv_memory (session_for key v b2 tc), sv_generation (session_for key v b2 tc))"
    by (rule open_issued [OF E _ len uid ses _ c(4,5) valid]) (use c(6) v b in simp_all)
  then show ?thesis using c(2) v by simp
qed

end

section \<open>Runs of the manager\<close>

datatype manager_call = CallEnable faults string time | CallDisable faults string time
  | CallSave faults string int payload "string option" time time
  | CallConsume faults string string string time
  | CallSession faults string string string "string option" time

fun manager_step :: "lm_env \<Rightarrow> manager \<Rightarrow> 's store_ops \<Rightarrow> 's \<Rightarrow> manager_call \<Rightarrow> 's" where
  "manager_step E m S s (CallEnable f uid now) = fst (manager_enable E m S s f uid now)"
| "manager_step E m S s (CallDisable f uid now) = fst (manager_disable E m S s f uid now)"
| "manager_step E m S s (CallSave f uid g p random now now') = fst (save E m S s f uid g p random now now')"
| "manager_step E m S s (CallConsume f uid app token now) = fst (consume_context E m S s f uid app token now)"
| "manager_step E m S s (CallSession f uid app token random now) = fst (consume_session_context E m S s f uid app token random now)"

text \<open>The use that a capability stands for: the same for every token with its identifier, user and application.\<close>

definition use_of :: "lm_env \<Rightarrow> manager \<Rightarrow> string \<Rightarrow> string \<Rightarrow> string \<Rightarrow> time \<Rightarrow> string option" where
  "use_of E m uid app token now =
     (case (decrypt_context_envelope E m uid app token now, principal_key E m uid) of
        (Inr v, Inr uid_digest) \<Rightarrow> Some (capability_use_key E m (ev_capability v) uid_digest (ev_app v))
      | _ \<Rightarrow> None)"

fun redeems :: "lm_env \<Rightarrow> manager \<Rightarrow> 's store_ops \<Rightarrow> string \<Rightarrow> 's \<Rightarrow> manager_call \<Rightarrow> bool" where
  "redeems E m S use s (CallConsume f uid app token now) \<longleftrightarrow>
     use_of E m uid app token now = Some use \<and> \<not> isl (snd (consume_context E m S s f uid app token now))"
| "redeems E m S use s (CallSession f uid app token random now) \<longleftrightarrow>
     use_of E m uid app token now = Some use \<and> \<not> isl (snd (consume_session_context E m S s f uid app token random now))"
| "redeems E m S use s _ \<longleftrightarrow> False"

lemma consume_context_cases:
  obtains (refused) e where "consume_context E m S s f uid app token now = (s, Inl e)"
  | (asked) key g use expires where "use_of E m uid app token now = Some use"
      "fst (consume_context E m S s f uid app token now) = store_step S s (Consume f key g use expires now)"
      "isl (snd (consume_context E m S s f uid app token now)) \<longleftrightarrow> snd (st_consume S s f key g use expires now) \<noteq> None"
proof (cases "decrypt_context_envelope E m uid app token now")
  case (Inl e)
  then show ?thesis using refused by (simp add: consume_context_def)
next
  case (Inr v)
  then obtain key where "principal_key E m uid = Inr key" by (auto elim: decrypt_Inr)
  then show ?thesis using Inr
    by (intro asked [of _ key "ev_generation v" "unix_time (ev_expires v)"])
       (auto simp: use_of_def consume_context_def split: prod.splits option.splits)
qed

lemma session_context_cases:
  obtains (refused) e where "consume_session_context E m S s f uid app token random now = (s, Inl e)"
  | (asked) key g use expires where "use_of E m uid app token now = Some use"
      "fst (consume_session_context E m S s f uid app token random now) = store_step S s (Consume f key g use expires now)"
      "isl (snd (consume_session_context E m S s f uid app token random now)) \<longleftrightarrow> snd (st_consume S s f key g use expires now) \<noteq> None"
proof (cases "decrypt_context_envelope E m uid app token now")
  case (Inl e)
  then show ?thesis using refused by (simp add: consume_session_context_def)
next
  case (Inr v)
  then obtain key where key: "principal_key E m uid = Inr key" by (auto elim: decrypt_Inr)
  show ?thesis
  proof (cases "\<exists>e. consume_session_context E m S s f uid app token random now = (s, Inl e)")
    case True
    then show ?thesis using refused by blast
  next
    case False
    then show ?thesis using Inr key
      by (intro asked [of _ key "ev_generation v" "unix_time (ev_expires v)"])
         (auto simp: use_of_def consume_session_context_def Let_def split: prod.splits option.splits if_splits)
  qed
qed

lemma manager_save_cases:
  "fst (save E m S s f uid g p random now now') = s
    \<or> (\<exists>key r. fst (save E m S s f uid g p random now now') = store_step S s (Put f key g r now'))"
  by (auto simp: save_def Let_def split: sum.splits option.splits)

text \<open>A call of the manager is a call of the store or idle, and a redemption is a consumption.\<close>

lemma manager_step_cases:
  obtains (idle) "manager_step E m S s call = s" "\<And>use. \<not> redeems E m S use s call"
  | (store) c where "manager_step E m S s call = store_step S s c" "\<And>use. redeems E m S use s call \<Longrightarrow> consumes S use s c"
proof (cases call)
  case (CallEnable f uid now)
  show ?thesis
  proof (cases "principal_key E m uid")
    case (Inl e)
    then show ?thesis using CallEnable by - (rule idle, simp_all add: manager_enable_def)
  next
    case (Inr key)
    then show ?thesis using CallEnable by - (rule store [of "Enable f key now"], simp_all add: manager_enable_def)
  qed
next
  case (CallDisable f uid now)
  show ?thesis
  proof (cases "principal_key E m uid")
    case (Inl e)
    then show ?thesis using CallDisable by - (rule idle, simp_all add: manager_disable_def)
  next
    case (Inr key)
    then show ?thesis using CallDisable by - (rule store [of "Disable f key now"], simp_all add: manager_disable_def)
  qed
next
  case (CallSave f uid g p random now now')
  from manager_save_cases [of E m S s f uid g p random now now']
  consider "fst (save E m S s f uid g p random now now') = s"
    | key r where "fst (save E m S s f uid g p random now now') = store_step S s (Put f key g r now')"
    by blast
  then show ?thesis
  proof cases
    case 1
    then show ?thesis using CallSave by - (rule idle, simp_all)
  next
    case (2 key r)
    then show ?thesis using CallSave by - (rule store [of "Put f key g r now'"], simp_all)
  qed
next
  case (CallConsume f uid app token now)
  show ?thesis
  proof (cases rule: consume_context_cases [of E m S s f uid app token now])
    case (refused e)
    then show ?thesis using CallConsume by - (rule idle, simp_all)
  next
    case (asked key g use expires)
    then show ?thesis using CallConsume by - (rule store [of "Consume f key g use expires now"], auto)
  qed
next
  case (CallSession f uid app token random now)
  show ?thesis
  proof (cases rule: session_context_cases [of E m S s f uid app token random now])
    case (refused e)
    then show ?thesis using CallSession by - (rule idle, simp_all)
  next
    case (asked key g use expires)
    then show ?thesis using CallSession by - (rule store [of "Consume f key g use expires now"], auto)
  qed
qed

sublocale consent_store \<subseteq> redemption: one_shot "manager_step E m S" "\<lambda>_. True" "redeems E m S" used for E m
proof unfold_locales
  show "redeems E m S use s call \<Longrightarrow> \<not> used s use" for use s call
    by (cases rule: manager_step_cases [of E m S s call]) (auto dest: capability.accept_fresh [OF TrueI])
  show "redeems E m S use s call \<Longrightarrow> used (manager_step E m S s call) use" for use s call
    by (cases rule: manager_step_cases [of E m S s call]) (auto dest: capability.accept_spends [OF TrueI])
  show "used s use \<Longrightarrow> used (manager_step E m S s call) use" for use s call
    by (cases rule: manager_step_cases [of E m S s call]) (auto dest: capability.spent_stays [OF TrueI])
qed simp

section \<open>An instance of the environment\<close>

text \<open>
  A text for a list of strings from which they can be read back, and texts of the structs made of
  it. They stand for \<open>encoding/json\<close> where a property is applied to concrete values.
\<close>

definition field :: "string \<Rightarrow> string" where
  "field s = concat (List.map (\<lambda>c. [CHR ''c'', c]) s) @ ''e''"

definition fields :: "string list \<Rightarrow> string" where
  "fields xs = concat (List.map field xs)"

lemma field_append: "field s @ r = field t @ r' \<longleftrightarrow> s = t \<and> r = r'"
proof (induction s arbitrary: t)
  case Nil
  then show ?case by (cases t) (auto simp: field_def)
next
  case (Cons c s)
  then show ?case by (cases t) (auto simp: field_def)
qed

lemma fields_eq: "fields xs = fields ys \<longleftrightarrow> xs = ys"
proof (induction xs arbitrary: ys)
  case Nil
  then show ?case by (cases ys) (auto simp: fields_def field_def)
next
  case (Cons x xs)
  then show ?case by (cases ys) (auto simp: fields_def field_append, auto simp: field_def)
qed

definition int_text :: "int \<Rightarrow> string" where
  "int_text i = be_bytes 8 (word_of_int i :: 64 word)"

lemma int_text_eq: "in_i64 i \<Longrightarrow> in_i64 j \<Longrightarrow> int_text i = int_text j \<longleftrightarrow> i = j"
proof -
  assume i: "in_i64 i" and j: "in_i64 j"
  have "int_text i = int_text j \<longleftrightarrow> (word_of_int i :: 64 word) = word_of_int j"
    unfolding int_text_def by (subst be_bytes_eq) auto
  also have "\<dots> \<longleftrightarrow> wrap64 i = wrap64 j" unfolding wrap64_word by (metis signed_word_eqI)
  finally show ?thesis using i j by (simp add: wrap64_id)
qed

definition sample_payload_text :: "payload \<Rightarrow> string" where
  "sample_payload_text p = fields [fields (pa_topics p), fields (pa_preferences p), fields (pa_open_loops p)]"

definition sample_context_text :: "context_envelope \<Rightarrow> string" where
  "sample_context_text v = fields [int_text (ev_version v), ev_uid v, ev_app v, int_text (ev_generation v), int_text (ev_issued v),
     int_text (ev_expires v), ev_capability v, sample_payload_text (ev_memory v)]"

definition sample_session_text :: "session_envelope \<Rightarrow> string" where
  "sample_session_text v = fields [int_text (sv_version v), sv_uid v, sv_app v, int_text (sv_generation v), int_text (sv_issued v),
     int_text (sv_expires v), sv_session v, sample_payload_text (sv_memory v)]"

text \<open>What is decoded from a text: the value of the domain that has this text.\<close>

definition read_back :: "('a \<Rightarrow> string) \<Rightarrow> ('a \<Rightarrow> bool) \<Rightarrow> string \<Rightarrow> 'a option" where
  "read_back f P t = (if \<exists>v. P v \<and> f v = t then Some (SOME v. P v \<and> f v = t) else None)"

lemma read_back_Some:
  "inj_on f {v. P v} \<Longrightarrow> P v \<Longrightarrow> read_back f P (f v) = Some v"
  by (auto simp: read_back_def inj_on_def intro!: some_equality)

lemma read_back_dom: "read_back f P t = Some v \<Longrightarrow> P v"
  by (auto simp: read_back_def split: if_splits intro: someI2)

definition context_ints :: "context_envelope \<Rightarrow> bool" where
  "context_ints v \<longleftrightarrow> in_i64 (ev_version v) \<and> in_i64 (ev_generation v) \<and> in_i64 (ev_issued v) \<and> in_i64 (ev_expires v)"

definition session_ints :: "session_envelope \<Rightarrow> bool" where
  "session_ints v \<longleftrightarrow> in_i64 (sv_version v) \<and> in_i64 (sv_generation v) \<and> in_i64 (sv_issued v) \<and> in_i64 (sv_expires v)"

lemma sample_payload_text_eq: "sample_payload_text p = sample_payload_text q \<longleftrightarrow> p = q"
  by (cases p; cases q) (auto simp: sample_payload_text_def fields_eq)

lemma sample_texts_inj: "inj_on sample_payload_text {v. True}" "inj_on sample_context_text {v. context_ints v}"
  "inj_on sample_session_text {v. session_ints v}"
proof -
  show "inj_on sample_payload_text {v. True}" by (simp add: inj_on_def sample_payload_text_eq)
  show "inj_on sample_context_text {v. context_ints v}"
  proof (rule inj_onI)
    fix v w
    assume "v \<in> {v. context_ints v}" "w \<in> {v. context_ints v}" "sample_context_text v = sample_context_text w"
    then show "v = w" by (cases v; cases w) (simp add: sample_context_text_def context_ints_def fields_eq int_text_eq sample_payload_text_eq)
  qed
  show "inj_on sample_session_text {v. session_ints v}"
  proof (rule inj_onI)
    fix v w
    assume "v \<in> {v. session_ints v}" "w \<in> {v. session_ints v}" "sample_session_text v = sample_session_text w"
    then show "v = w" by (cases v; cases w) (simp add: sample_session_text_def session_ints_def fields_eq int_text_eq sample_payload_text_eq)
  qed
qed

text \<open>A cipher whose tag is constant, and a screen that finds nothing.\<close>

definition memory_env :: lm_env where
  "memory_env = \<lparr>le_hmac = (\<lambda>k t. replicate 32 CHR ''d''),
     le_seal = (\<lambda>k n p a. replicate 16 CHR ''x'' @ p),
     le_open = (\<lambda>k n c a. if take 16 c = replicate 16 CHR ''x'' then Some (drop 16 c) else None),
     le_payload_text = sample_payload_text, le_payload_of = read_back sample_payload_text (\<lambda>v. True),
     le_context_text = sample_context_text, le_context_of = read_back sample_context_text context_ints,
     le_session_text = sample_session_text, le_session_of = read_back sample_session_text session_ints,
     le_finding = (\<lambda>t. False)\<rparr>"

lemma memory_env_simps [simp]:
  "le_hmac memory_env k t = replicate 32 CHR ''d''" "le_seal memory_env k n p a = replicate 16 CHR ''x'' @ p"
  "le_open memory_env k n c a = (if take 16 c = replicate 16 CHR ''x'' then Some (drop 16 c) else None)"
  "le_payload_text memory_env = sample_payload_text" "le_context_text memory_env = sample_context_text"
  "le_session_text memory_env = sample_session_text" "le_finding memory_env t = False"
  "le_payload_of memory_env (sample_payload_text q) = Some q"
  "context_ints v \<Longrightarrow> le_context_of memory_env (sample_context_text v) = Some v"
  "session_ints w \<Longrightarrow> le_session_of memory_env (sample_session_text w) = Some w"
  using read_back_Some [OF sample_texts_inj(1), of q] read_back_Some [OF sample_texts_inj(2), of v] read_back_Some [OF sample_texts_inj(3), of w]
  by (simp_all add: memory_env_def)

lemma memory_env_ok: "env_ok memory_env"
proof -
  have "c = replicate 16 CHR ''x'' @ drop 16 c" if "take 16 c = replicate 16 CHR ''x''" for c :: string
    using append_take_drop_id [of 16 c] that by simp
  moreover have "2 \<le> length (sample_session_text v)" for v by (simp add: sample_session_text_def fields_def field_def)
  moreover have "in_i64 (ev_issued v) \<and> in_i64 (ev_expires v)" if "le_context_of memory_env t = Some v" for t v
    using that read_back_dom [of sample_context_text context_ints] by (simp add: memory_env_def context_ints_def)
  moreover have "in_i64 (sv_issued v) \<and> in_i64 (sv_expires v)" if "le_session_of memory_env t = Some v" for t v
    using that read_back_dom [of sample_session_text session_ints] by (simp add: memory_env_def session_ints_def)
  ultimately show ?thesis
    by (simp add: env_ok_def context_ints_def session_ints_def)
qed

definition sample_manager :: manager where
  "sample_manager = \<lparr>mg_aead = ''a'', mg_context_aead = ''b'', mg_session_aead = ''c'', mg_key = ''k''\<rparr>"

definition sample_key :: string where
  "sample_key = hex_encode (replicate 32 CHR ''d'')"

definition sample_payload :: payload where
  "sample_payload = \<lparr>pa_topics = [''t''], pa_preferences = [], pa_open_loops = []\<rparr>"

definition sample_now :: time where
  "sample_now = unix_epoch + 1000 * second"

lemma sample_ok: "validate_payload memory_env sample_payload = None" "principal_key memory_env sample_manager ''u'' = Inr sample_key"
  "valid_app_id ''u''" "app_id_key memory_env sample_manager ''u'' = sample_key" "unix_sec sample_now = 1000"
proof -
  have t: "trim_space ''t'' = ''t''" "trim_space ''u'' = ''u''" "utf8_valid ''t''" "utf8_valid ''u''" "rune_count ''t'' = 1" by code_simp+
  then show "validate_payload memory_env sample_payload = None"
    by (simp add: validate_payload_def sample_payload_def group_ok_def max_items_def max_item_runes_def)
  show "principal_key memory_env sample_manager ''u'' = Inr sample_key" using t by (simp add: principal_key_def sample_key_def)
  show "valid_app_id ''u''" using t by (simp add: valid_app_id_def)
  show "app_id_key memory_env sample_manager ''u'' = sample_key" by (simp add: app_id_key_def sample_key_def)
  show "unix_sec sample_now = 1000" by (simp add: unix_sec_def sample_now_def)
qed

text \<open>The capability of the sample, and the session that it gives.\<close>

definition sample_envelope :: context_envelope where
  "sample_envelope = context_for sample_key sample_key 1 sample_payload (replicate 28 CHR ''r'') sample_now"

definition sample_token :: string where
  "sample_token = context_capability_prefix @ b64_encode (replicate 12 CHR ''r'' @ replicate 16 CHR ''x'' @ sample_context_text sample_envelope)"

lemma length_fields: "length (fields xs) = sum_list (List.map (\<lambda>x. 2 * length x + 1) xs)"
proof -
  have "length (field x) = 2 * length x + 1" for x by (induction x) (simp_all add: field_def)
  then show ?thesis by (induction xs) (simp_all add: fields_def)
qed

lemma length_sample_key: "length sample_key = 64"
  by (simp add: sample_key_def length_hex_encode)

lemma length_sample_context: "length (sample_context_text sample_envelope) = 390"
  by (simp add: sample_context_text_def sample_envelope_def length_fields length_sample_key length_b64_encode int_text_def
      sample_payload_text_def sample_payload_def)


definition sample_session :: session_envelope where
  "sample_session = session_for sample_key sample_envelope (replicate 28 CHR ''r'') sample_now"

definition sample_session_token :: string where
  "sample_session_token = session_context_prefix @ b64_encode (replicate 12 CHR ''r'' @ replicate 16 CHR ''x'' @ sample_session_text sample_session)"

lemma length_sample_session: "length (sample_session_text sample_session) = 390"
  by (simp add: sample_session_text_def sample_session_def sample_envelope_def length_fields length_sample_key length_b64_encode int_text_def
      sample_payload_text_def sample_payload_def)

definition sample_documents :: documents where
  "sample_documents = store_step firestore_ops no_documents (Enable no_faults sample_key 5)"

definition saved_documents :: documents where
  "saved_documents = fst (save memory_env sample_manager firestore_ops sample_documents no_faults ''u'' 1 sample_payload
     (Some (replicate 12 CHR ''n'')) sample_now sample_now)"

lemma sample_save:
  "save memory_env sample_manager firestore_ops sample_documents no_faults ''u'' 1 sample_payload (Some (replicate 12 CHR ''n'')) sample_now sample_now
    = (saved_documents, None)"
  "begin_context memory_env sample_manager firestore_ops saved_documents no_faults ''u'' ''u'' (Some (replicate 28 CHR ''r'')) sample_now
    = Inr (sample_token, True)"
  "read_setting saved_documents no_faults sample_key = Inr (Some \<lparr>sd_schema = 1, sd_enabled = True, sd_generation = 1, sd_updated = 5\<rparr>)"
  "do_uses saved_documents = Map.empty"
proof -
  have len: "length (sample_payload_text sample_payload) = 9"
    by (simp add: sample_payload_text_def sample_payload_def length_fields)
  have r: "validate_record \<lparr>re_schema = 1, re_generation = 1, re_ciphertext = replicate 16 CHR ''x'' @ sample_payload_text sample_payload,
      re_nonce = replicate 12 CHR ''n'', re_expires = sample_now + 2592000000000000\<rparr> 1 sample_now = None" (is "validate_record ?r _ _ = _")
    using len by (simp add: validate_record_def const_simps sample_now_def unix_epoch_def)
  let ?doc = "\<lparr>sd_schema = 1, sd_enabled = True, sd_generation = 1, sd_updated = 5\<rparr>"
  have docs: "do_settings sample_documents sample_key = Some (Some ?doc)" "validate_setting ?doc = None"
    by (simp_all add: sample_documents_def firestore_ops_simps read_setting_def no_documents_def fresh_setting_def write_consent_def
        validate_setting_def const_simps Let_def)
  have put: "save memory_env sample_manager firestore_ops sample_documents no_faults ''u'' 1 sample_payload (Some (replicate 12 CHR ''n'')) sample_now sample_now
    = (sample_documents\<lparr>do_records := (do_records sample_documents)(sample_key \<mapsto> Some \<lparr>rd_record = ?r, rd_updated = sample_now\<rparr>)\<rparr>, None)"
    using len r docs by (simp add: save_def sample_ok firestore_ops_def fs_put_def read_setting_def schema_version_def default_ttl_def max_plaintext_def)
  then show "save memory_env sample_manager firestore_ops sample_documents no_faults ''u'' 1 sample_payload (Some (replicate 12 CHR ''n'')) sample_now sample_now
    = (saved_documents, None)" by (simp add: saved_documents_def)
  show "read_setting saved_documents no_faults sample_key = Inr (Some \<lparr>sd_schema = 1, sd_enabled = True, sd_generation = 1, sd_updated = 5\<rparr>)"
    using docs put by (simp add: saved_documents_def read_setting_def)
  show "do_uses saved_documents = Map.empty"
    using put by (simp add: saved_documents_def sample_documents_def firestore_ops_simps read_setting_def no_documents_def fresh_setting_def write_consent_def Let_def)
  have "st_get_current firestore_ops saved_documents no_faults sample_key sample_now = Inr (\<lparr>co_enabled = True, co_generation = 1\<rparr>, ?r)"
    using r docs put by (simp add: saved_documents_def firestore_ops_def fs_get_current_def read_setting_def)
  moreover have "open_record memory_env sample_manager sample_key 1 ?r sample_now = Inr sample_payload"
    using r len by (simp add: open_record_def nonce_size_def max_plaintext_def sample_ok)
  ultimately show "begin_context memory_env sample_manager firestore_ops saved_documents no_faults ''u'' ''u'' (Some (replicate 28 CHR ''r'')) sample_now
    = Inr (sample_token, True)"
    using length_sample_context
    by (simp add: begin_context_def sample_ok sample_token_def sample_envelope_def const_simps length_b64_encode context_capability_prefix_def)
qed

lemma sample_decrypt:
  assumes "970 \<le> unix_sec now" "unix_sec now < 1900"
  shows "decrypt_context_envelope memory_env sample_manager ''u'' ''u'' sample_token now = Inr sample_envelope"
proof -
  have "length sample_token \<le> 4096"
    using length_sample_context by (simp add: sample_token_def length_b64_encode context_capability_prefix_def)
  moreover have "context_ints sample_envelope"
    by (simp add: context_ints_def sample_envelope_def sample_ok in_i64_def)
  moreover have "validate_context_envelope memory_env sample_envelope sample_key sample_key now = None"
    using assms by (simp add: validate_context_envelope_def sample_envelope_def const_simps sample_ok wrap64_id in_i64_def)
  ultimately show ?thesis
    using length_sample_context
    by (simp add: decrypt_context_envelope_def sample_ok sample_token_def const_simps)
qed

lemma sample_exchange:
  "\<exists>d. consume_session_context memory_env sample_manager firestore_ops saved_documents no_faults ''u'' ''u'' sample_token
     (Some (replicate 28 CHR ''r'')) sample_now = (d, Inr (sample_session_token, 900))"
proof -
  let ?use = "capability_use_key memory_env sample_manager (ev_capability sample_envelope) sample_key (ev_app sample_envelope)"
  have "valid_use_digest ?use"
    by (simp add: valid_use_digest_def capability_use_key_def hex_decode_encode length_hex_encode)
  then have "consume_args_ok sample_key 1 ?use (unix_time 1900) sample_now"
    using length_sample_key by (auto simp: consume_args_ok_def context_capability_ttl_def unix_time_def sample_now_def)
  then show ?thesis
    using sample_decrypt [of sample_now] length_sample_session sample_save(3,4)
    by (simp add: consume_session_context_def sample_ok firestore_ops_def fs_consume_def Let_def sample_envelope_def const_simps encoded_len_def
        session_context_prefix_def sample_session_token_def sample_session_def)
qed

section \<open>Properties\<close>

text \<open>
  C15. A saved memory reaches the session it was saved for: after a successful \<open>Save\<close> and any calls for other
  users, a capability that \<open>BeginContext\<close> issues and that is then exchanged for a session context, whatever
  happened to the store in between, opens for 900 seconds, for this user and application, to exactly
  the memory saved, with the generation of the consent it was saved under.
\<close>

theorem memory_reaches_session:
  assumes "env_ok E" and "save E m firestore_ops d f uid g p (Some nonce) now now' = (d1, None)" and "in_i64 g"
    and "principal_key E m uid = Inr key" and "\<forall>call \<in> set calls. \<not> concerns key call"
    and "begin_context E m firestore_ops (foldl (store_step firestore_ops) d1 calls) f2 uid app (Some b1) tb = Inr (token, True)"
    and "consume_session_context E m firestore_ops d2 f3 uid app token (Some b2) tc = (d3, Inr (session, secs))"
    and "length b1 = 28" "length b2 = 28" "0 \<le> unix_sec tb" "unix_sec tb < 2 ^ 62" "unix_sec tc < 2 ^ 62"
    and "unix_sec tc - 30 \<le> unix_sec t" "unix_sec t < unix_sec tc + 900"
  shows "open_session_context E m uid app session t = Inr (p, g) \<and> secs = 900"
  using firestore.saved_reaches_session [OF assms(1-6,8,7,9-)] by blast

lemma memory_reaches_session_witness:
  "open_session_context memory_env sample_manager ''u'' ''u'' sample_session_token (sample_now + 5 * minute) = Inr (sample_payload, 1)"
proof -
  obtain d where x: "consume_session_context memory_env sample_manager firestore_ops saved_documents no_faults ''u'' ''u'' sample_token
      (Some (replicate 28 CHR ''r'')) sample_now = (d, Inr (sample_session_token, 900))"
    using sample_exchange by blast
  have "unix_sec (sample_now + 5 * minute) = 1300" by (simp add: unix_sec_def sample_now_def)
  then show ?thesis
    using memory_reaches_session [OF memory_env_ok sample_save(1) _ sample_ok(2), of "[]"] sample_save(2) x
    by (simp add: sample_ok in_i64_def)
qed

text \<open>
  C35. A capability is redeemed once: in every run of the manager over the Firestore store, from any state and
  with any faults, at most one exchange succeeds among all tokens that stand for the same use, by
  \<open>ConsumeContext\<close> or for a session context.
\<close>

theorem capability_redeemed_once:
  "run_count (manager_step E m firestore_ops) (redeems E m firestore_ops use) d calls \<le> 1"
  using firestore.redemption.accepted_once [OF TrueI] by blast

text \<open>
  A session context that opens was sealed by the manager for this user and this application: the token
  holds a nonce and the sealing, under the session key and the digests of the user and the application, of an
  envelope that names both, was issued at most 30 seconds after the instant of opening and is not yet 900
  seconds old, and carries the memory and generation that are returned.
\<close>

theorem session_contexts_are_sealed:
  assumes "env_ok E" and "open_session_context E m uid app token now = Inr (p, g)"
  shows "\<exists>key nonce plain v. principal_key E m uid = Inr key
    \<and> b64_decode (drop (length session_context_prefix) token)
        = Some (nonce @ le_seal E (mg_session_aead m) nonce plain (session_context_aad key (app_id_key E m app)))
    \<and> le_session_of E plain = Some v \<and> sv_uid v = key \<and> sv_app v = app_id_key E m app \<and> sv_memory v = p \<and> sv_generation v = g
    \<and> sv_issued v - 30 \<le> unix_sec now \<and> unix_sec now < sv_issued v + 900 \<and> validate_payload E p = None \<and> 1 \<le> g"
proof -
  from open_session_Inr [OF assms(2)] obtain key raw plain v where
    o: "principal_key E m uid = Inr key" "30 \<le> length raw" "b64_decode (drop (length session_context_prefix) token) = Some raw"
      "le_open E (mg_session_aead m) (take 12 raw) (drop 12 raw) (session_context_aad key (app_id_key E m app)) = Some plain"
      "le_session_of E plain = Some v" "validate_session_envelope E v key (app_id_key E m app) now = None" "p = sv_memory v" "g = sv_generation v"
    by metis
  note v = validate_session_None [OF o(6)]
  have "drop 12 raw = le_seal E (mg_session_aead m) (take 12 raw) plain (session_context_aad key (app_id_key E m app))"
    using assms(1) o(4) by (auto simp: env_ok_def)
  then have "raw = take 12 raw @ le_seal E (mg_session_aead m) (take 12 raw) plain (session_context_aad key (app_id_key E m app))"
    by (metis append_take_drop_id)
  moreover have "in_i64 (sv_issued v)" "in_i64 (sv_expires v)" using assms(1) o(5) by (auto simp: env_ok_def)
  then have "sv_expires v = sv_issued v + 900" using v by (intro lifetime [of _ _ "unix_sec now"]) auto
  ultimately show ?thesis using o v by auto
qed

lemma session_contexts_are_sealed_witness:
  "b64_decode (drop (length session_context_prefix) sample_session_token)
    \<in> {Some (nonce @ le_seal memory_env ''c'' nonce plain (session_context_aad sample_key sample_key)) | nonce plain. True}"
proof -
  have "length (sample_session_token) \<le> 4096"
    using length_sample_session by (simp add: sample_session_token_def length_b64_encode session_context_prefix_def)
  moreover have "session_ints sample_session" "validate_session_envelope memory_env sample_session sample_key sample_key sample_now = None"
    by (simp_all add: session_ints_def validate_session_envelope_def sample_session_def sample_envelope_def sample_ok const_simps wrap64_id in_i64_def)
  ultimately have "open_session_context memory_env sample_manager ''u'' ''u'' sample_session_token sample_now
      = Inr (sv_memory sample_session, sv_generation sample_session)"
    using length_sample_session by (simp add: open_session_context_def sample_ok sample_session_token_def const_simps)
  from session_contexts_are_sealed [OF memory_env_ok this] show ?thesis
    unfolding sample_ok by (auto simp: sample_manager_def)
qed

text \<open>
  The tolerance for clocks is void where a capability is consumed: a capability issued by a clock that is ahead, which
  the check of the envelope admits up to 30 seconds early, is refused by the store, whose bound of 15 minutes
  from its own instant it exceeds; neither exchange succeeds and nothing changes.
\<close>

theorem early_capability_refused:
  assumes "env_ok E" and "decrypt_context_envelope E m uid app token now = Inr v" and "unix_sec now < ev_issued v"
  shows "consume_context E m firestore_ops d f uid app token now = (d, Inl ErrInvalid)
    \<and> consume_session_context E m firestore_ops d f uid app token random now = (d, Inl ErrInvalid)"
proof -
  from decrypt_Inr [OF assms(2)] obtain key where key: "principal_key E m uid = Inr key" by metis
  have "now < unix_time (ev_issued v)"
    using unix_time_bounds(2) [of now] assms(3) by (simp add: unix_time_def)
  then have late: "now + context_capability_ttl < unix_time (ev_expires v)"
    using decrypt_expires(1) [OF assms(1,2)] by (simp add: unix_time_def context_capability_ttl_def)
  then have "\<not> consume_args_ok k g use (unix_time (ev_expires v)) now" for k g use by (simp add: consume_args_ok_def)
  then show ?thesis using assms(2) key
    by (simp add: consume_context_def consume_session_context_def firestore_ops_def fs_consume_def Let_def split: option.splits)
qed

lemma early_capability_refused_witness:
  "consume_context memory_env sample_manager firestore_ops saved_documents no_faults ''u'' ''u'' sample_token (sample_now - 10 * second)
    = (saved_documents, Inl ErrInvalid)"
proof -
  have "unix_sec (sample_now - 10 * second) = 990" by (simp add: unix_sec_def sample_now_def)
  then show ?thesis
    using early_capability_refused [OF memory_env_ok sample_decrypt [of "sample_now - 10 * second"]] by (simp add: sample_envelope_def sample_ok)
qed

end
