(* ===== verification/MemoryDispatcher.thy ===== *)
theory MemoryDispatcher
  imports LongMemory
begin

text \<open>
  The dispatcher that saves memories after a response (\<open>internal/longmemory/dispatcher.go\<close>).

  \<^item> \<open>dispatcher\<close> holds the bounded channel of jobs as a list, oldest first, the marker of overflows (a channel
    of capacity one) and whether it is closed. \<open>prepare\<close> and \<open>admit\<close> are the halves of \<open>Enqueue\<close>, between
    which other goroutines may run.
  \<^item> \<open>dispatch\<close> is the step relation of the dispatcher with its workers: each worker takes whatever its \<open>select\<close>
    offers, so the steps are a relation. The locks make each step atomic.
  \<^item> \<open>process\<close> is the work on one job over a store: \<open>work\<close> holds the instants, the ends of the context, the
    answer of the candidate source and the calls that others make between reading the consent and saving.
    The observer sees the outcome (\<open>None\<close> where the code returns without one) and has no effect.

  The lemmas show that jobs leave the queue once and in order, that nothing is admitted after a close, and that
  a consent withdrawn while a job is processed wins.
\<close>

section \<open>The queue\<close>

record dispatcher_options =
  op_capacity :: int
  op_workers :: int
  op_ttl :: duration
  op_timeout :: duration
  op_observer :: bool

record job =
  jb_uid :: string
  jb_state :: string
  jb_created :: time

record dispatcher =
  dp_jobs :: "job list"
  dp_capacity :: nat
  dp_workers :: nat
  dp_ttl :: duration
  dp_timeout :: duration
  dp_observe :: bool
  dp_wake :: bool
  dp_closed :: bool

definition default_queue_capacity :: int where [const_simps]: "default_queue_capacity = 32"
definition default_workers :: int where [const_simps]: "default_workers = 1"
definition default_job_ttl :: duration where [const_simps]: "default_job_ttl = 30 * second"
definition default_job_timeout :: duration where [const_simps]: "default_job_timeout = 10 * second"

definition new_dispatcher :: "dispatcher_options \<Rightarrow> (lm_error, dispatcher) result" where
  "new_dispatcher opts =
     (let capacity = (if op_capacity opts = 0 then default_queue_capacity else op_capacity opts);
          workers = (if op_workers opts = 0 then default_workers else op_workers opts);
          ttl = (if op_ttl opts = 0 then default_job_ttl else op_ttl opts);
          timeout = (if op_timeout opts = 0 then default_job_timeout else op_timeout opts) in
      if capacity < 1 \<or> capacity > 256 \<or> workers < 1 \<or> workers > 4 \<or> ttl \<le> 0 \<or> ttl > minute \<or> timeout \<le> 0 \<or> timeout > 30 * second
      then Inl ErrInvalid
      else Inr \<lparr>dp_jobs = [], dp_capacity = nat capacity, dp_workers = nat workers, dp_ttl = ttl, dp_timeout = timeout,
        dp_observe = op_observer opts, dp_wake = False, dp_closed = False\<rparr>)"

definition prepare :: "dispatcher \<Rightarrow> string \<Rightarrow> string \<Rightarrow> time \<Rightarrow> job option" where
  "prepare d uid state now =
     (if uid = [] \<or> state = [] \<or> length state > 16 * 1024 \<or> dp_closed d then None
      else Some \<lparr>jb_uid = uid, jb_state = state, jb_created = now\<rparr>)"

definition admit :: "dispatcher \<Rightarrow> job \<Rightarrow> dispatcher \<times> bool" where
  "admit d job =
     (if dp_closed d then (d, False)
      else if length (dp_jobs d) < dp_capacity d then (d\<lparr>dp_jobs := dp_jobs d @ [job]\<rparr>, True)
      else (if dp_observe d then d\<lparr>dp_wake := True\<rparr> else d, False))"

definition enqueue :: "dispatcher \<Rightarrow> string \<Rightarrow> string \<Rightarrow> time \<Rightarrow> dispatcher \<times> bool" where
  "enqueue d uid state now = (case prepare d uid state now of None \<Rightarrow> (d, False) | Some job \<Rightarrow> admit d job)"

definition close_dispatcher :: "dispatcher \<Rightarrow> dispatcher" where
  "close_dispatcher d = d\<lparr>dp_closed := True\<rparr>"

text \<open>What one worker does: take a job, report an overflow, or wipe what is left once it is closed.\<close>

datatype dispatch_event = Admitted job | Refused job | Taken job | Wiped job | Woken | Closed

inductive dispatch :: "dispatcher \<Rightarrow> dispatch_event \<Rightarrow> dispatcher \<Rightarrow> bool" where
  admitted: "admit d job = (d', True) \<Longrightarrow> dispatch d (Admitted job) d'"
| refused: "admit d job = (d', False) \<Longrightarrow> dispatch d (Refused job) d'"
| taken: "dp_jobs d = job # jobs \<Longrightarrow> dispatch d (Taken job) (d\<lparr>dp_jobs := jobs\<rparr>)"
| woken: "dp_wake d \<Longrightarrow> dispatch d Woken (d\<lparr>dp_wake := False\<rparr>)"
| closed: "dispatch d Closed (close_dispatcher d)"
| wiped: "dp_closed d \<Longrightarrow> dp_jobs d = job # jobs \<Longrightarrow> dispatch d (Wiped job) (d\<lparr>dp_jobs := jobs\<rparr>)"

inductive_cases dispatch_elims: "dispatch d e d'"

fun job_in :: "dispatch_event \<Rightarrow> job list" where
  "job_in (Admitted job) = [job]"
| "job_in _ = []"

fun job_out :: "dispatch_event \<Rightarrow> job list" where
  "job_out (Taken job) = [job]"
| "job_out (Wiped job) = [job]"
| "job_out _ = []"

section \<open>Processing\<close>

datatype candidate = CandidateError | NoCandidate | Candidate payload | CandidatePanic

datatype outcome = Saved | Disabled | Empty | Invalid | Stale | StoreFailed | Expired

record work =
  wk_now :: time
  wk_ended :: "bool \<times> bool \<times> bool"
  wk_status_faults :: faults
  wk_candidate :: candidate
  wk_others :: "store_call list"
  wk_random :: "string option"
  wk_save_faults :: faults
  wk_save_now :: time
  wk_put_now :: time

text \<open>The state of the store after the job and what is reported.\<close>

definition process :: "lm_env \<Rightarrow> manager \<Rightarrow> 's store_ops \<Rightarrow> dispatcher \<Rightarrow> work \<Rightarrow> 's \<Rightarrow> job \<Rightarrow> 's \<times> outcome option" where
  "process E m S d w s job =
     (if wk_now w - jb_created job > dp_ttl d then (s, Some Expired)
      else if fst (wk_ended w) then (s, None)
      else
        case manager_status E m S s (wk_status_faults w) (jb_uid job) of
          Inl e \<Rightarrow> (s, Some Disabled)
        | Inr c \<Rightarrow>
          if \<not> co_enabled c then (s, Some Disabled)
          else
            (let s' = foldl (store_step S) s (wk_others w) in
             if fst (snd (wk_ended w)) then (s', None)
             else case wk_candidate w of
               CandidatePanic \<Rightarrow> (s', Some Invalid)
             | CandidateError \<Rightarrow> (s', Some Invalid)
             | NoCandidate \<Rightarrow> (s', Some Empty)
             | Candidate p \<Rightarrow>
               if snd (snd (wk_ended w)) then (s', None)
               else case save E m S s' (wk_save_faults w) (jb_uid job) (co_generation c) p (wk_random w) (wk_save_now w) (wk_put_now w) of
                 (s'', None) \<Rightarrow> (s'', Some Saved)
               | (s'', Some e) \<Rightarrow> (s'', Some (if e = ErrDisabled \<or> e = ErrStale then Stale else StoreFailed))))"

section \<open>Jobs are handed over once and in order\<close>

lemma dispatch_keeps:
  assumes "dispatch d e d'"
  shows "dp_capacity d' = dp_capacity d \<and> (dp_closed d \<longrightarrow> dp_closed d')
    \<and> dp_jobs d @ job_in e = job_out e @ dp_jobs d'
    \<and> (job_in e \<noteq> [] \<longrightarrow> \<not> dp_closed d \<and> length (dp_jobs d') \<le> dp_capacity d)"
  using assms by cases (auto simp: admit_def close_dispatcher_def split: if_splits)

lemma dispatch_run_keeps:
  assumes "run_of dispatch d es d'" "length (dp_jobs d) \<le> dp_capacity d"
  shows "dp_capacity d' = dp_capacity d \<and> length (dp_jobs d') \<le> dp_capacity d
    \<and> dp_jobs d @ concat (List.map job_in es) = concat (List.map job_out es) @ dp_jobs d'"
  using assms
proof (induction rule: run_of.induct)
  case (snoc d es d' e d'')
  note k = dispatch_keeps [OF snoc.hyps(2)]
  have "length (dp_jobs d'') \<le> dp_capacity d"
  proof (cases "job_in e = []")
    case True
    then have "dp_jobs d' = job_out e @ dp_jobs d''" using k by simp
    then have "length (dp_jobs d'') \<le> length (dp_jobs d')" by simp
    then show ?thesis using snoc.IH snoc.prems by linarith
  qed (use k snoc.IH snoc.prems in simp)
  moreover have "dp_jobs d @ concat (List.map job_in (es @ [e])) = concat (List.map job_out (es @ [e])) @ dp_jobs d''"
    using snoc.IH snoc.prems k by (simp add: append_assoc [symmetric] del: append_assoc) (simp add: append_assoc)
  ultimately show ?case using k snoc.IH snoc.prems by simp
qed simp

lemma dispatch_run_closed:
  assumes "run_of dispatch d es d'" "dp_closed d"
  shows "dp_closed d' \<and> concat (List.map job_in es) = []"
  using assms by (induction rule: run_of.induct) (auto dest: dispatch_keeps)

section \<open>A withdrawal wins over a job\<close>

context consent_store begin

lemma save_below:
  assumes "principal_key E m uid = Inr key" "g < co_generation (consent_of s key)"
  shows "fst (save E m S s f uid g p random now now') = s \<and> snd (save E m S s f uid g p random now now') \<noteq> None"
proof -
  have "fst (st_put S s f' key g r t) = s \<and> snd (st_put S s f' key g r t) \<noteq> None" for f' r t
    using put_ok [of s f' key g r t "fst (st_put S s f' key g r t)" "snd (st_put S s f' key g r t)"] assms(2) by auto
  then show ?thesis using assms(1) by (simp add: save_def Let_def split: option.splits)
qed

lemma withdrawn_during:
  assumes key: "principal_key E m (jb_uid job) = Inr key"
    and others: "wk_others w = pre @ Disable f key now # post" "snd (st_disable S (foldl (store_step S) s pre) f key now) = None"
    and c: "manager_status E m S s (wk_status_faults w) (jb_uid job) = Inr c" "co_enabled c"
  shows "fst (process E m S d w s job) \<in> {s, foldl (store_step S) s (wk_others w)} \<and> snd (process E m S d w s job) \<noteq> Some Saved"
proof -
  let ?s = "foldl (store_step S) s pre" and ?t = "foldl (store_step S) s (wk_others w)"
  have "c = consent_of s key" using status_ok c(1) key by (simp add: manager_status_def)
  then have "co_generation c \<le> co_generation (consent_of ?s key)" using generation_mono by simp
  also obtain s1 where d: "st_disable S ?s f key now = (s1, None)" using others(2) by (metis prod.collapse)
  note disable_raises [OF d]
  also have "co_generation (consent_of s1 key) \<le> co_generation (consent_of ?t key)"
    using generation_mono [of s1 key post] d others(1) by simp
  finally have "co_generation c < co_generation (consent_of ?t key)" .
  from save_below [OF key this]
  have none: "\<exists>e. save E m S ?t (wk_save_faults w) (jb_uid job) (co_generation c) p (wk_random w) (wk_save_now w) (wk_put_now w) = (?t, Some e)" for p
    by (metis not_None_eq prod.collapse)
  show ?thesis
  proof (cases "wk_candidate w")
    case (Candidate p)
    then show ?thesis using c none [of p] by (auto simp: process_def Let_def split: if_splits)
  qed (use c in \<open>auto simp: process_def Let_def\<close>)
qed

text \<open>What is saved was consented to, at both ends of the work.\<close>

lemma saved_with_consent:
  assumes key: "principal_key E m (jb_uid job) = Inr key" and saved: "process E m S d w s job = (s', Some Saved)"
  shows "\<exists>p r. wk_candidate w = Candidate p \<and> validate_payload E p = None \<and> kept s' key = Some r
    \<and> consent_of s key = \<lparr>co_enabled = True, co_generation = re_generation r\<rparr>
    \<and> consent_of s' key = \<lparr>co_enabled = True, co_generation = re_generation r\<rparr>"
proof -
  let ?t = "foldl (store_step S) s (wk_others w)"
  obtain c where c: "manager_status E m S s (wk_status_faults w) (jb_uid job) = Inr c" "co_enabled c"
    using saved by (auto simp: process_def Let_def split: if_splits sum.splits)
  obtain p where p: "wk_candidate w = Candidate p"
    "save E m S ?t (wk_save_faults w) (jb_uid job) (co_generation c) p (wk_random w) (wk_save_now w) (wk_put_now w) = (s', None)"
    using saved c by (auto simp: process_def Let_def split: if_splits candidate.splits prod.splits option.splits)
  then obtain nonce where "wk_random w = Some nonce" by (auto simp: save_def Let_def key split: if_splits option.splits)
  note put = save_None [OF p(2) [unfolded this] key]
  have "c = consent_of s key" using status_ok c(1) key by (simp add: manager_status_def)
  then have "consent_of s key = \<lparr>co_enabled = True, co_generation = co_generation c\<rparr>" using c(2) by (cases c) simp
  then show ?thesis using put_ok [OF put(4)] put(2) p(1) by (intro exI conjI) (assumption | simp)+
qed

end

section \<open>Properties\<close>

text \<open>
  The dispatcher hands every job over once and in order: in every run of its steps from a new dispatcher, however
  callers and workers interleave, the jobs admitted so far are those taken or wiped, in the same order, followed by
  those in the queue, which never exceeds its capacity of at most 256; and nothing is admitted after a close.
\<close>

theorem jobs_handed_over_once:
  assumes "new_dispatcher opts = Inr d0" and "run_of dispatch d0 es d"
  shows "concat (List.map job_in es) = concat (List.map job_out es) @ dp_jobs d
    \<and> length (dp_jobs d) \<le> dp_capacity d0 \<and> dp_capacity d0 \<le> 256
    \<and> (\<forall>pre post. es = pre @ Closed # post \<longrightarrow> concat (List.map job_in post) = [])"
proof -
  have d0: "dp_jobs d0 = []" "dp_capacity d0 \<le> 256"
    using assms(1) by (auto simp: new_dispatcher_def Let_def split: if_splits)
  have "concat (List.map job_in post) = [] \<and> dp_closed d" if "es = pre @ Closed # post" for pre post
    using assms(2) that
  proof (induction arbitrary: post rule: run_of.induct)
    case (snoc d0 es d' e d'')
    note IH = snoc.IH and prems = snoc.prems and last = snoc.hyps(2)
    show ?case
    proof (cases post rule: rev_cases)
      case Nil
      then show ?thesis using last prems by (auto elim: dispatch_elims simp: close_dispatcher_def)
    next
      case (snoc post' e')
      then show ?thesis using IH [of post'] prems dispatch_keeps [OF last] by auto
    qed
  qed simp
  then show ?thesis using dispatch_run_keeps [OF assms(2)] d0 by simp
qed

lemma jobs_handed_over_once_witness:
  "concat (List.map job_in [Admitted \<lparr>jb_uid = ''u'', jb_state = ''s'', jb_created = 1\<rparr>, Closed])
    = [\<lparr>jb_uid = ''u'', jb_state = ''s'', jb_created = 1\<rparr>]"
proof -
  let ?j = "\<lparr>jb_uid = ''u'', jb_state = ''s'', jb_created = 1\<rparr>"
  let ?d = "\<lparr>dp_jobs = [], dp_capacity = 2, dp_workers = 1, dp_ttl = 30 * second, dp_timeout = 10 * second,
      dp_observe = False, dp_wake = False, dp_closed = False\<rparr>"
  have "new_dispatcher \<lparr>op_capacity = 2, op_workers = 0, op_ttl = 0, op_timeout = 0, op_observer = False\<rparr> = Inr ?d"
    by (simp add: new_dispatcher_def const_simps)
  moreover have admitted: "run_of dispatch ?d ([] @ [Admitted ?j]) (?d\<lparr>dp_jobs := [?j]\<rparr>)"
    by (rule run_of.snoc, rule run_of.start, rule dispatch.admitted) (simp add: admit_def)
  have "run_of dispatch ?d (([] @ [Admitted ?j]) @ [Closed]) (close_dispatcher (?d\<lparr>dp_jobs := [?j]\<rparr>))"
    by (rule run_of.snoc, rule admitted, rule dispatch.closed)
  ultimately show ?thesis using jobs_handed_over_once by simp
qed

text \<open>
  A withdrawal wins over a save in progress: where the user's consent is withdrawn after a worker read it and before it
  saves, the worker writes nothing and does not report the job as saved; and where it does report it as saved, the store
  keeps a record under the consent that the worker had read, which is still the consent in force.
\<close>

theorem withdrawal_beats_save:
  assumes "principal_key E m (jb_uid job) = Inr key" and "process E m firestore_ops d w s job = (s', x)"
  shows "(x = Some Saved \<longrightarrow> (\<exists>p r. wk_candidate w = Candidate p \<and> validate_payload E p = None \<and> fs_kept s' key = Some r
      \<and> fs_consent s key = \<lparr>co_enabled = True, co_generation = re_generation r\<rparr> \<and> fs_consent s' key = fs_consent s key))
    \<and> (\<forall>pre f now post. wk_others w = pre @ Disable f key now # post
        \<and> snd (st_disable firestore_ops (foldl (store_step firestore_ops) s pre) f key now) = None
      \<longrightarrow> x \<noteq> Some Saved \<and> s' \<in> {s, foldl (store_step firestore_ops) s (wk_others w)})"
proof (intro conjI impI allI)
  assume "x = Some Saved"
  then show "\<exists>p r. wk_candidate w = Candidate p \<and> validate_payload E p = None \<and> fs_kept s' key = Some r
      \<and> fs_consent s key = \<lparr>co_enabled = True, co_generation = re_generation r\<rparr> \<and> fs_consent s' key = fs_consent s key"
    using firestore.saved_with_consent [OF assms(1)] assms(2) by fastforce
next
  fix pre f now post
  assume o: "wk_others w = pre @ Disable f key now # post
      \<and> snd (st_disable firestore_ops (foldl (store_step firestore_ops) s pre) f key now) = None"
  have none: "x \<noteq> Some Saved \<and> s' = s" if "\<not> (\<exists>c. manager_status E m firestore_ops s (wk_status_faults w) (jb_uid job) = Inr c \<and> co_enabled c)"
    using that assms(2) by (auto simp: process_def split: if_splits sum.splits)
  show "x \<noteq> Some Saved" "s' \<in> {s, foldl (store_step firestore_ops) s (wk_others w)}"
    using firestore.withdrawn_during [OF assms(1), of w pre f now post s _ d] o none assms(2) by auto
qed

text \<open>The sample user withdraws while a job of theirs is processed.\<close>

definition sample_work :: work where
  "sample_work = \<lparr>wk_now = sample_now, wk_ended = (False, False, False), wk_status_faults = no_faults,
     wk_candidate = Candidate sample_payload, wk_others = [Disable no_faults sample_key 6], wk_random = Some (replicate 12 CHR ''n''),
     wk_save_faults = no_faults, wk_save_now = sample_now, wk_put_now = sample_now\<rparr>"

definition sample_dispatcher :: dispatcher where
  "sample_dispatcher = \<lparr>dp_jobs = [], dp_capacity = 2, dp_workers = 1, dp_ttl = 30 * second, dp_timeout = 10 * second,
     dp_observe = False, dp_wake = False, dp_closed = False\<rparr>"

lemma withdrawal_beats_save_witness:
  "snd (process memory_env sample_manager firestore_ops sample_dispatcher sample_work sample_documents
     \<lparr>jb_uid = ''u'', jb_state = ''s'', jb_created = sample_now\<rparr>) \<noteq> Some Saved"
proof -
  let ?job = "\<lparr>jb_uid = ''u'', jb_state = ''s'', jb_created = sample_now\<rparr>"
  have key: "principal_key memory_env sample_manager (jb_uid ?job) = Inr sample_key" by (simp add: sample_ok)
  have others: "wk_others sample_work = [] @ Disable no_faults sample_key 6 # []" by (simp add: sample_work_def)
  have "snd (st_disable firestore_ops (foldl (store_step firestore_ops) sample_documents []) no_faults sample_key 6) = None"
    by (simp add: sample_documents_def firestore_ops_simps read_setting_def no_documents_def fresh_setting_def write_consent_def
        validate_setting_def const_simps Let_def)
  with others withdrawal_beats_save [OF key prod.collapse [symmetric], of sample_dispatcher sample_work sample_documents]
  show ?thesis by blast
qed

end
