(* ===== verification/NativeSession.thy ===== *)
theory NativeSession
  imports Go_Text
begin

text \<open>
  One turn of native speech (\<open>internal/nativevoice\<close>: \<open>session.go\<close> and the configuration of
  \<open>nativevoice.go\<close>): the input side that sends a user's frames to the provider, and the gate that holds
  back what the provider answers until the turn's caption has been seen and the route committed.

  \<^item> \<open>session\<close> is \<open>liveSession\<close>. \<open>se_busy\<close> says which input operation holds the input lock: such an operation is
    two steps, before and after the provider's write (\<open>sendProvider\<close>, whose result is an argument), and
    the other goroutines run in between. Everything else holds the queue's mutex and is one step.
  \<^item> A provider message keeps the fields that the code reads; whether a part has disabled content is one of
    them. \<open>mime.ParseMediaType\<close> is the argument \<open>parse\<close>, the errors of contexts are arguments.
  \<^item> Clearing bytes, wake-ups and the retirement of the provider connection have no effect on the state.
    \<open>receive\<close> gives \<open>None\<close> where the code waits.

  The lemmas show that the gate's invariant and the limits hold in every interleaving; the
  properties say what a caller of \<open>Receive\<close> can rely on.
\<close>

section \<open>Configuration\<close>

datatype nv_error = ErrClosed | ErrDeadline | ErrProvider | ErrProtocol | ErrActivityState | ErrInputCaptionPending
  | ErrPCMFrameSize | ErrInputLimit | ErrOutputLimit | ErrPendingLimit | ErrTranscriptLimit | ErrUnexpectedFeature
  | ErrConfig string

record config =
  cf_project :: string
  cf_location :: string
  cf_model :: string
  cf_voice :: string
  cf_prompt :: string
  cf_setup_timeout :: duration
  cf_session_timeout :: duration
  cf_send_timeout :: duration
  cf_max_input :: int
  cf_max_output :: int
  cf_max_chunk :: int
  cf_max_pending :: int
  cf_max_events :: int
  cf_max_transcript :: int
  cf_max_tokens :: int

definition default_model :: string where "default_model = ''gemini-live-2.5-flash-native-audio''"
definition default_location :: string where "default_location = ''us-central1''"
definition default_voice :: string where "default_voice = ''Aoede''"
definition input_frame_bytes :: int where [const_simps]: "input_frame_bytes = 640"
definition output_sample_rate :: int where [const_simps]: "output_sample_rate = 24000"
definition hard_max_prompt :: nat where [const_simps]: "hard_max_prompt = 32768"

definition or_default :: "int \<Rightarrow> int \<Rightarrow> int" where
  "or_default target v = (if target = 0 then v else target)"

text \<open>The trimmed texts, and the defaults for what is empty or zero.\<close>

definition with_defaults :: "config \<Rightarrow> config" where
  "with_defaults c =
     \<lparr>cf_project = trim_space (cf_project c),
      cf_location = (if trim_space (cf_location c) = [] then default_location else trim_space (cf_location c)),
      cf_model = (if trim_space (cf_model c) = [] then default_model else trim_space (cf_model c)),
      cf_voice = (if trim_space (cf_voice c) = [] then default_voice else trim_space (cf_voice c)),
      cf_prompt = trim_space (cf_prompt c),
      cf_setup_timeout = or_default (cf_setup_timeout c) (12 * second),
      cf_session_timeout = or_default (cf_session_timeout c) (2 * minute),
      cf_send_timeout = or_default (cf_send_timeout c) (5 * second),
      cf_max_input = or_default (cf_max_input c) 4194304,
      cf_max_output = or_default (cf_max_output c) 8388608,
      cf_max_chunk = or_default (cf_max_chunk c) 1048576,
      cf_max_pending = or_default (cf_max_pending c) 2097152,
      cf_max_events = or_default (cf_max_events c) 128,
      cf_max_transcript = or_default (cf_max_transcript c) 65536,
      cf_max_tokens = or_default (cf_max_tokens c) 384\<rparr>"

definition normalize_config :: "config \<Rightarrow> (nv_error, config) result" where
  "normalize_config c0 =
     (let c = with_defaults c0 in
      if cf_project c = [] then Inl (ErrConfig ''native voice project is required'')
      else if cf_location c \<noteq> default_location then Inl (ErrConfig ''native voice location must be us-central1'')
      else if cf_model c \<noteq> default_model then Inl (ErrConfig ''native voice model is not approved'')
      else if cf_prompt c = [] then Inl (ErrConfig ''native voice system prompt is required'')
      else if \<not> utf8_valid (cf_prompt c) \<or> length (cf_prompt c) > hard_max_prompt then Inl (ErrConfig ''native voice system prompt is invalid'')
      else if cf_setup_timeout c \<le> 0 \<or> cf_setup_timeout c > 45 * second \<or> cf_session_timeout c \<le> 0 \<or> cf_session_timeout c > 10 * minute
        \<or> cf_send_timeout c \<le> 0 \<or> cf_send_timeout c > 30 * second then Inl (ErrConfig ''native voice deadline configuration is invalid'')
      else if cf_max_input c < input_frame_bytes \<or> cf_max_input c > 16777216 then Inl (ErrConfig ''native voice input limit is invalid'')
      else if cf_max_output c \<le> 0 \<or> cf_max_output c > 33554432 \<or> cf_max_chunk c \<le> 0 \<or> cf_max_chunk c > cf_max_output c
      then Inl (ErrConfig ''native voice output limit is invalid'')
      else if cf_max_pending c < cf_max_chunk c \<or> cf_max_pending c > 8388608 \<or> cf_max_events c \<le> 0 \<or> cf_max_events c > 1024
      then Inl (ErrConfig ''native voice pending limit is invalid'')
      else if cf_max_transcript c \<le> 0 \<or> cf_max_transcript c > 1048576 \<or> cf_max_transcript c > cf_max_pending c
      then Inl (ErrConfig ''native voice transcript limit is invalid'')
      else if cf_max_tokens c < 128 \<or> cf_max_tokens c > 512 then Inl (ErrConfig ''native voice response token budget is invalid'')
      else Inr c)"

section \<open>Events and messages\<close>

datatype event_kind = AudioPCM | InputCaption | OutputCaption | TurnComplete | Interrupted

record event =
  ek_kind :: event_kind
  ek_pcm :: string
  ek_caption :: string
  ek_final :: bool
  ek_rate :: int
  ek_reason :: string

definition plain_event :: "event_kind \<Rightarrow> event" where
  "plain_event k = \<lparr>ek_kind = k, ek_pcm = [], ek_caption = [], ek_final = False, ek_rate = 0, ek_reason = []\<rparr>"

record transcription =
  tr_text :: string
  tr_finished :: bool

record blob =
  bl_mime :: string
  bl_data :: string

record part =
  pt_disabled :: bool
  pt_text :: string
  pt_blob :: "blob option"

record server_content =
  ct_input :: "transcription option"
  ct_interrupted :: bool
  ct_output :: "transcription option"
  ct_turn :: "part option list option"
  ct_complete :: bool
  ct_reason :: string

record message =
  me_setup :: bool
  me_tool :: bool
  me_tool_cancel :: bool
  me_resumption :: bool
  me_go_away :: bool
  me_content :: "server_content option"

definition is_setup_complete :: "message option \<Rightarrow> bool" where
  "is_setup_complete m \<longleftrightarrow> (case m of None \<Rightarrow> False
     | Some m \<Rightarrow> me_setup m \<and> me_content m = None \<and> \<not> me_tool m \<and> \<not> me_tool_cancel m \<and> \<not> me_resumption m)"

fun is_gated_output :: "event_kind \<Rightarrow> bool" where
  "is_gated_output AudioPCM = True"
| "is_gated_output OutputCaption = True"
| "is_gated_output TurnComplete = True"
| "is_gated_output _ = False"

definition event_size :: "event \<Rightarrow> int" where
  "event_size e = int (length (ek_pcm e)) + int (length (ek_caption e))"

definition events_size :: "event list \<Rightarrow> int" where
  "events_size es = sum_list (List.map event_size es)"

abbreviation gated :: "event \<Rightarrow> bool" where
  "gated e \<equiv> is_gated_output (ek_kind e)"

section \<open>The session\<close>

datatype input_op = Starting | Sending string | Ending

record session =
  se_config :: config
  se_busy :: "input_op option"
  se_input_active :: bool
  se_started :: bool
  se_ended :: bool
  se_input_bytes :: int
  se_ready :: "event list"
  se_held :: "event list"
  se_buffered :: int
  se_committed :: bool
  se_discarded :: bool
  se_caption_final :: bool
  se_caption_delivered :: bool
  se_terminal :: "nv_error option"
  se_output_bytes :: int
  se_transcript_bytes :: int

definition new_session :: "config \<Rightarrow> session" where
  "new_session c = \<lparr>se_config = c, se_busy = None, se_input_active = False, se_started = False, se_ended = False, se_input_bytes = 0,
     se_ready = [], se_held = [], se_buffered = 0, se_committed = False, se_discarded = False, se_caption_final = False,
     se_caption_delivered = False, se_terminal = None, se_output_bytes = 0, se_transcript_bytes = 0\<rparr>"

definition terminate :: "session \<Rightarrow> nv_error \<Rightarrow> session" where
  "terminate s e = (case se_terminal s of
     Some _ \<Rightarrow> s
   | None \<Rightarrow> s\<lparr>se_terminal := Some e, se_ready := [], se_held := [], se_buffered := 0\<rparr>)"

definition discard_output_locked :: "session \<Rightarrow> session" where
  "discard_output_locked s =
     s\<lparr>se_held := [], se_ready := filter (\<lambda>e. \<not> gated e) (se_ready s),
       se_buffered := se_buffered s - events_size (se_held s) - events_size (filter gated (se_ready s))\<rparr>"

definition reset_output_gate :: "session \<Rightarrow> session" where
  "reset_output_gate s = (discard_output_locked s)\<lparr>se_committed := False, se_discarded := False,
     se_caption_final := False, se_caption_delivered := False\<rparr>"

text \<open>
  Opening: the provider connection, the first message it must send (\<open>None\<close> where the read fails), and
  the errors of the contexts at each check.
\<close>

definition receive_setup :: "message option option \<Rightarrow> nv_error option" where
  "receive_setup r =
     (case r of
        None \<Rightarrow> Some ErrProvider
      | Some m \<Rightarrow> if \<not> is_setup_complete m then Some ErrProtocol else None)"

definition await_setup_complete :: "nv_error option \<Rightarrow> message option option \<Rightarrow> nv_error option \<Rightarrow> nv_error option" where
  "await_setup_complete before r after =
     (case before of
        Some e \<Rightarrow> Some e
      | None \<Rightarrow> case after of Some e \<Rightarrow> Some e | None \<Rightarrow> receive_setup r)"

definition open_session :: "config \<Rightarrow> nv_error option \<Rightarrow> nv_error option \<Rightarrow> nv_error option \<Rightarrow> message option option \<Rightarrow> nv_error option \<Rightarrow> nv_error option
    \<Rightarrow> (nv_error, session) result" where
  "open_session c context_error connect_error before r after late_error =
     (case context_error of
        Some e \<Rightarrow> Inl e
      | None \<Rightarrow>
        case connect_error of
          Some e \<Rightarrow> Inl e
        | None \<Rightarrow>
          case await_setup_complete before r after of
            Some e \<Rightarrow> Inl e
          | None \<Rightarrow> case late_error of Some e \<Rightarrow> Inl e | None \<Rightarrow> Inr (new_session c))"

subsection \<open>Input\<close>

text \<open>The step up to the provider's write: an error, or the lock is held and the write under way.\<close>

definition start_activity :: "session \<Rightarrow> session \<times> nv_error option" where
  "start_activity s =
     (case se_terminal s of
        Some e \<Rightarrow> (s, Some e)
      | None \<Rightarrow>
        if se_input_active s \<or> se_started s then (s, Some ErrActivityState)
        else ((reset_output_gate s)\<lparr>se_busy := Some Starting\<rparr>, None))"

definition send_pcm :: "session \<Rightarrow> string \<Rightarrow> session \<times> nv_error option" where
  "send_pcm s pcm =
     (if int (length pcm) \<noteq> input_frame_bytes then (s, Some ErrPCMFrameSize)
      else case se_terminal s of
        Some e \<Rightarrow> (s, Some e)
      | None \<Rightarrow>
        if \<not> se_input_active s then (s, Some ErrActivityState)
        else if se_input_bytes s > cf_max_input (se_config s) - int (length pcm) then (terminate s ErrInputLimit, Some ErrInputLimit)
        else (s\<lparr>se_busy := Some (Sending pcm)\<rparr>, None))"

definition end_activity :: "session \<Rightarrow> session \<times> nv_error option" where
  "end_activity s =
     (case se_terminal s of
        Some e \<Rightarrow> (s, Some e)
      | None \<Rightarrow> if \<not> se_input_active s then (s, Some ErrActivityState) else (s\<lparr>se_busy := Some Ending\<rparr>, None))"

text \<open>The rest, with the write's result.\<close>

definition finish_input :: "session \<Rightarrow> nv_error option \<Rightarrow> session" where
  "finish_input s result =
     (case (se_busy s, result) of
        (Some Starting, None) \<Rightarrow> s\<lparr>se_busy := None, se_input_active := True, se_started := True, se_ended := False\<rparr>
      | (Some (Sending pcm), None) \<Rightarrow> s\<lparr>se_busy := None, se_input_bytes := se_input_bytes s + int (length pcm)\<rparr>
      | (Some Ending, None) \<Rightarrow> s\<lparr>se_busy := None, se_input_active := False, se_ended := True\<rparr>
      | _ \<Rightarrow> s\<lparr>se_busy := None\<rparr>)"

subsection \<open>The gate\<close>

definition commit_output :: "session \<Rightarrow> nv_error option \<Rightarrow> session \<times> nv_error option" where
  "commit_output s lock_error =
     (case lock_error of
        Some e \<Rightarrow> (s, Some e)
      | None \<Rightarrow>
        case se_terminal s of
          Some e \<Rightarrow> (s, Some e)
        | None \<Rightarrow>
          if se_input_active s \<or> \<not> se_ended s then (s, Some ErrActivityState)
          else if se_discarded s then (s, Some ErrActivityState)
          else if \<not> se_caption_final s \<or> \<not> se_caption_delivered s then (s, Some ErrInputCaptionPending)
          else if se_committed s then (s, None)
          else (s\<lparr>se_committed := True, se_ready := se_ready s @ se_held s, se_held := []\<rparr>, None))"

definition discard_output :: "session \<Rightarrow> session" where
  "discard_output s = (discard_output_locked s)\<lparr>se_committed := False, se_discarded := True\<rparr>"

definition receive :: "session \<Rightarrow> nv_error option \<Rightarrow> session \<times> (nv_error, event) result option" where
  "receive s ctx_error =
     (case ctx_error of
        Some e \<Rightarrow> (s, Some (Inl e))
      | None \<Rightarrow>
        case se_ready s of
          e # rest \<Rightarrow>
            (s\<lparr>se_ready := rest, se_buffered := se_buffered s - event_size e,
               se_caption_delivered := se_caption_delivered s \<or> (ek_kind e = InputCaption \<and> ek_final e)\<rparr>, Some (Inr e))
        | [] \<Rightarrow> (s, map_option Inl (se_terminal s)))"

definition enqueue_events :: "session \<Rightarrow> event list \<Rightarrow> bool \<Rightarrow> session \<times> nv_error option" where
  "enqueue_events s es interrupted =
     (case se_terminal s of
        Some e \<Rightarrow> (s, Some e)
      | None \<Rightarrow>
         (let s1 = (if interrupted then discard_output s else s);
              es1 = (if se_discarded s1 then filter (\<lambda>e. \<not> gated e) es else es);
              s2 = s1\<lparr>se_caption_final := se_caption_final s1 \<or> (\<exists>e \<in> set es1. ek_kind e = InputCaption \<and> ek_final e)\<rparr>;
              batch = events_size es1 in
          if int (length (se_ready s2)) + int (length (se_held s2)) + int (length es1) > cf_max_events (se_config s2)
            \<or> se_buffered s2 > cf_max_pending (se_config s2) - batch
          then (s2, Some ErrPendingLimit)
          else (s2\<lparr>se_held := se_held s2 @ filter (\<lambda>e. gated e \<and> \<not> se_committed s2) es1,
                   se_ready := se_ready s2 @ filter (\<lambda>e. \<not> (gated e \<and> \<not> se_committed s2)) es1,
                   se_buffered := se_buffered s2 + batch\<rparr>, None)))"

subsection \<open>Messages of the provider\<close>

definition transcription_text_event :: "config \<Rightarrow> int \<Rightarrow> event_kind \<Rightarrow> string \<Rightarrow> bool \<Rightarrow> int \<times> (nv_error, event) result" where
  "transcription_text_event c transcript k text finished =
     (if transcript > cf_max_transcript c - int (length text) then (transcript, Inl ErrTranscriptLimit)
      else (transcript + int (length text), Inr ((plain_event k)\<lparr>ek_caption := text, ek_final := finished\<rparr>)))"

text \<open>The events of an optional transcription: none, or one.\<close>

definition transcription_event :: "config \<Rightarrow> int \<Rightarrow> event_kind \<Rightarrow> transcription option \<Rightarrow> int \<times> (nv_error, event list) result" where
  "transcription_event c transcript k t =
     (case t of
        None \<Rightarrow> (transcript, Inr [])
      | Some t \<Rightarrow>
        if tr_text t = [] \<and> \<not> tr_finished t then (transcript, Inr [])
        else case transcription_text_event c transcript k (tr_text t) (tr_finished t) of
          (n, Inl e) \<Rightarrow> (n, Inl e) | (n, Inr e) \<Rightarrow> (n, Inr [e]))"

definition contains_output_caption :: "event list \<Rightarrow> string \<Rightarrow> bool" where
  "contains_output_caption es text \<longleftrightarrow> (\<exists>e \<in> set es. ek_kind e = OutputCaption \<and> ek_caption e = text)"

text \<open>\<open>strings.ToLower\<close> on the characters of a media type.\<close>

definition lower_char :: "char \<Rightarrow> char" where
  "lower_char c = (if 65 \<le> byte c \<and> byte c \<le> 90 then char_of (byte c + 32) else c)"

definition valid_output_audio_mime :: "(string \<Rightarrow> (string \<times> (string \<times> string) list) option) \<Rightarrow> string \<Rightarrow> bool" where
  "valid_output_audio_mime parse v =
     (case parse (trim_space v) of
        None \<Rightarrow> False
      | Some (media, parameters) \<Rightarrow> List.map lower_char media = ''audio/pcm'' \<and> (parameters = [] \<or> parameters = [(''rate'', ''24000'')]))"

text \<open>The loop over the parts of a turn, with the counters of output and transcript bytes.\<close>

fun parts_loop :: "(string \<Rightarrow> (string \<times> (string \<times> string) list) option) \<Rightarrow> config \<Rightarrow> bool \<Rightarrow> int \<Rightarrow> int \<Rightarrow> event list \<Rightarrow> part option list
    \<Rightarrow> int \<times> int \<times> (nv_error, event list) result" where
  "parts_loop parse c complete out transcript es [] = (out, transcript, Inr es)"
| "parts_loop parse c complete out transcript es (None # ps) = parts_loop parse c complete out transcript es ps"
| "parts_loop parse c complete out transcript es (Some p # ps) =
     (if pt_disabled p then (out, transcript, Inl ErrProtocol)
      else if trim_space (pt_text p) \<noteq> [] then
        (if pt_blob p \<noteq> None then (out, transcript, Inl ErrProtocol)
         else if contains_output_caption es (pt_text p) then parts_loop parse c complete out transcript es ps
         else case transcription_text_event c transcript OutputCaption (pt_text p) complete of
           (n, Inl e) \<Rightarrow> (out, n, Inl e)
         | (n, Inr e) \<Rightarrow> parts_loop parse c complete out n (es @ [e]) ps)
      else case pt_blob p of
        None \<Rightarrow> (out, transcript, Inl ErrProtocol)
      | Some b \<Rightarrow>
        if \<not> valid_output_audio_mime parse (bl_mime b) \<or> length (bl_data b) = 0 \<or> length (bl_data b) mod 2 \<noteq> 0
        then (out, transcript, Inl ErrProtocol)
        else if int (length (bl_data b)) > cf_max_chunk c \<or> out > cf_max_output c - int (length (bl_data b))
        then (out, transcript, Inl ErrOutputLimit)
        else parts_loop parse c complete (out + int (length (bl_data b))) transcript
          (es @ [(plain_event AudioPCM)\<lparr>ek_pcm := bl_data b, ek_rate := output_sample_rate\<rparr>]) ps)"

definition decode_message :: "(string \<Rightarrow> (string \<times> (string \<times> string) list) option) \<Rightarrow> config \<Rightarrow> int \<Rightarrow> int \<Rightarrow> message option
    \<Rightarrow> int \<times> int \<times> (nv_error, event list \<times> bool) result" where
  "decode_message parse c out transcript m =
     (case m of
        None \<Rightarrow> (out, transcript, Inl ErrProtocol)
      | Some m \<Rightarrow>
        if me_setup m then (out, transcript, Inl ErrProtocol)
        else if me_tool m \<or> me_tool_cancel m \<or> me_resumption m then (out, transcript, Inl ErrUnexpectedFeature)
        else if me_go_away m then (out, transcript, Inl ErrProvider)
        else case me_content m of
          None \<Rightarrow> (out, transcript, Inr ([], False))
        | Some ct \<Rightarrow>
          case transcription_event c transcript InputCaption (ct_input ct) of
            (t1, Inl e) \<Rightarrow> (out, t1, Inl e)
          | (t1, Inr es1) \<Rightarrow>
            if ct_interrupted ct then (out, t1, Inr (es1 @ [plain_event Interrupted], True))
            else case transcription_event c t1 OutputCaption (ct_output ct) of
              (t2, Inl e) \<Rightarrow> (out, t2, Inl e)
            | (t2, Inr es2) \<Rightarrow>
              case (case ct_turn ct of None \<Rightarrow> (out, t2, Inr (es1 @ es2))
                  | Some ps \<Rightarrow> parts_loop parse c (ct_complete ct) out t2 (es1 @ es2) ps) of
                (out', t3, Inl e) \<Rightarrow> (out', t3, Inl e)
              | (out', t3, Inr es3) \<Rightarrow>
                  (out', t3, Inr (es3 @ (if ct_complete ct then [(plain_event TurnComplete)\<lparr>ek_reason := ct_reason ct\<rparr>] else []), False)))"

text \<open>
  One turn of \<open>receiverLoop\<close>: the session's context has ended, the provider's read fails, or it gives a
  message.
\<close>

datatype provider_read = ContextEnded nv_error | ReadFailed | Message "message option"

definition receiver_turn :: "(string \<Rightarrow> (string \<times> (string \<times> string) list) option) \<Rightarrow> session \<Rightarrow> provider_read \<Rightarrow> session" where
  "receiver_turn parse s r =
     (case r of
        ContextEnded e \<Rightarrow> terminate s e
      | ReadFailed \<Rightarrow> terminate s ErrProvider
      | Message m \<Rightarrow>
        case decode_message parse (se_config s) (se_output_bytes s) (se_transcript_bytes s) m of
          (out, transcript, x) \<Rightarrow>
           (let s1 = s\<lparr>se_output_bytes := out, se_transcript_bytes := transcript\<rparr> in
            case x of
              Inl e \<Rightarrow> terminate s1 e
            | Inr (es, interrupted) \<Rightarrow>
              if es = [] then s1
              else case enqueue_events s1 es interrupted of
                (s2, Some e) \<Rightarrow> terminate s2 e
              | (s2, None) \<Rightarrow> s2))"

section \<open>Interleaved runs\<close>

datatype action = Start "nv_error option" | Send "nv_error option" | End "nv_error option" | Finish "nv_error option"
  | Commit "nv_error option" | Discard | Deliver event | NotDelivered | Read provider_read "event list" | Terminate nv_error

text \<open>The events of a read that reach the queue.\<close>

definition accepted_events :: "(string \<Rightarrow> (string \<times> (string \<times> string) list) option) \<Rightarrow> session \<Rightarrow> provider_read \<Rightarrow> event list" where
  "accepted_events parse s r =
     (case r of
        Message m \<Rightarrow>
          (case decode_message parse (se_config s) (se_output_bytes s) (se_transcript_bytes s) m of
             (_, _, Inr (es, interrupted)) \<Rightarrow>
               if es \<noteq> [] \<and> snd (enqueue_events s es interrupted) = None
               then (if interrupted \<or> se_discarded s then filter (\<lambda>e. \<not> gated e) es else es) else []
           | _ \<Rightarrow> [])
      | _ \<Rightarrow> [])"

text \<open>
  Input operations and commits wait for the input lock; everything else may happen at any time.
\<close>

inductive session_step :: "(string \<Rightarrow> (string \<times> (string \<times> string) list) option) \<Rightarrow> session \<Rightarrow> action \<Rightarrow> session \<Rightarrow> bool" for parse where
  start: "se_busy s = None \<Longrightarrow> start_activity s = (s', x) \<Longrightarrow> session_step parse s (Start x) s'"
| send: "se_busy s = None \<Longrightarrow> send_pcm s pcm = (s', x) \<Longrightarrow> session_step parse s (Send x) s'"
| ending: "se_busy s = None \<Longrightarrow> end_activity s = (s', x) \<Longrightarrow> session_step parse s (End x) s'"
| finish: "se_busy s \<noteq> None \<Longrightarrow> session_step parse s (Finish r) (finish_input s r)"
| commit: "se_busy s = None \<or> lock_error \<noteq> None \<Longrightarrow> commit_output s lock_error = (s', x) \<Longrightarrow> session_step parse s (Commit x) s'"
| discard: "session_step parse s Discard (discard_output s)"
| deliver: "receive s ctx_error = (s', Some (Inr e)) \<Longrightarrow> session_step parse s (Deliver e) s'"
| none: "receive s ctx_error = (s', Some (Inl e)) \<Longrightarrow> session_step parse s NotDelivered s'"
| read: "session_step parse s (Read r (accepted_events parse s r)) (receiver_turn parse s r)"
| terminate: "session_step parse s (Terminate e) (terminate s e)"

inductive_cases session_step_cases: "session_step parse s a s'"

section \<open>Sizes and order of the queue\<close>

lemma events_size_simps [simp]: "events_size [] = 0" "events_size (e # es) = event_size e + events_size es"
  "events_size (es @ fs) = events_size es + events_size fs"
  by (simp_all add: events_size_def)

lemma event_size_nonneg [simp]: "0 \<le> event_size e"
  by (simp add: event_size_def)

lemma events_size_nonneg [simp]: "0 \<le> events_size es"
  by (induction es) simp_all

lemma events_size_split: "events_size (filter P es) + events_size (filter (\<lambda>e. \<not> P e) es) = events_size es"
  by (induction es) simp_all

text \<open>What the gate keeps in every reachable state.\<close>

definition gate_ok :: "session \<Rightarrow> bool" where
  "gate_ok s \<longleftrightarrow> (\<forall>e \<in> set (se_held s). gated e)
     \<and> (se_committed s \<longrightarrow> se_held s = [] \<and> se_caption_final s \<and> se_caption_delivered s \<and> \<not> se_discarded s)
     \<and> (\<not> se_committed s \<longrightarrow> (\<forall>e \<in> set (se_ready s). \<not> gated e))
     \<and> (se_discarded s \<longrightarrow> se_held s = [])
     \<and> (se_terminal s \<noteq> None \<longrightarrow> se_ready s = [] \<and> se_held s = [])"

definition input_ok :: "session \<Rightarrow> bool" where
  "input_ok s \<longleftrightarrow> (se_committed s \<longrightarrow> se_started s) \<and> (se_ended s \<longrightarrow> se_started s \<and> \<not> se_input_active s)
     \<and> (se_input_active s \<longrightarrow> se_started s) \<and> (se_busy s = Some Starting \<longrightarrow> \<not> se_started s)
     \<and> 0 \<le> se_input_bytes s \<and> se_input_bytes s \<le> cf_max_input (se_config s)
     \<and> (se_busy s = Some Ending \<longrightarrow> se_started s)
     \<and> (\<forall>pcm. se_busy s = Some (Sending pcm) \<longrightarrow> se_input_bytes s + int (length pcm) \<le> cf_max_input (se_config s))"

definition queue_ok :: "session \<Rightarrow> bool" where
  "queue_ok s \<longleftrightarrow> se_buffered s = events_size (se_ready s) + events_size (se_held s)
     \<and> se_buffered s \<le> cf_max_pending (se_config s)
     \<and> int (length (se_ready s)) + int (length (se_held s)) \<le> cf_max_events (se_config s)"

definition counters_ok :: "session \<Rightarrow> bool" where
  "counters_ok s \<longleftrightarrow> 0 \<le> se_output_bytes s \<and> se_output_bytes s \<le> cf_max_output (se_config s)
     \<and> 0 \<le> se_transcript_bytes s \<and> se_transcript_bytes s \<le> cf_max_transcript (se_config s)"

lemmas session_ops = start_activity_def send_pcm_def end_activity_def finish_input_def commit_output_def discard_output_def
  receive_def terminate_def reset_output_gate_def discard_output_locked_def

lemma transcription_text_bounds:
  "transcription_text_event c t k text f = (t', x) \<Longrightarrow> 0 \<le> t \<Longrightarrow> t \<le> cf_max_transcript c \<Longrightarrow> 0 \<le> t' \<and> t' \<le> cf_max_transcript c"
  by (auto simp: transcription_text_event_def split: if_splits)

lemma transcription_bounds:
  "transcription_event c t k x = (t', y) \<Longrightarrow> 0 \<le> t \<Longrightarrow> t \<le> cf_max_transcript c \<Longrightarrow> 0 \<le> t' \<and> t' \<le> cf_max_transcript c"
  by (auto simp: transcription_event_def split: if_splits option.splits prod.splits sum.splits dest: transcription_text_bounds)

lemma parts_loop_bounds:
  "parts_loop parse c complete out t es ps = (out', t', x) \<Longrightarrow> 0 \<le> out \<Longrightarrow> out \<le> cf_max_output c \<Longrightarrow> 0 \<le> t \<Longrightarrow> t \<le> cf_max_transcript c
    \<Longrightarrow> 0 \<le> out' \<and> out' \<le> cf_max_output c \<and> 0 \<le> t' \<and> t' \<le> cf_max_transcript c"
proof (induction parse c complete out t es ps arbitrary: out' t' x rule: parts_loop.induct)
  case (3 parse c complete out t es p ps)
  then show ?case
    by (auto split: if_splits option.splits prod.splits sum.splits dest: transcription_text_bounds)
qed auto

lemma decode_bounds:
  "decode_message parse c out t m = (out', t', x) \<Longrightarrow> 0 \<le> out \<Longrightarrow> out \<le> cf_max_output c \<Longrightarrow> 0 \<le> t \<Longrightarrow> t \<le> cf_max_transcript c
    \<Longrightarrow> 0 \<le> out' \<and> out' \<le> cf_max_output c \<and> 0 \<le> t' \<and> t' \<le> cf_max_transcript c"
  by (auto simp: decode_message_def split: option.splits if_splits prod.splits sum.splits dest!: transcription_bounds parts_loop_bounds)


lemma discard_gate [simp]: "gate_ok s \<Longrightarrow> gate_ok (discard_output s)"
  by (simp add: gate_ok_def session_ops)

lemma discard_queue [simp]:
  assumes "queue_ok s"
  shows "queue_ok (discard_output_locked s)"
proof -
  have "events_size (filter (\<lambda>e. \<not> gated e) (se_ready s)) \<le> events_size (se_ready s)"
    using events_size_split [of gated "se_ready s"] events_size_nonneg [of "filter gated (se_ready s)"] by linarith
  moreover have l: "int (length (filter (\<lambda>e. \<not> gated e) (se_ready s))) \<le> int (length (se_ready s))" by simp
  moreover have "0 \<le> int (length (se_held s))" by simp
  ultimately have "se_buffered s - events_size (se_held s) - events_size (filter gated (se_ready s)) \<le> cf_max_pending (se_config s)
      \<and> int (length (filter (\<lambda>e. \<not> gated e) (se_ready s))) \<le> cf_max_events (se_config s)"
    using assms events_size_nonneg [of "se_held s"] events_size_nonneg [of "filter gated (se_ready s)"] unfolding queue_ok_def by linarith
  then show ?thesis
    using assms events_size_split [of gated "se_ready s"] unfolding queue_ok_def discard_output_locked_def by simp
qed

lemma length_filter_two: "length (filter P xs) + length (filter (\<lambda>x. \<not> P x) xs) = length xs"
  by (induction xs) simp_all

text \<open>One read of the provider's events.\<close>

definition enqueue_base :: "session \<Rightarrow> event list \<Rightarrow> bool \<Rightarrow> session" where
  "enqueue_base s es interrupted = (if interrupted then discard_output s else s)"

definition enqueue_kept :: "session \<Rightarrow> event list \<Rightarrow> bool \<Rightarrow> event list" where
  "enqueue_kept s es interrupted = (if se_discarded (enqueue_base s es interrupted) then filter (\<lambda>e. \<not> gated e) es else es)"

lemma enqueue_cases:
  obtains (ended) e where "se_terminal s = Some e" "enqueue_events s es i = (s, Some e)"
  | (full) b where "se_terminal s = None" "enqueue_events s es i = ((enqueue_base s es i)\<lparr>se_caption_final := b\<rparr>, Some ErrPendingLimit)"
      "se_caption_final s \<Longrightarrow> b"
  | (queued) s1 es1 b where "se_terminal s = None" "s1 = enqueue_base s es i" "es1 = enqueue_kept s es i"
      "se_caption_final s \<Longrightarrow> b"
      "int (length (se_ready s1)) + int (length (se_held s1)) + int (length es1) \<le> cf_max_events (se_config s)"
      "se_buffered s1 + events_size es1 \<le> cf_max_pending (se_config s)"
      "enqueue_events s es i = (s1\<lparr>se_caption_final := b, se_held := se_held s1 @ filter (\<lambda>e. gated e \<and> \<not> se_committed s1) es1,
         se_ready := se_ready s1 @ filter (\<lambda>e. \<not> (gated e \<and> \<not> se_committed s1)) es1, se_buffered := se_buffered s1 + events_size es1\<rparr>, None)"
proof (cases "se_terminal s")
  case None
  let ?s1 = "enqueue_base s es i" and ?es1 = "enqueue_kept s es i"
  let ?b = "se_caption_final ?s1 \<or> (\<exists>e \<in> set ?es1. ek_kind e = InputCaption \<and> ek_final e)"
  have c: "se_config ?s1 = se_config s" "se_caption_final ?s1 = se_caption_final s"
    by (simp_all add: enqueue_base_def session_ops)
  have eq: "enqueue_events s es i =
     (if int (length (se_ready ?s1)) + int (length (se_held ?s1)) + int (length ?es1) > cf_max_events (se_config s)
        \<or> se_buffered ?s1 > cf_max_pending (se_config s) - events_size ?es1
      then (?s1\<lparr>se_caption_final := ?b\<rparr>, Some ErrPendingLimit)
      else (?s1\<lparr>se_caption_final := ?b, se_held := se_held ?s1 @ filter (\<lambda>e. gated e \<and> \<not> se_committed ?s1) ?es1,
         se_ready := se_ready ?s1 @ filter (\<lambda>e. \<not> (gated e \<and> \<not> se_committed ?s1)) ?es1, se_buffered := se_buffered ?s1 + events_size ?es1\<rparr>, None))"
    unfolding enqueue_events_def enqueue_kept_def enqueue_base_def Let_def using None c by (simp add: enqueue_base_def)
  show ?thesis
  proof (cases "int (length (se_ready ?s1)) + int (length (se_held ?s1)) + int (length ?es1) > cf_max_events (se_config s)
        \<or> se_buffered ?s1 > cf_max_pending (se_config s) - events_size ?es1")
    case True
    then show ?thesis using None c eq full [of ?b] by simp
  next
    case False
    then show ?thesis using None c eq queued [of ?s1 ?es1 ?b] by simp
  qed
qed (use ended in \<open>simp add: enqueue_events_def\<close>)

lemma enqueue_gate:
  assumes "gate_ok s" "snd (enqueue_events s es i) = None"
  shows "gate_ok (fst (enqueue_events s es i))"
proof (cases rule: enqueue_cases [of s es i])
  case (queued s1 es1 b)
  have g: "gate_ok s1" using assms(1) queued(2) by (simp add: enqueue_base_def)
  have "se_discarded s1 \<longrightarrow> (\<forall>e \<in> set es1. \<not> gated e)" using queued(2,3) by (simp add: enqueue_kept_def)
  moreover have "se_terminal s1 = None" "se_caption_final s1 \<longrightarrow> b" using queued(1,2,4) by (auto simp: enqueue_base_def session_ops)
  ultimately show ?thesis using g queued(7) unfolding gate_ok_def by auto
qed (use assms in auto)

lemma enqueue_queue:
  assumes "queue_ok s" "snd (enqueue_events s es i) = None"
  shows "queue_ok (fst (enqueue_events s es i))"
proof (cases rule: enqueue_cases [of s es i])
  case (queued s1 es1 b)
  have q: "queue_ok s1" "se_config s1 = se_config s"
    using assms(1) queued(2) discard_queue [OF assms(1)] by (auto simp: enqueue_base_def discard_output_def queue_ok_def discard_output_locked_def)
  note sizes = events_size_split [of "\<lambda>e. gated e \<and> \<not> se_committed s1" es1] length_filter_two [of "\<lambda>e. gated e \<and> \<not> se_committed s1" es1]
  show ?thesis using q queued(5,6,7) sizes unfolding queue_ok_def by simp
qed (use assms in auto)


lemma terminate_ok [simp]:
  "gate_ok s \<or> se_terminal s = None \<and> (se_committed s \<longrightarrow> se_caption_final s \<and> se_caption_delivered s \<and> \<not> se_discarded s) \<Longrightarrow> gate_ok (terminate s e)"
  "input_ok s \<Longrightarrow> input_ok (terminate s e)" "counters_ok s \<Longrightarrow> counters_ok (terminate s e)"
  "se_config (terminate s e) = se_config s" "se_started (terminate s e) = se_started s" "se_committed (terminate s e) = se_committed s"
  "se_discarded (terminate s e) = se_discarded s" "se_caption_delivered (terminate s e) = se_caption_delivered s"
  by (auto simp: gate_ok_def input_ok_def counters_ok_def terminate_def split: option.splits)

definition limits_ok :: "config \<Rightarrow> bool" where
  "limits_ok c \<longleftrightarrow> 0 \<le> cf_max_input c \<and> 0 \<le> cf_max_output c \<and> 0 \<le> cf_max_transcript c \<and> 0 \<le> cf_max_pending c \<and> 0 \<le> cf_max_events c"

lemma terminate_queue: "limits_ok (se_config s) \<Longrightarrow> queue_ok s \<or> se_terminal s = None \<Longrightarrow> queue_ok (terminate s e)"
  by (auto simp: queue_ok_def limits_ok_def terminate_def split: option.splits)

lemma counters_self: "counters_ok s \<Longrightarrow> \<exists>out t. s = s\<lparr>se_output_bytes := out, se_transcript_bytes := t\<rparr> \<and> counters_ok s"
proof -
  have "s = s\<lparr>se_output_bytes := se_output_bytes s, se_transcript_bytes := se_transcript_bytes s\<rparr>" by simp
  then show "counters_ok s \<Longrightarrow> ?thesis" by blast
qed

text \<open>A turn of the receiver either enqueues the events of a message, or at most counts bytes, or ends the session.\<close>

lemma receiver_cases:
  assumes "counters_ok s"
  obtains (ended) e s1 where "receiver_turn parse s r = terminate s1 e" "accepted_events parse s r = []"
      "\<exists>out t. s1 = s\<lparr>se_output_bytes := out, se_transcript_bytes := t\<rparr> \<and> counters_ok s1"
  | (full) e s1 es i where "receiver_turn parse s r = terminate (fst (enqueue_events s1 es i)) e" "accepted_events parse s r = []"
      "snd (enqueue_events s1 es i) = Some e" "\<exists>out t. s1 = s\<lparr>se_output_bytes := out, se_transcript_bytes := t\<rparr> \<and> counters_ok s1"
  | (counted) s1 where "receiver_turn parse s r = s1" "accepted_events parse s r = []"
      "\<exists>out t. s1 = s\<lparr>se_output_bytes := out, se_transcript_bytes := t\<rparr> \<and> counters_ok s1"
  | (queued) s1 es i where "receiver_turn parse s r = fst (enqueue_events s1 es i)" "snd (enqueue_events s1 es i) = None"
      "accepted_events parse s r = enqueue_kept s1 es i"
      "\<exists>out t. s1 = s\<lparr>se_output_bytes := out, se_transcript_bytes := t\<rparr> \<and> counters_ok s1"
proof (cases r)
  case (ContextEnded e)
  then show ?thesis using counters_self [OF assms] by (intro ended [of s e]) (simp_all add: receiver_turn_def accepted_events_def)
next
  case ReadFailed
  then show ?thesis using counters_self [OF assms] by (intro ended [of s ErrProvider]) (simp_all add: receiver_turn_def accepted_events_def)
next
  case (Message m)
  obtain out t x where d: "decode_message parse (se_config s) (se_output_bytes s) (se_transcript_bytes s) m = (out, t, x)"
    by (metis prod_cases3)
  let ?s1 = "s\<lparr>se_output_bytes := out, se_transcript_bytes := t\<rparr>"
  have c: "counters_ok ?s1" using decode_bounds [OF d] assms by (auto simp: counters_ok_def)
  then have s1: "\<exists>out' t'. ?s1 = s\<lparr>se_output_bytes := out', se_transcript_bytes := t'\<rparr> \<and> counters_ok ?s1" by blast
  have terminal: "snd (enqueue_events s es i) = snd (enqueue_events ?s1 es i)" for es i
    by (simp add: enqueue_events_def Let_def discard_output_def discard_output_locked_def split: option.splits)
  show ?thesis
  proof (cases x)
    case (Inl e)
    then show ?thesis using d Message s1 by (intro ended [of ?s1 e]) (simp_all add: receiver_turn_def accepted_events_def)
  next
    case (Inr y)
    obtain es i where y: "y = (es, i)" by fastforce
    show ?thesis
    proof (cases "es = []")
      case True
      then show ?thesis using d Message s1 Inr y by (intro counted) (simp_all add: receiver_turn_def accepted_events_def)
    next
      case nonempty: False
      show ?thesis
      proof (cases "snd (enqueue_events ?s1 es i)")
        case None
        have "accepted_events parse s r = enqueue_kept ?s1 es i"
          using d Message Inr y nonempty None terminal
          by (simp add: accepted_events_def enqueue_kept_def enqueue_base_def discard_output_def)
        then show ?thesis using d Message s1 Inr y nonempty None
          by (intro queued [of ?s1 es i]) (simp_all add: receiver_turn_def case_prod_beta)
      next
        case (Some e)
        then show ?thesis using d Message s1 Inr y nonempty terminal
          by (intro full [of ?s1 es i e]) (auto simp add: receiver_turn_def accepted_events_def case_prod_beta)
      qed
    qed
  qed
qed


section \<open>Every step keeps the invariant\<close>

definition session_ok :: "session \<Rightarrow> bool" where
  "session_ok s \<longleftrightarrow> limits_ok (se_config s) \<and> gate_ok s \<and> input_ok s \<and> queue_ok s \<and> counters_ok s"

lemma enqueue_fields:
  "se_config (fst (enqueue_events s es i)) = se_config s" "se_started (fst (enqueue_events s es i)) = se_started s"
  "se_ended (fst (enqueue_events s es i)) = se_ended s" "se_input_active (fst (enqueue_events s es i)) = se_input_active s"
  "se_busy (fst (enqueue_events s es i)) = se_busy s" "se_input_bytes (fst (enqueue_events s es i)) = se_input_bytes s"
  "se_output_bytes (fst (enqueue_events s es i)) = se_output_bytes s" "se_transcript_bytes (fst (enqueue_events s es i)) = se_transcript_bytes s"
  by (simp_all add: enqueue_events_def Let_def discard_output_def discard_output_locked_def split: option.split)

lemma enqueue_committed: "se_committed (fst (enqueue_events s es i)) \<Longrightarrow> se_committed s"
  by (simp add: enqueue_events_def Let_def discard_output_def discard_output_locked_def split: option.splits if_splits)

lemma enqueue_input: "input_ok s \<Longrightarrow> input_ok (fst (enqueue_events s es i))"
  "counters_ok s \<Longrightarrow> counters_ok (fst (enqueue_events s es i))"
  using enqueue_committed [of s es i] by (simp_all add: input_ok_def counters_ok_def enqueue_fields)

lemma terminate_gate: "se_terminal s = None \<Longrightarrow> (se_committed s \<Longrightarrow> se_caption_final s \<and> se_caption_delivered s \<and> \<not> se_discarded s) \<Longrightarrow> gate_ok (terminate s e)"
  by (simp add: gate_ok_def terminate_def)

lemma enqueue_full_gate:
  assumes "gate_ok s" "snd (enqueue_events s es i) = Some e"
  shows "gate_ok (terminate (fst (enqueue_events s es i)) e')" "limits_ok (se_config s) \<Longrightarrow> queue_ok s \<Longrightarrow> queue_ok (terminate (fst (enqueue_events s es i)) e')"
proof -
  have g: "gate_ok (enqueue_base s es i)" using assms(1) by (simp add: enqueue_base_def)
  have t: "se_terminal (enqueue_base s es i) = se_terminal s" "se_config (enqueue_base s es i) = se_config s"
    "se_caption_final (enqueue_base s es i) = se_caption_final s"
    by (simp_all add: enqueue_base_def session_ops)
  show "gate_ok (terminate (fst (enqueue_events s es i)) e')"
  proof (cases rule: enqueue_cases [of s es i])
    case (ended e)
    then show ?thesis using assms(1) by simp
  next
    case (full b)
    have "se_committed (enqueue_base s es i) \<Longrightarrow> se_caption_final s \<and> se_caption_delivered (enqueue_base s es i) \<and> \<not> se_discarded (enqueue_base s es i)"
      using g t by (simp add: gate_ok_def)
    then show ?thesis unfolding full(2) fst_conv using full(1,3) t by (intro terminate_gate) auto
  qed (use assms(2) in simp)
  show "queue_ok (terminate (fst (enqueue_events s es i)) e')" if "limits_ok (se_config s)" "queue_ok s"
  proof (cases rule: enqueue_cases [of s es i])
    case (ended e)
    then show ?thesis using that by (simp add: terminate_queue)
  next
    case (full b)
    then show ?thesis using that t by (auto intro!: terminate_queue)
  qed (use assms(2) in simp)
qed

lemma counted_ok:
  "gate_ok (s\<lparr>se_output_bytes := out, se_transcript_bytes := t\<rparr>) = gate_ok s"
  "input_ok (s\<lparr>se_output_bytes := out, se_transcript_bytes := t\<rparr>) = input_ok s"
  "queue_ok (s\<lparr>se_output_bytes := out, se_transcript_bytes := t\<rparr>) = queue_ok s"
  by (simp_all add: gate_ok_def input_ok_def queue_ok_def)

lemma receiver_ok:
  assumes "session_ok s"
  shows "session_ok (receiver_turn parse s r)"
proof -
  have c: "counters_ok s" using assms by (simp add: session_ok_def)
  have upd: "session_ok s1" if "\<exists>out t. s1 = s\<lparr>se_output_bytes := out, se_transcript_bytes := t\<rparr> \<and> counters_ok s1" for s1
    using that assms by (auto simp: session_ok_def counted_ok)
  show ?thesis
  proof (cases rule: receiver_cases [OF c, of parse r])
    case (1 e s1)
    then show ?thesis using upd [OF 1(3)] by (simp add: session_ok_def terminate_queue)
  next
    case (2 e s1 es i)
    then show ?thesis using upd [OF 2(4)] enqueue_full_gate [OF _ 2(3)] by (simp add: session_ok_def enqueue_input enqueue_fields)
  next
    case (3 s1)
    then show ?thesis using upd by simp
  next
    case (4 s1 es i)
    then show ?thesis using upd [OF 4(4)] by (simp add: session_ok_def enqueue_input enqueue_gate enqueue_queue enqueue_fields)
  qed
qed

lemma config_steps [simp]:
  "se_config (fst (start_activity s)) = se_config s" "se_config (fst (send_pcm s pcm)) = se_config s" "se_config (fst (end_activity s)) = se_config s"
  "se_config (fst (commit_output s le)) = se_config s" "se_config (finish_input s r) = se_config s" "se_config (discard_output s) = se_config s"
  "se_config (fst (receive s ce)) = se_config s"
  by (simp_all add: session_ops split: option.split list.split input_op.split)

lemma counters_steps:
  assumes "counters_ok s"
  shows "counters_ok (fst (start_activity s))" "counters_ok (fst (send_pcm s pcm))" "counters_ok (fst (end_activity s))"
    "counters_ok (fst (commit_output s le))" "counters_ok (finish_input s r)" "counters_ok (discard_output s)" "counters_ok (fst (receive s ce))"
  using assms by (simp_all add: counters_ok_def session_ops split: option.split list.split input_op.split)

lemma gate_steps:
  assumes "gate_ok s"
  shows "gate_ok (fst (start_activity s))" "gate_ok (fst (send_pcm s pcm))" "gate_ok (fst (end_activity s))"
    "gate_ok (fst (commit_output s le))" "gate_ok (finish_input s r)" "gate_ok (fst (receive s ce))"
proof -
  show "gate_ok (fst (start_activity s))" using assms
    by (simp add: start_activity_def reset_output_gate_def discard_output_locked_def gate_ok_def split: option.split)
  show "gate_ok (fst (send_pcm s pcm))" using assms
    by (simp add: send_pcm_def split: option.split) (simp add: gate_ok_def)
  show "gate_ok (fst (end_activity s))" using assms by (simp add: end_activity_def gate_ok_def split: option.split)
  show "gate_ok (fst (commit_output s le))" using assms by (simp add: commit_output_def gate_ok_def split: option.split)
  show "gate_ok (finish_input s r)" using assms by (simp add: finish_input_def gate_ok_def split: option.split input_op.split)
  show "gate_ok (fst (receive s ce))" using assms by (auto simp: receive_def gate_ok_def split: option.split list.split)
qed

lemma input_steps:
  assumes "input_ok s" "se_busy s = None"
  shows "input_ok (fst (start_activity s))" "input_ok (fst (send_pcm s pcm))" "input_ok (fst (end_activity s))" "input_ok (fst (commit_output s le))"
  using assms by (auto simp: input_ok_def session_ops split: option.splits)

lemma input_steps':
  assumes "input_ok s"
  shows "input_ok (finish_input s r)" "input_ok (discard_output s)" "input_ok (fst (receive s ce))" "input_ok (fst (commit_output s (Some e)))"
proof -
  show "input_ok (finish_input s r)"
    using assms by (cases "se_busy s"; cases r) (simp_all add: input_ok_def finish_input_def split: input_op.split)
  show "input_ok (discard_output s)" "input_ok (fst (receive s ce))" "input_ok (fst (commit_output s (Some e)))"
    using assms by (simp_all add: input_ok_def session_ops split: option.split list.split)
qed

lemma queue_steps:
  assumes "queue_ok s" "limits_ok (se_config s)"
  shows "queue_ok (fst (start_activity s))" "queue_ok (fst (send_pcm s pcm))" "queue_ok (fst (end_activity s))"
    "queue_ok (fst (commit_output s le))" "queue_ok (finish_input s r)" "queue_ok (discard_output s)" "queue_ok (fst (receive s ce))"
proof -
  have upd: "queue_ok (discard_output_locked s)" using assms(1) by simp
  show "queue_ok (fst (start_activity s))" using assms(1) upd
    unfolding queue_ok_def by (simp add: start_activity_def reset_output_gate_def split: option.split)
  show "queue_ok (fst (send_pcm s pcm))" using assms terminate_queue [of s ErrInputLimit]
    by (simp add: send_pcm_def split: option.split) (simp add: queue_ok_def)
  show "queue_ok (fst (end_activity s))" using assms(1) by (simp add: end_activity_def queue_ok_def split: option.split)
  show "queue_ok (fst (commit_output s le))" using assms(1) by (simp add: commit_output_def queue_ok_def split: option.split)
  show "queue_ok (finish_input s r)" using assms(1) by (simp add: finish_input_def queue_ok_def split: option.split input_op.split)
  show "queue_ok (discard_output s)" using upd by (simp add: discard_output_def queue_ok_def)
  have "queue_ok (fst (receive s ce))" if "se_ready s = e # es" for e es
    using assms(1) that event_size_nonneg [of e] by (simp add: receive_def queue_ok_def del: event_size_nonneg split: option.split)
  then show "queue_ok (fst (receive s ce))" using assms(1) by (cases "se_ready s") (simp_all add: receive_def split: option.split)
qed

lemmas op_keeps = config_steps counters_steps gate_steps input_steps input_steps' queue_steps

lemma session_ok_steps:
  assumes "session_ok s"
  shows "se_busy s = None \<Longrightarrow> session_ok (fst (start_activity s))" "se_busy s = None \<Longrightarrow> session_ok (fst (send_pcm s pcm))"
    "se_busy s = None \<Longrightarrow> session_ok (fst (end_activity s))" "se_busy s = None \<or> le \<noteq> None \<Longrightarrow> session_ok (fst (commit_output s le))"
    "session_ok (finish_input s r)" "session_ok (discard_output s)" "session_ok (fst (receive s ce))" "session_ok (terminate s e)"
  using assms by (auto simp: session_ok_def op_keeps terminate_queue)

lemma session_step_ok:
  assumes ok: "session_ok s" and "session_step parse s a s'"
  shows "session_ok s'"
  using assms(2)
proof cases
  case (start x)
  then show ?thesis using session_ok_steps(1) [OF ok] by simp
next
  case (send pcm x)
  then show ?thesis using session_ok_steps(2) [OF ok, of pcm] by simp
next
  case (ending x)
  then show ?thesis using session_ok_steps(3) [OF ok] by simp
next
  case (finish r)
  then show ?thesis using session_ok_steps(5) [OF ok] by simp
next
  case (commit lock_error x)
  then show ?thesis using session_ok_steps(4) [OF ok, of lock_error] by simp
next
  case discard
  then show ?thesis using session_ok_steps(6) [OF ok] by simp
next
  case (deliver ctx_error e)
  then show ?thesis using session_ok_steps(7) [OF ok, of ctx_error] by simp
next
  case (none ctx_error e)
  then show ?thesis using session_ok_steps(7) [OF ok, of ctx_error] by simp
next
  case (read r)
  then show ?thesis using receiver_ok [OF ok] by simp
next
  case (terminate e)
  then show ?thesis using session_ok_steps(8) [OF ok] by simp
qed

lemma session_run_ok: "run_of (session_step parse) s es s' \<Longrightarrow> session_ok s \<Longrightarrow> session_ok s'"
  by (erule run_of_invariant) (auto intro: session_step_ok)

lemma new_session_ok: "limits_ok c \<Longrightarrow> session_ok (new_session c)"
  by (simp add: session_ok_def new_session_def gate_ok_def input_ok_def queue_ok_def counters_ok_def limits_ok_def)

lemma normalized_limits:
  assumes "normalize_config c0 = Inr c"
  shows "limits_ok c" "cf_max_input c \<le> 16777216" "cf_max_output c \<le> 33554432" "cf_max_pending c \<le> 8388608" "cf_max_events c \<le> 1024"
    "cf_max_transcript c \<le> 1048576"
  using assms by (simp_all add: normalize_config_def Let_def limits_ok_def input_frame_bytes_def split: if_splits)


section \<open>What a step does to the gate and the queue\<close>

fun delivered :: "action \<Rightarrow> event list" where
  "delivered (Deliver e) = [e]"
| "delivered _ = []"

fun accepted :: "action \<Rightarrow> event list" where
  "accepted (Read r es) = es"
| "accepted _ = []"

definition final_caption :: "event \<Rightarrow> bool" where
  "final_caption e \<longleftrightarrow> ek_kind e = InputCaption \<and> ek_final e"

definition outputs :: "session \<Rightarrow> event list" where
  "outputs s = filter gated (se_ready s) @ se_held s"

definition signals :: "session \<Rightarrow> event list" where
  "signals s = filter (\<lambda>e. \<not> gated e) (se_ready s)"

lemma filter_held: "gate_ok s \<Longrightarrow> filter gated (se_held s) = se_held s" "gate_ok s \<Longrightarrow> filter (\<lambda>e. \<not> gated e) (se_held s) = []"
  by (auto simp: gate_ok_def filter_id_conv filter_empty_conv)

text \<open>The queue after an enqueued message.\<close>

lemma enqueue_queued:
  assumes "gate_ok s" "snd (enqueue_events s es i) = None"
  shows "signals (fst (enqueue_events s es i)) = signals s @ filter (\<lambda>e. \<not> gated e) (enqueue_kept s es i)"
    "\<not> se_discarded (fst (enqueue_events s es i)) \<Longrightarrow> outputs (fst (enqueue_events s es i)) = outputs s @ filter gated (enqueue_kept s es i)"
    "se_discarded s \<Longrightarrow> se_discarded (fst (enqueue_events s es i))"
    "se_committed (fst (enqueue_events s es i)) \<Longrightarrow> se_committed s"
    "se_caption_delivered (fst (enqueue_events s es i)) = se_caption_delivered s"
    "se_terminal s = None" "se_terminal (fst (enqueue_events s es i)) = None"
proof -
  have comp: "filter (\<lambda>e. \<not> gated e) (filter (\<lambda>e. \<not> (gated e \<and> \<not> c)) xs) = filter (\<lambda>e. \<not> gated e) xs"
    "filter (\<lambda>e. gated e \<and> c) xs = (if c then filter gated xs else [])"
    "filter (\<lambda>e. gated e \<and> \<not> c) xs = (if c then [] else filter gated xs)" for c and xs :: "event list"
    by (auto intro: filter_cong)
  have base: "signals (enqueue_base s es i) = signals s" "se_discarded s \<Longrightarrow> se_discarded (enqueue_base s es i)"
    "\<not> se_discarded (enqueue_base s es i) \<Longrightarrow> outputs (enqueue_base s es i) = outputs s"
    "se_committed (enqueue_base s es i) \<Longrightarrow> se_committed s" "se_caption_delivered (enqueue_base s es i) = se_caption_delivered s"
    "se_terminal (enqueue_base s es i) = se_terminal s"
    by (auto simp: enqueue_base_def signals_def outputs_def discard_output_def discard_output_locked_def split: if_splits)
  have gate: "gate_ok (enqueue_base s es i)" using assms(1) by (simp add: enqueue_base_def)
  have "(signals (fst (enqueue_events s es i)) = signals s @ filter (\<lambda>e. \<not> gated e) (enqueue_kept s es i))
    \<and> (\<not> se_discarded (fst (enqueue_events s es i)) \<longrightarrow> outputs (fst (enqueue_events s es i)) = outputs s @ filter gated (enqueue_kept s es i))
    \<and> (se_discarded s \<longrightarrow> se_discarded (fst (enqueue_events s es i)))
    \<and> (se_committed (fst (enqueue_events s es i)) \<longrightarrow> se_committed s)
    \<and> se_caption_delivered (fst (enqueue_events s es i)) = se_caption_delivered s
    \<and> se_terminal s = None \<and> se_terminal (fst (enqueue_events s es i)) = None"
  proof (cases rule: enqueue_cases [of s es i])
    case (queued s1 es1 b)
    have "outputs (fst (enqueue_events s es i)) = outputs s1 @ filter gated es1" if "\<not> se_discarded s1"
    proof (cases "se_committed s1")
      case True
      then have "se_held s1 = []" using gate queued(2) by (simp add: gate_ok_def)
      then show ?thesis using True queued(7) by (simp add: outputs_def)
    next
      case False
      have "filter gated (filter (\<lambda>e. \<not> gated e) es1) = []" by (simp add: filter_empty_conv)
      then show ?thesis using False queued(7) by (simp add: outputs_def)
    qed
    moreover have "signals (fst (enqueue_events s es i)) = signals s1 @ filter (\<lambda>e. \<not> gated e) es1"
      using queued(7) comp(1) [of "se_committed s1" es1] by (simp add: signals_def)
    ultimately show ?thesis using base queued by auto
  qed (use assms(2) in auto)
  then show "signals (fst (enqueue_events s es i)) = signals s @ filter (\<lambda>e. \<not> gated e) (enqueue_kept s es i)"
    "\<not> se_discarded (fst (enqueue_events s es i)) \<Longrightarrow> outputs (fst (enqueue_events s es i)) = outputs s @ filter gated (enqueue_kept s es i)"
    "se_discarded s \<Longrightarrow> se_discarded (fst (enqueue_events s es i))"
    "se_committed (fst (enqueue_events s es i)) \<Longrightarrow> se_committed s"
    "se_caption_delivered (fst (enqueue_events s es i)) = se_caption_delivered s"
    "se_terminal s = None" "se_terminal (fst (enqueue_events s es i)) = None" by blast+
qed

text \<open>The effect of a step, in the terms of the properties.\<close>

definition step_effect :: "session \<Rightarrow> action \<Rightarrow> session \<Rightarrow> bool" where
  "step_effect s a s' \<longleftrightarrow>
     (se_committed s' \<longrightarrow> se_committed s \<and> a \<noteq> Discard \<or> a = Commit None \<and> se_caption_delivered s)
     \<and> (se_caption_delivered s' \<longrightarrow> se_caption_delivered s \<or> (\<exists>e. a = Deliver e \<and> final_caption e))
     \<and> (se_started s \<longrightarrow> se_started s' \<and> (se_discarded s \<longrightarrow> se_discarded s'))
     \<and> (a = Discard \<longrightarrow> se_discarded s')
     \<and> (\<forall>e. a = Deliver e \<longrightarrow> gated e \<longrightarrow> se_committed s)
     \<and> (se_terminal s' = None \<longrightarrow> se_terminal s = None
         \<and> signals s @ filter (\<lambda>e. \<not> gated e) (accepted a) = filter (\<lambda>e. \<not> gated e) (delivered a) @ signals s'
         \<and> (se_started s \<and> \<not> se_discarded s' \<longrightarrow> outputs s @ filter gated (accepted a) = filter gated (delivered a) @ outputs s'))"

lemma terminate_terminal [simp]: "se_terminal (terminate s e) \<noteq> None"
  by (simp add: terminate_def split: option.split)

lemma counted_views:
  "signals (s\<lparr>se_output_bytes := out, se_transcript_bytes := t\<rparr>) = signals s" "outputs (s\<lparr>se_output_bytes := out, se_transcript_bytes := t\<rparr>) = outputs s"
  by (simp_all add: signals_def outputs_def)

lemma receiver_effect:
  assumes "session_ok s"
  shows "step_effect s (Read r (accepted_events parse s r)) (receiver_turn parse s r)"
proof -
  have c: "counters_ok s" using assms by (simp add: session_ok_def)
  show ?thesis
  proof (cases rule: receiver_cases [OF c, of parse r])
    case (1 e s1)
    then show ?thesis by (auto simp: step_effect_def)
  next
    case (2 e s1 es i)
    have "se_committed (fst (enqueue_events s1 es i)) \<Longrightarrow> se_committed s1" by (rule enqueue_committed)
    moreover have "se_caption_delivered (fst (enqueue_events s1 es i)) = se_caption_delivered s1"
      "se_discarded s1 \<Longrightarrow> se_discarded (fst (enqueue_events s1 es i))"
      by (simp_all add: enqueue_events_def Let_def discard_output_def discard_output_locked_def split: option.split)
    ultimately show ?thesis using 2 by (auto simp: step_effect_def enqueue_fields)
  next
    case (3 s1)
    then show ?thesis by (auto simp: step_effect_def counted_views)
  next
    case (4 s1 es i)
    then have "gate_ok s1" using assms by (auto simp: session_ok_def counted_ok)
    note q = enqueue_queued [OF this 4(2)]
    show ?thesis using 4 q by (auto simp: step_effect_def enqueue_fields counted_views)
  qed
qed

lemma start_effect: "start_activity s = (s', x) \<Longrightarrow> step_effect s (Start x) s'"
  by (cases "se_terminal s") (auto simp: start_activity_def step_effect_def reset_output_gate_def discard_output_locked_def signals_def outputs_def split: option.splits if_splits)

lemma send_effect: "send_pcm s pcm = (s', x) \<Longrightarrow> step_effect s (Send x) s'"
  by (cases "se_terminal s") (auto simp: send_pcm_def step_effect_def signals_def outputs_def split: option.splits if_splits, metis)

lemma end_effect: "end_activity s = (s', x) \<Longrightarrow> step_effect s (End x) s'"
  by (cases "se_terminal s") (auto simp: end_activity_def step_effect_def signals_def outputs_def split: option.splits if_splits)

lemma finish_effect: "step_effect s (Finish r) (finish_input s r)"
  by (cases "se_busy s"; cases r) (simp_all add: finish_input_def step_effect_def signals_def outputs_def split: input_op.split)

lemma commit_effect:
  assumes "gate_ok s" "commit_output s le = (s', x)"
  shows "step_effect s (Commit x) s'"
  using assms filter_held [OF assms(1)]
  by (auto simp: commit_output_def step_effect_def signals_def outputs_def split: option.splits if_splits)

lemma discard_effect: "step_effect s Discard (discard_output s)"
  by (simp add: step_effect_def discard_output_def discard_output_locked_def signals_def outputs_def)

lemma deliver_effect:
  assumes "gate_ok s" "receive s ce = (s', Some (Inr e))"
  shows "step_effect s (Deliver e) s'"
  using assms by (auto simp: receive_def step_effect_def signals_def outputs_def final_caption_def gate_ok_def split: option.splits list.splits)

lemma none_effect: "receive s ce = (s', Some (Inl e)) \<Longrightarrow> step_effect s NotDelivered s'"
  by (auto simp: receive_def step_effect_def split: option.splits list.splits)

lemma terminate_effect: "step_effect s (Terminate e) (terminate s e)"
  by (simp add: step_effect_def)

lemma session_step_effect:
  assumes "session_ok s" "session_step parse s a s'"
  shows "step_effect s a s'"
proof -
  have gate: "gate_ok s" using assms(1) by (simp add: session_ok_def)
  from assms(2) show ?thesis
    by cases (auto intro: start_effect send_effect end_effect finish_effect commit_effect [OF gate] discard_effect deliver_effect [OF gate]
      none_effect terminate_effect receiver_effect [OF assms(1)])
qed

text \<open>Over a run.\<close>

lemma run_history:
  assumes "run_of (session_step parse) s es s'" "session_ok s" "\<not> se_committed s" "\<not> se_caption_delivered s"
  shows "(se_caption_delivered s' \<longrightarrow> (\<exists>e. Deliver e \<in> set es \<and> final_caption e))
    \<and> (se_committed s' \<longrightarrow> (\<exists>pre post e. es = pre @ Commit None # post \<and> Discard \<notin> set post \<and> Deliver e \<in> set pre \<and> final_caption e))"
  using assms
proof (induction rule: run_of.induct)
  case (snoc s es s' a s'')
  have "session_ok s'" by (rule session_run_ok [OF snoc.hyps(1) snoc.prems(1)])
  then have eff: "step_effect s' a s''" by (rule session_step_effect) (rule snoc.hyps(2))
  note IH = snoc.IH [OF snoc.prems]
  have "\<exists>pre post e. es @ [a] = pre @ Commit None # post \<and> Discard \<notin> set post \<and> Deliver e \<in> set pre \<and> final_caption e" if "se_committed s''"
  proof (cases "a = Commit None \<and> se_caption_delivered s'")
    case True
    then show ?thesis using IH by fastforce
  next
    case False
    then have "se_committed s'" "a \<noteq> Discard" using eff that by (auto simp: step_effect_def)
    then obtain pre post e where "es = pre @ Commit None # post" "Discard \<notin> set post" "Deliver e \<in> set pre" "final_caption e" using IH by blast
    then show ?thesis using \<open>a \<noteq> Discard\<close> by (intro exI [of _ pre] exI [of _ "post @ [a]"] exI [of _ e]) auto
  qed
  moreover have "\<exists>e. Deliver e \<in> set (es @ [a]) \<and> final_caption e" if "se_caption_delivered s''"
    using eff that IH by (auto simp: step_effect_def)
  ultimately show ?case by blast
qed simp

lemma run_order:
  assumes "run_of (session_step parse) s es s'" "session_ok s"
  shows "(se_started s \<longrightarrow> se_started s' \<and> (se_discarded s \<longrightarrow> se_discarded s'))
    \<and> (se_terminal s' = None \<longrightarrow> se_terminal s = None
      \<and> signals s @ filter (\<lambda>e. \<not> gated e) (concat (List.map accepted es)) = filter (\<lambda>e. \<not> gated e) (concat (List.map delivered es)) @ signals s'
      \<and> (se_started s \<and> \<not> se_discarded s' \<longrightarrow>
          outputs s @ filter gated (concat (List.map accepted es)) = filter gated (concat (List.map delivered es)) @ outputs s'))"
  using assms
proof (induction rule: run_of.induct)
  case (snoc s es s' a s'')
  have "session_ok s'" by (rule session_run_ok [OF snoc.hyps(1) snoc.prems(1)])
  then have eff: "step_effect s' a s''" by (rule session_step_effect) (rule snoc.hyps(2))
  note IH = snoc.IH [OF snoc.prems]
  have app: "xs @ ys @ zs = (us @ vs) @ ws" if "xs @ ys = us @ ts" "ts @ zs = vs @ ws" for xs ys zs us vs ws ts :: "event list"
    using that by (metis append.assoc)
  have keep: "se_started s \<longrightarrow> se_started s'' \<and> (se_discarded s \<longrightarrow> se_discarded s'')"
    using IH eff by (simp add: step_effect_def)
  have order: "se_terminal s = None
      \<and> signals s @ filter (\<lambda>e. \<not> gated e) (concat (List.map accepted (es @ [a])))
        = filter (\<lambda>e. \<not> gated e) (concat (List.map delivered (es @ [a]))) @ signals s''
      \<and> (se_started s \<and> \<not> se_discarded s'' \<longrightarrow>
          outputs s @ filter gated (concat (List.map accepted (es @ [a]))) = filter gated (concat (List.map delivered (es @ [a]))) @ outputs s'')"
    if t: "se_terminal s'' = None"
  proof -
    have e: "se_terminal s' = None"
      "signals s' @ filter (\<lambda>e. \<not> gated e) (accepted a) = filter (\<lambda>e. \<not> gated e) (delivered a) @ signals s''"
      "se_started s' \<and> \<not> se_discarded s'' \<longrightarrow> outputs s' @ filter gated (accepted a) = filter gated (delivered a) @ outputs s''"
      "se_started s' \<longrightarrow> se_discarded s' \<longrightarrow> se_discarded s''"
      using eff t by (simp_all add: step_effect_def)
    have i: "se_terminal s = None"
      "signals s @ filter (\<lambda>e. \<not> gated e) (concat (List.map accepted es)) = filter (\<lambda>e. \<not> gated e) (concat (List.map delivered es)) @ signals s'"
      "se_started s \<and> \<not> se_discarded s' \<longrightarrow>
          outputs s @ filter gated (concat (List.map accepted es)) = filter gated (concat (List.map delivered es)) @ outputs s'"
      "se_started s \<longrightarrow> se_started s'"
      using IH e(1) by simp_all
    show ?thesis using i(1) app [OF i(2) e(2)] app [OF i(3) [rule_format] e(3) [rule_format]] e(4) i(4) by auto
  qed
  show ?case using keep order by blast
qed simp


section \<open>A sample turn\<close>

definition sample_config :: config where
  "sample_config = \<lparr>cf_project = ''p'', cf_location = [], cf_model = [], cf_voice = [], cf_prompt = ''x'', cf_setup_timeout = 0,
     cf_session_timeout = 0, cf_send_timeout = 0, cf_max_input = 0, cf_max_output = 0, cf_max_chunk = 0, cf_max_pending = 0,
     cf_max_events = 0, cf_max_transcript = 0, cf_max_tokens = 0\<rparr>"

definition turn_config :: config where
  "turn_config = \<lparr>cf_project = ''p'', cf_location = default_location, cf_model = default_model, cf_voice = default_voice, cf_prompt = ''x'',
     cf_setup_timeout = 12 * second, cf_session_timeout = 2 * minute, cf_send_timeout = 5 * second, cf_max_input = 4194304,
     cf_max_output = 8388608, cf_max_chunk = 1048576, cf_max_pending = 2097152, cf_max_events = 128, cf_max_transcript = 65536,
     cf_max_tokens = 384\<rparr>"

lemma turn_config_ok: "normalize_config sample_config = Inr turn_config"
proof -
  have "trim_space ''p'' = ''p''" "trim_space ''x'' = ''x''" "utf8_valid ''x''" by code_simp+
  then have "with_defaults sample_config = turn_config"
    by (simp add: with_defaults_def sample_config_def turn_config_def or_default_def)
  then show ?thesis using \<open>utf8_valid ''x''\<close>
    by (simp add: normalize_config_def turn_config_def input_frame_bytes_def hard_max_prompt_def)
qed

definition pcm_only :: "string \<Rightarrow> (string \<times> (string \<times> string) list) option" where
  "pcm_only v = Some (''audio/pcm'', [])"

definition answer :: message where
  "answer = \<lparr>me_setup = False, me_tool = False, me_tool_cancel = False, me_resumption = False, me_go_away = False,
     me_content = Some \<lparr>ct_input = Some \<lparr>tr_text = ''hai'', tr_finished = True\<rparr>, ct_interrupted = False, ct_output = None,
       ct_turn = Some [Some \<lparr>pt_disabled = False, pt_text = [], pt_blob = Some \<lparr>bl_mime = ''audio/pcm'', bl_data = ''ab''\<rparr>\<rparr>],
       ct_complete = False, ct_reason = []\<rparr>\<rparr>"

definition heard_caption :: event where
  "heard_caption = (plain_event InputCaption)\<lparr>ek_caption := ''hai'', ek_final := True\<rparr>"

definition heard_audio :: event where
  "heard_audio = (plain_event AudioPCM)\<lparr>ek_pcm := ''ab'', ek_rate := 24000\<rparr>"

definition spoken :: session where
  "spoken = (new_session turn_config)\<lparr>se_started := True, se_ended := True\<rparr>"

definition answered :: session where
  "answered = spoken\<lparr>se_ready := [heard_caption], se_held := [heard_audio], se_buffered := 5, se_caption_final := True,
     se_output_bytes := 2, se_transcript_bytes := 3\<rparr>"

definition opened :: session where
  "opened = answered\<lparr>se_ready := [heard_audio], se_held := [], se_buffered := 2, se_caption_delivered := True, se_committed := True\<rparr>"

lemma spoken_run: "run_of (session_step pcm_only) (new_session turn_config) [Start None, Finish None, End None, Finish None] spoken"
proof -
  let ?n = "new_session turn_config"
  let ?s1 = "?n\<lparr>se_busy := Some Starting\<rparr>" and ?s2 = "?n\<lparr>se_input_active := True, se_started := True\<rparr>"
  let ?s3 = "?n\<lparr>se_busy := Some Ending, se_input_active := True, se_started := True\<rparr>"
  have r1: "run_of (session_step pcm_only) ?n ([] @ [Start None]) ?s1"
    by (rule run_of.snoc, rule run_of.start, rule session_step.start)
       (simp_all add: new_session_def start_activity_def reset_output_gate_def discard_output_locked_def)
  have r2: "run_of (session_step pcm_only) ?n (([] @ [Start None]) @ [Finish None]) ?s2"
    by (rule run_of.snoc, rule r1) (use session_step.finish [of ?s1 pcm_only None] in \<open>simp add: new_session_def finish_input_def\<close>)
  have r3: "run_of (session_step pcm_only) ?n ((([] @ [Start None]) @ [Finish None]) @ [End None]) ?s3"
    by (rule run_of.snoc, rule r2, rule session_step.ending) (simp_all add: new_session_def end_activity_def)
  have "run_of (session_step pcm_only) ?n (((([] @ [Start None]) @ [Finish None]) @ [End None]) @ [Finish None]) spoken"
    by (rule run_of.snoc, rule r3) (use session_step.finish [of ?s3 pcm_only None] in \<open>simp add: new_session_def finish_input_def spoken_def\<close>)
  then show ?thesis by simp
qed

lemma answered_step: "session_step pcm_only spoken (Read (Message (Some answer)) [heard_caption, heard_audio]) answered"
proof -
  have "trim_space ''audio/pcm'' = ''audio/pcm''" by code_simp
  have mime: "valid_output_audio_mime pcm_only ''audio/pcm''" by code_simp
  have d: "decode_message pcm_only turn_config 0 0 (Some answer) = (2, 3, Inr ([heard_caption, heard_audio], False))"
    by (simp add: decode_message_def answer_def transcription_event_def transcription_text_event_def turn_config_def mime
        heard_caption_def heard_audio_def output_sample_rate_def)
  have "receiver_turn pcm_only spoken (Message (Some answer)) = answered"
    using d by (simp add: receiver_turn_def spoken_def new_session_def enqueue_events_def answered_def turn_config_def heard_caption_def heard_audio_def
        plain_event_def events_size_def event_size_def)
  moreover have "accepted_events pcm_only spoken (Message (Some answer)) = [heard_caption, heard_audio]"
    using d by (simp add: accepted_events_def spoken_def new_session_def enqueue_events_def turn_config_def heard_caption_def heard_audio_def
        plain_event_def events_size_def event_size_def)
  ultimately show ?thesis using session_step.read [of pcm_only spoken "Message (Some answer)"] by simp
qed

lemma opened_run: "run_of (session_step pcm_only) spoken [Read (Message (Some answer)) [heard_caption, heard_audio], Deliver heard_caption, Commit None] opened"
proof -
  let ?s = "answered\<lparr>se_ready := [], se_buffered := 2, se_caption_delivered := True\<rparr>"
  let ?r = "Read (Message (Some answer)) [heard_caption, heard_audio]"
  have r1: "run_of (session_step pcm_only) spoken ([] @ [?r]) answered" by (rule run_of.snoc, rule run_of.start, rule answered_step)
  have r2: "run_of (session_step pcm_only) spoken (([] @ [?r]) @ [Deliver heard_caption]) ?s"
    by (rule run_of.snoc, rule r1, rule session_step.deliver [where ctx_error = None])
       (simp add: receive_def answered_def heard_caption_def plain_event_def event_size_def)
  have "run_of (session_step pcm_only) spoken ((([] @ [?r]) @ [Deliver heard_caption]) @ [Commit None]) opened"
    by (rule run_of.snoc, rule r2, rule session_step.commit [where lock_error = None])
       (simp_all add: commit_output_def answered_def opened_def spoken_def new_session_def)
  then show ?thesis by simp
qed

lemma sample_receive: "receive opened None = (opened\<lparr>se_ready := [], se_buffered := 0\<rparr>, Some (Inr heard_audio))"
  by (simp add: receive_def opened_def answered_def heard_audio_def plain_event_def event_size_def)

text \<open>The same turn where the caller discards before the answer comes.\<close>

definition silenced :: session where
  "silenced = spoken\<lparr>se_discarded := True\<rparr>"

definition silenced_answered :: session where
  "silenced_answered = silenced\<lparr>se_ready := [heard_caption], se_buffered := 3, se_caption_final := True, se_output_bytes := 2, se_transcript_bytes := 3\<rparr>"

lemma silenced_steps: "session_step pcm_only spoken Discard silenced"
  "session_step pcm_only silenced (Read (Message (Some answer)) [heard_caption]) silenced_answered"
proof -
  show "session_step pcm_only spoken Discard silenced"
    using session_step.discard [of pcm_only spoken]
    by (simp add: discard_output_def discard_output_locked_def silenced_def spoken_def new_session_def)
  have mime: "valid_output_audio_mime pcm_only ''audio/pcm''" by code_simp
  have d: "decode_message pcm_only turn_config 0 0 (Some answer) = (2, 3, Inr ([heard_caption, heard_audio], False))"
    by (simp add: decode_message_def answer_def transcription_event_def transcription_text_event_def turn_config_def mime
        heard_caption_def heard_audio_def output_sample_rate_def)
  have "receiver_turn pcm_only silenced (Message (Some answer)) = silenced_answered"
    using d by (simp add: receiver_turn_def silenced_def spoken_def new_session_def enqueue_events_def silenced_answered_def turn_config_def
        heard_caption_def heard_audio_def plain_event_def events_size_def event_size_def)
  moreover have "accepted_events pcm_only silenced (Message (Some answer)) = [heard_caption]"
    using d by (simp add: accepted_events_def silenced_def spoken_def new_session_def enqueue_events_def turn_config_def heard_caption_def
        heard_audio_def plain_event_def events_size_def event_size_def)
  ultimately show "session_step pcm_only silenced (Read (Message (Some answer)) [heard_caption]) silenced_answered"
    using session_step.read [of pcm_only silenced "Message (Some answer)"] by simp
qed

section \<open>Properties\<close>

text \<open>
  C7. Nothing of the provider's answer is heard before the gate opens: in every interleaving of a session's operations
  from its start, when \<open>Receive\<close> is about to give audio, an output caption or the end of the turn, a \<open>CommitOutput\<close> has succeeded
  with no discard after it, and before that commit \<open>Receive\<close> had given the final caption of the user's own words.
\<close>

theorem output_waits_for_commit:
  assumes "normalize_config c0 = Inr c" and "run_of (session_step parse) (new_session c) es s"
    and "receive s ctx_error = (s', Some (Inr e))" and "is_gated_output (ek_kind e)"
  shows "\<exists>pre post caption. es = pre @ Commit None # post \<and> Discard \<notin> set post
    \<and> Deliver caption \<in> set pre \<and> ek_kind caption = InputCaption \<and> ek_final caption"
proof -
  have ok: "session_ok (new_session c)" using normalized_limits(1) [OF assms(1)] by (rule new_session_ok)
  then have "gate_ok s" using session_run_ok [OF assms(2)] by (simp add: session_ok_def)
  from deliver_effect [OF this assms(3)] have "se_committed s" using assms(4) by (simp add: step_effect_def)
  then show ?thesis
    using run_history [OF assms(2) ok] by (auto simp: new_session_def final_caption_def)
qed

lemma output_waits_for_commit_witness:
  "\<exists>pre post caption. [Start None, Finish None, End None, Finish None] @ [Read (Message (Some answer)) [heard_caption, heard_audio],
      Deliver heard_caption, Commit None] = pre @ Commit None # post \<and> Discard \<notin> set post
    \<and> Deliver caption \<in> set pre \<and> ek_kind caption = InputCaption \<and> ek_final caption"
  by (rule output_waits_for_commit [OF turn_config_ok run_of_append [OF spoken_run opened_run] sample_receive])
     (simp add: heard_audio_def plain_event_def)

text \<open>
  Events arrive whole and in order: over every run of a started session that is not terminated, the captions of the user and the
  interruption signals that were accepted are those delivered, in the same order and with the same bytes, followed by those waiting;
  and the same holds of the provider's output as long as it is not discarded.
\<close>

theorem events_in_order:
  assumes "normalize_config c0 = Inr c" and "run_of (session_step parse) (new_session c) es0 s0" and "se_started s0"
    and "run_of (session_step parse) s0 es s" and "se_terminal s = None"
  shows "filter (\<lambda>e. \<not> is_gated_output (ek_kind e)) (se_ready s0 @ concat (List.map accepted es))
      = filter (\<lambda>e. \<not> is_gated_output (ek_kind e)) (concat (List.map delivered es) @ se_ready s)
    \<and> (se_discarded s \<or> filter (\<lambda>e. is_gated_output (ek_kind e)) (se_ready s0 @ se_held s0 @ concat (List.map accepted es))
      = filter (\<lambda>e. is_gated_output (ek_kind e)) (concat (List.map delivered es) @ se_ready s @ se_held s))"
proof -
  have ok: "session_ok s0" using new_session_ok [OF normalized_limits(1) [OF assms(1)]] by (rule session_run_ok [OF assms(2)])
  then have ok': "session_ok s" by (rule session_run_ok [OF assms(4)])
  have g: "gate_ok s0" "gate_ok s" using ok ok' by (simp_all add: session_ok_def)
  show ?thesis
    using run_order [OF assms(4) ok] assms(3,5) filter_held(1) [OF g(1)] filter_held(1) [OF g(2)]
    by (auto simp: signals_def outputs_def)
qed

lemma events_in_order_witness:
  "filter (\<lambda>e. is_gated_output (ek_kind e)) (concat (List.map accepted [Read (Message (Some answer)) [heard_caption, heard_audio],
      Deliver heard_caption, Commit None])) = [heard_audio]"
  using events_in_order [OF turn_config_ok spoken_run _ opened_run]
  by (simp add: spoken_def opened_def answered_def new_session_def heard_audio_def heard_caption_def plain_event_def)

text \<open>
  A discard is final: once a started session's output has been discarded, by the caller or by an interruption, no run of further
  operations makes \<open>Receive\<close> give any output of the provider.
\<close>

theorem discarded_output_stays_silent:
  assumes "normalize_config c0 = Inr c" and "run_of (session_step parse) (new_session c) es0 s0" and "se_started s0" "se_discarded s0"
    and "run_of (session_step parse) s0 es s" and "receive s ctx_error = (s', Some (Inr e))"
  shows "\<not> is_gated_output (ek_kind e)"
proof -
  have ok: "session_ok s0" using new_session_ok [OF normalized_limits(1) [OF assms(1)]] by (rule session_run_ok [OF assms(2)])
  then have gate: "gate_ok s" using session_run_ok [OF assms(5)] by (simp add: session_ok_def)
  have "se_discarded s" using run_order [OF assms(5) ok] assms(3,4) by blast
  then show ?thesis using deliver_effect [OF gate assms(6)] gate by (auto simp: step_effect_def gate_ok_def)
qed

lemma discarded_output_stays_silent_witness:
  "\<not> is_gated_output (ek_kind heard_caption)"
proof -
  have r0: "run_of (session_step pcm_only) (new_session turn_config) ([Start None, Finish None, End None, Finish None] @ [Discard]) silenced"
    by (rule run_of.snoc, rule spoken_run, rule silenced_steps(1))
  have r: "run_of (session_step pcm_only) silenced ([] @ [Read (Message (Some answer)) [heard_caption]]) silenced_answered"
    by (rule run_of.snoc, rule run_of.start, rule silenced_steps(2))
  have d: "receive silenced_answered None = (silenced\<lparr>se_caption_final := True, se_output_bytes := 2, se_transcript_bytes := 3,
      se_caption_delivered := True, se_buffered := 0\<rparr>, Some (Inr heard_caption))"
    by (simp add: receive_def silenced_answered_def silenced_def spoken_def new_session_def heard_caption_def plain_event_def event_size_def)
  show ?thesis
    by (rule discarded_output_stays_silent [OF turn_config_ok r0 _ _ r d]) (simp_all add: silenced_def spoken_def)
qed

text \<open>
  A session stays within its limits: in every interleaving the bytes buffered are those of the queued events and within the bound
  of at most 8 MiB, at most 1024 events are queued, and the bytes of input, output and transcripts taken in never exceed
  theirs.
\<close>

theorem session_within_limits:
  assumes "normalize_config c0 = Inr c" and "run_of (session_step parse) (new_session c) es s"
  shows "se_buffered s = events_size (se_ready s) + events_size (se_held s) \<and> se_buffered s \<le> cf_max_pending c \<and> cf_max_pending c \<le> 8388608
    \<and> int (length (se_ready s)) + int (length (se_held s)) \<le> cf_max_events c \<and> cf_max_events c \<le> 1024
    \<and> se_input_bytes s \<in> {0..cf_max_input c} \<and> se_output_bytes s \<in> {0..cf_max_output c} \<and> se_transcript_bytes s \<in> {0..cf_max_transcript c}"
proof -
  have "session_ok s" using new_session_ok [OF normalized_limits(1) [OF assms(1)]] by (rule session_run_ok [OF assms(2)])
  moreover have "se_config s = c"
    using assms(2)
  proof (induction "new_session c" es s rule: run_of.induct)
    case (snoc es s' a s'')
    have same: "se_config (receiver_turn parse s r) = se_config s" for s r
    proof -
      have "se_config (fst (enqueue_events s1 es i)) = se_config s1" for s1 es i by (rule enqueue_fields(1))
      then show ?thesis by (auto simp: receiver_turn_def Let_def case_prod_beta split: provider_read.split option.split sum.split)
    qed
    from snoc.hyps(3) show ?case
      by cases (use snoc.hyps(2) config_steps same in \<open>auto dest!: arg_cong [where f = "se_config \<circ> fst"]\<close>)
  qed (simp add: new_session_def)
  ultimately show ?thesis
    using normalized_limits [OF assms(1)] unfolding session_ok_def queue_ok_def input_ok_def counters_ok_def by auto
qed

lemma session_within_limits_witness:
  "se_buffered opened \<le> 2097152"
  using session_within_limits [OF turn_config_ok run_of_append [OF spoken_run opened_run]] by (simp add: turn_config_def)

end
