(* ===== verification/Float64.thy ===== *)
theory Float64
  imports Prelude "HOL-Library.Log_Nat"
begin

text \<open>
  Go's \<open>float64\<close>: IEEE 754 binary64 with every operation rounded to nearest, ties to even. A
  finite value is the rational number it denotes, so zero has no sign; the source never divides by a
  value that can be zero and never prints one. \<open>round64\<close> rounds a rational to the grid of the
  doubles: in units of the smallest subnormal, \<open>2 ^ -1074\<close>, a number whose integral part has more
  than 53 bits is rounded to a multiple of \<open>2 ^ k\<close>, where \<open>k\<close> is the number of the bits in
  excess. A rounded result beyond the largest double is an infinity. No operation is fused with
  another.

  The lemmas give what the proofs on the code's arithmetic rest on: rounding is monotone, fixes the
  doubles, and errs by at most half a unit; the locale \<open>rounding\<close> collects the order laws and
  is interpreted on \<open>round64\<close>.
\<close>

section \<open>Rounding to the grid\<close>

definition half_even :: "rat \<Rightarrow> int" where
  "half_even q = (let f = \<lfloor>q\<rfloor>; r = q - of_int f in
     if r < 1 / 2 \<or> r = 1 / 2 \<and> even f then f else f + 1)"

definition excess :: "rat \<Rightarrow> nat" where
  "excess y = floorlog 2 (nat \<lfloor>y\<rfloor>) - 53"

definition grid :: "rat \<Rightarrow> rat" where
  "grid y = of_int (half_even (y / 2 ^ excess y)) * 2 ^ excess y"

definition scale :: rat where
  "scale = 2 ^ 1074"

definition round64 :: "rat \<Rightarrow> rat" where
  "round64 x = (if x < 0 then - (grid (- x * scale) / scale) else grid (x * scale) / scale)"

lemma half_even_of_int [simp]: "half_even (of_int n) = n"
  by (simp add: half_even_def)

lemma half_even_near: "\<bar>of_int (half_even q) - q\<bar> \<le> 1 / 2"
proof -
  have "of_int \<lfloor>q\<rfloor> \<le> q" "q < of_int \<lfloor>q\<rfloor> + 1" by linarith+
  then show ?thesis unfolding half_even_def Let_def abs_le_iff by (auto; linarith)
qed

lemma half_even_mono:
  assumes "p \<le> q"
  shows "half_even p \<le> half_even q"
proof (cases "\<lfloor>p\<rfloor> = \<lfloor>q\<rfloor>")
  case True
  then show ?thesis using assms by (auto simp: half_even_def Let_def)
next
  case False
  then have "\<lfloor>p\<rfloor> + 1 \<le> \<lfloor>q\<rfloor>" using floor_mono [OF assms] by linarith
  then show ?thesis by (auto simp: half_even_def Let_def)
qed

lemma half_even_le_int: "q \<le> of_int n \<Longrightarrow> half_even q \<le> n"
  using half_even_mono [of q "of_int n"] by simp

lemma half_even_ge_int: "of_int n \<le> q \<Longrightarrow> n \<le> half_even q"
  using half_even_mono [of "of_int n" q] by simp

lemma excess_mono: "x \<le> y \<Longrightarrow> excess x \<le> excess y"
  unfolding excess_def by (intro diff_le_mono floorlog_mono nat_mono floor_mono)

lemma below_excess:
  assumes "0 \<le> y"
  shows "y < 2 ^ (excess y + 53)"
proof -
  have "floorlog 2 (nat \<lfloor>y\<rfloor>) \<le> excess y + 53" by (simp add: excess_def)
  then have "nat \<lfloor>y\<rfloor> < 2 ^ (excess y + 53)" by (simp add: floorlog_le_iff)
  then have "int (nat \<lfloor>y\<rfloor>) < 2 ^ (excess y + 53)"
    by (metis of_nat_less_iff of_nat_numeral of_nat_power)
  then have "\<lfloor>y\<rfloor> < 2 ^ (excess y + 53)" using assms by simp
  then have "y < of_int (2 ^ (excess y + 53))" by (simp only: floor_less_iff)
  then show ?thesis by simp
qed

lemma above_excess:
  assumes "0 < excess y"
  shows "2 ^ (excess y + 52) \<le> y"
proof -
  have "excess y + 53 \<le> floorlog 2 (nat \<lfloor>y\<rfloor>)" using assms by (simp add: excess_def)
  then have "2 ^ (excess y + 53 - 1) \<le> nat \<lfloor>y\<rfloor>" by (intro floorlog_geD) simp_all
  then have "(2::nat) ^ (excess y + 52) \<le> nat \<lfloor>y\<rfloor>" by (simp add: add.commute)
  moreover from this have "0 < nat \<lfloor>y\<rfloor>" by (rule less_le_trans [rotated]) simp
  then have "int (nat \<lfloor>y\<rfloor>) = \<lfloor>y\<rfloor>" by simp
  ultimately have "2 ^ (excess y + 52) \<le> \<lfloor>y\<rfloor>" by (metis of_nat_le_iff of_nat_numeral of_nat_power)
  then have "of_int (2 ^ (excess y + 52)) \<le> y" by (simp only: le_floor_iff)
  then show ?thesis by simp
qed

lemma grid_mono:
  assumes "0 \<le> x" "x \<le> y"
  shows "grid x \<le> grid y"
proof (cases "excess x = excess y")
  case True
  then have "half_even (x / 2 ^ excess x) \<le> half_even (y / 2 ^ excess y)"
    using assms by (intro half_even_mono) (simp add: divide_right_mono)
  then show ?thesis using True by (simp add: grid_def mult_right_mono)
next
  case False
  then have k: "excess x < excess y" using excess_mono [OF assms(2)] by simp
  have "half_even (x / 2 ^ excess x) \<le> 2 ^ 53"
    using below_excess [OF assms(1)] by (intro half_even_le_int) (simp add: field_simps power_add)
  then have "grid x \<le> of_int (2 ^ 53) * 2 ^ excess x"
    unfolding grid_def by (intro mult_right_mono) (simp_all only: of_int_le_iff, simp)
  also have "\<dots> \<le> 2 ^ (excess y + 52)"
    using k power_increasing [of "excess x + 53" "excess y + 52" "2 :: rat"] by (simp add: power_add)
  also have "\<dots> \<le> grid y"
  proof -
    have "2 ^ 52 \<le> half_even (y / 2 ^ excess y)"
      using above_excess [of y] k by (intro half_even_ge_int) (simp add: field_simps power_add)
    then have "of_int (2 ^ 52) * 2 ^ excess y \<le> grid y"
      unfolding grid_def by (intro mult_right_mono) (simp_all only: of_int_le_iff, simp)
    then show ?thesis by (simp add: power_add mult.commute)
  qed
  finally show ?thesis .
qed

text \<open>A number with at most 53 significant bits stays as it is.\<close>

lemma grid_exact:
  assumes "0 \<le> m" "m \<le> 2 ^ 53"
  shows "grid (of_int m * 2 ^ k) = of_int m * 2 ^ k"
proof -
  let ?y = "of_int m * 2 ^ k :: rat"
  have "\<exists>n. ?y / 2 ^ excess ?y = of_int n"
  proof (cases "excess ?y \<le> k")
    case True
    then have "(2::rat) ^ k = 2 ^ (k - excess ?y) * 2 ^ excess ?y" by (simp flip: power_add)
    then have "?y = of_int (m * 2 ^ (k - excess ?y)) * 2 ^ excess ?y" by simp
    then have "?y / 2 ^ excess ?y = of_int (m * 2 ^ (k - excess ?y))"
      by (metis nonzero_mult_div_cancel_right power_not_zero zero_neq_numeral)
    then show ?thesis by blast
  next
    case False
    then have lo: "2 ^ (excess ?y + 52) \<le> ?y" by (intro above_excess) simp
    have "?y \<le> of_int (2 ^ 53) * 2 ^ k"
      using assms(2) by (intro mult_right_mono) (simp_all only: of_int_le_iff, simp)
    then have "?y \<le> 2 ^ (k + 53)" by (simp add: power_add)
    with lo have "(2::rat) ^ (excess ?y + 52) \<le> 2 ^ (k + 53)" by linarith
    then have "excess ?y + 52 \<le> k + 53" by (rule power_le_imp_le_exp [rotated]) simp
    with False have e: "excess ?y = k + 1" by simp
    then have "of_int (2 ^ 53) * 2 ^ k \<le> of_int m * (2::rat) ^ k"
      using lo by (simp add: power_add)
    then have "(of_int (2 ^ 53) :: rat) \<le> of_int m" by (simp only: mult_le_cancel_right_pos zero_less_power zero_less_numeral)
    then have "m = 2 ^ 53" using assms(2) by (simp only: of_int_le_iff)
    then have "?y / 2 ^ excess ?y = of_int (2 ^ 52)" unfolding e by (simp add: power_add)
    then show ?thesis by blast
  qed
  then obtain n where n: "?y / 2 ^ excess ?y = of_int n" by blast
  then have "?y = of_int n * 2 ^ excess ?y" by (simp add: divide_eq_eq)
  then show ?thesis unfolding grid_def n by simp
qed

lemma grid_of_int: "0 \<le> m \<Longrightarrow> m \<le> 2 ^ 53 \<Longrightarrow> grid (of_int m) = of_int m"
  using grid_exact [of m 0] by simp

lemma grid_0 [simp]: "grid 0 = 0"
  using grid_of_int [of 0] by simp

lemma grid_nonneg: "0 \<le> y \<Longrightarrow> 0 \<le> grid y"
  using grid_mono [of 0 y] by simp

lemma grid_near: "\<bar>grid y - y\<bar> \<le> 2 ^ excess y / 2"
proof -
  let ?p = "2 ^ excess y :: rat"
  have "grid y - y = (of_int (half_even (y / ?p)) - y / ?p) * ?p"
    by (simp add: grid_def algebra_simps)
  then have "\<bar>grid y - y\<bar> = \<bar>of_int (half_even (y / ?p)) - y / ?p\<bar> * ?p"
    by (simp add: abs_mult)
  also have "\<dots> \<le> 1 / 2 * ?p" by (intro mult_right_mono half_even_near) simp
  finally show ?thesis by simp
qed

lemma grid_close:
  assumes "0 \<le> y"
  shows "\<bar>grid y - y\<bar> \<le> y / 2 ^ 53 + 1 / 2"
proof (cases "excess y = 0")
  case True
  then show ?thesis using grid_near [of y] assms by (simp add: field_simps)
next
  case False
  then have "2 ^ (excess y + 52) \<le> y" by (intro above_excess) simp
  then have "2 ^ excess y / 2 \<le> y / 2 ^ 53" by (simp add: power_add field_simps)
  then show ?thesis using grid_near [of y] by linarith
qed

text \<open>On whole numbers of units the error is relative: below \<open>2 ^ 53\<close> units there is none.\<close>

lemma grid_relative:
  "\<bar>grid (of_int m) - of_int m\<bar> \<le> of_int m / 2 ^ 53" if "0 \<le> m"
proof (cases "m \<le> 2 ^ 53")
  case True
  then show ?thesis using that by (simp add: grid_of_int)
next
  case False
  let ?y = "of_int m :: rat"
  have "excess ?y \<noteq> 0"
  proof
    assume "excess ?y = 0"
    then have "?y < 2 ^ 53" using below_excess [of ?y] that by simp
    then have "of_int m < (of_int (2 ^ 53) :: rat)" by simp
    then have "m < 2 ^ 53" by (simp only: of_int_less_iff)
    with False show False by simp
  qed
  then have "2 ^ (excess ?y + 52) \<le> ?y" by (intro above_excess) simp
  then have "2 ^ excess ?y / 2 \<le> ?y / 2 ^ 53" by (simp add: power_add field_simps)
  then show ?thesis using grid_near [of ?y] by linarith
qed

lemma grid_is_int:
  assumes "0 \<le> y"
  obtains m k where "grid y = of_int m * 2 ^ k" "0 \<le> m" "m \<le> 2 ^ 53"
proof
  let ?m = "half_even (y / 2 ^ excess y)"
  show "grid y = of_int ?m * 2 ^ excess y" by (simp add: grid_def)
  show "0 \<le> ?m" using assms by (intro half_even_ge_int) simp
  show "?m \<le> 2 ^ 53"
    using below_excess [OF assms] by (intro half_even_le_int) (simp add: field_simps power_add)
qed

lemma grid_idem: "0 \<le> y \<Longrightarrow> grid (grid y) = grid y"
  by (rule grid_is_int [of y]) (simp_all add: grid_exact)

lemma scale_pos [simp]: "0 < scale"
  by (simp add: scale_def)

lemma scale_nonneg [simp]: "0 \<le> scale"
  by (simp add: less_imp_le)

lemma scale_neq [simp]: "scale \<noteq> 0"
  using scale_pos by (rule less_imp_neq [THEN not_sym])

lemma round64_nonneg_eq: "0 \<le> x \<Longrightarrow> round64 x = grid (x * scale) / scale"
  by (simp add: round64_def)

lemma round64_minus: "round64 (- x) = - round64 x"
  by (simp add: round64_def)

lemma round64_0 [simp]: "round64 0 = 0"
  by (simp add: round64_def)

lemma round64_nonneg: "0 \<le> x \<Longrightarrow> 0 \<le> round64 x"
  by (simp add: round64_nonneg_eq grid_nonneg less_imp_le)

lemma round64_mono_nonneg: "0 \<le> x \<Longrightarrow> x \<le> y \<Longrightarrow> round64 x \<le> round64 y"
  by (simp add: round64_nonneg_eq divide_right_mono grid_mono less_imp_le mult_right_mono)

lemma round64_mono:
  assumes "x \<le> y"
  shows "round64 x \<le> round64 y"
proof (cases "0 \<le> x")
  case True
  then show ?thesis using assms by (rule round64_mono_nonneg)
next
  case neg: False
  show ?thesis
  proof (cases "0 \<le> y")
    case True
    have "0 \<le> round64 (- x)" using neg by (intro round64_nonneg) simp
    then show ?thesis using round64_nonneg [OF True] by (simp add: round64_minus)
  next
    case False
    then have "round64 (- y) \<le> round64 (- x)" using assms by (intro round64_mono_nonneg) simp_all
    then show ?thesis by (simp add: round64_minus)
  qed
qed

lemma round64_idem [simp]: "round64 (round64 x) = round64 x"
proof -
  have pos: "round64 (round64 z) = round64 z" if "0 \<le> z" for z
    using that round64_nonneg [OF that]
    by (simp add: round64_nonneg_eq grid_idem)
  show ?thesis using pos [of x] pos [of "- x"] by (cases "0 \<le> x") (simp_all add: round64_minus)
qed

text \<open>A whole number times a power of two, down to the smallest subnormal, is a double.\<close>

lemma round64_dyadic:
  assumes "0 \<le> m" "m \<le> 2 ^ 53" "k \<le> 1074"
  shows "round64 (of_int m / 2 ^ k) = of_int m / 2 ^ k"
proof -
  have s: "scale = 2 ^ (1074 - k) * 2 ^ k" using assms(3) by (simp add: scale_def flip: power_add)
  have "grid (of_int m / 2 ^ k * scale) = of_int m / 2 ^ k * scale"
    using grid_exact [OF assms(1,2), of "1074 - k"] unfolding s by simp
  then show ?thesis using assms(1) by (simp add: round64_nonneg_eq)
qed

lemma round64_of_int: "0 \<le> m \<Longrightarrow> m \<le> 2 ^ 53 \<Longrightarrow> round64 (of_int m) = of_int m"
  using round64_dyadic [of m 0] by simp

lemma round64_1 [simp]: "round64 1 = 1"
  using round64_of_int [of 1] by simp

lemma round64_le_1: "x \<le> 1 \<Longrightarrow> round64 x \<le> 1"
  using round64_mono [of x 1] by simp

abbreviation unit_err :: rat where
  "unit_err \<equiv> 1 / 2 ^ 53"

definition tiny :: rat where
  "tiny = 1 / 2 / scale"

lemma abs_divide_scale: "\<bar>x / scale\<bar> = \<bar>x\<bar> / scale"
  by (simp add: abs_divide)

lemma round64_near:
  assumes "0 \<le> x"
  shows "\<bar>round64 x - x\<bar> \<le> x * unit_err + tiny"
proof -
  have "\<bar>grid (x * scale) - x * scale\<bar> \<le> x * scale / 2 ^ 53 + 1 / 2"
    using assms by (intro grid_close) (simp add: less_imp_le)
  then have "\<bar>grid (x * scale) - x * scale\<bar> / scale \<le> (x * scale / 2 ^ 53 + 1 / 2) / scale"
    by (intro divide_right_mono) (simp_all add: less_imp_le)
  moreover have "\<bar>grid (x * scale) - x * scale\<bar> / scale = \<bar>round64 x - x\<bar>"
    using assms by (simp add: round64_nonneg_eq diff_divide_distrib abs_divide_scale [symmetric])
  moreover have "(x * scale / 2 ^ 53 + 1 / 2) / scale = x * unit_err + tiny"
    by (simp add: add_divide_distrib tiny_def)
  ultimately show ?thesis by simp
qed

text \<open>Doubles are whole numbers of units, and so are their sums: an addition errs relatively.\<close>

lemma round64_sum_near:
  assumes "round64 x = x" "round64 y = y" "0 \<le> x" "0 \<le> y"
  shows "\<bar>round64 (x + y) - (x + y)\<bar> \<le> (x + y) * unit_err"
proof -
  have units: "\<exists>m. z * scale = of_int m \<and> 0 \<le> m" if "round64 z = z" "0 \<le> z" for z
  proof -
    have "0 \<le> z * scale" using that(2) by (simp add: less_imp_le)
    then obtain m k where "grid (z * scale) = of_int m * 2 ^ k" "0 \<le> m" by (rule grid_is_int)
    moreover have "grid (z * scale) = z * scale" using that by (simp add: round64_nonneg_eq divide_eq_eq)
    ultimately have "z * scale = of_int (m * 2 ^ k)" "0 \<le> m * 2 ^ k" by simp_all
    then show ?thesis by blast
  qed
  obtain m n where mn: "x * scale = of_int m" "0 \<le> m" "y * scale = of_int n" "0 \<le> n"
    using units assms by metis
  then have e: "(x + y) * scale = of_int (m + n)" by (simp add: distrib_right)
  have "\<bar>grid (of_int (m + n)) - of_int (m + n)\<bar> \<le> of_int (m + n) / 2 ^ 53"
    using mn by (intro grid_relative) simp
  then have "\<bar>grid ((x + y) * scale) - (x + y) * scale\<bar> / scale \<le> ((x + y) * scale / 2 ^ 53) / scale"
    unfolding e by (intro divide_right_mono) (simp_all add: less_imp_le)
  moreover have "\<bar>grid ((x + y) * scale) - (x + y) * scale\<bar> / scale = \<bar>round64 (x + y) - (x + y)\<bar>"
    using assms by (simp add: round64_nonneg_eq diff_divide_distrib abs_divide_scale [symmetric])
  ultimately show ?thesis by simp
qed

section \<open>Order laws of a rounding\<close>

text \<open>What the arithmetic of probabilities needs: a monotone map that fixes 0 and 1.\<close>

locale rounding =
  fixes rnd :: "rat \<Rightarrow> rat"
  assumes mono: "x \<le> y \<Longrightarrow> rnd x \<le> rnd y"
    and rnd_0: "rnd 0 = 0"
    and rnd_1: "rnd 1 = 1"
begin

lemma nonneg: "0 \<le> x \<Longrightarrow> 0 \<le> rnd x"
  using mono [of 0 x] by (simp add: rnd_0)

lemma le_1: "x \<le> 1 \<Longrightarrow> rnd x \<le> 1"
  using mono [of x 1] by (simp add: rnd_1)

lemma quotient: "0 \<le> x \<Longrightarrow> x \<le> y \<Longrightarrow> 0 < y \<Longrightarrow> 0 \<le> rnd (x / y) \<and> rnd (x / y) \<le> 1"
  by (simp add: nonneg le_1)

text \<open>Sums accumulated from the left.\<close>

definition acc :: "rat \<Rightarrow> rat list \<Rightarrow> rat" where
  "acc s xs = foldl (\<lambda>s x. rnd (s + x)) s xs"

lemma acc_simps [simp]: "acc s [] = s" "acc s (x # xs) = acc (rnd (s + x)) xs"
  by (simp_all add: acc_def)

lemma acc_nonneg: "0 \<le> s \<Longrightarrow> \<forall>x \<in> set xs. 0 \<le> x \<Longrightarrow> 0 \<le> acc s xs"
  by (induction xs arbitrary: s) (auto intro: nonneg add_nonneg_nonneg)

text \<open>No summand exceeds the accumulated sum, if the summands and the start are fixed points.\<close>

lemma acc_ge_start:
  "rnd s = s \<Longrightarrow> (\<And>z. rnd (rnd z) = rnd z) \<Longrightarrow> \<forall>x \<in> set xs. 0 \<le> x \<Longrightarrow> s \<le> acc s xs"
proof (induction xs arbitrary: s)
  case (Cons x xs)
  have "rnd s \<le> rnd (s + x)" using Cons.prems(3) by (intro mono) simp
  then have "s \<le> rnd (s + x)" using Cons.prems(1) by simp
  also have "\<dots> \<le> acc (rnd (s + x)) xs" using Cons.prems by (intro Cons.IH) simp_all
  finally show ?case by simp
qed simp

lemma acc_ge_member:
  "rnd s = s \<Longrightarrow> 0 \<le> s \<Longrightarrow> (\<And>z. rnd (rnd z) = rnd z) \<Longrightarrow> \<forall>x \<in> set xs. 0 \<le> x \<and> rnd x = x
    \<Longrightarrow> y \<in> set xs \<Longrightarrow> y \<le> acc s xs"
proof (induction xs arbitrary: s)
  case (Cons x xs)
  show ?case
  proof (cases "y = x")
    case True
    have "rnd x \<le> rnd (s + x)" using Cons.prems(2) by (intro mono) simp
    then have "x \<le> rnd (s + x)" using Cons.prems(4) by simp
    also have "\<dots> \<le> acc (rnd (s + x)) xs" using Cons.prems by (intro acc_ge_start) simp_all
    finally show ?thesis using True by simp
  next
    case False
    then show ?thesis using Cons.prems nonneg [of "s + x"] by (auto intro!: Cons.IH)
  qed
qed simp

text \<open>If an addition errs by a factor within \<open>u\<close> of 1, a sum of \<open>n\<close> summands errs by its power.\<close>

lemma acc_relative:
  assumes u: "0 \<le> u" "u \<le> 1" and idem: "\<And>z. rnd (rnd z) = rnd z"
    and near: "\<And>x y. rnd x = x \<Longrightarrow> rnd y = y \<Longrightarrow> 0 \<le> x \<Longrightarrow> 0 \<le> y
      \<Longrightarrow> \<bar>rnd (x + y) - (x + y)\<bar> \<le> (x + y) * u"
    and xs: "\<forall>x \<in> set xs. 0 \<le> x \<and> rnd x = x"
  shows "0 \<le> acc 0 xs \<and> rnd (acc 0 xs) = acc 0 xs \<and> 0 \<le> sum_list xs
    \<and> acc 0 xs \<le> (1 + u) ^ length xs * sum_list xs
    \<and> (1 - u) ^ length xs * sum_list xs \<le> acc 0 xs"
  using xs
proof (induction xs rule: rev_induct)
  case Nil
  then show ?case by (simp add: rnd_0)
next
  case (snoc x xs)
  let ?a = "acc 0 xs" and ?S = "sum_list xs" and ?n = "length xs"
  from snoc have IH: "0 \<le> ?a" "rnd ?a = ?a" "0 \<le> ?S" "?a \<le> (1 + u) ^ ?n * ?S"
    "(1 - u) ^ ?n * ?S \<le> ?a" and x: "0 \<le> x" "rnd x = x" by auto
  have e: "acc 0 (xs @ [x]) = rnd (?a + x)" by (simp add: acc_def)
  have "\<bar>rnd (?a + x) - (?a + x)\<bar> \<le> (?a + x) * u" using IH x by (intro near)
  then have hi: "rnd (?a + x) \<le> (1 + u) * (?a + x)" and lo: "(1 - u) * (?a + x) \<le> rnd (?a + x)"
    unfolding abs_le_iff by (simp_all add: algebra_simps)
  have "x \<le> (1 + u) ^ ?n * x"
    using x(1) u mult_right_mono [of 1 "(1 + u) ^ ?n" x] by simp
  with IH(4) have "?a + x \<le> (1 + u) ^ ?n * (?S + x)" by (simp add: distrib_left)
  then have "(1 + u) * (?a + x) \<le> (1 + u) * ((1 + u) ^ ?n * (?S + x))"
    using u by (intro mult_left_mono) simp_all
  with hi have 1: "rnd (?a + x) \<le> (1 + u) ^ Suc ?n * (?S + x)" by (simp add: mult.assoc)
  have "(1 - u) ^ ?n * x \<le> x"
    using x(1) u mult_right_mono [of "(1 - u) ^ ?n" 1 x] power_le_one [of "1 - u" ?n] by simp
  with IH(5) have "(1 - u) ^ ?n * (?S + x) \<le> ?a + x" by (simp add: distrib_left)
  then have "(1 - u) * ((1 - u) ^ ?n * (?S + x)) \<le> (1 - u) * (?a + x)"
    using u by (intro mult_left_mono) simp_all
  with lo have 2: "(1 - u) ^ Suc ?n * (?S + x) \<le> rnd (?a + x)" by (simp add: mult.assoc)
  show ?case using 1 2 IH x unfolding e by (simp add: nonneg idem)
qed

end

interpretation r64: rounding round64
  by unfold_locales (auto intro: round64_mono)

lemma acc_error:
  "\<forall>x \<in> set xs. 0 \<le> x \<and> round64 x = x \<Longrightarrow> r64.acc 0 xs \<le> (1 + unit_err) ^ length xs * sum_list xs"
  "\<forall>x \<in> set xs. 0 \<le> x \<and> round64 x = x \<Longrightarrow> (1 - unit_err) ^ length xs * sum_list xs \<le> r64.acc 0 xs"
  using r64.acc_relative [of unit_err xs] round64_sum_near by simp_all

section \<open>Values and operations\<close>

datatype f64 = Fin rat | PosInf | NegInf | NaN

definition max_double :: rat where
  "max_double = (2 ^ 53 - 1) * 2 ^ 971"

text \<open>The double nearest to a rational: the value of a literal and of an operation's exact result.\<close>

definition f64_of :: "rat \<Rightarrow> f64" where
  "f64_of x = (let r = round64 x in
     if r > max_double then PosInf else if r < - max_double then NegInf else Fin r)"

fun is_f64 :: "f64 \<Rightarrow> bool" where
  "is_f64 (Fin x) \<longleftrightarrow> round64 x = x \<and> \<bar>x\<bar> \<le> max_double"
| "is_f64 _ \<longleftrightarrow> True"

fun is_nan :: "f64 \<Rightarrow> bool" where
  "is_nan NaN \<longleftrightarrow> True" | "is_nan _ \<longleftrightarrow> False"

fun is_inf :: "f64 \<Rightarrow> bool" where
  "is_inf PosInf \<longleftrightarrow> True" | "is_inf NegInf \<longleftrightarrow> True" | "is_inf _ \<longleftrightarrow> False"

fun fneg :: "f64 \<Rightarrow> f64" where
  "fneg (Fin x) = Fin (- x)" | "fneg PosInf = NegInf" | "fneg NegInf = PosInf" | "fneg NaN = NaN"

fun fadd :: "f64 \<Rightarrow> f64 \<Rightarrow> f64" where
  "fadd (Fin x) (Fin y) = f64_of (x + y)"
| "fadd NaN _ = NaN"
| "fadd _ NaN = NaN"
| "fadd PosInf NegInf = NaN"
| "fadd NegInf PosInf = NaN"
| "fadd PosInf _ = PosInf"
| "fadd _ PosInf = PosInf"
| "fadd NegInf _ = NegInf"
| "fadd _ NegInf = NegInf"

definition fsub :: "f64 \<Rightarrow> f64 \<Rightarrow> f64" where
  "fsub a b = fadd a (fneg b)"

definition signed_inf :: "rat \<Rightarrow> f64" where
  "signed_inf s = (if s > 0 then PosInf else if s < 0 then NegInf else NaN)"

fun fsign :: "f64 \<Rightarrow> rat" where
  "fsign (Fin x) = sgn x" | "fsign PosInf = 1" | "fsign NegInf = - 1" | "fsign NaN = 0"

definition fmul :: "f64 \<Rightarrow> f64 \<Rightarrow> f64" where
  "fmul a b = (case (a, b) of
     (Fin x, Fin y) \<Rightarrow> f64_of (x * y)
   | _ \<Rightarrow> signed_inf (fsign a * fsign b))"

text \<open>A zero divisor counts as a positive zero.\<close>

definition fdiv :: "f64 \<Rightarrow> f64 \<Rightarrow> f64" where
  "fdiv a b = (case (a, b) of
     (Fin x, Fin y) \<Rightarrow> if y = 0 then signed_inf (sgn x) else f64_of (x / y)
   | (Fin _, NaN) \<Rightarrow> NaN
   | (Fin _, _) \<Rightarrow> Fin 0
   | (_, Fin y) \<Rightarrow> signed_inf (fsign a * (if y = 0 then 1 else sgn y))
   | _ \<Rightarrow> NaN)"

fun flt :: "f64 \<Rightarrow> f64 \<Rightarrow> bool" where
  "flt (Fin x) (Fin y) \<longleftrightarrow> x < y"
| "flt NaN _ \<longleftrightarrow> False"
| "flt _ NaN \<longleftrightarrow> False"
| "flt PosInf _ \<longleftrightarrow> False"
| "flt _ NegInf \<longleftrightarrow> False"
| "flt _ _ \<longleftrightarrow> True"

definition feq :: "f64 \<Rightarrow> f64 \<Rightarrow> bool" where
  "feq a b \<longleftrightarrow> \<not> is_nan a \<and> a = b"

definition fle :: "f64 \<Rightarrow> f64 \<Rightarrow> bool" where
  "fle a b \<longleftrightarrow> flt a b \<or> feq a b"

fun fabs :: "f64 \<Rightarrow> f64" where
  "fabs (Fin x) = Fin \<bar>x\<bar>" | "fabs NaN = NaN" | "fabs _ = PosInf"

text \<open>\<open>math.Max\<close>, \<open>math.Min\<close>, \<open>math.Floor\<close> and \<open>math.Round\<close> (half away from zero).\<close>

definition fmax :: "f64 \<Rightarrow> f64 \<Rightarrow> f64" where
  "fmax a b = (if a = PosInf \<or> b = PosInf then PosInf
     else if is_nan a \<or> is_nan b then NaN else if flt b a then a else b)"

definition fmin :: "f64 \<Rightarrow> f64 \<Rightarrow> f64" where
  "fmin a b = (if a = NegInf \<or> b = NegInf then NegInf
     else if is_nan a \<or> is_nan b then NaN else if flt a b then a else b)"

fun ffloor :: "f64 \<Rightarrow> f64" where
  "ffloor (Fin x) = Fin (of_int \<lfloor>x\<rfloor>)" | "ffloor v = v"

fun fround :: "f64 \<Rightarrow> f64" where
  "fround (Fin x) = Fin (sgn x * of_int \<lfloor>\<bar>x\<bar> + 1 / 2\<rfloor>)" | "fround v = v"

lemma is_f64_f64_of [simp]: "is_f64 (f64_of x)"
  by (auto simp: f64_of_def Let_def abs_le_iff)

lemma max_double_ge: "2 ^ 53 \<le> max_double"
  by (simp add: max_double_def)

lemma f64_of_Fin: "f64_of x = Fin (round64 x)" if "\<bar>round64 x\<bar> \<le> 2 ^ 53"
  using that max_double_ge by (auto simp: f64_of_def Let_def abs_le_iff)

text \<open>Ratios of two naturals that are small enough to be counted: coverage and rates.\<close>

lemma f64_of_unit: "0 \<le> x \<Longrightarrow> x \<le> 1 \<Longrightarrow> f64_of x = Fin (round64 x)"
  using round64_le_1 [of x] round64_nonneg [of x] by (intro f64_of_Fin) simp

lemma f64_of_1 [simp]: "f64_of 1 = Fin 1"
  by (simp add: f64_of_unit)

lemma f64_of_0 [simp]: "f64_of 0 = Fin 0"
  by (simp add: f64_of_unit)

lemma ratio_below_1:
  assumes "m < n" "n \<le> 2 ^ 20"
  shows "round64 (of_nat m / of_nat n) < 1"
proof -
  let ?x = "of_nat m / of_nat n :: rat"
  have n: "0 < n" using assms(1) by simp
  have "of_nat m + 1 \<le> (of_nat n :: rat)" using assms(1) by (metis Suc_eq_plus1 Suc_leI of_nat_1 of_nat_add of_nat_mono)
  then have "of_nat m \<le> (of_nat n :: rat) - 1" by simp
  moreover have "(of_nat n :: rat) \<le> 2 ^ 20" using assms(2) by (metis of_nat_mono of_nat_numeral of_nat_power)
  ultimately have "?x \<le> of_int (2 ^ 20 - 1) / 2 ^ 20" using n by (simp add: field_simps)
  then have "round64 ?x \<le> round64 (of_int (2 ^ 20 - 1) / 2 ^ 20)" by (rule round64_mono)
  also have "\<dots> = of_int (2 ^ 20 - 1) / 2 ^ 20" by (rule round64_dyadic) simp_all
  also have "\<dots> < 1" by simp
  finally show ?thesis .
qed

section \<open>Sums and quotients of values\<close>

text \<open>The rationals that a list of non-negative doubles denotes.\<close>

definition doubles :: "rat list \<Rightarrow> bool" where
  "doubles xs \<longleftrightarrow> (\<forall>x \<in> set xs. 0 \<le> x \<and> round64 x = x)"

lemma doubles_append: "doubles (xs @ ys) \<longleftrightarrow> doubles xs \<and> doubles ys"
  by (auto simp: doubles_def)

lemma doubles_max: "doubles [max 0 (round64 y)]"
  by (simp add: doubles_def max_def)

lemma fadd_0 [simp]: "is_f64 v \<Longrightarrow> fadd v (Fin 0) = v"
  using max_double_ge by (cases v) (auto simp: f64_of_def Let_def abs_le_iff)

lemma fold_PosInf: "foldl fadd PosInf (List.map Fin xs) = PosInf"
  by (induction xs) auto

lemma fold_fadd:
  "doubles xs \<Longrightarrow> 0 \<le> s \<Longrightarrow> round64 s = s \<Longrightarrow> s \<le> max_double
    \<Longrightarrow> foldl fadd (Fin s) (List.map Fin xs) =
      (if r64.acc s xs > max_double then PosInf else Fin (r64.acc s xs))"
proof (induction xs arbitrary: s)
  case (Cons x xs)
  let ?r = "round64 (s + x)"
  have x: "0 \<le> x" "doubles xs" using Cons.prems(1) by (auto simp: doubles_def)
  have r: "0 \<le> ?r" using x Cons.prems(2) by (intro round64_nonneg) simp
  show ?case
  proof (cases "?r > max_double")
    case True
    have "?r \<le> r64.acc ?r xs" using x(2) by (intro r64.acc_ge_start) (auto simp: doubles_def)
    then show ?thesis using True by (simp add: f64_of_def fold_PosInf)
  next
    case False
    moreover have "\<not> ?r < - max_double" using r max_double_ge by simp
    ultimately show ?thesis using Cons.IH [of ?r] x r by (simp add: f64_of_def)
  qed
qed simp

lemma fdiv_unit: "0 \<le> x \<Longrightarrow> x \<le> y \<Longrightarrow> 0 < y \<Longrightarrow> fdiv (Fin x) (Fin y) = Fin (round64 (x / y))"
  by (simp add: fdiv_def f64_of_unit)

lemma tiny_bounds: "0 < tiny" "tiny \<le> unit_err / 2 ^ 20"
proof -
  show "0 < tiny" by (simp add: tiny_def)
  have "(2::rat) ^ 73 \<le> scale" unfolding scale_def by (intro power_increasing) simp_all
  then have "inverse scale \<le> inverse (2 ^ 73)" by (intro le_imp_inverse_le) simp_all
  then show "tiny \<le> unit_err / 2 ^ 20" by (simp add: tiny_def inverse_eq_divide)
qed

lemma sum_list_div: "sum_list (List.map (\<lambda>x. x / S) xs) = sum_list xs / (S :: rat)"
  by (induction xs) (simp_all add: add_divide_distrib)

text \<open>The error of rounding each value of a list.\<close>

lemma sum_round_near:
  "\<forall>x \<in> set xs. 0 \<le> x \<Longrightarrow>
    \<bar>sum_list (List.map round64 xs) - sum_list xs\<bar> \<le> sum_list xs * unit_err + of_nat (length xs) * tiny"
proof (induction xs)
  case (Cons x xs)
  have "\<bar>round64 x - x\<bar> \<le> x * unit_err + tiny" using Cons.prems by (intro round64_near) simp
  moreover have "\<bar>sum_list (List.map round64 xs) - sum_list xs\<bar>
      \<le> sum_list xs * unit_err + of_nat (length xs) * tiny" using Cons by simp
  moreover have "of_nat (length (x # xs)) * tiny = tiny + of_nat (length xs) * tiny"
    by (simp add: algebra_simps add_divide_distrib)
  ultimately show ?case unfolding list.map sum_list.Cons by (simp only: abs_le_iff distrib_right) linarith
qed simp

end
