(* ===== verification/AnswerBelief.thy ===== *)
theory AnswerBelief
  imports Float64
begin

text \<open>
  \<open>belief_controller.go\<close> and \<open>belief_state.go\<close> of \<open>respondent\<close>: the controller that decides, from
  the signals of two verifiers, whether the coach waits, asks, asks again, completes or lets go, and
  the posterior it carries from turn to turn.

  Values of the source's \<open>uint8\<close> enumerations beyond the named ones are the constructors
  \<open>..Other n\<close>. Probabilities are doubles (\<open>Float64\<close>); arrays indexed by \<open>LatentAnswerState\<close> are
  lists of length 5. \<open>math.Log2\<close>, which is assembly code on the server's platforms, is the argument
  \<open>lg\<close>; the utilities it enters may take any value.
\<close>

section \<open>States, signals and observations\<close>

definition VerifierProgressPolicyVersion :: nat where "VerifierProgressPolicyVersion = 1"
definition StoredVerifierProgressVersion :: nat where "StoredVerifierProgressVersion = 1"
definition StoredVerifierProgressScale :: nat where "StoredVerifierProgressScale = 10000"
definition MaxCoachAttempts :: nat where "MaxCoachAttempts = 2"

text \<open>The positions of \<open>LatentAnswerState\<close>.\<close>

abbreviation (input) LatentTargetMissing :: nat where "LatentTargetMissing \<equiv> 0"
abbreviation (input) LatentAvailableUncommitted :: nat where "LatentAvailableUncommitted \<equiv> 1"
abbreviation (input) LatentCommittedLate :: nat where "LatentCommittedLate \<equiv> 2"
abbreviation (input) LatentCommittedFirst :: nat where "LatentCommittedFirst \<equiv> 3"
abbreviation (input) LatentVerificationUnknown :: nat where "LatentVerificationUnknown \<equiv> 4"

definition latent_answer_state_count :: nat where "latent_answer_state_count = 5"

datatype verifier_signal =
  VerifierSignalInvalid | VerifierSignalMissing | VerifierSignalAvailable | VerifierSignalLater
  | VerifierSignalFirst | VerifierSignalAmbiguous | VerifierSignalRejected | VerifierSignalOther nat

datatype answer_evidence =
  AnswerEvidenceVerificationUnknown | AnswerEvidenceHesitation | AnswerEvidenceTargetMissing
  | AnswerEvidenceAvailableUncommitted | AnswerEvidenceCommittedLate | AnswerEvidenceCommittedFirst
  | AnswerEvidenceAmbiguous

datatype answer_phase =
  AnswerPhaseInvalid | AnswerPhaseNone | AnswerPhaseAwaitingAnswer | AnswerPhaseAwaitingRestatement
  | AnswerPhaseExpanding | AnswerPhaseComplete | AnswerPhaseBlocked | AnswerPhaseOther nat

datatype answer_attempt_level =
  AnswerAttemptNone | AnswerAttemptOne | AnswerAttemptLimit | AnswerAttemptOther nat

record answer_observation =
  ob_evidence :: answer_evidence
  ob_gate :: verifier_signal
  ob_critic :: verifier_signal
  ob_phase :: answer_phase
  ob_attempts :: answer_attempt_level
  ob_one_shot :: bool
  ob_hesitation :: bool
  ob_available :: bool

record posterior =
  po_target_missing :: f64
  po_available_uncommitted :: f64
  po_committed_late :: f64
  po_committed_first :: f64
  po_verification_unknown :: f64

datatype support_action =
  AnswerSupportWait | AnswerSupportElicit | AnswerSupportRestate | AnswerSupportComplete | AnswerSupportRelease

datatype reason_code =
  AnswerReasonTerminalComplete | AnswerReasonVerifiedFirst | AnswerReasonLateAccepted
  | AnswerReasonExpansionAccepted | AnswerReasonTargetMissing | AnswerReasonAvailableUncommitted
  | AnswerReasonAmbiguous | AnswerReasonLateRestatement | AnswerReasonHesitation
  | AnswerReasonVerificationUnavailable | AnswerReasonVerificationInconclusive
  | AnswerReasonInvalidPhase | AnswerReasonAttemptLimit | AnswerReasonScopeRejected

record action_utility =
  au_action :: support_action
  au_allowed :: bool
  au_first_success :: f64
  au_information_gain :: f64
  au_cognitive_load :: f64
  au_interruption_risk :: f64
  au_coercion_risk :: f64
  au_leakage_risk :: f64
  au_total :: f64

record controller_input =
  ci_prior :: posterior
  ci_gate :: verifier_signal
  ci_critic :: verifier_signal
  ci_phase :: answer_phase
  ci_attempts :: answer_attempt_level
  ci_one_shot :: bool
  ci_hesitation :: bool
  ci_available :: bool

record control_decision =
  cd_observation :: answer_observation
  cd_posterior :: posterior
  cd_action :: support_action
  cd_reason :: reason_code
  cd_utilities :: "action_utility list"
  cd_next_attempts :: nat
  cd_keep_pending :: bool
  cd_verified_first :: bool
  cd_prior_repaired :: bool

definition default_posterior :: posterior where
  "default_posterior =
     \<lparr>po_target_missing = f64_of (30 / 100), po_available_uncommitted = f64_of (25 / 100),
      po_committed_late = f64_of (10 / 100), po_committed_first = f64_of (15 / 100),
      po_verification_unknown = f64_of (20 / 100)\<rparr>"

definition posterior_values :: "posterior \<Rightarrow> f64 list" where
  "posterior_values p = [po_target_missing p, po_available_uncommitted p, po_committed_late p,
     po_committed_first p, po_verification_unknown p]"

definition posterior_from_values :: "f64 list \<Rightarrow> posterior" where
  "posterior_from_values vs =
     \<lparr>po_target_missing = vs ! LatentTargetMissing, po_available_uncommitted = vs ! LatentAvailableUncommitted,
      po_committed_late = vs ! LatentCommittedLate, po_committed_first = vs ! LatentCommittedFirst,
      po_verification_unknown = vs ! LatentVerificationUnknown\<rparr>"

definition probability :: "posterior \<Rightarrow> nat \<Rightarrow> f64" where
  "probability p state = (let vs = posterior_values p in
     if state \<ge> latent_answer_state_count then Fin 0 else vs ! state)"

section \<open>Observation\<close>

definition normalize_verifier_signal :: "verifier_signal \<Rightarrow> verifier_signal" where
  "normalize_verifier_signal s =
     (if s \<in> {VerifierSignalMissing, VerifierSignalAvailable, VerifierSignalLater, VerifierSignalFirst,
        VerifierSignalAmbiguous, VerifierSignalRejected} then s else VerifierSignalInvalid)"

definition normalize_answer_phase :: "answer_phase \<Rightarrow> answer_phase" where
  "normalize_answer_phase p =
     (if p \<in> {AnswerPhaseNone, AnswerPhaseAwaitingAnswer, AnswerPhaseAwaitingRestatement,
        AnswerPhaseExpanding, AnswerPhaseComplete, AnswerPhaseBlocked} then p else AnswerPhaseInvalid)"

definition normalize_attempt_level :: "answer_attempt_level \<Rightarrow> answer_attempt_level" where
  "normalize_attempt_level a =
     (if a \<in> {AnswerAttemptNone, AnswerAttemptOne, AnswerAttemptLimit} then a else AnswerAttemptLimit)"

fun attempts_from_level :: "answer_attempt_level \<Rightarrow> nat" where
  "attempts_from_level AnswerAttemptNone = 0"
| "attempts_from_level AnswerAttemptOne = 1"
| "attempts_from_level _ = MaxCoachAttempts"

text \<open>The order of \<open>AnswerAttemptLevel\<close>: \<open>level \<ge> AnswerAttemptOne\<close>.\<close>

fun attempted :: "answer_attempt_level \<Rightarrow> bool" where
  "attempted AnswerAttemptNone \<longleftrightarrow> False" | "attempted _ \<longleftrightarrow> True"

definition verifier_failed_closed :: "verifier_signal \<Rightarrow> bool" where
  "verifier_failed_closed s \<longleftrightarrow> s = VerifierSignalInvalid \<or> s = VerifierSignalRejected"

definition verifier_has_committed_target :: "verifier_signal \<Rightarrow> bool" where
  "verifier_has_committed_target s \<longleftrightarrow> s = VerifierSignalFirst \<or> s = VerifierSignalLater"

definition verifier_has_target :: "verifier_signal \<Rightarrow> bool" where
  "verifier_has_target s \<longleftrightarrow> verifier_has_committed_target s \<or> s = VerifierSignalAvailable"

definition combine_answer_evidence :: "answer_observation \<Rightarrow> answer_evidence" where
  "combine_answer_evidence ob =
     (if ob_hesitation ob then AnswerEvidenceHesitation
      else if \<not> ob_available ob \<or> ob_phase ob = AnswerPhaseInvalid then AnswerEvidenceVerificationUnknown
      else if verifier_failed_closed (ob_gate ob) \<or> verifier_failed_closed (ob_critic ob)
        then AnswerEvidenceVerificationUnknown
      else if ob_gate ob = VerifierSignalAmbiguous \<or> ob_critic ob = VerifierSignalAmbiguous
        then AnswerEvidenceAmbiguous
      else if ob_gate ob = VerifierSignalFirst \<and> ob_critic ob = VerifierSignalFirst
        then AnswerEvidenceCommittedFirst
      else if ob_gate ob = VerifierSignalLater \<and> ob_critic ob = VerifierSignalLater
        then AnswerEvidenceCommittedLate
      else if verifier_has_committed_target (ob_gate ob) \<or> verifier_has_committed_target (ob_critic ob)
        then AnswerEvidenceVerificationUnknown
      else if ob_gate ob = VerifierSignalMissing \<or> ob_critic ob = VerifierSignalMissing
        then AnswerEvidenceTargetMissing
      else if ob_gate ob = VerifierSignalAvailable \<or> ob_critic ob = VerifierSignalAvailable
        then AnswerEvidenceAvailableUncommitted
      else AnswerEvidenceVerificationUnknown)"

definition observe_answer_state :: "controller_input \<Rightarrow> answer_observation" where
  "observe_answer_state inp =
     (let ob = \<lparr>ob_evidence = AnswerEvidenceVerificationUnknown,
          ob_gate = normalize_verifier_signal (ci_gate inp),
          ob_critic = normalize_verifier_signal (ci_critic inp),
          ob_phase = normalize_answer_phase (ci_phase inp),
          ob_attempts = normalize_attempt_level (ci_attempts inp),
          ob_one_shot = ci_one_shot inp, ob_hesitation = ci_hesitation inp,
          ob_available = ci_available inp\<rparr>
      in ob\<lparr>ob_evidence := combine_answer_evidence ob\<rparr>)"

section \<open>The posterior\<close>

text \<open>One value of the repairing loop: the values so far, whether one was repaired, and the sum.\<close>

definition repair_value :: "f64 list \<times> bool \<times> f64 \<Rightarrow> f64 \<Rightarrow> f64 list \<times> bool \<times> f64" where
  "repair_value = (\<lambda>(ws, repaired, sum) v.
     if is_nan v \<or> is_inf v \<or> flt v (Fin 0) then (ws @ [Fin 0], True, sum)
     else (ws @ [v], repaired \<or> flt (Fin 1) v, fadd sum v))"

definition normalize_probability_values :: "f64 list \<Rightarrow> f64 list \<times> bool" where
  "normalize_probability_values vs =
     (let (ws, repaired, sum) = foldl repair_value ([], False, Fin 0) vs in
      if \<not> flt (Fin 0) sum \<or> is_nan sum \<or> is_inf sum
      then (posterior_values default_posterior, True)
      else let repaired = (repaired \<or> flt (f64_of (1 / 10 ^ 12)) (fabs (fsub sum (Fin 1))));
               qs = List.map (\<lambda>w. fdiv w sum) ws;
               partial = foldl fadd (Fin 0) (List.take (latent_answer_state_count - 1) qs)
           in (qs[LatentVerificationUnknown := fmax (Fin 0) (fsub (Fin 1) partial)], repaired))"

fun evidence_likelihood :: "answer_evidence \<Rightarrow> f64 list" where
  "evidence_likelihood AnswerEvidenceTargetMissing = List.map f64_of [930, 30, 2, 1, 37]"
| "evidence_likelihood AnswerEvidenceAvailableUncommitted = List.map f64_of [20, 900, 20, 5, 55]"
| "evidence_likelihood AnswerEvidenceCommittedLate = List.map f64_of [1, 4, 980, 5, 10]"
| "evidence_likelihood AnswerEvidenceCommittedFirst = List.map f64_of [1, 3, 8, 980, 8]"
| "evidence_likelihood AnswerEvidenceAmbiguous = List.map f64_of [80, 100, 50, 20, 750]"
| "evidence_likelihood AnswerEvidenceHesitation = List.map f64_of [1, 1, 1, 1, 1]"
| "evidence_likelihood AnswerEvidenceVerificationUnknown = List.map f64_of [5, 8, 8, 5, 974]"

definition update_posterior :: "posterior \<Rightarrow> answer_observation \<Rightarrow> posterior \<times> bool" where
  "update_posterior prior ob =
     (let (values, repaired) = normalize_probability_values (posterior_values prior);
          defaults = posterior_values default_posterior;
          predicted = map2 (\<lambda>v d. fadd (fmul v (f64_of (97 / 100))) (fmul d (f64_of (3 / 100)))) values defaults;
          weighted = map2 fmul predicted (evidence_likelihood (ob_evidence ob));
          (result, _) = normalize_probability_values weighted
      in (posterior_from_values result, repaired))"

section \<open>Safety masks\<close>

fun action_index :: "support_action \<Rightarrow> nat" where
  "action_index AnswerSupportWait = 0"
| "action_index AnswerSupportElicit = 1"
| "action_index AnswerSupportRestate = 2"
| "action_index AnswerSupportComplete = 3"
| "action_index AnswerSupportRelease = 4"

definition allow :: "support_action list \<Rightarrow> bool list" where
  "allow acts = foldl (\<lambda>al a. al[action_index a := True]) (replicate 5 False) acts"

definition allowed_answer_actions :: "answer_observation \<Rightarrow> bool list" where
  "allowed_answer_actions ob =
     (if ob_gate ob = VerifierSignalRejected then allow [AnswerSupportRelease]
      else if ob_phase ob = AnswerPhaseComplete then
        (if ob_evidence ob = AnswerEvidenceCommittedFirst \<or> ob_evidence ob = AnswerEvidenceCommittedLate
         then allow [AnswerSupportComplete] else allow [AnswerSupportWait])
      else if ob_hesitation ob \<or> ob_evidence ob = AnswerEvidenceHesitation \<or> \<not> ob_available ob
        then allow [AnswerSupportWait]
      else if ob_phase ob = AnswerPhaseInvalid \<or> ob_evidence ob = AnswerEvidenceVerificationUnknown
        then allow [AnswerSupportWait]
      else if ob_evidence ob = AnswerEvidenceCommittedFirst then allow [AnswerSupportComplete]
      else if ob_phase ob = AnswerPhaseExpanding \<and> verifier_has_target (ob_gate ob)
          \<and> verifier_has_target (ob_critic ob) then allow [AnswerSupportComplete]
      else if ob_evidence ob = AnswerEvidenceCommittedLate then
        (if \<not> ob_one_shot ob \<and> ob_phase ob \<noteq> AnswerPhaseExpanding then
           (if attempted (ob_attempts ob) then allow [AnswerSupportRelease]
            else allow [AnswerSupportWait, AnswerSupportRestate])
         else allow [AnswerSupportComplete])
      else if attempted (ob_attempts ob) then allow [AnswerSupportRelease]
      else allow [AnswerSupportWait, AnswerSupportElicit])"

section \<open>Utilities\<close>

record answer_effect =
  ce_first_success :: f64
  ce_cognitive_load :: f64
  ce_interruption_risk :: f64
  ce_coercion_risk :: f64
  ce_leakage_risk :: f64

abbreviation hundredths :: "rat list \<Rightarrow> f64 list" where
  "hundredths qs \<equiv> List.map (\<lambda>q. f64_of (q / 100)) qs"

definition counterfactual_effect :: "support_action \<Rightarrow> nat \<Rightarrow> answer_attempt_level \<Rightarrow> answer_effect" where
  "counterfactual_effect act state attempts =
     (let repetition_cost = (if attempted attempts \<and> (act = AnswerSupportElicit \<or> act = AnswerSupportRestate)
        then f64_of (20 / 100) else Fin 0)
      in case act of
        AnswerSupportWait \<Rightarrow>
          \<lparr>ce_first_success = hundredths [4, 20, 18, 90, 2] ! state, ce_cognitive_load = f64_of (2 / 100),
           ce_interruption_risk = hundredths [1, 1, 3, 8, 1] ! state, ce_coercion_risk = Fin 0,
           ce_leakage_risk = Fin 0\<rparr>
      | AnswerSupportElicit \<Rightarrow>
          \<lparr>ce_first_success = hundredths [25, 58, 28, 92, 10] ! state,
           ce_cognitive_load = hundredths [28, 22, 30, 34, 24] ! state,
           ce_interruption_risk = hundredths [8, 12, 18, 45, 12] ! state,
           ce_coercion_risk = fadd (f64_of (10 / 100)) repetition_cost, ce_leakage_risk = Fin 0\<rparr>
      | AnswerSupportRestate \<Rightarrow>
          \<lparr>ce_first_success = hundredths [10, 56, 72, 95, 6] ! state,
           ce_cognitive_load = hundredths [42, 40, 38, 46, 42] ! state,
           ce_interruption_risk = hundredths [14, 18, 12, 48, 16] ! state,
           ce_coercion_risk = fadd (f64_of (26 / 100)) repetition_cost, ce_leakage_risk = Fin 0\<rparr>
      | AnswerSupportComplete \<Rightarrow>
          \<lparr>ce_first_success = hundredths [0, 0, 0, 100, 0] ! state, ce_cognitive_load = f64_of (1 / 100),
           ce_interruption_risk = Fin 0, ce_coercion_risk = Fin 0, ce_leakage_risk = Fin 0\<rparr>
      | AnswerSupportRelease \<Rightarrow>
          \<lparr>ce_first_success = Fin 0, ce_cognitive_load = Fin 0, ce_interruption_risk = Fin 0,
           ce_coercion_risk = Fin 0, ce_leakage_risk = Fin 0\<rparr>)"

definition binary_entropy :: "(f64 \<Rightarrow> f64) \<Rightarrow> f64 \<Rightarrow> f64" where
  "binary_entropy lg p =
     (if fle p (Fin 0) \<or> fle (Fin 1) p then Fin 0
      else fsub (fmul (fneg p) (lg p)) (fmul (fsub (Fin 1) p) (lg (fsub (Fin 1) p))))"

definition expected_information_gain :: "(f64 \<Rightarrow> f64) \<Rightarrow> f64 list \<Rightarrow> support_action \<Rightarrow> f64" where
  "expected_information_gain lg post act =
     (let resolved = (case act of
          AnswerSupportWait \<Rightarrow> Some (hundredths [10, 28, 55, 95, 10])
        | AnswerSupportElicit \<Rightarrow> Some (hundredths [42, 68, 72, 95, 30])
        | AnswerSupportRestate \<Rightarrow> Some (hundredths [18, 62, 82, 96, 18])
        | _ \<Rightarrow> None)
      in case resolved of None \<Rightarrow> Fin 0
      | Some rs \<Rightarrow>
          let (resolved_probability, entropy) =
                foldl (\<lambda>(r, e) i. (fadd r (fmul (post ! i) (rs ! i)),
                    fadd e (fmul (post ! i) (binary_entropy lg (rs ! i)))))
                  (Fin 0, Fin 0) [0..<latent_answer_state_count];
              gain = fsub (binary_entropy lg resolved_probability) entropy
          in if flt gain (Fin 0) \<and> flt (fneg (f64_of (1 / 10 ^ 12))) gain then Fin 0 else gain)"

definition support_actions :: "support_action list" where
  "support_actions = [AnswerSupportWait, AnswerSupportElicit, AnswerSupportRestate, AnswerSupportComplete,
     AnswerSupportRelease]"

definition action_utility_of ::
  "(f64 \<Rightarrow> f64) \<Rightarrow> f64 list \<Rightarrow> answer_attempt_level \<Rightarrow> bool \<Rightarrow> support_action \<Rightarrow> action_utility" where
  "action_utility_of lg values attempts allowed act =
     (let expect = (\<lambda>f. foldl (\<lambda>s i. fadd s (fmul (values ! i) (f (counterfactual_effect act i attempts))))
            (Fin 0) [0..<latent_answer_state_count]);
          success = expect ce_first_success; load = expect ce_cognitive_load;
          interruption = expect ce_interruption_risk; coercion = expect ce_coercion_risk;
          leakage = expect ce_leakage_risk; gain = expected_information_gain lg values act
      in \<lparr>au_action = act, au_allowed = allowed, au_first_success = success, au_information_gain = gain,
          au_cognitive_load = load, au_interruption_risk = interruption, au_coercion_risk = coercion,
          au_leakage_risk = leakage,
          au_total =
            fsub (fsub (fsub (fsub (fadd (fmul (f64_of (240 / 100)) success) (fmul (f64_of (80 / 100)) gain))
              (fmul (f64_of (55 / 100)) load)) (fmul (f64_of (65 / 100)) interruption))
              (fmul (f64_of (90 / 100)) coercion)) (fmul (f64_of (140 / 100)) leakage)\<rparr>)"

definition evaluate_answer_actions ::
  "(f64 \<Rightarrow> f64) \<Rightarrow> posterior \<Rightarrow> answer_observation \<Rightarrow> bool list \<Rightarrow> action_utility list" where
  "evaluate_answer_actions lg post ob allowed =
     map2 (action_utility_of lg (posterior_values post) (ob_attempts ob)) allowed support_actions"

text \<open>The selection keeps the first of the best allowed actions; a total that is not a number never
  displaces one.\<close>

definition select_answer_action :: "action_utility list \<Rightarrow> support_action" where
  "select_answer_action us =
     fst (foldl (\<lambda>(sel, total, found) u.
        if \<not> au_allowed u then (sel, total, found)
        else if \<not> found \<or> flt total (au_total u) then (au_action u, au_total u, True)
        else (sel, total, found))
       (AnswerSupportWait, Fin (- max_double), False) us)"

definition reason_for_answer_action :: "answer_observation \<Rightarrow> support_action \<Rightarrow> reason_code" where
  "reason_for_answer_action ob act =
     (if act = AnswerSupportRelease then
        (if ob_gate ob = VerifierSignalRejected then AnswerReasonScopeRejected else AnswerReasonAttemptLimit)
      else if ob_phase ob = AnswerPhaseInvalid then AnswerReasonInvalidPhase
      else if ob_phase ob = AnswerPhaseComplete \<and> act = AnswerSupportComplete then AnswerReasonTerminalComplete
      else if ob_hesitation ob \<or> ob_evidence ob = AnswerEvidenceHesitation then AnswerReasonHesitation
      else if \<not> ob_available ob then AnswerReasonVerificationUnavailable
      else if act = AnswerSupportComplete \<and> ob_phase ob = AnswerPhaseExpanding then AnswerReasonExpansionAccepted
      else case ob_evidence ob of
        AnswerEvidenceCommittedFirst \<Rightarrow> AnswerReasonVerifiedFirst
      | AnswerEvidenceCommittedLate \<Rightarrow>
          if act = AnswerSupportRestate then AnswerReasonLateRestatement else AnswerReasonLateAccepted
      | AnswerEvidenceTargetMissing \<Rightarrow> AnswerReasonTargetMissing
      | AnswerEvidenceAvailableUncommitted \<Rightarrow> AnswerReasonAvailableUncommitted
      | AnswerEvidenceAmbiguous \<Rightarrow> AnswerReasonAmbiguous
      | _ \<Rightarrow> AnswerReasonVerificationInconclusive)"

section \<open>The plan\<close>

definition prompts :: "support_action \<Rightarrow> bool" where
  "prompts a \<longleftrightarrow> a = AnswerSupportElicit \<or> a = AnswerSupportRestate"

definition plan_answer_support :: "(f64 \<Rightarrow> f64) \<Rightarrow> controller_input \<Rightarrow> control_decision" where
  "plan_answer_support lg inp =
     (let ob = observe_answer_state inp;
          (post, repaired) = update_posterior (ci_prior inp) ob;
          allowed = allowed_answer_actions ob;
          utilities = evaluate_answer_actions lg post ob allowed;
          act = select_answer_action utilities;
          attempts = attempts_from_level (ob_attempts ob);
          attempts = (if prompts act \<and> attempts < MaxCoachAttempts then attempts + 1 else attempts);
          attempts = (if act = AnswerSupportRelease then MaxCoachAttempts else attempts)
      in \<lparr>cd_observation = ob, cd_posterior = post, cd_action = act,
          cd_reason = reason_for_answer_action ob act, cd_utilities = utilities,
          cd_next_attempts = attempts, cd_keep_pending = (act = AnswerSupportWait \<or> prompts act),
          cd_verified_first = (act = AnswerSupportComplete \<and> ob_evidence ob = AnswerEvidenceCommittedFirst
            \<and> ob_phase ob \<noteq> AnswerPhaseExpanding),
          cd_prior_repaired = repaired\<rparr>)"

section \<open>The stored posterior\<close>

record stored_progress =
  sp_version :: nat
  sp_policy_version :: nat
  sp_mass :: "nat list"

text \<open>The sum of the five masses is taken in 32 bits; five 16-bit masses stay far below.\<close>

definition stored_valid :: "stored_progress \<Rightarrow> bool" where
  "stored_valid s \<longleftrightarrow> sp_version s = StoredVerifierProgressVersion
     \<and> sp_policy_version s = VerifierProgressPolicyVersion
     \<and> foldl (\<lambda>total mass. (total + mass) mod 2 ^ 32) 0 (sp_mass s) = StoredVerifierProgressScale"

definition stored_posterior :: "stored_progress \<Rightarrow> posterior option" where
  "stored_posterior s =
     (if \<not> stored_valid s then None
      else Some (posterior_from_values
        (List.map (\<lambda>i. fdiv (f64_of (of_nat (sp_mass s ! i))) (f64_of (of_nat StoredVerifierProgressScale)))
          [0..<latent_answer_state_count])))"

text \<open>\<open>uint16\<close> of a non-negative finite double with no fraction.\<close>

fun to_uint16 :: "f64 \<Rightarrow> nat" where
  "to_uint16 (Fin x) = nat \<lfloor>x\<rfloor> mod 2 ^ 16" | "to_uint16 _ = 0"

definition best_remainder :: "f64 list \<Rightarrow> nat" where
  "best_remainder rs = foldl (\<lambda>best i. if flt (rs ! best) (rs ! i) then i else best) 0 [1..<length rs]"

text \<open>The loop that hands out the missing units. It counts \<open>assigned\<close> up to the scale.\<close>

function hand_out :: "nat list \<Rightarrow> f64 list \<Rightarrow> nat \<Rightarrow> nat list" where
  "hand_out mass rs assigned =
     (if assigned < StoredVerifierProgressScale
      then let best = best_remainder rs
           in hand_out (mass[best := (mass ! best + 1) mod 2 ^ 16]) (rs[best := Fin (- 1)]) (assigned + 1)
      else mass)"
  by pat_completeness auto
termination
  by (relation "measure (\<lambda>(_, _, assigned). StoredVerifierProgressScale - assigned)") auto

declare hand_out.simps [simp del]

definition store_verifier_progress :: "posterior \<Rightarrow> stored_progress" where
  "store_verifier_progress p =
     (let (values, _) = normalize_probability_values (posterior_values p);
          scaled = List.map (\<lambda>v. fmul v (f64_of (of_nat StoredVerifierProgressScale))) values;
          bases = List.map (\<lambda>v. to_uint16 (ffloor v)) scaled;
          remainders = map2 (\<lambda>v b. fsub v (f64_of (of_nat b))) scaled bases;
          assigned = foldl (\<lambda>a b. (a + b) mod 2 ^ 16) 0 bases
      in \<lparr>sp_version = StoredVerifierProgressVersion, sp_policy_version = VerifierProgressPolicyVersion,
          sp_mass = hand_out bases remainders assigned\<rparr>)"

section \<open>Selection and masks\<close>

lemma select_allowed:
  assumes "\<exists>u \<in> set us. au_allowed u"
  shows "\<exists>u \<in> set us. au_allowed u \<and> au_action u = select_answer_action us"
proof -
  let ?step = "\<lambda>(sel, total, found) u. if \<not> au_allowed u then (sel, total, found)
     else if \<not> found \<or> flt total (au_total u) then (au_action u, au_total u, True)
     else (sel, total, found)"
  have "(case foldl ?step (AnswerSupportWait, Fin (- max_double), False) us of (sel, best, found) \<Rightarrow>
      (found \<longrightarrow> (\<exists>u \<in> set us. au_allowed u \<and> au_action u = sel))
      \<and> (\<not> found \<longrightarrow> (\<forall>u \<in> set us. \<not> au_allowed u)))"
    by (induction us rule: rev_induct) (auto split: prod.splits if_splits)
  then show ?thesis using assms unfolding select_answer_action_def by (auto split: prod.splits)
qed

lemma length_allow [simp]: "length (allow acts) = 5"
proof -
  have "length (foldl (\<lambda>al a. al[action_index a := True]) al acts) = length al" for al
    by (induction acts arbitrary: al) auto
  then show ?thesis by (simp add: allow_def)
qed

lemma action_index_less [simp]: "action_index a < 5"
  by (cases a) auto

lemma action_index_inj [simp]: "action_index a = action_index b \<longleftrightarrow> a = b"
  by (cases a; cases b) auto

lemma allow_nth:
  "allow acts ! action_index a \<longleftrightarrow> a \<in> set acts"
proof -
  have "foldl (\<lambda>al a. al[action_index a := True]) al acts ! action_index a
      \<longleftrightarrow> a \<in> set acts \<or> al ! action_index a" if "length al = 5" for al
    using that
  proof (induction acts arbitrary: al)
    case (Cons b acts)
    then show ?case by (cases "a = b") (auto simp: nth_list_update)
  qed simp
  then show ?thesis by (simp add: allow_def)
qed

text \<open>The masks, read as a set of actions; it is never empty.\<close>

definition permitted :: "answer_observation \<Rightarrow> support_action set" where
  "permitted ob = {a. allowed_answer_actions ob ! action_index a}"

lemma length_allowed [simp]: "length (allowed_answer_actions ob) = 5"
  by (simp add: allowed_answer_actions_def)

lemma permitted_eq:
  "permitted ob =
     (if ob_gate ob = VerifierSignalRejected then {AnswerSupportRelease}
      else if ob_phase ob = AnswerPhaseComplete then
        (if ob_evidence ob \<in> {AnswerEvidenceCommittedFirst, AnswerEvidenceCommittedLate}
         then {AnswerSupportComplete} else {AnswerSupportWait})
      else if ob_hesitation ob \<or> ob_evidence ob = AnswerEvidenceHesitation \<or> \<not> ob_available ob
          \<or> ob_phase ob = AnswerPhaseInvalid \<or> ob_evidence ob = AnswerEvidenceVerificationUnknown
        then {AnswerSupportWait}
      else if ob_evidence ob = AnswerEvidenceCommittedFirst then {AnswerSupportComplete}
      else if ob_phase ob = AnswerPhaseExpanding \<and> verifier_has_target (ob_gate ob)
          \<and> verifier_has_target (ob_critic ob) then {AnswerSupportComplete}
      else if ob_evidence ob = AnswerEvidenceCommittedLate then
        (if \<not> ob_one_shot ob \<and> ob_phase ob \<noteq> AnswerPhaseExpanding then
           (if attempted (ob_attempts ob) then {AnswerSupportRelease}
            else {AnswerSupportWait, AnswerSupportRestate})
         else {AnswerSupportComplete})
      else if attempted (ob_attempts ob) then {AnswerSupportRelease}
      else {AnswerSupportWait, AnswerSupportElicit})"
  unfolding permitted_def allowed_answer_actions_def by (auto simp: allow_nth)

lemma permitted_nonempty: "permitted ob \<noteq> {}"
  by (simp add: permitted_eq)

lemma utility_simps [simp]:
  "au_action (action_utility_of lg vs n allowed act) = act"
  "au_allowed (action_utility_of lg vs n allowed act) = allowed"
  by (simp_all add: action_utility_of_def Let_def)

lemma support_actions_nth: "i < 5 \<Longrightarrow> action_index (support_actions ! i) = i"
  by (auto simp: support_actions_def nth_Cons split: nat.splits)

lemma evaluate_set:
  "u \<in> set (evaluate_answer_actions lg post ob al) \<Longrightarrow> length al = 5 \<Longrightarrow> au_allowed u \<longleftrightarrow> al ! action_index (au_action u)"
  by (auto simp: evaluate_answer_actions_def set_zip support_actions_nth)

lemma evaluate_all:
  assumes "length al = 5"
  shows "au_action ` set (evaluate_answer_actions lg post ob al) = UNIV"
proof -
  have "List.map au_action (evaluate_answer_actions lg post ob al) = support_actions"
    using assms by (intro nth_equalityI) (simp_all add: evaluate_answer_actions_def support_actions_def)
  then have "au_action ` set (evaluate_answer_actions lg post ob al) = set support_actions"
    by (metis set_map)
  moreover have "a \<in> set support_actions" for a by (cases a) (simp_all add: support_actions_def)
  ultimately show ?thesis by auto
qed

lemma select_permitted:
  "select_answer_action (evaluate_answer_actions lg post ob (allowed_answer_actions ob)) \<in> permitted ob"
proof -
  let ?us = "evaluate_answer_actions lg post ob (allowed_answer_actions ob)"
  obtain a where "a \<in> permitted ob" using permitted_nonempty by blast
  moreover obtain u where "u \<in> set ?us" "au_action u = a"
    using evaluate_all [OF length_allowed, of lg post ob] by (metis UNIV_I imageE)
  ultimately have "\<exists>u \<in> set ?us. au_allowed u" using evaluate_set by (fastforce simp: permitted_def)
  then show ?thesis using select_allowed evaluate_set by (fastforce simp: permitted_def)
qed

lemma plan_simps [simp]:
  "cd_observation (plan_answer_support lg inp) = observe_answer_state inp"
  "cd_posterior (plan_answer_support lg inp) = fst (update_posterior (ci_prior inp) (observe_answer_state inp))"
  "cd_reason (plan_answer_support lg inp) =
     reason_for_answer_action (observe_answer_state inp) (cd_action (plan_answer_support lg inp))"
  "cd_keep_pending (plan_answer_support lg inp) \<longleftrightarrow>
     cd_action (plan_answer_support lg inp) = AnswerSupportWait \<or> prompts (cd_action (plan_answer_support lg inp))"
  "cd_verified_first (plan_answer_support lg inp) \<longleftrightarrow>
     cd_action (plan_answer_support lg inp) = AnswerSupportComplete
     \<and> ob_evidence (observe_answer_state inp) = AnswerEvidenceCommittedFirst
     \<and> ob_phase (observe_answer_state inp) \<noteq> AnswerPhaseExpanding"
  by (simp_all add: plan_answer_support_def Let_def split: prod.splits)

lemma plan_permitted: "cd_action (plan_answer_support lg inp) \<in> permitted (observe_answer_state inp)"
  using select_permitted by (simp add: plan_answer_support_def Let_def split: prod.splits)

lemma plan_next_attempts:
  "cd_next_attempts (plan_answer_support lg inp) =
     (let a = cd_action (plan_answer_support lg inp);
          n = attempts_from_level (normalize_attempt_level (ci_attempts inp))
      in if a = AnswerSupportRelease then MaxCoachAttempts
         else if prompts a \<and> n < MaxCoachAttempts then n + 1 else n)"
  by (simp add: plan_answer_support_def observe_answer_state_def Let_def split: prod.splits)

lemmas observe_simps = observe_answer_state_def combine_answer_evidence_def Let_def

lemma evidence_first_iff:
  "ob_evidence (observe_answer_state inp) = AnswerEvidenceCommittedFirst \<longleftrightarrow>
     ci_gate inp = VerifierSignalFirst \<and> ci_critic inp = VerifierSignalFirst \<and> ci_available inp
     \<and> \<not> ci_hesitation inp \<and> normalize_answer_phase (ci_phase inp) \<noteq> AnswerPhaseInvalid"
  by (auto simp: observe_simps normalize_verifier_signal_def verifier_failed_closed_def)

lemma plan_verified_first:
  "cd_verified_first (plan_answer_support lg inp) \<longleftrightarrow>
     ci_gate inp = VerifierSignalFirst \<and> ci_critic inp = VerifierSignalFirst \<and> ci_available inp
     \<and> \<not> ci_hesitation inp
     \<and> normalize_answer_phase (ci_phase inp) \<notin> {AnswerPhaseInvalid, AnswerPhaseExpanding}"
proof -
  let ?ob = "observe_answer_state inp"
  have ob: "ob_phase ?ob = normalize_answer_phase (ci_phase inp)" "ob_hesitation ?ob = ci_hesitation inp"
    "ob_available ?ob = ci_available inp" "ob_gate ?ob = normalize_verifier_signal (ci_gate inp)"
    by (simp_all add: observe_answer_state_def Let_def)
  have "permitted ?ob = {AnswerSupportComplete}" if "ob_evidence ?ob = AnswerEvidenceCommittedFirst"
    using that evidence_first_iff [THEN iffD1, OF that]
    by (simp add: permitted_eq ob normalize_verifier_signal_def)
  then show ?thesis
    using plan_permitted [of lg inp] unfolding plan_simps by (auto simp: evidence_first_iff ob)
qed

section \<open>Properties of the plan\<close>

text \<open>
  A turn counts as a verified answer-first success exactly when both verifiers signalled that the
  answer came first, verification was available, the speech was no hesitation, and the phase was a
  known one other than the optional expansion: whatever the prior posterior is, not-a-numbers
  included, and whatever the logarithm returns, the utilities can neither grant it nor take it away.
\<close>

theorem verified_first_iff_both:
  "cd_verified_first (plan_answer_support lg inp) \<longleftrightarrow>
     ci_gate inp = VerifierSignalFirst \<and> ci_critic inp = VerifierSignalFirst \<and> ci_available inp
     \<and> \<not> ci_hesitation inp
     \<and> normalize_answer_phase (ci_phase inp) \<notin> {AnswerPhaseInvalid, AnswerPhaseExpanding}"
  by (rule plan_verified_first)

section \<open>The posterior stays a distribution\<close>

text \<open>Five doubles between 0 and 1 whose exact sum is 1 up to 16 units in the last place.\<close>

definition distribution :: "rat list \<Rightarrow> bool" where
  "distribution xs \<longleftrightarrow> length xs = 5 \<and> doubles xs \<and> (\<forall>x \<in> set xs. x \<le> 1)
     \<and> \<bar>sum_list xs - 1\<bar> \<le> 16 * unit_err"

definition clean :: "f64 \<Rightarrow> f64" where
  "clean v = (if is_nan v \<or> is_inf v \<or> flt v (Fin 0) then Fin 0 else v)"

lemma repair_step:
  "is_f64 s \<Longrightarrow> \<exists>r'. repair_value (ws, r, s) v = (ws @ [clean v], r', fadd s (clean v))"
  by (rule exI [of _ "is_nan v \<or> is_inf v \<or> flt v (Fin 0) \<or> r \<or> flt (Fin 1) v"])
    (simp add: repair_value_def clean_def)

lemma is_f64_fadd [simp]: "is_f64 (fadd a b)"
  by (cases a; cases b) simp_all

lemma repair_fold:
  "is_f64 s \<Longrightarrow> \<exists>r'. foldl repair_value (ws, r, s) vs
     = (ws @ List.map clean vs, r', foldl fadd s (List.map clean vs))"
proof (induction vs arbitrary: ws r s)
  case (Cons v vs)
  obtain r1 where "repair_value (ws, r, s) v = (ws @ [clean v], r1, fadd s (clean v))"
    using repair_step [OF Cons.prems] by blast
  then show ?case using Cons.IH [of "fadd s (clean v)" "ws @ [clean v]" r1] by simp
qed simp

lemma clean_doubles:
  "\<forall>v \<in> set vs. is_f64 v \<Longrightarrow> \<exists>xs. List.map clean vs = List.map Fin xs \<and> doubles xs"
proof (induction vs)
  case (Cons v vs)
  then obtain xs where "List.map clean vs = List.map Fin xs" "doubles xs" by auto
  moreover have "\<exists>x. clean v = Fin x \<and> 0 \<le> x \<and> round64 x = x"
    using Cons.prems by (cases v) (auto simp: clean_def)
  ultimately show ?case by (metis (no_types, lifting) doubles_def list.simps(9) set_ConsD)
qed (auto simp: doubles_def)

lemma distribution_default:
  "\<exists>xs. posterior_values default_posterior = List.map Fin xs \<and> distribution xs"
proof -
  let ?ds = "[30 / 100, 25 / 100, 10 / 100, 15 / 100, 20 / 100] :: rat list"
  have "\<bar>sum_list (List.map round64 ?ds) - sum_list ?ds\<bar> \<le> sum_list ?ds * unit_err + of_nat (length ?ds) * tiny"
    by (rule sum_round_near) simp
  then have "\<bar>sum_list (List.map round64 ?ds) - 1\<bar> \<le> unit_err + 5 * tiny" by simp
  also have "\<dots> \<le> 16 * unit_err" using tiny_bounds by simp
  finally have "distribution (List.map round64 ?ds)"
    unfolding distribution_def doubles_def by (simp add: round64_le_1 round64_nonneg)
  moreover have "posterior_values default_posterior = List.map Fin (List.map round64 ?ds)"
    by (simp add: default_posterior_def posterior_values_def f64_of_unit)
  ultimately show ?thesis by blast
qed

text \<open>The arithmetic of the normal case: shares of a sum, and the residual in the last place.\<close>

lemma power_bounds:
  "(1 + unit_err) ^ 4 \<le> 1 + 5 * unit_err" "1 - 5 * unit_err \<le> (1 - unit_err) ^ 4"
  "1 - 6 * unit_err \<le> (1 - unit_err) ^ 5"
  by (simp_all add: power_divide)

lemma shares_sum:
  assumes xs: "doubles xs" "length xs = 5" and S: "S = r64.acc 0 xs" "0 < S"
  shows "sum_list (List.map (\<lambda>x. round64 (x / S)) (List.take 4 xs)) \<le> 1 + 9 * unit_err"
proof -
  let ?u = "unit_err" and ?R = "sum_list (List.take 4 xs) / S"
  have nonneg: "\<forall>x \<in> set xs. 0 \<le> x" using xs(1) by (simp add: doubles_def)
  have "sum_list (List.take 4 xs) + sum_list (List.drop 4 xs) = sum_list xs"
    by (metis append_take_drop_id sum_list_append)
  moreover have "0 \<le> sum_list (List.drop 4 xs)"
    using nonneg by (intro sum_list_nonneg) (auto dest: in_set_dropD)
  ultimately have le: "sum_list (List.take 4 xs) \<le> sum_list xs" by linarith
  have pos: "0 \<le> sum_list (List.take 4 xs)"
    using nonneg by (intro sum_list_nonneg) (auto dest: in_set_takeD)
  have "(1 - 6 * ?u) * sum_list xs \<le> (1 - ?u) ^ 5 * sum_list xs"
    using pos le by (intro mult_right_mono power_bounds) linarith
  also have "\<dots> \<le> S" using acc_error(2) [of xs] xs S by (simp add: doubles_def)
  finally have "(1 - 6 * ?u) * sum_list (List.take 4 xs) \<le> S"
    using mult_left_mono [OF le, of "1 - 6 * ?u"] by simp
  then have R: "(1 - 6 * ?u) * ?R \<le> 1" using S(2) by simp
  then have R': "?R \<le> 1 + 7 * ?u" by simp
  have "0 \<le> ?R" using pos S(2) by simp
  have "\<forall>x \<in> set (List.map (\<lambda>x. x / S) (List.take 4 xs)). 0 \<le> x"
    using nonneg S(2) by (auto dest: in_set_takeD)
  then have "\<bar>sum_list (List.map round64 (List.map (\<lambda>x. x / S) (List.take 4 xs))) - ?R\<bar>
      \<le> ?R * ?u + of_nat (length (List.map (\<lambda>x. x / S) (List.take 4 xs))) * tiny"
    using sum_round_near [of "List.map (\<lambda>x. x / S) (List.take 4 xs)"] unfolding sum_list_div by blast
  then have near: "\<bar>sum_list (List.map (\<lambda>x. round64 (x / S)) (List.take 4 xs)) - ?R\<bar> \<le> ?R * ?u + 4 * tiny"
    using xs(2) by (simp add: comp_def)
  define R where "R = ?R"
  from near have "sum_list (List.map (\<lambda>x. round64 (x / S)) (List.take 4 xs)) - R \<le> R * ?u + 4 * tiny"
    by (simp only: abs_le_iff R_def)
  then show ?thesis using R' tiny_bounds unfolding R_def [symmetric] by simp
qed

lemma residual_sum:
  assumes qs: "doubles qs" "length qs = 4" and Q: "sum_list qs \<le> 1 + 9 * unit_err"
  defines "P \<equiv> r64.acc 0 qs"
  shows "P \<le> 2" and "\<bar>sum_list qs + max 0 (round64 (1 - P)) - 1\<bar> \<le> 16 * unit_err"
proof -
  let ?u = "unit_err" and ?Q = "sum_list qs"
  have pos: "0 \<le> ?Q" using qs(1) by (intro sum_list_nonneg) (simp add: doubles_def)
  have hi: "P \<le> (1 + 5 * ?u) * ?Q"
    using acc_error(1) [of qs] qs mult_right_mono [OF power_bounds(1) pos] unfolding P_def
    by (simp add: doubles_def)
  have lo: "(1 - 5 * ?u) * ?Q \<le> P"
    using acc_error(2) [of qs] qs mult_right_mono [OF power_bounds(2) pos] unfolding P_def
    by (simp add: doubles_def)
  show "P \<le> 2" using hi Q by simp
  define e where "e = ?Q * ?u"
  have "?Q * ?u \<le> 2 * ?u" using Q by (intro mult_right_mono) simp_all
  then have e: "e \<le> 2 * ?u" by (simp add: e_def)
  have PQ: "P \<le> ?Q + 5 * e" "?Q - 5 * e \<le> P"
    using hi lo by (simp_all only: e_def distrib_right left_diff_distrib mult_1 mult.assoc mult.commute [of ?u])
  show "\<bar>?Q + max 0 (round64 (1 - P)) - 1\<bar> \<le> 16 * ?u"
  proof (cases "P \<le> 1")
    case True
    have "0 \<le> P" unfolding P_def using qs(1) by (intro r64.acc_nonneg) (simp_all add: doubles_def)
    have "\<bar>round64 (1 - P) - (1 - P)\<bar> \<le> (1 - P) * ?u + tiny" using True by (intro round64_near) simp
    moreover have "(1 - P) * ?u \<le> 1 * ?u" using \<open>0 \<le> P\<close> by (intro mult_right_mono) simp_all
    ultimately have near: "round64 (1 - P) - (1 - P) \<le> ?u + tiny" "(1 - P) - round64 (1 - P) \<le> ?u + tiny"
      by (simp_all only: abs_le_iff mult_1) linarith+
    have t: "tiny \<le> ?u" using tiny_bounds(2) by simp
    have r0: "0 \<le> round64 (1 - P)" using True by (intro round64_nonneg) simp
    define u where "u = ?u"
    from near t PQ e have "?Q + round64 (1 - P) \<le> 1 + 16 * u" "1 - 16 * u \<le> ?Q + round64 (1 - P)"
      using tiny_bounds(1) by (simp_all only: u_def [symmetric])
    then have "?Q + round64 (1 - P) \<le> 1 + 16 * ?u \<and> 1 - 16 * ?u \<le> ?Q + round64 (1 - P)"
      by (simp only: u_def)
    then show ?thesis using r0 unfolding abs_le_iff by (simp add: max_def)
  next
    case False
    then have "0 \<le> round64 (- (1 - P))" by (intro round64_nonneg) simp
    then have "round64 (1 - P) \<le> 0" unfolding round64_minus by simp
    then have m: "?Q + max 0 (round64 (1 - P)) = ?Q" by (simp add: max_def)
    define u where "u = ?u"
    have "?Q \<le> 1 + 9 * u" "1 - 10 * u \<le> ?Q" "0 \<le> u"
      using False PQ e Q unfolding u_def [symmetric] by (linarith, linarith, simp add: u_def)
    then have "?Q - 1 \<le> 16 * u" "- (?Q - 1) \<le> 16 * u" by linarith+
    then show ?thesis unfolding m u_def [symmetric] abs_le_iff by blast
  qed
qed


lemma normalize_distribution:
  assumes "\<forall>v \<in> set vs. is_f64 v" "length vs = 5"
  shows "\<exists>xs. fst (normalize_probability_values vs) = List.map Fin xs \<and> distribution xs"
proof -
  obtain ws where ws: "List.map clean vs = List.map Fin ws" "doubles ws"
    using clean_doubles [OF assms(1)] by blast
  then have len: "length ws = 5" using assms(2) by (metis length_map)
  define S where "S = r64.acc 0 ws"
  obtain r where fold: "foldl repair_value ([], False, Fin 0) vs
      = (List.map Fin ws, r, if S > max_double then PosInf else Fin S)"
    using repair_fold [of "Fin 0" "[]" False vs] fold_fadd [of ws 0] ws max_double_ge
    by (auto simp: S_def max_double_def)
  show ?thesis
  proof (cases "0 < S \<and> S \<le> max_double")
    case False
    then have "fst (normalize_probability_values vs) = posterior_values default_posterior"
      unfolding normalize_probability_values_def fold by (auto simp: Let_def)
    then show ?thesis using distribution_default by simp
  next
    case True
    let ?qs = "List.map (\<lambda>x. round64 (x / S)) ws"
    have member: "0 \<le> x \<and> x \<le> S" if "x \<in> set ws" for x
      using that ws(2) unfolding S_def by (auto simp: doubles_def intro: r64.acc_ge_member)
    then have quot: "List.map (\<lambda>w. fdiv w (Fin S)) (List.map Fin ws) = List.map Fin ?qs"
      using True by (simp add: fdiv_unit)
    have qs: "doubles ?qs" "\<forall>q \<in> set ?qs. q \<le> 1"
      using member True by (auto simp: doubles_def round64_nonneg round64_le_1)
    have qs4: "doubles (List.take 4 ?qs)" "length (List.take 4 ?qs) = 4"
      using qs len by (simp_all add: doubles_def take_map) (auto dest: in_set_takeD)
    have Q: "sum_list (List.take 4 ?qs) \<le> 1 + 9 * unit_err"
      using shares_sum [OF ws(2) len] True by (simp add: S_def take_map)
    define P where "P = r64.acc 0 (List.take 4 ?qs)"
    note P = residual_sum [OF qs4 Q, folded P_def]
    have P0: "0 \<le> P"
      unfolding P_def by (rule r64.acc_nonneg [OF order_refl]) (use qs4(1) in \<open>unfold doubles_def, blast\<close>)
    have partial: "foldl fadd (Fin 0) (List.take 4 (List.map Fin ?qs)) = Fin P"
      using fold_fadd [OF qs4(1), of 0] P(1) max_double_ge by (simp add: take_map P_def max_double_def)
    have hi1: "round64 (1 - P) \<le> 1" using P0 by (intro round64_le_1) simp
    have "round64 (- 1) \<le> round64 (1 - P)" using P(1) by (intro round64_mono) simp
    then have lo1: "- 1 \<le> round64 (1 - P)" by (simp add: round64_minus)
    have "\<bar>round64 (1 - P)\<bar> \<le> 2 ^ 53" using hi1 lo1 by (simp add: abs_le_iff)
    then have "fmax (Fin 0) (fsub (Fin 1) (Fin P)) = Fin (max 0 (round64 (1 - P)))"
      by (simp add: fmax_def fsub_def f64_of_Fin max_def)
    then have res: "fst (normalize_probability_values vs) =
        List.map Fin (?qs[4 := max 0 (round64 (1 - P))])"
      using True unfolding normalize_probability_values_def fold
      by (simp add: Let_def quot partial latent_answer_state_count_def map_update del: List.map_map)
    have split: "?qs[4 := v] = List.take 4 ?qs @ [v]" for v
      using len by (simp add: upd_conv_take_nth_drop)
    have "distribution (List.take 4 ?qs @ [max 0 (round64 (1 - P))])"
      unfolding distribution_def
    proof (intro conjI)
      show "length (List.take 4 ?qs @ [max 0 (round64 (1 - P))]) = 5" using qs4(2) by simp
      show "doubles (List.take 4 ?qs @ [max 0 (round64 (1 - P))])"
        unfolding doubles_append by (rule conjI [OF qs4(1) doubles_max])
      show "\<forall>x \<in> set (List.take 4 ?qs @ [max 0 (round64 (1 - P))]). x \<le> 1"
      proof
        fix x assume "x \<in> set (List.take 4 ?qs @ [max 0 (round64 (1 - P))])"
        then have "x \<in> set ?qs \<or> x = max 0 (round64 (1 - P))"
          unfolding set_append by (elim UnE) (blast dest: in_set_takeD, simp only: set_simps singleton_iff simp_thms)
        then show "x \<le> 1" using qs(2) hi1 by (elim disjE) (blast, simp)
      qed
      show "\<bar>sum_list (List.take 4 ?qs @ [max 0 (round64 (1 - P))]) - 1\<bar> \<le> 16 * unit_err"
        by (simp only: sum_list_append sum_list.Cons sum_list.Nil add_0_right) (rule P(2))
    qed
    then have "distribution (?qs[4 := max 0 (round64 (1 - P))])" unfolding split .
    then show ?thesis using res by blast
  qed
qed

lemma length_normalize [simp]: "length vs = 5 \<Longrightarrow> length (fst (normalize_probability_values vs)) = 5"
proof -
  assume len: "length vs = 5"
  have "length (fst (foldl repair_value (ws, r, t) us)) = length ws + length us" for ws r t us
    by (induction us arbitrary: ws r t) (auto simp: repair_value_def)
  from this [of "[]" False "Fin 0" vs] show ?thesis
    using len by (auto simp: normalize_probability_values_def Let_def posterior_values_def split: prod.splits)
qed

lemma length_likelihood [simp]: "length (evidence_likelihood e) = 5"
  by (cases e) simp_all

lemma length_posterior_values [simp]: "length (posterior_values p) = 5"
  by (simp add: posterior_values_def)

lemma posterior_values_from: "length vs = 5 \<Longrightarrow> posterior_values (posterior_from_values vs) = vs"
  by (intro nth_equalityI) (auto simp: posterior_values_def posterior_from_values_def nth_Cons
      eval_nat_numeral less_Suc_eq_0_disj split: nat.splits)

lemma is_f64_fmul [simp]: "is_f64 (fmul a b)"
  by (cases a; cases b) (simp_all add: fmul_def signed_inf_def)

lemma update_distribution:
  "\<exists>xs. posterior_values (fst (update_posterior prior ob)) = List.map Fin xs \<and> distribution xs"
proof -
  obtain ws where ws: "fst (update_posterior prior ob) = posterior_from_values (fst (normalize_probability_values ws))"
    "length ws = 5" "\<forall>v \<in> set ws. is_f64 v"
    by (rule that [of "map2 fmul (map2 (\<lambda>v d. fadd (fmul v (f64_of (97 / 100))) (fmul d (f64_of (3 / 100))))
          (fst (normalize_probability_values (posterior_values prior))) (posterior_values default_posterior))
          (evidence_likelihood (ob_evidence ob))"])
      (auto simp: update_posterior_def Let_def split: prod.splits)
  from normalize_distribution [OF ws(3,2)] show ?thesis
    using ws(1,2) by (simp add: posterior_values_from)
qed

text \<open>
  C22. The belief stays a probability distribution: after every turn, whatever posterior was presented
  (negative masses, infinities and not-a-numbers included) and whatever was observed, the five masses
  are finite doubles between 0 and 1 whose sum is 1 up to 16 units in the last place.
\<close>

theorem posterior_is_distribution:
  "\<exists>xs. posterior_values (cd_posterior (plan_answer_support lg inp)) = List.map Fin xs
     \<and> length xs = 5 \<and> set xs \<subseteq> {0..1} \<and> \<bar>sum_list xs - 1\<bar> \<le> 16 / 2 ^ 53"
proof -
  obtain xs where xs: "posterior_values (cd_posterior (plan_answer_support lg inp)) = List.map Fin xs"
    and d: "distribution xs"
    using update_distribution [of "ci_prior inp" "observe_answer_state inp"] by auto
  from d have "length xs = 5 \<and> set xs \<subseteq> {0..1} \<and> \<bar>sum_list xs - 1\<bar> \<le> 16 * unit_err"
    unfolding distribution_def doubles_def by auto
  then show ?thesis using xs by (intro exI [of _ xs]) simp
qed

section \<open>Storing the posterior\<close>

lemma best_remainder_max:
  assumes "rs \<noteq> []" and fin: "\<forall>v \<in> set rs. \<exists>r. v = Fin r"
  shows "best_remainder rs < length rs" and "\<forall>i < length rs. \<not> flt (rs ! best_remainder rs) (rs ! i)"
proof -
  have "n \<le> length rs \<Longrightarrow> 0 < n \<Longrightarrow>
      (let b = foldl (\<lambda>best i. if flt (rs ! best) (rs ! i) then i else best) 0 [1..<n]
       in b < n \<and> (\<forall>i < n. \<not> flt (rs ! b) (rs ! i)))" for n
  proof (induction n)
    case (Suc n)
    show ?case
    proof (cases "n = 0")
      case True
      then show ?thesis using fin nth_mem [of 0 rs] Suc.prems by fastforce
    next
      case False
      define b where "b = foldl (\<lambda>best i. if flt (rs ! best) (rs ! i) then i else best) 0 [1..<n]"
      from Suc False have b: "b < n" "\<forall>i < n. \<not> flt (rs ! b) (rs ! i)" by (simp_all add: b_def Let_def)
      have f: "\<exists>r. rs ! i = Fin r" if "i < Suc n" for i using fin nth_mem [of i rs] that Suc.prems by simp
      have e: "foldl (\<lambda>best i. if flt (rs ! best) (rs ! i) then i else best) 0 [1..<Suc n]
          = (if flt (rs ! b) (rs ! n) then n else b)" using False by (simp add: b_def)
      have "\<not> flt (rs ! (if flt (rs ! b) (rs ! n) then n else b)) (rs ! i)" if "i < Suc n" for i
        using that
      proof -
        obtain x where "rs ! b = Fin x" using f [of b] b(1) by auto
        moreover obtain y where "rs ! n = Fin y" using f [of n] by auto
        moreover obtain z where "rs ! i = Fin z" using f [OF \<open>i < Suc n\<close>] by auto
        moreover have "i = n \<or> \<not> flt (rs ! b) (rs ! i)" using b(2) that by (auto simp: less_Suc_eq)
        ultimately show ?thesis by auto
      qed
      then show ?thesis unfolding Let_def e using b(1) by auto
    qed
  qed simp
  from this [of "length rs"] assms(1)
  show "best_remainder rs < length rs" "\<forall>i < length rs. \<not> flt (rs ! best_remainder rs) (rs ! i)"
    by (simp_all add: best_remainder_def Let_def)
qed

text \<open>Every unit goes to a place that has not had one, so each mass grows by at most one.\<close>

definition fresh :: "f64 list \<Rightarrow> nat set" where
  "fresh rs = {i. i < length rs \<and> rs ! i \<noteq> Fin (- 1)}"

definition remainders_ok :: "f64 list \<Rightarrow> bool" where
  "remainders_ok rs \<longleftrightarrow> (\<forall>v \<in> set rs. \<exists>r. v = Fin r \<and> (0 \<le> r \<or> r = - 1))"

lemma best_fresh:
  assumes "remainders_ok rs" "fresh rs \<noteq> {}"
  shows "best_remainder rs \<in> fresh rs"
proof -
  from assms(2) obtain j where j: "j < length rs" "rs ! j \<noteq> Fin (- 1)" by (auto simp: fresh_def)
  have fin: "\<forall>v \<in> set rs. \<exists>r. v = Fin r" using assms(1) by (auto simp: remainders_ok_def)
  have "rs \<noteq> []" using j by auto
  note best = best_remainder_max [OF this fin]
  obtain r where r: "rs ! j = Fin r" "0 \<le> r"
  proof -
    have "\<exists>r. rs ! j = Fin r \<and> (0 \<le> r \<or> r = - 1)"
      using assms(1) nth_mem [OF j(1)] unfolding remainders_ok_def by blast
    then show ?thesis using j(2) that by blast
  qed
  then have "rs ! best_remainder rs \<noteq> Fin (- 1)" using best(2) j(1) by fastforce
  then show ?thesis using best(1) by (simp add: fresh_def)
qed

lemma hand_out_once:
  "length mass = length rs \<Longrightarrow> remainders_ok rs \<Longrightarrow> sum_list mass = assigned \<Longrightarrow> assigned \<le> 10000
    \<Longrightarrow> 10000 - assigned \<le> card (fresh rs)
    \<Longrightarrow> sum_list (hand_out mass rs assigned) = 10000
      \<and> length (hand_out mass rs assigned) = length mass
      \<and> (\<forall>i < length mass. mass ! i \<le> hand_out mass rs assigned ! i
           \<and> hand_out mass rs assigned ! i \<le> mass ! i + (if i \<in> fresh rs then 1 else 0))"
proof (induction mass rs assigned rule: hand_out.induct)
  case (1 mass rs assigned)
  show ?case
  proof (cases "assigned < 10000")
    case False
    then show ?thesis using "1.prems" by (simp add: hand_out.simps [of mass] StoredVerifierProgressScale_def)
  next
    case True
    define b where "b = best_remainder rs"
    define mass' where "mass' = mass[b := mass ! b + 1]"
    define rs' where "rs' = rs[b := Fin (- 1)]"
    have "fresh rs \<noteq> {}" using "1.prems"(5) True by auto
    then have b: "b \<in> fresh rs" unfolding b_def using best_fresh "1.prems"(2) by blast
    then have bl: "b < length rs" by (simp add: fresh_def)
    have "mass ! b \<le> sum_list mass" using bl "1.prems"(1) by (intro elem_le_sum_list) simp
    then have wrap: "Suc (mass ! b) mod 65536 = Suc (mass ! b)" using True "1.prems"(3) by simp
    have fresh': "fresh rs' = fresh rs - {b}"
      using bl by (auto simp: fresh_def rs'_def nth_list_update)
    have step: "hand_out mass rs assigned = hand_out mass' rs' (assigned + 1)"
      using True by (subst hand_out.simps)
        (simp add: StoredVerifierProgressScale_def Let_def mass'_def rs'_def wrap flip: b_def)
    have ok': "remainders_ok rs'"
      using "1.prems"(2) unfolding remainders_ok_def rs'_def by (auto dest!: set_update_subset_insert [THEN subsetD])
    have sum': "sum_list mass' = assigned + 1"
      using bl "1.prems"(1,3) sum_list_update [of b mass] elem_le_sum_list [of b mass]
      by (simp add: mass'_def)
    have card': "10000 - (assigned + 1) \<le> card (fresh rs')"
      using "1.prems"(5) b unfolding fresh' by (simp add: fresh_def)
    have IH: "sum_list (hand_out mass' rs' (assigned + 1)) = 10000
      \<and> length (hand_out mass' rs' (assigned + 1)) = length mass'
      \<and> (\<forall>i < length mass'. mass' ! i \<le> hand_out mass' rs' (assigned + 1) ! i
           \<and> hand_out mass' rs' (assigned + 1) ! i \<le> mass' ! i + (if i \<in> fresh rs' then 1 else 0))"
    proof -
      have m: "mass[b := (mass ! b + 1) mod 2 ^ 16] = mass'" using wrap by (simp add: mass'_def)
      have a: "assigned < StoredVerifierProgressScale" using True by (simp add: StoredVerifierProgressScale_def)
      have l: "length mass' = length rs'" using "1.prems"(1) by (simp add: mass'_def rs'_def)
      have le: "assigned + 1 \<le> 10000" using True by simp
      show ?thesis
        using "1.IH" [OF a b_def, unfolded m, folded rs'_def, OF l ok' sum' le card'] .
    qed
    have "mass ! i \<le> hand_out mass' rs' (assigned + 1) ! i
        \<and> hand_out mass' rs' (assigned + 1) ! i \<le> mass ! i + (if i \<in> fresh rs then 1 else 0)"
      if "i < length mass" for i
      using IH that b bl "1.prems"(1) unfolding fresh'
      by (cases "i = b") (auto simp: mass'_def nth_list_update)
    then show ?thesis unfolding step using IH by (simp add: mass'_def)
  qed
qed

text \<open>The scaled shares: rounding moves their sum by far less than one unit.\<close>

lemma scaled_bounds:
  assumes "distribution xs"
  defines "ys \<equiv> List.map (\<lambda>x. round64 (x * 10000)) xs"
  shows "\<forall>y \<in> set ys. 0 \<le> y \<and> y \<le> 10000" and "\<bar>sum_list ys - 10000\<bar> < 1 / 2"
proof -
  have xs: "length xs = 5" "\<forall>x \<in> set xs. 0 \<le> x \<and> x \<le> 1" and sum: "\<bar>sum_list xs - 1\<bar> \<le> 16 * unit_err"
    using assms(1) by (auto simp: distribution_def doubles_def)
  have "round64 (x * 10000) \<le> 10000" if "x \<le> 1" for x
    using round64_mono [of "x * 10000" 10000] round64_of_int [of 10000] that by simp
  then show "\<forall>y \<in> set ys. 0 \<le> y \<and> y \<le> 10000"
    using xs(2) by (auto simp: ys_def intro: round64_nonneg)
  define s where "s = sum_list xs"
  have s: "s \<le> 2" "s - 1 \<le> 1 / 100000" "1 - s \<le> 1 / 100000"
    using sum unfolding s_def [symmetric] abs_le_iff by auto
  have "\<forall>y \<in> set (List.map (\<lambda>x. x * 10000) xs). 0 \<le> y" using xs(2) by simp
  note near = sum_round_near [OF this, unfolded sum_list_mult_const List.map_map comp_def length_map]
  have "(s * 10000) * unit_err \<le> 20000 * unit_err" using s(1) by (intro mult_right_mono) simp_all
  also have "\<dots> \<le> 1 / 10" by simp
  finally have "(s * 10000) * unit_err \<le> 1 / 10" .
  moreover have "of_nat (length xs) * tiny \<le> 1 / 10" using tiny_bounds(2) xs(1) by simp
  moreover have "\<bar>sum_list ys - s * 10000\<bar> \<le> (s * 10000) * unit_err + of_nat (length xs) * tiny"
    using near unfolding s_def ys_def by simp
  ultimately have "\<bar>sum_list ys - s * 10000\<bar> \<le> 1 / 5" by linarith
  then show "\<bar>sum_list ys - 10000\<bar> < 1 / 2" using s by linarith
qed

lemma floor_sum:
  "\<forall>y \<in> set ys. 0 \<le> (y :: rat) \<Longrightarrow> of_nat (sum_list (List.map (\<lambda>y. nat \<lfloor>y\<rfloor>) ys)) \<le> sum_list ys
    \<and> sum_list ys \<le> of_nat (sum_list (List.map (\<lambda>y. nat \<lfloor>y\<rfloor>) ys)) + of_nat (length ys)"
proof (induction ys)
  case (Cons y ys)
  have "of_nat (nat \<lfloor>y\<rfloor>) = (of_int \<lfloor>y\<rfloor> :: rat)" using Cons.prems by simp
  moreover have "of_int \<lfloor>y\<rfloor> \<le> y" "y \<le> of_int \<lfloor>y\<rfloor> + 1" by linarith+
  ultimately have y: "of_nat (nat \<lfloor>y\<rfloor>) \<le> y" "y \<le> of_nat (nat \<lfloor>y\<rfloor>) + 1" by simp_all
  define n where "n = sum_list (List.map (\<lambda>y. nat \<lfloor>y\<rfloor>) ys)"
  have "of_nat n \<le> sum_list ys" "sum_list ys \<le> of_nat n + of_nat (length ys)"
    using Cons unfolding n_def by simp_all
  with y show ?case
    unfolding list.map sum_list.Cons of_nat_add length_Cons of_nat_Suc n_def [symmetric]
    by (intro conjI; linarith)
qed simp

lemma fold_add_mod:
  "a + sum_list ns < M \<Longrightarrow> foldl (\<lambda>a b. (a + b) mod M) a ns = a + sum_list (ns :: nat list)"
  by (induction ns arbitrary: a) (auto simp: add.assoc)

text \<open>What is stored, for shares \<open>xs\<close>: five masses that make up the scale, each within one of the
  rounded share.\<close>

lemma store_masses:
  assumes norm: "fst (normalize_probability_values (posterior_values p)) = List.map Fin xs"
    and d: "distribution xs"
  shows "sum_list (sp_mass (store_verifier_progress p)) = 10000
    \<and> length (sp_mass (store_verifier_progress p)) = 5
    \<and> (\<forall>i < 5. nat \<lfloor>round64 (xs ! i * 10000)\<rfloor> \<le> sp_mass (store_verifier_progress p) ! i
        \<and> sp_mass (store_verifier_progress p) ! i \<le> nat \<lfloor>round64 (xs ! i * 10000)\<rfloor> + 1)"
proof -
  define ys where "ys = List.map (\<lambda>x. round64 (x * 10000)) xs"
  note ys = scaled_bounds [OF d, folded ys_def]
  have len: "length xs = 5" "length ys = 5" using d by (simp_all add: ys_def distribution_def)
  have "f64_of 10000 = Fin 10000"
    using round64_of_int [of 10000] by (simp add: f64_of_Fin)
  moreover have "f64_of (x * 10000) = Fin (round64 (x * 10000))" if "x \<in> set xs" for x
    using that ys(1) by (intro f64_of_Fin) (fastforce simp: ys_def)
  ultimately have scaled: "List.map (\<lambda>v. fmul v (f64_of (of_nat StoredVerifierProgressScale))) (List.map Fin xs)
      = List.map Fin ys"
    by (simp add: StoredVerifierProgressScale_def fmul_def ys_def)
  define bs where "bs = List.map (\<lambda>y. nat \<lfloor>y\<rfloor>) ys"
  have small: "\<lfloor>y\<rfloor> \<le> 10000" "0 \<le> \<lfloor>y\<rfloor>" if "y \<in> set ys" for y
    using that ys(1) floor_mono [of y 10000] by (fastforce, fastforce)
  have bases: "List.map (\<lambda>v. to_uint16 (ffloor v)) (List.map Fin ys) = bs"
  proof -
    have "to_uint16 (ffloor (Fin y)) = nat \<lfloor>y\<rfloor>" if "y \<in> set ys" for y
    proof -
      have "nat \<lfloor>y\<rfloor> \<le> 10000" using small(1) [OF that] by (simp only: nat_le_iff)
      then show ?thesis by simp
    qed
    then show ?thesis by (simp add: bs_def)
  qed
  have "of_nat (sum_list bs) \<le> sum_list ys" "sum_list ys \<le> of_nat (sum_list bs) + 5"
    using floor_sum [of ys] ys(1) len(2) by (simp_all add: bs_def)
  then have "of_nat (sum_list bs) < (10001 :: rat)" "(9994 :: rat) < of_nat (sum_list bs)"
    using ys(2) by linarith+
  then have sum: "sum_list bs \<le> 10000" "9995 \<le> sum_list bs" by simp_all
  define rs where "rs = map2 (\<lambda>v b. fsub v (f64_of (of_nat b))) (List.map Fin ys) bs"
  have rs: "\<exists>r. rs ! i = Fin r \<and> 0 \<le> r" if "i < 5" for i
  proof -
    let ?y = "ys ! i"
    have y: "?y \<in> set ys" using that len by simp
    have "f64_of (of_nat (nat \<lfloor>?y\<rfloor>)) = Fin (of_int \<lfloor>?y\<rfloor>)"
      using small [OF y] round64_of_int [of "\<lfloor>?y\<rfloor>"] by (simp add: f64_of_Fin)
    then have "rs ! i = f64_of (?y - of_int \<lfloor>?y\<rfloor>)"
      using that len by (simp add: rs_def bs_def fsub_def)
    also have "\<dots> = Fin (round64 (?y - of_int \<lfloor>?y\<rfloor>))"
      by (rule f64_of_unit) linarith+
    moreover have "0 \<le> round64 (?y - of_int \<lfloor>?y\<rfloor>)" by (rule round64_nonneg) linarith
    ultimately show ?thesis by simp
  qed
  have lrs: "length rs = 5" using len by (simp add: rs_def bs_def)
  have ok: "remainders_ok rs" using rs lrs unfolding remainders_ok_def by (metis in_set_conv_nth)
  have "rs ! i \<noteq> Fin (- 1)" if "i < 5" for i using rs [OF that] by auto
  then have "fresh rs = {..<5}" using lrs by (auto simp: fresh_def)
  then have card: "10000 - sum_list bs \<le> card (fresh rs)" using sum by simp
  obtain r where norm': "normalize_probability_values (posterior_values p) = (List.map Fin xs, r)"
    using norm by (cases "normalize_probability_values (posterior_values p)") simp
  have "foldl (\<lambda>a b. (a + b) mod 2 ^ 16) 0 bs = sum_list bs"
    using fold_add_mod [of 0 bs "2 ^ 16"] sum by simp
  then have mass: "sp_mass (store_verifier_progress p) = hand_out bs rs (sum_list bs)"
    unfolding store_verifier_progress_def norm' by (simp only: Let_def prod.case scaled bases rs_def stored_progress.simps)
  have "length bs = length rs" using len lrs by (simp add: bs_def)
  note out = hand_out_once [OF this ok refl sum(1) card]
  have bi: "bs ! i = nat \<lfloor>round64 (xs ! i * 10000)\<rfloor>" if "i < 5" for i
    using that len by (simp add: bs_def ys_def)
  have lbs: "length bs = 5" using len by (simp add: bs_def)
  show ?thesis unfolding mass
  proof (intro conjI allI impI)
    fix i :: nat
    assume i: "i < 5"
    then have "hand_out bs rs (sum_list bs) ! i \<le> bs ! i + (if i \<in> fresh rs then 1 else 0)"
      using out lbs by simp
    also have "\<dots> \<le> bs ! i + 1" by simp
    finally show "hand_out bs rs (sum_list bs) ! i \<le> nat \<lfloor>round64 (xs ! i * 10000)\<rfloor> + 1"
      unfolding bi [OF i] .
    show "nat \<lfloor>round64 (xs ! i * 10000)\<rfloor> \<le> hand_out bs rs (sum_list bs) ! i"
      using out lbs i unfolding bi [OF i, symmetric] by simp
  qed (use out lbs in simp_all)
qed


lemma is_f64_posterior_update:
  "v \<in> set (posterior_values (fst (update_posterior prior ob))) \<Longrightarrow> is_f64 v"
proof -
  assume v: "v \<in> set (posterior_values (fst (update_posterior prior ob)))"
  obtain xs where "posterior_values (fst (update_posterior prior ob)) = List.map Fin xs" "distribution xs"
    using update_distribution by blast
  then show "is_f64 v" using v max_double_ge by (fastforce simp: distribution_def doubles_def)
qed

text \<open>
  A posterior survives storage: what is written for it is always valid (its five 16-bit masses sum
  exactly to 10000, under the current policy version), so it can be read back, and each share
  comes back within 1.1 ten-thousandths of its normalised value.
\<close>

theorem stored_posterior_roundtrip:
  assumes "\<forall>v \<in> set (posterior_values p). is_f64 v"
  shows "stored_valid (store_verifier_progress p)
    \<and> (\<exists>q as bs. stored_posterior (store_verifier_progress p) = Some q
        \<and> posterior_values q = List.map Fin as \<and> length as = 5
        \<and> fst (normalize_probability_values (posterior_values p)) = List.map Fin bs \<and> length bs = 5
        \<and> list_all2 (\<lambda>a b. \<bar>a - b\<bar> \<le> 11 / 100000) as bs)"
proof -
  obtain xs where norm: "fst (normalize_probability_values (posterior_values p)) = List.map Fin xs"
    and d: "distribution xs"
    using normalize_distribution [OF assms] by auto
  define ms where "ms = sp_mass (store_verifier_progress p)"
  note m = store_masses [OF norm d, folded ms_def]
  have fold: "foldl (\<lambda>a b. (a + b) mod 2 ^ 32) 0 ms = 10000" using m fold_add_mod [of 0 ms "2 ^ 32"] by simp
  have valid: "stored_valid (store_verifier_progress p)"
    using fold unfolding stored_valid_def ms_def
    by (simp add: store_verifier_progress_def StoredVerifierProgressScale_def Let_def split: prod.splits)
  have share: "fdiv (f64_of (of_nat (ms ! i))) (f64_of (of_nat StoredVerifierProgressScale))
      = Fin (round64 (of_nat (ms ! i) / 10000))
      \<and> \<bar>round64 (of_nat (ms ! i) / 10000) - xs ! i\<bar> \<le> 11 / 100000" if i: "i < 5" for i
  proof -
    let ?m = "of_nat (ms ! i) :: rat"
    have "ms ! i \<le> sum_list ms" using i m by (intro elem_le_sum_list) simp
    then have mi: "0 \<le> ?m" "?m \<le> 10000" using m by simp_all
    have "round64 ?m = ?m" "round64 10000 = 10000"
      using round64_of_int [of "int (ms ! i)"] round64_of_int [of 10000] mi by simp_all
    then have "fdiv (f64_of ?m) (f64_of (of_nat StoredVerifierProgressScale)) = Fin (round64 (?m / 10000))"
      using mi by (simp add: f64_of_Fin StoredVerifierProgressScale_def fdiv_unit)
    moreover have x: "0 \<le> xs ! i" "xs ! i \<le> 1"
      using d i nth_mem [of i xs] by (auto simp: distribution_def doubles_def)
    have "\<bar>round64 (xs ! i * 10000) - xs ! i * 10000\<bar> \<le> xs ! i * 10000 * unit_err + tiny"
      using x by (intro round64_near) simp
    moreover have "xs ! i * 10000 * unit_err \<le> 1 / 1000" using x by simp
    moreover have "tiny \<le> 1 / 1000" using tiny_bounds(2) by simp
    ultimately have y: "\<bar>round64 (xs ! i * 10000) - xs ! i * 10000\<bar> \<le> 1 / 500" by linarith
    let ?y = "round64 (xs ! i * 10000)"
    have "of_nat (nat \<lfloor>?y\<rfloor>) = (of_int \<lfloor>?y\<rfloor> :: rat)" using x by (simp add: round64_nonneg)
    moreover have "of_nat (nat \<lfloor>?y\<rfloor>) \<le> ?m" "?m \<le> of_nat (nat \<lfloor>?y\<rfloor> + 1)"
      using m i by (simp_all only: of_nat_le_iff)
    ultimately have "\<bar>?m - ?y\<bar> \<le> 1" by (simp add: abs_le_iff) linarith
    with y have "\<bar>?m / 10000 - xs ! i\<bar> \<le> 10020 / 100000000" by linarith
    moreover have "\<bar>round64 (?m / 10000) - ?m / 10000\<bar> \<le> ?m / 10000 * unit_err + tiny"
      using mi by (intro round64_near) simp
    moreover have "?m / 10000 * unit_err \<le> 1 / 1000000" using mi by simp
    moreover have "tiny \<le> 1 / 1000000" using tiny_bounds(2) by simp
    ultimately have "\<bar>round64 (?m / 10000) - xs ! i\<bar> \<le> 11 / 100000" by linarith
    with \<open>fdiv _ _ = _\<close> show ?thesis by blast
  qed
  define as where "as = List.map (\<lambda>i. round64 (of_nat (ms ! i) / 10000)) [0..<5]"
  have "List.map (\<lambda>i. fdiv (f64_of (of_nat (ms ! i))) (f64_of (of_nat StoredVerifierProgressScale)))
      [0..<latent_answer_state_count] = List.map Fin as"
    using share by (simp add: as_def latent_answer_state_count_def)
  then have "stored_posterior (store_verifier_progress p) = Some (posterior_from_values (List.map Fin as))"
    using valid by (simp add: stored_posterior_def ms_def)
  moreover have "list_all2 (\<lambda>a b. \<bar>a - b\<bar> \<le> 11 / 100000) as xs"
    using share d by (simp add: list_all2_conv_all_nth as_def distribution_def)
  ultimately show ?thesis
    using valid norm d by (intro conjI exI [of _ "posterior_from_values (List.map Fin as)"] exI [of _ as] exI [of _ xs])
      (simp_all add: posterior_values_from as_def distribution_def)
qed

lemma stored_posterior_roundtrip_witness:
  "stored_valid (store_verifier_progress default_posterior)"
  using stored_posterior_roundtrip [of default_posterior]
  by (simp add: posterior_values_def default_posterior_def)

end
