(* ===== verification/Go_Regexp.thy ===== *)
theory Go_Regexp
  imports Go_Text "HOL-Library.Multiset"
begin

text \<open>
  The parts of Go's \<open>strings\<close> and \<open>regexp\<close> packages that the text policies use.

  \<^item> \<open>chunks\<close>: a string as \<open>range\<close> reads it, one rune at a time with the bytes it stands on; an
    ill-formed byte reads as U+FFFD.
  \<^item> \<open>fields\<close>, \<open>collapse_space\<close>, \<open>contains\<close>, \<open>count_sub\<close> and \<open>replace_all\<close> for
    \<open>strings.Fields\<close>, the join of the fields, \<open>strings.Contains\<close>, \<open>strings.Count\<close> and a
    \<open>strings.Replacer\<close> (at every position the first old text that matches is replaced).
  \<^item> \<open>re\<close>: regular expressions over runes with Go's leftmost-first semantics. \<open>runs r s\<close> lists what
    can be left of \<open>s\<close> after a match of \<open>r\<close> at its front, in the order of preference, so the
    first element is the match that Go reports. Anchored expressions and the search for all
    non-overlapping matches are built on it.
\<close>

section \<open>Runes and their bytes\<close>

type_synonym chunk = "nat \<times> string"

definition rune_value :: "string \<Rightarrow> nat" where
  "rune_value bs = (case List.map byte bs of
     [a] \<Rightarrow> a
   | [a, b] \<Rightarrow> (a - 192) * 64 + (b - 128)
   | [a, b, c] \<Rightarrow> (a - 224) * 4096 + (b - 128) * 64 + (c - 128)
   | [a, b, c, d] \<Rightarrow> (a - 240) * 262144 + (b - 128) * 4096 + (c - 128) * 64 + (d - 128)
   | _ \<Rightarrow> 0xFFFD)"

function chunks :: "string \<Rightarrow> chunk list" where
  "chunks s =
     (if s = [] then []
      else let n = rune_len s in
        if n = 0 then (0xFFFD, [hd s]) # chunks (tl s)
        else (rune_value (take n s), take n s) # chunks (drop n s))"
  by pat_completeness auto
termination
  by (relation "measure length") (auto simp: diff_less)

declare chunks.simps [simp del]

definition chunk_text :: "chunk list \<Rightarrow> string" where
  "chunk_text cs = concat (List.map snd cs)"

text \<open>The text that \<open>WriteRune\<close> builds from the runes.\<close>

definition rune_text :: "chunk list \<Rightarrow> string" where
  "rune_text cs = utf8_encode (List.map fst cs)"

lemma chunks_Nil [simp]: "chunks [] = []"
  by (simp add: chunks.simps)

lemma chunk_text_chunks: "chunk_text (chunks s) = s"
proof (induction s rule: chunks.induct)
  case (1 s)
  then show ?case
    by (subst chunks.simps) (simp add: chunk_text_def Let_def)
qed

section \<open>Fields and substrings\<close>

definition space_values :: "nat list" where
  "space_values = [0x9, 0xA, 0xB, 0xC, 0xD, 0x20, 0x85, 0xA0, 0x1680, 0x2000, 0x2001, 0x2002, 0x2003,
     0x2004, 0x2005, 0x2006, 0x2007, 0x2008, 0x2009, 0x200A, 0x2028, 0x2029, 0x202F, 0x205F, 0x3000]"

definition is_space :: "chunk \<Rightarrow> bool" where
  "is_space c \<longleftrightarrow> fst c \<in> set space_values"

text \<open>The maximal runs of chunks that satisfy \<open>P\<close>, without the chunks that do not.\<close>

fun pieces :: "(chunk \<Rightarrow> bool) \<Rightarrow> chunk list \<Rightarrow> chunk list \<Rightarrow> chunk list list" where
  "pieces P cur [] = (if cur = [] then [] else [cur])"
| "pieces P cur (c # cs) =
     (if P c then pieces P (cur @ [c]) cs
      else (if cur = [] then [] else [cur]) @ pieces P [] cs)"

definition fields :: "string \<Rightarrow> string list" where
  "fields s = List.map chunk_text (pieces (\<lambda>c. \<not> is_space c) [] (chunks s))"

definition collapse_space :: "string \<Rightarrow> string" where
  "collapse_space s = join '' '' (fields s)"

definition contains :: "string \<Rightarrow> string \<Rightarrow> bool" where
  "contains s t \<longleftrightarrow> sublist t s"

function count_sub :: "string \<Rightarrow> string \<Rightarrow> nat" where
  "count_sub s t =
     (if t = [] \<or> s = [] then 0
      else if prefix t s then Suc (count_sub (drop (length t) s) t)
      else count_sub (tl s) t)"
  by pat_completeness auto
termination
  by (relation "measure (\<lambda>(s, _). length s)") (auto simp: diff_less)

function replace_all :: "(string \<times> string) list \<Rightarrow> string \<Rightarrow> string" where
  "replace_all rs s =
     (if s = [] then []
      else case find (\<lambda>(old, _). old \<noteq> [] \<and> prefix old s) rs of
        Some (old, new) \<Rightarrow> new @ replace_all rs (drop (length old) s)
      | None \<Rightarrow> hd s # replace_all rs (tl s))"
  by pat_completeness auto
termination
  by (relation "measure (\<lambda>(_, s). length s)") (auto simp: find_Some_iff neq_Nil_conv intro!: diff_less)

declare count_sub.simps [simp del] replace_all.simps [simp del]

section \<open>Counted sets of texts\<close>

text \<open>A Go \<open>map[string]int\<close> that is filled by counting, as a list of entries with distinct keys.\<close>

type_synonym bag = "(string \<times> nat) list"

fun bag_add :: "string \<Rightarrow> bag \<Rightarrow> bag" where
  "bag_add t [] = [(t, 1)]"
| "bag_add t ((u, n) # b) = (if t = u then (u, n + 1) # b else (u, n) # bag_add t b)"

definition bag_of :: "string list \<Rightarrow> bag" where
  "bag_of ts = foldl (\<lambda>b t. bag_add t b) [] ts"

definition bag_count :: "bag \<Rightarrow> string \<Rightarrow> nat" where
  "bag_count b t = (case map_of b t of None \<Rightarrow> 0 | Some n \<Rightarrow> n)"

definition equal_bag :: "bag \<Rightarrow> bag \<Rightarrow> bool" where
  "equal_bag left right \<longleftrightarrow>
     length left = length right \<and> list_all (\<lambda>(t, n). bag_count right t = n) left"

text \<open>A bag is well formed when its keys are distinct and its counts positive; then comparing the
  sizes and the counts of the left keys compares the bags.\<close>

definition bag_wf :: "bag \<Rightarrow> bool" where
  "bag_wf b \<longleftrightarrow> distinct (List.map fst b) \<and> (\<forall>(t, n) \<in> set b. 0 < n)"

lemma bag_count_pos: "bag_wf b \<Longrightarrow> 0 < bag_count b t \<longleftrightarrow> t \<in> fst ` set b"
  by (auto simp: bag_wf_def bag_count_def map_of_eq_None_iff dest: map_of_SomeD split: option.splits)
    (metis case_prodD map_of_SomeD neq0_conv old.prod.case weak_map_of_SomeI image_eqI option.distinct(1) fst_conv)

lemma bag_count_add [simp]: "bag_count (bag_add t b) u = bag_count b u + (if t = u then 1 else 0)"
  by (induction t b rule: bag_add.induct) (auto simp: bag_count_def)

lemma fst_bag_add: "fst ` set (bag_add t b) = insert t (fst ` set b)"
  by (induction t b rule: bag_add.induct) auto

lemma bag_wf_add: "bag_wf b \<Longrightarrow> bag_wf (bag_add t b)"
proof (induction t b rule: bag_add.induct)
  case (2 t u n b)
  have "fst ` set (bag_add t b) = insert t (fst ` set b)" by (rule fst_bag_add)
  then show ?case using 2 by (auto simp: bag_wf_def)
qed (simp add: bag_wf_def)

lemma bag_of_snoc [simp]: "bag_of (ts @ [t]) = bag_add t (bag_of ts)"
  by (simp add: bag_of_def)

lemma bag_wf_of: "bag_wf (bag_of ts)"
  by (induction ts rule: rev_induct) (auto simp: bag_wf_add, simp add: bag_of_def bag_wf_def)

lemma bag_count_of: "bag_count (bag_of ts) t = count (mset ts) t"
  by (induction ts rule: rev_induct) (simp add: bag_of_def bag_count_def, simp)

lemma equal_bag_iff:
  assumes "bag_wf a" "bag_wf b"
  shows "equal_bag a b \<longleftrightarrow> bag_count a = bag_count b"
proof
  assume "bag_count a = bag_count b"
  then have keys: "fst ` set a = fst ` set b"
    using bag_count_pos [OF assms(1)] bag_count_pos [OF assms(2)] by (metis set_eqI)
  have "length a = card (fst ` set a)" "length b = card (fst ` set b)"
    using assms distinct_card [of "List.map fst a"] distinct_card [of "List.map fst b"]
    by (simp_all add: bag_wf_def)
  moreover have "bag_count a t = n" if "(t, n) \<in> set a" for t n
    using that assms(1) by (simp add: bag_count_def bag_wf_def)
  ultimately show "equal_bag a b"
    using keys \<open>bag_count a = bag_count b\<close> by (auto simp: equal_bag_def list_all_iff)
next
  assume eq: "equal_bag a b"
  have a: "bag_count a t = n" if "(t, n) \<in> set a" for t n
    using that assms(1) by (simp add: bag_count_def bag_wf_def)
  have "fst ` set a \<subseteq> fst ` set b"
  proof
    fix t assume "t \<in> fst ` set a"
    then obtain n where "(t, n) \<in> set a" by auto
    moreover then have "bag_count b t = n" "0 < n"
      using eq assms(1) by (auto simp: equal_bag_def list_all_iff bag_wf_def)
    ultimately show "t \<in> fst ` set b" using bag_count_pos [OF assms(2)] by metis
  qed
  moreover have "card (fst ` set a) = card (fst ` set b)"
    using eq assms distinct_card [of "List.map fst a"] distinct_card [of "List.map fst b"]
    by (simp add: equal_bag_def bag_wf_def)
  ultimately have keys: "fst ` set a = fst ` set b" by (simp add: card_subset_eq)
  show "bag_count a = bag_count b"
  proof
    fix t
    show "bag_count a t = bag_count b t"
    proof (cases "t \<in> fst ` set a")
      case True
      then obtain n where "(t, n) \<in> set a" by auto
      then show ?thesis using eq a by (auto simp: equal_bag_def list_all_iff)
    next
      case False
      then show ?thesis
        using keys bag_count_pos [OF assms(1), of t] bag_count_pos [OF assms(2), of t] by simp
    qed
  qed
qed

lemma equal_bag_of: "equal_bag (bag_of ts) (bag_of us) \<longleftrightarrow> mset ts = mset us"
  by (simp add: equal_bag_iff bag_wf_of fun_eq_iff bag_count_of multiset_eq_iff)

section \<open>Regular expressions\<close>

text \<open>A class lists its ranges of code points and whether it is negated.\<close>

datatype re =
    Cls bool "(nat \<times> nat) list"
  | Lit "nat list"
  | Seq re re
  | Alt re re
  | Opt re
  | Star re
  | Rep re nat nat

definition in_class :: "bool \<Rightarrow> (nat \<times> nat) list \<Rightarrow> nat \<Rightarrow> bool" where
  "in_class neg rs c \<longleftrightarrow> neg \<noteq> list_ex (\<lambda>(a, b). a \<le> c \<and> c \<le> b) rs"

fun star_runs :: "(chunk list \<Rightarrow> chunk list list) \<Rightarrow> nat \<Rightarrow> chunk list \<Rightarrow> chunk list list" where
  "star_runs f 0 s = [s]"
| "star_runs f (Suc n) s =
     concat (List.map (star_runs f n) (List.filter (\<lambda>s'. length s' < length s) (f s))) @ [s]"

text \<open>\<open>r{m,n}\<close>: \<open>m\<close> times, and up to \<open>n - m\<close> times more as long as it matches.\<close>

fun rep_runs :: "(chunk list \<Rightarrow> chunk list list) \<Rightarrow> nat \<Rightarrow> nat \<Rightarrow> chunk list \<Rightarrow> chunk list list" where
  "rep_runs f (Suc m) n s = concat (List.map (rep_runs f m (n - 1)) (f s))"
| "rep_runs f 0 (Suc n) s = concat (List.map (rep_runs f 0 n) (f s)) @ [s]"
| "rep_runs f 0 0 s = [s]"

fun lit_run :: "nat list \<Rightarrow> chunk list \<Rightarrow> chunk list option" where
  "lit_run [] s = Some s"
| "lit_run (x # xs) (c # cs) = (if fst c = x then lit_run xs cs else None)"
| "lit_run (x # xs) [] = None"

primrec runs :: "re \<Rightarrow> chunk list \<Rightarrow> chunk list list" where
  "runs (Cls neg rs) s = (case s of [] \<Rightarrow> [] | c # cs \<Rightarrow> if in_class neg rs (fst c) then [cs] else [])"
| "runs (Lit xs) s = (case lit_run xs s of None \<Rightarrow> [] | Some r \<Rightarrow> [r])"
| "runs (Seq a b) s = concat (List.map (runs b) (runs a s))"
| "runs (Alt a b) s = runs a s @ runs b s"
| "runs (Opt a) s = runs a s @ [s]"
| "runs (Star a) s = star_runs (runs a) (length s) s"
| "runs (Rep a m n) s = rep_runs (runs a) m n s"

abbreviation Plus :: "re \<Rightarrow> re" where
  "Plus r \<equiv> Seq r (Star r)"

fun alts :: "re list \<Rightarrow> re" where
  "alts [] = Cls False []" | "alts [r] = r" | "alts (r # rs) = Alt r (alts rs)"

fun seqs :: "re list \<Rightarrow> re" where
  "seqs [] = Lit []" | "seqs [r] = r" | "seqs (r # rs) = Seq r (seqs rs)"

text \<open>\<open>^(?:r)$\<close> matches.\<close>

definition full_match :: "re \<Rightarrow> string \<Rightarrow> bool" where
  "full_match r s \<longleftrightarrow> [] \<in> set (runs r (chunks s))"

text \<open>\<open>MatchString\<close>: a match starts somewhere.\<close>

fun search :: "re \<Rightarrow> chunk list \<Rightarrow> bool" where
  "search r [] \<longleftrightarrow> runs r [] \<noteq> []"
| "search r (c # cs) \<longleftrightarrow> runs r (c # cs) \<noteq> [] \<or> search r cs"

definition match_string :: "re \<Rightarrow> string \<Rightarrow> bool" where
  "match_string r s = search r (chunks s)"

text \<open>The text with the match of \<open>^r\<close> removed, as \<open>ReplaceAllString\<close> with an empty text does.\<close>

definition drop_match :: "re \<Rightarrow> string \<Rightarrow> string" where
  "drop_match r s = (case runs r (chunks s) of [] \<Rightarrow> s | rest # _ \<Rightarrow> chunk_text rest)"

definition matched :: "chunk list \<Rightarrow> chunk list \<Rightarrow> string" where
  "matched s rest = chunk_text (take (length s - length rest) s)"

text \<open>\<open>FindAllString\<close>, for expressions that match no empty text.\<close>

function find_all :: "re \<Rightarrow> chunk list \<Rightarrow> string list" where
  "find_all r s =
     (if s = [] then []
      else case runs r s of
        rest # _ \<Rightarrow> if length rest < length s then matched s rest # find_all r rest else find_all r (tl s)
      | [] \<Rightarrow> find_all r (tl s))"
  by pat_completeness auto
termination
  by (relation "measure (\<lambda>(_, s). length s)") auto

text \<open>The texts of the group in \<open>pre(grp)post\<close>, for all matches of the whole.\<close>

definition group_runs :: "re \<Rightarrow> re \<Rightarrow> re \<Rightarrow> chunk list \<Rightarrow> (string \<times> chunk list) list" where
  "group_runs pre grp post s =
     concat (List.map (\<lambda>s1. concat (List.map (\<lambda>s2. List.map (Pair (matched s1 s2)) (runs post s2)) (runs grp s1)))
       (runs pre s))"

function find_groups :: "re \<Rightarrow> re \<Rightarrow> re \<Rightarrow> chunk list \<Rightarrow> string list" where
  "find_groups pre grp post s =
     (if s = [] then []
      else case group_runs pre grp post s of
        (g, rest) # _ \<Rightarrow>
          if length rest < length s then g # find_groups pre grp post rest else find_groups pre grp post (tl s)
      | [] \<Rightarrow> find_groups pre grp post (tl s))"
  by pat_completeness auto
termination
  by (relation "measure (\<lambda>(_, _, _, s). length s)") auto

declare find_all.simps [simp del] find_groups.simps [simp del]

section \<open>Chunks of joined texts\<close>

lemma list4_cases:
  obtains "s = []" | a where "s = [a]" | a b where "s = [a, b]" | a b c where "s = [a, b, c]"
    | a b c d r where "s = a # b # c # d # r"
  by (metis list.exhaust)

lemma rune_len_cut:
  assumes "rune_len (s @ t) \<le> length s"
  shows "rune_len s = rune_len (s @ t)"
  using assms
  apply (cases s rule: list4_cases; cases t rule: list4_cases)
  apply (simp_all add: rune_len.simps Let_def split: if_splits)
  apply blast+
  done

lemma rune_len_block:
  assumes "rune_len s = 0" "s \<noteq> []" "\<not> is_cont c"
  shows "rune_len (s @ c # t) = 0"
  using assms
  apply (cases s rule: list4_cases; cases t rule: list4_cases)
  apply (simp_all add: rune_len.simps Let_def split: if_splits)
  apply blast+
  done

lemma rune_len_ext:
  assumes "rune_len s > 0" shows "rune_len (s @ t) = rune_len s"
  using assms by (cases s rule: list4_cases) (simp_all add: rune_len.simps Let_def split: if_splits)

lemma chunk_nonempty: "c \<in> set (chunks s) \<Longrightarrow> snd c \<noteq> []"
proof (induction s rule: chunks.induct)
  case (1 s)
  then show ?case
    by (subst (asm) (3) chunks.simps) (auto simp: Let_def split: if_splits)
qed

lemma chunks_cons:
  "s \<noteq> [] \<Longrightarrow> chunks s = (if rune_len s = 0 then (0xFFFD, [hd s]) else (rune_value (take (rune_len s) s), take (rune_len s) s))
     # chunks (drop (max 1 (rune_len s)) s)"
  by (subst chunks.simps) (auto simp: Let_def drop_Suc max_def)

lemma chunk_text_simps [simp]: "chunk_text [] = []" "chunk_text (c # cs) = snd c @ chunk_text cs"
  "chunk_text (cs @ ds) = chunk_text cs @ chunk_text ds"
  by (simp_all add: chunk_text_def)

text \<open>Every front part of the chunks of a text is the chunks of its own text.\<close>

lemma chunks_front: "chunks s = as @ bs \<Longrightarrow> chunks (chunk_text as) = as"
proof (induction as arbitrary: s)
  case (Cons a as)
  have ne: "s \<noteq> []" using Cons.prems by auto
  let ?n = "rune_len s" and ?r = "drop (max 1 (rune_len s)) s"
  have a: "a = (if ?n = 0 then (0xFFFD, [hd s]) else (rune_value (take ?n s), take ?n s))" and r: "chunks ?r = as @ bs"
    using Cons.prems chunks_cons [OF ne] by simp_all
  have s: "s = chunk_text (a # as) @ chunk_text bs" using chunk_text_chunks [of s] Cons.prems by simp
  have sa: "snd a = take (max 1 ?n) s" using a ne by (cases s) (auto simp: max_def)
  have le: "?n \<le> length s" using ne by (cases s rule: list4_cases) (auto simp: rune_len.simps Let_def split: if_splits)
  have len: "length (snd a) = max 1 ?n" using sa ne le by (cases s) (auto simp: max_def)
  have "rune_len (chunk_text (a # as)) = ?n"
    using rune_len_cut [of "chunk_text (a # as)" "chunk_text bs"] s len by simp
  moreover have "take (max 1 ?n) (chunk_text (a # as)) = snd a" "drop (max 1 ?n) (chunk_text (a # as)) = chunk_text as"
    using len by simp_all
  moreover have "chunk_text (a # as) \<noteq> []" using len by auto
  ultimately have "chunks (chunk_text (a # as)) = a # chunks (chunk_text as)"
    using a sa chunks_cons [of "chunk_text (a # as)"] by (auto simp: max_def split: if_splits)
  then show ?case using Cons.IH [OF r] by simp
qed simp

lemma chunks_before:
  assumes "\<not> is_cont c"
  shows "chunks (s @ c # t) = chunks s @ chunks (c # t)"
proof (induction s rule: chunks.induct)
  case (1 s)
  show ?case
  proof (cases "s = []")
    case False
    let ?n = "rune_len s"
    have n: "rune_len (s @ c # t) = ?n"
      using rune_len_ext [of s "c # t"] rune_len_block [OF _ False assms, of t] by (cases "?n = 0") auto
    have le: "?n \<le> length s" using False by (cases s rule: list4_cases) (auto simp: rune_len.simps Let_def split: if_splits)
    have IH: "chunks (drop (max 1 ?n) s @ c # t) = chunks (drop (max 1 ?n) s) @ chunks (c # t)"
      using 1 False by (cases "?n = 0") (auto simp: drop_Suc max_def)
    have "max 1 ?n \<le> length s" using le False by (simp add: Suc_le_eq)
    then have tk: "take ?n (s @ c # t) = take ?n s" "drop (max 1 ?n) (s @ c # t) = drop (max 1 ?n) s @ c # t"
      "hd (s @ c # t) = hd s" using le False by simp_all
    show ?thesis
      using chunks_cons [OF False] chunks_cons [of "s @ c # t", unfolded n tk] IH by simp
  qed simp
qed

text \<open>Collapsing is idempotent, and keeps valid texts valid.\<close>

lemma pieces_props:
  "p \<in> set (pieces P cur cs) \<Longrightarrow> list_all P cur \<Longrightarrow> list_all P p \<and> p \<noteq> []"
  by (induction P cur cs rule: pieces.induct) (auto split: if_splits)

lemma pieces_blocks:
  assumes "p \<in> set (pieces P [] cs)"
  obtains as bs where "cs = as @ p @ bs"
proof -
  have "p \<in> set (pieces P cur cs) \<Longrightarrow> \<exists>as bs. cur @ cs = as @ p @ bs" for cur
  proof (induction P cur cs rule: pieces.induct)
    case (2 P cur c cs)
    consider "p \<in> set (pieces P (cur @ [c]) cs)" "P c" | "p \<in> set (pieces P [] cs)" "\<not> P c" | "p = cur"
      using 2 by (auto split: if_splits)
    then show ?case
    proof cases
      case 2
      then obtain as bs where "cs = as @ p @ bs" using "2.IH" by auto
      then show ?thesis by (metis append_Cons append_assoc)
    next
      case 3
      then show ?thesis by (metis append_Nil)
    qed (use "2.IH" in auto)
  qed (auto split: if_splits intro: exI [of _ "[]"])
  then show ?thesis using assms that by (metis append_Nil)
qed

lemma chunks_middle: "chunks s = as @ p @ bs \<Longrightarrow> chunks (chunk_text p) = p"
proof (induction as arbitrary: s)
  case Nil
  then show ?case using chunks_front by simp
next
  case (Cons a as)
  then have "s \<noteq> []" by auto
  then show ?case using Cons.IH [of "drop (max 1 (rune_len s)) s"] Cons.prems chunks_cons [of s] by simp
qed

lemma chunks_join:
  assumes "\<forall>p \<in> set ps. chunks (chunk_text p) = p"
  shows "chunks (join '' '' (List.map chunk_text ps)) = (if ps = [] then [] else hd ps @ concat (List.map (Cons (32, '' '')) (tl ps)))"
  using assms
proof (induction ps)
  case (Cons p ps)
  have sp: "chunks (CHR 0x20 # t) = (32, '' '') # chunks t" for t
    using chunks_cons [of "CHR 0x20 # t"] by (simp add: rune_len.simps rune_value_def)
  have "\<not> is_cont CHR 0x20" by (simp add: is_cont_def)
  note before = chunks_before [OF this]
  show ?case
    using Cons before [of "chunk_text p"] sp by (cases ps) auto
qed simp

lemma pieces_app: "list_all P p \<Longrightarrow> pieces P cur (p @ cs) = pieces P (cur @ p) cs"
  by (induction p arbitrary: cur) auto

lemma pieces_spaced:
  assumes "\<forall>p \<in> set (p # ps). list_all P p \<and> p \<noteq> []" "\<not> P c"
  shows "pieces P [] (p @ concat (List.map (Cons c) ps)) = p # ps"
  using assms
proof (induction ps arbitrary: p)
  case Nil
  then show ?case using pieces_app [of P p "[]" "[]"] by simp
next
  case (Cons q qs)
  then show ?case using pieces_app [of P p "[]" "c # q @ concat (List.map (Cons c) qs)"] by simp
qed

lemma fields_join:
  "pieces (\<lambda>c. \<not> is_space c) [] (chunks (collapse_space s)) = pieces (\<lambda>c. \<not> is_space c) [] (chunks s)"
proof -
  let ?P = "\<lambda>c. \<not> is_space c"
  let ?ps = "pieces ?P [] (chunks s)"
  have each: "\<forall>p \<in> set ?ps. chunks (chunk_text p) = p"
    using pieces_blocks chunks_middle by metis
  have ok: "\<forall>p \<in> set ?ps. list_all ?P p \<and> p \<noteq> []" using pieces_props by fastforce
  have "\<not> ?P (32, '' '')" by (simp add: is_space_def space_values_def)
  then show ?thesis
    using chunks_join [OF each] pieces_spaced [of "hd ?ps" "tl ?ps" ?P "(32, '' '')"] ok
    by (cases ?ps) (auto simp: collapse_space_def fields_def)
qed

lemma collapse_idem [simp]: "collapse_space (collapse_space s) = collapse_space s"
  unfolding collapse_space_def [of "collapse_space s"] fields_def fields_join
  by (simp add: collapse_space_def fields_def)

lemma utf8_valid_chunks: "utf8_valid s \<longleftrightarrow> (\<forall>c \<in> set (chunks s). rune_len (snd c) \<noteq> 0)"
proof (induction s rule: chunks.induct)
  case (1 s)
  show ?case
  proof (cases "s = []")
    case True
    then show ?thesis by (simp add: utf8_valid.simps)
  next
    case False
    let ?n = "rune_len s"
    show ?thesis
    proof (cases "?n = 0")
      case True
      have "rune_len [hd s] = 0" 
        using True False by (cases s rule: list4_cases) (auto simp: rune_len.simps Let_def split: if_splits)
      then show ?thesis using chunks_cons [OF False] True False by (simp add: utf8_valid.simps [of s])
    next
      case n: False
      have le: "?n \<le> length s" using False by (cases s rule: list4_cases) (auto simp: rune_len.simps Let_def split: if_splits)
      have "rune_len (take ?n s) = ?n" using rune_len_cut [of "take ?n s" "drop ?n s"] le by simp
      then show ?thesis using chunks_cons [OF False] n False 1 by (simp add: utf8_valid.simps [of s] max_def)
    qed
  qed
qed

lemma rune_count_chunks: "rune_count s = length (chunks s)"
proof (induction s rule: rune_count.induct)
  case (1 s)
  then show ?case using chunks_cons [of s] by (cases "s = []") (simp_all add: rune_count.simps [of s] rune_count.simps [of "[]"])
qed
lemma pieces_subset: "p \<in> set (pieces P cur cs) \<Longrightarrow> set p \<subseteq> set cur \<union> set cs"
  by (induction P cur cs rule: pieces.induct) (auto split: if_splits)

lemma utf8_valid_collapse: "utf8_valid s \<Longrightarrow> utf8_valid (collapse_space s)"
proof -
  assume s: "utf8_valid s"
  let ?ps = "pieces (\<lambda>c. \<not> is_space c) [] (chunks s)"
  have each: "\<forall>p \<in> set ?ps. chunks (chunk_text p) = p"
    using pieces_blocks chunks_middle by metis
  have sub: "set (chunks (collapse_space s)) \<subseteq> {(32, '' '')} \<union> set (chunks s)"
    using chunks_join [OF each] pieces_subset [of _ "\<lambda>c. \<not> is_space c" "[]" "chunks s"]
    by (cases ?ps) (auto simp: collapse_space_def fields_def)
  have "rune_len '' '' \<noteq> 0" by (simp add: rune_len.simps)
  then show ?thesis using s sub by (auto simp: utf8_valid_chunks)
qed

end
