(* ===== verification/QuestionGate.thy ===== *)
theory QuestionGate
  imports Go_Regexp Float64 "HOL-Library.AList"
begin

text \<open>
  \<open>contracts.go\<close> and \<open>gate.go\<close> of \<open>respondent\<close>: the gate that decides whether a person's answer, or
  a reordering of it, answers the question first. Texts are byte strings; markers and patterns are
  written by their code points, in the order of the source. Slots and operators are the source's
  strings, with a constructor for any other string.
\<close>

section \<open>Contracts\<close>

datatype operator =
  OperatorBoolean | OperatorChoice | OperatorQuantity | OperatorState | OperatorCause | OperatorPurpose
  | OperatorProcedure | OperatorDefinition | OperatorComparison | OperatorEvidence | OperatorOpen
  | OperatorOther string

datatype slot =
  SlotPolarity | SlotSelection | SlotQuantity | SlotState | SlotCause | SlotPurpose | SlotProcedure
  | SlotDefinition | SlotComparison | SlotEvidence | SlotPosition | SlotUnit | SlotCondition
  | SlotUncertainty | SlotScope | SlotOther string

record question_frame =
  qf_operator :: operator
  qf_subject :: string
  qf_required :: "slot list"
  qf_ambiguous :: bool

record slot_binding =
  sb_slot :: slot
  sb_span :: string

record answer_attempt =
  at_text :: string
  at_evidence :: "slot_binding list"
  at_protected :: "string list"

record gate_input =
  gi_frame :: question_frame
  gi_attempt :: answer_attempt
  gi_reconstruction :: string
  gi_front :: bool

datatype outcome = OutcomeKeep | OutcomeRestructure | OutcomeClarify | OutcomeReject | OutcomeOther string

datatype commitment_place = PositionFirst | PositionLater | PositionAbsent | PositionOther string

datatype issue =
  IssueInvalidContract | IssueAmbiguousQuestion | IssueRequiredSlotMissing | IssueRequiredSlotLost
  | IssueCommitmentAbsent | IssueCommitmentNotFirst | IssueReconstructionNeeded | IssueNumberChanged
  | IssueNegationChanged | IssueConditionChanged | IssueUncertaintyChanged | IssueProperContentChanged
  | IssueProtectedSpanChanged | IssueContentChanged | IssueOther string

record gate_assessment =
  ga_outcome :: outcome
  ga_original_coverage :: f64
  ga_coverage :: f64
  ga_original_position :: commitment_place
  ga_position :: commitment_place
  ga_satisfied :: bool
  ga_preserved :: bool
  ga_issues :: "issue list"

fun target_slot :: "operator \<Rightarrow> slot option" where
  "target_slot OperatorBoolean = Some SlotPolarity"
| "target_slot OperatorChoice = Some SlotSelection"
| "target_slot OperatorQuantity = Some SlotQuantity"
| "target_slot OperatorState = Some SlotState"
| "target_slot OperatorCause = Some SlotCause"
| "target_slot OperatorPurpose = Some SlotPurpose"
| "target_slot OperatorProcedure = Some SlotProcedure"
| "target_slot OperatorDefinition = Some SlotDefinition"
| "target_slot OperatorComparison = Some SlotComparison"
| "target_slot OperatorEvidence = Some SlotEvidence"
| "target_slot OperatorOpen = Some SlotPosition"
| "target_slot (OperatorOther _) = None"

section \<open>Limits, markers and patterns\<close>

definition maxSubjectRunes :: nat where "maxSubjectRunes = 240"
definition maxAnswerRunes :: nat where "maxAnswerRunes = 8000"
definition maxEvidenceRunes :: nat where "maxEvidenceRunes = 320"
definition maxProtectedRunes :: nat where "maxProtectedRunes = 160"
definition maxRequiredSlots :: nat where "maxRequiredSlots = 8"
definition maxProtectedSpans :: nat where "maxProtectedSpans = 16"
definition maxSlotEvidenceItems :: nat where "maxSlotEvidenceItems = 8"

definition numberPattern :: re where
  "numberPattern = alts [seqs [Opt (Cls False [(0x2B, 0x2B), (0x2D, 0x2D)]), Plus (Cls False [(0x30, 0x39), (0xFF10, 0xFF19)]), Star (seqs [Cls False [(0x2C, 0x2C), (0xFF0C, 0xFF0C)], Rep (Cls False [(0x30, 0x39), (0xFF10, 0xFF19)]) 3 3]), Opt (seqs [Cls False [(0x2E, 0x2E), (0xFF0E, 0xFF0E)], Plus (Cls False [(0x30, 0x39), (0xFF10, 0xFF19)])]), Opt (seqs [Star (Cls False [(0x9, 0xA), (0xC, 0xD), (0x20, 0x20)]), alts [Lit [0x5186],
        Lit [0x4EBA],
        Lit [0x4EF6],
        Lit [0x65E5],
        Lit [0x6642, 0x9593],
        Lit [0x5206],
        Lit [0x79D2],
        Lit [0x5E74],
        Lit [0x6708],
        Lit [0x9031],
        Lit [0x500B],
        Lit [0x56DE],
        Lit [0x500D],
        Lit [0x25],
        Lit [0xFF05],
        Lit [0x47, 0x42],
        Lit [0x4D, 0x42],
        Lit [0x4B, 0x42],
        Lit [0x30AD, 0x30ED],
        Lit [0x30E1, 0x30FC, 0x30C8, 0x30EB],
        Lit [0x63, 0x6D],
        Lit [0x6D, 0x6D]]])],
        seqs [Plus (Cls False [(0x4E00, 0x4E00), (0x4E8C, 0x4E8C), (0x4E09, 0x4E09), (0x56DB, 0x56DB), (0x4E94, 0x4E94), (0x516D, 0x516D), (0x4E03, 0x4E03), (0x516B, 0x516B), (0x4E5D, 0x4E5D), (0x5341, 0x5341), (0x767E, 0x767E), (0x5343, 0x5343), (0x4E07, 0x4E07), (0x5104, 0x5104), (0x5146, 0x5146)]), Star (Cls False [(0x9, 0xA), (0xC, 0xD), (0x20, 0x20)]), alts [Lit [0x5186],
        Lit [0x4EBA],
        Lit [0x4EF6],
        Lit [0x65E5],
        Lit [0x6642, 0x9593],
        Lit [0x5206],
        Lit [0x79D2],
        Lit [0x5E74],
        Lit [0x6708],
        Lit [0x9031],
        Lit [0x500B],
        Lit [0x56DE],
        Lit [0x500D]]]]"

definition properContentPattern :: re where
  "properContentPattern = alts [seqs [Lit [0x300C], Rep (Cls True [(0x300D, 0x300D), (0xD, 0xD), (0xA, 0xA)]) 1 80, Lit [0x300D]],
        seqs [Lit [0x300E], Rep (Cls True [(0x300F, 0x300F), (0xD, 0xD), (0xA, 0xA)]) 1 80, Lit [0x300F]],
        seqs [Lit [0x22], Rep (Cls True [(0x22, 0x22), (0xD, 0xD), (0xA, 0xA)]) 1 80, Lit [0x22]],
        seqs [Cls False [(0x41, 0x5A), (0x61, 0x7A), (0xFF21, 0xFF3A), (0xFF41, 0xFF5A)], Rep (Cls False [(0x41, 0x5A), (0x61, 0x7A), (0xFF21, 0xFF3A), (0xFF41, 0xFF5A), (0x30, 0x39), (0xFF10, 0xFF19), (0x2E, 0x2E), (0x5F, 0x5F), (0x2D, 0x2D)]) 0 31, Opt (alts [Lit [0x6848],
        Lit [0x793E],
        Lit [0x65B9, 0x5F0F],
        Lit [0x30E2, 0x30C7, 0x30EB],
        Lit [0x7248],
        Lit [0x898F, 0x683C]])],
        seqs [Rep (Cls False [(0x30A1, 0x30F6), (0x30FC, 0x30FC)]) 3 3, Star (Cls False [(0x30A1, 0x30F6), (0x30FC, 0x30FC)])]]"

text \<open>Anchored at both ends, and at the front, where they are used.\<close>

definition nonPropositionalFillerPattern :: re where
  "nonPropositionalFillerPattern = alts [seqs [Lit [0x3048], Opt (Lit [0x3063]), Plus (Lit [0x3068])],
        seqs [Lit [0x3048, 0x3048], Plus (Lit [0x3068])],
        seqs [Lit [0x3048], Plus (Lit [0x30FC]), Plus (Lit [0x3068])],
        seqs [Lit [0x3042], Plus (Lit [0x306E])],
        seqs [Lit [0x3042, 0x306E], Plus (Lit [0x30FC])],
        seqs [Lit [0x3046], Plus (Lit [0x30FC]), Lit [0x3093]],
        seqs [Lit [0x3093], Plus (Lit [0x30FC])],
        seqs [Lit [0x307E], Plus (Lit [0x3042])],
        seqs [Lit [0x305D], Plus (Lit [0x306E])],
        Lit [0x306A, 0x3093, 0x3068, 0x3044, 0x3046, 0x304B],
        seqs [Cls False [(0x75, 0x75), (0x55, 0x55)], Plus (Cls False [(0x6D, 0x6D), (0x4D, 0x4D)])],
        seqs [Cls False [(0x75, 0x75), (0x55, 0x55)], Plus (Cls False [(0x68, 0x68), (0x48, 0x48)])],
        seqs [Cls False [(0x65, 0x65), (0x45, 0x45)], Cls False [(0x72, 0x72), (0x52, 0x52)], Plus (Cls False [(0x6D, 0x6D), (0x4D, 0x4D)])]]"

definition leadingNonPropositionalFillerPattern :: re where
  "leadingNonPropositionalFillerPattern = Plus (alts [seqs [alts [seqs [Lit [0x3048], Opt (Lit [0x3063]), Plus (Lit [0x3068])],
        seqs [Lit [0x3048, 0x3048], Plus (Lit [0x3068])],
        seqs [Lit [0x3048], Plus (Lit [0x30FC]), Plus (Lit [0x3068])],
        seqs [Lit [0x3042, 0x306E], Star (Lit [0x30FC])],
        seqs [Lit [0x3046], Plus (Lit [0x30FC]), Lit [0x3093]],
        seqs [Lit [0x3093], Plus (Lit [0x30FC])],
        seqs [Lit [0x307E], Plus (Lit [0x3042])],
        seqs [Lit [0x305D], Plus (Lit [0x306E])],
        Lit [0x306A, 0x3093, 0x3068, 0x3044, 0x3046, 0x304B]], Star (Cls False [(0x3001, 0x3001), (0x2C, 0x2C), (0x9, 0xA), (0xC, 0xD), (0x20, 0x20)])],
        seqs [alts [seqs [Cls False [(0x75, 0x75), (0x55, 0x55)], Plus (Cls False [(0x6D, 0x6D), (0x4D, 0x4D)])],
        seqs [Cls False [(0x75, 0x75), (0x55, 0x55)], Plus (Cls False [(0x68, 0x68), (0x48, 0x48)])],
        seqs [Cls False [(0x65, 0x65), (0x45, 0x45)], Cls False [(0x72, 0x72), (0x52, 0x52)], Plus (Cls False [(0x6D, 0x6D), (0x4D, 0x4D)])]], Plus (Cls False [(0x2C, 0x2C), (0x9, 0xA), (0xC, 0xD), (0x20, 0x20)])]])"

definition negationMarkers :: "string list" where
  "negationMarkers = [utf8_encode [0x65AD, 0x5B9A, 0x3067, 0x304D, 0x307E, 0x305B, 0x3093],
      utf8_encode [0x308F, 0x304B, 0x308A, 0x307E, 0x305B, 0x3093],
      utf8_encode [0x5206, 0x304B, 0x308A, 0x307E, 0x305B, 0x3093],
      utf8_encode [0x3067, 0x306F, 0x3042, 0x308A, 0x307E, 0x305B, 0x3093],
      utf8_encode [0x3058, 0x3083, 0x3042, 0x308A, 0x307E, 0x305B, 0x3093],
      utf8_encode [0x3067, 0x304D, 0x307E, 0x305B, 0x3093],
      utf8_encode [0x3057, 0x307E, 0x305B, 0x3093],
      utf8_encode [0x3042, 0x308A, 0x307E, 0x305B, 0x3093],
      utf8_encode [0x3067, 0x306F, 0x306A, 0x3044],
      utf8_encode [0x3058, 0x3083, 0x306A, 0x3044],
      utf8_encode [0x3067, 0x304D, 0x306A, 0x3044],
      utf8_encode [0x3057, 0x306A, 0x3044],
      utf8_encode [0x4E0D, 0x53EF, 0x80FD],
      utf8_encode [0x53CD, 0x5BFE],
      utf8_encode [0x7981, 0x6B62],
      utf8_encode [0x4E0D, 0x8981],
      utf8_encode [0x5374, 0x4E0B],
      utf8_encode [0x4E2D, 0x6B62],
      utf8_encode [0x306A, 0x3044]]"

definition conditionMarkers :: "string list" where
  "conditionMarkers = [utf8_encode [0x3067, 0x3042, 0x308C, 0x3070],
      utf8_encode [0x306E, 0x5834, 0x5408],
      utf8_encode [0x6642, 0x3060, 0x3051],
      utf8_encode [0x3092, 0x9664, 0x304D],
      utf8_encode [0x3092, 0x9664, 0x304F],
      utf8_encode [0x524D, 0x63D0, 0x3067],
      utf8_encode [0x6761, 0x4EF6, 0x3067],
      utf8_encode [0x305F, 0x3060, 0x3057],
      utf8_encode [0x306A, 0x3089],
      utf8_encode [0x3068, 0x304D],
      utf8_encode [0x9650, 0x308A]]"

definition uncertaintyMarkers :: "string list" where
  "uncertaintyMarkers = [utf8_encode [0x308F, 0x304B, 0x308A, 0x307E, 0x305B, 0x3093],
      utf8_encode [0x5206, 0x304B, 0x308A, 0x307E, 0x305B, 0x3093],
      utf8_encode [0x5224, 0x65AD, 0x3067, 0x304D, 0x307E, 0x305B, 0x3093],
      utf8_encode [0x78BA, 0x8A8D, 0x3067, 0x304D, 0x307E, 0x305B, 0x3093],
      utf8_encode [0x60C5, 0x5831, 0x304C, 0x3042, 0x308A, 0x307E, 0x305B, 0x3093],
      utf8_encode [0x65AD, 0x5B9A, 0x3067, 0x304D, 0x307E, 0x305B, 0x3093],
      utf8_encode [0x78BA, 0x4FE1, 0x304C, 0x3042, 0x308A, 0x307E, 0x305B, 0x3093],
      utf8_encode [0x4E0D, 0x78BA, 0x5B9F],
      utf8_encode [0x672A, 0x78BA, 0x8A8D],
      utf8_encode [0x304B, 0x3082, 0x3057, 0x308C],
      utf8_encode [0x53EF, 0x80FD, 0x6027],
      utf8_encode [0x3068, 0x601D, 0x3044, 0x307E, 0x3059],
      utf8_encode [0x304A, 0x305D, 0x3089, 0x304F],
      utf8_encode [0x305F, 0x3076, 0x3093],
      utf8_encode [0x63A8, 0x5B9A],
      utf8_encode [0x898B, 0x8FBC, 0x307F],
      utf8_encode [0x7D04],
      utf8_encode [0x304F, 0x3089, 0x3044],
      utf8_encode [0x7A0B, 0x5EA6]]"

definition clause_separators :: "nat list" where
  "clause_separators = [0x3002, 0x3001, 0xFF0C, 0x2C, 0xFF0E, 0x2E, 0xFF01, 0x21, 0xFF1F, 0x3F, 0xFF1B, 0x3B] @ [0xA, 0xD]"

section \<open>Texts\<close>

definition semantic_clauses :: "string \<Rightarrow> string list" where
  "semantic_clauses value =
     List.filter (\<lambda>c. c \<noteq> [])
       (List.map (\<lambda>p. trim_space (rune_text p))
         (pieces (\<lambda>c. fst c \<notin> set clause_separators) [] (chunks (collapse_space value))))"

definition bounded_text :: "string \<Rightarrow> nat \<Rightarrow> bool \<Rightarrow> bool" where
  "bounded_text value maximum required =
     (if \<not> utf8_valid value then False
      else let value = collapse_space value in
        if required \<and> value = [] then False else rune_count value \<le> maximum)"

definition normalize_digits :: "string \<Rightarrow> string" where
  "normalize_digits =
     replace_all (zip ([utf8_encode [0xFF10],
      utf8_encode [0xFF11],
      utf8_encode [0xFF12],
      utf8_encode [0xFF13],
      utf8_encode [0xFF14],
      utf8_encode [0xFF15],
      utf8_encode [0xFF16],
      utf8_encode [0xFF17],
      utf8_encode [0xFF18],
      utf8_encode [0xFF19],
      utf8_encode [0xFF0E]])
       [''0'', ''1'', ''2'', ''3'', ''4'', ''5'', ''6'', ''7'', ''8'', ''9'', ''.''])"

definition number_tokens :: "string \<Rightarrow> string list" where
  "number_tokens value = List.map
     (\<lambda>token. replace_all [('','', []), (utf8_encode [0xFF0C], []), ('' '', []), ([CHR 0x09], []), (utf8_encode [0xFF05], ''%'')]
        (normalize_digits token))
     (find_all numberPattern (chunks value))"

definition number_bag :: "string \<Rightarrow> bag" where
  "number_bag value = bag_of (number_tokens value)"

definition proper_tokens :: "string \<Rightarrow> string list" where
  "proper_tokens value = List.map collapse_space (find_all properContentPattern (chunks value))"

definition proper_content_bag :: "string \<Rightarrow> bag" where
  "proper_content_bag value = bag_of (proper_tokens value)"

definition marker_bag :: "string \<Rightarrow> string list \<Rightarrow> bag" where
  "marker_bag value markers =
     foldl (\<lambda>b m. let n = count_sub value m in if n > 0 then AList.update m n b else b) [] markers"

definition condition_bag :: "string \<Rightarrow> bag" where
  "condition_bag value =
     bag_of (List.filter (\<lambda>c. list_ex (contains c) conditionMarkers) (semantic_clauses value))"

definition clause_bag :: "string \<Rightarrow> bag" where
  "clause_bag value = bag_of (semantic_clauses value)"

fun append_issue :: "issue list \<Rightarrow> issue \<Rightarrow> issue list" where
  "append_issue is i = (if i \<in> set is then is else is @ [i])"

definition same_clause_order :: "string \<Rightarrow> string \<Rightarrow> bool" where
  "same_clause_order left right \<longleftrightarrow> semantic_clauses left = semantic_clauses right"

definition is_filler :: "string \<Rightarrow> bool" where
  "is_filler clause \<longleftrightarrow> full_match nonPropositionalFillerPattern (trim_space clause)"

definition starts_with_target_evidence :: "string \<Rightarrow> string \<Rightarrow> bool" where
  "starts_with_target_evidence txt evidence =
     (let txt = collapse_space txt; evidence = collapse_space evidence in
      if txt = [] \<or> evidence = [] then False
      else if prefix evidence txt then True
      else prefix evidence (trim_space (drop_match leadingNonPropositionalFillerPattern txt)))"

section \<open>The gate\<close>

definition valid_slot :: "slot \<Rightarrow> bool" where
  "valid_slot s = (case s of SlotOther _ \<Rightarrow> False | _ \<Rightarrow> True)"

text \<open>The loop over the evidence: \<open>None\<close> is the early return.\<close>

fun bind_evidence :: "slot list \<Rightarrow> string \<Rightarrow> slot_binding list \<Rightarrow> (slot \<rightharpoonup> string) \<Rightarrow> (slot \<rightharpoonup> string) option" where
  "bind_evidence required original [] ev = Some ev"
| "bind_evidence required original (b # bs) ev =
     (let span = collapse_space (sb_span b) in
      if sb_slot b \<notin> set required \<or> \<not> bounded_text span maxEvidenceRunes True
         \<or> length (semantic_clauses span) \<noteq> 1 \<or> \<not> contains original span then None
      else if ev (sb_slot b) \<noteq> None then None
      else bind_evidence required original bs (ev(sb_slot b \<mapsto> span)))"

fun protected_ok :: "string \<Rightarrow> string list \<Rightarrow> string list \<Rightarrow> bool" where
  "protected_ok original [] seen = True"
| "protected_ok original (v # vs) seen =
     (let v = collapse_space v in
      if \<not> bounded_text v maxProtectedRunes True \<or> \<not> contains original v then False
      else if v \<in> set seen then False
      else protected_ok original vs (v # seen))"

definition validate_input :: "gate_input \<Rightarrow> (slot \<times> (slot \<rightharpoonup> string)) option" where
  "validate_input inp =
     (let fr = gi_frame inp; a = gi_attempt inp in
      case target_slot (qf_operator fr) of None \<Rightarrow> None
      | Some target \<Rightarrow>
        if \<not> bounded_text (qf_subject fr) maxSubjectRunes True
          \<or> \<not> bounded_text (at_text a) maxAnswerRunes True
          \<or> \<not> bounded_text (gi_reconstruction inp) maxAnswerRunes False
          \<or> qf_required fr = [] \<or> length (qf_required fr) > maxRequiredSlots
          \<or> length (at_evidence a) > maxSlotEvidenceItems
          \<or> length (at_protected a) > maxProtectedSpans then None
        else if \<not> list_all valid_slot (qf_required fr) \<or> \<not> distinct (qf_required fr) then None
        else if target \<notin> set (qf_required fr) then None
        else if qf_operator fr = OperatorQuantity \<and> SlotUnit \<notin> set (qf_required fr) then None
        else let original = collapse_space (at_text a) in
          case bind_evidence (qf_required fr) original (at_evidence a) Map.empty of None \<Rightarrow> None
          | Some ev \<Rightarrow> if protected_ok original (at_protected a) [] then Some (target, ev) else None)"

text \<open>A missing key of a Go map reads as the empty text.\<close>

definition span_of :: "(slot \<rightharpoonup> string) \<Rightarrow> slot \<Rightarrow> string" where
  "span_of ev s = (case ev s of None \<Rightarrow> [] | Some t \<Rightarrow> t)"

definition slot_filled :: "(slot \<rightharpoonup> string) \<Rightarrow> string \<Rightarrow> slot \<Rightarrow> bool" where
  "slot_filled ev txt s \<longleftrightarrow> span_of ev s \<noteq> [] \<and> contains txt (span_of ev s)"

definition slot_coverage :: "slot list \<Rightarrow> (slot \<rightharpoonup> string) \<Rightarrow> string \<Rightarrow> f64" where
  "slot_coverage required ev txt =
     fdiv (f64_of (of_nat (length (List.filter (slot_filled ev txt) required)))) (f64_of (of_nat (length required)))"

fun position_in :: "string list \<Rightarrow> nat \<Rightarrow> string \<Rightarrow> bool \<Rightarrow> commitment_place" where
  "position_in [] idx target front = PositionAbsent"
| "position_in (c # cs) idx target front =
     (if is_filler c then position_in cs idx target front
      else if contains c target then
        (if idx = 0 \<and> (\<not> front \<or> starts_with_target_evidence c target) then PositionFirst else PositionLater)
      else position_in cs (idx + 1) target front)"

definition commitment_position :: "string \<Rightarrow> string \<Rightarrow> bool \<Rightarrow> commitment_place" where
  "commitment_position txt target front =
     (if target = [] then PositionAbsent else position_in (semantic_clauses txt) 0 target front)"

definition preservation_issues :: "string \<Rightarrow> string \<Rightarrow> string list \<Rightarrow> issue list" where
  "preservation_issues original candidate protected =
     (let add = (\<lambda>c i is. if c then append_issue is i else is);
          is0 = add (\<not> equal_bag (number_bag original) (number_bag candidate)) IssueNumberChanged [];
          is1 = add (\<not> equal_bag (marker_bag original negationMarkers) (marker_bag candidate negationMarkers))
                  IssueNegationChanged is0;
          is2 = add (\<not> equal_bag (condition_bag original) (condition_bag candidate)) IssueConditionChanged is1;
          is3 = add (\<not> equal_bag (marker_bag original uncertaintyMarkers) (marker_bag candidate uncertaintyMarkers))
                  IssueUncertaintyChanged is2;
          is4 = add (\<not> equal_bag (proper_content_bag original) (proper_content_bag candidate))
                  IssueProperContentChanged is3;
          is5 = add (list_ex (\<lambda>v. count_sub original (collapse_space v) \<noteq> count_sub candidate (collapse_space v))
                  protected) IssueProtectedSpanChanged is4
      in add (\<not> equal_bag (clause_bag original) (clause_bag candidate)) IssueContentChanged is5)"

definition gate :: "gate_input \<Rightarrow> gate_assessment" where
  "gate inp =
     (let a0 = \<lparr>ga_outcome = OutcomeReject, ga_original_coverage = Fin 0, ga_coverage = Fin 0,
          ga_original_position = PositionAbsent, ga_position = PositionAbsent, ga_satisfied = False,
          ga_preserved = False, ga_issues = []\<rparr>
      in case validate_input inp of None \<Rightarrow> a0\<lparr>ga_issues := [IssueInvalidContract]\<rparr>
      | Some (target, ev) \<Rightarrow>
          let original = collapse_space (at_text (gi_attempt inp));
              candidate = collapse_space (gi_reconstruction inp);
              effective = (if candidate \<noteq> [] then candidate else original);
              required = qf_required (gi_frame inp);
              a1 = a0\<lparr>ga_original_coverage := slot_coverage required ev original,
                     ga_coverage := slot_coverage required ev effective,
                     ga_original_position := commitment_position original (span_of ev target) (gi_front inp),
                     ga_position := commitment_position effective (span_of ev target) (gi_front inp),
                     ga_preserved := (candidate = [])\<rparr>;
              is = (if candidate \<noteq> [] then preservation_issues original candidate (at_protected (gi_attempt inp)) else []);
              a2 = a1\<lparr>ga_issues := is, ga_preserved := (is = [])\<rparr>
          in if candidate \<noteq> [] \<and> is \<noteq> [] then a2\<lparr>ga_outcome := OutcomeReject\<rparr>
          else if qf_ambiguous (gi_frame inp) then
            a2\<lparr>ga_outcome := OutcomeClarify, ga_issues := append_issue is IssueAmbiguousQuestion\<rparr>
          else if flt (ga_original_coverage a2) (Fin 1) then
            a2\<lparr>ga_outcome := OutcomeClarify,
              ga_issues := (let is' = append_issue is IssueRequiredSlotMissing in
                if ga_original_position a2 = PositionAbsent then append_issue is' IssueCommitmentAbsent else is')\<rparr>
          else if flt (ga_coverage a2) (Fin 1) then
            a2\<lparr>ga_outcome := OutcomeReject, ga_issues := append_issue is IssueRequiredSlotLost\<rparr>
          else if ga_position a2 = PositionAbsent then
            a2\<lparr>ga_outcome := OutcomeReject, ga_issues := append_issue is IssueCommitmentAbsent\<rparr>
          else if ga_position a2 \<noteq> PositionFirst then
            (if candidate = [] then
               a2\<lparr>ga_outcome := OutcomeClarify, ga_issues := append_issue is IssueReconstructionNeeded\<rparr>
             else a2\<lparr>ga_outcome := OutcomeReject, ga_issues := append_issue is IssueCommitmentNotFirst\<rparr>)
          else if candidate = [] \<or> same_clause_order original candidate \<and> ga_original_position a2 = PositionFirst then
            a2\<lparr>ga_satisfied := True, ga_outcome := OutcomeKeep\<rparr>
          else a2\<lparr>ga_satisfied := True, ga_outcome := OutcomeRestructure\<rparr>)"

section \<open>What the checks establish\<close>

lemma semantic_clauses_Nil [simp]: "semantic_clauses [] = []"
  by (simp add: semantic_clauses_def collapse_space_def Go_Regexp.fields_def)

lemma bind_evidence_sound:
  "bind_evidence required original bs ev = Some ev' \<Longrightarrow>
     (\<forall>s t. ev s = Some t \<longrightarrow> s \<in> set required \<and> t \<noteq> [] \<and> contains original t \<and> length (semantic_clauses t) = 1) \<Longrightarrow>
     ev' s = Some t \<Longrightarrow> s \<in> set required \<and> t \<noteq> [] \<and> contains original t \<and> length (semantic_clauses t) = 1"
proof (induction required original bs ev rule: bind_evidence.induct)
  case (2 required original b bs ev)
  let ?t = "collapse_space (sb_span b)"
  from "2.prems"(1) have ok: "sb_slot b \<in> set required" "bounded_text ?t maxEvidenceRunes True"
    "length (semantic_clauses ?t) = 1" "contains original ?t"
    and rest: "ev (sb_slot b) = None" "bind_evidence required original bs (ev(sb_slot b \<mapsto> ?t)) = Some ev'"
    by (auto simp: Let_def split: if_splits)
  have "?t \<noteq> []"
  proof
    assume "?t = []"
    with ok(3) show False by simp
  qed
  then show ?case using "2.IH" [OF refl _ _ rest(2)] ok rest(1) "2.prems"(2,3)
    by (fastforce split: if_splits)
qed simp

lemma validate_input_sound:
  assumes "validate_input inp = Some (target, ev)"
  shows "target_slot (qf_operator (gi_frame inp)) = Some target"
    and "target \<in> set (qf_required (gi_frame inp))"
    and "length (qf_required (gi_frame inp)) \<le> maxRequiredSlots"
    and "distinct (qf_required (gi_frame inp))"
    and "ev s = Some t \<Longrightarrow> s \<in> set (qf_required (gi_frame inp)) \<and> t \<noteq> []
      \<and> contains (collapse_space (at_text (gi_attempt inp))) t \<and> length (semantic_clauses t) = 1"
proof -
  from assms show "target_slot (qf_operator (gi_frame inp)) = Some target"
    and "target \<in> set (qf_required (gi_frame inp))"
    and "length (qf_required (gi_frame inp)) \<le> maxRequiredSlots"
    and "distinct (qf_required (gi_frame inp))"
    by (auto simp: validate_input_def Let_def split: option.splits if_splits)
  from assms have b: "bind_evidence (qf_required (gi_frame inp)) (collapse_space (at_text (gi_attempt inp)))
      (at_evidence (gi_attempt inp)) Map.empty = Some ev"
    by (auto simp: validate_input_def Let_def split: option.splits if_splits)
  show "s \<in> set (qf_required (gi_frame inp)) \<and> t \<noteq> []
      \<and> contains (collapse_space (at_text (gi_attempt inp))) t \<and> length (semantic_clauses t) = 1"
    if "ev s = Some t"
    using bind_evidence_sound [OF b _ that] by simp
qed

text \<open>Coverage is below 1 exactly when a required slot is not filled: the division rounds, but never
  up to 1.\<close>

lemma slot_coverage_below_1:
  assumes "required \<noteq> []" "length required \<le> maxRequiredSlots"
  shows "flt (slot_coverage required ev txt) (Fin 1) \<longleftrightarrow> \<not> list_all (slot_filled ev txt) required"
proof -
  let ?m = "length (List.filter (slot_filled ev txt) required)" and ?n = "length required"
  have small: "?m \<le> ?n" "?n \<le> 8" "0 < ?n" using assms by (auto simp: maxRequiredSlots_def)
  have nat: "f64_of (of_nat k) = Fin (of_nat k)" if "k \<le> 8" for k
    using that round64_of_int [of "int k"] by (simp add: f64_of_Fin)
  have c: "slot_coverage required ev txt = Fin (round64 (of_nat ?m / of_nat ?n))"
    unfolding slot_coverage_def nat [OF order_trans [OF small(1,2)]] nat [OF small(2)]
    using small by (intro fdiv_unit) simp_all
  show ?thesis
  proof (cases "?m < ?n")
    case True
    then have "\<not> list_all (slot_filled ev txt) required"
      by (metis filter_True less_irrefl list_all_iff)
    then show ?thesis using ratio_below_1 [OF True] small c by simp
  next
    case False
    then have "?m = ?n" using small by simp
    then have "List.filter (slot_filled ev txt) required = required"
      by (metis filter_id_conv length_filter_less less_irrefl)
    then have "list_all (slot_filled ev txt) required" by (metis filter_id_conv list_all_iff)
    then show ?thesis using \<open>?m = ?n\<close> small c by simp
  qed
qed

text \<open>The target stands first when only fillers come before the first clause that has it.\<close>

definition fronted :: "string \<Rightarrow> string \<Rightarrow> bool \<Rightarrow> bool" where
  "fronted txt target front \<longleftrightarrow> target \<noteq> [] \<and> (\<exists>fillers c rest.
     semantic_clauses txt = fillers @ c # rest \<and> list_all is_filler fillers \<and> \<not> is_filler c
     \<and> contains c target \<and> (if front then starts_with_target_evidence c target else True))"

lemma position_in_later: "0 < n \<Longrightarrow> position_in cs n target front \<noteq> PositionFirst"
  by (induction cs n target front rule: position_in.induct) auto

lemma position_in_first:
  "position_in cs 0 target front = PositionFirst \<longleftrightarrow> (\<exists>fillers c rest.
     cs = fillers @ c # rest \<and> list_all is_filler fillers \<and> \<not> is_filler c
     \<and> contains c target \<and> (if front then starts_with_target_evidence c target else True))"
proof (induction cs)
  case (Cons c cs)
  let ?ok = "\<lambda>d. \<not> is_filler d \<and> contains d target \<and> (if front then starts_with_target_evidence d target else True)"
  show ?case (is "?l \<longleftrightarrow> ?r")
  proof (cases "is_filler c")
    case True
    have "?r \<longleftrightarrow> (\<exists>fillers d rest. cs = fillers @ d # rest \<and> list_all is_filler fillers \<and> ?ok d)"
    proof
      assume ?r
      then obtain fillers d rest where "c # cs = fillers @ d # rest" "list_all is_filler fillers" "?ok d" by blast
      then show "\<exists>fillers d rest. cs = fillers @ d # rest \<and> list_all is_filler fillers \<and> ?ok d"
      proof (cases fillers)
        case Nil
        with \<open>c # cs = _\<close> \<open>?ok d\<close> True show ?thesis by simp
      next
        case (Cons f fs)
        with \<open>c # cs = _\<close> \<open>list_all is_filler fillers\<close> have "cs = fs @ d # rest" "list_all is_filler fs" by simp_all
        with \<open>?ok d\<close> show ?thesis by blast
      qed
    next
      assume "\<exists>fillers d rest. cs = fillers @ d # rest \<and> list_all is_filler fillers \<and> ?ok d"
      then obtain fillers d rest where "cs = fillers @ d # rest" "list_all is_filler fillers" "?ok d" by blast
      then show ?r using True by (intro exI [of _ "c # fillers"] exI [of _ d] exI [of _ rest]) simp
    qed
    then show ?thesis using True Cons by simp
  next
    case False
    have "?r \<longleftrightarrow> ?ok c"
    proof
      assume ?r
      then obtain fillers d rest where "c # cs = fillers @ d # rest" "list_all is_filler fillers" "?ok d" by blast
      then show "?ok c" using False by (cases fillers) auto
    next
      assume "?ok c"
      then show ?r by (intro exI [of _ "[]"] exI [of _ c] exI [of _ cs]) simp
    qed
    then show ?thesis using False position_in_later [of 1] by auto
  qed
qed simp

lemma commitment_position_first:
  "commitment_position txt target front = PositionFirst \<longleftrightarrow> fronted txt target front"
  by (simp add: commitment_position_def fronted_def position_in_first)

lemma position_in_known: "position_in cs n target front \<in> {PositionFirst, PositionLater, PositionAbsent}"
  by (induction cs n target front rule: position_in.induct) auto

text \<open>Counting markers.\<close>

lemma set_update: "set (AList.update k v al) \<subseteq> insert (k, v) (set al)"
  by (induction al) auto

lemma marker_bag_count:
  "bag_wf (marker_bag v ms)
    \<and> (\<forall>m. bag_count (marker_bag v ms) m = (if m \<in> set ms then count_sub v m else 0))"
proof (induction ms rule: rev_induct)
  case (snoc m ms)
  have upd: "bag_wf (AList.update m n b)" if "bag_wf b" "0 < n" for b n
    using that distinct_update [of b m n] set_update [of m n b] by (fastforce simp: bag_wf_def)
  have "marker_bag v (ms @ [m]) = (if count_sub v m > 0 then AList.update m (count_sub v m) (marker_bag v ms)
      else marker_bag v ms)"
    by (simp add: marker_bag_def Let_def)
  then show ?case using snoc upd by (auto simp: bag_count_def update_conv)
qed (simp add: marker_bag_def bag_wf_def bag_count_def)

lemma marker_bag_equal:
  "equal_bag (marker_bag v ms) (marker_bag w ms) \<longleftrightarrow> list_all (\<lambda>m. count_sub v m = count_sub w m) ms"
  using marker_bag_count [of v ms] marker_bag_count [of w ms]
  by (auto simp: equal_bag_iff fun_eq_iff list_all_iff)

section \<open>Properties of the gate\<close>

abbreviation original_of :: "gate_input \<Rightarrow> string" where
  "original_of inp \<equiv> collapse_space (at_text (gi_attempt inp))"

abbreviation candidate_of :: "gate_input \<Rightarrow> string" where
  "candidate_of inp \<equiv> collapse_space (gi_reconstruction inp)"

text \<open>The text that is judged: the reconstruction where there is one.\<close>

definition effective_of :: "gate_input \<Rightarrow> string" where
  "effective_of inp = (if candidate_of inp \<noteq> [] then candidate_of inp else original_of inp)"

lemma preservation_issues_Nil:
  "preservation_issues original candidate protected = [] \<longleftrightarrow>
     equal_bag (number_bag original) (number_bag candidate)
     \<and> equal_bag (marker_bag original negationMarkers) (marker_bag candidate negationMarkers)
     \<and> equal_bag (condition_bag original) (condition_bag candidate)
     \<and> equal_bag (marker_bag original uncertaintyMarkers) (marker_bag candidate uncertaintyMarkers)
     \<and> equal_bag (proper_content_bag original) (proper_content_bag candidate)
     \<and> list_all (\<lambda>v. count_sub original (collapse_space v) = count_sub candidate (collapse_space v)) protected
     \<and> equal_bag (clause_bag original) (clause_bag candidate)"
proof -
  have ne: "append_issue is i \<noteq> []" for i "is" by auto
  show ?thesis unfolding preservation_issues_def Let_def by (auto simp: ne list_all_iff list_ex_iff simp del: append_issue.simps)
qed

text \<open>
  C12. Nothing but the order may change: when the gate accepts a reconstruction, it has exactly the
  clauses of the person's own answer, each as often, the same numbers and the same proper content (what
  the two patterns find in it), each as often, and every negation marker, every marker of
  uncertainty, every clause with a condition and every protected span occurs in it as often as in
  the answer.
\<close>

theorem gate_only_reorders:
  "{inp. ga_outcome (gate inp) \<in> {OutcomeKeep, OutcomeRestructure} \<and> candidate_of inp \<noteq> []} \<subseteq>
   {inp. mset (semantic_clauses (candidate_of inp)) = mset (semantic_clauses (original_of inp))
      \<and> mset (number_tokens (candidate_of inp)) = mset (number_tokens (original_of inp))
      \<and> mset (proper_tokens (candidate_of inp)) = mset (proper_tokens (original_of inp))
      \<and> list_all (\<lambda>m. count_sub (original_of inp) m = count_sub (candidate_of inp) m)
          (negationMarkers @ uncertaintyMarkers)
      \<and> filter_mset (\<lambda>c. list_ex (contains c) conditionMarkers) (mset (semantic_clauses (candidate_of inp)))
        = filter_mset (\<lambda>c. list_ex (contains c) conditionMarkers) (mset (semantic_clauses (original_of inp)))
      \<and> list_all (\<lambda>v. count_sub (original_of inp) (collapse_space v) = count_sub (candidate_of inp) (collapse_space v))
          (at_protected (gi_attempt inp))}"
proof (intro subsetI CollectI, elim CollectE conjE)
  fix inp
  assume acc: "ga_outcome (gate inp) \<in> {OutcomeKeep, OutcomeRestructure}" and cand: "candidate_of inp \<noteq> []"
  then have "preservation_issues (original_of inp) (candidate_of inp) (at_protected (gi_attempt inp)) = []"
    by (auto simp: gate_def Let_def split: option.splits if_splits)
  then show "mset (semantic_clauses (candidate_of inp)) = mset (semantic_clauses (original_of inp))
      \<and> mset (number_tokens (candidate_of inp)) = mset (number_tokens (original_of inp))
      \<and> mset (proper_tokens (candidate_of inp)) = mset (proper_tokens (original_of inp))
      \<and> list_all (\<lambda>m. count_sub (original_of inp) m = count_sub (candidate_of inp) m)
          (negationMarkers @ uncertaintyMarkers)
      \<and> filter_mset (\<lambda>c. list_ex (contains c) conditionMarkers) (mset (semantic_clauses (candidate_of inp)))
        = filter_mset (\<lambda>c. list_ex (contains c) conditionMarkers) (mset (semantic_clauses (original_of inp)))
      \<and> list_all (\<lambda>v. count_sub (original_of inp) (collapse_space v) = count_sub (candidate_of inp) (collapse_space v))
          (at_protected (gi_attempt inp))"
    unfolding preservation_issues_Nil clause_bag_def number_bag_def proper_content_bag_def equal_bag_of
      marker_bag_equal
    by simp
qed

lemma gate_satisfied_facts:
  "ga_satisfied (gate inp) \<longleftrightarrow>
     (\<exists>target ev. validate_input inp = Some (target, ev)
        \<and> \<not> qf_ambiguous (gi_frame inp)
        \<and> (if candidate_of inp = [] then True
           else preservation_issues (original_of inp) (candidate_of inp) (at_protected (gi_attempt inp)) = [])
        \<and> list_all (slot_filled ev (original_of inp)) (qf_required (gi_frame inp))
        \<and> list_all (slot_filled ev (effective_of inp)) (qf_required (gi_frame inp))
        \<and> fronted (effective_of inp) (span_of ev target) (gi_front inp))"
  "ga_satisfied (gate inp) \<longleftrightarrow> ga_outcome (gate inp) \<in> {OutcomeKeep, OutcomeRestructure}"
proof -
  show "ga_satisfied (gate inp) \<longleftrightarrow> ga_outcome (gate inp) \<in> {OutcomeKeep, OutcomeRestructure}"
    by (auto simp: gate_def Let_def split: option.splits)
  show "ga_satisfied (gate inp) \<longleftrightarrow>
     (\<exists>target ev. validate_input inp = Some (target, ev)
        \<and> \<not> qf_ambiguous (gi_frame inp)
        \<and> (if candidate_of inp = [] then True
           else preservation_issues (original_of inp) (candidate_of inp) (at_protected (gi_attempt inp)) = [])
        \<and> list_all (slot_filled ev (original_of inp)) (qf_required (gi_frame inp))
        \<and> list_all (slot_filled ev (effective_of inp)) (qf_required (gi_frame inp))
        \<and> fronted (effective_of inp) (span_of ev target) (gi_front inp))"
  proof (cases "validate_input inp")
    case None
    then show ?thesis by (simp add: gate_def)
  next
    case (Some te)
    obtain target ev where te: "te = (target, ev)" by (cases te)
    note v = validate_input_sound [OF Some [unfolded te]]
    have ne: "qf_required (gi_frame inp) \<noteq> []" using v(2) by auto
    note cov = slot_coverage_below_1 [OF ne v(3)]
    show ?thesis
      unfolding gate_def Some te effective_of_def commitment_position_first [symmetric]
      by (cases "candidate_of inp = []") (simp_all add: Let_def cov)
  qed
qed

text \<open>
  The gate is satisfied exactly when the contract is valid and unambiguous, the reconstruction (if
  there is one) raised no preservation issue, every required slot is filled by a span of the person's
  own words that is in the answer and in the reconstruction, and the span of the slot that the
  question asks for stands in the first clause of it that is not a filler; and it is satisfied exactly
  when its outcome is to keep or to restructure.
\<close>

theorem gate_satisfied_iff:
  "(ga_satisfied (gate inp) \<longleftrightarrow>
     (\<exists>target ev. validate_input inp = Some (target, ev)
        \<and> \<not> qf_ambiguous (gi_frame inp)
        \<and> (if candidate_of inp = [] then True
           else preservation_issues (original_of inp) (candidate_of inp) (at_protected (gi_attempt inp)) = [])
        \<and> list_all (slot_filled ev (original_of inp)) (qf_required (gi_frame inp))
        \<and> list_all (slot_filled ev (effective_of inp)) (qf_required (gi_frame inp))
        \<and> fronted (effective_of inp) (span_of ev target) (gi_front inp)))
   \<and> (ga_satisfied (gate inp) \<longleftrightarrow> ga_outcome (gate inp) \<in> {OutcomeKeep, OutcomeRestructure})"
  by (rule conjI [OF gate_satisfied_facts])

end
