(* ===== verification/AnswerContract.thy ===== *)
theory AnswerContract
  imports Go_Regexp Float64
begin

text \<open>
  \<open>answercontract\<close>: the Latent Answer Contract, with which a language model's audit of an answer is
  itself audited. A contract is validated and its scores are derived again from its discrete
  evidence; the texts it quotes are compared with the answer it is about, and a proposed repair is
  accepted only if it moves the commitment to the front and changes nothing else. The natural
  logarithm (\<open>math.Log\<close>) is the argument \<open>lg\<close>.
\<close>

section \<open>Contracts\<close>

definition MaxSubjectRunes :: nat where "MaxSubjectRunes = 160"
definition MaxHypothesisRunes :: nat where "MaxHypothesisRunes = 160"
definition MaxFirstCommitmentRunes :: nat where "MaxFirstCommitmentRunes = 240"
definition MaxMinimalAnswerRunes :: nat where "MaxMinimalAnswerRunes = 240"
definition MaxReconstructedRunes :: nat where "MaxReconstructedRunes = 480"
definition MaxRequiredSlots :: nat where "MaxRequiredSlots = 5"
definition MaxHypotheses :: nat where "MaxHypotheses = 3"

definition HypothesisGapThreshold :: f64 where "HypothesisGapThreshold = f64_of (20 / 100)"
definition HighEntropyThreshold :: f64 where "HighEntropyThreshold = f64_of (88 / 100)"
definition LowTopHypothesisThreshold :: f64 where "LowTopHypothesisThreshold = f64_of (65 / 100)"
definition CoverageTolerance :: f64 where "CoverageTolerance = f64_of (5 / 100)"
definition RepairGainThreshold :: f64 where "RepairGainThreshold = f64_of (20 / 100)"
definition MeaningPreservationThreshold :: f64 where "MeaningPreservationThreshold = f64_of (86 / 100)"
definition InferredCommitmentThreshold :: f64 where "InferredCommitmentThreshold = f64_of (90 / 100)"

datatype operator =
  OperatorBoolean | OperatorChoice | OperatorQuantity | OperatorState | OperatorCause | OperatorProcedure
  | OperatorDefinition | OperatorComparison | OperatorEvidence | OperatorPurpose | OperatorOpen
  | OperatorOther string

datatype required_slot =
  SlotPolarity | SlotSelection | SlotQuantity | SlotState | SlotCause | SlotProcedure | SlotDefinition
  | SlotComparison | SlotEvidence | SlotPurpose | SlotPosition | SlotUnit | SlotCondition
  | SlotUncertainty | SlotScope | SlotOther string

record hypothesis =
  hy_interpretation :: string
  hy_confidence :: f64

record question_frame =
  qn_operator :: operator
  qn_subject :: string
  qn_required :: "required_slot list"
  qn_hypotheses :: "hypothesis list"

datatype position_class = PositionFirst | PositionLater | PositionAbsent | PositionOther string

datatype calibration =
  CalibrationCommitted | CalibrationConditional | CalibrationUncertain | CalibrationAbstain
  | CalibrationOther string

datatype issue =
  IssueNone | IssueTargetMissing | IssueMissingRequiredSlot | IssueReasonOnly | IssueBackgroundFirst
  | IssueConditionSeparated | IssueQuestionRestatement | IssueAmbiguousCommitment
  | IssueAnswerTypeMismatch | IssueUnsupportedCertainty | IssueInsufficientEvidence
  | IssueContradiction | IssueMeaningChanged | IssueNotEvaluable | IssueOther string

record commitment_front =
  cf_first :: string
  cf_fills_target :: bool
  cf_coverage :: f64
  cf_filled :: "required_slot list"
  cf_position :: position_class
  cf_calibration :: calibration
  cf_issue :: issue

record counterfactual_repair =
  cr_minimal :: string
  cr_reconstructed :: string
  cr_confidence :: f64
  cr_gain :: f64

record contract =
  ct_question :: question_frame
  ct_commitment :: commitment_front
  ct_repair :: counterfactual_repair

record metrics =
  me_gap :: f64
  me_entropy :: f64
  me_coverage :: f64
  me_position :: position_class
  me_meaning :: f64

datatype outcome = OutcomeKeep | OutcomeClarify | OutcomeRestructure | OutcomeReject | OutcomeOther string

record assessment =
  as_metrics :: metrics
  as_outcome :: outcome
  as_ambiguous :: bool
  as_satisfied :: bool
  as_repair_accepted :: bool
  as_reconstructed :: string

datatype contract_error = ErrInvalidContract

fun target_slot :: "operator \<Rightarrow> required_slot option" where
  "target_slot OperatorBoolean = Some SlotPolarity"
| "target_slot OperatorChoice = Some SlotSelection"
| "target_slot OperatorQuantity = Some SlotQuantity"
| "target_slot OperatorState = Some SlotState"
| "target_slot OperatorCause = Some SlotCause"
| "target_slot OperatorProcedure = Some SlotProcedure"
| "target_slot OperatorDefinition = Some SlotDefinition"
| "target_slot OperatorComparison = Some SlotComparison"
| "target_slot OperatorEvidence = Some SlotEvidence"
| "target_slot OperatorPurpose = Some SlotPurpose"
| "target_slot OperatorOpen = Some SlotPosition"
| "target_slot (OperatorOther _) = None"

section \<open>Validation\<close>

definition bounded_text :: "string \<Rightarrow> nat \<Rightarrow> bool \<Rightarrow> bool" where
  "bounded_text value maximum required =
     (if \<not> utf8_valid value \<or> rune_count value > maximum then False
      else if required then value \<noteq> [] else True)"

definition unit_interval :: "f64 \<Rightarrow> bool" where
  "unit_interval v \<longleftrightarrow> \<not> is_nan v \<and> \<not> is_inf v \<and> fle (Fin 0) v \<and> fle v (Fin 1)"

definition valid_slot :: "required_slot \<Rightarrow> bool" where
  "valid_slot s = (case s of SlotOther _ \<Rightarrow> False | _ \<Rightarrow> True)"

definition valid_position :: "position_class \<Rightarrow> bool" where
  "valid_position p = (case p of PositionOther _ \<Rightarrow> False | _ \<Rightarrow> True)"

definition valid_calibration :: "calibration \<Rightarrow> bool" where
  "valid_calibration c = (case c of CalibrationOther _ \<Rightarrow> False | _ \<Rightarrow> True)"

definition valid_issue :: "issue \<Rightarrow> bool" where
  "valid_issue i = (case i of IssueOther _ \<Rightarrow> False | _ \<Rightarrow> True)"

text \<open>\<open>uniqueSlots\<close> copies the slots; it fails on an unknown slot and on a duplicate.\<close>

fun unique_slots :: "required_slot list \<Rightarrow> required_slot list \<Rightarrow> required_slot list option" where
  "unique_slots acc [] = Some acc"
| "unique_slots acc (s # ss) =
     (if \<not> valid_slot s then None else if s \<in> set acc then None else unique_slots (acc @ [s]) ss)"

text \<open>The loop over the hypotheses: names seen, the confidence before, the sum.\<close>

fun check_hypotheses :: "string list \<Rightarrow> f64 \<Rightarrow> f64 \<Rightarrow> hypothesis list \<Rightarrow> (hypothesis list \<times> f64) option" where
  "check_hypotheses names previous acc [] = Some ([], acc)"
| "check_hypotheses names previous acc (h # hs) =
     (let h = h\<lparr>hy_interpretation := collapse_space (hy_interpretation h)\<rparr>; c = hy_confidence h in
      if \<not> bounded_text (hy_interpretation h) MaxHypothesisRunes True \<or> \<not> unit_interval c
         \<or> fle c (Fin 0) \<or> flt (fadd previous (f64_of (1 / 10 ^ 9))) c then None
      else if hy_interpretation h \<in> set names then None
      else case check_hypotheses (hy_interpretation h # names) c (fadd acc c) hs of
        None \<Rightarrow> None | Some (rest, end_sum) \<Rightarrow> Some (h # rest, end_sum))"

definition coverage_of :: "required_slot list \<Rightarrow> required_slot list \<Rightarrow> f64" where
  "coverage_of filled required = fdiv (f64_of (of_nat (length filled))) (f64_of (of_nat (length required)))"

definition validate_question :: "question_frame \<Rightarrow> question_frame option" where
  "validate_question q =
     (let subject = collapse_space (qn_subject q) in
      case target_slot (qn_operator q) of None \<Rightarrow> None
      | Some target \<Rightarrow>
        if \<not> bounded_text subject MaxSubjectRunes True then None
        else if qn_required q = [] \<or> length (qn_required q) > MaxRequiredSlots then None
        else case unique_slots [] (qn_required q) of None \<Rightarrow> None
        | Some required \<Rightarrow>
          if target \<notin> set required then None
          else if qn_operator q = OperatorQuantity \<and> SlotUnit \<notin> set required then None
          else if qn_hypotheses q = [] \<or> length (qn_hypotheses q) > MaxHypotheses then None
          else case check_hypotheses [] (Fin 2) (Fin 0) (qn_hypotheses q) of None \<Rightarrow> None
          | Some (hs, mass) \<Rightarrow>
            if flt (f64_of (1000001 / 1000000)) mass then None
            else Some (q\<lparr>qn_subject := subject, qn_required := required, qn_hypotheses := hs\<rparr>))"

definition validate_commitment :: "question_frame \<Rightarrow> commitment_front \<Rightarrow> (commitment_front \<times> f64) option" where
  "validate_commitment q c =
     (let first = collapse_space (cf_first c) in
      if \<not> bounded_text first MaxFirstCommitmentRunes (cf_position c \<noteq> PositionAbsent)
        \<or> \<not> valid_position (cf_position c) \<or> \<not> valid_calibration (cf_calibration c)
        \<or> \<not> valid_issue (cf_issue c) \<or> \<not> unit_interval (cf_coverage c) then None
      else if cf_position c = PositionAbsent \<and> first \<noteq> [] then None
      else case unique_slots [] (cf_filled c) of None \<Rightarrow> None
      | Some filled \<Rightarrow>
        if \<not> list_all (\<lambda>s. s \<in> set (qn_required q)) filled then None
        else let coverage = coverage_of filled (qn_required q);
                 fills = (case target_slot (qn_operator q) of Some t \<Rightarrow> t \<in> set filled | None \<Rightarrow> False)
          in if flt CoverageTolerance (fabs (fsub (cf_coverage c) coverage))
               \<or> cf_fills_target c \<noteq> fills
               \<or> cf_position c = PositionAbsent \<and> cf_fills_target c
               \<or> cf_issue c = IssueNone \<and> flt coverage (Fin 1) then None
             else Some (c\<lparr>cf_first := first, cf_filled := filled\<rparr>, coverage))"

definition validate_repair :: "counterfactual_repair \<Rightarrow> counterfactual_repair option" where
  "validate_repair r =
     (let minimal = collapse_space (cr_minimal r); reconstructed = collapse_space (cr_reconstructed r) in
      if \<not> bounded_text minimal MaxMinimalAnswerRunes False
        \<or> \<not> bounded_text reconstructed MaxReconstructedRunes False
        \<or> \<not> unit_interval (cr_confidence r) \<or> \<not> unit_interval (cr_gain r) then None
      else if flt (Fin 0) (cr_gain r) \<and> (minimal = [] \<or> reconstructed = []) then None
      else Some (r\<lparr>cr_minimal := minimal, cr_reconstructed := reconstructed\<rparr>))"

definition validate_and_normalize :: "contract \<Rightarrow> (contract_error, contract \<times> f64) result" where
  "validate_and_normalize c =
     (case validate_question (ct_question c) of None \<Rightarrow> Inl ErrInvalidContract
      | Some q \<Rightarrow> (case validate_commitment q (ct_commitment c) of None \<Rightarrow> Inl ErrInvalidContract
        | Some (cf, coverage) \<Rightarrow> (case validate_repair (ct_repair c) of None \<Rightarrow> Inl ErrInvalidContract
          | Some r \<Rightarrow> Inr (c\<lparr>ct_question := q, ct_commitment := cf, ct_repair := r\<rparr>, coverage))))"

definition validate :: "contract \<Rightarrow> contract_error option" where
  "validate c = (case validate_and_normalize c of Inl e \<Rightarrow> Some e | Inr _ \<Rightarrow> None)"

section \<open>Scores\<close>

definition hypothesis_gap :: "hypothesis list \<Rightarrow> f64" where
  "hypothesis_gap hs = (case hs of a # b # _ \<Rightarrow> fsub (hy_confidence a) (hy_confidence b) | _ \<Rightarrow> Fin 1)"

definition hypothesis_entropy :: "(f64 \<Rightarrow> f64) \<Rightarrow> hypothesis list \<Rightarrow> f64" where
  "hypothesis_entropy lg hs =
     (let ps = List.map hy_confidence hs;
          sum = foldl fadd (Fin 0) ps;
          residual = fsub (Fin 1) sum;
          ps = (if flt (f64_of (1 / 10 ^ 9)) residual then ps @ [residual] else ps)
      in if length ps \<le> 1 then Fin 0
         else fdiv (foldl (\<lambda>e p. if flt (Fin 0) p then fsub e (fmul p (lg p)) else e) (Fin 0) ps)
           (lg (f64_of (of_nat (length ps)))))"

definition round_score :: "f64 \<Rightarrow> f64" where
  "round_score v = fdiv (fround (fmul v (f64_of 1000))) (f64_of 1000)"

section \<open>Comparing texts\<close>

definition nonPropositionalFillerPattern :: re where
  "nonPropositionalFillerPattern = alts [seqs [Lit [0x3048], Opt (Lit [0x3063]), Plus (Lit [0x3068])],
        seqs [Lit [0x3048, 0x3048], Plus (Lit [0x3068])],
        seqs [Lit [0x3048], Plus (Lit [0x30FC]), Plus (Lit [0x3068])],
        seqs [Lit [0x3042], Plus (Lit [0x306E])],
        seqs [Lit [0x3042, 0x306E], Plus (Lit [0x30FC])],
        seqs [Lit [0x3046], Plus (Lit [0x30FC]), Lit [0x3093]],
        seqs [Lit [0x3093], Plus (Lit [0x30FC])],
        seqs [Lit [0x307E], Plus (Lit [0x3042])],
        seqs [Lit [0x305D], Plus (Lit [0x306E])],
        Lit [0x306A, 0x3093, 0x3068, 0x3044, 0x3046, 0x304B],
        seqs [Cls False [(0x75, 0x75), (0x55, 0x55)], Plus (Cls False [(0x6D, 0x6D), (0x4D, 0x4D)])],
        seqs [Cls False [(0x75, 0x75), (0x55, 0x55)], Plus (Cls False [(0x68, 0x68), (0x48, 0x48)])],
        seqs [Cls False [(0x65, 0x65), (0x45, 0x45)], Cls False [(0x72, 0x72), (0x52, 0x52)], Plus (Cls False [(0x6D, 0x6D), (0x4D, 0x4D)])]]"

definition arabicNumberPattern :: re where
  "arabicNumberPattern = seqs [Plus (Cls False [(0x30, 0x39), (0xFF10, 0xFF19)]), Opt (seqs [Cls False [(0x2E, 0x2E), (0xFF0E, 0xFF0E)], Plus (Cls False [(0x30, 0x39), (0xFF10, 0xFF19)])]), Opt (alts [Lit [0x5186],
        Lit [0x4EBA],
        Lit [0x4EF6],
        Lit [0x65E5],
        Lit [0x6642, 0x9593],
        Lit [0x5206],
        Lit [0x79D2],
        Lit [0x5E74],
        Lit [0x6708],
        Lit [0x9031],
        Lit [0x25],
        Lit [0xFF05],
        Lit [0x500B],
        Lit [0x56DE],
        Lit [0x500D],
        Lit [0x47, 0x42],
        Lit [0x4D, 0x42],
        Lit [0x4B, 0x42],
        Lit [0x30AD, 0x30ED],
        Lit [0x30E1, 0x30FC, 0x30C8, 0x30EB],
        Lit [0x63, 0x6D],
        Lit [0x6D, 0x6D]])]"

definition kanjiNumberWithUnitPattern :: re where
  "kanjiNumberWithUnitPattern = seqs [Plus (Cls False [(0x4E00, 0x4E00), (0x4E8C, 0x4E8C), (0x4E09, 0x4E09), (0x56DB, 0x56DB), (0x4E94, 0x4E94), (0x516D, 0x516D), (0x4E03, 0x4E03), (0x516B, 0x516B), (0x4E5D, 0x4E5D), (0x5341, 0x5341), (0x767E, 0x767E), (0x5343, 0x5343), (0x4E07, 0x4E07)]), alts [Lit [0x5186],
        Lit [0x4EBA],
        Lit [0x4EF6],
        Lit [0x65E5],
        Lit [0x6642, 0x9593],
        Lit [0x5206],
        Lit [0x79D2],
        Lit [0x5E74],
        Lit [0x6708],
        Lit [0x9031],
        Lit [0x500B],
        Lit [0x56DE],
        Lit [0x500D]]]"

definition latinAnchorPattern :: re where
  "latinAnchorPattern = seqs [Cls False [(0x41, 0x5A), (0x61, 0x7A)], Star (Cls False [(0x41, 0x5A), (0x61, 0x7A), (0x30, 0x39), (0x2E, 0x2E), (0x5F, 0x5F), (0x2D, 0x2D)])]"

definition labelAnchorPattern :: re where
  "labelAnchorPattern = seqs [Rep (Cls False [(0x41, 0x5A), (0x61, 0x7A), (0xFF21, 0xFF3A), (0xFF41, 0xFF5A), (0x30, 0x39), (0xFF10, 0xFF19), (0x30A1, 0x30F6), (0x30FC, 0x30FC)]) 1 24, alts [Lit [0x6848],
        Lit [0x793E],
        Lit [0x65B9, 0x5F0F],
        Lit [0x30D7, 0x30E9, 0x30F3],
        Lit [0x30E2, 0x30C7, 0x30EB],
        Lit [0x7248]]]"

definition quoted_anchors :: "string \<Rightarrow> string list" where
  "quoted_anchors s = find_groups (Lit [0x300C]) (Rep (Cls True [(0x300D, 0x300D)]) 1 40) (Lit [0x300D]) (chunks s)"

definition condition_clauses :: "string \<Rightarrow> string list" where
  "condition_clauses s = find_groups (Lit []) (Rep (Cls True [(0x9, 0xA), (0xC, 0xD), (0x20, 0x20), (0x3001, 0x3001), (0x3002, 0x3002), (0x2C, 0x2C), (0x2E, 0x2E), (0x21, 0x21), (0x3F, 0x3F), (0xFF01, 0xFF01), (0xFF1F, 0xFF1F)]) 1 30) (alts [Lit [0x306A, 0x3089],
        Lit [0x3067, 0x3042, 0x308C, 0x3070],
        Lit [0x306E, 0x5834, 0x5408],
        Lit [0x306E, 0x3068, 0x304D],
        Lit [0x6642, 0x3060, 0x3051]]) (chunks s)"

definition causal_clauses :: "string \<Rightarrow> string list" where
  "causal_clauses s = find_groups (Lit []) (Rep (Cls True [(0x9, 0xA), (0xC, 0xD), (0x20, 0x20), (0x3001, 0x3001), (0x3002, 0x3002), (0x2C, 0x2C), (0x2E, 0x2E), (0x21, 0x21), (0x3F, 0x3F), (0xFF01, 0xFF01), (0xFF1F, 0xFF1F)]) 1 40) (alts [Lit [0x304B, 0x3089],
        Lit [0x305F, 0x3081],
        Lit [0x306E, 0x3067]]) (chunks s)"

definition clause_separators :: "nat list" where
  "clause_separators = [0x3002, 0x3001, 0xFF0C, 0x2C, 0xFF0E, 0x2E, 0xFF01, 0x21, 0xFF1F, 0x3F, 0xFF1B, 0x3B] @ [0xA, 0xD]"

definition semantic_clauses :: "string \<Rightarrow> string list" where
  "semantic_clauses value =
     List.filter (\<lambda>c. c \<noteq> [])
       (List.map (\<lambda>p. collapse_space (rune_text p))
         (pieces (\<lambda>c. fst c \<notin> set clause_separators) [] (chunks (collapse_space value))))"

definition contains_any :: "string \<Rightarrow> string list \<Rightarrow> bool" where
  "contains_any s ms \<longleftrightarrow> list_ex (contains s) ms"

definition has_causal_claim :: "string \<Rightarrow> bool" where
  "has_causal_claim s = contains_any s ([utf8_encode [0x304B, 0x3089],
      utf8_encode [0x305F, 0x3081],
      utf8_encode [0x306E, 0x3067],
      utf8_encode [0x539F, 0x56E0],
      utf8_encode [0x7406, 0x7531],
      utf8_encode [0x306B, 0x3088, 0x308A],
      utf8_encode [0x306B, 0x3088, 0x3063, 0x3066]])"

definition polarity_class :: "string \<Rightarrow> int" where
  "polarity_class s =
     (let negative = contains_any s ([utf8_encode [0x3044, 0x3044, 0x3048],
      utf8_encode [0x53CD, 0x5BFE],
      utf8_encode [0x3067, 0x304D, 0x306A, 0x3044],
      utf8_encode [0x3067, 0x304D, 0x307E, 0x305B, 0x3093],
      utf8_encode [0x4E0D, 0x53EF, 0x80FD],
      utf8_encode [0x3057, 0x306A, 0x3044],
      utf8_encode [0x3057, 0x307E, 0x305B, 0x3093],
      utf8_encode [0x884C, 0x304B, 0x306A, 0x3044],
      utf8_encode [0x884C, 0x304D, 0x307E, 0x305B, 0x3093],
      utf8_encode [0x53C2, 0x52A0, 0x3057, 0x306A, 0x3044],
      utf8_encode [0x3042, 0x308A, 0x307E, 0x305B, 0x3093],
      utf8_encode [0x4E0D, 0x8981, 0x3067, 0x3059],
      utf8_encode [0x5374, 0x4E0B],
      utf8_encode [0x4E2D, 0x6B62, 0x3057, 0x307E, 0x3059],
      utf8_encode [0x7981, 0x6B62, 0x3057, 0x307E, 0x3059],
      utf8_encode [0x65AD, 0x5B9A, 0x3067, 0x304D, 0x307E, 0x305B, 0x3093]]);
          affirmative = contains_any s ([utf8_encode [0x306F, 0x3044],
      utf8_encode [0x8CDB, 0x6210],
      utf8_encode [0x3067, 0x304D, 0x307E, 0x3059],
      utf8_encode [0x3067, 0x304D, 0x308B],
      utf8_encode [0x63A1, 0x7528, 0x3057, 0x307E, 0x3059],
      utf8_encode [0x63A1, 0x7528, 0x3059, 0x308B],
      utf8_encode [0x5B9F, 0x65BD, 0x3057, 0x307E, 0x3059],
      utf8_encode [0x5B9F, 0x65BD, 0x3059, 0x308B],
      utf8_encode [0x884C, 0x304D, 0x307E, 0x3059],
      utf8_encode [0x53C2, 0x52A0, 0x3057, 0x307E, 0x3059],
      utf8_encode [0x5FC5, 0x8981, 0x3067, 0x3059],
      utf8_encode [0x6709, 0x52B9, 0x3067, 0x3059],
      utf8_encode [0x6539, 0x5584, 0x3057, 0x307E, 0x3059],
      utf8_encode [0x6539, 0x5584, 0x3059, 0x308B]])
      in if negative \<and> affirmative then 2 else if negative then - 1 else if affirmative then 1 else 0)"

definition has_condition :: "string \<Rightarrow> bool" where
  "has_condition s = contains_any s ([utf8_encode [0x306A, 0x3089],
      utf8_encode [0x3067, 0x3042, 0x308C, 0x3070],
      utf8_encode [0x5834, 0x5408],
      utf8_encode [0x3068, 0x304D],
      utf8_encode [0x6642, 0x3060, 0x3051],
      utf8_encode [0x9650, 0x308A],
      utf8_encode [0x305F, 0x3060, 0x3057],
      utf8_encode [0x3092, 0x9664, 0x304D],
      utf8_encode [0x3092, 0x9664, 0x304F],
      utf8_encode [0x524D, 0x63D0],
      utf8_encode [0x6B21, 0x7B2C],
      utf8_encode [0x5E73, 0x65E5],
      utf8_encode [0x4F11, 0x65E5],
      utf8_encode [0x901A, 0x5E38],
      utf8_encode [0x969C, 0x5BB3, 0x6642]])"

definition uncertainty_level :: "string \<Rightarrow> nat" where
  "uncertainty_level s =
     (if contains_any s ([utf8_encode [0x308F, 0x304B, 0x308A, 0x307E, 0x305B, 0x3093],
      utf8_encode [0x5206, 0x304B, 0x308A, 0x307E, 0x305B, 0x3093],
      utf8_encode [0x4E0D, 0x660E, 0x3067, 0x3059],
      utf8_encode [0x5224, 0x65AD, 0x3067, 0x304D, 0x307E, 0x305B, 0x3093],
      utf8_encode [0x7B54, 0x3048, 0x3089, 0x308C, 0x307E, 0x305B, 0x3093],
      utf8_encode [0x78BA, 0x8A8D, 0x3067, 0x304D, 0x307E, 0x305B, 0x3093],
      utf8_encode [0x60C5, 0x5831, 0x304C, 0x3042, 0x308A, 0x307E, 0x305B, 0x3093]]) then 3
      else if contains_any s ([utf8_encode [0x65AD, 0x5B9A, 0x3067, 0x304D, 0x307E, 0x305B, 0x3093],
      utf8_encode [0x78BA, 0x4FE1, 0x304C, 0x3042, 0x308A, 0x307E, 0x305B, 0x3093],
      utf8_encode [0x4E0D, 0x78BA, 0x5B9F],
      utf8_encode [0x5224, 0x65AD, 0x304C, 0x96E3, 0x3057, 0x3044],
      utf8_encode [0x307E, 0x3060, 0x4E0D, 0x660E],
      utf8_encode [0x672A, 0x78BA, 0x8A8D]]) then 2
      else if contains_any s ([utf8_encode [0x304B, 0x3082, 0x3057, 0x308C],
      utf8_encode [0x53EF, 0x80FD, 0x6027],
      utf8_encode [0x3068, 0x601D, 0x3044, 0x307E, 0x3059],
      utf8_encode [0x304A, 0x305D, 0x3089, 0x304F],
      utf8_encode [0x305F, 0x3076, 0x3093],
      utf8_encode [0x63A8, 0x5B9A],
      utf8_encode [0x898B, 0x8FBC, 0x307F],
      utf8_encode [0x7D04],
      utf8_encode [0x304F, 0x3089, 0x3044],
      utf8_encode [0x7A0B, 0x5EA6]]) then 1
      else 0)"

fun calibration_uncertainty :: "calibration \<Rightarrow> nat" where
  "calibration_uncertainty CalibrationConditional = 1"
| "calibration_uncertainty CalibrationUncertain = 2"
| "calibration_uncertainty CalibrationAbstain = 3"
| "calibration_uncertainty _ = 0"

definition normalize_digits :: "string \<Rightarrow> string" where
  "normalize_digits =
     replace_all (zip ([utf8_encode [0xFF10],
      utf8_encode [0xFF11],
      utf8_encode [0xFF12],
      utf8_encode [0xFF13],
      utf8_encode [0xFF14],
      utf8_encode [0xFF15],
      utf8_encode [0xFF16],
      utf8_encode [0xFF17],
      utf8_encode [0xFF18],
      utf8_encode [0xFF19],
      utf8_encode [0xFF0E]])
       [''0'', ''1'', ''2'', ''3'', ''4'', ''5'', ''6'', ''7'', ''8'', ''9'', ''.''])"

definition protected_facts :: "string \<Rightarrow> string set" where
  "protected_facts value =
     (let cs = normalize_digits value;
          found = List.map (\<lambda>p. find_all p (chunks cs))
            [arabicNumberPattern, kanjiNumberWithUnitPattern, latinAnchorPattern, labelAnchorPattern]
      in set (concat found) \<union> set (List.map (append ''quoted:'') (quoted_anchors cs)))"

definition same_string_set :: "string set \<Rightarrow> string set \<Rightarrow> bool" where
  "same_string_set left right \<longleftrightarrow> card left = card right \<and> left \<subseteq> right"

definition starts_with_normalized :: "string \<Rightarrow> string \<Rightarrow> bool" where
  "starts_with_normalized container value =
     (let container = collapse_space container; value = collapse_space value
      in value \<noteq> [] \<and> prefix value container)"

definition contains_normalized :: "string \<Rightarrow> string \<Rightarrow> bool" where
  "contains_normalized container value =
     (let container = collapse_space container; value = collapse_space value
      in value \<noteq> [] \<and> contains container value)"

definition is_filler :: "string \<Rightarrow> bool" where
  "is_filler clause \<longleftrightarrow> full_match nonPropositionalFillerPattern clause"

text \<open>The clauses of the value, compared with those that follow the fillers: all but the last must be
  equal, the last a prefix.\<close>

fun clauses_lead :: "string list \<Rightarrow> string list \<Rightarrow> bool" where
  "clauses_lead [] _ = False"
| "clauses_lead [v] (c # _) = prefix v c"
| "clauses_lead (v # vs) (c # cs) = (if c \<noteq> v then False else clauses_lead vs cs)"
| "clauses_lead _ [] = False"

definition starts_with_commitment :: "string \<Rightarrow> string \<Rightarrow> bool" where
  "starts_with_commitment container value =
     (if starts_with_normalized container value then True
      else let cs = semantic_clauses container; vs = semantic_clauses value in
        if cs = [] \<or> vs = [] then False
        else let rest = dropWhile is_filler cs in
          if length rest = length cs \<or> length rest < length vs then False
          else clauses_lead vs rest)"

text \<open>The position of the only occurrence of \<open>cs\<close> in \<open>os\<close>.\<close>

definition commitment_start :: "string list \<Rightarrow> string list \<Rightarrow> nat option" where
  "commitment_start os cs =
     (case List.filter (\<lambda>s. List.take (length cs) (List.drop s os) = cs) [0..<length os - length cs + 1] of
        [s] \<Rightarrow> Some s | _ \<Rightarrow> None)"

definition stable_front_move :: "string \<Rightarrow> string \<Rightarrow> string \<Rightarrow> bool" where
  "stable_front_move original reconstructed commitment =
     (let os = semantic_clauses original; rs = semantic_clauses reconstructed; cs = semantic_clauses commitment in
      if os = [] \<or> cs = [] \<or> length cs > length os \<or> length os \<noteq> length rs then False
      else case commitment_start os cs of None \<Rightarrow> False
      | Some s \<Rightarrow> List.take (length cs) rs = cs
          \<and> List.take s os @ List.drop (s + length cs) os = List.drop (length cs) rs)"

definition preserves_meaning :: "string \<Rightarrow> string \<Rightarrow> string \<Rightarrow> calibration \<Rightarrow> operator \<Rightarrow> bool" where
  "preserves_meaning original reconstructed first calibration op =
     (let original = collapse_space original; reconstructed = collapse_space reconstructed in
      if reconstructed = [] then original = []
      else if \<not> stable_front_move original reconstructed first then False
      else if has_condition original \<noteq> has_condition reconstructed then False
      else if \<not> same_string_set (set (List.map collapse_space (condition_clauses original)))
          (set (List.map collapse_space (condition_clauses reconstructed))) then False
      else if has_causal_claim original \<noteq> has_causal_claim reconstructed then False
      else if \<not> same_string_set (set (List.map collapse_space (causal_clauses original)))
          (set (List.map collapse_space (causal_clauses reconstructed))) then False
      else if op = OperatorBoolean \<and> polarity_class original \<noteq> polarity_class reconstructed then False
      else if \<not> same_string_set (protected_facts original) (protected_facts reconstructed) then False
      else let u = uncertainty_level original;
               u = (if u = 0 then calibration_uncertainty calibration else u)
        in u = uncertainty_level reconstructed)"

section \<open>Evaluation\<close>

definition repairable_issue :: "issue \<Rightarrow> bool" where
  "repairable_issue i \<longleftrightarrow> i \<in> {IssueReasonOnly, IssueBackgroundFirst, IssueConditionSeparated,
     IssueAmbiguousCommitment, IssueMissingRequiredSlot, IssueInsufficientEvidence}"

definition blocking_issue :: "issue \<Rightarrow> bool" where
  "blocking_issue i \<longleftrightarrow> i \<in> {IssueQuestionRestatement, IssueAnswerTypeMismatch, IssueUnsupportedCertainty,
     IssueContradiction, IssueMeaningChanged, IssueNotEvaluable}"

text \<open>The intermediate values of \<open>Evaluate\<close>, each under the name it has there.\<close>

definition is_ambiguous :: "(f64 \<Rightarrow> f64) \<Rightarrow> question_frame \<Rightarrow> bool" where
  "is_ambiguous lg q \<longleftrightarrow>
     length (qn_hypotheses q) > 1 \<and> fle (hypothesis_gap (qn_hypotheses q)) HypothesisGapThreshold
     \<or> flt (hy_confidence (hd (qn_hypotheses q))) LowTopHypothesisThreshold
     \<or> fle HighEntropyThreshold (hypothesis_entropy lg (qn_hypotheses q))"

definition target_filled :: "question_frame \<Rightarrow> commitment_front \<Rightarrow> bool" where
  "target_filled q cf = (case target_slot (qn_operator q) of Some t \<Rightarrow> t \<in> set (cf_filled cf) | None \<Rightarrow> False)"

definition commitment_anchored :: "commitment_front \<Rightarrow> string \<Rightarrow> bool" where
  "commitment_anchored cf original \<longleftrightarrow>
     cf_position cf = PositionAbsent \<or> contains_normalized original (cf_first cf)"

definition commitment_fronted :: "commitment_front \<Rightarrow> string \<Rightarrow> bool" where
  "commitment_fronted cf original \<longleftrightarrow>
     cf_position cf = PositionFirst \<and> starts_with_commitment original (cf_first cf)"

definition target_satisfied :: "question_frame \<Rightarrow> commitment_front \<Rightarrow> f64 \<Rightarrow> string \<Rightarrow> bool" where
  "target_satisfied q cf coverage original \<longleftrightarrow>
     target_filled q cf \<and> cf_fills_target cf \<and> feq coverage (Fin 1)
     \<and> commitment_anchored cf original \<and> commitment_fronted cf original \<and> cf_issue cf = IssueNone"

definition meaning_preserved :: "question_frame \<Rightarrow> commitment_front \<Rightarrow> counterfactual_repair \<Rightarrow> string \<Rightarrow> bool" where
  "meaning_preserved q cf r original =
     (let p = preserves_meaning original (cr_reconstructed r) (cf_first cf) (cf_calibration cf) (qn_operator q);
          p = (if feq (cr_gain r) (Fin 0) \<and> collapse_space (cr_reconstructed r) \<noteq> collapse_space original then False else p);
          p = (if cr_minimal r \<noteq> [] \<and> \<not> contains (collapse_space (cr_reconstructed r)) (collapse_space (cr_minimal r))
               then False else p)
      in if \<not> target_filled q cf \<and> flt (cr_confidence r) InferredCommitmentThreshold then False else p)"

definition repair_fronted :: "commitment_front \<Rightarrow> counterfactual_repair \<Rightarrow> bool" where
  "repair_fronted cf r =
     (let front = (if cf_position cf = PositionLater \<or> cf_issue cf = IssueBackgroundFirst then cf_first cf
        else cr_minimal r)
      in feq (cr_gain r) (Fin 0) \<or> starts_with_normalized (cr_reconstructed r) front)"

definition repair_accepted :: "question_frame \<Rightarrow> commitment_front \<Rightarrow> counterfactual_repair \<Rightarrow> f64 \<Rightarrow> string \<Rightarrow> bool" where
  "repair_accepted q cf r coverage original \<longleftrightarrow>
     feq coverage (Fin 1) \<and> \<not> blocking_issue (cf_issue cf) \<and> meaning_preserved q cf r original
     \<and> repair_fronted cf r \<and> fle MeaningPreservationThreshold (cr_confidence r)"

definition high_gain_repair :: "commitment_front \<Rightarrow> counterfactual_repair \<Rightarrow> bool \<Rightarrow> bool" where
  "high_gain_repair cf r satisfied \<longleftrightarrow>
     (\<not> satisfied \<or> cf_position cf = PositionLater \<or> repairable_issue (cf_issue cf))
     \<and> fle RepairGainThreshold (cr_gain r)"

definition decide_outcome :: "commitment_front \<Rightarrow> f64 \<Rightarrow> bool \<Rightarrow> bool \<Rightarrow> bool \<Rightarrow> bool \<Rightarrow> bool \<Rightarrow> bool \<Rightarrow> outcome" where
  "decide_outcome cf coverage ambiguous anchored in_front satisfied high_gain accepted =
     (if ambiguous then OutcomeClarify
      else if \<not> anchored then OutcomeReject
      else if cf_position cf = PositionFirst \<and> \<not> in_front then OutcomeReject
      else if blocking_issue (cf_issue cf) then OutcomeReject
      else if \<not> ambiguous \<and> feq coverage (Fin 1) \<and> high_gain \<and> accepted then OutcomeRestructure
      else if high_gain \<and> \<not> accepted then OutcomeReject
      else if \<not> satisfied \<and> (flt coverage (f64_of (20 / 100)) \<or> cf_issue cf = IssueAnswerTypeMismatch
        \<or> cf_issue cf = IssueQuestionRestatement \<or> cf_issue cf = IssueNotEvaluable) then OutcomeReject
      else if \<not> satisfied then OutcomeClarify
      else OutcomeKeep)"

definition evaluate :: "(f64 \<Rightarrow> f64) \<Rightarrow> contract \<Rightarrow> string \<Rightarrow> (contract_error, assessment) result" where
  "evaluate lg c original =
     (case validate_and_normalize c of Inl e \<Rightarrow> Inl e
      | Inr (n, coverage) \<Rightarrow>
        let q = ct_question n; cf = ct_commitment n; r = ct_repair n;
            ambiguous = is_ambiguous lg q;
            anchored = commitment_anchored cf original;
            in_front = commitment_fronted cf original;
            satisfied = target_satisfied q cf coverage original;
            accepted = repair_accepted q cf r coverage original
        in Inr \<lparr>as_metrics = \<lparr>me_gap = round_score (hypothesis_gap (qn_hypotheses q)),
                  me_entropy = round_score (hypothesis_entropy lg (qn_hypotheses q)),
                  me_coverage = round_score coverage, me_position = cf_position cf,
                  me_meaning = round_score (if accepted then cr_confidence r else Fin 0)\<rparr>,
                as_outcome = decide_outcome cf coverage ambiguous anchored in_front satisfied
                  (high_gain_repair cf r satisfied) accepted,
                as_ambiguous = ambiguous, as_satisfied = satisfied,
                as_repair_accepted = accepted, as_reconstructed = cr_reconstructed r\<rparr>)"

section \<open>What acceptance means\<close>

lemma same_string_set_iff: "finite right \<Longrightarrow> same_string_set left right \<longleftrightarrow> left = right"
  unfolding same_string_set_def using card_subset_eq [of right left] by auto

lemma finite_protected_facts [simp]: "finite (protected_facts s)"
  by (simp add: protected_facts_def Let_def)

text \<open>The places where \<open>cs\<close> stands in \<open>os\<close>.\<close>

definition occurrences :: "string list \<Rightarrow> string list \<Rightarrow> nat set" where
  "occurrences cs os = {s. s + length cs \<le> length os \<and> List.take (length cs) (List.drop s os) = cs}"

lemma commitment_start_iff:
  assumes "length cs \<le> length os"
  shows "commitment_start os cs = Some s \<longleftrightarrow> occurrences cs os = {s}"
proof -
  let ?xs = "List.filter (\<lambda>s. List.take (length cs) (List.drop s os) = cs) [0..<length os - length cs + 1]"
  have le: "s < length os - length cs + 1 \<longleftrightarrow> s + length cs \<le> length os" for s using assms by linarith
  have set: "set ?xs = occurrences cs os"
    unfolding occurrences_def set_filter set_upt atLeastLessThan_iff le by simp
  have single: "distinct xs \<Longrightarrow> set xs = {s} \<longleftrightarrow> xs = [s]" for xs :: "nat list"
  proof
    assume "distinct xs" "set xs = {s}"
    then have "length xs = 1" using distinct_card [of xs] by simp
    then obtain x where "xs = [x]" by (cases xs) auto
    then show "xs = [s]" using \<open>set xs = {s}\<close> by simp
  qed simp
  have "commitment_start os cs = Some s \<longleftrightarrow> ?xs = [s]"
    unfolding commitment_start_def by (auto split: list.splits)
  also have "\<dots> \<longleftrightarrow> set ?xs = {s}" using single [of ?xs] by simp
  finally show ?thesis unfolding set .
qed

lemma stable_front_move_iff:
  "stable_front_move original reconstructed commitment \<longleftrightarrow>
     (\<exists>before after. semantic_clauses commitment \<noteq> []
        \<and> semantic_clauses original = before @ semantic_clauses commitment @ after
        \<and> semantic_clauses reconstructed = semantic_clauses commitment @ before @ after
        \<and> occurrences (semantic_clauses commitment) (semantic_clauses original) = {length before})"
  (is "?move \<longleftrightarrow> ?spec")
proof -
  define os cs rs where d: "os = semantic_clauses original" "cs = semantic_clauses commitment"
    "rs = semantic_clauses reconstructed"
  show ?thesis
  proof
    assume m: ?move
    then have cs: "cs \<noteq> []" "length cs \<le> length os" "length os = length rs"
      by (auto simp: stable_front_move_def Let_def d split: if_splits)
    from m obtain s where s: "commitment_start os cs = Some s" "List.take (length cs) rs = cs"
      "List.take s os @ List.drop (s + length cs) os = List.drop (length cs) rs"
      by (auto simp: stable_front_move_def Let_def d split: if_splits option.splits)
    then have occ: "occurrences cs os = {s}" using commitment_start_iff [OF cs(2)] by simp
    then have at: "s + length cs \<le> length os" "List.take (length cs) (List.drop s os) = cs"
      by (auto simp: occurrences_def)
    have "os = List.take s os @ cs @ List.drop (s + length cs) os"
      using at(2) by (metis add.commute append_take_drop_id drop_drop)
    moreover have "rs = cs @ List.take s os @ List.drop (s + length cs) os"
      using s(2,3) by (metis append_take_drop_id)
    moreover have "length (List.take s os) = s" using at(1) by simp
    ultimately show ?spec using cs(1) occ unfolding d by metis
  next
    assume ?spec
    then obtain before after where e: "cs \<noteq> []" "os = before @ cs @ after" "rs = cs @ before @ after"
      "occurrences cs os = {length before}" unfolding d by blast
    then have "commitment_start os cs = Some (length before)" by (simp add: commitment_start_iff)
    then show ?move using e by (auto simp: stable_front_move_def Let_def d [symmetric])
  qed
qed

lemma unique_slots_sound:
  "unique_slots acc ss = Some r \<Longrightarrow> distinct acc \<Longrightarrow> r = acc @ ss \<and> distinct r \<and> list_all valid_slot ss"
  by (induction acc ss rule: unique_slots.induct) (auto split: if_splits)

lemma validate_question_sound:
  assumes "validate_question q = Some q'"
  shows "qn_required q' = qn_required q" "distinct (qn_required q')" "qn_required q' \<noteq> []"
    "length (qn_required q') \<le> MaxRequiredSlots" "qn_operator q' = qn_operator q" "qn_hypotheses q' \<noteq> []"
    "\<exists>t. target_slot (qn_operator q') = Some t \<and> t \<in> set (qn_required q')"
proof -
  from assms obtain t req hs mass where f: "target_slot (qn_operator q) = Some t"
    "qn_required q \<noteq> []" "length (qn_required q) \<le> MaxRequiredSlots" "unique_slots [] (qn_required q) = Some req"
    "t \<in> set req" "qn_hypotheses q \<noteq> []" "check_hypotheses [] (Fin 2) (Fin 0) (qn_hypotheses q) = Some (hs, mass)"
    "q' = q\<lparr>qn_subject := collapse_space (qn_subject q), qn_required := req, qn_hypotheses := hs\<rparr>"
    by (auto simp: validate_question_def Let_def split: option.splits if_splits)
  have r: "req = qn_required q" "distinct req" using unique_slots_sound [OF f(4)] by auto
  have "hs \<noteq> []" using f(6,7) by (cases "qn_hypotheses q") (auto simp: Let_def split: option.splits if_splits)
  then show "qn_required q' = qn_required q" "distinct (qn_required q')" "qn_required q' \<noteq> []"
    "length (qn_required q') \<le> MaxRequiredSlots" "qn_operator q' = qn_operator q" "qn_hypotheses q' \<noteq> []"
    "\<exists>t. target_slot (qn_operator q') = Some t \<and> t \<in> set (qn_required q')"
    using f r by auto
qed

lemma validate_commitment_sound:
  assumes "validate_commitment q c = Some (c', coverage)"
  shows "coverage = coverage_of (cf_filled c') (qn_required q)" "distinct (cf_filled c')"
    "set (cf_filled c') \<subseteq> set (qn_required q)"
proof -
  from assms obtain filled where f: "unique_slots [] (cf_filled c) = Some filled"
    "list_all (\<lambda>s. s \<in> set (qn_required q)) filled" "coverage = coverage_of filled (qn_required q)"
    "cf_filled c' = filled"
    by (auto simp: validate_commitment_def Let_def split: option.splits if_splits)
  then show "coverage = coverage_of (cf_filled c') (qn_required q)" "distinct (cf_filled c')"
    "set (cf_filled c') \<subseteq> set (qn_required q)"
    using unique_slots_sound [OF f(1)] by (auto simp: list_all_iff)
qed

text \<open>The coverage is exactly 1 only when every required slot is filled.\<close>

lemma full_coverage:
  assumes "distinct filled" "distinct required" "set filled \<subseteq> set required" "required \<noteq> []"
    "length required \<le> MaxRequiredSlots"
  shows "feq (coverage_of filled required) (Fin 1) \<longleftrightarrow> set filled = set required"
proof -
  let ?m = "length filled" and ?n = "length required"
  have card: "card (set filled) = ?m" "card (set required) = ?n" using assms by (simp_all add: distinct_card)
  then have le: "?m \<le> ?n" using card_mono [OF _ assms(3)] by simp
  have nat: "f64_of (of_nat k) = Fin (of_nat k)" if "k \<le> 5" for k
    using that round64_of_int [of "int k"] by (simp add: f64_of_Fin)
  have n: "?n \<le> 5" "0 < ?n" using assms(4,5) by (simp_all add: MaxRequiredSlots_def)
  have c: "coverage_of filled required = Fin (round64 (of_nat ?m / of_nat ?n))"
    unfolding coverage_of_def nat [OF order_trans [OF le n(1)]] nat [OF n(1)]
    using le n by (intro fdiv_unit) simp_all
  show ?thesis
  proof (cases "?m < ?n")
    case True
    then have "set filled \<noteq> set required" using card by auto
    then show ?thesis using c ratio_below_1 [OF True] n by (simp add: feq_def)
  next
    case False
    then have "?m = ?n" using le by simp
    then show ?thesis using c card card_subset_eq [OF _ assms(3)] n by (simp add: feq_def)
  qed
qed

lemma validate_sound:
  assumes "validate_and_normalize c = Inr (n, coverage)"
  shows "feq coverage (Fin 1) \<longleftrightarrow> set (cf_filled (ct_commitment n)) = set (qn_required (ct_question n))"
    and "\<exists>t. target_slot (qn_operator (ct_question n)) = Some t \<and> t \<in> set (qn_required (ct_question n))"
proof -
  from assms have v: "validate_question (ct_question c) = Some (ct_question n)"
    "validate_commitment (ct_question n) (ct_commitment c) = Some (ct_commitment n, coverage)"
    "validate_repair (ct_repair c) = Some (ct_repair n)"
    by (auto simp: validate_and_normalize_def split: option.splits)
  show "feq coverage (Fin 1) \<longleftrightarrow> set (cf_filled (ct_commitment n)) = set (qn_required (ct_question n))"
    using validate_commitment_sound [OF v(2)] validate_question_sound [OF v(1)]
    by (simp add: full_coverage)
  show "\<exists>t. target_slot (qn_operator (ct_question n)) = Some t \<and> t \<in> set (qn_required (ct_question n))"
    by (rule validate_question_sound(7) [OF v(1)])
qed

text \<open>What the last two outcomes rest on.\<close>

lemma evaluate_accepts:
  assumes "evaluate lg c original = Inr a"
  obtains n coverage where "validate_and_normalize c = Inr (n, coverage)"
    "as_ambiguous a = is_ambiguous lg (ct_question n)"
    "as_satisfied a = target_satisfied (ct_question n) (ct_commitment n) coverage original"
    "as_repair_accepted a = repair_accepted (ct_question n) (ct_commitment n) (ct_repair n) coverage original"
    "as_outcome a = decide_outcome (ct_commitment n) coverage (as_ambiguous a)
       (commitment_anchored (ct_commitment n) original) (commitment_fronted (ct_commitment n) original)
       (as_satisfied a) (high_gain_repair (ct_commitment n) (ct_repair n) (as_satisfied a)) (as_repair_accepted a)"
    "as_reconstructed a = cr_reconstructed (ct_repair n)"
    "me_coverage (as_metrics a) = round_score coverage" "me_position (as_metrics a) = cf_position (ct_commitment n)"
  using assms by (auto simp: evaluate_def Let_def split: sum.splits)

lemma outcome_keep:
  "decide_outcome cf coverage amb anc fr sat high acc = OutcomeKeep \<Longrightarrow> \<not> amb \<and> sat"
  by (auto simp: decide_outcome_def split: if_splits)

lemma outcome_restructure:
  "decide_outcome cf coverage amb anc fr sat high acc = OutcomeRestructure \<Longrightarrow> \<not> amb \<and> high \<and> acc"
  by (auto simp: decide_outcome_def split: if_splits)

section \<open>Properties of the audit\<close>

text \<open>
  C31. An answer is kept as it is only when it stands on the person's own words: the contract is valid
  and unambiguous, every required slot is filled, no issue was found, and the quoted commitment opens
  the answer itself, after nothing but fillers.
\<close>

theorem kept_answers_open_with_commitment:
  "{(c, original). \<exists>a. evaluate lg c original = Inr a \<and> as_outcome a = OutcomeKeep} \<subseteq>
   {(c, original). \<exists>n coverage a. validate_and_normalize c = Inr (n, coverage)
      \<and> evaluate lg c original = Inr a \<and> as_satisfied a \<and> \<not> as_ambiguous a
      \<and> set (cf_filled (ct_commitment n)) = set (qn_required (ct_question n))
      \<and> cf_issue (ct_commitment n) = IssueNone
      \<and> cf_position (ct_commitment n) = PositionFirst
      \<and> starts_with_commitment original (cf_first (ct_commitment n))}"
proof (intro subsetI, clarsimp)
  fix c original a
  assume e: "evaluate lg c original = Inr a" "as_outcome a = OutcomeKeep"
  obtain n coverage where n: "validate_and_normalize c = Inr (n, coverage)"
    and s: "as_satisfied a = target_satisfied (ct_question n) (ct_commitment n) coverage original"
    and o: "as_satisfied a" "\<not> as_ambiguous a"
    using e(1) by (rule evaluate_accepts) (use e(2) outcome_keep in metis)
  then show "\<exists>n. (\<exists>coverage. validate_and_normalize c = Inr (n, coverage)) \<and> as_satisfied a
      \<and> \<not> as_ambiguous a \<and> set (cf_filled (ct_commitment n)) = set (qn_required (ct_question n))
      \<and> cf_issue (ct_commitment n) = IssueNone \<and> cf_position (ct_commitment n) = PositionFirst
      \<and> starts_with_commitment original (cf_first (ct_commitment n))"
    using validate_sound(1) [OF n] by (intro exI [of _ n]) (auto simp: target_satisfied_def commitment_fronted_def)
qed

text \<open>
  C17. A restructured answer is the person's own with the commitment moved to the front: the clauses of
  the commitment occur exactly once in the original, in one block; the reconstruction has that block
  first and the other clauses after it in their order; the protected facts (numbers, names, quotes),
  the conditions and the causal claims are the same texts; and the repair was neither ambiguous nor
  of too little gain or confidence.
\<close>

theorem restructured_answer_is_front_move:
  "{(c, original). \<exists>a. evaluate lg c original = Inr a \<and> as_outcome a = OutcomeRestructure} \<subseteq>
   {(c, original). \<exists>n coverage a before after. validate_and_normalize c = Inr (n, coverage)
      \<and> evaluate lg c original = Inr a \<and> \<not> as_ambiguous a
      \<and> set (cf_filled (ct_commitment n)) = set (qn_required (ct_question n))
      \<and> (let old = collapse_space original; new = collapse_space (as_reconstructed a);
             commitment = semantic_clauses (cf_first (ct_commitment n)) in
          if new = [] then old = []
          else commitment \<noteq> [] \<and> semantic_clauses old = before @ commitment @ after
          \<and> semantic_clauses new = commitment @ before @ after
          \<and> occurrences commitment (semantic_clauses old) = {length before}
          \<and> protected_facts new = protected_facts old
          \<and> set (List.map collapse_space (condition_clauses new)) = set (List.map collapse_space (condition_clauses old))
          \<and> set (List.map collapse_space (causal_clauses new)) = set (List.map collapse_space (causal_clauses old)))
      \<and> fle RepairGainThreshold (cr_gain (ct_repair n))
      \<and> fle MeaningPreservationThreshold (cr_confidence (ct_repair n))}"
proof (rule subsetI, clarify)
  fix c original a
  assume e: "evaluate lg c original = Inr a" "as_outcome a = OutcomeRestructure"
  obtain n coverage where n: "validate_and_normalize c = Inr (n, coverage)"
    and rec: "as_reconstructed a = cr_reconstructed (ct_repair n)"
    and acc: "repair_accepted (ct_question n) (ct_commitment n) (ct_repair n) coverage original"
    and high: "high_gain_repair (ct_commitment n) (ct_repair n) (as_satisfied a)" and amb: "\<not> as_ambiguous a"
    using e(1) by (rule evaluate_accepts) (use e(2) outcome_restructure in metis)
  let ?old = "collapse_space original" and ?new = "collapse_space (as_reconstructed a)"
    and ?c = "semantic_clauses (cf_first (ct_commitment n))"
  from acc have pm: "preserves_meaning original (as_reconstructed a) (cf_first (ct_commitment n))
       (cf_calibration (ct_commitment n)) (qn_operator (ct_question n))"
    unfolding repair_accepted_def meaning_preserved_def rec by (auto simp: Let_def split: if_splits)
  have "\<exists>before after. (if ?new = [] then ?old = []
          else ?c \<noteq> [] \<and> semantic_clauses ?old = before @ ?c @ after
          \<and> semantic_clauses ?new = ?c @ before @ after
          \<and> occurrences ?c (semantic_clauses ?old) = {length before}
          \<and> protected_facts ?new = protected_facts ?old
          \<and> set (List.map collapse_space (condition_clauses ?new)) = set (List.map collapse_space (condition_clauses ?old))
          \<and> set (List.map collapse_space (causal_clauses ?new)) = set (List.map collapse_space (causal_clauses ?old)))"
  proof (cases "?new = []")
    case True
    then show ?thesis using pm by (simp add: preserves_meaning_def)
  next
    case False
    then have "stable_front_move ?old ?new (cf_first (ct_commitment n))"
      "same_string_set (protected_facts ?old) (protected_facts ?new)"
      "same_string_set (set (List.map collapse_space (condition_clauses ?old)))
         (set (List.map collapse_space (condition_clauses ?new)))"
      "same_string_set (set (List.map collapse_space (causal_clauses ?old)))
         (set (List.map collapse_space (causal_clauses ?new)))"
      using pm unfolding preserves_meaning_def Let_def by (simp_all split: if_splits)
    then show ?thesis using False by (simp add: stable_front_move_iff same_string_set_iff)
  qed
  moreover have "set (cf_filled (ct_commitment n)) = set (qn_required (ct_question n))"
    using validate_sound(1) [OF n] acc by (simp add: repair_accepted_def)
  moreover have "fle RepairGainThreshold (cr_gain (ct_repair n))"
    "fle MeaningPreservationThreshold (cr_confidence (ct_repair n))"
    using high acc by (simp_all add: high_gain_repair_def repair_accepted_def)
  ultimately show "\<exists>n coverage a before after. validate_and_normalize c = Inr (n, coverage)
      \<and> evaluate lg c original = Inr a \<and> \<not> as_ambiguous a
      \<and> set (cf_filled (ct_commitment n)) = set (qn_required (ct_question n))
      \<and> (let old = collapse_space original; new = collapse_space (as_reconstructed a);
             commitment = semantic_clauses (cf_first (ct_commitment n)) in
          if new = [] then old = []
          else commitment \<noteq> [] \<and> semantic_clauses old = before @ commitment @ after
          \<and> semantic_clauses new = commitment @ before @ after
          \<and> occurrences commitment (semantic_clauses old) = {length before}
          \<and> protected_facts new = protected_facts old
          \<and> set (List.map collapse_space (condition_clauses new)) = set (List.map collapse_space (condition_clauses old))
          \<and> set (List.map collapse_space (causal_clauses new)) = set (List.map collapse_space (causal_clauses old)))
      \<and> fle RepairGainThreshold (cr_gain (ct_repair n))
      \<and> fle MeaningPreservationThreshold (cr_confidence (ct_repair n))"
    unfolding Let_def using n e(1) amb by blast
qed

end
