(* ===== verification/Qarc.thy ===== *)
theory Qarc
  imports QuestionGate AnswerBelief
begin

text \<open>
  \<open>qarc.go\<close> of \<open>respondent\<close>: the question-bound retrieval policy. From a description of the
  interaction alone it chooses to wait, to speak one of the fixed cues, or to let go, by minimax regret
  over an interval of beliefs about eight retrieval states, behind guards on the scope and the floor.
  Arithmetic is that of \<open>Float64\<close>; the arrays over \<open>RetrievalState\<close> are lists of length 8.
\<close>

section \<open>The alphabet\<close>

definition QARCPolicyVersion :: nat where "QARCPolicyVersion = 1"
definition retrieval_state_count :: nat where "retrieval_state_count = 8"

abbreviation (input) RetrievalTargetLost :: nat where "RetrievalTargetLost \<equiv> 0"
abbreviation (input) RetrievalSearchBlocked :: nat where "RetrievalSearchBlocked \<equiv> 1"
abbreviation (input) RetrievalFormulation :: nat where "RetrievalFormulation \<equiv> 2"
abbreviation (input) RetrievalInitiation :: nat where "RetrievalInitiation \<equiv> 3"
abbreviation (input) RetrievalSelfMonitoring :: nat where "RetrievalSelfMonitoring \<equiv> 4"
abbreviation (input) RetrievalReady :: nat where "RetrievalReady \<equiv> 5"
abbreviation (input) RetrievalKnowledgeUnknown :: nat where "RetrievalKnowledgeUnknown \<equiv> 6"
abbreviation (input) RetrievalQuestionUnclear :: nat where "RetrievalQuestionUnclear \<equiv> 7"

datatype qarc_action = QARCWait | QARCOperatorCue | QARCNeutralCue | QARCRelease

datatype qarc_operator =
  QARCOperatorInvalid | QARCOperatorBoolean | QARCOperatorChoice | QARCOperatorQuantity
  | QARCOperatorState | QARCOperatorCause | QARCOperatorPurpose | QARCOperatorProcedure
  | QARCOperatorDefinition | QARCOperatorComparison | QARCOperatorEvidence | QARCOperatorOpen
  | QARCOperatorOther nat

datatype qarc_template =
  QARCTemplateNone | QARCTemplateBoolean | QARCTemplateChoice | QARCTemplateQuantity
  | QARCTemplateState | QARCTemplateCause | QARCTemplatePurpose | QARCTemplateProcedure
  | QARCTemplateDefinition | QARCTemplateComparison | QARCTemplateEvidence | QARCTemplateOpen
  | QARCTemplateNeutral | QARCTemplateRelease

datatype qarc_slot =
  QARCSlotNone | QARCSlotPolarity | QARCSlotSelection | QARCSlotQuantity | QARCSlotState
  | QARCSlotCause | QARCSlotPurpose | QARCSlotProcedure | QARCSlotDefinition | QARCSlotComparison
  | QARCSlotEvidence | QARCSlotPosition

datatype qarc_reason =
  QARCReasonInvalidObservation | QARCReasonUnboundScope | QARCReasonHesitationSpace
  | QARCReasonFloorNotClear | QARCReasonAttemptBudgetExhausted | QARCReasonMinimaxRegret
  | QARCReasonOperatorUncertain

fun project_qarc_operator :: "operator \<Rightarrow> qarc_operator option" where
  "project_qarc_operator OperatorBoolean = Some QARCOperatorBoolean"
| "project_qarc_operator OperatorChoice = Some QARCOperatorChoice"
| "project_qarc_operator OperatorQuantity = Some QARCOperatorQuantity"
| "project_qarc_operator OperatorState = Some QARCOperatorState"
| "project_qarc_operator OperatorCause = Some QARCOperatorCause"
| "project_qarc_operator OperatorPurpose = Some QARCOperatorPurpose"
| "project_qarc_operator OperatorProcedure = Some QARCOperatorProcedure"
| "project_qarc_operator OperatorDefinition = Some QARCOperatorDefinition"
| "project_qarc_operator OperatorComparison = Some QARCOperatorComparison"
| "project_qarc_operator OperatorEvidence = Some QARCOperatorEvidence"
| "project_qarc_operator OperatorOpen = Some QARCOperatorOpen"
| "project_qarc_operator (OperatorOther _) = None"

fun respondent_operator :: "qarc_operator \<Rightarrow> operator option" where
  "respondent_operator QARCOperatorBoolean = Some OperatorBoolean"
| "respondent_operator QARCOperatorChoice = Some OperatorChoice"
| "respondent_operator QARCOperatorQuantity = Some OperatorQuantity"
| "respondent_operator QARCOperatorState = Some OperatorState"
| "respondent_operator QARCOperatorCause = Some OperatorCause"
| "respondent_operator QARCOperatorPurpose = Some OperatorPurpose"
| "respondent_operator QARCOperatorProcedure = Some OperatorProcedure"
| "respondent_operator QARCOperatorDefinition = Some OperatorDefinition"
| "respondent_operator QARCOperatorComparison = Some OperatorComparison"
| "respondent_operator QARCOperatorEvidence = Some OperatorEvidence"
| "respondent_operator QARCOperatorOpen = Some OperatorOpen"
| "respondent_operator _ = None"

fun qarc_operator_template :: "qarc_operator \<Rightarrow> (qarc_template \<times> qarc_slot) option" where
  "qarc_operator_template QARCOperatorBoolean = Some (QARCTemplateBoolean, QARCSlotPolarity)"
| "qarc_operator_template QARCOperatorChoice = Some (QARCTemplateChoice, QARCSlotSelection)"
| "qarc_operator_template QARCOperatorQuantity = Some (QARCTemplateQuantity, QARCSlotQuantity)"
| "qarc_operator_template QARCOperatorState = Some (QARCTemplateState, QARCSlotState)"
| "qarc_operator_template QARCOperatorCause = Some (QARCTemplateCause, QARCSlotCause)"
| "qarc_operator_template QARCOperatorPurpose = Some (QARCTemplatePurpose, QARCSlotPurpose)"
| "qarc_operator_template QARCOperatorProcedure = Some (QARCTemplateProcedure, QARCSlotProcedure)"
| "qarc_operator_template QARCOperatorDefinition = Some (QARCTemplateDefinition, QARCSlotDefinition)"
| "qarc_operator_template QARCOperatorComparison = Some (QARCTemplateComparison, QARCSlotComparison)"
| "qarc_operator_template QARCOperatorEvidence = Some (QARCTemplateEvidence, QARCSlotEvidence)"
| "qarc_operator_template QARCOperatorOpen = Some (QARCTemplateOpen, QARCSlotPosition)"
| "qarc_operator_template _ = None"

definition qarc_operator_slot :: "qarc_operator \<Rightarrow> qarc_slot option" where
  "qarc_operator_slot op = map_option snd (qarc_operator_template op)"

fun qarc_template_slot :: "qarc_template \<Rightarrow> qarc_slot option" where
  "qarc_template_slot QARCTemplateBoolean = Some QARCSlotPolarity"
| "qarc_template_slot QARCTemplateChoice = Some QARCSlotSelection"
| "qarc_template_slot QARCTemplateQuantity = Some QARCSlotQuantity"
| "qarc_template_slot QARCTemplateState = Some QARCSlotState"
| "qarc_template_slot QARCTemplateCause = Some QARCSlotCause"
| "qarc_template_slot QARCTemplatePurpose = Some QARCSlotPurpose"
| "qarc_template_slot QARCTemplateProcedure = Some QARCSlotProcedure"
| "qarc_template_slot QARCTemplateDefinition = Some QARCSlotDefinition"
| "qarc_template_slot QARCTemplateComparison = Some QARCSlotComparison"
| "qarc_template_slot QARCTemplateEvidence = Some QARCSlotEvidence"
| "qarc_template_slot QARCTemplateOpen = Some QARCSlotPosition"
| "qarc_template_slot _ = None"

definition qarc_template_is_compiled :: "qarc_action \<Rightarrow> qarc_template \<Rightarrow> qarc_slot \<Rightarrow> bool" where
  "qarc_template_is_compiled act template slot = (case act of
     QARCWait \<Rightarrow> template = QARCTemplateNone \<and> slot = QARCSlotNone
   | QARCOperatorCue \<Rightarrow> qarc_template_slot template = Some slot
   | QARCNeutralCue \<Rightarrow> template = QARCTemplateNeutral \<and> slot = QARCSlotNone
   | QARCRelease \<Rightarrow> template = QARCTemplateRelease \<and> slot = QARCSlotNone)"

fun qarc_action_priority :: "qarc_action \<Rightarrow> nat" where
  "qarc_action_priority QARCWait = 0"
| "qarc_action_priority QARCNeutralCue = 1"
| "qarc_action_priority QARCOperatorCue = 2"
| "qarc_action_priority QARCRelease = 3"

section \<open>Observations and decisions\<close>

record probability_interval =
  pi_lower :: f64
  pi_upper :: f64

type_synonym qarc_belief = "probability_interval list"

definition interval :: "qarc_belief \<Rightarrow> nat \<Rightarrow> probability_interval option" where
  "interval b state = (if state \<ge> retrieval_state_count then None else Some (b ! state))"

record qarc_observation =
  qo_operator :: qarc_operator
  qo_scope_bound :: bool
  qo_confidence :: f64
  qo_endpoint_committed :: bool
  qo_commit_protected :: bool
  qo_new_scope :: bool
  qo_substantive :: bool
  qo_hesitation :: bool
  qo_onset :: f64
  qo_incidental :: f64
  qo_attempts :: nat
  qo_cancelable :: bool

record qarc_certificate =
  qc_version :: nat
  qc_action :: qarc_action
  qc_template :: qarc_template
  qc_slot :: qarc_slot
  qc_worst_utility :: f64
  qc_worst_regret :: f64
  qc_wait_best :: f64
  qc_dominates_wait :: bool
  qc_non_interference :: bool
  qc_floor_protected :: bool
  qc_reason :: qarc_reason

record qarc_decision =
  qd_action :: qarc_action
  qd_template :: qarc_template
  qd_slot :: qarc_slot
  qd_belief :: qarc_belief
  qd_certificate :: qarc_certificate

definition valid_qarc_probability :: "f64 \<Rightarrow> bool" where
  "valid_qarc_probability v \<longleftrightarrow> \<not> is_nan v \<and> \<not> is_inf v \<and> fle (Fin 0) v \<and> fle v (Fin 1)"

definition valid_qarc_observation :: "qarc_observation \<Rightarrow> bool" where
  "valid_qarc_observation ob \<longleftrightarrow>
     valid_qarc_probability (qo_confidence ob) \<and> valid_qarc_probability (qo_onset ob)
     \<and> valid_qarc_probability (qo_incidental ob) \<and> qarc_operator_slot (qo_operator ob) \<noteq> None"

definition qarc_speech_allowed :: "qarc_observation \<Rightarrow> bool" where
  "qarc_speech_allowed ob \<longleftrightarrow>
     valid_qarc_observation ob \<and> qo_scope_bound ob \<and> \<not> qo_hesitation ob
     \<and> (qo_endpoint_committed ob \<or> qo_commit_protected ob)
     \<and> flt (qo_onset ob) (f64_of (35 / 100)) \<and> fle (qo_incidental ob) (f64_of (8 / 10))
     \<and> qo_cancelable ob"

section \<open>Beliefs and utilities\<close>

definition add_at :: "nat \<Rightarrow> f64 \<Rightarrow> f64 list \<Rightarrow> f64 list" where
  "add_at i x ws = ws[i := fadd (ws ! i) x]"

definition sub_at :: "nat \<Rightarrow> f64 \<Rightarrow> f64 list \<Rightarrow> f64 list" where
  "sub_at i x ws = ws[i := fsub (ws ! i) x]"

abbreviation lit100 :: "rat \<Rightarrow> f64" where
  "lit100 q \<equiv> f64_of (q / 100)"

definition qarc_weights :: "qarc_observation \<Rightarrow> f64 list" where
  "qarc_weights ob =
     (let w = hundredths [20, 18, 14, 14, 10, 14, 6, 4];
          w = (if qo_new_scope ob
            then add_at RetrievalInitiation (lit100 6) (add_at RetrievalSearchBlocked (lit100 8)
              (add_at RetrievalTargetLost (lit100 12) w)) else w);
          w = (if qo_substantive ob
            then sub_at RetrievalTargetLost (lit100 6) (add_at RetrievalReady (lit100 8)
              (add_at RetrievalFormulation (lit100 18) w)) else w);
          w = (if qo_hesitation ob
            then add_at RetrievalSelfMonitoring (lit100 8) (add_at RetrievalReady (lit100 36) w) else w);
          w = (if qo_attempts ob > 0
            then let shift = fmul (lit100 6) (f64_of (of_nat (qo_attempts ob)))
              in add_at RetrievalSelfMonitoring shift (add_at RetrievalKnowledgeUnknown shift w) else w);
          unclear = fmul (fsub (Fin 1) (qo_confidence ob)) (lit100 45)
      in sub_at RetrievalTargetLost (fmul unclear (lit100 25)) (add_at RetrievalQuestionUnclear unclear w))"

definition qarc_belief_of :: "qarc_observation \<Rightarrow> qarc_belief" where
  "qarc_belief_of ob =
     (let ws = List.map (\<lambda>w. if flt w (f64_of (1 / 1000)) then f64_of (1 / 1000) else w) (qarc_weights ob);
          mass = foldl fadd (Fin 0) ws;
          u = fadd (f64_of (35 / 1000)) (fmul (fsub (Fin 1) (qo_confidence ob)) (lit100 12));
          u = (if qo_hesitation ob then fadd u (f64_of (25 / 1000)) else u)
      in List.map (\<lambda>w. let point = fdiv w mass in
           \<lparr>pi_lower = fmax (Fin 0) (fsub point u), pi_upper = fmin (Fin 1) (fadd point u)\<rparr>) ws)"

definition qarc_unknown_belief :: qarc_belief where
  "qarc_unknown_belief = replicate retrieval_state_count \<lparr>pi_lower = Fin 0, pi_upper = Fin 1\<rparr>"

fun qarc_base_utility :: "qarc_action \<Rightarrow> f64 list" where
  "qarc_base_utility QARCOperatorCue = hundredths [95, 68, 48, 58, - 28, - 78, - 42, - 86]"
| "qarc_base_utility QARCNeutralCue = hundredths [34, 36, 28, 42, - 10, - 34, 4, 18]"
| "qarc_base_utility QARCRelease = hundredths [- 35, - 25, - 12, 12, 62, 18, 72, 48]"
| "qarc_base_utility QARCWait = hundredths [- 36, - 10, 18, - 18, 24, 72, 32, 28]"

definition qarc_cost :: "qarc_action \<Rightarrow> qarc_observation \<Rightarrow> f64" where
  "qarc_cost act ob = (case act of
     QARCOperatorCue \<Rightarrow> fadd (f64_of (5 / 100)) (fmul (f64_of (50 / 100)) (qo_onset ob))
   | QARCNeutralCue \<Rightarrow> fadd (f64_of (35 / 1000)) (fmul (f64_of (34 / 100)) (qo_onset ob))
   | QARCRelease \<Rightarrow> if qo_attempts ob < MaxCoachAttempts then lit100 35 else Fin 0
   | QARCWait \<Rightarrow> Fin 0)"

definition qarc_utility_vector :: "qarc_action \<Rightarrow> qarc_observation \<Rightarrow> f64 list" where
  "qarc_utility_vector act ob = List.map (\<lambda>v. fsub v (qarc_cost act ob)) (qarc_base_utility act)"

definition qarc_round :: "f64 \<Rightarrow> f64" where
  "qarc_round v = (if is_inf v \<or> is_nan v then v
     else fdiv (fround (fmul v (f64_of 1000000))) (f64_of 1000000))"

text \<open>\<open>sort.SliceStable\<close>: a stable insertion by \<open>less\<close>.\<close>

fun stable_insert :: "('a \<Rightarrow> 'a \<Rightarrow> bool) \<Rightarrow> 'a \<Rightarrow> 'a list \<Rightarrow> 'a list" where
  "stable_insert lt x [] = [x]"
| "stable_insert lt x (y # ys) = (if lt y x then y # stable_insert lt x ys else x # y # ys)"

definition stable_sort :: "('a \<Rightarrow> 'a \<Rightarrow> bool) \<Rightarrow> 'a list \<Rightarrow> 'a list" where
  "stable_sort lt xs = foldr (stable_insert lt) xs []"

text \<open>Mass is given to the states in order of their value, as far as their intervals allow.\<close>

fun allocate :: "qarc_belief \<Rightarrow> (nat \<times> f64) list \<Rightarrow> f64 \<Rightarrow> f64 \<Rightarrow> f64 \<times> f64" where
  "allocate b [] mass value = (mass, value)"
| "allocate b ((state, v) # as) mass value =
     (if fle mass (f64_of (1 / 10 ^ 12)) then (mass, value)
      else let capacity = fsub (pi_upper (b ! state)) (pi_lower (b ! state));
               assigned = fmin mass capacity
           in allocate b as (fsub mass assigned) (fadd value (fmul assigned v)))"

definition qarc_expectation_bound :: "qarc_belief \<Rightarrow> f64 list \<Rightarrow> bool \<Rightarrow> f64" where
  "qarc_expectation_bound b us maximum =
     (let (mass, value) = foldl (\<lambda>(mass, value) i. (fsub mass (pi_lower (b ! i)), fadd value (fmul (pi_lower (b ! i)) (us ! i))))
            (Fin 1, Fin 0) [0..<retrieval_state_count];
          order = stable_sort (\<lambda>x y. if maximum then flt (snd y) (snd x) else flt (snd x) (snd y))
            (List.map (\<lambda>i. (i, us ! i)) [0..<retrieval_state_count]);
          (mass, value) = allocate b order mass value
      in if flt (f64_of (1 / 10 ^ 9)) mass then NegInf else qarc_round value)"

definition qarc_worst_case_regret :: "qarc_action \<Rightarrow> qarc_action list \<Rightarrow> qarc_belief \<Rightarrow> qarc_observation \<Rightarrow> f64" where
  "qarc_worst_case_regret act safe b ob =
     qarc_round (foldl (\<lambda>worst alternative.
         let regret = qarc_expectation_bound b
               (map2 fsub (qarc_utility_vector alternative ob) (qarc_utility_vector act ob)) True
         in if flt worst regret then regret else worst) (Fin 0) safe)"

section \<open>The decision\<close>

definition qarc_guarded_decision ::
  "qarc_action \<Rightarrow> qarc_action list \<Rightarrow> qarc_belief \<Rightarrow> qarc_reason \<Rightarrow> qarc_observation \<Rightarrow> qarc_decision" where
  "qarc_guarded_decision act0 admissible0 b reason0 ob =
     (let (act, admissible, reason) =
            (if act0 \<notin> set admissible0 then (QARCWait, [QARCWait], QARCReasonInvalidObservation)
             else (act0, admissible0, reason0));
          (act, admissible, reason) =
            (if act \<noteq> QARCWait \<and> \<not> qarc_speech_allowed ob then (QARCWait, [QARCWait], QARCReasonFloorNotClear)
             else (act, admissible, reason));
          (act, admissible, reason, template, slot) =
            (case act of
               QARCOperatorCue \<Rightarrow> (case qarc_operator_template (qo_operator ob) of
                 Some (t, s) \<Rightarrow> (act, admissible, reason, t, s)
               | None \<Rightarrow> (QARCWait, [QARCWait], QARCReasonInvalidObservation, QARCTemplateNone, QARCSlotNone))
             | QARCNeutralCue \<Rightarrow> (act, admissible, reason, QARCTemplateNeutral, QARCSlotNone)
             | QARCRelease \<Rightarrow> (act, admissible, reason, QARCTemplateRelease, QARCSlotNone)
             | QARCWait \<Rightarrow> (act, admissible, reason, QARCTemplateNone, QARCSlotNone));
          worst = qarc_expectation_bound b (qarc_utility_vector act ob) False;
          wait_best = qarc_expectation_bound b (qarc_utility_vector QARCWait ob) True
      in \<lparr>qd_action = act, qd_template = template, qd_slot = slot, qd_belief = b,
          qd_certificate =
            \<lparr>qc_version = QARCPolicyVersion, qc_action = act, qc_template = template, qc_slot = slot,
             qc_worst_utility = worst, qc_worst_regret = qarc_worst_case_regret act admissible b ob,
             qc_wait_best = wait_best, qc_dominates_wait = flt wait_best worst,
             qc_non_interference = qarc_template_is_compiled act template slot,
             qc_floor_protected = (act = QARCWait \<or> qarc_speech_allowed ob), qc_reason = reason\<rparr>\<rparr>)"

definition qarc_invalid_decision :: qarc_decision where
  "qarc_invalid_decision =
     qarc_guarded_decision QARCWait [QARCWait] qarc_unknown_belief QARCReasonInvalidObservation
       \<lparr>qo_operator = QARCOperatorOpen, qo_scope_bound = False, qo_confidence = Fin 0,
        qo_endpoint_committed = False, qo_commit_protected = False, qo_new_scope = False,
        qo_substantive = False, qo_hesitation = False, qo_onset = Fin 1, qo_incidental = Fin 1,
        qo_attempts = 0, qo_cancelable = False\<rparr>"

definition qarc_best :: "qarc_belief \<Rightarrow> qarc_observation \<Rightarrow> qarc_action list \<Rightarrow> qarc_action" where
  "qarc_best b ob safe =
     fst (foldl (\<lambda>(best, best_regret, best_worst) act.
         let regret = qarc_worst_case_regret act safe b ob;
             worst = qarc_expectation_bound b (qarc_utility_vector act ob) False;
             eps = f64_of (1 / 10 ^ 9)
         in if flt regret (fsub best_regret eps)
              \<or> fle (fabs (fsub regret best_regret)) eps
                \<and> (flt (fadd best_worst eps) worst
                  \<or> fle (fabs (fsub worst best_worst)) eps \<and> qarc_action_priority act < qarc_action_priority best)
            then (act, regret, worst) else (best, best_regret, best_worst))
       (QARCWait, PosInf, NegInf) safe)"

definition decide_qarc :: "qarc_observation \<Rightarrow> qarc_decision" where
  "decide_qarc ob =
     (if \<not> valid_qarc_observation ob then qarc_invalid_decision
      else let b = qarc_belief_of ob in
        if \<not> qo_scope_bound ob then qarc_guarded_decision QARCWait [QARCWait] b QARCReasonUnboundScope ob
        else if qo_hesitation ob then qarc_guarded_decision QARCWait [QARCWait] b QARCReasonHesitationSpace ob
        else if \<not> qarc_speech_allowed ob then qarc_guarded_decision QARCWait [QARCWait] b QARCReasonFloorNotClear ob
        else if qo_attempts ob \<ge> MaxCoachAttempts then
          qarc_guarded_decision QARCRelease [QARCRelease] b QARCReasonAttemptBudgetExhausted ob
        else let safe = [QARCWait, QARCNeutralCue]
                   @ (if qarc_operator_slot (qo_operator ob) \<noteq> None \<and> fle (lit100 65) (qo_confidence ob)
                      then [QARCOperatorCue] else []);
                 best = qarc_best b ob safe;
                 reason = (if best = QARCNeutralCue then QARCReasonOperatorUncertain else QARCReasonMinimaxRegret)
             in qarc_guarded_decision best safe b reason ob)"

section \<open>Guards\<close>

lemma template_of_operator: "qarc_operator_template op = Some (t, s) \<Longrightarrow> qarc_template_slot t = Some s"
  by (cases op) auto

lemma guarded_action:
  "qd_action (qarc_guarded_decision act adm b reason ob) \<in> {QARCWait, act}"
  by (auto simp: qarc_guarded_decision_def Let_def split: qarc_action.splits option.splits)

lemma guarded_speech:
  "qd_action (qarc_guarded_decision act adm b reason ob) \<noteq> QARCWait \<Longrightarrow> qarc_speech_allowed ob"
  by (auto simp: qarc_guarded_decision_def Let_def split: qarc_action.splits option.splits if_splits)

lemma guarded_certificate:
  assumes "d = qarc_guarded_decision act adm b reason ob"
  shows "qc_version (qd_certificate d) = QARCPolicyVersion \<and> qc_action (qd_certificate d) = qd_action d
    \<and> qc_template (qd_certificate d) = qd_template d \<and> qc_slot (qd_certificate d) = qd_slot d
    \<and> qc_non_interference (qd_certificate d) \<and> qc_floor_protected (qd_certificate d)
    \<and> qarc_template_is_compiled (qd_action d) (qd_template d) (qd_slot d)"
  unfolding assms qarc_guarded_decision_def Let_def
  by (auto simp: qarc_template_is_compiled_def template_of_operator split: qarc_action.splits option.splits)

lemma qarc_best_safe: "qarc_best b ob safe \<in> insert QARCWait (set safe)"
proof -
  let ?step = "\<lambda>(best, best_regret, best_worst) act.
         let regret = qarc_worst_case_regret act safe b ob;
             worst = qarc_expectation_bound b (qarc_utility_vector act ob) False;
             eps = f64_of (1 / 10 ^ 9)
         in if flt regret (fsub best_regret eps)
              \<or> fle (fabs (fsub regret best_regret)) eps
                \<and> (flt (fadd best_worst eps) worst
                  \<or> fle (fabs (fsub worst best_worst)) eps \<and> qarc_action_priority act < qarc_action_priority best)
            then (act, regret, worst) else (best, best_regret, best_worst)"
  have "fst (foldl ?step st xs) \<in> insert (fst st) (set xs)" for st xs
  proof (induction xs arbitrary: st)
    case (Cons x xs)
    have "fst (?step st x) \<in> {fst st, x}" by (cases st) (simp add: Let_def)
    then show ?case using Cons.IH [of "?step st x"] by auto
  qed simp
  from this [of "(QARCWait, PosInf, NegInf)" safe] show ?thesis by (simp add: qarc_best_def)
qed

text \<open>The paths of a decision that speaks.\<close>

lemma decide_qarc_cases:
  "(\<exists>b reason ob'. decide_qarc ob = qarc_guarded_decision QARCWait [QARCWait] b reason ob')
   \<or> qarc_speech_allowed ob \<and> qo_attempts ob \<ge> MaxCoachAttempts
     \<and> (\<exists>b reason. decide_qarc ob = qarc_guarded_decision QARCRelease [QARCRelease] b reason ob)
   \<or> qarc_speech_allowed ob \<and> qo_attempts ob < MaxCoachAttempts
     \<and> (\<exists>act safe b reason. decide_qarc ob = qarc_guarded_decision act safe b reason ob
         \<and> act \<in> {QARCWait, QARCNeutralCue, QARCOperatorCue}
         \<and> (if act = QARCOperatorCue then fle (lit100 65) (qo_confidence ob) else True))"
proof (cases "qarc_speech_allowed ob \<and> qo_attempts ob < MaxCoachAttempts")
  case True
  let ?safe = "[QARCWait, QARCNeutralCue]
     @ (if qarc_operator_slot (qo_operator ob) \<noteq> None \<and> fle (lit100 65) (qo_confidence ob) then [QARCOperatorCue] else [])"
  let ?best = "qarc_best (qarc_belief_of ob) ob ?safe"
  have "decide_qarc ob = qarc_guarded_decision ?best ?safe (qarc_belief_of ob)
      (if ?best = QARCNeutralCue then QARCReasonOperatorUncertain else QARCReasonMinimaxRegret) ob"
    using True by (simp add: decide_qarc_def Let_def qarc_speech_allowed_def)
  moreover have "?best \<in> {QARCWait, QARCNeutralCue, QARCOperatorCue}
      \<and> (if ?best = QARCOperatorCue then fle (lit100 65) (qo_confidence ob) else True)"
    using qarc_best_safe [of "qarc_belief_of ob" ob ?safe] by (auto split: if_splits)
  ultimately show ?thesis using True by blast
next
  case False
  then show ?thesis unfolding decide_qarc_def qarc_invalid_decision_def Let_def by auto
qed

lemma qarc_speech:
  assumes "qd_action (decide_qarc ob) \<noteq> QARCWait"
  shows "qarc_speech_allowed ob"
proof -
  have waits: "qd_action (qarc_guarded_decision QARCWait [QARCWait] b reason ob') = QARCWait" for b reason ob'
    using guarded_action [of QARCWait "[QARCWait]" b reason ob'] by simp
  show ?thesis using decide_qarc_cases [of ob] assms waits by metis
qed

lemma qarc_release_iff:
  assumes "qd_action (decide_qarc ob) = QARCRelease"
  shows "qo_attempts ob \<ge> MaxCoachAttempts"
proof (rule ccontr)
  assume few: "\<not> ?thesis"
  have "\<exists>act safe b reason ob'. decide_qarc ob = qarc_guarded_decision act safe b reason ob' \<and> act \<noteq> QARCRelease"
    using decide_qarc_cases [of ob] few by blast
  then show False using guarded_action assms by (metis insertE qarc_action.distinct(5) singletonD)
qed

text \<open>
  C27. The retrieval policy never speaks into an unsafe floor. Whatever the observation (probabilities
  that are not numbers or out of range included), a decision other than to wait was taken on a valid
  observation of a bound scope, without hesitation, after a committed or protected end of the turn,
  with a low probability that the person is about to speak and with audio that can be cancelled; it
  lets go only when both attempts are used and gives a cue only before, and the cue for the operator
  only at a confidence of at least 0.65.
\<close>

theorem qarc_speaks_only_when_clear:
  "{ob. qd_action (decide_qarc ob) \<noteq> QARCWait} \<subseteq>
   {ob. valid_qarc_observation ob \<and> qo_scope_bound ob \<and> \<not> qo_hesitation ob
      \<and> (qo_endpoint_committed ob \<or> qo_commit_protected ob) \<and> flt (qo_onset ob) (f64_of (35 / 100))
      \<and> fle (qo_incidental ob) (f64_of (8 / 10)) \<and> qo_cancelable ob
      \<and> (if qd_action (decide_qarc ob) = QARCRelease then MaxCoachAttempts \<le> qo_attempts ob
         else qo_attempts ob < MaxCoachAttempts)
      \<and> (if qd_action (decide_qarc ob) = QARCOperatorCue then fle (f64_of (65 / 100)) (qo_confidence ob) else True)}"
proof (rule subsetI, unfold mem_Collect_eq)
  fix ob
  assume speaks: "qd_action (decide_qarc ob) \<noteq> QARCWait"
  have act: "qd_action (decide_qarc ob) = act"
    if "decide_qarc ob = qarc_guarded_decision act adm b reason ob'" for act adm b reason ob'
    using guarded_action [of act adm b reason ob'] speaks unfolding that by simp
  consider "qarc_speech_allowed ob" "qo_attempts ob \<ge> MaxCoachAttempts" "qd_action (decide_qarc ob) = QARCRelease"
    | "qarc_speech_allowed ob" "qo_attempts ob < MaxCoachAttempts" "qd_action (decide_qarc ob) \<noteq> QARCRelease"
      "if qd_action (decide_qarc ob) = QARCOperatorCue then fle (lit100 65) (qo_confidence ob) else True"
    using decide_qarc_cases [of ob]
  proof (elim disjE exE conjE)
    fix b reason ob'
    assume "decide_qarc ob = qarc_guarded_decision QARCWait [QARCWait] b reason ob'"
    then show thesis using act speaks by blast
  next
    fix b reason
    assume "qarc_speech_allowed ob" "qo_attempts ob \<ge> MaxCoachAttempts"
      "decide_qarc ob = qarc_guarded_decision QARCRelease [QARCRelease] b reason ob"
    then show thesis using act that(1) by blast
  next
    fix a safe b reason
    assume *: "qarc_speech_allowed ob" "qo_attempts ob < MaxCoachAttempts"
      "decide_qarc ob = qarc_guarded_decision a safe b reason ob"
      "a \<in> {QARCWait, QARCNeutralCue, QARCOperatorCue}"
      "if a = QARCOperatorCue then fle (lit100 65) (qo_confidence ob) else True"
    have "qd_action (decide_qarc ob) = a" by (rule act [OF *(3)])
    then show thesis using * that(2) by auto
  qed
  then show "valid_qarc_observation ob \<and> qo_scope_bound ob \<and> \<not> qo_hesitation ob
      \<and> (qo_endpoint_committed ob \<or> qo_commit_protected ob) \<and> flt (qo_onset ob) (f64_of (35 / 100))
      \<and> fle (qo_incidental ob) (f64_of (8 / 10)) \<and> qo_cancelable ob
      \<and> (if qd_action (decide_qarc ob) = QARCRelease then MaxCoachAttempts \<le> qo_attempts ob
         else qo_attempts ob < MaxCoachAttempts)
      \<and> (if qd_action (decide_qarc ob) = QARCOperatorCue then fle (f64_of (65 / 100)) (qo_confidence ob) else True)"
    by cases (auto simp: qarc_speech_allowed_def)
qed

text \<open>
  Every decision carries a certificate that is true of it: the version, the action, the template
  and the slot are its own, the template is the compiled one for the action, and the floor was
  protected.
\<close>

theorem qarc_certificate_holds:
  "qc_version (qd_certificate (decide_qarc ob)) = QARCPolicyVersion
   \<and> qc_action (qd_certificate (decide_qarc ob)) = qd_action (decide_qarc ob)
   \<and> qc_template (qd_certificate (decide_qarc ob)) = qd_template (decide_qarc ob)
   \<and> qc_slot (qd_certificate (decide_qarc ob)) = qd_slot (decide_qarc ob)
   \<and> qc_non_interference (qd_certificate (decide_qarc ob)) \<and> qc_floor_protected (qd_certificate (decide_qarc ob))
   \<and> qarc_template_is_compiled (qd_action (decide_qarc ob)) (qd_template (decide_qarc ob)) (qd_slot (decide_qarc ob))"
proof -
  have "\<exists>act adm b reason ob'. decide_qarc ob = qarc_guarded_decision act adm b reason ob'"
    using decide_qarc_cases [of ob] by blast
  then show ?thesis using guarded_certificate by blast
qed

end
