(* ===== verification/Coach.thy ===== *)
theory Coach
  imports AnswerContract Qarc
begin

text \<open>
  \<open>coach.go\<close> of \<open>respondent\<close>: the coach, which turns a verdict about an answer into a phase, an
  action and one of a fixed set of spoken texts. \<open>attempts\<close> is a \<open>uint8\<close>; where the source adds to it
  without a bound the sum is taken modulo 256. A Go decision that leaves the posterior and the reason
  at their zero values has \<open>zero_posterior\<close> and no reason.
\<close>

section \<open>Phases, actions, decisions\<close>

datatype coach_phase =
  CoachPhaseNone | CoachPhaseAwaitingAnswer | CoachPhaseAwaitingRestatement | CoachPhaseExpanding
  | CoachPhaseComplete | CoachPhaseBlocked | CoachPhaseOther string

datatype coach_action =
  CoachActionNone | CoachActionElicit | CoachActionRestate | CoachActionExpand | CoachActionComplete
  | CoachActionRetry | CoachActionRelease

record coach_decision =
  co_phase :: coach_phase
  co_action :: coach_action
  co_reply :: string
  co_attempts :: nat
  co_keep :: bool
  co_verified_first :: bool
  co_posterior :: posterior
  co_updated :: bool
  co_reason :: "reason_code option"

definition zero_posterior :: posterior where
  "zero_posterior = \<lparr>po_target_missing = Fin 0, po_available_uncommitted = Fin 0, po_committed_late = Fin 0,
     po_committed_first = Fin 0, po_verification_unknown = Fin 0\<rparr>"

definition plain_decision :: "coach_phase \<Rightarrow> coach_action \<Rightarrow> string \<Rightarrow> nat \<Rightarrow> bool \<Rightarrow> bool \<Rightarrow> coach_decision" where
  "plain_decision ph act reply attempts keep first =
     \<lparr>co_phase = ph, co_action = act, co_reply = reply, co_attempts = attempts, co_keep = keep,
      co_verified_first = first, co_posterior = zero_posterior, co_updated = False, co_reason = None\<rparr>"

section \<open>The spoken texts\<close>

definition reply_core_boolean :: string where "reply_core_boolean = utf8_encode [0x3072, 0x3068, 0x3064, 0x3060, 0x3051, 0x3001, 0x3059, 0x308B, 0x306E, 0x304B, 0x3057, 0x306A, 0x3044, 0x306E, 0x304B, 0x306A, 0x3089, 0x3001, 0x3069, 0x3061, 0x3089, 0x3067, 0x3059, 0x304B, 0xFF1F]"
definition reply_core_choice :: string where "reply_core_choice = utf8_encode [0x3072, 0x3068, 0x3064, 0x3060, 0x3051, 0x9078, 0x3076, 0x306A, 0x3089, 0x3001, 0x3069, 0x308C, 0x3067, 0x3059, 0x304B, 0xFF1F]"
definition reply_core_quantity :: string where "reply_core_quantity = utf8_encode [0x6570, 0x5B57, 0x3068, 0x5358, 0x4F4D, 0x3060, 0x3051, 0x306A, 0x3089, 0x3001, 0x3044, 0x304F, 0x3064, 0x3067, 0x3059, 0x304B, 0xFF1F]"
definition reply_core_state :: string where "reply_core_state = utf8_encode [0x4ECA, 0x3069, 0x3046, 0x306A, 0x3063, 0x3066, 0x3044, 0x308B, 0x304B, 0x3001, 0x4E00, 0x8A00, 0x3060, 0x3051, 0x306A, 0x3089, 0xFF1F]"
definition reply_core_cause :: string where "reply_core_cause = utf8_encode [0x3044, 0x3061, 0x3070, 0x3093, 0x5927, 0x304D, 0x306A, 0x7406, 0x7531, 0x3092, 0x4E00, 0x3064, 0x3060, 0x3051, 0x6319, 0x3052, 0x308B, 0x306A, 0x3089, 0xFF1F]"
definition reply_core_purpose :: string where "reply_core_purpose = utf8_encode [0x3044, 0x3061, 0x3070, 0x3093, 0x5B9F, 0x73FE, 0x3057, 0x305F, 0x3044, 0x3053, 0x3068, 0x3092, 0x4E00, 0x3064, 0x3060, 0x3051, 0x6319, 0x3052, 0x308B, 0x306A, 0x3089, 0xFF1F]"
definition reply_core_procedure :: string where "reply_core_procedure = utf8_encode [0x6700, 0x521D, 0x306E, 0x4E00, 0x6B69, 0x3060, 0x3051, 0x6319, 0x3052, 0x308B, 0x306A, 0x3089, 0x3001, 0x4F55, 0x3092, 0x3057, 0x307E, 0x3059, 0x304B, 0xFF1F]"
definition reply_core_definition :: string where "reply_core_definition = utf8_encode [0x305D, 0x308C, 0x304C, 0x4F55, 0x304B, 0x3001, 0x4E00, 0x8A00, 0x3060, 0x3051, 0x306A, 0x3089, 0xFF1F]"
definition reply_core_comparison :: string where "reply_core_comparison = utf8_encode [0x3044, 0x3061, 0x3070, 0x3093, 0x5927, 0x304D, 0x306A, 0x9055, 0x3044, 0x3092, 0x4E00, 0x3064, 0x3060, 0x3051, 0x6319, 0x3052, 0x308B, 0x306A, 0x3089, 0xFF1F]"
definition reply_core_evidence :: string where "reply_core_evidence = utf8_encode [0x3044, 0x3061, 0x3070, 0x3093, 0x78BA, 0x304B, 0x306A, 0x6839, 0x62E0, 0x3092, 0x4E00, 0x3064, 0x3060, 0x3051, 0x6319, 0x3052, 0x308B, 0x306A, 0x3089, 0xFF1F]"
definition reply_core_open :: string where "reply_core_open = utf8_encode [0x3044, 0x3061, 0x3070, 0x3093, 0x8A00, 0x3044, 0x305F, 0x3044, 0x3053, 0x3068, 0x3092, 0x3001, 0x4E00, 0x8A00, 0x3060, 0x3051, 0x306A, 0x3089, 0xFF1F]"

definition core_prompt :: "QuestionGate.operator \<Rightarrow> string" where
  "core_prompt op = (case op of
     QuestionGate.OperatorBoolean \<Rightarrow> reply_core_boolean
   | QuestionGate.OperatorChoice \<Rightarrow> reply_core_choice
   | QuestionGate.OperatorQuantity \<Rightarrow> reply_core_quantity
   | QuestionGate.OperatorState \<Rightarrow> reply_core_state
   | QuestionGate.OperatorCause \<Rightarrow> reply_core_cause
   | QuestionGate.OperatorPurpose \<Rightarrow> reply_core_purpose
   | QuestionGate.OperatorProcedure \<Rightarrow> reply_core_procedure
   | QuestionGate.OperatorDefinition \<Rightarrow> reply_core_definition
   | QuestionGate.OperatorComparison \<Rightarrow> reply_core_comparison
   | QuestionGate.OperatorEvidence \<Rightarrow> reply_core_evidence
   | _ \<Rightarrow> reply_core_open)"

definition reply_expand_evidence :: string where "reply_expand_evidence = utf8_encode [0x4ECA, 0x306F, 0x805E, 0x304B, 0x308C, 0x305F, 0x3053, 0x3068, 0x3078, 0x5148, 0x306B, 0x7B54, 0x3048, 0x3089, 0x308C, 0x3066, 0x3044, 0x307E, 0x3059, 0x3002, 0x6B21, 0x306B, 0x3001, 0x300E, 0x305D, 0x306E, 0x6839, 0x62E0, 0x306F, 0x300F, 0x306B, 0x7D9A, 0x3051, 0x3066, 0x3001, 0x4E00, 0x3064, 0x3060, 0x3051, 0x8A00, 0x3046, 0x3068, 0xFF1F]"
definition reply_expand_state :: string where "reply_expand_state = utf8_encode [0x4ECA, 0x306F, 0x805E, 0x304B, 0x308C, 0x305F, 0x3053, 0x3068, 0x3078, 0x5148, 0x306B, 0x7B54, 0x3048, 0x3089, 0x308C, 0x3066, 0x3044, 0x307E, 0x3059, 0x3002, 0x6B21, 0x306B, 0x3001, 0x300E, 0x305D, 0x306E, 0x6700, 0x521D, 0x306E, 0x4E00, 0x6B69, 0x306F, 0x300F, 0x306B, 0x7D9A, 0x3051, 0x3066, 0x3001, 0x4E00, 0x3064, 0x3060, 0x3051, 0x8A00, 0x3046, 0x3068, 0xFF1F]"
definition reply_expand_reason :: string where "reply_expand_reason = utf8_encode [0x4ECA, 0x306F, 0x805E, 0x304B, 0x308C, 0x305F, 0x3053, 0x3068, 0x3078, 0x5148, 0x306B, 0x7B54, 0x3048, 0x3089, 0x308C, 0x3066, 0x3044, 0x307E, 0x3059, 0x3002, 0x6B21, 0x306B, 0x3001, 0x300E, 0x305D, 0x306E, 0x7406, 0x7531, 0x306F, 0x300F, 0x306B, 0x7D9A, 0x3051, 0x3066, 0x3001, 0x4E00, 0x3064, 0x3060, 0x3051, 0x8A00, 0x3046, 0x3068, 0xFF1F]"

definition expansion_prompt :: "QuestionGate.operator \<Rightarrow> string" where
  "expansion_prompt op = (case op of
     QuestionGate.OperatorEvidence \<Rightarrow> reply_expand_evidence
   | QuestionGate.OperatorState \<Rightarrow> reply_expand_state
   | _ \<Rightarrow> reply_expand_reason)"

definition reply_reask :: string where "reply_reask = utf8_encode [0x305D, 0x3053, 0x307E, 0x3067, 0x3061, 0x3083, 0x3093, 0x3068, 0x805E, 0x3053, 0x3048, 0x3066, 0x3044, 0x307E, 0x3059, 0x3002, 0x4ECA, 0x306E, 0x8A00, 0x8449, 0x306F, 0x5909, 0x3048, 0x305A, 0x3001, 0x7B54, 0x3048, 0x306B, 0x306A, 0x3063, 0x3066, 0x3044, 0x308B, 0x4E00, 0x6587, 0x304B, 0x3089, 0x7D9A, 0x3051, 0x3066, 0x3082, 0x5927, 0x4E08, 0x592B, 0x3067, 0x3059, 0x3002]"
definition reply_complete_abstained :: string where "reply_complete_abstained = utf8_encode [0x3046, 0x3093, 0x3001, 0x305D, 0x306E, 0x307E, 0x307E, 0x3067, 0x5927, 0x4E08, 0x592B, 0x3067, 0x3059, 0x3002]"
definition reply_complete :: string where "reply_complete = utf8_encode [0x3046, 0x3093, 0x3001, 0x306A, 0x308B, 0x307B, 0x3069, 0x3002]"
definition reply_natural_abstained :: string where "reply_natural_abstained = utf8_encode [0x3046, 0x3093, 0x3001, 0x307E, 0x3060, 0x6C7A, 0x3081, 0x3066, 0x3044, 0x306A, 0x304F, 0x3066, 0x3082, 0x5927, 0x4E08, 0x592B, 0x3067, 0x3059, 0x3002]"
definition reply_natural_choice :: string where "reply_natural_choice = utf8_encode [0x3046, 0x3093, 0x3001, 0x305D, 0x3061, 0x3089, 0x306A, 0x3093, 0x3067, 0x3059, 0x306D, 0x3002]"
definition reply_natural_quantity :: string where "reply_natural_quantity = utf8_encode [0x306A, 0x308B, 0x307B, 0x3069, 0x3001, 0x305D, 0x306E, 0x304F, 0x3089, 0x3044, 0x306A, 0x3093, 0x3067, 0x3059, 0x306D, 0x3002]"
definition reply_natural_state :: string where "reply_natural_state = utf8_encode [0x306A, 0x308B, 0x307B, 0x3069, 0x3001, 0x4ECA, 0x306F, 0x305D, 0x3046, 0x306A, 0x3093, 0x3067, 0x3059, 0x306D, 0x3002]"
definition reply_natural_cause :: string where "reply_natural_cause = utf8_encode [0x306A, 0x308B, 0x307B, 0x3069, 0x3001, 0x305D, 0x3046, 0x8003, 0x3048, 0x3066, 0x3044, 0x308B, 0x3093, 0x3067, 0x3059, 0x306D, 0x3002]"
definition reply_natural_procedure :: string where "reply_natural_procedure = utf8_encode [0x306A, 0x308B, 0x307B, 0x3069, 0x3001, 0x305D, 0x3053, 0x304B, 0x3089, 0x59CB, 0x3081, 0x308B, 0x3093, 0x3067, 0x3059, 0x306D, 0x3002]"
definition reply_natural_definition :: string where "reply_natural_definition = utf8_encode [0x306A, 0x308B, 0x307B, 0x3069, 0x3001, 0x305D, 0x3046, 0x6349, 0x3048, 0x3066, 0x3044, 0x308B, 0x3093, 0x3067, 0x3059, 0x306D, 0x3002]"
definition reply_natural_evidence :: string where "reply_natural_evidence = utf8_encode [0x306A, 0x308B, 0x307B, 0x3069, 0x3001, 0x305D, 0x3053, 0x304C, 0x5224, 0x65AD, 0x306E, 0x8EF8, 0x306A, 0x3093, 0x3067, 0x3059, 0x306D, 0x3002]"
definition reply_late :: string where "reply_late = utf8_encode [0x3046, 0x3093, 0x3001, 0x7B54, 0x3048, 0x306F, 0x805E, 0x3053, 0x3048, 0x307E, 0x3057, 0x305F, 0x3002, 0x6B21, 0x306F, 0x4ECA, 0x306E, 0x7B54, 0x3048, 0x3092, 0x6700, 0x521D, 0x306B, 0x7F6E, 0x304F, 0x3068, 0x3001, 0x3082, 0x3063, 0x3068, 0x4F1D, 0x308F, 0x308A, 0x3084, 0x3059, 0x3044, 0x3067, 0x3059, 0x3002, 0x305D, 0x306E, 0x307E, 0x307E, 0x3067, 0x5927, 0x4E08, 0x592B, 0x3067, 0x3059, 0x3002]"
definition reply_release :: string where "reply_release = utf8_encode [0x5927, 0x4E08, 0x592B, 0x3067, 0x3059, 0x3002, 0x8A00, 0x3044, 0x76F4, 0x3055, 0x306A, 0x304F, 0x3066, 0x3082, 0x3001, 0x4ECA, 0x306E, 0x307E, 0x307E, 0x3067, 0x8A71, 0x3092, 0x7D9A, 0x3051, 0x3089, 0x308C, 0x307E, 0x3059, 0x3002]"
definition reply_unavailable :: string where "reply_unavailable = utf8_encode [0x3053, 0x3061, 0x3089, 0x306E, 0x78BA, 0x8A8D, 0x304C, 0x9593, 0x306B, 0x5408, 0x3044, 0x307E, 0x305B, 0x3093, 0x3067, 0x3057, 0x305F, 0x3002, 0x3042, 0x306A, 0x305F, 0x306E, 0x8A00, 0x3044, 0x65B9, 0x306E, 0x554F, 0x984C, 0x3067, 0x306F, 0x3042, 0x308A, 0x307E, 0x305B, 0x3093, 0x3002, 0x305D, 0x306E, 0x307E, 0x307E, 0x7D9A, 0x3051, 0x3066, 0x5927, 0x4E08, 0x592B, 0x3067, 0x3059, 0x3002]"
definition reply_expand_later :: string where "reply_expand_later = utf8_encode [0x4ECA, 0x306E, 0x8A71, 0x306B, 0x306F, 0x652F, 0x3048, 0x306E, 0x6838, 0x304C, 0x3042, 0x308A, 0x307E, 0x3059, 0x3002, 0x3082, 0x3057, 0x8A71, 0x3057, 0x3084, 0x3059, 0x3051, 0x308C, 0x3070, 0x3001, 0x305D, 0x306E, 0x4E00, 0x6587, 0x304B, 0x3089, 0x7D9A, 0x304D, 0x3092, 0x805E, 0x304B, 0x305B, 0x3066, 0x304F, 0x3060, 0x3055, 0x3044, 0x3002]"
definition reply_retry :: string where "reply_retry = utf8_encode [0x305D, 0x3053, 0x307E, 0x3067, 0x805E, 0x3051, 0x3066, 0x3044, 0x307E, 0x3059, 0x3002, 0x6D6E, 0x304B, 0x3093, 0x3060, 0x7D9A, 0x304D, 0x304C, 0x3042, 0x308C, 0x3070, 0x3001, 0x305D, 0x306E, 0x307E, 0x307E, 0x805E, 0x304B, 0x305B, 0x3066, 0x304F, 0x3060, 0x3055, 0x3044, 0x3002]"

definition gentle_reask_prompt :: "QuestionGate.operator \<Rightarrow> string" where
  "gentle_reask_prompt op = reply_reask"

definition completion_reply :: "bool \<Rightarrow> string" where
  "completion_reply abstained = (if abstained then reply_complete_abstained else reply_complete)"

definition natural_continuation_reply :: "QuestionGate.operator \<Rightarrow> bool \<Rightarrow> string" where
  "natural_continuation_reply op abstained =
     (if abstained then reply_natural_abstained
      else case op of
        QuestionGate.OperatorBoolean \<Rightarrow> reply_natural_choice
      | QuestionGate.OperatorChoice \<Rightarrow> reply_natural_choice
      | QuestionGate.OperatorQuantity \<Rightarrow> reply_natural_quantity
      | QuestionGate.OperatorState \<Rightarrow> reply_natural_state
      | QuestionGate.OperatorCause \<Rightarrow> reply_natural_cause
      | QuestionGate.OperatorPurpose \<Rightarrow> reply_natural_cause
      | QuestionGate.OperatorProcedure \<Rightarrow> reply_natural_procedure
      | QuestionGate.OperatorDefinition \<Rightarrow> reply_natural_definition
      | QuestionGate.OperatorComparison \<Rightarrow> reply_natural_evidence
      | QuestionGate.OperatorEvidence \<Rightarrow> reply_natural_evidence
      | _ \<Rightarrow> reply_complete)"

definition late_answer_reply :: string where
  "late_answer_reply = reply_late"

definition release_decision :: "nat \<Rightarrow> coach_decision" where
  "release_decision attempts = plain_decision CoachPhaseBlocked CoachActionRelease reply_release attempts False False"

section \<open>Guidance\<close>

definition guide_awaiting_in_phase :: "QuestionGate.operator \<Rightarrow> coach_phase \<Rightarrow> nat \<Rightarrow> bool \<Rightarrow> coach_decision" where
  "guide_awaiting_in_phase op phase attempts count_attempt =
     (if count_attempt \<and> attempts \<ge> MaxCoachAttempts - 1 then release_decision MaxCoachAttempts
      else let n = (if count_attempt then attempts + 1 else attempts) in
        if phase = CoachPhaseExpanding then
          plain_decision CoachPhaseExpanding CoachActionExpand (expansion_prompt op) n True False
        else if phase = CoachPhaseAwaitingRestatement then
          plain_decision CoachPhaseAwaitingRestatement CoachActionRestate (gentle_reask_prompt op) n True False
        else plain_decision CoachPhaseAwaitingAnswer CoachActionElicit (core_prompt op) n True False)"

definition guide_awaiting :: "QuestionGate.operator \<Rightarrow> nat \<Rightarrow> bool \<Rightarrow> coach_decision" where
  "guide_awaiting op attempts count_attempt = guide_awaiting_in_phase op CoachPhaseAwaitingAnswer attempts count_attempt"

definition hold_for_hesitation :: "coach_phase \<Rightarrow> nat \<Rightarrow> coach_decision" where
  "hold_for_hesitation phase attempts = (case phase of
     CoachPhaseAwaitingRestatement \<Rightarrow> plain_decision phase CoachActionRestate [] attempts True False
   | CoachPhaseExpanding \<Rightarrow> plain_decision phase CoachActionExpand [] attempts True False
   | CoachPhaseBlocked \<Rightarrow> plain_decision phase CoachActionRetry [] attempts True False
   | _ \<Rightarrow> plain_decision CoachPhaseAwaitingAnswer CoachActionElicit [] attempts True False)"

fun coach_phase_from_answer_phase :: "answer_phase \<Rightarrow> coach_phase" where
  "coach_phase_from_answer_phase AnswerPhaseNone = CoachPhaseNone"
| "coach_phase_from_answer_phase AnswerPhaseAwaitingAnswer = CoachPhaseAwaitingAnswer"
| "coach_phase_from_answer_phase AnswerPhaseAwaitingRestatement = CoachPhaseAwaitingRestatement"
| "coach_phase_from_answer_phase AnswerPhaseExpanding = CoachPhaseExpanding"
| "coach_phase_from_answer_phase AnswerPhaseComplete = CoachPhaseComplete"
| "coach_phase_from_answer_phase AnswerPhaseBlocked = CoachPhaseBlocked"
| "coach_phase_from_answer_phase _ = CoachPhaseBlocked"

definition guide_with_progress :: "(f64 \<Rightarrow> f64) \<Rightarrow> QuestionGate.operator \<Rightarrow> bool \<Rightarrow> controller_input \<Rightarrow> coach_decision" where
  "guide_with_progress lg op abstained inp =
     (let c = plan_answer_support lg inp;
          phase = coach_phase_from_answer_phase (ob_phase (cd_observation c));
          d = \<lparr>co_phase = CoachPhaseOther [], co_action = CoachActionNone, co_reply = [],
               co_attempts = cd_next_attempts c, co_keep = cd_keep_pending c,
               co_verified_first = cd_verified_first c, co_posterior = cd_posterior c, co_updated = True,
               co_reason = Some (cd_reason c)\<rparr>
      in case cd_action c of
        AnswerSupportComplete \<Rightarrow>
          d\<lparr>co_phase := CoachPhaseComplete, co_action := CoachActionComplete, co_keep := False,
            co_reply := (if cd_reason c = AnswerReasonLateAccepted then late_answer_reply
              else if phase = CoachPhaseExpanding \<or> abstained then completion_reply abstained
              else natural_continuation_reply op abstained)\<rparr>
      | AnswerSupportRelease \<Rightarrow>
          (release_decision (cd_next_attempts c))\<lparr>co_posterior := cd_posterior c, co_updated := True,
            co_reason := Some (cd_reason c)\<rparr>
      | AnswerSupportRestate \<Rightarrow>
          d\<lparr>co_phase := CoachPhaseAwaitingRestatement, co_action := CoachActionRestate,
            co_reply := gentle_reask_prompt op\<rparr>
      | AnswerSupportElicit \<Rightarrow>
          (if phase = CoachPhaseExpanding then
             d\<lparr>co_phase := CoachPhaseExpanding, co_action := CoachActionExpand, co_reply := expansion_prompt op\<rparr>
           else d\<lparr>co_phase := CoachPhaseAwaitingAnswer, co_action := CoachActionElicit, co_reply := core_prompt op\<rparr>)
      | AnswerSupportWait \<Rightarrow>
          d\<lparr>co_keep := True, co_action := CoachActionNone, co_reply := [], co_phase := phase\<rparr>)"

text \<open>The established policy: both verdicts are read in full.\<close>

definition attempt_succeeded :: "gate_assessment \<Rightarrow> assessment \<Rightarrow> bool" where
  "attempt_succeeded g critic \<longleftrightarrow>
     ga_outcome g = QuestionGate.OutcomeKeep \<and> ga_original_position g = QuestionGate.PositionFirst
     \<and> feq (ga_original_coverage g) (Fin 1) \<and> ga_satisfied g
     \<and> as_outcome critic = AnswerContract.OutcomeKeep \<and> as_satisfied critic
     \<and> me_position (as_metrics critic) = AnswerContract.PositionFirst
     \<and> feq (me_coverage (as_metrics critic)) (Fin 1)"

definition guide_attempt_core ::
  "QuestionGate.operator \<Rightarrow> coach_phase \<Rightarrow> nat \<Rightarrow> gate_assessment \<Rightarrow> assessment \<Rightarrow> bool \<Rightarrow> bool \<Rightarrow> bool \<Rightarrow> bool
     \<Rightarrow> coach_decision" where
  "guide_attempt_core op phase attempts g critic available abstained single require_restatement =
     (let covered = (feq (ga_original_coverage g) (Fin 1) \<and> feq (me_coverage (as_metrics critic)) (Fin 1));
          later = (ga_original_position g = QuestionGate.PositionLater
            \<or> me_position (as_metrics critic) = AnswerContract.PositionLater)
      in if \<not> available then
           plain_decision CoachPhaseBlocked CoachActionRetry reply_unavailable attempts True False
         else if attempt_succeeded g critic then
           let first = (phase \<noteq> CoachPhaseExpanding) in
           if single then
             plain_decision CoachPhaseComplete CoachActionComplete (natural_continuation_reply op abstained) attempts False first
           else if phase = CoachPhaseExpanding \<or> abstained then
             plain_decision CoachPhaseComplete CoachActionComplete (completion_reply abstained) attempts False first
           else
             plain_decision CoachPhaseComplete CoachActionComplete (natural_continuation_reply op abstained) attempts False first
         else if phase = CoachPhaseExpanding \<and> covered then
           plain_decision CoachPhaseComplete CoachActionComplete (completion_reply abstained) attempts False False
         else let n = (attempts + 1) mod 256 in
           if n \<ge> MaxCoachAttempts then release_decision MaxCoachAttempts
           else if phase = CoachPhaseExpanding then
             plain_decision CoachPhaseExpanding CoachActionExpand
               (if later then reply_expand_later else expansion_prompt op) n True False
           else if covered \<and> \<not> as_ambiguous critic \<and> later then
             (if require_restatement \<and> \<not> single then
                plain_decision CoachPhaseAwaitingRestatement CoachActionRestate (gentle_reask_prompt op) n True False
              else plain_decision CoachPhaseComplete CoachActionComplete late_answer_reply attempts False False)
           else if flt (ga_original_coverage g) (Fin 1) \<or> ga_original_position g = QuestionGate.PositionAbsent
             \<or> flt (me_coverage (as_metrics critic)) (Fin 1)
             \<or> me_position (as_metrics critic) = AnswerContract.PositionAbsent
             \<or> ga_outcome g = QuestionGate.OutcomeClarify \<or> as_outcome critic = AnswerContract.OutcomeClarify
             \<or> as_ambiguous critic then
             plain_decision CoachPhaseAwaitingAnswer CoachActionElicit (core_prompt op) n True False
           else plain_decision CoachPhaseBlocked CoachActionRetry reply_retry n True False)"

definition guide_attempt ::
  "QuestionGate.operator \<Rightarrow> coach_phase \<Rightarrow> nat \<Rightarrow> gate_assessment \<Rightarrow> assessment \<Rightarrow> bool \<Rightarrow> bool \<Rightarrow> bool \<Rightarrow> coach_decision" where
  "guide_attempt op phase attempts g critic available abstained single =
     guide_attempt_core op phase attempts g critic available abstained single False"

definition guide_attempt_with_restatement ::
  "QuestionGate.operator \<Rightarrow> coach_phase \<Rightarrow> nat \<Rightarrow> gate_assessment \<Rightarrow> assessment \<Rightarrow> bool \<Rightarrow> bool \<Rightarrow> bool \<Rightarrow> bool
     \<Rightarrow> coach_decision" where
  "guide_attempt_with_restatement op phase attempts g critic available abstained single require_restatement =
     guide_attempt_core op phase attempts g critic available abstained single require_restatement"

definition expansion_operator :: "QuestionGate.operator \<Rightarrow> QuestionGate.operator" where
  "expansion_operator op = (case op of
     QuestionGate.OperatorDefinition \<Rightarrow> QuestionGate.OperatorEvidence
   | QuestionGate.OperatorQuantity \<Rightarrow> QuestionGate.OperatorEvidence
   | QuestionGate.OperatorComparison \<Rightarrow> QuestionGate.OperatorEvidence
   | QuestionGate.OperatorEvidence \<Rightarrow> QuestionGate.OperatorEvidence
   | QuestionGate.OperatorProcedure \<Rightarrow> QuestionGate.OperatorState
   | _ \<Rightarrow> QuestionGate.OperatorCause)"

definition begin_expansion :: "QuestionGate.operator \<Rightarrow> coach_decision" where
  "begin_expansion op = plain_decision CoachPhaseExpanding CoachActionExpand (expansion_prompt op) 0 True True"

definition complete_expansion :: "bool \<Rightarrow> coach_decision" where
  "complete_expansion abstained =
     plain_decision CoachPhaseComplete CoachActionComplete (completion_reply abstained) 0 False False"

section \<open>The vocabulary\<close>

text \<open>Everything the coach can say.\<close>

definition coach_texts :: "string set" where
  "coach_texts = {[], reply_core_boolean, reply_core_choice, reply_core_quantity, reply_core_state,
     reply_core_cause, reply_core_purpose, reply_core_procedure, reply_core_definition,
     reply_core_comparison, reply_core_evidence, reply_core_open, reply_expand_evidence,
     reply_expand_state, reply_expand_reason, reply_reask, reply_complete_abstained, reply_complete,
     reply_natural_abstained, reply_natural_choice, reply_natural_quantity, reply_natural_state,
     reply_natural_cause, reply_natural_procedure, reply_natural_definition, reply_natural_evidence,
     reply_late, reply_release, reply_unavailable, reply_expand_later, reply_retry}"

lemma plain_simps [simp]:
  "co_phase (plain_decision ph act reply attempts keep first) = ph"
  "co_action (plain_decision ph act reply attempts keep first) = act"
  "co_reply (plain_decision ph act reply attempts keep first) = reply"
  "co_attempts (plain_decision ph act reply attempts keep first) = attempts"
  "co_keep (plain_decision ph act reply attempts keep first) = keep"
  "co_verified_first (plain_decision ph act reply attempts keep first) = first"
  by (simp_all add: plain_decision_def)

lemma text_simps [simp]:
  "core_prompt op \<in> coach_texts" "expansion_prompt op \<in> coach_texts" "gentle_reask_prompt op \<in> coach_texts"
  "completion_reply b \<in> coach_texts" "natural_continuation_reply op b \<in> coach_texts"
  "late_answer_reply \<in> coach_texts" "reply_release \<in> coach_texts" "[] \<in> coach_texts"
  "reply_unavailable \<in> coach_texts" "reply_expand_later \<in> coach_texts" "reply_retry \<in> coach_texts"
  by (auto simp: coach_texts_def core_prompt_def expansion_prompt_def gentle_reask_prompt_def
      completion_reply_def natural_continuation_reply_def late_answer_reply_def split: QuestionGate.operator.split)

lemma guide_progress_text: "co_reply (guide_with_progress lg op abstained inp) \<in> coach_texts"
  by (cases "cd_action (plan_answer_support lg inp)")
    (simp_all add: guide_with_progress_def Let_def release_decision_def)

lemma guide_core_text:
  "co_reply (guide_attempt_core op phase attempts g critic available abstained single restate) \<in> coach_texts"
  by (simp add: guide_attempt_core_def Let_def release_decision_def)

lemma hold_text: "co_reply (hold_for_hesitation phase attempts) \<in> coach_texts"
  by (cases phase) (simp_all add: hold_for_hesitation_def)

lemma guide_awaiting_text: "co_reply (guide_awaiting_in_phase op phase attempts count_attempt) \<in> coach_texts"
  by (simp add: guide_awaiting_in_phase_def Let_def release_decision_def)

lemma expansion_texts:
  "co_reply (begin_expansion op) \<in> coach_texts" "co_reply (complete_expansion abstained) \<in> coach_texts"
  by (simp_all add: begin_expansion_def complete_expansion_def)

lemmas coach_speech = guide_progress_text guide_core_text hold_text guide_awaiting_text expansion_texts

text \<open>
  The coach says only what was written down: whatever the question, the answers' verdicts, the
  posterior and the flags are, every decision of the coach speaks one of the fixed texts or nothing,
  so no word of the person, of a reconstruction or of a model can reach the speaker through it.
\<close>

theorem coach_says_fixed_texts:
  "co_reply (guide_with_progress lg op abstained inp) \<in> coach_texts
   \<and> co_reply (guide_attempt_with_restatement op phase attempts g critic available abstained single restate) \<in> coach_texts
   \<and> co_reply (guide_attempt op phase attempts g critic available abstained single) \<in> coach_texts
   \<and> co_reply (guide_awaiting_in_phase op phase attempts count_attempt) \<in> coach_texts
   \<and> co_reply (hold_for_hesitation phase attempts) \<in> coach_texts
   \<and> co_reply (begin_expansion op) \<in> coach_texts \<and> co_reply (complete_expansion abstained) \<in> coach_texts"
  by (simp add: guide_attempt_def guide_attempt_with_restatement_def coach_speech)

text \<open>Success is what both verdicts say.\<close>

lemma core_verified_first:
  "co_verified_first (guide_attempt_core op phase attempts g critic available abstained single restate) \<longleftrightarrow>
     available \<and> attempt_succeeded g critic \<and> phase \<noteq> CoachPhaseExpanding"
  by (auto simp: guide_attempt_core_def Let_def release_decision_def)

lemma progress_fields:
  "co_verified_first (guide_with_progress lg op abstained inp) = cd_verified_first (plan_answer_support lg inp)"
  "co_attempts (guide_with_progress lg op abstained inp) = cd_next_attempts (plan_answer_support lg inp)"
  "co_posterior (guide_with_progress lg op abstained inp) = cd_posterior (plan_answer_support lg inp)"
  by (cases "cd_action (plan_answer_support lg inp)";
      auto simp: guide_with_progress_def Let_def release_decision_def)+

end
