(* ===== verification/TurnContracts.thy ===== *)
theory TurnContracts
  imports LongMemory Coach
begin

text \<open>
  The contracts of \<open>conversation\<close> (\<open>contracts.go\<close>) with the parts of the state they normalise:
  \<open>support.go\<close>, the frames of \<open>speech_adaptation.go\<close> and \<open>guest_trial.go\<close>, and the state itself
  (\<open>state.go\<close>). A normaliser gives the value that is kept or an error; it is idempotent, which is what
  lets a state be normalised when it is sealed and again when it is opened.

  Pointers are options. The operators of \<open>respondent\<close> and of \<open>answercontract\<close> are strings in the
  source and converted as such.
\<close>

section \<open>Errors, turns and frames\<close>

text \<open>\<open>ErrExpiredStateToken\<close> stands for the pair of it and \<open>ErrInvalidStateToken\<close> that \<open>open\<close> joins.\<close>

datatype conv_error = ErrInvalidTurn | ErrInvalidStateToken | ErrExpiredStateToken | ErrModelOutputInvalid

definition MaxUtteranceRunes :: nat where "MaxUtteranceRunes = 4000"
definition MaxStateTokenBytes :: nat where "MaxStateTokenBytes = 16 * 1024"
definition MaxInlinePDFBytes :: nat where "MaxInlinePDFBytes = 7 * 1024 * 1024"
definition MaxSpokenReplyRunes :: nat where "MaxSpokenReplyRunes = 480"
definition maxConversationSummaryRunes :: nat where "maxConversationSummaryRunes = 320"
definition maxDocumentSummaryRunes :: nat where "maxDocumentSummaryRunes = 480"
definition maxGraphNodesPerKind :: nat where "maxGraphNodesPerKind = 3"
definition maxGraphNodeRunes :: nat where "maxGraphNodeRunes = 100"
definition maxPendingSubjectRunes :: nat where "maxPendingSubjectRunes = 100"
definition coachContinuityTagBytes :: nat where "coachContinuityTagBytes = 16"
definition SchemaVersion :: int where "SchemaVersion = 1"
definition assistantFollowUpSubject :: string where
  "assistantFollowUpSubject = utf8_encode [0x4B, 0x4F, 0x54, 0x41, 0x45, 0x304C, 0x76F4, 0x524D, 0x306B, 0x5C0B, 0x306D, 0x305F, 0x3053, 0x3068]"

datatype input_origin =
  InputOriginUnknown | InputOriginProvisionalVoice | InputOriginCommittedVoice | InputOriginOther string

datatype floor_evidence =
  FloorEvidenceUnknown | FloorEvidenceProvisionalCommitGate | FloorEvidenceHybridCommitted | FloorEvidenceOther nat

record inline_pdf =
  pdf_mime :: string
  pdf_data :: string

record voice_turn =
  vt_schema :: int
  vt_utterance :: string
  vt_state_token :: string
  vt_memory :: "payload option"
  vt_memory_generation :: int
  vt_request_id :: string
  vt_ambient :: bool
  vt_foreground :: bool
  vt_extended :: bool
  vt_guest :: bool
  vt_speculative :: bool
  vt_origin :: input_origin
  vt_cancelable :: bool
  vt_floor :: floor_evidence
  vt_research_disabled :: bool
  vt_pdf :: "inline_pdf option"

datatype answer_transition_evidence =
  AnswerTransitionEvidenceNone | AnswerTransitionEvidenceQuestionBoundInputClauseLater
  | AnswerTransitionEvidenceOther string

record arbiter =
  ab_benefit :: f64
  ab_interruption_cost :: f64
  ab_urgency :: f64
  ab_confidence :: f64
  ab_score :: f64
  ab_act :: string

record thought_graph =
  tg_goals :: "string list"
  tg_claims :: "string list"
  tg_grounds :: "string list"
  tg_assumptions :: "string list"
  tg_constraints :: "string list"
  tg_open_loops :: "string list"
  tg_contradictions :: "string list"
  tg_decisions :: "string list"

record pending_answer =
  pf_active :: bool
  pf_operator :: AnswerContract.operator
  pf_subject :: string
  pf_slots :: "required_slot list"
  pf_expansion :: AnswerContract.operator
  pf_phase :: coach_phase
  pf_attempts :: nat
  pf_follow_up :: bool
  pf_opt_in :: bool
  pf_restatement_tag :: string
  pf_instance_tag :: string
  pf_question_tag :: string
  pf_continuity_tag :: string
  pf_transition :: answer_transition_evidence
  pf_native_tag :: string
  pf_progress :: "stored_progress option"

section \<open>Texts\<close>

text \<open>
  \<open>strings.ToLower\<close>, as far as the ASCII letters of the result go: besides \<open>A\<close> to \<open>Z\<close> two letters
  have an ASCII lower case, the Kelvin sign and the dotted capital I. Other letters stay outside ASCII.
\<close>

definition lower_rune :: "nat \<Rightarrow> nat" where
  "lower_rune n = (if 65 \<le> n \<and> n \<le> 90 then n + 32 else if n = 0x212A then 0x6B else if n = 0x130 then 0x69 else n)"

definition lower_ascii :: "string \<Rightarrow> string" where
  "lower_ascii s = utf8_encode (List.map (\<lambda>c. lower_rune (fst c)) (chunks s))"

definition stateEmailPattern :: re where
  "stateEmailPattern = seqs [Plus (Cls False [(0x61, 0x7A), (0x30, 0x39), (0x2E, 0x2E), (0x21, 0x21), (0x23, 0x23), (0x24, 0x24), (0x25, 0x25), (0x26, 0x26), (0x27, 0x27), (0x2A, 0x2A), (0x2B, 0x2B), (0x2F, 0x2F), (0x3D, 0x3D), (0x3F, 0x3F), (0x5E, 0x5E), (0x5F, 0x5F), (0x60, 0x60), (0x7B, 0x7B), (0x7C, 0x7C), (0x7D, 0x7D), (0x7E, 0x7E), (0x2D, 0x2D), (0x41, 0x5A), (0x212A, 0x212A), (0x17F, 0x17F)]), Lit [0x40], Cls False [(0x61, 0x7A), (0x30, 0x39), (0x41, 0x5A), (0x212A, 0x212A), (0x17F, 0x17F)], Opt (seqs [Rep (Cls False [(0x61, 0x7A), (0x30, 0x39), (0x2D, 0x2D), (0x41, 0x5A), (0x212A, 0x212A), (0x17F, 0x17F)]) 0 61, Cls False [(0x61, 0x7A), (0x30, 0x39), (0x41, 0x5A), (0x212A, 0x212A), (0x17F, 0x17F)]]), Plus (seqs [Lit [0x2E], Cls False [(0x61, 0x7A), (0x30, 0x39), (0x41, 0x5A), (0x212A, 0x212A), (0x17F, 0x17F)], Opt (seqs [Rep (Cls False [(0x61, 0x7A), (0x30, 0x39), (0x2D, 0x2D), (0x41, 0x5A), (0x212A, 0x212A), (0x17F, 0x17F)]) 0 61, Cls False [(0x61, 0x7A), (0x30, 0x39), (0x41, 0x5A), (0x212A, 0x212A), (0x17F, 0x17F)]])])]"

definition stateLongNumberPattern :: re where
  "stateLongNumberPattern = seqs [Cls False [(0x30, 0x39)], seqs [Rep (seqs [Star (Cls False [(0x9, 0xA), (0xC, 0xD), (0x20, 0x20), (0x28, 0x28), (0x29, 0x29), (0x2E, 0x2E), (0x2B, 0x2B), (0x5F, 0x5F), (0x2D, 0x2D)]), Cls False [(0x30, 0x39)]]) 6 6, Star (seqs [Star (Cls False [(0x9, 0xA), (0xC, 0xD), (0x20, 0x20), (0x28, 0x28), (0x29, 0x29), (0x2E, 0x2E), (0x2B, 0x2B), (0x5F, 0x5F), (0x2D, 0x2D)]), Cls False [(0x30, 0x39)]])]]"

definition stateOpaqueTokenPattern :: re where
  "stateOpaqueTokenPattern = alts [seqs [Rep (Cls False [(0x41, 0x5A), (0x61, 0x7A), (0x30, 0x39), (0x5F, 0x5F), (0x2D, 0x2D)]) 24 24, Star (Cls False [(0x41, 0x5A), (0x61, 0x7A), (0x30, 0x39), (0x5F, 0x5F), (0x2D, 0x2D)])],
        seqs [Rep (Cls False [(0x41, 0x46), (0x61, 0x66), (0x30, 0x39)]) 32 32, Star (Cls False [(0x41, 0x46), (0x61, 0x66), (0x30, 0x39)])]]"

definition sensitive_markers :: "string list" where
  "sensitive_markers = [''authorization:'', ''bearer '', ''api_key'', ''api-key'', ''apikey'', ''access_token'',
     ''refresh_token'', ''id_token'', ''password'', ''passwd'', ''secret'', ''sk-'', ''AIza'', ''eyJ'']"

definition contains_sensitive_state_text :: "string \<Rightarrow> bool" where
  "contains_sensitive_state_text value \<longleftrightarrow>
     list_ex (\<lambda>m. contains (lower_ascii value) (lower_ascii m)) sensitive_markers
     \<or> match_string stateEmailPattern value \<or> match_string stateLongNumberPattern value
     \<or> match_string stateOpaqueTokenPattern value"

definition valid_coach_control_tag :: "string \<Rightarrow> bool" where
  "valid_coach_control_tag value =
     (case b64_decode value of None \<Rightarrow> False
      | Some raw \<Rightarrow> length raw = coachContinuityTagBytes \<and> b64_encode raw = value)"

definition valid_coach_restatement_tag :: "string \<Rightarrow> bool" where
  "valid_coach_restatement_tag value = valid_coach_control_tag value"

section \<open>Operators\<close>

text \<open>The conversions between the two string types with the same values.\<close>

fun respondent_op :: "AnswerContract.operator \<Rightarrow> QuestionGate.operator" where
  "respondent_op AnswerContract.OperatorBoolean = QuestionGate.OperatorBoolean"
| "respondent_op AnswerContract.OperatorChoice = QuestionGate.OperatorChoice"
| "respondent_op AnswerContract.OperatorQuantity = QuestionGate.OperatorQuantity"
| "respondent_op AnswerContract.OperatorState = QuestionGate.OperatorState"
| "respondent_op AnswerContract.OperatorCause = QuestionGate.OperatorCause"
| "respondent_op AnswerContract.OperatorProcedure = QuestionGate.OperatorProcedure"
| "respondent_op AnswerContract.OperatorDefinition = QuestionGate.OperatorDefinition"
| "respondent_op AnswerContract.OperatorComparison = QuestionGate.OperatorComparison"
| "respondent_op AnswerContract.OperatorEvidence = QuestionGate.OperatorEvidence"
| "respondent_op AnswerContract.OperatorPurpose = QuestionGate.OperatorPurpose"
| "respondent_op AnswerContract.OperatorOpen = QuestionGate.OperatorOpen"
| "respondent_op (AnswerContract.OperatorOther s) = QuestionGate.OperatorOther s"

fun contract_op :: "QuestionGate.operator \<Rightarrow> AnswerContract.operator" where
  "contract_op QuestionGate.OperatorBoolean = AnswerContract.OperatorBoolean"
| "contract_op QuestionGate.OperatorChoice = AnswerContract.OperatorChoice"
| "contract_op QuestionGate.OperatorQuantity = AnswerContract.OperatorQuantity"
| "contract_op QuestionGate.OperatorState = AnswerContract.OperatorState"
| "contract_op QuestionGate.OperatorCause = AnswerContract.OperatorCause"
| "contract_op QuestionGate.OperatorProcedure = AnswerContract.OperatorProcedure"
| "contract_op QuestionGate.OperatorDefinition = AnswerContract.OperatorDefinition"
| "contract_op QuestionGate.OperatorComparison = AnswerContract.OperatorComparison"
| "contract_op QuestionGate.OperatorEvidence = AnswerContract.OperatorEvidence"
| "contract_op QuestionGate.OperatorPurpose = AnswerContract.OperatorPurpose"
| "contract_op QuestionGate.OperatorOpen = AnswerContract.OperatorOpen"
| "contract_op (QuestionGate.OperatorOther s) = AnswerContract.OperatorOther s"

lemma contract_op_inverse [simp]: "contract_op (respondent_op x) = x" "respondent_op (contract_op y) = y"
  by (cases x; simp) (cases y; simp)

section \<open>Turns\<close>

definition normalize_turn :: "lm_env \<Rightarrow> voice_turn \<Rightarrow> (conv_error, voice_turn) result" where
  "normalize_turn E t =
     (if vt_schema t \<noteq> SchemaVersion then Inl ErrInvalidTurn
      else if vt_origin t \<notin> {InputOriginUnknown, InputOriginProvisionalVoice, InputOriginCommittedVoice} then Inl ErrInvalidTurn
      else if vt_floor t \<notin> {FloorEvidenceUnknown, FloorEvidenceProvisionalCommitGate, FloorEvidenceHybridCommitted}
        then Inl ErrInvalidTurn
      else if vt_speculative t \<and> vt_origin t = InputOriginCommittedVoice then Inl ErrInvalidTurn
      else if vt_speculative t \<and> vt_floor t = FloorEvidenceHybridCommitted
        \<or> \<not> vt_speculative t \<and> vt_floor t = FloorEvidenceProvisionalCommitGate then Inl ErrInvalidTurn
      else if vt_foreground t \<and> \<not> vt_ambient t then Inl ErrInvalidTurn
      else if \<not> utf8_valid (vt_utterance t) then Inl ErrInvalidTurn
      else let t = t\<lparr>vt_utterance := collapse_space (vt_utterance t)\<rparr> in
        if vt_utterance t = [] \<or> rune_count (vt_utterance t) > MaxUtteranceRunes then Inl ErrInvalidTurn
        else if \<not> utf8_valid (vt_state_token t) \<or> length (vt_state_token t) > MaxStateTokenBytes then Inl ErrInvalidTurn
        else if vt_state_token t \<noteq> trim_space (vt_state_token t) then Inl ErrInvalidTurn
        else if \<not> utf8_valid (vt_request_id t) \<or> length (vt_request_id t) > 64
          \<or> vt_request_id t \<noteq> trim_space (vt_request_id t) then Inl ErrInvalidTurn
        else if (vt_memory t = None) \<noteq> (vt_memory_generation t = 0) \<or> vt_memory_generation t < 0
          \<or> (case vt_memory t of None \<Rightarrow> False | Some p \<Rightarrow> vt_guest t \<or> validate_payload E p \<noteq> None) then Inl ErrInvalidTurn
        else case vt_pdf t of None \<Rightarrow> Inr t
        | Some pdf \<Rightarrow>
          let pdf = pdf\<lparr>pdf_mime := lower_ascii (trim_space (pdf_mime pdf))\<rparr> in
          if pdf_mime pdf \<noteq> ''application/pdf'' \<or> pdf_data pdf = [] \<or> length (pdf_data pdf) > MaxInlinePDFBytes
            \<or> \<not> prefix ''%PDF-'' (pdf_data pdf) then Inl ErrInvalidTurn
          else Inr (t\<lparr>vt_pdf := Some pdf\<rparr>))"

section \<open>Graphs\<close>

fun nodes_loop :: "string list \<Rightarrow> string list \<Rightarrow> (conv_error, string list) result" where
  "nodes_loop acc [] = Inr acc"
| "nodes_loop acc (n # ns) =
     (if \<not> utf8_valid n then Inl ErrModelOutputInvalid
      else let n = collapse_space n in
        if n = [] \<or> rune_count n > maxGraphNodeRunes then Inl ErrModelOutputInvalid
        else if n \<in> set acc then nodes_loop acc ns
        else nodes_loop (acc @ [n]) ns)"

definition normalize_nodes :: "string list \<Rightarrow> (conv_error, string list) result" where
  "normalize_nodes nodes =
     (if length nodes > maxGraphNodesPerKind then Inl ErrModelOutputInvalid else nodes_loop [] nodes)"

fun traverse :: "('a \<Rightarrow> ('e, 'b) result) \<Rightarrow> 'a list \<Rightarrow> ('e, 'b list) result" where
  "traverse f [] = Inr []"
| "traverse f (x # xs) = (case f x of Inl e \<Rightarrow> Inl e | Inr y \<Rightarrow>
     (case traverse f xs of Inl e \<Rightarrow> Inl e | Inr ys \<Rightarrow> Inr (y # ys)))"

definition graph_kinds :: "thought_graph \<Rightarrow> string list list" where
  "graph_kinds g = [tg_goals g, tg_claims g, tg_grounds g, tg_assumptions g, tg_constraints g, tg_open_loops g,
     tg_contradictions g, tg_decisions g]"

definition graph_of :: "string list list \<Rightarrow> thought_graph" where
  "graph_of ks = \<lparr>tg_goals = ks ! 0, tg_claims = ks ! 1, tg_grounds = ks ! 2, tg_assumptions = ks ! 3,
     tg_constraints = ks ! 4, tg_open_loops = ks ! 5, tg_contradictions = ks ! 6, tg_decisions = ks ! 7\<rparr>"

text \<open>The eight kinds in the order of the source; the first error is returned.\<close>

definition normalize_graph :: "thought_graph \<Rightarrow> (conv_error, thought_graph) result" where
  "normalize_graph g = (case traverse normalize_nodes (graph_kinds g) of Inl e \<Rightarrow> Inl e | Inr ks \<Rightarrow> Inr (graph_of ks))"

section \<open>Pending answers\<close>

definition empty_pending_answer :: pending_answer where
  "empty_pending_answer =
     \<lparr>pf_active = False, pf_operator = AnswerContract.OperatorOther [], pf_subject = [], pf_slots = [],
      pf_expansion = AnswerContract.OperatorOther [], pf_phase = CoachPhaseNone, pf_attempts = 0,
      pf_follow_up = False, pf_opt_in = False, pf_restatement_tag = [], pf_instance_tag = [],
      pf_question_tag = [], pf_continuity_tag = [], pf_transition = AnswerTransitionEvidenceNone,
      pf_native_tag = [], pf_progress = None\<rparr>"

definition active_coach_phase :: "coach_phase \<Rightarrow> bool" where
  "active_coach_phase p \<longleftrightarrow> p \<in> {CoachPhaseAwaitingAnswer, CoachPhaseAwaitingRestatement, CoachPhaseExpanding}"

fun pending_subject_for_operator :: "AnswerContract.operator \<Rightarrow> string" where
  "pending_subject_for_operator AnswerContract.OperatorBoolean = utf8_encode [0x8CEA, 0x554F, 0x304C, 0x6C42, 0x3081, 0x308B, 0x53EF, 0x5426]"
| "pending_subject_for_operator AnswerContract.OperatorChoice = utf8_encode [0x8CEA, 0x554F, 0x304C, 0x6C42, 0x3081, 0x308B, 0x9078, 0x629E]"
| "pending_subject_for_operator AnswerContract.OperatorQuantity = utf8_encode [0x8CEA, 0x554F, 0x304C, 0x6C42, 0x3081, 0x308B, 0x6570, 0x91CF]"
| "pending_subject_for_operator AnswerContract.OperatorState = utf8_encode [0x8CEA, 0x554F, 0x304C, 0x6C42, 0x3081, 0x308B, 0x72B6, 0x614B]"
| "pending_subject_for_operator AnswerContract.OperatorCause = utf8_encode [0x8CEA, 0x554F, 0x304C, 0x6C42, 0x3081, 0x308B, 0x539F, 0x56E0]"
| "pending_subject_for_operator AnswerContract.OperatorPurpose = utf8_encode [0x8CEA, 0x554F, 0x304C, 0x6C42, 0x3081, 0x308B, 0x76EE, 0x7684]"
| "pending_subject_for_operator AnswerContract.OperatorProcedure = utf8_encode [0x8CEA, 0x554F, 0x304C, 0x6C42, 0x3081, 0x308B, 0x624B, 0x9806]"
| "pending_subject_for_operator AnswerContract.OperatorDefinition = utf8_encode [0x8CEA, 0x554F, 0x304C, 0x6C42, 0x3081, 0x308B, 0x5B9A, 0x7FA9]"
| "pending_subject_for_operator AnswerContract.OperatorComparison = utf8_encode [0x8CEA, 0x554F, 0x304C, 0x6C42, 0x3081, 0x308B, 0x9055, 0x3044]"
| "pending_subject_for_operator AnswerContract.OperatorEvidence = utf8_encode [0x8CEA, 0x554F, 0x304C, 0x6C42, 0x3081, 0x308B, 0x6839, 0x62E0]"
| "pending_subject_for_operator _ = utf8_encode [0x8CEA, 0x554F, 0x304C, 0x6C42, 0x3081, 0x308B, 0x7B54, 0x3048]"

definition continuity_protected :: "pending_answer \<Rightarrow> bool" where
  "continuity_protected f \<longleftrightarrow> pf_instance_tag f \<noteq> [] \<or> pf_question_tag f \<noteq> [] \<or> pf_continuity_tag f \<noteq> []"

definition default_expansion :: "AnswerContract.operator \<Rightarrow> AnswerContract.operator" where
  "default_expansion op = contract_op (expansion_operator (respondent_op op))"

text \<open>What the compatibility steps fill in before the frame is checked.\<close>

definition fill_legacy :: "pending_answer \<Rightarrow> pending_answer" where
  "fill_legacy f =
     (let f = (if pf_phase f = CoachPhaseOther [] then f\<lparr>pf_phase := CoachPhaseAwaitingAnswer\<rparr> else f)
      in if pf_expansion f = AnswerContract.OperatorOther [] then f\<lparr>pf_expansion := default_expansion (pf_operator f)\<rparr> else f)"

definition fill_unit :: "pending_answer \<Rightarrow> pending_answer option" where
  "fill_unit f =
     (if pf_operator f = AnswerContract.OperatorQuantity \<and> AnswerContract.SlotUnit \<notin> set (pf_slots f)
      then if length (pf_slots f) \<ge> MaxRequiredSlots then None
           else Some (f\<lparr>pf_slots := pf_slots f @ [AnswerContract.SlotUnit]\<rparr>)
      else Some f)"

definition fixed_subject :: "pending_answer \<Rightarrow> string" where
  "fixed_subject f =
     (if continuity_protected f
      then if pf_follow_up f then assistantFollowUpSubject else pending_subject_for_operator (pf_operator f)
      else if pf_native_tag f \<noteq> [] then pending_subject_for_operator AnswerContract.OperatorOpen
      else collapse_space (pf_subject f))"

text \<open>The conditions of a native coach scope, of a restatement and of an antecedent.\<close>

definition native_scope_ok :: "pending_answer \<Rightarrow> bool" where
  "native_scope_ok f \<longleftrightarrow>
     pf_phase f = CoachPhaseAwaitingAnswer \<and> pf_operator f = AnswerContract.OperatorOpen
     \<and> pf_expansion f = default_expansion AnswerContract.OperatorOpen
     \<and> pf_slots f = [AnswerContract.SlotPosition] \<and> \<not> pf_follow_up f \<and> \<not> pf_opt_in f
     \<and> pf_restatement_tag f = [] \<and> pf_instance_tag f = [] \<and> pf_question_tag f = [] \<and> pf_continuity_tag f = []"

definition transition_ok :: "pending_answer \<Rightarrow> bool" where
  "transition_ok f \<longleftrightarrow>
     pf_phase f = CoachPhaseAwaitingRestatement \<and> pf_instance_tag f \<noteq> [] \<and> pf_question_tag f \<noteq> []
     \<and> pf_continuity_tag f \<noteq> [] \<and> \<not> pf_follow_up f \<and> \<not> pf_opt_in f"

definition pending_frame_ok :: "pending_answer \<Rightarrow> bool" where
  "pending_frame_ok f \<longleftrightarrow>
     AnswerContract.target_slot (pf_operator f) \<noteq> None \<and> AnswerContract.target_slot (pf_expansion f) \<noteq> None
     \<and> active_coach_phase (pf_phase f) \<and> pf_attempts f \<le> MaxCoachAttempts
     \<and> utf8_valid (pf_subject f) \<and> pf_subject f \<noteq> [] \<and> rune_count (pf_subject f) \<le> maxPendingSubjectRunes
     \<and> (continuity_protected f \<or> \<not> contains_sensitive_state_text (pf_subject f))
     \<and> (continuity_protected f \<or> \<not> pf_follow_up f \<or> pf_subject f = assistantFollowUpSubject)
     \<and> (pf_opt_in f \<longrightarrow> \<not> pf_follow_up f \<and> pf_question_tag f \<noteq> [])
     \<and> (pf_instance_tag f \<noteq> [] \<longrightarrow> pf_question_tag f \<noteq> [] \<and> \<not> pf_follow_up f)
     \<and> \<not> (pf_follow_up f \<and> pf_phase f = CoachPhaseExpanding)
     \<and> (pf_native_tag f \<noteq> [] \<longrightarrow> native_scope_ok f)
     \<and> (pf_restatement_tag f \<noteq> [] \<longrightarrow>
          pf_phase f = CoachPhaseAwaitingRestatement \<and> valid_coach_restatement_tag (pf_restatement_tag f))
     \<and> (pf_transition f \<noteq> AnswerTransitionEvidenceNone \<longrightarrow> transition_ok f)
     \<and> pf_slots f \<noteq> [] \<and> length (pf_slots f) \<le> MaxRequiredSlots"

definition pending_tags_ok :: "pending_answer \<Rightarrow> bool" where
  "pending_tags_ok f \<longleftrightarrow> list_all (\<lambda>t. t = [] \<or> valid_coach_control_tag t)
     [pf_instance_tag f, pf_question_tag f, pf_continuity_tag f, pf_native_tag f]"

definition pending_slots_ok :: "pending_answer \<Rightarrow> bool" where
  "pending_slots_ok f \<longleftrightarrow> distinct (pf_slots f)
     \<and> (case AnswerContract.target_slot (pf_operator f) of None \<Rightarrow> False | Some t \<Rightarrow> t \<in> set (pf_slots f))"

definition normalize_pending_answer :: "pending_answer \<Rightarrow> (conv_error, pending_answer) result" where
  "normalize_pending_answer f0 =
     (if \<not> pf_active f0 then Inr empty_pending_answer
      else case fill_unit (fill_legacy f0) of None \<Rightarrow> Inl ErrInvalidStateToken
      | Some f \<Rightarrow>
        if (case pf_progress f of None \<Rightarrow> False | Some p \<Rightarrow> \<not> stored_valid p) then Inl ErrInvalidStateToken
        else let f = f\<lparr>pf_subject := fixed_subject f\<rparr> in
          if pf_transition f \<notin> {AnswerTransitionEvidenceNone, AnswerTransitionEvidenceQuestionBoundInputClauseLater}
          then Inl ErrInvalidStateToken
          else if \<not> pending_frame_ok f then Inl ErrInvalidStateToken
          else if \<not> pending_tags_ok f then Inl ErrInvalidStateToken
          else if \<not> pending_slots_ok f then Inl ErrInvalidStateToken
          else Inr f)"

section \<open>The arbiter's decision and the fixed vocabularies\<close>

definition allowed_act :: "string \<Rightarrow> bool" where
  "allowed_act a \<longleftrightarrow> a \<in> {''silent'', ''reflect'', ''clarify'', ''counterexample'', ''restructure'', ''paper_check''}"

definition validate_arbiter :: "arbiter \<Rightarrow> conv_error option" where
  "validate_arbiter d =
     (if list_ex (\<lambda>v. is_nan v \<or> is_inf v \<or> flt v (Fin 0) \<or> flt (Fin 1) v)
          [ab_benefit d, ab_interruption_cost d, ab_urgency d, ab_confidence d]
      then Some ErrModelOutputInvalid
      else if \<not> allowed_act (ab_act d) then Some ErrModelOutputInvalid else None)"

definition allowed_domain :: "string \<Rightarrow> bool" where
  "allowed_domain d \<longleftrightarrow> d \<in> {''general'', ''daily'', ''work'', ''education'', ''research'', ''technical'',
     ''health'', ''legal'', ''finance'', ''creative'', ''other''}"

definition allowed_intent :: "string \<Rightarrow> bool" where
  "allowed_intent i \<longleftrightarrow> i \<in> {''answer'', ''explain'', ''decide'', ''compare'', ''plan'', ''debug'', ''learn'',
     ''practice'', ''verify'', ''create'', ''other''}"

definition allowed_argument_structure :: "string \<Rightarrow> bool" where
  "allowed_argument_structure s \<longleftrightarrow> s \<in> {''direct_answer'', ''conclusion_reason'', ''claim_evidence_limit'',
     ''hypothesis_evidence_limit'', ''steps_checks'', ''comparison_criteria_recommendation'',
     ''clarifying_question'', ''safety_boundary''}"

definition allowed_intervention_policy :: "string \<Rightarrow> bool" where
  "allowed_intervention_policy p \<longleftrightarrow> p \<in> {''answer'', ''coach'', ''clarify'', ''safety'', ''wait'', ''paper_check''}"

definition allowed_assistance_target :: "string \<Rightarrow> bool" where
  "allowed_assistance_target t \<longleftrightarrow> t = ''assistant'' \<or> t = ''respondent''"

definition allowed_respondent_stage :: "string \<Rightarrow> bool" where
  "allowed_respondent_stage s \<longleftrightarrow> s \<in> {''none'', ''awaiting_answer'', ''restructure''}"

section \<open>Support\<close>

definition maxSupportFadingStage :: nat where "maxSupportFadingStage = 2"
definition verifiedAnswersToFade :: nat where "verifiedAnswersToFade = 2"
definition questionCooldownAfterAnswer :: nat where "questionCooldownAfterAnswer = 2"
definition questionCooldownAfterPass :: nat where "questionCooldownAfterPass = 2"
definition questionCooldownAfterRelease :: nat where "questionCooldownAfterRelease = 3"
definition maxQuestionCooldown :: nat where "maxQuestionCooldown = 3"

record support =
  cs_fading :: nat
  cs_verified :: nat
  cs_cooldown :: nat
  cs_companion :: bool

definition zero_support :: support where
  "zero_support = \<lparr>cs_fading = 0, cs_verified = 0, cs_cooldown = 0, cs_companion = False\<rparr>"

definition support_value :: "support option \<Rightarrow> support" where
  "support_value p = (case p of None \<Rightarrow> zero_support | Some s \<Rightarrow> s)"

definition compact_support :: "support \<Rightarrow> support option" where
  "compact_support p = (if p = zero_support then None else Some p)"

definition normalize_support :: "support option \<Rightarrow> (conv_error, support option) result" where
  "normalize_support profile = (case profile of None \<Rightarrow> Inr None
     | Some p \<Rightarrow>
       if cs_fading p > maxSupportFadingStage \<or> cs_verified p \<ge> verifiedAnswersToFade
         \<or> cs_cooldown p > maxQuestionCooldown then Inl ErrInvalidStateToken
       else Inr (compact_support (if cs_fading p = maxSupportFadingStage then p\<lparr>cs_verified := 0\<rparr> else p)))"

definition support_prompt_style :: "support \<Rightarrow> string" where
  "support_prompt_style p =
     (if cs_companion p then ''companion'' else if cs_cooldown p > 0 then ''listen''
      else if cs_fading p = 0 then ''guided'' else if cs_fading p = 1 then ''light'' else ''natural'')"

definition record_verified_first_answer :: "support \<Rightarrow> support" where
  "record_verified_first_answer p =
     (if cs_companion p then p
      else let p = p\<lparr>cs_cooldown := questionCooldownAfterAnswer\<rparr> in
        if cs_fading p \<ge> maxSupportFadingStage then p\<lparr>cs_verified := 0\<rparr>
        else let p = p\<lparr>cs_verified := cs_verified p + 1\<rparr> in
          if cs_verified p \<ge> verifiedAnswersToFade then p\<lparr>cs_fading := cs_fading p + 1, cs_verified := 0\<rparr> else p)"

definition record_support_release :: "support \<Rightarrow> support" where
  "record_support_release p =
     (let p = p\<lparr>cs_verified := 0, cs_cooldown := questionCooldownAfterRelease\<rparr>
      in if cs_fading p > 0 then p\<lparr>cs_fading := cs_fading p - 1\<rparr> else p)"

definition record_support_pass :: "support \<Rightarrow> support" where
  "record_support_pass p = p\<lparr>cs_verified := 0, cs_cooldown := questionCooldownAfterPass\<rparr>"

definition consume_question_cooldown :: "support \<Rightarrow> support \<times> bool" where
  "consume_question_cooldown p =
     (if cs_cooldown p = 0 then (p, False) else (p\<lparr>cs_cooldown := cs_cooldown p - 1\<rparr>, True))"

section \<open>Speech adaptation and guest trials\<close>

definition speechAdaptationTTL :: duration where "speechAdaptationTTL = 5 * minute"

record speech_frame =
  sf_digest :: string
  sf_issued :: int
  sf_expires :: int
  sf_turn :: int

definition no_speech_frame :: speech_frame where
  "no_speech_frame = \<lparr>sf_digest = [], sf_issued = 0, sf_expires = 0, sf_turn = 0\<rparr>"

definition normalize_speech_frame :: "speech_frame \<Rightarrow> int \<Rightarrow> (conv_error, speech_frame) result" where
  "normalize_speech_frame f state_turn =
     (if sf_digest f = [] \<and> sf_issued f = 0 \<and> sf_expires f = 0 \<and> sf_turn f = 0 then Inr no_speech_frame
      else case b64_decode (sf_digest f) of None \<Rightarrow> Inl ErrInvalidStateToken
      | Some raw \<Rightarrow>
        if length raw \<noteq> 32 \<or> sf_turn f \<noteq> state_turn \<or> wrap64 (sf_expires f - sf_issued f) \<noteq> speechAdaptationTTL div second
        then Inl ErrInvalidStateToken else Inr f)"

record trial_binding =
  tb_id :: string
  tb_generation :: int
  tb_app_tag :: string
  tb_expires_us :: int

record guest_frame =
  gs_version :: int
  gs_question :: string
  gs_scope :: string
  gs_assisted :: bool
  gs_outcome :: string
  gs_binding :: "trial_binding option"

definition guestTransferQuestionID :: string where "guestTransferQuestionID = ''rest_activity_v1''"
definition guestTransferQuestion :: string where
  "guestTransferQuestion = utf8_encode [0x5C11, 0x3057, 0x4F11, 0x3081, 0x308B, 0x3068, 0x3057, 0x305F, 0x3089, 0x3001, 0x4F55, 0x3092, 0x3057, 0x305F, 0x3044, 0x3067, 0x3059, 0x304B, 0xFF1F]"

definition valid_trial_binding :: "trial_binding \<Rightarrow> bool \<Rightarrow> string \<Rightarrow> bool" where
  "valid_trial_binding b assisted outcome =
     (let expected = 1 + (if assisted then 1 else 0) + (if outcome \<noteq> ''pending'' then 1 else 0) in
      case hex_decode (tb_id b) of None \<Rightarrow> False
      | Some raw \<Rightarrow> length raw = 32 \<and> hex_encode raw = tb_id b \<and> tb_generation b = expected
          \<and> valid_coach_control_tag (tb_app_tag b) \<and> tb_expires_us b > 0)"

definition normalize_guest_trial :: "guest_frame option \<Rightarrow> (conv_error, guest_frame option) result" where
  "normalize_guest_trial trial = (case trial of None \<Rightarrow> Inr None
     | Some t \<Rightarrow>
       if gs_version t \<noteq> 1 \<or> gs_question t \<noteq> guestTransferQuestionID \<or> \<not> valid_coach_control_tag (gs_scope t)
       then Inl ErrInvalidStateToken
       else if gs_outcome t \<notin> {''pending'', ''answer_first'', ''unverified'', ''stopped''} then Inl ErrInvalidStateToken
       else case gs_binding t of None \<Rightarrow> Inr (Some t)
       | Some b \<Rightarrow> if valid_trial_binding b (gs_assisted t) (gs_outcome t) then Inr (Some t) else Inl ErrInvalidStateToken)"

section \<open>The state\<close>

definition maxStateTurns :: int where "maxStateTurns = 10000"
definition sessionIDBytes :: nat where "sessionIDBytes = 16"

record conv_state =
  cv_version :: int
  cv_issued :: int
  cv_expires :: int
  cv_session :: string
  cv_turn :: int
  cv_guest :: "guest_frame option"
  cv_memory_generation :: int
  cv_memory :: "payload option"
  cv_checkpoint_tag :: string
  cv_checkpoint_scope :: string
  cv_graph :: thought_graph
  cv_summary :: string
  cv_document :: string
  cv_pending :: pending_answer
  cv_speech :: speech_frame
  cv_support :: "support option"
  cv_grace :: bool
  cv_intervention :: arbiter

definition valid_session_id :: "string \<Rightarrow> bool" where
  "valid_session_id value =
     (case b64_decode value of None \<Rightarrow> False
      | Some raw \<Rightarrow> length raw = sessionIDBytes \<and> b64_encode raw = value)"

definition math_invalid :: "f64 \<Rightarrow> bool" where
  "math_invalid v \<longleftrightarrow> \<not> feq v v \<or> flt (Fin 2) v \<or> flt v (Fin (- 1))"

definition state_text_ok :: "conv_state \<Rightarrow> bool" where
  "state_text_ok s \<longleftrightarrow> utf8_valid (cv_summary s) \<and> utf8_valid (cv_document s)
     \<and> rune_count (collapse_space (cv_summary s)) \<le> maxConversationSummaryRunes
     \<and> rune_count (collapse_space (cv_document s)) \<le> maxDocumentSummaryRunes"

definition checkpoint_ok :: "conv_state \<Rightarrow> bool" where
  "checkpoint_ok s \<longleftrightarrow> (cv_checkpoint_tag s = []) = (cv_checkpoint_scope s = [])
     \<and> (cv_checkpoint_tag s = [] \<or> valid_coach_control_tag (cv_checkpoint_tag s)
          \<and> valid_coach_control_tag (cv_checkpoint_scope s))"

definition memory_ok :: "lm_env \<Rightarrow> conv_state \<Rightarrow> bool" where
  "memory_ok E s \<longleftrightarrow> (cv_memory s = None) = (cv_memory_generation s = 0) \<and> cv_memory_generation s \<ge> 0
     \<and> (case cv_memory s of None \<Rightarrow> True | Some p \<Rightarrow> validate_payload E p = None)"

text \<open>The steps of the source in order; \<open>normalizeGraph\<close>'s error is passed on as it is.\<close>

definition normalize_conversation_state :: "lm_env \<Rightarrow> conv_state \<Rightarrow> (conv_error, conv_state) result" where
  "normalize_conversation_state E s =
     (case normalize_guest_trial (cv_guest s) of Inl _ \<Rightarrow> Inl ErrInvalidStateToken
      | Inr trial \<Rightarrow>
        if trial \<noteq> None \<and> \<not> valid_session_id (cv_session s) then Inl ErrInvalidStateToken
        else let s = s\<lparr>cv_guest := trial\<rparr> in
        if cv_session s \<noteq> [] \<and> \<not> valid_session_id (cv_session s) then Inl ErrInvalidStateToken
        else if \<not> checkpoint_ok s then Inl ErrInvalidStateToken
        else if \<not> memory_ok E s then Inl ErrInvalidStateToken
        else case normalize_graph (cv_graph s) of Inl e \<Rightarrow> Inl e
        | Inr g \<Rightarrow>
          let s = s\<lparr>cv_graph := g\<rparr> in
          if \<not> state_text_ok s then Inl ErrInvalidStateToken
          else let s = s\<lparr>cv_summary := collapse_space (cv_summary s), cv_document := collapse_space (cv_document s)\<rparr> in
          case normalize_pending_answer (cv_pending s) of Inl _ \<Rightarrow> Inl ErrInvalidStateToken
          | Inr f \<Rightarrow> let s = s\<lparr>cv_pending := f\<rparr> in
            case normalize_speech_frame (cv_speech s) (cv_turn s) of Inl _ \<Rightarrow> Inl ErrInvalidStateToken
            | Inr sp \<Rightarrow> let s = s\<lparr>cv_speech := sp\<rparr> in
              case normalize_support (cv_support s) of Inl _ \<Rightarrow> Inl ErrInvalidStateToken
              | Inr p \<Rightarrow> let s = s\<lparr>cv_support := p\<rparr> in
                if (case p of None \<Rightarrow> False | Some p \<Rightarrow> cs_companion p) \<and> pf_active (cv_pending s) then Inl ErrInvalidStateToken
                else if validate_arbiter (cv_intervention s) \<noteq> None then Inl ErrInvalidStateToken
                else if math_invalid (ab_score (cv_intervention s)) then Inl ErrInvalidStateToken
                else Inr s)"

section \<open>Normalising twice\<close>

definition node_ok :: "string \<Rightarrow> bool" where
  "node_ok n \<longleftrightarrow> utf8_valid n \<and> collapse_space n = n \<and> n \<noteq> [] \<and> rune_count n \<le> maxGraphNodeRunes"

lemma nodes_loop_sound:
  assumes "nodes_loop acc ns = Inr r" "list_all node_ok acc" "distinct acc"
  shows "list_all node_ok r \<and> distinct r \<and> length r \<le> length acc + length ns"
  using assms
proof (induction acc ns arbitrary: r rule: nodes_loop.induct)
  case (2 acc n ns)
  let ?n = "collapse_space n"
  have valid: "utf8_valid n" and ne: "?n \<noteq> []" and short: "rune_count ?n \<le> maxGraphNodeRunes"
    using "2.prems" by (auto simp: Let_def split: if_splits)
  have ok: "node_ok ?n" using valid ne short by (simp add: node_ok_def utf8_valid_collapse)
  show ?case
  proof (cases "?n \<in> set acc")
    case True
    then have "nodes_loop acc ns = Inr r" using 2(3) valid ne short by (simp add: Let_def)
    then show ?thesis using "2.IH"(1) [OF _ refl _ True] valid ne short "2.prems" by fastforce
  next
    case False
    then have "nodes_loop (acc @ [?n]) ns = Inr r" using 2(3) valid ne short by (simp add: Let_def)
    then show ?thesis using "2.IH"(2) [OF _ refl _ False] valid ne short ok False "2.prems" by fastforce
  qed
qed auto

lemma nodes_loop_fixed: "list_all node_ok ns \<Longrightarrow> distinct (acc @ ns) \<Longrightarrow> nodes_loop acc ns = Inr (acc @ ns)"
  by (induction ns arbitrary: acc) (auto simp: node_ok_def Let_def)

lemma normalize_nodes_idem: "normalize_nodes ns = Inr r \<Longrightarrow> normalize_nodes r = Inr r"
  using nodes_loop_sound [of "[]" ns r] nodes_loop_fixed [of r "[]"]
  by (auto simp: normalize_nodes_def split: if_splits)

lemma traverse_idem:
  assumes "traverse f xs = Inr ys" "\<And>x y. f x = Inr y \<Longrightarrow> f y = Inr y"
  shows "traverse f ys = Inr ys \<and> length ys = length xs"
  using assms(1) by (induction xs arbitrary: ys) (auto split: sum.splits dest: assms(2))

lemma normalize_graph_idem:
  assumes "normalize_graph g = Inr h"
  shows "normalize_graph h = Inr h"
proof -
  obtain ks where ks: "traverse normalize_nodes (graph_kinds g) = Inr ks" "h = graph_of ks"
    using assms by (auto simp: normalize_graph_def split: sum.splits)
  have "length ks = 8" "traverse normalize_nodes ks = Inr ks"
    using traverse_idem [OF ks(1) normalize_nodes_idem] by (auto simp: graph_kinds_def)
  moreover have "graph_kinds (graph_of ks) = ks" if "length ks = 8"
    using that by (auto simp: graph_kinds_def graph_of_def numeral_eq_Suc length_Suc_conv)
  ultimately show ?thesis using ks by (simp add: normalize_graph_def)
qed

lemma fixed_subject_again [simp]: "fixed_subject (f\<lparr>pf_subject := fixed_subject f\<rparr>) = fixed_subject f"
  by (simp add: fixed_subject_def continuity_protected_def)

lemma normalize_pending_sound:
  assumes "normalize_pending_answer f0 = Inr f" "pf_active f0"
  shows "pf_active f \<and> pending_frame_ok f \<and> pending_tags_ok f \<and> pending_slots_ok f \<and> fixed_subject f = pf_subject f
     \<and> (case pf_progress f of None \<Rightarrow> True | Some p \<Rightarrow> stored_valid p)
     \<and> pf_transition f \<in> {AnswerTransitionEvidenceNone, AnswerTransitionEvidenceQuestionBoundInputClauseLater}
     \<and> (pf_operator f = AnswerContract.OperatorQuantity \<longrightarrow> AnswerContract.SlotUnit \<in> set (pf_slots f))"
proof -
  obtain g where g: "fill_unit (fill_legacy f0) = Some g" "f = g\<lparr>pf_subject := fixed_subject g\<rparr>"
    and ok: "pending_frame_ok f" "pending_tags_ok f" "pending_slots_ok f"
      "case pf_progress g of None \<Rightarrow> True | Some p \<Rightarrow> stored_valid p"
      "pf_transition f \<in> {AnswerTransitionEvidenceNone, AnswerTransitionEvidenceQuestionBoundInputClauseLater}"
    using assms by (auto simp: normalize_pending_answer_def Let_def split: option.splits if_splits)
  have "pf_active (fill_legacy f0)" using assms(2) by (simp add: fill_legacy_def Let_def)
  then have "pf_active g" "pf_operator g = AnswerContract.OperatorQuantity \<longrightarrow> AnswerContract.SlotUnit \<in> set (pf_slots g)"
    using g(1) by (auto simp: fill_unit_def split: if_splits)
  then show ?thesis using g(2) ok by simp
qed

lemma pending_fixed:
  assumes "pf_active f" "pending_frame_ok f" "pending_tags_ok f" "pending_slots_ok f" "fixed_subject f = pf_subject f"
    "case pf_progress f of None \<Rightarrow> True | Some p \<Rightarrow> stored_valid p"
    "pf_transition f \<in> {AnswerTransitionEvidenceNone, AnswerTransitionEvidenceQuestionBoundInputClauseLater}"
    "pf_operator f = AnswerContract.OperatorQuantity \<longrightarrow> AnswerContract.SlotUnit \<in> set (pf_slots f)"
  shows "normalize_pending_answer f = Inr f"
proof -
  have "active_coach_phase (pf_phase f)" "AnswerContract.target_slot (pf_expansion f) \<noteq> None"
    using assms(2) unfolding pending_frame_ok_def by blast+
  then have "pf_phase f \<noteq> CoachPhaseOther []" "pf_expansion f \<noteq> AnswerContract.OperatorOther []"
    by (auto simp: active_coach_phase_def)
  then have "fill_legacy f = f" by (simp add: fill_legacy_def)
  moreover have "fill_unit f = Some f" using assms(8) by (auto simp: fill_unit_def)
  ultimately show ?thesis
    using assms by (auto simp: normalize_pending_answer_def Let_def split: option.splits)
qed

lemma normalize_empty [simp]: "normalize_pending_answer empty_pending_answer = Inr empty_pending_answer"
  by (simp add: normalize_pending_answer_def empty_pending_answer_def)

lemma normalize_pending_idem: "normalize_pending_answer f0 = Inr f \<Longrightarrow> normalize_pending_answer f = Inr f"
proof (cases "pf_active f0")
  case True
  then show "normalize_pending_answer f0 = Inr f \<Longrightarrow> normalize_pending_answer f = Inr f"
    using normalize_pending_sound [of f0 f] pending_fixed [of f] by blast
next
  case False
  then show "normalize_pending_answer f0 = Inr f \<Longrightarrow> normalize_pending_answer f = Inr f"
    using normalize_empty by (simp add: normalize_pending_answer_def [of f0])
qed

lemma normalize_speech_idem: "normalize_speech_frame f n = Inr g \<Longrightarrow> normalize_speech_frame g n = Inr g"
  by (auto simp: normalize_speech_frame_def no_speech_frame_def split: if_splits option.splits)

lemma normalize_guest_same: "normalize_guest_trial t = Inr u \<Longrightarrow> u = t \<and> normalize_guest_trial t = Inr t"
  by (auto simp: normalize_guest_trial_def split: option.splits if_splits)

section \<open>Support counters\<close>

definition support_ok :: "support \<Rightarrow> bool" where
  "support_ok p \<longleftrightarrow> cs_fading p \<le> maxSupportFadingStage \<and> cs_verified p < verifiedAnswersToFade
     \<and> cs_cooldown p \<le> maxQuestionCooldown \<and> (cs_fading p = maxSupportFadingStage \<longrightarrow> cs_verified p = 0)"

lemmas support_consts = maxSupportFadingStage_def verifiedAnswersToFade_def maxQuestionCooldown_def
  questionCooldownAfterAnswer_def questionCooldownAfterPass_def questionCooldownAfterRelease_def

lemma normalize_support_iff:
  "normalize_support p = Inr p \<longleftrightarrow> (case p of None \<Rightarrow> True | Some s \<Rightarrow> support_ok s \<and> s \<noteq> zero_support)"
proof (cases p)
  case (Some s)
  then show ?thesis
    by (cases s) (auto simp: normalize_support_def support_ok_def compact_support_def support_consts zero_support_def)
qed (simp add: normalize_support_def)

lemma normalize_support_sound: "normalize_support p = Inr q \<Longrightarrow> normalize_support q = Inr q"
proof (cases p)
  case (Some s)
  then show "normalize_support p = Inr q \<Longrightarrow> normalize_support q = Inr q"
    by (cases s) (auto simp: normalize_support_def compact_support_def support_consts zero_support_def split: if_splits)
qed (auto simp: normalize_support_def)

lemma normalize_compact: "support_ok s \<Longrightarrow> normalize_support (compact_support s) = Inr (compact_support s)"
  by (simp add: normalize_support_iff compact_support_def)

datatype support_event = SupportFirst | SupportRelease | SupportPass | SupportCooldown

fun support_step :: "support \<Rightarrow> support_event \<Rightarrow> support" where
  "support_step p SupportFirst = record_verified_first_answer p"
| "support_step p SupportRelease = record_support_release p"
| "support_step p SupportPass = record_support_pass p"
| "support_step p SupportCooldown = fst (consume_question_cooldown p)"

interpretation fading: invariant_system support_step support_ok
proof
  show "support_ok (support_step p e)" if "support_ok p" for p e
    using that by (cases e) (auto simp: support_ok_def support_consts record_verified_first_answer_def
        record_support_release_def record_support_pass_def consume_question_cooldown_def Let_def)
qed

section \<open>Normal states\<close>

definition normal_state :: "lm_env \<Rightarrow> conv_state \<Rightarrow> bool" where
  "normal_state E s \<longleftrightarrow>
     normalize_guest_trial (cv_guest s) = Inr (cv_guest s)
     \<and> (cv_guest s \<noteq> None \<longrightarrow> valid_session_id (cv_session s))
     \<and> (cv_session s \<noteq> [] \<longrightarrow> valid_session_id (cv_session s))
     \<and> checkpoint_ok s \<and> memory_ok E s \<and> normalize_graph (cv_graph s) = Inr (cv_graph s)
     \<and> state_text_ok s \<and> collapse_space (cv_summary s) = cv_summary s \<and> collapse_space (cv_document s) = cv_document s
     \<and> normalize_pending_answer (cv_pending s) = Inr (cv_pending s)
     \<and> normalize_speech_frame (cv_speech s) (cv_turn s) = Inr (cv_speech s)
     \<and> normalize_support (cv_support s) = Inr (cv_support s)
     \<and> \<not> ((case cv_support s of None \<Rightarrow> False | Some p \<Rightarrow> cs_companion p) \<and> pf_active (cv_pending s))
     \<and> validate_arbiter (cv_intervention s) = None \<and> \<not> math_invalid (ab_score (cv_intervention s))"

lemma normal_state_fixed: "normal_state E s \<Longrightarrow> normalize_conversation_state E s = Inr s"
  by (auto simp: normal_state_def normalize_conversation_state_def Let_def split: option.splits)

lemma normalize_gives_normal:
  assumes "normalize_conversation_state E s = Inr t"
  shows "normal_state E t"
proof -
  from assms have gt: "normalize_guest_trial (cv_guest s) = Inr (cv_guest s)"
    by (auto simp: normalize_conversation_state_def dest: normalize_guest_same split: sum.splits)
  obtain g f sp p where parts: "normalize_graph (cv_graph s) = Inr g" "normalize_pending_answer (cv_pending s) = Inr f"
      "normalize_speech_frame (cv_speech s) (cv_turn s) = Inr sp" "normalize_support (cv_support s) = Inr p"
    and t: "t = s\<lparr>cv_guest := cv_guest s, cv_graph := g, cv_summary := collapse_space (cv_summary s),
      cv_document := collapse_space (cv_document s), cv_pending := f, cv_speech := sp, cv_support := p\<rparr>"
    and rest: "cv_guest s \<noteq> None \<longrightarrow> valid_session_id (cv_session s)" "cv_session s \<noteq> [] \<longrightarrow> valid_session_id (cv_session s)"
      "checkpoint_ok s" "memory_ok E s" "state_text_ok s"
      "\<not> ((case p of None \<Rightarrow> False | Some p \<Rightarrow> cs_companion p) \<and> pf_active f)"
      "validate_arbiter (cv_intervention s) = None" "\<not> math_invalid (ab_score (cv_intervention s))"
    using assms gt
    by (auto simp: normalize_conversation_state_def Let_def checkpoint_ok_def memory_ok_def state_text_ok_def
        split: sum.splits if_splits option.splits)
  show ?thesis
    using rest gt normalize_graph_idem [OF parts(1)] normalize_pending_idem [OF parts(2)]
      normalize_speech_idem [OF parts(3)] normalize_support_sound [OF parts(4)]
    unfolding t normal_state_def checkpoint_ok_def memory_ok_def state_text_ok_def
    by (auto simp: utf8_valid_collapse)
qed

lemma normalize_conversation_idem:
  "normalize_conversation_state E s = Inr t \<Longrightarrow> normalize_conversation_state E t = Inr t"
  by (rule normal_state_fixed [OF normalize_gives_normal])

lemma normal_state_stamp:
  "normal_state E s \<Longrightarrow> normal_state E (s\<lparr>cv_version := v, cv_issued := i, cv_expires := x\<rparr>)"
  "normal_state E s \<Longrightarrow> valid_session_id sid \<Longrightarrow> normal_state E (s\<lparr>cv_session := sid\<rparr>)"
  by (auto simp: normal_state_def checkpoint_ok_def memory_ok_def state_text_ok_def)

end
