(* ===== verification/StateCodec.thy ===== *)
theory StateCodec
  imports TurnContracts
begin

text \<open>
  The encrypted conversation state of \<open>conversation\<close>: the codec of \<open>state.go\<close>, the control tags of
  \<open>coach_continuity.go\<close>, what \<open>agent.go\<close> seals and checks about respondent checkpoints, the state
  that passes through native audio (\<open>native_state.go\<close>) and the memory of a session
  (\<open>session_memory.go\<close>, \<open>long_memory.go\<close>).

  AES-GCM under the server's key, HMAC and the JSON codec are arguments (\<open>codec_env\<close>); what is read
  from the random source is an argument of each call, \<open>None\<close> for a failed read.
\<close>

section \<open>Parameters\<close>

text \<open>Sealed tokens and the names of stages, phases and actions on the wire.\<close>

type_synonym state_token = string
type_synonym wire_label = string

record codec_env =
  ke_hmac :: "string \<Rightarrow> string \<Rightarrow> string"
  ke_seal :: "string \<Rightarrow> string \<Rightarrow> string \<Rightarrow> string"
  ke_open :: "string \<Rightarrow> string \<Rightarrow> string \<Rightarrow> string option"
  ke_text :: "conv_state \<Rightarrow> string option"
  ke_state :: "string \<Rightarrow> conv_state option"
  ke_memory :: lm_env

record agent =
  ag_key :: string
  ag_proof_writes :: bool
  ag_transition_writes :: bool
  ag_progress_writes :: bool
  ag_v2_writes :: bool

definition stateTokenPrefix :: string where "stateTokenPrefix = ''v2.''"
definition stateTokenTTL :: duration where "stateTokenTTL = 15 * minute"
definition maxUIDBytes :: nat where "maxUIDBytes = 256"

text \<open>The sizes of GCM's nonce and tag.\<close>

definition gcm_nonce_size :: nat where "gcm_nonce_size = 12"
definition gcm_overhead :: nat where "gcm_overhead = 16"

section \<open>The codec\<close>

definition valid_uid :: "string \<Rightarrow> bool" where
  "valid_uid uid \<longleftrightarrow> uid \<noteq> [] \<and> length uid \<le> maxUIDBytes \<and> utf8_valid uid \<and> uid = trim_space uid"

definition make_aad :: "string \<Rightarrow> string" where
  "make_aad uid = ''kotae-conversation-state-privacy-v2'' @ [CHR 0x00] @ uid"

definition new_session_id :: "string option \<Rightarrow> (conv_error, string) result" where
  "new_session_id random = (case random of None \<Rightarrow> Inl ErrInvalidStateToken | Some raw \<Rightarrow> Inr (b64_encode raw))"

definition ensure_session_id :: "conv_state \<Rightarrow> string option \<Rightarrow> (conv_error, conv_state) result" where
  "ensure_session_id s random =
     (if cv_session s \<noteq> [] then if valid_session_id (cv_session s) then Inr s else Inl ErrInvalidStateToken
      else case new_session_id random of Inl e \<Rightarrow> Inl ErrInvalidStateToken | Inr sid \<Rightarrow> Inr (s\<lparr>cv_session := sid\<rparr>))"

definition codec_seal ::
  "codec_env \<Rightarrow> string \<Rightarrow> conv_state \<Rightarrow> string option \<Rightarrow> string option \<Rightarrow> time \<Rightarrow> (conv_error, string) result" where
  "codec_seal E uid s sid_random nonce_random now =
     (if \<not> valid_uid uid \<or> cv_turn s < 1 \<or> cv_turn s > maxStateTurns then Inl ErrInvalidStateToken
      else case normalize_conversation_state (ke_memory E) s of Inl _ \<Rightarrow> Inl ErrInvalidStateToken
      | Inr n \<Rightarrow>
        (case (if cv_session n = [] then new_session_id sid_random else Inr (cv_session n)) of
          Inl _ \<Rightarrow> Inl ErrInvalidStateToken
        | Inr sid \<Rightarrow>
          let n = n\<lparr>cv_session := sid, cv_version := SchemaVersion, cv_issued := unix_sec now,
                cv_expires := unix_sec now + stateTokenTTL div second\<rparr>
          in case ke_text E n of None \<Rightarrow> Inl ErrInvalidStateToken
          | Some plaintext \<Rightarrow>
            (case nonce_random of None \<Rightarrow> Inl ErrInvalidStateToken
             | Some nonce \<Rightarrow>
               let token = stateTokenPrefix @ b64_encode (nonce @ ke_seal E nonce plaintext (make_aad uid))
               in if length token > MaxStateTokenBytes then Inl ErrInvalidStateToken else Inr token)))"

definition codec_open :: "codec_env \<Rightarrow> string \<Rightarrow> string \<Rightarrow> time \<Rightarrow> (conv_error, conv_state) result" where
  "codec_open E uid token now =
     (if \<not> valid_uid uid \<or> length token > MaxStateTokenBytes \<or> \<not> prefix stateTokenPrefix token
      then Inl ErrInvalidStateToken
      else case b64_decode (drop (length stateTokenPrefix) token) of None \<Rightarrow> Inl ErrInvalidStateToken
      | Some raw \<Rightarrow>
        if length raw < gcm_nonce_size + gcm_overhead + 2 then Inl ErrInvalidStateToken
        else case ke_open E (take gcm_nonce_size raw) (drop gcm_nonce_size raw) (make_aad uid) of
          None \<Rightarrow> Inl ErrInvalidStateToken
        | Some plaintext \<Rightarrow> (case ke_state E plaintext of None \<Rightarrow> Inl ErrInvalidStateToken
          | Some s \<Rightarrow>
            let n = unix_sec now in
            if cv_version s \<noteq> SchemaVersion \<or> wrap64 (cv_expires s - cv_issued s) \<noteq> stateTokenTTL div second
              \<or> cv_issued s > n + 60 \<or> cv_turn s < 1 \<or> cv_turn s > maxStateTurns then Inl ErrInvalidStateToken
            else case normalize_conversation_state (ke_memory E) s of Inl _ \<Rightarrow> Inl ErrInvalidStateToken
            | Inr s \<Rightarrow> if n \<ge> cv_expires s then Inl ErrExpiredStateToken else Inr s))"

section \<open>Control tags\<close>

text \<open>The domain-separated, truncated HMACs; the empty text stands for no tag.\<close>

definition control_tag :: "codec_env \<Rightarrow> agent \<Rightarrow> string \<Rightarrow> string" where
  "control_tag E ag message = b64_encode (take coachContinuityTagBytes (ke_hmac E (ag_key ag) message))"

definition derive_coach_continuity_key :: "codec_env \<Rightarrow> string \<Rightarrow> string" where
  "derive_coach_continuity_key E root_key = ke_hmac E root_key (''kotae-coach-continuity-v1'' @ [CHR 0x00])"

definition coach_continuity_tag :: "codec_env \<Rightarrow> agent \<Rightarrow> string \<Rightarrow> string" where
  "coach_continuity_tag E ag anchor =
     (if length (ag_key ag) \<noteq> 32 \<or> anchor = [] then []
      else control_tag E ag (''required-answer-evidence-v2'' @ [CHR 0x00] @ anchor))"

definition coach_question_continuity_tag :: "codec_env \<Rightarrow> agent \<Rightarrow> string \<Rightarrow> string" where
  "coach_question_continuity_tag E ag anchor =
     (if length (ag_key ag) \<noteq> 32 \<or> anchor = [] then []
      else control_tag E ag (''reported-question-subject-anchor'' @ [CHR 0x00] @ anchor))"

definition coach_question_instance_tag :: "codec_env \<Rightarrow> agent \<Rightarrow> string \<Rightarrow> string \<Rightarrow> string" where
  "coach_question_instance_tag E ag session anchor =
     (if length (ag_key ag) \<noteq> 32 \<or> \<not> valid_session_id session \<or> anchor = [] then []
      else control_tag E ag (''reported-question-instance-anchor-v1'' @ [CHR 0x00] @ session @ [CHR 0x00] @ anchor))"

definition native_coach_scope_tag :: "codec_env \<Rightarrow> agent \<Rightarrow> string \<Rightarrow> string" where
  "native_coach_scope_tag E ag scope =
     (if length (ag_key ag) \<noteq> 32 \<or> scope = [] then []
      else control_tag E ag (''native-explicit-coach-scope-v1'' @ [CHR 0x00] @ scope))"

definition voice_checkpoint_tag :: "codec_env \<Rightarrow> agent \<Rightarrow> string \<Rightarrow> string \<Rightarrow> int \<Rightarrow> string \<Rightarrow> string" where
  "voice_checkpoint_tag E ag request session turn scope =
     (if length (ag_key ag) \<noteq> 32 \<or> request = [] \<or> length request > 64 \<or> request \<noteq> trim_space request
        \<or> \<not> valid_session_id session \<or> turn < 1 \<or> turn > maxStateTurns \<or> \<not> valid_coach_control_tag scope then []
      else control_tag E ag (''voice-respondent-checkpoint-v1'' @ [CHR 0x00] @ request @ [CHR 0x00] @ session
        @ [CHR 0x00] @ dec_int turn @ [CHR 0x00] @ scope))"

section \<open>What the agent seals\<close>

text \<open>The fields that a rollout stage does not write yet are cleared.\<close>

definition staged_state :: "agent \<Rightarrow> conv_state \<Rightarrow> conv_state" where
  "staged_state ag s =
     (let f = cv_pending s;
          f = (if \<not> ag_proof_writes ag then f\<lparr>pf_instance_tag := []\<rparr> else f);
          f = (if \<not> ag_transition_writes ag then f\<lparr>pf_transition := AnswerTransitionEvidenceNone\<rparr> else f);
          f = (if \<not> ag_progress_writes ag \<or> \<not> ag_v2_writes ag then f\<lparr>pf_progress := None\<rparr> else f)
      in if ag_v2_writes ag then s\<lparr>cv_pending := f\<rparr>
         else s\<lparr>cv_checkpoint_tag := [], cv_checkpoint_scope := [], cv_speech := no_speech_frame, cv_support := None,
                cv_pending := (if pf_instance_tag f \<noteq> [] \<or> pf_question_tag f \<noteq> [] \<or> pf_continuity_tag f \<noteq> []
                    \<or> pf_native_tag f \<noteq> [] \<or> pf_opt_in f then empty_pending_answer
                  else f\<lparr>pf_instance_tag := [], pf_question_tag := [], pf_continuity_tag := [], pf_opt_in := False,
                         pf_transition := AnswerTransitionEvidenceNone\<rparr>)\<rparr>)"

definition seal_state ::
  "codec_env \<Rightarrow> agent \<Rightarrow> string \<Rightarrow> conv_state \<Rightarrow> string option \<Rightarrow> string option \<Rightarrow> time \<Rightarrow> (conv_error, string) result" where
  "seal_state E ag uid s sid_random nonce_random now =
     (if cv_guest s \<noteq> None then Inl ErrInvalidStateToken
      else codec_seal E uid (staged_state ag s) sid_random nonce_random now)"

definition seal_voice_checkpoint_state ::
  "codec_env \<Rightarrow> agent \<Rightarrow> string \<Rightarrow> string \<Rightarrow> string \<Rightarrow> conv_state \<Rightarrow> string option \<Rightarrow> string option \<Rightarrow> time
     \<Rightarrow> (conv_error, string) result" where
  "seal_voice_checkpoint_state E ag uid request scope s sid_random nonce_random now =
     (if \<not> ag_v2_writes ag \<or> request = [] \<or> \<not> valid_coach_control_tag scope then Inl ErrInvalidStateToken
      else let s = s\<lparr>cv_checkpoint_scope := scope,
             cv_checkpoint_tag := voice_checkpoint_tag E ag request (cv_session s) (cv_turn s) scope\<rparr>
        in if cv_checkpoint_tag s = [] then Inl ErrInvalidStateToken
           else seal_state E ag uid s sid_random nonce_random now)"

text \<open>Ordinary readers refuse the tokens of guest trials.\<close>

definition open_conversation_state :: "codec_env \<Rightarrow> string \<Rightarrow> string \<Rightarrow> time \<Rightarrow> (conv_error, conv_state) result" where
  "open_conversation_state E uid token now =
     (case codec_open E uid token now of Inl e \<Rightarrow> Inl e
      | Inr s \<Rightarrow> if cv_guest s \<noteq> None then Inl ErrInvalidStateToken else Inr s)"

definition validate_state_token :: "codec_env \<Rightarrow> string \<Rightarrow> string \<Rightarrow> time \<Rightarrow> conv_error option" where
  "validate_state_token E uid token now =
     (if token = [] then Some ErrInvalidStateToken
      else case open_conversation_state E uid token now of Inl e \<Rightarrow> Some e | Inr _ \<Rightarrow> None)"

section \<open>Native audio\<close>

definition nativeUserSummaryRunes :: nat where "nativeUserSummaryRunes = 128"
definition nativeAssistantSummaryRunes :: nat where "nativeAssistantSummaryRunes = 168"

definition fresh_state :: conv_state where
  "fresh_state =
     \<lparr>cv_version = 0, cv_issued = 0, cv_expires = 0, cv_session = [], cv_turn = 0, cv_guest = None,
      cv_memory_generation = 0, cv_memory = None, cv_checkpoint_tag = [], cv_checkpoint_scope = [],
      cv_graph = graph_of (replicate 8 []), cv_summary = [], cv_document = [], cv_pending = empty_pending_answer,
      cv_speech = no_speech_frame, cv_support = None, cv_grace = False,
      cv_intervention = \<lparr>ab_benefit = Fin 0, ab_interruption_cost = Fin 0, ab_urgency = Fin 0,
        ab_confidence = Fin 0, ab_score = Fin 0, ab_act = ''silent''\<rparr>\<rparr>"

definition open_native_state :: "codec_env \<Rightarrow> string \<Rightarrow> string \<Rightarrow> time \<Rightarrow> (conv_error, conv_state) result" where
  "open_native_state E uid token now =
     (if \<not> valid_uid uid then Inl ErrInvalidStateToken
      else if token \<noteq> [] then open_conversation_state E uid token now else Inr fresh_state)"

definition advance_native_state ::
  "codec_env \<Rightarrow> string \<Rightarrow> conv_state \<Rightarrow> string option \<Rightarrow> string option \<Rightarrow> time \<Rightarrow> (conv_error, string) result" where
  "advance_native_state E uid s sid_random nonce_random now =
     (if \<not> valid_uid uid then Inl ErrInvalidStateToken
      else case ensure_session_id s sid_random of Inl _ \<Rightarrow> Inl ErrInvalidStateToken
      | Inr s \<Rightarrow> if cv_turn s \<ge> maxStateTurns then Inl ErrInvalidStateToken
          else codec_seal E uid (s\<lparr>cv_turn := cv_turn s + 1\<rparr>) None nonce_random now)"

definition prepare_native_state ::
  "codec_env \<Rightarrow> string \<Rightarrow> string \<Rightarrow> string option \<Rightarrow> string option \<Rightarrow> time \<Rightarrow> time \<Rightarrow> (conv_error, string \<times> bool) result" where
  "prepare_native_state E uid token sid_random nonce_random now now' =
     (case open_native_state E uid token now of Inl e \<Rightarrow> Inl e
      | Inr s \<Rightarrow> if pf_active (cv_pending s) then Inr (token, True)
          else (case advance_native_state E uid s sid_random nonce_random now' of Inl e \<Rightarrow> Inl e
            | Inr refreshed \<Rightarrow> Inr (refreshed, False)))"

definition refresh_state_token ::
  "codec_env \<Rightarrow> string \<Rightarrow> string \<Rightarrow> string option \<Rightarrow> string option \<Rightarrow> time \<Rightarrow> time \<Rightarrow> (conv_error, string) result" where
  "refresh_state_token E uid token sid_random nonce_random now now' =
     (case open_native_state E uid token now of Inl e \<Rightarrow> Inl e
      | Inr s \<Rightarrow> advance_native_state E uid s sid_random nonce_random now')"

definition native_conversation_context :: "codec_env \<Rightarrow> string \<Rightarrow> string \<Rightarrow> time \<Rightarrow> (conv_error, string) result" where
  "native_conversation_context E uid token now =
     (if token = [] then Inr []
      else case open_native_state E uid token now of Inl e \<Rightarrow> Inl e | Inr s \<Rightarrow> Inr (cv_summary s))"

definition valid_native_caption :: "string \<Rightarrow> nat \<Rightarrow> bool" where
  "valid_native_caption value maximum \<longleftrightarrow> utf8_valid value \<and> trim_space value \<noteq> [] \<and> rune_count value \<le> maximum"

definition tail_runes :: "string \<Rightarrow> nat \<Rightarrow> string" where
  "tail_runes value maximum =
     (let rs = chunks value in if length rs \<le> maximum then value else rune_text (drop (length rs - maximum) rs))"

definition native_exchange_summary :: "string \<Rightarrow> string \<Rightarrow> string" where
  "native_exchange_summary user_caption assistant_caption =
     utf8_encode [0x76F4, 0x524D, 0x306E, 0x5229, 0x7528, 0x8005, 0x3A, 0x20] @ tail_runes (collapse_space user_caption) nativeUserSummaryRunes
     @ utf8_encode [0x20, 0x2F, 0x20, 0x76F4, 0x524D, 0x306E, 0x41, 0x49, 0x3A, 0x20] @ tail_runes (collapse_space assistant_caption) nativeAssistantSummaryRunes"

definition commit_native_exchange ::
  "codec_env \<Rightarrow> agent \<Rightarrow> string \<Rightarrow> string \<Rightarrow> string \<Rightarrow> string \<Rightarrow> string option \<Rightarrow> string option \<Rightarrow> time \<Rightarrow> time
     \<Rightarrow> (conv_error, string) result" where
  "commit_native_exchange E ag uid token user_caption assistant_caption sid_random nonce_random now now' =
     (if token = [] \<or> \<not> valid_native_caption user_caption MaxUtteranceRunes
        \<or> \<not> valid_native_caption assistant_caption MaxSpokenReplyRunes then Inl ErrInvalidStateToken
      else case open_native_state E uid token now of Inl _ \<Rightarrow> Inl ErrInvalidStateToken
      | Inr s \<Rightarrow> if pf_active (cv_pending s) then Inl ErrInvalidStateToken
          else seal_state E ag uid (s\<lparr>cv_summary := native_exchange_summary user_caption assistant_caption\<rparr>)
            sid_random nonce_random now')"

definition validate_prepared_native_state_transition ::
  "codec_env \<Rightarrow> string \<Rightarrow> string \<Rightarrow> string \<Rightarrow> time \<Rightarrow> time \<Rightarrow> (conv_error, conv_state) result" where
  "validate_prepared_native_state_transition E uid request_token prepared_token now now' =
     (if prepared_token = [] then Inl ErrInvalidStateToken
      else case open_conversation_state E uid prepared_token now of Inl _ \<Rightarrow> Inl ErrInvalidStateToken
      | Inr prepared \<Rightarrow>
        (case open_native_state E uid request_token now' of Inl _ \<Rightarrow> Inl ErrInvalidStateToken
        | Inr requested \<Rightarrow>
          if request_token \<noteq> [] \<and> pf_active (cv_pending requested) then
            (if prepared_token \<noteq> request_token then Inl ErrInvalidStateToken else Inr prepared)
          else if cv_turn requested \<ge> maxStateTurns \<or> cv_turn prepared \<noteq> cv_turn requested + 1 then Inl ErrInvalidStateToken
          else if request_token \<noteq> [] \<and> cv_session prepared \<noteq> cv_session requested then Inl ErrInvalidStateToken
          else let expected = requested\<lparr>cv_turn := cv_turn requested + 1,
                     cv_session := (if request_token = [] then cv_session prepared else cv_session requested),
                     cv_version := cv_version prepared, cv_issued := cv_issued prepared, cv_expires := cv_expires prepared\<rparr>
            in case normalize_conversation_state (ke_memory E) expected of Inl _ \<Rightarrow> Inl ErrInvalidStateToken
            | Inr expected \<Rightarrow> if expected \<noteq> prepared then Inl ErrInvalidStateToken else Inr prepared))"

section \<open>Respondent checkpoints\<close>

fun phase_text :: "coach_phase \<Rightarrow> string" where
  "phase_text CoachPhaseNone = ''none''"
| "phase_text CoachPhaseAwaitingAnswer = ''awaiting_answer''"
| "phase_text CoachPhaseAwaitingRestatement = ''awaiting_restatement''"
| "phase_text CoachPhaseExpanding = ''expanding''"
| "phase_text CoachPhaseComplete = ''complete''"
| "phase_text CoachPhaseBlocked = ''blocked''"
| "phase_text (CoachPhaseOther s) = s"

fun action_text :: "coach_action \<Rightarrow> string" where
  "action_text CoachActionNone = ''none''"
| "action_text CoachActionElicit = ''elicit''"
| "action_text CoachActionRestate = ''restate''"
| "action_text CoachActionExpand = ''expand''"
| "action_text CoachActionComplete = ''complete''"
| "action_text CoachActionRetry = ''retry''"
| "action_text CoachActionRelease = ''release''"

definition valid_respondent_checkpoint_control :: "string \<Rightarrow> string \<Rightarrow> bool" where
  "valid_respondent_checkpoint_control phase act \<longleftrightarrow>
     (if phase = phase_text CoachPhaseAwaitingAnswer then act = action_text CoachActionElicit
      else if phase = phase_text CoachPhaseAwaitingRestatement then act = action_text CoachActionRestate
      else if phase = phase_text CoachPhaseExpanding then act = action_text CoachActionExpand
      else if phase = phase_text CoachPhaseComplete then act = action_text CoachActionComplete
      else if phase = phase_text CoachPhaseBlocked then
        act = action_text CoachActionRetry \<or> act = action_text CoachActionRelease
      else False)"

definition voice_checkpoint_scope_tag :: "pending_answer \<Rightarrow> string" where
  "voice_checkpoint_scope_tag f =
     (case find (\<lambda>t. t \<noteq> [] \<and> valid_coach_control_tag t) [pf_instance_tag f, pf_native_tag f, pf_restatement_tag f] of
        None \<Rightarrow> [] | Some t \<Rightarrow> t)"

definition same_voice_checkpoint_scope :: "pending_answer \<Rightarrow> pending_answer \<Rightarrow> bool" where
  "same_voice_checkpoint_scope previous next_frame =
     (let p = voice_checkpoint_scope_tag previous; n = voice_checkpoint_scope_tag next_frame in
      if p = [] \<or> n = [] then False
      else if p = n then True
      else pf_native_tag previous \<noteq> [] \<and> pf_restatement_tag next_frame \<noteq> [])"

text \<open>The switch over the action: what the next frame must be.\<close>

definition checkpoint_frame_ok :: "conv_state \<Rightarrow> string \<Rightarrow> bool" where
  "checkpoint_frame_ok s act =
     (let f = cv_pending s; scope = voice_checkpoint_scope_tag f in
      if act = action_text CoachActionElicit then
        pf_active f \<and> pf_phase f = CoachPhaseAwaitingAnswer \<and> scope \<noteq> [] \<and> scope = cv_checkpoint_scope s
      else if act = action_text CoachActionRestate then
        pf_active f \<and> pf_phase f = CoachPhaseAwaitingRestatement \<and> pf_restatement_tag f \<noteq> [] \<and> scope = cv_checkpoint_scope s
      else if act = action_text CoachActionExpand then
        pf_active f \<and> pf_phase f = CoachPhaseExpanding \<and> scope \<noteq> [] \<and> scope = cv_checkpoint_scope s
      else if act = action_text CoachActionRetry then pf_active f \<and> scope \<noteq> [] \<and> scope = cv_checkpoint_scope s
      else if act = action_text CoachActionComplete \<or> act = action_text CoachActionRelease then \<not> pf_active f
      else False)"

definition validate_respondent_checkpoint_transition ::
  "codec_env \<Rightarrow> agent \<Rightarrow> string \<Rightarrow> state_token \<Rightarrow> state_token \<Rightarrow> state_token \<Rightarrow> string \<Rightarrow> wire_label \<Rightarrow> wire_label \<Rightarrow> wire_label \<Rightarrow> wire_label
     \<Rightarrow> time \<Rightarrow> time \<Rightarrow> time \<Rightarrow> conv_error option" where
  "validate_respondent_checkpoint_transition E ag uid request_token prepared_token next_token request target stage phase act
       now now1 now2 =
     (if next_token = [] \<or> request = [] \<or> target \<noteq> ''respondent''
        \<or> (stage \<noteq> ''awaiting_answer'' \<and> stage \<noteq> ''restructure'') \<or> \<not> valid_respondent_checkpoint_control phase act
      then Some ErrInvalidStateToken
      else case open_conversation_state E uid next_token now of Inl _ \<Rightarrow> Some ErrInvalidStateToken
      | Inr nxt \<Rightarrow>
        if cv_checkpoint_tag nxt = [] \<or> cv_checkpoint_scope nxt = [] then Some ErrInvalidStateToken
        else let expected = voice_checkpoint_tag E ag request (cv_session nxt) (cv_turn nxt) (cv_checkpoint_scope nxt) in
          if expected = [] \<or> cv_checkpoint_tag nxt \<noteq> expected then Some ErrInvalidStateToken
          else case validate_prepared_native_state_transition E uid request_token prepared_token now1 now2 of
            Inl _ \<Rightarrow> Some ErrInvalidStateToken
          | Inr previous \<Rightarrow>
            if cv_session previous \<noteq> cv_session nxt \<or> cv_turn previous \<ge> maxStateTurns
              \<or> cv_turn nxt \<noteq> cv_turn previous + 1 then Some ErrInvalidStateToken
            else if \<not> checkpoint_frame_ok nxt act then Some ErrInvalidStateToken
            else if pf_active (cv_pending previous) \<and> pf_active (cv_pending nxt)
              \<and> \<not> same_voice_checkpoint_scope (cv_pending previous) (cv_pending nxt) then Some ErrInvalidStateToken
            else if (act = action_text CoachActionComplete \<or> act = action_text CoachActionRelease)
              \<and> pf_active (cv_pending previous)
              \<and> (voice_checkpoint_scope_tag (cv_pending previous) = []
                  \<or> voice_checkpoint_scope_tag (cv_pending previous) \<noteq> cv_checkpoint_scope nxt)
            then Some ErrInvalidStateToken
            else None)"

section \<open>Session memory\<close>

text \<open>
  \<open>clearSessionMemory\<close> overwrites a payload in place; the overwritten payload is never read again,
  so only the pointers are modelled.
\<close>

definition bind_session_memory :: "conv_state \<Rightarrow> voice_turn \<Rightarrow> conv_state \<times> voice_turn" where
  "bind_session_memory s t =
     (let t' = t\<lparr>vt_memory := None, vt_memory_generation := 0\<rparr> in
      if vt_guest t then (s\<lparr>cv_memory := None, cv_memory_generation := 0\<rparr>, t')
      else case vt_memory t of None \<Rightarrow> (s, t)
      | Some m \<Rightarrow>
        if cv_memory_generation s = 0 then
          (s\<lparr>cv_memory := Some m, cv_memory_generation := vt_memory_generation t\<rparr>, t')
        else (s, t'))"

section \<open>Sealed states\<close>

text \<open>
  What the code relies on: GCM opens what it sealed and adds its tag, and the JSON codec reads back
  what it wrote of a normal state. The codec replaces bytes that are not UTF-8, so this relies on the texts
  of a normal state being UTF-8: the validation checks it of the graph, the summaries, the subject and the
  memory, and the other strings are enumerated or base64. Only the name of a slot outside the
  enumeration is not checked; for it UTF-8 is part of the assumption.
\<close>

definition codec_ok :: "codec_env \<Rightarrow> bool" where
  "codec_ok E \<longleftrightarrow>
     (\<forall>n p a. length n = gcm_nonce_size \<longrightarrow> ke_open E n (ke_seal E n p a) a = Some p)
     \<and> (\<forall>n p a. length (ke_seal E n p a) = length p + gcm_overhead)
     \<and> (\<forall>s p. normal_state (ke_memory E) s \<longrightarrow> ke_text E s = Some p \<longrightarrow> ke_state E p = Some s \<and> 2 \<le> length p)"

definition stamped :: "conv_state \<Rightarrow> string option \<Rightarrow> time \<Rightarrow> conv_state" where
  "stamped n sid_random now =
     n\<lparr>cv_session := (if cv_session n = [] then b64_encode (the sid_random) else cv_session n),
       cv_version := SchemaVersion, cv_issued := unix_sec now, cv_expires := unix_sec now + stateTokenTTL div second\<rparr>"

lemma valid_session_encode [simp]: "length raw = sessionIDBytes \<Longrightarrow> valid_session_id (b64_encode raw)"
  by (simp add: valid_session_id_def)

lemma valid_tag_encode [simp]: "length raw = coachContinuityTagBytes \<Longrightarrow> valid_coach_control_tag (b64_encode raw)"
  by (simp add: valid_coach_control_tag_def)

lemma b64_encode_Nil_iff [simp]: "b64_encode s = [] \<longleftrightarrow> s = []"
  using length_b64_encode [of s] by (cases s) (auto simp: b64_encode_def)

lemma normal_stamped:
  assumes "normal_state M n" "cv_session n = [] \<longrightarrow> (\<exists>raw. sid_random = Some raw \<and> length raw = sessionIDBytes)"
  shows "normal_state M (stamped n sid_random now)"
proof (cases "cv_session n = []")
  case True
  then obtain raw where raw: "sid_random = Some raw" "length raw = sessionIDBytes" using assms(2) by blast
  have "stamped n sid_random now = (n\<lparr>cv_session := b64_encode raw\<rparr>)\<lparr>cv_version := SchemaVersion,
      cv_issued := unix_sec now, cv_expires := unix_sec now + stateTokenTTL div second\<rparr>"
    using True raw by (simp add: stamped_def)
  then show ?thesis using normal_state_stamp assms(1) raw by simp
next
  case False
  have "stamped n sid_random now = n\<lparr>cv_version := SchemaVersion,
      cv_issued := unix_sec now, cv_expires := unix_sec now + stateTokenTTL div second\<rparr>"
    using False by (simp add: stamped_def)
  then show ?thesis using normal_state_stamp assms(1) by simp
qed

lemma seal_eq:
  assumes "valid_uid uid" "1 \<le> cv_turn s" "cv_turn s \<le> maxStateTurns"
    and "normalize_conversation_state (ke_memory E) s = Inr n" "cv_session n = [] \<longrightarrow> sid_random \<noteq> None"
  shows "codec_seal E uid s sid_random nonce_random now =
     (case ke_text E (stamped n sid_random now) of None \<Rightarrow> Inl ErrInvalidStateToken
      | Some plaintext \<Rightarrow> (case nonce_random of None \<Rightarrow> Inl ErrInvalidStateToken
        | Some nonce \<Rightarrow> let token = stateTokenPrefix @ b64_encode (nonce @ ke_seal E nonce plaintext (make_aad uid))
            in if length token > MaxStateTokenBytes then Inl ErrInvalidStateToken else Inr token))"
proof -
  have st: "n\<lparr>cv_session := (if cv_session n = [] then b64_encode (the sid_random) else cv_session n),
      cv_version := SchemaVersion, cv_issued := unix_sec now, cv_expires := unix_sec now + stateTokenTTL div second\<rparr>
      = stamped n sid_random now" by (simp add: stamped_def)
  show ?thesis
    using assms unfolding codec_seal_def st [symmetric]
    by (auto simp: new_session_id_def Let_def split: option.splits)
qed

lemma seal_Inr:
  assumes "codec_seal E uid s sid_random nonce_random now = Inr token"
  obtains n nonce p where "normalize_conversation_state (ke_memory E) s = Inr n" "nonce_random = Some nonce"
    "cv_session n = [] \<longrightarrow> sid_random \<noteq> None" "ke_text E (stamped n sid_random now) = Some p"
    "token = stateTokenPrefix @ b64_encode (nonce @ ke_seal E nonce p (make_aad uid))"
    "length token \<le> MaxStateTokenBytes" "valid_uid uid" "1 \<le> cv_turn s" "cv_turn s \<le> maxStateTurns"
proof -
  obtain n where n: "normalize_conversation_state (ke_memory E) s = Inr n"
    using assms by (auto simp: codec_seal_def split: sum.splits if_splits)
  have base: "valid_uid uid" "1 \<le> cv_turn s" "cv_turn s \<le> maxStateTurns"
    using assms by (auto simp: codec_seal_def split: if_splits)
  have sid: "cv_session n = [] \<longrightarrow> sid_random \<noteq> None"
    using assms n base by (auto simp: codec_seal_def new_session_id_def split: option.splits)
  have "codec_seal E uid s sid_random nonce_random now =
     (case ke_text E (stamped n sid_random now) of None \<Rightarrow> Inl ErrInvalidStateToken
      | Some plaintext \<Rightarrow> (case nonce_random of None \<Rightarrow> Inl ErrInvalidStateToken
        | Some nonce \<Rightarrow> let token = stateTokenPrefix @ b64_encode (nonce @ ke_seal E nonce plaintext (make_aad uid))
            in if length token > MaxStateTokenBytes then Inl ErrInvalidStateToken else Inr token))"
    by (rule seal_eq [OF base n sid])
  then show ?thesis
    using assms n sid base that by (auto simp: Let_def split: option.splits if_splits)
qed

lemma empty_inactive [simp]: "\<not> pf_active empty_pending_answer"
  by (simp add: empty_pending_answer_def)

lemma normalize_turn_same: "normalize_conversation_state M s = Inr n \<Longrightarrow> cv_turn n = cv_turn s"
  by (auto simp: normalize_conversation_state_def Let_def split: sum.splits if_splits option.splits)

lemma normalize_fields:
  assumes "normalize_conversation_state M s = Inr n"
  shows "cv_turn n = cv_turn s" "cv_session n = cv_session s" "cv_guest n = cv_guest s"
    "pf_active (cv_pending n) \<longleftrightarrow> pf_active (cv_pending s)"
proof -
  show "cv_turn n = cv_turn s" "cv_session n = cv_session s"
    using assms by (auto simp: normalize_conversation_state_def Let_def split: sum.splits if_splits option.splits)
  show "cv_guest n = cv_guest s"
    using assms by (auto simp: normalize_conversation_state_def Let_def dest: normalize_guest_same split: sum.splits if_splits option.splits)
  have "normalize_pending_answer (cv_pending s) = Inr (cv_pending n)"
    using assms by (auto simp: normalize_conversation_state_def Let_def split: sum.splits if_splits option.splits)
  then show "pf_active (cv_pending n) \<longleftrightarrow> pf_active (cv_pending s)"
    using normalize_pending_sound [of "cv_pending s" "cv_pending n"] arg_cong [of "empty_pending_answer" "cv_pending n" pf_active]
    by (cases "pf_active (cv_pending s)") (auto simp: normalize_pending_answer_def)
qed

lemma stamped_simps [simp]:
  "cv_version (stamped n r now) = SchemaVersion" "cv_issued (stamped n r now) = unix_sec now"
  "cv_expires (stamped n r now) = unix_sec now + stateTokenTTL div second" "cv_turn (stamped n r now) = cv_turn n"
  "cv_guest (stamped n r now) = cv_guest n" "cv_pending (stamped n r now) = cv_pending n"
  "cv_session n \<noteq> [] \<Longrightarrow> cv_session (stamped n r now) = cv_session n"
  by (simp_all add: stamped_def)

lemma open_sealed:
  assumes ok: "codec_ok E" and sealed: "codec_seal E uid s sid_random nonce_random now = Inr token"
    and sizes: "\<forall>r. sid_random = Some r \<longrightarrow> length r = sessionIDBytes" "\<forall>n. nonce_random = Some n \<longrightarrow> length n = gcm_nonce_size"
    and clock: "unix_sec now \<le> unix_sec now' + 60" "unix_sec now' < unix_sec now + 900"
  obtains n where "normalize_conversation_state (ke_memory E) s = Inr n"
    "codec_open E uid token now' = Inr (stamped n sid_random now)"
proof -
  obtain n nonce p where n: "normalize_conversation_state (ke_memory E) s = Inr n" "nonce_random = Some nonce"
    "cv_session n = [] \<longrightarrow> sid_random \<noteq> None" "ke_text E (stamped n sid_random now) = Some p"
    "token = stateTokenPrefix @ b64_encode (nonce @ ke_seal E nonce p (make_aad uid))"
    "length token \<le> MaxStateTokenBytes" "valid_uid uid" "1 \<le> cv_turn s" "cv_turn s \<le> maxStateTurns"
    by (rule seal_Inr [OF sealed])
  let ?t = "stamped n sid_random now"
  have normal: "normal_state (ke_memory E) ?t"
    using normal_stamped [OF normalize_gives_normal [OF n(1)]] n(3) sizes(1) by blast
  have nonce: "length nonce = gcm_nonce_size" using sizes(2) n(2) by blast
  have reads: "ke_state E p = Some ?t" "2 \<le> length p" using ok normal n(4) unfolding codec_ok_def by blast+
  have opened: "ke_open E nonce (ke_seal E nonce p (make_aad uid)) (make_aad uid) = Some p"
    and len: "length (ke_seal E nonce p (make_aad uid)) = length p + gcm_overhead"
    using ok nonce unfolding codec_ok_def by blast+
  have "wrap64 (stateTokenTTL div second) = stateTokenTTL div second"
    by (simp add: stateTokenTTL_def wrap64_def)
  then have "codec_open E uid token now' = Inr ?t"
    using n(5) n(6) n(7) n(8) n(9) opened len nonce reads normal_state_fixed [OF normal] normalize_turn_same [OF n(1)] clock
    by (simp add: codec_open_def Let_def stateTokenTTL_def)
  then show ?thesis using that n(1) by blast
qed

text \<open>
  C3. A sealed state opens, for the same user, as long as it is fresh: the result is the normalised
  state with its stamps and, if it had none, the new session identifier. Normalising again on opening
  changes nothing.
\<close>

theorem sealed_state_opens:
  assumes "codec_ok E" "codec_seal E uid s sid_random nonce_random now = Inr token"
    and "\<forall>r. sid_random = Some r \<longrightarrow> length r = sessionIDBytes"
    and "\<forall>n. nonce_random = Some n \<longrightarrow> length n = gcm_nonce_size"
    and "unix_sec now \<le> unix_sec now' + 60" "unix_sec now' < unix_sec now + 900"
  shows "\<exists>n. normalize_conversation_state (ke_memory E) s = Inr n
     \<and> codec_open E uid token now' = Inr (stamped n sid_random now)"
  using open_sealed [OF assms] by metis

section \<open>Opened and native states\<close>

lemma open_Inr:
  assumes "codec_open E uid token now = Inr s"
  shows "normal_state (ke_memory E) s" "1 \<le> cv_turn s" "cv_turn s \<le> maxStateTurns" "unix_sec now < cv_expires s"
    "prefix stateTokenPrefix token" "length token \<le> MaxStateTokenBytes" "valid_uid uid"
proof -
  obtain s0 where s0: "normalize_conversation_state (ke_memory E) s0 = Inr s" "1 \<le> cv_turn s0" "cv_turn s0 \<le> maxStateTurns"
    and e: "unix_sec now < cv_expires s"
    and t: "prefix stateTokenPrefix token" "length token \<le> MaxStateTokenBytes" "valid_uid uid"
    using assms by (auto simp: codec_open_def Let_def not_le split: option.splits sum.splits if_splits)
  show "normal_state (ke_memory E) s" by (rule normalize_gives_normal [OF s0(1)])
  show "1 \<le> cv_turn s" "cv_turn s \<le> maxStateTurns" using s0 normalize_fields(1) [OF s0(1)] by simp_all
  show "unix_sec now < cv_expires s" "prefix stateTokenPrefix token" "length token \<le> MaxStateTokenBytes" "valid_uid uid"
    by (fact e t)+
qed

lemma open_same:
  assumes "codec_open E uid token now = Inr s" "codec_open E uid token now' = Inr t"
  shows "s = t"
  using assms by (auto simp: codec_open_def Let_def split: option.splits sum.splits if_splits)

lemma open_native_same:
  assumes "open_native_state E uid token now = Inr s" "open_native_state E uid token now' = Inr t"
  shows "s = t"
  using assms by (auto simp: open_native_state_def open_conversation_state_def dest: open_same split: sum.splits if_splits)

lemma fresh_normal: "normal_state M (fresh_state\<lparr>cv_turn := k\<rparr>)"
proof -
  have "normalize_graph (graph_of (replicate 8 [])) = Inr (graph_of (replicate 8 []))"
    by (simp add: normalize_graph_def graph_kinds_def graph_of_def normalize_nodes_def numeral_eq_Suc)
  moreover have "collapse_space [] = []" "utf8_valid []" "rune_count [] = 0"
    by (simp_all add: collapse_space_def Go_Regexp.fields_def utf8_valid.simps rune_count.simps)
  ultimately show ?thesis
    by (simp add: normal_state_def fresh_state_def checkpoint_ok_def memory_ok_def state_text_ok_def
        normalize_guest_trial_def normalize_speech_frame_def no_speech_frame_def normalize_support_def
        validate_arbiter_def allowed_act_def math_invalid_def feq_def)
qed

lemma native_Inr:
  assumes "open_native_state E uid token now = Inr s"
  shows "normal_state (ke_memory E) s" "cv_guest s = None" "0 \<le> cv_turn s" "valid_uid uid"
    "token = [] \<Longrightarrow> s = fresh_state" "token \<noteq> [] \<Longrightarrow> open_conversation_state E uid token now = Inr s"
proof -
  show uid: "valid_uid uid" using assms by (auto simp: open_native_state_def split: if_splits)
  show fresh: "token = [] \<Longrightarrow> s = fresh_state" and op: "token \<noteq> [] \<Longrightarrow> open_conversation_state E uid token now = Inr s"
    using assms uid by (simp_all add: open_native_state_def)
  have "normal_state (ke_memory E) s \<and> cv_guest s = None \<and> 0 \<le> cv_turn s"
  proof (cases "token = []")
    case True
    then show ?thesis using fresh fresh_normal [of _ "cv_turn fresh_state"] by (simp add: fresh_state_def)
  next
    case False
    then have "codec_open E uid token now = Inr s \<and> cv_guest s = None"
      using op by (auto simp: open_conversation_state_def split: sum.splits if_splits)
    then show ?thesis using open_Inr by fastforce
  qed
  then show "normal_state (ke_memory E) s" "cv_guest s = None" "0 \<le> cv_turn s" by simp_all
qed

text \<open>A normal state whose turn is changed: nothing else changes, and a speech frame does not survive.\<close>

lemma normalize_next_turn:
  assumes "normal_state M s" "normalize_conversation_state M (s\<lparr>cv_turn := k\<rparr>) = Inr n"
  shows "n = s\<lparr>cv_turn := k\<rparr>" "k \<noteq> cv_turn s \<Longrightarrow> cv_speech s = no_speech_frame"
proof -
  have sp: "normalize_speech_frame (cv_speech s) (cv_turn s) = Inr (cv_speech s)"
    using assms(1) by (simp add: normal_state_def)
  obtain f where f: "normalize_speech_frame (cv_speech s) k = Inr f"
    using assms(2) by (auto simp: normalize_conversation_state_def Let_def split: sum.splits if_splits option.splits)
  have same: "f = cv_speech s"
    using f sp by (auto simp: normalize_speech_frame_def split: if_splits option.splits)
  then have "normal_state M (s\<lparr>cv_turn := k\<rparr>)"
    using assms(1) f by (auto simp: normal_state_def checkpoint_ok_def memory_ok_def state_text_ok_def)
  from normal_state_fixed [OF this] assms(2) show "n = s\<lparr>cv_turn := k\<rparr>" by simp
  show "k \<noteq> cv_turn s \<Longrightarrow> cv_speech s = no_speech_frame"
    using f sp by (auto simp: normalize_speech_frame_def split: if_splits option.splits)
qed

lemma ensure_session:
  assumes "ensure_session_id s r = Inr t" "normal_state M s" "\<forall>x. r = Some x \<longrightarrow> length x = sessionIDBytes"
  shows "normal_state M t" "cv_session t \<noteq> []" "valid_session_id (cv_session t)" "t = s\<lparr>cv_session := cv_session t\<rparr>"
    "cv_session s \<noteq> [] \<Longrightarrow> t = s"
proof -
  consider "cv_session s \<noteq> []" "valid_session_id (cv_session s)" "t = s"
    | x where "cv_session s = []" "r = Some x" "t = s\<lparr>cv_session := b64_encode x\<rparr>"
    using assms(1) by (auto simp: ensure_session_id_def new_session_id_def split: if_splits option.splits)
  then have "normal_state M t \<and> cv_session t \<noteq> [] \<and> valid_session_id (cv_session t) \<and> t = s\<lparr>cv_session := cv_session t\<rparr>
      \<and> (cv_session s \<noteq> [] \<longrightarrow> t = s)"
  proof cases
    case 1
    then show ?thesis using assms(2) by simp
  next
    case (2 x)
    then have "length x = sessionIDBytes" using assms(3) by simp
    moreover from this have "x \<noteq> []" by (auto simp: sessionIDBytes_def)
    ultimately show ?thesis using 2 assms(2) by (simp add: normal_state_stamp(2))
  qed
  then show "normal_state M t" "cv_session t \<noteq> []" "valid_session_id (cv_session t)" "t = s\<lparr>cv_session := cv_session t\<rparr>"
    "cv_session s \<noteq> [] \<Longrightarrow> t = s" by simp_all
qed

lemma advance_Inr:
  assumes "advance_native_state E uid s sid_random nonce_random now = Inr token" "normal_state (ke_memory E) s"
    and sizes: "\<forall>r. sid_random = Some r \<longrightarrow> length r = sessionIDBytes" "\<forall>n. nonce_random = Some n \<longrightarrow> length n = gcm_nonce_size"
    and ok: "codec_ok E" and clock: "unix_sec now \<le> unix_sec now' + 60" "unix_sec now' < unix_sec now + 900"
  obtains sid where "valid_session_id sid" "cv_session s \<noteq> [] \<longrightarrow> sid = cv_session s" "cv_turn s < maxStateTurns"
    "codec_open E uid token now' = Inr (stamped (s\<lparr>cv_session := sid, cv_turn := cv_turn s + 1\<rparr>) None now)"
    "cv_speech s = no_speech_frame" "sid \<noteq> []"
proof -
  obtain t where t: "ensure_session_id s sid_random = Inr t" and turn: "cv_turn t < maxStateTurns"
    and sealed: "codec_seal E uid (t\<lparr>cv_turn := cv_turn t + 1\<rparr>) None nonce_random now = Inr token"
    using assms(1) by (auto simp: advance_native_state_def split: if_splits sum.splits)
  note e = ensure_session [OF t assms(2) sizes(1)]
  obtain n where n: "normalize_conversation_state (ke_memory E) (t\<lparr>cv_turn := cv_turn t + 1\<rparr>) = Inr n"
    "codec_open E uid token now' = Inr (stamped n None now)"
    using open_sealed [OF ok sealed _ sizes(2) clock] by auto
  note nt = normalize_next_turn [OF e(1) n(1)]
  have same: "cv_turn t = cv_turn s" "cv_speech t = cv_speech s" by (subst e(4), simp)+
  have eq: "t\<lparr>cv_turn := cv_turn t + 1\<rparr> = s\<lparr>cv_session := cv_session t, cv_turn := cv_turn s + 1\<rparr>"
    using arg_cong [OF e(4), of "\<lambda>x. x\<lparr>cv_turn := cv_turn s + 1\<rparr>"] same(1) by simp
  have "n = s\<lparr>cv_session := cv_session t, cv_turn := cv_turn s + 1\<rparr>" using nt(1) eq same(1) by simp
  then have opened: "codec_open E uid token now' = Inr (stamped (s\<lparr>cv_session := cv_session t, cv_turn := cv_turn s + 1\<rparr>) None now)"
    using n(2) by simp
  have "cv_speech s = no_speech_frame" using nt(2) same(2) by simp
  then show ?thesis using that [OF e(3) _ _ opened] e(2,5) turn same(1) by auto
qed

text \<open>
  C9. Preparing a state for native audio and checking the preparation agree. A state with a pending
  answer keeps its token; any other advances by one turn, and the check accepts the prepared token and
  gives the requested state with the next turn and new stamps, the session identifier being kept if
  there was one.
\<close>

theorem prepared_state_accepted:
  assumes "codec_ok E" "prepare_native_state E uid token sid_random nonce_random now now' = Inr (prepared, staged)"
    and "\<forall>r. sid_random = Some r \<longrightarrow> length r = sessionIDBytes"
    and "\<forall>n. nonce_random = Some n \<longrightarrow> length n = gcm_nonce_size"
    and "open_native_state E uid token now1 = Inr r" "open_native_state E uid token now2 = Inr r"
    and "token \<noteq> [] \<longrightarrow> cv_session r \<noteq> []"
    and "unix_sec now' \<le> unix_sec now1 + 60" "unix_sec now1 < unix_sec now' + 900"
  shows "\<exists>p. validate_prepared_native_state_transition E uid token prepared now1 now2 = Inr p
     \<and> (if staged then prepared = token \<and> p = r
        else \<exists>sid. p = stamped (r\<lparr>cv_session := sid, cv_turn := cv_turn r + 1\<rparr>) None now'
          \<and> (token \<noteq> [] \<longrightarrow> sid = cv_session r))"
proof -
  obtain s where s: "open_native_state E uid token now = Inr s"
    using assms(2) by (auto simp: prepare_native_state_def split: sum.splits)
  then have [simp]: "s = r" using open_native_same assms(5) by blast
  note nat = native_Inr [OF assms(6)]
  show ?thesis
  proof (cases "pf_active (cv_pending r)")
    case True
    then have staged: "staged" "prepared = token" using assms(2) s by (auto simp: prepare_native_state_def)
    have ne: "token \<noteq> []" using True nat(5) by (auto simp: fresh_state_def)
    then show ?thesis
      using True staged nat(6) native_Inr(6) [OF assms(5)] assms(6)
      by (simp add: validate_prepared_native_state_transition_def)
  next
    case False
    then have unstaged: "\<not> staged" and adv: "advance_native_state E uid r sid_random nonce_random now' = Inr prepared"
      using assms(2) s by (auto simp: prepare_native_state_def split: sum.splits)
    obtain sid where sid: "valid_session_id sid" "cv_session r \<noteq> [] \<longrightarrow> sid = cv_session r" "cv_turn r < maxStateTurns"
      "codec_open E uid prepared now1 = Inr (stamped (r\<lparr>cv_session := sid, cv_turn := cv_turn r + 1\<rparr>) None now')"
      "cv_speech r = no_speech_frame" "sid \<noteq> []"
      by (rule advance_Inr [OF adv nat(1) assms(3,4,1,8,9)])
    let ?p = "stamped (r\<lparr>cv_session := sid, cv_turn := cv_turn r + 1\<rparr>) None now'"
    have opened: "open_conversation_state E uid prepared now1 = Inr ?p" and ne: "prepared \<noteq> []"
      using sid(4) nat(2) open_Inr(5) [OF sid(4)] by (auto simp: open_conversation_state_def stateTokenPrefix_def)
    have p: "?p = r\<lparr>cv_turn := cv_turn r + 1, cv_session := sid, cv_version := cv_version ?p, cv_issued := cv_issued ?p,
        cv_expires := cv_expires ?p\<rparr>" using sid(6) by (simp add: stamped_def)
    have sess: "cv_session ?p = sid" using sid(6) by (simp add: stamped_def)
    have "normalize_conversation_state (ke_memory E) ?p = Inr ?p"
      using open_Inr(1) [OF sid(4)] by (rule normal_state_fixed)
    then have "validate_prepared_native_state_transition E uid token prepared now1 now2 = Inr ?p"
      using opened ne assms(6) False sid assms(7) sess p nat(6)
      by (auto simp: validate_prepared_native_state_transition_def Let_def)
    then show ?thesis using unstaged sid(2) assms(7) by auto
  qed
qed

text \<open>
  C40. A state that carries the speech frame of a question cannot be advanced for native audio: the turn number is
  increased and the frame, which is bound to the old one, makes the new state invalid. For every valid token
  of such a state a refresh fails, with the error of a malformed token. A preparation fails in the same way
  when no answer is pending; when one is pending, it does not advance and returns the token itself, staged.
\<close>

theorem question_state_cannot_advance:
  assumes "open_native_state E uid token now = Inr s" "cv_speech s \<noteq> no_speech_frame"
    and "\<forall>r. sid_random = Some r \<longrightarrow> length r = sessionIDBytes"
  shows "refresh_state_token E uid token sid_random nonce_random now now' = Inl ErrInvalidStateToken
     \<and> prepare_native_state E uid token sid_random nonce_random now now'
         = (if pf_active (cv_pending s) then Inr (token, True) else Inl ErrInvalidStateToken)"
proof -
  note nat = native_Inr [OF assms(1)]
  have "advance_native_state E uid s sid_random nonce_random now' = Inl ErrInvalidStateToken"
  proof (cases "ensure_session_id s sid_random")
    case (Inr t)
    note e = ensure_session [OF Inr nat(1) assms(3)]
    have "cv_speech t = cv_speech s" by (subst e(4)) simp
    then have "normalize_conversation_state (ke_memory E) (t\<lparr>cv_turn := cv_turn t + 1\<rparr>) \<noteq> Inr n" for n
      using normalize_next_turn(2) [OF e(1), of "cv_turn t + 1" n] assms(2) by auto
    then obtain err where "normalize_conversation_state (ke_memory E) (t\<lparr>cv_turn := cv_turn t + 1\<rparr>) = Inl err"
      by (cases "normalize_conversation_state (ke_memory E) (t\<lparr>cv_turn := cv_turn t + 1\<rparr>)") auto
    then show ?thesis using Inr by (simp add: advance_native_state_def codec_seal_def)
  qed (simp add: advance_native_state_def)
  then show ?thesis using assms(1) by (simp add: prepare_native_state_def refresh_state_token_def)
qed

text \<open>
  C25. Every state that opens is normal: its tags, memory, graph, pending answer, support and arbiter
  satisfy the invariant under which they were sealed, its turn is in range and it has not expired.
\<close>

theorem opened_states_normal:
  "{s. codec_open E uid token now = Inr s}
     \<subseteq> {s. normal_state (ke_memory E) s \<and> 1 \<le> cv_turn s \<and> cv_turn s \<le> maxStateTurns \<and> unix_sec now < cv_expires s
          \<and> normalize_conversation_state (ke_memory E) s = Inr s}"
proof (intro subsetI, unfold mem_Collect_eq)
  fix s assume s: "codec_open E uid token now = Inr s"
  show "normal_state (ke_memory E) s \<and> 1 \<le> cv_turn s \<and> cv_turn s \<le> maxStateTurns \<and> unix_sec now < cv_expires s
      \<and> normalize_conversation_state (ke_memory E) s = Inr s"
    using open_Inr(1-4) [OF s] normal_state_fixed by blast
qed

section \<open>Checkpoints and session memory\<close>

lemma frame_ok_cases:
  assumes "checkpoint_frame_ok s act"
  shows "if act = action_text CoachActionComplete \<or> act = action_text CoachActionRelease then \<not> pf_active (cv_pending s)
    else pf_active (cv_pending s) \<and> voice_checkpoint_scope_tag (cv_pending s) = cv_checkpoint_scope s"
  using assms unfolding checkpoint_frame_ok_def Let_def by (auto split: if_splits)

text \<open>
  A respondent checkpoint that is accepted moves one turn forward in the session of the prepared
  state, carries the tag made for this request and this turn, keeps the scope of a pending answer (or
  exchanges a native scope for a restatement), and ends with no pending answer when the coach
  completed or released.
\<close>

theorem checkpoint_continues_scope:
  "{(p, n). validate_respondent_checkpoint_transition E ag uid request_token prepared_token next_token request target
        stage phase act now now1 now2 = None
      \<and> open_conversation_state E uid next_token now = Inr n
      \<and> validate_prepared_native_state_transition E uid request_token prepared_token now1 now2 = Inr p}
   \<subseteq> {(p, n). cv_session n = cv_session p \<and> cv_turn n = cv_turn p + 1
        \<and> cv_checkpoint_tag n = voice_checkpoint_tag E ag request (cv_session n) (cv_turn n) (cv_checkpoint_scope n)
        \<and> (if act = action_text CoachActionComplete \<or> act = action_text CoachActionRelease
           then \<not> pf_active (cv_pending n)
             \<and> (if pf_active (cv_pending p) then voice_checkpoint_scope_tag (cv_pending p) = cv_checkpoint_scope n else True)
           else pf_active (cv_pending n) \<and> voice_checkpoint_scope_tag (cv_pending n) = cv_checkpoint_scope n
             \<and> (if pf_active (cv_pending p) then same_voice_checkpoint_scope (cv_pending p) (cv_pending n) else True))}"
proof (intro subsetI, clarify)
  fix p n
  assume v: "validate_respondent_checkpoint_transition E ag uid request_token prepared_token next_token request target
        stage phase act now now1 now2 = None"
    and n: "open_conversation_state E uid next_token now = Inr n"
    and p: "validate_prepared_native_state_transition E uid request_token prepared_token now1 now2 = Inr p"
  have c: "cv_session p = cv_session n" "cv_turn n = cv_turn p + 1" "checkpoint_frame_ok n act"
    "cv_checkpoint_tag n = voice_checkpoint_tag E ag request (cv_session n) (cv_turn n) (cv_checkpoint_scope n)"
    "pf_active (cv_pending p) \<and> pf_active (cv_pending n) \<longrightarrow> same_voice_checkpoint_scope (cv_pending p) (cv_pending n)"
    "(act = action_text CoachActionComplete \<or> act = action_text CoachActionRelease) \<and> pf_active (cv_pending p)
       \<longrightarrow> voice_checkpoint_scope_tag (cv_pending p) = cv_checkpoint_scope n"
    using v unfolding validate_respondent_checkpoint_transition_def n p Let_def sum.case
    by (simp_all only: option.distinct simp_thms split: if_split_asm) blast+
  show "cv_session n = cv_session p \<and> cv_turn n = cv_turn p + 1
        \<and> cv_checkpoint_tag n = voice_checkpoint_tag E ag request (cv_session n) (cv_turn n) (cv_checkpoint_scope n)
        \<and> (if act = action_text CoachActionComplete \<or> act = action_text CoachActionRelease
           then \<not> pf_active (cv_pending n)
             \<and> (if pf_active (cv_pending p) then voice_checkpoint_scope_tag (cv_pending p) = cv_checkpoint_scope n else True)
           else pf_active (cv_pending n) \<and> voice_checkpoint_scope_tag (cv_pending n) = cv_checkpoint_scope n
             \<and> (if pf_active (cv_pending p) then same_voice_checkpoint_scope (cv_pending p) (cv_pending n) else True))"
    using c frame_ok_cases [OF c(3)] by auto
qed

text \<open>
  Over the turns of a session the first authenticated memory wins: once a generation is bound no
  later turn replaces it, and until then the first turn that brings one binds it.
\<close>

theorem first_memory_wins:
  assumes "list_all (\<lambda>t. \<not> vt_guest t \<and> (vt_memory t = None) = (vt_memory_generation t = 0)) ts"
    and "(cv_memory s = None) = (cv_memory_generation s = 0)"
  shows "(let r = foldl (\<lambda>s t. fst (bind_session_memory s t)) s ts in (cv_memory r, cv_memory_generation r)) =
     (if cv_memory_generation s \<noteq> 0 then (cv_memory s, cv_memory_generation s)
      else case find (\<lambda>t. vt_memory t \<noteq> None) ts of None \<Rightarrow> (None, 0)
        | Some t \<Rightarrow> (vt_memory t, vt_memory_generation t))"
  using assms
proof (induction ts arbitrary: s)
  case (Cons t ts)
  let ?s = "fst (bind_session_memory s t)"
  have step: "(cv_memory ?s, cv_memory_generation ?s) =
      (if cv_memory_generation s \<noteq> 0 then (cv_memory s, cv_memory_generation s) else (vt_memory t, vt_memory_generation t))"
    using Cons.prems by (auto simp: bind_session_memory_def Let_def split: option.splits)
  have "(cv_memory ?s = None) = (cv_memory_generation ?s = 0)"
    using step Cons.prems by (auto split: if_splits)
  with Cons.IH [of ?s] Cons.prems step show ?case by (auto simp: Let_def split: if_splits)
qed auto

section \<open>Instances\<close>

text \<open>An environment whose cipher appends a tag and whose JSON codec knows one state.\<close>

definition demo_start :: conv_state where
  "demo_start = fresh_state\<lparr>cv_turn := 1, cv_session := b64_encode (replicate 16 (CHR ''s''))\<rparr>"

definition demo_codec :: codec_env where
  "demo_codec =
     \<lparr>ke_hmac = (\<lambda>k m. replicate 32 (CHR ''h'')),
      ke_seal = (\<lambda>n p a. p @ replicate 16 (CHR ''t'')),
      ke_open = (\<lambda>n c a. Some (List.take (length c - 16) c)),
      ke_text = (\<lambda>s. if s = stamped demo_start None unix_epoch then Some ''{}'' else None),
      ke_state = (\<lambda>p. if p = ''{}'' then Some (stamped demo_start None unix_epoch) else None),
      ke_memory = memory_env\<rparr>"

definition demo_token :: string where
  "demo_token = stateTokenPrefix @ b64_encode (replicate 12 (CHR ''n'') @ ''{}'' @ replicate 16 (CHR ''t''))"

lemma demo_codec_ok: "codec_ok demo_codec"
  by (auto simp: codec_ok_def demo_codec_def gcm_overhead_def split: if_splits)

lemma demo_uid [simp]: "valid_uid ''u''"
  by (simp add: valid_uid_def maxUIDBytes_def utf8_valid.simps rune_len.simps trim_space_def trim_left_def trim_right_def
      space_runes_def utf8_char_def strip.simps)

lemma demo_normal: "normal_state memory_env demo_start" "cv_session demo_start \<noteq> []"
  using normal_state_stamp(2) [OF fresh_normal [of memory_env 1], of "b64_encode (replicate 16 (CHR ''s''))"]
  by (simp_all add: demo_start_def sessionIDBytes_def)

lemma demo_seal: "codec_seal demo_codec ''u'' demo_start None (Some (replicate 12 (CHR ''n''))) unix_epoch = Inr demo_token"
proof -
  have n: "normalize_conversation_state (ke_memory demo_codec) demo_start = Inr demo_start"
    using normal_state_fixed [OF demo_normal(1)] by (simp add: demo_codec_def)
  have t: "1 \<le> cv_turn demo_start" "cv_turn demo_start \<le> maxStateTurns"
    by (simp_all add: demo_start_def maxStateTurns_def)
  have "length demo_token = 43" by (simp add: demo_token_def length_b64_encode stateTokenPrefix_def)
  then have "length demo_token \<le> MaxStateTokenBytes" by (simp add: MaxStateTokenBytes_def)
  then show ?thesis
    unfolding seal_eq [OF demo_uid t n, of None "Some (replicate 12 (CHR ''n''))" unix_epoch, simplified demo_normal(2), simplified]
    by (simp add: demo_codec_def demo_token_def Let_def)
qed

theorem sealed_state_opens_witness:
  "\<exists>n. normalize_conversation_state (ke_memory demo_codec) demo_start = Inr n
     \<and> codec_open demo_codec ''u'' demo_token (unix_epoch + minute) = Inr (stamped n None unix_epoch)"
  by (rule sealed_state_opens [OF demo_codec_ok demo_seal])
    (simp_all add: gcm_nonce_size_def unix_sec_def)

theorem prepared_state_accepted_witness:
  "\<exists>p. validate_prepared_native_state_transition demo_codec ''u'' [] demo_token unix_epoch unix_epoch = Inr p
     \<and> (if False then demo_token = [] \<and> p = fresh_state
        else \<exists>sid. p = stamped (fresh_state\<lparr>cv_session := sid, cv_turn := cv_turn fresh_state + 1\<rparr>) None unix_epoch
          \<and> (([]::string) \<noteq> [] \<longrightarrow> sid = cv_session fresh_state))"
proof (rule prepared_state_accepted [OF demo_codec_ok, where sid_random = "Some (replicate 16 (CHR ''s''))"
      and nonce_random = "Some (replicate 12 (CHR ''n''))" and now = unix_epoch and now' = unix_epoch])
  have "(fresh_state\<lparr>cv_session := b64_encode (replicate 16 (CHR ''s''))\<rparr>)\<lparr>cv_turn := 1\<rparr> = demo_start"
    by (simp add: demo_start_def fresh_state_def)
  then show "prepare_native_state demo_codec ''u'' [] (Some (replicate 16 (CHR ''s''))) (Some (replicate 12 (CHR ''n'')))
      unix_epoch unix_epoch = Inr (demo_token, False)"
    using demo_seal
    by (simp add: prepare_native_state_def open_native_state_def advance_native_state_def ensure_session_id_def
        new_session_id_def maxStateTurns_def fresh_state_def)
qed (simp_all add: sessionIDBytes_def gcm_nonce_size_def open_native_state_def)

definition question_state :: conv_state where
  "question_state = fresh_state\<lparr>cv_turn := 1, cv_speech :=
     \<lparr>sf_digest = b64_encode (replicate 32 (CHR ''q'')), sf_issued = 0, sf_expires = 300, sf_turn = 1\<rparr>,
     cv_version := 1, cv_issued := 0, cv_expires := 900\<rparr>"

definition question_codec :: codec_env where
  "question_codec = demo_codec\<lparr>ke_state := (\<lambda>p. Some question_state)\<rparr>"

lemma question_normal: "normal_state memory_env question_state"
proof -
  have "normal_state memory_env (fresh_state\<lparr>cv_turn := 1\<rparr>)" by (rule fresh_normal)
  then show ?thesis
    by (auto simp: question_state_def normal_state_def checkpoint_ok_def memory_ok_def state_text_ok_def
        normalize_speech_frame_def speechAdaptationTTL_def wrap64_def)
qed

lemma question_open: "open_native_state question_codec ''u'' demo_token unix_epoch = Inr question_state"
proof -
  have len: "length demo_token \<le> MaxStateTokenBytes"
    by (simp add: demo_token_def length_b64_encode stateTokenPrefix_def MaxStateTokenBytes_def)
  have "demo_token \<noteq> []" "prefix stateTokenPrefix demo_token"
    "b64_decode (drop (length stateTokenPrefix) demo_token) = Some (replicate 12 (CHR ''n'') @ ''{}'' @ replicate 16 (CHR ''t''))"
    by (simp_all add: demo_token_def stateTokenPrefix_def)
  moreover have "normalize_conversation_state memory_env question_state = Inr question_state"
    by (rule normal_state_fixed [OF question_normal])
  moreover have "cv_version question_state = 1" "cv_issued question_state = 0" "cv_expires question_state = 900"
    "cv_turn question_state = 1" "cv_guest question_state = None"
    by (simp_all add: question_state_def fresh_state_def)
  ultimately show ?thesis
    using len
    by (simp add: open_native_state_def open_conversation_state_def codec_open_def question_codec_def demo_codec_def
        gcm_nonce_size_def gcm_overhead_def Let_def stateTokenTTL_def SchemaVersion_def unix_sec_def maxStateTurns_def wrap64_def)
qed

theorem question_state_cannot_advance_witness:
  "refresh_state_token question_codec ''u'' demo_token None (Some (replicate 12 (CHR ''n''))) unix_epoch unix_epoch
       = Inl ErrInvalidStateToken
     \<and> prepare_native_state question_codec ''u'' demo_token None (Some (replicate 12 (CHR ''n''))) unix_epoch unix_epoch
       = Inl ErrInvalidStateToken"
  using question_state_cannot_advance [OF question_open, of None "Some (replicate 12 (CHR ''n''))" unix_epoch]
  by (simp add: question_state_def fresh_state_def no_speech_frame_def empty_pending_answer_def)

definition demo_turn :: "payload option \<Rightarrow> int \<Rightarrow> voice_turn" where
  "demo_turn m g =
     \<lparr>vt_schema = 1, vt_utterance = ''a'', vt_state_token = [], vt_memory = m, vt_memory_generation = g, vt_request_id = [],
      vt_ambient = False, vt_foreground = False, vt_extended = False, vt_guest = False, vt_speculative = False,
      vt_origin = InputOriginCommittedVoice, vt_cancelable = True, vt_floor = FloorEvidenceHybridCommitted,
      vt_research_disabled = False, vt_pdf = None\<rparr>"

definition demo_memory :: "string \<Rightarrow> payload option" where
  "demo_memory t = Some \<lparr>pa_topics = [t], pa_preferences = [], pa_open_loops = []\<rparr>"

theorem first_memory_wins_witness:
  "(let r = foldl (\<lambda>s t. fst (bind_session_memory s t)) fresh_state
        [demo_turn None 0, demo_turn (demo_memory ''x'') 3, demo_turn (demo_memory ''y'') 4]
    in (cv_memory r, cv_memory_generation r)) = (demo_memory ''x'', 3)"
  by (subst first_memory_wins) (simp_all add: demo_turn_def demo_memory_def fresh_state_def)

end
