(* ===== verification/CoachPolicy.thy ===== *)
theory CoachPolicy
  imports TurnContracts
begin

text \<open>
  The policies between the verifiers and the coach in \<open>conversation\<close>:
  \<open>verifier_progress_observation.go\<close> (verdicts projected on the controller's finite alphabet),
  \<open>qarc_cue_renderer.go\<close> and \<open>qarc_coach_policy.go\<close> (the cue policy and the texts it may speak),
  the control of the pending answer in \<open>agent.go\<close>, and \<open>answer_proof.go\<close>. A \<open>uint8\<close> counter is a
  natural number that the code's checks keep at most \<open>MaxCoachAttempts\<close>. \<open>lg\<close> is \<open>math.Log\<close>.
\<close>

section \<open>Verdicts as signals\<close>

definition valid_respondent_outcome :: "QuestionGate.outcome \<Rightarrow> bool" where
  "valid_respondent_outcome x \<longleftrightarrow> x \<in> {QuestionGate.OutcomeKeep, QuestionGate.OutcomeRestructure,
     QuestionGate.OutcomeClarify, QuestionGate.OutcomeReject}"

definition valid_respondent_position :: "commitment_place \<Rightarrow> bool" where
  "valid_respondent_position p \<longleftrightarrow> p \<in> {QuestionGate.PositionFirst, QuestionGate.PositionLater, QuestionGate.PositionAbsent}"

definition valid_critic_outcome :: "AnswerContract.outcome \<Rightarrow> bool" where
  "valid_critic_outcome x \<longleftrightarrow> x \<in> {AnswerContract.OutcomeKeep, AnswerContract.OutcomeClarify,
     AnswerContract.OutcomeRestructure, AnswerContract.OutcomeReject}"

definition valid_critic_position :: "position_class \<Rightarrow> bool" where
  "valid_critic_position p \<longleftrightarrow> p \<in> {AnswerContract.PositionFirst, AnswerContract.PositionLater, AnswerContract.PositionAbsent}"

definition valid_verifier_probability :: "f64 \<Rightarrow> bool" where
  "valid_verifier_probability v \<longleftrightarrow> \<not> is_nan v \<and> \<not> is_inf v \<and> fle (Fin 0) v \<and> fle v (Fin 1)"

text \<open>The first issue that settles the signal.\<close>

fun settled_by_issue :: "QuestionGate.issue list \<Rightarrow> verifier_signal option" where
  "settled_by_issue [] = None"
| "settled_by_issue (i # is) =
     (if i = QuestionGate.IssueInvalidContract then Some VerifierSignalInvalid
      else if i = QuestionGate.IssueContentChanged then Some VerifierSignalRejected
      else settled_by_issue is)"

definition project_respondent_signal :: "gate_assessment \<Rightarrow> verifier_signal" where
  "project_respondent_signal a =
     (if \<not> valid_respondent_outcome (ga_outcome a) \<or> \<not> valid_respondent_position (ga_original_position a)
        \<or> \<not> valid_respondent_position (ga_position a) \<or> \<not> valid_verifier_probability (ga_original_coverage a)
        \<or> \<not> valid_verifier_probability (ga_coverage a) then VerifierSignalInvalid
      else case settled_by_issue (ga_issues a) of Some s \<Rightarrow> s
      | None \<Rightarrow>
        if ga_outcome a = QuestionGate.OutcomeReject
          \<and> \<not> (feq (ga_original_coverage a) (Fin 1) \<and> ga_original_position a = QuestionGate.PositionLater)
        then VerifierSignalRejected
        else if QuestionGate.IssueAmbiguousQuestion \<in> set (ga_issues a) then VerifierSignalAmbiguous
        else if feq (ga_original_coverage a) (Fin 1) then
          (case ga_original_position a of
             QuestionGate.PositionFirst \<Rightarrow>
               if ga_satisfied a \<and> ga_outcome a = QuestionGate.OutcomeKeep then VerifierSignalFirst
               else VerifierSignalAvailable
           | QuestionGate.PositionLater \<Rightarrow> VerifierSignalLater
           | QuestionGate.PositionAbsent \<Rightarrow> VerifierSignalAvailable
           | _ \<Rightarrow> VerifierSignalMissing)
        else VerifierSignalMissing)"

definition project_critic_signal :: "assessment \<Rightarrow> verifier_signal" where
  "project_critic_signal a =
     (let m = as_metrics a in
      if \<not> valid_critic_outcome (as_outcome a) \<or> \<not> valid_critic_position (me_position m)
        \<or> \<not> valid_verifier_probability (me_coverage m) \<or> \<not> valid_verifier_probability (me_entropy m)
        \<or> \<not> valid_verifier_probability (me_meaning m) \<or> \<not> valid_verifier_probability (me_gap m)
      then VerifierSignalInvalid
      else if as_outcome a = AnswerContract.OutcomeReject
        \<and> \<not> (feq (me_coverage m) (Fin 1) \<and> me_position m \<noteq> AnswerContract.PositionAbsent)
      then VerifierSignalRejected
      else if as_ambiguous a then VerifierSignalAmbiguous
      else if as_outcome a = AnswerContract.OutcomeReject then VerifierSignalLater
      else if feq (me_coverage m) (Fin 1) then
        (case me_position m of
           AnswerContract.PositionFirst \<Rightarrow>
             if as_satisfied a \<and> as_outcome a = AnswerContract.OutcomeKeep then VerifierSignalFirst
             else VerifierSignalAvailable
         | AnswerContract.PositionLater \<Rightarrow> VerifierSignalLater
         | AnswerContract.PositionAbsent \<Rightarrow> VerifierSignalAvailable
         | _ \<Rightarrow> VerifierSignalMissing)
      else VerifierSignalMissing)"

fun project_phase :: "coach_phase \<Rightarrow> answer_phase" where
  "project_phase CoachPhaseNone = AnswerPhaseNone"
| "project_phase CoachPhaseAwaitingAnswer = AnswerPhaseAwaitingAnswer"
| "project_phase CoachPhaseAwaitingRestatement = AnswerPhaseAwaitingRestatement"
| "project_phase CoachPhaseExpanding = AnswerPhaseExpanding"
| "project_phase CoachPhaseComplete = AnswerPhaseComplete"
| "project_phase CoachPhaseBlocked = AnswerPhaseBlocked"
| "project_phase (CoachPhaseOther _) = AnswerPhaseInvalid"

definition project_attempts :: "nat \<Rightarrow> answer_attempt_level" where
  "project_attempts n = (if n = 0 then AnswerAttemptNone
     else if n < MaxCoachAttempts then AnswerAttemptOne else AnswerAttemptLimit)"

definition verifier_progress_input ::
  "posterior \<Rightarrow> gate_assessment \<Rightarrow> assessment \<Rightarrow> coach_phase \<Rightarrow> nat \<Rightarrow> bool \<Rightarrow> bool \<Rightarrow> bool \<Rightarrow> controller_input" where
  "verifier_progress_input prior g critic phase attempts oneshot hesitation available =
     \<lparr>ci_prior = prior, ci_gate = project_respondent_signal g, ci_critic = project_critic_signal critic,
      ci_phase = project_phase phase, ci_attempts = project_attempts attempts, ci_one_shot = oneshot,
      ci_hesitation = hesitation, ci_available = available\<rparr>"

section \<open>The cue renderer\<close>

definition cue_boolean :: string where "cue_boolean = utf8_encode [0x3059, 0x308B, 0x304B, 0x3001, 0x3057, 0x306A, 0x3044, 0x304B, 0x3060, 0x3051, 0x3002]"
definition cue_choice :: string where "cue_choice = utf8_encode [0x9078, 0x3076, 0x3082, 0x306E, 0x3092, 0x4E00, 0x3064, 0x3060, 0x3051, 0x3002]"
definition cue_quantity :: string where "cue_quantity = utf8_encode [0x6570, 0x5B57, 0x3068, 0x5358, 0x4F4D, 0x3060, 0x3051, 0x3002]"
definition cue_state :: string where "cue_state = utf8_encode [0x4ECA, 0x3069, 0x3046, 0x304B, 0x3060, 0x3051, 0x3002]"
definition cue_cause :: string where "cue_cause = utf8_encode [0x7406, 0x7531, 0x3092, 0x4E00, 0x3064, 0x3060, 0x3051, 0x3002]"
definition cue_purpose :: string where "cue_purpose = utf8_encode [0x76EE, 0x7684, 0x3092, 0x4E00, 0x3064, 0x3060, 0x3051, 0x3002]"
definition cue_procedure :: string where "cue_procedure = utf8_encode [0x6700, 0x521D, 0x306E, 0x4E00, 0x6B69, 0x3060, 0x3051, 0x3002]"
definition cue_definition :: string where "cue_definition = utf8_encode [0x610F, 0x5473, 0x3060, 0x3051, 0x3002]"
definition cue_comparison :: string where "cue_comparison = utf8_encode [0x9055, 0x3044, 0x3092, 0x4E00, 0x3064, 0x3060, 0x3051, 0x3002]"
definition cue_evidence :: string where "cue_evidence = utf8_encode [0x6839, 0x62E0, 0x3092, 0x4E00, 0x3064, 0x3060, 0x3051, 0x3002]"
definition cue_open :: string where "cue_open = utf8_encode [0x307E, 0x305A, 0x3001, 0x7B54, 0x3048, 0x3092, 0x3072, 0x3068, 0x8A00, 0x3060, 0x3051, 0x3002]"
definition cue_neutral :: string where "cue_neutral = utf8_encode [0x6700, 0x521D, 0x306E, 0x3072, 0x3068, 0x8A00, 0x3060, 0x3051, 0x3067, 0x5927, 0x4E08, 0x592B, 0x3067, 0x3059, 0x3002]"
definition cue_release :: string where "cue_release = utf8_encode [0x5927, 0x4E08, 0x592B, 0x3067, 0x3059, 0x3002, 0x8A00, 0x3044, 0x76F4, 0x3055, 0x306A, 0x304F, 0x3066, 0x3082, 0x3001, 0x305D, 0x306E, 0x307E, 0x307E, 0x7D9A, 0x3051, 0x3089, 0x308C, 0x307E, 0x3059, 0x3002]"

definition for_slot :: "qarc_slot \<Rightarrow> qarc_slot \<Rightarrow> string \<Rightarrow> string option" where
  "for_slot wanted slot cue = (if slot \<noteq> wanted then None else Some cue)"

definition render_qarc_cue :: "qarc_template \<Rightarrow> qarc_slot \<Rightarrow> string option" where
  "render_qarc_cue template slot = (case template of
     QARCTemplateNone \<Rightarrow> for_slot QARCSlotNone slot []
   | QARCTemplateBoolean \<Rightarrow> for_slot QARCSlotPolarity slot cue_boolean
   | QARCTemplateChoice \<Rightarrow> for_slot QARCSlotSelection slot cue_choice
   | QARCTemplateQuantity \<Rightarrow> for_slot QARCSlotQuantity slot cue_quantity
   | QARCTemplateState \<Rightarrow> for_slot QARCSlotState slot cue_state
   | QARCTemplateCause \<Rightarrow> for_slot QARCSlotCause slot cue_cause
   | QARCTemplatePurpose \<Rightarrow> for_slot QARCSlotPurpose slot cue_purpose
   | QARCTemplateProcedure \<Rightarrow> for_slot QARCSlotProcedure slot cue_procedure
   | QARCTemplateDefinition \<Rightarrow> for_slot QARCSlotDefinition slot cue_definition
   | QARCTemplateComparison \<Rightarrow> for_slot QARCSlotComparison slot cue_comparison
   | QARCTemplateEvidence \<Rightarrow> for_slot QARCSlotEvidence slot cue_evidence
   | QARCTemplateOpen \<Rightarrow> for_slot QARCSlotPosition slot cue_open
   | QARCTemplateNeutral \<Rightarrow> for_slot QARCSlotNone slot cue_neutral
   | QARCTemplateRelease \<Rightarrow> for_slot QARCSlotNone slot cue_release)"

definition audited_pairs :: "(qarc_template \<times> qarc_slot) list" where
  "audited_pairs =
     [(QARCTemplateBoolean, QARCSlotPolarity), (QARCTemplateChoice, QARCSlotSelection),
      (QARCTemplateQuantity, QARCSlotQuantity), (QARCTemplateState, QARCSlotState),
      (QARCTemplateCause, QARCSlotCause), (QARCTemplatePurpose, QARCSlotPurpose),
      (QARCTemplateProcedure, QARCSlotProcedure), (QARCTemplateDefinition, QARCSlotDefinition),
      (QARCTemplateComparison, QARCSlotComparison), (QARCTemplateEvidence, QARCSlotEvidence),
      (QARCTemplateOpen, QARCSlotPosition), (QARCTemplateNeutral, QARCSlotNone), (QARCTemplateRelease, QARCSlotNone)]"

definition audited_qarc_cues :: "string list" where
  "audited_qarc_cues = List.map_filter (\<lambda>(t, s). case render_qarc_cue t s of
     Some cue \<Rightarrow> if cue \<noteq> [] then Some cue else None | None \<Rightarrow> None) audited_pairs"

section \<open>The cue policy\<close>

definition normalized_qarc_phase :: "coach_phase \<Rightarrow> coach_phase" where
  "normalized_qarc_phase p =
     (if p \<in> {CoachPhaseAwaitingAnswer, CoachPhaseAwaitingRestatement, CoachPhaseExpanding, CoachPhaseBlocked}
      then p else CoachPhaseAwaitingAnswer)"

definition endpoint_committed :: "voice_turn \<Rightarrow> bool" where
  "endpoint_committed t \<longleftrightarrow> \<not> vt_speculative t \<and> vt_origin t = InputOriginCommittedVoice
     \<and> vt_floor t = FloorEvidenceHybridCommitted"

definition commit_protected :: "voice_turn \<Rightarrow> bool" where
  "commit_protected t \<longleftrightarrow> vt_speculative t \<and> vt_origin t = InputOriginProvisionalVoice
     \<and> vt_floor t = FloorEvidenceProvisionalCommitGate"

definition qarc_turn_observation :: "qarc_operator \<Rightarrow> nat \<Rightarrow> voice_turn \<Rightarrow> bool \<Rightarrow> bool \<Rightarrow> qarc_observation" where
  "qarc_turn_observation op attempts t substantive hesitation_only =
     \<lparr>qo_operator = op, qo_scope_bound = True, qo_confidence = Fin 1,
      qo_endpoint_committed = endpoint_committed t, qo_commit_protected = commit_protected t,
      qo_new_scope = False, qo_substantive = substantive, qo_hesitation = hesitation_only,
      qo_onset = Fin 0, qo_incidental = Fin 0, qo_attempts = attempts, qo_cancelable = vt_cancelable t\<rparr>"

definition certificate_mismatch :: "qarc_decision \<Rightarrow> bool" where
  "certificate_mismatch d \<longleftrightarrow> qc_version (qd_certificate d) \<noteq> QARCPolicyVersion
     \<or> qc_action (qd_certificate d) \<noteq> qd_action d \<or> qc_template (qd_certificate d) \<noteq> qd_template d
     \<or> qc_slot (qd_certificate d) \<noteq> qd_slot d \<or> \<not> qc_non_interference (qd_certificate d)"

definition qarc_cue_decision :: "coach_decision \<Rightarrow> string \<Rightarrow> nat \<Rightarrow> coach_decision" where
  "qarc_cue_decision base reply attempts =
     (let b = base\<lparr>co_reply := reply, co_attempts := (if attempts < MaxCoachAttempts then attempts + 1 else attempts)\<rparr>
      in if co_phase b = CoachPhaseAwaitingRestatement then b\<lparr>co_action := CoachActionRestate\<rparr>
         else if co_phase b = CoachPhaseExpanding then b\<lparr>co_action := CoachActionExpand\<rparr>
         else b\<lparr>co_phase := CoachPhaseAwaitingAnswer, co_action := CoachActionElicit\<rparr>)"

definition qarc_coach_intervention ::
  "QuestionGate.operator \<Rightarrow> coach_phase \<Rightarrow> nat \<Rightarrow> voice_turn \<Rightarrow> bool \<Rightarrow> bool \<Rightarrow> coach_decision" where
  "qarc_coach_intervention op phase attempts t substantive hesitation_only =
     (let base = plain_decision (normalized_qarc_phase phase) CoachActionNone [] attempts True False in
      case project_qarc_operator op of None \<Rightarrow> base
      | Some qop \<Rightarrow>
        let d = decide_qarc (qarc_turn_observation qop attempts t substantive hesitation_only) in
        if certificate_mismatch d then base
        else case render_qarc_cue (qd_template d) (qd_slot d) of None \<Rightarrow> base
        | Some reply \<Rightarrow>
          (case qd_action d of
             QARCWait \<Rightarrow> base
           | QARCRelease \<Rightarrow> plain_decision CoachPhaseBlocked CoachActionRelease reply MaxCoachAttempts False False
           | _ \<Rightarrow> if reply = [] \<or> \<not> qc_floor_protected (qd_certificate d) then base
                  else qarc_cue_decision base reply attempts))"

definition qarc_coach_prompt :: "QuestionGate.operator \<Rightarrow> coach_phase \<Rightarrow> nat \<Rightarrow> voice_turn \<Rightarrow> bool \<Rightarrow> coach_decision" where
  "qarc_coach_prompt op phase attempts t substantive =
     qarc_coach_intervention op phase attempts t substantive (\<not> substantive)"

fun coach_attempts_from_level :: "answer_attempt_level \<Rightarrow> nat" where
  "coach_attempts_from_level AnswerAttemptNone = 0"
| "coach_attempts_from_level AnswerAttemptOne = 1"
| "coach_attempts_from_level _ = MaxCoachAttempts"

definition qarc_coach_attempt ::
  "(f64 \<Rightarrow> f64) \<Rightarrow> QuestionGate.operator \<Rightarrow> voice_turn \<Rightarrow> bool \<Rightarrow> controller_input \<Rightarrow> coach_decision" where
  "qarc_coach_attempt lg op t abstained inp =
     (let c = plan_answer_support lg inp; policy = guide_with_progress lg op abstained inp in
      if cd_action c = AnswerSupportElicit \<or> cd_action c = AnswerSupportRestate then
        (qarc_coach_intervention op (co_phase policy) (coach_attempts_from_level (ci_attempts inp)) t True False)
          \<lparr>co_posterior := cd_posterior c, co_updated := True, co_reason := Some (cd_reason c)\<rparr>
      else policy)"

fun coach_phase_from_progress :: "answer_phase \<Rightarrow> coach_phase" where
  "coach_phase_from_progress AnswerPhaseNone = CoachPhaseNone"
| "coach_phase_from_progress AnswerPhaseAwaitingAnswer = CoachPhaseAwaitingAnswer"
| "coach_phase_from_progress AnswerPhaseAwaitingRestatement = CoachPhaseAwaitingRestatement"
| "coach_phase_from_progress AnswerPhaseExpanding = CoachPhaseExpanding"
| "coach_phase_from_progress AnswerPhaseComplete = CoachPhaseComplete"
| "coach_phase_from_progress AnswerPhaseBlocked = CoachPhaseBlocked"
| "coach_phase_from_progress _ = CoachPhaseBlocked"

definition qarc_bound_scope :: "pending_answer \<Rightarrow> bool" where
  "qarc_bound_scope f \<longleftrightarrow> pf_active f \<and> pf_instance_tag f \<noteq> [] \<and> pf_question_tag f \<noteq> []"

definition qarc_speech_authority :: "voice_turn \<Rightarrow> bool" where
  "qarc_speech_authority t \<longleftrightarrow> vt_cancelable t
     \<and> ((\<not> vt_speculative t \<and> vt_origin t = InputOriginCommittedVoice)
        \<or> (vt_speculative t \<and> vt_origin t = InputOriginProvisionalVoice))"

section \<open>The control of the pending answer\<close>

text \<open>\<open>authoritativeCoachQuestion\<close>: the operator, the subject and the slots that the turn must answer.\<close>

definition authoritative_operator :: "pending_answer \<Rightarrow> AnswerContract.operator" where
  "authoritative_operator f = (if pf_phase f = CoachPhaseExpanding then pf_expansion f else pf_operator f)"

definition authoritative_slots :: "pending_answer \<Rightarrow> required_slot list" where
  "authoritative_slots f =
     (if pf_phase f = CoachPhaseExpanding
      then case AnswerContract.target_slot (pf_expansion f) of Some t \<Rightarrow> [t] | None \<Rightarrow> pf_slots f
      else pf_slots f)"

definition authoritative_coach_operator :: "pending_answer \<Rightarrow> QuestionGate.operator" where
  "authoritative_coach_operator f = respondent_op (authoritative_operator f)"

text \<open>
  The counts of a map: those of the left slots, less one for each right slot; a negative count fails
  at once.
\<close>

fun take_slots :: "required_slot list \<Rightarrow> (required_slot \<Rightarrow> int) \<Rightarrow> (required_slot \<Rightarrow> int) option" where
  "take_slots [] counts = Some counts"
| "take_slots (s # ss) counts =
     (let c = counts(s := counts s - 1) in if c s < 0 then None else take_slots ss c)"

definition count_slots :: "required_slot list \<Rightarrow> required_slot \<Rightarrow> int" where
  "count_slots left = foldl (\<lambda>c s. c(s := c s + 1)) (\<lambda>_. 0) left"

definition same_required_slots :: "required_slot list \<Rightarrow> required_slot list \<Rightarrow> bool" where
  "same_required_slots left right =
     (length left = length right
      \<and> (case take_slots right (count_slots left) of None \<Rightarrow> False
         | Some counts \<Rightarrow> list_all (\<lambda>s. counts s = 0) (left @ right)))"

definition same_progress_scope :: "pending_answer \<Rightarrow> pending_answer \<Rightarrow> bool" where
  "same_progress_scope l r \<longleftrightarrow>
     pf_active l \<and> pf_active r \<and> pf_phase l = pf_phase r \<and> pf_subject l = pf_subject r
     \<and> pf_instance_tag l = pf_instance_tag r \<and> pf_question_tag l = pf_question_tag r
     \<and> pf_continuity_tag l = pf_continuity_tag r \<and> pf_restatement_tag l = pf_restatement_tag r
     \<and> pf_native_tag l = pf_native_tag r \<and> pf_follow_up l = pf_follow_up r
     \<and> authoritative_operator l = authoritative_operator r
     \<and> same_required_slots (authoritative_slots l) (authoritative_slots r)"

definition pending_answer_with_control :: "pending_answer \<Rightarrow> coach_phase \<Rightarrow> nat \<Rightarrow> pending_answer" where
  "pending_answer_with_control frame phase attempts =
     (let f = frame\<lparr>pf_active := True, pf_phase := phase, pf_attempts := attempts\<rparr>;
          f = (if phase \<noteq> CoachPhaseAwaitingRestatement then f\<lparr>pf_restatement_tag := []\<rparr> else f);
          f = (if phase = CoachPhaseExpanding then f\<lparr>pf_continuity_tag := []\<rparr> else f)
      in if \<not> same_progress_scope frame f then f\<lparr>pf_progress := None\<rparr> else f)"

definition progress_for_transition :: "pending_answer \<Rightarrow> pending_answer \<Rightarrow> posterior \<Rightarrow> posterior" where
  "progress_for_transition previous next_frame p =
     (if \<not> same_progress_scope previous next_frame then default_posterior else p)"

definition coach_decision_act :: "coach_action \<Rightarrow> string" where
  "coach_decision_act a = (if a \<in> {CoachActionComplete, CoachActionRelease} then ''reflect'' else ''clarify'')"

definition coach_route_prefix :: "coach_action \<Rightarrow> bool \<Rightarrow> string" where
  "coach_route_prefix a silent =
     (if silent then ''respondent-wait-''
      else case a of
        CoachActionElicit \<Rightarrow> ''respondent-awaiting-''
      | CoachActionRestate \<Rightarrow> ''respondent-restate-''
      | CoachActionExpand \<Rightarrow> ''respondent-expand-''
      | CoachActionComplete \<Rightarrow> ''respondent-complete-''
      | CoachActionRetry \<Rightarrow> ''respondent-retry-''
      | CoachActionRelease \<Rightarrow> ''respondent-release-''
      | CoachActionNone \<Rightarrow> ''respondent-wait-'')"

section \<open>Proofs of an answer\<close>

datatype answer_proof = AnswerProofNone | AnswerProofQuestionBoundInputAnswerFirst | AnswerProofOther string

datatype transition_proof =
  AnswerTransitionProofNone | AnswerTransitionProofQuestionBoundInputClauseLaterToFirst

definition answer_ownership_yields_floor :: "answer_proof \<Rightarrow> answer_proof \<Rightarrow> string \<Rightarrow> string \<Rightarrow> bool" where
  "answer_ownership_yields_floor proof candidate phase act \<longleftrightarrow>
     (proof = AnswerProofQuestionBoundInputAnswerFirst \<or> candidate = AnswerProofQuestionBoundInputAnswerFirst)
     \<and> phase = ''complete'' \<and> act = ''complete''"

definition answer_proof_candidate ::
  "voice_turn \<Rightarrow> pending_answer \<Rightarrow> coach_decision \<Rightarrow> bool \<Rightarrow> bool \<Rightarrow> string \<Rightarrow> string \<Rightarrow> answer_proof" where
  "answer_proof_candidate t f d continuity_verified span_bound target stage =
     (if (vt_origin t \<noteq> InputOriginCommittedVoice \<and> vt_origin t \<noteq> InputOriginProvisionalVoice)
        \<or> vt_research_disabled t \<or> vt_pdf t \<noteq> None \<or> target \<noteq> ''respondent'' \<or> stage \<noteq> ''restructure''
        \<or> \<not> continuity_verified \<or> \<not> span_bound \<or> \<not> co_verified_first d \<or> pf_follow_up f
        \<or> pf_phase f = CoachPhaseExpanding \<or> pf_instance_tag f = [] \<or> pf_question_tag f = []
        \<or> pf_continuity_tag f = []
      then AnswerProofNone
      else if \<not> (co_phase d = CoachPhaseComplete \<and> co_action d = CoachActionComplete)
        \<and> \<not> (co_phase d = CoachPhaseExpanding \<and> co_action d = CoachActionExpand)
      then AnswerProofNone
      else AnswerProofQuestionBoundInputAnswerFirst)"

definition answer_proof_for_turn ::
  "voice_turn \<Rightarrow> pending_answer \<Rightarrow> coach_decision \<Rightarrow> bool \<Rightarrow> bool \<Rightarrow> string \<Rightarrow> string \<Rightarrow> answer_proof" where
  "answer_proof_for_turn t f d continuity_verified span_bound target stage =
     (if vt_speculative t \<or> vt_origin t \<noteq> InputOriginCommittedVoice then AnswerProofNone
      else answer_proof_candidate t f d continuity_verified span_bound target stage)"

definition transition_evidence_for_late_turn ::
  "pending_answer \<Rightarrow> coach_decision \<Rightarrow> gate_assessment \<Rightarrow> assessment \<Rightarrow> answer_transition_evidence" where
  "transition_evidence_for_late_turn f d g critic =
     (if co_phase d \<noteq> CoachPhaseAwaitingRestatement \<or> co_action d \<noteq> CoachActionRestate \<or> \<not> co_keep d
        \<or> pf_follow_up f \<or> pf_instance_tag f = [] \<or> pf_question_tag f = [] \<or> pf_continuity_tag f = []
        \<or> project_respondent_signal g \<noteq> VerifierSignalLater \<or> project_critic_signal critic \<noteq> VerifierSignalLater
      then AnswerTransitionEvidenceNone else AnswerTransitionEvidenceQuestionBoundInputClauseLater)"

definition same_transition_scope :: "pending_answer \<Rightarrow> pending_answer \<Rightarrow> bool" where
  "same_transition_scope l r \<longleftrightarrow>
     pf_active l \<and> pf_active r \<and> pf_operator l = pf_operator r
     \<and> pf_instance_tag l \<noteq> [] \<and> pf_question_tag l \<noteq> [] \<and> pf_continuity_tag l \<noteq> []
     \<and> pf_instance_tag r \<noteq> [] \<and> pf_question_tag r \<noteq> [] \<and> pf_continuity_tag r \<noteq> []
     \<and> pf_instance_tag l = pf_instance_tag r \<and> pf_question_tag l = pf_question_tag r
     \<and> pf_continuity_tag l = pf_continuity_tag r \<and> pf_slots l = pf_slots r"

definition transition_proof_candidate ::
  "voice_turn \<Rightarrow> pending_answer \<Rightarrow> pending_answer \<Rightarrow> coach_decision \<Rightarrow> answer_proof \<Rightarrow> bool \<Rightarrow> bool \<Rightarrow> string \<Rightarrow> string
     \<Rightarrow> bool \<Rightarrow> transition_proof" where
  "transition_proof_candidate t previous current d proof continuity_verified span_bound target stage enabled =
     (if \<not> enabled \<or> pf_transition previous \<noteq> AnswerTransitionEvidenceQuestionBoundInputClauseLater
        \<or> pf_phase previous \<noteq> CoachPhaseAwaitingRestatement
        \<or> proof \<noteq> AnswerProofQuestionBoundInputAnswerFirst
        \<or> answer_proof_candidate t current d continuity_verified span_bound target stage
            \<noteq> AnswerProofQuestionBoundInputAnswerFirst
        \<or> \<not> same_transition_scope previous current
        \<or> co_phase d \<noteq> CoachPhaseComplete \<or> co_action d \<noteq> CoachActionComplete
      then AnswerTransitionProofNone else AnswerTransitionProofQuestionBoundInputClauseLaterToFirst)"

definition transition_proof_for_turn ::
  "voice_turn \<Rightarrow> pending_answer \<Rightarrow> pending_answer \<Rightarrow> coach_decision \<Rightarrow> answer_proof \<Rightarrow> bool \<Rightarrow> bool \<Rightarrow> string \<Rightarrow> string
     \<Rightarrow> bool \<Rightarrow> transition_proof" where
  "transition_proof_for_turn t previous current d proof continuity_verified span_bound target stage enabled =
     (if vt_speculative t \<or> vt_origin t \<noteq> InputOriginCommittedVoice then AnswerTransitionProofNone
      else transition_proof_candidate t previous current d proof continuity_verified span_bound target stage enabled)"

section \<open>What the renderer and the policy say\<close>

lemmas cue_defs = cue_boolean_def cue_choice_def cue_quantity_def cue_state_def cue_cause_def cue_purpose_def
  cue_procedure_def cue_definition_def cue_comparison_def cue_evidence_def cue_open_def cue_neutral_def
  cue_release_def

lemma utf8_encode_ne: "utf8_encode (c # cs) \<noteq> []"
  by (simp add: utf8_encode_def utf8_char_def)

lemma audited_cues:
  "audited_qarc_cues = [cue_boolean, cue_choice, cue_quantity, cue_state, cue_cause, cue_purpose,
     cue_procedure, cue_definition, cue_comparison, cue_evidence, cue_open, cue_neutral, cue_release]"
  by (simp add: audited_qarc_cues_def audited_pairs_def map_filter_simps render_qarc_cue_def for_slot_def
      cue_defs utf8_encode_ne)

lemma rendered_audited:
  "render_qarc_cue t s = Some cue \<Longrightarrow> cue = [] \<or> cue \<in> set audited_qarc_cues"
  by (auto simp: render_qarc_cue_def for_slot_def audited_cues split: qarc_template.splits if_splits)

lemma cue_decision_fields [simp]:
  "co_reply (qarc_cue_decision base r n) = r"
  "co_keep (qarc_cue_decision base r n) = co_keep base"
  "co_attempts (qarc_cue_decision base r n) = (if n < MaxCoachAttempts then n + 1 else n)"
  "co_verified_first (qarc_cue_decision base r n) = co_verified_first base"
  by (simp_all add: qarc_cue_decision_def Let_def)


lemma intervention_cases:
  "qarc_coach_intervention op phase n t sub hes = plain_decision (normalized_qarc_phase phase) CoachActionNone [] n True False
   \<or> (\<exists>qop. project_qarc_operator op = Some qop
        \<and> qd_action (decide_qarc (qarc_turn_observation qop n t sub hes)) = QARCRelease
        \<and> (\<exists>r \<in> {[]} \<union> set audited_qarc_cues. qarc_coach_intervention op phase n t sub hes
             = plain_decision CoachPhaseBlocked CoachActionRelease r MaxCoachAttempts False False))
   \<or> (\<exists>qop. project_qarc_operator op = Some qop
        \<and> qd_action (decide_qarc (qarc_turn_observation qop n t sub hes)) \<in> {QARCOperatorCue, QARCNeutralCue}
        \<and> (\<exists>r \<in> set audited_qarc_cues. qarc_coach_intervention op phase n t sub hes
             = qarc_cue_decision (plain_decision (normalized_qarc_phase phase) CoachActionNone [] n True False) r n))"
  using rendered_audited
  by (auto simp: qarc_coach_intervention_def Let_def split: option.splits qarc_action.splits)

lemma intervention_speaks:
  "co_reply (qarc_coach_intervention op phase n t sub hes) \<in> insert [] (set audited_qarc_cues)"
  using intervention_cases [of op phase n t sub hes] by (elim disjE exE bexE conjE) auto

text \<open>A cue is spoken only with the authority that the cue policy wants of the turn.\<close>

lemma intervention_silent_without_floor:
  assumes "co_action (qarc_coach_intervention op phase n t sub hes) \<noteq> CoachActionNone"
  shows "\<not> hes \<and> vt_cancelable t \<and> (endpoint_committed t \<or> commit_protected t)"
proof -
  obtain qop where "qd_action (decide_qarc (qarc_turn_observation qop n t sub hes)) \<noteq> QARCWait"
    using intervention_cases [of op phase n t sub hes] assms by fastforce
  from qarc_speech [OF this] show ?thesis by (simp add: qarc_speech_allowed_def qarc_turn_observation_def)
qed

lemma intervention_unverified: "\<not> co_verified_first (qarc_coach_intervention op phase n t sub hes)"
  using intervention_cases [of op phase n t sub hes] by (elim disjE exE bexE conjE) auto

lemma intervention_attempts:
  assumes "n \<le> MaxCoachAttempts"
  shows "co_attempts (qarc_coach_intervention op phase n t sub hes) \<le> MaxCoachAttempts
    \<and> n \<le> co_attempts (qarc_coach_intervention op phase n t sub hes)"
  using intervention_cases [of op phase n t sub hes] assms by (elim disjE exE bexE conjE) auto

lemma attempt_cases:
  "qarc_coach_attempt lg op t ab inp = guide_with_progress lg op ab inp
     \<and> cd_action (plan_answer_support lg inp) \<notin> {AnswerSupportElicit, AnswerSupportRestate}
   \<or> cd_action (plan_answer_support lg inp) \<in> {AnswerSupportElicit, AnswerSupportRestate}
     \<and> (\<exists>ph p u r. qarc_coach_attempt lg op t ab inp =
          (qarc_coach_intervention op ph (coach_attempts_from_level (ci_attempts inp)) t True False)
            \<lparr>co_posterior := p, co_updated := u, co_reason := r\<rparr>)"
  by (auto simp: qarc_coach_attempt_def Let_def)

lemma attempt_speaks:
  "co_reply (qarc_coach_attempt lg op t ab inp) \<in> coach_texts \<union> set audited_qarc_cues"
  using attempt_cases [of lg op t ab inp]
proof (elim disjE conjE exE)
  assume "qarc_coach_attempt lg op t ab inp = guide_with_progress lg op ab inp"
  then show ?thesis by (simp add: coach_speech)
next
  fix ph p u r
  assume eq: "qarc_coach_attempt lg op t ab inp =
     (qarc_coach_intervention op ph (coach_attempts_from_level (ci_attempts inp)) t True False)
       \<lparr>co_posterior := p, co_updated := u, co_reason := r\<rparr>"
  have "[] \<in> coach_texts" by simp
  then show ?thesis
    using intervention_speaks [of op ph "coach_attempts_from_level (ci_attempts inp)" t True False] unfolding eq by auto
qed

text \<open>
  C16. The prose boundary of the cue policy: in a prompt the coach says nothing or one of the thirteen
  audited cues, and in an attempt nothing, an audited cue or one of the coach's own fixed texts;
  whatever the turn, the verdicts and the posterior hold. A prompt that says anything holds the floor:
  the person did not hesitate, the audio can be cancelled, and the end of speech is either committed
  or guarded by a commit gate.
\<close>

theorem cues_are_audited:
  "co_reply (qarc_coach_prompt op phase attempts t substantive) \<in> insert [] (set audited_qarc_cues)
   \<and> co_reply (qarc_coach_attempt lg op t abstained inp) \<in> coach_texts \<union> set audited_qarc_cues
   \<and> (if co_reply (qarc_coach_prompt op phase attempts t substantive) = [] then True
      else substantive \<and> vt_cancelable t \<and> (endpoint_committed t \<or> commit_protected t))"
proof (intro conjI)
  show "co_reply (qarc_coach_prompt op phase attempts t substantive) \<in> insert [] (set audited_qarc_cues)"
    unfolding qarc_coach_prompt_def by (rule intervention_speaks)
  show "co_reply (qarc_coach_attempt lg op t abstained inp) \<in> coach_texts \<union> set audited_qarc_cues"
    by (rule attempt_speaks)
  have "co_reply (qarc_coach_intervention op phase n t sub hes) = []"
    if "co_action (qarc_coach_intervention op phase n t sub hes) = CoachActionNone" for n sub hes
    using intervention_cases [of op phase n t sub hes] that
    by (elim disjE exE bexE conjE) (auto simp: qarc_cue_decision_def Let_def split: if_splits)
  then show "if co_reply (qarc_coach_prompt op phase attempts t substantive) = [] then True
      else substantive \<and> vt_cancelable t \<and> (endpoint_committed t \<or> commit_protected t)"
    using intervention_silent_without_floor [of op phase attempts t substantive "\<not> substantive"]
    unfolding qarc_coach_prompt_def by (auto split: if_split)
qed

section \<open>What a first answer rests on\<close>

lemma feq_one: "feq x (Fin 1) \<longleftrightarrow> x = Fin 1"
  by (cases x) (auto simp: feq_def)

lemma respondent_first:
  "project_respondent_signal g = VerifierSignalFirst \<Longrightarrow>
     ga_outcome g = QuestionGate.OutcomeKeep \<and> ga_satisfied g
     \<and> ga_original_position g = QuestionGate.PositionFirst \<and> feq (ga_original_coverage g) (Fin 1)
     \<and> {QuestionGate.IssueInvalidContract, QuestionGate.IssueContentChanged, QuestionGate.IssueAmbiguousQuestion}
         \<inter> set (ga_issues g) = {}"
proof -
  have none: "settled_by_issue is = None \<longleftrightarrow>
      QuestionGate.IssueInvalidContract \<notin> set is \<and> QuestionGate.IssueContentChanged \<notin> set is" for "is"
    by (induction "is") auto
  have never: "settled_by_issue is \<noteq> Some VerifierSignalFirst" for "is"
    by (induction "is") auto
  assume first: "project_respondent_signal g = VerifierSignalFirst"
  then have open_issues: "settled_by_issue (ga_issues g) = None"
    using never by (auto simp: project_respondent_signal_def split: option.splits if_splits)
  have "ga_original_position g = QuestionGate.PositionFirst \<and> ga_satisfied g \<and> ga_outcome g = QuestionGate.OutcomeKeep
      \<and> feq (ga_original_coverage g) (Fin 1) \<and> QuestionGate.IssueAmbiguousQuestion \<notin> set (ga_issues g)"
    using first
    by (cases "ga_original_position g")
      (simp_all add: project_respondent_signal_def open_issues valid_respondent_position_def split: if_split_asm)
  then show ?thesis using open_issues none by simp
qed

lemma critic_first:
  "project_critic_signal a = VerifierSignalFirst \<Longrightarrow>
     as_outcome a = AnswerContract.OutcomeKeep \<and> as_satisfied a \<and> \<not> as_ambiguous a
     \<and> me_position (as_metrics a) = AnswerContract.PositionFirst \<and> feq (me_coverage (as_metrics a)) (Fin 1)"
  by (simp add: project_critic_signal_def Let_def split: if_split_asm position_class.split_asm)

text \<open>
  C5. A first answer rests on both verdicts: whenever the cue policy counts an answer as given first,
  the controller accepted it as complete, the gate kept it with its whole target at the front of the
  person's own utterance and named no changed content, no ambiguous question and no broken contract,
  the critic independently kept it, unambiguous, with its whole target first, and verification was
  available, no hesitation, and the question not an expansion.
\<close>

theorem first_answer_rests_on_both:
  "{(g, critic). co_verified_first (qarc_coach_attempt lg op t abstained
       (verifier_progress_input prior g critic phase attempts oneshot hesitation available))} \<subseteq>
   {(g, critic). ga_outcome g = QuestionGate.OutcomeKeep \<and> ga_satisfied g
      \<and> ga_original_position g = QuestionGate.PositionFirst \<and> feq (ga_original_coverage g) (Fin 1)
      \<and> {QuestionGate.IssueInvalidContract, QuestionGate.IssueContentChanged, QuestionGate.IssueAmbiguousQuestion}
          \<inter> set (ga_issues g) = {}
      \<and> as_outcome critic = AnswerContract.OutcomeKeep \<and> as_satisfied critic \<and> \<not> as_ambiguous critic
      \<and> me_position (as_metrics critic) = AnswerContract.PositionFirst
      \<and> feq (me_coverage (as_metrics critic)) (Fin 1)
      \<and> available \<and> \<not> hesitation \<and> phase \<noteq> CoachPhaseExpanding}"
proof (intro subsetI, clarify)
  fix g critic
  let ?inp = "verifier_progress_input prior g critic phase attempts oneshot hesitation available"
  assume "co_verified_first (qarc_coach_attempt lg op t abstained ?inp)"
  then have "cd_verified_first (plan_answer_support lg ?inp)"
    using attempt_cases [of lg op t abstained ?inp] intervention_unverified
    by (auto simp: progress_fields)
  then have "project_respondent_signal g = VerifierSignalFirst" "project_critic_signal critic = VerifierSignalFirst"
    "available" "\<not> hesitation" "normalize_answer_phase (project_phase phase) \<noteq> AnswerPhaseExpanding"
    unfolding plan_verified_first by (simp_all add: verifier_progress_input_def)
  then show "ga_outcome g = QuestionGate.OutcomeKeep \<and> ga_satisfied g
      \<and> ga_original_position g = QuestionGate.PositionFirst \<and> feq (ga_original_coverage g) (Fin 1)
      \<and> {QuestionGate.IssueInvalidContract, QuestionGate.IssueContentChanged, QuestionGate.IssueAmbiguousQuestion}
          \<inter> set (ga_issues g) = {}
      \<and> as_outcome critic = AnswerContract.OutcomeKeep \<and> as_satisfied critic \<and> \<not> as_ambiguous critic
      \<and> me_position (as_metrics critic) = AnswerContract.PositionFirst
      \<and> feq (me_coverage (as_metrics critic)) (Fin 1)
      \<and> available \<and> \<not> hesitation \<and> phase \<noteq> CoachPhaseExpanding"
    using respondent_first critic_first by (auto simp: normalize_answer_phase_def)
qed

end
