(* ===== verification/Sorted_Ranks.thy ===== *)
theory Sorted_Ranks
  imports "HOL-Library.Multiset"
begin

text \<open>
  Ranks in a sorted list: how many members lie at or below the \<open>k\<close>-th smallest, and how it moves when
  one member is held out. Shared by the calibration of \<open>asrrisk\<close> and the percentiles of
  \<open>latencytrace\<close>.
\<close>

text \<open>At least \<open>k\<close> members of a list are at most its \<open>k\<close>-th smallest.\<close>

lemma rank_counts:
  assumes "k < length xs"
  shows "k < length (List.filter (\<lambda>x. x \<le> sort xs ! k) xs)"
proof -
  let ?s = "sort xs"
  have "length (List.filter (\<lambda>x. x \<le> ?s ! k) xs) = length (List.filter (\<lambda>x. x \<le> ?s ! k) ?s)"
    by (metis mset_filter mset_sort size_mset)
  also have "\<dots> \<ge> length (List.filter (\<lambda>x. x \<le> ?s ! k) (List.take (k + 1) ?s))"
    by (metis append_take_drop_id filter_append le_add1 length_append)
  moreover have "List.filter (\<lambda>x. x \<le> ?s ! k) (List.take (k + 1) ?s) = List.take (k + 1) ?s"
    using assms by (intro filter_True) (auto simp: in_set_conv_nth sorted_nth_mono)
  ultimately show ?thesis using assms by simp
qed

text \<open>Without one of its members the \<open>k\<close>-th smallest of a list is no smaller.\<close>

lemma sorted_insort_nth: "sorted ss \<Longrightarrow> k < length ss \<Longrightarrow> insort x ss ! k \<le> ss ! k"
proof (induction ss arbitrary: k)
  case (Cons s ss)
  show ?case
  proof (cases k)
    case 0
    then show ?thesis by simp
  next
    case (Suc j)
    then have "insort x ss ! j \<le> ss ! j" using Cons by simp
    moreover have "ss ! j \<ge> (s # ss) ! j" using Cons.prems Suc
      by (metis Suc_n_not_le_n length_Cons linorder_linear not_less_eq nth_Cons_Suc sorted_nth_mono)
    ultimately show ?thesis using Suc by simp
  qed
qed simp

definition hold_out :: "nat \<Rightarrow> 'a list \<Rightarrow> 'a list" where
  "hold_out i xs = List.take i xs @ drop (Suc i) xs"

lemma sort_hold_out:
  assumes "i < length xs"
  shows "sort xs = insort (xs ! i) (sort (hold_out i xs))"
proof -
  have "mset xs = mset (xs ! i # hold_out i xs)"
    using assms unfolding hold_out_def by (metis (no_types, lifting) add_mset_add_single id_take_nth_drop mset.simps(2) mset_append union_mset_add_mset_right)
  then show ?thesis by (metis mset_insort mset.simps(2) mset_sort properties_for_sort sorted_insort sorted_sort)
qed

lemma length_hold_out: "i < length xs \<Longrightarrow> length (hold_out i xs) = length xs - 1"
  by (simp add: hold_out_def)

lemma held_out_rank:
  assumes "i < length xs" "k < length xs - 1"
  shows "sort xs ! k \<le> sort (hold_out i xs) ! k"
proof -
  have "insort (xs ! i) (sort (hold_out i xs)) ! k \<le> sort (hold_out i xs) ! k"
    using assms by (intro sorted_insort_nth) (simp_all add: length_hold_out)
  then show ?thesis using sort_hold_out [OF assms(1)] by simp
qed


text \<open>No more than \<open>k\<close> members lie below the \<open>k\<close>-th smallest.\<close>

lemma below_rank:
  assumes "k < length xs"
  shows "length (List.filter (\<lambda>x. x < sort xs ! k) xs) \<le> k"
proof -
  let ?s = "sort xs"
  have "length (List.filter (\<lambda>x. x < ?s ! k) xs) = length (List.filter (\<lambda>x. x < ?s ! k) ?s)"
    by (metis mset_filter mset_sort size_mset)
  also have "\<dots> = card {i. i < length ?s \<and> ?s ! i < ?s ! k}" by (rule length_filter_conv_card)
  also have "\<dots> \<le> card {..<k}"
  proof (intro card_mono subsetI)
    fix i assume "i \<in> {i. i < length ?s \<and> ?s ! i < ?s ! k}"
    then show "i \<in> {..<k}" using sorted_nth_mono [of ?s k i] by (cases "k \<le> i") (auto simp: not_le)
  qed simp
  finally show ?thesis by simp
qed

end
