(* ===== verification/AsrRisk.thy ===== *)
theory AsrRisk
  imports Float64 Go_Text Sorted_Ranks
begin

text \<open>
  \<open>asrrisk\<close>: whether a recognised phrase is accepted, observed again or rejected, by a threshold on
  its nonconformity score. A calibrated controller takes the threshold from an artifact of scores by
  the ceiling rank of split conformal prediction. A \<open>uint32\<close> is a natural number; the products in
  \<open>uint64\<close> stay below \<open>2 ^ 32 * 10 ^ 6\<close>. A \<open>float32\<close> is the double it converts to. SHA-256 is an
  argument.
\<close>

section \<open>Evidence, artifacts, controllers\<close>

definition ScoreScale :: nat where "ScoreScale = 1000000"
definition BootstrapConfidenceThreshold :: f64 where
  "BootstrapConfidenceThreshold = Fin (10905190 / 2 ^ 24)"
definition SchemaVersion :: nat where "SchemaVersion = 1"
definition BucketProviderConfidenceV1 :: string where "BucketProviderConfidenceV1 = ''provider-confidence-v1''"

datatype decision = Accept | Reobserve | Reject

datatype reason =
  ReasonWithinBoundary | ReasonOutsideBoundary | ReasonCoverageUnavailable | ReasonInvalidEvidence
  | ReasonNativeCommit

record evidence =
  ev_confidence :: f64
  ev_observed :: bool
  ev_native :: bool

record risk_result =
  rr_decision :: decision
  rr_reason :: reason
  rr_policy :: string
  rr_calibrated :: bool

record artifact =
  ar_schema :: nat
  ar_policy :: string
  ar_bucket :: string
  ar_alpha :: nat
  ar_count :: nat
  ar_scores :: "nat list"
  ar_digest :: string

record controller =
  ct_policy :: string
  ct_threshold :: nat
  ct_calibrated :: bool

datatype risk_error = ErrInvalidArtifact

section \<open>Scores and digests\<close>

text \<open>\<open>uint32\<close> of a double: the integer part; what Go leaves open outside the range is 0.\<close>

fun to_uint32 :: "f64 \<Rightarrow> nat" where
  "to_uint32 (Fin x) = (if 0 \<le> x \<and> x < 2 ^ 32 then nat \<lfloor>x\<rfloor> else 0)"
| "to_uint32 _ = 0"

definition confidence_to_score :: "f64 \<Rightarrow> nat" where
  "confidence_to_score c =
     (let s = fround (fmul (fsub (Fin 1) c) (Fin (of_nat ScoreScale)))
      in to_uint32 (fmax (Fin 0) (fmin (Fin (of_nat ScoreScale)) s)))"

definition write_uint32 :: "nat \<Rightarrow> string" where
  "write_uint32 v = be_bytes 4 (of_nat v :: 32 word)"

definition write_string :: "string \<Rightarrow> string" where
  "write_string s = write_uint32 (length s) @ s"

definition artifact_digest :: "(string \<Rightarrow> string) \<Rightarrow> artifact \<Rightarrow> string" where
  "artifact_digest sha a = hex_encode (sha
     (write_uint32 (ar_schema a) @ write_string (ar_policy a) @ write_string (ar_bucket a)
      @ write_uint32 (ar_alpha a) @ write_uint32 (ar_count a) @ write_uint32 (length (ar_scores a))
      @ concat (List.map write_uint32 (ar_scores a))))"

section \<open>Controllers\<close>

definition new_bootstrap_controller :: controller where
  "new_bootstrap_controller =
     \<lparr>ct_policy = ''bootstrap-operational-v1'', ct_threshold = confidence_to_score BootstrapConfidenceThreshold,
      ct_calibrated = False\<rparr>"

definition controller_valid :: "controller \<Rightarrow> bool" where
  "controller_valid c \<longleftrightarrow> ct_policy c \<noteq> [] \<and> ct_threshold c \<le> ScoreScale"

text \<open>The loop over the scores: each in range and none below the one before it.\<close>

fun scores_ok :: "nat list \<Rightarrow> bool" where
  "scores_ok [] \<longleftrightarrow> True"
| "scores_ok [s] \<longleftrightarrow> s \<le> ScoreScale"
| "scores_ok (s # t # ss) \<longleftrightarrow> s \<le> ScoreScale \<and> s \<le> t \<and> scores_ok (t # ss)"

definition artifact_ok :: "(string \<Rightarrow> string) \<Rightarrow> artifact \<Rightarrow> bool" where
  "artifact_ok sha a \<longleftrightarrow>
     ar_schema a = SchemaVersion \<and> ar_policy a \<noteq> [] \<and> ar_bucket a = BucketProviderConfidenceV1
     \<and> ar_alpha a \<noteq> 0 \<and> ar_alpha a < ScoreScale \<and> ar_count a \<noteq> 0
     \<and> ar_count a = length (ar_scores a) mod 2 ^ 32 \<and> ar_digest a \<noteq> []
     \<and> ar_digest a = artifact_digest sha a"

definition conformal_rank :: "nat \<Rightarrow> nat \<Rightarrow> nat" where
  "conformal_rank n alpha = ((n + 1) * (ScoreScale - alpha) + ScoreScale - 1) div ScoreScale"

definition new_calibrated_controller :: "(string \<Rightarrow> string) \<Rightarrow> artifact \<Rightarrow> risk_error + controller" where
  "new_calibrated_controller sha a =
     (if \<not> artifact_ok sha a then Inl ErrInvalidArtifact
      else if \<not> scores_ok (ar_scores a) then Inl ErrInvalidArtifact
      else let rank = conformal_rank (ar_count a) (ar_alpha a) in
        if rank = 0 \<or> rank > ar_count a then Inl ErrInvalidArtifact
        else Inr \<lparr>ct_policy = ar_policy a, ct_threshold = ar_scores a ! (rank - 1), ct_calibrated = True\<rparr>)"

definition evidence_invalid :: "evidence \<Rightarrow> bool" where
  "evidence_invalid e \<longleftrightarrow>
     (let c = ev_confidence e in
      is_nan c \<or> is_inf c \<or> flt c (Fin 0) \<or> flt (Fin 1) c
      \<or> (\<not> ev_observed e \<and> \<not> feq c (Fin 0)) \<or> (ev_observed e \<and> feq c (Fin 0)))"

definition decide_risk :: "controller \<Rightarrow> evidence \<Rightarrow> risk_result" where
  "decide_risk c e =
     (let result = (\<lambda>d r. \<lparr>rr_decision = d, rr_reason = r, rr_policy = ct_policy c, rr_calibrated = ct_calibrated c\<rparr>)
      in if ev_native e then
           (if ev_observed e \<or> \<not> feq (ev_confidence e) (Fin 0) then result Reject ReasonInvalidEvidence
            else result Accept ReasonNativeCommit)
         else if evidence_invalid e then result Reject ReasonInvalidEvidence
         else if \<not> ev_observed e then
           result (if ct_calibrated c then Reobserve else Accept) ReasonCoverageUnavailable
         else if confidence_to_score (ev_confidence e) \<le> ct_threshold c then result Accept ReasonWithinBoundary
         else result Reobserve ReasonOutsideBoundary)"

lemma scores_ok_iff: "scores_ok ss \<longleftrightarrow> sorted ss \<and> (\<forall>s \<in> set ss. s \<le> ScoreScale)"
  by (induction ss rule: scores_ok.induct) (auto intro: order_trans)

section \<open>Coverage\<close>

lemma score_bound: "confidence_to_score c \<le> ScoreScale"
proof -
  have "to_uint32 (fmax (Fin 0) (fmin (Fin 1000000) v)) \<le> 1000000" for v
    by (cases v) (auto simp: fmax_def fmin_def nat_le_iff floor_le_iff)
  then show ?thesis by (simp add: confidence_to_score_def ScoreScale_def)
qed

text \<open>The artifact that \<open>calibrate\<close> builds from scores: sorted, counted and signed.\<close>

definition calibrate :: "(string \<Rightarrow> string) \<Rightarrow> string \<Rightarrow> nat \<Rightarrow> nat list \<Rightarrow> artifact" where
  "calibrate sha policy alpha scores =
     (let a = \<lparr>ar_schema = SchemaVersion, ar_policy = policy, ar_bucket = BucketProviderConfidenceV1,
               ar_alpha = alpha, ar_count = length scores, ar_scores = sort scores, ar_digest = []\<rparr>
      in a\<lparr>ar_digest := artifact_digest sha a\<rparr>)"

lemma hex_encode_empty: "hex_encode s = [] \<longleftrightarrow> s = []"
  by (cases s) auto

lemma calibrate_fields:
  "ar_schema (calibrate sha policy alpha scores) = SchemaVersion" "ar_policy (calibrate sha policy alpha scores) = policy"
  "ar_bucket (calibrate sha policy alpha scores) = BucketProviderConfidenceV1"
  "ar_alpha (calibrate sha policy alpha scores) = alpha" "ar_count (calibrate sha policy alpha scores) = length scores"
  "ar_scores (calibrate sha policy alpha scores) = sort scores"
  by (simp_all add: calibrate_def Let_def)

lemma calibrated:
  assumes "policy \<noteq> []" "0 < alpha" "alpha < ScoreScale" "scores \<noteq> []" "length scores < 2 ^ 32"
    "\<forall>s \<in> set scores. s \<le> ScoreScale" "\<forall>m. sha m \<noteq> []" "conformal_rank (length scores) alpha \<le> length scores"
  shows "new_calibrated_controller sha (calibrate sha policy alpha scores) =
    Inr \<lparr>ct_policy = policy, ct_threshold = sort scores ! (conformal_rank (length scores) alpha - 1), ct_calibrated = True\<rparr>"
proof -
  have "conformal_rank (length scores) alpha \<noteq> 0"
    using assms(3) by (simp add: conformal_rank_def div_eq_0_iff ScoreScale_def)
  moreover have "scores_ok (sort scores)" using assms(6) by (simp add: scores_ok_iff)
  moreover have "artifact_digest sha a \<noteq> []" for a
    using assms(7) by (simp add: artifact_digest_def hex_encode_empty)
  moreover have "ar_digest (calibrate sha policy alpha scores) = artifact_digest sha (calibrate sha policy alpha scores)"
    by (simp add: artifact_digest_def calibrate_def Let_def)
  moreover note fields = calibrate_fields [of sha policy alpha scores]
  ultimately show ?thesis
    using assms by (simp add: new_calibrated_controller_def artifact_ok_def Let_def)
qed

lemma rank_share: "alpha < ScoreScale \<Longrightarrow> (n + 1) * (ScoreScale - alpha) \<le> ScoreScale * conformal_rank n alpha"
proof -
  have "m \<le> ScoreScale * ((m + ScoreScale - 1) div ScoreScale)" for m
    using div_mult_mod_eq [of "m + ScoreScale - 1" ScoreScale] mod_less_divisor [of ScoreScale "m + ScoreScale - 1"]
    by (simp add: ScoreScale_def)
  then show ?thesis by (simp add: conformal_rank_def)
qed

text \<open>
  C8. The coverage of a calibrated controller. Take recognitions that all carry a valid confidence reported by
  the provider (observed, not native: without one a calibrated controller asks again), as many that the
  conformal rank \<open>\<lceil>(n + 1)(1 - \<alpha>)\<rceil>\<close> is at most \<open>n\<close>. Hold out each in turn, calibrate on the scores of the
  \<open>n\<close> others and decide the one that was held out: it is accepted in at least the share \<open>1 - \<alpha>\<close> of the
  cases that the artifact asks for, whatever those confidences are, with ties, duplicates and extremes.
\<close>

theorem conformal_coverage:
  assumes "policy \<noteq> []" "0 < alpha" "alpha < ScoreScale" "length es = Suc n" "0 < n" "n < 2 ^ 32"
    "conformal_rank n alpha \<le> n" "\<forall>m. sha m \<noteq> []"
    "\<forall>e \<in> set es. ev_observed e \<and> \<not> ev_native e \<and> \<not> evidence_invalid e"
  shows "Suc n * (ScoreScale - alpha) \<le> ScoreScale * card {i. i < length es
    \<and> (\<exists>c. new_calibrated_controller sha
              (calibrate sha policy alpha (hold_out i (List.map (\<lambda>e. confidence_to_score (ev_confidence e)) es))) = Inr c
        \<and> rr_decision (decide_risk c (es ! i)) = Accept)}"
proof -
  let ?score = "\<lambda>e. confidence_to_score (ev_confidence e)"
  let ?xs = "List.map ?score es"
  let ?k = "conformal_rank n alpha - 1"
  let ?ok = "{i. i < length es \<and> (\<exists>c. new_calibrated_controller sha (calibrate sha policy alpha (hold_out i ?xs)) = Inr c
        \<and> rr_decision (decide_risk c (es ! i)) = Accept)}"
  have rank: "0 < conformal_rank n alpha"
    using assms(3) by (simp add: conformal_rank_def div_greater_zero_iff ScoreScale_def)
  have accepted: "i \<in> ?ok" if "i < length ?xs" "?xs ! i \<le> sort ?xs ! ?k" for i
  proof -
    have len: "length (hold_out i ?xs) = n" using that assms(4) by (simp add: length_hold_out)
    have "set (hold_out i ?xs) \<subseteq> set ?xs" unfolding hold_out_def using set_take_subset set_drop_subset by fastforce
    then have small: "\<forall>s \<in> set (hold_out i ?xs). s \<le> ScoreScale" using score_bound by auto
    have "hold_out i ?xs \<noteq> []" using len assms(5) by auto
    then have "new_calibrated_controller sha (calibrate sha policy alpha (hold_out i ?xs)) =
      Inr \<lparr>ct_policy = policy, ct_threshold = sort (hold_out i ?xs) ! ?k, ct_calibrated = True\<rparr>"
      using calibrated [of policy alpha "hold_out i ?xs" sha] assms small len by simp
    moreover have "?xs ! i \<le> sort (hold_out i ?xs) ! ?k"
      using that(2) by (rule order_trans) (rule held_out_rank, use that rank assms(4,7) in simp_all)
    then have "?score (es ! i) \<le> sort (hold_out i ?xs) ! ?k" using that(1) by simp
    moreover have "es ! i \<in> set es" using that by simp
    ultimately show ?thesis using that assms(9) by (simp add: decide_risk_def Let_def)
  qed
  have "?k < length ?xs" using rank assms(4,7) by simp
  from rank_counts [OF this] have "conformal_rank n alpha \<le> length (List.filter (\<lambda>x. x \<le> sort ?xs ! ?k) ?xs)"
    using rank by linarith
  also have "\<dots> = card {i. i < length ?xs \<and> ?xs ! i \<le> sort ?xs ! ?k}" by (rule length_filter_conv_card)
  also have "\<dots> \<le> card ?ok" using accepted by (intro card_mono) auto
  finally have "ScoreScale * conformal_rank n alpha \<le> ScoreScale * card ?ok" by (rule mult_le_mono2)
  with rank_share [OF assms(3), of n] have "(n + 1) * (ScoreScale - alpha) \<le> ScoreScale * card ?ok" by (rule le_trans)
  then show ?thesis unfolding Suc_eq_plus1 .
qed

lemma conformal_coverage_witness:
  "Suc 1 * (ScoreScale - 500000) \<le> ScoreScale * card {i. i < length [\<lparr>ev_confidence = Fin (1 / 2), ev_observed = True, ev_native = False\<rparr>,
        \<lparr>ev_confidence = Fin 1, ev_observed = True, ev_native = False\<rparr>]
    \<and> (\<exists>c. new_calibrated_controller (\<lambda>_. ''h'') (calibrate (\<lambda>_. ''h'') ''p'' 500000
         (hold_out i (List.map (\<lambda>e. confidence_to_score (ev_confidence e))
            [\<lparr>ev_confidence = Fin (1 / 2), ev_observed = True, ev_native = False\<rparr>,
             \<lparr>ev_confidence = Fin 1, ev_observed = True, ev_native = False\<rparr>]))) = Inr c
        \<and> rr_decision (decide_risk c ([\<lparr>ev_confidence = Fin (1 / 2), ev_observed = True, ev_native = False\<rparr>,
             \<lparr>ev_confidence = Fin 1, ev_observed = True, ev_native = False\<rparr>] ! i)) = Accept)}"
  by (rule conformal_coverage)
    (simp_all add: ScoreScale_def conformal_rank_def evidence_invalid_def feq_def)

text \<open>
  Nothing is accepted without a reason: a phrase is accepted only as a native commit that carries
  no confidence, as an observed confidence within the threshold, or, by an uncalibrated controller,
  without a confidence, and then the result says that coverage is unavailable. Evidence that
  contradicts itself is rejected by every controller.
\<close>

theorem accepted_for_a_reason:
  "{(c, e). rr_decision (decide_risk c e) = Accept} \<subseteq>
   {(c, e). if ev_native e then \<not> ev_observed e \<and> feq (ev_confidence e) (Fin 0)
      else if ev_observed e then fle (Fin 0) (ev_confidence e) \<and> fle (ev_confidence e) (Fin 1)
        \<and> \<not> feq (ev_confidence e) (Fin 0) \<and> confidence_to_score (ev_confidence e) \<le> ct_threshold c
      else feq (ev_confidence e) (Fin 0) \<and> \<not> ct_calibrated c
        \<and> rr_reason (decide_risk c e) = ReasonCoverageUnavailable \<and> \<not> rr_calibrated (decide_risk c e)}"
proof -
  have unit: "fle (Fin 0) v \<and> fle v (Fin 1)" if "\<not> is_nan v" "\<not> flt v (Fin 0)" "\<not> flt (Fin 1) v" for v
    using that by (cases v) (auto simp: fle_def feq_def)
  show ?thesis
  proof (intro subsetI, clarify)
    fix c e
    assume acc: "rr_decision (decide_risk c e) = Accept"
    show "if ev_native e then \<not> ev_observed e \<and> feq (ev_confidence e) (Fin 0)
      else if ev_observed e then fle (Fin 0) (ev_confidence e) \<and> fle (ev_confidence e) (Fin 1)
        \<and> \<not> feq (ev_confidence e) (Fin 0) \<and> confidence_to_score (ev_confidence e) \<le> ct_threshold c
      else feq (ev_confidence e) (Fin 0) \<and> \<not> ct_calibrated c
        \<and> rr_reason (decide_risk c e) = ReasonCoverageUnavailable \<and> \<not> rr_calibrated (decide_risk c e)"
      using acc unit [of "ev_confidence e"]
      by (cases "ev_native e"; cases "ev_observed e"; cases "evidence_invalid e")
        (simp_all add: decide_risk_def evidence_invalid_def Let_def split: if_split_asm)
  qed
qed

end
