(* ===== verification/AsrEval.thy ===== *)
theory AsrEval
  imports Go_Regexp "HOL-Library.List_Lexorder" "HOL-Library.Char_ord"
begin

text \<open>
  \<open>asreval\<close>: the release gate of a recogniser. A manifest names samples with digests; their assets
  are read below the corpus root; the results of two recognisers are compared by character errors and
  the challenger is accepted or rejected.

  \<^item> The file system is an argument (\<open>corpus_env\<close>): what \<open>os.Lstat\<close> says of a path, the bytes of a
    file and the lines of a results file; so are SHA-256, the JSON decoders and the Unicode functions
    of the normalisation. A path is a list of components.
  \<^item> A Go map is an association list in the order of its insertions, without repeated keys. The sums
    of character counts are natural numbers; they stay far below \<open>2 ^ 63 / 10 ^ 6\<close>.
\<close>

section \<open>Data\<close>

definition SchemaVersion :: string where "SchemaVersion = ''kotae.asr-evaluation-corpus.v1''"
definition ReportVersion :: string where "ReportVersion = ''kotae.asr-evaluation-report.v1''"

definition BucketQuietSpeech :: string where "BucketQuietSpeech = ''quiet_speech''"
definition BucketMutter :: string where "BucketMutter = ''mutter''"
definition BucketNormalSpeech :: string where "BucketNormalSpeech = ''normal_speech''"
definition BucketCough :: string where "BucketCough = ''cough''"
definition BucketHVAC :: string where "BucketHVAC = ''hvac''"
definition BucketPlaybackLeak :: string where "BucketPlaybackLeak = ''playback_leak''"

datatype eval_error = ErrInvalidManifest | ErrInvalidAsset | ErrInvalidResults

record sample =
  sm_id :: string
  sm_bucket :: string
  sm_audio :: string
  sm_audio_sha :: string
  sm_reference :: string
  sm_reference_sha :: string

record manifest =
  mf_schema :: string
  mf_corpus :: string
  mf_license :: string
  mf_license_sha :: string
  mf_preprocessing :: string
  mf_samples :: "sample list"

record thresholds =
  th_minimum :: int
  th_recall :: int
  th_false_activation :: int
  th_quiet_cer :: int
  th_normal_margin :: int
  th_improvement :: int

record asr_result =
  ar_sample :: string
  ar_hypothesis :: string

record error_buckets =
  eb_exact :: nat
  eb_minor :: nat
  eb_major :: nat
  eb_miss :: nat

record asr_metrics =
  ms_quiet_recall :: nat
  ms_quiet_cer :: nat
  ms_normal_cer :: nat
  ms_false_activation :: nat
  ms_buckets :: error_buckets

record report =
  rp_schema :: string
  rp_digest :: string
  rp_corpus :: string
  rp_counts :: "(string \<times> nat) list"
  rp_baseline :: "asr_metrics option"
  rp_challenger :: "asr_metrics option"
  rp_decision :: string
  rp_failures :: "string list"

record prepared_sample =
  ps_sample :: sample
  ps_reference :: string

datatype file_kind = Missing | Symlink | Plain

record corpus_env =
  ce_lstat :: "string list \<Rightarrow> file_kind"
  ce_file :: "string list \<Rightarrow> string option"
  ce_sha :: "string \<Rightarrow> string"
  ce_manifest :: "string \<Rightarrow> manifest option"
  ce_result :: "string \<Rightarrow> asr_result option"
  ce_lower :: "string \<Rightarrow> string"
  ce_nfkc :: "string \<Rightarrow> string"
  ce_punct :: "nat \<Rightarrow> bool"

section \<open>Identifiers, digests, buckets\<close>

definition identifierPattern :: re where
  "identifierPattern = seqs [Cls False [(0x61, 0x7A), (0x30, 0x39)], Rep (Cls False [(0x61, 0x7A), (0x30, 0x39), (0x5F, 0x5F), (0x2D, 0x2D)]) 0 63]"

definition valid_identifier :: "string \<Rightarrow> bool" where
  "valid_identifier s = full_match identifierPattern s"

definition required_buckets :: "string list" where
  "required_buckets = [BucketQuietSpeech, BucketMutter, BucketNormalSpeech, BucketCough, BucketHVAC, BucketPlaybackLeak]"

definition is_bucket :: "string \<Rightarrow> bool" where
  "is_bucket v \<longleftrightarrow> v \<in> set required_buckets"

definition is_speech_bucket :: "string \<Rightarrow> bool" where
  "is_speech_bucket v \<longleftrightarrow> v = BucketQuietSpeech \<or> v = BucketMutter \<or> v = BucketNormalSpeech"

definition valid_digest :: "corpus_env \<Rightarrow> string \<Rightarrow> bool" where
  "valid_digest E v \<longleftrightarrow> length v = 64 \<and> hex_decode v \<noteq> None \<and> v = ce_lower E v"

definition ppm :: "int \<Rightarrow> bool" where
  "ppm v \<longleftrightarrow> 0 \<le> v \<and> v \<le> 1000000"

definition valid_thresholds :: "thresholds \<Rightarrow> bool" where
  "valid_thresholds t \<longleftrightarrow> th_minimum t \<ge> 10 \<and> ppm (th_recall t) \<and> ppm (th_false_activation t)
     \<and> ppm (th_quiet_cer t) \<and> ppm (th_normal_margin t) \<and> ppm (th_improvement t)"

definition valid_manifest_header :: "corpus_env \<Rightarrow> manifest \<Rightarrow> bool" where
  "valid_manifest_header E m \<longleftrightarrow> mf_schema m = SchemaVersion \<and> valid_identifier (mf_corpus m)
     \<and> valid_identifier (mf_preprocessing m) \<and> valid_digest E (mf_license_sha m) \<and> mf_license m \<noteq> []
     \<and> mf_samples m \<noteq> []"

section \<open>Reading assets\<close>

text \<open>\<open>strings.Split\<close> at a slash, and \<open>filepath.Clean\<close> of a rooted path in components.\<close>

fun split_slash :: "string \<Rightarrow> string list" where
  "split_slash [] = [[]]"
| "split_slash (c # cs) =
     (if c = CHR ''/'' then [] # split_slash cs
      else case split_slash cs of [] \<Rightarrow> [[c]] | p # ps \<Rightarrow> (c # p) # ps)"

definition clean_step :: "string list \<Rightarrow> string \<Rightarrow> string list" where
  "clean_step path c = (if c = [] \<or> c = ''.'' then path else if c = ''..'' then butlast path else path @ [c])"

definition join_root :: "string list \<Rightarrow> string \<Rightarrow> string list" where
  "join_root base name = foldl clean_step base (split_slash name)"

text \<open>\<open>filepath.Rel\<close> of two rooted, clean paths: up from the base and down to the target.\<close>

fun relative_to :: "string list \<Rightarrow> string list \<Rightarrow> string list" where
  "relative_to (b # bs) (p # ps) =
     (if b = p then relative_to bs ps else replicate (length (b # bs)) ''..'' @ p # ps)"
| "relative_to bs ps = replicate (length bs) ''..'' @ ps"

fun contains_symlink :: "corpus_env \<Rightarrow> string list \<Rightarrow> string list \<Rightarrow> bool" where
  "contains_symlink E current [] \<longleftrightarrow> False"
| "contains_symlink E current (c # cs) \<longleftrightarrow>
     (if c = [] \<or> c = ''.'' then contains_symlink E current cs
      else let current = clean_step current c in
        if ce_lstat E current \<noteq> Plain then True else contains_symlink E current cs)"

text \<open>\<open>strings.EqualFold\<close> on two hexadecimal texts folds the letters.\<close>

definition read_bounded_asset ::
  "corpus_env \<Rightarrow> string list \<Rightarrow> string \<Rightarrow> string \<Rightarrow> nat \<Rightarrow> (eval_error, string) result" where
  "read_bounded_asset E base name expected maximum =
     (if name = [] \<or> hd name = CHR ''/'' then Inl ErrInvalidAsset
      else let path = join_root base name; rel = relative_to base path in
        if rel \<noteq> [] \<and> hd rel = ''..'' then Inl ErrInvalidAsset
        else if contains_symlink E base rel then Inl ErrInvalidAsset
        else case ce_file E path of None \<Rightarrow> Inl ErrInvalidAsset
        | Some data \<Rightarrow>
          if length data > maximum then Inl ErrInvalidAsset
          else if ce_lower E (hex_encode (ce_sha E data)) \<noteq> ce_lower E expected then Inl ErrInvalidAsset
          else Inr data)"

definition le_value :: "string \<Rightarrow> nat \<Rightarrow> nat \<Rightarrow> nat" where
  "le_value data offset n = (\<Sum>i\<leftarrow>[0..<n]. byte (data ! (offset + i)) * 256 ^ i)"

definition slice :: "string \<Rightarrow> nat \<Rightarrow> nat \<Rightarrow> string" where
  "slice data a b = List.take (b - a) (drop a data)"

definition canonical_wav :: "string \<Rightarrow> bool" where
  "canonical_wav data \<longleftrightarrow>
     length data \<ge> 44 \<and> slice data 0 4 = ''RIFF'' \<and> slice data 8 12 = ''WAVE'' \<and> slice data 12 16 = ''fmt ''
     \<and> le_value data 16 4 = 16 \<and> le_value data 20 2 = 1 \<and> le_value data 22 2 = 1 \<and> le_value data 24 4 = 16000
     \<and> le_value data 34 2 = 16 \<and> slice data 36 40 = ''data'' \<and> le_value data 40 4 + 44 = length data"

section \<open>Normalisation and distance\<close>

text \<open>The runes that \<open>strings.Map\<close> keeps, as their code points.\<close>

definition normal_chunks :: "corpus_env \<Rightarrow> string \<Rightarrow> chunk list" where
  "normal_chunks E value =
     List.filter (\<lambda>c. \<not> is_space c \<and> \<not> ce_punct E (fst c)) (chunks (ce_nfkc E (ce_lower E (trim_space value))))"

definition normalize_text :: "corpus_env \<Rightarrow> string \<Rightarrow> nat list" where
  "normalize_text E value = List.map fst (normal_chunks E value)"

fun edit_row :: "'a \<Rightarrow> 'a list \<Rightarrow> nat \<Rightarrow> nat \<Rightarrow> nat list \<Rightarrow> nat list" where
  "edit_row a [] j previous row = row"
| "edit_row a (b # bs) j previous row =
     (let old = row ! (j + 1); cost = (if a \<noteq> b then 1 else 0)
      in edit_row a bs (j + 1) old
           (row[j + 1 := min (min (row ! (j + 1) + 1) (row ! j + 1)) (previous + cost)]))"

fun edit_rows :: "'a list \<Rightarrow> 'a list \<Rightarrow> nat \<Rightarrow> nat list \<Rightarrow> nat list" where
  "edit_rows [] right i row = row"
| "edit_rows (a # as) right i row =
     edit_rows as right (i + 1) (edit_row a right 0 (row ! 0) (row[0 := i + 1]))"

definition edit_distance :: "'a list \<Rightarrow> 'a list \<Rightarrow> nat" where
  "edit_distance left right = edit_rows left right 0 [0..<length right + 1] ! length right"

section \<open>The corpus and the results\<close>

definition bump :: "string \<Rightarrow> (string \<times> nat) list \<Rightarrow> (string \<times> nat) list" where
  "bump k counts = bag_add k counts"

type_synonym corpus = "(string \<times> prepared_sample) list"

definition prepare_reference ::
  "corpus_env \<Rightarrow> string list \<Rightarrow> sample \<Rightarrow> (eval_error, string) result" where
  "prepare_reference E base s =
     (if is_speech_bucket (sm_bucket s) then
        if sm_reference s = [] \<or> \<not> valid_digest E (sm_reference_sha s) then Inl ErrInvalidManifest
        else (case read_bounded_asset E base (sm_reference s) (sm_reference_sha s) (64 * 1024) of
          Inl _ \<Rightarrow> Inl ErrInvalidAsset
        | Inr reference \<Rightarrow> if normalize_text E reference = [] then Inl ErrInvalidAsset else Inr reference)
      else if sm_reference s \<noteq> [] \<or> sm_reference_sha s \<noteq> [] then Inl ErrInvalidManifest
      else Inr [])"

fun prepare_samples ::
  "corpus_env \<Rightarrow> string list \<Rightarrow> sample list \<Rightarrow> corpus \<Rightarrow> (string \<times> nat) list
     \<Rightarrow> (eval_error, corpus \<times> (string \<times> nat) list) result" where
  "prepare_samples E base [] prepared counts = Inr (prepared, counts)"
| "prepare_samples E base (s # ss) prepared counts =
     (if \<not> valid_identifier (sm_id s) \<or> \<not> is_bucket (sm_bucket s) \<or> \<not> valid_digest E (sm_audio_sha s)
      then Inl ErrInvalidManifest
      else if map_of prepared (sm_id s) \<noteq> None then Inl ErrInvalidManifest
      else case read_bounded_asset E base (sm_audio s) (sm_audio_sha s) (64 * 1024 * 1024) of
        Inl _ \<Rightarrow> Inl ErrInvalidAsset
      | Inr audio \<Rightarrow>
        if \<not> canonical_wav audio then Inl ErrInvalidAsset
        else case prepare_reference E base s of Inl e \<Rightarrow> Inl e
        | Inr reference \<Rightarrow>
          prepare_samples E base ss (prepared @ [(sm_id s, \<lparr>ps_sample = s, ps_reference = reference\<rparr>)])
            (bump (sm_bucket s) counts))"

definition prepare_corpus ::
  "corpus_env \<Rightarrow> string list \<Rightarrow> manifest \<Rightarrow> int \<Rightarrow> (eval_error, corpus \<times> (string \<times> nat) list) result" where
  "prepare_corpus E base m minimum =
     (case read_bounded_asset E base (mf_license m) (mf_license_sha m) (1024 * 1024) of
        Inl _ \<Rightarrow> Inl ErrInvalidAsset
      | Inr license \<Rightarrow>
        if trim_space license = [] then Inl ErrInvalidAsset
        else case prepare_samples E base (mf_samples m) [] [] of Inl e \<Rightarrow> Inl e
        | Inr (prepared, counts) \<Rightarrow>
          if list_ex (\<lambda>b. int (bag_count counts b) < minimum) required_buckets then Inl ErrInvalidManifest
          else Inr (prepared, counts))"

text \<open>
  The scanner's lines; \<open>None\<close> for a file that does not open, and a flag for a scanner error
  (a line that is too long or a failed read), which ends the loop.
\<close>

fun load_lines ::
  "corpus_env \<Rightarrow> corpus \<Rightarrow> string list \<Rightarrow> (string \<times> string) list \<Rightarrow> (eval_error, (string \<times> string) list) result" where
  "load_lines E samples [] results = Inr results"
| "load_lines E samples (l # ls) results =
     (case ce_result E l of None \<Rightarrow> Inl ErrInvalidResults
      | Some r \<Rightarrow>
        if \<not> valid_identifier (ar_sample r) then Inl ErrInvalidResults
        else if map_of samples (ar_sample r) = None then Inl ErrInvalidResults
        else if map_of results (ar_sample r) \<noteq> None \<or> rune_count (ar_hypothesis r) > 4096 then Inl ErrInvalidResults
        else load_lines E samples ls (results @ [(ar_sample r, ar_hypothesis r)]))"

definition load_results ::
  "corpus_env \<Rightarrow> corpus \<Rightarrow> (string list \<times> bool) option \<Rightarrow> (eval_error, (string \<times> string) list) result" where
  "load_results E samples file = (case file of None \<Rightarrow> Inl ErrInvalidResults
     | Some (lines, scan_failed) \<Rightarrow>
       (case load_lines E samples lines [] of Inl e \<Rightarrow> Inl e
        | Inr results \<Rightarrow>
          if scan_failed \<or> length results \<noteq> length samples then Inl ErrInvalidResults else Inr results))"

section \<open>Metrics and decision\<close>

record tally =
  ty_buckets :: error_buckets
  ty_quiet_total :: nat
  ty_quiet_recognized :: nat
  ty_quiet_chars :: nat
  ty_quiet_errors :: nat
  ty_normal_chars :: nat
  ty_normal_errors :: nat
  ty_no_speech :: nat
  ty_false :: nat

definition no_errors :: error_buckets where
  "no_errors = \<lparr>eb_exact = 0, eb_minor = 0, eb_major = 0, eb_miss = 0\<rparr>"

definition zero_tally :: tally where
  "zero_tally = \<lparr>ty_buckets = no_errors, ty_quiet_total = 0, ty_quiet_recognized = 0, ty_quiet_chars = 0,
     ty_quiet_errors = 0, ty_normal_chars = 0, ty_normal_errors = 0, ty_no_speech = 0, ty_false = 0\<rparr>"

definition count_errors :: "nat \<Rightarrow> nat \<Rightarrow> error_buckets \<Rightarrow> error_buckets" where
  "count_errors errors characters b =
     (if errors = 0 then b\<lparr>eb_exact := eb_exact b + 1\<rparr>
      else if errors * 5 \<le> characters then b\<lparr>eb_minor := eb_minor b + 1\<rparr>
      else if errors * 2 \<le> characters then b\<lparr>eb_major := eb_major b + 1\<rparr>
      else b\<lparr>eb_miss := eb_miss b + 1\<rparr>)"

definition tally_sample :: "corpus_env \<Rightarrow> prepared_sample \<Rightarrow> string \<Rightarrow> tally \<Rightarrow> tally" where
  "tally_sample E s result t =
     (let hypothesis = normalize_text E result in
      if \<not> is_speech_bucket (sm_bucket (ps_sample s)) then
        t\<lparr>ty_no_speech := ty_no_speech t + 1, ty_false := ty_false t + (if hypothesis \<noteq> [] then 1 else 0)\<rparr>
      else let reference = normalize_text E (ps_reference s);
               errors = edit_distance reference hypothesis;
               characters = length reference;
               t = t\<lparr>ty_buckets := count_errors errors characters (ty_buckets t)\<rparr>
           in if sm_bucket (ps_sample s) = BucketNormalSpeech then
                t\<lparr>ty_normal_errors := ty_normal_errors t + errors, ty_normal_chars := ty_normal_chars t + characters\<rparr>
              else
                t\<lparr>ty_quiet_total := ty_quiet_total t + 1, ty_quiet_errors := ty_quiet_errors t + errors,
                  ty_quiet_chars := ty_quiet_chars t + characters,
                  ty_quiet_recognized := ty_quiet_recognized t + (if errors * 2 \<le> characters then 1 else 0)\<rparr>)"

definition fraction_ppm :: "nat \<Rightarrow> nat \<Rightarrow> nat" where
  "fraction_ppm numerator denominator =
     (if denominator = 0 then 1000000
      else let v = numerator * 1000000 div denominator in if v > 1000000 then 1000000 else v)"

text \<open>A missing map entry reads as the zero value: an empty hypothesis.\<close>

definition measure_corpus :: "corpus_env \<Rightarrow> corpus \<Rightarrow> (string \<times> string) list \<Rightarrow> asr_metrics" where
  "measure_corpus E samples results =
     (let ids = sort (List.map fst samples);
          t = foldl (\<lambda>t i. case map_of samples i of None \<Rightarrow> t
            | Some s \<Rightarrow> tally_sample E s (case map_of results i of None \<Rightarrow> [] | Some h \<Rightarrow> h) t) zero_tally ids
      in \<lparr>ms_quiet_recall = fraction_ppm (ty_quiet_recognized t) (ty_quiet_total t),
          ms_quiet_cer = fraction_ppm (ty_quiet_errors t) (ty_quiet_chars t),
          ms_normal_cer = fraction_ppm (ty_normal_errors t) (ty_normal_chars t),
          ms_false_activation = fraction_ppm (ty_false t) (ty_no_speech t),
          ms_buckets = ty_buckets t\<rparr>)"

definition decide_release :: "asr_metrics \<Rightarrow> asr_metrics \<Rightarrow> thresholds \<Rightarrow> string list" where
  "decide_release b c t =
     (if int (ms_quiet_recall c) < th_recall t then [''quiet_recall_below_floor''] else [])
     @ (if int (ms_false_activation c) > th_false_activation t then [''no_speech_false_activation_above_ceiling''] else [])
     @ (if int (ms_quiet_cer c) > th_quiet_cer t then [''quiet_cer_above_ceiling''] else [])
     @ (if int (ms_normal_cer c) > int (ms_normal_cer b) + th_normal_margin t then [''normal_speech_regressed''] else [])
     @ (if int (ms_quiet_cer b) - int (ms_quiet_cer c) < th_improvement t then [''quiet_cer_improvement_insufficient''] else [])"

definition empty_report :: report where
  "empty_report = \<lparr>rp_schema = ReportVersion, rp_digest = [], rp_corpus = [], rp_counts = [], rp_baseline = None,
     rp_challenger = None, rp_decision = ''reject'', rp_failures = []\<rparr>"

definition evaluate_release ::
  "corpus_env \<Rightarrow> string option \<Rightarrow> string list \<Rightarrow> (string list \<times> bool) option \<Rightarrow> (string list \<times> bool) option
     \<Rightarrow> thresholds \<Rightarrow> report \<times> eval_error option" where
  "evaluate_release E manifest_file base baseline_file challenger_file t =
     (let r = empty_report in
      if \<not> valid_thresholds t then (r, Some ErrInvalidManifest)
      else case manifest_file of None \<Rightarrow> (r, Some ErrInvalidManifest)
      | Some text_bytes \<Rightarrow>
        (case ce_manifest E text_bytes of None \<Rightarrow> (r, Some ErrInvalidManifest)
         | Some m \<Rightarrow>
           if \<not> valid_manifest_header E m then (r, Some ErrInvalidManifest)
           else let r = r\<lparr>rp_digest := hex_encode (ce_sha E text_bytes), rp_corpus := mf_corpus m\<rparr> in
             case prepare_corpus E base m (th_minimum t) of Inl e \<Rightarrow> (r, Some e)
             | Inr (prepared, counts) \<Rightarrow>
               let r = r\<lparr>rp_counts := counts\<rparr> in
               (case load_results E prepared baseline_file of Inl e \<Rightarrow> (r, Some e)
                | Inr baseline \<Rightarrow>
                  (case load_results E prepared challenger_file of Inl e \<Rightarrow> (r, Some e)
                   | Inr challenger \<Rightarrow>
                     let b = measure_corpus E prepared baseline; c = measure_corpus E prepared challenger;
                         failures = decide_release b c t
                     in (r\<lparr>rp_baseline := Some b, rp_challenger := Some c, rp_failures := failures,
                           rp_decision := (if failures = [] then ''accept'' else ''reject'')\<rparr>, None)))))"


section \<open>The distance is the least number of edits\<close>

text \<open>One edit: a rune put in, taken out or replaced.\<close>

definition edit_step :: "('a list \<times> 'a list) set" where
  "edit_step = {(us @ vs, us @ [b] @ vs) | us vs b. True} \<union> {(us @ [a] @ vs, us @ vs) | us vs a. True}
     \<union> {(us @ [a] @ vs, us @ [b] @ vs) | us vs a b. True}"

text \<open>The recursion behind the table, on reversed prefixes, and the alignments that it minimises.\<close>

fun lev :: "'a list \<Rightarrow> 'a list \<Rightarrow> nat" where
  "lev [] ys = length ys"
| "lev (x # xs) [] = Suc (length xs)"
| "lev (x # xs) (y # ys) =
     min (min (lev xs (y # ys) + 1) (lev (x # xs) ys + 1)) (lev xs ys + (if x \<noteq> y then 1 else 0))"

inductive align :: "nat \<Rightarrow> 'a list \<Rightarrow> 'a list \<Rightarrow> bool" where
  Empty: "align 0 [] []"
| Same: "align n xs ys \<Longrightarrow> align n (x # xs) (x # ys)"
| Replace: "align n xs ys \<Longrightarrow> align (Suc n) (x # xs) (y # ys)"
| Delete: "align n xs ys \<Longrightarrow> align (Suc n) (x # xs) ys"
| Insert: "align n xs ys \<Longrightarrow> align (Suc n) xs (y # ys)"

lemma lev_Nil [simp]: "lev xs [] = length xs"
  by (cases xs) simp_all

lemma align_lev: "align (lev xs ys) xs ys"
proof (induction xs ys rule: lev.induct)
  case (1 ys)
  then show ?case by (induction ys) (auto intro: align.intros)
next
  case (2 x xs)
  have "align (length xs) xs []" by (induction xs) (auto intro: align.intros)
  then show ?case by (auto intro: align.intros)
next
  case (3 x xs y ys)
  then show ?case by (auto simp: min_def intro: align.intros)
qed

lemma align_refl: "align 0 xs xs"
  by (induction xs) (auto intro: align.intros)

lemma lev_le_align: "align n xs ys \<Longrightarrow> lev xs ys \<le> n"
proof (induction rule: align.induct)
  case (Delete n xs ys x)
  then show ?case by (cases ys) auto
next
  case (Insert n xs ys y)
  then show ?case by (cases xs) auto
qed auto

lemma align_append: "align n xs ys \<Longrightarrow> align m us vs \<Longrightarrow> align (n + m) (xs @ us) (ys @ vs)"
  by (induction rule: align.induct) (auto intro: align.intros)

lemma align_single: "align 0 [x] [x]" "align (Suc 0) [x] [y]" "align (Suc 0) [x] []" "align (Suc 0) [] [y]"
  by (auto intro: align.intros)

lemma align_rev: "align n xs ys \<Longrightarrow> align n (rev xs) (rev ys)"
proof (induction rule: align.induct)
  case (Same n xs ys x)
  then show ?case using align_append [OF Same.IH align_single(1)] by simp
next
  case (Replace n xs ys x y)
  then show ?case using align_append [OF Replace.IH align_single(2)] by simp
next
  case (Delete n xs ys x)
  then show ?case using align_append [OF Delete.IH align_single(3)] by simp
next
  case (Insert n xs ys y)
  then show ?case using align_append [OF Insert.IH align_single(4)] by simp
qed (auto intro: align.intros)

lemma align_split:
  "align n xs (us @ vs) \<Longrightarrow> \<exists>xs1 xs2 n1 n2. xs = xs1 @ xs2 \<and> n = n1 + n2 \<and> align n1 xs1 us \<and> align n2 xs2 vs"
proof (induction n xs "us @ vs" arbitrary: us rule: align.induct)
  case Empty
  then show ?case by (auto intro: align.intros)
next
  case (Same n xs ys x)
  show ?case
  proof (cases us)
    case Nil
    have "align n (x # xs) (x # ys)" using Same.hyps(1) by (rule align.Same)
    moreover have "vs = x # ys" using Nil Same.hyps by simp
    ultimately show ?thesis using Nil align.Empty by (metis append_Nil add_0)
  next
    case (Cons u us')
    with Same.hyps obtain xs1 xs2 n1 n2 where "xs = xs1 @ xs2" "n = n1 + n2" "align n1 xs1 us'" "align n2 xs2 vs"
      by auto
    then show ?thesis using Cons Same.hyps
      by (intro exI [of _ "x # xs1"] exI [of _ xs2] exI [of _ n1] exI [of _ n2]) (auto intro: align.intros)
  qed
next
  case (Replace n xs ys x y)
  show ?case
  proof (cases us)
    case Nil
    have "align (Suc n) (x # xs) (y # ys)" using Replace.hyps(1) by (rule align.Replace)
    moreover have "vs = y # ys" using Nil Replace.hyps by simp
    ultimately show ?thesis using Nil align.Empty by (metis append_Nil add_0)
  next
    case (Cons u us')
    with Replace.hyps obtain xs1 xs2 n1 n2 where "xs = xs1 @ xs2" "n = n1 + n2" "align n1 xs1 us'" "align n2 xs2 vs"
      by auto
    then show ?thesis using Cons Replace.hyps
      by (intro exI [of _ "x # xs1"] exI [of _ xs2] exI [of _ "Suc n1"] exI [of _ n2]) (auto intro: align.intros)
  qed
next
  case (Delete n xs x)
  then obtain xs1 xs2 n1 n2 where "xs = xs1 @ xs2" "n = n1 + n2" "align n1 xs1 us" "align n2 xs2 vs" by blast
  then show ?case
    by (intro exI [of _ "x # xs1"] exI [of _ xs2] exI [of _ "Suc n1"] exI [of _ n2]) (auto intro: align.intros)
next
  case (Insert n xs ys y)
  show ?case
  proof (cases us)
    case Nil
    have "align (Suc n) xs (y # ys)" using Insert.hyps(1) by (rule align.Insert)
    moreover have "vs = y # ys" using Nil Insert.hyps by simp
    ultimately show ?thesis using Nil align.Empty by (metis append_Nil add_0)
  next
    case (Cons u us')
    with Insert.hyps obtain xs1 xs2 n1 n2 where "xs = xs1 @ xs2" "n = n1 + n2" "align n1 xs1 us'" "align n2 xs2 vs"
      by auto
    then show ?thesis using Cons Insert.hyps
      by (intro exI [of _ xs1] exI [of _ xs2] exI [of _ "Suc n1"] exI [of _ n2]) (auto intro: align.intros)
  qed
qed

lemma align_length: "align n xs ys \<Longrightarrow> length xs \<le> n + length ys"
  by (induction rule: align.induct) auto

lemma align_one:
  assumes "align n xs [a]"
  shows "\<exists>k \<le> Suc n. align k xs []" "\<exists>k \<le> Suc n. align k xs [b]"
proof -
  have len: "length xs \<le> Suc n" using align_length [OF assms] by simp
  have gone: "align (length ys) ys []" for ys :: "'a list"
    using align_lev [of ys "[]"] by simp
  then show "\<exists>k \<le> Suc n. align k xs []" using len by blast
  show "\<exists>k \<le> Suc n. align k xs [b]"
  proof (cases xs)
    case Nil
    then show ?thesis using align_single(4) [of b] by (intro exI [of _ "Suc 0"]) simp
  next
    case (Cons x r)
    then have "align (Suc (length r)) xs [b]" using align.Replace [OF gone] by simp
    then show ?thesis using len Cons by (intro exI [of _ "Suc (length r)"]) simp
  qed
qed

lemma align_step:
  assumes "align n xs ys" "(ys, zs) \<in> edit_step"
  shows "\<exists>k \<le> Suc n. align k xs zs"
proof -
  consider us vs b where "ys = us @ vs" "zs = us @ [b] @ vs"
    | us vs a where "ys = us @ [a] @ vs" "zs = us @ vs"
    | us vs a b where "ys = us @ [a] @ vs" "zs = us @ [b] @ vs"
    using assms(2) by (auto simp: edit_step_def)
  then show ?thesis
  proof cases
    case 1
    then obtain xs1 xs2 n1 n2 where "xs = xs1 @ xs2" "n = n1 + n2" "align n1 xs1 us" "align n2 xs2 vs"
      using align_split [of n xs us vs] assms(1) by blast
    have "align (n1 + Suc n2) (xs1 @ xs2) (us @ b # vs)"
      using \<open>align n1 xs1 us\<close> align.Insert [OF \<open>align n2 xs2 vs\<close>] by (rule align_append)
    then show ?thesis using 1 \<open>xs = xs1 @ xs2\<close> \<open>n = n1 + n2\<close> by (intro exI [of _ "Suc n"]) simp
  next
    case 2
    then obtain xs1 xs2 n1 n2 where 1: "xs = xs1 @ xs2" "n = n1 + n2" "align n1 xs1 us" "align n2 xs2 ([a] @ vs)"
      using assms(1) align_split by blast
    then obtain xa xb na nb where s2: "xs2 = xa @ xb" "n2 = na + nb" "align na xa [a]" "align nb xb vs"
      using align_split by blast
    obtain k where "k \<le> Suc na" "align k xa []" using align_one(1) [OF s2(3)] by blast
    have "align (n1 + (k + nb)) xs zs"
      using 1 2 s2 align_append [OF 1(3) align_append [OF \<open>align k xa []\<close> s2(4)]] by simp
    then show ?thesis using 1(2) s2(2) \<open>k \<le> Suc na\<close> by (intro exI [of _ "n1 + (k + nb)"]) simp
  next
    case 3
    then obtain xs1 xs2 n1 n2 where 1: "xs = xs1 @ xs2" "n = n1 + n2" "align n1 xs1 us" "align n2 xs2 ([a] @ vs)"
      using assms(1) align_split by blast
    then obtain xa xb na nb where 2: "xs2 = xa @ xb" "n2 = na + nb" "align na xa [a]" "align nb xb vs"
      using align_split by blast
    obtain k where "k \<le> Suc na" "align k xa [b]" using align_one(2) [OF 2(3)] by blast
    have "align (n1 + (k + nb)) xs zs"
      using 1 2 3 align_append [OF 1(3) align_append [OF \<open>align k xa [b]\<close> 2(4)]] by simp
    then show ?thesis using 1(2) 2(2) \<open>k \<le> Suc na\<close> by (intro exI [of _ "n1 + (k + nb)"]) simp
  qed
qed

lemma steps_align: "(xs, ys) \<in> edit_step ^^ n \<Longrightarrow> \<exists>k \<le> n. align k xs ys"
proof (induction n arbitrary: ys)
  case 0
  then show ?case by (simp add: align_refl)
next
  case (Suc n)
  then obtain zs where "(xs, zs) \<in> edit_step ^^ n" "(zs, ys) \<in> edit_step" by auto
  with Suc.IH obtain k where "k \<le> n" "align k xs zs" by blast
  with align_step [OF \<open>align k xs zs\<close> \<open>(zs, ys) \<in> edit_step\<close>] show ?case by (meson Suc_le_mono le_trans)
qed

lemma step_Cons: "(xs, ys) \<in> edit_step \<Longrightarrow> (x # xs, x # ys) \<in> edit_step"
  unfolding edit_step_def by (auto; metis append_Cons)

lemma steps_Cons: "(xs, ys) \<in> edit_step ^^ n \<Longrightarrow> (x # xs, x # ys) \<in> edit_step ^^ n"
  by (induction n arbitrary: ys) (auto dest: step_Cons)

lemma step_front: "(x # ys, y # ys) \<in> edit_step" "(x # ys, ys) \<in> edit_step" "(ys, y # ys) \<in> edit_step"
  unfolding edit_step_def by (auto; metis append_Nil append_Cons)+

lemma align_steps: "align n xs ys \<Longrightarrow> (xs, ys) \<in> edit_step ^^ n"
proof (induction rule: align.induct)
  case (Replace n xs ys x y)
  show ?case using relcompI [OF steps_Cons [OF Replace.IH] step_front(1)] by simp
next
  case (Delete n xs ys x)
  show ?case using relcompI [OF steps_Cons [OF Delete.IH] step_front(2)] by simp
next
  case (Insert n xs ys y)
  show ?case using relcompI [OF Insert.IH step_front(3)] by simp
qed (auto intro: steps_Cons)

lemma lev_least: "lev xs ys = (LEAST n. (xs, ys) \<in> edit_step ^^ n)"
  by (rule Least_equality [symmetric])
    (auto intro: align_steps align_lev dest!: steps_align dest: lev_le_align)

lemma lev_rev: "lev (rev xs) (rev ys) = lev xs ys"
  using lev_le_align [OF align_rev [OF align_lev [of xs ys]]]
    lev_le_align [OF align_rev [OF align_lev [of "rev xs" "rev ys"]]] by simp

text \<open>The table row by row.\<close>

lemma edit_row_lev:
  assumes "right = pre @ bs" "j = length pre" "length row = length right + 1"
    "\<forall>k \<le> j. row ! k = lev (a # ra) (rev (List.take k right))"
    "\<forall>k. j < k \<longrightarrow> k \<le> length right \<longrightarrow> row ! k = lev ra (rev (List.take k right))"
    "previous = lev ra (rev pre)"
  shows "length (edit_row a bs j previous row) = length right + 1
    \<and> (\<forall>k \<le> length right. edit_row a bs j previous row ! k = lev (a # ra) (rev (List.take k right)))"
  using assms
proof (induction bs arbitrary: pre j previous row)
  case Nil
  then show ?case by simp
next
  case (Cons b bs)
  let ?v = "min (min (row ! (j + 1) + 1) (row ! j + 1)) (previous + (if a \<noteq> b then 1 else 0))"
  have left: "row ! j = lev (a # ra) (rev pre)" using Cons.prems by simp
  have old: "row ! (j + 1) = lev ra (b # rev pre)" using Cons.prems by simp
  have v: "?v = lev (a # ra) (b # rev pre)" using left old Cons.prems(6) by simp
  have "length (edit_row a bs (j + 1) (row ! (j + 1)) (row[j + 1 := ?v])) = length right + 1
    \<and> (\<forall>k \<le> length right. edit_row a bs (j + 1) (row ! (j + 1)) (row[j + 1 := ?v]) ! k
          = lev (a # ra) (rev (List.take k right)))"
  proof (rule Cons.IH [where pre = "pre @ [b]"])
    show "\<forall>k \<le> j + 1. row[j + 1 := ?v] ! k = lev (a # ra) (rev (List.take k right))"
    proof (intro allI impI)
      fix k assume "k \<le> j + 1"
      then show "row[j + 1 := ?v] ! k = lev (a # ra) (rev (List.take k right))"
        using v Cons.prems by (cases "k = j + 1") auto
    qed
    show "row ! (j + 1) = lev ra (rev (pre @ [b]))" using old by simp
  qed (use Cons.prems in auto)
  then show ?case by (simp add: Let_def)
qed

lemma edit_rows_lev:
  assumes "length row = length right + 1" "i = length ra"
    "\<forall>k \<le> length right. row ! k = lev ra (rev (List.take k right))"
  shows "edit_rows as right i row ! length right = lev (rev as @ ra) (rev right)"
  using assms
proof (induction as arbitrary: row i ra)
  case Nil
  then show ?case by simp
next
  case (Cons a as)
  let ?row = "edit_row a right 0 (row ! 0) (row[0 := i + 1])"
  have "length ?row = length right + 1
    \<and> (\<forall>k \<le> length right. ?row ! k = lev (a # ra) (rev (List.take k right)))"
  proof (rule edit_row_lev [where pre = "[]"])
    show "\<forall>k. 0 < k \<longrightarrow> k \<le> length right \<longrightarrow> row[0 := i + 1] ! k = lev ra (rev (List.take k right))"
      using Cons.prems by simp
    show "row ! 0 = lev ra (rev [])" using Cons.prems by (metis lev_Nil le0 rev.simps(1) take0)
  qed (use Cons.prems in auto)
  then have "edit_rows as right (i + 1) ?row ! length right = lev (rev as @ (a # ra)) (rev right)"
    using Cons.prems by (intro Cons.IH) auto
  then show ?case by simp
qed

text \<open>
  C18. The character error rate counts edits: the table of \<open>editDistance\<close>, one row updated in place,
  ends with the least number of single runes that must be put in, taken out or replaced to turn the
  reference into the hypothesis.
\<close>

theorem edit_distance_least: "edit_distance left right = (LEAST n. (left, right) \<in> edit_step ^^ n)"
proof -
  have "edit_distance left right = lev (rev left @ []) (rev right)"
    unfolding edit_distance_def by (rule edit_rows_lev) (auto simp: nth_append simp del: upt_Suc)
  then have "edit_distance left right = lev left right" by (simp add: lev_rev)
  then show ?thesis unfolding lev_least .
qed

section \<open>Assets stay below the corpus root\<close>

definition plain_component :: "string \<Rightarrow> bool" where
  "plain_component c \<longleftrightarrow> c \<noteq> [] \<and> c \<noteq> ''.'' \<and> c \<noteq> ''..''"

lemma clean_components:
  "\<forall>c \<in> set (drop n path). plain_component c \<Longrightarrow> \<forall>c \<in> set (drop n (foldl clean_step path cs)). plain_component c"
proof (induction cs arbitrary: path)
  case (Cons c cs)
  have "set (drop n (butlast path)) \<subseteq> set (drop n path)"
    by (metis drop_butlast in_set_butlastD subsetI)
  moreover have "set (drop n (path @ [c])) \<subseteq> insert c (set (drop n path))"
    by (cases "n \<le> length path") auto
  ultimately have "\<forall>x \<in> set (drop n (clean_step path c)). plain_component x"
    using Cons.prems by (auto simp: clean_step_def plain_component_def)
  then show ?case using Cons.IH by simp
qed simp

lemma relative_below: "relative_to base path = [] \<or> hd (relative_to base path) \<noteq> ''..'' \<Longrightarrow>
    path = base @ relative_to base path"
proof (induction base path rule: relative_to.induct)
  case (1 b bs p ps)
  then show ?case by (auto split: if_splits)
next
  fix bs :: "string list"
  assume "relative_to bs [] = [] \<or> hd (relative_to bs []) \<noteq> ''..''"
  then show "[] = bs @ relative_to bs []" by (cases bs) auto
qed simp

lemma no_symlink_below:
  "\<lbrakk>\<not> contains_symlink E current cs; \<forall>c \<in> set cs. plain_component c; 0 < k; k \<le> length cs\<rbrakk>
     \<Longrightarrow> ce_lstat E (current @ List.take k cs) = Plain"
proof (induction cs arbitrary: current k)
  case (Cons c cs)
  then have "ce_lstat E (current @ [c]) = Plain" "\<not> contains_symlink E (current @ [c]) cs"
    by (auto simp: plain_component_def clean_step_def Let_def split: if_splits)
  then show ?case using Cons.IH [of "current @ [c]" "k - 1"] Cons.prems
    by (cases k; cases "k - 1") auto
qed simp

text \<open>
  C21. The corpus cannot be escaped: whatever name a manifest gives an asset, when it is read at all
  its path lies below the corpus root, no step on the way from the root to it is a symbolic link or
  missing, its size is bounded and its digest is the one the manifest states.
\<close>

theorem assets_stay_below_root:
  "{(name, data). read_bounded_asset E base name expected maximum = Inr data} \<subseteq>
   {(name, data). \<exists>rel. join_root base name = base @ rel \<and> ce_file E (base @ rel) = Some data
      \<and> length data \<le> maximum \<and> ce_lower E (hex_encode (ce_sha E data)) = ce_lower E expected
      \<and> list_all (\<lambda>k. ce_lstat E (base @ List.take k rel) = Plain) [1..<length rel + 1]}"
proof (intro subsetI, clarify)
  fix name data
  assume "read_bounded_asset E base name expected maximum = Inr data"
  then have up: "relative_to base (join_root base name) = [] \<or> hd (relative_to base (join_root base name)) \<noteq> ''..''"
    and link: "\<not> contains_symlink E base (relative_to base (join_root base name))"
    and rest: "ce_file E (join_root base name) = Some data" "length data \<le> maximum"
      "ce_lower E (hex_encode (ce_sha E data)) = ce_lower E expected"
    by (auto simp: read_bounded_asset_def Let_def split: if_splits option.splits)
  let ?rel = "relative_to base (join_root base name)"
  have path: "join_root base name = base @ ?rel" using relative_below [OF up] .
  have "\<forall>c \<in> set (drop (length base) (join_root base name)). plain_component c"
    unfolding join_root_def by (rule clean_components) simp
  then have "\<forall>c \<in> set ?rel. plain_component c" using path by (metis append_eq_conv_conj)
  then have "list_all (\<lambda>k. ce_lstat E (base @ List.take k ?rel) = Plain) [1..<length ?rel + 1]"
    using no_symlink_below [OF link] by (auto simp: list_all_iff simp del: upt_Suc)
  then show "\<exists>rel. join_root base name = base @ rel \<and> ce_file E (base @ rel) = Some data
      \<and> length data \<le> maximum \<and> ce_lower E (hex_encode (ce_sha E data)) = ce_lower E expected
      \<and> list_all (\<lambda>k. ce_lstat E (base @ List.take k rel) = Plain) [1..<length rel + 1]"
    using path rest by (intro exI [of _ ?rel]) metis
qed

section \<open>An accepted release\<close>

lemma bag_count_bump: "bag_count (bump k counts) b = bag_count counts b + (if b = k then 1 else 0)"
  by (simp add: bump_def bag_count_add)

definition asset_verified :: "corpus_env \<Rightarrow> string list \<Rightarrow> sample \<Rightarrow> bool" where
  "asset_verified E base s \<longleftrightarrow>
     (\<exists>audio. read_bounded_asset E base (sm_audio s) (sm_audio_sha s) (64 * 1024 * 1024) = Inr audio \<and> canonical_wav audio)
     \<and> (if is_speech_bucket (sm_bucket s)
        then \<exists>r. read_bounded_asset E base (sm_reference s) (sm_reference_sha s) (64 * 1024) = Inr r \<and> normalize_text E r \<noteq> []
        else True)"

lemma prepare_reference_ok:
  "prepare_reference E base s = Inr r \<Longrightarrow> if is_speech_bucket (sm_bucket s)
     then read_bounded_asset E base (sm_reference s) (sm_reference_sha s) (64 * 1024) = Inr r \<and> normalize_text E r \<noteq> []
     else True"
  by (auto simp: prepare_reference_def split: if_splits sum.splits)

lemma prepare_samples_ok:
  assumes "prepare_samples E base ss prepared counts = Inr (prepared', counts')" "distinct (List.map fst prepared)"
  shows "List.map fst prepared' = List.map fst prepared @ List.map sm_id ss
    \<and> distinct (List.map fst prepared @ List.map sm_id ss) \<and> list_all (asset_verified E base) ss
    \<and> (\<forall>b. bag_count counts' b = bag_count counts b + length (List.filter (\<lambda>s. sm_bucket s = b) ss))"
  using assms
proof (induction ss arbitrary: prepared counts)
  case (Cons s ss)
  from Cons.prems(1) obtain audio r where step:
    "map_of prepared (sm_id s) = None"
    "read_bounded_asset E base (sm_audio s) (sm_audio_sha s) (64 * 1024 * 1024) = Inr audio" "canonical_wav audio"
    "prepare_reference E base s = Inr r"
    "prepare_samples E base ss (prepared @ [(sm_id s, \<lparr>ps_sample = s, ps_reference = r\<rparr>)]) (bump (sm_bucket s) counts)
       = Inr (prepared', counts')"
    by (simp split: if_split_asm sum.split_asm)
  have fresh: "sm_id s \<notin> fst ` set prepared" using step(1) by (simp add: map_of_eq_None_iff)
  have "distinct (List.map fst (prepared @ [(sm_id s, \<lparr>ps_sample = s, ps_reference = r\<rparr>)]))"
    using Cons.prems(2) fresh by simp
  note IH = Cons.IH [OF step(5) this]
  have "asset_verified E base s"
    using step(2,3) prepare_reference_ok [OF step(4)] by (auto simp: asset_verified_def)
  then show ?case using IH by (simp add: bag_count_bump eq_commute [of _ "sm_bucket s"])
qed simp

lemma load_lines_ok:
  assumes "load_lines E samples ls results = Inr results'" "distinct (List.map fst results)"
    "set (List.map fst results) \<subseteq> set (List.map fst samples)"
  shows "distinct (List.map fst results') \<and> set (List.map fst results') \<subseteq> set (List.map fst samples)"
  using assms
proof (induction ls arbitrary: results)
  case (Cons l ls)
  from Cons.prems(1) obtain r where r: "ce_result E l = Some r" by (auto split: option.split_asm)
  with Cons.prems(1) have step: "map_of samples (ar_sample r) \<noteq> None" "map_of results (ar_sample r) = None"
    "load_lines E samples ls (results @ [(ar_sample r, ar_hypothesis r)]) = Inr results'"
    by (simp_all split: if_split_asm)
  have "ar_sample r \<in> fst ` set samples" "ar_sample r \<notin> fst ` set results"
    using step(1,2) by (simp_all add: map_of_eq_None_iff)
  then show ?case using Cons.prems(2,3) by (intro Cons.IH [OF step(3)]) auto
qed simp

text \<open>Every sample has exactly one result.\<close>

lemma load_results_ok:
  assumes "load_results E samples file = Inr results" "distinct (List.map fst samples)"
  shows "distinct (List.map fst results) \<and> set (List.map fst results) = set (List.map fst samples)"
proof -
  from assms(1) obtain lines where lines: "load_lines E samples lines [] = Inr results" "length results = length samples"
    by (auto simp: load_results_def split: option.splits sum.splits if_splits)
  have ok: "distinct (List.map fst results) \<and> set (List.map fst results) \<subseteq> set (List.map fst samples)"
    by (rule load_lines_ok [OF lines(1)]) simp_all
  then have "card (set (List.map fst results)) = card (set (List.map fst samples))"
    using assms(2) lines(2) by (metis distinct_card length_map)
  then show ?thesis using ok card_subset_eq by (metis List.finite_set)
qed

text \<open>
  What an accepted challenger has shown: the manifest and the thresholds are valid; its samples
  have distinct identifiers, at least ten of them (and the set minimum) in each of the six buckets, and
  every asset was read below the root with its digest; both recognisers have exactly one result for
  every sample; and the challenger's measures meet every floor and ceiling, against the baseline on
  the same samples.
\<close>

theorem accepted_release:
  "{(mf, bf, cf, t). rp_decision (fst (evaluate_release E mf base bf cf t)) = ''accept''} \<subseteq>
   {(mf, bf, cf, t). \<exists>bytes m samples b c.
      mf = Some bytes \<and> ce_manifest E bytes = Some m \<and> valid_manifest_header E m \<and> valid_thresholds t
      \<and> List.map fst samples = List.map sm_id (mf_samples m) \<and> distinct (List.map sm_id (mf_samples m))
      \<and> list_all (asset_verified E base) (mf_samples m)
      \<and> list_all (\<lambda>k. 10 \<le> th_minimum t \<and> th_minimum t \<le> int (length (List.filter (\<lambda>s. sm_bucket s = k) (mf_samples m))))
          required_buckets
      \<and> load_results E samples bf = Inr b \<and> load_results E samples cf = Inr c
      \<and> list_all (\<lambda>rs. distinct (List.map fst rs) \<and> set (List.map fst rs) = set (List.map sm_id (mf_samples m))) [b, c]
      \<and> (let mb = measure_corpus E samples b; mc = measure_corpus E samples c in
           th_recall t \<le> int (ms_quiet_recall mc) \<and> int (ms_false_activation mc) \<le> th_false_activation t
           \<and> int (ms_quiet_cer mc) \<le> th_quiet_cer t
           \<and> int (ms_normal_cer mc) \<le> int (ms_normal_cer mb) + th_normal_margin t
           \<and> th_improvement t \<le> int (ms_quiet_cer mb) - int (ms_quiet_cer mc))}"
proof (intro subsetI, clarify)
  fix mf bf cf t
  assume accept: "rp_decision (fst (evaluate_release E mf base bf cf t)) = ''accept''"
  then obtain bytes m where m: "mf = Some bytes" "ce_manifest E bytes = Some m" "valid_manifest_header E m" "valid_thresholds t"
    by (auto simp: evaluate_release_def empty_report_def Let_def split: if_splits option.splits)
  with accept obtain samples counts where p: "prepare_corpus E base m (th_minimum t) = Inr (samples, counts)"
    by (auto simp: evaluate_release_def empty_report_def Let_def split: sum.splits)
  with accept m obtain b c where bc: "load_results E samples bf = Inr b" "load_results E samples cf = Inr c"
    by (auto simp: evaluate_release_def empty_report_def Let_def split: sum.splits)
  have none: "decide_release (measure_corpus E samples b) (measure_corpus E samples c) t = []"
    using accept m p bc by (auto simp: evaluate_release_def empty_report_def Let_def split: if_splits)
  from p have prep: "prepare_samples E base (mf_samples m) [] [] = Inr (samples, counts)"
    and enough: "\<not> list_ex (\<lambda>k. int (bag_count counts k) < th_minimum t) required_buckets"
    by (auto simp: prepare_corpus_def split: sum.splits if_splits)
  have ok: "List.map fst samples = List.map sm_id (mf_samples m)" "distinct (List.map sm_id (mf_samples m))"
    "list_all (asset_verified E base) (mf_samples m)"
    "bag_count counts k = length (List.filter (\<lambda>s. sm_bucket s = k) (mf_samples m))" for k
    using prepare_samples_ok [OF prep] by (simp_all add: bag_count_def)
  have "list_all (\<lambda>k. 10 \<le> th_minimum t \<and> th_minimum t \<le> int (length (List.filter (\<lambda>s. sm_bucket s = k) (mf_samples m)))) required_buckets"
    using enough m(4) by (simp add: ok(4) [symmetric] valid_thresholds_def list_all_iff list_ex_iff not_less)
  moreover have "list_all (\<lambda>rs. distinct (List.map fst rs) \<and> set (List.map fst rs) = set (List.map sm_id (mf_samples m))) [b, c]"
    using load_results_ok [OF bc(1)] load_results_ok [OF bc(2)] ok(1,2) by simp
  ultimately show "\<exists>bytes m samples b c. mf = Some bytes \<and> ce_manifest E bytes = Some m \<and> valid_manifest_header E m \<and> valid_thresholds t
      \<and> List.map fst samples = List.map sm_id (mf_samples m) \<and> distinct (List.map sm_id (mf_samples m))
      \<and> list_all (asset_verified E base) (mf_samples m)
      \<and> list_all (\<lambda>k. 10 \<le> th_minimum t \<and> th_minimum t \<le> int (length (List.filter (\<lambda>s. sm_bucket s = k) (mf_samples m))))
          required_buckets
      \<and> load_results E samples bf = Inr b \<and> load_results E samples cf = Inr c
      \<and> list_all (\<lambda>rs. distinct (List.map fst rs) \<and> set (List.map fst rs) = set (List.map sm_id (mf_samples m))) [b, c]
      \<and> (let mb = measure_corpus E samples b; mc = measure_corpus E samples c in
           th_recall t \<le> int (ms_quiet_recall mc) \<and> int (ms_false_activation mc) \<le> th_false_activation t
           \<and> int (ms_quiet_cer mc) \<le> th_quiet_cer t
           \<and> int (ms_normal_cer mc) \<le> int (ms_normal_cer mb) + th_normal_margin t
           \<and> th_improvement t \<le> int (ms_quiet_cer mb) - int (ms_quiet_cer mc))"
    using m bc ok(1-3) none
    by (intro exI [of _ bytes] exI [of _ m] exI [of _ samples] exI [of _ b] exI [of _ c])
      (auto simp: decide_release_def Let_def split: if_splits)
qed

end
