(* ===== verification/LatencyTrace.thy ===== *)
theory LatencyTrace
  imports Float64 Go_Regexp "HOL-Library.List_Lexorder" "HOL-Library.Char_ord" Sorted_Ranks
begin

text \<open>
  \<open>latencytrace\<close>: the gate over voice latency observations. Observations are decoded line by line,
  summarised by transport, route, device and network, and the nearest-rank percentiles are compared
  with thresholds.

  \<^item> A JSON text is the list of tokens that \<open>Decoder.Token\<close> gives for it (\<open>json_token\<close>); the end of
    the list is \<open>io.EOF\<close>, and any other error of a token is \<open>Broken\<close>. \<open>json.Decoder.Decode\<close> into a struct is an argument
    (\<open>trace_env\<close>), as are SHA-256 and the scanner's lines.
  \<^item> A latency is at most two minutes, so sums are integers that do not wrap. A Go map is an
    association list in the order of its insertions.
\<close>

section \<open>Data\<close>

definition ObservationVersion :: string where "ObservationVersion = ''kotae.voice-latency-trace.v1''"
definition ThresholdVersion :: string where "ThresholdVersion = ''kotae.voice-latency-thresholds.v1''"
definition ReportVersion :: string where "ReportVersion = ''kotae.voice-latency-report.v1''"
definition maxObservationMS :: int where "maxObservationMS = 120000"
definition maxObservations :: nat where "maxObservations = 100000"

datatype trace_error = ErrInvalidConfig | ErrInvalidObservation

record stages =
  sg_speech_end_to_commit_send :: "int option"
  sg_commit_send_to_ack :: "int option"
  sg_commit_ack_to_first_binary :: "int option"
  sg_first_binary_to_speaker_write :: "int option"
  sg_server_commit_to_drain :: "int option"
  sg_server_drain_to_activity_end :: "int option"
  sg_activity_end_to_final :: "int option"
  sg_final_to_control_commit :: "int option"
  sg_control_commit_to_first_pcm :: "int option"

record observation =
  ov_schema :: string
  ov_revision :: string
  ov_transport :: string
  ov_route :: string
  ov_device :: string
  ov_network :: string
  ov_listening :: int
  ov_speaker :: int
  ov_stages :: stages

record thresholds =
  tr_schema :: string
  tr_total :: int
  tr_per_transport :: int
  tr_p50 :: int
  tr_p95 :: int
  tr_listening_p95 :: int
  tr_required :: "string list"

record percentile =
  pc_p50 :: int
  pc_p95 :: int
  pc_p99 :: int

record trace_group =
  gr_kind :: string
  gr_value :: string
  gr_samples :: nat
  gr_speaker :: "percentile option"
  gr_listening :: "percentile option"

record trace_report =
  tp_schema :: string
  tp_observations :: string
  tp_thresholds :: string
  tp_samples :: nat
  tp_decision :: string
  tp_failures :: "string list"
  tp_speaker :: "percentile option"
  tp_listening :: "percentile option"
  tp_groups :: "trace_group list"

section \<open>JSON tokens\<close>

text \<open>
  \<open>Name\<close> is a string token, in the place of a key or of a value; \<open>Scalar\<close> any other value that can be read;
  \<open>Broken\<close> an error: a syntax error, a text that stops early, a number out of the range of a double.
\<close>

datatype json_token = OpenObject | CloseObject | OpenArray | CloseArray | Name string | Scalar string | Broken

fun more :: "json_token list \<Rightarrow> bool" where
  "more (t # ts) \<longleftrightarrow> t \<noteq> CloseObject \<and> t \<noteq> CloseArray" | "more [] \<longleftrightarrow> False"

text \<open>
  \<open>uniqueJSONValue\<close> with its two loops: the tokens left after one value, \<open>None\<close> for false. The fuel
  bounds the depth of the calls; \<open>unique_value_tokens\<close> shows that the number of tokens is enough.
\<close>

fun unique_value :: "nat \<Rightarrow> json_token list \<Rightarrow> json_token list option"
  and unique_members :: "nat \<Rightarrow> string list \<Rightarrow> json_token list \<Rightarrow> json_token list option"
  and unique_elements :: "nat \<Rightarrow> json_token list \<Rightarrow> json_token list option" where
  "unique_value 0 ts = None"
| "unique_value (Suc n) ts = (case ts of
     [] \<Rightarrow> None
   | OpenObject # ts' \<Rightarrow> unique_members n [] ts'
   | OpenArray # ts' \<Rightarrow> unique_elements n ts'
   | CloseObject # ts' \<Rightarrow> None
   | CloseArray # ts' \<Rightarrow> None
   | Broken # ts' \<Rightarrow> None
   | _ # ts' \<Rightarrow> Some ts')"
| "unique_members 0 seen ts = None"
| "unique_members (Suc n) seen ts =
     (if more ts then
        (case ts of
           Name k # ts' \<Rightarrow>
             if k \<in> set seen then None
             else (case unique_value n ts' of None \<Rightarrow> None | Some ts'' \<Rightarrow> unique_members n (k # seen) ts'')
         | _ \<Rightarrow> None)
      else (case ts of CloseObject # ts' \<Rightarrow> Some ts' | _ \<Rightarrow> None))"
| "unique_elements 0 ts = None"
| "unique_elements (Suc n) ts =
     (if more ts then (case unique_value n ts of None \<Rightarrow> None | Some ts' \<Rightarrow> unique_elements n ts')
      else (case ts of CloseArray # ts' \<Rightarrow> Some ts' | _ \<Rightarrow> None))"

definition unique_json_keys :: "json_token list \<Rightarrow> bool" where
  "unique_json_keys ts \<longleftrightarrow> unique_value (length ts + 1) ts = Some []"

record trace_env =
  te_tokens :: "string \<Rightarrow> json_token list"
  te_members :: "string \<Rightarrow> (string \<times> string) list option"
  te_observation :: "string \<Rightarrow> observation option"
  te_thresholds :: "string \<Rightarrow> thresholds option"
  te_sha :: "string \<Rightarrow> string"
  te_lines :: "string \<Rightarrow> string list \<times> bool"

definition observationKeys :: "string list" where
  "observationKeys = [''deviceClass'', ''gestureToListeningMs'', ''networkClass'', ''revision'', ''route'',
     ''schemaVersion'', ''speechEndToSpeakerWriteMs'', ''stages'', ''transport'']"

definition stageKeys :: "string list" where
  "stageKeys = [''activityEndToFinalMs'', ''commitAckToFirstBinaryMs'', ''commitSendToAckMs'',
     ''controlCommitToFirstPcmMs'', ''finalToControlCommitMs'', ''firstBinaryToSpeakerWriteMs'',
     ''serverCommitToDrainMs'', ''serverDrainToActivityEndMs'', ''speechEndToCommitSendMs'']"

definition thresholdKeys :: "string list" where
  "thresholdKeys = [''maximumListeningP95Ms'', ''maximumP50Ms'', ''maximumP95Ms'', ''minimumPerTransport'',
     ''minimumTotal'', ''requiredTransports'', ''schemaVersion'']"

definition exact_keys :: "trace_env \<Rightarrow> string \<Rightarrow> string list \<Rightarrow> bool" where
  "exact_keys E data expected \<longleftrightarrow>
     unique_json_keys (te_tokens E data)
     \<and> (case te_members E data of None \<Rightarrow> False
        | Some ms \<Rightarrow> length ms = length expected \<and> sort (List.map fst ms) = expected)"

section \<open>Validation\<close>

definition revisionPattern :: re where
  "revisionPattern = Rep (Cls False [(0x30, 0x39), (0x61, 0x66)]) 40 40"

definition valid_ms :: "int \<Rightarrow> bool" where
  "valid_ms v \<longleftrightarrow> 0 \<le> v \<and> v \<le> maxObservationMS"

definition client_stages :: "stages \<Rightarrow> int option list" where
  "client_stages s = [sg_speech_end_to_commit_send s, sg_commit_send_to_ack s, sg_commit_ack_to_first_binary s,
     sg_first_binary_to_speaker_write s]"

definition server_stages :: "stages \<Rightarrow> int option list" where
  "server_stages s = [sg_server_commit_to_drain s, sg_server_drain_to_activity_end s, sg_activity_end_to_final s,
     sg_final_to_control_commit s, sg_control_commit_to_first_pcm s]"

fun client_total :: "int option list \<Rightarrow> int \<Rightarrow> int option" where
  "client_total [] acc = Some acc"
| "client_total (None # ss) acc = None"
| "client_total (Some v # ss) acc = (if \<not> valid_ms v then None else client_total ss (acc + v))"

definition valid_observation :: "observation \<Rightarrow> bool" where
  "valid_observation ov \<longleftrightarrow>
     ov_schema ov = ObservationVersion \<and> full_match revisionPattern (ov_revision ov)
     \<and> ov_transport ov \<in> {''http-buffered'', ''http-stream'', ''native-live''}
     \<and> ov_route ov \<in> {''http-fallback'', ''initial-answer-support'', ''continuing-coach'',
          ''native-conversation'', ''strict-local''}
     \<and> ov_device ov \<in> {''desktop'', ''mobile'', ''unknown''}
     \<and> ov_network ov \<in> {''fast'', ''typical'', ''constrained'', ''unknown''}
     \<and> valid_ms (ov_listening ov) \<and> valid_ms (ov_speaker ov)
     \<and> client_total (client_stages (ov_stages ov)) 0 = Some (ov_speaker ov)
     \<and> list_all (\<lambda>s. case s of None \<Rightarrow> True | Some v \<Rightarrow> valid_ms v) (server_stages (ov_stages ov))"

fun transports_ok :: "string list \<Rightarrow> string list \<Rightarrow> bool" where
  "transports_ok seen [] \<longleftrightarrow> True"
| "transports_ok seen (t # ts) \<longleftrightarrow>
     t \<in> {''http-buffered'', ''http-stream'', ''native-live''} \<and> t \<notin> set seen \<and> transports_ok (t # seen) ts"

definition valid_thresholds :: "thresholds \<Rightarrow> bool" where
  "valid_thresholds t \<longleftrightarrow>
     tr_schema t = ThresholdVersion \<and> tr_total t \<ge> 100 \<and> tr_per_transport t \<ge> 100 \<and> tr_p50 t > 0
     \<and> tr_p95 t \<ge> tr_p50 t \<and> tr_listening_p95 t > 0 \<and> tr_required t \<noteq> [] \<and> transports_ok [] (tr_required t)
     \<and> tr_total t \<ge> wrap64 (tr_per_transport t * int (length (tr_required t)))"

definition load_thresholds :: "trace_env \<Rightarrow> string \<Rightarrow> (trace_error, thresholds) result" where
  "load_thresholds E data =
     (if \<not> exact_keys E data thresholdKeys then Inl ErrInvalidConfig
      else case te_thresholds E data of None \<Rightarrow> Inl ErrInvalidConfig
      | Some t \<Rightarrow> if valid_thresholds t then Inr t else Inl ErrInvalidConfig)"

section \<open>Decoding\<close>

definition decode_line :: "trace_env \<Rightarrow> string \<Rightarrow> observation option" where
  "decode_line E line =
     (if \<not> exact_keys E line observationKeys then None
      else case te_members E line of None \<Rightarrow> None
      | Some raw \<Rightarrow>
        if \<not> exact_keys E (case map_of raw ''stages'' of None \<Rightarrow> [] | Some v \<Rightarrow> v) stageKeys then None
        else case te_observation E line of None \<Rightarrow> None
        | Some ov \<Rightarrow> if valid_observation ov then Some ov else None)"

fun decode_lines :: "trace_env \<Rightarrow> string list \<Rightarrow> observation list \<Rightarrow> (trace_error, observation list) result" where
  "decode_lines E [] values = Inr values"
| "decode_lines E (l # ls) values =
     (let line = trim_space l in
      if line = [] \<or> length values \<ge> maxObservations then Inl ErrInvalidObservation
      else case decode_line E line of None \<Rightarrow> Inl ErrInvalidObservation
      | Some ov \<Rightarrow> decode_lines E ls (values @ [ov]))"

definition decode_observations :: "trace_env \<Rightarrow> string \<Rightarrow> (trace_error, observation list) result" where
  "decode_observations E data =
     (let (lines, scan_failed) = te_lines E data in
      case decode_lines E lines [] of Inl e \<Rightarrow> Inl e
      | Inr values \<Rightarrow> if scan_failed \<or> values = [] then Inl ErrInvalidObservation else Inr values)"

section \<open>Percentiles and groups\<close>

fun fceil :: "f64 \<Rightarrow> f64" where
  "fceil (Fin x) = Fin (of_int \<lceil>x\<rceil>)" | "fceil v = v"

text \<open>\<open>int\<close> of a finite double with no fraction.\<close>

fun to_int :: "f64 \<Rightarrow> int" where
  "to_int (Fin x) = \<lfloor>x\<rfloor>" | "to_int _ = 0"

definition nearest_index :: "f64 \<Rightarrow> nat \<Rightarrow> int" where
  "nearest_index percent n =
     (let index = to_int (fceil (fmul percent (f64_of (of_nat n)))) - 1 in if index < 0 then 0 else index)"

definition nearest :: "int list \<Rightarrow> f64 \<Rightarrow> int" where
  "nearest ordered percent = ordered ! nat (nearest_index percent (length ordered))"

definition percentiles :: "int list \<Rightarrow> percentile" where
  "percentiles values = (let ordered = sort values in
     \<lparr>pc_p50 = nearest ordered (f64_of (50 / 100)), pc_p95 = nearest ordered (f64_of (95 / 100)),
      pc_p99 = nearest ordered (f64_of (99 / 100))\<rparr>)"

type_synonym group_values = "(string \<times> int list \<times> int list) list"

fun group_add :: "string \<Rightarrow> observation \<Rightarrow> group_values \<Rightarrow> group_values" where
  "group_add key ov [] = [(key, [ov_speaker ov], [ov_listening ov])]"
| "group_add key ov ((k, sp, li) # gs) =
     (if k = key then (k, sp @ [ov_speaker ov], li @ [ov_listening ov]) # gs else (k, sp, li) # group_add key ov gs)"

definition group_key :: "string \<Rightarrow> string \<Rightarrow> string" where
  "group_key kind v = kind @ [CHR 0x00] @ v"

definition add_observation :: "group_values \<Rightarrow> observation \<Rightarrow> group_values" where
  "add_observation gs ov =
     group_add (group_key ''network'' (ov_network ov)) ov
       (group_add (group_key ''device'' (ov_device ov)) ov
         (group_add (group_key ''route'' (ov_route ov)) ov
           (group_add (group_key ''transport'' (ov_transport ov)) ov gs)))"

definition group_of :: "int \<Rightarrow> string \<Rightarrow> int list \<times> int list \<Rightarrow> trace_group" where
  "group_of minimum key v =
     (let enough = (int (length (fst v)) \<ge> minimum) in
      \<lparr>gr_kind = takeWhile (\<lambda>c. c \<noteq> CHR 0x00) key, gr_value = drop 1 (dropWhile (\<lambda>c. c \<noteq> CHR 0x00) key),
       gr_samples = length (fst v),
       gr_speaker = (if enough then Some (percentiles (fst v)) else None),
       gr_listening = (if enough then Some (percentiles (snd v)) else None)\<rparr>)"

definition summarize_groups :: "observation list \<Rightarrow> int \<Rightarrow> trace_group list" where
  "summarize_groups values minimum =
     (let groups = foldl add_observation [] values; keys = sort (List.map fst groups)
      in List.map_filter (\<lambda>k. map_option (group_of minimum k) (map_of groups k)) keys)"

definition count_transport :: "observation list \<Rightarrow> string \<Rightarrow> nat" where
  "count_transport values target = length (List.filter (\<lambda>ov. ov_transport ov = target) values)"

section \<open>The evaluation\<close>

definition trace_digest :: "trace_env \<Rightarrow> string \<Rightarrow> string" where
  "trace_digest E data = hex_encode (te_sha E data)"

definition transport_failures :: "observation list \<Rightarrow> thresholds \<Rightarrow> string list" where
  "transport_failures values t = List.map (\<lambda>tr. ''minimum_transport_not_met:'' @ tr)
     (List.filter (\<lambda>tr. int (count_transport values tr) < tr_per_transport t) (tr_required t))"

definition latency_failures :: "percentile \<Rightarrow> percentile \<Rightarrow> thresholds \<Rightarrow> string list" where
  "latency_failures sp li t =
     (if pc_p50 sp > tr_p50 t then [''speech_start_p50_exceeded''] else [])
     @ (if pc_p95 sp > tr_p95 t then [''speech_start_p95_exceeded''] else [])
     @ (if pc_p95 li > tr_listening_p95 t then [''listening_p95_exceeded''] else [])"

definition evaluate_trace :: "trace_env \<Rightarrow> string \<Rightarrow> string \<Rightarrow> trace_report \<times> trace_error option" where
  "evaluate_trace E observation_data threshold_data =
     (let r = \<lparr>tp_schema = ReportVersion, tp_observations = trace_digest E observation_data,
               tp_thresholds = trace_digest E threshold_data, tp_samples = 0, tp_decision = ''insufficient'',
               tp_failures = [], tp_speaker = None, tp_listening = None, tp_groups = []\<rparr>
      in case load_thresholds E threshold_data of Inl e \<Rightarrow> (r, Some e)
      | Inr t \<Rightarrow>
        (case decode_observations E observation_data of Inl e \<Rightarrow> (r, Some e)
         | Inr values \<Rightarrow>
           let r = r\<lparr>tp_samples := length values, tp_groups := summarize_groups values (tr_per_transport t)\<rparr>
           in if int (length values) < tr_total t then (r\<lparr>tp_failures := [''minimum_total_not_met'']\<rparr>, None)
              else let missing = transport_failures values t in
                if missing \<noteq> [] then (r\<lparr>tp_failures := missing\<rparr>, None)
                else let sp = percentiles (List.map ov_speaker values);
                         li = percentiles (List.map ov_listening values);
                         failures = latency_failures sp li t
                     in (r\<lparr>tp_speaker := Some sp, tp_listening := Some li, tp_failures := failures,
                           tp_decision := (if failures \<noteq> [] then ''reject'' else ''accept'')\<rparr>, None)))"

section \<open>JSON values\<close>

datatype json = JObject "(string \<times> json) list" | JArray "json list" | JString string | JScalar string

fun tokens :: "json \<Rightarrow> json_token list" where
  "tokens (JObject ms) = OpenObject # concat (List.map (\<lambda>(k, v). Name k # tokens v) ms) @ [CloseObject]"
| "tokens (JArray vs) = OpenArray # concat (List.map tokens vs) @ [CloseArray]"
| "tokens (JString s) = [Name s]"
| "tokens (JScalar s) = [Scalar s]"

fun keys_distinct :: "json \<Rightarrow> bool" where
  "keys_distinct (JObject ms) \<longleftrightarrow> distinct (List.map fst ms) \<and> (\<forall>(k, v) \<in> set ms. keys_distinct v)"
| "keys_distinct (JArray vs) \<longleftrightarrow> (\<forall>v \<in> set vs. keys_distinct v)"
| "keys_distinct _ \<longleftrightarrow> True"


abbreviation member_tokens :: "(string \<times> json) list \<Rightarrow> json_token list" where
  "member_tokens ms \<equiv> concat (List.map (\<lambda>(k, v). Name k # tokens v) ms)"

lemma tokens_start: "\<exists>t ts. tokens j = t # ts \<and> t \<noteq> CloseObject \<and> t \<noteq> CloseArray"
  by (cases j) auto

lemma members_run:
  assumes "\<And>k v n rest. (k, v) \<in> set ms \<Longrightarrow> length (tokens v) \<le> n \<Longrightarrow>
      unique_value n (tokens v @ rest) = (if keys_distinct v then Some rest else None)"
    "length (member_tokens ms) < n"
  shows "unique_members n seen (member_tokens ms @ CloseObject # rest) =
    (if distinct (List.map fst ms) \<and> fst ` set ms \<inter> set seen = {} \<and> (\<forall>(k, v) \<in> set ms. keys_distinct v)
     then Some rest else None)"
  using assms
proof (induction ms arbitrary: n seen)
  case Nil
  then show ?case by (cases n) auto
next
  case (Cons m ms)
  obtain k v where m: "m = (k, v)" by (cases m)
  from Cons.prems(2) obtain l where n: "n = Suc l" "length (tokens v) \<le> l" "length (member_tokens ms) < l"
    by (cases n) (auto simp: m)
  have "unique_value l (tokens v @ member_tokens ms @ CloseObject # rest) =
      (if keys_distinct v then Some (member_tokens ms @ CloseObject # rest) else None)"
    using Cons.prems(1) [of k v l] n(2) by (simp add: m)
  moreover have "unique_members l (k # seen) (member_tokens ms @ CloseObject # rest) =
    (if distinct (List.map fst ms) \<and> fst ` set ms \<inter> set (k # seen) = {} \<and> (\<forall>(k, v) \<in> set ms. keys_distinct v)
     then Some rest else None)"
  proof (rule Cons.IH [OF _ n(3)])
    fix k' v' n' rest'
    assume "(k', v') \<in> set ms" "length (tokens v') \<le> n'"
    then show "unique_value n' (tokens v' @ rest') = (if keys_distinct v' then Some rest' else None)"
      using Cons.prems(1) [of k' v' n' rest'] by simp
  qed
  ultimately show ?case using n(1) by (auto simp: m)
qed

lemma elements_run:
  assumes "\<And>v n rest. v \<in> set vs \<Longrightarrow> length (tokens v) \<le> n \<Longrightarrow>
      unique_value n (tokens v @ rest) = (if keys_distinct v then Some rest else None)"
    "length (concat (List.map tokens vs)) < n"
  shows "unique_elements n (concat (List.map tokens vs) @ CloseArray # rest) =
    (if \<forall>v \<in> set vs. keys_distinct v then Some rest else None)"
  using assms
proof (induction vs arbitrary: n)
  case Nil
  then show ?case by (cases n) auto
next
  case (Cons v vs)
  obtain t ts where t: "tokens v = t # ts" "t \<noteq> CloseObject" "t \<noteq> CloseArray" using tokens_start by blast
  from Cons.prems(2) obtain l where n: "n = Suc l" "length (tokens v) \<le> l" "length (concat (List.map tokens vs)) < l"
    using t(1) by (cases n) auto
  have "unique_value l (tokens v @ concat (List.map tokens vs) @ CloseArray # rest) =
      (if keys_distinct v then Some (concat (List.map tokens vs) @ CloseArray # rest) else None)"
    using Cons.prems(1) [of v l] n(2) by simp
  moreover have "unique_elements l (concat (List.map tokens vs) @ CloseArray # rest) =
    (if \<forall>v \<in> set vs. keys_distinct v then Some rest else None)"
  proof (rule Cons.IH [OF _ n(3)])
    fix v' n' rest'
    assume "v' \<in> set vs" "length (tokens v') \<le> n'"
    then show "unique_value n' (tokens v' @ rest') = (if keys_distinct v' then Some rest' else None)"
      using Cons.prems(1) [of v' n' rest'] by simp
  qed
  ultimately show ?case using n(1) t by auto
qed

lemma unique_value_tokens:
  "length (tokens j) \<le> n \<Longrightarrow>
     unique_value n (tokens j @ rest) = (if keys_distinct j then Some rest else None)"
proof (induction j arbitrary: n rest rule: tokens.induct)
  case (1 ms)
  then obtain l where n: "n = Suc l" "length (member_tokens ms) < l" by (cases n) auto
  have "unique_members l [] (member_tokens ms @ CloseObject # rest) =
    (if distinct (List.map fst ms) \<and> fst ` set ms \<inter> set [] = {} \<and> (\<forall>(k, v) \<in> set ms. keys_distinct v)
     then Some rest else None)"
    using 1(1) n(2) by (intro members_run) auto
  then show ?case using n(1) by simp
next
  case (2 vs)
  then obtain l where n: "n = Suc l" "length (concat (List.map tokens vs)) < l" by (cases n) auto
  have "unique_elements l (concat (List.map tokens vs) @ CloseArray # rest) =
    (if \<forall>v \<in> set vs. keys_distinct v then Some rest else None)"
    using 2(1) n(2) by (intro elements_run) auto
  then show ?case using n(1) by simp
next
  case (3 s)
  then show ?case by (cases n) auto
next
  case (4 s)
  then show ?case by (cases n) auto
qed

text \<open>
  C38. No duplicate key slips through: on the tokens of any JSON value whose scalars can be read, however deep it is
  nested, the scanner accepts exactly when no object in it names a key twice and nothing follows the
  value, neither another token nor an error; and it ends, with fuel to spare.
\<close>

theorem unique_json_keys_iff: "unique_json_keys (tokens j @ rest) \<longleftrightarrow> keys_distinct j \<and> rest = []"
  using unique_value_tokens [of j "length (tokens j @ rest) + 1" rest] by (auto simp: unique_json_keys_def)

section \<open>Nearest-rank percentiles\<close>

text \<open>A double between a half and one.\<close>

lemma round64_upper_half:
  assumes "1 / 2 \<le> x" "x < 1"
  shows "round64 x = of_int (half_even (x * 2 ^ 53)) / 2 ^ 53"
proof -
  let ?y = "x * scale"
  obtain P :: rat where P: "P = 2 ^ 1073" by blast
  have "scale = 2 ^ (1 + 1073)" unfolding scale_def by (rule arg_cong [of _ _ "(^) 2"]) simp
  then have "scale = 2 * P" unfolding P power_add power_one_right .
  then have "1 / 2 * scale = P" by simp
  with mult_right_mono [OF assms(1) scale_nonneg] have "P \<le> ?y" by (simp only:)
  then have low: "2 ^ 1073 \<le> ?y" unfolding P .
  have "?y < 1 * scale" using assms(2) scale_pos by (rule mult_strict_right_mono)
  then have high: "?y < 2 ^ 1074" unfolding scale_def by simp
  have "0 \<le> ?y" using low by (rule order_trans [rotated]) simp
  from below_excess [OF this] low have "(2::rat) ^ 1073 < 2 ^ (excess ?y + 53)" by (rule le_less_trans [rotated])
  then have "1073 < excess ?y + 53" by (rule power_less_imp_less_exp [rotated]) simp
  then have e: "1021 \<le> excess ?y" by simp
  then have "2 ^ (excess ?y + 52) \<le> ?y" by (intro above_excess) simp
  then have "(2::rat) ^ (excess ?y + 52) < 2 ^ 1074" using high by (rule le_less_trans)
  then have "excess ?y + 52 < 1074" by (rule power_less_imp_less_exp [rotated]) simp
  then have e: "excess ?y = 1021" using e by simp
  obtain Q :: rat where Q: "Q = 2 ^ 1021" "Q \<noteq> 0" by simp
  have "scale = 2 ^ (53 + 1021)" unfolding scale_def by (rule arg_cong [of _ _ "(^) 2"]) simp
  then have s: "scale = 2 ^ 53 * Q" unfolding Q(1) power_add .
  have "grid ?y = of_int (half_even (x * 2 ^ 53 * Q / Q)) * Q"
    unfolding grid_def e unfolding s Q(1) [symmetric] mult.assoc ..
  then have "grid ?y = of_int (half_even (x * 2 ^ 53)) * Q" using Q(2) by simp
  moreover have "0 \<le> x" using assms(1) by simp
  ultimately show ?thesis
    using Q(2) unfolding round64_nonneg_eq [OF \<open>0 \<le> x\<close>] unfolding s by simp
qed
lemma literal_below:
  "round64 (95 / 100) \<le> 95 / 100" "round64 (99 / 100) \<le> 99 / 100" "round64 (50 / 100) \<le> 50 / 100"
proof -
  have "\<lfloor>42784196460019712 / 5 :: rat\<rfloor> = 8556839292003942" by (rule floor_unique) simp_all
  moreover have "\<lfloor>222928181554839552 / 25 :: rat\<rfloor> = 8917127262193582" by (rule floor_unique) simp_all
  ultimately show "round64 (95 / 100) \<le> 95 / 100" "round64 (99 / 100) \<le> 99 / 100" "round64 (50 / 100) \<le> 50 / 100"
    by (simp_all add: round64_upper_half half_even_def Let_def)
qed

text \<open>
  The product of the literal and the length is rounded to a double before the ceiling is taken; up to
  the largest number of observations the ceiling is that of the exact product.
\<close>

lemma dyadic_above:
  assumes "1 \<le> c" "c \<le> 100000"
  shows "round64 (of_int c - 1 + 1 / 128) = of_int c - 1 + 1 / 128"
proof -
  have "round64 (of_int ((c - 1) * 128 + 1) / 2 ^ 7) = of_int ((c - 1) * 128 + 1) / 2 ^ 7"
    using assms by (intro round64_dyadic) simp_all
  moreover have "(of_int ((c - 1) * 128 + 1) / 2 ^ 7 :: rat) = of_int c - 1 + 1 / 128" by (simp add: field_simps)
  ultimately show ?thesis by (simp only:)
qed

lemma exact_ceiling:
  fixes p :: int
  assumes p: "0 < p" "p \<le> 100" and n: "n \<le> 100000"
    and r: "round64 (of_int p / 100) \<le> of_int p / 100" "of_int p / 100 - 1 / 2 ^ 40 \<le> round64 (of_int p / 100)"
  shows "to_int (fceil (fmul (f64_of (of_int p / 100)) (f64_of (of_nat n)))) = \<lceil>(of_int p * of_nat n / 100 :: rat)\<rceil>"
proof -
  let ?q = "round64 (of_int p / 100)" and ?x = "of_int p * of_nat n / 100 :: rat"
  have n2: "of_nat n \<le> (2 ^ 53 :: rat)" using n by (simp add: order_trans [of _ "of_nat 100000"])
  have rn: "round64 (of_nat n) = of_nat n" using round64_of_int [of "int n"] n by simp
  have q: "0 \<le> ?q" "?q \<le> 1" using round64_nonneg round64_le_1 p by simp_all
  have "f64_of (of_nat n) = Fin (of_nat n)" using f64_of_Fin [of "of_nat n"] n2 rn by simp
  moreover have "f64_of (of_int p / 100) = Fin ?q" using p by (intro f64_of_unit) simp_all
  moreover have "0 \<le> ?q * of_nat n" "?q * of_nat n \<le> of_nat n"
    using q mult_right_mono [of ?q 1 "of_nat n"] by simp_all
  moreover have "\<bar>round64 (?q * of_nat n)\<bar> \<le> 2 ^ 53"
    using round64_mono [of "?q * of_nat n" "of_nat n"] round64_nonneg [of "?q * of_nat n"] rn n2 calculation by simp
  ultimately have prod: "fmul (f64_of (of_int p / 100)) (f64_of (of_nat n)) = Fin (round64 (?q * of_nat n))"
    by (simp add: fmul_def f64_of_Fin)
  have "\<lceil>round64 (?q * of_nat n)\<rceil> = \<lceil>?x\<rceil>"
  proof (rule ceiling_unique)
    have "?q * of_nat n \<le> ?x" using mult_right_mono [OF r(1), of "of_nat n"] by simp
    then have "?q * of_nat n \<le> of_int \<lceil>?x\<rceil>" using le_of_int_ceiling [of ?x] by (rule order_trans)
    moreover have c: "0 \<le> \<lceil>?x\<rceil>" "\<lceil>?x\<rceil> \<le> 2 ^ 53"
    proof -
      have "0 \<le> ?x" using p by simp
      then show "0 \<le> \<lceil>?x\<rceil>" by (metis ceiling_mono ceiling_zero)
      have "?x \<le> of_nat n" using p mult_right_mono [of "of_int p" 100 "of_nat n :: rat"] by simp
      then show "\<lceil>?x\<rceil> \<le> 2 ^ 53" using n2 by (simp add: ceiling_le_iff)
    qed
    ultimately show "round64 (?q * of_nat n) \<le> of_int \<lceil>?x\<rceil>"
      using round64_mono round64_of_int [OF c] by metis
    show "of_int \<lceil>?x\<rceil> - 1 < round64 (?q * of_nat n)"
    proof (cases "\<lceil>?x\<rceil> = 0")
      case True
      then show ?thesis using round64_nonneg [of "?q * of_nat n"] q by simp
    next
      case False
      let ?c = "\<lceil>?x\<rceil>"
      have c: "1 \<le> ?c" "?c \<le> 100000"
      proof -
        have "0 \<le> ?x" using p by simp
        then have "0 \<le> ?c" by (metis ceiling_mono ceiling_zero)
        with False show "1 \<le> ?c" by linarith
        have "?x \<le> of_nat n" using p mult_right_mono [of "of_int p" 100 "of_nat n :: rat"] by simp
        then show "?c \<le> 100000" using n by (simp add: ceiling_le_iff)
      qed
      have "of_int (100 * (?c - 1)) < (of_int (p * int n) :: rat)"
        using ceiling_correct [of ?x] by simp
      then have "100 * (?c - 1) + 1 \<le> p * int n" unfolding of_int_less_iff by simp
      then have "(of_int (100 * (?c - 1) + 1) :: rat) \<le> of_int (p * int n)" unfolding of_int_le_iff .
      then have low: "of_int ?c - 1 + 1 / 100 \<le> ?x" by simp
      have "(of_int p / 100 - 1 / 2 ^ 40) * of_nat n \<le> ?q * of_nat n" by (rule mult_right_mono [OF r(2)]) simp
      then have near: "?x - of_nat n / 2 ^ 40 \<le> ?q * of_nat n" by (simp add: left_diff_distrib)
      have "(of_nat n :: rat) \<le> 100000" using n by (simp add: order_trans [of _ "of_nat 100000"])
      then have "(of_nat n / 2 ^ 40 :: rat) \<le> 1 / 1000" by simp
      then have above: "of_int ?c - 1 + 1 / 128 \<le> ?q * of_nat n" using low near by linarith
      have "round64 (of_int ?c - 1 + 1 / 128) = of_int ?c - 1 + 1 / 128" using c by (rule dyadic_above)
      then have "of_int ?c - 1 + 1 / 128 \<le> round64 (?q * of_nat n)" using round64_mono [OF above] by simp
      then show ?thesis by simp
    qed
  qed
  then show ?thesis by (simp add: prod)
qed


definition nearest_rank :: "int \<Rightarrow> int list \<Rightarrow> int \<Rightarrow> bool" where
  "nearest_rank p xs v \<longleftrightarrow> v \<in> set xs \<and> p * int (length xs) \<le> 100 * int (length (List.filter (\<lambda>x. x \<le> v) xs))
     \<and> 100 * int (length (List.filter (\<lambda>x. x < v) xs)) < p * int (length xs)"

lemma nearest_is_rank:
  assumes p: "0 < p" "p \<le> 100" and xs: "xs \<noteq> []" "length xs \<le> 100000"
    and r: "round64 (of_int p / 100) \<le> of_int p / 100"
  shows "nearest_rank p xs (nearest (sort xs) (f64_of (of_int p / 100)))"
proof -
  let ?n = "length xs"
  let ?x = "of_int p * of_nat ?n / 100 :: rat"
  have "of_int p / 100 - 1 / 2 ^ 40 \<le> round64 (of_int p / 100)"
  proof -
    have q: "0 \<le> (of_int p / 100 :: rat)" "of_int p / 100 \<le> (1 :: rat)" using p by simp_all
    have "of_int p / 100 * unit_err \<le> 1 * unit_err" using q(2) by (rule mult_right_mono) simp
    moreover have "\<bar>round64 (of_int p / 100) - of_int p / 100\<bar> \<le> of_int p / 100 * unit_err + tiny"
      using q(1) by (rule round64_near)
    moreover have "unit_err + tiny \<le> 1 / 2 ^ 40" using tiny_bounds by simp
    ultimately show ?thesis by linarith
  qed
  from exact_ceiling [OF p xs(2) r this]
  have index: "to_int (fceil (fmul (f64_of (of_int p / 100)) (f64_of (of_nat ?n)))) = \<lceil>?x\<rceil>" .
  have x: "0 < ?x" "?x \<le> of_nat ?n" using p xs mult_right_mono [of "of_int p" 100 "of_nat ?n :: rat"] by simp_all
  have c: "1 \<le> \<lceil>?x\<rceil>" "\<lceil>?x\<rceil> \<le> int ?n" using x by (simp_all add: ceiling_le_iff)
  define k where "k = nat (\<lceil>?x\<rceil> - 1)"
  have k2: "int k = \<lceil>?x\<rceil> - 1" unfolding k_def using c(1) by linarith
  with c(2) have k: "k < ?n" "int k = \<lceil>?x\<rceil> - 1" by linarith+
  have v: "nearest (sort xs) (f64_of (of_int p / 100)) = sort xs ! k"
    using c by (simp add: nearest_def nearest_index_def index k_def Let_def)
  have "of_int (p * int ?n) \<le> (of_int (100 * \<lceil>?x\<rceil>) :: rat)" 
    using le_of_int_ceiling [of ?x] unfolding of_int_mult of_int_of_nat_eq of_int_numeral by linarith
  then have up: "p * int ?n \<le> 100 * (int k + 1)" unfolding of_int_le_iff k(2) by simp
  have "of_int (100 * (\<lceil>?x\<rceil> - 1)) < (of_int (p * int ?n) :: rat)" using ceiling_correct [of ?x] by simp
  then have down: "100 * int k < p * int ?n" unfolding of_int_less_iff k(2) .
  have "sort xs ! k \<in> set xs" using k(1) by (metis length_sort nth_mem set_sort)
  moreover have "int k + 1 \<le> int (length (List.filter (\<lambda>x. x \<le> sort xs ! k) xs))" using rank_counts [OF k(1)] by simp
  moreover have "int (length (List.filter (\<lambda>x. x < sort xs ! k) xs)) \<le> int k" using below_rank [OF k(1)] by simp
  ultimately show ?thesis unfolding v nearest_rank_def using up down by simp
qed

lemma percentile_ranks:
  assumes "vs \<noteq> []" "length vs \<le> maxObservations"
  shows "nearest_rank 50 vs (pc_p50 (percentiles vs)) \<and> nearest_rank 95 vs (pc_p95 (percentiles vs))
    \<and> nearest_rank 99 vs (pc_p99 (percentiles vs))"
  using nearest_is_rank [of 50 vs] nearest_is_rank [of 95 vs] nearest_is_rank [of 99 vs] literal_below assms
  by (simp add: percentiles_def Let_def maxObservations_def)

text \<open>
  C32. The percentiles are the nearest ranks: for up to the hundred thousand observations that are
  decoded, each of the three values is an observation, at least its percentage of the observations lie
  at or below it, and fewer lie below it. That the rank is computed in floating point, by a ceiling of
  a rounded product with a rounded literal, changes nothing.
\<close>

theorem percentiles_are_nearest_ranks:
  assumes "vs \<noteq> []" "length vs \<le> maxObservations"
  shows "nearest_rank 50 vs (pc_p50 (percentiles vs)) \<and> nearest_rank 95 vs (pc_p95 (percentiles vs))
    \<and> nearest_rank 99 vs (pc_p99 (percentiles vs))"
  using assms by (rule percentile_ranks)

lemma percentiles_are_nearest_ranks_witness:
  "nearest_rank 50 [900, 300, 1200] (pc_p50 (percentiles [900, 300, 1200]))
   \<and> nearest_rank 95 [900, 300, 1200] (pc_p95 (percentiles [900, 300, 1200]))
   \<and> nearest_rank 99 [900, 300, 1200] (pc_p99 (percentiles [900, 300, 1200]))"
  by (rule percentiles_are_nearest_ranks) (simp_all add: maxObservations_def)


section \<open>An accepted trace\<close>

lemma decode_lines_ok:
  assumes "decode_lines E ls acc = Inr out" "length acc \<le> maxObservations" "list_all valid_observation acc"
  shows "length out \<le> maxObservations \<and> list_all valid_observation out"
  using assms
proof (induction ls arbitrary: acc)
  case (Cons l ls)
  from Cons.prems(1) obtain ov where ov: "decode_line E (trim_space l) = Some ov" "length acc < maxObservations"
    "decode_lines E ls (acc @ [ov]) = Inr out"
    by (auto simp: Let_def not_le split: if_split_asm option.split_asm)
  have "valid_observation ov" using ov(1) by (auto simp: decode_line_def split: if_split_asm option.split_asm)
  then show ?case using Cons.IH [OF ov(3)] ov(2) Cons.prems(3) by simp
qed simp

text \<open>A share of the latencies, in hundredths.\<close>

definition share_within :: "int \<Rightarrow> int list \<Rightarrow> int \<Rightarrow> bool" where
  "share_within p xs bound \<longleftrightarrow> p * int (length xs) \<le> 100 * int (length (List.filter (\<lambda>x. x \<le> bound) xs))"

lemma share_from_rank: "nearest_rank p xs v \<Longrightarrow> v \<le> bound \<Longrightarrow> share_within p xs bound"
proof -
  assume rank: "nearest_rank p xs v" and le: "v \<le> bound"
  have "length (List.filter (\<lambda>x. x \<le> v) xs) \<le> length (List.filter (\<lambda>x. x \<le> bound) xs)"
    using le by (induction xs) auto
  then show ?thesis using rank by (simp add: share_within_def nearest_rank_def)
qed

text \<open>
  What an accepted trace has shown: at least the hundred observations that valid thresholds ask
  for, all of them valid (known labels, and client stages that add up to the whole), enough of every
  required transport, and at least 50 and 95 per cent of the turns spoken within the two speech bounds
  and 95 per cent of the gestures heard within the listening bound.
\<close>

theorem accepted_trace:
  "{(d, td). tp_decision (fst (evaluate_trace E d td)) = ''accept''} \<subseteq>
   {(d, td). \<exists>t vs. load_thresholds E td = Inr t \<and> valid_thresholds t \<and> decode_observations E d = Inr vs
      \<and> 100 \<le> length vs \<and> length vs \<le> maxObservations \<and> list_all valid_observation vs
      \<and> list_all (\<lambda>tr. tr_per_transport t \<le> int (count_transport vs tr)) (tr_required t)
      \<and> share_within 50 (List.map ov_speaker vs) (tr_p50 t) \<and> share_within 95 (List.map ov_speaker vs) (tr_p95 t)
      \<and> share_within 95 (List.map ov_listening vs) (tr_listening_p95 t)}"
proof (intro subsetI, clarify)
  fix d td
  assume acc: "tp_decision (fst (evaluate_trace E d td)) = ''accept''"
  then obtain t vs where t: "load_thresholds E td = Inr t" and vs: "decode_observations E d = Inr vs"
    by (auto simp: evaluate_trace_def Let_def split: sum.splits)
  have valid: "valid_thresholds t"
    using t by (auto simp: load_thresholds_def split: if_split_asm option.split_asm)
  have facts: "tr_total t \<le> int (length vs)" "transport_failures vs t = []"
    "latency_failures (percentiles (List.map ov_speaker vs)) (percentiles (List.map ov_listening vs)) t = []"
    using acc by (auto simp: evaluate_trace_def t vs Let_def split: if_split_asm)
  obtain lines failed where "te_lines E d = (lines, failed)" by fastforce
  with vs have "decode_lines E lines [] = Inr vs"
    by (auto simp: decode_observations_def split: sum.split_asm if_split_asm)
  from decode_lines_ok [OF this] have ok: "length vs \<le> maxObservations" "list_all valid_observation vs" by simp_all
  have many: "100 \<le> length vs" using facts(1) valid by (simp add: valid_thresholds_def)
  have transports: "list_all (\<lambda>tr. tr_per_transport t \<le> int (count_transport vs tr)) (tr_required t)"
    using facts(2) by (simp add: transport_failures_def filter_empty_conv list_all_iff not_less)
  have le: "pc_p50 (percentiles (List.map ov_speaker vs)) \<le> tr_p50 t"
    "pc_p95 (percentiles (List.map ov_speaker vs)) \<le> tr_p95 t"
    "pc_p95 (percentiles (List.map ov_listening vs)) \<le> tr_listening_p95 t"
    using facts(3) by (simp_all add: latency_failures_def split: if_split_asm)
  have ranks: "nearest_rank 50 (List.map f vs) (pc_p50 (percentiles (List.map f vs)))"
    "nearest_rank 95 (List.map f vs) (pc_p95 (percentiles (List.map f vs)))" for f
    using percentile_ranks [of "List.map f vs"] ok(1) many by (cases vs; simp)+
  show "\<exists>t vs. load_thresholds E td = Inr t \<and> valid_thresholds t \<and> decode_observations E d = Inr vs
      \<and> 100 \<le> length vs \<and> length vs \<le> maxObservations \<and> list_all valid_observation vs
      \<and> list_all (\<lambda>tr. tr_per_transport t \<le> int (count_transport vs tr)) (tr_required t)
      \<and> share_within 50 (List.map ov_speaker vs) (tr_p50 t) \<and> share_within 95 (List.map ov_speaker vs) (tr_p95 t)
      \<and> share_within 95 (List.map ov_listening vs) (tr_listening_p95 t)"
    using t valid vs many ok transports ranks [THEN share_from_rank] le by blast
qed

end
