(* ===== verification/CommitBuffer.thy ===== *)
theory CommitBuffer
  imports Prelude "HOL-Library.Sublist"
begin

text \<open>
  The commit buffer of speculative speech (\<open>speculativeAudioCommitBuffer\<close> of
  \<open>internal/voiceflow/voiceflow.go\<close>). A provider writes PCM before the turn is committed; the buffer keeps
  at most 100 ms of it private, until it is released to the listener in order or discarded.

  \<^item> The byte arrays the buffer allocates are kept in a store (\<open>cb_arrays\<close>), since \<open>chunks\<close> and
    \<open>releaseChunks\<close> hold the same arrays and clearing one overwrites it in place; a chunk is an address.
  \<^item> The code takes the mutex piece by piece, so \<open>write\<close> is one turn of its loop and \<open>release\<close> is
    its beginning, one turn up to the call of \<open>deliver\<close>, and what follows the call.
  \<^item> \<open>audio_step\<close> is the interleaving: one writer (the provider's callback), one release, and anybody
    who discards, the watcher of the context included. Its labels are the chunks offered to \<open>write\<close>, the arrays
    copied, and the chunks that \<open>deliver\<close> is called with.

  Errors of contexts and of \<open>deliver\<close> are arguments. The elapsed time that \<open>release\<close> reports is left out.
\<close>

section \<open>The buffer\<close>

datatype buffer_state = Pending | Releasing | Live | Discarded

datatype commit_error = SpeculativeAudioDiscarded | SpeculativeAudioMIME | SpeculativeAudioChunk | Raised string

record commit_buffer =
  cb_state :: buffer_state
  cb_arrays :: "string list"
  cb_chunks :: "nat list"
  cb_buffered :: nat
  cb_peak :: nat
  cb_error :: "commit_error option"
  cb_release :: "nat list"
  cb_index :: nat
  cb_delivering :: bool
  cb_full :: bool
  cb_watched :: bool

definition max_buffer_bytes :: nat where [const_simps]:
  "max_buffer_bytes = 24000 * 1 * (16 div 8) * 100 div 1000"

definition new_commit_buffer :: commit_buffer where
  "new_commit_buffer =
     \<lparr>cb_state = Pending, cb_arrays = [], cb_chunks = [], cb_buffered = 0, cb_peak = 0, cb_error = None,
      cb_release = [], cb_index = 0, cb_delivering = False, cb_full = False, cb_watched = True\<rparr>"

definition zeros :: "nat \<Rightarrow> string" where
  "zeros n = replicate n (CHR 0x00)"

text \<open>\<open>clear\<close> on each of the arrays.\<close>

definition scrub :: "nat list \<Rightarrow> string list \<Rightarrow> string list" where
  "scrub addresses arrays = fold (\<lambda>a h. h[a := zeros (length (h ! a))]) addresses arrays"

text \<open>What is left of the arrays to release; the one that \<open>deliver\<close> is reading is not touched.\<close>

definition discard_locked :: "commit_error \<Rightarrow> commit_buffer \<Rightarrow> commit_buffer" where
  "discard_locked reason b =
     b\<lparr>cb_arrays := scrub (cb_chunks b @ drop (if cb_delivering b then Suc (cb_index b) else cb_index b) (cb_release b)) (cb_arrays b),
       cb_chunks := [], cb_buffered := 0, cb_state := Discarded, cb_error := Some reason\<rparr>"

definition clear_release :: "commit_buffer \<Rightarrow> commit_buffer" where
  "clear_release b =
     b\<lparr>cb_arrays := scrub (drop (cb_index b) (cb_release b)) (cb_arrays b),
       cb_release := [], cb_index := 0, cb_delivering := False\<rparr>"

definition stop_watching :: "commit_buffer \<Rightarrow> commit_buffer" where
  "stop_watching b = b\<lparr>cb_watched := False\<rparr>"

definition discard :: "commit_error option \<Rightarrow> commit_buffer \<Rightarrow> commit_buffer" where
  "discard reason b =
     (let e = (case reason of None \<Rightarrow> SpeculativeAudioDiscarded | Some e \<Rightarrow> e) in
      stop_watching (if cb_state b \<noteq> Discarded then discard_locked e b else b))"

definition discard_cause :: "commit_buffer \<Rightarrow> commit_error" where
  "discard_cause b = (case cb_error b of None \<Rightarrow> SpeculativeAudioDiscarded | Some e \<Rightarrow> e)"

text \<open>One turn of \<open>write\<close>'s loop with the rest of the chunk.\<close>

datatype write_turn = Waits | Copies nat commit_buffer | Passes | Refuses commit_error

definition buffer_write :: "string \<Rightarrow> commit_buffer \<Rightarrow> write_turn" where
  "buffer_write rest b =
     (if cb_state b = Releasing \<or> cb_state b = Pending \<and> cb_buffered b \<ge> max_buffer_bytes then Waits
      else case cb_state b of
        Pending \<Rightarrow>
          (let available = max_buffer_bytes - cb_buffered b;
               count = (if length rest > available then available else length rest);
               size = cb_buffered b + count in
           Copies count (b\<lparr>cb_arrays := cb_arrays b @ [take count rest],
                           cb_chunks := cb_chunks b @ [length (cb_arrays b)],
                           cb_buffered := size,
                           cb_peak := (if size > cb_peak b then size else cb_peak b),
                           cb_full := (cb_full b \<or> size = max_buffer_bytes)\<rparr>))
      | Live \<Rightarrow> Passes
      | Discarded \<Rightarrow> Refuses (discard_cause b)
      | _ \<Rightarrow> Refuses SpeculativeAudioDiscarded)"

definition malformed_chunk :: "string \<Rightarrow> bool" where
  "malformed_chunk chunk \<longleftrightarrow> length chunk = 0 \<or> length chunk mod 2 \<noteq> 0"

definition release_begin :: "commit_buffer \<Rightarrow> commit_error + commit_buffer" where
  "release_begin b =
     (if cb_state b = Discarded then Inl (discard_cause b)
      else if cb_state b \<noteq> Pending then Inl SpeculativeAudioDiscarded
      else Inr (b\<lparr>cb_state := Releasing, cb_release := cb_chunks b, cb_chunks := [], cb_buffered := 0\<rparr>))"

text \<open>One turn of \<open>release\<close>'s loop up to \<open>deliver\<close>, whose argument is the address; or its return.\<close>

datatype release_turn = Delivers nat commit_buffer | Returns "commit_error option" commit_buffer

definition buffer_release :: "commit_error option \<Rightarrow> commit_buffer \<Rightarrow> release_turn" where
  "buffer_release ended b =
     (if cb_state b = Discarded then Returns (Some (discard_cause b)) (stop_watching (clear_release b))
      else case ended of
        Some e \<Rightarrow> Returns (Some e) (stop_watching (clear_release (discard_locked e b)))
      | None \<Rightarrow>
        if cb_index b \<ge> length (cb_release b)
        then Returns None (stop_watching ((clear_release b)\<lparr>cb_state := Live\<rparr>))
        else Delivers (cb_release b ! cb_index b) (b\<lparr>cb_delivering := True\<rparr>))"

text \<open>After \<open>deliver\<close>: whether it failed, and whether somebody discarded the buffer meanwhile.\<close>

definition release_delivered :: "commit_error option \<Rightarrow> nat \<Rightarrow> commit_buffer \<Rightarrow> commit_error option \<times> commit_buffer" where
  "release_delivered failed a b =
     (let b1 = b\<lparr>cb_delivering := False, cb_arrays := scrub [a] (cb_arrays b), cb_index := Suc (cb_index b)\<rparr> in
      case failed of
        Some e \<Rightarrow> (Some e, stop_watching (clear_release (discard_locked e b1)))
      | None \<Rightarrow>
        if cb_state b1 = Discarded then (Some (discard_cause b1), stop_watching (clear_release b1))
        else (None, b1))"

definition peak_buffered_bytes :: "commit_buffer \<Rightarrow> nat" where
  "peak_buffered_bytes b = cb_peak b"

definition can_retry_before_audio :: "commit_buffer \<Rightarrow> bool" where
  "can_retry_before_audio b \<longleftrightarrow> cb_state b = Pending \<and> cb_buffered b = 0 \<and> cb_peak b = 0"

section \<open>Writer, release and discard together\<close>

datatype writer = Idle | Copying string | Delivering string
datatype releaser = Before | Turning | Calling nat | Called nat | After

record audio_run =
  ar_buffer :: commit_buffer
  ar_writer :: writer
  ar_releaser :: releaser
  ar_ended :: bool

datatype audio_event = Offered string | Copied string | Heard string | Quiet

definition new_audio_run :: audio_run where
  "new_audio_run = \<lparr>ar_buffer = new_commit_buffer, ar_writer = Idle, ar_releaser = Before, ar_ended = False\<rparr>"

definition rest_of :: "nat \<Rightarrow> string \<Rightarrow> writer" where
  "rest_of n rest = (if n < length rest then Copying (drop n rest) else Idle)"

inductive audio_step :: "audio_run \<Rightarrow> audio_event \<Rightarrow> audio_run \<Rightarrow> bool" where
  offers: "\<lbrakk>ar_writer s = Idle; \<not> malformed_chunk chunk\<rbrakk>
     \<Longrightarrow> audio_step s (Offered chunk) (s\<lparr>ar_writer := Copying chunk\<rparr>)"
| offers_malformed: "\<lbrakk>ar_writer s = Idle; malformed_chunk chunk\<rbrakk>
     \<Longrightarrow> audio_step s (Offered chunk) (s\<lparr>ar_buffer := discard (Some SpeculativeAudioChunk) (ar_buffer s)\<rparr>)"
| copies: "\<lbrakk>ar_writer s = Copying rest; buffer_write rest (ar_buffer s) = Copies n b\<rbrakk>
     \<Longrightarrow> audio_step s (Copied (take n rest)) (s\<lparr>ar_buffer := b, ar_writer := rest_of n rest\<rparr>)"
| refuses: "\<lbrakk>ar_writer s = Copying rest; buffer_write rest (ar_buffer s) = Refuses e\<rbrakk>
     \<Longrightarrow> audio_step s Quiet (s\<lparr>ar_writer := Idle\<rparr>)"
| passes: "\<lbrakk>ar_writer s = Copying rest; buffer_write rest (ar_buffer s) = Passes\<rbrakk>
     \<Longrightarrow> audio_step s Quiet (s\<lparr>ar_writer := Delivering rest\<rparr>)"
| passed: "\<lbrakk>ar_writer s = Delivering rest; \<not> ar_ended s\<rbrakk>
     \<Longrightarrow> audio_step s (Heard rest) (s\<lparr>ar_writer := Idle\<rparr>)"
| pass_ended: "\<lbrakk>ar_writer s = Delivering rest; ar_ended s\<rbrakk>
     \<Longrightarrow> audio_step s Quiet (s\<lparr>ar_writer := Idle\<rparr>)"
| ends: "audio_step s Quiet (s\<lparr>ar_ended := True\<rparr>)"
| begins: "\<lbrakk>ar_releaser s = Before; release_begin (ar_buffer s) = Inr b\<rbrakk>
     \<Longrightarrow> audio_step s Quiet (s\<lparr>ar_buffer := b, ar_releaser := Turning\<rparr>)"
| calls: "\<lbrakk>ar_releaser s = Turning; buffer_release ended (ar_buffer s) = Delivers a b\<rbrakk>
     \<Longrightarrow> audio_step s Quiet (s\<lparr>ar_buffer := b, ar_releaser := Calling a\<rparr>)"
| hears: "ar_releaser s = Calling a
     \<Longrightarrow> audio_step s (Heard (cb_arrays (ar_buffer s) ! a)) (s\<lparr>ar_releaser := Called a\<rparr>)"
| returns: "\<lbrakk>ar_releaser s = Turning; buffer_release ended (ar_buffer s) = Returns e b\<rbrakk>
     \<Longrightarrow> audio_step s Quiet (s\<lparr>ar_buffer := b, ar_releaser := After\<rparr>)"
| delivered: "\<lbrakk>ar_releaser s = Called a; release_delivered failed a (ar_buffer s) = (e, b)\<rbrakk>
     \<Longrightarrow> audio_step s Quiet (s\<lparr>ar_buffer := b, ar_releaser := (if e = None then Turning else After)\<rparr>)"
| discards: "audio_step s Quiet (s\<lparr>ar_buffer := discard reason (ar_buffer s)\<rparr>)"

abbreviation audio_runs :: "audio_event list \<Rightarrow> audio_run \<Rightarrow> bool" where
  "audio_runs es s \<equiv> run_of audio_step new_audio_run es s"

text \<open>What was offered, copied and heard.\<close>

definition offered :: "audio_event list \<Rightarrow> string list" where
  "offered es = concat (map (\<lambda>e. case e of Offered c \<Rightarrow> [c] | _ \<Rightarrow> []) es)"

definition copied :: "audio_event list \<Rightarrow> string list" where
  "copied es = concat (map (\<lambda>e. case e of Copied c \<Rightarrow> [c] | _ \<Rightarrow> []) es)"

definition heard :: "audio_event list \<Rightarrow> string list" where
  "heard es = concat (map (\<lambda>e. case e of Heard c \<Rightarrow> [c] | _ \<Rightarrow> []) es)"

lemma event_simps [simp]:
  "offered [] = []" "copied [] = []" "heard [] = []"
  "offered (es @ fs) = offered es @ offered fs" "copied (es @ fs) = copied es @ copied fs"
  "heard (es @ fs) = heard es @ heard fs"
  "offered [Offered c] = [c]" "offered [Copied c] = []" "offered [Heard c] = []" "offered [Quiet] = []"
  "copied [Offered c] = []" "copied [Copied c] = [c]" "copied [Heard c] = []" "copied [Quiet] = []"
  "heard [Offered c] = []" "heard [Copied c] = []" "heard [Heard c] = [c]" "heard [Quiet] = []"
  by (simp_all add: offered_def copied_def heard_def)

section \<open>What every interleaving keeps\<close>

lemma length_scrub [simp]: "length (scrub as h) = length h"
  by (induction as arbitrary: h) (auto simp: scrub_def)

lemma nth_scrub: "j < length h \<Longrightarrow> scrub as h ! j = (if j \<in> set as then zeros (length (h ! j)) else h ! j)"
proof (induction as arbitrary: h)
  case (Cons a as)
  then show ?case by (cases "a = j") (auto simp: scrub_def zeros_def)
qed (simp add: scrub_def)

text \<open>The arrays once the first \<open>i\<close> of them are cleared.\<close>

definition wiped :: "nat \<Rightarrow> string list \<Rightarrow> string list" where
  "wiped i cs = map (\<lambda>c. zeros (length c)) (take i cs) @ drop i cs"

lemma length_wiped [simp]: "length (wiped i cs) = length cs"
  by (auto simp: wiped_def)

lemma nth_wiped: "j < length cs \<Longrightarrow> wiped i cs ! j = (if j < i then zeros (length (cs ! j)) else cs ! j)"
  by (auto simp: wiped_def nth_append)

lemma scrub_arrays:
  "wiped 0 cs = cs"
  "i \<le> length cs \<Longrightarrow> scrub [i..<length cs] (wiped i cs) = wiped (length cs) cs"
  "i < length cs \<Longrightarrow> scrub [Suc i..<length cs] (wiped i cs) = (wiped (length cs) cs)[i := cs ! i]"
  "i < length cs \<Longrightarrow> scrub [i] (wiped i cs) = wiped (Suc i) cs"
  "i < length cs \<Longrightarrow> scrub [i] ((wiped (length cs) cs)[i := cs ! i]) = wiped (length cs) cs"
  "scrub as (wiped (length cs) cs) = wiped (length cs) cs"
  "scrub [] cs = cs"
  by (auto intro!: nth_equalityI simp: nth_scrub nth_wiped nth_list_update zeros_def wiped_def [of 0] scrub_def [of "[]"])

lemmas buffer_ops = discard_locked_def clear_release_def stop_watching_def discard_def buffer_write_def release_begin_def
  buffer_release_def release_delivered_def Let_def

inductive_cases audio_stepE: "audio_step s e s'"

definition in_writer :: "writer \<Rightarrow> string" where
  "in_writer w = (case w of Idle \<Rightarrow> [] | Copying r \<Rightarrow> r | Delivering r \<Rightarrow> r)"

definition delivering :: "writer \<Rightarrow> bool" where
  "delivering w = (case w of Delivering r \<Rightarrow> True | _ \<Rightarrow> False)"

definition private_inv :: "audio_event list \<Rightarrow> audio_run \<Rightarrow> bool" where
  "private_inv es s \<longleftrightarrow>
     (let b = ar_buffer s; cs = copied es in
      cb_arrays b = cs \<and> cb_chunks b = [0..<length cs] \<and> cb_release b = [] \<and> cb_index b = 0 \<and> \<not> cb_delivering b
      \<and> cb_buffered b = cb_peak b \<and> ar_releaser s = Before \<and> \<not> delivering (ar_writer s)
      \<and> heard es = [] \<and> concat (offered es) = concat cs @ in_writer (ar_writer s))"

definition releasing_inv :: "audio_event list \<Rightarrow> audio_run \<Rightarrow> bool" where
  "releasing_inv es s \<longleftrightarrow>
     (let b = ar_buffer s; cs = copied es; i = cb_index b in
      i \<le> length cs \<and> cb_arrays b = wiped i cs \<and> cb_chunks b = [] \<and> cb_release b = [0..<length cs] \<and> cb_buffered b = 0
      \<and> \<not> delivering (ar_writer s) \<and> concat (offered es) = concat cs @ in_writer (ar_writer s)
      \<and> (case ar_releaser s of
           Turning \<Rightarrow> \<not> cb_delivering b \<and> concat (heard es) = concat (take i cs)
         | Calling a \<Rightarrow> cb_delivering b \<and> a = i \<and> i < length cs \<and> concat (heard es) = concat (take i cs)
         | Called a \<Rightarrow> cb_delivering b \<and> a = i \<and> i < length cs \<and> concat (heard es) = concat (take (Suc i) cs)
         | _ \<Rightarrow> False))"

definition live_inv :: "audio_event list \<Rightarrow> audio_run \<Rightarrow> bool" where
  "live_inv es s \<longleftrightarrow>
     (let b = ar_buffer s; cs = copied es in
      cb_arrays b = wiped (length cs) cs \<and> cb_chunks b = [] \<and> cb_release b = [] \<and> cb_index b = 0 \<and> \<not> cb_delivering b
      \<and> cb_buffered b = 0 \<and> ar_releaser s = After \<and> prefix (concat (heard es)) (concat (offered es))
      \<and> (ar_ended s \<or> concat (offered es) = concat (heard es) @ in_writer (ar_writer s)))"

definition discarded_inv :: "audio_event list \<Rightarrow> audio_run \<Rightarrow> bool" where
  "discarded_inv es s \<longleftrightarrow>
     (let b = ar_buffer s; cs = copied es; z = wiped (length cs) cs; i = cb_index b in
      cb_chunks b = [] \<and> cb_buffered b = 0 \<and> prefix (concat (heard es)) (concat (offered es))
      \<and> (delivering (ar_writer s) \<longrightarrow> ar_releaser s = After
           \<and> (ar_ended s \<or> prefix (concat (heard es) @ in_writer (ar_writer s)) (concat (offered es))))
      \<and> (case ar_releaser s of
           Before \<Rightarrow> cb_arrays b = z \<and> heard es = []
         | Turning \<Rightarrow> cb_arrays b = z \<and> \<not> cb_delivering b
         | Calling a \<Rightarrow> a = i \<and> i < length cs \<and> cb_delivering b \<and> cb_arrays b = z[i := cs ! i]
             \<and> prefix (concat (heard es) @ cs ! i) (concat (offered es))
         | Called a \<Rightarrow> a = i \<and> i < length cs \<and> cb_delivering b \<and> cb_arrays b = z[i := cs ! i]
         | After \<Rightarrow> cb_arrays b = z))"

definition audio_inv :: "audio_event list \<Rightarrow> audio_run \<Rightarrow> bool" where
  "audio_inv es s \<longleftrightarrow>
     cb_peak (ar_buffer s) = length (concat (copied es)) \<and> cb_peak (ar_buffer s) \<le> max_buffer_bytes
     \<and> (case cb_state (ar_buffer s) of
          Pending \<Rightarrow> private_inv es s | Releasing \<Rightarrow> releasing_inv es s | Live \<Rightarrow> live_inv es s | Discarded \<Rightarrow> discarded_inv es s)"

lemmas audio_invs = private_inv_def releasing_inv_def live_inv_def discarded_inv_def audio_inv_def Let_def

lemma audio_inv_new: "audio_inv [] new_audio_run"
  by (simp add: audio_invs new_audio_run_def new_commit_buffer_def delivering_def in_writer_def)

lemma heard_prefixes:
  "prefix (concat (take i cs)) (concat cs @ w)"
  "i < length cs \<Longrightarrow> prefix (concat (take i cs) @ cs ! i) (concat cs @ w)"
  "i < length cs \<Longrightarrow> concat (take (Suc i) cs) = concat (take i cs) @ cs ! i"
proof -
  have take_prefix: "prefix (concat (take k cs)) (concat cs @ w)" for k
    by (metis append_assoc append_take_drop_id concat_append prefixI)
  then show "prefix (concat (take i cs)) (concat cs @ w)" .
  show last: "concat (take (Suc i) cs) = concat (take i cs) @ cs ! i" if "i < length cs"
    using that by (simp add: take_Suc_conv_app_nth)
  show "prefix (concat (take i cs) @ cs ! i) (concat cs @ w)" if "i < length cs"
    using take_prefix [of "Suc i"] last [OF that] by simp
qed

lemma scrub_all: "scrub [0..<length cs] cs = wiped (length cs) cs"
  using scrub_arrays(2) [of 0 cs] by (simp add: scrub_arrays)

lemmas run_facts = scrub_arrays scrub_all heard_prefixes

lemma audio_inv_discard: "audio_inv es s \<Longrightarrow> audio_inv es (s\<lparr>ar_buffer := discard reason (ar_buffer s)\<rparr>)"
  by (cases "cb_state (ar_buffer s)")
    (auto simp: audio_invs buffer_ops run_facts split: option.splits releaser.splits)

lemma prefix_more: "prefix xs ys \<Longrightarrow> prefix xs (ys @ zs)"
  by (meson prefix_prefix)

lemma audio_inv_offer:
  assumes "audio_inv es s" "ar_writer s = Idle"
  shows "audio_inv (es @ [Offered chunk]) (s\<lparr>ar_writer := Copying chunk\<rparr>)"
    and "cb_state (ar_buffer s) = Discarded \<Longrightarrow> audio_inv (es @ [Offered chunk]) s"
  using assms by (cases "cb_state (ar_buffer s)";
      auto simp: audio_invs delivering_def in_writer_def prefix_more append.assoc [symmetric] simp del: append.assoc split: releaser.splits)+

lemma audio_inv_write:
  assumes "audio_inv es s" "ar_writer s = Copying rest"
  shows "buffer_write rest (ar_buffer s) = Copies n b \<Longrightarrow>
      audio_inv (es @ [Copied (take n rest)]) (s\<lparr>ar_buffer := b, ar_writer := rest_of n rest\<rparr>)"
    and "buffer_write rest (ar_buffer s) = Refuses e \<Longrightarrow> audio_inv (es @ [Quiet]) (s\<lparr>ar_writer := Idle\<rparr>)"
    and "buffer_write rest (ar_buffer s) = Passes \<Longrightarrow> audio_inv (es @ [Quiet]) (s\<lparr>ar_writer := Delivering rest\<rparr>)"
  using assms by (cases "cb_state (ar_buffer s)";
      auto simp: audio_invs buffer_ops rest_of_def delivering_def in_writer_def split: if_splits releaser.splits)+

lemma audio_inv_pass:
  assumes "audio_inv es s" "ar_writer s = Delivering rest"
  shows "\<not> ar_ended s \<Longrightarrow> audio_inv (es @ [Heard rest]) (s\<lparr>ar_writer := Idle\<rparr>)"
    and "ar_ended s \<Longrightarrow> audio_inv (es @ [Quiet]) (s\<lparr>ar_writer := Idle\<rparr>)"
  using assms by (cases "cb_state (ar_buffer s)";
      auto simp: audio_invs delivering_def in_writer_def split: releaser.splits)+

lemma audio_inv_end: "audio_inv es s \<Longrightarrow> audio_inv (es @ [Quiet]) (s\<lparr>ar_ended := True\<rparr>)"
  by (cases "cb_state (ar_buffer s)") (auto simp: audio_invs split: releaser.splits)

lemma audio_inv_begin:
  assumes "audio_inv es s" "ar_releaser s = Before" "release_begin (ar_buffer s) = Inr b"
  shows "audio_inv (es @ [Quiet]) (s\<lparr>ar_buffer := b, ar_releaser := Turning\<rparr>)"
  using assms by (cases "cb_state (ar_buffer s)") (auto simp: audio_invs buffer_ops run_facts)

lemma audio_inv_turn:
  assumes "audio_inv es s" "ar_releaser s = Turning"
  shows "buffer_release ended (ar_buffer s) = Delivers a b \<Longrightarrow>
      audio_inv (es @ [Quiet]) (s\<lparr>ar_buffer := b, ar_releaser := Calling a\<rparr>)"
    and "buffer_release ended (ar_buffer s) = Returns e b \<Longrightarrow>
      audio_inv (es @ [Quiet]) (s\<lparr>ar_buffer := b, ar_releaser := After\<rparr>)"
  using assms by (cases "cb_state (ar_buffer s)";
      auto simp: audio_invs buffer_ops run_facts split: option.splits if_splits)+

lemma audio_inv_hear:
  assumes "audio_inv es s" "ar_releaser s = Calling a"
  shows "audio_inv (es @ [Heard (cb_arrays (ar_buffer s) ! a)]) (s\<lparr>ar_releaser := Called a\<rparr>)"
  using assms by (cases "cb_state (ar_buffer s)") (auto simp: audio_invs run_facts nth_wiped)

lemma audio_inv_delivered:
  assumes "audio_inv es s" "ar_releaser s = Called a" "release_delivered failed a (ar_buffer s) = (e, b)"
  shows "audio_inv (es @ [Quiet]) (s\<lparr>ar_buffer := b, ar_releaser := (if e = None then Turning else After)\<rparr>)"
  using assms by (cases "cb_state (ar_buffer s)")
    (auto simp: audio_invs buffer_ops run_facts split: option.splits)

lemma audio_inv_quiet: "audio_inv (es @ [Quiet]) s \<longleftrightarrow> audio_inv es s"
  by (simp add: audio_invs cong: buffer_state.case_cong releaser.case_cong)

lemma audio_inv_step:
  assumes inv: "audio_inv es s" and step: "audio_step s e s'"
  shows "audio_inv (es @ [e]) s'"
  using step
proof (cases rule: audio_step.cases)
  case (offers_malformed chunk)
  have "cb_state (discard (Some SpeculativeAudioChunk) (ar_buffer s)) = Discarded"
    by (auto simp: buffer_ops)
  then show ?thesis
    using audio_inv_offer(2) [OF audio_inv_discard [OF inv, of "Some SpeculativeAudioChunk"]] offers_malformed by simp
next
  case (discards reason)
  then show ?thesis using audio_inv_discard [OF inv, of reason] by (simp add: audio_inv_quiet)
next
  case (delivered a failed err b)
  then show ?thesis using audio_inv_delivered [OF inv, of a failed err b] by simp
qed (auto intro: inv audio_inv_offer audio_inv_write audio_inv_pass audio_inv_end audio_inv_begin audio_inv_turn audio_inv_hear)

lemma audio_inv_run: "run_of audio_step s es s' \<Longrightarrow> s = new_audio_run \<Longrightarrow> audio_inv es s'"
  by (induction rule: run_of.induct) (auto intro: audio_inv_new audio_inv_step)

text \<open>
  What is on its way: the array the release has called \<open>deliver\<close> with, or the chunk that \<open>write\<close> found the buffer
  live for and is about to pass on.\<close>

definition on_the_way :: "audio_run \<Rightarrow> string list" where
  "on_the_way s =
     (case ar_releaser s of Calling a \<Rightarrow> [cb_arrays (ar_buffer s) ! a] | _ \<Rightarrow> [])
     @ (case ar_writer s of Delivering r \<Rightarrow> [r] | _ \<Rightarrow> [])"

lemma discarded_step:
  "audio_step s e s' \<Longrightarrow> cb_state (ar_buffer s) = Discarded \<Longrightarrow> length (on_the_way s) \<le> 1 \<Longrightarrow>
     cb_state (ar_buffer s') = Discarded
     \<and> (heard [e] = [] \<and> on_the_way s' = [] \<or> heard [e] @ on_the_way s' = on_the_way s)"
  by (erule audio_stepE; auto simp: on_the_way_def buffer_ops rest_of_def split: option.splits releaser.splits writer.splits)

lemma discarded_run:
  "run_of audio_step s fs s' \<Longrightarrow> cb_state (ar_buffer s) = Discarded \<Longrightarrow> length (on_the_way s) \<le> 1 \<Longrightarrow>
     cb_state (ar_buffer s') = Discarded
     \<and> (heard fs = [] \<and> on_the_way s' = [] \<or> heard fs @ on_the_way s' = on_the_way s)"
proof (induction rule: run_of.induct)
  case (snoc s es s' e s'')
  have IH: "cb_state (ar_buffer s') = Discarded" "heard es = [] \<and> on_the_way s' = [] \<or> heard es @ on_the_way s' = on_the_way s"
    using snoc.IH snoc.prems by auto
  have "length (heard es) + length (on_the_way s') \<le> 1"
    using IH(2) snoc.prems(2) by (metis add_0 length_append list.size(3) zero_le_one)
  then have "length (on_the_way s') \<le> 1" "heard es = [] \<or> on_the_way s' = []" by (cases "heard es"; simp)+
  then show ?case using discarded_step [OF snoc.hyps(2) IH(1)] IH(2) by auto
qed simp

lemma discarded_on_the_way:
  "audio_inv es s \<Longrightarrow> cb_state (ar_buffer s) = Discarded \<Longrightarrow>
     length (on_the_way s) \<le> 1 \<and> (ar_releaser s = Before \<longrightarrow> on_the_way s = [])"
  by (auto simp: audio_invs on_the_way_def delivering_def split: releaser.splits writer.splits)

lemma discarded_write_returns: "cb_state b = Discarded \<Longrightarrow> buffer_write rest b = Refuses (discard_cause b)"
  by (simp add: buffer_write_def)

lemma zeros_only: "set (concat (wiped (length cs) cs)) \<subseteq> {CHR 0x00}"
  by (auto simp: wiped_def zeros_def)

lemma length_concat_wiped: "length (concat (wiped i cs)) = length (concat cs)"
proof -
  have "map length (wiped i cs) = map length cs"
    by (rule nth_equalityI) (auto simp: nth_wiped zeros_def)
  then show ?thesis by (simp add: length_concat)
qed

lemma arrays_bounded: "audio_inv es s \<Longrightarrow> length (concat (cb_arrays (ar_buffer s))) \<le> max_buffer_bytes"
proof -
  assume inv: "audio_inv es s"
  have "map length (cb_arrays (ar_buffer s)) = map length (copied es)"
    using inv by (intro nth_equalityI)
      (auto simp: audio_invs nth_wiped nth_list_update zeros_def split: buffer_state.splits releaser.splits)
  then show ?thesis using inv by (simp add: length_concat audio_inv_def)
qed

lemma arrays_cleared:
  assumes inv: "audio_inv es s"
    and over: "ar_releaser s = After \<or> ar_releaser s = Before \<and> cb_state (ar_buffer s) = Discarded"
  shows "set (concat (cb_arrays (ar_buffer s))) \<subseteq> {CHR 0x00}"
proof -
  have "cb_arrays (ar_buffer s) = wiped (length (copied es)) (copied es)"
    using inv over by (cases "cb_state (ar_buffer s)") (auto simp: audio_invs)
  then show ?thesis by (simp only: zeros_only)
qed

lemma heard_in_order:
  "audio_inv es s \<Longrightarrow> prefix (concat (heard es)) (concat (offered es)) \<and> (heard es = [] \<or> ar_releaser s \<noteq> Before)"
  by (cases "cb_state (ar_buffer s)") (auto simp: audio_invs run_facts split: releaser.splits)

section \<open>Properties\<close>

text \<open>
  C19. In every interleaving of the writer, the release and any number of discards, the listener hears a
  prefix of the speech as the provider wrote it, byte for byte and in order, and nothing before the
  release has begun.\<close>

theorem released_audio_in_order:
  "{(es, s). audio_runs es s}
     \<subseteq> {(es, s). prefix (concat (heard es)) (concat (offered es)) \<and> (if ar_releaser s = Before then heard es = [] else True)}"
proof -
  have "prefix (concat (heard es)) (concat (offered es)) \<and> (if ar_releaser s = Before then heard es = [] else True)"
    if "audio_runs es s" for es s
    using heard_in_order [OF audio_inv_run [OF that refl]] by auto
  then show ?thesis by blast
qed

text \<open>
  C33. A discard silences the buffer. From any point of any run at which the buffer is discarded, all that
  is ever heard is what was on its way at that point: at most one chunk, for which the release had called
  \<open>deliver\<close>, with its bytes untouched, or for which \<open>write\<close> had found the buffer live. Where nothing was on its
  way nothing is heard, no delivery starts after the discard, and nothing was on its way before a release
  had begun.\<close>

theorem discard_silences:
  "{(s, fs). (\<exists>es. audio_runs es s) \<and> cb_state (ar_buffer s) = Discarded \<and> (\<exists>s'. run_of audio_step s fs s')}
     \<subseteq> {(s, fs). prefix (heard fs) (on_the_way s) \<and> length (on_the_way s) \<le> 1
          \<and> (if ar_releaser s = Before then on_the_way s = [] else True)}"
proof clarify
  fix s fs es s'
  assume "audio_runs es s" and discarded: "cb_state (ar_buffer s) = Discarded" and run: "run_of audio_step s fs s'"
  then have way: "length (on_the_way s) \<le> 1 \<and> (ar_releaser s = Before \<longrightarrow> on_the_way s = [])"
    using discarded_on_the_way [OF audio_inv_run] by blast
  then show "prefix (heard fs) (on_the_way s) \<and> length (on_the_way s) \<le> 1
      \<and> (if ar_releaser s = Before then on_the_way s = [] else True)"
    using discarded_run [OF run discarded] by (metis prefixI Nil_prefix)
qed

text \<open>
  The buffer never holds more than 100 ms of speech, and what it held is overwritten with zeros
  when the release is over or the buffer is discarded before one.\<close>

theorem private_audio_bounded_and_cleared:
  "{s. \<exists>es. audio_runs es s}
     \<subseteq> {s. cb_buffered (ar_buffer s) \<le> max_buffer_bytes \<and> length (concat (cb_arrays (ar_buffer s))) \<le> max_buffer_bytes
          \<and> (if ar_releaser s = After \<or> ar_releaser s = Before \<and> cb_state (ar_buffer s) = Discarded
             then set (concat (cb_arrays (ar_buffer s))) \<subseteq> {CHR 0x00} else True)}"
proof clarify
  fix s es
  assume "audio_runs es s"
  then have inv: "audio_inv es s" using audio_inv_run by blast
  have "cb_buffered (ar_buffer s) \<le> max_buffer_bytes"
    using inv by (cases "cb_state (ar_buffer s)") (auto simp: audio_invs)
  then show "cb_buffered (ar_buffer s) \<le> max_buffer_bytes \<and> length (concat (cb_arrays (ar_buffer s))) \<le> max_buffer_bytes
      \<and> (if ar_releaser s = After \<or> ar_releaser s = Before \<and> cb_state (ar_buffer s) = Discarded
         then set (concat (cb_arrays (ar_buffer s))) \<subseteq> {CHR 0x00} else True)"
    using arrays_bounded [OF inv] arrays_cleared [OF inv] by auto
qed

end
