(* ===== verification/VoiceTurn.thy ===== *)
theory VoiceTurn
  imports CoachPolicy AsrRisk
begin

text \<open>
  One turn of the staged voice flow (\<open>internal/voiceflow/voiceflow.go\<close>), from the audio to the reply
  that may be spoken, with the strict boundary of \<open>internal/privacyguard/strict.go\<close>.

  \<^item> \<open>prepare_turn\<close> recognises the audio; \<open>prepare_recognized_turn\<close> takes a transcript through the
    recognition risk, the strict boundary and the agent. Both give the turns the agent was called with beside
    the result, since what the agent is asked is part of what is claimed.
  \<^item> The candidate tracker decides when a transcript that may still change is worth a speculative run, and
    the functions around it when the outcome of that run may stand for the committed turn.
  \<^item> \<open>flow_env\<close> holds what the pipeline is built from: the speech service and the agent (interfaces in the
    source), the risk controller, the inspector, and Unicode's normal form, format controls and lower case.
    \<open>HasHighConfidenceFinding\<close>, a list of patterns for personal data, is the argument \<open>fe_finding\<close>.

  The records keep the fields that this code reads or writes. Errors of contexts and the time that is left until a
  deadline are arguments. Logging has no state.
\<close>

section \<open>Inputs and results\<close>

record voice_input =
  vi_audio :: string
  vi_baseline :: string
  vi_weak :: string
  vi_mime :: string
  vi_state :: string
  vi_request :: string
  vi_ambient :: bool
  vi_foreground :: bool
  vi_document :: "string option"
  vi_strict :: bool
  vi_guest :: bool
  vi_memory :: "payload option"
  vi_memory_generation :: int
  vi_commit_signal :: bool

record research_record =
  rs_title :: string
  rs_doi :: string
  rs_url :: string
  rs_published :: string
  rs_source :: string

record turn_decision =
  td_domain :: string
  td_target :: string
  td_stage :: string
  td_phase :: string
  td_action :: string
  td_proof :: answer_proof
  td_transition :: "transition_proof option"
  td_proof_candidate :: answer_proof
  td_transition_candidate :: "transition_proof option"
  td_research_status :: string
  td_records :: "research_record list"
  td_reply :: string
  td_act :: string
  td_route :: string
  td_state :: string

datatype guest_outcome = NoVerifiedChange | ChangedToAnswerFirst | StayedAnswerFirst

record voice_result =
  vr_state :: string
  vr_domain :: string
  vr_target :: string
  vr_stage :: string
  vr_phase :: string
  vr_action :: string
  vr_proof :: answer_proof
  vr_transition :: "transition_proof option"
  vr_guest :: "guest_outcome option"
  vr_research_status :: string
  vr_privacy :: string
  vr_records :: "research_record list"
  vr_route :: string
  vr_needs_paper :: bool

text \<open>The zero value; a proof that is the empty string is \<open>AnswerProofOther []\<close> or \<open>None\<close>.\<close>

definition empty_result :: voice_result where
  "empty_result =
     \<lparr>vr_state = [], vr_domain = [], vr_target = [], vr_stage = [], vr_phase = [], vr_action = [],
      vr_proof = AnswerProofOther [], vr_transition = None, vr_guest = None, vr_research_status = [], vr_privacy = [],
      vr_records = [], vr_route = [], vr_needs_paper = False\<rparr>"

datatype pipeline_stage = StageTranscribe | StageConversation | StageSynthesize
datatype flow_error = VoiceStateInvalid | PipelineFailure pipeline_stage

datatype recognition_error = NoSpeech | PhraseSetUnresolved | PairedUnresolved | RecognitionFailed

type_synonym recognition = "(recognition_error, string \<times> f64) result"
type_synonym agent_call = "voice_turn \<Rightarrow> (conv_error, turn_decision) result"

datatype inspection_status = InspectionUnknown | InspectionClear | InspectionFinding

text \<open>\<open>fe_bound\<close> is the recogniser with the question's phrases, where the agent issues the capability for this
  user, state and request, and the phrases make a set.\<close>

record flow_env =
  fe_transcribe :: "string \<Rightarrow> recognition"
  fe_bound :: "string \<Rightarrow> string \<Rightarrow> string \<Rightarrow> (string \<Rightarrow> recognition) option"
  fe_pcm :: "(string \<Rightarrow> recognition) option"
  fe_paired :: "(string \<Rightarrow> string \<Rightarrow> string \<Rightarrow> recognition) option"
  fe_valid_state :: "string \<Rightarrow> string \<Rightarrow> bool"
  fe_risk :: controller
  fe_finding :: "string \<Rightarrow> bool"
  fe_inspect :: "(string \<Rightarrow> inspection_status option) option"
  fe_nfkc :: "string \<Rightarrow> string"
  fe_format_control :: "nat \<Rightarrow> bool"
  fe_lower :: "string \<Rightarrow> string"

definition extendedSpeechMinRunes :: nat where "extendedSpeechMinRunes = 160"
definition minSpeculativeCandidateRunes :: nat where "minSpeculativeCandidateRunes = 8"
definition minSpeculativeStableDuration :: duration where "minSpeculativeStableDuration = 160000000"
definition voiceResponseReserve :: duration where "voiceResponseReserve = 10 * second"
definition voiceSynthesisReserve :: duration where "voiceSynthesisReserve = 5 * second"
definition strictInspectionTimeout :: duration where "strictInspectionTimeout = 1500000000"

definition routeClarifyNoSpeech :: string where "routeClarifyNoSpeech = ''stt-clarify-no-speech''"
definition routeClarifyLowConfidence :: string where "routeClarifyLowConfidence = ''stt-clarify-low-confidence''"
definition routeSilentNoSpeech :: string where "routeSilentNoSpeech = ''stt-silent-no-speech''"
definition routeSilentLowConfidence :: string where "routeSilentLowConfidence = ''stt-silent-low-confidence''"
definition routeStrictPrivacyBlocked :: string where "routeStrictPrivacyBlocked = ''strict-privacy-blocked''"
definition routeRuntimeDocumentRejected :: string where "routeRuntimeDocumentRejected = ''runtime-document-rejected''"
definition lowConfidencePrompt :: string where
  "lowConfidencePrompt = utf8_encode [0x6025, 0x304C, 0x306A, 0x304F, 0x3066, 0x5927, 0x4E08, 0x592B, 0x3067, 0x3059, 0x3002, 0x3053, 0x3061, 0x3089, 0x304B, 0x3089, 0x5C0F, 0x3055, 0x306A, 0x8A71, 0x984C, 0x3092, 0x4E00, 0x3064, 0x7F6E, 0x304D, 0x307E, 0x3059, 0x3002, 0x97F3, 0x304C, 0x306A, 0x3044, 0x6642, 0x9593, 0x3068, 0x3001, 0x4F55, 0x304B, 0x6D41, 0x308C, 0x3066, 0x3044, 0x308B, 0x6642, 0x9593, 0x3067, 0x306F, 0x3001, 0x3069, 0x3061, 0x3089, 0x304C, 0x5C11, 0x3057, 0x697D, 0x3067, 0x3059, 0x304B, 0x3002, 0x7B54, 0x3048, 0x306F, 0x4E00, 0x8A9E, 0x3067, 0x3082, 0x3001, 0x805E, 0x3044, 0x3066, 0x3044, 0x308B, 0x3060, 0x3051, 0x3067, 0x3082, 0x5927, 0x4E08, 0x592B, 0x3067, 0x3059, 0x3002]"

section \<open>The strict boundary\<close>

definition strict_canonical_text :: "flow_env \<Rightarrow> string \<Rightarrow> string" where
  "strict_canonical_text E t =
     rune_text (filter (\<lambda>c. \<not> fe_format_control E (fst c)) (chunks (fe_nfkc E t)))"

definition research_signals :: "string list" where
  "research_signals = [utf8_encode [0x63, 0x72, 0x6F, 0x73, 0x73, 0x72, 0x65, 0x66],
      utf8_encode [0x30AF, 0x30ED, 0x30B9, 0x30EC, 0x30D5],
      utf8_encode [0x64, 0x6F, 0x69],
      utf8_encode [0x8AD6, 0x6587],
      utf8_encode [0x30D7, 0x30EC, 0x30D7, 0x30EA, 0x30F3, 0x30C8],
      utf8_encode [0x7814, 0x7A76, 0x3092],
      utf8_encode [0x7814, 0x7A76, 0x3057, 0x3066],
      utf8_encode [0x6587, 0x732E],
      utf8_encode [0x5916, 0x90E8, 0x691C, 0x7D22],
      utf8_encode [0x30A6, 0x30A7, 0x30D6, 0x691C, 0x7D22],
      utf8_encode [0x77, 0x65, 0x62, 0x691C, 0x7D22],
      utf8_encode [0x6700, 0x65B0, 0x6280, 0x8853, 0x3092, 0x8ABF, 0x3079],
      utf8_encode [0x73, 0x65, 0x61, 0x72, 0x63, 0x68, 0x20, 0x74, 0x68, 0x65, 0x20, 0x77, 0x65, 0x62],
      utf8_encode [0x73, 0x65, 0x61, 0x72, 0x63, 0x68, 0x20, 0x6F, 0x6E, 0x6C, 0x69, 0x6E, 0x65],
      utf8_encode [0x6C, 0x6F, 0x6F, 0x6B, 0x20, 0x75, 0x70, 0x20, 0x6F, 0x6E, 0x6C, 0x69, 0x6E, 0x65],
      utf8_encode [0x66, 0x69, 0x6E, 0x64, 0x20, 0x70, 0x61, 0x70, 0x65, 0x72, 0x73],
      utf8_encode [0x66, 0x69, 0x6E, 0x64, 0x20, 0x61, 0x20, 0x70, 0x61, 0x70, 0x65, 0x72],
      utf8_encode [0x6C, 0x61, 0x74, 0x65, 0x73, 0x74, 0x20, 0x70, 0x61, 0x70, 0x65, 0x72, 0x73],
      utf8_encode [0x72, 0x65, 0x63, 0x65, 0x6E, 0x74, 0x20, 0x70, 0x61, 0x70, 0x65, 0x72, 0x73],
      utf8_encode [0x6C, 0x61, 0x74, 0x65, 0x73, 0x74, 0x20, 0x73, 0x74, 0x75, 0x64, 0x69, 0x65, 0x73],
      utf8_encode [0x72, 0x65, 0x63, 0x65, 0x6E, 0x74, 0x20, 0x73, 0x74, 0x75, 0x64, 0x69, 0x65, 0x73],
      utf8_encode [0x6C, 0x69, 0x74, 0x65, 0x72, 0x61, 0x74, 0x75, 0x72, 0x65, 0x20, 0x73, 0x65, 0x61, 0x72, 0x63, 0x68],
      utf8_encode [0x72, 0x65, 0x73, 0x65, 0x61, 0x72, 0x63, 0x68, 0x20, 0x6F, 0x6E, 0x6C, 0x69, 0x6E, 0x65],
      utf8_encode [0x75, 0x73, 0x65, 0x20, 0x63, 0x72, 0x6F, 0x73, 0x73, 0x72, 0x65, 0x66]]"

definition is_research_request :: "flow_env \<Rightarrow> string \<Rightarrow> bool" where
  "is_research_request E t \<longleftrightarrow>
     list_ex (contains (fe_lower E (strict_canonical_text E t))) research_signals"

text \<open>\<open>Check\<close>: \<open>None\<close> from the inspector is an error or the end of its context.\<close>

definition strict_check :: "flow_env \<Rightarrow> string \<Rightarrow> bool" where
  "strict_check E t \<longleftrightarrow>
     (case fe_inspect E of
        None \<Rightarrow> False
      | Some inspect \<Rightarrow> \<not> fe_finding E t \<and> inspect t = Some InspectionClear)"

section \<open>What the input says\<close>

definition voice_response_expected :: "voice_input \<Rightarrow> bool" where
  "voice_response_expected i \<longleftrightarrow> \<not> vi_ambient i \<or> vi_foreground i"

definition prompt_on_recognition_miss :: "voice_input \<Rightarrow> bool" where
  "prompt_on_recognition_miss i \<longleftrightarrow> \<not> vi_ambient i"

definition passive_ambient_voice_input :: "voice_input \<Rightarrow> bool" where
  "passive_ambient_voice_input i \<longleftrightarrow> vi_ambient i \<and> \<not> vi_foreground i"

definition strict_input_blocked :: "voice_input \<Rightarrow> bool" where
  "strict_input_blocked i \<longleftrightarrow> vi_strict i \<and> (vi_state i \<noteq> [] \<or> vi_document i \<noteq> None)"

definition plain_result :: "string \<Rightarrow> voice_result" where
  "plain_result route =
     empty_result\<lparr>vr_domain := ''unknown'', vr_target := ''assistant'', vr_stage := ''none'', vr_phase := ''none'',
                  vr_action := ''none'', vr_research_status := ''none'', vr_route := route\<rparr>"

definition strict_privacy_blocked_result :: voice_result where
  "strict_privacy_blocked_result = (plain_result routeStrictPrivacyBlocked)\<lparr>vr_privacy := ''blocked''\<rparr>"

definition runtime_document_rejected_result :: voice_result where
  "runtime_document_rejected_result = (plain_result routeRuntimeDocumentRejected)\<lparr>vr_privacy := ''blocked''\<rparr>"

definition with_strict_privacy_status :: "voice_input \<Rightarrow> voice_result \<Rightarrow> voice_result" where
  "with_strict_privacy_status i r =
     (if vi_strict i \<and> vr_privacy r = [] then r\<lparr>vr_privacy := ''clear'', vr_state := []\<rparr> else r)"

definition authenticated_state_token :: "flow_env \<Rightarrow> string \<Rightarrow> string \<Rightarrow> string" where
  "authenticated_state_token E uid token = (if token = [] \<or> \<not> fe_valid_state E uid token then [] else token)"

definition silent_recognition_result :: "flow_env \<Rightarrow> string \<Rightarrow> string \<Rightarrow> string \<Rightarrow> voice_result" where
  "silent_recognition_result E uid token route = (plain_result route)\<lparr>vr_state := authenticated_state_token E uid token\<rparr>"

definition transcript_risk_decision :: "flow_env \<Rightarrow> f64 \<Rightarrow> bool \<Rightarrow> bool \<Rightarrow> risk_result" where
  "transcript_risk_decision E c observed native =
     decide_risk (fe_risk E) \<lparr>ev_confidence = c, ev_observed = observed, ev_native = native\<rparr>"

definition transcript_confidence_too_low :: "f64 \<Rightarrow> bool" where
  "transcript_confidence_too_low c \<longleftrightarrow>
     rr_decision (decide_risk new_bootstrap_controller
       \<lparr>ev_confidence = c, ev_observed = \<not> feq c (Fin 0), ev_native = False\<rparr>) \<noteq> Accept"

section \<open>The agent's turn and its decision\<close>

definition conversation_turn :: "voice_input \<Rightarrow> string \<Rightarrow> bool \<Rightarrow> voice_turn" where
  "conversation_turn i transcript speculative =
     \<lparr>vt_schema = SchemaVersion, vt_utterance = transcript, vt_state_token = vi_state i, vt_memory = vi_memory i,
      vt_memory_generation = vi_memory_generation i, vt_request_id = vi_request i, vt_ambient = vi_ambient i,
      vt_foreground = vi_foreground i,
      vt_extended = (\<not> speculative \<and> rune_count transcript \<ge> extendedSpeechMinRunes),
      vt_guest = vi_guest i, vt_speculative = speculative,
      vt_origin = (if speculative then InputOriginProvisionalVoice else InputOriginCommittedVoice),
      vt_cancelable = vi_commit_signal i,
      vt_floor = (if speculative \<and> vi_commit_signal i then FloorEvidenceProvisionalCommitGate else FloorEvidenceUnknown),
      vt_research_disabled = vi_strict i, vt_pdf = None\<rparr>"

definition floor_evidence_for_hybrid_commit :: "bool \<Rightarrow> floor_evidence" where
  "floor_evidence_for_hybrid_commit committed = (if committed then FloorEvidenceHybridCommitted else FloorEvidenceUnknown)"

definition voice_result_from_decision :: "voice_input \<Rightarrow> turn_decision \<Rightarrow> voice_result" where
  "voice_result_from_decision i d =
     (let outcome =
        (if \<not> vi_guest i then NoVerifiedChange
         else if td_transition d = Some AnswerTransitionProofQuestionBoundInputClauseLaterToFirst then ChangedToAnswerFirst
         else if td_proof d = AnswerProofQuestionBoundInputAnswerFirst then StayedAnswerFirst
         else NoVerifiedChange) in
      \<lparr>vr_state = td_state d, vr_domain = td_domain d, vr_target = td_target d, vr_stage = td_stage d,
       vr_phase = td_phase d, vr_action = td_action d, vr_proof = td_proof d, vr_transition = td_transition d,
       vr_guest = Some outcome, vr_research_status = td_research_status d, vr_privacy = [], vr_records = td_records d,
       vr_route = td_route d, vr_needs_paper = (td_act d = ''paper_check'')\<rparr>)"

definition committed_speculative_answer_proof :: "voice_input \<Rightarrow> turn_decision \<Rightarrow> answer_proof" where
  "committed_speculative_answer_proof i d =
     (if vi_strict i \<or> vi_document i \<noteq> None \<or> td_proof d \<noteq> AnswerProofOther [] \<and> td_proof d \<noteq> AnswerProofNone
      then AnswerProofNone
      else if td_proof_candidate d \<noteq> AnswerProofQuestionBoundInputAnswerFirst then AnswerProofNone
      else td_proof_candidate d)"

definition committed_speculative_transition_proof :: "voice_input \<Rightarrow> turn_decision \<Rightarrow> transition_proof option" where
  "committed_speculative_transition_proof i d =
     (if vi_strict i \<or> vi_document i \<noteq> None
        \<or> td_transition d \<noteq> None \<and> td_transition d \<noteq> Some AnswerTransitionProofNone
        \<or> td_proof_candidate d \<noteq> AnswerProofQuestionBoundInputAnswerFirst
        \<or> td_transition_candidate d \<noteq> Some AnswerTransitionProofQuestionBoundInputClauseLaterToFirst
      then Some AnswerTransitionProofNone
      else td_transition_candidate d)"

definition terminal_speech_conflict :: "turn_decision \<Rightarrow> bool" where
  "terminal_speech_conflict d \<longleftrightarrow>
     (if td_reply d = []
        \<or> td_proof d \<noteq> AnswerProofQuestionBoundInputAnswerFirst
          \<and> td_proof_candidate d \<noteq> AnswerProofQuestionBoundInputAnswerFirst
      then False
      else td_phase d = ''complete'' \<and> td_action d = ''complete'')"

section \<open>Budgets\<close>

text \<open>What is left until a deadline once a reserve is kept: \<open>None\<close> if nothing; \<open>Some None\<close> without a
  deadline.\<close>

definition transcription_budget :: "duration \<Rightarrow> duration option \<Rightarrow> duration option option" where
  "transcription_budget reserve left =
     (if reserve \<le> 0 then None
      else case left of
        None \<Rightarrow> Some None
      | Some l \<Rightarrow> if l - reserve \<le> 0 then None else Some (Some (l - reserve)))"

definition context_with_reserve :: "duration \<Rightarrow> duration option \<Rightarrow> duration option option" where
  "context_with_reserve reserve left =
     (if reserve < 0 then None
      else case left of
        None \<Rightarrow> Some None
      | Some l \<Rightarrow> if l - reserve \<le> 0 then None else Some (Some (l - reserve)))"

definition pre_inference_reserve :: "voice_input \<Rightarrow> duration" where
  "pre_inference_reserve i = (if vi_strict i then voiceResponseReserve + 2 * strictInspectionTimeout else voiceResponseReserve)"

section \<open>A recognised turn\<close>

text \<open>What depends on the moment: whether the context has ended after the first call of the agent, and the
  time left until the deadline when the reply is to be inspected.\<close>

record moment =
  mo_ended :: bool
  mo_left :: "duration option"

definition recognition_miss :: "flow_env \<Rightarrow> string \<Rightarrow> voice_input \<Rightarrow> string \<Rightarrow> string \<Rightarrow> voice_result \<times> string" where
  "recognition_miss E uid i silent clarify =
     (if \<not> prompt_on_recognition_miss i then (silent_recognition_result E uid (vi_state i) silent, [])
      else (silent_recognition_result E uid (vi_state i) clarify, lowConfidencePrompt))"

text \<open>The agent, called again with an empty state when the state has expired.\<close>

definition call_agent :: "agent_call \<Rightarrow> moment \<Rightarrow> voice_input \<Rightarrow> string \<Rightarrow> floor_evidence
    \<Rightarrow> voice_turn list \<times> (conv_error, turn_decision) result" where
  "call_agent agent w i transcript authority =
     (let turn = (conversation_turn i transcript False)\<lparr>vt_floor := authority\<rparr> in
      case agent turn of
        Inl ErrExpiredStateToken \<Rightarrow>
          if vi_state i \<noteq> [] \<and> vi_document i = None \<and> \<not> mo_ended w
          then (let again = (conversation_turn (i\<lparr>vi_state := []\<rparr>) transcript False)\<lparr>vt_floor := authority\<rparr> in
                ([turn, again], agent again))
          else ([turn], Inl ErrExpiredStateToken)
      | r \<Rightarrow> ([turn], r))"

definition strict_reply_blocked :: "flow_env \<Rightarrow> moment \<Rightarrow> turn_decision \<Rightarrow> bool" where
  "strict_reply_blocked E w d \<longleftrightarrow>
     td_research_status d \<noteq> ''none'' \<or> length (td_records d) \<noteq> 0
     \<or> td_reply d \<noteq> []
       \<and> (context_with_reserve voiceSynthesisReserve (mo_left w) = None \<or> \<not> strict_check E (td_reply d))"

definition publish_decision :: "flow_env \<Rightarrow> moment \<Rightarrow> voice_input \<Rightarrow> turn_decision \<Rightarrow> voice_result \<times> string" where
  "publish_decision E w i d =
     (if vi_strict i \<and> strict_reply_blocked E w d then (strict_privacy_blocked_result, [])
      else
        (let d = (if vi_strict i then d\<lparr>td_state := []\<rparr> else d);
             r = voice_result_from_decision i d;
             r = (if vi_strict i then r\<lparr>vr_privacy := ''clear''\<rparr> else r) in
         (r, td_reply d)))"

definition prepare_recognized_turn :: "flow_env \<Rightarrow> agent_call \<Rightarrow> moment \<Rightarrow> string \<Rightarrow> voice_input \<Rightarrow> string \<Rightarrow> f64 \<Rightarrow> bool \<Rightarrow> bool
    \<Rightarrow> floor_evidence \<Rightarrow> voice_turn list \<times> (flow_error, voice_result \<times> string) result" where
  "prepare_recognized_turn E agent w uid i transcript confidence observed native authority =
     (if vi_strict i \<and> (\<not> strict_check E transcript \<or> is_research_request E transcript)
      then ([], Inr (strict_privacy_blocked_result, []))
      else if rr_decision (transcript_risk_decision E confidence observed native) \<noteq> Accept
      then ([], Inr (recognition_miss E uid i routeSilentLowConfidence routeClarifyLowConfidence))
      else
        (case call_agent agent w i transcript authority of
           (calls, Inl e) \<Rightarrow>
             (calls, Inl (if e = ErrInvalidStateToken \<or> e = ErrExpiredStateToken \<or> e = ErrInvalidTurn
                          then VoiceStateInvalid else PipelineFailure StageConversation))
         | (calls, Inr d) \<Rightarrow>
             (calls, if terminal_speech_conflict d then Inl (PipelineFailure StageConversation)
                     else Inr (publish_decision E w i d))))"

section \<open>Recognition\<close>

definition transcribe_buffered :: "flow_env \<Rightarrow> string \<Rightarrow> voice_input \<Rightarrow> recognition" where
  "transcribe_buffered E uid i =
     (if vi_state i = [] \<or> vi_request i = [] \<or> vi_strict i \<or> vi_document i \<noteq> None then fe_transcribe E (vi_audio i)
      else case fe_bound E uid (vi_state i) (vi_request i) of
        None \<Rightarrow> fe_transcribe E (vi_audio i)
      | Some bound \<Rightarrow> bound (vi_audio i))"

definition recognize :: "flow_env \<Rightarrow> string \<Rightarrow> voice_input \<Rightarrow> recognition" where
  "recognize E uid i =
     (if vi_mime i = ''audio/l16'' then
        (if length (vi_baseline i) > 0 \<or> length (vi_weak i) > 0 then
           (if length (vi_baseline i) = 0 \<or> length (vi_weak i) = 0 then Inl RecognitionFailed
            else case fe_paired E of
              None \<Rightarrow> Inl RecognitionFailed
            | Some paired \<Rightarrow> paired (vi_baseline i) (vi_weak i) (vi_audio i))
         else case fe_pcm E of None \<Rightarrow> Inl RecognitionFailed | Some pcm \<Rightarrow> pcm (vi_audio i))
      else transcribe_buffered E uid i)"

definition recognition_input_format :: "string \<Rightarrow> string" where
  "recognition_input_format mime =
     (if mime = ''audio/l16'' then ''pcm16''
      else if mime = ''audio/webm'' \<or> mime = ''audio/webm;codecs=opus'' then ''webm''
      else if mime = ''audio/mp4'' then ''mp4''
      else ''other'')"

text \<open>\<open>left\<close> is the time to the deadline seen the start, \<open>late\<close> that the recogniser used up its budget while
  the turn itself has not ended.\<close>

definition prepare_turn :: "flow_env \<Rightarrow> agent_call \<Rightarrow> moment \<Rightarrow> duration option \<Rightarrow> bool \<Rightarrow> string \<Rightarrow> voice_input
    \<Rightarrow> voice_turn list \<times> (flow_error, voice_result \<times> string) result" where
  "prepare_turn E agent w left late uid i =
     (if vi_document i \<noteq> None then ([], Inr (runtime_document_rejected_result, []))
      else if strict_input_blocked i then ([], Inr (strict_privacy_blocked_result, []))
      else if transcription_budget (pre_inference_reserve i) left = None then ([], Inl (PipelineFailure StageTranscribe))
      else if late then ([], Inr (recognition_miss E uid i routeSilentNoSpeech routeClarifyNoSpeech))
      else
        (case recognize E uid i of
           Inl e \<Rightarrow>
             ([], if e = NoSpeech \<or> e = PhraseSetUnresolved \<or> e = PairedUnresolved
                  then Inr (recognition_miss E uid i routeSilentNoSpeech routeClarifyNoSpeech)
                  else Inl (PipelineFailure StageTranscribe))
         | Inr (transcript, confidence) \<Rightarrow>
             prepare_recognized_turn E agent w uid i transcript confidence (\<not> feq confidence (Fin 0)) False
               FloorEvidenceUnknown))"

text \<open>\<open>Process\<close>: the result with the audio of its reply, or the failure of the synthesis.\<close>

definition process_voice_turn :: "flow_env \<Rightarrow> agent_call \<Rightarrow> (string \<Rightarrow> (string \<times> string) option) \<Rightarrow> moment \<Rightarrow> duration option \<Rightarrow> bool
    \<Rightarrow> string \<Rightarrow> voice_input \<Rightarrow> (flow_error, voice_result \<times> string \<times> string \<times> string) result" where
  "process_voice_turn E agent synthesize w left late uid i =
     (case snd (prepare_turn E agent w left late uid i) of
        Inl e \<Rightarrow> Inl e
      | Inr (r, reply) \<Rightarrow>
          (let r = with_strict_privacy_status i r in
           if reply = [] then Inr (r, [], [], [])
           else case synthesize reply of
             None \<Rightarrow> Inl (PipelineFailure StageSynthesize)
           | Some (audio, mime) \<Rightarrow> Inr (r, audio, mime, reply)))"

section \<open>Speculation\<close>

record candidate_tracker =
  ct_candidate :: string
  ct_first_seen :: time
  ct_observed :: nat

definition canonical_speculation_text :: "string \<Rightarrow> string" where
  "canonical_speculation_text v = collapse_space v"

definition speculation_preserves_final_metadata :: "string \<Rightarrow> bool" where
  "speculation_preserves_final_metadata v \<longleftrightarrow> rune_count (canonical_speculation_text v) < extendedSpeechMinRunes"

definition speculation_texts_match :: "string \<Rightarrow> string \<Rightarrow> bool" where
  "speculation_texts_match candidate final \<longleftrightarrow> canonical_speculation_text candidate = canonical_speculation_text final"

definition tracker_reset :: candidate_tracker where
  "tracker_reset = \<lparr>ct_candidate = [], ct_first_seen = 0, ct_observed = 0\<rparr>"

definition tracker_observe :: "candidate_tracker \<Rightarrow> string \<Rightarrow> bool \<Rightarrow> time \<Rightarrow> candidate_tracker \<times> (string \<times> bool)" where
  "tracker_observe t raw eligible seen =
     (let c = canonical_speculation_text raw in
      if \<not> eligible \<or> rune_count c < minSpeculativeCandidateRunes then (tracker_reset, [], False)
      else if c \<noteq> ct_candidate t then (\<lparr>ct_candidate = c, ct_first_seen = seen, ct_observed = 1\<rparr>, c, False)
      else
        (let t1 = t\<lparr>ct_observed := Suc (ct_observed t)\<rparr> in
         (t1, c, ct_observed t1 \<ge> 2 \<and> \<not> seen < ct_first_seen t1 \<and> seen - ct_first_seen t1 \<ge> minSpeculativeStableDuration)))"

definition tracker_observe_final :: "candidate_tracker \<Rightarrow> string \<Rightarrow> candidate_tracker \<times> (string \<times> bool)" where
  "tracker_observe_final t raw =
     (let c = canonical_speculation_text raw in
      if c = [] then (tracker_reset, [], False)
      else (\<lparr>ct_candidate = c, ct_first_seen = 0, ct_observed = 1\<rparr>, c, True))"

definition join_transcript :: "string list \<Rightarrow> string \<Rightarrow> string" where
  "join_transcript fragments interim =
     join '' '' (fragments @ (if trim_space interim \<noteq> [] then [interim] else []))"

text \<open>Whether a speculative run starts for a text; \<open>committed\<close> is the state of the commit signal.\<close>

definition speculation_starts :: "voice_input \<Rightarrow> bool \<Rightarrow> string \<Rightarrow> string option" where
  "speculation_starts i committed raw =
     (let c = canonical_speculation_text raw in
      if vi_strict i \<or> vi_document i \<noteq> None \<or> vi_commit_signal i \<and> committed \<or> c = []
         \<or> \<not> speculation_preserves_final_metadata c
      then None else Some c)"

definition revises_speculation :: "string option \<Rightarrow> string \<Rightarrow> bool" where
  "revises_speculation candidate revised \<longleftrightarrow>
     (case candidate of None \<Rightarrow> False | Some c \<Rightarrow> revised \<noteq> [] \<and> \<not> speculation_texts_match c revised)"

definition ordinary_committed_candidate_matches :: "string \<Rightarrow> string \<Rightarrow> voice_result \<Rightarrow> bool" where
  "ordinary_committed_candidate_matches candidate final r \<longleftrightarrow>
     candidate = final \<and> vr_target r = ''assistant'' \<and> vr_stage r = ''none'' \<and> vr_research_status r = ''none''
     \<and> length (vr_records r) = 0 \<and> (vr_phase r = [] \<or> vr_phase r = ''none'') \<and> (vr_action r = [] \<or> vr_action r = ''none'')"

text \<open>The outcome of a speculative run, which is dropped when its reply would talk over an answer.\<close>

definition speculative_outcome :: "agent_call \<Rightarrow> voice_input \<Rightarrow> string \<Rightarrow> turn_decision option" where
  "speculative_outcome agent i candidate =
     (case agent (conversation_turn i candidate True) of
        Inl e \<Rightarrow> None
      | Inr d \<Rightarrow> if terminal_speech_conflict d then None else Some d)"

text \<open>The caption handoff's adoption of that outcome for the final caption.\<close>

definition adopt_speculation :: "voice_input \<Rightarrow> string \<Rightarrow> string \<Rightarrow> turn_decision option \<Rightarrow> (voice_result \<times> string) option" where
  "adopt_speculation i candidate final outcome =
     (if speculation_preserves_final_metadata final \<and> speculation_texts_match candidate final then
        (case outcome of
           None \<Rightarrow> None
         | Some d \<Rightarrow>
             (let d1 = d\<lparr>td_proof := committed_speculative_answer_proof i d\<rparr>;
                  d2 = d1\<lparr>td_transition := committed_speculative_transition_proof i d1\<rparr> in
              Some (voice_result_from_decision i d2, td_reply d)))
      else None)"

section \<open>What a turn publishes\<close>

lemmas turn_defs = prepare_turn_def prepare_recognized_turn_def publish_decision_def recognition_miss_def
  strict_reply_blocked_def strict_input_blocked_def

lemmas fixed_results = strict_privacy_blocked_result_def runtime_document_rejected_result_def silent_recognition_result_def
  plain_result_def empty_result_def

lemma call_agent_calls:
  "call_agent agent w i transcript authority = (calls, res) \<Longrightarrow> t \<in> set calls \<Longrightarrow>
     vt_utterance t = transcript \<and> vt_research_disabled t = vi_strict i \<and> (vi_state i = [] \<longrightarrow> vt_state_token t = [])
     \<and> \<not> vt_speculative t \<and> length calls \<le> 2"
  by (auto simp: call_agent_def conversation_turn_def Let_def split: sum.splits conv_error.splits if_splits)

lemma publish_strict:
  assumes "publish_decision E w i d = (r, reply)" "vi_strict i"
  shows "vr_state r = [] \<and> vr_records r = [] \<and> vr_research_status r = ''none''
      \<and> (reply = [] \<or> strict_check E reply)"
  using assms by (auto simp: publish_decision_def strict_reply_blocked_def voice_result_from_decision_def fixed_results Let_def split: if_splits)

lemma publish_silent:
  assumes "publish_decision E w i d = (r, reply)" "\<not> terminal_speech_conflict d"
  shows "reply = [] \<or> \<not> (vr_proof r = AnswerProofQuestionBoundInputAnswerFirst \<and> vr_phase r = ''complete'' \<and> vr_action r = ''complete'')"
  using assms by (auto simp: publish_decision_def voice_result_from_decision_def terminal_speech_conflict_def Let_def split: if_splits)

lemma recognized_calls:
  "prepare_recognized_turn E agent w uid i transcript confidence observed native authority = (calls, res) \<Longrightarrow> t \<in> set calls \<Longrightarrow>
     vt_utterance t = transcript \<and> vt_research_disabled t = vi_strict i \<and> (vi_state i = [] \<longrightarrow> vt_state_token t = [])
     \<and> (vi_strict i \<longrightarrow> strict_check E transcript \<and> \<not> is_research_request E transcript)"
  by (auto simp: prepare_recognized_turn_def dest: call_agent_calls split: if_splits prod.splits sum.splits)

lemma recognized_result:
  "prepare_recognized_turn E agent w uid i transcript confidence observed native authority = (calls, Inr (r, reply)) \<Longrightarrow>
     r = strict_privacy_blocked_result \<and> reply = []
     \<or> recognition_miss E uid i routeSilentLowConfidence routeClarifyLowConfidence = (r, reply)
     \<or> (\<exists>d. \<not> terminal_speech_conflict d \<and> publish_decision E w i d = (r, reply))"
  by (auto simp: prepare_recognized_turn_def split: if_splits prod.splits sum.splits)

lemma turn_result:
  "prepare_turn E agent w left late uid i = (calls, Inr (r, reply)) \<Longrightarrow>
     (r = strict_privacy_blocked_result \<or> r = runtime_document_rejected_result) \<and> reply = []
     \<or> (\<exists>silent clarify. recognition_miss E uid i silent clarify = (r, reply))
     \<or> (\<exists>d. \<not> terminal_speech_conflict d \<and> publish_decision E w i d = (r, reply))"
  unfolding prepare_turn_def by (auto dest: recognized_result split: if_splits sum.splits)

lemma turn_calls:
  "prepare_turn E agent w left late uid i = (calls, res) \<Longrightarrow> t \<in> set calls \<Longrightarrow>
     vt_research_disabled t = vi_strict i \<and> (vi_strict i \<longrightarrow> vt_state_token t = [] \<and> strict_check E (vt_utterance t)
       \<and> \<not> is_research_request E (vt_utterance t))"
  unfolding prepare_turn_def
  by (auto dest: recognized_calls simp: strict_input_blocked_def split: if_splits sum.splits)

lemma committed_owned:
  "prepare_turn E agent w left late uid i = (calls, Inr (r, reply)) \<Longrightarrow>
     (if vr_proof r = AnswerProofQuestionBoundInputAnswerFirst \<and> vr_phase r = ''complete'' \<and> vr_action r = ''complete''
      then reply = [] else True)"
  using turn_result [of E agent w left late uid i calls r reply] publish_silent [of E w i _ r reply]
  by (auto simp: recognition_miss_def fixed_results split: if_splits)

lemma speculative_owned:
  "adopt_speculation i candidate final (speculative_outcome agent i candidate) = Some (r, reply) \<Longrightarrow>
     (if vr_proof r = AnswerProofQuestionBoundInputAnswerFirst \<and> vr_phase r = ''complete'' \<and> vr_action r = ''complete''
      then reply = [] else True)"
  by (auto simp: adopt_speculation_def speculative_outcome_def voice_result_from_decision_def
      committed_speculative_answer_proof_def terminal_speech_conflict_def Let_def split: if_splits sum.splits option.splits)

section \<open>Properties\<close>

text \<open>
  C13. A strict turn asks the agent only about words that the local detector and the inspector have both
  cleared, without a state and without research; and it gives back no state and no research record, and no
  words but cleared ones or the fixed prompt.\<close>

theorem strict_turn_leaks_nothing:
  assumes "vi_strict i" "prepare_turn E agent w left late uid i = (calls, Inr (r, reply))"
  shows "list_all (\<lambda>t. strict_check E (vt_utterance t) \<and> \<not> is_research_request E (vt_utterance t)
             \<and> vt_research_disabled t \<and> vt_state_token t = []) calls
       \<and> vr_state (with_strict_privacy_status i r) = [] \<and> vr_records r = [] \<and> vr_research_status r = ''none''
       \<and> (reply \<in> {[], lowConfidencePrompt} \<or> strict_check E reply)"
proof -
  have "vr_state (with_strict_privacy_status i r) = [] \<and> vr_records r = [] \<and> vr_research_status r = ''none''
      \<and> (reply \<in> {[], lowConfidencePrompt} \<or> strict_check E reply)"
    using turn_result [OF assms(2)] assms(1)
    by (auto simp: recognition_miss_def with_strict_privacy_status_def fixed_results dest: publish_strict [OF _ assms(1)] split: if_splits)
  then show ?thesis using turn_calls [OF assms(2)] assms(1) by (auto simp: list_all_iff)
qed

lemma chunks_ascii: "byte c < 128 \<Longrightarrow> chunks (c # cs) = (byte c, [c]) # chunks cs"
  by (subst chunks.simps) (simp add: rune_len.simps rune_value_def Let_def)

lemma not_requested:
  "length (strict_canonical_text E t) < 3 \<Longrightarrow> fe_lower E = id \<Longrightarrow> \<not> is_research_request E t"
proof -
  have "list_all (\<lambda>s. 3 \<le> length s) research_signals"
    by (simp add: research_signals_def utf8_encode_def utf8_char_def char_of_def)
  then show "length (strict_canonical_text E t) < 3 \<Longrightarrow> fe_lower E = id \<Longrightarrow> \<not> is_research_request E t"
    by (fastforce simp: is_research_request_def list_all_iff list_ex_iff contains_def dest: sublist_length_le)
qed

definition sample_env :: flow_env where
  "sample_env =
     \<lparr>fe_transcribe = (\<lambda>_. Inr (''ok'', Fin 0)), fe_bound = (\<lambda>_ _ _. None), fe_pcm = None, fe_paired = None,
      fe_valid_state = (\<lambda>_ _. True), fe_risk = new_bootstrap_controller, fe_finding = (\<lambda>_. False),
      fe_inspect = Some (\<lambda>_. Some InspectionClear), fe_nfkc = id, fe_format_control = (\<lambda>_. False), fe_lower = id\<rparr>"

definition sample_decision :: turn_decision where
  "sample_decision =
     \<lparr>td_domain = ''daily'', td_target = ''assistant'', td_stage = ''none'', td_phase = ''none'', td_action = ''none'',
      td_proof = AnswerProofNone, td_transition = None, td_proof_candidate = AnswerProofNone, td_transition_candidate = None,
      td_research_status = ''none'', td_records = [], td_reply = ''good'', td_act = ''reply'', td_route = ''r'', td_state = ''s''\<rparr>"

definition sample_input :: voice_input where
  "sample_input =
     \<lparr>vi_audio = ''a'', vi_baseline = [], vi_weak = [], vi_mime = ''audio/webm'', vi_state = [], vi_request = ''q'',
      vi_ambient = False, vi_foreground = True, vi_document = None, vi_strict = True, vi_guest = False, vi_memory = None,
      vi_memory_generation = 0, vi_commit_signal = False\<rparr>"

theorem strict_turn_leaks_nothing_witness:
  "\<exists>calls r. prepare_turn sample_env (\<lambda>_. Inr sample_decision) \<lparr>mo_ended = False, mo_left = None\<rparr> None False ''u'' sample_input
       = (calls, Inr (r, ''good'')) \<and> length calls = 1
     \<and> vr_state (with_strict_privacy_status sample_input r) = [] \<and> strict_check sample_env ''good''"
proof -
  let ?out = "prepare_turn sample_env (\<lambda>_. Inr sample_decision) \<lparr>mo_ended = False, mo_left = None\<rparr> None False ''u'' sample_input"
  have "strict_canonical_text sample_env ''ok'' = ''ok''"
    using char_of_char [of "CHR ''o''", where 'a = nat] char_of_char [of "CHR ''k''", where 'a = nat]
    by (simp add: strict_canonical_text_def sample_env_def chunks_ascii rune_text_def utf8_encode_def utf8_char_def)
  then have quiet: "\<not> is_research_request sample_env ''ok''"
    by (intro not_requested) (simp_all add: sample_env_def)
  have accept: "rr_decision (transcript_risk_decision sample_env (Fin 0) False False) = Accept"
    by (simp add: transcript_risk_decision_def sample_env_def decide_risk_def evidence_invalid_def Let_def feq_def new_bootstrap_controller_def)
  have recognised: "recognize sample_env ''u'' sample_input = Inr (''ok'', Fin 0)" "\<not> strict_input_blocked sample_input"
    "vi_document sample_input = None" "transcription_budget (pre_inference_reserve sample_input) None \<noteq> None"
    by (simp_all add: recognize_def transcribe_buffered_def sample_env_def sample_input_def strict_input_blocked_def
        transcription_budget_def pre_inference_reserve_def voiceResponseReserve_def strictInspectionTimeout_def)
  have zero: "feq (Fin 0) (Fin 0)" by (simp add: feq_def)
  have check: "strict_check sample_env t" for t by (simp add: strict_check_def sample_env_def)
  have "\<not> strict_reply_blocked sample_env \<lparr>mo_ended = False, mo_left = None\<rparr> sample_decision" "\<not> terminal_speech_conflict sample_decision"
    by (simp_all add: strict_reply_blocked_def check sample_decision_def context_with_reserve_def voiceSynthesisReserve_def
        terminal_speech_conflict_def)
  then have "\<exists>calls r. ?out = (calls, Inr (r, ''good'')) \<and> length calls = 1"
    using quiet accept recognised zero check
    by (simp add: prepare_turn_def prepare_recognized_turn_def call_agent_def publish_decision_def Let_def)
      (simp add: sample_decision_def)
  then obtain calls r where out: "?out = (calls, Inr (r, ''good''))" "length calls = 1" by blast
  have strict: "vi_strict sample_input" by (simp add: sample_input_def)
  show ?thesis
    using strict_turn_leaks_nothing [OF strict out(1)] out by (auto simp: sample_env_def strict_check_def)
qed

text \<open>
  C26. Where a turn attests that the person's own answer came first and the coaching is complete, nothing is
  spoken over it, in a committed turn and in an adopted speculative one.\<close>

theorem owned_answers_are_not_talked_over:
  "{(r, reply). \<exists>E agent w left late uid i calls. prepare_turn E agent w left late uid i = (calls, Inr (r, reply))}
   \<union> {(r, reply). \<exists>agent i candidate final. adopt_speculation i candidate final (speculative_outcome agent i candidate) = Some (r, reply)}
     \<subseteq> {(r, reply).
          if vr_proof r = AnswerProofQuestionBoundInputAnswerFirst \<and> vr_phase r = ''complete'' \<and> vr_action r = ''complete''
          then reply = [] else True}"
  using committed_owned speculative_owned by fastforce

text \<open>The observations that a tracker has seen.\<close>

definition tracker_run :: "(string \<times> bool \<times> time) list \<Rightarrow> candidate_tracker" where
  "tracker_run obs = foldl (\<lambda>t (raw, eligible, seen). fst (tracker_observe t raw eligible seen)) tracker_reset obs"

definition stable_since :: "string \<Rightarrow> time \<Rightarrow> (string \<times> bool \<times> time) list \<Rightarrow> bool" where
  "stable_since c start obs \<longleftrightarrow>
     (\<exists>earlier raw later. obs = earlier @ (raw, True, start) # later
        \<and> list_all (\<lambda>(raw, eligible, _). eligible \<and> canonical_speculation_text raw = c) ((raw, True, start) # later))"

lemma tracker_run_snoc [simp]:
  "tracker_run [] = tracker_reset"
  "tracker_run (obs @ [(raw, eligible, seen)]) = fst (tracker_observe (tracker_run obs) raw eligible seen)"
  by (simp_all add: tracker_run_def)

lemma stable_since_start: "canonical_speculation_text raw = c \<Longrightarrow> stable_since c seen (obs @ [(raw, True, seen)])"
  unfolding stable_since_def by fastforce

lemma stable_since_more:
  "stable_since c start obs \<Longrightarrow> canonical_speculation_text raw = c \<Longrightarrow> stable_since c start (obs @ [(raw, True, seen)])"
  unfolding stable_since_def by fastforce

lemma tracker_run_stable:
  "ct_candidate (tracker_run obs) = c \<Longrightarrow> minSpeculativeCandidateRunes \<le> rune_count c \<Longrightarrow>
     stable_since c (ct_first_seen (tracker_run obs)) obs"
proof (induction obs arbitrary: c rule: rev_induct)
  case Nil
  then show ?case by (simp add: tracker_reset_def minSpeculativeCandidateRunes_def rune_count.simps)
next
  case (snoc ob obs)
  obtain raw eligible seen where ob: "ob = (raw, eligible, seen)" by (cases ob)
  have short: "\<not> minSpeculativeCandidateRunes \<le> rune_count []"
    by (simp add: minSpeculativeCandidateRunes_def rune_count.simps)
  show ?case
    using snoc.prems snoc.IH short stable_since_start [of raw _ seen obs] stable_since_more [of c _ obs raw seen]
    by (auto simp: ob tracker_observe_def tracker_reset_def Let_def split: if_splits)
qed

text \<open>
  A provisional transcript is worth a speculative run only when the same text of at least eight runes has been
  observed, without any other in between, for at least 160 ms.\<close>

theorem speculation_needs_stable_text:
  assumes "tracker_observe (tracker_run obs) raw eligible seen = (t, c, True)"
  shows "eligible \<and> canonical_speculation_text raw = c \<and> 8 \<le> rune_count c
       \<and> (\<exists>start. stable_since c start obs \<and> seen - start \<ge> 160000000)"
proof -
  have now: "eligible" "canonical_speculation_text raw = c" "minSpeculativeCandidateRunes \<le> rune_count c"
    "ct_candidate (tracker_run obs) = c" "seen - ct_first_seen (tracker_run obs) \<ge> 160000000"
    using assms by (auto simp: tracker_observe_def Let_def minSpeculativeStableDuration_def split: if_splits)
  then show ?thesis
    using tracker_run_stable [OF now(4,3)] by (auto simp: minSpeculativeCandidateRunes_def)
qed

theorem speculation_needs_stable_text_witness:
  "snd (tracker_observe (tracker_run [('' my answer'', True, 5)]) ''my  answer'' True 160000005) = (''my answer'', True)
     \<and> stable_since ''my answer'' 5 [('' my answer'', True, 5)]"
proof -
  let ?out = "tracker_observe (tracker_run [('' my answer'', True, 5)]) ''my  answer'' True 160000005"
  have canonical: "canonical_speculation_text '' my answer'' = ''my answer''" "canonical_speculation_text ''my  answer'' = ''my answer''"
    by (simp_all add: canonical_speculation_text_def collapse_space_def Go_Regexp.fields_def chunks_ascii is_space_def
        space_values_def chunk_text_def)
  have "rune_count ''my answer'' = 9"
    by (simp add: rune_count_chunks chunks_ascii)
  then have snd_out: "snd ?out = (''my answer'', True)"
    by (simp add: Let_def tracker_run_def tracker_observe_def canonical tracker_reset_def minSpeculativeCandidateRunes_def
        minSpeculativeStableDuration_def)
  then obtain t where out: "?out = (t, ''my answer'', True)" by (cases ?out) auto
  obtain start where "stable_since ''my answer'' start [('' my answer'', True, 5)]"
    using speculation_needs_stable_text [OF out] by blast
  then have "stable_since ''my answer'' 5 [('' my answer'', True, 5)]"
    by (auto simp: stable_since_def Cons_eq_append_conv)
  then show ?thesis using snd_out by simp
qed

end
