(* ===== verification/CaptionHandoff.thy ===== *)
theory CaptionHandoff
  imports VoiceTurn Scheduler
begin

text \<open>
  The caption handoff of native speech (\<open>internal/voiceflow/caption_handoff.go\<close>): a native session gives
  its captions to the staged agent, whose speech must not be heard before the final caption, the browser's
  commit and, for a coach's turn, an accepted checkpoint and the single use of a publication right.

  \<^item> \<open>observe\<close>, \<open>commit_begin\<close>, \<open>authorize_grant\<close>, \<open>cancel_begin\<close> and \<open>finish_begin\<close> are what the code
    does under the mutex; \<open>authorize_checkpoint\<close>, \<open>authorize_answer\<close> and \<open>authorize_initiative\<close> are the
    parts of \<open>authorizeOutput\<close> before it, up to \<open>onCoachActive\<close>, after it, and the use of the publication
    right, with the publication authority of \<open>Scheduler\<close>.
  \<^item> \<open>handoff_step\<close> lets the session, the browser, the deliverers and any number of calls of \<open>Commit\<close> and
    \<open>Cancel\<close> interleave; \<open>hw_calls\<close> says where each call stands. Its labels are what an observer of the
    callbacks and of the authority sees: what \<open>onCoachActive\<close> was given and answered, the state of the
    right before and after, and each chunk that \<open>onAudio\<close> was called with.
  \<^item> A delivery holds the publication lock from its check until \<open>onAudio\<close> is back; the end of a commit and a
    cancel wait for that lock before they return, and exclude each other.

  What the agent and the synthesis give a commit to publish is arbitrary; \<open>VoiceTurn\<close> says which decision
  may be adopted. The clock, the random capability, the end of a context and the callbacks are arguments.
\<close>

section \<open>The right to speak first\<close>

datatype handoff_error = HandoffState | HandoffInput | ContextEnded | CoachRefused

record initiative =
  pi_authority :: authority
  pi_lease :: lease
  pi_action :: Scheduler.action

definition respondentInitiativeLeaseLifetimeMS :: int where "respondentInitiativeLeaseLifetimeMS = 30000"

definition respondent_initiative_action :: "string \<Rightarrow> Scheduler.action option" where
  "respondent_initiative_action a =
     (if a = ''elicit'' \<or> a = ''retry'' \<or> a = ''expand'' then Some ActionAskOne
      else if a = ''restate'' then Some ActionReflectGoal
      else if a = ''complete'' \<or> a = ''release'' then Some ActionAcknowledge
      else None)"

definition prepare_respondent_initiative ::
  "capability option \<Rightarrow> int \<Rightarrow> string \<Rightarrow> string \<Rightarrow> string \<Rightarrow> (handoff_error, initiative option) result" where
  "prepare_respondent_initiative random now target coach_action reply =
     (if target \<noteq> ''respondent'' \<or> trim_space reply = [] then Inr None
      else case respondent_initiative_action coach_action of
        None \<Rightarrow> Inl HandoffState
      | Some a \<Rightarrow>
        case random of
          None \<Rightarrow> Inl HandoffState
        | Some c \<Rightarrow>
          case new_publication_authority c of
            Inl e \<Rightarrow> Inl HandoffState
          | Inr s \<Rightarrow>
            case pa_prepare now respondentInitiativeLeaseLifetimeMS 1 1 1 a s of
              (Inl e, _) \<Rightarrow> Inl HandoffState
            | (Inr l, s') \<Rightarrow> Inr (Some \<lparr>pi_authority = s', pi_lease = l, pi_action = a\<rparr>))"

definition initiative_commit :: "int \<Rightarrow> initiative \<Rightarrow> (handoff_error, unit) result \<times> initiative" where
  "initiative_commit now p =
     (case pa_commit now (pi_lease p) 1 1 1 (pi_action p) (pi_authority p) of
        (Inl e, s) \<Rightarrow> (Inl HandoffState, p\<lparr>pi_authority := s\<rparr>)
      | (Inr u, s) \<Rightarrow> (Inr (), p\<lparr>pi_authority := s\<rparr>))"

definition initiative_abort :: "initiative \<Rightarrow> initiative" where
  "initiative_abort p = p\<lparr>pi_authority := pa_abort (pi_authority p)\<rparr>"

section \<open>The checkpoint of a coach's turn\<close>

record checkpoint =
  ck_state :: string
  ck_route :: string
  ck_target :: string
  ck_stage :: string
  ck_phase :: string
  ck_action :: string

definition nativeRespondentCoachRoute :: string where "nativeRespondentCoachRoute = ''native-respondent-coach''"

definition valid_coach_metadata :: "string \<Rightarrow> string \<Rightarrow> string \<Rightarrow> bool" where
  "valid_coach_metadata target phase act \<longleftrightarrow>
     (if target = ''assistant'' then phase = ''none'' \<and> act = ''none''
      else if target \<noteq> ''respondent'' then False
      else if phase = ''awaiting_answer'' then act = ''elicit''
      else if phase = ''awaiting_restatement'' then act = ''restate''
      else if phase = ''expanding'' then act = ''expand''
      else if phase = ''complete'' then act = ''complete''
      else if phase = ''blocked'' then act = ''retry'' \<or> act = ''release''
      else False)"

definition valid_respondent_checkpoint :: "checkpoint \<Rightarrow> bool" where
  "valid_respondent_checkpoint c \<longleftrightarrow>
     ck_state c \<noteq> [] \<and> length (ck_state c) \<le> MaxStateTokenBytes \<and> utf8_valid (ck_state c)
     \<and> trim_space (ck_state c) = ck_state c \<and> ck_route c = nativeRespondentCoachRoute
     \<and> ck_target c = ''respondent'' \<and> (ck_stage c = ''awaiting_answer'' \<or> ck_stage c = ''restructure'')
     \<and> valid_coach_metadata (ck_target c) (ck_phase c) (ck_action c)"

definition new_respondent_checkpoint :: "voice_result \<Rightarrow> checkpoint option" where
  "new_respondent_checkpoint r =
     (let c = \<lparr>ck_state = vr_state r, ck_route = vr_route r, ck_target = vr_target r, ck_stage = vr_stage r,
               ck_phase = vr_phase r, ck_action = vr_action r\<rparr> in
      if valid_respondent_checkpoint c then Some c else None)"

definition checkpoint_matches_result :: "checkpoint \<Rightarrow> voice_result \<Rightarrow> bool" where
  "checkpoint_matches_result c r \<longleftrightarrow>
     ck_state c = vr_state r \<and> ck_route c = vr_route r \<and> ck_target c = vr_target r \<and> ck_stage c = vr_stage r
     \<and> ck_phase c = vr_phase r \<and> ck_action c = vr_action r"

section \<open>The handoff\<close>

record handoff =
  ho_tracker :: candidate_tracker
  ho_speculation :: "string option"
  ho_attempted :: bool
  ho_invalidated :: bool
  ho_caption :: string
  ho_final :: bool
  ho_committed :: bool
  ho_canceled :: bool
  ho_finished :: bool
  ho_authorized :: bool
  ho_delivered :: bool

definition open_handoff :: handoff where
  "open_handoff =
     \<lparr>ho_tracker = tracker_reset, ho_speculation = None, ho_attempted = False, ho_invalidated = False, ho_caption = [],
      ho_final = False, ho_committed = False, ho_canceled = False, ho_finished = False, ho_authorized = False,
      ho_delivered = False\<rparr>"

text \<open>The captions: \<open>ended\<close> and \<open>signal\<close> are the states of the context and of the commit signal.\<close>

definition observe :: "voice_input \<Rightarrow> bool \<Rightarrow> bool \<Rightarrow> handoff \<Rightarrow> string \<Rightarrow> bool \<Rightarrow> time \<Rightarrow> (handoff_error, handoff) result" where
  "observe i ended signal h raw final seen =
     (if is_zero seen \<or> \<not> utf8_valid raw \<or> rune_count raw > MaxUtteranceRunes then Inl HandoffInput
      else
        (let caption = trim_space raw in
         if final \<and> caption = [] then Inl HandoffInput
         else if ended then Inl ContextEnded
         else if ho_canceled h \<or> ho_committed h \<or> ho_finished h \<or> ho_final h then Inl HandoffState
         else
           (let h1 = h\<lparr>ho_caption := caption, ho_final := (final \<or> ho_final h)\<rparr>;
                h2 = (if revises_speculation (ho_speculation h1) caption
                      then h1\<lparr>ho_speculation := None, ho_invalidated := True\<rparr> else h1) in
            if ho_attempted h2 \<or> caption = [] \<or> \<not> voice_response_expected i then Inr h2
            else
              (case tracker_observe (ho_tracker h2) caption True seen of
                 (t, candidate, ready) \<Rightarrow>
                   (let h3 = h2\<lparr>ho_tracker := t\<rparr>;
                        candidate = (if \<not> final \<and> \<not> ready then canonical_speculation_text caption else candidate);
                        ready = (if \<not> final \<and> \<not> ready then candidate \<noteq> [] else ready) in
                    if \<not> ready then Inr h3
                    else Inr (h3\<lparr>ho_attempted := True, ho_speculation := speculation_starts i signal candidate\<rparr>))))))"

definition cancel_begin :: "handoff \<Rightarrow> handoff" where
  "cancel_begin h =
     (if ho_canceled h \<or> ho_finished h then h
      else h\<lparr>ho_canceled := True, ho_authorized := False, ho_caption := [], ho_speculation := None\<rparr>)"

definition finish_begin :: "handoff \<Rightarrow> handoff" where
  "finish_begin h = (if ho_finished h then h else h\<lparr>ho_finished := True, ho_authorized := False\<rparr>)"

text \<open>The start of \<open>Commit\<close>: the final caption and the speculation that may be adopted for it.\<close>

definition commit_begin :: "bool \<Rightarrow> bool \<Rightarrow> handoff \<Rightarrow> (handoff_error, handoff \<times> string \<times> string option) result" where
  "commit_begin ended signal h =
     (if ended then Inl ContextEnded
      else if \<not> signal then Inl HandoffState
      else if ho_canceled h \<or> ho_committed h \<or> \<not> ho_final h \<or> ho_caption h = [] then Inl HandoffState
      else Inr (h\<lparr>ho_committed := True, ho_speculation := None, ho_caption := []\<rparr>, ho_caption h, ho_speculation h))"

text \<open>
  \<open>authorizeOutput\<close>: the checkpoint, with the initiative that must exist before it (\<open>listening\<close> says that there is an
  \<open>onCoachActive\<close>); what follows its answer; the use of the initiative; then the grant under the mutex.\<close>

definition initiative_audible :: "voice_result \<Rightarrow> string \<Rightarrow> bool" where
  "initiative_audible r reply \<longleftrightarrow> vr_target r = ''respondent'' \<and> trim_space reply \<noteq> []"

definition authorize_checkpoint :: "capability option \<Rightarrow> int \<Rightarrow> bool \<Rightarrow> bool \<Rightarrow> voice_result \<Rightarrow> string
    \<Rightarrow> initiative option \<Rightarrow> (handoff_error, voice_result \<times> checkpoint option \<times> initiative option) result" where
  "authorize_checkpoint random now listening ended r reply init =
     (if ended then Inl ContextEnded
      else if vr_target r \<noteq> ''respondent'' then Inr (r, None, init)
      else
        (case (if initiative_audible r reply \<and> init = None
               then prepare_respondent_initiative random now (vr_target r) (vr_action r) reply else Inr init) of
           Inl e \<Rightarrow> Inl HandoffState
         | Inr init \<Rightarrow>
           if initiative_audible r reply \<and> init = None then Inl HandoffState
           else if \<not> listening then Inl HandoffState
           else
             (let r1 = r\<lparr>vr_route := nativeRespondentCoachRoute\<rparr> in
              case new_respondent_checkpoint r1 of
                None \<Rightarrow> Inl HandoffState
              | Some c \<Rightarrow> Inr (r1, Some c, init))))"

definition authorize_answer :: "bool \<Rightarrow> bool \<Rightarrow> initiative option \<Rightarrow> (handoff_error, unit) result \<times> initiative option" where
  "authorize_answer accepted ended init =
     (if \<not> accepted then (Inl CoachRefused, map_option initiative_abort init)
      else if ended then (Inl ContextEnded, map_option initiative_abort init)
      else (Inr (), init))"

definition authorize_initiative :: "int \<Rightarrow> voice_result \<Rightarrow> string \<Rightarrow> initiative option
    \<Rightarrow> (handoff_error, unit) result \<times> initiative option" where
  "authorize_initiative now r reply init =
     (if initiative_audible r reply then
        (case init of
           None \<Rightarrow> (Inl HandoffState, None)
         | Some p \<Rightarrow> (case initiative_commit now p of (res, p') \<Rightarrow> (res, Some p')))
      else (Inr (), init))"

definition authorize_grant :: "bool \<Rightarrow> handoff \<Rightarrow> (handoff_error, handoff) result" where
  "authorize_grant ended h =
     (if ho_canceled h \<or> ho_finished h \<or> \<not> ho_committed h then Inl HandoffState
      else if ended then Inl ContextEnded
      else Inr (h\<lparr>ho_authorized := True\<rparr>))"

definition output_authorized :: "handoff \<Rightarrow> bool" where
  "output_authorized h \<longleftrightarrow> ho_committed h \<and> \<not> ho_canceled h \<and> \<not> ho_finished h \<and> ho_authorized h"

section \<open>The interleaving\<close>

text \<open>Who holds the publication lock: a delivery before its check, or one that has passed it.\<close>

datatype publication = Free | Entered string | Cleared string

text \<open>
  Where a call of \<open>Commit\<close> or \<open>Cancel\<close> stands. \<open>Canceling\<close> waits for the terminal lock, \<open>Finishing\<close> and
  \<open>Draining\<close> hold it; their flag says that the call is a \<open>Commit\<close> which found the context ended.\<close>

datatype call =
    Committing string "string option"
  | Asking voice_result string checkpoint "initiative option"
  | Checked voice_result string "initiative option"
  | Ready voice_result string
  | Granted
  | Failed
  | Finishing
  | Canceling bool
  | Draining bool
  | Returned

fun holds_terminal :: "call \<Rightarrow> bool" where
  "holds_terminal Finishing \<longleftrightarrow> True" | "holds_terminal (Draining b) \<longleftrightarrow> True" | "holds_terminal _ \<longleftrightarrow> False"

definition malformed_pcm :: "string \<Rightarrow> bool" where
  "malformed_pcm chunk \<longleftrightarrow> length chunk = 0 \<or> length chunk mod 2 \<noteq> 0"

record handoff_world =
  hw_handoff :: handoff
  hw_ended :: bool
  hw_signal :: bool
  hw_publication :: publication
  hw_calls :: "call list"

definition new_world :: handoff_world where
  "new_world =
     \<lparr>hw_handoff = open_handoff, hw_ended = False, hw_signal = False, hw_publication = Free, hw_calls = []\<rparr>"

definition terminal_free :: "handoff_world \<Rightarrow> bool" where
  "terminal_free w \<longleftrightarrow> \<not> list_ex holds_terminal (hw_calls w)"

definition move :: "nat \<Rightarrow> call \<Rightarrow> handoff_world \<Rightarrow> handoff_world" where
  "move k c w = w\<lparr>hw_calls := (hw_calls w)[k := c]\<rparr>"

definition stands :: "handoff_world \<Rightarrow> nat \<Rightarrow> call \<Rightarrow> bool" where
  "stands w k c \<longleftrightarrow> k < length (hw_calls w) \<and> hw_calls w ! k = c"

datatype handoff_event =
    FinalCaption string
  | CommitSignal
  | CommitBegan string "string option"
  | CommitRefused handoff_error
  | CoachAnswered checkpoint bool
  | RightUsed int "initiative option" "initiative option"
  | OutputGranted voice_result string
  | Heard string
  | CommitReturned
  | CancelReturned
  | Internal

inductive handoff_step :: "voice_input \<Rightarrow> handoff_world \<Rightarrow> handoff_event \<Rightarrow> handoff_world \<Rightarrow> bool" for i where
  observes: "observe i (hw_ended w) (hw_signal w) (hw_handoff w) raw final seen = Inr h
     \<Longrightarrow> handoff_step i w (if final then FinalCaption (trim_space raw) else Internal) (w\<lparr>hw_handoff := h\<rparr>)"
| signals: "handoff_step i w CommitSignal (w\<lparr>hw_signal := True\<rparr>)"
| ends: "handoff_step i w Internal (w\<lparr>hw_ended := True\<rparr>)"
| commits: "commit_begin (hw_ended w) (hw_signal w) (hw_handoff w) = Inr (h, final, speculation)
     \<Longrightarrow> handoff_step i w (CommitBegan final speculation)
          (w\<lparr>hw_handoff := h, hw_calls := hw_calls w @ [Committing final speculation]\<rparr>)"
| commit_refused: "commit_begin (hw_ended w) (hw_signal w) (hw_handoff w) = Inl e
     \<Longrightarrow> handoff_step i w (CommitRefused e)
          (w\<lparr>hw_calls := hw_calls w @ (if e = ContextEnded then [Canceling True] else [])\<rparr>)"
| asks: "\<lbrakk>stands w k (Committing final speculation);
      authorize_checkpoint random now listening (hw_ended w) r reply init = Inr (r', c, init')\<rbrakk>
     \<Longrightarrow> handoff_step i w Internal
          (move k (case c of None \<Rightarrow> Ready r' reply | Some q \<Rightarrow> Asking r' reply q init') w)"
| ask_fails: "\<lbrakk>stands w k (Committing final speculation);
      authorize_checkpoint random now listening (hw_ended w) r reply init = Inl e\<rbrakk>
     \<Longrightarrow> handoff_step i w Internal (move k Failed w)"
| answers: "\<lbrakk>stands w k (Asking r reply c init); authorize_answer accepted (hw_ended w) init = (res, init')\<rbrakk>
     \<Longrightarrow> handoff_step i w (CoachAnswered c accepted)
          (move k (case res of Inl e \<Rightarrow> Failed | Inr u \<Rightarrow> Checked r reply init') w)"
| spends: "\<lbrakk>stands w k (Checked r reply init); authorize_initiative now r reply init = (res, init')\<rbrakk>
     \<Longrightarrow> handoff_step i w (RightUsed now init init')
          (move k (case res of Inl e \<Rightarrow> Failed | Inr u \<Rightarrow> Ready r reply) w)"
| grants: "\<lbrakk>stands w k (Ready r reply); authorize_grant (hw_ended w) (hw_handoff w) = Inr h\<rbrakk>
     \<Longrightarrow> handoff_step i w (OutputGranted r reply) (move k Granted (w\<lparr>hw_handoff := h\<rparr>))"
| grant_fails: "\<lbrakk>stands w k (Ready r reply); authorize_grant (hw_ended w) (hw_handoff w) = Inl e\<rbrakk>
     \<Longrightarrow> handoff_step i w Internal (move k Failed w)"
| enters: "\<lbrakk>hw_publication w = Free; \<not> malformed_pcm chunk; \<not> hw_ended w\<rbrakk>
     \<Longrightarrow> handoff_step i w Internal (w\<lparr>hw_publication := Entered chunk\<rparr>)"
| clears: "hw_publication w = Entered chunk
     \<Longrightarrow> handoff_step i w Internal
          (w\<lparr>hw_publication := (if output_authorized (hw_handoff w) \<and> \<not> hw_ended w then Cleared chunk else Free)\<rparr>)"
| hears: "hw_publication w = Cleared chunk
     \<Longrightarrow> handoff_step i w (Heard chunk)
          (w\<lparr>hw_publication := Free, hw_handoff := (hw_handoff w)\<lparr>ho_delivered := (taken \<or> ho_delivered (hw_handoff w))\<rparr>\<rparr>)"
| finishes: "\<lbrakk>stands w k c; c = Committing final speculation \<or> c = Granted \<or> c = Failed; terminal_free w\<rbrakk>
     \<Longrightarrow> handoff_step i w Internal (move k Finishing (w\<lparr>hw_handoff := finish_begin (hw_handoff w), hw_ended := True\<rparr>))"
| commit_returns: "\<lbrakk>stands w k Finishing; hw_publication w = Free\<rbrakk>
     \<Longrightarrow> handoff_step i w CommitReturned (move k Returned w)"
| cancel_called: "handoff_step i w Internal (w\<lparr>hw_calls := hw_calls w @ [Canceling False]\<rparr>)"
| cancels: "\<lbrakk>stands w k (Canceling commit); terminal_free w\<rbrakk>
     \<Longrightarrow> handoff_step i w Internal
          (move k (Draining commit) (w\<lparr>hw_handoff := cancel_begin (hw_handoff w), hw_ended := True\<rparr>))"
| cancel_returns: "\<lbrakk>stands w k (Draining commit); hw_publication w = Free\<rbrakk>
     \<Longrightarrow> handoff_step i w (if commit then CommitReturned else CancelReturned) (move k Returned w)"

section \<open>What every interleaving keeps\<close>

text \<open>Every event is justified by those before it; no event in \<open>Q\<close> comes after one in \<open>P\<close>.\<close>

definition each_after :: "('e list \<Rightarrow> 'e \<Rightarrow> bool) \<Rightarrow> 'e list \<Rightarrow> bool" where
  "each_after P es \<longleftrightarrow> (\<forall>k < length es. P (take k es) (es ! k))"

definition never_after :: "('e \<Rightarrow> bool) \<Rightarrow> ('e \<Rightarrow> bool) \<Rightarrow> 'e list \<Rightarrow> bool" where
  "never_after P Q es \<longleftrightarrow> (\<forall>k < length es. Q (es ! k) \<longrightarrow> \<not> list_ex P (take k es))"

lemma each_after_simps [simp]:
  "each_after P []"
  "each_after P (es @ [e]) \<longleftrightarrow> each_after P es \<and> P es e"
  by (auto simp: each_after_def less_Suc_eq nth_append)

lemma never_after_simps [simp]:
  "never_after P Q []"
  "never_after P Q (es @ [e]) \<longleftrightarrow> never_after P Q es \<and> (Q e \<longrightarrow> \<not> list_ex P es)"
  by (auto simp: never_after_def less_Suc_eq nth_append)

fun is_begin :: "handoff_event \<Rightarrow> bool" where
  "is_begin (CommitBegan _ _) \<longleftrightarrow> True" | "is_begin _ \<longleftrightarrow> False"

fun is_signal :: "handoff_event \<Rightarrow> bool" where
  "is_signal CommitSignal \<longleftrightarrow> True" | "is_signal _ \<longleftrightarrow> False"

fun is_grant :: "handoff_event \<Rightarrow> bool" where
  "is_grant (OutputGranted _ _) \<longleftrightarrow> True" | "is_grant _ \<longleftrightarrow> False"

fun is_heard :: "handoff_event \<Rightarrow> bool" where
  "is_heard (Heard _) \<longleftrightarrow> True" | "is_heard _ \<longleftrightarrow> False"

fun is_return :: "handoff_event \<Rightarrow> bool" where
  "is_return CommitReturned \<longleftrightarrow> True" | "is_return CancelReturned \<longleftrightarrow> True" | "is_return _ \<longleftrightarrow> False"

text \<open>\<open>onCoachActive\<close> was given a valid checkpoint of this result, and did not refuse it.\<close>

fun accepts :: "voice_result \<Rightarrow> handoff_event \<Rightarrow> bool" where
  "accepts r (CoachAnswered c accepted) \<longleftrightarrow> accepted \<and> valid_respondent_checkpoint c \<and> checkpoint_matches_result c r"
| "accepts r _ \<longleftrightarrow> False"

text \<open>A right that was prepared, not used, not aborted and not out of date has become used up.\<close>

fun right_spent :: "handoff_event \<Rightarrow> bool" where
  "right_spent (RightUsed now (Some p) (Some q)) \<longleftrightarrow>
     pa_prepared (pi_authority p) = Some (pi_lease p) \<and> \<not> pa_closed (pi_authority p) \<and> now \<le> expires_ms (pi_lease p)
     \<and> pa_committed (pi_authority q) \<and> pa_prepared (pi_authority q) = None"
| "right_spent _ \<longleftrightarrow> False"

fun authorised :: "handoff_event list \<Rightarrow> handoff_event \<Rightarrow> bool" where
  "authorised past (CommitBegan final speculation) \<longleftrightarrow>
     \<not> list_ex is_begin past \<and> list_ex is_signal past \<and> final \<noteq> [] \<and> FinalCaption final \<in> set past"
| "authorised past (RightUsed now p q) \<longleftrightarrow> (\<exists>r. list_ex (accepts r) past)"
| "authorised past (OutputGranted r reply) \<longleftrightarrow>
     list_ex is_begin past \<and> (vr_target r = ''respondent'' \<longrightarrow> list_ex (accepts r) past)
     \<and> (initiative_audible r reply \<longrightarrow> list_ex right_spent past)"
| "authorised past (Heard chunk) \<longleftrightarrow> list_ex is_grant past"
| "authorised past _ \<longleftrightarrow> True"

fun cleared :: "publication \<Rightarrow> bool" where
  "cleared (Cleared c) \<longleftrightarrow> True" | "cleared _ \<longleftrightarrow> False"

text \<open>What each call has established, in terms of what has been seen.\<close>

fun call_ok :: "handoff_event list \<Rightarrow> handoff \<Rightarrow> call \<Rightarrow> bool" where
  "call_ok es h (Asking r reply c init) \<longleftrightarrow> valid_respondent_checkpoint c \<and> checkpoint_matches_result c r"
| "call_ok es h (Checked r reply init) \<longleftrightarrow> list_ex (accepts r) es"
| "call_ok es h (Ready r reply) \<longleftrightarrow> (vr_target r = ''respondent'' \<longrightarrow> list_ex (accepts r) es)
     \<and> (initiative_audible r reply \<longrightarrow> list_ex right_spent es)"
| "call_ok es h Finishing \<longleftrightarrow> ho_canceled h \<or> ho_finished h"
| "call_ok es h (Draining b) \<longleftrightarrow> ho_canceled h \<or> ho_finished h"
| "call_ok es h _ \<longleftrightarrow> True"

definition shared_inv :: "handoff_event list \<Rightarrow> handoff_world \<Rightarrow> bool" where
  "shared_inv es w \<longleftrightarrow>
     (let h = hw_handoff w in
      each_after authorised es \<and> never_after is_return is_heard es
      \<and> (ho_final h \<and> ho_caption h \<noteq> [] \<longrightarrow> FinalCaption (ho_caption h) \<in> set es) \<and> (hw_signal w \<longrightarrow> list_ex is_signal es)
      \<and> (list_ex is_begin es \<longleftrightarrow> ho_committed h)
      \<and> (ho_authorized h \<longrightarrow> list_ex is_grant es \<and> \<not> ho_canceled h \<and> \<not> ho_finished h)
      \<and> (list_ex is_return es \<longrightarrow> ho_canceled h \<or> ho_finished h)
      \<and> (cleared (hw_publication w) \<longrightarrow> list_ex is_grant es \<and> \<not> list_ex is_return es))"

definition handoff_inv :: "handoff_event list \<Rightarrow> handoff_world \<Rightarrow> bool" where
  "handoff_inv es w \<longleftrightarrow> shared_inv es w \<and> list_all (call_ok es (hw_handoff w)) (hw_calls w)"

lemma call_ok_later:
  "call_ok es h c \<Longrightarrow> (ho_canceled h \<or> ho_finished h \<Longrightarrow> ho_canceled h' \<or> ho_finished h') \<Longrightarrow> call_ok (es @ [e]) h' c"
  by (cases c) auto

text \<open>A step of the shared state that moves no call, appends one, or moves one.\<close>

lemma inv_keep:
  assumes "handoff_inv es w" "shared_inv (es @ [e]) w'" "hw_calls w' = hw_calls w"
    and "ho_canceled (hw_handoff w) \<or> ho_finished (hw_handoff w) \<Longrightarrow> ho_canceled (hw_handoff w') \<or> ho_finished (hw_handoff w')"
  shows "handoff_inv (es @ [e]) w'"
  using assms call_ok_later [of es "hw_handoff w" _ "hw_handoff w'" e] by (auto simp: handoff_inv_def list_all_iff)

lemma inv_call:
  assumes "handoff_inv es w" "shared_inv (es @ [e]) w'" "hw_calls w' = hw_calls w @ [c]" "call_ok (es @ [e]) (hw_handoff w') c"
    and "ho_canceled (hw_handoff w) \<or> ho_finished (hw_handoff w) \<Longrightarrow> ho_canceled (hw_handoff w') \<or> ho_finished (hw_handoff w')"
  shows "handoff_inv (es @ [e]) w'"
  using assms call_ok_later [of es "hw_handoff w" _ "hw_handoff w'" e] by (auto simp: handoff_inv_def list_all_iff)

lemma inv_move:
  assumes "handoff_inv es w" "shared_inv (es @ [e]) w'" "hw_calls w' = (hw_calls w)[k := c]" "call_ok (es @ [e]) (hw_handoff w') c"
    and "ho_canceled (hw_handoff w) \<or> ho_finished (hw_handoff w) \<Longrightarrow> ho_canceled (hw_handoff w') \<or> ho_finished (hw_handoff w')"
  shows "handoff_inv (es @ [e]) w'"
  using assms call_ok_later [of es "hw_handoff w" _ "hw_handoff w'" e] set_update_subset_insert [of "hw_calls w" k c]
  by (fastforce simp: handoff_inv_def list_all_iff)

lemma stands_ok: "handoff_inv es w \<Longrightarrow> stands w k c \<Longrightarrow> call_ok es (hw_handoff w) c"
  by (auto simp: handoff_inv_def stands_def list_all_iff)

lemma observe_keeps:
  "observe i ended signal h raw final seen = Inr h' \<Longrightarrow>
     \<not> ho_committed h \<and> \<not> ho_canceled h \<and> \<not> ho_finished h \<and> \<not> ho_committed h' \<and> \<not> ho_canceled h' \<and> \<not> ho_finished h'
     \<and> ho_authorized h' = ho_authorized h \<and> \<not> ho_final h \<and> ho_final h' = final \<and> ho_caption h' = trim_space raw
     \<and> (final \<longrightarrow> trim_space raw \<noteq> [])"
  by (auto simp: observe_def Let_def split: if_splits prod.splits)

lemma checkpoint_valid:
  "authorize_checkpoint random now listening ended r reply init = Inr (r', c, init') \<Longrightarrow>
     (case c of None \<Rightarrow> vr_target r' \<noteq> ''respondent''
      | Some q \<Rightarrow> valid_respondent_checkpoint q \<and> checkpoint_matches_result q r')"
  by (auto simp: authorize_checkpoint_def new_respondent_checkpoint_def checkpoint_matches_result_def Let_def
      split: if_splits sum.splits option.splits)

lemma initiative_spent:
  "authorize_initiative now r reply init = (Inr u, init') \<Longrightarrow> initiative_audible r reply \<Longrightarrow> right_spent (RightUsed now init init')"
  by (auto simp: authorize_initiative_def initiative_commit_def pa_commit_def pa_closed_def
      split: if_splits sum.splits option.splits prod.splits)

lemma silent_not_audible: "vr_target r \<noteq> ''respondent'' \<Longrightarrow> \<not> initiative_audible r reply"
  by (simp add: initiative_audible_def)

lemma world_inv_new: "handoff_inv [] new_world"
  by (simp add: handoff_inv_def shared_inv_def new_world_def open_handoff_def)

text \<open>An event that is no claim of its own leaves the shared invariant as it is.\<close>

lemma shared_quiet:
  assumes "shared_inv es w" "hw_handoff w' = hw_handoff w" "hw_signal w' = hw_signal w" "hw_publication w' = hw_publication w"
    and "authorised es e" "\<not> is_begin e" "\<not> is_heard e" "\<not> is_return e"
  shows "shared_inv (es @ [e]) w'"
  using assms by (simp add: shared_inv_def Let_def)

lemma terminal_keeps:
  assumes "h' = finish_begin h \<or> h' = cancel_begin h"
  shows "ho_canceled h' \<or> ho_finished h'" "ho_committed h' = ho_committed h" "ho_final h' = ho_final h"
    "ho_caption h' = ho_caption h \<or> ho_caption h' = []" "ho_authorized h' \<Longrightarrow> h' = h"
  using assms by (auto simp: finish_begin_def cancel_begin_def split: if_splits)

lemma shared_terminal:
  assumes "shared_inv es w" "hw_signal w' = hw_signal w" "hw_publication w' = hw_publication w"
    and "hw_handoff w' = finish_begin (hw_handoff w) \<or> hw_handoff w' = cancel_begin (hw_handoff w)"
  shows "shared_inv (es @ [Internal]) w'"
    and "ho_canceled (hw_handoff w') \<or> ho_finished (hw_handoff w')"
proof -
  note keeps = terminal_keeps [OF assms(4)]
  show "ho_canceled (hw_handoff w') \<or> ho_finished (hw_handoff w')" by (rule keeps(1))
  have inv: "ho_final (hw_handoff w) \<Longrightarrow> ho_caption (hw_handoff w) \<noteq> [] \<Longrightarrow> FinalCaption (ho_caption (hw_handoff w)) \<in> set es"
    "ho_authorized (hw_handoff w) \<Longrightarrow> list_ex is_grant es \<and> \<not> ho_canceled (hw_handoff w) \<and> \<not> ho_finished (hw_handoff w)"
    using assms(1) by (simp_all add: shared_inv_def Let_def)
  have final: "FinalCaption (ho_caption (hw_handoff w')) \<in> set es" if "ho_final (hw_handoff w')" "ho_caption (hw_handoff w') \<noteq> []"
    using that inv(1) keeps(3,4) by metis
  have auth: "\<not> ho_authorized (hw_handoff w')" using inv(2) keeps(1,5) by metis
  show "shared_inv (es @ [Internal]) w'"
    using assms(1-3) final auth keeps(1,2) by (simp add: shared_inv_def Let_def)
qed

lemma shared_return:
  assumes "shared_inv es w" "is_return e" "hw_publication w = Free" "ho_canceled (hw_handoff w) \<or> ho_finished (hw_handoff w)"
  shows "shared_inv (es @ [e]) (move k c w)"
  using assms by (cases e) (simp_all add: shared_inv_def Let_def move_def)

lemma inv_move_quiet:
  assumes "handoff_inv es w" "authorised es e" "\<not> is_begin e" "\<not> is_heard e" "\<not> is_return e"
    and "call_ok (es @ [e]) (hw_handoff w) c"
  shows "handoff_inv (es @ [e]) (move k c w)"
proof -
  have "shared_inv (es @ [e]) (move k c w)"
    by (rule shared_quiet [of es w]) (use assms in \<open>simp_all add: handoff_inv_def move_def\<close>)
  then show ?thesis using inv_move [OF assms(1), of e "move k c w" k c] assms(6) by (simp add: move_def)
qed

lemma world_inv_step:
  assumes inv: "handoff_inv es w" and step: "handoff_step i w e w'"
  shows "handoff_inv (es @ [e]) w'"
proof -
  have sh: "shared_inv es w" using inv by (simp add: handoff_inv_def)
  note ok = stands_ok [OF inv]
  from step show ?thesis
  proof cases
    case (observes raw final seen h)
    have "shared_inv (es @ [e]) w'"
      using observe_keeps [OF observes(3)] sh unfolding observes(1,2) by (simp add: shared_inv_def Let_def)
    then show ?thesis using inv_keep [OF inv] observe_keeps [OF observes(3)] observes(2) by simp
  next
    case signals
    then show ?thesis using inv_keep [OF inv, of e w'] sh by (simp add: shared_inv_def Let_def)
  next
    case ends
    then show ?thesis using inv_keep [OF inv, of e w'] sh by (simp add: shared_inv_def Let_def)
  next
    case (commits h final speculation)
    have "shared_inv (es @ [e]) w'"
      using commits sh by (auto simp: shared_inv_def Let_def commit_begin_def split: if_splits)
    then show ?thesis using inv_call [OF inv, of e w'] commits by (auto simp: commit_begin_def split: if_splits)
  next
    case (commit_refused err)
    then show ?thesis
      using inv_call [OF inv shared_quiet [OF sh]] inv_keep [OF inv shared_quiet [OF sh]] by (cases "err = ContextEnded") simp_all
  next
    case (asks k final speculation random now listening r reply init r' c init')
    then show ?thesis
      using checkpoint_valid [OF asks(4)]
      by (auto intro!: inv_move_quiet [OF inv] simp: silent_not_audible split: option.splits)
  next
    case (ask_fails k final speculation random now listening r reply init err)
    then show ?thesis by (auto intro!: inv_move_quiet [OF inv])
  next
    case (answers k r reply c init accepted res init')
    have "res = Inr u \<Longrightarrow> accepted" for u using answers(4) by (auto simp: authorize_answer_def split: if_splits)
    then show ?thesis
      using ok [OF answers(3)] unfolding answers(1,2) by (cases res) (auto intro!: inv_move_quiet [OF inv])
  next
    case (spends k r reply init now res init')
    have accepted: "list_ex (accepts r) es" using ok [OF spends(3)] by simp
    have right: "authorised es (RightUsed now init init')" using accepted by auto
    show ?thesis
    proof (cases res)
      case (Inl err)
      then show ?thesis unfolding spends(1,2) by (simp only: sum.case) (rule inv_move_quiet [OF inv right]; simp)
    next
      case (Inr u)
      have "initiative_audible r reply \<longrightarrow> right_spent (RightUsed now init init')"
        using initiative_spent [of now r reply init u init'] spends(4) Inr by simp
      then have "call_ok (es @ [RightUsed now init init']) (hw_handoff w) (Ready r reply)" using accepted by simp
      from inv_move_quiet [OF inv right _ _ _ this] Inr show ?thesis unfolding spends(1,2) by simp
    qed
  next
    case (grants k r reply h)
    have h: "h = (hw_handoff w)\<lparr>ho_authorized := True\<rparr>" "\<not> ho_canceled (hw_handoff w)" "\<not> ho_finished (hw_handoff w)"
      "ho_committed (hw_handoff w)"
      using grants(4) by (auto simp: authorize_grant_def split: if_splits)
    have "shared_inv (es @ [e]) w'"
      using sh h ok [OF grants(3)] unfolding grants(1,2) by (simp add: shared_inv_def Let_def move_def)
    then show ?thesis using inv_move [OF inv, of e w' k Granted] h by (simp add: grants(1,2) move_def)
  next
    case (grant_fails k r reply err)
    then show ?thesis by (auto intro!: inv_move_quiet [OF inv])
  next
    case (enters chunk)
    then show ?thesis using inv_keep [OF inv, of e w'] sh by (simp add: shared_inv_def Let_def)
  next
    case (clears chunk)
    have "shared_inv (es @ [e]) w'" using clears sh by (auto simp: shared_inv_def Let_def output_authorized_def)
    then show ?thesis using inv_keep [OF inv, of e w'] clears by simp
  next
    case (hears chunk taken)
    have "shared_inv (es @ [e]) w'" using hears sh by (simp add: shared_inv_def Let_def)
    then show ?thesis using inv_keep [OF inv, of e w'] hears by simp
  next
    case (finishes k c final speculation)
    then show ?thesis
      using shared_terminal [OF sh, of w'] inv_move [OF inv, of e w' k Finishing] by (simp add: move_def)
  next
    case (commit_returns k)
    then show ?thesis
      using shared_return [OF sh] inv_move [OF inv, of e w' k Returned] ok [OF commit_returns(3)] by (simp add: move_def)
  next
    case cancel_called
    then show ?thesis using inv_call [OF inv shared_quiet [OF sh]] by simp
  next
    case (cancels k commit)
    then show ?thesis
      using shared_terminal [OF sh, of w'] inv_move [OF inv, of e w' k "Draining commit"] by (simp add: move_def)
  next
    case (cancel_returns k commit)
    then show ?thesis
      using shared_return [OF sh, of e k Returned] inv_move [OF inv, of e w' k Returned] ok [OF cancel_returns(3)] by (simp add: move_def)
  qed
qed

abbreviation handoff_runs :: "voice_input \<Rightarrow> handoff_event list \<Rightarrow> handoff_world \<Rightarrow> bool" where
  "handoff_runs i es w \<equiv> run_of (handoff_step i) new_world es w"

lemma world_inv_run: "run_of (handoff_step i) w0 es w \<Longrightarrow> w0 = new_world \<Longrightarrow> handoff_inv es w"
  by (induction rule: run_of.induct) (auto intro: world_inv_new world_inv_step)

lemma runs_in_order: "handoff_runs i es w \<Longrightarrow> each_after authorised es \<and> never_after is_return is_heard es"
  using world_inv_run [of i new_world es w] by (simp add: handoff_inv_def shared_inv_def Let_def)

text \<open>The steps do reach the listener: an ordinary turn with any input and any reply is heard.\<close>

lemma ordinary_turn_is_heard:
  fixes r :: voice_result
  assumes "\<not> is_zero seen" "vr_target r \<noteq> ''respondent''" "\<not> malformed_pcm chunk"
  shows "\<exists>es w. handoff_runs i (es @ [Heard chunk]) w"
proof -
  have a: "utf8_valid ''a''" "rune_count ''a'' \<le> MaxUtteranceRunes" "trim_space ''a'' = ''a''"
    by (simp_all add: utf8_valid.simps rune_count.simps rune_len.simps trim_space_def trim_left_def trim_right_def
        space_runes_def utf8_char_def strip.simps MaxUtteranceRunes_def)
  have "\<exists>h. observe i False False open_handoff ''a'' True seen = Inr h"
    using assms(1) a by (auto simp: observe_def open_handoff_def Let_def split: prod.splits)
  then obtain h where h: "observe i False False open_handoff ''a'' True seen = Inr h" by blast
  let ?w1 = "new_world\<lparr>hw_handoff := h\<rparr>" let ?w2 = "?w1\<lparr>hw_signal := True\<rparr>"
  let ?h3 = "h\<lparr>ho_committed := True, ho_speculation := None, ho_caption := []\<rparr>"
  let ?w3 = "?w2\<lparr>hw_handoff := ?h3, hw_calls := [Committing ''a'' (ho_speculation h)]\<rparr>"
  let ?w4 = "?w3\<lparr>hw_calls := [Ready r ''b'']\<rparr>"
  let ?w5 = "?w4\<lparr>hw_handoff := ?h3\<lparr>ho_authorized := True\<rparr>, hw_calls := [Granted]\<rparr>"
  let ?w6 = "?w5\<lparr>hw_publication := Entered chunk\<rparr>" let ?w7 = "?w6\<lparr>hw_publication := Cleared chunk\<rparr>"
  let ?h8 = "(hw_handoff ?w7)\<lparr>ho_delivered := (True \<or> ho_delivered (hw_handoff ?w7))\<rparr>"
  note keeps = observe_keeps [OF h]
  have new: "hw_ended new_world = False" "hw_signal new_world = False" "hw_handoff new_world = open_handoff"
    "hw_calls new_world = []" "hw_publication new_world = Free" by (simp_all add: new_world_def)
  have s1: "handoff_step i new_world (FinalCaption ''a'') ?w1"
    using observes [of i new_world "''a''" True seen h] h a(3) new by simp
  have s2: "handoff_step i ?w1 CommitSignal ?w2" by (rule signals)
  have s3: "handoff_step i ?w2 (CommitBegan ''a'' (ho_speculation h)) ?w3"
    using commits [of ?w2 ?h3 "''a''" "ho_speculation h" i] keeps new a(3) by (simp add: commit_begin_def)
  have s4: "handoff_step i ?w3 Internal ?w4"
    using asks [of ?w3 0 "''a''" "ho_speculation h" None 0 False r "''b''" None r None None i] assms(2) new
    by (simp add: stands_def move_def authorize_checkpoint_def)
  have s5: "handoff_step i ?w4 (OutputGranted r ''b'') ?w5"
    using grants [of ?w4 0 r "''b''" "?h3\<lparr>ho_authorized := True\<rparr>" i] keeps new by (simp add: stands_def move_def authorize_grant_def)
  have s6: "handoff_step i ?w5 Internal ?w6" using enters [of ?w5 chunk i] assms(3) new by simp
  have s7: "handoff_step i ?w6 Internal ?w7" using clears [of ?w6 chunk i] keeps new by (simp add: output_authorized_def)
  have s8: "handoff_step i ?w7 (Heard chunk) (?w7\<lparr>hw_publication := Free, hw_handoff := ?h8\<rparr>)" by (rule hears) simp
  note run = run_of.snoc [of "handoff_step i"]
  show ?thesis using run [OF run [OF run [OF run [OF run [OF run [OF run [OF run
    [OF run_of.start [of "handoff_step i" new_world] s1] s2] s3] s4] s5] s6] s7] s8] by blast
qed

section \<open>Properties\<close>

text \<open>
  C10. Nothing is heard without authority. In every interleaving of captions, deliveries and any number of commits and
  cancels, each event is justified by those before it. A chunk is heard only after output was granted. Output
  is granted only after a commit; for a coach's turn only after \<open>onCoachActive\<close> has accepted, not merely been
  given, a valid checkpoint of that very result; and where the reply is audible only after a publication right
  that was live and in time has become used up. A right is used only after such an acceptance. A commit
  begins only once, after the browser's signal, and with the final caption that was observed. (The code
  guards the second commit twice: by the flag, and because the first one takes the caption away.)
\<close>

theorem nothing_heard_before_authority:
  "{es. \<exists>i w. handoff_runs i es w} \<subseteq> {es. each_after authorised es}"
  using runs_in_order by auto

text \<open>
  C24. Once a commit that began, or a cancel, has returned, nothing more is heard: both wait for the delivery that is
  under way, and a later one finds no authority.\<close>

theorem nothing_heard_after_return:
  "{es. \<exists>i w. handoff_runs i es w} \<subseteq> {es. never_after is_return is_heard es}"
  using runs_in_order by auto

end
