(* ===== verification/Spec2Isabelle.thy ===== *)
theory Spec2Isabelle
  imports Scheduler GuestTrial SecurityFlow ShadowTrace ShadowSearch PcmCache SynthesisFlight PasskeyStore PasskeyService RateGuard MemoryConsent LongMemory
    MemoryDispatcher NativeSession Float64 AnswerBelief Go_Regexp QuestionGate AnswerContract Qarc Coach TurnContracts StateCodec CoachPolicy
    Sorted_Ranks AsrRisk AsrEval LatencyTrace CommitBuffer VoiceTurn CaptionHandoff
begin

text \<open>
  A verification development for the Go server under \<open>src/internal\<close>.

  \<^bold>\<open>The program.\<close> The server runs spoken dialogues with a language model that helps a speaker
  to state the conclusion first. Handlers (\<open>httpapi\<close>) feed voice pipelines (\<open>voiceflow\<close>,
  \<open>nativeflow\<close>, \<open>nativevoice\<close>) and the conversation agent (\<open>conversation\<close>, \<open>respondent\<close>,
  \<open>answercontract\<close>). The model only proposes: deterministic code around it decides what may be
  said and done. That code is what is modelled here, each part whole: who a user is (\<open>passkey\<close>), how
  often and how many times at once they may call (\<open>guard\<close>), what a guest may try (\<open>guesttrial\<close>),
  when the agent may speak on its own (\<open>initiativescheduler\<close>), which privileged actions a question
  authorises (\<open>securityflow\<close>, with its offline policy synthesiser \<open>shadowcut\<close>), what is remembered
  and with whose consent (\<open>longmemory\<close>), which questions are asked and what a coach may say
  (\<open>respondent\<close>, the coach policies of \<open>conversation\<close>), whether an answer is an answer
  (\<open>answercontract\<close>), how the state of a dialogue travels through the client (the sealed state of
  \<open>conversation\<close>), how synthesised speech is shared and kept (\<open>speechio\<close>), and the offline gates
  that decide a release (\<open>asrrisk\<close>, \<open>asreval\<close>, \<open>latencytrace\<close>).

  \<^bold>\<open>Theories and sources.\<close>
  \<^item> \<open>Prelude\<close>: results, Go's 64-bit arithmetic, instants, runs of a transition function, and three
    locales that the components share: \<open>invariant_system\<close> (an invariant that every step keeps holds
    after every run), \<open>token_ledger\<close> (tokens that are used at most as often as they are issued)
    and \<open>one_shot\<close> (an event that happens at most once). They are interpreted on the components'
    own transition functions.
  \<^item> \<open>Go_Text\<close>: the operations on byte strings that the source takes from Go's library: UTF-8
    decoding and validity, trimming, hexadecimal and base64 texts, decimal numbers, order of strings.
  \<^item> \<open>Go_Regexp\<close>: the regular expressions of the source as a datatype with the leftmost-first
    matching of Go's package.
  \<^item> \<open>Float64\<close>: the double-precision numbers of Go as rationals rounded to nearest, ties to even,
    operation by operation.
  \<^item> \<open>Scheduler\<close>: \<open>initiativescheduler\<close>. \<open>Decide\<close>, the lease of a decision, the publication
    authority (a state machine of prepare, commit and abort) and \<open>DecideOptions\<close>.
  \<^item> \<open>GuestTrial\<close>: \<open>guesttrial\<close>. The trial ledger with its transition function, the memory store,
    the Firestore store over documents with its codec, and the service with its evaluation.
  \<^item> \<open>SecurityFlow\<close>: \<open>securityflow.go\<close>. The guard's tables of bound requests, grants and leases,
    every operation on them, and the verified executor.
  \<^item> \<open>ShadowTrace\<close>, \<open>ShadowSearch\<close>: \<open>shadowcut\<close>. Traces as graphs and their validation; canonical
    forms, the search over control sets, certificates and their verification.
  \<^item> \<open>PcmCache\<close>, \<open>SynthesisFlight\<close>: \<open>streaming_pcm_cache.go\<close>, \<open>adaptive_tts_circuit.go\<close> and
    \<open>streaming_synthesis_flight.go\<close> of \<open>speechio\<close>. A subscriber with nothing to read waits on the
    flight's condition variable until one of the code's broadcasts.
  \<^item> \<open>PasskeyStore\<close>, \<open>PasskeyService\<close>: \<open>passkey\<close>. The in-memory store with its four tables, the
    recovery codes, and the ceremonies of the service over it.
  \<^item> \<open>RateGuard\<close>: \<open>guard\<close>. Quota counters and leases of live connections, in memory and on
    Firestore documents.
  \<^item> \<open>MemoryConsent\<close>, \<open>LongMemory\<close>, \<open>MemoryDispatcher\<close>: \<open>longmemory\<close>. The store of consented
    records with its fences, in memory and on Firestore; the manager with its capabilities and the
    sealed context of a session; the dispatcher with its queue and workers.
  \<^item> \<open>NativeSession\<close>: \<open>nativevoice\<close>. The state machine of a live session from the provider's events
    to the audio that is forwarded.
  \<^item> \<open>AnswerBelief\<close>: \<open>belief_controller.go\<close> and \<open>belief_state.go\<close> of \<open>respondent\<close>. The posterior
    over hypotheses of the answer, its stored form, and the plan of the next question.
  \<^item> \<open>QuestionGate\<close>: \<open>contracts.go\<close> and \<open>gate.go\<close> of \<open>respondent\<close>. The readings of an utterance
    and the gate that decides whether a question is answered.
  \<^item> \<open>AnswerContract\<close>: \<open>answercontract\<close>. The obligations of an answer, its evaluation and repair.
  \<^item> \<open>Qarc\<close>, \<open>Coach\<close>: \<open>qarc.go\<close> and \<open>coach.go\<close> of \<open>respondent\<close>. The risk controller of a coach
    turn with its certificate; the coach with its fixed texts.
  \<^item> \<open>TurnContracts\<close>, \<open>StateCodec\<close>: \<open>contracts.go\<close>, \<open>state.go\<close>, \<open>support.go\<close>, \<open>native_state.go\<close>
    and \<open>session_memory.go\<close> of \<open>conversation\<close>. The state of a dialogue, its normalisation and
    validation; the codec that seals it, binds it to a user and a session, and opens it again.
  \<^item> \<open>CoachPolicy\<close>: \<open>verifier_progress_observation.go\<close>, \<open>qarc_cue_renderer.go\<close>,
    \<open>qarc_coach_policy.go\<close> and \<open>answer_proof.go\<close> of \<open>conversation\<close>. What the agent makes of a
    verifier's reading, the cues it may speak, and when a first answer stands.
  \<^item> \<open>Sorted_Ranks\<close>, \<open>AsrRisk\<close>, \<open>AsrEval\<close>, \<open>LatencyTrace\<close>: nearest ranks of a sorted list; the
    conformal risk controller of recognitions (\<open>asrrisk\<close>); the evaluation of a recogniser on a
    corpus (\<open>asreval\<close>); the evaluation of latency traces (\<open>latencytrace\<close>).
  \<^item> \<open>CommitBuffer\<close>: the commit buffer of \<open>voiceflow.go\<close>, with the interleavings of its writer, its release
    and those who discard it.
  \<^item> \<open>VoiceTurn\<close>, \<open>CaptionHandoff\<close>: a buffered turn of \<open>voiceflow.go\<close> from recognition to the reply,
    with the rules of speculation and the strict boundary of \<open>privacyguard\<close>; and \<open>caption_handoff.go\<close>,
    with the interleavings of captions, deliveries and any number of commits and cancels. The answers of
    the checkpoint callback and the state of the publication right are in the labels of its runs.
  \<^bold>\<open>Correspondence.\<close> A Go struct is a record with its fields, an enumeration of strings is a
  datatype with a constructor for any other string, a byte slice or string is a list of characters
  that are bytes, and a map is a partial function. A method is one definition from the old state to
  the new one and its result; an error is a value of the component's error datatype, so that every
  early return is a branch. A method that holds a mutex or runs in a transaction is one atomic step,
  and what other goroutines do in between is another step of the run: the theorems about runs
  quantify over all sequences of calls. A 64-bit integer is an \<open>int\<close> with the wrap-around written
  out (\<open>wrap64\<close>) where a value can leave the range, and a plain \<open>int\<close> where the code's own checks
  keep it small.

  \<^bold>\<open>Parameters.\<close> HMAC and SHA-256, authenticated encryption, the JSON codec, the random source, the
  clock, the error of a context, the file system, Unicode's tables and normal forms, logarithms of
  Go's \<open>math\<close>, the WebAuthn and Firebase libraries and the language model's verdicts are arguments
  of the definitions, and the theorems hold for every value of them. Where one needs more (two inputs
  with different hashes, a random source that gives 32 bytes, a cipher that opens what it sealed) it
  says so as a hypothesis, and its witness shows one instance. The file system is one function, so a
  file that changes between two calls of \<open>os\<close> in one operation is not covered.

  \<^bold>\<open>What the lemmas show.\<close> Of each component: what every operation does to the state on every
  branch, the invariant of its state and that every operation keeps it, and from these the
  properties, which follow a text that starts with C and a number. Stores have an abstract
  counterpart: the Firestore stores refine the memory stores, the PCM cache refines a recency list, the
  graph searches agree with reachability, the synthesiser with the optimum over all control sets, the
  edit distance with the least number of edits.

  \<^bold>\<open>Bounds and fuel.\<close> The searches of \<open>ShadowTrace\<close> follow edges to smaller node numbers; their fuel
  is the number of nodes, and \<open>chain_walk_terminates\<close> shows that it is enough on every
  validated trace. A starred regular expression is unrolled at most once per character of the text,
  which is enough because every round must consume one. The loop that hands out the rest of a
  posterior's scale counts down what is left, and the reader of unique JSON values has the number of
  tokens as its fuel. Every other loop is structural recursion over the slice it ranges over.
  Double-precision operations are rounded one by one: a compiler that fuses a multiplication and an
  addition is not modelled.

  \<^bold>\<open>Not modelled.\<close> Nil receivers, which every method checks for by returning an error. Handlers,
  provider sessions and prompts: input and output around the modelled parts. The Firestore client of
  the passkey store, whose contract the memory store has. Configuration and wire types. The Rust and
  JavaScript clients. The manifest names each with its reason.
\<close>

end
